(* ===== verification/Prelude.thy ===== *)
theory Prelude
  imports Main "HOL-Library.Word" "HOL-Library.Monad_Syntax"
begin

text \<open>
  What every component of the model shares: C integers at their width, bytes and the byte
  addressed memory, C strings, and the lemma collections the component proofs are run with.

  Integers of the C code are HOL integers and every conversion to a narrower type is written
  out: \<open>u32\<close> is the conversion to \<open>uint32_t\<close>, \<open>u64\<close> the one to \<open>size_t\<close> and \<open>u64\<close>, and \<open>s32\<close> the
  conversion to \<open>int\<close> (two's complement). Only the word-at-a-time \<open>memchr\<close>
  works on \<open>64 word\<close> values.

  Memory is a total function from addresses to bytes. A pointer is its address; a pointer that
  the code compares with \<open>NULL\<close> is an \<open>option\<close>. A C string passed as an argument is the list of
  its bytes, the terminating NUL left out.
\<close>

unbundle bit_operations_syntax

named_theorems wrap_simps \<open>conversions between integer widths that change nothing\<close>
named_theorems mem_simps \<open>reading a memory after a write\<close>
named_theorems fdt_simps \<open>the device tree functions, unfolded one step\<close>

type_synonym byte = "8 word"
type_synonym addr = int
type_synonym mem = "int \<Rightarrow> byte"

section \<open>Integers at their width\<close>

definition u32 :: "int \<Rightarrow> int" where
  "u32 x = x mod 4294967296"

definition u64 :: "int \<Rightarrow> int" where
  "u64 x = x mod 18446744073709551616"

definition s32 :: "int \<Rightarrow> int" where
  "s32 x = (x + 2147483648) mod 4294967296 - 2147483648"

abbreviation (input) INT_MAX :: int where "INT_MAX \<equiv> 2147483647"
abbreviation (input) UINT32_MAX :: int where "UINT32_MAX \<equiv> 4294967295"

lemma u32_bounds [simp]: "0 \<le> u32 x" "u32 x < 4294967296"
  by (simp_all add: u32_def)

lemma u32_le_max [simp]: "u32 x \<le> 4294967295"
  using u32_bounds(2)[of x] by linarith

lemma u64_bounds [simp]: "0 \<le> u64 x" "u64 x < 18446744073709551616"
  by (simp_all add: u64_def)

lemma s32_bounds [simp]: "- 2147483648 \<le> s32 x" "s32 x < 2147483648"
proof -
  have "(x + 2147483648) mod 4294967296 < 4294967296" "0 \<le> (x + 2147483648) mod 4294967296"
    by simp_all
  then show "- 2147483648 \<le> s32 x" "s32 x < 2147483648"
    unfolding s32_def by linarith+
qed

lemma s32_le_max [simp]: "s32 x \<le> 2147483647"
  using s32_bounds(2)[of x] by linarith

lemma u32_id [wrap_simps]: "0 \<le> x \<Longrightarrow> x < 4294967296 \<Longrightarrow> u32 x = x"
  by (simp add: u32_def)

lemma u64_id [wrap_simps]: "0 \<le> x \<Longrightarrow> x < 18446744073709551616 \<Longrightarrow> u64 x = x"
  by (simp add: u64_def)

lemma s32_id [wrap_simps]: "- 2147483648 \<le> x \<Longrightarrow> x < 2147483648 \<Longrightarrow> s32 x = x"
  by (simp add: s32_def)

lemma u32_neg: "x < 0 \<Longrightarrow> - 4294967296 \<le> x \<Longrightarrow> u32 x = x + 4294967296"
  unfolding u32_def by (subst mod_add_self2 [symmetric]) (rule mod_pos_pos_trivial, auto)

lemma s32_big: "2147483648 \<le> x \<Longrightarrow> x < 6442450944 \<Longrightarrow> s32 x = x - 4294967296"
  unfolding s32_def by (subst minus_mod_self2 [symmetric], subst mod_pos_pos_trivial) auto

lemma u32_wrapped: "4294967296 \<le> x \<Longrightarrow> x < 8589934592 \<Longrightarrow> u32 x = x - 4294967296"
  unfolding u32_def by (subst minus_mod_self2 [symmetric]) (rule mod_pos_pos_trivial, auto)

text \<open>The overflow test \<open>a + b < a\<close> on unsigned integers finds every wrap-around.\<close>

lemma u32_add_nowrap:
  assumes "0 \<le> a" "a < 4294967296" "0 \<le> b" "b < 4294967296" "a \<le> u32 (a + b)"
  shows "u32 (a + b) = a + b" "a + b < 4294967296"
proof -
  show "a + b < 4294967296"
    using assms u32_wrapped [of "a + b"] by (cases "a + b < 4294967296") auto
  then show "u32 (a + b) = a + b" using assms by (simp add: u32_id)
qed

lemma u32_u32 [simp]: "u32 (u32 x) = u32 x"
  by (simp add: u32_def)

lemma s32_s32 [simp]: "s32 (s32 x) = s32 x"
  by (simp add: wrap_simps)

lemma u32_s32 [simp]: "u32 (s32 x) = u32 x"
  by (simp add: u32_def s32_def mod_diff_left_eq)

lemma s32_u32 [simp]: "s32 (u32 x) = s32 x"
  by (simp add: u32_def s32_def mod_add_left_eq)

lemma u32_add_u32 [simp]: "u32 (u32 x + y) = u32 (x + y)" "u32 (x + u32 y) = u32 (x + y)"
  by (simp_all add: u32_def mod_add_left_eq mod_add_right_eq)

text \<open>Clearing the low \<open>n\<close> bits rounds down to a multiple of \<open>2 ^ n\<close>.\<close>

lemma and_not_mask_push: "x AND NOT (mask n) = push_bit n (drop_bit n x)"
  for x :: "'a :: ring_bit_operations"
  by (rule bit_eqI) (auto simp: bit_simps)

lemma and_not_mask_int: "x AND NOT (mask n) = 2 ^ n * (x div 2 ^ n)" for x :: int
  by (simp add: and_not_mask_push push_bit_eq_mult drop_bit_eq_div)

section \<open>Bytes, words in memory\<close>

definition byte_of :: "int \<Rightarrow> byte" where
  "byte_of v = word_of_int v"

lemma uint_byte_bounds [simp]: "0 \<le> uint (b :: byte)" "uint (b :: byte) < 256" "uint (b :: byte) \<le> 255"
  using uint_lt2p [of b] by simp_all

lemma uint_numeral_byte: "uint (0xdf :: byte) = 0xdf"
  by simp

lemma uint_byte_of [simp]: "uint (byte_of v) = v mod 256"
  by (simp add: byte_of_def uint_word_of_int)

text \<open>The bytes of \<open>n\<close> consecutive addresses, as a list.\<close>

definition bytes_at :: "mem \<Rightarrow> addr \<Rightarrow> nat \<Rightarrow> byte list" where
  "bytes_at m p n = map (\<lambda>i. m (p + int i)) [0..<n]"

text \<open>A memory that holds a list of bytes at an address and zeroes elsewhere.\<close>

definition mem_of :: "addr \<Rightarrow> byte list \<Rightarrow> mem" where
  "mem_of base xs = (\<lambda>a. if base \<le> a \<and> a < base + int (length xs) then xs ! nat (a - base) else 0)"

text \<open>Writing a list of bytes at an address.\<close>

definition put_bytes :: "mem \<Rightarrow> addr \<Rightarrow> byte list \<Rightarrow> mem" where
  "put_bytes m p xs = (\<lambda>a. if p \<le> a \<and> a < p + int (length xs) then xs ! nat (a - p) else m a)"

lemma length_bytes_at [simp]: "length (bytes_at m p n) = n"
  by (simp add: bytes_at_def)

lemma nth_bytes_at [simp]: "i < n \<Longrightarrow> bytes_at m p n ! i = m (p + int i)"
  by (simp add: bytes_at_def)

lemma bytes_at_0 [simp]: "bytes_at m p 0 = []"
  by (simp add: bytes_at_def)

lemma bytes_at_Suc: "bytes_at m p (Suc n) = m p # bytes_at m (p + 1) n"
  by (rule nth_equalityI) (auto simp: nth_Cons add.assoc split: nat.splits)

lemma bytes_at_add: "bytes_at m p (i + j) = bytes_at m p i @ bytes_at m (p + int i) j"
  by (rule nth_equalityI) (auto simp: nth_append add.assoc of_nat_diff)

lemma bytes_at_eqI:
  assumes "\<And>a. p \<le> a \<Longrightarrow> a < p + int n \<Longrightarrow> m a = m' a"
  shows "bytes_at m p n = bytes_at m' p n"
  using assms by (intro nth_equalityI) auto

lemma bytes_at_put_bytes_same [simp]: "bytes_at (put_bytes m p xs) p (length xs) = xs"
  by (rule nth_equalityI) (auto simp: put_bytes_def)

lemma put_bytes_outside [mem_simps]:
  "a < p \<or> p + int (length xs) \<le> a \<Longrightarrow> put_bytes m p xs a = m a"
  by (auto simp: put_bytes_def)

text \<open>Two memories agree on an interval of addresses.\<close>

definition agree :: "addr \<Rightarrow> addr \<Rightarrow> mem \<Rightarrow> mem \<Rightarrow> bool" where
  "agree lo hi m m' \<longleftrightarrow> (\<forall>a. lo \<le> a \<longrightarrow> a < hi \<longrightarrow> m a = m' a)"

lemma agreeD [dest]: "agree lo hi m m' \<Longrightarrow> lo \<le> a \<Longrightarrow> a < hi \<Longrightarrow> m a = m' a"
  by (simp add: agree_def)

lemma agreeI [intro]: "(\<And>a. lo \<le> a \<Longrightarrow> a < hi \<Longrightarrow> m a = m' a) \<Longrightarrow> agree lo hi m m'"
  by (simp add: agree_def)

lemma agree_refl [simp]: "agree lo hi m m"
  by auto

lemma agree_sym: "agree lo hi m m' \<Longrightarrow> agree lo hi m' m"
  by (auto simp: agree_def)

lemma agree_trans: "agree lo hi m m' \<Longrightarrow> agree lo hi m' m'' \<Longrightarrow> agree lo hi m m''"
  by (auto simp: agree_def)

lemma agree_subset: "agree lo hi m m' \<Longrightarrow> lo \<le> lo' \<Longrightarrow> hi' \<le> hi \<Longrightarrow> agree lo' hi' m m'"
  by (auto simp: agree_def)

lemma bytes_at_agree:
  "agree lo hi m m' \<Longrightarrow> lo \<le> p \<Longrightarrow> p + int n \<le> hi \<Longrightarrow> bytes_at m p n = bytes_at m' p n"
  by (rule bytes_at_eqI) (simp add: agree_def)

text \<open>An operation changes nothing outside an interval of addresses.\<close>

definition unchanged_outside :: "addr \<Rightarrow> addr \<Rightarrow> mem \<Rightarrow> mem \<Rightarrow> bool" where
  "unchanged_outside lo hi m m' \<longleftrightarrow> (\<forall>a. a < lo \<or> hi \<le> a \<longrightarrow> m' a = m a)"

lemma unchanged_outsideD [dest]: "unchanged_outside lo hi m m' \<Longrightarrow> a < lo \<or> hi \<le> a \<Longrightarrow> m' a = m a"
  by (auto simp: unchanged_outside_def)

lemma unchanged_outsideI [intro]:
  "(\<And>a. a < lo \<or> hi \<le> a \<Longrightarrow> m' a = m a) \<Longrightarrow> unchanged_outside lo hi m m'"
  by (auto simp: unchanged_outside_def)

lemma unchanged_outside_refl [simp]: "unchanged_outside lo hi m m"
  by auto

lemma unchanged_outside_trans:
  "unchanged_outside lo hi m m' \<Longrightarrow> unchanged_outside lo hi m' m'' \<Longrightarrow> unchanged_outside lo hi m m''"
  by (auto simp: unchanged_outside_def)

lemma unchanged_outside_mono:
  "unchanged_outside lo hi m m' \<Longrightarrow> lo' \<le> lo \<Longrightarrow> hi \<le> hi' \<Longrightarrow> unchanged_outside lo' hi' m m'"
  by (auto simp: unchanged_outside_def)

section \<open>C strings\<close>

text \<open>
  The bytes of a string literal. Plain \<open>char\<close> is unsigned on RISC-V, so a character is the byte
  with its code.
\<close>

definition str :: "string \<Rightarrow> byte list" where
  "str s = map of_char s"

lemma length_str [simp]: "length (str s) = length s"
  by (simp add: str_def)

text \<open>
  \<open>*p\<close> where the pointer \<open>p\<close> is the suffix of a string: the first byte, or the terminating NUL.
\<close>

definition deref :: "byte list \<Rightarrow> byte" where
  "deref s = (case s of [] \<Rightarrow> 0 | c # _ \<Rightarrow> c)"

lemma deref_simps [simp]: "deref [] = 0" "deref (c # s) = c"
  by (simp_all add: deref_def)

text \<open>A C string in its list form has no NUL among its bytes.\<close>

definition is_cstr :: "byte list \<Rightarrow> bool" where
  "is_cstr s \<longleftrightarrow> 0 \<notin> set s"

end
