(* ===== verification/Memops.thy ===== *)
theory Memops
  imports Prelude
begin

text \<open>
  The memory primitives of \<open>lib/init.c\<close>: \<open>memset\<close>, \<open>memcpy\<close>, \<open>memmove\<close>, \<open>memchr\<close>, \<open>memcmp\<close> and
  \<open>memrchr\<close>, each as the loop the C code runs, and the lemmas that say what the loop computes.
  A count is the number of iterations left, a pointer is an address.
\<close>

section \<open>Filling and copying\<close>

primrec memset :: "mem \<Rightarrow> addr \<Rightarrow> byte \<Rightarrow> nat \<Rightarrow> mem" where
  "memset m p c 0 = m"
| "memset m p c (Suc n) = memset (m(p := c)) (p + 1) c n"

primrec memcpy :: "mem \<Rightarrow> addr \<Rightarrow> addr \<Rightarrow> nat \<Rightarrow> mem" where
  "memcpy m p q 0 = m"
| "memcpy m p q (Suc n) = memcpy (m(p := m q)) (p + 1) (q + 1) n"

text \<open>The loop \<open>while (size--) *--_dst = *--_src\<close>, which runs from the last byte to the first.\<close>

primrec memmove_back :: "mem \<Rightarrow> addr \<Rightarrow> addr \<Rightarrow> nat \<Rightarrow> mem" where
  "memmove_back m dst src 0 = m"
| "memmove_back m dst src (Suc n) = memmove_back (m(dst + int n := m (src + int n))) dst src n"

definition memmove :: "mem \<Rightarrow> addr \<Rightarrow> addr \<Rightarrow> nat \<Rightarrow> mem" where
  "memmove m dst src n =
     (if n = 0 then m
      else if dst \<le> src then memcpy m dst src n
      else memmove_back m dst src n)"

text \<open>The copy all bytes of which are read before any is written.\<close>

definition copied :: "mem \<Rightarrow> addr \<Rightarrow> addr \<Rightarrow> nat \<Rightarrow> mem" where
  "copied m dst src n = (\<lambda>a. if dst \<le> a \<and> a < dst + int n then m (src + (a - dst)) else m a)"

lemma memset_fill [code]:
  "memset m p c n = (\<lambda>a. if p \<le> a \<and> a < p + int n then c else m a)"
proof (induction n arbitrary: m p)
  case 0
  show ?case by (auto simp: fun_eq_iff)
next
  case (Suc n)
  show ?case by (rule ext) (auto simp: Suc.IH)
qed

lemma memcpy_copied:
  "dst \<le> src \<or> src + int n \<le> dst \<Longrightarrow> memcpy m dst src n = copied m dst src n"
proof (induction n arbitrary: m dst src)
  case 0
  show ?case by (auto simp: copied_def fun_eq_iff)
next
  case (Suc n)
  from Suc.prems have "dst + 1 \<le> src + 1 \<or> src + 1 + int n \<le> dst + 1" by auto
  then have IH: "memcpy (m(dst := m src)) (dst + 1) (src + 1) n
      = copied (m(dst := m src)) (dst + 1) (src + 1) n"
    by (rule Suc.IH)
  have "copied (m(dst := m src)) (dst + 1) (src + 1) n = copied m dst src (Suc n)"
    using Suc.prems by (auto simp: copied_def fun_eq_iff)
  then show ?case by (simp add: IH)
qed

lemma memmove_back_copied: "src \<le> dst \<Longrightarrow> memmove_back m dst src n = copied m dst src n"
proof (induction n arbitrary: m)
  case 0
  show ?case by (auto simp: copied_def fun_eq_iff)
next
  case (Suc n)
  have "copied (m(dst + int n := m (src + int n))) dst src n = copied m dst src (Suc n)"
    using Suc.prems by (auto simp: copied_def fun_eq_iff)
  then show ?case by (simp add: Suc.IH [OF Suc.prems] del: fun_upd_apply)
qed

lemma memmove_copied: "memmove m dst src n = copied m dst src n"
  by (auto simp: memmove_def memcpy_copied memmove_back_copied copied_def fun_eq_iff)

declare memmove_copied [code]

lemma bytes_at_copied [mem_simps]: "bytes_at (copied m dst src n) dst n = bytes_at m src n"
  by (rule nth_equalityI) (auto simp: copied_def)

lemma copied_outside [mem_simps]: "a < dst \<or> dst + int n \<le> a \<Longrightarrow> copied m dst src n a = m a"
  by (auto simp: copied_def)

lemma copied_inside [mem_simps]:
  "dst \<le> a \<Longrightarrow> a < dst + int n \<Longrightarrow> copied m dst src n a = m (src + (a - dst))"
  by (auto simp: copied_def)

lemma copied_0 [simp]: "copied m dst src 0 = m"
  by (auto simp: copied_def fun_eq_iff)

lemma copied_same [simp]: "copied m p p n = m"
  by (auto simp: copied_def fun_eq_iff)

section \<open>Searching and comparing\<close>

text \<open>
  \<open>memchr\<close> runs byte by byte up to an 8-aligned address, then a word at a time with the
  \<open>HASZERO\<close> test, then byte by byte again.
\<close>

definition ONES :: "64 word" where "ONES = 0x0101010101010101"
definition HIGHS :: "64 word" where "HIGHS = 0x8080808080808080"

definition HASZERO :: "64 word \<Rightarrow> 64 word" where
  "HASZERO x = (x - ONES) AND NOT x AND HIGHS"

text \<open>An aligned load of a \<open>size_t\<close>, little endian.\<close>

definition ld64le :: "mem \<Rightarrow> addr \<Rightarrow> 64 word" where
  "ld64le m p = word_of_int (horner_sum uint 256 (bytes_at m p 8))"

primrec memchr_align :: "mem \<Rightarrow> addr \<Rightarrow> byte \<Rightarrow> nat \<Rightarrow> addr \<times> nat" where
  "memchr_align m s c 0 = (s, 0)"
| "memchr_align m s c (Suc n) =
     (if s AND 7 \<noteq> 0 \<and> m s \<noteq> c then memchr_align m (s + 1) c n else (s, Suc n))"

fun memchr_words :: "mem \<Rightarrow> addr \<Rightarrow> 64 word \<Rightarrow> nat \<Rightarrow> addr \<times> nat" where
  "memchr_words m w k n =
     (if 8 \<le> n \<and> HASZERO (ld64le m w XOR k) = 0 then memchr_words m (w + 8) k (n - 8) else (w, n))"

primrec memchr_bytes :: "mem \<Rightarrow> addr \<Rightarrow> byte \<Rightarrow> nat \<Rightarrow> addr option" where
  "memchr_bytes m s c 0 = None"
| "memchr_bytes m s c (Suc n) = (if m s = c then Some s else memchr_bytes m (s + 1) c n)"

definition memchr :: "mem \<Rightarrow> addr \<Rightarrow> byte \<Rightarrow> nat \<Rightarrow> addr option" where
  "memchr m src c n =
     (let (s, n) = memchr_align m src c n;
          (s, n) = (if n \<noteq> 0 \<and> m s \<noteq> c then memchr_words m s (ONES * ucast c) n else (s, n))
      in memchr_bytes m s c n)"

primrec memcmp :: "mem \<Rightarrow> addr \<Rightarrow> addr \<Rightarrow> nat \<Rightarrow> int" where
  "memcmp m l r 0 = 0"
| "memcmp m l r (Suc n) =
     (if m l = m r then memcmp m (l + 1) (r + 1) n else uint (m l) - uint (m r))"

primrec memrchr :: "mem \<Rightarrow> addr \<Rightarrow> byte \<Rightarrow> nat \<Rightarrow> addr option" where
  "memrchr m s c 0 = None"
| "memrchr m s c (Suc n) = (if m (s + int n) = c then Some (s + int n) else memrchr m s c n)"

subsection \<open>The word-at-a-time zero test\<close>

lemma low_bytes_nonzero:
  fixes X :: int
  assumes "\<forall>j<i. (X div 256 ^ j) mod 256 \<noteq> 0"
  shows "256 ^ i - 1 \<le> 255 * (X mod 256 ^ i)"
  using assms
proof (induction i)
  case 0
  then show ?case by simp
next
  case (Suc i)
  then have IH: "256 ^ i - 1 \<le> 255 * (X mod 256 ^ i)" by simp
  have "1 \<le> (X div 256 ^ i) mod 256"
    using Suc.prems by (metis lessI pos_mod_sign zless_imp_add1_zle add_0 le_less zero_less_numeral)
  then have "256 ^ i * 1 \<le> 256 ^ i * ((X div 256 ^ i) mod 256)"
    by (intro mult_left_mono) simp_all
  moreover define P where "P = 256 ^ i * ((X div 256 ^ i) mod 256)"
  moreover have "X mod (256 ^ i * 256) = 256 ^ i * ((X div 256 ^ i) mod 256) + X mod 256 ^ i"
    by (rule zmod_zmult2_eq) simp
  ultimately have "256 ^ i \<le> P" "X mod (256 ^ i * 256) = P + X mod 256 ^ i" by simp_all
  moreover have "A * 256 - 1 \<le> 255 * (P + r)" if "A - 1 \<le> 255 * r" "A \<le> P" for A r :: int
    using that by simp
  ultimately show ?case using IH by (simp only: power_Suc2)
qed

lemma ONES_low: "i < 8 \<Longrightarrow> 255 * (uint ONES mod (256 ^ i * 256)) = 256 ^ i * 256 - 1"
proof -
  assume "i < 8"
  then consider "i = 0" | "i = 1" | "i = 2" | "i = 3" | "i = 4" | "i = 5" | "i = 6" | "i = 7"
    by linarith
  then show ?thesis by cases (simp_all add: ONES_def)
qed

lemma HIGHS_bit: "i < 8 \<Longrightarrow> bit HIGHS (8 * i + 7)"
proof -
  assume "i < 8"
  then consider "i = 0" | "i = 1" | "i = 2" | "i = 3" | "i = 4" | "i = 5" | "i = 6" | "i = 7"
    by linarith
  then show ?thesis by cases (simp_all add: HIGHS_def)
qed

lemma HASZERO_lowest:
  fixes x :: "64 word"
  assumes i: "i < 8" and zero: "(uint x div 256 ^ i) mod 256 = 0"
    and low: "\<forall>j<i. (uint x div 256 ^ j) mod 256 \<noteq> 0"
  shows "HASZERO x \<noteq> 0"
proof -
  define A :: int where "A = 256 ^ i"
  define k where "k = 8 * i + 7"
  define z where "z = uint x mod A"
  define b where "b = uint ONES mod (A * 256)"
  have A: "0 < A" "A * 256 = 2 ^ Suc k" "A * 128 = 2 ^ k"
    by (simp_all add: A_def k_def power_add power_mult)
  have z: "A - 1 \<le> 255 * z" "0 \<le> z" "z < A"
    using low_bytes_nonzero [OF low] A by (simp_all add: A_def z_def)
  have b: "255 * b = A * 256 - 1"
    using ONES_low [OF i] by (simp add: A_def b_def)
  have X: "uint x mod (A * 256) = z"
    using zmod_zmult2_eq [of 256 "uint x" A] zero by (simp add: z_def A_def)
  have "(uint x - uint ONES) mod (A * 256) = (z - b) mod (A * 256)"
    by (metis X b_def mod_diff_eq)
  also have "\<dots> = (z - b + A * 256) mod (A * 256)" by simp
  also have "\<dots> = z - b + A * 256"
    by (rule mod_pos_pos_trivial) (use z b A in linarith)+
  finally have diff: "(uint x - uint ONES) mod (A * 256) = z - b + A * 256" .
  have "take_bit (Suc k) (uint x - uint ONES) div 2 ^ k = 1"
    unfolding take_bit_eq_mod A(2) [symmetric] A(3) [symmetric] diff
    by (rule int_div_pos_eq [where r = "z - b + A * 128"]) (use z b A in linarith)+
  then have "bit (uint x - uint ONES) k"
    by (metis bit_iff_odd bit_take_bit_iff odd_one)
  moreover have "\<not> bit (uint x) k"
  proof -
    have "take_bit (Suc k) (uint x) div 2 ^ k = 0"
      unfolding take_bit_eq_mod A(2) [symmetric] A(3) [symmetric] X
      by (rule div_pos_pos_trivial) (use z A in linarith)+
    then show ?thesis by (metis bit_iff_odd bit_take_bit_iff even_zero lessI)
  qed
  moreover have "k < 64" using i by (simp add: k_def)
  ultimately have "bit (x - ONES) k" and "\<not> bit x k"
    unfolding word_sub_wi bit_word_of_int_iff bit_uint_iff by simp_all
  then have "bit (HASZERO x) k"
    using HIGHS_bit [OF i] i by (simp add: HASZERO_def bit_and_iff bit_not_iff k_def)
  then show ?thesis by auto
qed

lemma HASZERO_complete:
  fixes x :: "64 word"
  assumes "i < 8" and "(uint x div 256 ^ i) mod 256 = 0"
  shows "HASZERO x \<noteq> 0"
proof -
  define Z where "Z l \<longleftrightarrow> (uint x div 256 ^ l) mod 256 = 0" for l
  obtain l where l: "Z l" "\<forall>j<l. \<not> Z j" "l \<le> i"
    using exists_least_iff [of Z] assms(2) Z_def by (metis not_le)
  show ?thesis
    by (rule HASZERO_lowest [of l]) (use l assms(1) in \<open>auto simp: Z_def\<close>)
qed

subsection \<open>\<open>memchr\<close> finds the first occurrence\<close>

lemma memchr_bytes_Some:
  "memchr_bytes m s c n = Some p \<longleftrightarrow>
     s \<le> p \<and> p < s + int n \<and> m p = c \<and> (\<forall>a. s \<le> a \<and> a < p \<longrightarrow> m a \<noteq> c)"
proof (induction n arbitrary: s)
  case 0
  then show ?case by auto
next
  case (Suc n)
  show ?case
  proof (cases "m s = c")
    case True
    then show ?thesis by (auto simp: order.order_iff_strict)
  next
    case False
    then have "s \<le> a \<and> m a = c \<longleftrightarrow> s + 1 \<le> a \<and> m a = c" for a
      by (auto simp: add1_zle_eq order.order_iff_strict)
    then have "(s \<le> p \<and> p < s + int (Suc n) \<and> m p = c \<and> (\<forall>a. s \<le> a \<and> a < p \<longrightarrow> m a \<noteq> c)) \<longleftrightarrow>
        (s + 1 \<le> p \<and> p < s + 1 + int n \<and> m p = c \<and> (\<forall>a. s + 1 \<le> a \<and> a < p \<longrightarrow> m a \<noteq> c))"
      by (smt (verit) of_nat_Suc)
    with False Suc.IH [of "s + 1"] show ?thesis by simp
  qed
qed

lemma memchr_bytes_None:
  "memchr_bytes m s c n = None \<longleftrightarrow> (\<forall>a. s \<le> a \<and> a < s + int n \<longrightarrow> m a \<noteq> c)"
proof (induction n arbitrary: s)
  case 0
  then show ?case by auto
next
  case (Suc n)
  have "s \<le> a \<and> a < s + int (Suc n) \<longleftrightarrow> a = s \<or> s + 1 \<le> a \<and> a < s + 1 + int n" for a
    by auto
  then show ?case by (auto simp: Suc.IH)
qed

text \<open>Skipping bytes that are not the one searched for does not change the result.\<close>

lemma memchr_bytes_skip:
  "i \<le> n \<Longrightarrow> (\<And>a. s \<le> a \<Longrightarrow> a < s + int i \<Longrightarrow> m a \<noteq> c) \<Longrightarrow>
   memchr_bytes m (s + int i) c (n - i) = memchr_bytes m s c n"
proof (induction i arbitrary: s n)
  case 0
  then show ?case by simp
next
  case (Suc i)
  from Suc.prems(1) obtain n' where n: "n = Suc n'" "i \<le> n'" by (cases n) auto
  have "memchr_bytes m (s + 1 + int i) c (n' - i) = memchr_bytes m (s + 1) c n'"
    using n(2) Suc.prems(2) by (intro Suc.IH) auto
  moreover have "m s \<noteq> c" using Suc.prems(2) by auto
  ultimately show ?case by (simp add: n(1) algebra_simps)
qed

lemma memchr_align_bytes:
  "memchr_align m s c n = (s', n') \<Longrightarrow> memchr_bytes m s' c n' = memchr_bytes m s c n"
  by (induction n arbitrary: s) (auto split: if_splits)

lemma horner_bytes_bounds:
  "0 \<le> horner_sum uint 256 (bs :: byte list)" "horner_sum uint 256 bs < 256 ^ length bs"
proof (induction bs)
  case Nil
  { case 1 show ?case by simp }
  { case 2 show ?case by simp }
next
  case (Cons b bs)
  { case 1 show ?case using Cons by simp }
  { case 2
    have "horner_sum uint 256 bs + 1 \<le> 256 ^ length bs" using Cons by simp
    then show ?case using uint_byte_bounds [of b]
      unfolding horner_sum_simps length_Cons power_Suc by linarith }
qed

lemma horner_bytes_nth:
  "i < length bs \<Longrightarrow> (horner_sum uint 256 (bs :: byte list) div 256 ^ i) mod 256 = uint (bs ! i)"
proof (induction bs arbitrary: i)
  case Nil
  then show ?case by simp
next
  case (Cons b bs)
  have head: "horner_sum uint 256 (b # bs) div 256 = horner_sum uint 256 bs"
    by (simp add: div_add_self1 div_pos_pos_trivial)
  show ?case
  proof (cases i)
    case 0
    have "(uint b + 256 * horner_sum uint 256 bs) mod 256 = uint b mod 256" by simp
    then show ?thesis using 0 by (simp add: mod_pos_pos_trivial)
  next
    case (Suc j)
    have "horner_sum uint 256 (b # bs) div 256 ^ i = horner_sum uint 256 bs div 256 ^ j"
      using head by (metis Suc power_Suc zdiv_zmult2_eq zero_le_numeral zero_le_power)
    with Cons Suc show ?thesis by simp
  qed
qed

lemma ld64le_byte:
  "i < 8 \<Longrightarrow> (uint (ld64le m p) div 256 ^ i) mod 256 = uint (m (p + int i))"
proof -
  assume "i < 8"
  have "uint (ld64le m p) = horner_sum uint 256 (bytes_at m p 8)"
    using horner_bytes_bounds [of "bytes_at m p 8"]
    by (simp add: ld64le_def uint_word_of_int)
  with \<open>i < 8\<close> show ?thesis by (simp add: horner_bytes_nth)
qed

lemma ONES_byte:
  assumes "i < 8"
  shows "(uint (ONES * ucast (c :: byte)) div 256 ^ i) mod 256 = uint c"
proof -
  have "uint (ONES * ucast c) = 0x0101010101010101 * uint c"
  proof -
    have "uint c mod 18446744073709551616 = uint c"
      and "(0x0101010101010101 * uint c) mod 18446744073709551616 = 0x0101010101010101 * uint c"
      using uint_byte_bounds [of c] by (intro mod_pos_pos_trivial; linarith)+
    then show ?thesis
      by (simp add: ONES_def uint_word_ariths unsigned_ucast_eq take_bit_eq_mod)
  qed
  also have "\<dots> = horner_sum uint 256 (replicate 8 c)"
    by (simp add: numeral_eq_Suc)
  finally show ?thesis using assms horner_bytes_nth [of i "replicate 8 c"] by simp
qed

lemma xor_byte:
  fixes x y :: "64 word"
  assumes "(uint x div 256 ^ i) mod 256 = (uint y div 256 ^ i) mod 256"
  shows "(uint (x XOR y) div 256 ^ i) mod 256 = 0"
proof -
  have "(a div 256 ^ i) mod 256 = take_bit 8 (drop_bit (8 * i) a)" for a :: int
    by (simp add: take_bit_eq_mod drop_bit_eq_div power_mult)
  with assms show ?thesis
    by (simp add: uint_xor take_bit_xor drop_bit_xor)
qed

lemma memchr_words_bytes:
  "memchr_words m w (ONES * ucast c) n = (w', n') \<Longrightarrow> memchr_bytes m w' c n' = memchr_bytes m w c n"
proof (induction m w "ONES * ucast c :: 64 word" n rule: memchr_words.induct)
  case (1 m w n)
  show ?case
  proof (cases "8 \<le> n \<and> HASZERO (ld64le m w XOR (ONES * ucast c)) = 0")
    case True
    have "m a \<noteq> c" if a: "w \<le> a" "a < w + int 8" for a
    proof
      assume "m a = c"
      obtain i where i: "i < 8" "a = w + int i" using a by (metis zle_iff_zadd nat_int zless_nat_conj add_less_cancel_left of_nat_less_iff)
      have "(uint (ld64le m w XOR (ONES * ucast c)) div 256 ^ i) mod 256 = 0"
        using i \<open>m a = c\<close> by (intro xor_byte) (simp add: ld64le_byte ONES_byte)
      with HASZERO_complete [OF i(1) this] True show False by simp
    qed
    then have "memchr_bytes m (w + int 8) c (n - 8) = memchr_bytes m w c n"
      using True by (intro memchr_bytes_skip) auto
    moreover have "memchr_bytes m w' c n' = memchr_bytes m (w + 8) c (n - 8)"
      using True "1.prems" by (intro "1.hyps") simp_all
    ultimately show ?thesis by simp
  next
    case False
    then show ?thesis using "1.prems" by (auto split: if_splits)
  qed
qed

declare memchr_words.simps [simp del]

theorem memchr_search [code]: "memchr m s c n = memchr_bytes m s c n"
proof -
  obtain s1 n1 where 1: "memchr_align m s c n = (s1, n1)" by fastforce
  obtain s2 n2 where 2: "memchr_words m s1 (ONES * ucast c) n1 = (s2, n2)" by fastforce
  show ?thesis
    using memchr_align_bytes [OF 1] memchr_words_bytes [OF 2]
    by (auto simp: memchr_def 1 2)
qed

subsection \<open>\<open>memcmp\<close>\<close>

lemma memcmp_eq_0: "memcmp m l r n = 0 \<longleftrightarrow> bytes_at m l n = bytes_at m r n"
proof (induction n arbitrary: l r)
  case 0
  then show ?case by simp
next
  case (Suc n)
  then show ?case by (auto simp: bytes_at_Suc dest: word_uint_eqI)
qed

end
