(* ===== verification/Cstring.thy ===== *)
theory Cstring
  imports Memops
begin

text \<open>
  Character classes and strings: \<open>apps/lib/ctype.c\<close> with \<open>linux/ctype.h\<close>,
  \<open>apps/lib/hexdump.c\<close> and \<open>apps/lib/string.c\<close>.

  Functions that are used on device tree memory (\<open>strlen\<close>, \<open>strnlen\<close>, \<open>strrchr\<close>) take a memory
  and an address. A walk to a NUL stops at the end of the 64-bit address space, which the C code
  would fault on. The parsing functions take the string as the list of its bytes; a \<open>char *\<close> into
  it is the suffix it points to, so \<open>*p\<close> is \<open>deref p\<close> and \<open>p++\<close> is \<open>tl p\<close>.
\<close>

section \<open>Character classes\<close>

definition ctype_U :: int where "ctype_U = 0x01"
definition ctype_L :: int where "ctype_L = 0x02"
definition ctype_D :: int where "ctype_D = 0x04"
definition ctype_C :: int where "ctype_C = 0x08"
definition ctype_P :: int where "ctype_P = 0x10"
definition ctype_S :: int where "ctype_S = 0x20"
definition ctype_X :: int where "ctype_X = 0x40"
definition ctype_SP :: int where "ctype_SP = 0x80"

definition ctype_tab :: "int list" where
  "ctype_tab =
     replicate 9 ctype_C @ replicate 5 (ctype_C OR ctype_S) @ replicate 18 ctype_C
     @ [ctype_S OR ctype_SP] @ replicate 15 ctype_P
     @ replicate 10 ctype_D @ replicate 7 ctype_P
     @ replicate 6 (ctype_U OR ctype_X) @ replicate 20 ctype_U @ replicate 6 ctype_P
     @ replicate 6 (ctype_L OR ctype_X) @ replicate 20 ctype_L @ replicate 4 ctype_P @ [ctype_C]
     @ replicate 32 0
     @ [ctype_S OR ctype_SP] @ replicate 31 ctype_P
     @ replicate 23 ctype_U @ [ctype_P] @ replicate 7 ctype_U @ [ctype_L]
     @ replicate 23 ctype_L @ [ctype_P] @ replicate 8 ctype_L"

definition ctype_mask :: "byte \<Rightarrow> int" where
  "ctype_mask c = ctype_tab ! unat c"

definition isspace :: "byte \<Rightarrow> bool" where
  "isspace c \<longleftrightarrow> ctype_mask c AND ctype_S \<noteq> 0"
definition isxdigit :: "byte \<Rightarrow> bool" where
  "isxdigit c \<longleftrightarrow> ctype_mask c AND (ctype_D OR ctype_X) \<noteq> 0"
definition isalnum :: "byte \<Rightarrow> bool" where
  "isalnum c \<longleftrightarrow> ctype_mask c AND (ctype_U OR ctype_L OR ctype_D) \<noteq> 0"
definition isupper :: "byte \<Rightarrow> bool" where
  "isupper c \<longleftrightarrow> ctype_mask c AND ctype_U \<noteq> 0"
definition islower :: "byte \<Rightarrow> bool" where
  "islower c \<longleftrightarrow> ctype_mask c AND ctype_L \<noteq> 0"
definition isprint :: "byte \<Rightarrow> bool" where
  "isprint c \<longleftrightarrow> ctype_mask c AND (ctype_P OR ctype_U OR ctype_L OR ctype_D OR ctype_SP) \<noteq> 0"
definition isdigit :: "byte \<Rightarrow> bool" where
  "isdigit c \<longleftrightarrow> 48 \<le> c \<and> c \<le> 57"

definition c_tolower :: "byte \<Rightarrow> byte" where
  "c_tolower c = (if isupper c then c - (65 - 97) else c)"
definition c_toupper :: "byte \<Rightarrow> byte" where
  "c_toupper c = (if islower c then c - (97 - 65) else c)"

text \<open>
  \<open>hex_to_bin\<close>: the branch-free decoding. \<open>ch\<close> and \<open>cu\<close> are promoted to \<open>int\<close>, the mask is
  converted to \<open>unsigned\<close> and shifted right by 8; the sum is taken in \<open>unsigned\<close> and returned as
  \<open>int\<close>.
\<close>

definition hex_to_bin :: "byte \<Rightarrow> int" where
  "hex_to_bin ch =
     (let c = uint ch; cu = uint (ch AND 0xdf)
      in s32 (- 1
           + u32 ((c - 48 + 1) AND drop_bit 8 (u32 ((c - 57 - 1) AND (48 - 1 - c))))
           + u32 ((cu - 65 + 11) AND drop_bit 8 (u32 ((cu - 70 - 1) AND (65 - 1 - cu))))))"

section \<open>Strings in memory\<close>

abbreviation (input) ADDR_LIMIT :: int where "ADDR_LIMIT \<equiv> 18446744073709551616"

function strlen :: "mem \<Rightarrow> addr \<Rightarrow> nat" where
  "strlen m sc = (if sc < ADDR_LIMIT \<and> m sc \<noteq> 0 then Suc (strlen m (sc + 1)) else 0)"
  by pat_completeness auto
termination by (relation "measure (\<lambda>(m, sc). nat (ADDR_LIMIT - sc))") auto

declare strlen.simps [simp del]

primrec strnlen :: "mem \<Rightarrow> addr \<Rightarrow> nat \<Rightarrow> nat" where
  "strnlen m es 0 = 0"
| "strnlen m es (Suc maxlen) = (if m es \<noteq> 0 then Suc (strnlen m (es + 1) maxlen) else 0)"

definition strrchr :: "mem \<Rightarrow> addr \<Rightarrow> byte \<Rightarrow> addr option" where
  "strrchr m s c = memrchr m s c (strlen m s + 1)"

text \<open>The list form of the string at an address.\<close>

definition cstr :: "mem \<Rightarrow> addr \<Rightarrow> byte list" where
  "cstr m p = bytes_at m p (strlen m p)"

text \<open>\<open>memcmp(p, s, len) == 0\<close> where \<open>s\<close> is a string given as the list of its \<open>len\<close> bytes.\<close>

definition mem_eq :: "mem \<Rightarrow> addr \<Rightarrow> byte list \<Rightarrow> bool" where
  "mem_eq m p s \<longleftrightarrow> bytes_at m p (length s) = s"

section \<open>Parsing functions\<close>

text \<open>\<open>isspace\<close> rejects the terminating NUL, which is where the loop stops on an empty rest.\<close>

fun skip_spaces :: "byte list \<Rightarrow> byte list" where
  "skip_spaces [] = []"
| "skip_spaces (c # s) = (if isspace c then skip_spaces s else c # s)"

fun atou_loop :: "int \<Rightarrow> byte list \<Rightarrow> int" where
  "atou_loop i [] = i"
| "atou_loop i (c # s) = (if isdigit c then atou_loop (u32 (i * 10 + (uint c - 48))) s else i)"

definition atou :: "byte list \<Rightarrow> int" where
  "atou s = atou_loop 0 s"

definition TOLOWER :: "byte \<Rightarrow> byte" where
  "TOLOWER x = x OR 0x20"

definition simple_guess_base :: "byte list \<Rightarrow> int" where
  "simple_guess_base cp =
     (if deref cp = 48 then
        (if TOLOWER (deref (tl cp)) = 120 \<and> isxdigit (deref (tl (tl cp))) then 16 else 8)
      else 10)"

text \<open>The value of a hex digit as the loop computes it, an \<open>unsigned int\<close>.\<close>

definition digit_value :: "byte \<Rightarrow> int" where
  "digit_value c = (if isdigit c then uint c - 48 else u32 (uint (TOLOWER c) - 97 + 10))"

fun strtoull_loop :: "int \<Rightarrow> int \<Rightarrow> byte list \<Rightarrow> int \<times> byte list" where
  "strtoull_loop base result [] = (result, [])"
| "strtoull_loop base result (c # cp) =
     (if isxdigit c then
        (let v = digit_value c
         in if v \<ge> base then (result, c # cp)
            else strtoull_loop base (u64 (result * base + v)) cp)
      else (result, c # cp))"

text \<open>The result and \<open>*endp\<close>.\<close>

definition simple_strtoull :: "byte list \<Rightarrow> int \<Rightarrow> int \<times> byte list" where
  "simple_strtoull cp base =
     (let base = (if base = 0 then simple_guess_base cp else base);
          cp = (if base = 16 \<and> deref cp = 48 \<and> TOLOWER (deref (tl cp)) = 120
                then tl (tl cp) else cp)
      in strtoull_loop base 0 cp)"

text \<open>\<open>long\<close> is 64 bits wide: the value is read as two's complement.\<close>

definition s64 :: "int \<Rightarrow> int" where
  "s64 x = (x + 9223372036854775808) mod 18446744073709551616 - 9223372036854775808"

definition simple_strtol :: "byte list \<Rightarrow> int \<Rightarrow> int \<times> byte list" where
  "simple_strtol cp base =
     (if deref cp = 45 then (case simple_strtoull (tl cp) base of (v, endp) \<Rightarrow> (s64 (- v), endp))
      else (case simple_strtoull cp base of (v, endp) \<Rightarrow> (s64 v, endp)))"

function strcmp :: "byte list \<Rightarrow> byte list \<Rightarrow> int" where
  "strcmp s1 s2 =
     (if deref s1 \<noteq> 0 \<or> deref s2 \<noteq> 0 then
        (let delta = uint (deref s1) - uint (deref s2)
         in if delta \<noteq> 0 then delta else strcmp (tl s1) (tl s2))
      else 0)"
  by pat_completeness auto
termination
proof (relation "measure (\<lambda>(s1, s2). length s1)", simp)
  fix s1 s2 :: "byte list" and delta :: int
  assume "deref s1 \<noteq> 0 \<or> deref s2 \<noteq> 0" "delta = uint (deref s1) - uint (deref s2)" "\<not> delta \<noteq> 0"
  then have "deref s1 \<noteq> 0" by (auto dest: word_uint_eqI)
  then show "((tl s1, tl s2), s1, s2) \<in> measure (\<lambda>(s1, s2). length s1)" by (cases s1) auto
qed

declare strcmp.simps [simp del]

primrec strncmp :: "byte list \<Rightarrow> byte list \<Rightarrow> nat \<Rightarrow> int" where
  "strncmp cs ct 0 = 0"
| "strncmp cs ct (Suc count) =
     (if deref cs \<noteq> deref ct then (if deref cs < deref ct then - 1 else 1)
      else if deref cs = 0 then 0 else strncmp (tl cs) (tl ct) count)"

definition strstarts :: "byte list \<Rightarrow> byte list \<Rightarrow> bool" where
  "strstarts s pre \<longleftrightarrow> strncmp s pre (length pre) = 0"

text \<open>\<open>while (l1 >= l2)\<close> of \<open>strstr\<close>; \<open>l1\<close> is the length left, \<open>s1\<close> the rest of the string.\<close>

fun strstr_loop :: "nat \<Rightarrow> byte list \<Rightarrow> byte list \<Rightarrow> byte list option" where
  "strstr_loop l1 s1 s2 =
     (if l1 \<ge> length s2 \<and> l1 > 0 then
        (if take (length s2) s1 = s2 then Some s1 else strstr_loop (l1 - 1) (tl s1) s2)
      else None)"

definition strstr :: "byte list \<Rightarrow> byte list \<Rightarrow> byte list option" where
  "strstr s1 s2 = (if s2 = [] then Some s1 else strstr_loop (length s1) s1 s2)"

declare strstr_loop.simps [simp del]

section \<open>The character table and the hex decoder, over all 256 bytes\<close>

lemma byte_exhaust:
  assumes "list_all P (upto 0 255)"
  shows "P (uint (c :: byte))"
proof -
  have "uint c \<in> set (upto 0 255)" by simp
  then show ?thesis using assms by (simp only: list_all_iff)
qed

lemma ctype_tab_exhaust:
  assumes "list_all2 P (upto 0 255) ctype_tab"
  shows "P (uint c) (ctype_mask c)"
proof -
  have nat: "unat c = nat (uint c)" by simp
  have len: "unat c < length (upto 0 255)"
    unfolding length_upto nat using uint_byte_bounds [of c] by linarith
  have "upto 0 255 ! unat c = uint c"
    unfolding nat using uint_byte_bounds [of c] by (subst nth_upto) linarith+
  then show ?thesis
    using list_all2_nthD [OF assms len] by (simp only: ctype_mask_def)
qed

lemma isspace_cases: "isspace c \<longleftrightarrow> 9 \<le> uint c \<and> uint c \<le> 13 \<or> uint c = 32 \<or> uint c = 160"
  unfolding isspace_def by (rule ctype_tab_exhaust) code_simp

lemma isxdigit_cases:
  "isxdigit c \<longleftrightarrow> 48 \<le> uint c \<and> uint c \<le> 57 \<or> 65 \<le> uint c \<and> uint c \<le> 70
     \<or> 97 \<le> uint c \<and> uint c \<le> 102"
  unfolding isxdigit_def by (rule ctype_tab_exhaust) code_simp

lemma isdigit_cases: "isdigit c \<longleftrightarrow> 48 \<le> uint c \<and> uint c \<le> 57"
  by (simp add: isdigit_def word_le_def)

lemma isupper_cases:
  "isupper c \<longleftrightarrow> 65 \<le> uint c \<and> uint c \<le> 90 \<or> 192 \<le> uint c \<and> uint c \<le> 222 \<and> uint c \<noteq> 215"
  unfolding isupper_def by (rule ctype_tab_exhaust) code_simp

lemma islower_cases:
  "islower c \<longleftrightarrow> 97 \<le> uint c \<and> uint c \<le> 122 \<or> 223 \<le> uint c \<and> uint c \<noteq> 247"
  unfolding islower_def by (rule ctype_tab_exhaust) code_simp

lemma isspace_nul [simp]: "\<not> isspace 0" by (simp add: isspace_cases)
lemma isxdigit_nul [simp]: "\<not> isxdigit 0" by (simp add: isxdigit_cases)
lemma isdigit_nul [simp]: "\<not> isdigit 0" by (simp add: isdigit_def)

lemma isdigit_isxdigit: "isdigit c \<Longrightarrow> isxdigit c"
  by (auto simp: isdigit_cases isxdigit_cases)

text \<open>The branch-free \<open>hex_to_bin\<close> decodes exactly the hex digits, in either case.\<close>

definition hex_value :: "int \<Rightarrow> int" where
  "hex_value c =
     (if 48 \<le> c \<and> c \<le> 57 then c - 48
      else if 65 \<le> c \<and> c \<le> 70 then c - 65 + 10
      else if 97 \<le> c \<and> c \<le> 102 then c - 97 + 10
      else - 1)"

lemma hex_to_bin_value: "hex_to_bin ch = hex_value (uint ch)"
proof -
  have "(let c = uint ch; cu = uint ch AND 0xdf
         in s32 (- 1
           + u32 ((c - 48 + 1) AND drop_bit 8 (u32 ((c - 57 - 1) AND (48 - 1 - c))))
           + u32 ((cu - 65 + 11) AND drop_bit 8 (u32 ((cu - 70 - 1) AND (65 - 1 - cu))))))
       = hex_value (uint ch)"
    by (rule byte_exhaust) code_simp
  then show ?thesis by (simp only: hex_to_bin_def uint_and Let_def uint_numeral_byte)
qed

text \<open>On a hex digit the \<open>strtoull\<close> loop computes the same value.\<close>

lemma digit_value_hex: "isxdigit c \<Longrightarrow> digit_value c = hex_value (uint c)"
proof -
  have "list_all (\<lambda>c. (48 \<le> c \<and> c \<le> 57 \<or> 65 \<le> c \<and> c \<le> 70 \<or> 97 \<le> c \<and> c \<le> 102) \<longrightarrow>
      (if 48 \<le> c \<and> c \<le> 57 then c - 48 else u32 ((c OR 0x20) - 97 + 10)) = hex_value c) (upto 0 255)"
    by code_simp
  from byte_exhaust [OF this, of c] show "isxdigit c \<Longrightarrow> digit_value c = hex_value (uint c)"
    by (auto simp: digit_value_def isxdigit_cases isdigit_cases TOLOWER_def uint_or)
qed

end
