(* ===== verification/Fdt_Core.thy ===== *)
theory Fdt_Core
  imports Memops Cstring
begin

text \<open>
  The reader's core of libfdt, \<open>apps/lib/libfdt/fdt.c\<close>, with the accessors of \<open>libfdt.h\<close>,
  \<open>libfdt_env.h\<close> and \<open>libfdt_internal.h\<close>: header fields, the header checks, the tag reader
  \<open>fdt_next_tag\<close> and the walks over the structure block that are built on it.

  A device tree is the memory behind its address \<open>fdt\<close>. An offset into the structure block is a
  C \<open>int\<close>; the code's mixtures of \<open>int\<close>, \<open>unsigned int\<close> and \<open>size_t\<close> are written out with
  \<open>u32\<close> and \<open>s32\<close>. \<open>FDT_ASSUME_MASK\<close> is 0 in this build, so every \<open>can_assume\<close> is false and
  every check guarded by one is made. A C name that ends in an underscore is written with the
  suffix \<open>_i\<close> (\<open>fdt_ro_probe_\<close> is \<open>fdt_ro_probe_i\<close>).
\<close>

section \<open>Constants\<close>

abbreviation (input) FDT_ERR_NOTFOUND :: int where "FDT_ERR_NOTFOUND \<equiv> 1"
abbreviation (input) FDT_ERR_EXISTS :: int where "FDT_ERR_EXISTS \<equiv> 2"
abbreviation (input) FDT_ERR_NOSPACE :: int where "FDT_ERR_NOSPACE \<equiv> 3"
abbreviation (input) FDT_ERR_BADOFFSET :: int where "FDT_ERR_BADOFFSET \<equiv> 4"
abbreviation (input) FDT_ERR_BADPATH :: int where "FDT_ERR_BADPATH \<equiv> 5"
abbreviation (input) FDT_ERR_BADPHANDLE :: int where "FDT_ERR_BADPHANDLE \<equiv> 6"
abbreviation (input) FDT_ERR_BADSTATE :: int where "FDT_ERR_BADSTATE \<equiv> 7"
abbreviation (input) FDT_ERR_TRUNCATED :: int where "FDT_ERR_TRUNCATED \<equiv> 8"
abbreviation (input) FDT_ERR_BADMAGIC :: int where "FDT_ERR_BADMAGIC \<equiv> 9"
abbreviation (input) FDT_ERR_BADVERSION :: int where "FDT_ERR_BADVERSION \<equiv> 10"
abbreviation (input) FDT_ERR_BADSTRUCTURE :: int where "FDT_ERR_BADSTRUCTURE \<equiv> 11"
abbreviation (input) FDT_ERR_BADLAYOUT :: int where "FDT_ERR_BADLAYOUT \<equiv> 12"
abbreviation (input) FDT_ERR_INTERNAL :: int where "FDT_ERR_INTERNAL \<equiv> 13"
abbreviation (input) FDT_ERR_BADNCELLS :: int where "FDT_ERR_BADNCELLS \<equiv> 14"
abbreviation (input) FDT_ERR_BADVALUE :: int where "FDT_ERR_BADVALUE \<equiv> 15"
abbreviation (input) FDT_ERR_BADOVERLAY :: int where "FDT_ERR_BADOVERLAY \<equiv> 16"
abbreviation (input) FDT_ERR_NOPHANDLES :: int where "FDT_ERR_NOPHANDLES \<equiv> 17"
abbreviation (input) FDT_ERR_BADFLAGS :: int where "FDT_ERR_BADFLAGS \<equiv> 18"
abbreviation (input) FDT_ERR_ALIGNMENT :: int where "FDT_ERR_ALIGNMENT \<equiv> 19"

abbreviation (input) FDT_MAGIC :: int where "FDT_MAGIC \<equiv> 0xd00dfeed"
abbreviation (input) FDT_SW_MAGIC :: int where "FDT_SW_MAGIC \<equiv> 0x2ff20112" \<comment> \<open>\<open>~FDT_MAGIC\<close>\<close>
abbreviation (input) FDT_TAGSIZE :: int where "FDT_TAGSIZE \<equiv> 4"
abbreviation (input) FDT_BEGIN_NODE :: int where "FDT_BEGIN_NODE \<equiv> 1"
abbreviation (input) FDT_END_NODE :: int where "FDT_END_NODE \<equiv> 2"
abbreviation (input) FDT_PROP :: int where "FDT_PROP \<equiv> 3"
abbreviation (input) FDT_NOP :: int where "FDT_NOP \<equiv> 4"
abbreviation (input) FDT_END :: int where "FDT_END \<equiv> 9"

abbreviation (input) FDT_FIRST_SUPPORTED_VERSION :: int where "FDT_FIRST_SUPPORTED_VERSION \<equiv> 0x02"
abbreviation (input) FDT_LAST_COMPATIBLE_VERSION :: int where "FDT_LAST_COMPATIBLE_VERSION \<equiv> 0x10"
abbreviation (input) FDT_LAST_SUPPORTED_VERSION :: int where "FDT_LAST_SUPPORTED_VERSION \<equiv> 0x11"
abbreviation (input) FDT_MAX_PHANDLE :: int where "FDT_MAX_PHANDLE \<equiv> 0xfffffffe"

text \<open>\<open>sizeof\<close> of \<open>struct fdt_header\<close>, \<open>struct fdt_property\<close>, \<open>struct fdt_reserve_entry\<close>.\<close>

abbreviation (input) SIZEOF_HEADER :: int where "SIZEOF_HEADER \<equiv> 40"
abbreviation (input) SIZEOF_PROPERTY :: int where "SIZEOF_PROPERTY \<equiv> 12"
abbreviation (input) SIZEOF_RESERVE_ENTRY :: int where "SIZEOF_RESERVE_ENTRY \<equiv> 16"

section \<open>Big-endian words in memory\<close>

definition fdt32_ld :: "mem \<Rightarrow> addr \<Rightarrow> int" where
  "fdt32_ld m p = uint (m p) * 16777216 + uint (m (p + 1)) * 65536 + uint (m (p + 2)) * 256
     + uint (m (p + 3))"

definition fdt64_ld :: "mem \<Rightarrow> addr \<Rightarrow> int" where
  "fdt64_ld m p = fdt32_ld m p * 4294967296 + fdt32_ld m (p + 4)"

definition fdt32_st :: "mem \<Rightarrow> addr \<Rightarrow> int \<Rightarrow> mem" where
  "fdt32_st m p v =
     m(p := byte_of (v div 16777216), p + 1 := byte_of (v div 65536),
       p + 2 := byte_of (v div 256), p + 3 := byte_of v)"

definition fdt64_st :: "mem \<Rightarrow> addr \<Rightarrow> int \<Rightarrow> mem" where
  "fdt64_st m p v = fdt32_st (fdt32_st m p (v div 4294967296)) (p + 4) v"

section \<open>Header fields\<close>

definition fdt_magic :: "mem \<Rightarrow> addr \<Rightarrow> int" where
  "fdt_magic m fdt = fdt32_ld m fdt"
definition fdt_totalsize :: "mem \<Rightarrow> addr \<Rightarrow> int" where
  "fdt_totalsize m fdt = fdt32_ld m (fdt + 4)"
definition fdt_off_dt_struct :: "mem \<Rightarrow> addr \<Rightarrow> int" where
  "fdt_off_dt_struct m fdt = fdt32_ld m (fdt + 8)"
definition fdt_off_dt_strings :: "mem \<Rightarrow> addr \<Rightarrow> int" where
  "fdt_off_dt_strings m fdt = fdt32_ld m (fdt + 12)"
definition fdt_off_mem_rsvmap :: "mem \<Rightarrow> addr \<Rightarrow> int" where
  "fdt_off_mem_rsvmap m fdt = fdt32_ld m (fdt + 16)"
definition fdt_version :: "mem \<Rightarrow> addr \<Rightarrow> int" where
  "fdt_version m fdt = fdt32_ld m (fdt + 20)"
definition fdt_last_comp_version :: "mem \<Rightarrow> addr \<Rightarrow> int" where
  "fdt_last_comp_version m fdt = fdt32_ld m (fdt + 24)"
definition fdt_boot_cpuid_phys :: "mem \<Rightarrow> addr \<Rightarrow> int" where
  "fdt_boot_cpuid_phys m fdt = fdt32_ld m (fdt + 28)"
definition fdt_size_dt_strings :: "mem \<Rightarrow> addr \<Rightarrow> int" where
  "fdt_size_dt_strings m fdt = fdt32_ld m (fdt + 32)"
definition fdt_size_dt_struct :: "mem \<Rightarrow> addr \<Rightarrow> int" where
  "fdt_size_dt_struct m fdt = fdt32_ld m (fdt + 36)"

definition fdt_set_magic :: "mem \<Rightarrow> addr \<Rightarrow> int \<Rightarrow> mem" where
  "fdt_set_magic m fdt v = fdt32_st m fdt v"
definition fdt_set_totalsize :: "mem \<Rightarrow> addr \<Rightarrow> int \<Rightarrow> mem" where
  "fdt_set_totalsize m fdt v = fdt32_st m (fdt + 4) v"
definition fdt_set_off_dt_struct :: "mem \<Rightarrow> addr \<Rightarrow> int \<Rightarrow> mem" where
  "fdt_set_off_dt_struct m fdt v = fdt32_st m (fdt + 8) v"
definition fdt_set_off_dt_strings :: "mem \<Rightarrow> addr \<Rightarrow> int \<Rightarrow> mem" where
  "fdt_set_off_dt_strings m fdt v = fdt32_st m (fdt + 12) v"
definition fdt_set_off_mem_rsvmap :: "mem \<Rightarrow> addr \<Rightarrow> int \<Rightarrow> mem" where
  "fdt_set_off_mem_rsvmap m fdt v = fdt32_st m (fdt + 16) v"
definition fdt_set_version :: "mem \<Rightarrow> addr \<Rightarrow> int \<Rightarrow> mem" where
  "fdt_set_version m fdt v = fdt32_st m (fdt + 20) v"
definition fdt_set_last_comp_version :: "mem \<Rightarrow> addr \<Rightarrow> int \<Rightarrow> mem" where
  "fdt_set_last_comp_version m fdt v = fdt32_st m (fdt + 24) v"
definition fdt_set_boot_cpuid_phys :: "mem \<Rightarrow> addr \<Rightarrow> int \<Rightarrow> mem" where
  "fdt_set_boot_cpuid_phys m fdt v = fdt32_st m (fdt + 28) v"
definition fdt_set_size_dt_strings :: "mem \<Rightarrow> addr \<Rightarrow> int \<Rightarrow> mem" where
  "fdt_set_size_dt_strings m fdt v = fdt32_st m (fdt + 32) v"
definition fdt_set_size_dt_struct :: "mem \<Rightarrow> addr \<Rightarrow> int \<Rightarrow> mem" where
  "fdt_set_size_dt_struct m fdt v = fdt32_st m (fdt + 36) v"

definition FDT_ALIGN :: "int \<Rightarrow> int \<Rightarrow> int" where
  "FDT_ALIGN x a = (x + a - 1) AND NOT (a - 1)"

definition FDT_TAGALIGN :: "int \<Rightarrow> int" where
  "FDT_TAGALIGN x = FDT_ALIGN x FDT_TAGSIZE"

section \<open>Header checks\<close>

definition fdt_ro_probe_i :: "mem \<Rightarrow> addr \<Rightarrow> int" where
  "fdt_ro_probe_i m fdt =
     (let totalsize = fdt_totalsize m fdt;
          probe_size = (if totalsize < INT_MAX then totalsize else - FDT_ERR_TRUNCATED)
      in if fdt AND 7 \<noteq> 0 then - FDT_ERR_ALIGNMENT
         else if fdt_magic m fdt = FDT_MAGIC then
           (if fdt_version m fdt < FDT_FIRST_SUPPORTED_VERSION then - FDT_ERR_BADVERSION
            else if fdt_last_comp_version m fdt > FDT_LAST_SUPPORTED_VERSION
            then - FDT_ERR_BADVERSION
            else probe_size)
         else if fdt_magic m fdt = FDT_SW_MAGIC then
           (if fdt_size_dt_struct m fdt = 0 then - FDT_ERR_BADSTATE else probe_size)
         else - FDT_ERR_BADMAGIC)"

definition check_off_i :: "int \<Rightarrow> int \<Rightarrow> int \<Rightarrow> bool" where
  "check_off_i hdrsize totalsize off \<longleftrightarrow> off \<ge> hdrsize \<and> off \<le> totalsize"

definition check_block_i :: "int \<Rightarrow> int \<Rightarrow> int \<Rightarrow> int \<Rightarrow> bool" where
  "check_block_i hdrsize totalsize base sz \<longleftrightarrow>
     (if \<not> check_off_i hdrsize totalsize base then False
      else if u32 (base + sz) < base then False
      else if \<not> check_off_i hdrsize totalsize (u32 (base + sz)) then False
      else True)"

definition fdt_header_size_i :: "int \<Rightarrow> int" where
  "fdt_header_size_i version =
     (if version \<le> 1 then 28
      else if version \<le> 2 then 32
      else if version \<le> 3 then 36
      else if version \<le> 16 then 36
      else 40)"

definition fdt_header_size :: "mem \<Rightarrow> addr \<Rightarrow> int" where
  "fdt_header_size m fdt = fdt_header_size_i (fdt_version m fdt)"

definition fdt_check_header :: "mem \<Rightarrow> addr \<Rightarrow> int" where
  "fdt_check_header m fdt =
     (let hdrsize = fdt_header_size m fdt; totalsize = fdt_totalsize m fdt
      in if fdt AND 7 \<noteq> 0 then - FDT_ERR_ALIGNMENT
         else if fdt_magic m fdt \<noteq> FDT_MAGIC then - FDT_ERR_BADMAGIC
         else if fdt_version m fdt < FDT_FIRST_SUPPORTED_VERSION
               \<or> fdt_last_comp_version m fdt > FDT_LAST_SUPPORTED_VERSION
         then - FDT_ERR_BADVERSION
         else if fdt_version m fdt < fdt_last_comp_version m fdt then - FDT_ERR_BADVERSION
         else if totalsize < hdrsize \<or> totalsize > INT_MAX then - FDT_ERR_TRUNCATED
         else if \<not> check_off_i hdrsize totalsize (fdt_off_mem_rsvmap m fdt)
         then - FDT_ERR_TRUNCATED
         else if fdt_version m fdt < 17
               \<and> \<not> check_off_i hdrsize totalsize (fdt_off_dt_struct m fdt)
         then - FDT_ERR_TRUNCATED
         else if \<not> fdt_version m fdt < 17
               \<and> \<not> check_block_i hdrsize totalsize (fdt_off_dt_struct m fdt)
                    (fdt_size_dt_struct m fdt)
         then - FDT_ERR_TRUNCATED
         else if \<not> check_block_i hdrsize totalsize (fdt_off_dt_strings m fdt)
                    (fdt_size_dt_strings m fdt)
         then - FDT_ERR_TRUNCATED
         else 0)"

section \<open>Pointers into the structure block\<close>

definition fdt_offset_ptr_i :: "mem \<Rightarrow> addr \<Rightarrow> int \<Rightarrow> addr" where
  "fdt_offset_ptr_i m fdt offset = fdt + fdt_off_dt_struct m fdt + offset"

definition fdt_offset_ptr :: "mem \<Rightarrow> addr \<Rightarrow> int \<Rightarrow> int \<Rightarrow> addr option" where
  "fdt_offset_ptr m fdt offset len =
     (let uoffset = u32 offset; absoffset = u32 (offset + fdt_off_dt_struct m fdt)
      in if offset < 0 then None
         else if absoffset < uoffset \<or> u32 (absoffset + len) < absoffset
               \<or> u32 (absoffset + len) > fdt_totalsize m fdt then None
         else if fdt_version m fdt \<ge> 0x11
               \<and> (u32 (uoffset + len) < uoffset
                  \<or> u32 (offset + len) > fdt_size_dt_struct m fdt) then None
         else Some (fdt_offset_ptr_i m fdt offset))"

section \<open>Words in memory: bounds, reading what was written\<close>

lemma fdt32_ld_bounds [simp]:
  "0 \<le> fdt32_ld m p" "fdt32_ld m p < 4294967296" "fdt32_ld m p \<le> 4294967295"
proof -
  have "uint (m p) \<le> 255" "uint (m (p + 1)) \<le> 255" "uint (m (p + 2)) \<le> 255" "uint (m (p + 3)) \<le> 255"
    "0 \<le> uint (m p)" "0 \<le> uint (m (p + 1))" "0 \<le> uint (m (p + 2))" "0 \<le> uint (m (p + 3))"
    by simp_all
  then show "0 \<le> fdt32_ld m p" "fdt32_ld m p < 4294967296" "fdt32_ld m p \<le> 4294967295"
    unfolding fdt32_ld_def by linarith+
qed

lemma u32_fdt32_ld [simp]: "u32 (fdt32_ld m p) = fdt32_ld m p"
  by (simp add: u32_id)

lemma fdt64_ld_bounds [simp]: "0 \<le> fdt64_ld m p" "fdt64_ld m p < 18446744073709551616"
proof -
  have "fdt32_ld m p \<le> 4294967295" "0 \<le> fdt32_ld m p"
    "fdt32_ld m (p + 4) \<le> 4294967295" "0 \<le> fdt32_ld m (p + 4)" by simp_all
  then show "0 \<le> fdt64_ld m p" "fdt64_ld m p < 18446744073709551616"
    unfolding fdt64_ld_def by linarith+
qed

lemma bytes_of_word:
  "(v div 16777216) mod 256 * 16777216 + (v div 65536) mod 256 * 65536 + (v div 256) mod 256 * 256
     + v mod 256 = v mod 4294967296" for v :: int
proof -
  have "v mod (256 * 256) = 256 * ((v div 256) mod 256) + v mod 256"
    by (rule zmod_zmult2_eq) simp
  moreover have "v mod (65536 * 256) = 65536 * ((v div 65536) mod 256) + v mod 65536"
    by (rule zmod_zmult2_eq) simp
  moreover have "v mod (16777216 * 256) = 16777216 * ((v div 16777216) mod 256) + v mod 16777216"
    by (rule zmod_zmult2_eq) simp
  ultimately show ?thesis unfolding arith_simps by linarith
qed

lemma fdt32_ld_st_same [mem_simps, simp]: "fdt32_ld (fdt32_st m p v) p = u32 v"
proof -
  have "fdt32_ld (fdt32_st m p v) p =
      (v div 16777216) mod 256 * 16777216 + (v div 65536) mod 256 * 65536
      + (v div 256) mod 256 * 256 + v mod 256"
    by (simp only: fdt32_ld_def fdt32_st_def uint_byte_of fun_upd_def) simp
  then show ?thesis by (simp only: bytes_of_word u32_def)
qed

lemma fdt32_st_outside [mem_simps]: "a < p \<or> p + 4 \<le> a \<Longrightarrow> fdt32_st m p v a = m a"
  by (auto simp: fdt32_st_def)

lemma fdt32_ld_cong:
  "(\<And>a. p \<le> a \<Longrightarrow> a < p + 4 \<Longrightarrow> m a = m' a) \<Longrightarrow> fdt32_ld m p = fdt32_ld m' p"
  by (simp add: fdt32_ld_def)

lemma fdt32_ld_agree: "agree lo hi m m' \<Longrightarrow> lo \<le> p \<Longrightarrow> p + 4 \<le> hi \<Longrightarrow> fdt32_ld m p = fdt32_ld m' p"
  by (rule fdt32_ld_cong) (simp add: agree_def)

lemma fdt32_ld_st_other [mem_simps]:
  "q + 4 \<le> p \<or> p + 4 \<le> q \<Longrightarrow> fdt32_ld (fdt32_st m p v) q = fdt32_ld m q"
  by (rule fdt32_ld_cong) (auto simp: fdt32_st_outside)

text \<open>
  The header fields after a store to one of them: each field reads the value stored (truncated
  to 32 bits) and leaves the others alone.
\<close>

lemmas fdt_hdr_defs =
  fdt_magic_def fdt_totalsize_def fdt_off_dt_struct_def fdt_off_dt_strings_def
  fdt_off_mem_rsvmap_def fdt_version_def fdt_last_comp_version_def fdt_boot_cpuid_phys_def
  fdt_size_dt_strings_def fdt_size_dt_struct_def

lemmas fdt_set_defs =
  fdt_set_magic_def fdt_set_totalsize_def fdt_set_off_dt_struct_def fdt_set_off_dt_strings_def
  fdt_set_off_mem_rsvmap_def fdt_set_version_def fdt_set_last_comp_version_def
  fdt_set_boot_cpuid_phys_def fdt_set_size_dt_strings_def fdt_set_size_dt_struct_def

lemma fdt_hdr_bounds [simp]:
  "0 \<le> fdt_totalsize m fdt" "fdt_totalsize m fdt < 4294967296"
  "0 \<le> fdt_off_dt_struct m fdt" "fdt_off_dt_struct m fdt < 4294967296"
  "0 \<le> fdt_off_dt_strings m fdt" "fdt_off_dt_strings m fdt < 4294967296"
  "0 \<le> fdt_off_mem_rsvmap m fdt" "fdt_off_mem_rsvmap m fdt < 4294967296"
  "0 \<le> fdt_version m fdt" "fdt_version m fdt < 4294967296"
  "0 \<le> fdt_last_comp_version m fdt" "fdt_last_comp_version m fdt < 4294967296"
  "0 \<le> fdt_size_dt_strings m fdt" "fdt_size_dt_strings m fdt < 4294967296"
  "0 \<le> fdt_size_dt_struct m fdt" "fdt_size_dt_struct m fdt < 4294967296"
  by (simp_all add: fdt_hdr_defs)

text \<open>The header is the first 40 bytes: memories that agree there have the same header fields.\<close>

lemma fdt_hdr_agree:
  assumes "agree fdt (fdt + SIZEOF_HEADER) m m'"
  shows "fdt_magic m fdt = fdt_magic m' fdt" "fdt_totalsize m fdt = fdt_totalsize m' fdt"
    "fdt_off_dt_struct m fdt = fdt_off_dt_struct m' fdt"
    "fdt_off_dt_strings m fdt = fdt_off_dt_strings m' fdt"
    "fdt_off_mem_rsvmap m fdt = fdt_off_mem_rsvmap m' fdt"
    "fdt_version m fdt = fdt_version m' fdt"
    "fdt_last_comp_version m fdt = fdt_last_comp_version m' fdt"
    "fdt_boot_cpuid_phys m fdt = fdt_boot_cpuid_phys m' fdt"
    "fdt_size_dt_strings m fdt = fdt_size_dt_strings m' fdt"
    "fdt_size_dt_struct m fdt = fdt_size_dt_struct m' fdt"
  unfolding fdt_hdr_defs by (rule fdt32_ld_agree [OF assms]; simp)+

section \<open>Alignment\<close>

lemma FDT_TAGALIGN_div: "FDT_TAGALIGN x = 4 * ((x + 3) div 4)"
  using and_not_mask_int [of "x + 3" 2] by (simp add: FDT_TAGALIGN_def FDT_ALIGN_def mask_numeral add.commute)

lemma FDT_TAGALIGN_bounds: "x \<le> FDT_TAGALIGN x" "FDT_TAGALIGN x \<le> x + 3" "FDT_TAGALIGN x mod 4 = 0"
  unfolding FDT_TAGALIGN_div by simp_all

section \<open>The tag reader\<close>

text \<open>
  How far a walk can still go from an offset. Every step of a walk over the structure block
  decreases it, because an offset handed to \<open>fdt_offset_ptr\<close> is never negative and the next one is
  either larger or has wrapped to a negative number, which ends the walk.
\<close>

definition walk_left :: "int \<Rightarrow> nat" where
  "walk_left off = (if off < 0 then 0
                    else if off < 2147483648 then nat (2147483648 - off) else 2147483649)"

lemma walk_left_lt:
  "0 \<le> off \<Longrightarrow> off < next \<or> next < 0 \<or> 2147483648 \<le> off \<Longrightarrow> next < 2147483648 \<Longrightarrow>
   walk_left next < walk_left off"
  by (auto simp: walk_left_def)

lemma s32_Suc_cases: "0 \<le> x \<Longrightarrow> 0 \<le> k \<Longrightarrow> k < 2147483648 \<Longrightarrow>
  x < 2147483648 \<Longrightarrow> s32 (x + k) = x + k \<or> s32 (x + k) = x + k - 4294967296"
  by (cases "x + k < 2147483648") (auto simp: s32_id s32_big)

lemma fdt_offset_ptr_SomeD:
  "fdt_offset_ptr m fdt off len = Some p \<Longrightarrow> 0 \<le> off \<and> p = fdt + fdt_off_dt_struct m fdt + off"
  by (auto simp: fdt_offset_ptr_def fdt_offset_ptr_i_def Let_def split: if_splits)

text \<open>The loop \<open>do p = fdt_offset_ptr(fdt, offset++, 1); while (p && *p != 0)\<close>.\<close>

function skip_name :: "mem \<Rightarrow> addr \<Rightarrow> int \<Rightarrow> int option" where
  "skip_name m fdt offset =
     (case fdt_offset_ptr m fdt offset 1 of
        None \<Rightarrow> None
      | Some p \<Rightarrow> if m p \<noteq> 0 then skip_name m fdt (s32 (offset + 1)) else Some (s32 (offset + 1)))"
  by pat_completeness auto
termination
proof (relation "measure (\<lambda>(m, fdt, offset). walk_left offset)", simp)
  fix m fdt offset p
  assume "fdt_offset_ptr m fdt offset 1 = Some p"
  then have "0 \<le> offset" by (auto dest: fdt_offset_ptr_SomeD)
  moreover from this have "offset < s32 (offset + 1) \<or> s32 (offset + 1) < 0 \<or> 2147483648 \<le> offset"
    using s32_Suc_cases [of offset 1] by auto
  ultimately have "walk_left (s32 (offset + 1)) < walk_left offset"
    by (intro walk_left_lt) auto
  then show "((m, fdt, s32 (offset + 1)), m, fdt, offset)
      \<in> measure (\<lambda>(m, fdt, offset). walk_left offset)" by simp
qed

declare skip_name.simps [simp del]

text \<open>
  The \<open>switch\<close> of \<open>fdt_next_tag\<close>: the offset behind the item whose tag has been read, or \<open>None\<close>
  where the code leaves with \<open>FDT_END\<close>.
\<close>

definition next_tag_switch :: "mem \<Rightarrow> addr \<Rightarrow> int \<Rightarrow> int \<Rightarrow> int option" where
  "next_tag_switch m fdt tag offset =
     (if tag = FDT_BEGIN_NODE then skip_name m fdt offset
      else if tag = FDT_PROP then
        (case fdt_offset_ptr m fdt offset 4 of
           None \<Rightarrow> None
         | Some lenp \<Rightarrow>
             (let len = fdt32_ld m lenp; sum = u32 (len + offset)
              in if INT_MAX \<le> sum \<or> sum < u32 offset then None
                 else
                   (let offset = s32 (offset + SIZEOF_PROPERTY - FDT_TAGSIZE + len)
                    in if fdt_version m fdt < 0x10 \<and> len \<ge> 8 \<and> u32 (offset - len) mod 8 \<noteq> 0
                       then Some (s32 (offset + 4)) else Some offset)))
      else if tag = FDT_END \<or> tag = FDT_END_NODE \<or> tag = FDT_NOP then Some offset
      else None)"

definition fdt_next_tag :: "mem \<Rightarrow> addr \<Rightarrow> int \<Rightarrow> int \<times> int" where
  "fdt_next_tag m fdt startoffset =
     (case fdt_offset_ptr m fdt startoffset FDT_TAGSIZE of
        None \<Rightarrow> (FDT_END, - FDT_ERR_TRUNCATED)
      | Some tagp \<Rightarrow>
          (let tag = fdt32_ld m tagp
           in case next_tag_switch m fdt tag (s32 (startoffset + FDT_TAGSIZE)) of
                None \<Rightarrow> (FDT_END, - FDT_ERR_BADSTRUCTURE)
              | Some offset \<Rightarrow>
                  (case fdt_offset_ptr m fdt startoffset (u32 (offset - startoffset)) of
                     None \<Rightarrow> (FDT_END, - FDT_ERR_BADSTRUCTURE)
                   | Some _ \<Rightarrow> (tag, s32 (FDT_TAGALIGN offset)))))"

section \<open>Progress of the tag reader\<close>

lemma skip_name_range:
  "skip_name m fdt off = Some r \<Longrightarrow> off < 2147483648 \<Longrightarrow>
   0 \<le> off \<and> (off < r \<and> r < 2147483648 \<or> r = - 2147483648)"
proof (induction m fdt off rule: skip_name.induct)
  case (1 m fdt off)
  obtain p where p: "fdt_offset_ptr m fdt off 1 = Some p"
    using "1.prems" by (auto simp: skip_name.simps [of m fdt off] split: option.splits)
  then have off: "0 \<le> off" by (auto dest: fdt_offset_ptr_SomeD)
  have step: "s32 (off + 1) = off + 1 \<and> off + 1 < 2147483648 \<or> s32 (off + 1) = - 2147483648"
    using off "1.prems"(2) s32_Suc_cases [of off 1] s32_bounds(2) [of "off + 1"]
    by (cases "off + 1 < 2147483648") (auto simp: s32_id s32_big)
  show ?case
  proof (cases "m p = 0")
    case True
    then show ?thesis using "1.prems" p off step by (auto simp: skip_name.simps [of m fdt off])
  next
    case False
    then have "skip_name m fdt (s32 (off + 1)) = Some r"
      using "1.prems" p by (simp add: skip_name.simps [of m fdt off])
    then have "0 \<le> s32 (off + 1) \<and> (s32 (off + 1) < r \<and> r < 2147483648 \<or> r = - 2147483648)"
      using "1.IH" [OF p False] by simp
    then show ?thesis using off step by auto
  qed
qed

text \<open>Behind the switch the offset has grown, or has wrapped to just above the least \<open>int\<close>.\<close>

lemma next_tag_switch_range:
  assumes "next_tag_switch m fdt tag off = Some r" and "- 2147483648 \<le> off" "off < 2147483648"
  shows "off \<le> r \<and> r < 2147483648 \<or> - 2147483648 \<le> r \<and> r < - 2147483630"
proof -
  consider (node) "tag = FDT_BEGIN_NODE" | (pty) "tag = FDT_PROP"
    | (other) "tag \<noteq> FDT_BEGIN_NODE" "tag \<noteq> FDT_PROP" by blast
  then show ?thesis
  proof cases
    case node
    then show ?thesis
      using assms skip_name_range [of m fdt off r] by (auto simp: next_tag_switch_def)
  next
    case pty
    with assms(1) obtain lenp where lenp: "fdt_offset_ptr m fdt off 4 = Some lenp"
      by (auto simp: next_tag_switch_def split: option.splits)
    define len where "len = fdt32_ld m lenp"
    from lenp have off: "0 \<le> off" by (auto dest: fdt_offset_ptr_SomeD)
    have len: "0 \<le> len" "len < 4294967296" by (simp_all add: len_def)
    have sum: "u32 (off + len) < INT_MAX" "off \<le> u32 (off + len)"
      and r: "r = s32 (off + 8 + len) \<or> r = s32 (s32 (off + 8 + len) + 4)"
      using assms(1,3) pty lenp off
      by (auto simp: next_tag_switch_def Let_def len_def u32_id algebra_simps split: if_splits)
    have "off + len < INT_MAX"
      using u32_add_nowrap [OF off _ len sum(2)] sum(1) assms(3) by simp
    with off len r show ?thesis
      by (cases "off + 8 + len < 2147483648"; cases "off + 8 + len + 4 < 2147483648")
         (auto simp: s32_id s32_big)
  next
    case other
    then show ?thesis
      using assms by (auto simp: next_tag_switch_def split: if_splits)
  qed
qed

lemma FDT_TAGALIGN_mono: "x \<le> y \<Longrightarrow> FDT_TAGALIGN x \<le> FDT_TAGALIGN y"
  unfolding FDT_TAGALIGN_div by (intro mult_left_mono zdiv_mono1) simp_all

lemma next_tag_switch_neg:
  "next_tag_switch m fdt tag off = Some r \<Longrightarrow> off < 0 \<Longrightarrow> r = off"
  by (auto simp: next_tag_switch_def skip_name.simps [of m fdt off]
           dest: fdt_offset_ptr_SomeD split: if_splits option.splits)

lemma fdt_next_tag_range:
  assumes "fdt_next_tag m fdt off = (tag, off')" "tag \<noteq> FDT_END" "off < 2147483648"
  shows "0 \<le> off" "off < off' \<or> off' < 0" "off' < 2147483648"
proof -
  from assms(1,2) obtain tagp r
    where tagp: "fdt_offset_ptr m fdt off 4 = Some tagp"
      and r: "next_tag_switch m fdt (fdt32_ld m tagp) (s32 (off + 4)) = Some r"
      and off': "off' = s32 (FDT_TAGALIGN r)"
    by (auto simp: fdt_next_tag_def Let_def split: option.splits)
  from tagp show off: "0 \<le> off" by (auto dest: fdt_offset_ptr_SomeD)
  have "off + 4 \<le> r \<and> r < 2147483648 \<or> - 2147483648 \<le> r \<and> r < - 2147483600"
  proof (cases "off + 4 < 2147483648")
    case True
    then show ?thesis using next_tag_switch_range [OF r] off by (auto simp: s32_id)
  next
    case False
    then show ?thesis using next_tag_switch_neg [OF r] off assms(3) by (simp add: s32_big)
  qed
  then show "off < off' \<or> off' < 0"
    using off FDT_TAGALIGN_bounds [of r] unfolding off'
    by (cases "FDT_TAGALIGN r < 2147483648"; cases "0 \<le> r") (auto simp: s32_id s32_big)
  show "off' < 2147483648" by (simp add: off')
qed

text \<open>The law every walk over the structure block terminates by.\<close>

lemma fdt_next_tag_progress:
  assumes "fdt_next_tag m fdt off = (tag, off')" and "tag \<noteq> FDT_END"
  shows "walk_left off' < walk_left off"
proof (cases "off < 2147483648")
  case True
  then show ?thesis using fdt_next_tag_range [OF assms True] by (intro walk_left_lt) auto
next
  case False
  moreover have "off' < 2147483648"
    using assms by (auto simp: fdt_next_tag_def Let_def split: option.splits)
  ultimately show ?thesis by (intro walk_left_lt) auto
qed

lemma fdt_next_tag_progress':
  "(tag, off') = fdt_next_tag m fdt off \<Longrightarrow> tag \<noteq> FDT_END \<Longrightarrow> walk_left off' < walk_left off"
  by (rule fdt_next_tag_progress) simp_all

section \<open>Walking over nodes\<close>

definition fdt_check_node_offset_i :: "mem \<Rightarrow> addr \<Rightarrow> int \<Rightarrow> int" where
  "fdt_check_node_offset_i m fdt offset =
     (if offset < 0 \<or> offset mod FDT_TAGSIZE \<noteq> 0 then - FDT_ERR_BADOFFSET
      else (case fdt_next_tag m fdt offset of (tag, offset) \<Rightarrow>
              if tag \<noteq> FDT_BEGIN_NODE then - FDT_ERR_BADOFFSET else offset))"

definition fdt_check_prop_offset_i :: "mem \<Rightarrow> addr \<Rightarrow> int \<Rightarrow> int" where
  "fdt_check_prop_offset_i m fdt offset =
     (if offset < 0 \<or> offset mod FDT_TAGSIZE \<noteq> 0 then - FDT_ERR_BADOFFSET
      else (case fdt_next_tag m fdt offset of (tag, offset) \<Rightarrow>
              if tag \<noteq> FDT_PROP then - FDT_ERR_BADOFFSET else offset))"

text \<open>
  \<open>int *depth\<close> may be \<open>NULL\<close>: it is an option, and the functions return the depth they leave
  behind beside their result.
\<close>

function fdt_next_node_loop :: "mem \<Rightarrow> addr \<Rightarrow> int \<Rightarrow> int option \<Rightarrow> int \<times> int option" where
  "fdt_next_node_loop m fdt offset depth =
     (case fdt_next_tag m fdt offset of (tag, nextoffset) \<Rightarrow>
        if tag = FDT_PROP \<or> tag = FDT_NOP then fdt_next_node_loop m fdt nextoffset depth
        else if tag = FDT_BEGIN_NODE then (offset, map_option (\<lambda>d. d + 1) depth)
        else if tag = FDT_END_NODE then
          (case depth of
             None \<Rightarrow> fdt_next_node_loop m fdt nextoffset None
           | Some d \<Rightarrow> if d - 1 < 0 then (nextoffset, Some (d - 1))
                       else fdt_next_node_loop m fdt nextoffset (Some (d - 1)))
        else if nextoffset \<ge> 0 \<or> nextoffset = - FDT_ERR_TRUNCATED \<and> depth = None
        then (- FDT_ERR_NOTFOUND, depth)
        else (nextoffset, depth))"
  by pat_completeness auto
termination
  by (relation "measure (\<lambda>(m, fdt, offset, depth). walk_left offset)")
     (auto dest: fdt_next_tag_progress')

declare fdt_next_node_loop.simps [simp del]

definition fdt_next_node :: "mem \<Rightarrow> addr \<Rightarrow> int \<Rightarrow> int option \<Rightarrow> int \<times> int option" where
  "fdt_next_node m fdt offset depth =
     (if offset \<ge> 0 then
        (let nextoffset = fdt_check_node_offset_i m fdt offset
         in if nextoffset < 0 then (nextoffset, depth)
            else fdt_next_node_loop m fdt nextoffset depth)
      else fdt_next_node_loop m fdt 0 depth)"

definition fdt_first_subnode :: "mem \<Rightarrow> addr \<Rightarrow> int \<Rightarrow> int" where
  "fdt_first_subnode m fdt offset =
     (case fdt_next_node m fdt offset (Some 0) of (offset, depth) \<Rightarrow>
        if offset < 0 \<or> depth \<noteq> Some 1 then - FDT_ERR_NOTFOUND else offset)"

text \<open>What is left of a walk from node to node, which may start before the first one (at -1).\<close>

definition node_left :: "int \<Rightarrow> nat" where
  "node_left off = (if off < 0 then 2147483650 else walk_left off)"

lemma fdt_next_node_loop_left:
  "fdt_next_node_loop m fdt off d = (off', d') \<Longrightarrow> 0 \<le> off' \<Longrightarrow> walk_left off' \<le> walk_left off"
proof (induction m fdt off d arbitrary: off' d' rule: fdt_next_node_loop.induct)
  case (1 m fdt off d)
  obtain tag nxt where t: "fdt_next_tag m fdt off = (tag, nxt)" by fastforce
  have less: "walk_left nxt < walk_left off" if "tag \<noteq> FDT_END"
    using fdt_next_tag_progress [OF t that] .
  show ?case
    using "1.prems" "1.IH" [OF t [symmetric]] less
    by (subst (asm) fdt_next_node_loop.simps)
       (fastforce simp: t split: if_splits option.splits)
qed

text \<open>
  A step from a node that is there leaves less to walk; so does the first step, from before the
  first node.
\<close>

lemma fdt_next_node_progress:
  assumes "fdt_next_node m fdt off d = (off', d')" and "0 \<le> off"
  shows "walk_left off' < walk_left off"
proof (cases "0 \<le> off'")
  case False
  then show ?thesis using assms(2) by (simp add: walk_left_def)
next
  case True
  obtain tag nxt where t: "fdt_next_tag m fdt off = (tag, nxt)" by fastforce
  have node: "fdt_check_node_offset_i m fdt off = nxt" "tag = FDT_BEGIN_NODE"
    and loop: "fdt_next_node_loop m fdt nxt d = (off', d')"
    using assms True by (auto simp: fdt_next_node_def fdt_check_node_offset_i_def t split: if_splits)
  have "walk_left off' \<le> walk_left nxt"
    using fdt_next_node_loop_left [OF loop True] .
  also have "\<dots> < walk_left off" using fdt_next_tag_progress [OF t] node by simp
  finally show ?thesis .
qed

lemma fdt_next_node_left:
  assumes "fdt_next_node m fdt off d = (off', d')" and "0 \<le> off'"
  shows "node_left off' < node_left off"
proof (cases "0 \<le> off")
  case True
  then show ?thesis using fdt_next_node_progress [OF assms(1)] assms(2) by (simp add: node_left_def)
next
  case False
  then have "fdt_next_node_loop m fdt 0 d = (off', d')"
    using assms by (simp add: fdt_next_node_def)
  then have "walk_left off' \<le> walk_left 0" using assms(2) by (rule fdt_next_node_loop_left)
  then show ?thesis using False assms(2) by (simp add: node_left_def walk_left_def)
qed

text \<open>A depth that is passed in comes back.\<close>

lemma fdt_next_node_loop_depth:
  "fdt_next_node_loop m fdt off d = (off', d') \<Longrightarrow> (d' = None) = (d = None)"
proof (induction m fdt off d arbitrary: off' d' rule: fdt_next_node_loop.induct)
  case (1 m fdt off d)
  obtain tag nxt where t: "fdt_next_tag m fdt off = (tag, nxt)" by fastforce
  show ?case
    using "1.prems" "1.IH" [OF t [symmetric]]
    by (subst (asm) fdt_next_node_loop.simps)
       (fastforce simp: t split: if_splits option.splits)
qed

lemma fdt_next_node_depth:
  "fdt_next_node m fdt off d = (off', d') \<Longrightarrow> (d' = None) = (d = None)"
  by (auto simp: fdt_next_node_def Let_def split: if_splits dest: fdt_next_node_loop_depth)

text \<open>
  \<open>fdt_next_subnode\<close>. The depth is passed in, so the last case is never taken.
\<close>

function fdt_next_subnode_loop :: "mem \<Rightarrow> addr \<Rightarrow> int \<Rightarrow> int \<Rightarrow> int" where
  "fdt_next_subnode_loop m fdt offset depth =
     (case fdt_next_node m fdt offset (Some depth) of
        (offset, Some depth) \<Rightarrow>
          if offset < 0 \<or> depth < 1 then - FDT_ERR_NOTFOUND
          else if depth > 1 then fdt_next_subnode_loop m fdt offset depth
          else offset
      | (offset, None) \<Rightarrow> - FDT_ERR_NOTFOUND)"
  by pat_completeness auto
termination
  by (relation "measure (\<lambda>(m, fdt, offset, depth). node_left offset)")
     (auto intro!: fdt_next_node_left dest: sym)

declare fdt_next_subnode_loop.simps [simp del]

definition fdt_next_subnode :: "mem \<Rightarrow> addr \<Rightarrow> int \<Rightarrow> int" where
  "fdt_next_subnode m fdt offset = fdt_next_subnode_loop m fdt offset 1"

section \<open>The string table, moving a tree\<close>

text \<open>\<open>for (p = strtab; p <= last; p++) if (memcmp(p, s, len) == 0) return p\<close>, \<open>s\<close> with its NUL.\<close>

function find_string_loop :: "mem \<Rightarrow> addr \<Rightarrow> addr \<Rightarrow> byte list \<Rightarrow> addr option" where
  "find_string_loop m p lastp s =
     (if p \<le> lastp then
        (if mem_eq m p (s @ [0]) then Some p else find_string_loop m (p + 1) lastp s)
      else None)"
  by pat_completeness auto
termination by (relation "measure (\<lambda>(m, p, lastp, s). nat (lastp + 1 - p))") auto

declare find_string_loop.simps [simp del]

definition fdt_find_string_i :: "mem \<Rightarrow> addr \<Rightarrow> int \<Rightarrow> byte list \<Rightarrow> addr option" where
  "fdt_find_string_i m strtab tabsize s =
     (let len = int (length s) + 1; lastp = strtab + tabsize - len
      in find_string_loop m strtab lastp s)"

text \<open>Functions that write return their \<open>int\<close> result and the memory they leave.\<close>

definition fdt_move :: "mem \<Rightarrow> addr \<Rightarrow> addr \<Rightarrow> int \<Rightarrow> int \<times> mem" where
  "fdt_move m fdt buf bufsize =
     (if bufsize < 0 then (- FDT_ERR_NOSPACE, m)
      else if fdt_ro_probe_i m fdt < 0 then (fdt_ro_probe_i m fdt, m)
      else if fdt_totalsize m fdt > u32 bufsize then (- FDT_ERR_NOSPACE, m)
      else (0, memmove m buf fdt (nat (fdt_totalsize m fdt))))"

end
