(* ===== verification/Fdt_Ro.thy ===== *)
theory Fdt_Ro
  imports Fdt_Core
begin

text \<open>
  The read-only interface of libfdt, \<open>apps/lib/libfdt/fdt_ro.c\<close>, and \<open>fdt_addresses.c\<close> and
  \<open>fdt_strerror.c\<close> beside it. A function that returns a pointer and sets \<open>*lenp\<close> returns the pair
  of both, whether or not the caller passed a \<open>lenp\<close>. A name passed with its length is the list
  of that many bytes.
\<close>

section \<open>Strings of the string block\<close>

text \<open>The last lines of \<open>fdt_get_string\<close>: the string at \<open>s\<close> and its length, if it ends within \<open>len\<close>.\<close>

definition string_at :: "mem \<Rightarrow> addr \<Rightarrow> int \<Rightarrow> addr option \<times> int" where
  "string_at m s len =
     (case memchr m s 0 (nat len) of
        None \<Rightarrow> (None, - FDT_ERR_TRUNCATED)
      | Some n \<Rightarrow> (Some s, s32 (n - s)))"

definition fdt_get_string :: "mem \<Rightarrow> addr \<Rightarrow> int \<Rightarrow> addr option \<times> int" where
  "fdt_get_string m fdt stroffset =
     (let totalsize = fdt_ro_probe_i m fdt;
          absoffset = u32 (stroffset + fdt_off_dt_strings m fdt);
          len = u32 (totalsize - absoffset);
          finish = string_at m (fdt + absoffset)
      in if totalsize < 0 then (None, totalsize)
         else if absoffset \<ge> totalsize then (None, - FDT_ERR_BADOFFSET)
         else if fdt_magic m fdt = FDT_MAGIC then
           (if stroffset < 0 then (None, - FDT_ERR_BADOFFSET)
            else if fdt_version m fdt \<ge> 17 then
              (if u32 stroffset \<ge> fdt_size_dt_strings m fdt then (None, - FDT_ERR_BADOFFSET)
               else if u32 (fdt_size_dt_strings m fdt - stroffset) < len
               then finish (u32 (fdt_size_dt_strings m fdt - stroffset))
               else finish len)
            else finish len)
         else if fdt_magic m fdt = FDT_SW_MAGIC then
           (let sw_stroffset = u32 (- stroffset)
            in if stroffset \<ge> 0 \<or> sw_stroffset > fdt_size_dt_strings m fdt
               then (None, - FDT_ERR_BADOFFSET)
               else if sw_stroffset < len then finish sw_stroffset else finish len)
         else (None, - FDT_ERR_INTERNAL))"

definition fdt_string :: "mem \<Rightarrow> addr \<Rightarrow> int \<Rightarrow> addr option" where
  "fdt_string m fdt stroffset = fst (fdt_get_string m fdt stroffset)"

definition fdt_string_eq_i :: "mem \<Rightarrow> addr \<Rightarrow> int \<Rightarrow> byte list \<Rightarrow> bool" where
  "fdt_string_eq_i m fdt stroffset s =
     (case fdt_get_string m fdt stroffset of
        (None, slen) \<Rightarrow> False
      | (Some p, slen) \<Rightarrow> slen = int (length s) \<and> mem_eq m p s)"

section \<open>Node names\<close>

definition fdt_get_name :: "mem \<Rightarrow> addr \<Rightarrow> int \<Rightarrow> addr option \<times> int" where
  "fdt_get_name m fdt nodeoffset =
     (if fdt_ro_probe_i m fdt < 0 then (None, fdt_ro_probe_i m fdt)
      else if fdt_check_node_offset_i m fdt nodeoffset < 0
      then (None, fdt_check_node_offset_i m fdt nodeoffset)
      else
        (let nameptr = fdt_offset_ptr_i m fdt nodeoffset + 4
         in if fdt_version m fdt < 0x10 then
              (case strrchr m nameptr 47 of
                 None \<Rightarrow> (None, - FDT_ERR_BADSTRUCTURE)
               | Some leaf \<Rightarrow> (Some (leaf + 1), s32 (int (strlen m (leaf + 1)))))
            else (Some nameptr, s32 (int (strlen m nameptr)))))"

definition fdt_nodename_eq_i :: "mem \<Rightarrow> addr \<Rightarrow> int \<Rightarrow> byte list \<Rightarrow> bool" where
  "fdt_nodename_eq_i m fdt offset s =
     (let len = int (length s)
      in case fdt_get_name m fdt offset of
           (None, olen) \<Rightarrow> False
         | (Some p, olen) \<Rightarrow>
             if olen < len then False
             else if \<not> mem_eq m p s then False
             else if m (p + len) = 0 then True
             else if 64 \<notin> set s \<and> m (p + len) = 64 then True
             else False)"

section \<open>Memory reservations\<close>

definition fdt_mem_rsv_i :: "mem \<Rightarrow> addr \<Rightarrow> int \<Rightarrow> addr" where
  "fdt_mem_rsv_i m fdt n = fdt + fdt_off_mem_rsvmap m fdt + n * SIZEOF_RESERVE_ENTRY"

definition fdt_mem_rsv :: "mem \<Rightarrow> addr \<Rightarrow> int \<Rightarrow> addr option" where
  "fdt_mem_rsv m fdt n =
     (let offset = u32 (n * SIZEOF_RESERVE_ENTRY);
          absoffset = u32 (fdt_off_mem_rsvmap m fdt + offset)
      in if absoffset < fdt_off_mem_rsvmap m fdt then None
         else if absoffset > u64 (fdt_totalsize m fdt - SIZEOF_RESERVE_ENTRY) then None
         else Some (fdt_mem_rsv_i m fdt n))"

text \<open>The result with, on success, \<open>*address\<close> and \<open>*size\<close>.\<close>

definition fdt_get_mem_rsv :: "mem \<Rightarrow> addr \<Rightarrow> int \<Rightarrow> int \<times> (int \<times> int) option" where
  "fdt_get_mem_rsv m fdt n =
     (if fdt_ro_probe_i m fdt < 0 then (fdt_ro_probe_i m fdt, None)
      else case fdt_mem_rsv m fdt n of
             None \<Rightarrow> (- FDT_ERR_BADOFFSET, None)
           | Some re \<Rightarrow> (0, Some (fdt64_ld m re, fdt64_ld m (re + 8))))"

text \<open>
  \<open>fdt_num_mem_rsv\<close> does not check the header. Its loop may run forever (the offset of entry
  \<open>i\<close> is computed modulo \<open>2 ^ 32\<close>), which is the value \<open>None\<close>.
\<close>

partial_function (option) num_mem_rsv_loop :: "mem \<Rightarrow> addr \<Rightarrow> int \<Rightarrow> int option" where
  "num_mem_rsv_loop m fdt i =
     (case fdt_mem_rsv m fdt i of
        None \<Rightarrow> Some (- FDT_ERR_TRUNCATED)
      | Some re \<Rightarrow> if fdt64_ld m (re + 8) = 0 then Some i else num_mem_rsv_loop m fdt (i + 1))"

definition fdt_num_mem_rsv :: "mem \<Rightarrow> addr \<Rightarrow> int option" where
  "fdt_num_mem_rsv m fdt = num_mem_rsv_loop m fdt 0"

section \<open>Properties of a node\<close>

function nextprop_i :: "mem \<Rightarrow> addr \<Rightarrow> int \<Rightarrow> int" where
  "nextprop_i m fdt offset =
     (case fdt_next_tag m fdt offset of (tag, nextoffset) \<Rightarrow>
        if tag = FDT_END then (if nextoffset \<ge> 0 then - FDT_ERR_BADSTRUCTURE else nextoffset)
        else if tag = FDT_PROP then offset
        else if tag = FDT_NOP then nextprop_i m fdt nextoffset
        else - FDT_ERR_NOTFOUND)"
  by pat_completeness auto
termination
  by (relation "measure (\<lambda>(m, fdt, offset). walk_left offset)")
     (auto dest: fdt_next_tag_progress')

declare nextprop_i.simps [simp del]

definition fdt_first_property_offset :: "mem \<Rightarrow> addr \<Rightarrow> int \<Rightarrow> int" where
  "fdt_first_property_offset m fdt nodeoffset =
     (let offset = fdt_check_node_offset_i m fdt nodeoffset
      in if offset < 0 then offset else nextprop_i m fdt offset)"

definition fdt_next_property_offset :: "mem \<Rightarrow> addr \<Rightarrow> int \<Rightarrow> int" where
  "fdt_next_property_offset m fdt offset =
     (let offset = fdt_check_prop_offset_i m fdt offset
      in if offset < 0 then offset else nextprop_i m fdt offset)"

definition fdt_get_property_by_offset_i :: "mem \<Rightarrow> addr \<Rightarrow> int \<Rightarrow> addr option \<times> int" where
  "fdt_get_property_by_offset_i m fdt offset =
     (let err = fdt_check_prop_offset_i m fdt offset
      in if err < 0 then (None, err)
         else (let prop = fdt_offset_ptr_i m fdt offset
               in (Some prop, s32 (fdt32_ld m (prop + 4)))))"

definition fdt_get_property_by_offset :: "mem \<Rightarrow> addr \<Rightarrow> int \<Rightarrow> addr option \<times> int" where
  "fdt_get_property_by_offset m fdt offset =
     (if fdt_version m fdt < 0x10 then (None, - FDT_ERR_BADVERSION)
      else fdt_get_property_by_offset_i m fdt offset)"

lemma nextprop_left: "walk_left (nextprop_i m fdt off) \<le> walk_left off"
proof (induction m fdt off rule: nextprop_i.induct)
  case (1 m fdt off)
  obtain tag nxt where t: "fdt_next_tag m fdt off = (tag, nxt)" by fastforce
  show ?case
  proof (cases "tag = FDT_NOP")
    case True
    have "walk_left (nextprop_i m fdt nxt) \<le> walk_left nxt"
      using "1.IH" [OF t [symmetric]] True by simp
    moreover have "walk_left nxt < walk_left off"
      using fdt_next_tag_progress [OF t] True by simp
    ultimately show ?thesis using True by (simp add: nextprop_i.simps [of m fdt off] t)
  next
    case False
    then show ?thesis
      by (simp add: nextprop_i.simps [of m fdt off] t) (simp add: walk_left_def)
  qed
qed

lemma fdt_next_property_left:
  assumes "0 \<le> off"
  shows "walk_left (fdt_next_property_offset m fdt off) < walk_left off"
proof (cases "fdt_check_prop_offset_i m fdt off < 0")
  case True
  then show ?thesis using assms by (simp add: fdt_next_property_offset_def walk_left_def)
next
  case False
  obtain tag nxt where t: "fdt_next_tag m fdt off = (tag, nxt)" by fastforce
  with False have "fdt_check_prop_offset_i m fdt off = nxt" "tag = FDT_PROP"
    by (auto simp: fdt_check_prop_offset_i_def split: if_splits)
  then have "fdt_next_property_offset m fdt off = nextprop_i m fdt nxt" "tag \<noteq> FDT_END"
    using False by (simp_all add: fdt_next_property_offset_def)
  then show ?thesis
    using nextprop_left [of m fdt nxt] fdt_next_tag_progress [OF t] by simp
qed

text \<open>
  The loop of \<open>fdt_get_property_namelen_\<close>, from an offset already reached: the property, \<open>*lenp\<close>
  and \<open>*poffset\<close>.
\<close>

function get_property_loop :: "mem \<Rightarrow> addr \<Rightarrow> int \<Rightarrow> byte list \<Rightarrow> addr option \<times> int \<times> int" where
  "get_property_loop m fdt offset name =
     (if offset \<ge> 0 then
        (case fdt_get_property_by_offset_i m fdt offset of
           (None, len) \<Rightarrow> (None, - FDT_ERR_INTERNAL, offset)
         | (Some prop, len) \<Rightarrow>
             if fdt_string_eq_i m fdt (s32 (fdt32_ld m (prop + 8))) name
             then (Some prop, len, offset)
             else get_property_loop m fdt (fdt_next_property_offset m fdt offset) name)
      else (None, offset, offset))"
  by pat_completeness auto
termination
  by (relation "measure (\<lambda>(m, fdt, offset, name). walk_left offset)")
     (auto intro: fdt_next_property_left)

declare get_property_loop.simps [simp del]

definition fdt_get_property_namelen_i ::
  "mem \<Rightarrow> addr \<Rightarrow> int \<Rightarrow> byte list \<Rightarrow> addr option \<times> int \<times> int" where
  "fdt_get_property_namelen_i m fdt offset name =
     get_property_loop m fdt (fdt_first_property_offset m fdt offset) name"

definition fdt_get_property_namelen :: "mem \<Rightarrow> addr \<Rightarrow> int \<Rightarrow> byte list \<Rightarrow> addr option \<times> int" where
  "fdt_get_property_namelen m fdt offset name =
     (if fdt_version m fdt < 0x10 then (None, - FDT_ERR_BADVERSION)
      else (case fdt_get_property_namelen_i m fdt offset name of (prop, len, poffset) \<Rightarrow> (prop, len)))"

definition fdt_get_property :: "mem \<Rightarrow> addr \<Rightarrow> int \<Rightarrow> byte list \<Rightarrow> addr option \<times> int" where
  "fdt_get_property m fdt nodeoffset name = fdt_get_property_namelen m fdt nodeoffset name"

text \<open>\<open>prop->data\<close>, or four bytes behind it where a tree older than version 16 pads it.\<close>

definition prop_value :: "mem \<Rightarrow> addr \<Rightarrow> addr \<Rightarrow> int \<Rightarrow> addr" where
  "prop_value m fdt prop offset =
     (if fdt_version m fdt < 0x10 \<and> (offset + SIZEOF_PROPERTY) mod 8 \<noteq> 0
         \<and> fdt32_ld m (prop + 4) \<ge> 8
      then prop + SIZEOF_PROPERTY + 4 else prop + SIZEOF_PROPERTY)"

definition fdt_getprop_namelen :: "mem \<Rightarrow> addr \<Rightarrow> int \<Rightarrow> byte list \<Rightarrow> addr option \<times> int" where
  "fdt_getprop_namelen m fdt nodeoffset name =
     (case fdt_get_property_namelen_i m fdt nodeoffset name of
        (None, len, poffset) \<Rightarrow> (None, len)
      | (Some prop, len, poffset) \<Rightarrow> (Some (prop_value m fdt prop poffset), len))"

text \<open>With a \<open>namep\<close>: the value, the name and \<open>*lenp\<close>.\<close>

definition fdt_getprop_by_offset :: "mem \<Rightarrow> addr \<Rightarrow> int \<Rightarrow> addr option \<times> addr option \<times> int" where
  "fdt_getprop_by_offset m fdt offset =
     (case fdt_get_property_by_offset_i m fdt offset of
        (None, len) \<Rightarrow> (None, None, len)
      | (Some prop, len) \<Rightarrow>
          (case fdt_get_string m fdt (s32 (fdt32_ld m (prop + 8))) of
             (None, namelen) \<Rightarrow> (None, None, namelen)
           | (Some name, namelen) \<Rightarrow> (Some (prop_value m fdt prop offset), Some name, len)))"

definition fdt_getprop :: "mem \<Rightarrow> addr \<Rightarrow> int \<Rightarrow> byte list \<Rightarrow> addr option \<times> int" where
  "fdt_getprop m fdt nodeoffset name = fdt_getprop_namelen m fdt nodeoffset name"

definition fdt_get_phandle :: "mem \<Rightarrow> addr \<Rightarrow> int \<Rightarrow> int" where
  "fdt_get_phandle m fdt nodeoffset =
     (case fdt_getprop m fdt nodeoffset (str ''phandle'') of
        (php, len) \<Rightarrow>
          if php = None \<or> len \<noteq> 4 then
            (case fdt_getprop m fdt nodeoffset (str ''linux,phandle'') of
               (Some php, len) \<Rightarrow> if len \<noteq> 4 then 0 else fdt32_ld m php
             | (None, len) \<Rightarrow> 0)
          else fdt32_ld m (the php))"

section \<open>Phandles\<close>

text \<open>The loop of \<open>fdt_find_max_phandle\<close>: the result and the \<open>max\<close> it leaves.\<close>

function max_phandle_loop :: "mem \<Rightarrow> addr \<Rightarrow> int \<Rightarrow> int \<Rightarrow> int \<times> int" where
  "max_phandle_loop m fdt offset mx =
     (let offset' = fst (fdt_next_node m fdt offset None)
      in if offset' < 0 then
           (if offset' = - FDT_ERR_NOTFOUND then (0, mx) else (offset', mx))
         else (let v = fdt_get_phandle m fdt offset'
               in max_phandle_loop m fdt offset' (if v > mx then v else mx)))"
  by pat_completeness auto
termination
  by (relation "measure (\<lambda>(m, fdt, offset, mx). node_left offset)")
     (auto intro!: fdt_next_node_left simp: prod_eq_iff)

declare max_phandle_loop.simps [simp del]

text \<open>The result and, where it is set, \<open>*phandle\<close>.\<close>

definition fdt_find_max_phandle :: "mem \<Rightarrow> addr \<Rightarrow> int \<times> int option" where
  "fdt_find_max_phandle m fdt =
     (case max_phandle_loop m fdt (- 1) 0 of (err, mx) \<Rightarrow> (err, if err < 0 then None else Some mx))"

definition fdt_generate_phandle :: "mem \<Rightarrow> addr \<Rightarrow> int \<times> int option" where
  "fdt_generate_phandle m fdt =
     (case fdt_find_max_phandle m fdt of
        (err, None) \<Rightarrow> (err, None)
      | (err, Some mx) \<Rightarrow>
          if mx = FDT_MAX_PHANDLE then (- FDT_ERR_NOPHANDLES, None)
          else (0, Some (u32 (mx + 1))))"

section \<open>Subnodes and paths\<close>

function subnode_loop :: "mem \<Rightarrow> addr \<Rightarrow> byte list \<Rightarrow> int \<Rightarrow> int \<Rightarrow> int" where
  "subnode_loop m fdt name offset depth =
     (if offset \<ge> 0 \<and> depth \<ge> 0 then
        (if depth = 1 \<and> fdt_nodename_eq_i m fdt offset name then offset
         else (case fdt_next_node m fdt offset (Some depth) of
                 (offset, Some depth) \<Rightarrow> subnode_loop m fdt name offset depth
               | (offset, None) \<Rightarrow> offset))
      else if depth < 0 then - FDT_ERR_NOTFOUND
      else offset)"
  by pat_completeness auto
termination
  by (relation "measure (\<lambda>(m, fdt, name, offset, depth). walk_left offset)")
     (auto intro!: fdt_next_node_progress dest: sym)

declare subnode_loop.simps [simp del]

definition fdt_subnode_offset_namelen :: "mem \<Rightarrow> addr \<Rightarrow> int \<Rightarrow> byte list \<Rightarrow> int" where
  "fdt_subnode_offset_namelen m fdt offset name =
     (if fdt_ro_probe_i m fdt < 0 then fdt_ro_probe_i m fdt
      else subnode_loop m fdt name offset 0)"

definition fdt_subnode_offset :: "mem \<Rightarrow> addr \<Rightarrow> int \<Rightarrow> byte list \<Rightarrow> int" where
  "fdt_subnode_offset m fdt parentoffset name =
     fdt_subnode_offset_namelen m fdt parentoffset name"

text \<open>The loop \<open>while (p < end)\<close> of \<open>fdt_path_offset_namelen\<close>; \<open>p\<close> is the rest of the path.\<close>

function path_walk :: "mem \<Rightarrow> addr \<Rightarrow> int \<Rightarrow> byte list \<Rightarrow> int" where
  "path_walk m fdt offset p =
     (if p = [] then offset
      else (let p = dropWhile (\<lambda>c. c = 47) p
            in if p = [] then offset
               else (let offset' = fdt_subnode_offset_namelen m fdt offset (takeWhile (\<lambda>c. c \<noteq> 47) p)
                     in if offset' < 0 then offset'
                        else path_walk m fdt offset' (dropWhile (\<lambda>c. c \<noteq> 47) p))))"
  by pat_completeness auto
termination
proof (relation "measure (\<lambda>(m, fdt, offset, p). length p)", simp)
  fix m fdt offset xa and p x :: "byte list"
  assume x: "x = dropWhile (\<lambda>c. c = 47) p" "x \<noteq> []"
  then have "hd x \<noteq> 47" using hd_dropWhile [of "\<lambda>c. c = 47" p] by simp
  then have "length (dropWhile (\<lambda>c. c \<noteq> 47) x) < length x"
    using x(2) by (cases x) (auto simp: le_imp_less_Suc length_dropWhile_le)
  also have "\<dots> \<le> length p" using x(1) by (simp add: length_dropWhile_le)
  finally show "((m, fdt, xa, dropWhile (\<lambda>c. c \<noteq> 47) x), m, fdt, offset, p)
      \<in> measure (\<lambda>(m, fdt, offset, p). length p)" by simp
qed

declare path_walk.simps [simp del]

text \<open>
  \<open>fdt_path_offset_namelen\<close> and \<open>fdt_get_alias_namelen\<close> call each other; the call of the second
  is written out here. An alias that names itself is followed for ever: the value \<open>None\<close>.
\<close>

partial_function (option) fdt_path_offset_namelen :: "mem \<Rightarrow> addr \<Rightarrow> byte list \<Rightarrow> int option" where
  "fdt_path_offset_namelen m fdt path =
     (if fdt_ro_probe_i m fdt < 0 then Some (fdt_ro_probe_i m fdt)
      else if deref path \<noteq> 47 then
        do {
          aliasoffset \<leftarrow> fdt_path_offset_namelen m fdt (str ''/aliases'');
          (case (if aliasoffset < 0 then None
                 else fst (fdt_getprop_namelen m fdt aliasoffset (takeWhile (\<lambda>c. c \<noteq> 47) path))) of
             None \<Rightarrow> Some (- FDT_ERR_BADPATH)
           | Some p \<Rightarrow>
               do {
                 offset \<leftarrow> fdt_path_offset_namelen m fdt (cstr m p);
                 Some (path_walk m fdt offset (dropWhile (\<lambda>c. c \<noteq> 47) path))
               })
        }
      else Some (path_walk m fdt 0 path))"

definition fdt_path_offset :: "mem \<Rightarrow> addr \<Rightarrow> byte list \<Rightarrow> int option" where
  "fdt_path_offset m fdt path = fdt_path_offset_namelen m fdt path"

definition fdt_get_alias_namelen :: "mem \<Rightarrow> addr \<Rightarrow> byte list \<Rightarrow> addr option option" where
  "fdt_get_alias_namelen m fdt name =
     do {
       aliasoffset \<leftarrow> fdt_path_offset m fdt (str ''/aliases'');
       Some (if aliasoffset < 0 then None else fst (fdt_getprop_namelen m fdt aliasoffset name))
     }"

definition fdt_get_alias :: "mem \<Rightarrow> addr \<Rightarrow> byte list \<Rightarrow> addr option option" where
  "fdt_get_alias m fdt name = fdt_get_alias_namelen m fdt name"

text \<open>
  \<open>fdt_get_path\<close> writes the path to \<open>buf\<close>. Its loop \<open>do p--; while (buf[p-1] != '/')\<close> has no
  lower bound; where there is no slash below it does not return.
\<close>

partial_function (option) pop_name :: "mem \<Rightarrow> addr \<Rightarrow> int \<Rightarrow> int option" where
  "pop_name m buf p = (if m (buf + (p - 1) - 1) \<noteq> 47 then pop_name m buf (p - 1) else Some (p - 1))"

partial_function (option) pop_names :: "mem \<Rightarrow> addr \<Rightarrow> int \<Rightarrow> int \<Rightarrow> int \<Rightarrow> (int \<times> int) option" where
  "pop_names m buf depth pdepth p =
     (if pdepth > depth then
        do { p \<leftarrow> pop_name m buf p; pop_names m buf depth (pdepth - 1) p }
      else Some (pdepth, p))"

definition push_name ::
  "mem \<Rightarrow> addr \<Rightarrow> addr \<Rightarrow> int \<Rightarrow> int \<Rightarrow> int \<Rightarrow> int \<Rightarrow> int \<Rightarrow> int + (mem \<times> int \<times> int)" where
  "push_name m fdt buf buflen offset depth pdepth p =
     (if pdepth \<ge> depth then
        (case fdt_get_name m fdt offset of
           (None, namelen) \<Rightarrow> Inl namelen
         | (Some name, namelen) \<Rightarrow>
             if p + namelen + 1 \<le> buflen
             then Inr ((memcpy m (buf + p) name (nat namelen))(buf + (p + namelen) := 47),
                       pdepth + 1, p + namelen + 1)
             else Inr (m, pdepth, p))
      else Inr (m, pdepth, p))"

partial_function (option) get_path_loop ::
  "mem \<Rightarrow> addr \<Rightarrow> int \<Rightarrow> addr \<Rightarrow> int \<Rightarrow> int \<Rightarrow> int \<Rightarrow> int \<Rightarrow> int \<Rightarrow> (int \<times> mem) option" where
  "get_path_loop m fdt nodeoffset buf buflen offset depth pdepth p =
     (if offset \<ge> 0 \<and> offset \<le> nodeoffset then
        do {
          (pdepth, p) \<leftarrow> pop_names m buf depth pdepth p;
          (case push_name m fdt buf buflen offset depth pdepth p of
             Inl err \<Rightarrow> Some (err, m)
           | Inr (m, pdepth, p) \<Rightarrow>
               if offset = nodeoffset then
                 (if pdepth < depth + 1 then Some (- FDT_ERR_NOSPACE, m)
                  else Some (0, m(buf + (if p > 1 then p - 1 else p) := 0)))
               else
                 (case fdt_next_node m fdt offset (Some depth) of
                    (offset, d) \<Rightarrow>
                      get_path_loop m fdt nodeoffset buf buflen offset (the d) pdepth p))
        }
      else if offset = - FDT_ERR_NOTFOUND \<or> offset \<ge> 0 then Some (- FDT_ERR_BADOFFSET, m)
      else if offset = - FDT_ERR_BADOFFSET then Some (- FDT_ERR_BADSTRUCTURE, m)
      else Some (offset, m))"

definition fdt_get_path :: "mem \<Rightarrow> addr \<Rightarrow> int \<Rightarrow> addr \<Rightarrow> int \<Rightarrow> (int \<times> mem) option" where
  "fdt_get_path m fdt nodeoffset buf buflen =
     (if fdt_ro_probe_i m fdt < 0 then Some (fdt_ro_probe_i m fdt, m)
      else if buflen < 2 then Some (- FDT_ERR_NOSPACE, m)
      else get_path_loop m fdt nodeoffset buf buflen 0 0 0 0)"

text \<open>The result and, where it is set, \<open>*nodedepth\<close>.\<close>

function supernode_loop :: "mem \<Rightarrow> addr \<Rightarrow> int \<Rightarrow> int \<Rightarrow> int \<Rightarrow> int \<Rightarrow> int \<Rightarrow> int \<times> int option" where
  "supernode_loop m fdt nodeoffset supernodedepth offset depth supernodeoffset =
     (if offset \<ge> 0 \<and> offset \<le> nodeoffset then
        (let supernodeoffset = (if depth = supernodedepth then offset else supernodeoffset)
         in if offset = nodeoffset then
              (if supernodedepth > depth then - FDT_ERR_NOTFOUND else supernodeoffset, Some depth)
            else (case fdt_next_node m fdt offset (Some depth) of
                    (offset, d) \<Rightarrow>
                      supernode_loop m fdt nodeoffset supernodedepth offset (the d) supernodeoffset))
      else if offset = - FDT_ERR_NOTFOUND \<or> offset \<ge> 0 then (- FDT_ERR_BADOFFSET, None)
      else if offset = - FDT_ERR_BADOFFSET then (- FDT_ERR_BADSTRUCTURE, None)
      else (offset, None))"
  by pat_completeness auto
termination
  by (relation "measure (\<lambda>(m, fdt, nodeoffset, sd, offset, depth, so). walk_left offset)")
     (auto intro!: fdt_next_node_progress dest: sym)

declare supernode_loop.simps [simp del]

definition fdt_supernode_atdepth_offset :: "mem \<Rightarrow> addr \<Rightarrow> int \<Rightarrow> int \<Rightarrow> int \<times> int option" where
  "fdt_supernode_atdepth_offset m fdt nodeoffset supernodedepth =
     (if fdt_ro_probe_i m fdt < 0 then (fdt_ro_probe_i m fdt, None)
      else if supernodedepth < 0 then (- FDT_ERR_NOTFOUND, None)
      else supernode_loop m fdt nodeoffset supernodedepth 0 0 (- FDT_ERR_INTERNAL))"

text \<open>\<open>*nodedepth\<close> is set whenever the result is 0, which the last case relies on.\<close>

definition fdt_node_depth :: "mem \<Rightarrow> addr \<Rightarrow> int \<Rightarrow> int" where
  "fdt_node_depth m fdt nodeoffset =
     (case fdt_supernode_atdepth_offset m fdt nodeoffset 0 of
        (err, nodedepth) \<Rightarrow>
          if err \<noteq> 0 then (if err < 0 then err else - FDT_ERR_INTERNAL) else the nodedepth)"

definition fdt_parent_offset :: "mem \<Rightarrow> addr \<Rightarrow> int \<Rightarrow> int" where
  "fdt_parent_offset m fdt nodeoffset =
     (let nodedepth = fdt_node_depth m fdt nodeoffset
      in if nodedepth < 0 then nodedepth
         else fst (fdt_supernode_atdepth_offset m fdt nodeoffset (nodedepth - 1)))"

section \<open>Searching for a node\<close>

text \<open>
  The three loops \<open>for (offset = fdt_next_node(fdt, offset, NULL); offset >= 0; ...)\<close>; the argument
  is the offset the next step starts from.
\<close>

function by_prop_value_loop :: "mem \<Rightarrow> addr \<Rightarrow> byte list \<Rightarrow> byte list \<Rightarrow> int \<Rightarrow> int" where
  "by_prop_value_loop m fdt propname propval offset =
     (let offset' = fst (fdt_next_node m fdt offset None)
      in if offset' \<ge> 0 then
           (case fdt_getprop m fdt offset' propname of
              (Some v, len) \<Rightarrow>
                if len = int (length propval) \<and> mem_eq m v propval then offset'
                else by_prop_value_loop m fdt propname propval offset'
            | (None, len) \<Rightarrow> by_prop_value_loop m fdt propname propval offset')
         else offset')"
  by pat_completeness auto
termination
  by (relation "measure (\<lambda>(m, fdt, n, v, offset). node_left offset)")
     (auto intro!: fdt_next_node_left simp: prod_eq_iff)

declare by_prop_value_loop.simps [simp del]

definition fdt_node_offset_by_prop_value ::
  "mem \<Rightarrow> addr \<Rightarrow> int \<Rightarrow> byte list \<Rightarrow> byte list \<Rightarrow> int" where
  "fdt_node_offset_by_prop_value m fdt startoffset propname propval =
     (if fdt_ro_probe_i m fdt < 0 then fdt_ro_probe_i m fdt
      else by_prop_value_loop m fdt propname propval startoffset)"

function by_phandle_loop :: "mem \<Rightarrow> addr \<Rightarrow> int \<Rightarrow> int \<Rightarrow> int" where
  "by_phandle_loop m fdt phandle offset =
     (let offset' = fst (fdt_next_node m fdt offset None)
      in if offset' \<ge> 0 then
           (if fdt_get_phandle m fdt offset' = phandle then offset'
            else by_phandle_loop m fdt phandle offset')
         else offset')"
  by pat_completeness auto
termination
  by (relation "measure (\<lambda>(m, fdt, phandle, offset). node_left offset)")
     (auto intro!: fdt_next_node_left simp: prod_eq_iff)

declare by_phandle_loop.simps [simp del]

definition fdt_node_offset_by_phandle :: "mem \<Rightarrow> addr \<Rightarrow> int \<Rightarrow> int" where
  "fdt_node_offset_by_phandle m fdt phandle =
     (if phandle = 0 \<or> phandle = 0xffffffff then - FDT_ERR_BADPHANDLE
      else if fdt_ro_probe_i m fdt < 0 then fdt_ro_probe_i m fdt
      else by_phandle_loop m fdt phandle (- 1))"

section \<open>String lists\<close>

lemma memchr_SomeD: "memchr m s c n = Some p \<Longrightarrow> s \<le> p \<and> p < s + int n \<and> m p = c"
  by (simp add: memchr_search memchr_bytes_Some)

text \<open>\<open>memcmp(str, strlist, len+1)\<close> compares the string with its NUL.\<close>

function fdt_stringlist_contains :: "mem \<Rightarrow> addr \<Rightarrow> int \<Rightarrow> byte list \<Rightarrow> bool" where
  "fdt_stringlist_contains m strlist listlen s =
     (if listlen \<ge> int (length s) then
        (if mem_eq m strlist (s @ [0]) then True
         else (case memchr m strlist 0 (nat listlen) of
                 None \<Rightarrow> False
               | Some p \<Rightarrow> fdt_stringlist_contains m (p + 1) (listlen - ((p - strlist) + 1)) s))
      else False)"
  by pat_completeness auto
termination
  by (relation "measure (\<lambda>(m, strlist, listlen, s). nat listlen)") (auto dest!: memchr_SomeD)

declare fdt_stringlist_contains.simps [simp del]

text \<open>The string at the head of a list and the bytes behind it: \<open>strnlen(list, end - list) + 1\<close>.\<close>

definition string_step :: "mem \<Rightarrow> addr \<Rightarrow> addr \<Rightarrow> int" where
  "string_step m lst lend = int (strnlen m lst (nat (lend - lst))) + 1"

lemma string_step_pos [simp]: "0 < string_step m lst lend"
  by (simp add: string_step_def)

function stringlist_count_loop :: "mem \<Rightarrow> addr \<Rightarrow> addr \<Rightarrow> int \<Rightarrow> int" where
  "stringlist_count_loop m lst lend count =
     (if lst < lend then
        (let len = string_step m lst lend
         in if lst + len > lend then - FDT_ERR_BADVALUE
            else stringlist_count_loop m (lst + len) lend (count + 1))
      else count)"
  by pat_completeness auto
termination
  by (relation "measure (\<lambda>(m, lst, lend, count). nat (lend - lst))") auto

declare stringlist_count_loop.simps [simp del]

definition fdt_stringlist_count :: "mem \<Rightarrow> addr \<Rightarrow> int \<Rightarrow> byte list \<Rightarrow> int" where
  "fdt_stringlist_count m fdt nodeoffset property =
     (case fdt_getprop m fdt nodeoffset property of
        (None, len) \<Rightarrow> len
      | (Some lst, len) \<Rightarrow> stringlist_count_loop m lst (lst + len) 0)"

function stringlist_search_loop :: "mem \<Rightarrow> addr \<Rightarrow> addr \<Rightarrow> byte list \<Rightarrow> int \<Rightarrow> int" where
  "stringlist_search_loop m lst lend s idx =
     (if lst < lend then
        (let len = string_step m lst lend
         in if lst + len > lend then - FDT_ERR_BADVALUE
            else if len = int (length s) + 1 \<and> mem_eq m lst (s @ [0]) then idx
            else stringlist_search_loop m (lst + len) lend s (idx + 1))
      else - FDT_ERR_NOTFOUND)"
  by pat_completeness auto
termination
  by (relation "measure (\<lambda>(m, lst, lend, s, idx). nat (lend - lst))") auto

declare stringlist_search_loop.simps [simp del]

definition fdt_stringlist_search :: "mem \<Rightarrow> addr \<Rightarrow> int \<Rightarrow> byte list \<Rightarrow> byte list \<Rightarrow> int" where
  "fdt_stringlist_search m fdt nodeoffset property s =
     (case fdt_getprop m fdt nodeoffset property of
        (None, len) \<Rightarrow> len
      | (Some lst, len) \<Rightarrow> stringlist_search_loop m lst (lst + len) s 0)"

function stringlist_get_loop :: "mem \<Rightarrow> addr \<Rightarrow> addr \<Rightarrow> int \<Rightarrow> addr option \<times> int" where
  "stringlist_get_loop m lst lend idx =
     (if lst < lend then
        (let len = string_step m lst lend
         in if lst + len > lend then (None, - FDT_ERR_BADVALUE)
            else if idx = 0 then (Some lst, len - 1)
            else stringlist_get_loop m (lst + len) lend (idx - 1))
      else (None, - FDT_ERR_NOTFOUND))"
  by pat_completeness auto
termination
  by (relation "measure (\<lambda>(m, lst, lend, idx). nat (lend - lst))") auto

declare stringlist_get_loop.simps [simp del]

definition fdt_stringlist_get :: "mem \<Rightarrow> addr \<Rightarrow> int \<Rightarrow> byte list \<Rightarrow> int \<Rightarrow> addr option \<times> int" where
  "fdt_stringlist_get m fdt nodeoffset property idx =
     (case fdt_getprop m fdt nodeoffset property of
        (None, len) \<Rightarrow> (None, len)
      | (Some lst, len) \<Rightarrow> stringlist_get_loop m lst (lst + len) idx)"

definition fdt_node_check_compatible :: "mem \<Rightarrow> addr \<Rightarrow> int \<Rightarrow> byte list \<Rightarrow> int" where
  "fdt_node_check_compatible m fdt nodeoffset compatible =
     (case fdt_getprop m fdt nodeoffset (str ''compatible'') of
        (None, len) \<Rightarrow> len
      | (Some prop, len) \<Rightarrow> if fdt_stringlist_contains m prop len compatible then 0 else 1)"

function by_compatible_loop :: "mem \<Rightarrow> addr \<Rightarrow> byte list \<Rightarrow> int \<Rightarrow> int" where
  "by_compatible_loop m fdt compatible offset =
     (let offset' = fst (fdt_next_node m fdt offset None)
      in if offset' \<ge> 0 then
           (let err = fdt_node_check_compatible m fdt offset' compatible
            in if err < 0 \<and> err \<noteq> - FDT_ERR_NOTFOUND then err
               else if err = 0 then offset'
               else by_compatible_loop m fdt compatible offset')
         else offset')"
  by pat_completeness auto
termination
  by (relation "measure (\<lambda>(m, fdt, compatible, offset). node_left offset)")
     (auto intro!: fdt_next_node_left simp: prod_eq_iff)

declare by_compatible_loop.simps [simp del]

definition fdt_node_offset_by_compatible :: "mem \<Rightarrow> addr \<Rightarrow> int \<Rightarrow> byte list \<Rightarrow> int" where
  "fdt_node_offset_by_compatible m fdt startoffset compatible =
     (if fdt_ro_probe_i m fdt < 0 then fdt_ro_probe_i m fdt
      else by_compatible_loop m fdt compatible startoffset)"

section \<open>Cells and error messages\<close>

abbreviation (input) FDT_MAX_NCELLS :: int where "FDT_MAX_NCELLS \<equiv> 4"

definition fdt_cells :: "mem \<Rightarrow> addr \<Rightarrow> int \<Rightarrow> byte list \<Rightarrow> int" where
  "fdt_cells m fdt nodeoffset name =
     (case fdt_getprop m fdt nodeoffset name of
        (None, len) \<Rightarrow> len
      | (Some c, len) \<Rightarrow>
          if len \<noteq> 4 then - FDT_ERR_BADNCELLS
          else if fdt32_ld m c > FDT_MAX_NCELLS then - FDT_ERR_BADNCELLS
          else fdt32_ld m c)"

definition fdt_address_cells :: "mem \<Rightarrow> addr \<Rightarrow> int \<Rightarrow> int" where
  "fdt_address_cells m fdt nodeoffset =
     (let v = fdt_cells m fdt nodeoffset (str ''#address-cells'')
      in if v = 0 then - FDT_ERR_BADNCELLS
         else if v = - FDT_ERR_NOTFOUND then 2
         else v)"

definition fdt_size_cells :: "mem \<Rightarrow> addr \<Rightarrow> int \<Rightarrow> int" where
  "fdt_size_cells m fdt nodeoffset =
     (let v = fdt_cells m fdt nodeoffset (str ''#size-cells'')
      in if v = - FDT_ERR_NOTFOUND then 1 else v)"

text \<open>\<open>fdt_errtable\<close>, with no entry at index 0.\<close>

definition fdt_errtable :: "string option list" where
  "fdt_errtable =
     [None, Some ''FDT_ERR_NOTFOUND'', Some ''FDT_ERR_EXISTS'', Some ''FDT_ERR_NOSPACE'',
      Some ''FDT_ERR_BADOFFSET'', Some ''FDT_ERR_BADPATH'', Some ''FDT_ERR_BADPHANDLE'',
      Some ''FDT_ERR_BADSTATE'', Some ''FDT_ERR_TRUNCATED'', Some ''FDT_ERR_BADMAGIC'',
      Some ''FDT_ERR_BADVERSION'', Some ''FDT_ERR_BADSTRUCTURE'', Some ''FDT_ERR_BADLAYOUT'',
      Some ''FDT_ERR_INTERNAL'', Some ''FDT_ERR_BADNCELLS'', Some ''FDT_ERR_BADVALUE'',
      Some ''FDT_ERR_BADOVERLAY'', Some ''FDT_ERR_NOPHANDLES'', Some ''FDT_ERR_BADFLAGS'',
      Some ''FDT_ERR_ALIGNMENT'']"

definition fdt_strerror :: "int \<Rightarrow> string" where
  "fdt_strerror errval =
     (if errval > 0 then ''<valid offset/length>''
      else if errval = 0 then ''<no error>''
      else if - errval < int (length fdt_errtable) then
        (case fdt_errtable ! nat (- errval) of Some s \<Rightarrow> s | None \<Rightarrow> ''<unknown error>'')
      else ''<unknown error>'')"

end
