(* ===== verification/Fdt_Rw.thy ===== *)
theory Fdt_Rw
  imports Fdt_Ro
begin

text \<open>
  Writing to a device tree: \<open>apps/lib/libfdt/fdt_wip.c\<close> (writes that keep every size) and
  \<open>fdt_rw.c\<close> (writes that move the blocks behind the place they change). An operation returns its
  \<open>int\<close> result and the memory it leaves. Bytes that a caller passes by pointer (\<open>val\<close>, \<open>name\<close>)
  are the list of these bytes; what is copied into the tree is written with \<open>put_bytes\<close>. An
  operation that counts the memory reservations may not return and is option valued.
\<close>

section \<open>Writing in place\<close>

definition fdt_setprop_inplace_namelen_partial ::
  "mem \<Rightarrow> addr \<Rightarrow> int \<Rightarrow> byte list \<Rightarrow> int \<Rightarrow> byte list \<Rightarrow> int \<times> mem" where
  "fdt_setprop_inplace_namelen_partial m fdt nodeoffset name idx val =
     (case fdt_getprop_namelen m fdt nodeoffset name of
        (None, proplen) \<Rightarrow> (proplen, m)
      | (Some propval, proplen) \<Rightarrow>
          if u32 proplen < u32 (int (length val) + idx) then (- FDT_ERR_NOSPACE, m)
          else (0, put_bytes m (propval + idx) val))"

definition fdt_setprop_inplace :: "mem \<Rightarrow> addr \<Rightarrow> int \<Rightarrow> byte list \<Rightarrow> byte list \<Rightarrow> int \<times> mem" where
  "fdt_setprop_inplace m fdt nodeoffset name val =
     (case fdt_getprop m fdt nodeoffset name of
        (None, proplen) \<Rightarrow> (proplen, m)
      | (Some propval, proplen) \<Rightarrow>
          if proplen \<noteq> int (length val) then (- FDT_ERR_NOSPACE, m)
          else fdt_setprop_inplace_namelen_partial m fdt nodeoffset name 0 val)"

text \<open>\<open>for (p = start; (char *)p < ((char *)start + len); p++) *p = cpu_to_fdt32(FDT_NOP)\<close>.\<close>

function nop_loop :: "mem \<Rightarrow> addr \<Rightarrow> addr \<Rightarrow> mem" where
  "nop_loop m p lim = (if p < lim then nop_loop (fdt32_st m p FDT_NOP) (p + 4) lim else m)"
  by pat_completeness auto
termination by (relation "measure (\<lambda>(m, p, lim). nat (lim - p))") auto

declare nop_loop.simps [simp del]

definition fdt_nop_region_i :: "mem \<Rightarrow> addr \<Rightarrow> int \<Rightarrow> mem" where
  "fdt_nop_region_i m start len = nop_loop m start (start + len)"

definition fdt_nop_property :: "mem \<Rightarrow> addr \<Rightarrow> int \<Rightarrow> byte list \<Rightarrow> int \<times> mem" where
  "fdt_nop_property m fdt nodeoffset name =
     (case fdt_get_property m fdt nodeoffset name of
        (None, len) \<Rightarrow> (len, m)
      | (Some prop, len) \<Rightarrow> (0, fdt_nop_region_i m prop (len + SIZEOF_PROPERTY)))"

function node_end_loop :: "mem \<Rightarrow> addr \<Rightarrow> int \<Rightarrow> int \<Rightarrow> int" where
  "node_end_loop m fdt offset depth =
     (if offset \<ge> 0 \<and> depth \<ge> 0 then
        (case fdt_next_node m fdt offset (Some depth) of
           (offset, d) \<Rightarrow> node_end_loop m fdt offset (the d))
      else offset)"
  by pat_completeness auto
termination
  by (relation "measure (\<lambda>(m, fdt, offset, depth). walk_left offset)")
     (auto intro!: fdt_next_node_progress dest: sym)

declare node_end_loop.simps [simp del]

definition fdt_node_end_offset_i :: "mem \<Rightarrow> addr \<Rightarrow> int \<Rightarrow> int" where
  "fdt_node_end_offset_i m fdt offset = node_end_loop m fdt offset 0"

text \<open>The pointer that \<open>fdt_offset_ptr_w\<close> may return as \<open>NULL\<close> is used unchecked.\<close>

definition fdt_nop_node :: "mem \<Rightarrow> addr \<Rightarrow> int \<Rightarrow> int \<times> mem" where
  "fdt_nop_node m fdt nodeoffset =
     (let endoffset = fdt_node_end_offset_i m fdt nodeoffset;
          start = (case fdt_offset_ptr m fdt nodeoffset 0 of None \<Rightarrow> 0 | Some p \<Rightarrow> p)
      in if endoffset < 0 then (endoffset, m)
         else (0, fdt_nop_region_i m start (endoffset - nodeoffset)))"

section \<open>Checks before a write, the splice\<close>

definition fdt_blocks_misordered_i :: "mem \<Rightarrow> addr \<Rightarrow> int \<Rightarrow> int \<Rightarrow> bool" where
  "fdt_blocks_misordered_i m fdt mem_rsv_size struct_size \<longleftrightarrow>
     fdt_off_mem_rsvmap m fdt < FDT_ALIGN SIZEOF_HEADER 8
     \<or> fdt_off_dt_struct m fdt < u32 (fdt_off_mem_rsvmap m fdt + mem_rsv_size)
     \<or> fdt_off_dt_strings m fdt < u32 (fdt_off_dt_struct m fdt + struct_size)
     \<or> fdt_totalsize m fdt < u32 (fdt_off_dt_strings m fdt + fdt_size_dt_strings m fdt)"

definition fdt_rw_probe_i :: "mem \<Rightarrow> addr \<Rightarrow> int \<times> mem" where
  "fdt_rw_probe_i m fdt =
     (if fdt_ro_probe_i m fdt < 0 then (fdt_ro_probe_i m fdt, m)
      else if fdt_version m fdt < 17 then (- FDT_ERR_BADVERSION, m)
      else if fdt_blocks_misordered_i m fdt SIZEOF_RESERVE_ENTRY (s32 (fdt_size_dt_struct m fdt))
      then (- FDT_ERR_BADLAYOUT, m)
      else (0, if fdt_version m fdt > 17 then fdt_set_version m fdt 17 else m))"

definition fdt_data_size_i :: "mem \<Rightarrow> addr \<Rightarrow> int" where
  "fdt_data_size_i m fdt = u32 (fdt_off_dt_strings m fdt + fdt_size_dt_strings m fdt)"

definition fdt_splice_i :: "mem \<Rightarrow> addr \<Rightarrow> addr \<Rightarrow> int \<Rightarrow> int \<Rightarrow> int \<times> mem" where
  "fdt_splice_i m fdt p oldlen newlen =
     (let dsize = fdt_data_size_i m fdt; soff = u64 (p - fdt)
      in if oldlen < 0 \<or> u64 (soff + oldlen) < soff \<or> u64 (soff + oldlen) > dsize
         then (- FDT_ERR_BADOFFSET, m)
         else if p < fdt \<or> u32 (dsize + newlen) < u32 oldlen then (- FDT_ERR_BADOFFSET, m)
         else if u32 (dsize - oldlen + newlen) > fdt_totalsize m fdt then (- FDT_ERR_NOSPACE, m)
         else (0, memmove m (p + newlen) (p + oldlen) (nat ((fdt + dsize) - (p + oldlen)))))"

definition fdt_splice_mem_rsv_i :: "mem \<Rightarrow> addr \<Rightarrow> addr \<Rightarrow> int \<Rightarrow> int \<Rightarrow> int \<times> mem" where
  "fdt_splice_mem_rsv_i m fdt p oldn newn =
     (let delta = s32 ((newn - oldn) * SIZEOF_RESERVE_ENTRY)
      in case fdt_splice_i m fdt p (s32 (oldn * SIZEOF_RESERVE_ENTRY))
                (s32 (newn * SIZEOF_RESERVE_ENTRY)) of
           (err, m) \<Rightarrow>
             if err \<noteq> 0 then (err, m)
             else (let m = fdt_set_off_dt_struct m fdt (fdt_off_dt_struct m fdt + delta);
                       m = fdt_set_off_dt_strings m fdt (fdt_off_dt_strings m fdt + delta)
                   in (0, m)))"

definition fdt_splice_struct_i :: "mem \<Rightarrow> addr \<Rightarrow> addr \<Rightarrow> int \<Rightarrow> int \<Rightarrow> int \<times> mem" where
  "fdt_splice_struct_i m fdt p oldlen newlen =
     (let delta = s32 (newlen - oldlen)
      in case fdt_splice_i m fdt p oldlen newlen of
           (err, m) \<Rightarrow>
             if err \<noteq> 0 then (err, m)
             else (let m = fdt_set_size_dt_struct m fdt (fdt_size_dt_struct m fdt + delta);
                       m = fdt_set_off_dt_strings m fdt (fdt_off_dt_strings m fdt + delta)
                   in (0, m)))"

definition fdt_del_last_string_i :: "mem \<Rightarrow> addr \<Rightarrow> byte list \<Rightarrow> mem" where
  "fdt_del_last_string_i m fdt s =
     fdt_set_size_dt_strings m fdt (fdt_size_dt_strings m fdt - (int (length s) + 1))"

definition fdt_splice_string_i :: "mem \<Rightarrow> addr \<Rightarrow> int \<Rightarrow> int \<times> mem" where
  "fdt_splice_string_i m fdt newlen =
     (let p = fdt + fdt_off_dt_strings m fdt + fdt_size_dt_strings m fdt
      in case fdt_splice_i m fdt p 0 newlen of
           (err, m) \<Rightarrow>
             if err \<noteq> 0 then (err, m)
             else (0, fdt_set_size_dt_strings m fdt (fdt_size_dt_strings m fdt + newlen)))"

text \<open>The offset of the string, \<open>*allocated\<close> and the memory.\<close>

definition fdt_find_add_string_i :: "mem \<Rightarrow> addr \<Rightarrow> byte list \<Rightarrow> int \<times> bool \<times> mem" where
  "fdt_find_add_string_i m fdt s =
     (let strtab = fdt + fdt_off_dt_strings m fdt; len = int (length s) + 1
      in case fdt_find_string_i m strtab (s32 (fdt_size_dt_strings m fdt)) s of
           Some p \<Rightarrow> (s32 (p - strtab), False, m)
         | None \<Rightarrow>
             (let new = strtab + fdt_size_dt_strings m fdt
              in case fdt_splice_string_i m fdt len of
                   (err, m) \<Rightarrow>
                     if err \<noteq> 0 then (err, False, m)
                     else (s32 (new - strtab), True, put_bytes m new (s @ [0]))))"

section \<open>Memory reservations\<close>

text \<open>A negative result of \<open>fdt_num_mem_rsv\<close> is used as the index of the new entry.\<close>

definition fdt_add_mem_rsv :: "mem \<Rightarrow> addr \<Rightarrow> int \<Rightarrow> int \<Rightarrow> (int \<times> mem) option" where
  "fdt_add_mem_rsv m fdt address sz =
     (case fdt_rw_probe_i m fdt of
        (err, m) \<Rightarrow>
          if err \<noteq> 0 then Some (err, m)
          else do {
            n \<leftarrow> fdt_num_mem_rsv m fdt;
            let re = fdt_mem_rsv_i m fdt n;
            case fdt_splice_mem_rsv_i m fdt re 0 1 of
              (err, m) \<Rightarrow>
                if err \<noteq> 0 then Some (err, m)
                else Some (0, fdt64_st (fdt64_st m re address) (re + 8) sz)
          })"

definition fdt_del_mem_rsv :: "mem \<Rightarrow> addr \<Rightarrow> int \<Rightarrow> (int \<times> mem) option" where
  "fdt_del_mem_rsv m fdt n =
     (let re = fdt_mem_rsv_i m fdt n
      in case fdt_rw_probe_i m fdt of
           (err, m) \<Rightarrow>
             if err \<noteq> 0 then Some (err, m)
             else do {
               num \<leftarrow> fdt_num_mem_rsv m fdt;
               if n \<ge> num then Some (- FDT_ERR_NOTFOUND, m)
               else Some (fdt_splice_mem_rsv_i m fdt re 1 0)
             })"

section \<open>Properties\<close>

text \<open>These return the \<open>*prop\<close> they set between the result and the memory.\<close>

definition fdt_resize_property_i ::
  "mem \<Rightarrow> addr \<Rightarrow> int \<Rightarrow> byte list \<Rightarrow> int \<Rightarrow> int \<times> addr option \<times> mem" where
  "fdt_resize_property_i m fdt nodeoffset name len =
     (case fdt_get_property m fdt nodeoffset name of
        (None, oldlen) \<Rightarrow> (oldlen, None, m)
      | (Some prop, oldlen) \<Rightarrow>
          (case fdt_splice_struct_i m fdt (prop + SIZEOF_PROPERTY) (s32 (FDT_TAGALIGN oldlen))
                  (s32 (FDT_TAGALIGN len)) of
             (err, m) \<Rightarrow>
               if err \<noteq> 0 then (err, Some prop, m)
               else (0, Some prop, fdt32_st m (prop + 4) len)))"

definition fdt_add_property_i ::
  "mem \<Rightarrow> addr \<Rightarrow> int \<Rightarrow> byte list \<Rightarrow> int \<Rightarrow> int \<times> addr option \<times> mem" where
  "fdt_add_property_i m fdt nodeoffset name len =
     (let nextoffset = fdt_check_node_offset_i m fdt nodeoffset
      in if nextoffset < 0 then (nextoffset, None, m)
         else
           (case fdt_find_add_string_i m fdt name of
              (namestroff, allocated, m) \<Rightarrow>
                if namestroff < 0 then (namestroff, None, m)
                else
                  (let prop = fdt_offset_ptr_i m fdt nextoffset;
                       proplen = s32 (SIZEOF_PROPERTY + FDT_TAGALIGN len)
                   in case fdt_splice_struct_i m fdt prop 0 proplen of
                        (err, m) \<Rightarrow>
                          if err \<noteq> 0 then
                            (err, Some prop, if allocated then fdt_del_last_string_i m fdt name else m)
                          else
                            (let m = fdt32_st m prop FDT_PROP;
                                 m = fdt32_st m (prop + 8) namestroff;
                                 m = fdt32_st m (prop + 4) len
                             in (0, Some prop, m)))))"

definition fdt_set_name :: "mem \<Rightarrow> addr \<Rightarrow> int \<Rightarrow> byte list \<Rightarrow> int \<times> mem" where
  "fdt_set_name m fdt nodeoffset name =
     (case fdt_rw_probe_i m fdt of
        (err, m) \<Rightarrow>
          if err \<noteq> 0 then (err, m)
          else
            (case fdt_get_name m fdt nodeoffset of
               (None, oldlen) \<Rightarrow> (oldlen, m)
             | (Some namep, oldlen) \<Rightarrow>
                 (let newlen = int (length name)
                  in case fdt_splice_struct_i m fdt namep (s32 (FDT_TAGALIGN (oldlen + 1)))
                            (s32 (FDT_TAGALIGN (newlen + 1))) of
                       (err, m) \<Rightarrow>
                         if err \<noteq> 0 then (err, m)
                         else (0, put_bytes m namep (name @ [0])))))"

definition fdt_setprop_placeholder ::
  "mem \<Rightarrow> addr \<Rightarrow> int \<Rightarrow> byte list \<Rightarrow> int \<Rightarrow> int \<times> addr option \<times> mem" where
  "fdt_setprop_placeholder m fdt nodeoffset name len =
     (case fdt_rw_probe_i m fdt of
        (err, m) \<Rightarrow>
          if err \<noteq> 0 then (err, None, m)
          else
            (case (case fdt_resize_property_i m fdt nodeoffset name len of
                     (err, prop, m) \<Rightarrow>
                       if err = - FDT_ERR_NOTFOUND
                       then fdt_add_property_i m fdt nodeoffset name len
                       else (err, prop, m)) of
               (err, prop, m) \<Rightarrow>
                 if err \<noteq> 0 then (err, None, m)
                 else (0, map_option (\<lambda>p. p + SIZEOF_PROPERTY) prop, m)))"

definition fdt_setprop :: "mem \<Rightarrow> addr \<Rightarrow> int \<Rightarrow> byte list \<Rightarrow> byte list \<Rightarrow> int \<times> mem" where
  "fdt_setprop m fdt nodeoffset name val =
     (case fdt_setprop_placeholder m fdt nodeoffset name (int (length val)) of
        (err, prop_data, m) \<Rightarrow>
          if err \<noteq> 0 then (err, m)
          else (0, if val \<noteq> [] then put_bytes m (the prop_data) val else m))"

definition fdt_appendprop :: "mem \<Rightarrow> addr \<Rightarrow> int \<Rightarrow> byte list \<Rightarrow> byte list \<Rightarrow> int \<times> mem" where
  "fdt_appendprop m fdt nodeoffset name val =
     (case fdt_rw_probe_i m fdt of
        (err, m) \<Rightarrow>
          if err \<noteq> 0 then (err, m)
          else
            (case fdt_get_property m fdt nodeoffset name of
               (Some prop, oldlen) \<Rightarrow>
                 (let newlen = s32 (int (length val) + oldlen)
                  in case fdt_splice_struct_i m fdt (prop + SIZEOF_PROPERTY)
                            (s32 (FDT_TAGALIGN oldlen)) (s32 (FDT_TAGALIGN newlen)) of
                       (err, m) \<Rightarrow>
                         if err \<noteq> 0 then (err, m)
                         else (0, put_bytes (fdt32_st m (prop + 4) newlen)
                                    (prop + SIZEOF_PROPERTY + oldlen) val))
             | (None, oldlen) \<Rightarrow>
                 (case fdt_add_property_i m fdt nodeoffset name (int (length val)) of
                    (err, prop, m) \<Rightarrow>
                      if err \<noteq> 0 then (err, m)
                      else (0, put_bytes m (the prop + SIZEOF_PROPERTY) val))))"

definition fdt_delprop :: "mem \<Rightarrow> addr \<Rightarrow> int \<Rightarrow> byte list \<Rightarrow> int \<times> mem" where
  "fdt_delprop m fdt nodeoffset name =
     (case fdt_rw_probe_i m fdt of
        (err, m) \<Rightarrow>
          if err \<noteq> 0 then (err, m)
          else
            (case fdt_get_property m fdt nodeoffset name of
               (None, len) \<Rightarrow> (len, m)
             | (Some prop, len) \<Rightarrow>
                 fdt_splice_struct_i m fdt prop (s32 (SIZEOF_PROPERTY + FDT_TAGALIGN len)) 0))"

text \<open>\<open>fdt_appendprop_addrrange\<close> of \<open>fdt_addresses.c\<close>; the array \<open>data\<close> is the list of its bytes.\<close>

definition be32 :: "int \<Rightarrow> byte list" where
  "be32 v = [byte_of (v div 16777216), byte_of (v div 65536), byte_of (v div 256), byte_of v]"

definition be64 :: "int \<Rightarrow> byte list" where
  "be64 v = be32 (v div 4294967296) @ be32 v"

definition fdt_appendprop_addrrange ::
  "mem \<Rightarrow> addr \<Rightarrow> int \<Rightarrow> int \<Rightarrow> byte list \<Rightarrow> int \<Rightarrow> int \<Rightarrow> int \<times> mem" where
  "fdt_appendprop_addrrange m fdt parent nodeoffset name address sz =
     (let addr_cells = fdt_address_cells m fdt parent;
          size_cells = fdt_size_cells m fdt parent
      in if addr_cells < 0 then (addr_cells, m)
         else if size_cells < 0 then (size_cells, m)
         else if addr_cells = 1
              \<and> (address > UINT32_MAX \<or> u64 (UINT32_MAX + 1 - address) < sz)
         then (- FDT_ERR_BADVALUE, m)
         else if addr_cells \<noteq> 1 \<and> addr_cells \<noteq> 2 then (- FDT_ERR_BADNCELLS, m)
         else if size_cells = 1 \<and> sz > UINT32_MAX then (- FDT_ERR_BADVALUE, m)
         else if size_cells \<noteq> 1 \<and> size_cells \<noteq> 2 then (- FDT_ERR_BADNCELLS, m)
         else fdt_appendprop m fdt nodeoffset name
                ((if addr_cells = 1 then be32 address else be64 address)
                 @ (if size_cells = 1 then be32 sz else be64 sz)))"

section \<open>Nodes\<close>

text \<open>\<open>do offset = nextoffset; tag = fdt_next_tag(..) while ((tag == FDT_PROP) || (tag == FDT_NOP))\<close>.\<close>

function skip_props :: "mem \<Rightarrow> addr \<Rightarrow> int \<Rightarrow> int" where
  "skip_props m fdt offset =
     (case fdt_next_tag m fdt offset of (tag, nextoffset) \<Rightarrow>
        if tag = FDT_PROP \<or> tag = FDT_NOP then skip_props m fdt nextoffset else offset)"
  by pat_completeness auto
termination
  by (relation "measure (\<lambda>(m, fdt, offset). walk_left offset)")
     (auto dest: fdt_next_tag_progress')

declare skip_props.simps [simp del]

definition fdt_add_subnode_namelen :: "mem \<Rightarrow> addr \<Rightarrow> int \<Rightarrow> byte list \<Rightarrow> int \<times> mem" where
  "fdt_add_subnode_namelen m fdt parentoffset name =
     (case fdt_rw_probe_i m fdt of
        (err, m) \<Rightarrow>
          if err \<noteq> 0 then (err, m)
          else
            (let offset = fdt_subnode_offset_namelen m fdt parentoffset name
             in if offset \<ge> 0 then (- FDT_ERR_EXISTS, m)
                else if offset \<noteq> - FDT_ERR_NOTFOUND then (offset, m)
                else
                  (case fdt_next_tag m fdt parentoffset of
                     (tag, nextoffset) \<Rightarrow>
                       if tag \<noteq> FDT_BEGIN_NODE then (- FDT_ERR_INTERNAL, m)
                       else
                         (let offset = skip_props m fdt nextoffset;
                              nh = fdt_offset_ptr_i m fdt offset;
                              namesize = FDT_TAGALIGN (int (length name) + 1);
                              nodelen = s32 (4 + namesize + FDT_TAGSIZE)
                          in case fdt_splice_struct_i m fdt nh 0 nodelen of
                               (err, m) \<Rightarrow>
                                 if err \<noteq> 0 then (err, m)
                                 else
                                   (let m = fdt32_st m nh FDT_BEGIN_NODE;
                                        m = memset m (nh + 4) 0 (nat namesize);
                                        m = put_bytes m (nh + 4) name;
                                        m = fdt32_st m (nh + nodelen - FDT_TAGSIZE) FDT_END_NODE
                                    in (offset, m))))))"

definition fdt_add_subnode :: "mem \<Rightarrow> addr \<Rightarrow> int \<Rightarrow> byte list \<Rightarrow> int \<times> mem" where
  "fdt_add_subnode m fdt parentoffset name = fdt_add_subnode_namelen m fdt parentoffset name"

definition fdt_del_node :: "mem \<Rightarrow> addr \<Rightarrow> int \<Rightarrow> int \<times> mem" where
  "fdt_del_node m fdt nodeoffset =
     (case fdt_rw_probe_i m fdt of
        (err, m) \<Rightarrow>
          if err \<noteq> 0 then (err, m)
          else
            (let endoffset = fdt_node_end_offset_i m fdt nodeoffset
             in if endoffset < 0 then (endoffset, m)
                else fdt_splice_struct_i m fdt (fdt_offset_ptr_i m fdt nodeoffset)
                       (endoffset - nodeoffset) 0))"

section \<open>Packing and opening\<close>

text \<open>
  The blocks are moved one after the other; the header of \<open>old\<close> is read between the writes, which
  matters where \<open>old\<close> and \<open>new\<close> overlap. A size is converted to \<open>size_t\<close> for \<open>memmove\<close>.
\<close>

definition fdt_packblocks_i :: "mem \<Rightarrow> addr \<Rightarrow> addr \<Rightarrow> int \<Rightarrow> int \<Rightarrow> int \<Rightarrow> mem" where
  "fdt_packblocks_i m old new mem_rsv_size struct_size strings_size =
     (let mem_rsv_off = FDT_ALIGN SIZEOF_HEADER 8;
          struct_off = s32 (mem_rsv_off + mem_rsv_size);
          strings_off = s32 (struct_off + struct_size);
          m = memmove m (new + mem_rsv_off) (old + fdt_off_mem_rsvmap m old)
                (nat (u64 mem_rsv_size));
          m = fdt_set_off_mem_rsvmap m new mem_rsv_off;
          m = memmove m (new + struct_off) (old + fdt_off_dt_struct m old) (nat (u64 struct_size));
          m = fdt_set_off_dt_struct m new struct_off;
          m = fdt_set_size_dt_struct m new struct_size;
          m = memmove m (new + strings_off) (old + fdt_off_dt_strings m old)
                (nat (u64 strings_size));
          m = fdt_set_off_dt_strings m new strings_off
      in fdt_set_size_dt_strings m new (fdt_size_dt_strings m old))"

text \<open>\<open>while (fdt_next_tag(fdt, struct_size, &struct_size) != FDT_END)\<close> of \<open>fdt_open_into\<close>.\<close>

function struct_end :: "mem \<Rightarrow> addr \<Rightarrow> int \<Rightarrow> int" where
  "struct_end m fdt struct_size =
     (case fdt_next_tag m fdt struct_size of (tag, nextoffset) \<Rightarrow>
        if tag \<noteq> FDT_END then struct_end m fdt nextoffset else nextoffset)"
  by pat_completeness auto
termination
  by (relation "measure (\<lambda>(m, fdt, offset). walk_left offset)")
     (auto dest: fdt_next_tag_progress')

declare struct_end.simps [simp del]

definition fdt_open_into :: "mem \<Rightarrow> addr \<Rightarrow> addr \<Rightarrow> int \<Rightarrow> (int \<times> mem) option" where
  "fdt_open_into m fdt buf bufsize =
     (let fdtend = fdt + fdt_totalsize m fdt
      in if fdt_ro_probe_i m fdt < 0 then Some (fdt_ro_probe_i m fdt, m)
         else do {
           n \<leftarrow> fdt_num_mem_rsv m fdt;
           let mem_rsv_size = s32 ((n + 1) * SIZEOF_RESERVE_ENTRY);
           let struct_size =
             (if fdt_version m fdt \<ge> 17 then s32 (fdt_size_dt_struct m fdt)
              else struct_end m fdt 0);
           if fdt_version m fdt < 16 then Some (- FDT_ERR_BADVERSION, m)
           else if fdt_version m fdt = 16 \<and> struct_size < 0 then Some (struct_size, m)
           else if \<not> fdt_blocks_misordered_i m fdt mem_rsv_size struct_size then
             (case fdt_move m fdt buf bufsize of
                (err, m) \<Rightarrow>
                  if err \<noteq> 0 then Some (err, m)
                  else
                    (let m = fdt_set_version m buf 17;
                         m = fdt_set_size_dt_struct m buf struct_size;
                         m = fdt_set_totalsize m buf bufsize
                     in Some (0, m)))
           else
             (let newsize = s32 (FDT_ALIGN SIZEOF_HEADER 8 + mem_rsv_size + struct_size
                              + fdt_size_dt_strings m fdt);
                  overlap = (buf + newsize > fdt \<and> buf < fdtend);
                  tmp = (if overlap then fdtend else buf)
              in if bufsize < newsize then Some (- FDT_ERR_NOSPACE, m)
                 else if overlap \<and> tmp + newsize > buf + bufsize then Some (- FDT_ERR_NOSPACE, m)
                 else
                   (let m = fdt_packblocks_i m fdt tmp mem_rsv_size struct_size
                              (s32 (fdt_size_dt_strings m fdt));
                        m = memmove m buf tmp (nat (u64 newsize));
                        m = fdt_set_magic m buf FDT_MAGIC;
                        m = fdt_set_totalsize m buf bufsize;
                        m = fdt_set_version m buf 17;
                        m = fdt_set_last_comp_version m buf 16;
                        m = fdt_set_boot_cpuid_phys m buf (fdt_boot_cpuid_phys m fdt)
                    in Some (0, m)))
         })"

definition fdt_pack :: "mem \<Rightarrow> addr \<Rightarrow> (int \<times> mem) option" where
  "fdt_pack m fdt =
     (case fdt_rw_probe_i m fdt of
        (err, m) \<Rightarrow>
          if err \<noteq> 0 then Some (err, m)
          else do {
            n \<leftarrow> fdt_num_mem_rsv m fdt;
            let mem_rsv_size = s32 ((n + 1) * SIZEOF_RESERVE_ENTRY);
            let m = fdt_packblocks_i m fdt fdt mem_rsv_size (s32 (fdt_size_dt_struct m fdt))
                      (s32 (fdt_size_dt_strings m fdt));
            Some (0, fdt_set_totalsize m fdt (fdt_data_size_i m fdt))
          })"

end
