(* ===== verification/Fdt_Sw.thy ===== *)
theory Fdt_Sw
  imports Fdt_Rw
begin

text \<open>
  Building a device tree sequentially: \<open>apps/lib/libfdt/fdt_sw.c\<close> and \<open>fdt_empty_tree.c\<close>. The
  state of the builder is kept in the header of the tree it builds: \<open>magic\<close> is \<open>FDT_SW_MAGIC\<close>
  until \<open>fdt_finish\<close>, \<open>last_comp_version\<close> holds the creation flags and \<open>off_dt_strings\<close> tells
  the memory reservation state (0) from the structure state (\<open>totalsize\<close>). The structure block
  grows upwards, the string block downwards from \<open>fdt + totalsize\<close>.
\<close>

definition fdt_sw_probe_i :: "mem \<Rightarrow> addr \<Rightarrow> int" where
  "fdt_sw_probe_i m fdt =
     (if fdt_magic m fdt = FDT_MAGIC then - FDT_ERR_BADSTATE
      else if fdt_magic m fdt \<noteq> FDT_SW_MAGIC then - FDT_ERR_BADMAGIC
      else 0)"

definition fdt_sw_probe_memrsv_i :: "mem \<Rightarrow> addr \<Rightarrow> int" where
  "fdt_sw_probe_memrsv_i m fdt =
     (let err = fdt_sw_probe_i m fdt
      in if err \<noteq> 0 then err
         else if fdt_off_dt_strings m fdt \<noteq> 0 then - FDT_ERR_BADSTATE
         else 0)"

definition fdt_sw_probe_struct_i :: "mem \<Rightarrow> addr \<Rightarrow> int" where
  "fdt_sw_probe_struct_i m fdt =
     (let err = fdt_sw_probe_i m fdt
      in if err \<noteq> 0 then err
         else if fdt_off_dt_strings m fdt \<noteq> fdt_totalsize m fdt then - FDT_ERR_BADSTATE
         else 0)"

definition sw_flags :: "mem \<Rightarrow> addr \<Rightarrow> int" where
  "sw_flags m fdt = fdt_last_comp_version m fdt"

text \<open>\<open>len\<close> is a \<open>size_t\<close>, so the sum \<open>offset + len\<close> is one too.\<close>

definition fdt_grab_space_i :: "mem \<Rightarrow> addr \<Rightarrow> int \<Rightarrow> (addr \<times> mem) option" where
  "fdt_grab_space_i m fdt len =
     (let offset = fdt_size_dt_struct m fdt;
          spaceleft = u32 (fdt_totalsize m fdt - fdt_off_dt_struct m fdt - fdt_size_dt_strings m fdt)
      in if u64 (offset + len) < offset \<or> u64 (offset + len) > spaceleft then None
         else (let m = fdt_set_size_dt_struct m fdt (offset + len)
               in Some (fdt_offset_ptr_i m fdt offset, m)))"

abbreviation (input) FDT_CREATE_FLAG_NO_NAME_DEDUP :: int where
  "FDT_CREATE_FLAG_NO_NAME_DEDUP \<equiv> 0x1"
abbreviation (input) FDT_CREATE_FLAGS_ALL :: int where
  "FDT_CREATE_FLAGS_ALL \<equiv> FDT_CREATE_FLAG_NO_NAME_DEDUP"

definition fdt_create_with_flags :: "mem \<Rightarrow> addr \<Rightarrow> int \<Rightarrow> int \<Rightarrow> int \<times> mem" where
  "fdt_create_with_flags m buf bufsize flags =
     (let hdrsize = FDT_ALIGN SIZEOF_HEADER SIZEOF_RESERVE_ENTRY
      in if bufsize < hdrsize then (- FDT_ERR_NOSPACE, m)
         else if flags AND (NOT FDT_CREATE_FLAGS_ALL) \<noteq> 0 then (- FDT_ERR_BADFLAGS, m)
         else
           (let m = memset m buf 0 (nat bufsize);
                m = fdt_set_magic m buf FDT_SW_MAGIC;
                m = fdt_set_version m buf FDT_LAST_SUPPORTED_VERSION;
                m = fdt_set_last_comp_version m buf flags;
                m = fdt_set_totalsize m buf bufsize;
                m = fdt_set_off_mem_rsvmap m buf hdrsize;
                m = fdt_set_off_dt_struct m buf (fdt_off_mem_rsvmap m buf);
                m = fdt_set_off_dt_strings m buf 0
            in (0, m)))"

definition fdt_create :: "mem \<Rightarrow> addr \<Rightarrow> int \<Rightarrow> int \<times> mem" where
  "fdt_create m buf bufsize = fdt_create_with_flags m buf bufsize 0"

text \<open>
  \<open>headsize\<close> is the sum of two \<open>uint32_t\<close>, \<open>headsize + tailsize\<close> one of two \<open>size_t\<close>.
\<close>

definition fdt_resize :: "mem \<Rightarrow> addr \<Rightarrow> addr \<Rightarrow> int \<Rightarrow> int \<times> mem" where
  "fdt_resize m fdt buf bufsize =
     (let headsize = u32 (fdt_off_dt_struct m fdt + fdt_size_dt_struct m fdt);
          tailsize = fdt_size_dt_strings m fdt;
          oldtail = fdt + fdt_totalsize m fdt - tailsize;
          newtail = buf + bufsize - tailsize
      in if fdt_sw_probe_i m fdt \<noteq> 0 then (fdt_sw_probe_i m fdt, m)
         else if bufsize < 0 then (- FDT_ERR_NOSPACE, m)
         else if headsize + tailsize > fdt_totalsize m fdt then (- FDT_ERR_INTERNAL, m)
         else if headsize + tailsize > u32 bufsize then (- FDT_ERR_NOSPACE, m)
         else
           (let m = (if buf \<le> fdt then
                       memmove (memmove m buf fdt (nat headsize)) newtail oldtail (nat tailsize)
                     else
                       memmove (memmove m newtail oldtail (nat tailsize)) buf fdt (nat headsize));
                m = fdt_set_totalsize m buf bufsize;
                m = (if fdt_off_dt_strings m buf \<noteq> 0
                     then fdt_set_off_dt_strings m buf bufsize else m)
            in (0, m)))"

definition fdt_add_reservemap_entry :: "mem \<Rightarrow> addr \<Rightarrow> int \<Rightarrow> int \<Rightarrow> int \<times> mem" where
  "fdt_add_reservemap_entry m fdt address sz =
     (let offset = s32 (fdt_off_dt_struct m fdt)
      in if fdt_sw_probe_memrsv_i m fdt \<noteq> 0 then (fdt_sw_probe_memrsv_i m fdt, m)
         else if u64 (offset + SIZEOF_RESERVE_ENTRY) > fdt_totalsize m fdt
         then (- FDT_ERR_NOSPACE, m)
         else
           (let re = fdt + offset;
                m = fdt64_st m re address;
                m = fdt64_st m (re + 8) sz;
                m = fdt_set_off_dt_struct m fdt (offset + SIZEOF_RESERVE_ENTRY)
            in (0, m)))"

definition fdt_finish_reservemap :: "mem \<Rightarrow> addr \<Rightarrow> int \<times> mem" where
  "fdt_finish_reservemap m fdt =
     (case fdt_add_reservemap_entry m fdt 0 0 of
        (err, m) \<Rightarrow>
          if err \<noteq> 0 then (err, m)
          else (0, fdt_set_off_dt_strings m fdt (fdt_totalsize m fdt)))"

definition fdt_begin_node :: "mem \<Rightarrow> addr \<Rightarrow> byte list \<Rightarrow> int \<times> mem" where
  "fdt_begin_node m fdt name =
     (if fdt_sw_probe_struct_i m fdt \<noteq> 0 then (fdt_sw_probe_struct_i m fdt, m)
      else
        (let namelen = int (length name) + 1
         in case fdt_grab_space_i m fdt (4 + FDT_TAGALIGN namelen) of
              None \<Rightarrow> (- FDT_ERR_NOSPACE, m)
            | Some (nh, m) \<Rightarrow>
                (0, put_bytes (fdt32_st m nh FDT_BEGIN_NODE) (nh + 4) (name @ [0]))))"

definition fdt_end_node :: "mem \<Rightarrow> addr \<Rightarrow> int \<times> mem" where
  "fdt_end_node m fdt =
     (if fdt_sw_probe_struct_i m fdt \<noteq> 0 then (fdt_sw_probe_struct_i m fdt, m)
      else
        (case fdt_grab_space_i m fdt FDT_TAGSIZE of
           None \<Rightarrow> (- FDT_ERR_NOSPACE, m)
         | Some (en, m) \<Rightarrow> (0, fdt32_st m en FDT_END_NODE)))"

text \<open>\<open>return -offset\<close> converts an \<open>unsigned int\<close> to \<open>int\<close>.\<close>

definition sw_add_string_i :: "mem \<Rightarrow> addr \<Rightarrow> byte list \<Rightarrow> int \<times> mem" where
  "sw_add_string_i m fdt s =
     (let strtab = fdt + fdt_totalsize m fdt;
          strtabsize = fdt_size_dt_strings m fdt;
          len = int (length s) + 1;
          offset = u32 (strtabsize + len);
          struct_top = u32 (fdt_off_dt_struct m fdt + fdt_size_dt_struct m fdt)
      in if u32 (fdt_totalsize m fdt - offset) < struct_top then (0, m)
         else
           (let m = put_bytes m (strtab - offset) (s @ [0]);
                m = fdt_set_size_dt_strings m fdt (strtabsize + len)
            in (s32 (- offset), m)))"

definition sw_del_last_string_i :: "mem \<Rightarrow> addr \<Rightarrow> byte list \<Rightarrow> mem" where
  "sw_del_last_string_i m fdt s =
     (let strtabsize = s32 (fdt_size_dt_strings m fdt); len = int (length s) + 1
      in fdt_set_size_dt_strings m fdt (strtabsize - len))"

definition sw_find_add_string_i :: "mem \<Rightarrow> addr \<Rightarrow> byte list \<Rightarrow> int \<times> bool \<times> mem" where
  "sw_find_add_string_i m fdt s =
     (let strtab = fdt + fdt_totalsize m fdt;
          strtabsize = s32 (fdt_size_dt_strings m fdt)
      in case fdt_find_string_i m (strtab - strtabsize) strtabsize s of
           Some p \<Rightarrow> (s32 (p - strtab), False, m)
         | None \<Rightarrow> (case sw_add_string_i m fdt s of (off, m) \<Rightarrow> (off, True, m)))"

text \<open>The result, \<open>*valp\<close> and the memory.\<close>

definition fdt_property_placeholder ::
  "mem \<Rightarrow> addr \<Rightarrow> byte list \<Rightarrow> int \<Rightarrow> int \<times> addr option \<times> mem" where
  "fdt_property_placeholder m fdt name len =
     (if fdt_sw_probe_struct_i m fdt \<noteq> 0 then (fdt_sw_probe_struct_i m fdt, None, m)
      else
        (case (if sw_flags m fdt AND FDT_CREATE_FLAG_NO_NAME_DEDUP \<noteq> 0
               then (case sw_add_string_i m fdt name of (off, m) \<Rightarrow> (off, True, m))
               else sw_find_add_string_i m fdt name) of
           (nameoff, allocated, m) \<Rightarrow>
             if nameoff = 0 then (- FDT_ERR_NOSPACE, None, m)
             else
               (case fdt_grab_space_i m fdt (u64 (SIZEOF_PROPERTY + FDT_TAGALIGN len)) of
                  None \<Rightarrow>
                    (- FDT_ERR_NOSPACE, None,
                     if allocated then sw_del_last_string_i m fdt name else m)
                | Some (prop, m) \<Rightarrow>
                    (let m = fdt32_st m prop FDT_PROP;
                         m = fdt32_st m (prop + 8) nameoff;
                         m = fdt32_st m (prop + 4) len
                     in (0, Some (prop + SIZEOF_PROPERTY), m)))))"

definition fdt_property :: "mem \<Rightarrow> addr \<Rightarrow> byte list \<Rightarrow> byte list \<Rightarrow> int \<times> mem" where
  "fdt_property m fdt name val =
     (case fdt_property_placeholder m fdt name (int (length val)) of
        (ret, ptr, m) \<Rightarrow>
          if ret \<noteq> 0 then (ret, m) else (0, put_bytes m (the ptr) val))"

text \<open>The loop of \<open>fdt_finish\<close>: the last \<open>nextoffset\<close> and the memory with the offsets corrected.\<close>

function fix_stroffs :: "mem \<Rightarrow> addr \<Rightarrow> int \<Rightarrow> int \<times> mem" where
  "fix_stroffs m fdt offset =
     (case fdt_next_tag m fdt offset of (tag, nextoffset) \<Rightarrow>
        if tag \<noteq> FDT_END then
          (if tag = FDT_PROP then
             (let prop = fdt_offset_ptr_i m fdt offset;
                  nameoff = s32 (s32 (fdt32_ld m (prop + 8)) + fdt_size_dt_strings m fdt)
              in fix_stroffs (fdt32_st m (prop + 8) nameoff) fdt nextoffset)
           else fix_stroffs m fdt nextoffset)
        else (nextoffset, m))"
  by pat_completeness auto
termination
  by (relation "measure (\<lambda>(m, fdt, offset). walk_left offset)")
     (auto dest: fdt_next_tag_progress')

declare fix_stroffs.simps [simp del]

definition fdt_finish :: "mem \<Rightarrow> addr \<Rightarrow> int \<times> mem" where
  "fdt_finish m fdt =
     (if fdt_sw_probe_struct_i m fdt \<noteq> 0 then (fdt_sw_probe_struct_i m fdt, m)
      else
        (case fdt_grab_space_i m fdt 4 of
           None \<Rightarrow> (- FDT_ERR_NOSPACE, m)
         | Some (endp, m) \<Rightarrow>
             (let m = fdt32_st m endp FDT_END;
                  oldstroffset = s32 (fdt_totalsize m fdt - fdt_size_dt_strings m fdt);
                  newstroffset = s32 (fdt_off_dt_struct m fdt + fdt_size_dt_struct m fdt);
                  m = memmove m (fdt + newstroffset) (fdt + oldstroffset)
                        (nat (fdt_size_dt_strings m fdt));
                  m = fdt_set_off_dt_strings m fdt newstroffset
              in case fix_stroffs m fdt 0 of
                   (nextoffset, m) \<Rightarrow>
                     if nextoffset < 0 then (nextoffset, m)
                     else
                       (let m = fdt_set_totalsize m fdt (newstroffset + fdt_size_dt_strings m fdt);
                            m = fdt_set_last_comp_version m fdt FDT_LAST_COMPATIBLE_VERSION;
                            m = fdt_set_magic m fdt FDT_MAGIC
                        in (0, m)))))"

section \<open>The empty tree\<close>

definition fdt_create_empty_tree :: "mem \<Rightarrow> addr \<Rightarrow> int \<Rightarrow> (int \<times> mem) option" where
  "fdt_create_empty_tree m buf bufsize =
     (case fdt_create m buf bufsize of (err, m) \<Rightarrow>
        if err \<noteq> 0 then Some (err, m)
        else (case fdt_finish_reservemap m buf of (err, m) \<Rightarrow>
          if err \<noteq> 0 then Some (err, m)
          else (case fdt_begin_node m buf [] of (err, m) \<Rightarrow>
            if err \<noteq> 0 then Some (err, m)
            else (case fdt_end_node m buf of (err, m) \<Rightarrow>
              if err \<noteq> 0 then Some (err, m)
              else (case fdt_finish m buf of (err, m) \<Rightarrow>
                if err \<noteq> 0 then Some (err, m)
                else fdt_open_into m buf buf bufsize)))))"

end
