(* ===== verification/Fdt_Safety.thy ===== *)
theory Fdt_Safety
  imports Fdt_Ro
begin

text \<open>
  Memory safety of the readers. Every function of the read-only interface gives the same result
  on two memories that agree on the tree, that is on its header and on the \<open>totalsize\<close> bytes from
  its address: no byte behind the tree has an influence, however the tree is corrupted. On the
  way: what an item accepted by \<open>fdt_next_tag\<close> occupies, and where the strings, names and
  properties lie that the readers return.
\<close>

definition same_blob :: "addr \<Rightarrow> mem \<Rightarrow> mem \<Rightarrow> bool" where
  "same_blob fdt m m' \<longleftrightarrow> agree fdt (fdt + max SIZEOF_HEADER (fdt_totalsize m fdt)) m m'"

lemma same_blob_header: "same_blob fdt m m' \<Longrightarrow> agree fdt (fdt + SIZEOF_HEADER) m m'"
  unfolding same_blob_def by (erule agree_subset) simp_all

lemma same_blob_hdr:
  assumes "same_blob fdt m m'"
  shows "fdt_magic m' fdt = fdt_magic m fdt" "fdt_totalsize m' fdt = fdt_totalsize m fdt"
    "fdt_off_dt_struct m' fdt = fdt_off_dt_struct m fdt"
    "fdt_off_dt_strings m' fdt = fdt_off_dt_strings m fdt"
    "fdt_off_mem_rsvmap m' fdt = fdt_off_mem_rsvmap m fdt"
    "fdt_version m' fdt = fdt_version m fdt"
    "fdt_last_comp_version m' fdt = fdt_last_comp_version m fdt"
    "fdt_size_dt_strings m' fdt = fdt_size_dt_strings m fdt"
    "fdt_size_dt_struct m' fdt = fdt_size_dt_struct m fdt"
  using fdt_hdr_agree [OF same_blob_header [OF assms]] by (simp_all only:)

lemma same_blob_agree: "same_blob fdt m m' \<Longrightarrow> agree fdt (fdt + fdt_totalsize m fdt) m m'"
  unfolding same_blob_def by (erule agree_subset) simp_all

lemma same_blob_sym: "same_blob fdt m m' \<Longrightarrow> same_blob fdt m' m"
  using same_blob_hdr(2) [of fdt m m'] by (auto simp: same_blob_def intro: agree_sym)

lemma fdt_offset_ptr_bounds:
  assumes "fdt_offset_ptr m fdt off len = Some p" "off < 2147483648" "0 \<le> len" "len < 4294967296"
  shows "0 \<le> off" "p = fdt + fdt_off_dt_struct m fdt + off"
    "fdt_off_dt_struct m fdt + off + len \<le> fdt_totalsize m fdt"
    "fdt \<le> p" "p + len \<le> fdt + fdt_totalsize m fdt"
proof -
  show off: "0 \<le> off" and p: "p = fdt + fdt_off_dt_struct m fdt + off"
    using fdt_offset_ptr_SomeD [OF assms(1)] by simp_all
  have 1: "off \<le> u32 (off + fdt_off_dt_struct m fdt)"
    and 2: "u32 (off + fdt_off_dt_struct m fdt) \<le> u32 (u32 (off + fdt_off_dt_struct m fdt) + len)"
    and 3: "u32 (u32 (off + fdt_off_dt_struct m fdt) + len) \<le> fdt_totalsize m fdt"
    using assms(1,2) off by (auto simp: fdt_offset_ptr_def Let_def u32_id split: if_splits)
  have abs: "u32 (off + fdt_off_dt_struct m fdt) = off + fdt_off_dt_struct m fdt"
    and small: "off + fdt_off_dt_struct m fdt < 4294967296"
    using 1 off assms(2) by (intro u32_add_nowrap; auto)+
  show "fdt_off_dt_struct m fdt + off + len \<le> fdt_totalsize m fdt"
    using u32_add_nowrap [OF _ _ assms(3,4) 2] 3 abs small off by simp
  then show "fdt \<le> p" "p + len \<le> fdt + fdt_totalsize m fdt" using p off by simp_all
qed

lemma fdt_offset_ptr_same:
  assumes "same_blob fdt m m'"
  shows "fdt_offset_ptr m' fdt off len = fdt_offset_ptr m fdt off len"
  unfolding fdt_offset_ptr_def fdt_offset_ptr_i_def same_blob_hdr [OF assms] ..

lemma same_blob_byte:
  "same_blob fdt m m' \<Longrightarrow> fdt \<le> a \<Longrightarrow> a < fdt + fdt_totalsize m fdt \<Longrightarrow> m' a = m a"
  using same_blob_agree [of fdt m m'] by (simp add: agree_def)

lemma same_blob_ld:
  "same_blob fdt m m' \<Longrightarrow> fdt \<le> p \<Longrightarrow> p + 4 \<le> fdt + fdt_totalsize m fdt \<Longrightarrow>
   fdt32_ld m' p = fdt32_ld m p"
  using fdt32_ld_agree [OF same_blob_agree, of fdt m m' p] by simp

lemma skip_name_same:
  "same_blob fdt m m' \<Longrightarrow> off < 2147483648 \<Longrightarrow> skip_name m' fdt off = skip_name m fdt off"
proof (induction m fdt off rule: skip_name.induct)
  case (1 m fdt off)
  show ?case
  proof (cases "fdt_offset_ptr m fdt off 1")
    case None
    then show ?thesis
      by (simp add: skip_name.simps [of _ fdt off] fdt_offset_ptr_same [OF "1.prems"(1)])
  next
    case (Some p)
    then have "m' p = m p"
      using fdt_offset_ptr_bounds [OF Some "1.prems"(2)] same_blob_byte [OF "1.prems"(1)] by simp
    then show ?thesis using "1.IH" [OF Some] "1.prems" Some
      by (simp add: skip_name.simps [of _ fdt off] fdt_offset_ptr_same [OF "1.prems"(1)])
  qed
qed

lemma next_tag_switch_same:
  assumes "same_blob fdt m m'" "off < 2147483648"
  shows "next_tag_switch m' fdt tag off = next_tag_switch m fdt tag off"
proof (cases "fdt_offset_ptr m fdt off 4")
  case None
  then show ?thesis
    by (simp add: next_tag_switch_def fdt_offset_ptr_same [OF assms(1)] skip_name_same [OF assms])
next
  case (Some p)
  then have "fdt32_ld m' p = fdt32_ld m p"
    using fdt_offset_ptr_bounds [OF Some assms(2)] same_blob_ld [OF assms(1)] by simp
  then show ?thesis using Some
    unfolding next_tag_switch_def fdt_offset_ptr_same [OF assms(1)] skip_name_same [OF assms]
      same_blob_hdr [OF assms(1)] by (simp cong: if_cong)
qed

lemma fdt_next_tag_same:
  assumes "same_blob fdt m m'" "off < 2147483648"
  shows "fdt_next_tag m' fdt off = fdt_next_tag m fdt off"
proof (cases "fdt_offset_ptr m fdt off 4")
  case None
  then show ?thesis by (simp add: fdt_next_tag_def fdt_offset_ptr_same [OF assms(1)])
next
  case (Some p)
  then have "fdt32_ld m' p = fdt32_ld m p"
    using fdt_offset_ptr_bounds [OF Some assms(2)] same_blob_ld [OF assms(1)] by simp
  then show ?thesis
    unfolding fdt_next_tag_def fdt_offset_ptr_same [OF assms(1)] Some option.case Let_def
      next_tag_switch_same [OF assms(1) s32_bounds(2)] by (simp cong: option.case_cong)
qed


section \<open>What an accepted item occupies\<close>

lemma next_tag_switch_prop:
  assumes "next_tag_switch m fdt FDT_PROP off = Some r" "0 \<le> r" "off < 2147483648"
  obtains lenp where "fdt_offset_ptr m fdt off 4 = Some lenp"
    "r = off + 8 + fdt32_ld m lenp \<or>
     r = off + 8 + fdt32_ld m lenp + 4 \<and> fdt_version m fdt < 16 \<and> 8 \<le> fdt32_ld m lenp"
    "off + fdt32_ld m lenp < INT_MAX"
proof -
  from assms(1) obtain lenp where lenp: "fdt_offset_ptr m fdt off 4 = Some lenp"
    by (auto simp: next_tag_switch_def split: option.splits)
  define len where "len = fdt32_ld m lenp"
  from lenp have off: "0 \<le> off" by (auto dest: fdt_offset_ptr_SomeD)
  have len: "0 \<le> len" "len < 4294967296" by (simp_all add: len_def)
  have sum: "u32 (off + len) < INT_MAX" "off \<le> u32 (off + len)"
    and r: "r = s32 (off + 8 + len) \<or>
      r = s32 (s32 (off + 8 + len) + 4) \<and> fdt_version m fdt < 16 \<and> 8 \<le> len"
    using assms(1,3) lenp off
    by (auto simp: next_tag_switch_def Let_def len_def u32_id algebra_simps split: if_splits)
  have small: "off + len < INT_MAX"
    using u32_add_nowrap [OF off _ len sum(2)] sum(1) assms(3) by simp
  have "s32 (off + 8 + len) = off + 8 + len"
    using off len small r assms(2)
    by (cases "off + 8 + len < 2147483648") (auto simp: s32_id s32_big)
  moreover from this have "off + 8 + len < 2147483648" using s32_bounds(2) [of "off + 8 + len"] by simp
  ultimately have "r = off + 8 + len \<or> r = off + 8 + len + 4 \<and> fdt_version m fdt < 16 \<and> 8 \<le> len"
    using off len r assms(2)
    by (cases "off + 8 + len + 4 < 2147483648") (auto simp: s32_id s32_big)
  with lenp small show ?thesis using that unfolding len_def by blast
qed

lemma fdt_next_tag_item:
  assumes "fdt_next_tag m fdt off = (tag, nxt)" "tag \<noteq> FDT_END" "0 \<le> nxt" "off < 2147483648"
  obtains tagp r where "fdt_offset_ptr m fdt off 4 = Some tagp" "tag = fdt32_ld m tagp"
    "next_tag_switch m fdt tag (off + 4) = Some r" "nxt = FDT_TAGALIGN r"
    "0 \<le> off" "off + 4 \<le> r" "fdt_off_dt_struct m fdt + r \<le> fdt_totalsize m fdt"
    "nxt < 2147483648" "off + 4 < 2147483648"
proof -
  from assms(1,2) obtain tagp r
    where tagp: "fdt_offset_ptr m fdt off 4 = Some tagp" and tag: "tag = fdt32_ld m tagp"
      and r: "next_tag_switch m fdt (fdt32_ld m tagp) (s32 (off + 4)) = Some r"
      and ptr: "fdt_offset_ptr m fdt off (u32 (r - off)) \<noteq> None"
      and nxt: "nxt = s32 (FDT_TAGALIGN r)"
    by (auto simp: fdt_next_tag_def Let_def split: option.splits)
  from tagp have off: "0 \<le> off" by (auto dest: fdt_offset_ptr_SomeD)
  have small: "off + 4 < 2147483648"
  proof (rule ccontr)
    assume "\<not> off + 4 < 2147483648"
    moreover from this have "r = off + 4 - 4294967296"
      using next_tag_switch_neg [OF r] off assms(4) by (simp add: s32_big)
    ultimately show False
      using nxt assms(3,4) off FDT_TAGALIGN_bounds [of r] by (auto simp: s32_id)
  qed
  have range: "off + 4 \<le> r \<and> r < 2147483648 \<or> - 2147483648 \<le> r \<and> r < - 2147483600"
    using next_tag_switch_range [OF r] off small by (auto simp: s32_id)
  moreover have "\<not> (- 2147483648 \<le> r \<and> r < - 2147483600)"
    using nxt assms(3) FDT_TAGALIGN_bounds [of r] by (auto simp: s32_id)
  ultimately have r2: "off + 4 \<le> r" "r < 2147483648" by auto
  have "FDT_TAGALIGN r < 2147483648"
    using nxt assms(3) r2 off FDT_TAGALIGN_bounds [of r]
    by (cases "FDT_TAGALIGN r < 2147483648") (auto simp: s32_big)
  then have "nxt = FDT_TAGALIGN r" using nxt r2 off FDT_TAGALIGN_bounds [of r] by (simp add: s32_id)
  moreover from ptr obtain p where "fdt_offset_ptr m fdt off (r - off) = Some p"
    using r2 off by (auto simp: u32_id)
  from fdt_offset_ptr_bounds(3) [OF this assms(4)] r2 off
  have "fdt_off_dt_struct m fdt + r \<le> fdt_totalsize m fdt" by simp
  ultimately show ?thesis
    using that [OF tagp tag] r r2 off small tag assms(3) \<open>FDT_TAGALIGN r < 2147483648\<close>
    by (simp add: s32_id)
qed

lemma fdt_next_tag_prop:
  assumes "fdt_next_tag m fdt off = (FDT_PROP, nxt)" "0 \<le> nxt" "off < 2147483648"
  defines "prop \<equiv> fdt_offset_ptr_i m fdt off"
  shows "fdt \<le> prop" "prop + 12 + fdt32_ld m (prop + 4) \<le> fdt + fdt_totalsize m fdt"
    "fdt32_ld m prop = FDT_PROP" "fdt32_ld m (prop + 4) < INT_MAX" "0 \<le> off"
    "fdt_version m fdt < 16 \<Longrightarrow> 8 \<le> fdt32_ld m (prop + 4) \<Longrightarrow> nxt \<noteq> FDT_TAGALIGN (off + 12 + fdt32_ld m (prop + 4)) \<Longrightarrow>
     prop + 16 + fdt32_ld m (prop + 4) \<le> fdt + fdt_totalsize m fdt"
    "16 \<le> fdt_version m fdt \<Longrightarrow> nxt = FDT_TAGALIGN (off + 12 + fdt32_ld m (prop + 4))"
proof -
  obtain tagp r where i: "fdt_offset_ptr m fdt off 4 = Some tagp" "FDT_PROP = fdt32_ld m tagp"
    "next_tag_switch m fdt FDT_PROP (off + 4) = Some r" "nxt = FDT_TAGALIGN r"
    "0 \<le> off" "off + 4 \<le> r" "fdt_off_dt_struct m fdt + r \<le> fdt_totalsize m fdt"
    "off + 4 < 2147483648"
    by (rule fdt_next_tag_item [OF assms(1) _ assms(2,3)]) auto
  obtain lenp where l: "fdt_offset_ptr m fdt (off + 4) 4 = Some lenp"
    "r = off + 4 + 8 + fdt32_ld m lenp \<or>
     r = off + 4 + 8 + fdt32_ld m lenp + 4 \<and> fdt_version m fdt < 16 \<and> 8 \<le> fdt32_ld m lenp"
    "off + 4 + fdt32_ld m lenp < INT_MAX"
    by (rule next_tag_switch_prop [OF i(3)]) (use i in auto)
  have "tagp = prop" "lenp = prop + 4"
    using fdt_offset_ptr_SomeD [OF i(1)] fdt_offset_ptr_SomeD [OF l(1)]
    by (simp_all add: prop_def fdt_offset_ptr_i_def)
  moreover have "prop = fdt + fdt_off_dt_struct m fdt + off" by (simp add: prop_def fdt_offset_ptr_i_def)
  ultimately show "fdt \<le> prop" "prop + 12 + fdt32_ld m (prop + 4) \<le> fdt + fdt_totalsize m fdt"
    "fdt32_ld m prop = FDT_PROP" "fdt32_ld m (prop + 4) < INT_MAX" "0 \<le> off"
    "fdt_version m fdt < 16 \<Longrightarrow> 8 \<le> fdt32_ld m (prop + 4) \<Longrightarrow> nxt \<noteq> FDT_TAGALIGN (off + 12 + fdt32_ld m (prop + 4)) \<Longrightarrow>
     prop + 16 + fdt32_ld m (prop + 4) \<le> fdt + fdt_totalsize m fdt"
    "16 \<le> fdt_version m fdt \<Longrightarrow> nxt = FDT_TAGALIGN (off + 12 + fdt32_ld m (prop + 4))"
    using i l by (auto simp: algebra_simps)
qed


lemma fdt_next_tag_lt: "fdt_next_tag m fdt off = (tag, nxt) \<Longrightarrow> nxt < 2147483648"
  by (auto simp: fdt_next_tag_def Let_def split: option.splits)

section \<open>Walks over the structure block\<close>

lemma fdt_ro_probe_same: "same_blob fdt m m' \<Longrightarrow> fdt_ro_probe_i m' fdt = fdt_ro_probe_i m fdt"
  unfolding fdt_ro_probe_i_def Let_def by (simp add: same_blob_hdr cong: if_cong)

lemma fdt_check_offset_same:
  assumes "same_blob fdt m m'" "off < 2147483648"
  shows "fdt_check_node_offset_i m' fdt off = fdt_check_node_offset_i m fdt off"
    "fdt_check_prop_offset_i m' fdt off = fdt_check_prop_offset_i m fdt off"
  unfolding fdt_check_node_offset_i_def fdt_check_prop_offset_i_def fdt_next_tag_same [OF assms]
  by (rule refl)+

lemma fdt_check_offset_lt:
  "fdt_check_node_offset_i m fdt off < 2147483648" "fdt_check_prop_offset_i m fdt off < 2147483648"
  by (auto simp: fdt_check_node_offset_i_def fdt_check_prop_offset_i_def
           split: prod.splits dest: fdt_next_tag_lt)

lemma fdt_next_node_loop_same:
  "same_blob fdt m m' \<Longrightarrow> off < 2147483648 \<Longrightarrow>
   fdt_next_node_loop m' fdt off d = fdt_next_node_loop m fdt off d"
proof (induction m fdt off d rule: fdt_next_node_loop.induct)
  case (1 m fdt off d)
  obtain tag nxt where t: "fdt_next_tag m fdt off = (tag, nxt)" by fastforce
  then have t': "fdt_next_tag m' fdt off = (tag, nxt)"
    using fdt_next_tag_same [OF "1.prems"] by simp
  show ?case
    using "1.IH" [OF t [symmetric]] "1.prems"(1) fdt_next_tag_lt [OF t]
    by (simp add: fdt_next_node_loop.simps [of m] fdt_next_node_loop.simps [of m'] t t'
             split: option.splits)
qed

lemma fdt_next_node_same:
  assumes "same_blob fdt m m'" "off < 2147483648"
  shows "fdt_next_node m' fdt off d = fdt_next_node m fdt off d"
  unfolding fdt_next_node_def Let_def
  using fdt_next_node_loop_same [OF assms(1)] fdt_check_offset_same [OF assms]
    fdt_check_offset_lt [of m fdt off] by simp

lemma fdt_next_node_loop_lt:
  "fdt_next_node_loop m fdt off d = (off', d') \<Longrightarrow> off < 2147483648 \<Longrightarrow> off' < 2147483648"
proof (induction m fdt off d arbitrary: off' d' rule: fdt_next_node_loop.induct)
  case (1 m fdt off d)
  obtain tag nxt where t: "fdt_next_tag m fdt off = (tag, nxt)" by fastforce
  show ?case
    using "1.prems" "1.IH" [OF t [symmetric]] fdt_next_tag_lt [OF t]
    by (subst (asm) fdt_next_node_loop.simps)
       (auto simp: t split: if_splits option.splits)
qed

lemma fdt_next_node_lt: "fst (fdt_next_node m fdt off d) < 2147483648"
proof (cases "fdt_next_node m fdt off d")
  case (Pair off' d')
  then show ?thesis
    using fdt_next_node_loop_lt [of m fdt _ d off' d'] fdt_check_offset_lt [of m fdt off]
    by (auto simp: fdt_next_node_def Let_def split: if_splits)
qed

lemma nextprop_same:
  "same_blob fdt m m' \<Longrightarrow> off < 2147483648 \<Longrightarrow> nextprop_i m' fdt off = nextprop_i m fdt off"
proof (induction m fdt off rule: nextprop_i.induct)
  case (1 m fdt off)
  obtain tag nxt where t: "fdt_next_tag m fdt off = (tag, nxt)" by fastforce
  then have t': "fdt_next_tag m' fdt off = (tag, nxt)"
    using fdt_next_tag_same [OF "1.prems"] by simp
  show ?case
    using "1.IH" [OF t [symmetric]] "1.prems"(1) fdt_next_tag_lt [OF t]
    by (simp add: nextprop_i.simps [of m] nextprop_i.simps [of m'] t t')
qed

lemma nextprop_lt: "off < 2147483648 \<Longrightarrow> nextprop_i m fdt off < 2147483648"
proof (induction m fdt off rule: nextprop_i.induct)
  case (1 m fdt off)
  obtain tag nxt where t: "fdt_next_tag m fdt off = (tag, nxt)" by fastforce
  show ?case
    using "1.IH" [OF t [symmetric]] "1.prems" fdt_next_tag_lt [OF t]
    by (simp add: nextprop_i.simps [of m] t)
qed

lemma fdt_property_offset_same:
  assumes "same_blob fdt m m'" "off < 2147483648"
  shows "fdt_first_property_offset m' fdt off = fdt_first_property_offset m fdt off"
    "fdt_next_property_offset m' fdt off = fdt_next_property_offset m fdt off"
  unfolding fdt_first_property_offset_def fdt_next_property_offset_def Let_def
    fdt_check_offset_same [OF assms]
  using nextprop_same [OF assms(1)] fdt_check_offset_lt by simp_all

lemma fdt_property_offset_lt:
  "fdt_first_property_offset m fdt off < 2147483648" "fdt_next_property_offset m fdt off < 2147483648"
  by (auto simp: fdt_first_property_offset_def fdt_next_property_offset_def Let_def
           intro: nextprop_lt fdt_check_offset_lt less_trans)

section \<open>Strings\<close>

lemma memchr_same:
  assumes "\<And>a. s \<le> a \<Longrightarrow> a < s + int n \<Longrightarrow> m' a = m a"
  shows "memchr m' s c n = memchr m s c n"
  unfolding memchr_search using assms
proof (induction n arbitrary: s)
  case (Suc n)
  have "memchr_bytes m' (s + 1) c n = memchr_bytes m (s + 1) c n"
    by (rule Suc.IH) (use Suc.prems in auto)
  then show ?case using Suc.prems [of s] by simp
qed simp

lemma mem_eq_same:
  "(\<And>a. p \<le> a \<Longrightarrow> a < p + int (length s) \<Longrightarrow> m' a = m a) \<Longrightarrow> mem_eq m' p s = mem_eq m p s"
  unfolding mem_eq_def by (subst bytes_at_eqI [of p "length s" m' m]) auto

lemma fdt_get_string_same:
  assumes "same_blob fdt m m'"
  shows "fdt_get_string m' fdt off = fdt_get_string m fdt off"
proof -
  define abs where "abs = u32 (off + fdt_off_dt_strings m fdt)"
  have chr: "string_at m' (fdt + abs) len = string_at m (fdt + abs) len"
    if "len \<le> u32 (fdt_totalsize m fdt - abs)" "abs < fdt_totalsize m fdt" for len
    unfolding string_at_def
  proof (subst memchr_same)
    fix a assume a: "fdt + abs \<le> a" "a < fdt + abs + int (nat len)"
    have "0 \<le> abs" by (simp add: abs_def)
    moreover from this have "u32 (fdt_totalsize m fdt - abs) = fdt_totalsize m fdt - abs"
      using that(2) fdt_hdr_bounds(2) [of m fdt] by (intro u32_id) linarith+
    ultimately show "m' a = m a"
      using a that by (intro same_blob_byte [OF assms]) (auto split: if_splits)
  qed simp
  have probe: "fdt_ro_probe_i m fdt < 0 \<or> fdt_ro_probe_i m fdt = fdt_totalsize m fdt"
    by (auto simp: fdt_ro_probe_i_def Let_def)
  show ?thesis
  proof (cases "fdt_ro_probe_i m fdt < 0 \<or> abs \<ge> fdt_totalsize m fdt")
    case True
    then show ?thesis using probe
      by (auto simp: fdt_get_string_def Let_def fdt_ro_probe_same [OF assms] same_blob_hdr [OF assms]
            abs_def)
  next
    case False
    then show ?thesis using probe chr
      unfolding fdt_get_string_def Let_def fdt_ro_probe_same [OF assms] same_blob_hdr [OF assms]
        abs_def [symmetric]
      by (simp cong: if_cong)
  qed
qed

lemma fdt_get_string_Some:
  assumes "fdt_get_string m fdt off = (Some s, len)"
  shows "fdt \<le> s" "0 \<le> len" "s + len < fdt + fdt_totalsize m fdt" "m (s + len) = 0"
    "s \<le> a \<Longrightarrow> a < s + len \<Longrightarrow> m a \<noteq> 0"
proof -
  define abs where "abs = u32 (off + fdt_off_dt_strings m fdt)"
  define len0 where "len0 = u32 (fdt_totalsize m fdt - abs)"
  have probe: "fdt_ro_probe_i m fdt = fdt_totalsize m fdt \<and> fdt_totalsize m fdt < INT_MAX
      \<or> fdt_ro_probe_i m fdt < 0"
    by (auto simp: fdt_ro_probe_i_def Let_def)
  have "(\<exists>l \<le> u32 (fdt_totalsize m fdt - abs). string_at m (fdt + abs) l = (Some s, len))
      \<and> abs < fdt_totalsize m fdt \<and> fdt_totalsize m fdt < INT_MAX"
    using assms probe unfolding fdt_get_string_def Let_def
    unfolding abs_def [symmetric]
    by (auto split: if_splits intro: less_imp_le)
  then obtain l n where l: "l \<le> len0" "memchr m (fdt + abs) 0 (nat l) = Some n" "s = fdt + abs"
    "len = s32 (n - s)" "abs < fdt_totalsize m fdt" "fdt_totalsize m fdt < INT_MAX"
    by (auto simp: string_at_def len0_def split: option.splits)
  have abs: "0 \<le> abs" by (simp add: abs_def)
  have len0: "len0 = fdt_totalsize m fdt - abs"
    unfolding len0_def using abs l(5,6) by (intro u32_id) linarith+
  have n: "s \<le> n" "n < s + int (nat l)" "m n = 0" "\<And>a. s \<le> a \<Longrightarrow> a < n \<Longrightarrow> m a \<noteq> 0"
    using l(2) unfolding memchr_search memchr_bytes_Some l(3) by auto
  have nl: "int (nat l) \<le> fdt_totalsize m fdt - abs"
    using l(1,5) \<open>len0 = fdt_totalsize m fdt - abs\<close> by (cases "0 \<le> l") auto
  with n(1,2) have "0 \<le> n - s" "n - s < 2147483648" using l(6) abs by linarith+
  then have "len = n - s" using l(4) by (simp add: s32_id)
  with n show "fdt \<le> s" "0 \<le> len" "s + len < fdt + fdt_totalsize m fdt" "m (s + len) = 0"
    "s \<le> a \<Longrightarrow> a < s + len \<Longrightarrow> m a \<noteq> 0"
    using l(3) abs nl by (auto simp del: int_nat_eq)
qed

lemma fdt_string_eq_same:
  assumes "same_blob fdt m m'"
  shows "fdt_string_eq_i m' fdt off name = fdt_string_eq_i m fdt off name"
proof (cases "fdt_get_string m fdt off")
  case (Pair p len)
  show ?thesis
  proof (cases p)
    case None
    then show ?thesis
      by (simp add: fdt_string_eq_i_def fdt_get_string_same [OF assms] Pair)
  next
    case (Some s)
    have "mem_eq m' s name = mem_eq m s name" if "len = int (length name)"
      using fdt_get_string_Some(1-3) [OF Pair [unfolded Some]] that
      by (intro mem_eq_same same_blob_byte [OF assms]) auto
    then show ?thesis
      by (auto simp: fdt_string_eq_i_def fdt_get_string_same [OF assms] Pair Some)
  qed
qed

section \<open>Properties\<close>

lemma fdt_check_prop_offsetD:
  assumes "0 \<le> fdt_check_prop_offset_i m fdt off"
  shows "fdt_next_tag m fdt off = (FDT_PROP, fdt_check_prop_offset_i m fdt off)" "0 \<le> off"
  using assms by (auto simp: fdt_check_prop_offset_i_def split: if_splits prod.splits)

lemma fdt_check_node_offsetD:
  assumes "0 \<le> fdt_check_node_offset_i m fdt off"
  shows "fdt_next_tag m fdt off = (FDT_BEGIN_NODE, fdt_check_node_offset_i m fdt off)" "0 \<le> off"
  using assms by (auto simp: fdt_check_node_offset_i_def split: if_splits prod.splits)

lemma fdt_get_property_by_offset_same:
  assumes "same_blob fdt m m'" "off < 2147483648"
  shows "fdt_get_property_by_offset_i m' fdt off = fdt_get_property_by_offset_i m fdt off"
proof (cases "fdt_check_prop_offset_i m fdt off < 0")
  case True
  then show ?thesis
    by (simp add: fdt_get_property_by_offset_i_def fdt_check_offset_same [OF assms])
next
  case False
  then have p: "fdt_next_tag m fdt off = (FDT_PROP, fdt_check_prop_offset_i m fdt off)"
    using fdt_check_prop_offsetD [of m fdt off] by simp
  have "fdt32_ld m' (fdt_offset_ptr_i m fdt off + 4) = fdt32_ld m (fdt_offset_ptr_i m fdt off + 4)"
    using fdt_next_tag_prop(1,2) [OF p _ assms(2)] False
      fdt32_ld_bounds(1) [of m "fdt_offset_ptr_i m fdt off + 4"]
    by (intro same_blob_ld [OF assms(1)]; linarith)
  then show ?thesis
    using False by (simp add: fdt_get_property_by_offset_i_def fdt_check_offset_same [OF assms]
      fdt_offset_ptr_i_def same_blob_hdr [OF assms(1)])
qed

lemma fdt_get_property_by_offset_Some:
  assumes "fdt_get_property_by_offset_i m fdt off = (Some prop, len)" "off < 2147483648"
  shows "prop = fdt_offset_ptr_i m fdt off" "0 \<le> off"
    "\<exists>nxt \<ge> 0. fdt_next_tag m fdt off = (FDT_PROP, nxt)"
    "len = fdt32_ld m (prop + 4)" "0 \<le> len" "len < INT_MAX" "fdt32_ld m prop = FDT_PROP"
    "fdt \<le> prop" "prop + 12 + len \<le> fdt + fdt_totalsize m fdt"
proof -
  from assms have c: "0 \<le> fdt_check_prop_offset_i m fdt off" and "prop = fdt_offset_ptr_i m fdt off"
    and len: "len = s32 (fdt32_ld m (prop + 4))"
    by (auto simp: fdt_get_property_by_offset_i_def Let_def split: if_splits)
  note p = fdt_next_tag_prop [OF fdt_check_prop_offsetD(1) [OF c] c assms(2)]
  have "len = fdt32_ld m (prop + 4)"
    unfolding len using p(4) \<open>prop = _\<close> by (intro s32_id) (auto intro: order_trans [of _ 0])
  then show "prop = fdt_offset_ptr_i m fdt off" "0 \<le> off"
    "\<exists>nxt \<ge> 0. fdt_next_tag m fdt off = (FDT_PROP, nxt)"
    "len = fdt32_ld m (prop + 4)" "0 \<le> len" "len < INT_MAX" "fdt32_ld m prop = FDT_PROP"
    "fdt \<le> prop" "prop + 12 + len \<le> fdt + fdt_totalsize m fdt"
    using p \<open>prop = _\<close> fdt_check_prop_offsetD [OF c] c by auto
qed

lemma get_property_loop_same:
  "same_blob fdt m m' \<Longrightarrow> off < 2147483648 \<Longrightarrow>
   get_property_loop m' fdt off name = get_property_loop m fdt off name"
proof (induction m fdt off name rule: get_property_loop.induct)
  case (1 m fdt off name)
  show ?case
  proof (cases "0 \<le> off")
    case False
    then show ?thesis by (simp add: get_property_loop.simps [of _ fdt off])
  next
    case True
    obtain pr len where p: "fdt_get_property_by_offset_i m fdt off = (pr, len)" by fastforce
    have p': "fdt_get_property_by_offset_i m' fdt off = (pr, len)"
      using fdt_get_property_by_offset_same [OF "1.prems"] p by simp
    show ?thesis
    proof (cases pr)
      case None
      then show ?thesis using True
        by (simp add: get_property_loop.simps [of m] get_property_loop.simps [of m'] p p')
    next
      case (Some q)
      have "fdt32_ld m' (q + 8) = fdt32_ld m (q + 8)"
        using fdt_get_property_by_offset_Some(5,8,9) [OF p [unfolded Some] "1.prems"(2)]
        by (intro same_blob_ld [OF "1.prems"(1)]; linarith)
      then show ?thesis
        using True "1.IH" [OF True p [symmetric] Some] "1.prems"(1) fdt_property_offset_lt
        by (simp add: get_property_loop.simps [of m] get_property_loop.simps [of m'] p p' Some
              fdt_string_eq_same [OF "1.prems"(1)] fdt_property_offset_same [OF "1.prems"])
    qed
  qed
qed

lemma get_property_loop_Some:
  "get_property_loop m fdt off name = (Some prop, len, poff) \<Longrightarrow> off < 2147483648 \<Longrightarrow>
   0 \<le> poff \<and> poff < 2147483648 \<and> fdt_get_property_by_offset_i m fdt poff = (Some prop, len)
     \<and> fdt_string_eq_i m fdt (s32 (fdt32_ld m (prop + 8))) name"
proof (induction m fdt off name rule: get_property_loop.induct)
  case (1 m fdt off name)
  from "1.prems" have off: "0 \<le> off" by (auto simp: get_property_loop.simps [of m] split: if_splits)
  obtain q l where p: "fdt_get_property_by_offset_i m fdt off = (q, l)" by fastforce
  with "1.prems" off obtain q' where q: "q = Some q'"
    by (cases q) (auto simp: get_property_loop.simps [of m])
  show ?case
    using "1.prems" "1.IH" [OF off p [symmetric] q] off p q fdt_property_offset_lt(2)
    by (subst (asm) get_property_loop.simps) (auto split: if_splits)
qed

lemma get_property_loop_None:
  "get_property_loop m fdt off name = (None, len, poff) \<Longrightarrow> len < 0"
proof (induction m fdt off name rule: get_property_loop.induct)
  case (1 m fdt off name)
  show ?case
  proof (cases "0 \<le> off")
    case False
    then show ?thesis using "1.prems" by (simp add: get_property_loop.simps [of m])
  next
    case True
    obtain q l where p: "fdt_get_property_by_offset_i m fdt off = (q, l)" by fastforce
    show ?thesis
      using "1.prems" "1.IH" [OF True p [symmetric]] True p
      by (cases q) (auto simp: get_property_loop.simps [of m] split: if_splits)
  qed
qed

lemma fdt_getprop_None: "fdt_getprop m fdt node name = (None, len) \<Longrightarrow> len < 0"
  by (auto simp: fdt_getprop_def fdt_getprop_namelen_def fdt_get_property_namelen_i_def
           split: option.splits prod.splits dest: get_property_loop_None)

lemma fdt_getprop_same:
  assumes "same_blob fdt m m'" "node < 2147483648"
  shows "fdt_getprop m' fdt node name = fdt_getprop m fdt node name"
proof -
  obtain pr len poff where p: "fdt_get_property_namelen_i m fdt node name = (pr, len, poff)"
    by (cases "fdt_get_property_namelen_i m fdt node name") auto
  have p': "fdt_get_property_namelen_i m' fdt node name = (pr, len, poff)"
    using p get_property_loop_same [OF assms(1) fdt_property_offset_lt(1)]
    unfolding fdt_get_property_namelen_i_def fdt_property_offset_same [OF assms] by simp
  show ?thesis
  proof (cases pr)
    case None
    then show ?thesis by (simp add: fdt_getprop_def fdt_getprop_namelen_def p p')
  next
    case (Some q)
    then have g: "fdt_get_property_by_offset_i m fdt poff = (Some q, len)" "poff < 2147483648"
      using get_property_loop_Some [OF _ fdt_property_offset_lt(1)] p
      unfolding fdt_get_property_namelen_i_def by blast+
    have "fdt32_ld m' (q + 4) = fdt32_ld m (q + 4)"
      using fdt_get_property_by_offset_Some(5,8,9) [OF g]
      by (intro same_blob_ld [OF assms(1)]; linarith)
    then show ?thesis
      by (simp add: fdt_getprop_def fdt_getprop_namelen_def p p' Some prop_value_def
            same_blob_hdr [OF assms(1)])
  qed
qed


section \<open>Node names, subnodes\<close>

lemma skip_name_nul:
  "skip_name m fdt off = Some r \<Longrightarrow> 0 \<le> r \<Longrightarrow> off < 2147483648 \<Longrightarrow>
   \<exists>e. off \<le> e \<and> r = e + 1 \<and> m (fdt + fdt_off_dt_struct m fdt + e) = 0
     \<and> (\<forall>i. off \<le> i \<and> i < e \<longrightarrow> m (fdt + fdt_off_dt_struct m fdt + i) \<noteq> 0)"
proof (induction m fdt off rule: skip_name.induct)
  case (1 m fdt off)
  obtain p where p: "fdt_offset_ptr m fdt off 1 = Some p"
    using "1.prems" by (auto simp: skip_name.simps [of m fdt off] split: option.splits)
  then have off: "0 \<le> off" "p = fdt + fdt_off_dt_struct m fdt + off"
    by (auto dest: fdt_offset_ptr_SomeD)
  have step: "s32 (off + 1) = off + 1 \<or> s32 (off + 1) = - 2147483648"
    using off "1.prems"(3) s32_Suc_cases [of off 1] by (auto simp: s32_id s32_big)
  show ?case
  proof (cases "m p = 0")
    case True
    then have "r = off + 1" using "1.prems" p off step by (auto simp: skip_name.simps [of m fdt off])
    then show ?thesis using True off by (intro exI [of _ off]) auto
  next
    case False
    then have rec: "skip_name m fdt (s32 (off + 1)) = Some r"
      using "1.prems" p by (simp add: skip_name.simps [of m fdt off])
    from "1.IH" [OF p False rec "1.prems"(2) s32_bounds(2)] obtain e where
      e: "s32 (off + 1) \<le> e" "r = e + 1" "m (fdt + fdt_off_dt_struct m fdt + e) = 0"
        "\<forall>i. s32 (off + 1) \<le> i \<and> i < e \<longrightarrow> m (fdt + fdt_off_dt_struct m fdt + i) \<noteq> 0"
      by blast
    have "0 \<le> s32 (off + 1)"
      using rec by (auto simp: skip_name.simps [of m fdt] split: option.splits dest: fdt_offset_ptr_SomeD)
    then have s: "s32 (off + 1) = off + 1" using step by auto
    have "m (fdt + fdt_off_dt_struct m fdt + i) \<noteq> 0" if "off \<le> i \<and> i < e" for i
      using e(4) that False off(2) s by (cases "i = off") auto
    with e s show ?thesis by (intro exI [of _ e]) auto
  qed
qed

lemma strlen_nul:
  "p \<le> q \<Longrightarrow> q < ADDR_LIMIT \<Longrightarrow> m q = 0 \<Longrightarrow> (\<forall>a. p \<le> a \<and> a < q \<longrightarrow> m a \<noteq> 0) \<Longrightarrow>
   strlen m p = nat (q - p)"
proof (induction m p rule: strlen.induct)
  case (1 m p)
  show ?case
  proof (cases "p = q")
    case True
    then show ?thesis using "1.prems" by (simp add: strlen.simps [of m q])
  next
    case False
    then have "p < ADDR_LIMIT \<and> m p \<noteq> 0" "p + 1 \<le> q" using 1 by auto
    then show ?thesis using 1 by (simp add: strlen.simps [of m p])
  qed
qed

lemma strlen_same:
  "p \<le> q \<Longrightarrow> m q = 0 \<Longrightarrow> (\<forall>a. p \<le> a \<and> a \<le> q \<longrightarrow> m' a = m a) \<Longrightarrow>
   strlen m' p = strlen m p \<and> p + int (strlen m p) \<le> q"
proof (induction m p rule: strlen.induct)
  case (1 m p)
  show ?case
  proof (cases "p < ADDR_LIMIT \<and> m p \<noteq> 0")
    case False
    then show ?thesis using 1 by (auto simp: strlen.simps [of m p] strlen.simps [of m' p])
  next
    case True
    then have "p + 1 \<le> q" using 1 by (cases "p = q") auto
    then show ?thesis using 1 True by (auto simp: strlen.simps [of m p] strlen.simps [of m' p])
  qed
qed

lemma memrchr_same:
  "(\<And>a. s \<le> a \<Longrightarrow> a < s + int n \<Longrightarrow> m' a = m a) \<Longrightarrow> memrchr m' s c n = memrchr m s c n"
  by (induction n) auto

lemma memrchr_Some: "memrchr m s c n = Some p \<Longrightarrow> s \<le> p \<and> p < s + int n \<and> m p = c"
  by (induction n) (auto split: if_splits)

lemma fdt_node_name:
  assumes "0 \<le> fdt_check_node_offset_i m fdt off" "off < 2147483648"
  obtains q where "fdt_offset_ptr_i m fdt off + 4 \<le> q" "fdt \<le> fdt_offset_ptr_i m fdt off"
    "q < fdt + fdt_totalsize m fdt" "m q = 0"
    "\<forall>a. fdt_offset_ptr_i m fdt off + 4 \<le> a \<and> a < q \<longrightarrow> m a \<noteq> 0"
proof -
  obtain tagp r where i: "next_tag_switch m fdt FDT_BEGIN_NODE (off + 4) = Some r" "0 \<le> off"
    "off + 4 \<le> r" "fdt_off_dt_struct m fdt + r \<le> fdt_totalsize m fdt" "off + 4 < 2147483648"
    by (rule fdt_next_tag_item [OF fdt_check_node_offsetD(1) [OF assms(1)] _ assms]) auto
  then obtain e where e: "off + 4 \<le> e" "r = e + 1" "m (fdt + fdt_off_dt_struct m fdt + e) = 0"
    "\<forall>i. off + 4 \<le> i \<and> i < e \<longrightarrow> m (fdt + fdt_off_dt_struct m fdt + i) \<noteq> 0"
    using skip_name_nul [of m fdt "off + 4" r] by (auto simp: next_tag_switch_def)
  show ?thesis
  proof (rule that [of "fdt + fdt_off_dt_struct m fdt + e"])
    show "\<forall>a. fdt_offset_ptr_i m fdt off + 4 \<le> a \<and> a < fdt + fdt_off_dt_struct m fdt + e \<longrightarrow> m a \<noteq> 0"
    proof (intro allI impI)
      fix a assume "fdt_offset_ptr_i m fdt off + 4 \<le> a \<and> a < fdt + fdt_off_dt_struct m fdt + e"
      then show "m a \<noteq> 0"
        using e(4) [rule_format, of "a - fdt - fdt_off_dt_struct m fdt"]
        by (simp add: fdt_offset_ptr_i_def)
    qed
  qed (use i e in \<open>auto simp: fdt_offset_ptr_i_def\<close>)
qed

lemma fdt_get_name_same:
  assumes "same_blob fdt m m'" "off < 2147483648"
  shows "fdt_get_name m' fdt off = fdt_get_name m fdt off"
proof (cases "fdt_check_node_offset_i m fdt off < 0")
  case True
  then show ?thesis
    unfolding fdt_get_name_def fdt_ro_probe_same [OF assms(1)] fdt_check_offset_same [OF assms] by simp
next
  case False
  define np where "np = fdt_offset_ptr_i m fdt off + 4"
  have "0 \<le> fdt_check_node_offset_i m fdt off" using False by simp
  then obtain q where q: "np \<le> q" "fdt \<le> np" "q < fdt + fdt_totalsize m fdt" "m q = 0"
    unfolding np_def by (rule fdt_node_name [OF _ assms(2)]) auto
  have same: "m' a = m a" if "np \<le> a" "a \<le> q" for a
    using that q by (intro same_blob_byte [OF assms(1)]) auto
  have len: "strlen m' p = strlen m p \<and> p + int (strlen m p) \<le> q" if "np \<le> p" "p \<le> q" for p
    by (rule strlen_same) (use that q same in auto)
  have chr: "strrchr m' np 47 = strrchr m np 47"
    using len [of np] q same unfolding strrchr_def by (auto intro!: memrchr_same)
  have leaf: "strlen m' (p + 1) = strlen m (p + 1)" if "strrchr m np 47 = Some p" for p
  proof -
    have "np \<le> p" "p < np + int (strlen m np + 1)" "m p = 47"
      using memrchr_Some that unfolding strrchr_def by blast+
    then have "p < q" using len [of np] q by (cases "p = q") auto
    then show ?thesis using len [of "p + 1"] \<open>np \<le> p\<close> by simp
  qed
  show ?thesis
    unfolding fdt_get_name_def fdt_ro_probe_same [OF assms(1)] fdt_check_offset_same [OF assms]
    unfolding fdt_offset_ptr_i_def same_blob_hdr [OF assms(1)]
    unfolding fdt_offset_ptr_i_def [of m, symmetric] np_def [symmetric]
    using leaf len [of np] q(1) chr by (auto simp: Let_def split: option.splits)
qed

lemma fdt_get_name_Some:
  assumes "fdt_get_name m fdt off = (Some p, olen)" "off < 2147483648"
  shows "fdt \<le> p" "p + int (strlen m p) < fdt + fdt_totalsize m fdt" "olen = s32 (int (strlen m p))"
proof -
  have nc: "0 \<le> fdt_check_node_offset_i m fdt off"
    using assms by (auto simp: fdt_get_name_def split: if_splits)
  define np where "np = fdt_offset_ptr_i m fdt off + 4"
  obtain q where q: "np \<le> q" "fdt \<le> np" "q < fdt + fdt_totalsize m fdt" "m q = 0"
    using nc unfolding np_def by (rule fdt_node_name [OF _ assms(2)]) auto
  have "np \<le> p \<and> p \<le> q"
  proof (cases "fdt_version m fdt < 0x10")
    case False
    then show ?thesis using assms q
      by (auto simp: fdt_get_name_def np_def Let_def split: if_splits)
  next
    case True
    then obtain l where l: "memrchr m np 47 (strlen m np + 1) = Some l" "p = l + 1"
      using assms by (auto simp: fdt_get_name_def np_def [symmetric] strrchr_def Let_def
          split: if_splits option.splits)
    then have "np \<le> l" "l < np + int (strlen m np + 1)" "m l = 47" using memrchr_Some by blast+
    moreover have "np + int (strlen m np) \<le> q" using strlen_same [of np q m m] q by auto
    ultimately show ?thesis using l(2) q(4) by (cases "l = q") auto
  qed
  moreover from this have "p + int (strlen m p) \<le> q" using strlen_same [of p q m m] q by auto
  ultimately show "fdt \<le> p" "p + int (strlen m p) < fdt + fdt_totalsize m fdt"
    using q by auto
  show "olen = s32 (int (strlen m p))"
    using assms by (auto simp: fdt_get_name_def Let_def split: if_splits option.splits)
qed

lemma fdt_nodename_eq_same:
  assumes "same_blob fdt m m'" "off < 2147483648"
  shows "fdt_nodename_eq_i m' fdt off s = fdt_nodename_eq_i m fdt off s"
proof (cases "fdt_get_name m fdt off")
  case (Pair p olen)
  show ?thesis
  proof (cases p)
    case None
    then show ?thesis by (simp add: fdt_nodename_eq_i_def fdt_get_name_same [OF assms] Pair)
  next
    case (Some q)
    note g = fdt_get_name_Some [OF Pair [unfolded Some] assms(2)]
    have "mem_eq m' q s = mem_eq m q s \<and> m' (q + int (length s)) = m (q + int (length s))"
      if "\<not> olen < int (length s)"
    proof -
      have "int (strlen m q) < 2147483648 \<or> olen \<le> int (strlen m q)"
        using s32_le_max [of "int (strlen m q)"] g(3) by linarith
      then have "olen \<le> int (strlen m q)" using g(3) by (auto simp: s32_id)
      then show ?thesis using that g
        by (intro conjI mem_eq_same same_blob_byte [OF assms(1)]) auto
    qed
    then show ?thesis
      by (simp add: fdt_nodename_eq_i_def fdt_get_name_same [OF assms] Pair Some Let_def)
  qed
qed

lemma subnode_loop_same:
  "same_blob fdt m m' \<Longrightarrow> off < 2147483648 \<Longrightarrow>
   subnode_loop m' fdt name off d = subnode_loop m fdt name off d"
proof (induction m fdt name off d rule: subnode_loop.induct)
  case (1 m fdt name off d)
  obtain off' d' where t: "fdt_next_node m fdt off (Some d) = (off', d')" by fastforce
  then have t': "fdt_next_node m' fdt off (Some d) = (off', d')" "off' < 2147483648"
    using fdt_next_node_same [OF "1.prems"] fdt_next_node_lt [of m fdt off "Some d"] by simp_all
  show ?case
    using "1.IH" t t' "1.prems" fdt_nodename_eq_same [OF "1.prems"]
    by (auto simp: subnode_loop.simps [of m] subnode_loop.simps [of m'] split: option.splits)
qed

lemma fdt_subnode_offset_same:
  "same_blob fdt m m' \<Longrightarrow> off < 2147483648 \<Longrightarrow>
   fdt_subnode_offset_namelen m' fdt off name = fdt_subnode_offset_namelen m fdt off name"
  unfolding fdt_subnode_offset_namelen_def by (simp add: fdt_ro_probe_same subnode_loop_same)

lemma subnode_loop_lt: "off < 2147483648 \<Longrightarrow> subnode_loop m fdt name off d < 2147483648"
proof (induction m fdt name off d rule: subnode_loop.induct)
  case (1 m fdt name off d)
  obtain off' d' where t: "fdt_next_node m fdt off (Some d) = (off', d')" by fastforce
  then have t': "off' < 2147483648" using fdt_next_node_lt [of m fdt off "Some d"] by simp
  show ?case
    using "1.IH" t t' "1.prems"
    by (auto simp: subnode_loop.simps [of m] split: option.splits)
qed

lemma path_walk_same:
  "same_blob fdt m m' \<Longrightarrow> off < 2147483648 \<Longrightarrow> path_walk m' fdt off p = path_walk m fdt off p"
proof (induction m fdt off p rule: path_walk.induct)
  case (1 m fdt off p)
  define p1 where "p1 = dropWhile (\<lambda>c. c = 47) p"
  define o1 where "o1 = fdt_subnode_offset_namelen m fdt off (takeWhile (\<lambda>c. c \<noteq> 47) p1)"
  have o1: "o1 < 2147483648" if "\<not> o1 < 0"
    using that subnode_loop_lt [OF "1.prems"(2)]
    by (auto simp: o1_def fdt_subnode_offset_namelen_def split: if_splits)
  show ?case
    using "1.IH" [OF _ p1_def _ o1_def] "1.prems" o1
    unfolding path_walk.simps [of m fdt off p] path_walk.simps [of m' fdt off p] Let_def
      fdt_subnode_offset_same [OF "1.prems"] p1_def [symmetric] o1_def [symmetric]
    by simp
qed

text \<open>An absolute path is looked up without the aliases, and always with a result.\<close>

lemma fdt_path_offset_absolute:
  "deref path = 47 \<Longrightarrow>
   fdt_path_offset m fdt path =
     Some (if fdt_ro_probe_i m fdt < 0 then fdt_ro_probe_i m fdt else path_walk m fdt 0 path)"
  by (simp add: fdt_path_offset_def fdt_path_offset_namelen.simps [of m fdt path])

end
