(* ===== verification/Fdt_Tokens.thy ===== *)
theory Fdt_Tokens
  imports Fdt_Safety
begin

text \<open>
  The structure block as the list of its items, and what the readers compute in these terms:
  \<open>fdt_subnode_offset_namelen\<close> finds the first child with a matching name, \<open>fdt_getprop\<close> the
  first property of the node itself with that name. \<open>tokens\<close> lists tag, offset and next offset of
  every item up to the one that ends the walk.
\<close>

section \<open>The items of the structure block\<close>

function tokens :: "mem \<Rightarrow> addr \<Rightarrow> int \<Rightarrow> (int \<times> int \<times> int) list" where
  "tokens m fdt off =
     (case fdt_next_tag m fdt off of (tag, nxt) \<Rightarrow>
        if tag = FDT_END then [(tag, off, nxt)] else (tag, off, nxt) # tokens m fdt nxt)"
  by pat_completeness auto
termination
  by (relation "measure (\<lambda>(m, fdt, offset). walk_left offset)")
     (auto dest: fdt_next_tag_progress')

declare tokens.simps [simp del]

fun node_props :: "(int \<times> int \<times> int) list \<Rightarrow> int list" where
  "node_props [] = []"
| "node_props ((tag, off, nxt) # ts) =
     (if tag = FDT_PROP then off # node_props ts else if tag = FDT_NOP then node_props ts else [])"

fun children :: "nat \<Rightarrow> (int \<times> int \<times> int) list \<Rightarrow> int list" where
  "children d [] = []"
| "children d ((tag, off, nxt) # ts) =
     (if tag = FDT_BEGIN_NODE then (if d = 0 then off # children (Suc d) ts else children (Suc d) ts)
      else if tag = FDT_END_NODE then (case d of 0 \<Rightarrow> [] | Suc d' \<Rightarrow> children d' ts)
      else if tag = FDT_END then []
      else children d ts)"

text \<open>What a search of the children that does not find one returns.\<close>

fun no_child :: "nat \<Rightarrow> (int \<times> int \<times> int) list \<Rightarrow> int" where
  "no_child d [] = - FDT_ERR_NOTFOUND"
| "no_child d ((tag, off, nxt) # ts) =
     (if tag = FDT_BEGIN_NODE then no_child (Suc d) ts
      else if tag = FDT_END_NODE then (case d of 0 \<Rightarrow> - FDT_ERR_NOTFOUND | Suc d' \<Rightarrow> no_child d' ts)
      else if tag = FDT_END then (if nxt \<ge> 0 then - FDT_ERR_NOTFOUND else nxt)
      else no_child d ts)"

definition first_or :: "('a \<Rightarrow> bool) \<Rightarrow> 'a list \<Rightarrow> 'a \<Rightarrow> 'a" where
  "first_or P xs y = (case List.find P xs of Some x \<Rightarrow> x | None \<Rightarrow> y)"

lemma first_or_simps [simp]:
  "first_or P [] y = y" "first_or P (x # xs) y = (if P x then x else first_or P xs y)"
  by (simp_all add: first_or_def)

text \<open>The size and place of a structure block that no offset into it can wrap in.\<close>

definition placed :: "mem \<Rightarrow> addr \<Rightarrow> bool" where
  "placed m fdt \<longleftrightarrow> 4 \<le> fdt_off_dt_struct m fdt \<and> fdt_totalsize m fdt < INT_MAX"

lemma placed_check_header:
  "fdt_check_header m fdt = 0 \<Longrightarrow> 0 \<le> fdt_ro_probe_i m fdt \<Longrightarrow> placed m fdt"
  by (auto simp: placed_def fdt_check_header_def fdt_ro_probe_i_def fdt_header_size_def
        fdt_header_size_i_def check_off_i_def check_block_i_def Let_def split: if_splits)

lemma next_tag_cases:
  assumes "next_tag_switch m fdt tag off = Some r" "off < 2147483648" "- 2147483648 \<le> off"
  shows "tag = FDT_BEGIN_NODE \<or> tag = FDT_PROP \<or> tag = FDT_NOP \<or> tag = FDT_END_NODE \<or> tag = FDT_END"
  using assms by (auto simp: next_tag_switch_def split: if_splits)

lemma fdt_next_tag_tag:
  "fdt_next_tag m fdt off = (tag, nxt) \<Longrightarrow>
   tag = FDT_BEGIN_NODE \<or> tag = FDT_PROP \<or> tag = FDT_NOP \<or> tag = FDT_END_NODE \<or> tag = FDT_END"
  using next_tag_cases [of m fdt tag "s32 (off + 4)"]
  by (auto simp: fdt_next_tag_def Let_def split: option.splits)

lemma fdt_next_tag_nonneg:
  assumes t: "fdt_next_tag m fdt off = (tag, nxt)" "tag \<noteq> FDT_END"
    and off: "off < 2147483648" and pl: "placed m fdt"
  shows "0 \<le> nxt \<and> nxt mod 4 = 0"
proof -
  from t obtain tagp r p
    where tagp: "fdt_offset_ptr m fdt off 4 = Some tagp"
      and r: "next_tag_switch m fdt (fdt32_ld m tagp) (s32 (off + 4)) = Some r"
      and p: "fdt_offset_ptr m fdt off (u32 (r - off)) = Some p"
      and nxt: "nxt = s32 (FDT_TAGALIGN r)"
    by (auto simp: fdt_next_tag_def Let_def split: option.splits)
  have off0: "0 \<le> off" "fdt_off_dt_struct m fdt + off + 4 \<le> fdt_totalsize m fdt"
    using fdt_offset_ptr_bounds [OF tagp off] by simp_all
  have small: "off + 4 < 2147483648" using off0 pl by (auto simp: placed_def)
  have "off + 4 \<le> r \<and> r < 2147483648 \<or> - 2147483648 \<le> r \<and> r < - 2147483600"
    using next_tag_switch_range [OF r] off0 small by (auto simp: s32_id)
  moreover have le: "fdt_off_dt_struct m fdt + off + u32 (r - off) \<le> fdt_totalsize m fdt"
    using fdt_offset_ptr_bounds [OF p off] by simp
  moreover have "u32 (r - off) = r - off + 4294967296" if "- 2147483648 \<le> r" "r < - 2147483600"
    using that off0 off by (intro u32_neg) auto
  ultimately have r0: "off + 4 \<le> r" "r < 2147483648"
    using pl off0 unfolding placed_def by auto
  then have "u32 (r - off) = r - off" using off0 by (intro u32_id) auto
  then have "r < 2147483643" using le pl unfolding placed_def by auto
  then have "nxt = FDT_TAGALIGN r"
    using nxt r0 off0 FDT_TAGALIGN_bounds [of r] by (simp add: s32_id)
  then show ?thesis using r0 off0 FDT_TAGALIGN_bounds [of r] by auto
qed

lemma tokens_unfold:
  "fdt_next_tag m fdt off = (tag, nxt) \<Longrightarrow>
   tokens m fdt off = (if tag = FDT_END then [(tag, off, nxt)] else (tag, off, nxt) # tokens m fdt nxt)"
  by (simp add: tokens.simps [of m fdt off])

text \<open>The step of \<open>subnode_loop\<close> after \<open>fdt_next_node\<close>, over the tokens.\<close>

lemma subnode_loop_tokens:
  assumes pl: "placed m fdt"
  shows "off < 2147483648 \<Longrightarrow> 0 \<le> off \<Longrightarrow> off mod 4 = 0 \<Longrightarrow>
    (case fdt_next_node_loop m fdt off (Some (int d)) of
       (o', d') \<Rightarrow> subnode_loop m fdt name o' (the d'))
    = first_or (\<lambda>c. fdt_nodename_eq_i m fdt c name) (children d (tokens m fdt off))
        (no_child d (tokens m fdt off))"
proof (induction "walk_left off" arbitrary: off d rule: less_induct)
  case less
  obtain tag nxt where t: "fdt_next_tag m fdt off = (tag, nxt)" by fastforce
  note tok = tokens_unfold [OF t]
  show ?case
  proof (cases "tag = FDT_END")
    case True
    have "nxt < 0 \<Longrightarrow> subnode_loop m fdt name nxt (int d) = nxt"
      by (simp add: subnode_loop.simps [of m fdt name nxt])
    then show ?thesis using True tok
      by (simp add: fdt_next_node_loop.simps [of m fdt off] t subnode_loop.simps [of m fdt name "-1"])
  next
    case False
    have nn: "0 \<le> nxt" "nxt mod 4 = 0" "nxt < 2147483648"
      using fdt_next_tag_nonneg [OF t False less.prems(1) pl] fdt_next_tag_lt [OF t] by simp_all
    have IH: "(case fdt_next_node_loop m fdt nxt (Some (int d)) of
       (o', d') \<Rightarrow> subnode_loop m fdt name o' (the d'))
    = first_or (\<lambda>c. fdt_nodename_eq_i m fdt c name) (children d (tokens m fdt nxt))
        (no_child d (tokens m fdt nxt))" for d
      by (rule less.hyps) (use nn fdt_next_tag_progress [OF t False] in auto)
    consider "tag = FDT_PROP \<or> tag = FDT_NOP" | "tag = FDT_BEGIN_NODE" | "tag = FDT_END_NODE"
      using fdt_next_tag_tag [OF t] False by blast
    then show ?thesis
    proof cases
      case 1
      then show ?thesis using IH [of d] tok
        by (auto simp: fdt_next_node_loop.simps [of m fdt off] t)
    next
      case 3
      then show ?thesis
        using IH [of "d - 1"] tok
        by (cases d) (simp_all add: fdt_next_node_loop.simps [of m fdt off] t
                        subnode_loop.simps [of m fdt name nxt])
    next
      case 2
      have chk: "fdt_check_node_offset_i m fdt off = nxt"
        using 2 less.prems by (simp add: fdt_check_node_offset_i_def t)
      have nn': "fdt_next_node m fdt off (Some (int d + 1)) = fdt_next_node_loop m fdt nxt (Some (int (Suc d)))"
        using less.prems nn by (simp add: fdt_next_node_def chk Let_def add.commute)
      obtain o' d' where l: "fdt_next_node_loop m fdt nxt (Some (int (Suc d))) = (o', d')" by fastforce
      moreover from this obtain d'' where "d' = Some d''"
        using fdt_next_node_loop_depth [OF l] by auto
      ultimately show ?thesis
        using 2 tok IH [of "Suc d"] less.prems(2)
        by (simp add: fdt_next_node_loop.simps [of m fdt off] t nn'
              subnode_loop.simps [of m fdt name off])
    qed
  qed
qed


lemma fdt_subnode_offset_tokens:
  assumes "placed m fdt" "0 \<le> fdt_ro_probe_i m fdt" "parent < 2147483648"
    and body: "fdt_check_node_offset_i m fdt parent = body" "0 \<le> body"
  shows "fdt_subnode_offset_namelen m fdt parent name =
    first_or (\<lambda>c. fdt_nodename_eq_i m fdt c name) (children 0 (tokens m fdt body))
      (no_child 0 (tokens m fdt body))"
proof -
  have t: "fdt_next_tag m fdt parent = (FDT_BEGIN_NODE, body)" "0 \<le> parent"
    using fdt_check_node_offsetD [of m fdt parent] body by simp_all
  have nn: "0 \<le> body" "body mod 4 = 0" "body < 2147483648"
    using fdt_next_tag_nonneg [OF t(1) _ assms(3,1)] fdt_next_tag_lt [OF t(1)] by simp_all
  have "fdt_next_node m fdt parent (Some 0) = fdt_next_node_loop m fdt body (Some (int 0))"
    using t(2) body by (simp add: fdt_next_node_def Let_def)
  moreover obtain o' d' where l: "fdt_next_node_loop m fdt body (Some (int 0)) = (o', d')" by fastforce
  moreover from this obtain d'' where "d' = Some d''" using fdt_next_node_loop_depth [OF l] by auto
  ultimately show ?thesis
    using subnode_loop_tokens [OF assms(1) nn(3,1,2), of name 0] t(2) assms(2)
    by (simp add: fdt_subnode_offset_namelen_def subnode_loop.simps [of m fdt name parent])
qed

text \<open>The name of the property at an offset.\<close>

definition prop_named :: "mem \<Rightarrow> addr \<Rightarrow> byte list \<Rightarrow> int \<Rightarrow> bool" where
  "prop_named m fdt name off \<longleftrightarrow>
     fdt_string_eq_i m fdt (s32 (fdt32_ld m (fdt_offset_ptr_i m fdt off + 8))) name"

lemma get_property_loop_tokens:
  assumes pl: "placed m fdt"
  shows "off < 2147483648 \<Longrightarrow> 0 \<le> off \<Longrightarrow> off mod 4 = 0 \<Longrightarrow>
    (case get_property_loop m fdt (nextprop_i m fdt off) name of
       (pr, len, poff) \<Rightarrow>
         (case List.find (prop_named m fdt name) (node_props (tokens m fdt off)) of
            Some p \<Rightarrow> pr = Some (fdt_offset_ptr_i m fdt p) \<and> poff = p
              \<and> len = fdt32_ld m (fdt_offset_ptr_i m fdt p + 4)
          | None \<Rightarrow> pr = None \<and> len < 0))"
proof (induction "walk_left off" arbitrary: off rule: less_induct)
  case less
  obtain tag nxt where t: "fdt_next_tag m fdt off = (tag, nxt)" by fastforce
  note tok = tokens_unfold [OF t]
  show ?case
  proof (cases "tag = FDT_NOP \<or> tag = FDT_PROP")
    case False
    then have "nextprop_i m fdt off < 0" "node_props (tokens m fdt off) = []"
      using tok by (auto simp: nextprop_i.simps [of m fdt off] t)
    then show ?thesis by (simp add: get_property_loop.simps [of m fdt "nextprop_i m fdt off"])
  next
    case True
    then have ne: "tag \<noteq> FDT_END" by auto
    have nn: "0 \<le> nxt" "nxt mod 4 = 0" "nxt < 2147483648"
      using fdt_next_tag_nonneg [OF t ne less.prems(1) pl] fdt_next_tag_lt [OF t] by simp_all
    have IH: "(case get_property_loop m fdt (nextprop_i m fdt nxt) name of
       (pr, len, poff) \<Rightarrow>
         (case List.find (prop_named m fdt name) (node_props (tokens m fdt nxt)) of
            Some p \<Rightarrow> pr = Some (fdt_offset_ptr_i m fdt p) \<and> poff = p
              \<and> len = fdt32_ld m (fdt_offset_ptr_i m fdt p + 4)
          | None \<Rightarrow> pr = None \<and> len < 0))"
      by (rule less.hyps) (use nn fdt_next_tag_progress [OF t ne] in auto)
    show ?thesis
    proof (cases "tag = FDT_NOP")
      case True
      then show ?thesis using IH tok by (simp add: nextprop_i.simps [of m fdt off] t)
    next
      case False
      then have pt: "tag = FDT_PROP" using True by simp
      have chk: "fdt_check_prop_offset_i m fdt off = nxt"
        using less.prems pt by (simp add: fdt_check_prop_offset_i_def t)
      have np: "nextprop_i m fdt off = off" "fdt_next_property_offset m fdt off = nextprop_i m fdt nxt"
        using pt nn by (simp_all add: nextprop_i.simps [of m fdt off] t fdt_next_property_offset_def chk)
      obtain pr len where g: "fdt_get_property_by_offset_i m fdt off = (Some pr, len)"
        using nn by (auto simp: fdt_get_property_by_offset_i_def chk Let_def)
      note gs = fdt_get_property_by_offset_Some [OF g less.prems(1)]
      have "node_props (tokens m fdt off) = off # node_props (tokens m fdt nxt)"
        using pt tok by simp
      then show ?thesis
        using IH less.prems(2) gs(1,4)
        by (simp add: np get_property_loop.simps [of m fdt off] g prop_named_def)
    qed
  qed
qed

lemma fdt_get_property_tokens:
  assumes "placed m fdt" "node < 2147483648"
    and body: "fdt_check_node_offset_i m fdt node = body" "0 \<le> body"
  shows "case fdt_get_property_namelen_i m fdt node name of
     (pr, len, poff) \<Rightarrow>
       (case List.find (prop_named m fdt name) (node_props (tokens m fdt body)) of
          Some p \<Rightarrow> pr = Some (fdt_offset_ptr_i m fdt p) \<and> poff = p
            \<and> len = fdt32_ld m (fdt_offset_ptr_i m fdt p + 4)
        | None \<Rightarrow> pr = None \<and> len < 0)"
proof -
  have t: "fdt_next_tag m fdt node = (FDT_BEGIN_NODE, body)" "0 \<le> node"
    using fdt_check_node_offsetD [of m fdt node] body by simp_all
  have nn: "0 \<le> body" "body mod 4 = 0" "body < 2147483648"
    using fdt_next_tag_nonneg [OF t(1) _ assms(2,1)] fdt_next_tag_lt [OF t(1)] by simp_all
  show ?thesis
    using get_property_loop_tokens [OF assms(1) nn(3,1,2), of name] body
    by (simp add: fdt_get_property_namelen_i_def fdt_first_property_offset_def)
qed

text \<open>
  What \<open>fdt_getprop\<close> returns for a tree of version 16 or later: the \<open>len\<close> bytes behind the
  property header of the first property of the node with that name.
\<close>

lemma fdt_getprop_tokens:
  assumes "placed m fdt" "node < 2147483648" "16 \<le> fdt_version m fdt"
    and body: "fdt_check_node_offset_i m fdt node = body" "0 \<le> body"
  shows "case fdt_getprop m fdt node name of
     (v, len) \<Rightarrow>
       (case List.find (prop_named m fdt name) (node_props (tokens m fdt body)) of
          Some p \<Rightarrow> v = Some (fdt_offset_ptr_i m fdt p + 12)
            \<and> len = fdt32_ld m (fdt_offset_ptr_i m fdt p + 4)
        | None \<Rightarrow> v = None \<and> len < 0)"
proof (cases "fdt_get_property_namelen_i m fdt node name")
  case (fields pr len poff)
  then show ?thesis
    using fdt_get_property_tokens [OF assms(1,2) body, of name] assms(3)
    by (auto simp: fdt_getprop_def fdt_getprop_namelen_def prop_value_def split: option.splits)
qed

text \<open>Where a value returned by \<open>fdt_getprop\<close> lies.\<close>

lemma fdt_getprop_Some:
  assumes "fdt_getprop m fdt node name = (Some v, len)" "16 \<le> fdt_version m fdt"
  obtains p where "0 \<le> p" "p < 2147483648" "fdt_next_tag m fdt p = (FDT_PROP, FDT_TAGALIGN (p + 12 + len))"
    "prop_named m fdt name p" "v = fdt_offset_ptr_i m fdt p + 12"
    "len = fdt32_ld m (fdt_offset_ptr_i m fdt p + 4)" "0 \<le> len" "len < INT_MAX"
    "fdt + 12 \<le> v" "v + len \<le> fdt + fdt_totalsize m fdt"
    "fdt_get_property_namelen_i m fdt node name = (Some (fdt_offset_ptr_i m fdt p), len, p)"
proof -
  obtain pr poff where n: "fdt_get_property_namelen_i m fdt node name = (Some pr, len, poff)"
    "v = prop_value m fdt pr poff"
    using assms(1) by (auto simp: fdt_getprop_def fdt_getprop_namelen_def split: option.splits prod.splits)
  then have g: "0 \<le> poff" "poff < 2147483648" "fdt_get_property_by_offset_i m fdt poff = (Some pr, len)"
    "fdt_string_eq_i m fdt (s32 (fdt32_ld m (pr + 8))) name"
    using get_property_loop_Some [OF _ fdt_property_offset_lt(1)]
    unfolding fdt_get_property_namelen_i_def by blast+
  note gs = fdt_get_property_by_offset_Some [OF g(3,2)]
  from gs(3) obtain nxt where nxt: "0 \<le> nxt" "fdt_next_tag m fdt poff = (FDT_PROP, nxt)" by blast
  have "nxt = FDT_TAGALIGN (poff + 12 + len)"
    using fdt_next_tag_prop(7) [OF nxt(2,1) g(2) assms(2)] gs(1,4) by simp
  then show ?thesis
    using that [of poff] n g gs nxt assms(2) by (simp add: prop_value_def prop_named_def)
qed

end
