(* ===== verification/Fdt_Layout.thy ===== *)
theory Fdt_Layout
  imports Fdt_Tokens Fdt_Rw
begin

text \<open>
  The layout of a tree that the writers of \<open>fdt_rw.c\<close> accept, with no wrap-around hidden in it:
  header, reservations, structure block and string block in this order, within \<open>totalsize\<close>. What a
  walk to a property reads of such a tree, and from this the round trip of
  \<open>fdt_setprop_inplace\<close> and \<open>fdt_getprop\<close>.
\<close>

section \<open>The layout of a tree that can be edited\<close>

definition layout :: "mem \<Rightarrow> addr \<Rightarrow> bool" where
  "layout m fdt \<longleftrightarrow>
     fdt AND 7 = 0 \<and> fdt_magic m fdt = FDT_MAGIC \<and> fdt_version m fdt = 17
     \<and> fdt_last_comp_version m fdt \<le> 17 \<and> fdt_totalsize m fdt < INT_MAX
     \<and> SIZEOF_HEADER \<le> fdt_off_mem_rsvmap m fdt
     \<and> fdt_off_mem_rsvmap m fdt + SIZEOF_RESERVE_ENTRY \<le> fdt_off_dt_struct m fdt
     \<and> fdt_off_dt_struct m fdt + fdt_size_dt_struct m fdt \<le> fdt_off_dt_strings m fdt
     \<and> fdt_off_dt_strings m fdt + fdt_size_dt_strings m fdt \<le> fdt_totalsize m fdt"

lemma layout_placed: "layout m fdt \<Longrightarrow> placed m fdt"
  by (auto simp: layout_def placed_def)

lemma layout_probe: "layout m fdt \<Longrightarrow> fdt_ro_probe_i m fdt = fdt_totalsize m fdt"
  by (auto simp: layout_def fdt_ro_probe_i_def Let_def)

lemma layout_lin:
  assumes "layout m fdt"
  shows "40 \<le> fdt_off_mem_rsvmap m fdt" "fdt_off_mem_rsvmap m fdt + 16 \<le> fdt_off_dt_struct m fdt"
    "fdt_off_dt_struct m fdt + fdt_size_dt_struct m fdt \<le> fdt_off_dt_strings m fdt"
    "fdt_off_dt_strings m fdt + fdt_size_dt_strings m fdt \<le> fdt_totalsize m fdt"
    "fdt_totalsize m fdt < 2147483647" "0 \<le> fdt_size_dt_struct m fdt" "0 \<le> fdt_size_dt_strings m fdt"
    "56 \<le> fdt_off_dt_struct m fdt" "56 \<le> fdt_off_dt_strings m fdt" "56 \<le> fdt_totalsize m fdt"
    "56 \<le> fdt_off_dt_strings m fdt + fdt_size_dt_strings m fdt"
proof -
  have "0 \<le> fdt_size_dt_struct m fdt" "0 \<le> fdt_size_dt_strings m fdt" by simp_all
  then show "40 \<le> fdt_off_mem_rsvmap m fdt" "fdt_off_mem_rsvmap m fdt + 16 \<le> fdt_off_dt_struct m fdt"
    "fdt_off_dt_struct m fdt + fdt_size_dt_struct m fdt \<le> fdt_off_dt_strings m fdt"
    "fdt_off_dt_strings m fdt + fdt_size_dt_strings m fdt \<le> fdt_totalsize m fdt"
    "fdt_totalsize m fdt < 2147483647" "0 \<le> fdt_size_dt_struct m fdt" "0 \<le> fdt_size_dt_strings m fdt"
    "56 \<le> fdt_off_dt_struct m fdt" "56 \<le> fdt_off_dt_strings m fdt" "56 \<le> fdt_totalsize m fdt"
    "56 \<le> fdt_off_dt_strings m fdt + fdt_size_dt_strings m fdt"
    using assms unfolding layout_def by linarith+
qed

lemma layout_wrap:
  assumes "layout m fdt"
  shows "u32 (fdt_off_mem_rsvmap m fdt + 16) = fdt_off_mem_rsvmap m fdt + 16"
    "s32 (fdt_size_dt_struct m fdt) = fdt_size_dt_struct m fdt"
    "s32 (fdt_size_dt_strings m fdt) = fdt_size_dt_strings m fdt"
    "u32 (fdt_off_dt_struct m fdt + fdt_size_dt_struct m fdt)
      = fdt_off_dt_struct m fdt + fdt_size_dt_struct m fdt"
    "u32 (fdt_off_dt_strings m fdt + fdt_size_dt_strings m fdt)
      = fdt_off_dt_strings m fdt + fdt_size_dt_strings m fdt"
  using layout_lin [OF assms] by (intro u32_id s32_id; linarith)+

lemma layout_hdr:
  "layout m fdt \<Longrightarrow> agree fdt (fdt + SIZEOF_HEADER) m m' \<Longrightarrow> layout m' fdt"
  unfolding layout_def by (simp only: fdt_hdr_agree [of fdt m m'])

lemma align_lemmas: "FDT_ALIGN 40 8 = 40" "FDT_ALIGN 40 16 = 48"
  by (simp_all add: FDT_ALIGN_def)

lemma layout_rw_probe: "layout m fdt \<Longrightarrow> fdt_rw_probe_i m fdt = (0, m)"
proof -
  assume l: "layout m fdt"
  from l have "\<not> fdt_blocks_misordered_i m fdt 16 (s32 (fdt_size_dt_struct m fdt))"
    using layout_lin [OF l] by (simp add: fdt_blocks_misordered_i_def align_lemmas layout_wrap)
  then show ?thesis
    using l layout_lin [OF l] by (simp add: fdt_rw_probe_i_def layout_probe not_less) (simp add: layout_def)
qed

text \<open>Within the structure block, as \<open>fdt_offset_ptr\<close> checks it from version 17 on.\<close>

lemma fdt_offset_ptr_struct:
  assumes "fdt_offset_ptr m fdt off len = Some p" "off < 2147483648" "0 \<le> len" "len < 4294967296"
    "17 \<le> fdt_version m fdt"
  shows "off + len \<le> fdt_size_dt_struct m fdt"
proof -
  have off: "0 \<le> off" using fdt_offset_ptr_SomeD [OF assms(1)] by simp
  then have "off \<le> u32 (off + len)" "u32 (off + len) \<le> fdt_size_dt_struct m fdt"
    using assms by (auto simp: fdt_offset_ptr_def Let_def u32_id split: if_splits)
  then show ?thesis using u32_add_nowrap [of off len] off assms by simp
qed

section \<open>What the walk to a property reads\<close>

lemma fdt_offset_ptr_hdr:
  assumes "agree fdt (fdt + SIZEOF_HEADER) m m'"
  shows "fdt_offset_ptr m' fdt off len = fdt_offset_ptr m fdt off len"
  unfolding fdt_offset_ptr_def fdt_offset_ptr_i_def fdt_hdr_agree [OF assms] ..

lemma skip_name_local:
  "skip_name m fdt off = Some r \<Longrightarrow> 0 \<le> r \<Longrightarrow> off < 2147483648 \<Longrightarrow> agree fdt (fdt + SIZEOF_HEADER) m m' \<Longrightarrow>
   agree (fdt + fdt_off_dt_struct m fdt + off) (fdt + fdt_off_dt_struct m fdt + r) m m' \<Longrightarrow>
   skip_name m' fdt off = Some r"
proof (induction m fdt off rule: skip_name.induct)
  case (1 m fdt off)
  obtain e where e: "off \<le> e" "r = e + 1"
    using skip_name_nul [OF "1.prems"(1,2,3)] by blast
  obtain p where p: "fdt_offset_ptr m fdt off 1 = Some p"
    using "1.prems"(1) by (auto simp: skip_name.simps [of m fdt off] split: option.splits)
  then have off: "0 \<le> off" "p = fdt + fdt_off_dt_struct m fdt + off"
    by (auto dest: fdt_offset_ptr_SomeD)
  have p': "fdt_offset_ptr m' fdt off 1 = Some p"
    using p fdt_offset_ptr_hdr [OF "1.prems"(4)] by simp
  have b: "m' p = m p" using "1.prems"(5) e off(2) by (simp add: agree_def)
  show ?case
  proof (cases "m p = 0")
    case True
    then show ?thesis using "1.prems"(1) p p' b
      by (simp add: skip_name.simps [of m fdt off] skip_name.simps [of m' fdt off])
  next
    case False
    then have rec: "skip_name m fdt (s32 (off + 1)) = Some r"
      using "1.prems"(1) p by (simp add: skip_name.simps [of m fdt off])
    then have "0 \<le> s32 (off + 1)"
      by (auto simp: skip_name.simps [of m fdt] split: option.splits dest: fdt_offset_ptr_SomeD)
    then have s: "s32 (off + 1) = off + 1"
      using s32_Suc_cases [of off 1] off "1.prems"(3) by auto
    have "skip_name m' fdt (s32 (off + 1)) = Some r"
      by (rule "1.IH" [OF p False rec "1.prems"(2) s32_bounds(2) "1.prems"(4)])
         (use "1.prems"(5) s in \<open>auto simp: agree_def\<close>)
    then show ?thesis using p' b False by (simp add: skip_name.simps [of m' fdt off])
  qed
qed

lemma fdt_next_tag_local:
  assumes t: "fdt_next_tag m fdt off = (tag, nxt)" "tag \<noteq> FDT_END" "0 \<le> nxt" "off < 2147483648"
    and hdr: "agree fdt (fdt + SIZEOF_HEADER) m m'"
    and st: "agree (fdt + fdt_off_dt_struct m fdt + off)
      (fdt + fdt_off_dt_struct m fdt + (if tag = FDT_PROP then off + 12 else nxt)) m m'"
  shows "fdt_next_tag m' fdt off = (tag, nxt)"
proof -
  obtain tagp r where i: "fdt_offset_ptr m fdt off 4 = Some tagp" "tag = fdt32_ld m tagp"
    "next_tag_switch m fdt tag (off + 4) = Some r" "nxt = FDT_TAGALIGN r"
    "0 \<le> off" "off + 4 \<le> r" "fdt_off_dt_struct m fdt + r \<le> fdt_totalsize m fdt"
    "off + 4 < 2147483648"
    by (rule fdt_next_tag_item [OF t]) auto
  have r: "r \<le> nxt" "r < 2147483648"
    using i(4) FDT_TAGALIGN_bounds [of r] fdt_next_tag_lt [OF t(1)] by simp_all
  have tagp: "tagp = fdt + fdt_off_dt_struct m fdt + off" using fdt_offset_ptr_SomeD [OF i(1)] by simp
  have ld: "fdt32_ld m' tagp = tag"
    using fdt32_ld_agree [OF st, of tagp] i tagp r by auto
  have sw: "next_tag_switch m' fdt tag (off + 4) = Some r"
  proof (cases "tag = FDT_PROP")
    case True
    obtain lenp where l: "fdt_offset_ptr m fdt (off + 4) 4 = Some lenp"
      by (rule next_tag_switch_prop [OF i(3) [unfolded True]]) (use i in auto)
    then have "lenp = fdt + fdt_off_dt_struct m fdt + (off + 4)" by (auto dest: fdt_offset_ptr_SomeD)
    then have "fdt32_ld m' lenp = fdt32_ld m lenp"
      using fdt32_ld_agree [OF st, of lenp] True by simp
    then show ?thesis
      using i(3) True l by (simp add: next_tag_switch_def fdt_offset_ptr_hdr [OF hdr] fdt_hdr_agree(6) [OF hdr]
          cong: if_cong)
  next
    case False
    have "agree (fdt + fdt_off_dt_struct m fdt + (off + 4)) (fdt + fdt_off_dt_struct m fdt + r) m m'"
      by (rule agree_subset [OF st]) (use False r in auto)
    then have "tag = FDT_BEGIN_NODE \<Longrightarrow> ?thesis"
      using i skip_name_local [of m fdt "off + 4" r m'] hdr by (simp add: next_tag_switch_def)
    then show ?thesis using i(3) False by (auto simp: next_tag_switch_def split: if_splits)
  qed
  have "fdt_offset_ptr m fdt off (u32 (r - off)) \<noteq> None"
    using t(1,2) i(1,2,3,5,8) by (auto simp: fdt_next_tag_def Let_def s32_id split: option.splits)
  then show ?thesis
    using i ld sw r t(3) fdt_next_tag_lt [OF t(1)]
    by (auto simp: fdt_next_tag_def fdt_offset_ptr_hdr [OF hdr] Let_def s32_id)
qed

lemma nextprop_ge:
  assumes pl: "placed m fdt"
  shows "off < 2147483648 \<Longrightarrow> nextprop_i m fdt off = p \<Longrightarrow> 0 \<le> p \<Longrightarrow> off \<le> p"
proof (induction "walk_left off" arbitrary: off rule: less_induct)
  case less
  obtain tag nxt where t: "fdt_next_tag m fdt off = (tag, nxt)" by fastforce
  show ?case
  proof (cases "tag = FDT_NOP")
    case True
    then have ne: "tag \<noteq> FDT_END" by simp
    have nn: "0 \<le> nxt" "nxt < 2147483648"
      using fdt_next_tag_nonneg [OF t ne less.prems(1) pl] fdt_next_tag_lt [OF t] by simp_all
    have "nxt \<le> p"
      using less.hyps [OF fdt_next_tag_progress [OF t ne] nn(2)] less.prems True
      by (simp add: nextprop_i.simps [of m fdt off] t)
    then show ?thesis using fdt_next_tag_range(2) [OF t ne less.prems(1)] nn by simp
  next
    case False
    then show ?thesis using less.prems
      by (auto simp: nextprop_i.simps [of m fdt off] t split: if_splits)
  qed
qed

lemma nextprop_local:
  assumes pl: "placed m fdt" and hdr: "agree fdt (fdt + SIZEOF_HEADER) m m'" and "p \<le> q"
    and st: "agree (fdt + fdt_off_dt_struct m fdt) (fdt + fdt_off_dt_struct m fdt + q + 12) m m'"
  shows "off < 2147483648 \<Longrightarrow> 0 \<le> off \<Longrightarrow> nextprop_i m fdt off = p \<Longrightarrow> 0 \<le> p \<Longrightarrow> nextprop_i m' fdt off = p"
proof (induction "walk_left off" arbitrary: off rule: less_induct)
  case less
  obtain tag nxt where t: "fdt_next_tag m fdt off = (tag, nxt)" by fastforce
  have tag: "tag = FDT_NOP \<or> tag = FDT_PROP"
    using less.prems(3,4) by (auto simp: nextprop_i.simps [of m fdt off] t split: if_splits)
  then have ne: "tag \<noteq> FDT_END" by auto
  have nn: "0 \<le> nxt" "nxt < 2147483648"
    using fdt_next_tag_nonneg [OF t ne less.prems(1) pl] fdt_next_tag_lt [OF t] by simp_all
  show ?case
  proof (cases "tag = FDT_NOP")
    case True
    then have np: "nextprop_i m fdt nxt = p"
      using less.prems by (simp add: nextprop_i.simps [of m fdt off] t)
    have "nxt \<le> p" by (rule nextprop_ge [OF pl nn(2) np less.prems(4)])
    then have "fdt_next_tag m' fdt off = (tag, nxt)"
      using True \<open>p \<le> q\<close> less.prems(2)
      by (intro fdt_next_tag_local [OF t ne nn(1) less.prems(1) hdr] agree_subset [OF st]) auto
    then show ?thesis
      using True less.hyps [OF fdt_next_tag_progress [OF t ne] nn(2,1) np less.prems(4)]
      by (simp add: nextprop_i.simps [of m' fdt off])
  next
    case False
    then have "tag = FDT_PROP" "p = off"
      using tag less.prems by (auto simp: nextprop_i.simps [of m fdt off] t)
    then have "fdt_next_tag m' fdt off = (tag, nxt)"
      using \<open>p \<le> q\<close> less.prems(2)
      by (intro fdt_next_tag_local [OF t ne nn(1) less.prems(1) hdr] agree_subset [OF st]) auto
    then show ?thesis using \<open>tag = FDT_PROP\<close> \<open>p = off\<close> by (simp add: nextprop_i.simps [of m' fdt off])
  qed
qed

lemma fdt_get_string_block:
  assumes lay: "layout m fdt" and g: "fdt_get_string m fdt off = (Some s, len)" and off: "off < 2147483648"
  shows "fdt + fdt_off_dt_strings m fdt \<le> s" "0 \<le> len"
    "s + len < fdt + fdt_off_dt_strings m fdt + fdt_size_dt_strings m fdt"
    "0 \<le> off" "s = fdt + fdt_off_dt_strings m fdt + off"
proof -
  have v: "fdt_magic m fdt = FDT_MAGIC" "fdt_version m fdt = 17" "fdt_ro_probe_i m fdt = fdt_totalsize m fdt"
    using lay layout_probe [OF lay] by (simp_all add: layout_def)
  have o: "0 \<le> off" "off < fdt_size_dt_strings m fdt"
    and at: "\<exists>l \<le> u32 (fdt_size_dt_strings m fdt - off).
      string_at m (fdt + u32 (off + fdt_off_dt_strings m fdt)) l = (Some s, len)"
    using g v off unfolding fdt_get_string_def Let_def by (auto simp: u32_id not_less split: if_splits)
  have u: "u32 (fdt_size_dt_strings m fdt - off) = fdt_size_dt_strings m fdt - off"
    "u32 (off + fdt_off_dt_strings m fdt) = off + fdt_off_dt_strings m fdt"
    using o off layout_lin [OF lay] by (intro u32_id; linarith)+
  from at obtain l n where l: "l \<le> fdt_size_dt_strings m fdt - off" "s = fdt + (off + fdt_off_dt_strings m fdt)"
    "memchr m s 0 (nat l) = Some n" "len = s32 (n - s)"
    unfolding u by (auto simp: string_at_def split: option.splits)
  then have n: "s \<le> n" "n < s + int (nat l)"
    unfolding memchr_search memchr_bytes_Some by auto
  moreover have "int (nat l) \<le> fdt_size_dt_strings m fdt - off" using l(1) o by (cases "0 \<le> l") auto
  ultimately have ns: "0 \<le> n - s" "n - s < fdt_size_dt_strings m fdt - off" by linarith+
  moreover have "fdt_size_dt_strings m fdt < 2147483648" using layout_lin [OF lay] by linarith
  ultimately have "len = n - s" using l(4) o by (simp add: s32_id)
  with ns l(2) o show "fdt + fdt_off_dt_strings m fdt \<le> s" "0 \<le> len"
    "s + len < fdt + fdt_off_dt_strings m fdt + fdt_size_dt_strings m fdt"
    "0 \<le> off" "s = fdt + fdt_off_dt_strings m fdt + off" by simp_all
qed

lemma fdt_get_string_layout:
  assumes lay: "layout m fdt" and hdr: "agree fdt (fdt + SIZEOF_HEADER) m m'"
    and str: "agree (fdt + fdt_off_dt_strings m fdt)
      (fdt + fdt_off_dt_strings m fdt + fdt_size_dt_strings m fdt) m m'"
    and off: "off < 2147483648"
  shows "fdt_get_string m' fdt off = fdt_get_string m fdt off"
    "fdt_string_eq_i m' fdt off s = fdt_string_eq_i m fdt off s"
proof -
  have probe: "fdt_ro_probe_i m' fdt = fdt_ro_probe_i m fdt" "fdt_ro_probe_i m fdt = fdt_totalsize m fdt"
    using layout_probe [OF lay] layout_probe [OF layout_hdr [OF lay hdr]] fdt_hdr_agree(2) [OF hdr]
    by simp_all
  have v: "fdt_magic m fdt = FDT_MAGIC" "fdt_version m fdt = 17"
    using lay by (simp_all add: layout_def)
  have str_at: "string_at m' (fdt + u32 (off + fdt_off_dt_strings m fdt)) len
      = string_at m (fdt + u32 (off + fdt_off_dt_strings m fdt)) len"
    if "0 \<le> off" "len \<le> u32 (fdt_size_dt_strings m fdt - off)" "off < fdt_size_dt_strings m fdt" for len
  proof -
    have "u32 (fdt_size_dt_strings m fdt - off) = fdt_size_dt_strings m fdt - off"
      "u32 (off + fdt_off_dt_strings m fdt) = off + fdt_off_dt_strings m fdt"
      using that off layout_lin [OF lay] by (intro u32_id; linarith)+
    with that show ?thesis
      unfolding string_at_def
      by (subst memchr_same [of _ _ m' m]) (use str in \<open>auto simp: agree_def split: if_splits\<close>)
  qed
  show *: "fdt_get_string m' fdt off = fdt_get_string m fdt off"
  proof (cases "0 \<le> off \<and> off < fdt_size_dt_strings m fdt")
    case True
    then have "u32 off = off" using off by (intro u32_id) auto
    then show ?thesis
      using str_at True v
      unfolding fdt_get_string_def Let_def probe fdt_hdr_agree [OF hdr, symmetric]
      by (auto simp: probe)
  next
    case False
    then have "off < 0 \<or> u32 off = off" using off by (auto intro: u32_id)
    then show ?thesis
      using False v
      unfolding fdt_get_string_def Let_def probe fdt_hdr_agree [OF hdr, symmetric]
      by (auto simp: probe)
  qed
  show "fdt_string_eq_i m' fdt off s = fdt_string_eq_i m fdt off s"
  proof (cases "fdt_get_string m fdt off")
    case (Pair p len)
    have "mem_eq m' q s = mem_eq m q s" if "p = Some q" "len = int (length s)" for q
      using fdt_get_string_block [OF lay Pair [unfolded that(1)] off] that(2) str
      by (intro mem_eq_same) (auto simp: agree_def)
    then show ?thesis by (auto simp: fdt_string_eq_i_def * Pair split: option.splits)
  qed
qed


lemma get_property_loop_local:
  assumes lay: "layout m fdt" and hdr: "agree fdt (fdt + SIZEOF_HEADER) m m'"
    and str: "agree (fdt + fdt_off_dt_strings m fdt)
      (fdt + fdt_off_dt_strings m fdt + fdt_size_dt_strings m fdt) m m'"
    and st: "agree (fdt + fdt_off_dt_struct m fdt) (fdt + fdt_off_dt_struct m fdt + poff + 12) m m'"
  shows "off < 2147483648 \<Longrightarrow> 0 \<le> off \<Longrightarrow>
    get_property_loop m fdt (nextprop_i m fdt off) name = (Some pr, len, poff) \<Longrightarrow>
    off \<le> poff \<and> get_property_loop m' fdt (nextprop_i m' fdt off) name = (Some pr, len, poff)"
proof (induction "walk_left off" arbitrary: off rule: less_induct)
  case less
  note pl = layout_placed [OF lay]
  define p where "p = nextprop_i m fdt off"
  have p0: "0 \<le> p" using less.prems(3)
    by (auto simp: p_def [symmetric] get_property_loop.simps [of m fdt p] split: if_splits)
  have p1: "p < 2147483648" unfolding p_def by (rule nextprop_lt [OF less.prems(1)])
  have offp: "off \<le> p" using nextprop_ge [OF pl less.prems(1) p_def [symmetric] p0] .
  obtain q l where g: "fdt_get_property_by_offset_i m fdt p = (Some q, l)"
    using less.prems(3) p0
    by (cases "fdt_get_property_by_offset_i m fdt p")
       (auto simp: p_def [symmetric] get_property_loop.simps [of m fdt p] split: option.splits)
  note gs = fdt_get_property_by_offset_Some [OF g p1]
  have c: "0 \<le> fdt_check_prop_offset_i m fdt p"
    using g by (auto simp: fdt_get_property_by_offset_i_def Let_def split: if_splits)
  define nxt where "nxt = fdt_check_prop_offset_i m fdt p"
  have t: "fdt_next_tag m fdt p = (FDT_PROP, nxt)"
    using fdt_check_prop_offsetD [OF c] by (simp add: nxt_def)
  have nn: "0 \<le> nxt" "nxt < 2147483648" "p < nxt"
    using c fdt_next_tag_lt [OF t] fdt_next_tag_range(2) [OF t _ p1] by (auto simp: nxt_def)
  define nm where "nm = fdt_string_eq_i m fdt (s32 (fdt32_ld m (q + 8))) name"
  have loop: "get_property_loop m fdt p name = (if nm then (Some q, l, p)
      else get_property_loop m fdt (nextprop_i m fdt nxt) name)"
    using p0 c by (simp add: get_property_loop.simps [of m fdt p] g nm_def nxt_def
        fdt_next_property_offset_def Let_def)
  have IH: "nxt \<le> poff \<and> get_property_loop m' fdt (nextprop_i m' fdt nxt) name = (Some pr, len, poff)"
    if "\<not> nm"
    using less.hyps [of nxt] that less.prems(3) loop nn offp less.prems(2)
    by (auto simp: p_def [symmetric] walk_left_def)
  have pp: "p \<le> poff" using IH loop less.prems(3) nn by (cases nm) (auto simp: p_def [symmetric])
  have np': "nextprop_i m' fdt off = p"
    using nextprop_local [OF pl hdr pp st less.prems(1,2) p_def [symmetric] p0] .
  have t': "fdt_next_tag m' fdt p = (FDT_PROP, nxt)"
    using pp p0 by (intro fdt_next_tag_local [OF t _ nn(1) p1 hdr] agree_subset [OF st]) auto
  have q: "q = fdt + fdt_off_dt_struct m fdt + p" using gs(1) by (simp add: fdt_offset_ptr_i_def)
  have ld: "fdt32_ld m' (q + 4) = fdt32_ld m (q + 4)" "fdt32_ld m' (q + 8) = fdt32_ld m (q + 8)"
    using fdt32_ld_agree [OF st, of "q + 4"] fdt32_ld_agree [OF st, of "q + 8"] q p0 pp by simp_all
  have c': "fdt_check_prop_offset_i m' fdt p = nxt"
    using c p0 t t' by (auto simp: fdt_check_prop_offset_i_def split: if_splits)
  have g': "fdt_get_property_by_offset_i m' fdt p = (Some q, l)"
  proof -
    have "l = s32 (fdt32_ld m (q + 4))" using g gs(1)
      by (auto simp: fdt_get_property_by_offset_i_def Let_def split: if_splits)
    moreover have "fdt_offset_ptr_i m' fdt p = q"
      by (simp add: fdt_offset_ptr_i_def q fdt_hdr_agree(3) [OF hdr])
    ultimately show ?thesis
      using c' nn ld by (simp add: fdt_get_property_by_offset_i_def Let_def)
  qed
  have "fdt_string_eq_i m' fdt (s32 (fdt32_ld m' (q + 8))) name = nm"
    unfolding nm_def ld by (rule fdt_get_string_layout(2) [OF lay hdr str s32_bounds(2)])
  then have "get_property_loop m' fdt p name = (if nm then (Some q, l, p)
      else get_property_loop m' fdt (nextprop_i m' fdt nxt) name)"
    using p0 nn c' by (simp add: get_property_loop.simps [of m' fdt p] g' fdt_next_property_offset_def Let_def)
  then show ?case
    using np' IH loop less.prems(3) offp pp by (cases nm) (auto simp: p_def [symmetric])
qed


lemma fdt_next_tag_prop_struct:
  assumes t: "fdt_next_tag m fdt off = (FDT_PROP, nxt)" "0 \<le> nxt" "off < 2147483648"
    and v: "17 \<le> fdt_version m fdt"
  shows "off + 12 + fdt32_ld m (fdt_offset_ptr_i m fdt off + 4) \<le> fdt_size_dt_struct m fdt"
proof -
  obtain tagp r where i: "fdt_offset_ptr m fdt off 4 = Some tagp" "FDT_PROP = fdt32_ld m tagp"
    "next_tag_switch m fdt FDT_PROP (off + 4) = Some r" "0 \<le> off" "off + 4 \<le> r"
    "off + 4 < 2147483648" "nxt < 2147483648" "nxt = FDT_TAGALIGN r"
    by (rule fdt_next_tag_item [OF t(1) _ t(2,3)]) auto
  obtain lenp where l: "fdt_offset_ptr m fdt (off + 4) 4 = Some lenp" "r = off + 4 + 8 + fdt32_ld m lenp"
    by (rule next_tag_switch_prop [OF i(3)]) (use i v in auto)
  have "fdt_offset_ptr m fdt off (u32 (r - off)) \<noteq> None"
    using t(1) i(1,2,3,4,6) by (auto simp: fdt_next_tag_def Let_def s32_id split: option.splits)
  moreover have "u32 (r - off) = r - off"
    using i FDT_TAGALIGN_bounds [of r] by (intro u32_id) auto
  ultimately obtain p where "fdt_offset_ptr m fdt off (r - off) = Some p" by auto
  then have "off + (r - off) \<le> fdt_size_dt_struct m fdt"
    using i FDT_TAGALIGN_bounds [of r] t(3) v by (intro fdt_offset_ptr_struct) auto
  moreover have "lenp = fdt_offset_ptr_i m fdt off + 4"
    using fdt_offset_ptr_SomeD [OF l(1)] by (simp add: fdt_offset_ptr_i_def)
  ultimately show ?thesis using l(2) by simp
qed

section \<open>Setting a property in place\<close>

text \<open>
  A value written over the old one is read back by \<open>fdt_getprop\<close> at the same place; nothing but
  the bytes of the value has changed.
\<close>

lemma fdt_setprop_inplace_getprop:
  assumes lay: "layout m fdt" and "node < 2147483648"
    and set: "fdt_setprop_inplace m fdt node name val = (0, m')"
  shows "\<exists>v. fdt_getprop m fdt node name = (Some v, int (length val))
    \<and> fdt_getprop m' fdt node name = (Some v, int (length val))
    \<and> bytes_at m' v (length val) = val \<and> m' = put_bytes m v val \<and> layout m' fdt
    \<and> fdt + SIZEOF_HEADER \<le> v \<and> v + int (length val) \<le> fdt + fdt_totalsize m fdt"
proof -
  note pl = layout_placed [OF lay]
  have ver: "fdt_version m fdt = 17" using lay by (simp add: layout_def)
  obtain v len where gp: "fdt_getprop m fdt node name = (Some v, len)"
  proof (cases "fdt_getprop m fdt node name")
    case (Pair w len)
        then show ?thesis using that set fdt_getprop_None [of m fdt node name len]
      by (cases w) (auto simp: fdt_setprop_inplace_def)
  qed
  have len: "len = int (length val)" "m' = put_bytes m v val"
    using set gp by (auto simp: fdt_setprop_inplace_def fdt_setprop_inplace_namelen_partial_def
        fdt_getprop_def split: if_splits)
  obtain p where p: "0 \<le> p" "p < 2147483648"
    "fdt_next_tag m fdt p = (FDT_PROP, FDT_TAGALIGN (p + 12 + len))"
    "v = fdt_offset_ptr_i m fdt p + 12" "len = fdt32_ld m (fdt_offset_ptr_i m fdt p + 4)"
    "fdt + 12 \<le> v" "v + len \<le> fdt + fdt_totalsize m fdt"
    "fdt_get_property_namelen_i m fdt node name = (Some (fdt_offset_ptr_i m fdt p), len, p)"
    by (rule fdt_getprop_Some [OF gp]) (use ver in auto)
  have v: "v = fdt + fdt_off_dt_struct m fdt + p + 12" using p(4) by (simp add: fdt_offset_ptr_i_def)
  have vlen: "p + 12 + len \<le> fdt_size_dt_struct m fdt"
    using fdt_next_tag_prop_struct [OF p(3) _ p(2)] p(1,5) ver len(1)
      FDT_TAGALIGN_bounds [of "p + 12 + len"] by simp
  note ll = layout_lin [OF lay]
  have hdr: "agree fdt (fdt + SIZEOF_HEADER) m m'"
    and str: "agree (fdt + fdt_off_dt_strings m fdt)
      (fdt + fdt_off_dt_strings m fdt + fdt_size_dt_strings m fdt) m m'"
    and st: "agree (fdt + fdt_off_dt_struct m fdt) (fdt + fdt_off_dt_struct m fdt + p + 12) m m'"
    unfolding len(2) using v vlen ll p(1) len(1) by (auto simp: agree_def put_bytes_outside)
  define body where "body = fdt_check_node_offset_i m fdt node"
  have body: "0 \<le> body"
  proof (rule ccontr)
    assume "\<not> 0 \<le> body"
    then show False using p(8)
      by (simp add: fdt_get_property_namelen_i_def fdt_first_property_offset_def body_def
          get_property_loop.simps)
  qed
  have t: "fdt_next_tag m fdt node = (FDT_BEGIN_NODE, body)" "0 \<le> node"
    using fdt_check_node_offsetD [of m fdt node] body by (simp_all add: body_def)
  have bl: "body < 2147483648" using fdt_next_tag_lt [OF t(1)] .
  have loop: "get_property_loop m fdt (nextprop_i m fdt body) name
      = (Some (fdt_offset_ptr_i m fdt p), len, p)"
    using p(8) body by (simp add: fdt_get_property_namelen_i_def fdt_first_property_offset_def body_def Let_def)
  have loop': "body \<le> p \<and> get_property_loop m' fdt (nextprop_i m' fdt body) name
      = (Some (fdt_offset_ptr_i m fdt p), len, p)"
    by (rule get_property_loop_local [OF lay hdr str st bl body loop])
  have t': "fdt_next_tag m' fdt node = (FDT_BEGIN_NODE, body)"
    using loop' t(2) by (intro fdt_next_tag_local [OF t(1) _ body assms(2) hdr] agree_subset [OF st]) auto
  have "fdt_check_node_offset_i m' fdt node = body"
    using t t' body by (auto simp: fdt_check_node_offset_i_def body_def split: if_splits)
  then have "fdt_get_property_namelen_i m' fdt node name = (Some (fdt_offset_ptr_i m fdt p), len, p)"
    using loop' body by (simp add: fdt_get_property_namelen_i_def fdt_first_property_offset_def Let_def)
  then have "fdt_getprop m' fdt node name = (Some v, len)"
    using ver p(4) by (simp add: fdt_getprop_def fdt_getprop_namelen_def prop_value_def
        fdt_hdr_agree(6) [OF hdr, symmetric])
  moreover have "bytes_at m' v (length val) = val" by (simp add: len(2))
  moreover have "fdt + SIZEOF_HEADER \<le> v" using v ll p(1) by linarith
  ultimately show ?thesis
    using gp len p(7) layout_hdr [OF lay hdr] by auto
qed

end
