(* ===== verification/Fdt_Edit.thy ===== *)
theory Fdt_Edit
  imports Fdt_Layout
begin

text \<open>
  What the writers of \<open>fdt_rw.c\<close> and \<open>fdt_wip.c\<close> keep of a tree. \<open>fdt_splice_\<close> moves everything
  behind the place it is given; every operation is built on it. An edit keeps the layout and
  \<open>totalsize\<close>, and changes no byte outside the tree, whether or not it succeeds.
\<close>

section \<open>The splice\<close>

lemma data_size_layout:
  "layout m fdt \<Longrightarrow> fdt_data_size_i m fdt = fdt_off_dt_strings m fdt + fdt_size_dt_strings m fdt"
  by (simp add: fdt_data_size_i_def layout_wrap)

lemma fdt_splice_ok:
  assumes lay: "layout m fdt" and s: "fdt_splice_i m fdt p oldlen newlen = (0, m')"
    and b: "p < fdt + 4294967296" "oldlen < 2147483648" "0 \<le> newlen" "newlen < 2147483648"
  shows "fdt \<le> p" "0 \<le> oldlen" "p + oldlen \<le> fdt + fdt_data_size_i m fdt"
    "fdt_data_size_i m fdt - oldlen + newlen \<le> fdt_totalsize m fdt"
    "m' = copied m (p + newlen) (p + oldlen) (nat (fdt + fdt_data_size_i m fdt - (p + oldlen)))"
proof -
  define d where "d = fdt_data_size_i m fdt"
  have d: "0 \<le> d" "d < 2147483647"
    using layout_lin [OF lay] data_size_layout [OF lay] by (simp_all add: d_def)
  have p: "fdt \<le> p" and o: "0 \<le> oldlen" and m': "m' = memmove m (p + newlen) (p + oldlen) (nat (fdt + d - (p + oldlen)))"
    and c: "u64 (u64 (p - fdt) + oldlen) \<le> d" "u32 (d - oldlen + newlen) \<le> fdt_totalsize m fdt"
    using s by (auto simp: fdt_splice_i_def Let_def d_def [symmetric] split: if_splits)
  have "u64 (p - fdt) = p - fdt" using p b by (intro u64_id) auto
  moreover have "u64 (p - fdt + oldlen) = p - fdt + oldlen" using p b o by (intro u64_id) auto
  ultimately have e: "p + oldlen \<le> fdt + d" using c by simp
  then have "u32 (d - oldlen + newlen) = d - oldlen + newlen" using p o b d by (intro u32_id) linarith+
  with c have "d - oldlen + newlen \<le> fdt_totalsize m fdt" by simp
  then show "fdt \<le> p" "0 \<le> oldlen" "p + oldlen \<le> fdt + fdt_data_size_i m fdt"
    "fdt_data_size_i m fdt - oldlen + newlen \<le> fdt_totalsize m fdt"
    "m' = copied m (p + newlen) (p + oldlen) (nat (fdt + fdt_data_size_i m fdt - (p + oldlen)))"
    using p o e m' by (simp_all add: d_def memmove_copied)
qed

lemma fdt_splice_err:
  "fdt_splice_i m fdt p oldlen newlen = (err, m') \<Longrightarrow> err \<noteq> 0 \<Longrightarrow> m' = m \<and> err < 0"
  by (auto simp: fdt_splice_i_def Let_def split: if_splits)

text \<open>A splice that would make the tree shorter than nothing is refused.\<close>

lemma fdt_splice_struct_neg:
  assumes lay: "layout m fdt" and n: "newlen < 0" "- 2147483648 \<le> newlen"
    and d: "fdt_data_size_i m fdt - oldlen + newlen < 0" "oldlen \<le> fdt_data_size_i m fdt"
    and s: "fdt_splice_struct_i m fdt p oldlen newlen = (err, m')"
  shows "err \<noteq> 0 \<and> m' = m"
proof -
  have "u32 (fdt_data_size_i m fdt - oldlen + newlen) = fdt_data_size_i m fdt - oldlen + newlen + 4294967296"
    using d n by (intro u32_neg) linarith+
  then have "fdt_totalsize m fdt < u32 (fdt_data_size_i m fdt - oldlen + newlen)"
    using layout_lin(5) [OF lay] n d by linarith
  then have "fst (fdt_splice_i m fdt p oldlen newlen) \<noteq> 0"
    by (auto simp: fdt_splice_i_def Let_def)
  then show ?thesis
    using s fdt_splice_err by (cases "fdt_splice_i m fdt p oldlen newlen")
      (fastforce simp: fdt_splice_struct_i_def)
qed

section \<open>What an edit keeps\<close>

text \<open>
  An edit of a tree keeps the layout and \<open>totalsize\<close> and writes nowhere outside the tree.
\<close>

definition edit_keeps :: "addr \<Rightarrow> mem \<Rightarrow> mem \<Rightarrow> bool" where
  "edit_keeps fdt m m' \<longleftrightarrow>
     layout m' fdt \<and> fdt_totalsize m' fdt = fdt_totalsize m fdt
     \<and> unchanged_outside fdt (fdt + fdt_totalsize m fdt) m m'"

lemma edit_keeps_refl: "layout m fdt \<Longrightarrow> edit_keeps fdt m m"
  by (simp add: edit_keeps_def)

lemma edit_keeps_trans: "edit_keeps fdt m m' \<Longrightarrow> edit_keeps fdt m' m'' \<Longrightarrow> edit_keeps fdt m m''"
  by (auto simp: edit_keeps_def intro: unchanged_outside_trans)

lemma edit_keeps_layout: "edit_keeps fdt m m' \<Longrightarrow> layout m' fdt"
  by (simp add: edit_keeps_def)

text \<open>A write above the header, within the tree.\<close>

lemma edit_keeps_above:
  assumes "layout m fdt" "unchanged_outside (fdt + SIZEOF_HEADER) (fdt + fdt_totalsize m fdt) m m'"
  shows "edit_keeps fdt m m'"
proof -
  have a: "agree fdt (fdt + SIZEOF_HEADER) m m'" using assms(2) by (auto simp: unchanged_outside_def agree_def)
  show ?thesis
    using layout_hdr [OF assms(1) a] fdt_hdr_agree(2) [OF a] assms(2)
    unfolding edit_keeps_def by (auto intro: unchanged_outside_mono)
qed

lemma put_bytes_unchanged:
  "lo \<le> p \<Longrightarrow> p + int (length xs) \<le> hi \<Longrightarrow> unchanged_outside lo hi m (put_bytes m p xs)"
  by (auto simp: unchanged_outside_def put_bytes_def)

lemma fdt32_st_unchanged: "lo \<le> p \<Longrightarrow> p + 4 \<le> hi \<Longrightarrow> unchanged_outside lo hi m (fdt32_st m p v)"
  by (auto simp: unchanged_outside_def fdt32_st_def)

lemma fdt_set_fields [mem_simps]:
  "fdt_magic (fdt_set_size_dt_struct m fdt v) fdt = fdt_magic m fdt"
  "fdt_totalsize (fdt_set_size_dt_struct m fdt v) fdt = fdt_totalsize m fdt"
  "fdt_off_dt_struct (fdt_set_size_dt_struct m fdt v) fdt = fdt_off_dt_struct m fdt"
  "fdt_off_dt_strings (fdt_set_size_dt_struct m fdt v) fdt = fdt_off_dt_strings m fdt"
  "fdt_off_mem_rsvmap (fdt_set_size_dt_struct m fdt v) fdt = fdt_off_mem_rsvmap m fdt"
  "fdt_version (fdt_set_size_dt_struct m fdt v) fdt = fdt_version m fdt"
  "fdt_last_comp_version (fdt_set_size_dt_struct m fdt v) fdt = fdt_last_comp_version m fdt"
  "fdt_size_dt_strings (fdt_set_size_dt_struct m fdt v) fdt = fdt_size_dt_strings m fdt"
  "fdt_size_dt_struct (fdt_set_size_dt_struct m fdt v) fdt = u32 v"
  "fdt_magic (fdt_set_off_dt_strings m fdt v) fdt = fdt_magic m fdt"
  "fdt_totalsize (fdt_set_off_dt_strings m fdt v) fdt = fdt_totalsize m fdt"
  "fdt_off_dt_struct (fdt_set_off_dt_strings m fdt v) fdt = fdt_off_dt_struct m fdt"
  "fdt_off_dt_strings (fdt_set_off_dt_strings m fdt v) fdt = u32 v"
  "fdt_off_mem_rsvmap (fdt_set_off_dt_strings m fdt v) fdt = fdt_off_mem_rsvmap m fdt"
  "fdt_version (fdt_set_off_dt_strings m fdt v) fdt = fdt_version m fdt"
  "fdt_last_comp_version (fdt_set_off_dt_strings m fdt v) fdt = fdt_last_comp_version m fdt"
  "fdt_size_dt_strings (fdt_set_off_dt_strings m fdt v) fdt = fdt_size_dt_strings m fdt"
  "fdt_size_dt_struct (fdt_set_off_dt_strings m fdt v) fdt = fdt_size_dt_struct m fdt"
  "fdt_magic (fdt_set_off_dt_struct m fdt v) fdt = fdt_magic m fdt"
  "fdt_totalsize (fdt_set_off_dt_struct m fdt v) fdt = fdt_totalsize m fdt"
  "fdt_off_dt_struct (fdt_set_off_dt_struct m fdt v) fdt = u32 v"
  "fdt_off_dt_strings (fdt_set_off_dt_struct m fdt v) fdt = fdt_off_dt_strings m fdt"
  "fdt_off_mem_rsvmap (fdt_set_off_dt_struct m fdt v) fdt = fdt_off_mem_rsvmap m fdt"
  "fdt_version (fdt_set_off_dt_struct m fdt v) fdt = fdt_version m fdt"
  "fdt_last_comp_version (fdt_set_off_dt_struct m fdt v) fdt = fdt_last_comp_version m fdt"
  "fdt_size_dt_strings (fdt_set_off_dt_struct m fdt v) fdt = fdt_size_dt_strings m fdt"
  "fdt_size_dt_struct (fdt_set_off_dt_struct m fdt v) fdt = fdt_size_dt_struct m fdt"
  "fdt_magic (fdt_set_size_dt_strings m fdt v) fdt = fdt_magic m fdt"
  "fdt_totalsize (fdt_set_size_dt_strings m fdt v) fdt = fdt_totalsize m fdt"
  "fdt_off_dt_struct (fdt_set_size_dt_strings m fdt v) fdt = fdt_off_dt_struct m fdt"
  "fdt_off_dt_strings (fdt_set_size_dt_strings m fdt v) fdt = fdt_off_dt_strings m fdt"
  "fdt_off_mem_rsvmap (fdt_set_size_dt_strings m fdt v) fdt = fdt_off_mem_rsvmap m fdt"
  "fdt_version (fdt_set_size_dt_strings m fdt v) fdt = fdt_version m fdt"
  "fdt_last_comp_version (fdt_set_size_dt_strings m fdt v) fdt = fdt_last_comp_version m fdt"
  "fdt_size_dt_strings (fdt_set_size_dt_strings m fdt v) fdt = u32 v"
  "fdt_size_dt_struct (fdt_set_size_dt_strings m fdt v) fdt = fdt_size_dt_struct m fdt"
  unfolding fdt_hdr_defs fdt_set_defs by (simp_all add: fdt32_ld_st_other)

lemma fdt_set_unchanged:
  "unchanged_outside fdt (fdt + 40) m (fdt_set_size_dt_struct m fdt v)"
  "unchanged_outside fdt (fdt + 40) m (fdt_set_off_dt_strings m fdt v)"
  "unchanged_outside fdt (fdt + 40) m (fdt_set_off_dt_struct m fdt v)"
  "unchanged_outside fdt (fdt + 40) m (fdt_set_size_dt_strings m fdt v)"
  unfolding fdt_set_defs by (auto intro!: fdt32_st_unchanged)

lemma fdt_splice_keeps:
  assumes lay: "layout m fdt" and s: "fdt_splice_i m fdt p oldlen newlen = (0, m')"
    and b: "fdt + SIZEOF_HEADER \<le> p" "p < fdt + 4294967296" "oldlen < 2147483648"
      "0 \<le> newlen" "newlen < 2147483648"
  shows "unchanged_outside (fdt + SIZEOF_HEADER) (fdt + fdt_totalsize m fdt) m m'"
  unfolding fdt_splice_ok(5) [OF lay s b(2-)]
  using fdt_splice_ok(1-4) [OF lay s b(2-)] b
  by (auto simp: unchanged_outside_def intro!: copied_outside)

lemma fdt_splice_struct_keeps:
  assumes lay: "layout m fdt" and s: "fdt_splice_struct_i m fdt p oldlen newlen = (err, m')"
    and b: "fdt + SIZEOF_HEADER \<le> p" "p < fdt + 4294967296"
      "oldlen \<le> fdt_size_dt_struct m fdt" "0 \<le> newlen" "newlen < 2147483648"
  shows "edit_keeps fdt m m'" "err \<noteq> 0 \<Longrightarrow> m' = m"
    "err = 0 \<Longrightarrow> fdt_size_dt_struct m' fdt = fdt_size_dt_struct m fdt + newlen - oldlen"
    "err = 0 \<Longrightarrow> fdt_off_dt_strings m' fdt = fdt_off_dt_strings m fdt + newlen - oldlen"
    "err = 0 \<Longrightarrow> fdt_off_dt_struct m' fdt = fdt_off_dt_struct m fdt"
    "err = 0 \<Longrightarrow> fdt_size_dt_strings m' fdt = fdt_size_dt_strings m fdt"
    "err = 0 \<Longrightarrow> 0 \<le> oldlen \<and> p + oldlen \<le> fdt + fdt_data_size_i m fdt
      \<and> fdt_data_size_i m fdt - oldlen + newlen \<le> fdt_totalsize m fdt"
proof -
  note ll = layout_lin [OF lay]
  have ol: "oldlen < 2147483648" using b ll by linarith
  have all: "edit_keeps fdt m m' \<and> (err \<noteq> 0 \<longrightarrow> m' = m) \<and> (err = 0 \<longrightarrow>
    fdt_size_dt_struct m' fdt = fdt_size_dt_struct m fdt + newlen - oldlen
    \<and> fdt_off_dt_strings m' fdt = fdt_off_dt_strings m fdt + newlen - oldlen
    \<and> fdt_off_dt_struct m' fdt = fdt_off_dt_struct m fdt
    \<and> fdt_size_dt_strings m' fdt = fdt_size_dt_strings m fdt
    \<and> 0 \<le> oldlen \<and> p + oldlen \<le> fdt + fdt_data_size_i m fdt
    \<and> fdt_data_size_i m fdt - oldlen + newlen \<le> fdt_totalsize m fdt)"
  proof (cases "fdt_splice_i m fdt p oldlen newlen")
    case (Pair e m1)
    show ?thesis
    proof (cases "e = 0")
      case False
      then show ?thesis
        using s Pair fdt_splice_err [OF Pair] edit_keeps_refl [OF lay]
        by (auto simp: fdt_splice_struct_i_def)
    next
      case True
      note ok = fdt_splice_ok [OF lay Pair [unfolded True] b(2) ol b(4,5)]
      note un = fdt_splice_keeps [OF lay Pair [unfolded True] b(1,2) ol b(4,5)]
      have ag: "agree fdt (fdt + SIZEOF_HEADER) m m1"
        using un by (auto simp: unchanged_outside_def agree_def)
      note h = fdt_hdr_agree [OF ag, symmetric]
      define delta where "delta = s32 (newlen - oldlen)"
      have delta: "delta = newlen - oldlen"
        unfolding delta_def using ok(2) ol b(4,5) by (intro s32_id) auto
      define m2 where "m2 = fdt_set_size_dt_struct m1 fdt (fdt_size_dt_struct m1 fdt + delta)"
      have m': "m' = fdt_set_off_dt_strings m2 fdt (fdt_off_dt_strings m2 fdt + delta)" "err = 0"
        using s Pair True by (simp_all add: fdt_splice_struct_i_def m2_def delta_def Let_def)
      have dd: "fdt_data_size_i m fdt = fdt_off_dt_strings m fdt + fdt_size_dt_strings m fdt"
        by (rule data_size_layout [OF lay])
      have sz: "u32 (fdt_size_dt_struct m fdt + delta) = fdt_size_dt_struct m fdt + newlen - oldlen"
        and st: "u32 (fdt_off_dt_strings m fdt + delta) = fdt_off_dt_strings m fdt + newlen - oldlen"
        unfolding delta using ll ok(2,4) b(3,4,5) dd
        by (subst u32_id; linarith)+
      have f: "fdt_size_dt_struct m' fdt = fdt_size_dt_struct m fdt + newlen - oldlen"
        "fdt_off_dt_strings m' fdt = fdt_off_dt_strings m fdt + newlen - oldlen"
        "fdt_off_dt_struct m' fdt = fdt_off_dt_struct m fdt"
        "fdt_size_dt_strings m' fdt = fdt_size_dt_strings m fdt"
        "fdt_magic m' fdt = fdt_magic m fdt" "fdt_version m' fdt = fdt_version m fdt"
        "fdt_last_comp_version m' fdt = fdt_last_comp_version m fdt"
        "fdt_off_mem_rsvmap m' fdt = fdt_off_mem_rsvmap m fdt"
        "fdt_totalsize m' fdt = fdt_totalsize m fdt"
        unfolding m'(1) m2_def using sz st by (simp_all add: fdt_set_fields h)
      have "layout m' fdt"
        using lay ll b(3,4) ok(4) dd unfolding layout_def f by linarith
      moreover have "unchanged_outside fdt (fdt + fdt_totalsize m fdt) m m'"
      proof -
        have t: "40 \<le> fdt_totalsize m fdt" using ll by linarith
        have "unchanged_outside fdt (fdt + fdt_totalsize m fdt) m m1"
          by (rule unchanged_outside_mono [OF un]) simp_all
        moreover have "unchanged_outside fdt (fdt + fdt_totalsize m fdt) m1 m2"
          unfolding m2_def by (rule unchanged_outside_mono [OF fdt_set_unchanged(1)]) (use t in simp_all)
        moreover have "unchanged_outside fdt (fdt + fdt_totalsize m fdt) m2 m'"
          unfolding m'(1) by (rule unchanged_outside_mono [OF fdt_set_unchanged(2)]) (use t in simp_all)
        ultimately show ?thesis by (blast intro: unchanged_outside_trans)
      qed
      ultimately show ?thesis using f m'(2) ok by (simp add: edit_keeps_def)
    qed
  qed
  from all show "edit_keeps fdt m m'" "err \<noteq> 0 \<Longrightarrow> m' = m"
    "err = 0 \<Longrightarrow> fdt_size_dt_struct m' fdt = fdt_size_dt_struct m fdt + newlen - oldlen"
    "err = 0 \<Longrightarrow> fdt_off_dt_strings m' fdt = fdt_off_dt_strings m fdt + newlen - oldlen"
    "err = 0 \<Longrightarrow> fdt_off_dt_struct m' fdt = fdt_off_dt_struct m fdt"
    "err = 0 \<Longrightarrow> fdt_size_dt_strings m' fdt = fdt_size_dt_strings m fdt"
    "err = 0 \<Longrightarrow> 0 \<le> oldlen \<and> p + oldlen \<le> fdt + fdt_data_size_i m fdt
      \<and> fdt_data_size_i m fdt - oldlen + newlen \<le> fdt_totalsize m fdt" by simp_all
qed


lemma TAGALIGN_s32:
  assumes "0 \<le> x" "x \<le> 2147483644"
  shows "s32 (FDT_TAGALIGN x) = FDT_TAGALIGN x \<and> x \<le> FDT_TAGALIGN x \<and> FDT_TAGALIGN x \<le> x + 3
    \<and> FDT_TAGALIGN x < 2147483648"
proof -
  have "FDT_TAGALIGN x < 2147483648" using assms unfolding FDT_TAGALIGN_div by presburger
  then show ?thesis using FDT_TAGALIGN_bounds [of x] assms by (auto simp: s32_id)
qed

text \<open>A property found by name in a tree with a layout lies within its structure block.\<close>

lemma fdt_get_property_layout:
  assumes lay: "layout m fdt" and g: "fdt_get_property m fdt node name = (Some pr, len)"
    and node: "node < 2147483648"
  obtains p where "4 \<le> p" "p < 2147483648" "pr = fdt + fdt_off_dt_struct m fdt + p" "0 \<le> len"
    "p + 12 + len \<le> fdt_size_dt_struct m fdt" "len = fdt32_ld m (pr + 4)"
proof -
  have ver: "fdt_version m fdt = 17" using lay by (simp add: layout_def)
  then obtain p where n: "fdt_get_property_namelen_i m fdt node name = (Some pr, len, p)"
    using g by (auto simp: fdt_get_property_def fdt_get_property_namelen_def split: prod.splits)
  then have g: "0 \<le> p" "p < 2147483648" "fdt_get_property_by_offset_i m fdt p = (Some pr, len)"
    using get_property_loop_Some [OF _ fdt_property_offset_lt(1)]
    unfolding fdt_get_property_namelen_i_def by blast+
  note gs = fdt_get_property_by_offset_Some [OF g(3,2)]
  from gs(3) obtain nxt where nxt: "0 \<le> nxt" "fdt_next_tag m fdt p = (FDT_PROP, nxt)" by blast
  have st: "p + 12 + len \<le> fdt_size_dt_struct m fdt"
    using fdt_next_tag_prop_struct [OF nxt(2,1) g(2)] gs(1,4) ver by simp
  have mod: "p mod 4 = 0"
    using g(3) by (auto simp: fdt_get_property_by_offset_i_def fdt_check_prop_offset_i_def Let_def
        split: if_splits)
  define body where "body = fdt_check_node_offset_i m fdt node"
  have body: "0 \<le> body"
  proof (rule ccontr)
    assume "\<not> 0 \<le> body"
    then show False using n
      by (simp add: fdt_get_property_namelen_i_def fdt_first_property_offset_def body_def
          get_property_loop.simps)
  qed
  have t: "fdt_next_tag m fdt node = (FDT_BEGIN_NODE, body)" "0 \<le> node"
    using fdt_check_node_offsetD [of m fdt node] body by (simp_all add: body_def)
  have "node < body" using fdt_next_tag_range(2) [OF t(1) _ node] body by auto
  moreover have "body \<le> p"
    using get_property_loop_local [OF lay agree_refl agree_refl agree_refl
        fdt_next_tag_lt [OF t(1)] body, where poff = p] n body
    by (simp add: fdt_get_property_namelen_i_def fdt_first_property_offset_def body_def Let_def)
  ultimately have "4 \<le> p" using t(2) mod by (metis add_0 int_one_le_iff_zero_less le_less_trans
      less_le_trans mod_pos_pos_trivial not_le not_less_iff_gr_or_eq)
  then show ?thesis
    using that [of p] g(2) gs st by (simp add: fdt_offset_ptr_i_def)
qed

lemma fdt_get_property_None: "fdt_get_property m fdt node name = (None, len) \<Longrightarrow> len < 0"
  by (auto simp: fdt_get_property_def fdt_get_property_namelen_def fdt_get_property_namelen_i_def
           split: if_splits prod.splits dest: get_property_loop_None)

lemma edit_keeps_hdr_le: "edit_keeps fdt m m' \<Longrightarrow> fdt_totalsize m' fdt = fdt_totalsize m fdt"
  by (simp add: edit_keeps_def)

lemma fdt_resize_property_keeps:
  assumes lay: "layout m fdt" and node: "node < 2147483648" and len: "0 \<le> len" "len < 2147483600"
    and r: "fdt_resize_property_i m fdt node name len = (err, pr, m')"
  shows "edit_keeps fdt m m'" "err \<noteq> 0 \<Longrightarrow> m' = m"
    "err = 0 \<Longrightarrow> \<exists>q. pr = Some q \<and> fdt + SIZEOF_HEADER \<le> q
      \<and> q + 12 + FDT_TAGALIGN len \<le> fdt + fdt_totalsize m fdt"
proof -
  note ll = layout_lin [OF lay]
  have all: "edit_keeps fdt m m' \<and> (err \<noteq> 0 \<longrightarrow> m' = m) \<and>
    (err = 0 \<longrightarrow> (\<exists>q. pr = Some q \<and> fdt + SIZEOF_HEADER \<le> q
      \<and> q + 12 + FDT_TAGALIGN len \<le> fdt + fdt_totalsize m fdt))"
  proof (cases "fdt_get_property m fdt node name")
    case (Pair q oldlen)
    show ?thesis
    proof (cases q)
      case None
      then show ?thesis
        using r Pair edit_keeps_refl [OF lay] fdt_get_property_None [of m fdt node name oldlen]
        by (simp add: fdt_resize_property_i_def)
    next
      case (Some q)
      obtain p where p: "4 \<le> p" "p < 2147483648" "q = fdt + fdt_off_dt_struct m fdt + p" "0 \<le> oldlen"
        "p + 12 + oldlen \<le> fdt_size_dt_struct m fdt"
        by (rule fdt_get_property_layout [OF lay Pair [unfolded Some] node])
      have ol: "s32 (FDT_TAGALIGN oldlen) = FDT_TAGALIGN oldlen" "FDT_TAGALIGN oldlen \<le> oldlen + 3"
        using TAGALIGN_s32 [of oldlen] p ll by simp_all
      have nl: "s32 (FDT_TAGALIGN len) = FDT_TAGALIGN len" "0 \<le> FDT_TAGALIGN len"
        "FDT_TAGALIGN len < 2147483648"
        using TAGALIGN_s32 [of len] len by simp_all
      obtain e m1 where s: "fdt_splice_struct_i m fdt (q + 12) (FDT_TAGALIGN oldlen) (FDT_TAGALIGN len)
          = (e, m1)" by fastforce
      have qb: "fdt + SIZEOF_HEADER \<le> q + 12" "q + 12 < fdt + 4294967296"
        "FDT_TAGALIGN oldlen \<le> fdt_size_dt_struct m fdt" "fdt + SIZEOF_HEADER \<le> q"
        using p ol ll by linarith+
      note k = fdt_splice_struct_keeps [OF lay s qb(1-3) nl(2,3)]
      show ?thesis
      proof (cases "e = 0")
        case False
        then show ?thesis using r Pair Some s k by (simp add: fdt_resize_property_i_def ol nl)
      next
        case True
        then have res: "err = 0" "pr = Some q" "m' = fdt32_st m1 (q + 4) len"
          using r Pair Some s by (auto simp: fdt_resize_property_i_def ol nl)
        have end_le: "q + 12 + FDT_TAGALIGN len \<le> fdt + fdt_totalsize m fdt"
          using k(7) [OF True] by linarith
        have "unchanged_outside (fdt + 40) (fdt + fdt_totalsize m1 fdt) m1 m'"
          unfolding res edit_keeps_hdr_le [OF k(1)]
          using qb end_le nl by (intro fdt32_st_unchanged) auto
        then have "edit_keeps fdt m m'"
          using k(1) edit_keeps_above [OF edit_keeps_layout [OF k(1)]] edit_keeps_trans by blast
        then show ?thesis using res qb end_le by auto
      qed
    qed
  qed
  from all show "edit_keeps fdt m m'" "err \<noteq> 0 \<Longrightarrow> m' = m"
    "err = 0 \<Longrightarrow> \<exists>q. pr = Some q \<and> fdt + SIZEOF_HEADER \<le> q
      \<and> q + 12 + FDT_TAGALIGN len \<le> fdt + fdt_totalsize m fdt" by simp_all
qed

section \<open>The string block\<close>

lemma fdt_splice_string_keeps:
  assumes lay: "layout m fdt" and s: "fdt_splice_string_i m fdt newlen = (err, m')"
    and b: "0 \<le> newlen" "newlen < 2147483648"
  shows "edit_keeps fdt m m'" "err \<noteq> 0 \<Longrightarrow> m' = m"
    "err = 0 \<Longrightarrow> fdt_size_dt_strings m' fdt = fdt_size_dt_strings m fdt + newlen
       \<and> fdt_off_dt_strings m' fdt = fdt_off_dt_strings m fdt
       \<and> fdt_off_dt_struct m' fdt = fdt_off_dt_struct m fdt
       \<and> fdt_size_dt_struct m' fdt = fdt_size_dt_struct m fdt
       \<and> fdt_off_dt_strings m fdt + fdt_size_dt_strings m fdt + newlen \<le> fdt_totalsize m fdt"
proof -
  note ll = layout_lin [OF lay]
  define p where "p = fdt + fdt_off_dt_strings m fdt + fdt_size_dt_strings m fdt"
  have pb: "fdt + 40 \<le> p" "p < fdt + 4294967296" using ll by (simp_all add: p_def)
  have all: "edit_keeps fdt m m' \<and> (err \<noteq> 0 \<longrightarrow> m' = m) \<and> (err = 0 \<longrightarrow>
       fdt_size_dt_strings m' fdt = fdt_size_dt_strings m fdt + newlen
       \<and> fdt_off_dt_strings m' fdt = fdt_off_dt_strings m fdt
       \<and> fdt_off_dt_struct m' fdt = fdt_off_dt_struct m fdt
       \<and> fdt_size_dt_struct m' fdt = fdt_size_dt_struct m fdt
       \<and> fdt_off_dt_strings m fdt + fdt_size_dt_strings m fdt + newlen \<le> fdt_totalsize m fdt)"
  proof (cases "fdt_splice_i m fdt p 0 newlen")
    case (Pair e m1)
    show ?thesis
    proof (cases "e = 0")
      case False
      then show ?thesis
        using s Pair fdt_splice_err [OF Pair] edit_keeps_refl [OF lay]
        by (simp add: fdt_splice_string_i_def p_def)
    next
      case True
      have z: "(0::int) < 2147483648" by simp
      note ok = fdt_splice_ok [OF lay Pair [unfolded True] pb(2) z b]
      note un = fdt_splice_keeps [OF lay Pair [unfolded True] pb z b]
      have ag: "agree fdt (fdt + SIZEOF_HEADER) m m1"
        using un by (auto simp: unchanged_outside_def agree_def)
      note h = fdt_hdr_agree [OF ag, symmetric]
      have m': "m' = fdt_set_size_dt_strings m1 fdt (fdt_size_dt_strings m fdt + newlen)" "err = 0"
        using s Pair True h(9) by (simp_all add: fdt_splice_string_i_def p_def)
      have le: "fdt_off_dt_strings m fdt + fdt_size_dt_strings m fdt + newlen \<le> fdt_totalsize m fdt"
        using ok(4) data_size_layout [OF lay] by simp
      have sz: "u32 (fdt_size_dt_strings m fdt + newlen) = fdt_size_dt_strings m fdt + newlen"
        using ll le b by (intro u32_id) linarith+
      have f: "fdt_size_dt_struct m' fdt = fdt_size_dt_struct m fdt"
        "fdt_off_dt_strings m' fdt = fdt_off_dt_strings m fdt"
        "fdt_off_dt_struct m' fdt = fdt_off_dt_struct m fdt"
        "fdt_size_dt_strings m' fdt = fdt_size_dt_strings m fdt + newlen"
        "fdt_magic m' fdt = fdt_magic m fdt" "fdt_version m' fdt = fdt_version m fdt"
        "fdt_last_comp_version m' fdt = fdt_last_comp_version m fdt"
        "fdt_off_mem_rsvmap m' fdt = fdt_off_mem_rsvmap m fdt"
        "fdt_totalsize m' fdt = fdt_totalsize m fdt"
        unfolding m'(1) using sz by (simp_all add: fdt_set_fields h)
      have "layout m' fdt" using lay ll le unfolding layout_def f by linarith
      moreover have "unchanged_outside fdt (fdt + fdt_totalsize m fdt) m m'"
      proof -
        have "unchanged_outside fdt (fdt + fdt_totalsize m fdt) m m1"
          by (rule unchanged_outside_mono [OF un]) simp_all
        moreover have "unchanged_outside fdt (fdt + fdt_totalsize m fdt) m1 m'"
          unfolding m'(1) by (rule unchanged_outside_mono [OF fdt_set_unchanged(4)]) (use ll in simp_all)
        ultimately show ?thesis by (rule unchanged_outside_trans)
      qed
      ultimately show ?thesis using f m'(2) le by (simp add: edit_keeps_def)
    qed
  qed
  from all show "edit_keeps fdt m m'" "err \<noteq> 0 \<Longrightarrow> m' = m"
    "err = 0 \<Longrightarrow> fdt_size_dt_strings m' fdt = fdt_size_dt_strings m fdt + newlen
       \<and> fdt_off_dt_strings m' fdt = fdt_off_dt_strings m fdt
       \<and> fdt_off_dt_struct m' fdt = fdt_off_dt_struct m fdt
       \<and> fdt_size_dt_struct m' fdt = fdt_size_dt_struct m fdt
       \<and> fdt_off_dt_strings m fdt + fdt_size_dt_strings m fdt + newlen \<le> fdt_totalsize m fdt"
    by simp_all
qed

lemma fdt_find_add_string_keeps:
  assumes lay: "layout m fdt" and s: "fdt_find_add_string_i m fdt s = (off, alloc, m')"
    and b: "int (length s) < 2147483600"
  shows "edit_keeps fdt m m'" "\<not> alloc \<Longrightarrow> m' = m"
    "alloc \<Longrightarrow> fdt_size_dt_strings m' fdt = fdt_size_dt_strings m fdt + int (length s) + 1"
    "fdt_off_dt_struct m' fdt = fdt_off_dt_struct m fdt"
proof -
  note ll = layout_lin [OF lay]
  have all: "edit_keeps fdt m m' \<and> (\<not> alloc \<longrightarrow> m' = m) \<and>
    (alloc \<longrightarrow> fdt_size_dt_strings m' fdt = fdt_size_dt_strings m fdt + int (length s) + 1)
    \<and> fdt_off_dt_struct m' fdt = fdt_off_dt_struct m fdt"
  proof (cases "fdt_find_string_i m (fdt + fdt_off_dt_strings m fdt) (s32 (fdt_size_dt_strings m fdt)) s")
    case (Some p)
    then show ?thesis using s edit_keeps_refl [OF lay] by (simp add: fdt_find_add_string_i_def Let_def)
  next
    case None
    obtain e m1 where sp: "fdt_splice_string_i m fdt (int (length s) + 1) = (e, m1)" by fastforce
    have lb: "0 \<le> int (length s) + 1" "int (length s) + 1 < 2147483648" using b by simp_all
    note k = fdt_splice_string_keeps [OF lay sp lb]
    show ?thesis
    proof (cases "e = 0")
      case False
      then show ?thesis using s None sp k by (simp add: fdt_find_add_string_i_def Let_def)
    next
      case True
      define new where "new = fdt + fdt_off_dt_strings m fdt + fdt_size_dt_strings m fdt"
      have m': "alloc" "m' = put_bytes m1 new (s @ [0])"
        using s None sp True by (simp_all add: fdt_find_add_string_i_def Let_def new_def)
      have un: "unchanged_outside (fdt + 40) (fdt + fdt_totalsize m1 fdt) m1 m'"
        unfolding m' edit_keeps_hdr_le [OF k(1)]
        using ll k(3) [OF True] by (intro put_bytes_unchanged) (auto simp: new_def)
      then have "agree fdt (fdt + 40) m1 m'" by (auto simp: unchanged_outside_def agree_def)
      note h = fdt_hdr_agree [OF this, symmetric]
      show ?thesis
        using k(1,3) True un m'(1) edit_keeps_above [OF edit_keeps_layout [OF k(1)] un] h(3,9)
        by (auto intro: edit_keeps_trans)
    qed
  qed
  from all show "edit_keeps fdt m m'" "\<not> alloc \<Longrightarrow> m' = m"
    "alloc \<Longrightarrow> fdt_size_dt_strings m' fdt = fdt_size_dt_strings m fdt + int (length s) + 1"
    "fdt_off_dt_struct m' fdt = fdt_off_dt_struct m fdt" by simp_all
qed

lemma fdt_del_last_string_keeps:
  assumes lay: "layout m fdt" and "int (length s) + 1 \<le> fdt_size_dt_strings m fdt"
  shows "edit_keeps fdt m (fdt_del_last_string_i m fdt s)"
proof -
  note ll = layout_lin [OF lay]
  have sz: "u32 (fdt_size_dt_strings m fdt - (int (length s) + 1)) = fdt_size_dt_strings m fdt - (int (length s) + 1)"
    using assms(2) ll by (intro u32_id) linarith+
  have "layout (fdt_del_last_string_i m fdt s) fdt"
    using lay ll assms(2) unfolding layout_def fdt_del_last_string_i_def fdt_set_fields sz by linarith
  moreover have "unchanged_outside fdt (fdt + fdt_totalsize m fdt) m (fdt_del_last_string_i m fdt s)"
    unfolding fdt_del_last_string_i_def
    by (rule unchanged_outside_mono [OF fdt_set_unchanged(4)]) (use ll in simp_all)
  ultimately show ?thesis by (simp add: edit_keeps_def fdt_del_last_string_i_def fdt_set_fields)
qed


section \<open>Properties\<close>

lemma TAGALIGN_12:
  "0 \<le> len \<Longrightarrow> len < 2147483600 \<Longrightarrow>
   s32 (12 + FDT_TAGALIGN len) = 12 + FDT_TAGALIGN len \<and> 0 \<le> FDT_TAGALIGN len
     \<and> len \<le> FDT_TAGALIGN len \<and> 12 + FDT_TAGALIGN len < 2147483648"
  using FDT_TAGALIGN_bounds [of len] by (auto simp: s32_id)

lemma fdt_add_property_keeps:
  assumes lay: "layout m fdt" and node: "node < 2147483648" and len: "0 \<le> len" "len < 2147483600"
    and nm: "int (length name) < 2147483600"
    and r: "fdt_add_property_i m fdt node name len = (err, pr, m')"
  shows "edit_keeps fdt m m'"
    "err = 0 \<Longrightarrow> \<exists>q. pr = Some q \<and> fdt + SIZEOF_HEADER \<le> q
      \<and> q + 12 + FDT_TAGALIGN len \<le> fdt + fdt_totalsize m fdt"
proof -
  define nxt where "nxt = fdt_check_node_offset_i m fdt node"
  obtain so al m1 where fa: "fdt_find_add_string_i m fdt name = (so, al, m1)"
    by (cases "fdt_find_add_string_i m fdt name") auto
  note k1 = fdt_find_add_string_keeps [OF lay fa nm]
  note lay1 = edit_keeps_layout [OF k1(1)]
  note ll = layout_lin [OF lay1]
  have all: "edit_keeps fdt m m' \<and> (err = 0 \<longrightarrow> (\<exists>q. pr = Some q \<and> fdt + SIZEOF_HEADER \<le> q
      \<and> q + 12 + FDT_TAGALIGN len \<le> fdt + fdt_totalsize m fdt))"
  proof (cases "nxt < 0 \<or> so < 0")
    case True
    then show ?thesis
      using r fa edit_keeps_refl [OF lay] k1(1)
      by (auto simp: fdt_add_property_i_def nxt_def Let_def split: if_splits)
  next
    case False
    define q where "q = fdt_offset_ptr_i m1 fdt nxt"
    have q: "q = fdt + fdt_off_dt_struct m1 fdt + nxt" by (simp add: q_def fdt_offset_ptr_i_def)
    note al12 = TAGALIGN_12 [OF len]
    obtain e m2 where s: "fdt_splice_struct_i m1 fdt q 0 (12 + FDT_TAGALIGN len) = (e, m2)" by fastforce
    have qb: "fdt + SIZEOF_HEADER \<le> q" "q < fdt + 4294967296" "0 \<le> fdt_size_dt_struct m1 fdt"
      "0 \<le> 12 + FDT_TAGALIGN len" "12 + FDT_TAGALIGN len < 2147483648"
      using False ll al12 fdt_check_offset_lt(1) [of m fdt node] unfolding q nxt_def by linarith+
    note k2 = fdt_splice_struct_keeps [OF lay1 s qb]
    show ?thesis
    proof (cases "e = 0")
      case True
      have end_le: "q + 12 + FDT_TAGALIGN len \<le> fdt + fdt_totalsize m1 fdt"
        using k2(7) [OF True] by linarith
      have res: "err = 0" "pr = Some q"
        "m' = fdt32_st (fdt32_st (fdt32_st m2 q FDT_PROP) (q + 8) so) (q + 4) len"
        using r fa s True False al12
        by (auto simp: fdt_add_property_i_def nxt_def [symmetric] q_def [symmetric] Let_def)
      have "unchanged_outside (fdt + 40) (fdt + fdt_totalsize m2 fdt) m2 m'"
      proof -
        have u: "unchanged_outside (fdt + 40) (fdt + fdt_totalsize m2 fdt) x (fdt32_st x (q + k) v)"
          if "k = 0 \<or> k = 4 \<or> k = 8" for x v k
          unfolding edit_keeps_hdr_le [OF k2(1)]
          using that qb end_le al12 by (intro fdt32_st_unchanged) auto
        show ?thesis unfolding res
          using u [of 0 m2] u [of 8] u [of 4] by (metis add.right_neutral unchanged_outside_trans)
      qed
      then have "edit_keeps fdt m2 m'"
        by (rule edit_keeps_above [OF edit_keeps_layout [OF k2(1)]])
      then have "edit_keeps fdt m m'" using k1(1) k2(1) by (blast intro: edit_keeps_trans)
      then show ?thesis
        using res(2) qb(1) end_le edit_keeps_hdr_le [OF k1(1)] by auto
    next
      case e: False
      have res: "err = e" "m' = (if al then fdt_del_last_string_i m1 fdt name else m1)"
        using r fa s e False al12 k2(2)
        by (auto simp: fdt_add_property_i_def nxt_def [symmetric] q_def [symmetric] Let_def split: if_splits)
      have "edit_keeps fdt m1 m'"
      proof (cases al)
        case True
        then have "int (length name) + 1 \<le> fdt_size_dt_strings m1 fdt"
          using k1(3) fdt_hdr_bounds(13) [of m fdt] layout_lin(7) [OF lay] by linarith
        then show ?thesis using True res(2) fdt_del_last_string_keeps [OF lay1] by simp
      next
        case False
        then show ?thesis using res(2) edit_keeps_refl [OF lay1] by simp
      qed
      then show ?thesis using k1(1) res(1) e by (auto intro: edit_keeps_trans)
    qed
  qed
  from all show "edit_keeps fdt m m'"
    "err = 0 \<Longrightarrow> \<exists>q. pr = Some q \<and> fdt + SIZEOF_HEADER \<le> q
      \<and> q + 12 + FDT_TAGALIGN len \<le> fdt + fdt_totalsize m fdt" by simp_all
qed

lemma put_bytes_keeps:
  assumes "edit_keeps fdt m m1" "fdt + SIZEOF_HEADER \<le> p" "p + int (length xs) \<le> fdt + fdt_totalsize m fdt"
  shows "edit_keeps fdt m (put_bytes m1 p xs)"
proof -
  have "unchanged_outside (fdt + 40) (fdt + fdt_totalsize m1 fdt) m1 (put_bytes m1 p xs)"
    using assms by (intro put_bytes_unchanged) (auto simp: edit_keeps_hdr_le)
  then show ?thesis
    using edit_keeps_above [OF edit_keeps_layout [OF assms(1)]] assms(1) edit_keeps_trans by blast
qed

lemma fdt_setprop_keeps:
  assumes lay: "layout m fdt" and node: "node < 2147483648"
    and len: "int (length val) < 2147483600" and nm: "int (length name) < 2147483600"
    and r: "fdt_setprop m fdt node name val = (err, m')"
  shows "edit_keeps fdt m m'"
proof -
  have l: "0 \<le> int (length val)" by simp
  obtain e pr m1 where rs: "fdt_resize_property_i m fdt node name (int (length val)) = (e, pr, m1)"
    by (cases "fdt_resize_property_i m fdt node name (int (length val))") auto
  note k1 = fdt_resize_property_keeps [OF lay node l len rs]
  obtain e2 pr2 m2 where ad: "fdt_add_property_i m fdt node name (int (length val)) = (e2, pr2, m2)"
    by (cases "fdt_add_property_i m fdt node name (int (length val))") auto
  note k2 = fdt_add_property_keeps [OF lay node l len nm ad]
  note al = TAGALIGN_12 [OF l len]
  have set: "edit_keeps fdt m (put_bytes n (q + 12) val)"
    if "edit_keeps fdt m n" "fdt + 40 \<le> q" "q + 12 + FDT_TAGALIGN (int (length val)) \<le> fdt + fdt_totalsize m fdt"
    for n q
    by (rule put_bytes_keeps [OF that(1)]) (use that al in auto)
  consider "e = 0" | "e = - FDT_ERR_NOTFOUND" "m1 = m" | "e \<noteq> 0" "e \<noteq> - FDT_ERR_NOTFOUND"
    using k1(2) by auto
  then show ?thesis
  proof cases
    case 1
    then show ?thesis using r k1(1) k1(3) set
      by (auto simp: fdt_setprop_def fdt_setprop_placeholder_def layout_rw_probe [OF lay] rs split: if_splits)
  next
    case 2
    then show ?thesis using r k2 ad set
      by (auto simp: fdt_setprop_def fdt_setprop_placeholder_def layout_rw_probe [OF lay] rs split: if_splits)
  next
    case 3
    then show ?thesis using r k1(1)
      by (auto simp: fdt_setprop_def fdt_setprop_placeholder_def layout_rw_probe [OF lay] rs split: if_splits)
  qed
qed

lemma fdt_appendprop_keeps:
  assumes lay: "layout m fdt" and node: "node < 2147483648"
    and len: "int (length val) < 1073741800" and nm: "int (length name) < 2147483600"
    and r: "fdt_appendprop m fdt node name val = (err, m')"
  shows "edit_keeps fdt m m'"
proof (cases "fdt_get_property m fdt node name")
  case (Pair q oldlen)
  note ll = layout_lin [OF lay]
  show ?thesis
  proof (cases q)
    case None
    obtain e2 pr2 m2 where ad: "fdt_add_property_i m fdt node name (int (length val)) = (e2, pr2, m2)"
      by (cases "fdt_add_property_i m fdt node name (int (length val))") auto
    have l: "0 \<le> int (length val)" "int (length val) < 2147483600" using len by simp_all
    note k2 = fdt_add_property_keeps [OF lay node l nm ad]
    show ?thesis
    proof (cases "e2 = 0")
      case True
      obtain q where q: "pr2 = Some q" "fdt + 40 \<le> q"
        "q + 12 + FDT_TAGALIGN (int (length val)) \<le> fdt + fdt_totalsize m fdt"
        using k2(2) [OF True] by auto
      have "m' = put_bytes m2 (q + 12) val"
        using r Pair None True q ad by (simp add: fdt_appendprop_def layout_rw_probe [OF lay])
      then show ?thesis
        using q TAGALIGN_12 [OF l] by (auto intro!: put_bytes_keeps [OF k2(1)])
    next
      case False
      then show ?thesis using r Pair None ad k2(1) by (simp add: fdt_appendprop_def layout_rw_probe [OF lay])
    qed
  next
    case (Some q)
    obtain p where p: "4 \<le> p" "p < 2147483648" "q = fdt + fdt_off_dt_struct m fdt + p" "0 \<le> oldlen"
      "p + 12 + oldlen \<le> fdt_size_dt_struct m fdt"
      by (rule fdt_get_property_layout [OF lay Pair [unfolded Some] node])
    define sm where "sm = int (length val) + oldlen"
    have ob: "oldlen + 12 \<le> fdt_data_size_i m fdt" "oldlen < 2147483600"
      using p ll data_size_layout [OF lay] by linarith+
    have ta: "s32 (FDT_TAGALIGN oldlen) = FDT_TAGALIGN oldlen" "oldlen \<le> FDT_TAGALIGN oldlen"
      "FDT_TAGALIGN oldlen \<le> oldlen + 3"
      using TAGALIGN_s32 [of oldlen] p(4) ob(2) by simp_all
    obtain e m1 where s: "fdt_splice_struct_i m fdt (q + 12) (FDT_TAGALIGN oldlen)
        (s32 (FDT_TAGALIGN (s32 sm))) = (e, m1)" by fastforce
    have qb: "fdt + SIZEOF_HEADER \<le> q + 12" "q + 12 < fdt + 4294967296"
      "FDT_TAGALIGN oldlen \<le> fdt_size_dt_struct m fdt" "fdt + SIZEOF_HEADER \<le> q"
      using p ta ll by linarith+
    show ?thesis
    proof (cases "sm \<le> 2147483644")
      case False
      define nl where "nl = s32 (FDT_TAGALIGN (s32 sm))"
      have "nl \<le> - 1073741824 \<and> - 2147483648 \<le> nl"
      proof (cases "sm < 2147483648")
        case True
        then have "s32 sm = sm" using False by (simp add: s32_id)
        moreover have "FDT_TAGALIGN sm = 2147483648"
          using True False unfolding FDT_TAGALIGN_div by presburger
        ultimately show ?thesis by (simp add: nl_def s32_big)
      next
        case ge: False
        then have "s32 sm = sm - 4294967296"
          using len ob(2) unfolding sm_def by (intro s32_big) linarith+
        moreover have "sm < 3221225472" using len ob(2) unfolding sm_def by linarith
        moreover have "FDT_TAGALIGN (sm - 4294967296) \<le> - 1073741824 \<and> - 2147483648 \<le> FDT_TAGALIGN (sm - 4294967296)"
          using ge \<open>sm < 3221225472\<close> unfolding FDT_TAGALIGN_div by presburger
        ultimately show ?thesis by (simp add: nl_def s32_id)
      qed
      moreover have "1073741840 \<le> oldlen" "fdt_data_size_i m fdt < 2147483647"
        using False len ll data_size_layout [OF lay] unfolding sm_def by linarith+
      ultimately have "e \<noteq> 0 \<and> m1 = m"
        using s [folded nl_def] ta ob
        by (intro fdt_splice_struct_neg [OF lay, of nl "FDT_TAGALIGN oldlen" "q + 12"]) linarith+
      then show ?thesis using r Pair Some s edit_keeps_refl [OF lay]
        by (simp add: fdt_appendprop_def layout_rw_probe [OF lay] ta sm_def)
    next
      case True
      have nl: "s32 sm = sm" "s32 (FDT_TAGALIGN sm) = FDT_TAGALIGN sm" "0 \<le> FDT_TAGALIGN sm"
        "FDT_TAGALIGN sm < 2147483648" "sm \<le> FDT_TAGALIGN sm"
        using TAGALIGN_s32 [of sm] True p(4) by (simp_all add: sm_def s32_id)
      note k = fdt_splice_struct_keeps [OF lay s [unfolded nl(1,2)] qb(1-3) nl(3,4)]
      show ?thesis
      proof (cases "e = 0")
        case False
        then show ?thesis using r Pair Some s k(1)
          by (simp add: fdt_appendprop_def layout_rw_probe [OF lay] ta sm_def)
      next
        case True
        have end_le: "q + 12 + FDT_TAGALIGN sm \<le> fdt + fdt_totalsize m fdt"
          using k(7) [OF True] by linarith
        have m': "m' = put_bytes (fdt32_st m1 (q + 4) sm) (q + 12 + oldlen) val"
          using r Pair Some s True nl(1,2)
          by (simp add: fdt_appendprop_def layout_rw_probe [OF lay] ta sm_def)
        have "unchanged_outside (fdt + 40) (fdt + fdt_totalsize m1 fdt) m1 (fdt32_st m1 (q + 4) sm)"
          using qb end_le nl by (intro fdt32_st_unchanged) (auto simp: edit_keeps_hdr_le [OF k(1)])
        then have "edit_keeps fdt m (fdt32_st m1 (q + 4) sm)"
          using k(1) edit_keeps_above [OF edit_keeps_layout [OF k(1)]] edit_keeps_trans by blast
        then show ?thesis unfolding m'
          by (rule put_bytes_keeps) (use qb end_le nl p(4) in \<open>auto simp: sm_def\<close>)
      qed
    qed
  qed
qed

lemma fdt_delprop_keeps:
  assumes lay: "layout m fdt" and node: "node < 2147483648"
    and r: "fdt_delprop m fdt node name = (err, m')"
  shows "edit_keeps fdt m m'"
proof (cases "fdt_get_property m fdt node name")
  case (Pair q len)
  note ll = layout_lin [OF lay]
  show ?thesis
  proof (cases q)
    case None
    then show ?thesis using r Pair edit_keeps_refl [OF lay]
      by (simp add: fdt_delprop_def layout_rw_probe [OF lay])
  next
    case (Some q)
    obtain p where p: "4 \<le> p" "p < 2147483648" "q = fdt + fdt_off_dt_struct m fdt + p" "0 \<le> len"
      "p + 12 + len \<le> fdt_size_dt_struct m fdt"
      by (rule fdt_get_property_layout [OF lay Pair [unfolded Some] node])
    have ta: "s32 (12 + FDT_TAGALIGN len) = 12 + FDT_TAGALIGN len" "FDT_TAGALIGN len \<le> len + 3"
      using TAGALIGN_12 [of len] FDT_TAGALIGN_bounds [of len] p ll by simp_all
    have s: "fdt_splice_struct_i m fdt q (12 + FDT_TAGALIGN len) 0 = (err, m')"
      using r Pair Some by (simp add: fdt_delprop_def layout_rw_probe [OF lay] ta)
    show ?thesis
      by (rule fdt_splice_struct_keeps(1) [OF lay s]) (use p ta ll in linarith)+
  qed
qed


section \<open>Nodes\<close>

lemma fdt_next_tag_struct:
  assumes t: "fdt_next_tag m fdt off = (tag, nxt)" "tag \<noteq> FDT_END" "0 \<le> nxt" "off < 2147483648"
    and v: "17 \<le> fdt_version m fdt"
  shows "\<exists>r. off + 4 \<le> r \<and> r \<le> fdt_size_dt_struct m fdt \<and> nxt = FDT_TAGALIGN r \<and> 0 \<le> off
    \<and> next_tag_switch m fdt tag (off + 4) = Some r"
proof -
  obtain tagp r where i: "fdt_offset_ptr m fdt off 4 = Some tagp" "tag = fdt32_ld m tagp"
    "next_tag_switch m fdt tag (off + 4) = Some r" "0 \<le> off" "off + 4 \<le> r"
    "off + 4 < 2147483648" "nxt < 2147483648" "nxt = FDT_TAGALIGN r"
    by (rule fdt_next_tag_item [OF t]) auto
  have "fdt_offset_ptr m fdt off (u32 (r - off)) \<noteq> None"
    using t(1,2) i(1,2,3,4,6) by (auto simp: fdt_next_tag_def Let_def s32_id split: option.splits)
  moreover have "u32 (r - off) = r - off"
    using i FDT_TAGALIGN_bounds [of r] by (intro u32_id) auto
  ultimately obtain p where "fdt_offset_ptr m fdt off (r - off) = Some p" by auto
  then have "off + (r - off) \<le> fdt_size_dt_struct m fdt"
    using i FDT_TAGALIGN_bounds [of r] t(4) v by (intro fdt_offset_ptr_struct) auto
  then show ?thesis using i by auto
qed

lemma next_node_loop_bound:
  assumes lay: "layout m fdt"
  shows "off < 2147483648 \<Longrightarrow> 0 \<le> off \<Longrightarrow> off mod 4 = 0 \<Longrightarrow>
    fdt_next_node_loop m fdt off d = (o', d') \<Longrightarrow> 0 \<le> o' \<Longrightarrow>
    off \<le> o' \<and> o' \<le> fdt_size_dt_struct m fdt \<and> o' mod 4 = 0"
proof (induction "walk_left off" arbitrary: off d rule: less_induct)
  case less
  note pl = layout_placed [OF lay]
  obtain tag nxt where t: "fdt_next_tag m fdt off = (tag, nxt)" by fastforce
  show ?case
  proof (cases "tag = FDT_END")
    case True
    then show ?thesis using less.prems(4,5)
      by (auto simp: fdt_next_node_loop.simps [of m fdt off] t split: if_splits)
  next
    case False
    have nn: "0 \<le> nxt" "nxt mod 4 = 0" "nxt < 2147483648"
      using fdt_next_tag_nonneg [OF t False less.prems(1) pl] fdt_next_tag_lt [OF t] by simp_all
    have "17 \<le> fdt_version m fdt" using lay by (simp add: layout_def)
    then obtain r where r: "off + 4 \<le> r" "r \<le> fdt_size_dt_struct m fdt" "nxt = FDT_TAGALIGN r"
      "next_tag_switch m fdt tag (off + 4) = Some r"
      using fdt_next_tag_struct [OF t False nn(1) less.prems(1)] by auto
    have ge: "off \<le> nxt" using fdt_next_tag_range(2) [OF t False less.prems(1)] nn by auto
    have IH: "\<And>d. fdt_next_node_loop m fdt nxt d = (o', d') \<Longrightarrow>
      nxt \<le> o' \<and> o' \<le> fdt_size_dt_struct m fdt \<and> o' mod 4 = 0"
      using less.hyps [OF fdt_next_tag_progress [OF t False] nn(3,1,2) _ less.prems(5)] .
    consider "tag = FDT_PROP \<or> tag = FDT_NOP" | "tag = FDT_BEGIN_NODE" | "tag = FDT_END_NODE"
      using fdt_next_tag_tag [OF t] False by blast
    then show ?thesis
    proof cases
      case 1
      then have "fdt_next_node_loop m fdt nxt d = (o', d')"
        using less.prems(4) by (auto simp: fdt_next_node_loop.simps [of m fdt off] t)
      from IH [OF this] ge show ?thesis by auto
    next
      case 2
      then have "o' = off" using less.prems(4) by (simp add: fdt_next_node_loop.simps [of m fdt off] t)
      then show ?thesis using r less.prems(3) by simp
    next
      case 3
      have "r = off + 4" using r(4) 3 by (simp add: next_tag_switch_def)
      then have "nxt = off + 4" using r(3) less.prems(3) unfolding FDT_TAGALIGN_div by presburger
      then have e: "nxt \<le> fdt_size_dt_struct m fdt" using r \<open>r = off + 4\<close> by simp
      show ?thesis
      proof (cases "\<exists>d''. fdt_next_node_loop m fdt nxt d'' = (o', d')")
        case True
        then show ?thesis using IH ge by fastforce
      next
        case False
        then have "o' = nxt" using less.prems(4) 3
          by (auto simp: fdt_next_node_loop.simps [of m fdt off] t split: option.splits if_splits)
        then show ?thesis using e ge nn by simp
      qed
    qed
  qed
qed

lemma fdt_next_node_bound:
  assumes lay: "layout m fdt" and n: "fdt_next_node m fdt off d = (o', d')"
    and "0 \<le> off" "off < 2147483648" "0 \<le> o'"
  shows "off < o' \<and> o' \<le> fdt_size_dt_struct m fdt \<and> o' mod 4 = 0"
proof -
  define body where "body = fdt_check_node_offset_i m fdt off"
  have body: "0 \<le> body" and l: "fdt_next_node_loop m fdt body d = (o', d')"
    using n assms(3,5) by (auto simp: fdt_next_node_def body_def Let_def split: if_splits)
  have t: "fdt_next_tag m fdt off = (FDT_BEGIN_NODE, body)"
    using fdt_check_node_offsetD [of m fdt off] body by (simp_all add: body_def)
  have nn: "body mod 4 = 0" "body < 2147483648"
    using fdt_next_tag_nonneg [OF t _ assms(4) layout_placed [OF lay]] fdt_next_tag_lt [OF t] by simp_all
  have "off < body" using fdt_next_tag_range(2) [OF t _ assms(4)] body by auto
  then show ?thesis using next_node_loop_bound [OF lay nn(2) body nn(1) l assms(5)] by auto
qed

lemma node_end_loop_bound:
  assumes lay: "layout m fdt"
  shows "0 \<le> d \<Longrightarrow> 0 \<le> off \<Longrightarrow> off < 2147483648 \<Longrightarrow> node_end_loop m fdt off d = e \<Longrightarrow> 0 \<le> e \<Longrightarrow>
    off < e \<and> e \<le> fdt_size_dt_struct m fdt"
proof (induction "walk_left off" arbitrary: off d rule: less_induct)
  case less
  obtain o' d' where n: "fdt_next_node m fdt off (Some d) = (o', d')" by fastforce
  have e: "node_end_loop m fdt o' (the d') = e"
    using less.prems n by (simp add: node_end_loop.simps [of m fdt off])
  have o': "0 \<le> o'"
    using e less.prems(5) by (cases "0 \<le> o'") (auto simp: node_end_loop.simps [of m fdt o'])
  note b = fdt_next_node_bound [OF lay n less.prems(2,3) o']
  show ?case
  proof (cases "the d' < 0")
    case True
    then show ?thesis using e b by (simp add: node_end_loop.simps [of m fdt o'])
  next
    case False
    have "o' < 2147483648" using fdt_next_node_lt [of m fdt off "Some d"] n by simp
    then have "o' < e \<and> e \<le> fdt_size_dt_struct m fdt"
      using less.hyps [OF fdt_next_node_progress [OF n less.prems(2)] _ o' _ e less.prems(5)] False by simp
    then show ?thesis using b by auto
  qed
qed

lemma fdt_del_node_keeps:
  assumes lay: "layout m fdt" and node: "node < 2147483648"
    and r: "fdt_del_node m fdt node = (err, m')"
  shows "edit_keeps fdt m m'"
proof -
  note ll = layout_lin [OF lay]
  define e where "e = fdt_node_end_offset_i m fdt node"
  show ?thesis
  proof (cases "e < 0")
    case True
    then show ?thesis using r edit_keeps_refl [OF lay]
      by (simp add: fdt_del_node_def layout_rw_probe [OF lay] e_def Let_def)
  next
    case False
    have n0: "0 \<le> node"
      using False by (cases "0 \<le> node")
        (auto simp: e_def fdt_node_end_offset_i_def node_end_loop.simps [of m fdt node])
    have b: "node < e" "e \<le> fdt_size_dt_struct m fdt"
      using node_end_loop_bound [OF lay _ n0 node, of 0 e] False by (simp_all add: e_def fdt_node_end_offset_i_def)
    have s: "fdt_splice_struct_i m fdt (fdt_offset_ptr_i m fdt node) (e - node) 0 = (err, m')"
      using r False by (simp add: fdt_del_node_def layout_rw_probe [OF lay] e_def Let_def)
    show ?thesis
      by (rule fdt_splice_struct_keeps(1) [OF lay s])
         (use b n0 node ll in \<open>unfold fdt_offset_ptr_i_def, linarith+\<close>)
  qed
qed

lemma skip_props_bound:
  assumes lay: "layout m fdt"
  shows "off < 2147483648 \<Longrightarrow> 0 \<le> off \<Longrightarrow> off \<le> skip_props m fdt off \<and> skip_props m fdt off < 2147483648"
proof (induction "walk_left off" arbitrary: off rule: less_induct)
  case less
  obtain tag nxt where t: "fdt_next_tag m fdt off = (tag, nxt)" by fastforce
  show ?case
  proof (cases "tag = FDT_PROP \<or> tag = FDT_NOP")
    case False
    then show ?thesis using less.prems by (simp add: skip_props.simps [of m fdt off] t)
  next
    case True
    then have ne: "tag \<noteq> FDT_END" by auto
    have nn: "0 \<le> nxt" "nxt < 2147483648"
      using fdt_next_tag_nonneg [OF t ne less.prems(1) layout_placed [OF lay]] fdt_next_tag_lt [OF t] by simp_all
    then show ?thesis
      using less.hyps [OF fdt_next_tag_progress [OF t ne] nn(2,1)] True
        fdt_next_tag_range(2) [OF t ne less.prems(1)]
      by (simp add: skip_props.simps [of m fdt off] t)
  qed
qed

lemma fdt_add_subnode_keeps:
  assumes lay: "layout m fdt" and node: "parent < 2147483648" and nm: "int (length name) < 1073741800"
    and r: "fdt_add_subnode m fdt parent name = (err, m')"
  shows "edit_keeps fdt m m'"
proof -
  note ll = layout_lin [OF lay]
  obtain tag nxt where t: "fdt_next_tag m fdt parent = (tag, nxt)" by fastforce
  define so where "so = fdt_subnode_offset_namelen m fdt parent name"
  show ?thesis
  proof (cases "so = - FDT_ERR_NOTFOUND \<and> tag = FDT_BEGIN_NODE")
    case False
    then show ?thesis using r t edit_keeps_refl [OF lay]
      by (auto simp: fdt_add_subnode_def fdt_add_subnode_namelen_def layout_rw_probe [OF lay]
          so_def [symmetric] Let_def split: if_splits)
  next
    case True
    have nn: "0 \<le> nxt" "nxt < 2147483648"
      using fdt_next_tag_nonneg [OF t _ node layout_placed [OF lay]] True fdt_next_tag_lt [OF t] by auto
    define o' where "o' = skip_props m fdt nxt"
    have o': "0 \<le> o'" "o' < 2147483648" using skip_props_bound [OF lay nn(2,1)] nn by (simp_all add: o'_def)
    define nh where "nh = fdt + fdt_off_dt_struct m fdt + o'"
    define al where "al = FDT_TAGALIGN (int (length name) + 1)"
    have al: "int (length name) + 1 \<le> al" "al \<le> int (length name) + 4" "s32 (8 + al) = al + 8"
      using FDT_TAGALIGN_bounds [of "int (length name) + 1"] nm by (simp_all add: al_def s32_id)
    obtain e m1 where s: "fdt_splice_struct_i m fdt nh 0 (al + 8) = (e, m1)" by fastforce
    have nb: "fdt + 40 \<le> nh" "nh < fdt + 4294967296" "0 \<le> fdt_size_dt_struct m fdt" "0 \<le> al + 8"
      "al + 8 < 2147483648" using o' ll al nm unfolding nh_def by linarith+
    note k = fdt_splice_struct_keeps [OF lay s nb]
    have ptr: "fdt_offset_ptr_i m fdt o' = nh" by (simp add: fdt_offset_ptr_i_def nh_def)
    show ?thesis
    proof (cases "e = 0")
      case False
      then show ?thesis using r t True s k(1)
        by (simp add: fdt_add_subnode_def fdt_add_subnode_namelen_def layout_rw_probe [OF lay]
            so_def [symmetric] Let_def o'_def [symmetric] ptr al_def [symmetric] al(3))
    next
      case e: True
      have end_le: "nh + (al + 8) \<le> fdt + fdt_totalsize m fdt" using k(7) [OF e] by linarith
      have m': "m' = fdt32_st (put_bytes (memset (fdt32_st m1 nh FDT_BEGIN_NODE) (nh + 4) 0 (nat al))
          (nh + 4) name) (nh + (al + 8) - 4) FDT_END_NODE"
        using r t True s e
        by (simp add: fdt_add_subnode_def fdt_add_subnode_namelen_def layout_rw_probe [OF lay]
            so_def [symmetric] Let_def o'_def [symmetric] ptr al_def [symmetric] al(3))
      have "unchanged_outside (fdt + 40) (fdt + fdt_totalsize m1 fdt) m1 m'"
        unfolding m' edit_keeps_hdr_le [OF k(1)] memset_fill
        using nb end_le al
        by (auto simp: unchanged_outside_def fdt32_st_def put_bytes_def)
      then have "edit_keeps fdt m1 m'" by (rule edit_keeps_above [OF edit_keeps_layout [OF k(1)]])
      then show ?thesis using k(1) by (blast intro: edit_keeps_trans)
    qed
  qed
qed

lemma fdt_set_name_keeps:
  assumes lay: "layout m fdt" and node: "node < 2147483648" and nm: "int (length name) < 1073741800"
    and r: "fdt_set_name m fdt node name = (err, m')"
  shows "edit_keeps fdt m m'"
proof (cases "fdt_get_name m fdt node")
  case (Pair p olen)
  note ll = layout_lin [OF lay]
  show ?thesis
  proof (cases p)
    case None
    then show ?thesis using r Pair edit_keeps_refl [OF lay]
      by (simp add: fdt_set_name_def layout_rw_probe [OF lay])
  next
    case (Some q)
    have ver: "fdt_version m fdt = 17" using lay by (simp add: layout_def)
    define np where "np = fdt_offset_ptr_i m fdt node + 4"
    have nc: "0 \<le> fdt_check_node_offset_i m fdt node" and q: "q = np" and ol: "olen = s32 (int (strlen m np))"
      using Pair Some ver by (auto simp: fdt_get_name_def np_def Let_def split: if_splits)
    have t: "fdt_next_tag m fdt node = (FDT_BEGIN_NODE, fdt_check_node_offset_i m fdt node)" "0 \<le> node"
      using fdt_check_node_offsetD [OF nc] by simp_all
    obtain rr where rr: "node + 4 \<le> rr" "rr \<le> fdt_size_dt_struct m fdt"
      "next_tag_switch m fdt FDT_BEGIN_NODE (node + 4) = Some rr"
      using fdt_next_tag_struct [OF t(1) _ nc node] ver by auto
    then obtain z where z: "node + 4 \<le> z" "rr = z + 1" "m (fdt + fdt_off_dt_struct m fdt + z) = 0"
      using skip_name_nul [of m fdt "node + 4" rr] t(2) ll by (auto simp: next_tag_switch_def)
    have "np + int (strlen m np) \<le> fdt + fdt_off_dt_struct m fdt + z"
      using strlen_same [of np "fdt + fdt_off_dt_struct m fdt + z" m m] z
      by (auto simp: np_def fdt_offset_ptr_i_def)
    then have sl: "node + 4 + int (strlen m np) + 1 \<le> fdt_size_dt_struct m fdt"
      using z rr by (simp add: np_def fdt_offset_ptr_i_def)
    have ol: "olen = int (strlen m np)" unfolding ol using sl ll t(2) by (intro s32_id) linarith+
    have ta: "s32 (FDT_TAGALIGN (olen + 1)) = FDT_TAGALIGN (olen + 1)" "FDT_TAGALIGN (olen + 1) \<le> olen + 4"
      "s32 (FDT_TAGALIGN (int (length name) + 1)) = FDT_TAGALIGN (int (length name) + 1)"
      "int (length name) + 1 \<le> FDT_TAGALIGN (int (length name) + 1)"
      "FDT_TAGALIGN (int (length name) + 1) < 2147483648"
      using TAGALIGN_s32 [of "olen + 1"] TAGALIGN_s32 [of "int (length name) + 1"] nm ol sl t(2) ll
      by simp_all
    obtain e m1 where s: "fdt_splice_struct_i m fdt np (FDT_TAGALIGN (olen + 1))
        (FDT_TAGALIGN (int (length name) + 1)) = (e, m1)" by fastforce
    have nb: "fdt + 40 \<le> np" "np < fdt + 4294967296" "FDT_TAGALIGN (olen + 1) \<le> fdt_size_dt_struct m fdt"
      "0 \<le> FDT_TAGALIGN (int (length name) + 1)"
      using sl ol ta ll t(2) node unfolding np_def fdt_offset_ptr_i_def by linarith+
    note k = fdt_splice_struct_keeps [OF lay s nb ta(5)]
    show ?thesis
    proof (cases "e = 0")
      case False
      then show ?thesis using r Pair Some s k(1) q
        by (simp add: fdt_set_name_def layout_rw_probe [OF lay] ta Let_def)
    next
      case True
      have "m' = put_bytes m1 np (name @ [0])"
        using r Pair Some s True q by (simp add: fdt_set_name_def layout_rw_probe [OF lay] ta Let_def)
      moreover have "np + FDT_TAGALIGN (int (length name) + 1) \<le> fdt + fdt_totalsize m fdt"
        using k(7) [OF True] by linarith
      ultimately show ?thesis using nb ta by (auto intro!: put_bytes_keeps [OF k(1)])
    qed
  qed
qed

section \<open>Sequences of edits\<close>

lemma fdt_setprop_inplace_keeps:
  assumes lay: "layout m fdt" and node: "node < 2147483648"
    and r: "fdt_setprop_inplace m fdt node name val = (err, m')"
  shows "edit_keeps fdt m m'"
proof (cases "err = 0")
  case True
  then obtain v where v: "m' = put_bytes m v val" "fdt + 40 \<le> v"
    "v + int (length val) \<le> fdt + fdt_totalsize m fdt"
    using fdt_setprop_inplace_getprop [OF lay node r [unfolded True]] by blast
  then show ?thesis using put_bytes_keeps [OF edit_keeps_refl [OF lay]] by simp
next
  case False
  then have "m' = m" using r
    by (auto simp: fdt_setprop_inplace_def fdt_setprop_inplace_namelen_partial_def
        split: if_splits option.splits prod.splits)
  then show ?thesis using edit_keeps_refl [OF lay] by simp
qed

text \<open>
  The interface of the writers: each edit, whatever it returns, keeps the layout and stays within
  the tree. A sequence of edits then does too, failed ones included.
\<close>

primrec run_edits :: "('a \<Rightarrow> mem \<Rightarrow> addr \<Rightarrow> int \<times> mem) \<Rightarrow> addr \<Rightarrow> 'a list \<Rightarrow> mem \<Rightarrow> mem" where
  "run_edits edit fdt [] m = m"
| "run_edits edit fdt (a # as) m = run_edits edit fdt as (snd (edit a m fdt))"

locale tree_editor =
  fixes ok :: "'a \<Rightarrow> bool" and edit :: "'a \<Rightarrow> mem \<Rightarrow> addr \<Rightarrow> int \<times> mem"
  assumes keeps: "layout m fdt \<Longrightarrow> ok a \<Longrightarrow> edit a m fdt = (err, m') \<Longrightarrow> edit_keeps fdt m m'"
begin

lemma run_keeps: "layout m fdt \<Longrightarrow> list_all ok as \<Longrightarrow> edit_keeps fdt m (run_edits edit fdt as m)"
proof (induction as arbitrary: m)
  case Nil
  then show ?case by (simp add: edit_keeps_refl)
next
  case (Cons a as)
  obtain err m' where e: "edit a m fdt = (err, m')" by fastforce
  then have k: "edit_keeps fdt m m'" using keeps [of m fdt a err m'] Cons.prems by simp
  then have "edit_keeps fdt m' (run_edits edit fdt as m')"
    using Cons edit_keeps_layout by simp
  with k show ?case by (auto simp: e intro: edit_keeps_trans)
qed

lemma run_outside:
  "layout m fdt \<Longrightarrow> list_all ok as \<Longrightarrow> x < fdt \<or> fdt + fdt_totalsize m fdt \<le> x \<Longrightarrow>
   run_edits edit fdt as m x = m x"
  using run_keeps [of m fdt as] by (auto simp: edit_keeps_def)

end

text \<open>
  The edits of \<open>libfdt.h\<close> that keep \<open>totalsize\<close>, as requests. A node offset is an \<open>int\<close>; names and
  values are shorter than half of the largest \<open>int\<close>.
\<close>

datatype request =
    Setprop int "byte list" "byte list"
  | Setprop_inplace int "byte list" "byte list"
  | Appendprop int "byte list" "byte list"
  | Delprop int "byte list"
  | Add_subnode int "byte list"
  | Del_node int
  | Set_name int "byte list"

fun apply_request :: "request \<Rightarrow> mem \<Rightarrow> addr \<Rightarrow> int \<times> mem" where
  "apply_request (Setprop node name val) m fdt = fdt_setprop m fdt node name val"
| "apply_request (Setprop_inplace node name val) m fdt = fdt_setprop_inplace m fdt node name val"
| "apply_request (Appendprop node name val) m fdt = fdt_appendprop m fdt node name val"
| "apply_request (Delprop node name) m fdt = fdt_delprop m fdt node name"
| "apply_request (Add_subnode parent name) m fdt = fdt_add_subnode m fdt parent name"
| "apply_request (Del_node node) m fdt = fdt_del_node m fdt node"
| "apply_request (Set_name node name) m fdt = fdt_set_name m fdt node name"

fun request_ok :: "request \<Rightarrow> bool" where
  "request_ok (Setprop node name val) \<longleftrightarrow>
     node < 2147483648 \<and> int (length name) < 1073741800 \<and> int (length val) < 1073741800"
| "request_ok (Setprop_inplace node name val) \<longleftrightarrow> node < 2147483648"
| "request_ok (Appendprop node name val) \<longleftrightarrow>
     node < 2147483648 \<and> int (length name) < 1073741800 \<and> int (length val) < 1073741800"
| "request_ok (Delprop node name) \<longleftrightarrow> node < 2147483648"
| "request_ok (Add_subnode parent name) \<longleftrightarrow> parent < 2147483648 \<and> int (length name) < 1073741800"
| "request_ok (Del_node node) \<longleftrightarrow> node < 2147483648"
| "request_ok (Set_name node name) \<longleftrightarrow> node < 2147483648 \<and> int (length name) < 1073741800"

lemma apply_request_keeps:
  assumes "layout m fdt" "request_ok a" "apply_request a m fdt = (err, m')"
  shows "edit_keeps fdt m m'"
proof (cases a)
  case (Setprop node name val)
  with assms show ?thesis by (intro fdt_setprop_keeps [where err = err and val = val]) auto
next
  case (Setprop_inplace node name val)
  with assms show ?thesis by (intro fdt_setprop_inplace_keeps [where err = err and val = val]) auto
next
  case (Appendprop node name val)
  with assms show ?thesis by (intro fdt_appendprop_keeps [where err = err and val = val]) auto
next
  case (Delprop node name)
  with assms show ?thesis by (intro fdt_delprop_keeps [where err = err]) auto
next
  case (Add_subnode parent name)
  with assms show ?thesis by (intro fdt_add_subnode_keeps [where err = err]) auto
next
  case (Del_node node)
  with assms show ?thesis by (intro fdt_del_node_keeps [where err = err]) auto
next
  case (Set_name node name)
  with assms show ?thesis by (intro fdt_set_name_keeps [where err = err]) auto
qed

interpretation rw: tree_editor request_ok apply_request
  by unfold_locales (rule apply_request_keeps)

end
