(* ===== verification/Sw_Machine.thy ===== *)
theory Sw_Machine
  imports Fdt_Sw Fdt_Edit
begin

text \<open>
  The sequential builder of \<open>fdt_sw.c\<close> as a state machine: what holds of a tree under construction,
  that every call keeps it and writes only into the buffer, and where \<open>fdt_add_string_\<close> does not.
\<close>

section \<open>The invariant of a tree under construction\<close>

definition sw_inv :: "mem \<Rightarrow> addr \<Rightarrow> bool" where
  "sw_inv m fdt \<longleftrightarrow>
     fdt_magic m fdt = FDT_SW_MAGIC \<and> fdt_version m fdt = 17 \<and> fdt_off_mem_rsvmap m fdt = 48
     \<and> 48 \<le> fdt_off_dt_struct m fdt
     \<and> fdt_off_dt_struct m fdt + fdt_size_dt_struct m fdt + fdt_size_dt_strings m fdt \<le> fdt_totalsize m fdt
     \<and> fdt_totalsize m fdt < 2147483648
     \<and> (fdt_off_dt_strings m fdt = fdt_totalsize m fdt
        \<or> fdt_off_dt_strings m fdt = 0 \<and> fdt_size_dt_struct m fdt = 0 \<and> fdt_size_dt_strings m fdt = 0)"

lemma sw_inv_lin:
  assumes "sw_inv m fdt"
  shows "48 \<le> fdt_off_dt_struct m fdt"
    "fdt_off_dt_struct m fdt + fdt_size_dt_struct m fdt + fdt_size_dt_strings m fdt \<le> fdt_totalsize m fdt"
    "fdt_totalsize m fdt < 2147483648" "0 \<le> fdt_size_dt_struct m fdt" "0 \<le> fdt_size_dt_strings m fdt"
    "48 \<le> fdt_totalsize m fdt"
proof -
  have "0 \<le> fdt_size_dt_struct m fdt" "0 \<le> fdt_size_dt_strings m fdt" by simp_all
  then show "48 \<le> fdt_off_dt_struct m fdt"
    "fdt_off_dt_struct m fdt + fdt_size_dt_struct m fdt + fdt_size_dt_strings m fdt \<le> fdt_totalsize m fdt"
    "fdt_totalsize m fdt < 2147483648" "0 \<le> fdt_size_dt_struct m fdt" "0 \<le> fdt_size_dt_strings m fdt"
    "48 \<le> fdt_totalsize m fdt"
    using assms unfolding sw_inv_def by linarith+
qed

lemma sw_inv_hdr: "sw_inv m fdt \<Longrightarrow> agree fdt (fdt + SIZEOF_HEADER) m m' \<Longrightarrow> sw_inv m' fdt"
  unfolding sw_inv_def by (simp only: fdt_hdr_agree [of fdt m m'])

text \<open>What a construction step keeps.\<close>

definition sw_keeps :: "addr \<Rightarrow> mem \<Rightarrow> mem \<Rightarrow> bool" where
  "sw_keeps fdt m m' \<longleftrightarrow>
     sw_inv m' fdt \<and> fdt_totalsize m' fdt = fdt_totalsize m fdt
     \<and> unchanged_outside fdt (fdt + fdt_totalsize m fdt) m m'"

lemma sw_keeps_refl: "sw_inv m fdt \<Longrightarrow> sw_keeps fdt m m"
  by (simp add: sw_keeps_def)

lemma sw_keeps_trans: "sw_keeps fdt m m' \<Longrightarrow> sw_keeps fdt m' m'' \<Longrightarrow> sw_keeps fdt m m''"
  by (auto simp: sw_keeps_def intro: unchanged_outside_trans)

lemma sw_keeps_above:
  assumes "sw_keeps fdt m m1" "unchanged_outside (fdt + SIZEOF_HEADER) (fdt + fdt_totalsize m fdt) m1 m'"
  shows "sw_keeps fdt m m'"
proof -
  have a: "agree fdt (fdt + SIZEOF_HEADER) m1 m'" using assms(2) by (auto simp: unchanged_outside_def agree_def)
  have "unchanged_outside fdt (fdt + fdt_totalsize m fdt) m1 m'"
    by (rule unchanged_outside_mono [OF assms(2)]) simp_all
  then show ?thesis
    using assms(1) sw_inv_hdr [OF _ a] fdt_hdr_agree(2) [OF a]
    unfolding sw_keeps_def by (auto intro: unchanged_outside_trans)
qed

lemma fdt_grab_space_ok:
  assumes inv: "sw_inv m fdt" and st: "fdt_off_dt_strings m fdt = fdt_totalsize m fdt"
    and g: "fdt_grab_space_i m fdt len = Some (p, m')" and len: "0 \<le> len" "len < 8589934592"
  shows "sw_keeps fdt m m'" "p = fdt + fdt_off_dt_struct m fdt + fdt_size_dt_struct m fdt"
    "p + len \<le> fdt + fdt_totalsize m fdt - fdt_size_dt_strings m fdt" "fdt + 48 \<le> p"
    "fdt_size_dt_struct m' fdt = fdt_size_dt_struct m fdt + len"
    "fdt_off_dt_strings m' fdt = fdt_totalsize m' fdt"
    "fdt_size_dt_strings m' fdt = fdt_size_dt_strings m fdt"
proof -
  note ll = sw_inv_lin [OF inv]
  have sp: "u32 (fdt_totalsize m fdt - fdt_off_dt_struct m fdt - fdt_size_dt_strings m fdt)
      = fdt_totalsize m fdt - fdt_off_dt_struct m fdt - fdt_size_dt_strings m fdt"
    using ll by (intro u32_id) linarith+
  have ol: "u64 (fdt_size_dt_struct m fdt + len) = fdt_size_dt_struct m fdt + len"
    using ll len by (intro u64_id) linarith+
  have le: "fdt_size_dt_struct m fdt + len
      \<le> fdt_totalsize m fdt - fdt_off_dt_struct m fdt - fdt_size_dt_strings m fdt"
    and m': "m' = fdt_set_size_dt_struct m fdt (fdt_size_dt_struct m fdt + len)"
    and p: "p = fdt_offset_ptr_i m' fdt (fdt_size_dt_struct m fdt)"
    using g by (auto simp: fdt_grab_space_i_def Let_def sp ol split: if_splits)
  have sz: "u32 (fdt_size_dt_struct m fdt + len) = fdt_size_dt_struct m fdt + len"
    using ll len le by (intro u32_id) linarith+
  show p': "p = fdt + fdt_off_dt_struct m fdt + fdt_size_dt_struct m fdt"
    unfolding p fdt_offset_ptr_i_def m' by (simp add: fdt_set_fields)
  have "sw_inv m' fdt"
    using inv ll le st unfolding sw_inv_def m' fdt_set_fields sz by linarith
  moreover have "unchanged_outside fdt (fdt + fdt_totalsize m fdt) m m'"
    unfolding m' by (rule unchanged_outside_mono [OF fdt_set_unchanged(1)]) (use ll in simp_all)
  ultimately show "sw_keeps fdt m m'" by (simp add: sw_keeps_def m' fdt_set_fields)
  show "p + len \<le> fdt + fdt_totalsize m fdt - fdt_size_dt_strings m fdt" "fdt + 48 \<le> p"
    using p' le ll by linarith+
  show "fdt_size_dt_struct m' fdt = fdt_size_dt_struct m fdt + len"
    "fdt_off_dt_strings m' fdt = fdt_totalsize m' fdt"
    "fdt_size_dt_strings m' fdt = fdt_size_dt_strings m fdt"
    unfolding m' fdt_set_fields sz using st by simp_all
qed

lemma fdt_sw_probe_structD:
  "fdt_sw_probe_struct_i m fdt = 0 \<Longrightarrow>
   fdt_magic m fdt = FDT_SW_MAGIC \<and> fdt_off_dt_strings m fdt = fdt_totalsize m fdt"
  by (auto simp: fdt_sw_probe_struct_i_def fdt_sw_probe_i_def Let_def split: if_splits)

section \<open>The steps\<close>

lemma TAGALIGN_le: "0 \<le> x \<Longrightarrow> x \<le> FDT_TAGALIGN x \<and> FDT_TAGALIGN x \<le> x + 3 \<and> 0 \<le> FDT_TAGALIGN x"
  using FDT_TAGALIGN_bounds [of x] by auto

lemma fdt_begin_node_keeps:
  assumes inv: "sw_inv m fdt" and nm: "int (length name) < 2147483600"
    and r: "fdt_begin_node m fdt name = (err, m')"
  shows "sw_keeps fdt m m'"
proof (cases "fdt_sw_probe_struct_i m fdt = 0")
  case False
  then show ?thesis using r sw_keeps_refl [OF inv] by (simp add: fdt_begin_node_def)
next
  case True
  define len where "len = 4 + FDT_TAGALIGN (int (length name) + 1)"
  have len: "0 \<le> len" "len < 8589934592" "int (length name) + 1 + 4 \<le> len"
    using TAGALIGN_le [of "int (length name) + 1"] nm by (simp_all add: len_def)
  show ?thesis
  proof (cases "fdt_grab_space_i m fdt len")
    case None
    then show ?thesis using r True sw_keeps_refl [OF inv] by (simp add: fdt_begin_node_def len_def Let_def)
  next
    case (Some q)
    obtain p m1 where q: "q = (p, m1)" by fastforce
    note g = fdt_grab_space_ok [OF inv _ Some [unfolded q] len(1,2)]
    have st: "fdt_off_dt_strings m fdt = fdt_totalsize m fdt" using fdt_sw_probe_structD [OF True] by simp
    have m': "m' = put_bytes (fdt32_st m1 p FDT_BEGIN_NODE) (p + 4) (name @ [0])"
      using r True Some q by (simp add: fdt_begin_node_def len_def Let_def)
    have le: "p + 4 + int (length name) + 1 \<le> fdt + fdt_totalsize m fdt" "fdt + 48 \<le> p"
      using g(3,4) [OF st] len(3) sw_inv_lin(5) [OF inv] by linarith+
    have "unchanged_outside (fdt + 40) (fdt + fdt_totalsize m fdt) m1 m'"
      unfolding m' using le by (auto simp: unchanged_outside_def fdt32_st_def put_bytes_def)
    then show ?thesis by (rule sw_keeps_above [OF g(1) [OF st]])
  qed
qed

lemma fdt_end_node_keeps:
  assumes inv: "sw_inv m fdt" and r: "fdt_end_node m fdt = (err, m')"
  shows "sw_keeps fdt m m'"
proof (cases "fdt_sw_probe_struct_i m fdt = 0")
  case False
  then show ?thesis using r sw_keeps_refl [OF inv] by (simp add: fdt_end_node_def)
next
  case True
  show ?thesis
  proof (cases "fdt_grab_space_i m fdt 4")
    case None
    then show ?thesis using r True sw_keeps_refl [OF inv] by (simp add: fdt_end_node_def)
  next
    case (Some q)
    obtain p m1 where q: "q = (p, m1)" by fastforce
    have st: "fdt_off_dt_strings m fdt = fdt_totalsize m fdt" using fdt_sw_probe_structD [OF True] by simp
    have four: "(0::int) \<le> 4" "(4::int) < 8589934592" by simp_all
    note g = fdt_grab_space_ok [OF inv st Some [unfolded q] four]
    have m': "m' = fdt32_st m1 p FDT_END_NODE" using r True Some q by (simp add: fdt_end_node_def)
    have "unchanged_outside (fdt + 40) (fdt + fdt_totalsize m fdt) m1 m'"
      unfolding m' using g(3,4) sw_inv_lin(5) [OF inv] by (intro fdt32_st_unchanged) linarith+
    then show ?thesis by (rule sw_keeps_above [OF g(1)])
  qed
qed

text \<open>A name fits the buffer: its string, with the strings already there, is not longer.\<close>

definition name_fits :: "mem \<Rightarrow> addr \<Rightarrow> byte list \<Rightarrow> bool" where
  "name_fits m fdt s \<longleftrightarrow> fdt_size_dt_strings m fdt + int (length s) + 1 \<le> fdt_totalsize m fdt"

lemma sw_add_string_keeps:
  assumes inv: "sw_inv m fdt" and st: "fdt_off_dt_strings m fdt = fdt_totalsize m fdt"
    and fits: "name_fits m fdt s" and r: "sw_add_string_i m fdt s = (off, m')"
  shows "sw_keeps fdt m m'" "off = 0 \<Longrightarrow> m' = m"
    "off \<noteq> 0 \<Longrightarrow> fdt_size_dt_strings m' fdt = fdt_size_dt_strings m fdt + int (length s) + 1"
    "fdt_off_dt_strings m' fdt = fdt_totalsize m' fdt"
proof -
  note ll = sw_inv_lin [OF inv]
  define off0 where "off0 = fdt_size_dt_strings m fdt + (int (length s) + 1)"
  have "0 < off0" "off0 \<le> fdt_totalsize m fdt"
    using fits ll unfolding name_fits_def off0_def by linarith+
  moreover from this have "u32 off0 = off0" using ll by (intro u32_id) linarith+
  ultimately have off0: "0 < off0" "off0 \<le> fdt_totalsize m fdt" "u32 off0 = off0" .
  have top: "u32 (fdt_off_dt_struct m fdt + fdt_size_dt_struct m fdt)
      = fdt_off_dt_struct m fdt + fdt_size_dt_struct m fdt"
    using ll by (intro u32_id) linarith+
  have left: "u32 (fdt_totalsize m fdt - off0) = fdt_totalsize m fdt - off0"
    using off0 ll by (intro u32_id) linarith+
  have all: "sw_keeps fdt m m' \<and> (off = 0 \<longrightarrow> m' = m) \<and>
    (off \<noteq> 0 \<longrightarrow> fdt_size_dt_strings m' fdt = fdt_size_dt_strings m fdt + int (length s) + 1)
    \<and> fdt_off_dt_strings m' fdt = fdt_totalsize m' fdt"
  proof (cases "fdt_totalsize m fdt - off0 < fdt_off_dt_struct m fdt + fdt_size_dt_struct m fdt")
    case True
    then show ?thesis using r sw_keeps_refl [OF inv] st off0(3) left top
      by (simp add: sw_add_string_i_def Let_def off0_def)
  next
    case False
    define m1 where "m1 = put_bytes m (fdt + fdt_totalsize m fdt - off0) (s @ [0])"
    have m': "m' = fdt_set_size_dt_strings m1 fdt off0" "off = s32 (- off0)"
      using r False off0(3) left top by (simp_all add: sw_add_string_i_def Let_def off0_def m1_def)
    have un: "unchanged_outside (fdt + 40) (fdt + fdt_totalsize m fdt) m m1"
    proof -
      have "fdt + 40 \<le> fdt + fdt_totalsize m fdt - off0" using False ll by linarith
      then show ?thesis unfolding m1_def
        using ll(5) by (intro put_bytes_unchanged) (simp_all add: off0_def)
    qed
    have k1: "sw_keeps fdt m m1" by (rule sw_keeps_above [OF sw_keeps_refl [OF inv] un])
    have ag: "agree fdt (fdt + 40) m m1" using un by (auto simp: unchanged_outside_def agree_def)
    note h = fdt_hdr_agree [OF ag, symmetric]
    have inv': "sw_inv m' fdt"
      using inv ll False st unfolding sw_inv_def m' fdt_set_fields off0(3) h by linarith
    have un2: "unchanged_outside fdt (fdt + fdt_totalsize m fdt) m1 m'"
      unfolding m' by (rule unchanged_outside_mono [OF fdt_set_unchanged(4)]) (use ll in simp_all)
    have un3: "unchanged_outside fdt (fdt + fdt_totalsize m fdt) m m1"
      by (rule unchanged_outside_mono [OF un]) simp_all
    have t: "fdt_totalsize m' fdt = fdt_totalsize m fdt" "fdt_off_dt_strings m' fdt = fdt_totalsize m fdt"
      "fdt_size_dt_strings m' fdt = off0"
      unfolding m' fdt_set_fields h off0(3) using st by simp_all
    have "off \<noteq> 0" using m'(2) off0 ll by (auto simp: s32_id)
    then show ?thesis
      using inv' t unchanged_outside_trans [OF un3 un2] off0_def by (simp add: sw_keeps_def)
  qed
  from all show "sw_keeps fdt m m'" "off = 0 \<Longrightarrow> m' = m"
    "off \<noteq> 0 \<Longrightarrow> fdt_size_dt_strings m' fdt = fdt_size_dt_strings m fdt + int (length s) + 1"
    "fdt_off_dt_strings m' fdt = fdt_totalsize m' fdt" by simp_all
qed

lemma sw_del_last_string_keeps:
  assumes inv: "sw_inv m fdt" and st: "fdt_off_dt_strings m fdt = fdt_totalsize m fdt"
    and le: "int (length s) + 1 \<le> fdt_size_dt_strings m fdt"
  shows "sw_keeps fdt m (sw_del_last_string_i m fdt s)"
proof -
  note ll = sw_inv_lin [OF inv]
  have e: "s32 (fdt_size_dt_strings m fdt) = fdt_size_dt_strings m fdt"
    "u32 (fdt_size_dt_strings m fdt - (int (length s) + 1)) = fdt_size_dt_strings m fdt - (int (length s) + 1)"
    using ll le by (intro s32_id u32_id; linarith)+
  have "sw_inv (sw_del_last_string_i m fdt s) fdt"
    using inv ll le st unfolding sw_inv_def sw_del_last_string_i_def Let_def fdt_set_fields e by linarith
  moreover have "unchanged_outside fdt (fdt + fdt_totalsize m fdt) m (sw_del_last_string_i m fdt s)"
    unfolding sw_del_last_string_i_def Let_def
    by (rule unchanged_outside_mono [OF fdt_set_unchanged(4)]) (use ll in simp_all)
  ultimately show ?thesis by (simp add: sw_keeps_def sw_del_last_string_i_def fdt_set_fields)
qed

lemma fdt_property_keeps:
  assumes inv: "sw_inv m fdt" and len: "int (length val) < 2147483600" and fits: "name_fits m fdt name"
    and r: "fdt_property m fdt name val = (err, m')"
  shows "sw_keeps fdt m m'"
proof (cases "fdt_sw_probe_struct_i m fdt = 0")
  case False
  then show ?thesis using r sw_keeps_refl [OF inv] by (simp add: fdt_property_def fdt_property_placeholder_def)
next
  case True
  have st: "fdt_off_dt_strings m fdt = fdt_totalsize m fdt" using fdt_sw_probe_structD [OF True] by simp
  obtain no al m1 where str: "(if sw_flags m fdt AND FDT_CREATE_FLAG_NO_NAME_DEDUP \<noteq> 0
      then (case sw_add_string_i m fdt name of (off, m) \<Rightarrow> (off, True, m))
      else sw_find_add_string_i m fdt name) = (no, al, m1)"
    by (metis prod_cases3)
  have k1: "sw_keeps fdt m m1 \<and> fdt_off_dt_strings m1 fdt = fdt_totalsize m1 fdt
      \<and> (al \<longrightarrow> no \<noteq> 0 \<longrightarrow> int (length name) + 1 \<le> fdt_size_dt_strings m1 fdt)"
  proof (cases "al")
    case False
    then have "m1 = m" using str
      by (auto simp: sw_find_add_string_i_def Let_def split: if_splits option.splits prod.splits)
    then show ?thesis using False st sw_keeps_refl [OF inv] by simp
  next
    case True
    then have a: "sw_add_string_i m fdt name = (no, m1)" using str
      by (auto simp: sw_find_add_string_i_def Let_def split: if_splits option.splits prod.splits)
    show ?thesis
      using sw_add_string_keeps [OF inv st fits a] sw_inv_lin(5) [OF inv] by auto
  qed
  define tl where "tl = 12 + FDT_TAGALIGN (int (length val))"
  have tl: "u64 (12 + FDT_TAGALIGN (int (length val))) = tl" "0 \<le> tl" "tl < 8589934592"
    "12 + int (length val) \<le> tl"
    using TAGALIGN_le [of "int (length val)"] len unfolding tl_def by (auto intro!: u64_id)
  have inv1: "sw_inv m1 fdt" and tot: "fdt_totalsize m1 fdt = fdt_totalsize m fdt"
    using k1 by (simp_all add: sw_keeps_def)
  show ?thesis
  proof (cases "no = 0")
    case no: True
    then have "m' = m1"
      using r True str by (simp add: fdt_property_def fdt_property_placeholder_def split: prod.splits)
    then show ?thesis using k1 by simp
  next
    case no: False
    show ?thesis
    proof (cases "fdt_grab_space_i m1 fdt tl")
      case None
      then have "m' = (if al then sw_del_last_string_i m1 fdt name else m1)"
        using r True str no tl(1) by (simp add: fdt_property_def fdt_property_placeholder_def)
      then show ?thesis
        using k1 no sw_keeps_trans [OF _ sw_del_last_string_keeps [OF inv1]] by simp
    next
      case (Some q)
      obtain p m2 where q: "q = (p, m2)" by fastforce
      have st1: "fdt_off_dt_strings m1 fdt = fdt_totalsize m1 fdt" using k1 by simp
      note g = fdt_grab_space_ok [OF inv1 st1 Some [unfolded q] tl(2,3)]
      have m': "m' = put_bytes (fdt32_st (fdt32_st (fdt32_st m2 p FDT_PROP) (p + 8) no) (p + 4)
          (int (length val))) (p + 12) val"
        using r True str no tl(1) Some q by (simp add: fdt_property_def fdt_property_placeholder_def Let_def)
      have le: "p + 12 + int (length val) \<le> fdt + fdt_totalsize m fdt" "fdt + 48 \<le> p"
        using g(3,4) tl(4) sw_inv_lin(5) [OF inv1] tot by linarith+
      have "unchanged_outside (fdt + 40) (fdt + fdt_totalsize m fdt) m2 m'"
        unfolding m' using le by (auto simp: unchanged_outside_def fdt32_st_def put_bytes_def)
      moreover have "sw_keeps fdt m m2" using k1 g(1) by (blast intro: sw_keeps_trans)
      ultimately show ?thesis using sw_keeps_above by blast
    qed
  qed
qed


lemma fdt32_ld_st64 [mem_simps]:
  "q + 4 \<le> p \<or> p + 8 \<le> q \<Longrightarrow> fdt32_ld (fdt64_st m p v) q = fdt32_ld m q"
  by (auto simp: fdt64_st_def fdt32_ld_st_other)

lemma fdt32_st_chain:
  "unchanged_outside lo hi m m1 \<Longrightarrow> lo \<le> p \<Longrightarrow> p + 4 \<le> hi \<Longrightarrow> unchanged_outside lo hi m (fdt32_st m1 p v)"
  by (rule unchanged_outside_trans [OF _ fdt32_st_unchanged])

lemma fdt64_st_unchanged: "lo \<le> p \<Longrightarrow> p + 8 \<le> hi \<Longrightarrow> unchanged_outside lo hi m (fdt64_st m p v)"
  by (auto simp: unchanged_outside_def fdt64_st_def fdt32_st_def)

lemma fdt_add_reservemap_keeps:
  assumes inv: "sw_inv m fdt" and r: "fdt_add_reservemap_entry m fdt a sz = (err, m')"
  shows "sw_keeps fdt m m'" "err \<noteq> 0 \<Longrightarrow> m' = m"
    "err = 0 \<Longrightarrow> fdt_off_dt_strings m' fdt = 0 \<and> fdt_size_dt_strings m' fdt = 0 \<and> fdt_size_dt_struct m' fdt = 0
      \<and> fdt_off_dt_struct m' fdt = fdt_off_dt_struct m fdt + 16"
proof -
  note ll = sw_inv_lin [OF inv]
  have all: "sw_keeps fdt m m' \<and> (err \<noteq> 0 \<longrightarrow> m' = m) \<and> (err = 0 \<longrightarrow>
    fdt_off_dt_strings m' fdt = 0 \<and> fdt_size_dt_strings m' fdt = 0 \<and> fdt_size_dt_struct m' fdt = 0
      \<and> fdt_off_dt_struct m' fdt = fdt_off_dt_struct m fdt + 16)"
  proof (cases "fdt_sw_probe_memrsv_i m fdt = 0 \<and> fdt_off_dt_struct m fdt + 16 \<le> fdt_totalsize m fdt")
    case False
    have o: "s32 (fdt_off_dt_struct m fdt) = fdt_off_dt_struct m fdt"
      "u64 (fdt_off_dt_struct m fdt + 16) = fdt_off_dt_struct m fdt + 16"
      using ll by (intro s32_id u64_id; linarith)+
    show ?thesis using r False sw_keeps_refl [OF inv] o
      by (auto simp: fdt_add_reservemap_entry_def Let_def split: if_splits)
  next
    case True
    have o: "s32 (fdt_off_dt_struct m fdt) = fdt_off_dt_struct m fdt"
      "u64 (fdt_off_dt_struct m fdt + 16) = fdt_off_dt_struct m fdt + 16"
      "u32 (fdt_off_dt_struct m fdt + 16) = fdt_off_dt_struct m fdt + 16"
      using ll True by (intro s32_id u64_id u32_id; linarith)+
    define re where "re = fdt + fdt_off_dt_struct m fdt"
    define m1 where "m1 = fdt64_st (fdt64_st m re a) (re + 8) sz"
    have m': "m' = fdt_set_off_dt_struct m1 fdt (fdt_off_dt_struct m fdt + 16)" "err = 0"
      using r True o by (simp_all add: fdt_add_reservemap_entry_def Let_def m1_def re_def)
    have z: "fdt_off_dt_strings m fdt = 0" "fdt_size_dt_struct m fdt = 0" "fdt_size_dt_strings m fdt = 0"
      using True inv ll by (auto simp: fdt_sw_probe_memrsv_i_def sw_inv_def Let_def split: if_splits)
    have un: "unchanged_outside (fdt + 40) (fdt + fdt_totalsize m fdt) m m1"
      unfolding m1_def using ll True
      by (intro unchanged_outside_trans [OF fdt64_st_unchanged fdt64_st_unchanged]) (simp_all add: re_def)
    have k1: "sw_keeps fdt m m1" by (rule sw_keeps_above [OF sw_keeps_refl [OF inv] un])
    have ag: "agree fdt (fdt + 40) m m1" using un by (auto simp: unchanged_outside_def agree_def)
    note h = fdt_hdr_agree [OF ag, symmetric]
    have inv': "sw_inv m' fdt"
      using inv ll True z unfolding sw_inv_def m' fdt_set_fields o(3) h by linarith
    have un2: "unchanged_outside fdt (fdt + fdt_totalsize m fdt) m1 m'"
      unfolding m' by (rule unchanged_outside_mono [OF fdt_set_unchanged(3)]) (use ll in simp_all)
    have un3: "unchanged_outside fdt (fdt + fdt_totalsize m fdt) m m1"
      by (rule unchanged_outside_mono [OF un]) simp_all
    show ?thesis
      using inv' unchanged_outside_trans [OF un3 un2] z o(3) m'(2)
      by (simp add: sw_keeps_def m'(1) fdt_set_fields h)
  qed
  from all show "sw_keeps fdt m m'" "err \<noteq> 0 \<Longrightarrow> m' = m"
    "err = 0 \<Longrightarrow> fdt_off_dt_strings m' fdt = 0 \<and> fdt_size_dt_strings m' fdt = 0 \<and> fdt_size_dt_struct m' fdt = 0
      \<and> fdt_off_dt_struct m' fdt = fdt_off_dt_struct m fdt + 16" by simp_all
qed

lemma fdt_finish_reservemap_keeps:
  assumes inv: "sw_inv m fdt" and r: "fdt_finish_reservemap m fdt = (err, m')"
  shows "sw_keeps fdt m m'" "err = 0 \<Longrightarrow> fdt_off_dt_strings m' fdt = fdt_totalsize m' fdt"
proof -
  obtain e m1 where a: "fdt_add_reservemap_entry m fdt 0 0 = (e, m1)" by fastforce
  note k = fdt_add_reservemap_keeps [OF inv a]
  have "sw_keeps fdt m m' \<and> (err = 0 \<longrightarrow> fdt_off_dt_strings m' fdt = fdt_totalsize m' fdt)"
  proof (cases "e = 0")
    case False
    then show ?thesis using r a k(1) by (simp add: fdt_finish_reservemap_def)
  next
    case True
    have inv1: "sw_inv m1 fdt" and tot: "fdt_totalsize m1 fdt = fdt_totalsize m fdt"
      using k(1) by (simp_all add: sw_keeps_def)
    note ll = sw_inv_lin [OF inv1]
    have u: "u32 (fdt_totalsize m1 fdt) = fdt_totalsize m1 fdt" using ll by (intro u32_id) linarith+
    have m': "m' = fdt_set_off_dt_strings m1 fdt (fdt_totalsize m1 fdt)"
      using r a True by (simp add: fdt_finish_reservemap_def)
    have inv': "sw_inv m' fdt"
      using inv1 unfolding sw_inv_def m' fdt_set_fields u by linarith
    have "unchanged_outside fdt (fdt + fdt_totalsize m1 fdt) m1 m'"
      unfolding m' by (rule unchanged_outside_mono [OF fdt_set_unchanged(2)]) (use ll in simp_all)
    then have "sw_keeps fdt m1 m'" using inv' by (simp add: sw_keeps_def m' fdt_set_fields)
    then show ?thesis using k(1) u by (auto simp: m' fdt_set_fields intro: sw_keeps_trans)
  qed
  then show "sw_keeps fdt m m'" "err = 0 \<Longrightarrow> fdt_off_dt_strings m' fdt = fdt_totalsize m' fdt" by simp_all
qed

lemma fdt_create_inv:
  assumes "fdt_create_with_flags m buf bufsize flags = (0, m')" and "bufsize < 2147483648"
  shows "sw_inv m' buf" "fdt_totalsize m' buf = bufsize" "fdt_off_dt_strings m' buf = 0"
    "fdt_off_dt_struct m' buf = 48" "sw_flags m' buf = u32 flags"
    "unchanged_outside buf (buf + bufsize) m m'"
proof -
  have b: "48 \<le> bufsize" using assms(1)
    by (auto simp: fdt_create_with_flags_def align_lemmas Let_def split: if_splits)
  define m0 where "m0 = memset m buf 0 (nat bufsize)"
  define m1 where "m1 = fdt_set_off_mem_rsvmap (fdt_set_totalsize (fdt_set_last_comp_version (fdt_set_version
    (fdt_set_magic m0 buf FDT_SW_MAGIC) buf 17) buf flags) buf bufsize) buf 48"
  have m': "m' = fdt_set_off_dt_strings (fdt_set_off_dt_struct m1 buf (fdt_off_mem_rsvmap m1 buf)) buf 0"
    using assms(1) b by (simp add: fdt_create_with_flags_def align_lemmas Let_def m1_def m0_def split: if_splits)
  have z: "fdt32_ld m0 (buf + 32) = 0" "fdt32_ld m0 (buf + 36) = 0"
    using b by (simp_all add: fdt32_ld_def m0_def memset_fill)
  have f: "fdt_magic m1 buf = FDT_SW_MAGIC" "fdt_version m1 buf = 17" "fdt_off_mem_rsvmap m1 buf = 48"
    "fdt_totalsize m1 buf = bufsize" "fdt_size_dt_struct m1 buf = 0" "fdt_size_dt_strings m1 buf = 0"
    "fdt_last_comp_version m1 buf = u32 flags"
    unfolding m1_def fdt_hdr_defs fdt_set_defs
    using b assms(2) z by (simp_all add: fdt32_ld_st_other u32_id)
  have u: "u32 48 = 48" "u32 0 = 0" by (simp_all add: u32_def)
  show "sw_inv m' buf" "fdt_totalsize m' buf = bufsize" "fdt_off_dt_strings m' buf = 0"
    "fdt_off_dt_struct m' buf = 48" "sw_flags m' buf = u32 flags"
    using b assms(2) unfolding sw_inv_def sw_flags_def m' fdt_set_fields f u by simp_all
  show "unchanged_outside buf (buf + bufsize) m m'"
    unfolding m' m1_def fdt_set_defs m0_def memset_fill
    using b by (intro fdt32_st_chain) (auto simp: unchanged_outside_def)
qed

section \<open>The machine\<close>

text \<open>
  One call of the sequential interface after \<open>fdt_create\<close> and before \<open>fdt_finish\<close>, successful or
  not: a reservation, the end of the reservations, the begin and the end of a node, a property. A
  property name that does not fit the buffer is left out, because \<open>fdt_add_string_\<close> is wrong for it
  (\<open>sw_add_string_underflow\<close>), and so is \<open>fdt_resize\<close>, which moves to another buffer.
\<close>

inductive sw_step :: "addr \<Rightarrow> mem \<Rightarrow> mem \<Rightarrow> bool" for fdt :: addr where
  reserve: "fdt_add_reservemap_entry m fdt a sz = (err, m') \<Longrightarrow> sw_step fdt m m'"
| finish_reserve: "fdt_finish_reservemap m fdt = (err, m') \<Longrightarrow> sw_step fdt m m'"
| begin_node: "fdt_begin_node m fdt name = (err, m') \<Longrightarrow> int (length name) < 2147483600 \<Longrightarrow> sw_step fdt m m'"
| end_node: "fdt_end_node m fdt = (err, m') \<Longrightarrow> sw_step fdt m m'"
| property: "fdt_property m fdt name val = (err, m') \<Longrightarrow> name_fits m fdt name \<Longrightarrow>
    int (length val) < 2147483600 \<Longrightarrow> sw_step fdt m m'"

inductive_cases sw_stepE: "sw_step fdt m m'"

lemma sw_step_keeps: "sw_step fdt m m' \<Longrightarrow> sw_inv m fdt \<Longrightarrow> sw_keeps fdt m m'"
proof (induction rule: sw_step.induct)
  case (reserve m a sz err m')
  then show ?case by (intro fdt_add_reservemap_keeps(1))
next
  case (finish_reserve m err m')
  then show ?case by (intro fdt_finish_reservemap_keeps(1))
next
  case (begin_node m name err m')
  then show ?case by (intro fdt_begin_node_keeps)
next
  case (end_node m err m')
  then show ?case by (intro fdt_end_node_keeps)
next
  case (property m name val err m')
  then show ?case by (intro fdt_property_keeps)
qed

lemma sw_steps_keep: "(sw_step fdt)\<^sup>*\<^sup>* m m' \<Longrightarrow> sw_inv m fdt \<Longrightarrow> sw_keeps fdt m m'"
proof (induction rule: rtranclp_induct)
  case base
  then show ?case by (rule sw_keeps_refl)
next
  case (step m1 m2)
  then have "sw_keeps fdt m m1" by simp
  moreover from this have "sw_keeps fdt m1 m2" using sw_step_keeps [OF step.hyps(2)] by (simp add: sw_keeps_def)
  ultimately show ?case by (rule sw_keeps_trans)
qed

text \<open>
  The test for room in \<open>fdt_add_string_\<close> is made in unsigned arithmetic. For a string that is longer
  than what the strings leave of the whole buffer it wraps, and the string is written below it.
\<close>

lemma sw_add_string_underflow:
  assumes inv: "sw_inv m fdt" and long: "fdt_totalsize m fdt < fdt_size_dt_strings m fdt + int (length s) + 1"
    and len: "int (length s) < 2147483600"
  shows "\<exists>off m'. sw_add_string_i m fdt s = (off, m')
    \<and> (\<forall>i < length s. fdt + fdt_totalsize m fdt - (fdt_size_dt_strings m fdt + int (length s) + 1) + int i < fdt
         \<longrightarrow> m' (fdt + fdt_totalsize m fdt - (fdt_size_dt_strings m fdt + int (length s) + 1) + int i) = s ! i)"
proof -
  note ll = sw_inv_lin [OF inv]
  define off0 where "off0 = fdt_size_dt_strings m fdt + (int (length s) + 1)"
  have "fdt_totalsize m fdt < off0" using long unfolding off0_def by linarith
  moreover have "u32 off0 = off0" using ll len unfolding off0_def by (intro u32_id) linarith+
  ultimately have off0: "u32 off0 = off0" "fdt_totalsize m fdt < off0" by simp_all
  have top: "u32 (fdt_off_dt_struct m fdt + fdt_size_dt_struct m fdt)
      = fdt_off_dt_struct m fdt + fdt_size_dt_struct m fdt"
    using ll by (intro u32_id) linarith+
  have left: "u32 (fdt_totalsize m fdt - off0) = fdt_totalsize m fdt - off0 + 4294967296"
    using off0 ll len unfolding off0_def by (intro u32_neg) linarith+
  have nless: "\<not> fdt_totalsize m fdt - off0 + 4294967296 < fdt_off_dt_struct m fdt + fdt_size_dt_struct m fdt"
    using ll len unfolding off0_def by linarith
  obtain m' where r: "sw_add_string_i m fdt s = (s32 (- off0), m')"
    and m': "m' = fdt_set_size_dt_strings (put_bytes m (fdt + fdt_totalsize m fdt - off0) (s @ [0])) fdt off0"
    using off0 top left nless by (simp add: sw_add_string_i_def Let_def off0_def)
  have "m' (fdt + fdt_totalsize m fdt - off0 + int i) = s ! i"
    if "i < length s" "fdt + fdt_totalsize m fdt - off0 + int i < fdt" for i
    unfolding m' fdt_set_defs using that by (simp add: fdt32_st_outside put_bytes_def nth_append)
  then show ?thesis using r by (auto simp: off0_def add.assoc)
qed


section \<open>The end of the construction\<close>

text \<open>In a tree below 2 GB an item that is accepted ends at an offset that is not negative.\<close>

lemma sw_next_tag_nonneg:
  assumes "fdt_next_tag m fdt off = (tag, nxt)" "tag \<noteq> FDT_END"
    and t: "48 \<le> fdt_off_dt_struct m fdt" "fdt_totalsize m fdt < 2147483648" and o: "off < 2147483648"
  shows "0 \<le> nxt"
proof -
  from assms(1,2) obtain tagp r
    where tagp: "fdt_offset_ptr m fdt off 4 = Some tagp"
      and r: "next_tag_switch m fdt (fdt32_ld m tagp) (s32 (off + 4)) = Some r"
      and ptr: "fdt_offset_ptr m fdt off (u32 (r - off)) \<noteq> None"
      and nxt: "nxt = s32 (FDT_TAGALIGN r)"
    by (auto simp: fdt_next_tag_def Let_def split: option.splits)
  have off: "0 \<le> off" using tagp by (auto dest: fdt_offset_ptr_SomeD)
  have small: "off + 4 \<le> 2147483600" using fdt_offset_ptr_bounds(3) [OF tagp o] t by simp
  from ptr obtain p where p: "fdt_offset_ptr m fdt off (u32 (r - off)) = Some p" by blast
  have b: "off + u32 (r - off) \<le> 2147483600"
    using fdt_offset_ptr_bounds(3) [OF p o] t by simp
  have "off + 4 \<le> r \<and> r < 2147483648 \<or> - 2147483648 \<le> r \<and> r < - 2147483600"
    using next_tag_switch_range [OF r] off small by (auto simp: s32_id)
  moreover have "\<not> (- 2147483648 \<le> r \<and> r < - 2147483600)"
  proof
    assume w: "- 2147483648 \<le> r \<and> r < - 2147483600"
    then have "u32 (r - off) = r - off + 4294967296" using off small by (intro u32_neg) auto
    then show False using b w by simp
  qed
  ultimately have r4: "off + 4 \<le> r" "r < 2147483648" by auto
  then have "u32 (r - off) = r - off" using off by (intro u32_id) auto
  then have "r \<le> 2147483600" using b by simp
  then show ?thesis using nxt r4 off FDT_TAGALIGN_bounds [of r] by (simp add: s32_id)
qed

text \<open>The loop that corrects the name offsets writes into properties only.\<close>

lemma fix_stroffs_inside:
  assumes "48 \<le> fdt_off_dt_struct m fdt" "fdt_totalsize m fdt < 2147483648" "off < 2147483648"
    and "fix_stroffs m fdt off = (nxt, m')"
  shows "unchanged_outside (fdt + 40) (fdt + fdt_totalsize m fdt) m m'"
  using assms
proof (induction m fdt off rule: fix_stroffs.induct)
  case (1 m fdt off)
  obtain tag n where t: "fdt_next_tag m fdt off = (tag, n)" by fastforce
  consider (stop) "tag = FDT_END" | (property) "tag = FDT_PROP" | (other) "tag \<noteq> FDT_END" "tag \<noteq> FDT_PROP" by blast
  then show ?case
  proof cases
    case stop
    then show ?thesis using "1.prems"(4) t by (simp add: fix_stroffs.simps [of m fdt off])
  next
    case other
    then show ?thesis
      using "1.IH"(2) [OF t [symmetric]] "1.prems" other t fdt_next_tag_lt [OF t] by (simp add: fix_stroffs.simps [of m fdt off])
  next
    case property
    define p where "p = fdt_offset_ptr_i m fdt off"
    define v where "v = s32 (s32 (fdt32_ld m (p + 8)) + fdt_size_dt_strings m fdt)"
    define m1 where "m1 = fdt32_st m (p + 8) v"
    have n: "0 \<le> n" by (rule sw_next_tag_nonneg [OF t _ "1.prems"(1-3)]) (use property in simp)
    note b = fdt_next_tag_prop [OF t [unfolded property] n "1.prems"(3), folded p_def]
    have p: "fdt + 48 \<le> p" using b(5) "1.prems"(1) by (simp add: p_def fdt_offset_ptr_i_def)
    have u: "unchanged_outside (fdt + 40) (fdt + fdt_totalsize m fdt) m m1"
      unfolding m1_def using p b(2) fdt32_ld_bounds(1) [of m "p + 4"] by (intro fdt32_st_unchanged) linarith+
    have a: "agree fdt (fdt + SIZEOF_HEADER) m m1" using u by (auto simp: unchanged_outside_def agree_def)
    have h: "fdt_off_dt_struct m1 fdt = fdt_off_dt_struct m fdt" "fdt_totalsize m1 fdt = fdt_totalsize m fdt"
      using fdt_hdr_agree [OF a] by simp_all
    have "fix_stroffs m1 fdt n = (nxt, m')"
      using "1.prems"(4) property t by (simp add: fix_stroffs.simps [of m fdt off] Let_def p_def [symmetric] v_def [symmetric] m1_def)
    then have "unchanged_outside (fdt + 40) (fdt + fdt_totalsize m1 fdt) m1 m'"
      using "1.IH"(1) [OF t [symmetric] _ property refl refl] "1.prems" property fdt_next_tag_lt [OF t] h
      by (simp add: p_def [symmetric] v_def [symmetric] m1_def)
    then show ?thesis using u h by (auto intro: unchanged_outside_trans)
  qed
qed

lemma fdt_finish_inside:
  assumes inv: "sw_inv m fdt" and f: "fdt_finish m fdt = (err, m')"
  shows "unchanged_outside fdt (fdt + fdt_totalsize m fdt) m m'"
proof -
  note ll = sw_inv_lin [OF inv]
  show ?thesis
  proof (cases "fdt_sw_probe_struct_i m fdt = 0 \<and> fdt_grab_space_i m fdt 4 \<noteq> None")
    case False
    then show ?thesis using f by (auto simp: fdt_finish_def split: if_splits option.splits)
  next
    case True
    then obtain e m1 where g: "fdt_grab_space_i m fdt 4 = Some (e, m1)" by auto
    have st: "fdt_off_dt_strings m fdt = fdt_totalsize m fdt" using True by (simp add: fdt_sw_probe_structD)
    note ok = fdt_grab_space_ok [OF inv st g]
    have k: "sw_keeps fdt m m1" and e: "e + 4 \<le> fdt + fdt_totalsize m fdt - fdt_size_dt_strings m fdt" "fdt + 48 \<le> e"
      using ok by simp_all
    define m2 where "m2 = fdt32_st m1 e FDT_END"
    have k2: "sw_keeps fdt m m2" unfolding m2_def
      by (rule sw_keeps_above [OF k fdt32_st_unchanged]) (use e ll in \<open>simp, linarith\<close>)
    then have inv2: "sw_inv m2 fdt" and t2: "fdt_totalsize m2 fdt = fdt_totalsize m fdt"
      and u2: "unchanged_outside fdt (fdt + fdt_totalsize m fdt) m m2" by (simp_all add: sw_keeps_def)
    note ll2 = sw_inv_lin [OF inv2]
    define old where "old = s32 (fdt_totalsize m2 fdt - fdt_size_dt_strings m2 fdt)"
    define new where "new = s32 (fdt_off_dt_struct m2 fdt + fdt_size_dt_struct m2 fdt)"
    have on: "old = fdt_totalsize m2 fdt - fdt_size_dt_strings m2 fdt" "new = fdt_off_dt_struct m2 fdt + fdt_size_dt_struct m2 fdt"
      unfolding old_def new_def using ll2 by (intro s32_id; linarith)+
    define m3 where "m3 = memmove m2 (fdt + new) (fdt + old) (nat (fdt_size_dt_strings m2 fdt))"
    have u3: "unchanged_outside (fdt + 48) (fdt + fdt_totalsize m fdt) m2 m3"
    proof -
      have "int (nat (fdt_size_dt_strings m2 fdt)) = fdt_size_dt_strings m2 fdt" by simp
      then show ?thesis
        unfolding m3_def memmove_copied using ll2 on t2 by (intro unchanged_outsideI copied_outside) linarith
    qed
    have k3: "sw_keeps fdt m m3"
      by (rule sw_keeps_above [OF k2 unchanged_outside_mono [OF u3]]) simp_all
    then have inv3: "sw_inv m3 fdt" and t3: "fdt_totalsize m3 fdt = fdt_totalsize m fdt"
      and u3': "unchanged_outside fdt (fdt + fdt_totalsize m fdt) m m3" by (simp_all add: sw_keeps_def)
    note ll3 = sw_inv_lin [OF inv3]
    define m4 where "m4 = fdt_set_off_dt_strings m3 fdt new"
    have h4: "fdt_off_dt_struct m4 fdt = fdt_off_dt_struct m3 fdt" "fdt_totalsize m4 fdt = fdt_totalsize m fdt"
      using t3 by (simp_all add: m4_def fdt_set_fields)
    have u4: "unchanged_outside fdt (fdt + fdt_totalsize m fdt) m3 m4"
      unfolding m4_def by (rule unchanged_outside_mono [OF fdt_set_unchanged(2)]) (use ll in simp_all)
    obtain n m5 where 5: "fix_stroffs m4 fdt 0 = (n, m5)" by fastforce
    have u5: "unchanged_outside fdt (fdt + fdt_totalsize m fdt) m4 m5"
      using fix_stroffs_inside [OF _ _ _ 5] ll3 h4 t3 by (auto intro: unchanged_outside_mono)
    define m6 where "m6 = fdt_set_magic (fdt_set_last_comp_version
        (fdt_set_totalsize m5 fdt (new + fdt_size_dt_strings m5 fdt)) fdt FDT_LAST_COMPATIBLE_VERSION) fdt FDT_MAGIC"
    have u6: "unchanged_outside fdt (fdt + fdt_totalsize m fdt) m5 m6"
      unfolding m6_def fdt_set_defs using ll by (intro fdt32_st_chain) auto
    have "m' = m5 \<or> m' = m6"
      using f True g 5 by (auto simp: fdt_finish_def Let_def m2_def [symmetric] old_def [symmetric] new_def [symmetric]
          m3_def [symmetric] m4_def [symmetric] m6_def split: if_splits)
    then show ?thesis
      using unchanged_outside_trans [OF unchanged_outside_trans [OF u3' u4] u5] u6 by (auto intro: unchanged_outside_trans)
  qed
qed

section \<open>Calls in the wrong state\<close>

text \<open>
  A finished tree refuses every call, the reservation state refuses the structure calls and the
  structure state the reservation calls, each with \<open>FDT_ERR_BADSTATE\<close> and without a write.
\<close>

lemma sw_badstate_complete:
  assumes "fdt_magic m fdt = FDT_MAGIC"
  shows "fdt_add_reservemap_entry m fdt a sz = (- FDT_ERR_BADSTATE, m)"
    "fdt_finish_reservemap m fdt = (- FDT_ERR_BADSTATE, m)"
    "fdt_begin_node m fdt name = (- FDT_ERR_BADSTATE, m)"
    "fdt_end_node m fdt = (- FDT_ERR_BADSTATE, m)"
    "fdt_property m fdt name val = (- FDT_ERR_BADSTATE, m)"
    "fdt_finish m fdt = (- FDT_ERR_BADSTATE, m)"
    "fdt_resize m fdt buf sz = (- FDT_ERR_BADSTATE, m)"
  using assms
  by (simp_all add: fdt_add_reservemap_entry_def fdt_finish_reservemap_def fdt_begin_node_def
      fdt_end_node_def fdt_property_def fdt_property_placeholder_def fdt_finish_def fdt_resize_def
      fdt_sw_probe_memrsv_i_def fdt_sw_probe_struct_i_def fdt_sw_probe_i_def)

lemma sw_badstate_memrsv:
  assumes "fdt_magic m fdt = FDT_SW_MAGIC" "fdt_off_dt_strings m fdt = 0" "fdt_totalsize m fdt \<noteq> 0"
  shows "fdt_begin_node m fdt name = (- FDT_ERR_BADSTATE, m)"
    "fdt_end_node m fdt = (- FDT_ERR_BADSTATE, m)"
    "fdt_property m fdt name val = (- FDT_ERR_BADSTATE, m)"
    "fdt_finish m fdt = (- FDT_ERR_BADSTATE, m)"
  using assms
  by (simp_all add: fdt_begin_node_def
      fdt_end_node_def fdt_property_def fdt_property_placeholder_def fdt_finish_def
      fdt_sw_probe_struct_i_def fdt_sw_probe_i_def)

lemma sw_badstate_struct:
  assumes "fdt_magic m fdt = FDT_SW_MAGIC" "fdt_off_dt_strings m fdt \<noteq> 0"
  shows "fdt_add_reservemap_entry m fdt a sz = (- FDT_ERR_BADSTATE, m)"
    "fdt_finish_reservemap m fdt = (- FDT_ERR_BADSTATE, m)"
  using assms
  by (simp_all add: fdt_add_reservemap_entry_def fdt_finish_reservemap_def
      fdt_sw_probe_memrsv_i_def fdt_sw_probe_i_def)

end
