(* ===== verification/Demo_Tree.thy ===== *)
theory Demo_Tree
  imports Prelude
begin

text \<open>
  A concrete flattened device tree, byte for byte: the instance on which the theorems about trees
  are applied. It lies at address 4096 and has a root node with the property \<open>reg = <1>\<close> and the
  subnode \<open>cpu\<close>; 56 bytes behind the strings are free.
\<close>

definition be_bytes :: "int \<Rightarrow> byte list" where
  "be_bytes v = [byte_of (v div 16777216), byte_of (v div 65536), byte_of (v div 256), byte_of v]"

definition demo_struct :: "byte list" where
  "demo_struct = concat (map be_bytes [1, 0, 3, 4, 0, 1, 1]) @ str ''cpu'' @ [0]
     @ concat (map be_bytes [2, 2, 9])"

definition demo_blob :: "byte list" where
  "demo_blob =
     concat (map be_bytes [0xd00dfeed, 160, 56, 100, 40, 17, 16, 0, 4, 44, 0, 0, 0, 0])
     @ demo_struct @ str ''reg'' @ [0] @ replicate 56 0"

definition demo_addr :: addr where
  "demo_addr = 4096"

definition demo :: mem where
  "demo = mem_of demo_addr demo_blob"

lemma length_demo_blob: "length demo_blob = 160"
  by code_simp

end
