(* ===== verification/Fdt_Properties.thy ===== *)
theory Fdt_Properties
  imports Sw_Machine Demo_Tree
begin

text \<open>
  The properties of the device tree library, each applied to a concrete tree where it has
  hypotheses.
\<close>

section \<open>The demonstration tree\<close>

lemma demo_layout: "layout demo demo_addr"
  unfolding layout_def by code_simp

lemma demo_placed: "placed demo demo_addr"
  by (rule layout_placed [OF demo_layout])

lemma demo_probe: "fdt_ro_probe_i demo demo_addr = 160"
  by code_simp

lemma demo_root: "fdt_check_node_offset_i demo demo_addr 0 = 8"
  by code_simp

lemma demo_same: "same_blob demo_addr demo (demo (0 := 1))"
  unfolding same_blob_def by (rule agreeI) (simp add: demo_addr_def)

lemma demo_set_reg: "fdt_setprop_inplace demo demo_addr 0 (str ''reg'') [1, 2, 3, 4] =
    (0, snd (fdt_setprop_inplace demo demo_addr 0 (str ''reg'') [1, 2, 3, 4]))"
proof -
  have "fst (fdt_setprop_inplace demo demo_addr 0 (str ''reg'') [1, 2, 3, 4]) = 0" by code_simp
  then show ?thesis by (metis prod.collapse)
qed

section \<open>Writing\<close>

text \<open>
  A value that \<open>fdt_setprop_inplace\<close> accepts is what \<open>fdt_getprop\<close> returns from then on, at the
  place and with the length of the old value. Only the bytes of the value have changed, they lie in
  the tree behind its header, and the tree can still be edited.
\<close>

theorem setprop_inplace_reads_back:
  assumes "layout m fdt" "node < 2147483648"
    and "fdt_setprop_inplace m fdt node name val = (0, m')"
  shows "\<exists>v. fdt_getprop m fdt node name = (Some v, int (length val))
    \<and> fdt_getprop m' fdt node name = (Some v, int (length val))
    \<and> bytes_at m' v (length val) = val \<and> m' = put_bytes m v val \<and> layout m' fdt
    \<and> fdt + SIZEOF_HEADER \<le> v \<and> v + int (length val) \<le> fdt + fdt_totalsize m fdt"
  by (rule fdt_setprop_inplace_getprop [OF assms])

theorem setprop_inplace_reads_back_witness:
  "\<exists>v. fst (fdt_getprop (snd (fdt_setprop_inplace demo demo_addr 0 (str ''reg'') [1, 2, 3, 4]))
          demo_addr 0 (str ''reg'')) = Some v
    \<and> bytes_at (snd (fdt_setprop_inplace demo demo_addr 0 (str ''reg'') [1, 2, 3, 4])) v 4 = [1, 2, 3, 4]"
  using setprop_inplace_reads_back [OF demo_layout _ demo_set_reg] by (auto simp: eval_nat_numeral)



text \<open>
  A splice of the edited tree that succeeds removes \<open>oldlen\<close> bytes at \<open>p\<close> inside the used part of
  the tree, leaves room for \<open>newlen\<close> bytes there, and moves what follows as a block; the new end is
  within \<open>totalsize\<close>. One that fails writes nothing.
\<close>

theorem splice_moves_the_tail:
  assumes "layout m fdt" "p < fdt + 4294967296" "oldlen < 2147483648" "0 \<le> newlen" "newlen < 2147483648"
    and "fdt_splice_i m fdt p oldlen newlen = (err, m')"
  shows "if err = 0
    then fdt \<le> p \<and> 0 \<le> oldlen \<and> p + oldlen \<le> fdt + fdt_data_size_i m fdt
      \<and> fdt_data_size_i m fdt - oldlen + newlen \<le> fdt_totalsize m fdt
      \<and> bytes_at m' (p + newlen) (nat (fdt + fdt_data_size_i m fdt - (p + oldlen)))
          = bytes_at m (p + oldlen) (nat (fdt + fdt_data_size_i m fdt - (p + oldlen)))
      \<and> unchanged_outside (p + newlen) (fdt + fdt_data_size_i m fdt - oldlen + newlen) m m'
    else m' = m \<and> err < 0"
proof (cases "err = 0")
  case True
  note s = fdt_splice_ok [OF assms(1) assms(6) [unfolded True] assms(2-5)]
  have "unchanged_outside (p + newlen) (fdt + fdt_data_size_i m fdt - oldlen + newlen) m m'"
    unfolding s(5) by (rule unchanged_outsideI) (use s in \<open>auto simp: copied_def\<close>)
  then show ?thesis using True s by (simp add: mem_simps)
next
  case False
  then show ?thesis using fdt_splice_err [OF assms(6)] by simp
qed

theorem splice_moves_the_tail_witness:
  "\<exists>m'. fdt_splice_i demo demo_addr 4160 16 0 = (0, m')
     \<and> bytes_at m' 4160 24 = bytes_at demo 4176 24"
proof -
  have "fst (fdt_splice_i demo demo_addr 4160 16 0) = 0" by code_simp
  then obtain m' where m': "fdt_splice_i demo demo_addr 4160 16 0 = (0, m')" by (metis prod.collapse)
  have "fdt_data_size_i demo demo_addr = 104" by code_simp
  then have "bytes_at m' 4160 24 = bytes_at demo 4176 24"
    using splice_moves_the_tail [OF demo_layout _ _ _ _ m'] by (simp add: demo_addr_def)
  with m' show ?thesis by blast
qed

section \<open>Reading\<close>

text \<open>
  C8: \<open>fdt_getprop\<close> on a tree of version 16 or later returns the value of the first property item of
  the node's own item list that has the name, and no value and a negative length if there is none.
\<close>

theorem getprop_finds_first:
  assumes "placed m fdt" "node < 2147483648" "16 \<le> fdt_version m fdt"
    and "fdt_check_node_offset_i m fdt node = body" "0 \<le> body"
  shows "case fdt_getprop m fdt node name of
     (v, len) \<Rightarrow>
       (case List.find (prop_named m fdt name) (node_props (tokens m fdt body)) of
          Some p \<Rightarrow> v = Some (fdt_offset_ptr_i m fdt p + 12)
            \<and> len = fdt32_ld m (fdt_offset_ptr_i m fdt p + 4)
        | None \<Rightarrow> v = None \<and> len < 0)"
  by (rule fdt_getprop_tokens [OF assms])

theorem getprop_finds_first_witness:
  "fdt_getprop demo demo_addr 0 (str ''reg'') = (Some 4172, 4)"
proof -
  have f: "List.find (prop_named demo demo_addr (str ''reg'')) (node_props (tokens demo demo_addr 8)) = Some 8"
    by code_simp
  have p: "fdt_offset_ptr_i demo demo_addr 8 = 4160" and l: "fdt32_ld demo 4164 = 4" by code_simp+
  have "16 \<le> fdt_version demo demo_addr" by code_simp
  then show ?thesis
    using getprop_finds_first [OF demo_placed _ _ demo_root, of "str ''reg''"]
    by (simp add: f p l split: prod.splits)
qed

text \<open>
  C9: \<open>fdt_subnode_offset_namelen\<close> returns the first direct child of the node, in the order of the
  items, whose name matches; a node without such a child gives the error that the walk over its
  items ends in.
\<close>

theorem subnode_offset_finds_first:
  assumes "placed m fdt" "0 \<le> fdt_ro_probe_i m fdt" "parent < 2147483648"
    and "fdt_check_node_offset_i m fdt parent = body" "0 \<le> body"
  shows "fdt_subnode_offset_namelen m fdt parent name =
    first_or (\<lambda>c. fdt_nodename_eq_i m fdt c name) (children 0 (tokens m fdt body))
      (no_child 0 (tokens m fdt body))"
  by (rule fdt_subnode_offset_tokens [OF assms])

theorem subnode_offset_finds_first_witness:
  "fdt_subnode_offset_namelen demo demo_addr 0 (str ''cpu'') = 24"
proof -
  have "first_or (\<lambda>c. fdt_nodename_eq_i demo demo_addr c (str ''cpu'')) (children 0 (tokens demo demo_addr 8))
      (no_child 0 (tokens demo demo_addr 8)) = 24"
    by code_simp
  then show ?thesis
    using subnode_offset_finds_first [OF demo_placed _ _ demo_root, of "str ''cpu''"]
    by (simp add: demo_probe)
qed

text \<open>
  C10: \<open>fdt_next_tag\<close>, \<open>fdt_getprop\<close>, \<open>fdt_get_name\<close>, \<open>fdt_get_string\<close>, \<open>fdt_subnode_offset_namelen\<close> and
  the walk along a path depend on no byte outside the tree: on two memories that agree on its header
  and its \<open>totalsize\<close> bytes each gives the same result, however the tree is corrupted. It is not so for
  every reader: \<open>fdt_get_mem_rsv\<close> reads outside a tree of less than 16 bytes (\<open>get_mem_rsv_reads_outside\<close>),
  and \<open>fdt_stringlist_contains\<close> behind its list.
\<close>

theorem readers_stay_inside:
  assumes "same_blob fdt m m'" "off < 2147483648"
  shows "fdt_next_tag m' fdt off = fdt_next_tag m fdt off
    \<and> fdt_getprop m' fdt off name = fdt_getprop m fdt off name
    \<and> fdt_get_name m' fdt off = fdt_get_name m fdt off
    \<and> fdt_get_string m' fdt off = fdt_get_string m fdt off
    \<and> fdt_subnode_offset_namelen m' fdt off name = fdt_subnode_offset_namelen m fdt off name
    \<and> path_walk m' fdt off name = path_walk m fdt off name"
  by (intro conjI fdt_next_tag_same [OF assms] fdt_getprop_same [OF assms] fdt_get_name_same [OF assms]
      fdt_get_string_same [OF assms(1)] fdt_subnode_offset_same [OF assms] path_walk_same [OF assms])

theorem readers_stay_inside_witness:
  "fdt_getprop (demo (0 := 1)) demo_addr 0 (str ''reg'') = fdt_getprop demo demo_addr 0 (str ''reg'')"
  using readers_stay_inside [OF demo_same, of 0 "str ''reg''"] by simp

text \<open>
  The test of \<open>fdt_mem_rsv\<close> subtracts the size of an entry from \<open>totalsize\<close>. A header that \<open>fdt_ro_probe_\<close>
  accepts may have a \<open>totalsize\<close> below 16; the difference wraps, and the entry is read behind the tree.
\<close>

definition tiny_tree :: mem where
  "tiny_tree = mem_of 4096 (concat (map be_bytes [0xd00dfeed, 8, 40, 40, 40, 17, 16, 0, 0, 0]))"

lemma get_mem_rsv_reads_outside:
  "same_blob 4096 tiny_tree (tiny_tree(4143 := 5)) \<and> fdt_get_mem_rsv tiny_tree 4096 0 = (0, Some (0, 0))
   \<and> fdt_get_mem_rsv (tiny_tree(4143 := 5)) 4096 0 = (0, Some (5, 0))"
proof -
  have "fdt_totalsize tiny_tree 4096 = 8" by code_simp
  then have "same_blob 4096 tiny_tree (tiny_tree(4143 := 5))" by (simp add: same_blob_def agree_def)
  moreover have "fdt_get_mem_rsv tiny_tree 4096 0 = (0, Some (0, 0))" by code_simp
  moreover have "fdt_get_mem_rsv (tiny_tree(4143 := 5)) 4096 0 = (0, Some (5, 0))" by code_simp
  ultimately show ?thesis by simp
qed

text \<open>
  An item that \<open>fdt_next_tag\<close> accepts lies between the start of the structure block and
  \<open>totalsize\<close>, and the next offset is larger, a multiple of four, and still an \<open>int\<close>.
\<close>

theorem next_tag_inside:
  assumes "fdt_next_tag m fdt off = (tag, nxt)" "tag \<noteq> FDT_END" "0 \<le> nxt" "off < 2147483648"
  shows "0 \<le> off \<and> off < nxt \<and> nxt < 2147483648 \<and> nxt mod 4 = 0
    \<and> fdt_off_dt_struct m fdt + (nxt - 3) \<le> fdt_totalsize m fdt
    \<and> tag = fdt32_ld m (fdt + fdt_off_dt_struct m fdt + off)"
proof -
  obtain tagp r where i: "fdt_offset_ptr m fdt off 4 = Some tagp" "tag = fdt32_ld m tagp"
    "nxt = FDT_TAGALIGN r" "0 \<le> off" "off + 4 \<le> r"
    "fdt_off_dt_struct m fdt + r \<le> fdt_totalsize m fdt" "nxt < 2147483648"
    by (rule fdt_next_tag_item [OF assms]) auto
  then show ?thesis
    using FDT_TAGALIGN_bounds [of r] fdt_offset_ptr_SomeD [OF i(1)] by (simp add: fdt_offset_ptr_i_def)
qed

theorem next_tag_inside_witness:
  "fdt_off_dt_struct demo demo_addr + 21 \<le> fdt_totalsize demo demo_addr"
proof -
  have "fdt_next_tag demo demo_addr 8 = (3, 24)" by code_simp
  from next_tag_inside [OF this] show ?thesis by simp
qed

text \<open>
  A string that \<open>fdt_get_string\<close> returns ends with a NUL inside the tree, and its length is the
  distance to the first NUL.
\<close>

theorem get_string_terminated:
  assumes "fdt_get_string m fdt off = (Some s, len)"
  shows "fdt \<le> s \<and> 0 \<le> len \<and> s + len < fdt + fdt_totalsize m fdt \<and> m (s + len) = 0
    \<and> (\<forall>a. s \<le> a \<and> a < s + len \<longrightarrow> m a \<noteq> 0)"
  using fdt_get_string_Some [OF assms] by blast

theorem get_string_terminated_witness:
  "demo 4199 = 0 \<and> fdt_get_string demo demo_addr 0 = (Some 4196, 3)"
proof -
  have s: "fdt_get_string demo demo_addr 0 = (Some 4196, 3)" by code_simp
  from get_string_terminated [OF s] s show ?thesis by simp
qed

text \<open>
  \<open>fdt_check_header\<close> accepts exactly the headers with the magic number at an aligned address, a
  supported version, and blocks that lie, without wrap-around, between the header and \<open>totalsize\<close>.
\<close>

theorem check_header_accepts:
  "fdt_check_header m fdt = 0 \<longleftrightarrow>
     fdt AND 7 = 0 \<and> fdt_magic m fdt = FDT_MAGIC
     \<and> 2 \<le> fdt_version m fdt \<and> fdt_last_comp_version m fdt \<le> 17
     \<and> fdt_last_comp_version m fdt \<le> fdt_version m fdt
     \<and> fdt_header_size m fdt \<le> fdt_totalsize m fdt \<and> fdt_totalsize m fdt \<le> INT_MAX
     \<and> fdt_header_size m fdt \<le> fdt_off_mem_rsvmap m fdt
     \<and> fdt_off_mem_rsvmap m fdt \<le> fdt_totalsize m fdt
     \<and> fdt_header_size m fdt \<le> fdt_off_dt_struct m fdt
     \<and> fdt_off_dt_struct m fdt + (if fdt_version m fdt < 17 then 0 else fdt_size_dt_struct m fdt)
         \<le> fdt_totalsize m fdt
     \<and> fdt_header_size m fdt \<le> fdt_off_dt_strings m fdt
     \<and> fdt_off_dt_strings m fdt + fdt_size_dt_strings m fdt \<le> fdt_totalsize m fdt"
proof -
  have blk: "check_block_i h t b s \<longleftrightarrow> h \<le> b \<and> b + s \<le> t"
    if "0 \<le> b" "b < 4294967296" "0 \<le> s" "s < 4294967296" "t \<le> 2147483647" for h t b s
    using that u32_id [of "b + s"] u32_wrapped [of "b + s"]
    by (cases "b + s < 4294967296") (auto simp: check_block_i_def check_off_i_def)
  show ?thesis
    unfolding fdt_check_header_def Let_def
    using blk [of "fdt_off_dt_struct m fdt" "fdt_size_dt_struct m fdt" "fdt_totalsize m fdt" "fdt_header_size m fdt"]
      blk [of "fdt_off_dt_strings m fdt" "fdt_size_dt_strings m fdt" "fdt_totalsize m fdt" "fdt_header_size m fdt"]
    by (auto simp: check_off_i_def)
qed

section \<open>Building\<close>

text \<open>
  C11: after \<open>fdt_create\<close> on a buffer below 2 GB, a sequence of calls of \<open>fdt_add_reservemap_entry\<close>,
  \<open>fdt_finish_reservemap\<close>, \<open>fdt_begin_node\<close>, \<open>fdt_end_node\<close> and \<open>fdt_property\<close>, each successful or not,
  keeps the header of the unfinished tree consistent (the structure and the strings do not meet,
  \<open>totalsize\<close> is the size of the buffer) and writes nothing outside the buffer, and neither does the
  \<open>fdt_finish\<close> behind it. The calls of \<open>fdt_property\<close> are those whose name fits (\<open>name_fits\<close>): the
  strings stored and the name together are no longer than the buffer, as for a longer name
  \<open>fdt_add_string_\<close> writes below the buffer (\<open>sw_add_string_underflow\<close>). \<open>fdt_resize\<close> is not among the calls.
\<close>

theorem builder_stays_inside:
  assumes "fdt_create m buf bufsize = (0, m0)" "bufsize < 2147483648" "(sw_step buf)\<^sup>*\<^sup>* m0 m'"
  shows "sw_inv m' buf \<and> fdt_totalsize m' buf = bufsize \<and> unchanged_outside buf (buf + bufsize) m m'
    \<and> unchanged_outside buf (buf + bufsize) m (snd (fdt_finish m' buf))"
proof -
  have k: "sw_inv m' buf" "fdt_totalsize m' buf = bufsize" "unchanged_outside buf (buf + bufsize) m m'"
    using fdt_create_inv [OF assms(1) [unfolded fdt_create_def] assms(2)] sw_steps_keep [OF assms(3)]
    by (auto simp: sw_keeps_def intro: unchanged_outside_trans)
  show ?thesis
    using k fdt_finish_inside [OF k(1) prod.collapse [symmetric]] by (auto intro: unchanged_outside_trans)
qed

theorem builder_stays_inside_witness:
  "sw_inv (snd (fdt_finish_reservemap (snd (fdt_create demo 8192 100)) 8192)) 8192"
proof -
  have "fst (fdt_create demo 8192 100) = 0" by code_simp
  then have c: "fdt_create demo 8192 100 = (0, snd (fdt_create demo 8192 100))" by (metis prod.collapse)
  have "sw_step 8192 (snd (fdt_create demo 8192 100))
      (snd (fdt_finish_reservemap (snd (fdt_create demo 8192 100)) 8192))"
    by (rule sw_step.finish_reserve) (rule prod.collapse [symmetric])
  then show ?thesis by (intro builder_stays_inside [OF c, THEN conjunct1]) auto
qed

text \<open>
  The calls of the sequential interface enforce its order: in the reservation state the
  structure calls and \<open>fdt_finish\<close> are refused, in the structure state the reservation calls, each
  with \<open>FDT_ERR_BADSTATE\<close> and without a write.
\<close>

theorem builder_refuses_wrong_state:
  assumes "fdt_magic m fdt = FDT_SW_MAGIC" "fdt_totalsize m fdt \<noteq> 0"
  shows "if fdt_off_dt_strings m fdt = 0
    then fdt_begin_node m fdt name = (- FDT_ERR_BADSTATE, m)
      \<and> fdt_end_node m fdt = (- FDT_ERR_BADSTATE, m)
      \<and> fdt_property m fdt name val = (- FDT_ERR_BADSTATE, m)
      \<and> fdt_finish m fdt = (- FDT_ERR_BADSTATE, m)
    else fdt_add_reservemap_entry m fdt a sz = (- FDT_ERR_BADSTATE, m)
      \<and> fdt_finish_reservemap m fdt = (- FDT_ERR_BADSTATE, m)"
  using sw_badstate_memrsv [OF assms(1) _ assms(2)] sw_badstate_struct [OF assms(1)] by simp

theorem builder_refuses_wrong_state_witness:
  "fdt_begin_node (snd (fdt_create demo 8192 100)) 8192 [] = (- 7, snd (fdt_create demo 8192 100))"
proof -
  have "fdt_magic (snd (fdt_create demo 8192 100)) 8192 = FDT_SW_MAGIC"
    "fdt_totalsize (snd (fdt_create demo 8192 100)) 8192 \<noteq> 0"
    "fdt_off_dt_strings (snd (fdt_create demo 8192 100)) 8192 = 0"
    by code_simp+
  with builder_refuses_wrong_state [of "snd (fdt_create demo 8192 100)" 8192 "[]" "[]" 0 0]
  show ?thesis by simp
qed

end
