(* ===== verification/Cmdline.thy ===== *)
theory Cmdline
  imports Cstring
begin

text \<open>
  The command line: \<open>apps/lib/cmdline.c\<close> and, of \<open>apps/helper.c\<close>, \<open>parse_option_str\<close> and the
  loop of \<open>efi_parse_options\<close>. A \<open>char **\<close> that is advanced is returned; a buffer that is cut into
  strings by writing NULs into it is the list of its bytes with the final NUL, and the strings it is
  cut into are read from it after the last write.
\<close>

section \<open>Integers and ranges\<close>

text \<open>The value of \<open>*pint\<close>, if it is set, between the result and the advanced string.\<close>

definition get_option :: "byte list \<Rightarrow> int \<times> int option \<times> byte list" where
  "get_option s =
     (if deref s = 0 then (0, None, s)
      else
        (let neg = (deref s = 45);
             cur = (if neg then tl s else s)
         in case simple_strtoull cur 0 of
              (v, endp) \<Rightarrow>
                (let value = (if neg then s32 (- v) else s32 v)
                 in if length cur = length endp then (0, Some value, endp)
                    else if deref endp = 44 then (2, Some value, tl endp)
                    else if deref endp = 45 then (3, Some value, endp)
                    else (1, Some value, endp))))"

text \<open>
  \<open>get_range\<close> with \<open>pint = ints + i\<close>: the loop stores \<open>x, x + 1, ...\<close> at \<open>ints + i, ...\<close>.
\<close>

function get_range_loop :: "int list \<Rightarrow> nat \<Rightarrow> int \<Rightarrow> int \<Rightarrow> int \<Rightarrow> int list" where
  "get_range_loop ints i x upper_range n =
     (if n \<noteq> 0 \<and> x < upper_range
      then get_range_loop (ints[i := x]) (i + 1) (x + 1) upper_range (n - 1) else ints)"
  by pat_completeness auto
termination by (relation "measure (\<lambda>(ints, i, x, upper_range, n). nat (upper_range - x))") auto

declare get_range_loop.simps [simp del]

definition get_range :: "byte list \<Rightarrow> int list \<Rightarrow> nat \<Rightarrow> int \<Rightarrow> int \<times> int list \<times> byte list" where
  "get_range s ints i n =
     (let s = tl s; upper_range = s32 (fst (simple_strtol s 0)); x = ints ! i
      in (s32 (upper_range - x), get_range_loop ints i x upper_range n, s))"

text \<open>
  \<open>get_options\<close>; \<open>nints\<close> is the length of \<open>ints\<close> or, to validate, 0. The index \<open>i\<close> may run past
  the array behind a range.
\<close>

lemma strtoull_loop_length:
  "strtoull_loop base r cp = (v, rest) \<Longrightarrow> length rest \<le> length cp"
  by (induction base r cp rule: strtoull_loop.induct) (auto simp: Let_def split: if_splits intro: le_SucI)

lemma simple_strtoull_length:
  "simple_strtoull cp base = (v, rest) \<Longrightarrow> length rest \<le> length cp"
  by (auto simp: simple_strtoull_def Let_def split: if_splits dest!: strtoull_loop_length)

lemma deref_not_nil: "deref s \<noteq> 0 \<Longrightarrow> s \<noteq> []"
  by auto

lemma get_option_length:
  "get_option s = (res, v, s') \<Longrightarrow> res \<noteq> 0 \<Longrightarrow> length s' < length s"
proof -
  assume a: "get_option s = (res, v, s')" "res \<noteq> 0"
  then have ne: "s \<noteq> []" by (auto simp: get_option_def)
  define cur where "cur = (if deref s = 45 then tl s else s)"
  obtain w endp where st: "simple_strtoull cur 0 = (w, endp)" by fastforce
  have "length endp \<le> length cur" using simple_strtoull_length [OF st] .
  moreover have "length cur \<noteq> length endp"
    using a st ne by (auto simp: get_option_def cur_def [symmetric] Let_def split: if_splits)
  moreover have "length cur \<le> length s" by (simp add: cur_def)
  moreover have "length s' \<le> length endp"
    using a st ne by (auto simp: get_option_def cur_def [symmetric] Let_def split: if_splits)
  ultimately show ?thesis by simp
qed

lemma get_option_length':
  "(res, v, s') = get_option s \<Longrightarrow> res \<noteq> 0 \<Longrightarrow> length s' < length s"
  using get_option_length by (metis (no_types))

function get_options_loop :: "bool \<Rightarrow> int \<Rightarrow> byte list \<Rightarrow> int \<Rightarrow> int list \<Rightarrow> byte list \<times> int \<times> int list" where
  "get_options_loop validate nints s i ints =
     (if i < nints \<or> validate then
        (let pint = (if validate then 0 else nat i)
         in case get_option s of
              (res, v, s') \<Rightarrow>
                (let ints = (case v of Some x \<Rightarrow> ints[pint := x] | None \<Rightarrow> ints)
                 in if res = 0 then (s', i, ints)
                    else if res = 3 then
                      (case get_range s' ints pint (if validate then 0 else nints - i) of
                         (range_nums, ints, s'') \<Rightarrow>
                           if range_nums < 0 then (s'', i, ints)
                           else get_options_loop validate nints s'' (i + (range_nums - 1) + 1) ints)
                    else if res = 1 then (s', i + 1, ints)
                    else get_options_loop validate nints s' (i + 1) ints))
      else (s, i, ints))"
  by pat_completeness auto
termination
  by (relation "measure (\<lambda>(validate, nints, s, i, ints). length s)")
     (auto simp: get_range_def Let_def dest!: get_option_length')

declare get_options_loop.simps [simp del]

definition get_options :: "byte list \<Rightarrow> int \<Rightarrow> int list \<Rightarrow> byte list \<times> int list" where
  "get_options s nints ints =
     (case get_options_loop (nints = 0) nints s 1 ints of (s, i, ints) \<Rightarrow> (s, ints[0 := i - 1]))"

section \<open>Sizes\<close>

definition suffix_shifts :: "byte \<Rightarrow> nat" where
  "suffix_shifts c =
     (if c = 69 \<or> c = 101 then 6
      else if c = 80 \<or> c = 112 then 5
      else if c = 84 \<or> c = 116 then 4
      else if c = 71 \<or> c = 103 then 3
      else if c = 77 \<or> c = 109 then 2
      else if c = 75 \<or> c = 107 then 1
      else 0)"

text \<open>The fall-through \<open>switch\<close>: as many shifts by 10 as there are labels from the suffix down to \<open>K\<close>.\<close>

definition shift10 :: "int \<Rightarrow> int" where
  "shift10 ret = u64 (push_bit 10 ret)"

definition memparse :: "byte list \<Rightarrow> int \<times> byte list" where
  "memparse ptr =
     (case simple_strtoull ptr 0 of
        (ret, endptr) \<Rightarrow>
          (let k = suffix_shifts (deref endptr)
           in ((shift10 ^^ k) ret, if k = 0 then endptr else tl endptr)))"

section \<open>Parameters and values\<close>

fun next_arg_scan :: "byte list \<Rightarrow> nat \<Rightarrow> nat \<Rightarrow> bool \<Rightarrow> nat \<times> nat" where
  "next_arg_scan [] i equals in_quote = (i, equals)"
| "next_arg_scan (c # s) i equals in_quote =
     (if isspace c \<and> \<not> in_quote then (i, equals)
      else next_arg_scan s (i + 1) (if equals = 0 \<and> c = 61 then i else equals)
             (if c = 34 then \<not> in_quote else in_quote))"

text \<open>The string that starts at an index of a buffer.\<close>

definition str_at :: "byte list \<Rightarrow> nat \<Rightarrow> byte list" where
  "str_at b i = takeWhile (\<lambda>c. c \<noteq> 0) (drop i b)"

text \<open>\<open>*param\<close>, \<open>*val\<close> and the returned rest.\<close>

definition next_arg :: "byte list \<Rightarrow> byte list \<times> byte list option \<times> byte list" where
  "next_arg args0 =
     (let quoted = (deref args0 = 34);
          args = (if quoted then tl args0 else args0);
          (i, equals) = next_arg_scan args 0 0 quoted;
          b0 = args @ [0];
          b1 = (if equals \<noteq> 0 then b0[equals := 0] else b0);
          vquote = (equals \<noteq> 0 \<and> b1 ! (equals + 1) = 34);
          b2 = (if vquote \<and> b1 ! (i - 1) = 34 then b1[i - 1 := 0] else b1);
          b3 = (if quoted \<and> i > 0 \<and> b2 ! (i - 1) = 34 then b2[i - 1 := 0] else b2);
          b4 = (if b3 ! i \<noteq> 0 then b3[i := 0] else b3);
          nxt = (if b3 ! i \<noteq> 0 then i + 1 else i)
      in (str_at b4 0,
          if equals = 0 then None else Some (str_at b4 (if vquote then equals + 2 else equals + 1)),
          skip_spaces (str_at b4 nxt)))"

lemma next_arg_scan_bounds:
  "next_arg_scan s i eq q = (i', eq') \<Longrightarrow> i \<le> i' \<and> i' \<le> i + length s \<and> (eq' = eq \<or> i \<le> eq' \<and> eq' < i')"
proof (induction s i eq q rule: next_arg_scan.induct)
  case (2 c s i eq q)
  then show ?case by (fastforce split: if_splits)
qed simp

lemma skip_spaces_length: "length (skip_spaces s) \<le> length s"
  by (induction s rule: skip_spaces.induct) (auto intro: le_SucI)

lemma str_at_length:
  assumes "b ! n = 0" "j \<le> n" "n < length b"
  shows "length (str_at b j) \<le> n - j"
proof (rule ccontr)
  assume "\<not> length (str_at b j) \<le> n - j"
  then have l: "n - j < length (takeWhile (\<lambda>c. c \<noteq> 0) (drop j b))" by (simp add: str_at_def)
  then have "takeWhile (\<lambda>c. c \<noteq> 0) (drop j b) ! (n - j) = 0"
    using assms by (simp add: takeWhile_nth)
  then show False using nth_mem [OF l] set_takeWhileD by metis
qed

text \<open>What is left is shorter than what was given.\<close>

lemma next_arg_length:
  assumes "next_arg args0 = (param, val, rest)" "deref args0 \<noteq> 0"
  shows "length rest < length args0"
proof -
  define quoted where "quoted = (deref args0 = 34)"
  define args where "args = (if quoted then tl args0 else args0)"
  obtain i eq where sc: "next_arg_scan args 0 0 quoted = (i, eq)" by fastforce
  note b = next_arg_scan_bounds [OF sc]
  obtain b3 where b3: "length b3 = length args + 1"
    "rest = skip_spaces (str_at (if b3 ! i \<noteq> 0 then b3[i := 0] else b3) (if b3 ! i \<noteq> 0 then i + 1 else i))"
    "i < length args \<longrightarrow> b3 ! i = args ! i" "b3 ! length args = 0"
  proof -
    define b1 where "b1 = (if eq \<noteq> 0 then (args @ [0])[eq := 0] else args @ [0])"
    define b2 where "b2 = (if (eq \<noteq> 0 \<and> b1 ! (eq + 1) = 34) \<and> b1 ! (i - 1) = 34 then b1[i - 1 := 0] else b1)"
    define b3 where "b3 = (if quoted \<and> i > 0 \<and> b2 ! (i - 1) = 34 then b2[i - 1 := 0] else b2)"
    have "rest = skip_spaces (str_at (if b3 ! i \<noteq> 0 then b3[i := 0] else b3) (if b3 ! i \<noteq> 0 then i + 1 else i))"
      using assms(1) unfolding next_arg_def quoted_def [symmetric] args_def [symmetric] sc
        b1_def [symmetric] Let_def prod.case b2_def [symmetric] b3_def [symmetric] by simp
    moreover have "length b3 = length args + 1" by (simp add: b3_def b2_def b1_def)
    moreover have "i < length args \<longrightarrow> b3 ! i = args ! i" "b3 ! length args = 0"
    proof -
      have e: "eq = 0 \<or> eq < i" using b by auto
      have l: "length b1 = length args + 1" "length b2 = length args + 1"
        by (simp_all add: b1_def b2_def)
      have z1: "b1 ! length args = 0" by (cases "eq = length args") (auto simp: b1_def nth_append)
      then have z2: "b2 ! length args = 0" using l by (cases "i - 1 = length args") (auto simp: b2_def)
      then show "b3 ! length args = 0" using l by (cases "i - 1 = length args") (auto simp: b3_def)
      have "i < length args \<Longrightarrow> b1 ! i = args ! i"
        using e by (auto simp: b1_def nth_append)
      moreover have "b2 ! i = b1 ! i \<or> i = 0"
        by (cases i) (auto simp: b2_def)
      moreover have "b3 ! i = b2 ! i \<or> i = 0" by (cases i) (auto simp: b3_def)
      moreover have "i = 0 \<Longrightarrow> b3 ! i = args ! i" if "i < length args"
        using e that by (auto simp: b3_def b2_def b1_def nth_append)
      ultimately show "i < length args \<longrightarrow> b3 ! i = args ! i" by auto
    qed
    ultimately show ?thesis using that by blast
  qed
  have i0: "quoted \<or> args \<noteq> [] \<and> b3 ! 0 \<noteq> 0" if "i = 0"
    using b3(3) assms(2) that by (cases args0) (auto simp: args_def)
  show ?thesis
  proof (cases "b3 ! i = 0")
    case True
    then have "length rest \<le> length args - i"
      using b3(1,2,4) b skip_spaces_length [of "str_at b3 i"] str_at_length [of b3 "length args" i]
      by simp
    then show ?thesis using i0 True assms(2) by (cases args0; cases "i = 0") (auto simp: args_def split: if_splits)
  next
    case False
    then have "i < length args" using b3(4) b by (cases "i = length args") auto
    moreover from this have "length rest \<le> length args - (i + 1)"
      using False b3(1,2,4) skip_spaces_length [of "str_at (b3[i := 0]) (i + 1)"]
        str_at_length [of "b3[i := 0]" "length args" "i + 1"] by simp
    moreover have "length args \<le> length args0" by (simp add: args_def)
    ultimately show ?thesis by simp
  qed
qed


section \<open>EFI options\<close>

text \<open>\<open>while (*str && *str != ',') str++; if (*str == ',') str++\<close>.\<close>

definition skip_field :: "byte list \<Rightarrow> byte list" where
  "skip_field s =
     (let s = dropWhile (\<lambda>c. c \<noteq> 0 \<and> c \<noteq> 44) s in if deref s = 44 then tl s else s)"

lemma skip_field_length: "deref s \<noteq> 0 \<Longrightarrow> length (skip_field s) < length s"
proof -
  assume "deref s \<noteq> 0"
  then obtain c t where s: "s = c # t" "c \<noteq> 0" by (cases s) auto
  have "length (dropWhile (\<lambda>c. c \<noteq> 0 \<and> c \<noteq> 44) t) \<le> length t" by (rule length_dropWhile_le)
  then show ?thesis using s by (auto simp: skip_field_def Let_def le_imp_less_Suc)
qed

function parse_option_str :: "byte list \<Rightarrow> byte list \<Rightarrow> bool" where
  "parse_option_str s option =
     (if deref s \<noteq> 0 then
        (if strncmp s option (length option) = 0 then
           (let s' = drop (length option) s
            in if deref s' = 0 \<or> deref s' = 44 then True else parse_option_str (skip_field s') option)
         else parse_option_str (skip_field s) option)
      else False)"
  by pat_completeness auto
termination
proof (relation "measure (\<lambda>(s, option). length s)", goal_cases)
  case (2 s option s')
  then have "length (skip_field s') < length s'" by (intro skip_field_length) auto
  then show ?case using 2 by simp
qed (simp_all add: skip_field_length)

declare parse_option_str.simps [simp del]

record efi_options =
  efi_nokaslr :: bool
  efi_noinitrd :: bool
  efi_nochunk :: bool
  efi_novamap :: bool
  efi_nosoftreserve :: bool
  efi_disable_pci_dma :: bool

definition initial_options :: efi_options where
  "initial_options = \<lparr>efi_nokaslr = True, efi_noinitrd = False, efi_nochunk = False,
     efi_novamap = False, efi_nosoftreserve = False, efi_disable_pci_dma = False\<rparr>"

text \<open>One parameter of the loop of \<open>efi_parse_options\<close>.\<close>

definition apply_param :: "byte list \<Rightarrow> byte list option \<Rightarrow> efi_options \<Rightarrow> efi_options" where
  "apply_param param val opts =
     (if strcmp param (str ''nokaslr'') = 0 then opts\<lparr>efi_nokaslr := True\<rparr>
      else if strcmp param (str ''quiet'') = 0 then opts
      else if strcmp param (str ''noinitrd'') = 0 then opts\<lparr>efi_noinitrd := True\<rparr>
      else if strcmp param (str ''efi'') = 0 \<and> val \<noteq> None then
        (let v = the val;
             opts = opts\<lparr>efi_nochunk := parse_option_str v (str ''nochunk''),
                         efi_novamap := efi_novamap opts \<or> parse_option_str v (str ''novamap''),
                         efi_nosoftreserve := False\<rparr>;
             opts = (if parse_option_str v (str ''disable_early_pci_dma'')
                     then opts\<lparr>efi_disable_pci_dma := True\<rparr> else opts)
         in if parse_option_str v (str ''no_disable_early_pci_dma'')
            then opts\<lparr>efi_disable_pci_dma := False\<rparr> else opts)
      else opts)"

function parse_params :: "byte list \<Rightarrow> efi_options \<Rightarrow> efi_options" where
  "parse_params s opts =
     (if deref s \<noteq> 0 then
        (case next_arg s of
           (param, val, s') \<Rightarrow>
             if val = None \<and> strcmp param (str ''--'') = 0 then opts
             else parse_params s' (apply_param param val opts))
      else opts)"
  by pat_completeness auto
termination
  by (relation "measure (\<lambda>(s, opts). length s)") (auto intro: next_arg_length dest: sym)

declare parse_params.simps [simp del]

abbreviation (input) COMMAND_LINE_SIZE :: nat where "COMMAND_LINE_SIZE \<equiv> 1024"

text \<open>The options after the copy of \<open>cmdline\<close> in \<open>buf\<close> has been parsed.\<close>

definition parse_cmdline :: "byte list \<Rightarrow> efi_options \<Rightarrow> efi_options" where
  "parse_cmdline cmdline opts =
     parse_params (skip_spaces (take (COMMAND_LINE_SIZE - 1) cmdline)) opts"

section \<open>What the parsers compute\<close>

text \<open>The fields of a comma-separated list.\<close>

fun fields :: "byte list \<Rightarrow> byte list list" where
  "fields [] = [[]]"
| "fields (c # s) = (if c = 44 then [] # fields s
                     else (case fields s of f # fs \<Rightarrow> (c # f) # fs | [] \<Rightarrow> [[c]]))"

lemma fields_split:
  "fields s = takeWhile (\<lambda>c. c \<noteq> 44) s # (case dropWhile (\<lambda>c. c \<noteq> 44) s of [] \<Rightarrow> [] | c # t \<Rightarrow> fields t)"
  by (induction s) (auto split: list.splits)

lemma fields_tl:
  "tl (fields s) = (case dropWhile (\<lambda>c. c \<noteq> 44) s of [] \<Rightarrow> [] | c # t \<Rightarrow> fields t)"
  by (subst fields_split) simp

lemma strncmp_prefix:
  "0 \<notin> set o' \<Longrightarrow> strncmp s o' (length o') = 0 \<longleftrightarrow> take (length o') s = o'"
proof (induction o' arbitrary: s)
  case Nil
  then show ?case by simp
next
  case (Cons c o')
  then show ?case by (cases s) auto
qed

lemma skip_field_cstr:
  assumes "0 \<notin> set s"
  shows "skip_field s = (case dropWhile (\<lambda>c. c \<noteq> 44) s of [] \<Rightarrow> [] | c # t \<Rightarrow> t)"
proof -
  have "dropWhile (\<lambda>c. c \<noteq> 0 \<and> c \<noteq> 44) s = dropWhile (\<lambda>c. c \<noteq> 44) s"
    by (rule dropWhile_cong) (use assms in auto)
  moreover have "c = 44" if "dropWhile (\<lambda>c. c \<noteq> 44) s = c # t" for c t
    using that hd_dropWhile [of "\<lambda>c. c \<noteq> 44" s] by simp
  ultimately show ?thesis
    by (cases "dropWhile (\<lambda>c. c \<noteq> 44) s") (simp_all add: skip_field_def del: dropWhile_eq_Nil_conv)
qed

lemma parse_option_str_fields:
  assumes "0 \<notin> set option" "44 \<notin> set option" "option \<noteq> []"
  shows "0 \<notin> set s \<Longrightarrow> parse_option_str s option \<longleftrightarrow> option \<in> set (fields s)"
proof (induction s rule: length_induct)
  case (1 s)
  define rest where "rest s = (case dropWhile (\<lambda>c. c \<noteq> 44) s of [] \<Rightarrow> [] | c # t \<Rightarrow> t)" for s :: "byte list"
  show ?case
  proof (cases "s = []")
    case True
    then show ?thesis using assms by (simp add: parse_option_str.simps)
  next
    case False
    then have d: "deref s \<noteq> 0" using "1.prems" by (cases s) auto
    have tail: "parse_option_str (rest s) option \<longleftrightarrow> option \<in> set (tl (fields s))"
    proof -
      have "0 \<notin> set (rest s)"
        using "1.prems" set_dropWhileD [of 0 "\<lambda>c. c \<noteq> 44" s] unfolding rest_def
        by (cases "dropWhile (\<lambda>c. c \<noteq> 44) s") (auto simp del: dropWhile_eq_Nil_conv)
      moreover have "length (rest s) < length s"
        using skip_field_length [OF d] skip_field_cstr [OF "1.prems"] by (simp add: rest_def)
      ultimately have "parse_option_str (rest s) option \<longleftrightarrow> option \<in> set (fields (rest s))"
        using 1 by blast
      moreover have "option \<in> set (fields (rest s)) \<longleftrightarrow> option \<in> set (tl (fields s))"
        using assms(3) unfolding rest_def fields_tl
        by (cases "dropWhile (\<lambda>c. c \<noteq> 44) s") (simp_all del: dropWhile_eq_Nil_conv)
      ultimately show ?thesis by simp
    qed
    have hd: "fields s = takeWhile (\<lambda>c. c \<noteq> 44) s # tl (fields s)"
      using fields_split [of s] by (simp add: fields_tl)
    then have mem: "option \<in> set (fields s) \<longleftrightarrow>
        option = takeWhile (\<lambda>c. c \<noteq> 44) s \<or> option \<in> set (tl (fields s))"
      by (cases "fields s") auto
    show ?thesis
    proof (cases "take (length option) s = option")
      case False
      then have "takeWhile (\<lambda>c. c \<noteq> 44) s \<noteq> option"
        by (metis append_eq_conv_conj takeWhile_dropWhile_id)
      then show ?thesis
        using False d assms(1) tail mem skip_field_cstr [OF "1.prems"]
        by (subst parse_option_str.simps) (simp add: strncmp_prefix rest_def)
    next
      case True
      define t where "t = drop (length option) s"
      have s: "s = option @ t" using True by (metis t_def append_take_drop_id)
      have tw: "takeWhile (\<lambda>c. c \<noteq> 44) s = option @ takeWhile (\<lambda>c. c \<noteq> 44) t"
        "dropWhile (\<lambda>c. c \<noteq> 44) s = dropWhile (\<lambda>c. c \<noteq> 44) t"
        unfolding s using assms(2) by (auto intro!: takeWhile_append2 dropWhile_append2)
      show ?thesis
      proof (cases "deref t = 0 \<or> deref t = 44")
        case end_found: True
        then have "takeWhile (\<lambda>c. c \<noteq> 44) t = []" using "1.prems" s by (cases t) auto
        then show ?thesis using end_found True d assms(1) tw mem
          by (subst parse_option_str.simps) (simp add: strncmp_prefix t_def [symmetric])
      next
        case False
        then have "takeWhile (\<lambda>c. c \<noteq> 44) t \<noteq> []" by (cases t) auto
        moreover have "skip_field t = rest s"
          using skip_field_cstr [of t] "1.prems" s tw(2) by (simp add: rest_def)
        ultimately show ?thesis using False True d assms(1) tail tw mem
          by (subst parse_option_str.simps) (simp add: strncmp_prefix t_def [symmetric])
      qed
    qed
  qed
qed

end
