(* ===== verification/Cstring_Spec.thy ===== *)
theory Cstring_Spec
  imports Cmdline
begin

text \<open>
  What the string and number parsers of \<open>Cstring\<close> and \<open>Cmdline\<close> compute, as functions on lists: the
  value of a list of digits, the first occurrence of a string, the progress of the parsers.
\<close>

section \<open>What the string functions compute\<close>

text \<open>The number a list of digits stands for.\<close>

definition digits_value :: "int \<Rightarrow> byte list \<Rightarrow> int" where
  "digits_value base ds = foldl (\<lambda>r c. r * base + digit_value c) 0 ds"

lemma u64_mult_add: "u64 (u64 r * base + v) = u64 (r * base + v)"
proof -
  have "(r mod M * base + v) mod M = (r * base + v) mod M" for M
    using mod_add_left_eq [of "r mod M * base" M v] mod_mult_left_eq [of r M base]
      mod_add_left_eq [of "r * base" M v] by simp
  then show ?thesis by (simp only: u64_def)
qed

lemma u64_u64: "u64 (u64 r) = u64 r"
  by (simp add: u64_def)

lemma fold_digits_u64:
  "u64 (foldl (\<lambda>r c. r * base + digit_value c) (u64 r) ds)
     = u64 (foldl (\<lambda>r c. r * base + digit_value c) r ds)"
proof (induction ds arbitrary: r)
  case Nil
  then show ?case by (simp add: u64_u64)
next
  case (Cons d ds)
  have "u64 (foldl (\<lambda>r c. r * base + digit_value c) (u64 r * base + digit_value d) ds)
      = u64 (foldl (\<lambda>r c. r * base + digit_value c) (u64 (u64 r * base + digit_value d)) ds)"
    using Cons [of "u64 r * base + digit_value d"] by simp
  then show ?case using Cons [of "r * base + digit_value d"] by (simp add: u64_mult_add)
qed

lemma strtoull_loop_value:
  "u64 result = result \<Longrightarrow> strtoull_loop base result cp =
     (u64 (foldl (\<lambda>r c. r * base + digit_value c) result
        (takeWhile (\<lambda>c. isxdigit c \<and> digit_value c < base) cp)),
      dropWhile (\<lambda>c. isxdigit c \<and> digit_value c < base) cp)"
proof (induction base result cp rule: strtoull_loop.induct)
  case (2 base result c cp)
  show ?case
  proof (cases "isxdigit c \<and> digit_value c < base")
    case False
    then show ?thesis using "2.prems" by (auto simp: Let_def)
  next
    case True
    then show ?thesis using "2.IH" by (simp add: Let_def fold_digits_u64 u64_u64)
  qed
qed simp

lemma simple_strtoull_value:
  assumes "2 \<le> base" "base \<le> 16" "\<not> (base = 16 \<and> deref cp = 48 \<and> TOLOWER (deref (tl cp)) = 120)"
  shows "simple_strtoull cp base =
    (u64 (digits_value base (takeWhile (\<lambda>c. isxdigit c \<and> digit_value c < base) cp)),
     dropWhile (\<lambda>c. isxdigit c \<and> digit_value c < base) cp)"
  using assms by (auto simp: simple_strtoull_def Let_def digits_value_def strtoull_loop_value u64_def)

lemma strstr_loop_Some:
  "l1 = length s1 \<Longrightarrow> s2 \<noteq> [] \<Longrightarrow> strstr_loop l1 s1 s2 =
     map_option (\<lambda>i. drop i s1) (List.find (\<lambda>i. take (length s2) (drop i s1) = s2) [0..<Suc (length s1)])"
proof (induction l1 s1 s2 rule: strstr_loop.induct)
  case (1 l1 s1 s2)
  have up: "[0..<Suc (length s1)] = 0 # map Suc [0..<length s1]" for s1 :: "byte list"
    by (simp add: upt_conv_Cons map_Suc_upt del: upt_Suc)
  have fm: "List.find P (map Suc xs) = map_option Suc (List.find (P \<circ> Suc) xs)" for P xs
    by (induction xs) auto
  show ?case
  proof (cases "l1 \<ge> length s2 \<and> l1 > 0 \<and> take (length s2) s1 \<noteq> s2")
    case True
    then obtain c t where s1: "s1 = c # t" using "1.prems" by (cases s1) auto
    have "strstr_loop (l1 - 1) t s2 =
      map_option (\<lambda>i. drop i t) (List.find (\<lambda>i. take (length s2) (drop i t) = s2) [0..<Suc (length t)])"
      using "1.IH" "1.prems" True s1 by simp
    moreover have "[0..<Suc (length (c # t))] = 0 # map Suc [0..<Suc (length t)]"
      using up [of "c # t"] by (simp del: upt_Suc)
    ultimately show ?thesis using True unfolding s1
      by (simp add: strstr_loop.simps [of l1] fm comp_def option.map_comp del: upt_Suc)
  next
    case False
    show ?thesis
    proof (cases "length s2 \<le> l1")
      case True
      then show ?thesis using False "1.prems"
        by (subst strstr_loop.simps) (auto simp: up simp del: upt_Suc)
    next
      case short: False
      have "List.find (\<lambda>i. take (length s2) (drop i s1) = s2) [0..<Suc (length s1)] = None"
        unfolding find_None_iff
      proof
        assume "\<exists>x. x \<in> set [0..<Suc (length s1)] \<and> take (length s2) (drop x s1) = s2"
        then obtain x where "take (length s2) (drop x s1) = s2" by blast
        then have "length s2 \<le> length s1 - x" by (metis length_drop length_take min.cobounded1)
        then show False using short "1.prems" by simp
      qed
      then show ?thesis using short by (simp add: strstr_loop.simps [of l1] del: upt_Suc)
    qed
  qed
qed

lemma find_upt: "List.find P [0..<n] = Some i \<longleftrightarrow> i < n \<and> P i \<and> (\<forall>j < i. \<not> P j)"
  by (auto simp: find_Some_iff)

text \<open>\<open>strstr\<close> returns the suffix at the first index where the second string occurs.\<close>

lemma strstr_first:
  "strstr s1 s2 = Some r \<longleftrightarrow>
     (\<exists>i \<le> length s1. r = drop i s1 \<and> take (length s2) (drop i s1) = s2
        \<and> (\<forall>j < i. take (length s2) (drop j s1) \<noteq> s2))"
proof (cases "s2 = []")
  case True
  have "(\<forall>j. \<not> j < i) = (i = 0)" for i :: nat by auto
  then show ?thesis using True by (auto simp: strstr_def)
next
  case False
  show ?thesis
  proof -
    have "strstr s1 s2 = Some r \<longleftrightarrow>
      (\<exists>i. List.find (\<lambda>i. take (length s2) (drop i s1) = s2) [0..<Suc (length s1)] = Some i \<and> r = drop i s1)"
      using False strstr_loop_Some [of "length s1" s1 s2] by (auto simp: strstr_def simp del: upt_Suc)
    also have "\<dots> \<longleftrightarrow> (\<exists>i \<le> length s1. r = drop i s1 \<and> take (length s2) (drop i s1) = s2
        \<and> (\<forall>j < i. take (length s2) (drop j s1) \<noteq> s2))"
      unfolding find_upt by (auto simp: less_Suc_eq_le)
    finally show ?thesis .
  qed
qed

lemma strcmp_eq_0: "0 \<notin> set s1 \<Longrightarrow> 0 \<notin> set s2 \<Longrightarrow> strcmp s1 s2 = 0 \<longleftrightarrow> s1 = s2"
proof (induction s1 arbitrary: s2)
  case Nil
  then show ?case by (cases s2) (auto simp: strcmp.simps [of "[]" "[]"] strcmp.simps [of "[]" "_ # _"] uint_0_iff)
next
  case (Cons c t)
  have ne: "uint c - uint d \<noteq> 0" if "c \<noteq> d" for d :: byte using that word_uint_eqI [of c d] by auto
  show ?case
  proof (cases s2)
    case Nil
    then show ?thesis using Cons.prems by (auto simp: strcmp.simps [of "c # t" "[]"] uint_0_iff Let_def)
  next
    case (Cons d u)
    then show ?thesis using Cons.prems Cons.IH [of u] ne [of d]
      by (subst strcmp.simps) (auto simp: Let_def)
  qed
qed

text \<open>A size suffix multiplies by the power of 1024 it stands for.\<close>

lemma shift10_pow: "(shift10 ^^ k) (u64 v) = u64 (v * 1024 ^ k)"
proof (induction k)
  case 0
  then show ?case by simp
next
  case (Suc k)
  have "shift10 (u64 x) = u64 (x * 1024)" for x
    by (simp add: shift10_def push_bit_eq_mult u64_def mod_mult_left_eq)
  then show ?case using Suc by (simp add: ac_simps)
qed

lemma memparse_value:
  "memparse p = (v, r) \<longleftrightarrow>
     (\<exists>n e. simple_strtoull p 0 = (n, e)
        \<and> v = (if suffix_shifts (deref e) = 0 then n else u64 (n * 1024 ^ suffix_shifts (deref e)))
        \<and> r = (if suffix_shifts (deref e) = 0 then e else tl e))"
proof -
  obtain n e where ne: "simple_strtoull p 0 = (n, e)" by fastforce
  have "\<exists>n'. n = u64 n' \<or> n = 0"
    by (rule exI [of _ n]) (use ne in \<open>auto simp: simple_strtoull_def Let_def strtoull_loop_value u64_def split: if_splits\<close>)
  then have "u64 n = n" by (auto simp: u64_def)
  then show ?thesis using shift10_pow [of _ n] by (auto simp: memparse_def ne Let_def)
qed

end
