(* ===== verification/Text_Properties.thy ===== *)
theory Text_Properties
  imports Cstring_Spec
begin

text \<open>
  The properties of the memory, string and command line functions.
\<close>

section \<open>Printed parameters are parsed back\<close>

text \<open>
  A parameter in the form it is written on a command line: \<open>name\<close>, \<open>name=value\<close>, or
  \<open>name="value"\<close> when the value has a blank in it.
\<close>

definition show_arg :: "byte list \<times> byte list option \<Rightarrow> byte list" where
  "show_arg a =
     (case a of
        (p, None) \<Rightarrow> p
      | (p, Some v) \<Rightarrow> if list_all (\<lambda>c. \<not> isspace c) v then p @ 61 # v else p @ 61 # 34 # v @ [34])"

fun show_args :: "(byte list \<times> byte list option) list \<Rightarrow> byte list" where
  "show_args [] = []"
| "show_args (a # as) = show_arg a @ (if as = [] then [] else 32 # show_args as)"

definition plain_arg :: "byte list \<times> byte list option \<Rightarrow> bool" where
  "plain_arg a \<longleftrightarrow>
     fst a \<noteq> [] \<and> list_all (\<lambda>c. \<not> isspace c \<and> c \<noteq> 34 \<and> c \<noteq> 61 \<and> c \<noteq> 0) (fst a)
     \<and> list_all (\<lambda>c. c \<noteq> 34 \<and> c \<noteq> 0) (case snd a of None \<Rightarrow> [] | Some v \<Rightarrow> v)"

lemma scan_name:
  "list_all (\<lambda>c. \<not> isspace c \<and> c \<noteq> 34 \<and> c \<noteq> 61 \<and> c \<noteq> 0) s \<Longrightarrow>
   next_arg_scan (s @ t) i eq False = next_arg_scan t (i + length s) eq False"
  by (induction s arbitrary: i) auto

lemma scan_value:
  "list_all (\<lambda>c. \<not> isspace c) s \<Longrightarrow> list_all (\<lambda>c. c \<noteq> 34 \<and> c \<noteq> 0) s \<Longrightarrow> 0 < eq \<Longrightarrow>
   next_arg_scan (s @ t) i eq False = next_arg_scan t (i + length s) eq False"
  by (induction s arbitrary: i) auto

lemma scan_quoted:
  "list_all (\<lambda>c. c \<noteq> 34 \<and> c \<noteq> 0) s \<Longrightarrow> 0 < eq \<Longrightarrow>
   next_arg_scan (s @ t) i eq True = next_arg_scan t (i + length s) eq True"
  by (induction s arbitrary: i) auto

lemma isspace_32 [simp]: "isspace 32" by (simp add: isspace_cases)
lemma isspace_61 [simp]: "\<not> isspace 61" by (simp add: isspace_cases)
lemma isspace_34 [simp]: "\<not> isspace 34" by (simp add: isspace_cases)

lemma scan_end: "t = [] \<or> deref t = 32 \<Longrightarrow> next_arg_scan t i eq False = (i, eq)"
  by (cases t) auto

lemma str_at_append: "0 \<notin> set s \<Longrightarrow> str_at (u @ s @ 0 # t) (length u) = s"
  by (simp add: str_at_def) (metis (mono_tags, lifting) append.right_neutral takeWhile.simps(2) takeWhile_append2)

lemmas str_at_front = str_at_append [of _ "[]", simplified]

lemma next_arg_show:
  assumes pl: "plain_arg (p, v)" and tail: "tail = [] \<or> deref tail = 32" "0 \<notin> set tail"
  shows "next_arg (show_arg (p, v) @ tail) = (p, v, skip_spaces (tl tail))"
proof -
  have p: "p \<noteq> []" "list_all (\<lambda>c. \<not> isspace c \<and> c \<noteq> 34 \<and> c \<noteq> 61 \<and> c \<noteq> 0) p" "0 \<notin> set p"
    using pl by (auto simp: plain_arg_def list_all_iff)
  then have d: "deref (p @ s) \<noteq> 34" for s by (cases p) auto
  obtain t where rest: "tail = [] \<and> t = [] \<or> tail = 32 # t" "0 \<notin> set t"
    using tail by (cases tail) auto
  show ?thesis
  proof (cases v)
    case None
    have "next_arg_scan (p @ tail) 0 0 False = (length p, 0)"
      using p scan_end [OF tail(1)] by (simp add: scan_name)
    then show ?thesis
      using None d [of tail] rest str_at_front [of p] p str_at_append [of t p "[]"]
        str_at_append [of "[]" p "[]"] str_at_append [of t "p @ [0]" "[]"]
      by (auto simp: next_arg_def show_arg_def nth_append list_update_append)
  next
    case (Some w)
    have w: "list_all (\<lambda>c. c \<noteq> 34 \<and> c \<noteq> 0) w" "0 \<notin> set w"
      using pl Some by (auto simp: plain_arg_def list_all_iff)
    show ?thesis
    proof (cases "list_all (\<lambda>c. \<not> isspace c) w")
      case True
      have sc: "next_arg_scan (p @ 61 # w @ tail) 0 0 False = (length p + 1 + length w, length p)"
        using p w True scan_end [OF tail(1)] by (simp add: scan_name scan_value)
      have q: "((p @ 0 # w @ tail @ [0]) ! (length p + 1)) \<noteq> 34"
        using w(1) tail(1) by (cases w; cases tail) (auto simp: nth_append)
      show ?thesis
        using Some True d [of "61 # w @ tail"] sc q p w rest
          str_at_front [of p] str_at_append [of w "p @ [0]"]
          str_at_append [of t "p @ 0 # w @ [0]" "[]"] str_at_append [of "[]" "p @ 0 # w" "[]"]
        by (auto simp: next_arg_def show_arg_def Let_def nth_append list_update_append)
    next
      case False
      have sc: "next_arg_scan (p @ 61 # 34 # w @ 34 # tail) 0 0 False = (length p + 3 + length w, length p)"
        using p w False scan_end [OF tail(1)] by (simp add: scan_name scan_quoted)
      have q: "((p @ 0 # 34 # w @ 34 # tail @ [0]) ! (length p + 1)) = 34"
        "((p @ 0 # 34 # w @ 34 # tail @ [0]) ! (length p + 3 + length w - 1)) = 34"
        "(p @ 0 # 34 # w @ 34 # tail @ [0]) [length p + 3 + length w - 1 := 0] = p @ 0 # 34 # w @ 0 # tail @ [0]"
        by (simp_all add: nth_append list_update_append)
      have nums: "length p + 3 + length w = Suc (Suc (Suc (length p + length w)))"
        "4 + (length p + length w) = Suc (Suc (Suc (Suc (length p + length w))))" by simp_all
      show ?thesis
        using Some False d [of "61 # 34 # w @ 34 # tail"] sc q p w rest
          str_at_front [of p] str_at_append [of w "p @ [0, 34]"]
          str_at_append [of t "p @ 0 # 34 # w @ [0, 0]" "[]"] str_at_append [of "[]" "p @ 0 # 34 # w @ [0]" "[]"]
        by (auto simp: next_arg_def show_arg_def Let_def nth_append list_update_append nums)
    qed
  qed
qed

text \<open>What the parser of the options should do with a list of parameters.\<close>

fun apply_args :: "(byte list \<times> byte list option) list \<Rightarrow> efi_options \<Rightarrow> efi_options" where
  "apply_args [] opts = opts"
| "apply_args (a # as) opts =
     (if a = (str ''--'', None) then opts else apply_args as (apply_param (fst a) (snd a) opts))"

lemma show_arg_front:
  assumes "plain_arg a"
  shows "show_arg a \<noteq> []" "deref (show_arg a) \<noteq> 0" "\<not> isspace (deref (show_arg a))" "0 \<notin> set (show_arg a)"
  using assms by (cases a; cases "fst a"; auto simp: plain_arg_def show_arg_def list_all_iff split: option.splits)+

lemma show_args_front:
  "list_all plain_arg as \<Longrightarrow> 0 \<notin> set (show_args as)"
  "list_all plain_arg as \<Longrightarrow> skip_spaces (show_args as) = show_args as"
proof -
  show "list_all plain_arg as \<Longrightarrow> 0 \<notin> set (show_args as)"
    by (induction as) (auto dest: show_arg_front(4))
  show "list_all plain_arg as \<Longrightarrow> skip_spaces (show_args as) = show_args as"
  proof (cases as)
    case (Cons a bs)
    assume "list_all plain_arg as"
    then have "plain_arg a" using Cons by simp
    from show_arg_front [OF this] show ?thesis by (cases "show_arg a") (auto simp: Cons)
  qed simp
qed

lemma parse_params_show_args:
  "list_all plain_arg as \<Longrightarrow> parse_params (show_args as) opts = apply_args as opts"
proof (induction as arbitrary: opts)
  case Nil
  then show ?case by (simp add: parse_params.simps)
next
  case (Cons a as)
  define tail where "tail = (if as = [] then [] else 32 # show_args as)"
  have a: "plain_arg a" and as: "list_all plain_arg as" using Cons.prems by simp_all
  have tail: "tail = [] \<or> deref tail = 32" "0 \<notin> set tail"
    using show_args_front(1) [OF as] by (auto simp: tail_def)
  have nx: "next_arg (show_arg a @ tail) = (fst a, snd a, show_args as)"
    using next_arg_show [OF _ tail, of "fst a" "snd a"] a show_args_front(2) [OF as]
    by (auto simp: tail_def)
  have d: "deref (show_arg a @ tail) \<noteq> 0" using show_arg_front [OF a] by (cases "show_arg a") auto
  have z: "0 \<notin> set (fst a)" using a by (auto simp: plain_arg_def list_all_iff)
  have "0 \<notin> set (str ''--'')" by (simp add: str_def)
  then have "strcmp (fst a) (str ''--'') = 0 \<longleftrightarrow> fst a = str ''--''" using z by (intro strcmp_eq_0)
  then show ?case
    using Cons.IH [OF as] d
    by (simp add: tail_def [symmetric] parse_params.simps [of "show_arg a @ tail"] nx prod_eq_iff)
qed

section \<open>Properties of the command line\<close>

text \<open>
  C23: parsing the options inverts printing them. For every list of parameters (names without
  blanks, quotes and \<open>=\<close>; values without quotes) written in the form of a command line of at most
  1023 bytes, the options are set by exactly these parameters, one after the other, up to \<open>--\<close>.
\<close>

theorem cmdline_round_trip:
  assumes "list_all plain_arg as" "length (show_args as) < COMMAND_LINE_SIZE"
  shows "parse_cmdline (show_args as) opts = apply_args as opts"
  using assms by (simp add: parse_cmdline_def show_args_front(2) parse_params_show_args)

theorem cmdline_round_trip_witness:
  "efi_novamap (parse_cmdline (str ''root=x efi=novamap quiet -- noinitrd'') initial_options)
   \<and> \<not> efi_noinitrd (parse_cmdline (str ''root=x efi=novamap quiet -- noinitrd'') initial_options)"
proof -
  let ?as = "[(str ''root'', Some (str ''x'')), (str ''efi'', Some (str ''novamap'')),
    (str ''quiet'', None), (str ''--'', None), (str ''noinitrd'', None)]"
  have "show_args ?as = str ''root=x efi=novamap quiet -- noinitrd''" by code_simp
  moreover have "list_all plain_arg ?as" "length (show_args ?as) < 1024" by code_simp+
  moreover have "efi_novamap (apply_args ?as initial_options) \<and> \<not> efi_noinitrd (apply_args ?as initial_options)"
    by code_simp
  ultimately show ?thesis using cmdline_round_trip [of ?as initial_options] by metis
qed

text \<open>
  \<open>parse_option_str\<close> finds an option exactly when it is one of the fields of the
  comma-separated list, never a prefix or a suffix of one.
\<close>

theorem parse_option_str_is_membership:
  assumes "0 \<notin> set opt" "44 \<notin> set opt" "opt \<noteq> []" "0 \<notin> set s"
  shows "parse_option_str s opt \<longleftrightarrow> opt \<in> set (fields s)"
  by (rule parse_option_str_fields [OF assms])

theorem parse_option_str_is_membership_witness:
  "\<not> parse_option_str (str ''nochunks,xnochunk'') (str ''nochunk'')"
proof -
  have "str ''nochunk'' \<notin> set (fields (str ''nochunks,xnochunk''))"
    "0 \<notin> set (str ''nochunk'')" "44 \<notin> set (str ''nochunk'')" "str ''nochunk'' \<noteq> []"
    "0 \<notin> set (str ''nochunks,xnochunk'')"
    by code_simp+
  then show ?thesis using parse_option_str_is_membership by blast
qed

text \<open>
  C32: every call of \<open>next_arg\<close> on a string that is not empty leaves a shorter one, so the loop over
  the parameters ends whatever the command line holds.
\<close>

theorem next_arg_advances:
  assumes "next_arg args = (param, val, rest)" "deref args \<noteq> 0"
  shows "length rest < length args"
  by (rule next_arg_length [OF assms])

theorem next_arg_advances_witness:
  "length (snd (snd (next_arg (str ''a=\"b c'')))) < 7"
proof -
  have "deref (str ''a=\"b c'') \<noteq> 0" by code_simp
  then show ?thesis
    using next_arg_advances [of "str ''a=\"b c''"] by (cases "next_arg (str ''a=\"b c'')") auto
qed

section \<open>Properties of the string and number functions\<close>

text \<open>
  \<open>simple_strtoull\<close> with an explicit base returns the value of the longest prefix of digits of
  that base, modulo 2 to the 64, and the rest of the string.
\<close>

theorem strtoull_reads_digits:
  assumes "2 \<le> base" "base \<le> 16" "\<not> (base = 16 \<and> deref cp = 48 \<and> TOLOWER (deref (tl cp)) = 120)"
  shows "simple_strtoull cp base =
    (u64 (digits_value base (takeWhile (\<lambda>c. isxdigit c \<and> digit_value c < base) cp)),
     dropWhile (\<lambda>c. isxdigit c \<and> digit_value c < base) cp)"
  by (rule simple_strtoull_value [OF assms])

theorem strtoull_reads_digits_witness:
  "simple_strtoull (str ''18446744073709551617z'') 10 = (1, str ''z'')"
proof -
  have "u64 (digits_value 10 (takeWhile (\<lambda>c. isxdigit c \<and> digit_value c < 10) (str ''18446744073709551617z''))) = 1"
    "dropWhile (\<lambda>c. isxdigit c \<and> digit_value c < 10) (str ''18446744073709551617z'') = str ''z''"
    by code_simp+
  then show ?thesis using strtoull_reads_digits [of 10] by simp
qed

text \<open>
  \<open>memparse\<close> multiplies the number it reads by the power of 1024 of its suffix, modulo 2 to the
  64, and consumes the suffix.
\<close>

theorem memparse_scales:
  "memparse p = (v, r) \<longleftrightarrow>
     (\<exists>n e. simple_strtoull p 0 = (n, e)
        \<and> v = (if suffix_shifts (deref e) = 0 then n else u64 (n * 1024 ^ suffix_shifts (deref e)))
        \<and> r = (if suffix_shifts (deref e) = 0 then e else tl e))"
  by (rule memparse_value)

text \<open>\<open>strstr\<close> returns the suffix at the first index where the second string occurs.\<close>

theorem strstr_finds_first:
  "strstr s1 s2 = Some r \<longleftrightarrow>
     (\<exists>i. i \<le> length s1 \<and> r = drop i s1 \<and> take (length s2) (drop i s1) = s2
        \<and> i = (LEAST j. take (length s2) (drop j s1) = s2))"
proof -
  have "(\<forall>j < i. \<not> P j) \<longleftrightarrow> i = (LEAST j. P j)" if "P i" for P and i :: nat
  proof
    assume a: "\<forall>j < i. \<not> P j"
    have "(LEAST j. P j) = i"
    proof (rule Least_equality)
      fix y assume "P y"
      then show "i \<le> y" using a by (cases "y < i") auto
    qed (rule that)
    then show "i = (LEAST j. P j)" ..
  qed (auto dest: not_less_Least)
  then have "take (length s2) (drop i s1) = s2 \<Longrightarrow>
      (\<forall>j < i. take (length s2) (drop j s1) \<noteq> s2) \<longleftrightarrow> i = (LEAST j. take (length s2) (drop j s1) = s2)" for i .
  then show ?thesis unfolding strstr_first by (simp cong: conj_cong)
qed

text \<open>
  \<open>hex_to_bin\<close>, which is computed without a branch, returns the value of every hexadecimal digit
  of either case and -1 for each of the other bytes.
\<close>

theorem hex_to_bin_decodes:
  "hex_to_bin ch = hex_value (uint ch)"
  by (rule hex_to_bin_value)

section \<open>Properties of the memory functions\<close>

text \<open>
  \<open>memmove\<close> leaves at the destination the bytes that the source held before, however the two
  overlap, and no other byte changes.
\<close>

theorem memmove_moves:
  "bytes_at (memmove m dst src n) dst n = bytes_at m src n
   \<and> unchanged_outside dst (dst + int n) m (memmove m dst src n)"
proof -
  have "unchanged_outside dst (dst + int n) m (copied m dst src n)"
    by (rule unchanged_outsideI) (simp add: mem_simps)
  then show ?thesis by (simp add: memmove_copied mem_simps)
qed

text \<open>
  The \<open>memchr\<close> that reads eight bytes at a time returns the first address that holds the byte,
  and nothing when there is none among the \<open>n\<close> bytes.
\<close>

theorem memchr_finds_first:
  "(memchr m s c n = Some p \<longleftrightarrow>
     s \<le> p \<and> p < s + int n \<and> m p = c \<and> c \<notin> set (bytes_at m s (nat (p - s))))
   \<and> (memchr m s c n = None \<longleftrightarrow> c \<notin> set (bytes_at m s n))"
proof -
  have set_bytes: "c \<notin> set (bytes_at m s k) \<longleftrightarrow> (\<forall>a. s \<le> a \<and> a < s + int k \<longrightarrow> m a \<noteq> c)" for k
  proof
    assume n: "c \<notin> set (bytes_at m s k)"
    show "\<forall>a. s \<le> a \<and> a < s + int k \<longrightarrow> m a \<noteq> c"
    proof (intro allI impI)
      fix a assume "s \<le> a \<and> a < s + int k"
      then have "nat (a - s) < k" "m a = bytes_at m s k ! nat (a - s)" by auto
      then have "m a \<in> set (bytes_at m s k)"
        using nth_mem [of "nat (a - s)" "bytes_at m s k"] by (simp only: length_bytes_at)
      then show "m a \<noteq> c" using n by blast
    qed
  next
    assume "\<forall>a. s \<le> a \<and> a < s + int k \<longrightarrow> m a \<noteq> c"
    then have "m (s + int i) \<noteq> c" if "i < k" for i using that by simp
    then show "c \<notin> set (bytes_at m s k)" unfolding bytes_at_def by fastforce
  qed
  show ?thesis
  proof
    show "memchr m s c n = Some p \<longleftrightarrow>
        s \<le> p \<and> p < s + int n \<and> m p = c \<and> c \<notin> set (bytes_at m s (nat (p - s)))"
      unfolding memchr_search memchr_bytes_Some set_bytes by (cases "s \<le> p") simp_all
    show "memchr m s c n = None \<longleftrightarrow> c \<notin> set (bytes_at m s n)"
      unfolding memchr_search memchr_bytes_None set_bytes ..
  qed
qed

end
