(* ===== verification/Efi.thy ===== *)
theory Efi
  imports Cstring "HOL-Library.Multiset"
begin

text \<open>
  The firmware and its memory services: \<open>apps/mem.c\<close> and \<open>apps/alignedmem.c\<close>.

  The firmware is a parameter: a function from a call, the memory and a state of its own to a
  reply, a memory and a state. Every call goes through \<open>efi_bs_call\<close>, which also records the call
  and its reply; the record is not read by the model and is what the theorems speak about.
\<close>

section \<open>Calls to the firmware\<close>

type_synonym guid = "byte list"

datatype efi_call =
    AllocatePages int int int int \<comment> \<open>type, memory type, pages, address\<close>
  | FreePages addr int
  | AllocatePool int int \<comment> \<open>memory type, size\<close>
  | FreePool addr
  | GetMemoryMap int "addr option" \<comment> \<open>size of the buffer, buffer\<close>
  | ExitBootServices int int \<comment> \<open>image handle, map key\<close>
  | InstallConfigurationTable guid "addr option"
  | HandleProtocol int guid
  | LocateProtocol guid
  | GetMemoryAttributes addr addr int \<comment> \<open>protocol, base, size\<close>
  | ClearMemoryAttributes addr addr int int \<comment> \<open>protocol, base, size, attributes\<close>
  | HashLogExtendEvent addr int addr int addr \<comment> \<open>protocol, flags, data, size, event\<close>
  | GetBootHartid addr
  | GetRng addr int addr \<comment> \<open>protocol, size, buffer\<close>
  | GetVariable string guid int \<comment> \<open>name, vendor, size of the buffer\<close>
  | SetVirtualAddressMap int int int addr \<comment> \<open>map size, descriptor size, version, map\<close>
  | SetVariable string guid int "byte list" \<comment> \<open>name, vendor, attributes, data\<close>
  | LocateHandle int "guid option" addr int "addr option" \<comment> \<open>search type, protocol, key, size, buffer\<close>
  | OpenProtocol int guid
  | InstallProtocolInterface int guid addr \<comment> \<open>handle, protocol, interface\<close>
  | UninstallProtocolInterface int guid addr
  | ReinstallProtocolInterface int guid addr addr \<comment> \<open>handle, protocol, old and new interface\<close>
  | RaiseTPL int
  | RestoreTPL int
  | OpenVolume addr
  | FileGetInfo addr guid int "addr option" \<comment> \<open>file, type, size, buffer\<close>
  | FileSetPosition addr int
  | FileRead addr int addr \<comment> \<open>file, size, buffer\<close>
  | FileClose addr
  | FileOpen addr addr int int \<comment> \<open>directory, name, mode, attributes\<close>
  | LocateDevicePath guid addr \<comment> \<open>protocol, path\<close>
  | LoadFile addr addr bool int "addr option" \<comment> \<open>interface, path, boot policy, size, buffer\<close>
  | CreateEvent int int addr addr \<comment> \<open>type, task priority, function, context\<close>
  | SetTimer addr int int \<comment> \<open>event, type, time\<close>
  | WaitForEvent "addr list"
  | SignalEvent addr
  | CloseEvent addr
  | RegisterProtocolNotify guid addr \<comment> \<open>protocol, event\<close>
  | ReadKeyStroke addr
  | OutputString addr "int list"
  | SetAttribute addr int
  | SetCursorPosition addr int int

text \<open>
  A reply: the status and what the call stores through its out parameters, an address or number in
  \<open>out\<close>, the attributes and contents of a variable, the sizes and the key of a memory map.
  A call that returns a value and no status (\<open>RaiseTPL\<close>) has it in \<open>status\<close>; \<open>LocateDevicePath\<close> stores
  the handle (\<open>out\<close>) and the rest of the path (\<open>attr\<close>), \<open>ReadKeyStroke\<close> the character and the scan code.
\<close>

record efi_reply =
  status :: int
  out :: int
  attr :: int
  data :: "byte list"
  map_size :: int
  map_key :: int
  desc_size :: int
  desc_ver :: int

type_synonym 'w firmware = "efi_call \<Rightarrow> mem \<Rightarrow> 'w \<Rightarrow> efi_reply \<times> mem \<times> 'w"

record 'w efi =
  memory :: mem
  world :: 'w
  calls :: "(efi_call \<times> efi_reply) list"

definition efi_bs_call ::
  "'w firmware \<Rightarrow> efi_call \<Rightarrow> ('w, 'z) efi_scheme \<Rightarrow> efi_reply \<times> ('w, 'z) efi_scheme" where
  "efi_bs_call fw c s =
     (case fw c (memory s) (world s) of
        (r, m, w) \<Rightarrow> (r, s\<lparr>memory := m, world := w, calls := calls s @ [(c, r)]\<rparr>))"

abbreviation (input) EFI_SUCCESS :: int where "EFI_SUCCESS \<equiv> 0"
abbreviation (input) EFI_LOAD_ERROR :: int where "EFI_LOAD_ERROR \<equiv> 0x8000000000000001"
abbreviation (input) EFI_INVALID_PARAMETER :: int where "EFI_INVALID_PARAMETER \<equiv> 0x8000000000000002"
abbreviation (input) EFI_UNSUPPORTED :: int where "EFI_UNSUPPORTED \<equiv> 0x8000000000000003"
abbreviation (input) EFI_BUFFER_TOO_SMALL :: int where "EFI_BUFFER_TOO_SMALL \<equiv> 0x8000000000000005"
abbreviation (input) EFI_OUT_OF_RESOURCES :: int where "EFI_OUT_OF_RESOURCES \<equiv> 0x8000000000000009"
abbreviation (input) EFI_NOT_FOUND :: int where "EFI_NOT_FOUND \<equiv> 0x800000000000000e"

abbreviation (input) EfiLoaderData :: int where "EfiLoaderData \<equiv> 2"
abbreviation (input) EfiACPIReclaimMemory :: int where "EfiACPIReclaimMemory \<equiv> 9"
abbreviation (input) EFI_ALLOCATE_MAX_ADDRESS :: int where "EFI_ALLOCATE_MAX_ADDRESS \<equiv> 1"
abbreviation (input) AllocateAddress :: int where "AllocateAddress \<equiv> 2"
abbreviation (input) EFI_PAGE_SIZE :: int where "EFI_PAGE_SIZE \<equiv> 4096"
abbreviation (input) EFI_ALLOC_ALIGN :: int where "EFI_ALLOC_ALIGN \<equiv> EFI_PAGE_SIZE"
abbreviation (input) ULONG_MAX :: int where "ULONG_MAX \<equiv> 18446744073709551615"
abbreviation (input) EFI_ALLOC_LIMIT :: int where "EFI_ALLOC_LIMIT \<equiv> ULONG_MAX"
abbreviation (input) EFI_MMAP_NR_SLACK_SLOTS :: int where "EFI_MMAP_NR_SLACK_SLOTS \<equiv> 8"

text \<open>\<open>EFI_ERROR\<close>: the sign bit of the status.\<close>

definition EFI_ERROR :: "int \<Rightarrow> bool" where
  "EFI_ERROR a \<longleftrightarrow> s64 a < 0"

section \<open>Little-endian fields\<close>

definition ld_le :: "mem \<Rightarrow> addr \<Rightarrow> nat \<Rightarrow> int" where
  "ld_le m p n = horner_sum uint 256 (bytes_at m p n)"

definition st_le :: "mem \<Rightarrow> addr \<Rightarrow> nat \<Rightarrow> int \<Rightarrow> mem" where
  "st_le m p n v = put_bytes m p (map (\<lambda>i. byte_of (v div 256 ^ i)) [0..<n])"

text \<open>The 16 bytes of a GUID in memory.\<close>

definition MAKE_EFI_GUID :: "int \<Rightarrow> int \<Rightarrow> int \<Rightarrow> byte list \<Rightarrow> guid" where
  "MAKE_EFI_GUID a b c d =
     [byte_of a, byte_of (a div 256), byte_of (a div 65536), byte_of (a div 16777216),
      byte_of b, byte_of (b div 256), byte_of c, byte_of (c div 256)] @ d"

section \<open>Rounding\<close>

definition ALIGN_UP :: "int \<Rightarrow> int \<Rightarrow> int" where
  "ALIGN_UP x a = u64 (x + (a - 1)) AND NOT (a - 1)"

definition ALIGN_DOWN :: "int \<Rightarrow> int \<Rightarrow> int" where
  "ALIGN_DOWN x a = ALIGN_UP (u64 (x - (a - 1))) a"

definition round_up :: "int \<Rightarrow> int \<Rightarrow> int" where
  "round_up x y = u64 ((u64 (x - 1) OR (y - 1)) + 1)"

definition DIV_ROUND_UP :: "int \<Rightarrow> int \<Rightarrow> int" where
  "DIV_ROUND_UP n d = u64 (u64 (n + d) - 1) div d"

section \<open>Pages\<close>

text \<open>An allocation returns its status and the value it leaves in \<open>*addr\<close>.\<close>

definition efi_allocate_pages ::
  "'w firmware \<Rightarrow> int \<Rightarrow> addr \<Rightarrow> int \<Rightarrow> ('w, 'z) efi_scheme \<Rightarrow> int \<times> addr \<times> ('w, 'z) efi_scheme" where
  "efi_allocate_pages fw size0 addr maxa s =
     (let maxa = min maxa EFI_ALLOC_LIMIT;
          alloc_addr = u64 (ALIGN_DOWN (u64 (maxa + 1)) EFI_ALLOC_ALIGN - 1)
      in case efi_bs_call fw (AllocatePages EFI_ALLOCATE_MAX_ADDRESS EfiLoaderData
                (DIV_ROUND_UP size0 EFI_PAGE_SIZE) alloc_addr) s of
           (r, s) \<Rightarrow> if status r \<noteq> EFI_SUCCESS then (status r, addr, s) else (EFI_SUCCESS, out r, s))"

definition efi_allocate_pages_exact ::
  "'w firmware \<Rightarrow> int \<Rightarrow> addr \<Rightarrow> ('w, 'z) efi_scheme \<Rightarrow> int \<times> ('w, 'z) efi_scheme" where
  "efi_allocate_pages_exact fw size0 addr s =
     (let addr_rounded = addr AND NOT (EFI_ALLOC_ALIGN - 1);
          size0 = u64 (size0 + (addr - addr_rounded));
          pagecount = u32 (DIV_ROUND_UP size0 EFI_PAGE_SIZE)
      in case efi_bs_call fw (AllocatePages AllocateAddress EfiLoaderData pagecount addr) s of
           (r, s) \<Rightarrow> if status r \<noteq> EFI_SUCCESS then (status r, s) else (EFI_SUCCESS, s))"

definition efi_free :: "'w firmware \<Rightarrow> int \<Rightarrow> addr \<Rightarrow> ('w, 'z) efi_scheme \<Rightarrow> ('w, 'z) efi_scheme" where
  "efi_free fw size0 addr s =
     (if size0 = 0 then s
      else (let nr_pages = round_up size0 EFI_ALLOC_ALIGN div EFI_PAGE_SIZE
            in snd (efi_bs_call fw (FreePages addr nr_pages) s)))"

definition efi_allocate_pages_aligned ::
  "'w firmware \<Rightarrow> int \<Rightarrow> addr \<Rightarrow> int \<Rightarrow> int \<Rightarrow> int \<Rightarrow> ('w, 'z) efi_scheme \<Rightarrow>
   int \<times> addr \<times> ('w, 'z) efi_scheme" where
  "efi_allocate_pages_aligned fw size0 addr maxa align memory_type s =
     (let maxa = min maxa EFI_ALLOC_LIMIT;
          align = (if align < EFI_ALLOC_ALIGN then EFI_ALLOC_ALIGN else align);
          alloc_addr = u64 (ALIGN_DOWN (u64 (maxa + 1)) align - 1);
          size0 = round_up size0 EFI_ALLOC_ALIGN;
          slack = s32 (align div EFI_PAGE_SIZE - 1)
      in case efi_bs_call fw (AllocatePages EFI_ALLOCATE_MAX_ADDRESS memory_type
                (u64 (size0 div EFI_PAGE_SIZE + slack)) alloc_addr) s of
           (r, s) \<Rightarrow>
             if status r \<noteq> EFI_SUCCESS then (status r, addr, s)
             else
               (let alloc_addr = out r;
                    addr = ALIGN_UP alloc_addr align
                in if slack > 0 then
                     (let l = s32 ((alloc_addr AND (align - 1)) div EFI_PAGE_SIZE);
                          (slack, s) =
                            (if l \<noteq> 0
                             then (l - 1, snd (efi_bs_call fw (FreePages alloc_addr (u64 (slack - l + 1))) s))
                             else (slack, s));
                          s = (if slack \<noteq> 0
                               then snd (efi_bs_call fw (FreePages (u64 (addr + size0)) (u64 slack)) s)
                               else s)
                      in (EFI_SUCCESS, addr, s))
                   else (EFI_SUCCESS, addr, s)))"

section \<open>The memory map\<close>

text \<open>
  \<open>struct efi_boot_memmap\<close>: five fields in 40 bytes, then the descriptors. The firmware stores the
  sizes and the key of the map through pointers to these fields.
\<close>

abbreviation (input) SIZEOF_BOOT_MEMMAP :: int where "SIZEOF_BOOT_MEMMAP \<equiv> 40"

definition mm_map_size :: "mem \<Rightarrow> addr \<Rightarrow> int" where "mm_map_size m p = ld_le m p 8"
definition mm_desc_size :: "mem \<Rightarrow> addr \<Rightarrow> int" where "mm_desc_size m p = ld_le m (p + 8) 8"
definition mm_desc_ver :: "mem \<Rightarrow> addr \<Rightarrow> int" where "mm_desc_ver m p = ld_le m (p + 16) 4"
definition mm_map_key :: "mem \<Rightarrow> addr \<Rightarrow> int" where "mm_map_key m p = ld_le m (p + 24) 8"
definition mm_buff_size :: "mem \<Rightarrow> addr \<Rightarrow> int" where "mm_buff_size m p = ld_le m (p + 32) 8"

text \<open>What a \<open>GetMemoryMap\<close> that is given these pointers leaves in the fields.\<close>

definition store_map_reply :: "efi_reply \<Rightarrow> addr \<Rightarrow> mem \<Rightarrow> mem" where
  "store_map_reply r p m =
     (let m = st_le m p 8 (map_size r); m = st_le m (p + 24) 8 (map_key r);
          m = st_le m (p + 8) 8 (desc_size r)
      in st_le m (p + 16) 4 (desc_ver r))"

definition LINUX_EFI_BOOT_MEMMAP_GUID :: guid where
  "LINUX_EFI_BOOT_MEMMAP_GUID = MAKE_EFI_GUID 0x800f683f 0xd08b 0x423a
     [0xa2, 0x93, 0x96, 0x5c, 0x3c, 0x6f, 0xe2, 0xb4]"

definition efi_get_memory_map ::
  "'w firmware \<Rightarrow> addr \<Rightarrow> bool \<Rightarrow> ('w, 'z) efi_scheme \<Rightarrow> int \<times> addr \<times> ('w, 'z) efi_scheme" where
  "efi_get_memory_map fw pmap install_cfg_tbl s =
     (let memtype = (if install_cfg_tbl then EfiACPIReclaimMemory else EfiLoaderData)
      in case efi_bs_call fw (GetMemoryMap 0 None) s of
        (tmp, s) \<Rightarrow>
          if status tmp \<noteq> EFI_BUFFER_TOO_SMALL then (EFI_LOAD_ERROR, pmap, s)
          else
            (let size0 = u64 (map_size tmp + desc_size tmp * EFI_MMAP_NR_SLACK_SLOTS)
             in case efi_bs_call fw (AllocatePool memtype (u64 (SIZEOF_BOOT_MEMMAP + size0))) s of
               (r, s) \<Rightarrow>
                 if status r \<noteq> EFI_SUCCESS then (status r, pmap, s)
                 else
                   (let m = out r;
                        (st, s) = (if install_cfg_tbl
                          then (case efi_bs_call fw (InstallConfigurationTable LINUX_EFI_BOOT_MEMMAP_GUID (Some m)) s of
                                  (r, s) \<Rightarrow> (status r, s))
                          else (EFI_SUCCESS, s))
                    in if st \<noteq> EFI_SUCCESS then (st, pmap, snd (efi_bs_call fw (FreePool m) s))
                       else
                         (let s = s\<lparr>memory := st_le (st_le (memory s) m 8 size0) (m + 32) 8 size0\<rparr>
                          in case efi_bs_call fw (GetMemoryMap size0 (Some (m + SIZEOF_BOOT_MEMMAP))) s of
                            (r, s) \<Rightarrow>
                              (let s = s\<lparr>memory := store_map_reply r m (memory s)\<rparr>
                               in if status r = EFI_SUCCESS then (EFI_SUCCESS, m, s)
                                  else
                                    (let s = (if install_cfg_tbl
                                       then snd (efi_bs_call fw (InstallConfigurationTable LINUX_EFI_BOOT_MEMMAP_GUID None) s)
                                       else s)
                                     in (status r, pmap, snd (efi_bs_call fw (FreePool m) s))))))))"

end
