(* ===== verification/Efi_Spec.thy ===== *)
theory Efi_Spec
  imports Efi
begin

text \<open>
  The firmware memory services: how sizes and addresses are rounded, which pages an aligned
  allocation keeps, and that no path loses a pool buffer.
\<close>

section \<open>The record of the calls\<close>

lemma efi_bs_call_calls:
  "efi_bs_call fw c s = (r, s') \<Longrightarrow> calls s' = calls s @ [(c, r)]"
  by (auto simp: efi_bs_call_def split: prod.splits)

lemma efi_bs_call_more:
  "efi_bs_call fw c s = (r, s') \<Longrightarrow> efi.more s' = efi.more s"
  by (auto simp: efi_bs_call_def split: prod.splits)

lemma calls_snd_bs_call [simp]:
  "calls (snd (efi_bs_call fw c s)) = calls s @ [(c, fst (efi_bs_call fw c s))]"
  by (rule efi_bs_call_calls) simp

section \<open>Rounding to a power of two\<close>

lemma mask_int: "mask k = (2 ^ k - 1 :: int)"
  by (simp add: mask_eq_exp_minus_1)

lemma and_not_pow: "x AND NOT (2 ^ k - 1) = 2 ^ k * (x div 2 ^ k)" for x :: int
  using and_not_mask_int [of x k] by (simp add: mask_int)

lemma or_pow: "x OR (2 ^ k - 1) = 2 ^ k * (x div 2 ^ k) + (2 ^ k - 1)" for x :: int
proof -
  have "(x AND NOT (mask k)) + mask k = (x AND NOT (mask k)) OR mask k"
    by (rule disjunctive_add) (auto simp: bit_simps)
  also have "\<dots> = x OR mask k" by (rule bit_eqI) (auto simp: bit_simps)
  finally have "x OR mask k = (x AND NOT (mask k)) + mask k" ..
  then show ?thesis using and_not_pow [of x k] by (simp only: mask_int)
qed

lemma and_pow: "x AND (2 ^ k - 1) = x mod 2 ^ k" for x :: int
  using take_bit_eq_mask [of k x] by (simp add: mask_int take_bit_eq_mod)

lemma ALIGN_UP_pow:
  assumes "0 \<le> x" "x + 2 ^ k \<le> 18446744073709551616"
  shows "ALIGN_UP x (2 ^ k) = 2 ^ k * ((x + 2 ^ k - 1) div 2 ^ k)"
proof -
  have "(1 :: int) \<le> 2 ^ k" by simp
  then have "u64 (x + (2 ^ k - 1)) = x + 2 ^ k - 1" using assms by (subst u64_id) linarith+
  then show ?thesis by (simp only: ALIGN_UP_def and_not_pow)
qed

text \<open>The multiple of \<open>a\<close> that rounding up finds.\<close>

lemma round_bounds:
  fixes x a :: int
  assumes "0 < a"
  shows "x \<le> a * ((x + a - 1) div a)" "a * ((x + a - 1) div a) < x + a"
proof -
  have "(x + a - 1) mod a < a" "0 \<le> (x + a - 1) mod a" using assms by simp_all
  moreover have "a * ((x + a - 1) div a) + (x + a - 1) mod a = x + a - 1" by simp
  ultimately show "x \<le> a * ((x + a - 1) div a)" "a * ((x + a - 1) div a) < x + a" by linarith+
qed

lemma round_up_pow:
  assumes "0 \<le> x" "x + 2 ^ k \<le> 18446744073709551616"
  shows "round_up x (2 ^ k) = 2 ^ k * ((x + 2 ^ k - 1) div 2 ^ k)"
proof (cases "x = 0")
  case True
  have z: "(2 ^ k - 1) div (2 ^ k :: int) = 0" by (rule div_pos_pos_trivial) simp_all
  have "(18446744073709551615 :: int) OR (2 ^ k - 1) = 18446744073709551615" if "k \<le> 64"
  proof -
    have "(18446744073709551615 :: int) = mask 64" by (simp add: mask_eq_exp_minus_1)
    moreover have "mask 64 OR mask k = (mask 64 :: int)" using that by (auto intro!: bit_eqI simp: bit_simps)
    ultimately show ?thesis by (simp only: mask_int)
  qed
  moreover have "k \<le> 64"
  proof (rule ccontr)
    assume "\<not> k \<le> 64"
    then have "(2 :: int) ^ 65 \<le> 2 ^ k" by (intro power_increasing) auto
    then show False using assms True by simp
  qed
  ultimately show ?thesis using True by (simp add: round_up_def u64_def z)
next
  case False
  have "u64 (x - 1) = x - 1" using assms False one_le_power [of "2 :: int" k] by (intro u64_id) linarith+
  moreover have "2 ^ k * ((x - 1) div 2 ^ k) + (2 ^ k - 1) + 1 = 2 ^ k * ((x + 2 ^ k - 1) div 2 ^ k)"
  proof -
    have "(x + 2 ^ k - 1) div 2 ^ k = (x - 1) div 2 ^ k + 1"
      using div_add_self2 [of "2 ^ k :: int" "x - 1"] by (simp add: algebra_simps)
    then show ?thesis by (simp add: algebra_simps)
  qed
  moreover have "2 ^ k * ((x + 2 ^ k - 1) div 2 ^ k) < 18446744073709551616"
    using round_bounds(2) [of "2 ^ k" x] assms by simp
  moreover have "0 \<le> 2 ^ k * ((x + 2 ^ k - 1) div 2 ^ k)" 
    using assms round_bounds(1) [of "2 ^ k" x] by simp
  ultimately show ?thesis by (simp only: round_up_def or_pow u64_id)
qed

section \<open>Aligned allocations\<close>

text \<open>Which pages the loop-free clean-up of an aligned allocation gives back.\<close>

lemma pages_head:
  fixes b P :: int
  assumes "0 < P" "0 \<le> b"
  defines "h \<equiv> P * ((b + P - 1) div P) - b"
  shows "h = (if b mod P = 0 then 0 else P - b mod P)" "0 \<le> h" "h < P"
proof -
  show "0 \<le> h" "h < P" using round_bounds [of P b] assms by (simp_all add: h_def)
  moreover have "P * ((b + P - 1) div P) = b + h" by (simp add: h_def)
  then have "(b + h) mod P = 0" by (metis mod_mult_self1_is_0)
  moreover have "(b + h) mod P = (b mod P + h) mod P" by (simp add: mod_add_left_eq)
  moreover have "(b mod P + h) mod P = (if b mod P + h < P then b mod P + h else b mod P + h - P)"
  proof -
    have "b mod P < P" "0 \<le> b mod P" using assms(1) by simp_all
    moreover from this have "b mod P + h < 2 * P" using \<open>h < P\<close> by linarith
    ultimately show ?thesis using \<open>0 \<le> h\<close> \<open>h < P\<close> mod_pos_pos_trivial [of "b mod P + h" P]
        mod_pos_pos_trivial [of "b mod P + h - P" P] minus_mod_self2 [of "b mod P + h" P]
      by (auto simp del: minus_mod_self2)
  qed
  moreover have zero: "b mod P + h = 0 \<Longrightarrow> b mod P = 0"
    using pos_mod_sign [OF assms(1), of b] \<open>0 \<le> h\<close> by linarith
  ultimately show "h = (if b mod P = 0 then 0 else P - b mod P)"
    using assms(1) zero by (auto split: if_splits)
qed

text \<open>
  The region that the firmware returns is kept from \<open>addr\<close> on, for the rounded size; the pages in
  front of it and behind it are given back, and there are no others.
\<close>

lemma efi_allocate_pages_aligned_parts:
  assumes k: "12 \<le> k" "k \<le> 43" and sz: "0 < sz" "sz \<le> 4611686018427387904"
    and ok: "efi_allocate_pages_aligned fw sz addr0 maxa (2 ^ k) mt s = (EFI_SUCCESS, addr, s')"
    and reply: "\<And>n lim r. fst (efi_bs_call fw (AllocatePages EFI_ALLOCATE_MAX_ADDRESS mt n lim) s) = r \<Longrightarrow>
        status r = EFI_SUCCESS \<Longrightarrow>
        0 \<le> out r \<and> out r mod 4096 = 0 \<and> out r + 4096 * n \<le> 18446744073709551616"
  shows "\<exists>lim r hd tl new. calls s' = calls s @ (AllocatePages EFI_ALLOCATE_MAX_ADDRESS mt
        (hd + round_up sz EFI_PAGE_SIZE div EFI_PAGE_SIZE + tl) lim, r) # new
    \<and> 0 \<le> hd \<and> 0 \<le> tl \<and> addr = out r + EFI_PAGE_SIZE * hd \<and> addr mod 2 ^ k = 0
    \<and> map fst new = (if hd = 0 then [] else [FreePages (out r) hd])
        @ (if tl = 0 then [] else [FreePages (addr + round_up sz EFI_PAGE_SIZE) tl])"
proof -
  define P :: int where "P = 2 ^ (k - 12)"
  have "(2 :: int) ^ k = 2 ^ 12 * 2 ^ (k - 12)" using k by (metis le_add_diff_inverse power_add)
  then have align: "(2 :: int) ^ k = 4096 * P" by (simp add: P_def)
  have P: "1 \<le> P" "P \<le> 2147483648"
    using k power_increasing [of "k - 12" 31 "2 :: int"] by (simp_all add: P_def)
  define n where "n = (sz + 4095) div 4096"
  have S: "round_up sz 4096 = 4096 * n"
    using round_up_pow [of sz 12] sz by (simp add: n_def)
  have n: "1 \<le> n" "n \<le> 1125899906842625" using sz by (simp_all add: n_def)
  have slack: "s32 (2 ^ k div 4096 - 1) = P - 1" using P by (simp add: align s32_id)
  have pages: "u64 (n + (P - 1)) = n + (P - 1)" using n P by (intro u64_id) linarith+
  have nless: "\<not> (2 :: int) ^ k < 4096" using P by (simp add: align)
  define lim where "lim = u64 (ALIGN_DOWN (u64 (min maxa EFI_ALLOC_LIMIT + 1)) (2 ^ k) - 1)"
  obtain r t where call: "efi_bs_call fw (AllocatePages 1 mt (n + (P - 1)) lim) s = (r, t)" by fastforce
  have unf: "efi_allocate_pages_aligned fw sz addr0 maxa (2 ^ k) mt s =
    (if status r \<noteq> 0 then (status r, addr0, t)
     else (let addr = ALIGN_UP (out r) (2 ^ k) in
       if P - 1 > 0 then
         (let l = s32 ((out r AND (2 ^ k - 1)) div 4096);
              (slack, s) = (if l \<noteq> 0 then (l - 1, snd (efi_bs_call fw (FreePages (out r) (u64 (P - 1 - l + 1))) t))
                            else (P - 1, t));
              s = (if slack \<noteq> 0 then snd (efi_bs_call fw (FreePages (u64 (addr + 4096 * n)) (u64 slack)) s) else s)
          in (0, addr, s))
       else (0, addr, t)))"
    unfolding efi_allocate_pages_aligned_def Let_def
    using nless by (simp add: S slack pages lim_def [symmetric] call)
  have st: "status r = 0" using ok unf by (auto split: if_splits)
  then have r: "0 \<le> out r" "out r mod 4096 = 0" "out r + 4096 * (n + (P - 1)) \<le> 18446744073709551616"
    using reply [of "n + (P - 1)" lim r] call by simp_all
  then obtain b where b: "out r = 4096 * b" "0 \<le> b" by auto
  define h where "h = P * ((b + P - 1) div P) - b"
  have hd: "h = (if b mod P = 0 then 0 else P - b mod P)" "0 \<le> h" "h < P"
    using pages_head [of P b] P b by (simp_all add: h_def)
  have "(out r + 2 ^ k - 1) div 2 ^ k = (b + P - 1) div P"
  proof -
    have "(4096 * (b + P - 1) + 4095) div (4096 * P) = (4096 * (b + P - 1) + 4095) div 4096 div P"
      using P by (intro zdiv_zmult2_eq) simp
    also have "(4096 * (b + P - 1) + 4095) div 4096 = b + P - 1" by simp
    finally show ?thesis by (simp add: align b algebra_simps)
  qed
  then have up: "ALIGN_UP (out r) (2 ^ k) = 4096 * (b + h)"
    using ALIGN_UP_pow [of "out r" k] r n P by (simp add: align b h_def)
  have l: "s32 ((out r AND (2 ^ k - 1)) div 4096) = b mod P"
  proof -
    have "0 \<le> b mod P" "b mod P < P" using P by simp_all
    then have "s32 (b mod P) = b mod P" using P by (intro s32_id) linarith+
    then show ?thesis using P unfolding and_pow unfolding align b by (simp add: mod_mult_mult1)
  qed
  define t1 where "t1 = (if h = 0 then t else snd (efi_bs_call fw (FreePages (out r) h) t))"
  define t2 where "t2 = (if P - 1 - h = 0 then t1
    else snd (efi_bs_call fw (FreePages (4096 * (b + h) + 4096 * n) (P - 1 - h)) t1))"
  have small: "u64 h = h" "u64 (P - 1 - h) = P - 1 - h"
    using hd(2,3) P by (intro u64_id; linarith)+
  have small2: "u64 (4096 * (b + h) + 4096 * n) = 4096 * (b + h) + 4096 * n" if "P - 1 - h \<noteq> 0"
  proof -
    have "h < P - 1" using that hd(3) by simp
    then have "4096 * (b + h) + 4096 * n < 18446744073709551616" using b(1) r(3) by (simp add: algebra_simps)
    then show ?thesis using hd(2) n(1) b(2) by (simp add: u64_id)
  qed
  have "addr = 4096 * (b + h) \<and> s' = t2"
  proof (cases "b mod P = 0")
    case True
    then show "addr = 4096 * (b + h) \<and> s' = t2"
      using ok hd small small2 unfolding unf up l t2_def t1_def by (auto simp: st Let_def split: if_splits)
  next
    case False
    then have "P - 1 - b mod P + 1 = h" "b mod P - 1 = P - 1 - h" using hd by simp_all
    moreover from this have "P - 1 > 0" using hd P by (cases "P = 1") auto
    moreover have "b mod P < P" using P by simp
    then have "h \<noteq> 0" using False hd(1) by simp
    ultimately show "addr = 4096 * (b + h) \<and> s' = t2"
      using ok False hd small small2 unfolding unf up l t2_def t1_def by (auto simp: st Let_def split: if_splits)
  qed
  then have res: "addr = 4096 * (b + h)" "s' = t2" by simp_all
  have c: "calls t = calls s @ [(AllocatePages 1 mt (n + (P - 1)) lim, r)]"
    by (rule efi_bs_call_calls [OF call])
  have "\<exists>new. calls t2 = calls t @ new \<and> map fst new =
      (if h = 0 then [] else [FreePages (out r) h])
      @ (if P - 1 - h = 0 then [] else [FreePages (addr + round_up sz 4096) (P - 1 - h)])"
    by (auto simp: t2_def t1_def res(1) S)
  then obtain new where "calls t2 = calls t @ new" "map fst new =
      (if h = 0 then [] else [FreePages (out r) h])
      @ (if P - 1 - h = 0 then [] else [FreePages (addr + round_up sz 4096) (P - 1 - h)])"
    by blast
  moreover have "h + round_up sz 4096 div 4096 + (P - 1 - h) = n + (P - 1)" by (simp add: S)
  moreover have "addr mod 2 ^ k = 0"
    unfolding res(1) align h_def by (simp add: mod_mult_mult1)
  moreover have "addr = out r + 4096 * h" by (simp add: res(1) b)
  ultimately show ?thesis
    using hd c res(2) by (intro exI [of _ lim] exI [of _ r] exI [of _ h] exI [of _ "P - 1 - h"] exI [of _ new]) simp
qed

section \<open>Freeing what was allocated\<close>

lemma DIV_ROUND_UP_pages:
  assumes "0 \<le> sz" "sz \<le> 18446744073709547520"
  shows "DIV_ROUND_UP sz 4096 = (sz + 4095) div 4096"
proof (cases "sz = 18446744073709547520")
  case True
  then show ?thesis by (simp add: DIV_ROUND_UP_def u64_def)
next
  case False
  then have "u64 (sz + 4096) = sz + 4096" using assms by (intro u64_id) auto
  then show ?thesis using assms by (simp add: DIV_ROUND_UP_def u64_id)
qed

lemma round_up_pages:
  "0 \<le> sz \<Longrightarrow> sz \<le> 18446744073709547520 \<Longrightarrow> round_up sz 4096 = 4096 * ((sz + 4095) div 4096)"
  using round_up_pow [of sz 12] by simp

section \<open>Little-endian fields\<close>

lemma horner_le: "horner_sum uint 256 (map (\<lambda>i. byte_of (v div 256 ^ i)) [0..<n]) = v mod 256 ^ n"
proof (induction n arbitrary: v)
  case 0
  then show ?case by simp
next
  case (Suc n)
  have "[0..<Suc n] = 0 # map Suc [0..<n]" by (simp add: upt_conv_Cons map_Suc_upt del: upt_Suc)
  moreover have "v div 256 ^ Suc i = v div 256 div 256 ^ i" for i by (simp add: zdiv_zmult2_eq)
  ultimately have "horner_sum uint 256 (map (\<lambda>i. byte_of (v div 256 ^ i)) [0..<Suc n])
      = v mod 256 + 256 * (v div 256 mod 256 ^ n)"
    using Suc [of "v div 256"] by (simp add: comp_def del: upt_Suc power_Suc)
  also have "\<dots> = v mod 256 ^ Suc n" using zmod_zmult2_eq [of "256 ^ n" v 256] by simp
  finally show ?case .
qed

lemma ld_le_st_le [mem_simps]: "ld_le (st_le m p n v) p n = v mod 256 ^ n"
proof -
  have "bytes_at (st_le m p n v) p n = map (\<lambda>i. byte_of (v div 256 ^ i)) [0..<n]"
    using bytes_at_put_bytes_same [of m p "map (\<lambda>i. byte_of (v div 256 ^ i)) [0..<n]"]
    by (simp add: st_le_def)
  then show ?thesis by (simp add: ld_le_def horner_le)
qed

lemma st_le_outside [mem_simps]: "a < p \<or> p + int n \<le> a \<Longrightarrow> st_le m p n v a = m a"
  by (simp add: st_le_def put_bytes_outside)

lemma ld_le_agree: "agree lo hi m m' \<Longrightarrow> lo \<le> p \<Longrightarrow> p + int n \<le> hi \<Longrightarrow> ld_le m p n = ld_le m' p n"
  unfolding ld_le_def by (simp add: bytes_at_agree)

lemma ld_le_st_le_other [mem_simps]:
  "p + int n \<le> q \<or> q + int k \<le> p \<Longrightarrow> ld_le (st_le m q k v) p n = ld_le m p n"
  by (rule ld_le_agree [of p "p + int n"]) (auto simp: agree_def mem_simps)

lemma store_map_reply_key: "mm_map_key (store_map_reply r m mm) m = u64 (map_key r)"
  by (simp add: mm_map_key_def store_map_reply_def Let_def mem_simps u64_def)

section \<open>Pool buffers\<close>

text \<open>The buffers that a sequence of calls has allocated, and those it has freed.\<close>

fun pool_allocs :: "(efi_call \<times> efi_reply) list \<Rightarrow> addr multiset" where
  "pool_allocs [] = {#}"
| "pool_allocs ((AllocatePool _ _, r) # cs) =
     (if status r = EFI_SUCCESS then {#out r#} else {#}) + pool_allocs cs"
| "pool_allocs (_ # cs) = pool_allocs cs"

fun pool_frees :: "(efi_call \<times> efi_reply) list \<Rightarrow> addr multiset" where
  "pool_frees [] = {#}"
| "pool_frees ((FreePool a, _) # cs) = {#a#} + pool_frees cs"
| "pool_frees (_ # cs) = pool_frees cs"

text \<open>The table that the last successful call for a GUID has installed.\<close>

fun installed :: "guid \<Rightarrow> (efi_call \<times> efi_reply) list \<Rightarrow> addr option \<Rightarrow> addr option" where
  "installed g [] t = t"
| "installed g ((InstallConfigurationTable g' a, r) # cs) t =
     installed g cs (if g' = g \<and> status r = EFI_SUCCESS then a else t)"
| "installed g (_ # cs) t = installed g cs t"

text \<open>
  The table that is left for a GUID when a call that asks to remove it counts as removing it, whatever
  the firmware replies.
\<close>

fun left_installed :: "guid \<Rightarrow> (efi_call \<times> efi_reply) list \<Rightarrow> addr option \<Rightarrow> addr option" where
  "left_installed g [] t = t"
| "left_installed g ((InstallConfigurationTable g' (Some a), r) # cs) t =
     left_installed g cs (if g' = g \<and> status r = EFI_SUCCESS then Some a else t)"
| "left_installed g ((InstallConfigurationTable g' None, r) # cs) t = left_installed g cs (if g' = g then None else t)"
| "left_installed g (_ # cs) t = left_installed g cs t"

lemma memory_update_calls [simp]: "calls (s\<lparr>memory := m\<rparr>) = calls s"
  by simp

text \<open>
  \<open>efi_get_memory_map\<close> hands over one buffer when it succeeds and none when it fails, and then it has
  asked to remove the table that it has installed; in its last call before a success it has fetched
  the map, and the key in the buffer is the one of this call.
\<close>

lemma efi_get_memory_map_pool:
  assumes "efi_get_memory_map fw p b s = (st, m, s')"
  shows "\<exists>new. calls s' = calls s @ new
    \<and> (if st = EFI_SUCCESS
       then pool_allocs new = pool_frees new + {#m#}
         \<and> (\<exists>cs n r. new = cs @ [(GetMemoryMap n (Some (m + SIZEOF_BOOT_MEMMAP)), r)] \<and> status r = EFI_SUCCESS
              \<and> mm_map_key (memory s') m = u64 (map_key r))
         \<and> (installed LINUX_EFI_BOOT_MEMMAP_GUID new None = (if b then Some m else None))
       else m = p \<and> pool_allocs new = pool_frees new
         \<and> left_installed LINUX_EFI_BOOT_MEMMAP_GUID new None = None)"
proof -
  obtain tmp s1 where 1: "efi_bs_call fw (GetMemoryMap 0 None) s = (tmp, s1)" by fastforce
  note c1 = efi_bs_call_calls [OF 1]
  show ?thesis
  proof (cases "status tmp = EFI_BUFFER_TOO_SMALL")
    case False
    then show ?thesis using assms c1 by (auto simp: efi_get_memory_map_def 1)
  next
    case too_small: True
    define size0 where "size0 = u64 (map_size tmp + desc_size tmp * EFI_MMAP_NR_SLACK_SLOTS)"
    define mt where "mt = (if b then EfiACPIReclaimMemory else EfiLoaderData)"
    obtain r s2 where 2: "efi_bs_call fw (AllocatePool mt (u64 (SIZEOF_BOOT_MEMMAP + size0))) s1 = (r, s2)"
      by fastforce
    note c2 = efi_bs_call_calls [OF 2]
    show ?thesis
    proof (cases "status r = EFI_SUCCESS")
      case False
      then show ?thesis using assms c1 c2 too_small
        by (auto simp: efi_get_memory_map_def 1 2 mt_def [symmetric] size0_def [symmetric])
    next
      case True
      define m1 where "m1 = out r"
      obtain r3 s3 where 3: "(if b then efi_bs_call fw (InstallConfigurationTable LINUX_EFI_BOOT_MEMMAP_GUID (Some m1)) s2
          else (r, s2)) = (r3, s3)" by fastforce
      have c3: "calls s3 = calls s2 @ (if b then [(InstallConfigurationTable LINUX_EFI_BOOT_MEMMAP_GUID (Some m1), r3)] else [])"
        using 3 efi_bs_call_calls [of fw _ s2 r3 s3] by (auto split: if_splits)
      have e3: "(if b then case efi_bs_call fw (InstallConfigurationTable LINUX_EFI_BOOT_MEMMAP_GUID (Some m1)) s2 of
            (r, s) \<Rightarrow> (status r, s) else (EFI_SUCCESS, s2)) = (status r3, s3)"
        using 3 True by (auto split: if_splits)
      define s4 where "s4 = s3\<lparr>memory := st_le (st_le (memory s3) m1 8 size0) (m1 + 32) 8 size0\<rparr>"
      obtain r5 s5 where 5: "efi_bs_call fw (GetMemoryMap size0 (Some (m1 + SIZEOF_BOOT_MEMMAP))) s4 = (r5, s5)"
        by fastforce
      note c5 = efi_bs_call_calls [OF 5]
      have unf: "efi_get_memory_map fw p b s =
        (if status r3 \<noteq> EFI_SUCCESS then (status r3, p, snd (efi_bs_call fw (FreePool m1) s3))
         else (let s = s5\<lparr>memory := store_map_reply r5 m1 (memory s5)\<rparr>
           in if status r5 = EFI_SUCCESS then (EFI_SUCCESS, m1, s)
              else (let s = (if b then snd (efi_bs_call fw (InstallConfigurationTable LINUX_EFI_BOOT_MEMMAP_GUID None) s) else s)
                    in (status r5, p, snd (efi_bs_call fw (FreePool m1) s)))))"
        unfolding efi_get_memory_map_def Let_def 1 prod.case size0_def [symmetric] mt_def [symmetric] 2
          m1_def [symmetric] e3 s4_def [symmetric] 5
        using too_small True by simp
      show ?thesis
        using assms True c1 c2 c3 c5 unfolding unf
        by (auto simp: Let_def s4_def m1_def store_map_reply_key split: if_splits)
    qed
  qed
qed

end
