(* ===== verification/Elf.thy ===== *)
theory Elf
  imports Efi_Spec
begin

text \<open>
  Loading the kernel: \<open>apps/elf.c\<close>. The payload, an ELF file, lies in memory; its headers are read
  where the code reads them. A \<open>return\<close> with an error before the out parameters are set is \<open>Inl\<close>.
\<close>

section \<open>Headers\<close>

abbreviation (input) EI_NIDENT :: int where "EI_NIDENT \<equiv> 16"
abbreviation (input) EI_CLASS :: nat where "EI_CLASS \<equiv> 4"
abbreviation (input) EI_VERSION :: int where "EI_VERSION \<equiv> 6"
abbreviation (input) EV_CURRENT :: byte where "EV_CURRENT \<equiv> 1"
abbreviation (input) ELFCLASS64 :: byte where "ELFCLASS64 \<equiv> 2"
abbreviation (input) EM_RISCV :: int where "EM_RISCV \<equiv> 243"
abbreviation (input) PN_XNUM :: int where "PN_XNUM \<equiv> 0xffff"
abbreviation (input) PT_LOAD :: int where "PT_LOAD \<equiv> 1"
abbreviation (input) SIZEOF_PHDR :: int where "SIZEOF_PHDR \<equiv> 56"
abbreviation (input) SIZEOF_SHDR :: int where "SIZEOF_SHDR \<equiv> 64"

definition ELFMAG :: "byte list" where "ELFMAG = [0x7f, 0x45, 0x4c, 0x46]"

definition e_machine :: "mem \<Rightarrow> addr \<Rightarrow> int" where "e_machine m ehdr = ld_le m (ehdr + 18) 2"
definition e_entry :: "mem \<Rightarrow> addr \<Rightarrow> int" where "e_entry m ehdr = ld_le m (ehdr + 24) 8"
definition e_phoff :: "mem \<Rightarrow> addr \<Rightarrow> int" where "e_phoff m ehdr = ld_le m (ehdr + 32) 8"
definition e_shoff :: "mem \<Rightarrow> addr \<Rightarrow> int" where "e_shoff m ehdr = ld_le m (ehdr + 40) 8"
definition e_phentsize :: "mem \<Rightarrow> addr \<Rightarrow> int" where "e_phentsize m ehdr = ld_le m (ehdr + 54) 2"
definition e_phnum :: "mem \<Rightarrow> addr \<Rightarrow> int" where "e_phnum m ehdr = ld_le m (ehdr + 56) 2"
definition sh_info :: "mem \<Rightarrow> addr \<Rightarrow> int" where "sh_info m shdr = ld_le m (shdr + 44) 4"

record elf64_phdr =
  p_type :: int
  p_offset :: int
  p_vaddr :: int
  p_paddr :: int
  p_filesz :: int
  p_memsz :: int
  p_align :: int

definition phdr_at :: "mem \<Rightarrow> addr \<Rightarrow> elf64_phdr" where
  "phdr_at m p = \<lparr>p_type = ld_le m p 4, p_offset = ld_le m (p + 8) 8, p_vaddr = ld_le m (p + 16) 8,
     p_paddr = ld_le m (p + 24) 8, p_filesz = ld_le m (p + 32) 8, p_memsz = ld_le m (p + 40) 8,
     p_align = ld_le m (p + 48) 8\<rparr>"

section \<open>Checking the file\<close>

definition verify_ident :: "mem \<Rightarrow> addr \<Rightarrow> int \<Rightarrow> bool" where
  "verify_ident m buf bufsize =
     (if bufsize < EI_NIDENT then False
      else if list_ex (\<lambda>i. m (buf + int i) \<noteq> ELFMAG ! i) [0..<EI_CLASS] then False
      else if m (buf + EI_VERSION) \<noteq> EV_CURRENT then False
      else if m (buf + int EI_CLASS) \<noteq> ELFCLASS64 then False
      else True)"

definition elf_check :: "mem \<Rightarrow> addr \<Rightarrow> int \<Rightarrow> bool" where
  "elf_check m payload_start payload_size =
     (if \<not> verify_ident m payload_start payload_size then False
      else if e_machine m payload_start \<noteq> EM_RISCV then False
      else True)"

definition elf_get_header :: "mem \<Rightarrow> addr \<Rightarrow> int \<Rightarrow> int + addr" where
  "elf_get_header m payload_start payload_size =
     (if \<not> verify_ident m payload_start payload_size then Inl EFI_INVALID_PARAMETER
      else Inr payload_start)"

text \<open>The number of program headers and the address of the first.\<close>

definition parse_phdrs :: "mem \<Rightarrow> addr \<Rightarrow> int \<Rightarrow> addr \<Rightarrow> int + int \<times> addr" where
  "parse_phdrs m payload_start payload_size ehdr =
     (if e_phnum m ehdr = 0 then Inl EFI_INVALID_PARAMETER
      else if e_phentsize m ehdr \<noteq> SIZEOF_PHDR then Inl EFI_INVALID_PARAMETER
      else
        (let shoff = e_shoff m ehdr;
             phnum = (if e_phnum m ehdr = PN_XNUM then sh_info m (payload_start + shoff) mod 65536
                      else e_phnum m ehdr)
         in if e_phnum m ehdr = PN_XNUM \<and> shoff = 0 then Inl EFI_INVALID_PARAMETER
            else if e_phnum m ehdr = PN_XNUM \<and> u64 (shoff + SIZEOF_SHDR) > payload_size
            then Inl EFI_INVALID_PARAMETER
            else if e_phnum m ehdr = PN_XNUM \<and> phnum = 0 then Inl EFI_INVALID_PARAMETER
            else
              (let phoff = e_phoff m ehdr; total_size = u64 (phnum * e_phentsize m ehdr)
               in if u64 (phoff + total_size) > payload_size then Inl EFI_INVALID_PARAMETER
                  else Inr (phnum, payload_start + phoff))))"

section \<open>The loaded image in the memory map\<close>

text \<open>A descriptor size of zero would never end the loop.\<close>

partial_function (option) region_loop :: "mem \<Rightarrow> addr \<Rightarrow> int \<Rightarrow> int \<Rightarrow> int \<Rightarrow> bool option" where
  "region_loop m map0 map_offset base size0 =
     (if map_offset < mm_map_size m map0 then
        (let md = map0 + SIZEOF_BOOT_MEMMAP + map_offset; start = ld_le m (md + 8) 8;
             endp = u64 (start + ld_le m (md + 24) 8 * EFI_PAGE_SIZE)
         in if base \<ge> start \<and> base < endp then Some (u64 (base + size0) \<le> endp)
            else region_loop m map0 (u64 (map_offset + mm_desc_size m map0)) base size0)
      else Some False)"

definition check_image_region ::
  "'w firmware \<Rightarrow> int \<Rightarrow> int \<Rightarrow> ('w, 'z) efi_scheme \<Rightarrow> (bool \<times> ('w, 'z) efi_scheme) option" where
  "check_image_region fw base size0 s =
     (case efi_get_memory_map fw 0 False s of
        (st, map0, s) \<Rightarrow>
          if st \<noteq> EFI_SUCCESS then Some (False, s)
          else do {
            ret \<leftarrow> region_loop (memory s) map0 0 base size0;
            Some (ret, snd (efi_bs_call fw (FreePool map0) s))
          })"

section \<open>Memory attributes\<close>

definition EFI_MEMORY_ATTRIBUTE_PROTOCOL_GUID :: guid where
  "EFI_MEMORY_ATTRIBUTE_PROTOCOL_GUID = MAKE_EFI_GUID 0xf4560cf6 0x40ec 0x4b4a
     [0xa1, 0x92, 0xbf, 0x1d, 0x57, 0xd0, 0xb1, 0x89]"

abbreviation (input) EFI_MEMORY_WP :: int where "EFI_MEMORY_WP \<equiv> 0x1000"
abbreviation (input) EFI_MEMORY_RP :: int where "EFI_MEMORY_RP \<equiv> 0x2000"
abbreviation (input) EFI_MEMORY_XP :: int where "EFI_MEMORY_XP \<equiv> 0x4000"

definition clear_if ::
  "'w firmware \<Rightarrow> addr \<Rightarrow> addr \<Rightarrow> int \<Rightarrow> int \<Rightarrow> int \<Rightarrow> ('w, 'z) efi_scheme \<Rightarrow> ('w, 'z) efi_scheme" where
  "clear_if fw memattr image_base alloc_size attrs flag s =
     (if attrs AND flag \<noteq> 0
      then snd (efi_bs_call fw (ClearMemoryAttributes memattr image_base alloc_size flag) s) else s)"

text \<open>\<open>alloc_size\<close> is an \<open>unsigned\<close>: a caller's 64-bit size is cut to 32 bits.\<close>

definition efi_remap_image_all_rwx ::
  "'w firmware \<Rightarrow> addr \<Rightarrow> int \<Rightarrow> ('w, 'z) efi_scheme \<Rightarrow> ('w, 'z) efi_scheme" where
  "efi_remap_image_all_rwx fw image_base size0 s =
     (let alloc_size = u32 size0
      in case efi_bs_call fw (LocateProtocol EFI_MEMORY_ATTRIBUTE_PROTOCOL_GUID) s of
        (r, s) \<Rightarrow>
          if status r \<noteq> EFI_SUCCESS then s
          else
            (let memattr = out r
             in case efi_bs_call fw (GetMemoryAttributes memattr image_base alloc_size) s of
               (r, s) \<Rightarrow>
                 if status r \<noteq> EFI_SUCCESS then s
                 else
                   (let s = clear_if fw memattr image_base alloc_size (attr r) EFI_MEMORY_XP s;
                        s = clear_if fw memattr image_base alloc_size (attr r) EFI_MEMORY_WP s
                    in clear_if fw memattr image_base alloc_size (attr r) EFI_MEMORY_RP s)))"

section \<open>Memory for the kernel\<close>

text \<open>
  \<open>p_align & !EFI_PAGE_SIZE\<close>: the logical negation of a constant that is not zero is zero.
\<close>

definition misaligned :: "elf64_phdr \<Rightarrow> bool" where
  "misaligned phdr \<longleftrightarrow> p_align phdr AND (if EFI_PAGE_SIZE = 0 then 1 else 0) \<noteq> 0"

abbreviation (input) UINT64_MAX :: int where "UINT64_MAX \<equiv> 18446744073709551615"
abbreviation (input) KERNEL_MEM_ALIGN :: int where "KERNEL_MEM_ALIGN \<equiv> 2097152"

text \<open>The least and greatest physical and the least virtual address of the segments.\<close>

fun segment_bounds :: "mem \<Rightarrow> addr \<Rightarrow> nat \<Rightarrow> int \<times> int \<times> int \<Rightarrow> int + int \<times> int \<times> int" where
  "segment_bounds m phdr 0 bounds = Inr bounds"
| "segment_bounds m phdr (Suc n) (min_paddr, max_paddr, min_vaddr) =
     (let ph = phdr_at m phdr
      in if p_type ph \<noteq> PT_LOAD
         then segment_bounds m (phdr + SIZEOF_PHDR) n (min_paddr, max_paddr, min_vaddr)
         else if misaligned ph then Inl EFI_INVALID_PARAMETER
         else segment_bounds m (phdr + SIZEOF_PHDR) n
                (min min_paddr (p_paddr ph), max max_paddr (u64 (p_paddr ph + p_memsz ph)),
                 min min_vaddr (p_vaddr ph)))"

text \<open>The out parameters of \<open>efi_allocate_kernel_memory\<close>.\<close>

record kernel_memory =
  km_paddr :: int
  km_size :: int
  km_min_paddr :: int
  km_max_paddr :: int
  km_min_vaddr :: int

definition efi_allocate_kernel_memory ::
  "'w firmware \<Rightarrow> addr \<Rightarrow> int \<Rightarrow> kernel_memory \<Rightarrow> ('w, 'z) efi_scheme \<Rightarrow>
   int \<times> kernel_memory \<times> ('w, 'z) efi_scheme" where
  "efi_allocate_kernel_memory fw phdr_start phdrs_nr ret s =
     (case segment_bounds (memory s) phdr_start (nat phdrs_nr) (UINT64_MAX, 0, UINT64_MAX) of
        Inl err \<Rightarrow> (err, ret, s)
      | Inr (min_paddr, max_paddr, min_vaddr) \<Rightarrow>
          if min_paddr AND (KERNEL_MEM_ALIGN - 1) \<noteq> 0 then (EFI_INVALID_PARAMETER, ret, s)
          else
            (let mem_size = ALIGN_UP (u64 (max_paddr - min_paddr)) KERNEL_MEM_ALIGN
             in case efi_allocate_pages_aligned fw mem_size (km_paddr ret) UINT64_MAX KERNEL_MEM_ALIGN
                       EfiLoaderData s of
                  (st, paddr, s) \<Rightarrow>
                    if st \<noteq> EFI_SUCCESS then (st, ret\<lparr>km_paddr := paddr\<rparr>, s)
                    else
                      (let s = s\<lparr>memory := memset (memory s) paddr 0 (nat mem_size)\<rparr>;
                           s = efi_remap_image_all_rwx fw paddr mem_size s
                       in (EFI_SUCCESS, \<lparr>km_paddr = paddr, km_size = mem_size, km_min_paddr = min_paddr,
                             km_max_paddr = max_paddr, km_min_vaddr = min_vaddr\<rparr>, s))))"

section \<open>Loading\<close>

text \<open>The segments are copied one after the other; the program headers are read on the way.\<close>

fun load_segments :: "mem \<Rightarrow> addr \<Rightarrow> int \<Rightarrow> addr \<Rightarrow> nat \<Rightarrow> addr \<Rightarrow> int \<Rightarrow> int \<times> mem" where
  "load_segments m payload_start payload_size phdr 0 allocated_paddr min_paddr = (EFI_SUCCESS, m)"
| "load_segments m payload_start payload_size phdr (Suc n) allocated_paddr min_paddr =
     (let ph = phdr_at m phdr; nxt = phdr + SIZEOF_PHDR
      in if p_type ph \<noteq> PT_LOAD
         then load_segments m payload_start payload_size nxt n allocated_paddr min_paddr
         else if misaligned ph then (EFI_INVALID_PARAMETER, m)
         else if u64 (p_offset ph + p_filesz ph) > payload_size then (EFI_INVALID_PARAMETER, m)
         else if p_memsz ph < p_filesz ph then (EFI_INVALID_PARAMETER, m)
         else if p_memsz ph = 0
         then load_segments m payload_start payload_size nxt n allocated_paddr min_paddr
         else load_segments
                (memcpy m (u64 (allocated_paddr + (p_paddr ph - min_paddr)))
                   (payload_start + p_offset ph) (nat (p_filesz ph)))
                payload_start payload_size nxt n allocated_paddr min_paddr)"

definition load_program ::
  "'w firmware \<Rightarrow> addr \<Rightarrow> int \<Rightarrow> addr \<Rightarrow> int \<Rightarrow> kernel_memory \<Rightarrow> ('w, 'z) efi_scheme \<Rightarrow>
   int \<times> kernel_memory \<times> ('w, 'z) efi_scheme" where
  "load_program fw payload_start payload_size phdr_start phdrs_nr ret s =
     (case efi_allocate_kernel_memory fw phdr_start phdrs_nr
             \<lparr>km_paddr = 0, km_size = 0, km_min_paddr = 0, km_max_paddr = 0, km_min_vaddr = 0\<rparr> s of
        (st, km, s) \<Rightarrow>
          if st \<noteq> EFI_SUCCESS then (st, ret, s)
          else
            (case load_segments (memset (memory s) (km_paddr km) 0 (nat (km_size km))) payload_start
                    payload_size phdr_start (nat phdrs_nr) (km_paddr km) (km_min_paddr km) of
               (st, m) \<Rightarrow>
                 (let s = s\<lparr>memory := m\<rparr>
                  in if st \<noteq> EFI_SUCCESS then (st, ret, efi_free fw (km_size km) (km_paddr km) s)
                     else (EFI_SUCCESS, km, s))))"

record payload_info =
  payload_addr :: int
  payload_size :: int
  loaded_paddr :: int
  loaded_size :: int
  kernel_entry :: int

definition DRAGONSTUB_EFI_PAYLOAD_EFI_GUID :: guid where
  "DRAGONSTUB_EFI_PAYLOAD_EFI_GUID = MAKE_EFI_GUID 0xddf1d47c 0x102c 0xaaf9
     [0xce, 0x34, 0xbc, 0xef, 0x98, 0x12, 0x00, 0x31]"

text \<open>
  \<open>image_start\<close> and \<open>image_stop\<close> are the addresses of the linker symbols \<open>_start\<close> and
  \<open>_image_end\<close>. The status of \<open>load_program\<close> is not looked at; when it fails the out parameters
  keep their initial zero.
\<close>

definition load_elf ::
  "'w firmware \<Rightarrow> addr \<Rightarrow> addr \<Rightarrow> payload_info \<Rightarrow> ('w, 'z) efi_scheme \<Rightarrow>
   int \<times> payload_info \<times> ('w, 'z) efi_scheme" where
  "load_elf fw image_start image_stop info s =
     (case elf_get_header (memory s) (payload_addr info) (payload_size info) of
        Inl err \<Rightarrow> (err, info, s)
      | Inr ehdr \<Rightarrow>
        (case parse_phdrs (memory s) (payload_addr info) (payload_size info) ehdr of
           Inl err \<Rightarrow> (err, info, s)
         | Inr (phdrs_nr, phdr_start) \<Rightarrow>
           (case load_program fw (payload_addr info) (payload_size info) phdr_start phdrs_nr
                   \<lparr>km_paddr = 0, km_size = 0, km_min_paddr = 0, km_max_paddr = 0, km_min_vaddr = 0\<rparr> s of
              (_, km, s) \<Rightarrow>
                (let info = info\<lparr>loaded_paddr := km_paddr km, loaded_size := km_size km,
                       kernel_entry := u64 (e_entry (memory s) ehdr - km_min_vaddr km + km_paddr km)\<rparr>;
                     s = efi_remap_image_all_rwx fw (km_paddr km) (km_size km) s;
                     image_size = u64 (image_stop - image_start);
                     s = efi_remap_image_all_rwx fw image_start ((image_size + 4095) AND NOT 4095) s
                 in case efi_bs_call fw (AllocatePool EfiLoaderData 16) s of
                      (r, s) \<Rightarrow>
                        if status r \<noteq> EFI_SUCCESS then (status r, info, s)
                        else
                          (let tbl = out r;
                               s = s\<lparr>memory := st_le (st_le (memory s) tbl 8 (loaded_paddr info))
                                      (tbl + 8) 8 (loaded_size info)\<rparr>
                           in case efi_bs_call fw (InstallConfigurationTable DRAGONSTUB_EFI_PAYLOAD_EFI_GUID (Some tbl)) s of
                                (r, s) \<Rightarrow>
                                  if status r \<noteq> EFI_SUCCESS then (status r, info, s)
                                  else (EFI_SUCCESS, info, s))))))"

end
