(* ===== verification/Elf_Spec.thy ===== *)
theory Elf_Spec
  imports Elf
begin

text \<open>
  What loading the kernel does: the bounds of the program header table, the image that the segments
  make in memory, and what happens when they cannot be loaded.
\<close>

section \<open>The table of program headers\<close>

definition phdrs :: "mem \<Rightarrow> addr \<Rightarrow> nat \<Rightarrow> elf64_phdr list" where
  "phdrs m p n = map (\<lambda>i. phdr_at m (p + SIZEOF_PHDR * int i)) [0..<n]"

definition loadable :: "mem \<Rightarrow> addr \<Rightarrow> nat \<Rightarrow> elf64_phdr list" where
  "loadable m p n = filter (\<lambda>ph. p_type ph = PT_LOAD) (phdrs m p n)"

lemma phdrs_0 [simp]: "phdrs m p 0 = []"
  by (simp add: phdrs_def)

lemma phdrs_Suc: "phdrs m p (Suc n) = phdr_at m p # phdrs m (p + SIZEOF_PHDR) n"
  by (simp add: phdrs_def upt_conv_Cons map_Suc_upt [symmetric] comp_def algebra_simps del: upt_Suc)

lemma loadable_0 [simp]: "loadable m p 0 = []"
  by (simp add: loadable_def)

lemma loadable_Suc:
  "loadable m p (Suc n) =
     (if p_type (phdr_at m p) = PT_LOAD then phdr_at m p # loadable m (p + SIZEOF_PHDR) n
      else loadable m (p + SIZEOF_PHDR) n)"
  by (simp add: loadable_def phdrs_Suc)

lemma phdr_at_agree:
  "agree lo hi m m' \<Longrightarrow> lo \<le> p \<Longrightarrow> p + SIZEOF_PHDR \<le> hi \<Longrightarrow> phdr_at m p = phdr_at m' p"
  unfolding phdr_at_def by (simp add: ld_le_agree [of lo hi m m'])

lemma loadable_agree:
  "agree lo hi m m' \<Longrightarrow> lo \<le> p \<Longrightarrow> p + SIZEOF_PHDR * int n \<le> hi \<Longrightarrow> loadable m p n = loadable m' p n"
  by (induction n arbitrary: p) (simp_all add: loadable_Suc phdr_at_agree [of lo hi m m'])

lemma ld_le_bounds [simp]: "0 \<le> ld_le m p n" "ld_le m p n < 256 ^ n"
  using horner_bytes_bounds [of "bytes_at m p n"] by (simp_all add: ld_le_def)

lemma phdr_bounds [simp]:
  "0 \<le> p_paddr (phdr_at m p)" "0 \<le> p_memsz (phdr_at m p)" "0 \<le> p_filesz (phdr_at m p)" "0 \<le> p_offset (phdr_at m p)"
  by (simp_all add: phdr_at_def)

lemma not_misaligned [simp]: "\<not> misaligned ph"
  by (simp add: misaligned_def)

section \<open>Bounds of the segments\<close>

lemma segment_bounds_fold:
  "segment_bounds m p n (a, b, c) =
     Inr (fold (\<lambda>ph x. min x (p_paddr ph)) (loadable m p n) a,
          fold (\<lambda>ph x. max x (u64 (p_paddr ph + p_memsz ph))) (loadable m p n) b,
          fold (\<lambda>ph x. min x (p_vaddr ph)) (loadable m p n) c)"
  by (induction n arbitrary: p a b c) (simp_all add: loadable_Suc Let_def)

lemma fold_min_le:
  fixes a :: int
  shows "fold (\<lambda>x y. min y (f x)) xs a \<le> a \<and> (\<forall>x \<in> set xs. fold (\<lambda>x y. min y (f x)) xs a \<le> f x)"
proof (induction xs arbitrary: a)
  case (Cons z zs)
  from Cons [of "min a (f z)"] show ?case by auto
qed simp

lemma fold_max_ge:
  fixes a :: int
  shows "a \<le> fold (\<lambda>x y. max y (f x)) xs a \<and> (\<forall>x \<in> set xs. f x \<le> fold (\<lambda>x y. max y (f x)) xs a)"
proof (induction xs arbitrary: a)
  case (Cons z zs)
  from Cons [of "max a (f z)"] show ?case by auto
qed simp

lemma segment_bounds_within:
  assumes "segment_bounds m p n (UINT64_MAX, 0, UINT64_MAX) = Inr (lo, hi, v)"
    and "ph \<in> set (loadable m p n)" "p_paddr ph + p_memsz ph < 18446744073709551616"
  shows "lo \<le> p_paddr ph" "p_paddr ph + p_memsz ph \<le> hi"
proof -
  have "u64 (p_paddr ph + p_memsz ph) = p_paddr ph + p_memsz ph"
    using assms(2,3) by (intro u64_id) (auto simp: loadable_def phdrs_def)
  then show "lo \<le> p_paddr ph" "p_paddr ph + p_memsz ph \<le> hi"
    using assms(1,2) fold_min_le [of p_paddr "loadable m p n" UINT64_MAX]
      fold_max_ge [of 0 "\<lambda>ph. u64 (p_paddr ph + p_memsz ph)" "loadable m p n"]
    by (auto simp: segment_bounds_fold)
qed

section \<open>The image in memory\<close>

text \<open>
  The byte that the loaded segments leave at an address: a byte of the file where a segment has
  one, the last one where several do, and otherwise what was there before.
\<close>

definition image_byte :: "mem \<Rightarrow> addr \<Rightarrow> addr \<Rightarrow> int \<Rightarrow> elf64_phdr list \<Rightarrow> byte \<Rightarrow> addr \<Rightarrow> byte" where
  "image_byte m payload base min_paddr segs old a =
     (case List.find (\<lambda>ph. base + (p_paddr ph - min_paddr) \<le> a
                         \<and> a < base + (p_paddr ph - min_paddr) + p_filesz ph) (rev segs) of
        None \<Rightarrow> old
      | Some ph \<Rightarrow> m (payload + p_offset ph + (a - (base + (p_paddr ph - min_paddr)))))"

lemma find_append: "List.find P (xs @ ys) = (case List.find P xs of None \<Rightarrow> List.find P ys | Some x \<Rightarrow> Some x)"
  by (induction xs) auto

lemma image_byte_Cons:
  "image_byte m payload base lo (ph # segs) old a =
     image_byte m payload base lo segs
       (if base + (p_paddr ph - lo) \<le> a \<and> a < base + (p_paddr ph - lo) + p_filesz ph
        then m (payload + p_offset ph + (a - (base + (p_paddr ph - lo)))) else old) a"
  by (simp add: image_byte_def find_append split: option.splits)

lemma image_byte_agree:
  assumes "agree payload (payload + psize) m m1"
    and "\<And>ph. ph \<in> set segs \<Longrightarrow> 0 \<le> p_offset ph \<and> p_offset ph + p_filesz ph \<le> psize"
  shows "image_byte m1 payload base lo segs old a = image_byte m payload base lo segs old a"
proof (cases "List.find (\<lambda>ph. base + (p_paddr ph - lo) \<le> a
    \<and> a < base + (p_paddr ph - lo) + p_filesz ph) (rev segs)")
  case None
  then show ?thesis by (simp add: image_byte_def)
next
  case (Some ph)
  then have "ph \<in> set segs" "base + (p_paddr ph - lo) \<le> a" "a < base + (p_paddr ph - lo) + p_filesz ph"
    by (auto simp: find_Some_iff in_set_conv_nth rev_nth) (metis diff_less length_greater_0_conv list.size(3) not_less_zero zero_less_Suc)
  then show ?thesis
    using Some agreeD [OF assms(1), of "payload + p_offset ph + (a - (base + (p_paddr ph - lo)))"] assms(2) [of ph]
    by (simp add: image_byte_def)
qed

text \<open>The conditions under which the segments are copied without a wrap-around or an overlap.\<close>

definition seg_ok :: "addr \<Rightarrow> int \<Rightarrow> int \<Rightarrow> int \<Rightarrow> elf64_phdr \<Rightarrow> bool" where
  "seg_ok base lo hi psize ph \<longleftrightarrow>
     lo \<le> p_paddr ph \<and> p_paddr ph + p_memsz ph \<le> hi \<and> p_offset ph + p_filesz ph < 18446744073709551616"

lemma load_segments_image:
  assumes "load_segments m payload psize phdr n base lo = (EFI_SUCCESS, m')"
    and "list_all (seg_ok base lo hi psize) (loadable m phdr n)"
    and "0 \<le> base" "base + (hi - lo) < 18446744073709551616"
    and "phdr + SIZEOF_PHDR * int n \<le> base \<or> base + (hi - lo) \<le> phdr"
    and "payload + psize \<le> base \<or> base + (hi - lo) \<le> payload"
  shows "m' a = image_byte m payload base lo (loadable m phdr n) (m a) a"
    and "unchanged_outside base (base + (hi - lo)) m m'"
    and "ph \<in> set (loadable m phdr n) \<Longrightarrow> p_offset ph + p_filesz ph \<le> psize \<and> p_filesz ph \<le> p_memsz ph"
proof -
  have "(\<forall>a. m' a = image_byte m payload base lo (loadable m phdr n) (m a) a)
    \<and> unchanged_outside base (base + (hi - lo)) m m'
    \<and> (\<forall>ph \<in> set (loadable m phdr n). p_offset ph + p_filesz ph \<le> psize \<and> p_filesz ph \<le> p_memsz ph)"
    using assms
  proof (induction n arbitrary: m phdr)
    case 0
    then show ?case by (simp add: image_byte_def)
  next
    case (Suc n)
    define ph where "ph = phdr_at m phdr"
    have tbl: "phdr + SIZEOF_PHDR + SIZEOF_PHDR * int n \<le> base \<or> base + (hi - lo) \<le> phdr + SIZEOF_PHDR"
      using Suc.prems(5) by auto
    show ?case
    proof (cases "p_type ph = PT_LOAD")
      case False
      then have L: "loadable m phdr (Suc n) = loadable m (phdr + SIZEOF_PHDR) n"
        and "load_segments m payload psize (phdr + SIZEOF_PHDR) n base lo = (EFI_SUCCESS, m')"
        using Suc.prems(1) by (simp_all add: loadable_Suc ph_def Let_def)
      then show ?thesis
        unfolding L using Suc.prems(2-6) tbl by (intro Suc.IH) (simp_all add: L)
    next
      case True
      then have L: "loadable m phdr (Suc n) = ph # loadable m (phdr + SIZEOF_PHDR) n"
        by (simp add: loadable_Suc ph_def)
      have ok: "seg_ok base lo hi psize ph" using Suc.prems(2) by (simp add: L)
      have nn: "0 \<le> p_filesz ph" "0 \<le> p_offset ph" "0 \<le> p_memsz ph" by (simp_all add: ph_def)
      have chk: "p_offset ph + p_filesz ph \<le> psize" "p_filesz ph \<le> p_memsz ph"
        using Suc.prems(1) True ok nn by (auto simp: ph_def seg_ok_def Let_def u64_id split: if_splits)
      define dst where "dst = base + (p_paddr ph - lo)"
      have dst: "base \<le> dst" "dst + p_filesz ph \<le> base + (hi - lo)" "u64 (base + (p_paddr ph - lo)) = dst"
        using ok chk nn Suc.prems(3,4) by (auto simp: seg_ok_def dst_def intro!: u64_id)
      define m1 where "m1 = (if p_memsz ph = 0 then m else memcpy m dst (payload + p_offset ph) (nat (p_filesz ph)))"
      have m1: "m1 = copied m dst (payload + p_offset ph) (nat (p_filesz ph))"
      proof (cases "p_memsz ph = 0")
        case True
        then show ?thesis using chk nn by (simp add: m1_def)
      next
        case False
        have "dst \<le> payload + p_offset ph \<or> payload + p_offset ph + p_filesz ph \<le> dst"
          using Suc.prems(6) dst chk nn by auto
        then show ?thesis using False nn by (simp add: m1_def memcpy_copied)
      qed
      have rest: "load_segments m1 payload psize (phdr + SIZEOF_PHDR) n base lo = (EFI_SUCCESS, m')"
        using Suc.prems(1) True ok chk nn
        by (auto simp: ph_def [symmetric] m1_def dst(3) seg_ok_def Let_def u64_id split: if_splits)
      have u1: "unchanged_outside base (base + (hi - lo)) m m1"
        unfolding m1 using dst nn by (auto intro!: unchanged_outsideI copied_outside)
      have ag: "agree phdr (phdr + SIZEOF_PHDR * int (Suc n)) m m1"
        using u1 Suc.prems(5) by (auto intro!: agreeI simp: unchanged_outside_def)
      have L1: "loadable m1 (phdr + SIZEOF_PHDR) n = loadable m (phdr + SIZEOF_PHDR) n"
        by (rule loadable_agree [OF agree_sym [OF ag], symmetric, THEN sym]) simp_all
      note IH = Suc.IH [OF rest, unfolded L1]
      have IH': "\<And>a. m' a = image_byte m1 payload base lo (loadable m (phdr + SIZEOF_PHDR) n) (m1 a) a"
        "unchanged_outside base (base + (hi - lo)) m1 m'"
        "\<And>ph. ph \<in> set (loadable m (phdr + SIZEOF_PHDR) n) \<Longrightarrow>
          p_offset ph + p_filesz ph \<le> psize \<and> p_filesz ph \<le> p_memsz ph"
        using IH Suc.prems(2-4,6) tbl by (simp_all add: L)
      have ap: "agree payload (payload + psize) m m1"
        using u1 Suc.prems(6) by (auto intro!: agreeI simp: unchanged_outside_def)
      have off: "0 \<le> p_offset ph" if "ph \<in> set (loadable m (phdr + SIZEOF_PHDR) n)" for ph
        using that by (auto simp: loadable_def phdrs_def)
      have "m' a = image_byte m payload base lo (ph # loadable m (phdr + SIZEOF_PHDR) n) (m a) a" for a
      proof -
        have "m' a = image_byte m payload base lo (loadable m (phdr + SIZEOF_PHDR) n) (m1 a) a"
          unfolding IH'(1) [of a] by (rule image_byte_agree [OF ap]) (use IH'(3) off in blast)
        moreover have "m1 a = (if dst \<le> a \<and> a < dst + p_filesz ph then m (payload + p_offset ph + (a - dst)) else m a)"
          unfolding m1 using nn by (simp add: copied_def)
        ultimately show ?thesis by (simp add: image_byte_Cons dst_def)
      qed
      moreover have "unchanged_outside base (base + (hi - lo)) m m'"
        by (rule unchanged_outside_trans [OF u1 IH'(2)])
      moreover have "\<forall>x \<in> set (ph # loadable m (phdr + SIZEOF_PHDR) n).
          p_offset x + p_filesz x \<le> psize \<and> p_filesz x \<le> p_memsz x"
        using chk IH'(3) by simp
      ultimately show ?thesis unfolding L by blast
    qed
  qed
  then show "m' a = image_byte m payload base lo (loadable m phdr n) (m a) a"
    and "unchanged_outside base (base + (hi - lo)) m m'"
    and "ph \<in> set (loadable m phdr n) \<Longrightarrow> p_offset ph + p_filesz ph \<le> psize \<and> p_filesz ph \<le> p_memsz ph"
    by blast+
qed

section \<open>Program headers inside the file\<close>

lemma parse_phdrs_bounds:
  assumes "parse_phdrs m start sz ehdr = Inr (n, p)"
    and "e_phoff m ehdr + SIZEOF_PHDR * n < 18446744073709551616"
  shows "1 \<le> n" "n < 65536" "p = start + e_phoff m ehdr" "e_phoff m ehdr + SIZEOF_PHDR * n \<le> sz"
proof -
  have n: "0 \<le> sh_info m a mod 65536" "sh_info m a mod 65536 < 65536" for a by simp_all
  have e: "0 \<le> e_phnum m ehdr" "e_phnum m ehdr < 65536" "0 \<le> e_phoff m ehdr"
    using ld_le_bounds(2) [of m "ehdr + 56" 2] by (simp_all add: e_phnum_def e_phoff_def)
  have r: "p = start + e_phoff m ehdr" "u64 (e_phoff m ehdr + u64 (n * SIZEOF_PHDR)) \<le> sz"
    "1 \<le> n \<and> n < 65536"
  proof -
    show "p = start + e_phoff m ehdr" "u64 (e_phoff m ehdr + u64 (n * SIZEOF_PHDR)) \<le> sz"
      using assms(1) by (auto simp: parse_phdrs_def Let_def split: if_splits)
    have "n \<noteq> 0" "n = sh_info m (start + e_shoff m ehdr) mod 65536 \<or> n = e_phnum m ehdr"
      using assms(1) by (auto simp: parse_phdrs_def Let_def split: if_splits)
    then show "1 \<le> n \<and> n < 65536" using n e by fastforce
  qed
  moreover have "u64 (n * SIZEOF_PHDR) = n * SIZEOF_PHDR" using r(3) by (intro u64_id) auto
  moreover have "u64 (e_phoff m ehdr + n * SIZEOF_PHDR) = e_phoff m ehdr + n * SIZEOF_PHDR"
    using r(3) e(3) assms(2) by (intro u64_id) auto
  ultimately show "1 \<le> n" "n < 65536" "p = start + e_phoff m ehdr" "e_phoff m ehdr + SIZEOF_PHDR * n \<le> sz"
    by simp_all
qed

section \<open>The whole of the kernel's memory\<close>

text \<open>The firmware does not write to a region that belongs to the stub.\<close>

definition leaves_alone :: "'w firmware \<Rightarrow> addr \<Rightarrow> addr \<Rightarrow> bool" where
  "leaves_alone fw lo hi \<longleftrightarrow> (\<forall>c m w. agree lo hi m (fst (snd (fw c m w))))"

lemma bs_call_agree:
  "leaves_alone fw lo hi \<Longrightarrow> efi_bs_call fw c s = (r, s') \<Longrightarrow> agree lo hi (memory s) (memory s')"
  unfolding leaves_alone_def efi_bs_call_def
  by (cases "fw c (memory s) (world s)") (auto dest!: spec [of _ c] spec [of _ "memory s"] spec [of _ "world s"])

lemma bs_call_agree_snd:
  "leaves_alone fw lo hi \<Longrightarrow> agree lo hi (memory s) (memory (snd (efi_bs_call fw c s)))"
  using bs_call_agree [OF _ prod.collapse [symmetric]] .

lemma bs_call_agree_chain:
  "leaves_alone fw lo hi \<Longrightarrow> agree lo hi m (memory s) \<Longrightarrow> agree lo hi m (memory (snd (efi_bs_call fw c s)))"
  by (rule agree_trans [OF _ bs_call_agree_snd])

lemma allocate_aligned_agree:
  assumes "leaves_alone fw lo hi" "efi_allocate_pages_aligned fw sz a maxa al mt s = (st, a', s')"
  shows "agree lo hi (memory s) (memory s')"
  using assms(2)
  by (auto simp: efi_allocate_pages_aligned_def Let_def split: prod.splits if_splits
      intro!: bs_call_agree_chain [OF assms(1)] dest!: bs_call_agree [OF assms(1)])

lemma clear_if_agree:
  "leaves_alone fw lo hi \<Longrightarrow> agree lo hi (memory s) (memory (clear_if fw a b c d e s))"
  by (simp add: clear_if_def bs_call_agree_snd)

lemma remap_agree:
  assumes "leaves_alone fw lo hi"
  shows "agree lo hi (memory s) (memory (efi_remap_image_all_rwx fw b sz s))"
proof -
  obtain r s1 where 1: "efi_bs_call fw (LocateProtocol EFI_MEMORY_ATTRIBUTE_PROTOCOL_GUID) s = (r, s1)" by fastforce
  obtain r2 s2 where 2: "efi_bs_call fw (GetMemoryAttributes (out r) b (u32 sz)) s1 = (r2, s2)" by fastforce
  have a: "agree lo hi (memory s) (memory s1)" "agree lo hi (memory s) (memory s2)"
    using bs_call_agree [OF assms 1] bs_call_agree [OF assms 2] by (auto intro: agree_trans)
  note cl = clear_if_agree [OF assms]
  have "agree lo hi (memory s2) (memory (clear_if fw a b c d e3 (clear_if fw a b c d e2 (clear_if fw a b c d e1 s2))))"
    for a b c d e1 e2 e3 by (rule agree_trans [OF cl agree_trans [OF cl cl]])
  then show ?thesis using a by (auto simp: efi_remap_image_all_rwx_def Let_def 1 2 intro: agree_trans)
qed

lemma fold_min_ge:
  fixes a :: int
  shows "b \<le> a \<Longrightarrow> (\<And>x. x \<in> set xs \<Longrightarrow> b \<le> f x) \<Longrightarrow> b \<le> fold (\<lambda>x y. min y (f x)) xs a"
  by (induction xs arbitrary: a) auto

lemma fold_max_le:
  fixes a :: int
  shows "a \<le> b \<Longrightarrow> (\<And>x. x \<in> set xs \<Longrightarrow> f x \<le> b) \<Longrightarrow> fold (\<lambda>x y. max y (f x)) xs a \<le> b"
  by (induction xs arbitrary: a) auto

lemma kernel_memory_facts:
  assumes "efi_allocate_kernel_memory fw p n ret s = (EFI_SUCCESS, km, s')"
    and "\<And>ph. ph \<in> set (loadable (memory s) p (nat n)) \<Longrightarrow> p_paddr ph + p_memsz ph \<le> 9223372036854775808"
  shows "segment_bounds (memory s) p (nat n) (UINT64_MAX, 0, UINT64_MAX)
      = Inr (km_min_paddr km, km_max_paddr km, km_min_vaddr km)"
    and "km_max_paddr km - km_min_paddr km \<le> km_size km"
    and "leaves_alone fw lo hi \<Longrightarrow> hi \<le> km_paddr km \<or> km_paddr km + km_size km \<le> lo \<Longrightarrow>
      agree lo hi (memory s) (memory s')"
proof -
  obtain a b c where sb: "segment_bounds (memory s) p (nat n) (UINT64_MAX, 0, UINT64_MAX) = Inr (a, b, c)"
    by (simp add: segment_bounds_fold)
  define sz where "sz = ALIGN_UP (u64 (b - a)) KERNEL_MEM_ALIGN"
  obtain st pa s1 where al: "efi_allocate_pages_aligned fw sz (km_paddr ret) UINT64_MAX KERNEL_MEM_ALIGN EfiLoaderData s
      = (st, pa, s1)" by (metis prod_cases3)
  have ok: "a AND (KERNEL_MEM_ALIGN - 1) = 0" "st = EFI_SUCCESS"
    "km = \<lparr>km_paddr = pa, km_size = sz, km_min_paddr = a, km_max_paddr = b, km_min_vaddr = c\<rparr>"
    "s' = efi_remap_image_all_rwx fw pa sz (s1\<lparr>memory := memset (memory s1) pa 0 (nat sz)\<rparr>)"
    using assms(1) by (auto simp: efi_allocate_kernel_memory_def sb sz_def [symmetric] al Let_def split: if_splits)
  then show "segment_bounds (memory s) p (nat n) (UINT64_MAX, 0, UINT64_MAX)
      = Inr (km_min_paddr km, km_max_paddr km, km_min_vaddr km)" by (simp add: sb)
  have b: "b \<le> 9223372036854775808" "0 \<le> b"
  proof -
    have "u64 (p_paddr ph + p_memsz ph) \<le> 9223372036854775808" if "ph \<in> set (loadable (memory s) p (nat n))" for ph
      using assms(2) [OF that] that by (subst u64_id) (auto simp: loadable_def phdrs_def)
    then show "b \<le> 9223372036854775808" "0 \<le> b"
      using sb fold_max_le [of 0 9223372036854775808 _ "\<lambda>ph. u64 (p_paddr ph + p_memsz ph)"]
        fold_max_ge [of 0 "\<lambda>ph. u64 (p_paddr ph + p_memsz ph)" "loadable (memory s) p (nat n)"]
      by (auto simp: segment_bounds_fold)
  qed
  have a: "0 \<le> a"
  proof -
    have "0 \<le> p_paddr ph" if "ph \<in> set (loadable (memory s) p (nat n))" for ph
      using that by (auto simp: loadable_def phdrs_def)
    then show ?thesis
      using sb fold_min_ge [of 0 UINT64_MAX "loadable (memory s) p (nat n)" p_paddr]
      by (auto simp: segment_bounds_fold)
  qed
  have "loadable (memory s) p (nat n) \<noteq> []"
  proof
    assume "loadable (memory s) p (nat n) = []"
    then have "a = UINT64_MAX" using sb by (simp add: segment_bounds_fold)
    then show False using ok(1) by simp
  qed
  then obtain ph where ph: "ph \<in> set (loadable (memory s) p (nat n))"
    by (cases "loadable (memory s) p (nat n)") auto
  have "0 \<le> p_memsz ph" "0 \<le> p_paddr ph" using ph by (auto simp: loadable_def phdrs_def)
  then have "a \<le> b" using segment_bounds_within [OF sb ph] assms(2) [OF ph] by simp
  then have "b - a \<le> sz"
    using a b ALIGN_UP_pow [of "b - a" 21] round_bounds(1) [of 2097152 "b - a"] by (simp add: sz_def u64_id)
  then show "km_max_paddr km - km_min_paddr km \<le> km_size km" by (simp add: ok(3))
  show "agree lo hi (memory s) (memory s')"
    if "leaves_alone fw lo hi" "hi \<le> km_paddr km \<or> km_paddr km + km_size km \<le> lo"
  proof -
    have "agree lo hi (memory s1) (memset (memory s1) pa 0 (nat sz))"
      using that(2) ok(3) by (auto intro!: agreeI simp: memset_fill)
    moreover have "agree lo hi (memset (memory s1) pa 0 (nat sz)) (memory s')"
      using remap_agree [OF that(1), of "s1\<lparr>memory := memset (memory s1) pa 0 (nat sz)\<rparr>"] by (simp add: ok(4))
    ultimately show ?thesis
      using allocate_aligned_agree [OF that(1) al] by (blast intro: agree_trans)
  qed
qed

text \<open>
  After a successful \<open>load_program\<close> the allocated memory is the image of the file's segments, with
  zeroes where no segment has a byte, and each segment lies in the allocated memory and in the file.
\<close>

lemma load_program_image:
  assumes lp: "load_program fw start sz p n ret s = (EFI_SUCCESS, km, s')"
    and fw: "leaves_alone fw start (start + sz)"
    and tbl: "start \<le> p" "p + SIZEOF_PHDR * int (nat n) \<le> start + sz"
    and segs: "\<And>ph. ph \<in> set (loadable (memory s) p (nat n)) \<Longrightarrow>
      p_paddr ph + p_memsz ph \<le> 9223372036854775808 \<and> p_offset ph + p_filesz ph < 18446744073709551616"
    and reg: "0 \<le> km_paddr km" "km_paddr km + km_size km < 18446744073709551616"
      "start + sz \<le> km_paddr km \<or> km_paddr km + km_size km \<le> start"
  shows "km_paddr km \<le> a \<Longrightarrow> a < km_paddr km + km_size km \<Longrightarrow>
      memory s' a = image_byte (memory s) start (km_paddr km) (km_min_paddr km) (loadable (memory s) p (nat n)) 0 a"
    and "ph \<in> set (loadable (memory s) p (nat n)) \<Longrightarrow>
      km_min_paddr km \<le> p_paddr ph \<and> p_paddr ph - km_min_paddr km + p_memsz ph \<le> km_size km
      \<and> p_offset ph + p_filesz ph \<le> sz \<and> p_filesz ph \<le> p_memsz ph"
proof -
  obtain st km1 s1 where al: "efi_allocate_kernel_memory fw p n
      \<lparr>km_paddr = 0, km_size = 0, km_min_paddr = 0, km_max_paddr = 0, km_min_vaddr = 0\<rparr> s = (st, km1, s1)"
    by (metis prod_cases3)
  define m2 where "m2 = memset (memory s1) (km_paddr km1) 0 (nat (km_size km1))"
  obtain st2 m3 where ls: "load_segments m2 start sz p (nat n) (km_paddr km1) (km_min_paddr km1) = (st2, m3)"
    by fastforce
  have ok: "st = EFI_SUCCESS" "st2 = EFI_SUCCESS" "km1 = km" "memory s' = m3"
    using lp by (auto simp: load_program_def al m2_def [symmetric] ls Let_def split: if_splits)
  note facts = kernel_memory_facts [OF al [unfolded ok]]
  define L where "L = loadable (memory s) p (nat n)"
  have bounds: "km_min_paddr km \<le> p_paddr ph" "p_paddr ph + p_memsz ph \<le> km_max_paddr km" if "ph \<in> set L" for ph
    using segment_bounds_within [OF facts(1)] segs that unfolding L_def by fastforce+
  have len: "km_max_paddr km - km_min_paddr km \<le> km_size km" using facts(2) segs by blast
  have "agree start (start + sz) (memory s) (memory s1)" using facts(3) segs fw reg(3) by blast
  then have ag: "agree start (start + sz) (memory s) m2"
    unfolding m2_def ok using reg(3) by (auto simp: agree_def memset_fill)
  have L2: "loadable m2 p (nat n) = L"
    unfolding L_def using loadable_agree [OF ag tbl] by simp
  have "list_all (seg_ok (km_paddr km) (km_min_paddr km) (km_min_paddr km + km_size km) sz) (loadable m2 p (nat n))"
    unfolding L2 list_all_iff seg_ok_def using bounds len segs L_def by fastforce
  note img = load_segments_image [OF ls [unfolded ok] this]
  have t: "p + SIZEOF_PHDR * int (nat n) \<le> km_paddr km \<or> km_paddr km + km_size km \<le> p"
    using reg(3) tbl by linarith
  have m3: "\<And>a. m3 a = image_byte m2 start (km_paddr km) (km_min_paddr km) L (m2 a) a"
    and fits: "\<And>ph. ph \<in> set L \<Longrightarrow> p_offset ph + p_filesz ph \<le> sz \<and> p_filesz ph \<le> p_memsz ph"
    using img(1,3) reg t unfolding L2 ok by (simp_all del: int_nat_eq)
  show "ph \<in> set (loadable (memory s) p (nat n)) \<Longrightarrow>
      km_min_paddr km \<le> p_paddr ph \<and> p_paddr ph - km_min_paddr km + p_memsz ph \<le> km_size km
      \<and> p_offset ph + p_filesz ph \<le> sz \<and> p_filesz ph \<le> p_memsz ph"
    using bounds [of ph] len fits [of ph] by (auto simp: L_def)
  show "memory s' a = image_byte (memory s) start (km_paddr km) (km_min_paddr km) (loadable (memory s) p (nat n)) 0 a"
    if "km_paddr km \<le> a" "a < km_paddr km + km_size km"
  proof -
    have "m2 a = 0" using that by (simp add: m2_def ok memset_fill)
    moreover have "image_byte m2 start (km_paddr km) (km_min_paddr km) L old a
        = image_byte (memory s) start (km_paddr km) (km_min_paddr km) L old a" for old
      by (rule image_byte_agree [OF ag]) (use fits in \<open>auto simp: L_def loadable_def phdrs_def\<close>)
    ultimately show ?thesis using m3 [of a] ok by (simp add: L_def)
  qed
qed

section \<open>A program that cannot be loaded\<close>

text \<open>
  \<open>load_elf\<close> does not look at the status of \<open>load_program\<close>: when it fails, the loaded address and
  size are zero and the entry point is the link address, and the status returned is that of the
  table that is installed then.
\<close>

lemma load_program_fail:
  "load_program fw start sz p n ret s = (st, km, s') \<Longrightarrow> st \<noteq> EFI_SUCCESS \<Longrightarrow> km = ret"
  by (auto simp: load_program_def Let_def split: prod.splits if_splits)

lemma load_elf_ignores:
  assumes "elf_get_header (memory s) (payload_addr info) (payload_size info) = Inr ehdr"
    and "parse_phdrs (memory s) (payload_addr info) (payload_size info) ehdr = Inr (n, p)"
    and "load_program fw (payload_addr info) (payload_size info) p n
           \<lparr>km_paddr = 0, km_size = 0, km_min_paddr = 0, km_max_paddr = 0, km_min_vaddr = 0\<rparr> s = (st, km, s1)"
    and "st \<noteq> EFI_SUCCESS"
    and "load_elf fw i0 i1 info s = (st', info', s')"
  shows "loaded_paddr info' = 0 \<and> loaded_size info' = 0
    \<and> kernel_entry info' = u64 (e_entry (memory s1) ehdr)
    \<and> (\<exists>cs r. calls s' = cs @ [r] \<and> st' = status (snd r)
         \<and> (\<exists>a. fst r = AllocatePool a 16 \<or> fst r = InstallConfigurationTable DRAGONSTUB_EFI_PAYLOAD_EFI_GUID (Some a)))"
  using assms(5) load_program_fail [OF assms(3,4)]
  by (auto simp: load_elf_def assms(1-3) Let_def split: prod.splits if_splits dest!: efi_bs_call_calls)

end
