(* ===== verification/Demo_Firmware.thy ===== *)
theory Demo_Firmware
  imports Elf_Spec
begin

text \<open>
  A small firmware for the examples: memory is handed out from a counter, the memory map has two
  descriptors, there is no protocol but the loaded image, and every variable is missing.
\<close>

definition fw_reply :: "int \<Rightarrow> int \<Rightarrow> efi_reply" where
  "fw_reply st a = \<lparr>status = st, out = a, attr = 0, data = [], map_size = 0, map_key = 0, desc_size = 0, desc_ver = 0\<rparr>"

definition map_reply :: "int \<Rightarrow> efi_reply" where
  "map_reply st = \<lparr>status = st, out = 0, attr = 0, data = [], map_size = 96, map_key = 7, desc_size = 48, desc_ver = 1\<rparr>"

abbreviation (input) DEMO_TOP :: int where "DEMO_TOP \<equiv> 1099511627776"

fun demo_fw :: "int firmware" where
  "demo_fw (AllocatePages t mt n lim) m w =
     (if w + 4096 * n \<le> DEMO_TOP then (fw_reply EFI_SUCCESS w, m, w + 4096 * n)
      else (fw_reply EFI_OUT_OF_RESOURCES 0, m, w))"
| "demo_fw (AllocatePool mt n) m w = (fw_reply EFI_SUCCESS w, m, w + 4096)"
| "demo_fw (GetMemoryMap n None) m w = (map_reply EFI_BUFFER_TOO_SMALL, m, w)"
| "demo_fw (GetMemoryMap n (Some p)) m w = (map_reply EFI_SUCCESS, m, w)"
| "demo_fw (LocateProtocol g) m w = (fw_reply EFI_NOT_FOUND 0, m, w)"
| "demo_fw (GetVariable n g k) m w = (fw_reply EFI_NOT_FOUND 0, m, w)"
| "demo_fw c m w = (fw_reply EFI_SUCCESS 0, m, w)"

definition demo_state :: "mem \<Rightarrow> int \<Rightarrow> int efi" where
  "demo_state m w = \<lparr>memory = m, world = w, calls = []\<rparr>"

text \<open>The firmware does not write to memory.\<close>

lemma demo_fw_memory: "fst (snd (demo_fw c m w)) = m"
  by (cases "(c, m, w)" rule: demo_fw.cases) simp_all

lemma demo_fw_leaves_alone: "leaves_alone demo_fw lo hi"
  by (simp add: leaves_alone_def demo_fw_memory)

text \<open>
  An ELF file of 128 bytes: the header, one program header with a segment of 8 bytes that is to lie
  at 2 MB and takes 16 bytes of memory, and the bytes of the segment.
\<close>

definition le :: "nat \<Rightarrow> int \<Rightarrow> byte list" where
  "le n v = map (\<lambda>i. byte_of (v div 256 ^ i)) [0..<n]"

definition elf_file :: "int \<Rightarrow> int \<Rightarrow> byte list" where
  "elf_file filesz memsz =
     [0x7f, 0x45, 0x4c, 0x46, 2, 1, 1, 0] @ replicate 8 0 @ le 2 2 @ le 2 243 @ le 4 1
     @ le 8 0xffffffc000200000 @ le 8 64 @ le 8 0 @ le 4 0 @ le 2 64 @ le 2 56 @ le 2 1 @ le 2 64 @ le 2 0 @ le 2 0
     @ le 4 1 @ le 4 5 @ le 8 120 @ le 8 0xffffffc000200000 @ le 8 0x200000 @ le 8 filesz @ le 8 memsz @ le 8 4096
     @ [1, 2, 3, 4, 5, 6, 7, 8]"

abbreviation (input) elf_addr :: int where "elf_addr \<equiv> 65536"

definition demo_elf :: mem where
  "demo_elf = mem_of elf_addr (elf_file 8 16)"

text \<open>The kernel's memory that \<open>load_program\<close> allocates for it, at 2 MB.\<close>

abbreviation (input) no_memory :: kernel_memory where
  "no_memory \<equiv> \<lparr>km_paddr = 0, km_size = 0, km_min_paddr = 0, km_max_paddr = 0, km_min_vaddr = 0\<rparr>"

definition demo_kernel :: kernel_memory where
  "demo_kernel = \<lparr>km_paddr = 0x200000, km_size = 0x200000, km_min_paddr = 0x200000, km_max_paddr = 0x200010,
     km_min_vaddr = 0xffffffc000200000\<rparr>"

lemma demo_phdr:
  "phdr_at demo_elf 65600 = \<lparr>p_type = 1, p_offset = 120, p_vaddr = 0xffffffc000200000,
     p_paddr = 0x200000, p_filesz = 8, p_memsz = 16, p_align = 4096\<rparr>"
  by code_simp

lemma demo_parse: "parse_phdrs demo_elf elf_addr 128 elf_addr = Inr (1, elf_addr + 64)"
  by code_simp

lemma demo_header: "elf_get_header demo_elf elf_addr 128 = Inr elf_addr"
  by code_simp

lemma bs_call_demo_memory: "memory (snd (efi_bs_call demo_fw c s)) = memory s"
  by (simp add: efi_bs_call_def case_prod_unfold demo_fw_memory)

lemma aligned_demo_memory:
  "memory (snd (snd (efi_allocate_pages_aligned demo_fw a b c d e s))) = memory s"
proof
  fix x
  obtain st a' s' where "efi_allocate_pages_aligned demo_fw a b c d e s = (st, a', s')" by (metis prod_cases3)
  then show "memory (snd (snd (efi_allocate_pages_aligned demo_fw a b c d e s))) x = memory s x"
    using allocate_aligned_agree [OF demo_fw_leaves_alone, of a b c d e s st a' s' x "x + 1"] by (auto simp: agree_def)
qed

lemma remap_demo: "memory (efi_remap_image_all_rwx demo_fw a b s) = memory s"
  by (simp add: efi_remap_image_all_rwx_def efi_bs_call_def fw_reply_def)

lemma demo_allocate:
  "\<exists>s. efi_allocate_kernel_memory demo_fw (elf_addr + 64) 1 no_memory (demo_state demo_elf 0x200000)
     = (0, demo_kernel, s) \<and> memory s = memset demo_elf 0x200000 0 (nat 0x200000)"
proof -
  have sb: "segment_bounds (memory (demo_state demo_elf 0x200000)) (elf_addr + 64) (nat 1) (UINT64_MAX, 0, UINT64_MAX) = Inr (0x200000, 0x200010, 0xffffffc000200000)"
    by code_simp
  have al: "ALIGN_UP (u64 (0x200010 - 0x200000)) KERNEL_MEM_ALIGN = 0x200000" by code_simp
  define A where "A = efi_allocate_pages_aligned demo_fw 0x200000 0 UINT64_MAX KERNEL_MEM_ALIGN 2 (demo_state demo_elf 0x200000)"
  have "fst A = 0 \<and> fst (snd A) = 0x200000" unfolding A_def by code_simp
  moreover have "memory (snd (snd A)) = demo_elf" by (simp add: A_def aligned_demo_memory demo_state_def)
  ultimately obtain s where A: "A = (0, 0x200000, s)" "memory s = demo_elf" by (cases A) auto
  have al1: "(0x200000 :: int) AND (KERNEL_MEM_ALIGN - 1) = 0" by code_simp
  show ?thesis
    unfolding efi_allocate_kernel_memory_def sb sum.case prod.case al1 al Let_def kernel_memory.select_convs
      A_def [symmetric] A(1)
    by (simp add: A(2) remap_demo demo_kernel_def)
qed

lemma demo_load:
  "\<exists>s. load_program demo_fw elf_addr 128 (elf_addr + 64) 1 no_memory (demo_state demo_elf 0x200000) = (0, demo_kernel, s)"
proof -
  obtain s where s: "efi_allocate_kernel_memory demo_fw (elf_addr + 64) 1 no_memory (demo_state demo_elf 0x200000)
     = (0, demo_kernel, s)" "memory s = memset demo_elf 0x200000 0 (nat 0x200000)" using demo_allocate by blast
  define m where "m = memset (memory s) 0x200000 0 (nat 0x200000)"
  have "agree (elf_addr + 64) (elf_addr + 128) demo_elf m" by (auto simp: m_def s(2) memset_fill agree_def)
  then have "phdr_at m (elf_addr + 64) = phdr_at demo_elf (elf_addr + 64)"
    by (intro phdr_at_agree [symmetric]) auto
  then have "fst (load_segments m elf_addr 128 (elf_addr + 64) (Suc 0) 0x200000 0x200000) = 0"
    using demo_phdr by (simp add: u64_id)
  then obtain m3 where l: "load_segments m elf_addr 128 (elf_addr + 64) (nat 1) (km_paddr demo_kernel) (km_min_paddr demo_kernel)
      = (0, m3)" by (metis One_nat_def demo_kernel_def kernel_memory.select_convs(1,3) nat_one_as_int prod.collapse of_nat_1 nat_int)
  have m: "memset (memory s) (km_paddr demo_kernel) 0 (nat (km_size demo_kernel)) = m"
    by (simp only: m_def demo_kernel_def kernel_memory.select_convs)
  show ?thesis
    unfolding load_program_def s(1) prod.case m l by simp
qed

end
