(* ===== verification/Loader_Properties.thy ===== *)
theory Loader_Properties
  imports Demo_Firmware
begin

text \<open>
  The properties of the firmware memory services and of the ELF loader, each applied to the small
  firmware and the small ELF file where it has hypotheses.
\<close>

section \<open>Pages\<close>

text \<open>
  C16: an aligned allocation that succeeds asks the firmware for one region, keeps of it the pages
  from the first aligned address on that the rounded size needs, and gives back exactly the pages
  before and behind them. The address it returns is a multiple of the alignment.
\<close>

theorem aligned_allocation_partition:
  assumes "12 \<le> k" "k \<le> 43" "0 < sz" "sz \<le> 4611686018427387904"
    and "efi_allocate_pages_aligned fw sz addr0 maxa (2 ^ k) mt s = (EFI_SUCCESS, addr, s')"
    and "\<And>n lim r. fst (efi_bs_call fw (AllocatePages EFI_ALLOCATE_MAX_ADDRESS mt n lim) s) = r \<Longrightarrow>
        status r = EFI_SUCCESS \<Longrightarrow>
        0 \<le> out r \<and> out r mod 4096 = 0 \<and> out r + 4096 * n \<le> 18446744073709551616"
  shows "\<exists>lim r hd tl new. calls s' = calls s @ (AllocatePages EFI_ALLOCATE_MAX_ADDRESS mt
        (hd + round_up sz EFI_PAGE_SIZE div EFI_PAGE_SIZE + tl) lim, r) # new
    \<and> 0 \<le> hd \<and> 0 \<le> tl \<and> addr = out r + EFI_PAGE_SIZE * hd \<and> addr mod 2 ^ k = 0
    \<and> map fst new = (if hd = 0 then [] else [FreePages (out r) hd])
        @ (if tl = 0 then [] else [FreePages (addr + round_up sz EFI_PAGE_SIZE) tl])"
  by (rule efi_allocate_pages_aligned_parts [OF assms])

lemma demo_pages_reply:
  "fst (efi_bs_call demo_fw (AllocatePages t mt n lim) (demo_state m 0x201000)) = r \<Longrightarrow>
   status r = EFI_SUCCESS \<Longrightarrow>
   0 \<le> out r \<and> out r mod 4096 = 0 \<and> out r + 4096 * n \<le> 18446744073709551616"
  by (auto simp: efi_bs_call_def demo_state_def fw_reply_def split: if_splits)

theorem aligned_allocation_partition_witness:
  "\<exists>addr. addr mod 2 ^ 21 = 0 \<and> fst (snd (efi_allocate_pages_aligned demo_fw 5000 0 UINT64_MAX (2 ^ 21) 2
     (demo_state (\<lambda>_. 0) 0x201000))) = addr"
proof -
  have "fst (efi_allocate_pages_aligned demo_fw 5000 0 UINT64_MAX (2 ^ 21) 2 (demo_state (\<lambda>_. 0) 0x201000)) = EFI_SUCCESS"
    by code_simp
  then obtain addr s' where "efi_allocate_pages_aligned demo_fw 5000 0 UINT64_MAX (2 ^ 21) 2 (demo_state (\<lambda>_. 0) 0x201000)
      = (EFI_SUCCESS, addr, s')" by (metis prod.collapse)
  note A = this
  have "addr mod 2 ^ 21 = 0" using aligned_allocation_partition [OF _ _ _ _ A demo_pages_reply] by fastforce
  then show ?thesis using A by (intro exI [of _ addr]) simp
qed

text \<open>
  \<open>efi_free\<close> gives back, for the same size, as many pages as \<open>efi_allocate_pages\<close> has asked for.
\<close>

theorem free_matches_allocate:
  assumes "0 < sz" "sz \<le> 18446744073709547520"
    and "efi_allocate_pages fw sz addr0 maxa s = (EFI_SUCCESS, addr, s')"
  shows "\<exists>n lim r r'. calls s' = calls s @ [(AllocatePages EFI_ALLOCATE_MAX_ADDRESS EfiLoaderData n lim, r)]
    \<and> out r = addr \<and> sz \<le> EFI_PAGE_SIZE * n \<and> EFI_PAGE_SIZE * n < sz + EFI_PAGE_SIZE
    \<and> calls (efi_free fw sz addr t) = calls t @ [(FreePages addr n, r')]"
proof -
  define n where "n = (sz + 4095) div 4096"
  have n: "DIV_ROUND_UP sz 4096 = n" "round_up sz 4096 div 4096 = n"
    using assms(1,2) by (simp_all add: n_def DIV_ROUND_UP_pages round_up_pages)
  have "sz \<le> 4096 * n" "4096 * n < sz + 4096" using round_bounds [of 4096 sz] by (simp_all add: n_def)
  moreover obtain lim r where "efi_bs_call fw (AllocatePages 1 2 n lim) s = (r, s')" "out r = addr"
    using assms(3) by (auto simp: efi_allocate_pages_def n Let_def split: prod.splits if_splits)
  moreover have "calls (efi_free fw sz addr t) = calls t @ [(FreePages addr n, fst (efi_bs_call fw (FreePages addr n) t))]"
    using assms(1) by (simp add: efi_free_def n)
  ultimately show ?thesis using efi_bs_call_calls by blast
qed

theorem free_matches_allocate_witness:
  "\<exists>r r'. calls (efi_free demo_fw 5000 0x200000 (demo_state (\<lambda>_. 0) 0)) = [(FreePages 0x200000 2, r')]
    \<and> calls (snd (snd (efi_allocate_pages demo_fw 5000 0 UINT64_MAX (demo_state (\<lambda>_. 0) 0x200000))))
       = [(AllocatePages 1 2 2 18446744073709551615, r)]"
proof -
  have f: "fst (efi_allocate_pages demo_fw 5000 0 UINT64_MAX (demo_state (\<lambda>_. 0) 0x200000)) = EFI_SUCCESS
      \<and> fst (snd (efi_allocate_pages demo_fw 5000 0 UINT64_MAX (demo_state (\<lambda>_. 0) 0x200000))) = 0x200000
      \<and> map fst (calls (snd (snd (efi_allocate_pages demo_fw 5000 0 UINT64_MAX (demo_state (\<lambda>_. 0) 0x200000)))))
        = [AllocatePages 1 2 2 18446744073709551615]" by code_simp
  then obtain s' where s': "efi_allocate_pages demo_fw 5000 0 UINT64_MAX (demo_state (\<lambda>_. 0) 0x200000)
      = (EFI_SUCCESS, 0x200000, s')" by (metis prod.collapse)
  from free_matches_allocate [OF _ _ s', of "demo_state (\<lambda>_. 0) 0"] f show ?thesis
    unfolding s' by (auto simp: demo_state_def)
qed

text \<open>
  C17: \<open>efi_get_memory_map\<close> loses no pool buffer. When it succeeds it has allocated the one buffer that
  it hands over, its last call has fetched the map into this buffer, the key in the buffer is the key
  of that call, and the table for the kernel is installed exactly when it was asked for. When it
  fails it has freed what it allocated, and a table that it had installed it has asked the firmware to
  remove (\<open>left_installed\<close>), so that none is left that points to the freed buffer.
\<close>

theorem memory_map_pool_balance:
  "case efi_get_memory_map fw p b s of
     (st, m, s') \<Rightarrow> \<exists>new. calls s' = calls s @ new
       \<and> (if st = EFI_SUCCESS
          then pool_allocs new = pool_frees new + {#m#}
            \<and> (\<exists>cs n r. new = cs @ [(GetMemoryMap n (Some (m + SIZEOF_BOOT_MEMMAP)), r)] \<and> status r = EFI_SUCCESS
                 \<and> mm_map_key (memory s') m = u64 (map_key r))
            \<and> (installed LINUX_EFI_BOOT_MEMMAP_GUID new None = (if b then Some m else None))
          else m = p \<and> pool_allocs new = pool_frees new
            \<and> left_installed LINUX_EFI_BOOT_MEMMAP_GUID new None = None)"
proof -
  obtain st m s' where "efi_get_memory_map fw p b s = (st, m, s')" by (rule prod_cases3)
  with efi_get_memory_map_pool [OF this] show ?thesis by (simp only: prod.case)
qed

section \<open>The kernel\<close>

text \<open>
  The program headers that \<open>parse_phdrs\<close> accepts lie in the file, provided the end of their table
  does not pass the end of the address space, which the code does not test.
\<close>

theorem parse_phdrs_inside:
  assumes "parse_phdrs m start sz ehdr = Inr (n, p)"
    and "e_phoff m ehdr + SIZEOF_PHDR * n < 18446744073709551616"
  shows "1 \<le> n \<and> n < 65536 \<and> p = start + e_phoff m ehdr \<and> p + SIZEOF_PHDR * n \<le> start + sz"
  using parse_phdrs_bounds [OF assms] by simp

theorem parse_phdrs_inside_witness: "elf_addr + 64 + SIZEOF_PHDR * 1 \<le> elf_addr + (128 :: int)"
proof -
  have "e_phoff demo_elf elf_addr + SIZEOF_PHDR * 1 < 18446744073709551616" by code_simp
  from parse_phdrs_inside [OF demo_parse this] show ?thesis by simp
qed

text \<open>
  A file whose table of program headers starts behind its end is accepted when the offset is so
  large that the sum wraps: then the table lies outside the file.
\<close>

theorem parse_phdrs_accepts_wrap:
  assumes "e_phnum m ehdr = 1" "e_phentsize m ehdr = SIZEOF_PHDR"
    and "e_phoff m ehdr \<ge> 18446744073709551560" "56 \<le> sz" "sz < 9223372036854775808"
  shows "parse_phdrs m start sz ehdr = Inr (1, start + e_phoff m ehdr) \<and> start + sz < start + e_phoff m ehdr"
proof -
  have "e_phoff m ehdr < 18446744073709551616"
    unfolding e_phoff_def by (rule less_le_trans [OF ld_le_bounds(2)]) simp
  then have "u64 (e_phoff m ehdr + 56) = e_phoff m ehdr + 56 - 18446744073709551616"
    using assms(3) unfolding u64_def by (subst minus_mod_self2 [symmetric], intro mod_pos_pos_trivial) auto
  then have "u64 (e_phoff m ehdr + 56) \<le> sz" using assms \<open>e_phoff m ehdr < 18446744073709551616\<close> by simp
  then show ?thesis using assms by (simp add: parse_phdrs_def u64_id)
qed

definition wrap_elf :: mem where
  "wrap_elf = st_le demo_elf (elf_addr + 32) 8 18446744073709551560"

theorem parse_phdrs_accepts_wrap_witness:
  "parse_phdrs wrap_elf elf_addr 128 elf_addr = Inr (1, elf_addr + 18446744073709551560)"
proof -
  have e: "e_phnum wrap_elf elf_addr = 1" "e_phentsize wrap_elf elf_addr = SIZEOF_PHDR"
    "e_phoff wrap_elf elf_addr = 18446744073709551560" by code_simp+
  then have "e_phoff wrap_elf elf_addr \<ge> 18446744073709551560" by simp
  from parse_phdrs_accepts_wrap [OF e(1,2) this, of 128] e(3) show ?thesis by simp
qed

text \<open>
  C15: let the table of program headers lie in the file, let every segment to load end at \<open>2 ^ 63\<close> at
  most in physical memory, and let \<open>p_offset + p_filesz\<close> of none reach \<open>2 ^ 64\<close>. When \<open>load_program\<close> succeeds
  and the memory it got is apart from the file, then every byte of the allocated memory is the byte of
  the file that the last segment covering it has there, or zero where none has; each segment lies in
  the allocated memory and its bytes in the file. The code tests neither of the two sums for a wrap:
  \<open>load_segments_accepts_wrap\<close> and \<open>segment_end_wraps\<close> show what it does where they wrap.
\<close>

theorem kernel_image:
  assumes "load_program fw start sz p n ret s = (EFI_SUCCESS, km, s')"
    and "leaves_alone fw start (start + sz)"
    and "start \<le> p" "p + SIZEOF_PHDR * int (nat n) \<le> start + sz"
    and "\<And>ph. ph \<in> set (loadable (memory s) p (nat n)) \<Longrightarrow>
      p_paddr ph + p_memsz ph \<le> 9223372036854775808 \<and> p_offset ph + p_filesz ph < 18446744073709551616"
    and "0 \<le> km_paddr km" "km_paddr km + km_size km < 18446744073709551616"
      "start + sz \<le> km_paddr km \<or> km_paddr km + km_size km \<le> start"
  shows "(\<forall>a. km_paddr km \<le> a \<and> a < km_paddr km + km_size km \<longrightarrow>
      memory s' a = image_byte (memory s) start (km_paddr km) (km_min_paddr km) (loadable (memory s) p (nat n)) 0 a)
    \<and> (\<forall>ph \<in> set (loadable (memory s) p (nat n)).
      km_min_paddr km \<le> p_paddr ph \<and> p_paddr ph - km_min_paddr km + p_memsz ph \<le> km_size km
      \<and> p_offset ph + p_filesz ph \<le> sz \<and> p_filesz ph \<le> p_memsz ph)"
  using load_program_image [OF assms] by blast

lemma demo_loadable: "loadable demo_elf (elf_addr + 64) (nat 1) = [phdr_at demo_elf (elf_addr + 64)]"
  by (simp add: loadable_Suc demo_phdr)

theorem kernel_image_witness:
  "memory (snd (snd (load_program demo_fw elf_addr 128 (elf_addr + 64) 1 no_memory (demo_state demo_elf 0x200000)))) 0x200003 = 4
   \<and> memory (snd (snd (load_program demo_fw elf_addr 128 (elf_addr + 64) 1 no_memory (demo_state demo_elf 0x200000)))) 0x200008 = 0"
proof -
  obtain s where l: "load_program demo_fw elf_addr 128 (elf_addr + 64) 1 no_memory (demo_state demo_elf 0x200000)
      = (EFI_SUCCESS, demo_kernel, s)" using demo_load by blast
  have m: "memory (demo_state demo_elf 0x200000) = demo_elf" by (simp add: demo_state_def)
  have "\<forall>a. km_paddr demo_kernel \<le> a \<and> a < km_paddr demo_kernel + km_size demo_kernel \<longrightarrow> memory s a =
      image_byte demo_elf elf_addr (km_paddr demo_kernel) (km_min_paddr demo_kernel) [phdr_at demo_elf (elf_addr + 64)] 0 a"
    using kernel_image [OF l demo_fw_leaves_alone] unfolding m demo_loadable
    by (simp add: demo_phdr demo_kernel_def)
  then have "memory s 0x200003 = image_byte demo_elf elf_addr 0x200000 0x200000 [phdr_at demo_elf (elf_addr + 64)] 0 0x200003"
    "memory s 0x200008 = image_byte demo_elf elf_addr 0x200000 0x200000 [phdr_at demo_elf (elf_addr + 64)] 0 0x200008"
    by (auto simp: demo_kernel_def)
  moreover have "image_byte demo_elf elf_addr 0x200000 0x200000 [phdr_at demo_elf (elf_addr + 64)] 0 0x200003 = 4"
    "image_byte demo_elf elf_addr 0x200000 0x200000 [phdr_at demo_elf (elf_addr + 64)] 0 0x200008 = 0" by code_simp+
  ultimately show ?thesis unfolding l by simp
qed

text \<open>
  A segment whose \<open>p_offset + p_filesz\<close> wraps to a small sum passes the test and is copied from an
  address that is not in the file.
\<close>

lemma load_segments_accepts_wrap:
  assumes "phdr_at m p = ph" "p_type ph = PT_LOAD" "0 < p_filesz ph" "p_filesz ph \<le> p_memsz ph"
    and "p_offset ph < 18446744073709551616" "p_filesz ph \<le> sz" "sz \<le> 9223372036854775808"
    and "18446744073709551616 \<le> p_offset ph + p_filesz ph"
  shows "load_segments m start sz p 1 dst base
      = (EFI_SUCCESS, memcpy m (u64 (dst + (p_paddr ph - base))) (start + p_offset ph) (nat (p_filesz ph)))
    \<and> start + sz \<le> start + p_offset ph"
proof -
  have "u64 (p_offset ph + p_filesz ph) = p_offset ph + p_filesz ph - 18446744073709551616"
    using assms unfolding u64_def by (subst minus_mod_self2 [symmetric], intro mod_pos_pos_trivial) auto
  then have "u64 (p_offset ph + p_filesz ph) \<le> sz" using assms by simp
  then show ?thesis using assms by (simp add: Let_def misaligned_def)
qed

text \<open>
  A segment whose end \<open>p_paddr + p_memsz\<close> wraps to below its begin gives a size that \<open>ALIGN_UP\<close> takes to
  zero, although the bytes of the segment are copied to the memory it gets.
\<close>

lemma segment_end_wraps:
  assumes "phdr_at m p = \<lparr>p_type = 1, p_offset = 0, p_vaddr = 0, p_paddr = 0x200000, p_filesz = 64,
      p_memsz = 18446744073709551600, p_align = 4096\<rparr>"
  shows "segment_bounds m p 1 (UINT64_MAX, 0, UINT64_MAX) = Inr (0x200000, 0x1ffff0, 0)"
    and "ALIGN_UP (u64 (0x1ffff0 - 0x200000)) KERNEL_MEM_ALIGN = 0"
proof -
  have "u64 (0x200000 + 18446744073709551600) = 0x1ffff0" "p_type (phdr_at m p) = PT_LOAD" by code_simp (simp add: assms)
  then show "segment_bounds m p 1 (UINT64_MAX, 0, UINT64_MAX) = Inr (0x200000, 0x1ffff0, 0)"
    by (simp add: assms misaligned_def)
  show "ALIGN_UP (u64 (0x1ffff0 - 0x200000)) KERNEL_MEM_ALIGN = 0" by code_simp
qed

text \<open>
  \<open>load_elf\<close> does not look at the status of \<open>load_program\<close>. When it fails, the kernel is given the
  loaded address zero, size zero and the entry point of the file without relocation, and the status
  is that of the table installed behind it.
\<close>

theorem load_elf_ignores_failure:
  assumes "elf_get_header (memory s) (payload_addr info) (payload_size info) = Inr ehdr"
    and "parse_phdrs (memory s) (payload_addr info) (payload_size info) ehdr = Inr (n, p)"
    and "load_program fw (payload_addr info) (payload_size info) p n
           \<lparr>km_paddr = 0, km_size = 0, km_min_paddr = 0, km_max_paddr = 0, km_min_vaddr = 0\<rparr> s = (st, km, s1)"
    and "st \<noteq> EFI_SUCCESS"
    and "load_elf fw i0 i1 info s = (st', info', s')"
  shows "loaded_paddr info' = 0 \<and> loaded_size info' = 0
    \<and> kernel_entry info' = u64 (e_entry (memory s1) ehdr)
    \<and> (\<exists>cs r. calls s' = cs @ [r] \<and> st' = status (snd r)
         \<and> (\<exists>a. fst r = AllocatePool a 16 \<or> fst r = InstallConfigurationTable DRAGONSTUB_EFI_PAYLOAD_EFI_GUID (Some a)))"
  by (rule load_elf_ignores [OF assms])

text \<open>Here the firmware has no pages left, and \<open>load_elf\<close> still succeeds.\<close>

abbreviation (input) demo_payload :: payload_info where
  "demo_payload \<equiv> \<lparr>payload_addr = elf_addr, payload_size = 128, loaded_paddr = 0, loaded_size = 0, kernel_entry = 0\<rparr>"

theorem load_elf_ignores_failure_witness:
  "fst (load_elf demo_fw 0 0 demo_payload (demo_state demo_elf DEMO_TOP)) = EFI_SUCCESS
   \<and> loaded_size (fst (snd (load_elf demo_fw 0 0 demo_payload (demo_state demo_elf DEMO_TOP)))) = 0"
proof -
  have h: "elf_get_header (memory (demo_state demo_elf DEMO_TOP)) (payload_addr demo_payload) (payload_size demo_payload)
      = Inr elf_addr"
    "parse_phdrs (memory (demo_state demo_elf DEMO_TOP)) (payload_addr demo_payload) (payload_size demo_payload) elf_addr
      = Inr (1, elf_addr + 64)" by code_simp+
  have f: "fst (load_program demo_fw (payload_addr demo_payload) (payload_size demo_payload) (elf_addr + 64) 1
      no_memory (demo_state demo_elf DEMO_TOP)) \<noteq> EFI_SUCCESS" by code_simp
  have s: "fst (load_elf demo_fw 0 0 demo_payload (demo_state demo_elf DEMO_TOP)) = EFI_SUCCESS" by code_simp
  obtain st km s1 where l: "load_program demo_fw (payload_addr demo_payload) (payload_size demo_payload) (elf_addr + 64) 1
      no_memory (demo_state demo_elf DEMO_TOP) = (st, km, s1)" by (rule prod_cases3)
  obtain st' info' s' where e: "load_elf demo_fw 0 0 demo_payload (demo_state demo_elf DEMO_TOP) = (st', info', s')"
    by (rule prod_cases3)
  have "st \<noteq> EFI_SUCCESS" using f l by simp
  from load_elf_ignores_failure [OF h l this e] s show ?thesis by (simp add: e)
qed

end
