(* ===== verification/Vsprintf.thy ===== *)
theory Vsprintf
  imports Cstring_Spec
begin

text \<open>
  Formatted output: \<open>apps/lib/vsprintf.c\<close>.

  A function that writes to \<open>[buf, end)\<close> returns the memory and the advanced buffer pointer, which
  may run past \<open>end\<close>. The format is the list of its bytes; a pointer into it is a suffix. The
  variable arguments are the list of their 64-bit slots. A pair is \<open>(memory, buf)\<close>.
\<close>

section \<open>The specification of a conversion\<close>

datatype format_type =
    FORMAT_TYPE_NONE
  | FORMAT_TYPE_WIDTH
  | FORMAT_TYPE_PRECISION
  | FORMAT_TYPE_CHAR
  | FORMAT_TYPE_STR
  | FORMAT_TYPE_PTR
  | FORMAT_TYPE_PERCENT_CHAR
  | FORMAT_TYPE_INVALID
  | FORMAT_TYPE_LONG_LONG
  | FORMAT_TYPE_ULONG
  | FORMAT_TYPE_LONG
  | FORMAT_TYPE_UBYTE
  | FORMAT_TYPE_BYTE
  | FORMAT_TYPE_USHORT
  | FORMAT_TYPE_SHORT
  | FORMAT_TYPE_UINT
  | FORMAT_TYPE_INT
  | FORMAT_TYPE_SIZE_T
  | FORMAT_TYPE_PTRDIFF

record printf_spec =
  sp_type :: format_type
  sp_field_width :: int
  sp_flags :: int
  sp_base :: int
  sp_precision :: int

abbreviation (input) SIGN :: int where "SIGN \<equiv> 1"
abbreviation (input) LEFT :: int where "LEFT \<equiv> 2"
abbreviation (input) PLUS :: int where "PLUS \<equiv> 4"
abbreviation (input) SPACE :: int where "SPACE \<equiv> 8"
abbreviation (input) ZEROPAD :: int where "ZEROPAD \<equiv> 16"
abbreviation (input) SMALL :: int where "SMALL \<equiv> 32"
abbreviation (input) SPECIAL :: int where "SPECIAL \<equiv> 64"

text \<open>The bit-fields \<open>field_width : 24\<close> and \<open>precision : 16\<close>.\<close>

definition s24 :: "int \<Rightarrow> int" where
  "s24 x = (x + 8388608) mod 16777216 - 8388608"

definition s16 :: "int \<Rightarrow> int" where
  "s16 x = (x + 32768) mod 65536 - 32768"

definition s8 :: "int \<Rightarrow> int" where
  "s8 x = (x + 128) mod 256 - 128"

definition clamp :: "int \<Rightarrow> int \<Rightarrow> int \<Rightarrow> int" where
  "clamp val lo hi = min (max val lo) hi"

abbreviation (input) FIELD_WIDTH_MAX :: int where "FIELD_WIDTH_MAX \<equiv> 8388607"
abbreviation (input) PRECISION_MAX :: int where "PRECISION_MAX \<equiv> 32767"

definition set_field_width :: "printf_spec \<Rightarrow> int \<Rightarrow> printf_spec" where
  "set_field_width spec width =
     (if s24 width \<noteq> width
      then spec\<lparr>sp_field_width := clamp width (- FIELD_WIDTH_MAX) FIELD_WIDTH_MAX\<rparr>
      else spec\<lparr>sp_field_width := s24 width\<rparr>)"

definition set_precision :: "printf_spec \<Rightarrow> int \<Rightarrow> printf_spec" where
  "set_precision spec prec =
     (if s16 prec \<noteq> prec then spec\<lparr>sp_precision := clamp prec 0 PRECISION_MAX\<rparr>
      else spec\<lparr>sp_precision := s16 prec\<rparr>)"

section \<open>Decoding the format\<close>

text \<open>The \<open>do\<close> loop reads its first character without a test.\<close>

fun skip_atoi_loop :: "int \<Rightarrow> byte list \<Rightarrow> int \<times> byte list" where
  "skip_atoi_loop i [] = (i, [])"
| "skip_atoi_loop i (c # s) =
     (if isdigit c then skip_atoi_loop (s32 (i * 10 + uint c - 48)) s else (i, c # s))"

definition skip_atoi :: "byte list \<Rightarrow> int \<times> byte list" where
  "skip_atoi s = skip_atoi_loop (s32 (0 * 10 + uint (deref s) - 48)) (tl s)"

fun decode_flags :: "byte list \<Rightarrow> int \<Rightarrow> byte list \<times> int" where
  "decode_flags [] fl = ([], fl)"
| "decode_flags (c # s) fl =
     (if c = 45 then decode_flags s (fl OR LEFT)
      else if c = 43 then decode_flags s (fl OR PLUS)
      else if c = 32 then decode_flags s (fl OR SPACE)
      else if c = 35 then decode_flags s (fl OR SPECIAL)
      else if c = 48 then decode_flags s (fl OR ZEROPAD)
      else (c # s, fl))"

text \<open>Behind the label \<open>qualifier\<close>. A qualifier is the character, \<open>L\<close> for \<open>ll\<close> and \<open>H\<close> for \<open>hh\<close>.\<close>

definition read_qualifier :: "byte list \<Rightarrow> byte \<times> byte list" where
  "read_qualifier fmt =
     (let c = deref fmt
      in if c = 104 \<or> TOLOWER c = 108 \<or> c = 122 \<or> c = 116 then
           (let fmt = tl fmt
            in if c = deref fmt then
                 (if c = 108 then (76, tl fmt) else if c = 104 then (72, tl fmt) else (c, fmt))
               else (c, fmt))
         else (0, fmt))"

text \<open>\<open>FORMAT_TYPE_ULONG + (spec->flags & SIGN)\<close> and its like: the signed type is the next one.\<close>

definition integer_type :: "byte \<Rightarrow> int \<Rightarrow> format_type" where
  "integer_type qualifier fl =
     (let sgn = (fl AND SIGN \<noteq> 0)
      in if qualifier = 76 then FORMAT_TYPE_LONG_LONG
         else if qualifier = 108 then (if sgn then FORMAT_TYPE_LONG else FORMAT_TYPE_ULONG)
         else if qualifier = 122 then FORMAT_TYPE_SIZE_T
         else if qualifier = 116 then FORMAT_TYPE_PTRDIFF
         else if qualifier = 72 then (if sgn then FORMAT_TYPE_BYTE else FORMAT_TYPE_UBYTE)
         else if qualifier = 104 then (if sgn then FORMAT_TYPE_SHORT else FORMAT_TYPE_USHORT)
         else (if sgn then FORMAT_TYPE_INT else FORMAT_TYPE_UINT))"

definition decode_conversion :: "byte list \<Rightarrow> printf_spec \<Rightarrow> printf_spec \<times> byte list" where
  "decode_conversion fmt spec =
     (case read_qualifier fmt of
        (qualifier, fmt) \<Rightarrow>
          (let spec = spec\<lparr>sp_base := 10\<rparr>; c = deref fmt;
               integer = (\<lambda>spec. (spec\<lparr>sp_type := integer_type qualifier (sp_flags spec)\<rparr>, tl fmt))
           in if c = 99 then (spec\<lparr>sp_type := FORMAT_TYPE_CHAR\<rparr>, tl fmt)
              else if c = 115 then (spec\<lparr>sp_type := FORMAT_TYPE_STR\<rparr>, tl fmt)
              else if c = 112 then (spec\<lparr>sp_type := FORMAT_TYPE_PTR\<rparr>, tl fmt)
              else if c = 37 then (spec\<lparr>sp_type := FORMAT_TYPE_PERCENT_CHAR\<rparr>, tl fmt)
              else if c = 111 then integer (spec\<lparr>sp_base := 8\<rparr>)
              else if c = 120 then integer (spec\<lparr>sp_flags := sp_flags spec OR SMALL, sp_base := 16\<rparr>)
              else if c = 88 then integer (spec\<lparr>sp_base := 16\<rparr>)
              else if c = 100 \<or> c = 105 then integer (spec\<lparr>sp_flags := sp_flags spec OR SIGN\<rparr>)
              else if c = 117 then integer spec
              else (spec\<lparr>sp_type := FORMAT_TYPE_INVALID\<rparr>, fmt)))"

text \<open>Behind the label \<open>precision\<close>.\<close>

definition decode_precision :: "byte list \<Rightarrow> printf_spec \<Rightarrow> printf_spec \<times> byte list" where
  "decode_precision fmt spec =
     (let spec = spec\<lparr>sp_precision := - 1\<rparr>
      in if deref fmt = 46 then
           (let fmt = tl fmt
            in if isdigit (deref fmt) then
                 (case skip_atoi fmt of
                    (n, fmt) \<Rightarrow>
                      (let p = s16 n in decode_conversion fmt (spec\<lparr>sp_precision := if p < 0 then 0 else p\<rparr>)))
               else if deref fmt = 42 then (spec\<lparr>sp_type := FORMAT_TYPE_PRECISION\<rparr>, tl fmt)
               else decode_conversion fmt spec)
         else decode_conversion fmt spec)"

text \<open>The decoded specification and the rest of the format, \<open>fmt\<close> advanced by the returned number.\<close>

definition format_decode :: "byte list \<Rightarrow> printf_spec \<Rightarrow> printf_spec \<times> byte list" where
  "format_decode fmt spec =
     (if sp_type spec = FORMAT_TYPE_WIDTH then
        (let spec = (if sp_field_width spec < 0
                     then spec\<lparr>sp_field_width := s24 (- sp_field_width spec), sp_flags := sp_flags spec OR LEFT\<rparr>
                     else spec)
         in decode_precision fmt (spec\<lparr>sp_type := FORMAT_TYPE_NONE\<rparr>))
      else if sp_type spec = FORMAT_TYPE_PRECISION then
        (let spec = (if sp_precision spec < 0 then spec\<lparr>sp_precision := 0\<rparr> else spec)
         in decode_conversion fmt (spec\<lparr>sp_type := FORMAT_TYPE_NONE\<rparr>))
      else
        (let spec = spec\<lparr>sp_type := FORMAT_TYPE_NONE\<rparr>; rest = dropWhile (\<lambda>c. c \<noteq> 37) fmt
         in if rest \<noteq> fmt \<or> rest = [] then (spec, rest)
            else
              (case decode_flags (tl fmt) 0 of
                 (fmt, fl) \<Rightarrow>
                   (let spec = spec\<lparr>sp_flags := fl, sp_field_width := - 1\<rparr>
                    in if isdigit (deref fmt) then
                         (case skip_atoi fmt of (n, fmt) \<Rightarrow> decode_precision fmt (spec\<lparr>sp_field_width := s24 n\<rparr>))
                       else if deref fmt = 42 then (spec\<lparr>sp_type := FORMAT_TYPE_WIDTH\<rparr>, tl fmt)
                       else decode_precision fmt spec))))"

section \<open>Writing characters\<close>

text \<open>\<open>if (buf < end) *buf = c; ++buf;\<close>\<close>

definition emit :: "addr \<Rightarrow> byte \<Rightarrow> mem \<times> addr \<Rightarrow> mem \<times> addr" where
  "emit stop c p = (case p of (m, buf) \<Rightarrow> (if buf < stop then m(buf := c) else m, buf + 1))"

definition emit_list :: "addr \<Rightarrow> byte list \<Rightarrow> mem \<times> addr \<Rightarrow> mem \<times> addr" where
  "emit_list stop cs p = fold (emit stop) cs p"

text \<open>\<open>while (--field_width >= 0)\<close>: the field width behind the loop, and the output.\<close>

function pad_while :: "addr \<Rightarrow> byte \<Rightarrow> int \<Rightarrow> mem \<times> addr \<Rightarrow> int \<times> mem \<times> addr" where
  "pad_while stop c field_width p =
     (let field_width = field_width - 1
      in if field_width \<ge> 0 then pad_while stop c field_width (emit stop c p) else (field_width, p))"
  by pat_completeness auto
termination by (relation "measure (\<lambda>(stop, c, w, p). nat w)") auto

declare pad_while.simps [simp del]

section \<open>Numbers\<close>

definition hex_asc :: "byte list" where "hex_asc = str ''0123456789abcdef''"
definition hex_asc_upper :: "byte list" where "hex_asc_upper = str ''0123456789ABCDEF''"
definition hex_asc_lo :: "byte \<Rightarrow> byte" where "hex_asc_lo x = hex_asc ! unat (x AND 0x0f)"
definition hex_asc_hi :: "byte \<Rightarrow> byte" where "hex_asc_hi x = hex_asc ! unat (drop_bit 4 (x AND 0xf0))"
definition hex_byte_pack :: "byte \<Rightarrow> byte list" where "hex_byte_pack b = [hex_asc_hi b, hex_asc_lo b]"

text \<open>The two characters of an entry of the table, the low digit first.\<close>

definition decpair :: "byte list list" where
  "decpair = map (\<lambda>x. let v = ((int x mod 10) OR push_bit 8 (int x div 10)) + 0x3030
                     in [byte_of v, byte_of (v div 256)]) [0..<100]"

definition div100 :: "int \<Rightarrow> int" where
  "div100 r = u32 (drop_bit 32 (u64 (r * 0x28f5c29)))"

definition div100_small :: "int \<Rightarrow> int" where
  "div100_small r = drop_bit 19 (u32 (r * 0x147b))"

abbreviation (input) decpair_at :: "int \<Rightarrow> byte list" where "decpair_at i \<equiv> decpair ! nat (u32 i)"

text \<open>The characters between the old and the returned \<open>buf\<close>.\<close>

definition put_dec_trunc8 :: "int \<Rightarrow> byte list" where
  "put_dec_trunc8 r =
     (let out_r = (\<lambda>r. take (if r < 10 then 1 else 2) (decpair_at r))
      in if r < 100 then out_r r
         else
           (let q = div100 r; o1 = decpair_at (r - 100 * q)
            in if q < 100 then o1 @ out_r q
               else
                 (let r = div100 q; o2 = decpair_at (q - 100 * r)
                  in if r < 100 then o1 @ o2 @ out_r r
                     else
                       (let q = div100_small r; o3 = decpair_at (r - 100 * q)
                        in o1 @ o2 @ o3 @ out_r q))))"

definition put_dec_full8 :: "int \<Rightarrow> byte list" where
  "put_dec_full8 r =
     (let q = div100 r; o1 = decpair_at (r - 100 * q);
          r = div100 q; o2 = decpair_at (q - 100 * r);
          q = div100_small r; o3 = decpair_at (r - 100 * q)
      in o1 @ o2 @ o3 @ decpair_at q)"

definition put_dec :: "int \<Rightarrow> byte list" where
  "put_dec n =
     (let (o1, n) = (if n \<ge> 100 * 1000 * 1000
                     then (put_dec_full8 (n mod (100 * 1000 * 1000)), n div (100 * 1000 * 1000)) else ([], n));
          (o2, n) = (if n \<ge> 100 * 1000 * 1000
                     then (put_dec_full8 (n mod (100 * 1000 * 1000)), n div (100 * 1000 * 1000)) else ([], n))
      in o1 @ o2 @ put_dec_trunc8 (u32 n))"

lemma drop_bit_less: "0 < drop_bit k n \<Longrightarrow> 0 < k \<Longrightarrow> drop_bit k n < n" for n :: int
  unfolding drop_bit_eq_div
proof (rule int_div_less_self)
  assume "0 < n div 2 ^ k"
  then have "(2 :: int) ^ k \<le> n" by (simp add: pos_imp_zdiv_pos_iff)
  then show "0 < n" by (smt (verit) zero_less_power)
qed simp

text \<open>The digits of a number in base 8 or 16, the last first; \<open>num\<close> is a \<open>u64\<close>.\<close>

function digits_loop :: "int \<Rightarrow> nat \<Rightarrow> byte \<Rightarrow> int \<Rightarrow> byte list" where
  "digits_loop bitmask shift locase num =
     (let c = hex_asc_upper ! nat ((num mod 256) AND bitmask) OR locase; num' = drop_bit shift num
      in if num' > 0 \<and> shift > 0 then c # digits_loop bitmask shift locase num' else [c])"
  by pat_completeness auto

termination
  by (relation "measure (\<lambda>(b, s, l, num). nat num)") (use drop_bit_less in fastforce)+

declare digits_loop.simps [simp del]

definition number :: "mem \<times> addr \<Rightarrow> addr \<Rightarrow> int \<Rightarrow> printf_spec \<Rightarrow> mem \<times> addr" where
  "number p stop num spec =
     (let fl = sp_flags spec; base = sp_base spec;
          need_pfx = (fl AND SPECIAL \<noteq> 0 \<and> base \<noteq> 10);
          is_zero = (num = 0);
          locase = word_of_int (fl AND SMALL);
          fl = (if fl AND LEFT \<noteq> 0 then fl AND NOT ZEROPAD else fl);
          (sign, num, field_width) =
            (if fl AND SIGN \<noteq> 0 then
               (if s64 num < 0 then (45, u64 (- s64 num), sp_field_width spec - 1)
                else if fl AND PLUS \<noteq> 0 then (43, num, sp_field_width spec - 1)
                else if fl AND SPACE \<noteq> 0 then (32, num, sp_field_width spec - 1)
                else (0, num, sp_field_width spec))
             else (0 :: byte, num, sp_field_width spec));
          field_width = (if need_pfx then
                           (if base = 16 then field_width - 2
                            else if \<not> is_zero then field_width - 1 else field_width)
                         else field_width);
          tmp = (if num < base then [hex_asc_upper ! nat num OR locase]
                 else if base \<noteq> 10 then digits_loop (base - 1) (if base = 16 then 4 else 3) locase num
                 else put_dec num);
          i = int (length tmp);
          precision = max i (sp_precision spec);
          field_width = field_width - precision;
          (field_width, p) = (if fl AND (ZEROPAD OR LEFT) = 0 then pad_while stop 32 field_width p
                              else (field_width, p));
          p = (if sign \<noteq> 0 then emit stop sign p else p);
          p = (if need_pfx \<and> (base = 16 \<or> \<not> is_zero) then emit stop 48 p else p);
          p = (if need_pfx \<and> base = 16 then emit stop (88 OR locase) p else p);
          (field_width, p) = (if fl AND LEFT = 0
                              then pad_while stop (32 + word_of_int (fl AND ZEROPAD)) field_width p
                              else (field_width, p));
          p = emit_list stop (replicate (nat (precision - i)) 48) p;
          p = emit_list stop (rev tmp) p
      in snd (pad_while stop 32 field_width p))"

definition special_hex_number :: "mem \<times> addr \<Rightarrow> addr \<Rightarrow> int \<Rightarrow> int \<Rightarrow> mem \<times> addr" where
  "special_hex_number p stop num size0 =
     number p stop num
       \<lparr>sp_type = FORMAT_TYPE_PTR, sp_field_width = s24 (2 + 2 * size0),
        sp_flags = SPECIAL OR SMALL OR ZEROPAD, sp_base = 16, sp_precision = - 1\<rparr>"

section \<open>Strings\<close>

definition move_right :: "mem \<Rightarrow> addr \<Rightarrow> addr \<Rightarrow> nat \<Rightarrow> nat \<Rightarrow> mem" where
  "move_right m buf stop len spaces =
     (if buf \<ge> stop then m
      else
        (let size0 = nat (stop - buf)
         in if size0 \<le> spaces then memset m buf 32 size0
            else
              (let m = (if len \<noteq> 0
                        then memmove m (buf + int spaces) buf (if len > size0 - spaces then size0 - spaces else len)
                        else m)
               in memset m buf 32 spaces)))"

definition widen_string :: "mem \<times> addr \<Rightarrow> int \<Rightarrow> addr \<Rightarrow> printf_spec \<Rightarrow> mem \<times> addr" where
  "widen_string p n stop spec =
     (if n \<ge> sp_field_width spec then p
      else
        (let spaces = nat (sp_field_width spec - n)
         in if sp_flags spec AND LEFT = 0
            then (case p of (m, buf) \<Rightarrow> (move_right m (buf - n) stop (nat n) spaces, buf + int spaces))
            else emit_list stop (replicate spaces 32) p))"

text \<open>
  The loop of \<open>string_nocheck\<close> over a string in memory. A negative \<open>lim\<close> counts down without ever
  reaching zero before the string ends; addresses end at \<open>2\<^bsup>64\<^esup>\<close>.
\<close>

function string_loop :: "addr \<Rightarrow> addr \<Rightarrow> int \<Rightarrow> int \<Rightarrow> mem \<times> addr \<Rightarrow> int \<times> mem \<times> addr" where
  "string_loop stop s lim len p =
     (if lim \<noteq> 0 \<and> s < ADDR_LIMIT \<and> fst p s \<noteq> 0
      then string_loop stop (s + 1) (lim - 1) (len + 1) (emit stop (fst p s) p)
      else (len, p))"
  by pat_completeness auto
termination by (relation "measure (\<lambda>(stop, s, lim, len, p). nat (ADDR_LIMIT - s))") auto

declare string_loop.simps [simp del]

definition string_nocheck :: "mem \<times> addr \<Rightarrow> addr \<Rightarrow> addr \<Rightarrow> printf_spec \<Rightarrow> mem \<times> addr" where
  "string_nocheck p stop s spec =
     (case string_loop stop s (sp_precision spec) 0 p of (len, p) \<Rightarrow> widen_string p len stop spec)"

text \<open>The same for a string that does not lie in the modelled memory: a literal or a local buffer.\<close>

definition literal_nocheck :: "mem \<times> addr \<Rightarrow> addr \<Rightarrow> byte list \<Rightarrow> printf_spec \<Rightarrow> mem \<times> addr" where
  "literal_nocheck p stop s spec =
     (let s = (if sp_precision spec < 0 then s else take (nat (sp_precision spec)) s)
      in widen_string (emit_list stop s p) (int (length s)) stop spec)"

definition error_string :: "mem \<times> addr \<Rightarrow> addr \<Rightarrow> byte list \<Rightarrow> printf_spec \<Rightarrow> mem \<times> addr" where
  "error_string p stop s spec =
     literal_nocheck p stop s
       (if sp_precision spec = - 1 then spec\<lparr>sp_precision := 2 * 8\<rparr> else spec)"

definition IS_ERR_VALUE :: "addr \<Rightarrow> bool" where
  "IS_ERR_VALUE x \<longleftrightarrow> x \<ge> u64 (- 4095)"

definition check_pointer_msg :: "addr \<Rightarrow> byte list option" where
  "check_pointer_msg ptr =
     (if ptr = 0 then Some (str ''(null)'')
      else if ptr < 4096 \<or> IS_ERR_VALUE ptr then Some (str ''(efault)'')
      else None)"

text \<open>The output of the message, or \<open>None\<close> for the returned zero.\<close>

definition check_pointer :: "mem \<times> addr \<Rightarrow> addr \<Rightarrow> addr \<Rightarrow> printf_spec \<Rightarrow> (mem \<times> addr) option" where
  "check_pointer p stop ptr spec =
     map_option (\<lambda>msg. error_string p stop msg spec) (check_pointer_msg ptr)"

definition string_i :: "mem \<times> addr \<Rightarrow> addr \<Rightarrow> addr \<Rightarrow> printf_spec \<Rightarrow> mem \<times> addr" where
  "string_i p stop s spec =
     (case check_pointer p stop s spec of Some p \<Rightarrow> p | None \<Rightarrow> string_nocheck p stop s spec)"

section \<open>Pointers\<close>

definition pointer_string :: "mem \<times> addr \<Rightarrow> addr \<Rightarrow> addr \<Rightarrow> printf_spec \<Rightarrow> mem \<times> addr" where
  "pointer_string p stop ptr spec =
     (let spec = spec\<lparr>sp_base := 16, sp_flags := sp_flags spec OR SMALL\<rparr>;
          spec = (if sp_field_width spec = - 1
                  then spec\<lparr>sp_field_width := 2 * 8, sp_flags := sp_flags spec OR ZEROPAD\<rparr> else spec)
      in number p stop ptr spec)"

definition default_pointer :: "mem \<times> addr \<Rightarrow> addr \<Rightarrow> addr \<Rightarrow> printf_spec \<Rightarrow> mem \<times> addr" where
  "default_pointer p stop ptr spec = pointer_string p stop ptr spec"

definition err_ptr :: "mem \<times> addr \<Rightarrow> addr \<Rightarrow> addr \<Rightarrow> printf_spec \<Rightarrow> mem \<times> addr" where
  "err_ptr p stop ptr spec =
     number p stop (u64 (s32 ptr)) (spec\<lparr>sp_flags := sp_flags spec OR SIGN, sp_base := 10\<rparr>)"

text \<open>The loop of \<open>hex_string\<close> reads each byte of the memory as it is at that time.\<close>

fun hex_string_loop :: "addr \<Rightarrow> byte \<Rightarrow> addr \<Rightarrow> nat \<Rightarrow> mem \<times> addr \<Rightarrow> mem \<times> addr" where
  "hex_string_loop stop separator a 0 p = p"
| "hex_string_loop stop separator a (Suc n) p =
     (let p = emit stop (hex_asc_hi (fst p a)) p; p = emit stop (hex_asc_lo (fst p a)) p;
          p = (if separator \<noteq> 0 \<and> n \<noteq> 0 then emit stop separator p else p)
      in hex_string_loop stop separator (a + 1) n p)"

text \<open>\<open>fmt\<close> is at the character behind \<open>%p\<close>; \<open>fmt[1]\<close> is the next one.\<close>

definition hex_string :: "mem \<times> addr \<Rightarrow> addr \<Rightarrow> addr \<Rightarrow> printf_spec \<Rightarrow> byte list \<Rightarrow> mem \<times> addr" where
  "hex_string p stop a spec fmt =
     (if sp_field_width spec = 0 then p
      else
        (case check_pointer p stop a spec of
           Some p \<Rightarrow> p
         | None \<Rightarrow>
             (let c = deref (tl fmt);
                  separator = (if c = 67 then 58 else if c = 68 then 45 else if c = 78 then 0 else 32);
                  len = (if sp_field_width spec > 0 then min (sp_field_width spec) 64 else 1)
              in hex_string_loop stop separator a (nat len) p)))"

definition mac_address_string ::
  "mem \<times> addr \<Rightarrow> addr \<Rightarrow> addr \<Rightarrow> printf_spec \<Rightarrow> byte list \<Rightarrow> mem \<times> addr" where
  "mac_address_string p stop a spec fmt =
     (case check_pointer p stop a spec of
        Some p \<Rightarrow> p
      | None \<Rightarrow>
          (let c = deref (tl fmt); separator = (if c = 70 then 45 else 58); reversed = (c = 82);
               mac_addr = concat (map (\<lambda>i. hex_byte_pack (fst p (a + (if reversed then 5 - i else i)))
                                            @ (if deref fmt = 77 \<and> i \<noteq> 5 then [separator] else []))
                                      [0..5])
           in literal_nocheck p stop mac_addr spec))"

definition pointer_i :: "byte list \<Rightarrow> mem \<times> addr \<Rightarrow> addr \<Rightarrow> addr \<Rightarrow> printf_spec \<Rightarrow> mem \<times> addr" where
  "pointer_i fmt p stop ptr spec =
     (let c = deref fmt
      in if c = 104 then hex_string p stop ptr spec fmt
         else if c = 77 \<or> c = 109 then mac_address_string p stop ptr spec fmt
         else if c = 120 then pointer_string p stop ptr spec
         else if c = 101 then (if \<not> IS_ERR_VALUE ptr then default_pointer p stop ptr spec else err_ptr p stop ptr spec)
         else if c = 117 \<or> c = 107 then
           (if deref (tl fmt) = 115 then string_i p stop ptr spec
            else error_string p stop (str ''(einval)'') spec)
         else default_pointer p stop ptr spec)"

section \<open>The formatter\<close>

text \<open>An argument that is not there is undefined behaviour in C; it is read as zero here.\<close>

definition va_arg :: "int list \<Rightarrow> int \<times> int list" where
  "va_arg args = (case args of [] \<Rightarrow> (0, []) | a # args \<Rightarrow> (a, args))"

text \<open>An argument of an integer conversion as \<open>unsigned long long\<close>.\<close>

definition integer_arg :: "format_type \<Rightarrow> int \<Rightarrow> int" where
  "integer_arg t a =
     (case t of
        FORMAT_TYPE_LONG_LONG \<Rightarrow> u64 a
      | FORMAT_TYPE_ULONG \<Rightarrow> u64 a
      | FORMAT_TYPE_LONG \<Rightarrow> u64 a
      | FORMAT_TYPE_SIZE_T \<Rightarrow> u64 a
      | FORMAT_TYPE_PTRDIFF \<Rightarrow> u64 a
      | FORMAT_TYPE_UBYTE \<Rightarrow> a mod 256
      | FORMAT_TYPE_BYTE \<Rightarrow> u64 (s8 a)
      | FORMAT_TYPE_USHORT \<Rightarrow> a mod 65536
      | FORMAT_TYPE_SHORT \<Rightarrow> u64 (s16 a)
      | FORMAT_TYPE_INT \<Rightarrow> u64 (s32 a)
      | _ \<Rightarrow> u32 a)"

text \<open>\<open>while (--spec.field_width > 0)\<close> on the 24-bit field, which wraps below its least value.\<close>

lemma s24_id: "- 8388608 \<le> x \<Longrightarrow> x < 8388608 \<Longrightarrow> s24 x = x"
  by (simp add: s24_def)

lemma s24_bounds: "- 8388608 \<le> s24 x \<and> s24 x < 8388608"
  unfolding s24_def by (smt (verit) pos_mod_bound pos_mod_sign)

definition pad_measure :: "int \<Rightarrow> nat" where
  "pad_measure w = (if - 8388608 < w \<and> w < 8388608 then nat w else 16777216)"

lemma pad_measure_less: "s24 (w - 1) > 0 \<Longrightarrow> pad_measure (s24 (w - 1)) < pad_measure w"
  using s24_bounds [of "w - 1"] s24_id [of "w - 1"] by (auto simp: pad_measure_def)

function pad_char :: "addr \<Rightarrow> int \<Rightarrow> mem \<times> addr \<Rightarrow> int \<times> mem \<times> addr" where
  "pad_char stop field_width p =
     (let field_width = s24 (field_width - 1)
      in if field_width > 0 then pad_char stop field_width (emit stop 32 p) else (field_width, p))"
  by pat_completeness auto

termination
  by (relation "measure (\<lambda>(stop, w, p). pad_measure w)") (auto simp: pad_measure_less)

declare pad_char.simps [simp del]

text \<open>
  The loop over the format: the specification keeps the fields of the last conversion, which a
  width or a precision taken from the arguments continues.
\<close>

lemma decode_flags_length: "length (fst (decode_flags fmt fl)) \<le> length fmt"
  by (induction fmt fl rule: decode_flags.induct) auto

lemma skip_atoi_length: "skip_atoi fmt = (n, rest) \<Longrightarrow> length rest \<le> length fmt"
proof -
  have "length (snd (skip_atoi_loop i s)) \<le> length s" for i s
    by (induction i s rule: skip_atoi_loop.induct) auto
  moreover assume "skip_atoi fmt = (n, rest)"
  ultimately have "length rest \<le> length (tl fmt)" unfolding skip_atoi_def by (metis snd_conv)
  then show ?thesis by simp
qed

lemma read_qualifier_length: "read_qualifier fmt = (q, rest) \<Longrightarrow> length rest \<le> length fmt"
  by (auto simp: read_qualifier_def Let_def split: if_splits)

lemma decode_conversion_length:
  assumes "decode_conversion fmt spec = (spec', rest)"
  shows "length rest \<le> length fmt \<and> (sp_type spec' = FORMAT_TYPE_INVALID \<or> length rest < length fmt)"
proof -
  obtain q f where r: "read_qualifier fmt = (q, f)" by fastforce
  have "length (tl f) < length f" if "deref f \<noteq> 0" using that by (cases f) auto
  then show ?thesis
    using assms read_qualifier_length [OF r] unfolding decode_conversion_def r
    by (auto simp: Let_def deref_def split: if_splits list.splits)
qed

lemma decode_precision_length:
  assumes "decode_precision fmt spec = (spec', rest)"
  shows "length rest \<le> length fmt \<and> (sp_type spec' = FORMAT_TYPE_INVALID \<or> length rest < length fmt)"
proof (cases "deref fmt = 46")
  case True
  then obtain f where f: "fmt = 46 # f" by (cases fmt) auto
  show ?thesis
  proof (cases "isdigit (deref f)")
    case True
    obtain n g where g: "skip_atoi f = (n, g)" by fastforce
    show ?thesis
      using assms skip_atoi_length [OF g] decode_conversion_length True
      unfolding decode_precision_def f by (fastforce simp: g Let_def)
  next
    case False
    then show ?thesis
      using assms decode_conversion_length unfolding decode_precision_def f
      by (fastforce simp: Let_def split: if_splits)
  qed
next
  case False
  then show ?thesis
    using assms decode_conversion_length unfolding decode_precision_def by (simp add: Let_def)
qed

lemma format_decode_length:
  assumes d: "format_decode fmt spec = (spec', rest)" and "fmt \<noteq> []"
  shows "sp_type spec' = FORMAT_TYPE_INVALID \<or> length rest < length fmt"
proof (cases "sp_type spec = FORMAT_TYPE_WIDTH \<or> sp_type spec = FORMAT_TYPE_PRECISION")
  case True
  then show ?thesis
    using d decode_precision_length decode_conversion_length unfolding format_decode_def
    by (auto simp: Let_def split: if_splits)
next
  case False
  define r where "r = dropWhile (\<lambda>c. c \<noteq> 37) fmt"
  show ?thesis
  proof (cases "r \<noteq> fmt \<or> r = []")
    case True
    moreover have "length r < length fmt" if "r \<noteq> fmt"
      using that append_take_drop_id [of "length (takeWhile (\<lambda>c. c \<noteq> 37) fmt)" fmt]
        takeWhile_dropWhile_id [of "\<lambda>c. c \<noteq> 37" fmt]
      unfolding r_def by (cases fmt) (auto intro: le_imp_less_Suc length_dropWhile_le split: if_splits)
    ultimately show ?thesis
      using False d \<open>fmt \<noteq> []\<close> unfolding format_decode_def Let_def r_def [symmetric] by auto
  next
    case nf: False
    obtain g fl where g: "decode_flags (tl fmt) 0 = (g, fl)" by fastforce
    have lg: "length g < length fmt"
      using decode_flags_length [of "tl fmt" 0] g \<open>fmt \<noteq> []\<close> by (cases fmt) auto
    obtain n h where h: "skip_atoi g = (n, h)" by fastforce
    have "length h \<le> length g" using skip_atoi_length [OF h] .
    note d' = d [unfolded format_decode_def Let_def r_def [symmetric]]
    show ?thesis
    proof (cases "isdigit (deref g)")
      case True
      have "\<exists>s. decode_precision h s = (spec', rest)" using d' False nf True by (auto simp: g h)
      then show ?thesis using lg \<open>length h \<le> length g\<close> decode_precision_length by fastforce
    next
      case nd: False
      show ?thesis
      proof (cases "deref g = 42")
        case True
        then have "rest = tl g" using d' False nf nd by (auto simp: g)
        then show ?thesis using lg by (simp add: less_imp_diff_less)
      next
        case n42: False
        have "\<exists>s. decode_precision g s = (spec', rest)" using d' False nf nd n42 by (auto simp: g)
        then show ?thesis using lg decode_precision_length by fastforce
      qed
    qed
  qed
qed

function vsnprintf_loop ::
  "addr \<Rightarrow> byte list \<Rightarrow> printf_spec \<Rightarrow> int list \<Rightarrow> mem \<times> addr \<Rightarrow> mem \<times> addr" where
  "vsnprintf_loop stop fmt spec args p =
     (if fmt = [] then p
      else
        (let old_fmt = fmt; (spec, fmt) = format_decode fmt spec
         in case sp_type spec of
              FORMAT_TYPE_NONE \<Rightarrow>
                vsnprintf_loop stop fmt spec args
                  (emit_list stop (take (length old_fmt - length fmt) old_fmt) p)
            | FORMAT_TYPE_WIDTH \<Rightarrow>
                (let (a, args) = va_arg args in vsnprintf_loop stop fmt (set_field_width spec (s32 a)) args p)
            | FORMAT_TYPE_PRECISION \<Rightarrow>
                (let (a, args) = va_arg args in vsnprintf_loop stop fmt (set_precision spec (s32 a)) args p)
            | FORMAT_TYPE_CHAR \<Rightarrow>
                (let (w, p) = (if sp_flags spec AND LEFT = 0 then pad_char stop (sp_field_width spec) p
                               else (sp_field_width spec, p));
                     (a, args) = va_arg args;
                     (w, p) = pad_char stop w (emit stop (byte_of a) p)
                 in vsnprintf_loop stop fmt (spec\<lparr>sp_field_width := w\<rparr>) args p)
            | FORMAT_TYPE_STR \<Rightarrow>
                (let (a, args) = va_arg args in vsnprintf_loop stop fmt spec args (string_i p stop (u64 a) spec))
            | FORMAT_TYPE_PTR \<Rightarrow>
                (let (a, args) = va_arg args
                 in vsnprintf_loop stop (dropWhile isalnum fmt) spec args (pointer_i fmt p stop (u64 a) spec))
            | FORMAT_TYPE_PERCENT_CHAR \<Rightarrow> vsnprintf_loop stop fmt spec args (emit stop 37 p)
            | FORMAT_TYPE_INVALID \<Rightarrow> p
            | t \<Rightarrow>
                (let (a, args) = va_arg args
                 in vsnprintf_loop stop fmt spec args (number p stop (integer_arg t a) spec))))"
  by pat_completeness auto
termination
  by (relation "measure (\<lambda>(stop, fmt, spec, args, p). length fmt)")
     (auto dest!: format_decode_length [OF sym] intro: le_less_trans [OF length_dropWhile_le])

declare vsnprintf_loop.simps [simp del]

text \<open>The returned number and the memory. \<open>buf + size\<close> that wraps ends at the last address.\<close>

definition vsnprintf :: "mem \<Rightarrow> addr \<Rightarrow> int \<Rightarrow> byte list \<Rightarrow> int list \<Rightarrow> int \<times> mem" where
  "vsnprintf m buf size0 fmt args =
     (if size0 > INT_MAX then (0, m)
      else
        (let stop = u64 (buf + size0);
             (stop, size0) = (if stop < buf then (u64 (- 1), u64 (- 1) - buf) else (stop, size0));
             (m, pos) = vsnprintf_loop stop fmt
               \<lparr>sp_type = FORMAT_TYPE_NONE, sp_field_width = 0, sp_flags = 0, sp_base = 0, sp_precision = 0\<rparr>
               args (m, buf);
             m = (if size0 > 0 then (if pos < stop then m(pos := 0) else m(stop - 1 := 0)) else m)
         in (s32 (pos - buf), m)))"

definition snprintf :: "mem \<Rightarrow> addr \<Rightarrow> int \<Rightarrow> byte list \<Rightarrow> int list \<Rightarrow> int \<times> mem" where
  "snprintf m buf size0 fmt args = vsnprintf m buf size0 fmt args"

end
