(* ===== verification/Vsprintf_Spec.thy ===== *)
theory Vsprintf_Spec
  imports Vsprintf
begin

text \<open>
  Formatted output: the table-driven decimal conversion against the digits of the number, and what
  every formatting function leaves of the memory around its buffer.
\<close>

section \<open>Decimal digits\<close>

text \<open>The decimal digits of a number, the last first.\<close>

fun dec_digits :: "nat \<Rightarrow> byte list" where
  "dec_digits n = (if n < 10 then [byte_of (48 + int n)] else byte_of (48 + int (n mod 10)) # dec_digits (n div 10))"

declare dec_digits.simps [simp del]

text \<open>The last \<open>k\<close> digits, with leading zeroes.\<close>

primrec dec_fixed :: "nat \<Rightarrow> nat \<Rightarrow> byte list" where
  "dec_fixed 0 n = []"
| "dec_fixed (Suc k) n = byte_of (48 + int (n mod 10)) # dec_fixed k (n div 10)"

lemma dec_digits_split: "10 ^ k \<le> n \<Longrightarrow> dec_digits n = dec_fixed k n @ dec_digits (n div 10 ^ k)"
proof (induction k arbitrary: n)
  case (Suc k)
  then have "10 ^ k \<le> n div 10" "\<not> n < 10"
    by (simp_all add: less_eq_div_iff_mult_less_eq) (use one_le_power [of "10 :: nat" k] in linarith)
  then show ?case using Suc.IH [of "n div 10"] by (subst dec_digits.simps) (simp add: div_mult2_eq)
qed simp

lemma dec_fixed_mod: "dec_fixed k (n mod 10 ^ k) = dec_fixed k n"
proof (induction k arbitrary: n)
  case (Suc k)
  have "n mod 10 ^ Suc k mod 10 = n mod 10" by (simp add: mod_mod_cancel)
  moreover have "n mod 10 ^ Suc k div 10 = n div 10 mod 10 ^ k"
    by (simp add: mod_mult2_eq)
  ultimately show ?case using Suc [of "n div 10"] by (simp del: power_Suc)
qed simp

lemma dec_fixed_add: "dec_fixed (j + k) n = dec_fixed j n @ dec_fixed k (n div 10 ^ j)"
  by (induction j arbitrary: n) (simp_all add: div_mult2_eq)

lemma decpair_pair: "n < 100 \<Longrightarrow> decpair ! n = dec_fixed 2 n"
proof -
  have "list_all (\<lambda>n. decpair ! n = dec_fixed 2 n) [0..<100]" by code_simp
  then show "n < 100 \<Longrightarrow> decpair ! n = dec_fixed 2 n" by (auto simp: list_all_iff)
qed

text \<open>The two multiplications divide by 100 on their ranges.\<close>

lemma div100_correct: "n < 100000000 \<Longrightarrow> div100 (int n) = int (n div 100)"
proof -
  assume n: "n < 100000000"
  define k j where "k = n div 100" and "j = n mod 100"
  have kj: "n = 100 * k + j" "j < 100" "k < 1000000" using n by (auto simp: k_def j_def)
  have "(4 * k + 42949673 * j) div 4294967296 = 0" using kj by simp
  moreover have "n * 42949673 = (4 * k + 42949673 * j) + k * 4294967296" by (simp add: kj)
  ultimately have "(n * 42949673) div 4294967296 = k" by simp
  moreover have "u64 (int n * 42949673) = int n * 42949673" using n by (intro u64_id) auto
  ultimately have "drop_bit 32 (u64 (int n * 42949673)) = int k"
    by (simp add: drop_bit_eq_div flip: of_nat_mult of_nat_div)
  then show ?thesis using kj by (simp add: div100_def u32_id k_def [symmetric])
qed

lemma div100_small_correct: "n < 10000 \<Longrightarrow> div100_small (int n) = int (n div 100)"
proof -
  assume n: "n < 10000"
  define k j where "k = n div 100" and "j = n mod 100"
  have kj: "n = 100 * k + j" "j < 100" "k < 100" using n by (auto simp: k_def j_def)
  have "(12 * k + 5243 * j) div 524288 = 0" using kj by simp
  moreover have "n * 5243 = (12 * k + 5243 * j) + k * 524288" by (simp add: kj)
  ultimately have "(n * 5243) div 524288 = k" by simp
  moreover have "u32 (int n * 5243) = int n * 5243" using n by (intro u32_id) auto
  ultimately have "drop_bit 19 (u32 (int n * 5243)) = int k"
    by (simp add: drop_bit_eq_div flip: of_nat_mult of_nat_div)
  then show ?thesis by (simp add: div100_small_def k_def)
qed

lemma sub_mod: "int n - 100 * int (n div 100) = int (n mod 100)"
  by (simp add: minus_div_mult_eq_mod [symmetric] zmod_int zdiv_int algebra_simps)

lemma decpair_at_mod: "decpair ! nat (u32 (int (n mod 100))) = dec_fixed 2 n"
proof -
  have "u32 (int (n mod 100)) = int (n mod 100)" by (intro u32_id) (auto simp flip: of_nat_mod)
  then show ?thesis using decpair_pair [of "n mod 100"] dec_fixed_mod [of 2 n] by simp
qed

lemma out_r_digits: "n < 100 \<Longrightarrow> take (if int n < 10 then 1 else 2) (decpair ! nat (u32 (int n))) = dec_digits n"
proof -
  have "list_all (\<lambda>n. take (if int n < 10 then 1 else 2) (decpair ! nat (u32 (int n))) = dec_digits n) [0..<100]"
    by code_simp
  then show "n < 100 \<Longrightarrow> ?thesis" by (auto simp: list_all_iff)
qed

lemma two_digits: "100 \<le> n \<Longrightarrow> dec_digits n = dec_fixed 2 n @ dec_digits (n div 100)"
  using dec_digits_split [of 2 n] by simp

lemmas dec_steps = div100_correct div100_small_correct sub_mod decpair_at_mod out_r_digits

lemma put_dec_trunc8_digits:
  assumes n: "n < 100000000"
  shows "put_dec_trunc8 (int n) = dec_digits n"
proof -
  define q where "q = n div 100"
  define r where "r = q div 100"
  have b: "q < 1000000" "r < 10000" "r div 100 < 100" using n by (auto simp: q_def r_def)
  have d: "div100 (int n) = int q" "div100 (int q) = int r" "div100_small (int r) = int (r div 100)"
    using n b by (simp_all only: q_def r_def div100_correct div100_small_correct)
  have m: "int n - 100 * int q = int (n mod 100)" "int q - 100 * int r = int (q mod 100)"
    "int r - 100 * int (r div 100) = int (r mod 100)" by (simp_all only: q_def r_def sub_mod)
  consider "n < 100" | "100 \<le> n" "q < 100" | "100 \<le> n" "100 \<le> q" "r < 100" | "100 \<le> n" "100 \<le> q" "100 \<le> r"
    by linarith
  then show ?thesis
  proof cases
    case 1
    then show ?thesis by (simp only: put_dec_trunc8_def Let_def out_r_digits) simp
  next
    case 2
    then have "\<not> int n < 100" "int q < 100" by auto
    then show ?thesis using 2
      by (simp only: put_dec_trunc8_def Let_def d m if_True if_False decpair_at_mod out_r_digits two_digits [of n] q_def [symmetric])
  next
    case 3
    then have "\<not> int n < 100" "\<not> int q < 100" "int r < 100" by auto
    then show ?thesis using 3
      by (simp only: put_dec_trunc8_def Let_def d m if_True if_False decpair_at_mod out_r_digits two_digits [of n]
          two_digits [of q] q_def [symmetric] r_def [symmetric])
  next
    case 4
    then have "\<not> int n < 100" "\<not> int q < 100" "\<not> int r < 100" by auto
    then show ?thesis using 4 b
      by (simp only: put_dec_trunc8_def Let_def d m if_True if_False decpair_at_mod out_r_digits two_digits [of n]
          two_digits [of q] two_digits [of r] q_def [symmetric] r_def [symmetric])
  qed
qed

lemma put_dec_full8_digits:
  assumes n: "n < 100000000"
  shows "put_dec_full8 (int n) = dec_fixed 8 n"
proof -
  define q where "q = n div 100"
  define r where "r = q div 100"
  have b: "q < 1000000" "r < 10000" "r div 100 < 100" using n by (auto simp: q_def r_def)
  have d: "div100 (int n) = int q" "div100 (int q) = int r" "div100_small (int r) = int (r div 100)"
    using n b by (simp_all only: q_def r_def div100_correct div100_small_correct)
  have m: "int n - 100 * int q = int (n mod 100)" "int q - 100 * int r = int (q mod 100)"
    "int r - 100 * int (r div 100) = int (r mod 100)" by (simp_all only: q_def r_def sub_mod)
  have "int (r div 100) = int ((r div 100) mod 100)" using b(3) by simp
  then have l: "decpair ! nat (u32 (int (r div 100))) = dec_fixed 2 (r div 100)"
    using decpair_at_mod [of "r div 100"] by simp
  have "dec_fixed 8 n = dec_fixed 2 n @ dec_fixed 2 q @ dec_fixed 2 r @ dec_fixed 2 (r div 100)"
    using dec_fixed_add [of 2 6 n] dec_fixed_add [of 2 4 q] dec_fixed_add [of 2 2 r]
    by (simp add: q_def [symmetric] r_def [symmetric] del: dec_fixed.simps)
  then show ?thesis by (simp only: put_dec_full8_def Let_def d m decpair_at_mod l)
qed

lemma eight_digits:
  "100000000 \<le> n \<Longrightarrow> dec_digits n = dec_fixed 8 (n mod 100000000) @ dec_digits (n div 100000000)"
  using dec_digits_split [of 8 n] dec_fixed_mod [of 8 n] by simp

lemma put_dec_digits:
  assumes "n < 18446744073709551616"
  shows "put_dec (int n) = dec_digits n"
proof -
  define q where "q = n div 100000000"
  have b: "q < 184467440738" "q div 100000000 < 1845" using assms by (auto simp: q_def)
  have i: "int n div 100000000 = int q" "int q div 100000000 = int (q div 100000000)"
    "int n mod 100000000 = int (n mod 100000000)" "int q mod 100000000 = int (q mod 100000000)"
    by (simp_all add: q_def zdiv_int zmod_int)
  have t: "u32 (int k) = int k" if "k < 100000000" for k using that by (intro u32_id) auto
  consider "n < 100000000" | "100000000 \<le> n" "q < 100000000" | "100000000 \<le> n" "100000000 \<le> q" by linarith
  then show ?thesis
  proof cases
    case 1
    then show ?thesis by (simp add: put_dec_def t put_dec_trunc8_digits)
  next
    case 2
    then show ?thesis
      by (simp add: put_dec_def i t put_dec_trunc8_digits put_dec_full8_digits eight_digits [of n] q_def [symmetric] del: of_nat_mod)
  next
    case 3
    then show ?thesis using b
      by (simp add: put_dec_def i t put_dec_trunc8_digits put_dec_full8_digits eight_digits [of n] eight_digits [of q]
          q_def [symmetric] del: of_nat_mod)
  qed
qed

end
