(* ===== verification/Vsprintf_Safety.thy ===== *)
theory Vsprintf_Safety
  imports Vsprintf_Spec
begin

text \<open>
  Confinement: a function that writes formatted output advances the buffer pointer and writes only
  between the place where it started and the end of the buffer.
\<close>

section \<open>Writing inside the buffer\<close>

definition stays :: "addr \<Rightarrow> addr \<Rightarrow> mem \<times> addr \<Rightarrow> mem \<times> addr \<Rightarrow> bool" where
  "stays lo stop p p' \<longleftrightarrow>
     (lo \<le> snd p \<longrightarrow> unchanged_outside lo stop (fst p) (fst p') \<and> snd p \<le> snd p')"

lemma stays_refl [simp]: "stays lo stop p p"
  by (simp add: stays_def)

lemma stays_trans [trans]: "stays lo stop p q \<Longrightarrow> stays lo stop q r \<Longrightarrow> stays lo stop p r"
  unfolding stays_def by (meson order_trans unchanged_outside_trans)

lemma stays_emit [simp]: "stays lo stop p (emit stop c p)"
  by (cases p) (auto simp: stays_def emit_def)

lemma stays_emit_trans: "stays lo stop q p \<Longrightarrow> stays lo stop q (emit stop c p)"
  by (rule stays_trans [OF _ stays_emit])

lemma stays_emit_list [simp]: "stays lo stop p (emit_list stop cs p)"
proof (induction cs arbitrary: p)
  case (Cons c cs)
  show ?case using stays_trans [OF stays_emit Cons] by (simp add: emit_list_def)
qed (simp add: emit_list_def)

lemma stays_pad_while: "pad_while stop c w p = (w', p') \<Longrightarrow> stays lo stop p p'"
proof (induction stop c w p rule: pad_while.induct)
  case (1 stop c w p)
  show ?case
  proof (cases "w - 1 \<ge> 0")
    case True
    then have "stays lo stop (emit stop c p) p'"
      using "1.IH" [OF refl True] "1.prems" by (simp add: pad_while.simps [of stop c w])
    then show ?thesis by (rule stays_trans [OF stays_emit])
  next
    case False
    then show ?thesis using "1.prems" by (simp add: pad_while.simps [of stop c w])
  qed
qed

lemma stays_pad_char: "pad_char stop w p = (w', p') \<Longrightarrow> stays lo stop p p'"
proof (induction stop w p rule: pad_char.induct)
  case (1 stop w p)
  show ?case
  proof (cases "s24 (w - 1) > 0")
    case True
    then have "stays lo stop (emit stop 32 p) p'"
      using "1.IH" [OF refl True] "1.prems" by (simp add: pad_char.simps [of stop w])
    then show ?thesis by (rule stays_trans [OF stays_emit])
  next
    case False
    then show ?thesis using "1.prems" by (simp add: pad_char.simps [of stop w])
  qed
qed

lemma stays_snd_pad_while [simp]: "stays lo stop p (snd (pad_while stop c w p))"
  by (rule stays_pad_while [OF prod.collapse [symmetric]])

text \<open>Rules that walk through a chain of \<open>let\<close>s, keeping what is known of the buffer pointers.\<close>

lemma stays_Let: "(\<And>x. stays lo stop q (f x)) \<Longrightarrow> stays lo stop q (Let t f)"
  by (simp add: Let_def)

lemma stays_Let_out:
  "stays lo stop q t \<Longrightarrow> (\<And>p. stays lo stop q p \<Longrightarrow> stays lo stop q (f p)) \<Longrightarrow> stays lo stop q (Let t f)"
  by (simp add: Let_def)

lemma stays_Let_pair:
  "stays lo stop q (snd t) \<Longrightarrow> (\<And>w p. stays lo stop q p \<Longrightarrow> stays lo stop q (f w p)) \<Longrightarrow>
     stays lo stop q (Let t (\<lambda>(w, p). f w p))"
  by (simp add: Let_def case_prod_unfold)

lemma stays_Let_triple:
  "(\<And>a b c. stays lo stop q (f a b c)) \<Longrightarrow> stays lo stop q (Let t (\<lambda>(a, b, c). f a b c))"
  by (simp add: Let_def case_prod_unfold)

lemma stays_if: "(b \<Longrightarrow> stays lo stop q x) \<Longrightarrow> (\<not> b \<Longrightarrow> stays lo stop q y) \<Longrightarrow> stays lo stop q (if b then x else y)"
  by simp

lemma stays_snd_if:
  "stays lo stop q (snd x) \<Longrightarrow> stays lo stop q (snd y) \<Longrightarrow> stays lo stop q (snd (if b then x else y))"
  by simp

lemma stays_pad_trans: "stays lo stop q p \<Longrightarrow> stays lo stop q (snd (pad_while stop c w p))"
  by (rule stays_trans [OF _ stays_snd_pad_while])

lemma stays_emit_list_trans: "stays lo stop q p \<Longrightarrow> stays lo stop q (emit_list stop cs p)"
  by (rule stays_trans [OF _ stays_emit_list])

lemma stays_snd: "stays lo stop q p \<Longrightarrow> stays lo stop q (snd (w, p))"
  by simp

lemma stays_number [simp]: "stays lo stop p (number p stop num spec)"
  unfolding number_def
  by (rule stays_Let_pair stays_Let_out | rule stays_Let_triple | rule stays_Let | assumption | rule stays_refl
    | rule stays_pad_trans | rule stays_emit_list_trans | rule stays_emit_trans | rule stays_snd_if | rule stays_if
    | rule stays_snd)+

lemma stays_special_hex_number [simp]: "stays lo stop p (special_hex_number p stop num n)"
  by (simp add: special_hex_number_def)

lemma move_right_inside:
  "lo \<le> buf \<Longrightarrow> unchanged_outside lo stop m (move_right m buf stop len spaces)"
  unfolding move_right_def Let_def memset_fill memmove_copied copied_def
  by (auto simp: unchanged_outside_def of_nat_diff)

lemma stays_widen_string:
  assumes "0 \<le> n" "stays lo stop (m, buf) p" "lo \<le> buf \<Longrightarrow> snd p = buf + n"
  shows "stays lo stop (m, buf) (widen_string p n stop spec)"
proof -
  have "stays lo stop (m, buf) (move_right (fst p) (snd p - n) stop l k, snd p + j)" if "0 \<le> j" for l k j
    using assms that move_right_inside [of lo buf stop "fst p" l k]
    by (auto simp: stays_def intro: unchanged_outside_trans)
  moreover have "stays lo stop (m, buf) (emit_list stop cs p)" for cs
    by (rule stays_trans [OF assms(2) stays_emit_list])
  ultimately show ?thesis
    using assms(2) by (cases p) (simp add: widen_string_def Let_def)
qed

lemma emit_list_snd [simp]: "snd (emit_list stop cs p) = snd p + int (length cs)"
proof (induction cs arbitrary: p)
  case (Cons c cs)
  have "emit_list stop (c # cs) p = emit_list stop cs (emit stop c p)" by (simp add: emit_list_def)
  then show ?case using Cons by (cases p) (simp add: emit_def)
qed (simp add: emit_list_def)

lemma stays_literal_nocheck [simp]: "stays lo stop p (literal_nocheck p stop s spec)"
  unfolding literal_nocheck_def Let_def
  by (subst prod.collapse [of p, symmetric], rule stays_widen_string) simp_all

lemma stays_string_loop:
  "string_loop stop s lim len p = (len', p') \<Longrightarrow>
     stays lo stop p p' \<and> snd p' = snd p + (len' - len) \<and> len \<le> len'"
proof (induction stop s lim len p rule: string_loop.induct)
  case (1 stop s lim len p)
  show ?case
  proof (cases "lim \<noteq> 0 \<and> s < ADDR_LIMIT \<and> fst p s \<noteq> 0")
    case True
    then have "stays lo stop (emit stop (fst p s) p) p'
      \<and> snd p' = snd (emit stop (fst p s) p) + (len' - (len + 1)) \<and> len + 1 \<le> len'"
      using "1.IH" [OF True] "1.prems" by (simp add: string_loop.simps [of stop s])
    moreover have "snd (emit stop (fst p s) p) = snd p + 1" by (cases p) (simp add: emit_def)
    ultimately show ?thesis using stays_trans [OF stays_emit, of lo stop "fst p s" p p'] by simp
  next
    case False
    then have "len' = len" "p' = p" using "1.prems" by (simp_all only: string_loop.simps [of stop s] if_False prod.inject)
    then show ?thesis by simp
  qed
qed

lemma stays_string_nocheck [simp]: "stays lo stop p (string_nocheck p stop s spec)"
proof -
  obtain len q where "string_loop stop s (sp_precision spec) 0 p = (len, q)" by (rule prod.exhaust)
  with stays_string_loop [OF this, of lo] show ?thesis
    using stays_widen_string [of len lo stop "fst p" "snd p" q spec] by (simp add: string_nocheck_def)
qed

lemma stays_error_string [simp]: "stays lo stop p (error_string p stop s spec)"
  by (simp add: error_string_def)

lemma stays_check_pointer: "check_pointer p stop a spec = Some q \<Longrightarrow> stays lo stop p q"
  by (auto simp: check_pointer_def)

lemma stays_string [simp]: "stays lo stop p (string_i p stop s spec)"
  by (auto simp: string_i_def split: option.splits intro: stays_check_pointer)

lemma stays_pointer_string [simp]: "stays lo stop p (pointer_string p stop a spec)"
  by (simp add: pointer_string_def Let_def)

lemma stays_hex_string_loop [simp]: "stays lo stop p (hex_string_loop stop sep a n p)"
proof (induction n arbitrary: a p)
  case (Suc n)
  have "stays lo stop p (let p = emit stop (hex_asc_hi (fst p a)) p; p = emit stop (hex_asc_lo (fst p a)) p
      in if sep \<noteq> 0 \<and> n \<noteq> 0 then emit stop sep p else p)"
    unfolding Let_def by (intro stays_if stays_emit_trans stays_refl)
  from stays_trans [OF this Suc] show ?case by (simp add: Let_def)
qed simp

declare hex_string_loop.simps [simp del]

lemma stays_hex_string [simp]: "stays lo stop p (hex_string p stop a spec fmt)"
  by (auto simp: hex_string_def Let_def split: option.splits intro: stays_check_pointer)

lemma stays_mac_address_string [simp]: "stays lo stop p (mac_address_string p stop a spec fmt)"
  by (auto simp: mac_address_string_def Let_def simp del: upto.simps split: option.splits intro: stays_check_pointer)

lemma stays_pointer [simp]: "stays lo stop p (pointer_i fmt p stop a spec)"
  by (simp add: pointer_i_def Let_def default_pointer_def err_ptr_def)

section \<open>The formatter\<close>

lemma stays_vsnprintf_loop: "stays lo stop p (vsnprintf_loop stop fmt spec args p)"
proof (induction stop fmt spec args p rule: vsnprintf_loop.induct)
  case (1 stop fmt spec args p)
  show ?case
  proof (cases "fmt = []")
    case True
    then show ?thesis by (simp add: vsnprintf_loop.simps)
  next
    case False
    obtain spec' rest where d: "format_decode fmt spec = (spec', rest)" by fastforce
    obtain a args' where a: "va_arg args = (a, args')" by fastforce
    note IH = "1.IH" [OF False refl d [symmetric] refl]
    note unf = vsnprintf_loop.simps [of stop fmt spec args p] d a False
    show ?thesis
    proof (cases "sp_type spec'")
      case FORMAT_TYPE_NONE
      then show ?thesis using stays_trans [OF stays_emit_list IH(1)] by (simp add: unf)
    next
      case FORMAT_TYPE_WIDTH
      then show ?thesis using IH(2) [OF _ a [symmetric] refl] by (simp add: unf)
    next
      case FORMAT_TYPE_PRECISION
      then show ?thesis using IH(3) [OF _ a [symmetric] refl] by (simp add: unf)
    next
      case FORMAT_TYPE_CHAR
      obtain w p1 where p1: "(if sp_flags spec' AND LEFT = 0 then pad_char stop (sp_field_width spec') p
          else (sp_field_width spec', p)) = (w, p1)" by (rule prod.exhaust)
      obtain w2 p2 where p2: "pad_char stop w (emit stop (byte_of a) p1) = (w2, p2)" by (rule prod.exhaust)
      have "stays lo stop p p1" using p1 by (auto split: if_splits intro: stays_pad_char)
      also have "stays lo stop p1 p2" by (rule stays_trans [OF stays_emit stays_pad_char [OF p2]])
      also have "stays lo stop p2 (vsnprintf_loop stop rest (spec'\<lparr>sp_field_width := w2\<rparr>) args' p2)"
        by (rule IH(4) [OF FORMAT_TYPE_CHAR p1 [symmetric] refl a [symmetric] refl p2 [symmetric] refl])
      finally show ?thesis using FORMAT_TYPE_CHAR by (simp add: unf p1 p2)
    next
      case FORMAT_TYPE_STR
      then show ?thesis using stays_trans [OF stays_string IH(5) [OF _ a [symmetric] refl]] by (simp add: unf)
    next
      case FORMAT_TYPE_PTR
      then show ?thesis using stays_trans [OF stays_pointer IH(6) [OF _ a [symmetric] refl]] by (simp add: unf)
    next
      case FORMAT_TYPE_PERCENT_CHAR
      then show ?thesis using stays_trans [OF stays_emit IH(7)] by (simp add: unf)
    qed (simp_all add: unf IH(8-18) [OF _ a [symmetric] refl, THEN stays_trans [OF stays_number]])
  qed
qed


text \<open>What \<open>vsnprintf\<close> leaves: nothing is written outside the buffer, and a NUL inside it.\<close>

lemma vsnprintf_confined:
  assumes r: "vsnprintf m buf sz fmt args = (n, m')"
    and b: "0 \<le> buf" "0 < sz" "sz \<le> INT_MAX" "buf + sz < 18446744073709551616"
  shows "unchanged_outside buf (buf + sz) m m' \<and> (\<exists>i. buf \<le> i \<and> i < buf + sz \<and> m' i = 0)"
proof -
  have e: "u64 (buf + sz) = buf + sz" using b by (intro u64_id) auto
  obtain m1 pos where l: "vsnprintf_loop (buf + sz) fmt
      \<lparr>sp_type = FORMAT_TYPE_NONE, sp_field_width = 0, sp_flags = 0, sp_base = 0, sp_precision = 0\<rparr> args (m, buf)
      = (m1, pos)" by fastforce
  have s: "unchanged_outside buf (buf + sz) m m1" "buf \<le> pos"
    using stays_vsnprintf_loop [of buf "buf + sz" "(m, buf)" fmt, unfolded stays_def] l
    by (metis fst_conv order_refl snd_conv)+
  define q where "q = (if pos < buf + sz then pos else buf + sz - 1)"
  have "m' = m1(q := 0)" "buf \<le> q" "q < buf + sz"
    using r b s unfolding vsnprintf_def e Let_def by (auto simp: l q_def)
  then show ?thesis using s(1) by (auto simp: unchanged_outside_def intro: exI [of _ q])
qed


section \<open>A string with a precision\<close>

text \<open>The number of characters that \<open>string_nocheck\<close> takes.\<close>

definition taken :: "mem \<Rightarrow> addr \<Rightarrow> int \<Rightarrow> nat" where
  "taken m s lim = (if lim < 0 then strlen m s else min (nat lim) (strlen m s))"

lemma strlen_step:
  "strlen m s = (if s < ADDR_LIMIT \<and> m s \<noteq> 0 then Suc (strlen m (s + 1)) else 0)"
  by (subst strlen.simps) simp

lemma strlen_agree: "agree s (s + int (strlen m s) + 1) m m' \<Longrightarrow> strlen m' s = strlen m s"
proof (induction m s rule: strlen.induct)
  case (1 m s)
  have "m' s = m s" using "1.prems" by (auto simp: agree_def)
  show ?case
  proof (cases "s < ADDR_LIMIT \<and> m s \<noteq> 0")
    case True
    then have "strlen m' (s + 1) = strlen m (s + 1)"
      using "1.IH" [OF True] "1.prems" by (simp add: strlen_step [of m s] agree_def)
    then show ?thesis using True \<open>m' s = m s\<close> by (simp add: strlen_step [of _ s])
  next
    case False
    then show ?thesis using \<open>m' s = m s\<close> by (auto simp: strlen_step [of _ s])
  qed
qed

lemma string_loop_takes:
  assumes "b + int (taken m s lim) \<le> stop"
    and "b + int (taken m s lim) \<le> s \<or> s + int (strlen m s) + 1 \<le> b"
  shows "string_loop stop s lim len (m, b) =
    (len + int (taken m s lim), put_bytes m b (bytes_at m s (taken m s lim)), b + int (taken m s lim))"
  using assms
proof (induction stop s lim len "(m, b)" arbitrary: m b rule: string_loop.induct)
  case (1 stop s lim len m b)
  show ?case
  proof (cases "lim \<noteq> 0 \<and> s < ADDR_LIMIT \<and> m s \<noteq> 0")
    case True
    then have sl: "strlen m s = Suc (strlen m (s + 1))" by (simp add: strlen_step [of m s])
    then have tk: "taken m s lim = Suc (taken m (s + 1) (lim - 1))"
      using True by (auto simp: taken_def min_def nat_diff_distrib)
    define m1 where "m1 = m(b := m s)"
    have e: "emit stop (m s) (m, b) = (m1, b + 1)" using "1.prems" tk by (simp add: emit_def m1_def)
    have "agree (s + 1) (s + 1 + int (strlen m (s + 1)) + 1) m m1"
      if "s + int (strlen m s) + 1 \<le> b" using that sl by (auto simp: agree_def m1_def)
    moreover have "agree (s + 1) (s + 1 + int (strlen m (s + 1)) + 1) m m1"
      if "b + int (taken m s lim) \<le> s" using that tk by (auto simp: agree_def m1_def)
    ultimately have ag: "agree (s + 1) (s + 1 + int (strlen m (s + 1)) + 1) m m1" using "1.prems"(2) by blast
    then have s1: "strlen m1 (s + 1) = strlen m (s + 1)" by (rule strlen_agree)
    then have t1: "taken m1 (s + 1) (lim - 1) = taken m (s + 1) (lim - 1)" by (simp add: taken_def)
    have IH: "string_loop stop (s + 1) (lim - 1) (len + 1) (m1, b + 1) =
      (len + 1 + int (taken m1 (s + 1) (lim - 1)),
       put_bytes m1 (b + 1) (bytes_at m1 (s + 1) (taken m1 (s + 1) (lim - 1))),
       b + 1 + int (taken m1 (s + 1) (lim - 1)))"
      using "1.prems" tk sl True s1 t1 by (intro "1.hyps") (auto simp: e)
    have "bytes_at m1 (s + 1) (taken m (s + 1) (lim - 1)) = bytes_at m (s + 1) (taken m (s + 1) (lim - 1))"
      by (rule bytes_at_agree [OF agree_sym [OF ag]]) (auto simp: taken_def)
    moreover have "put_bytes m1 (b + 1) xs = put_bytes m b (m s # xs)" for xs
    proof (rule ext)
      fix x
      have "nat (x - b) - 1 = nat (x - (b + 1))" by simp
      then show "put_bytes m1 (b + 1) xs x = put_bytes m b (m s # xs) x"
        by (auto simp: m1_def put_bytes_def nth_Cons')
    qed
    ultimately show ?thesis
      using True IH t1 tk by (subst string_loop.simps) (simp add: e bytes_at_Suc)
  next
    case False
    then have "taken m s lim = 0" by (auto simp: taken_def strlen_step [of m s])
    then show ?thesis using False by (subst string_loop.simps) (auto simp: put_bytes_def fun_eq_iff)
  qed
qed

lemma vsnprintf_Nil: "vsnprintf_loop stop [] spec args p = p"
  by (simp add: vsnprintf_loop.simps)

lemma vsnprintf_precision:
  "format_decode fmt spec = (spec', rest) \<Longrightarrow> fmt \<noteq> [] \<Longrightarrow> sp_type spec' = FORMAT_TYPE_PRECISION \<Longrightarrow>
     vsnprintf_loop stop fmt spec (a # args) p = vsnprintf_loop stop rest (set_precision spec' (s32 a)) args p"
  by (simp add: vsnprintf_loop.simps [of stop fmt] va_arg_def)

lemma vsnprintf_str:
  "format_decode fmt spec = (spec', rest) \<Longrightarrow> fmt \<noteq> [] \<Longrightarrow> sp_type spec' = FORMAT_TYPE_STR \<Longrightarrow>
     vsnprintf_loop stop fmt spec (a # args) p = vsnprintf_loop stop rest spec' args (string_i p stop (u64 a) spec')"
  by (simp add: vsnprintf_loop.simps [of stop fmt] va_arg_def)

lemma snprintf_ls:
  assumes b: "0 \<le> buf" "0 < sz" "sz \<le> 32768" "buf + sz < 18446744073709551616"
    and s: "4096 \<le> s" "s < 18446744073709547521"
    and d: "buf + sz \<le> s \<or> s + int (strlen m s) + 1 \<le> buf"
  defines "k \<equiv> min (nat (sz - 1)) (strlen m s)"
  shows "snprintf m buf sz (str ''%.*ls'') [sz - 1, s] = (int k, put_bytes m buf (bytes_at m s k @ [0]))"
proof -
  define spec0 where "spec0 = \<lparr>sp_type = FORMAT_TYPE_NONE, sp_field_width = 0, sp_flags = 0, sp_base = 0, sp_precision = 0\<rparr>"
  define spec1 where "spec1 = \<lparr>sp_type = FORMAT_TYPE_PRECISION, sp_field_width = - 1, sp_flags = 0, sp_base = 0, sp_precision = - 1\<rparr>"
  define spec2 where "spec2 = \<lparr>sp_type = FORMAT_TYPE_STR, sp_field_width = - 1, sp_flags = 0, sp_base = 10, sp_precision = sz - 1\<rparr>"
  have f: "str ''%.*ls'' = [37, 46, 42, 108, 115]" by code_simp
  have f1: "format_decode [37, 46, 42, 108, 115] spec0 = (spec1, [108, 115])"
    unfolding spec0_def spec1_def by code_simp
  have p: "set_precision spec1 (s32 (sz - 1)) = spec1\<lparr>sp_precision := sz - 1\<rparr>"
    using b by (simp add: set_precision_def s32_id s16_def)
  have q: "read_qualifier [108, 115] = (108, [115])" by code_simp
  have f2: "format_decode [108, 115] (spec1\<lparr>sp_precision := sz - 1\<rparr>) = (spec2, [])"
    using b by (simp add: format_decode_def decode_conversion_def q spec1_def spec2_def Let_def)
  have k: "taken m s (sz - 1) = k" using b by (simp add: taken_def k_def)
  have e: "u64 s = s" "u64 (buf + sz) = buf + sz" using s b by (auto intro!: u64_id)
  have "check_pointer p' stop s spec2 = None" for p' stop
    using s by (simp add: check_pointer_def check_pointer_msg_def IS_ERR_VALUE_def u64_def)
  moreover have "string_loop (buf + sz) s (sz - 1) 0 (m, buf) = (int k, put_bytes m buf (bytes_at m s k), buf + int k)"
  proof -
    have "int k < sz" using b by (auto simp: k_def)
    then have "buf + int (taken m s (sz - 1)) \<le> buf + sz"
      "buf + int (taken m s (sz - 1)) \<le> s \<or> s + int (strlen m s) + 1 \<le> buf" using d unfolding k by auto
    from string_loop_takes [OF this, of 0] show ?thesis by (simp add: k)
  qed
  ultimately have "string_i (m, buf) (buf + sz) s spec2 = (put_bytes m buf (bytes_at m s k), buf + int k)"
    by (simp add: string_i_def string_nocheck_def widen_string_def spec2_def)
  then have l: "vsnprintf_loop (buf + sz) (str ''%.*ls'') spec0 [sz - 1, s] (m, buf)
      = (put_bytes m buf (bytes_at m s k), buf + int k)"
    unfolding f
    by (subst vsnprintf_precision [OF f1], simp, simp add: spec1_def, subst p, subst vsnprintf_str [OF f2])
      (simp_all add: spec2_def e vsnprintf_Nil)
  have "(put_bytes m buf (bytes_at m s k))(buf + int k := 0) = put_bytes m buf (bytes_at m s k @ [0])"
    by (auto simp: put_bytes_def fun_eq_iff nth_append)
  moreover have "int k < sz" "s32 (int k) = int k" using b by (auto simp: k_def intro!: s32_id)
  ultimately show ?thesis
    using b l by (simp add: snprintf_def vsnprintf_def e spec0_def Let_def)
qed

end
