(* ===== verification/Vsprintf_Numbers.thy ===== *)
theory Vsprintf_Numbers
  imports Vsprintf_Safety Efi_Spec
begin

text \<open>
  Printed numbers: what \<open>number\<close> writes for \<open>%lu\<close> and \<open>%lx\<close>, and that \<open>simple_strtoull\<close> reads it
  back.
\<close>

section \<open>Digits in a base\<close>

text \<open>The digits of a number, the last first.\<close>

function digs :: "nat \<Rightarrow> nat \<Rightarrow> nat list" where
  "digs b n = (if n < b \<or> b < 2 then [n] else n mod b # digs b (n div b))"
  by pat_completeness auto
termination by (relation "measure snd") auto

declare digs.simps [simp del]

lemma digs_less: "2 \<le> b \<Longrightarrow> d \<in> set (digs b n) \<Longrightarrow> d < b"
  by (induction b n rule: digs.induct) (subst (asm) (2) digs.simps, auto split: if_splits)

lemma digs_not_Nil [simp]: "digs b n \<noteq> []"
  by (subst digs.simps) simp

lemma digits_value_snoc: "digits_value base (ds @ [c]) = digits_value base ds * base + digit_value c"
  by (simp add: digits_value_def)

lemma digs_value:
  assumes "2 \<le> b" "\<And>d. d < b \<Longrightarrow> digit_value (f d) = int d"
  shows "digits_value (int b) (rev (map f (digs b n))) = int n"
  using assms
proof (induction b n rule: digs.induct)
  case (1 b n)
  show ?case
  proof (cases "n < b")
    case True
    then show ?thesis using "1.prems" by (simp add: digs.simps [of b n] digits_value_def)
  next
    case False
    then have "\<not> (n < b \<or> b < 2)" using "1.prems" by simp
    from "1.IH" [OF this "1.prems"] have IH: "digits_value (int b) (rev (map f (digs b (n div b)))) = int (n div b)" .
    have "digs b n = n mod b # digs b (n div b)" using False "1.prems" by (simp add: digs.simps [of b n])
    moreover have "int (n div b) * int b + int (n mod b) = int n"
      by (metis div_mult_mod_eq of_nat_add of_nat_mult)
    ultimately show ?thesis using "1.prems" IH by (simp add: digits_value_snoc)
  qed
qed

definition dec_char :: "nat \<Rightarrow> byte" where "dec_char d = byte_of (48 + int d)"
definition hex_char :: "nat \<Rightarrow> byte" where "hex_char d = hex_asc_upper ! d OR 32"

lemma dec_digits_digs: "dec_digits n = map dec_char (digs 10 n)"
proof (induction n rule: dec_digits.induct)
  case (1 n)
  then show ?case by (simp add: dec_digits.simps [of n] digs.simps [of 10 n] dec_char_def)
qed

lemma upt_all: "list_all P [0..<n] \<Longrightarrow> d < n \<Longrightarrow> P d"
  by (simp add: list_all_iff)

lemma dec_char_facts:
  "d < 10 \<Longrightarrow> isxdigit (dec_char d) \<and> digit_value (dec_char d) = int d \<and> dec_char d \<noteq> 0
     \<and> dec_char d = hex_asc_upper ! d OR 0"
proof -
  have "list_all (\<lambda>d. isxdigit (dec_char d) \<and> digit_value (dec_char d) = int d \<and> dec_char d \<noteq> 0
     \<and> dec_char d = hex_asc_upper ! d OR 0) [0..<10]" by code_simp
  then show "d < 10 \<Longrightarrow> ?thesis" by (rule upt_all)
qed

lemma hex_char_facts:
  "d < 16 \<Longrightarrow> isxdigit (hex_char d) \<and> digit_value (hex_char d) = int d \<and> hex_char d \<noteq> 0
     \<and> TOLOWER (hex_char d) \<noteq> 120"
proof -
  have "list_all (\<lambda>d. isxdigit (hex_char d) \<and> digit_value (hex_char d) = int d \<and> hex_char d \<noteq> 0
     \<and> TOLOWER (hex_char d) \<noteq> 120) [0..<16]" by code_simp
  then show "d < 16 \<Longrightarrow> ?thesis" by (rule upt_all)
qed

lemma digits_loop_hex: "0 < n \<Longrightarrow> digits_loop 15 4 32 (int n) = map hex_char (digs 16 n)"
proof (induction n rule: less_induct)
  case (less n)
  have d: "drop_bit 4 (int n) = int (n div 16)" by (simp add: drop_bit_eq_div zdiv_int)
  have "(int n mod 256) AND 15 = int (n mod 16)"
  proof -
    have "(int n mod 256) AND (2 ^ 4 - 1) = int n mod 256 mod 2 ^ 4" unfolding and_pow ..
    then show ?thesis by (simp add: mod_mod_cancel zmod_int)
  qed
  then have c: "hex_asc_upper ! nat ((int n mod 256) AND 15) OR 32 = hex_char (n mod 16)"
    by (simp add: hex_char_def)
  have u: "digits_loop 15 4 32 (int n) =
    (if 0 < n div 16 then hex_char (n mod 16) # digits_loop 15 4 32 (int (n div 16)) else [hex_char (n mod 16)])"
    by (subst digits_loop.simps) (simp only: Let_def c d, simp)
  show ?case
  proof (cases "n < 16")
    case True
    then show ?thesis by (simp add: u digs.simps [of 16 n])
  next
    case False
    then have "0 < n div 16" "n div 16 < n" by auto
    then show ?thesis using less.IH [of "n div 16"] False by (simp add: u digs.simps [of 16 n])
  qed
qed

section \<open>Plain numbers\<close>

lemma pad_none: "w \<le> 0 \<Longrightarrow> pad_while stop c w p = (w - 1, p)"
  by (simp add: pad_while.simps)

lemma emit_list_put:
  "b + int (length cs) \<le> stop \<Longrightarrow> emit_list stop cs (m, b) = (put_bytes m b cs, b + int (length cs))"
proof (induction cs arbitrary: m b)
  case Nil
  then show ?case by (auto simp: emit_list_def put_bytes_def fun_eq_iff)
next
  case (Cons c cs)
  have "put_bytes (m(b := c)) (b + 1) cs = put_bytes m b (c # cs)"
  proof (rule ext)
    fix x
    have "nat (x - b) - 1 = nat (x - (b + 1))" by simp
    then show "put_bytes (m(b := c)) (b + 1) cs x = put_bytes m b (c # cs) x"
      by (auto simp: put_bytes_def nth_Cons')
  qed
  then show ?case using Cons.IH [of "b + 1" "m(b := c)"] Cons.prems by (simp add: emit_list_def emit_def del: fun_upd_apply)
qed

abbreviation (input) plain_spec :: "format_type \<Rightarrow> int \<Rightarrow> int \<Rightarrow> printf_spec" where
  "plain_spec t fl b \<equiv> \<lparr>sp_type = t, sp_field_width = - 1, sp_flags = fl, sp_base = b, sp_precision = - 1\<rparr>"

lemma number_dec:
  assumes n: "n < 18446744073709551616"
  shows "number p stop (int n) (plain_spec t 0 10) = emit_list stop (rev (map dec_char (digs 10 n))) p"
proof -
  have t: "(if int n < 10 then [hex_asc_upper ! n OR 0] else put_dec (int n)) = map dec_char (digs 10 n)"
    using dec_char_facts [of n] put_dec_digits [OF n] by (auto simp: dec_digits_digs digs.simps [of 10 n])
  show ?thesis
    by (cases "n < 10") (use t in \<open>simp_all add: number_def Let_def pad_none emit_list_def\<close>)
qed

lemma number_hex:
  "number p stop (int n) (plain_spec t 32 16) = emit_list stop (rev (map hex_char (digs 16 n))) p"
proof -
  have t: "(if int n < 16 then [hex_asc_upper ! n OR 32] else digits_loop 15 4 32 (int n)) = map hex_char (digs 16 n)"
    using digits_loop_hex [of n] by (auto simp: digs.simps [of 16 n] hex_char_def)
  show ?thesis
    by (cases "n < 16") (use t in \<open>simp_all add: number_def Let_def pad_none emit_list_def\<close>)
qed


text \<open>At most as many digits as the power of the base says.\<close>

lemma digs_length: "2 \<le> b \<Longrightarrow> n < b ^ Suc k \<Longrightarrow> length (digs b n) \<le> Suc k"
proof (induction k arbitrary: n)
  case 0
  then show ?case by (simp add: digs.simps)
next
  case (Suc k)
  then have "n div b < b ^ Suc k" by (simp add: less_mult_imp_div_less mult.commute)
  then show ?case using Suc by (subst digs.simps) simp
qed

lemma vsnprintf_integer:
  assumes "format_decode fmt spec = (spec', rest)" "fmt \<noteq> []" "sp_type spec' = FORMAT_TYPE_ULONG"
  shows "vsnprintf_loop stop fmt spec (a # args) p = vsnprintf_loop stop rest spec' args (number p stop (u64 a) spec')"
  using assms by (simp add: vsnprintf_loop.simps [of stop fmt] va_arg_def integer_arg_def)

lemma snprintf_lu_lx:
  assumes b: "0 \<le> buf" "buf + 24 < 18446744073709551616" and n: "n < 18446744073709551616"
  shows "snd (snprintf m buf 24 (str ''%lu'') [int n]) = put_bytes m buf (rev (map dec_char (digs 10 n)) @ [0])"
    and "snd (snprintf m buf 24 (str ''%lx'') [int n]) = put_bytes m buf (rev (map hex_char (digs 16 n)) @ [0])"
proof -
  define spec0 where "spec0 = \<lparr>sp_type = FORMAT_TYPE_NONE, sp_field_width = 0, sp_flags = 0, sp_base = 0, sp_precision = 0\<rparr>"
  have f: "str ''%lu'' = [37, 108, 117]" "str ''%lx'' = [37, 108, 120]" by code_simp+
  have d: "format_decode [37, 108, 117] spec0 = (plain_spec FORMAT_TYPE_ULONG 0 10, [])"
    "format_decode [37, 108, 120] spec0 = (plain_spec FORMAT_TYPE_ULONG 32 16, [])"
    unfolding spec0_def by code_simp+
  have e: "u64 (buf + 24) = buf + 24" "u64 (int n) = int n" using b n by (auto intro!: u64_id)
  have l: "length (digs 10 n) \<le> 20" "length (digs 16 n) \<le> 16"
    using digs_length [of 10 n 19] digs_length [of 16 n 15] n by simp_all
  define ds where "ds = rev (map dec_char (digs 10 n))"
  define hs where "hs = rev (map hex_char (digs 16 n))"
  have dh: "length ds \<le> 20" "length hs \<le> 16" using l by (simp_all add: ds_def hs_def)
  have "vsnprintf_loop (buf + 24) (str ''%lu'') spec0 [int n] (m, buf) = (put_bytes m buf ds, buf + int (length ds))"
    "vsnprintf_loop (buf + 24) (str ''%lx'') spec0 [int n] (m, buf) = (put_bytes m buf hs, buf + int (length hs))"
    unfolding f using dh
    by (simp_all add: vsnprintf_integer [OF d(1)] vsnprintf_integer [OF d(2)] vsnprintf_Nil e number_dec [OF n] number_hex
        emit_list_put flip: ds_def hs_def)
  moreover have "(put_bytes m buf cs)(buf + int (length cs) := 0) = put_bytes m buf (cs @ [0])" for cs
    by (auto simp: put_bytes_def fun_eq_iff nth_append)
  ultimately have "snd (snprintf m buf 24 (str ''%lu'') [int n]) = put_bytes m buf (ds @ [0])"
    "snd (snprintf m buf 24 (str ''%lx'') [int n]) = put_bytes m buf (hs @ [0])"
    using b dh by (simp_all add: snprintf_def vsnprintf_def e spec0_def [symmetric] Let_def)
  then show "snd (snprintf m buf 24 (str ''%lu'') [int n]) = put_bytes m buf (rev (map dec_char (digs 10 n)) @ [0])"
    "snd (snprintf m buf 24 (str ''%lx'') [int n]) = put_bytes m buf (rev (map hex_char (digs 16 n)) @ [0])"
    by (simp_all add: ds_def hs_def)
qed

text \<open>The string that lies at a place where one was written.\<close>

lemma cstr_put:
  assumes "0 \<le> p" "p + int (length cs) < ADDR_LIMIT" "0 \<notin> set cs"
  shows "cstr (put_bytes m p (cs @ [0])) p = cs"
proof -
  have "strlen (put_bytes m p (xs @ cs @ [0])) (p + int (length xs)) = length cs" if "p + int (length (xs @ cs)) < ADDR_LIMIT" for xs
    using that assms(3)
  proof (induction cs arbitrary: xs)
    case Nil
    then show ?case by (subst strlen_step) (simp add: put_bytes_def nth_append)
  next
    case (Cons c cs)
    have "put_bytes m p (xs @ (c # cs) @ [0]) (p + int (length xs)) = c" by (simp add: put_bytes_def nth_append)
    then show ?case using Cons.IH [of "xs @ [c]"] Cons.prems assms(1)
      by (subst strlen_step) (simp add: add.assoc add.commute [of 1])
  qed
  from this [of "[]"] have l: "strlen (put_bytes m p (cs @ [0])) p = length cs" using assms(2) by simp
  show ?thesis unfolding cstr_def l
    by (rule nth_equalityI) (auto simp: put_bytes_def nth_append)
qed

lemma strtoull_all_digits:
  assumes "2 \<le> base" "base \<le> 16" "\<And>c. c \<in> set ds \<Longrightarrow> isxdigit c \<and> digit_value c < base \<and> TOLOWER c \<noteq> 120"
  shows "simple_strtoull ds base = (u64 (digits_value base ds), [])"
proof -
  have "TOLOWER (deref (tl ds)) \<noteq> 120"
  proof (cases "tl ds")
    case Nil
    then show ?thesis by (simp add: TOLOWER_def)
  next
    case (Cons c cs)
    then have "c \<in> set ds" by (cases ds) auto
    then show ?thesis using assms(3) Cons by simp
  qed
  moreover have "takeWhile (\<lambda>c. isxdigit c \<and> digit_value c < base) ds = ds"
    "dropWhile (\<lambda>c. isxdigit c \<and> digit_value c < base) ds = []" using assms(3) by (auto simp: takeWhile_eq_all_conv)
  ultimately show ?thesis using simple_strtoull_value [of base ds] assms(1,2) by (simp only:) simp
qed

lemma printed_number_parses:
  assumes b: "0 \<le> buf" "buf + 24 < 18446744073709551616" and n: "n < 18446744073709551616"
  shows "simple_strtoull (cstr (snd (snprintf m buf 24 (str ''%lu'') [int n])) buf) 10 = (int n, [])"
    and "simple_strtoull (cstr (snd (snprintf m buf 24 (str ''%lx'') [int n])) buf) 16 = (int n, [])"
proof -
  have u: "u64 (int n) = int n" using n by (intro u64_id) auto
  have t: "TOLOWER (dec_char d) \<noteq> 120" if "d < 10" for d
  proof -
    have "list_all (\<lambda>d. TOLOWER (dec_char d) \<noteq> 120) [0..<10]" by code_simp
    then show ?thesis using that by (rule upt_all)
  qed
  have d: "c \<in> set (rev (map dec_char (digs 10 n))) \<Longrightarrow> isxdigit c \<and> digit_value c < 10 \<and> TOLOWER c \<noteq> 120 \<and> c \<noteq> 0" for c
    using digs_less [of 10 _ n] dec_char_facts t by fastforce
  have h: "c \<in> set (rev (map hex_char (digs 16 n))) \<Longrightarrow> isxdigit c \<and> digit_value c < 16 \<and> TOLOWER c \<noteq> 120 \<and> c \<noteq> 0" for c
    using digs_less [of 16 _ n] hex_char_facts by fastforce
  have l: "length (digs 10 n) \<le> 20" "length (digs 16 n) \<le> 16"
    using digs_length [of 10 n 19] digs_length [of 16 n 15] n by simp_all
  have "cstr (snd (snprintf m buf 24 (str ''%lu'') [int n])) buf = rev (map dec_char (digs 10 n))"
    unfolding snprintf_lu_lx [OF b n] using b l d by (intro cstr_put) auto
  then show "simple_strtoull (cstr (snd (snprintf m buf 24 (str ''%lu'') [int n])) buf) 10 = (int n, [])"
    using strtoull_all_digits [of 10 "rev (map dec_char (digs 10 n))"] d digs_value [of 10 dec_char n, OF _ dec_char_facts [THEN conjunct2, THEN conjunct1]] u by simp
  have "cstr (snd (snprintf m buf 24 (str ''%lx'') [int n])) buf = rev (map hex_char (digs 16 n))"
    unfolding snprintf_lu_lx [OF b n] using b l h by (intro cstr_put) auto
  then show "simple_strtoull (cstr (snd (snprintf m buf 24 (str ''%lx'') [int n])) buf) 16 = (int n, [])"
    using strtoull_all_digits [of 16 "rev (map hex_char (digs 16 n))"] h digs_value [of 16 hex_char n, OF _ hex_char_facts [THEN conjunct2, THEN conjunct1]] u by simp
qed

end
