(* ===== verification/Format_Properties.thy ===== *)
theory Format_Properties
  imports Vsprintf_Numbers
begin

text \<open>
  The properties of the formatted output, each with an instance at concrete arguments.
\<close>

text \<open>
  C22: for any format and any arguments \<open>vsnprintf\<close> writes nowhere outside the given buffer, and leaves
  a terminating NUL in it.
\<close>

theorem vsnprintf_stays_inside:
  assumes "vsnprintf m buf sz fmt args = (n, m')"
    and "0 \<le> buf" "0 < sz" "sz \<le> INT_MAX" "buf + sz < 18446744073709551616"
  shows "unchanged_outside buf (buf + sz) m m' \<and> (\<exists>i. buf \<le> i \<and> i < buf + sz \<and> m' i = 0)"
  by (rule vsnprintf_confined [OF assms])

theorem vsnprintf_stays_inside_witness:
  "snd (vsnprintf (\<lambda>_. 1) 4096 8 (str ''%20d %s'') [- 5, 0]) 4104 = 1"
  using vsnprintf_stays_inside [of "\<lambda>_. 1" 4096 8 "str ''%20d %s''" "[- 5, 0]", OF prod.collapse [symmetric]]
  by (simp add: unchanged_outside_def)

text \<open>
  The division-free \<open>put_dec\<close> computes the decimal digits of every 64-bit number, the last first,
  as the loop that divides by ten does.
\<close>

theorem put_dec_is_decimal:
  assumes "n < 18446744073709551616"
  shows "put_dec (int n) = dec_digits n"
  by (rule put_dec_digits [OF assms])

theorem put_dec_is_decimal_witness:
  "put_dec 18446744073709551615 = dec_digits 18446744073709551615"
  using put_dec_is_decimal [of 18446744073709551615] by simp

text \<open>
  C24: a number printed by \<open>%lu\<close> or \<open>%lx\<close> is read back by \<open>simple_strtoull\<close> in the base it was
  printed in, to the last character.
\<close>

theorem printed_number_reads_back:
  assumes "0 \<le> buf" "buf + 24 < 18446744073709551616" "n < 18446744073709551616"
  shows "simple_strtoull (cstr (snd (snprintf m buf 24 (str ''%lu'') [int n])) buf) 10 = (int n, [])
    \<and> simple_strtoull (cstr (snd (snprintf m buf 24 (str ''%lx'') [int n])) buf) 16 = (int n, [])"
  by (rule conjI [OF printed_number_parses [OF assms]])

theorem printed_number_reads_back_witness:
  "simple_strtoull (cstr (snd (snprintf (\<lambda>_. 7) 4096 24 (str ''%lx'') [3735928559])) 4096) 16 = (3735928559, [])"
  using printed_number_reads_back [of 4096 3735928559 "\<lambda>_. 7"] by simp

end
