(* ===== verification/Helper.thy ===== *)
theory Helper
  imports Elf_Spec Vsprintf Fdt_Ro
begin

text \<open>
  The helpers of the stub: \<open>apps/helper.c\<close>, \<open>apps/secureboot.c\<close>, \<open>apps/random.c\<close> and the search for
  the boot hart of \<open>apps/riscv-stub.c\<close>.

  The state of the stub extends that of its calls to the firmware by the global variables of these
  files. An operation takes the firmware and the state and returns the new state; where a loop of
  the program may not end its result is optional. Messages to the console are left out.
\<close>

section \<open>State\<close>

record 'w stub = "'w efi" +
  opts :: efi_options
  hartid :: int
  image_base :: int
  image_size :: int
  image_end :: int
  virtmap_base :: int
  system_table :: addr

definition EFI_TCG2_PROTOCOL_GUID :: guid where
  "EFI_TCG2_PROTOCOL_GUID = MAKE_EFI_GUID 0x607f766c 0x7455 0x42be [0x93, 0x0b, 0xe4, 0xd7, 0x6d, 0xb2, 0x72, 0x0f]"
definition EFI_GLOBAL_VARIABLE_GUID :: guid where
  "EFI_GLOBAL_VARIABLE_GUID = MAKE_EFI_GUID 0x8be4df61 0x93ca 0x11d2 [0xaa, 0x0d, 0x00, 0xe0, 0x98, 0x03, 0x2b, 0x8c]"
definition EFI_SHIM_LOCK_GUID :: guid where
  "EFI_SHIM_LOCK_GUID = MAKE_EFI_GUID 0x605dab50 0xe046 0x4300 [0xab, 0xb6, 0x3d, 0xd8, 0x10, 0xdd, 0x8b, 0x23]"
definition EFI_RNG_PROTOCOL_GUID :: guid where
  "EFI_RNG_PROTOCOL_GUID = MAKE_EFI_GUID 0x3152bca5 0xeade 0x433d [0x86, 0x2e, 0xc0, 0x1c, 0xdc, 0x29, 0x1f, 0x44]"
definition DEVICE_TREE_GUID :: guid where
  "DEVICE_TREE_GUID = MAKE_EFI_GUID 0xb1b621d5 0xf19c 0x41a5 [0x83, 0x0b, 0xd9, 0x15, 0x2c, 0x69, 0xaa, 0xe0]"
definition RISCV_EFI_BOOT_PROTOCOL_GUID :: guid where
  "RISCV_EFI_BOOT_PROTOCOL_GUID = MAKE_EFI_GUID 0xccd15fec 0x6f73 0x4eec [0x83, 0x95, 0x3e, 0x69, 0xe4, 0xb9, 0x40, 0xbf]"

section \<open>Measuring the command line\<close>

datatype efistub_event = EFISTUB_EVT_INITRD | EFISTUB_EVT_LOAD_OPTIONS

text \<open>\<open>pcr_index\<close>, \<open>event_id\<close> and \<open>event_data\<close>, whose length with the NUL is \<open>event_data_len\<close>.\<close>

definition events :: "efistub_event \<Rightarrow> int \<times> int \<times> byte list" where
  "events e =
     (case e of
        EFISTUB_EVT_INITRD \<Rightarrow> (9, 0x8F3B22EC, str ''Linux initrd'' @ [0])
      | EFISTUB_EVT_LOAD_OPTIONS \<Rightarrow> (9, 0x8F3B22ED, str ''LOADED_IMAGE::LoadOptions'' @ [0]))"

text \<open>
  \<open>struct efi_tcg2_event\<close> and \<open>struct efi_tcg2_tagged_event\<close> are packed: 18 and 8 bytes, the header
  of the event 14 of the former.
\<close>

abbreviation (input) SIZEOF_MEASURED_EVENT :: int where "SIZEOF_MEASURED_EVENT \<equiv> 26"
abbreviation (input) SIZEOF_EVENT_HEADER :: int where "SIZEOF_EVENT_HEADER \<equiv> 14"
abbreviation (input) EV_EVENT_TAG :: int where "EV_EVENT_TAG \<equiv> 6"
abbreviation (input) EFI_TCG2_EVENT_HEADER_VERSION :: int where "EFI_TCG2_EVENT_HEADER_VERSION \<equiv> 1"

definition fill_event :: "mem \<Rightarrow> addr \<Rightarrow> int \<Rightarrow> int \<Rightarrow> int \<Rightarrow> byte list \<Rightarrow> mem" where
  "fill_event m evt size0 pcr_index event_id event_data =
     (let m = st_le m evt 4 size0; m = st_le m (evt + 4) 4 SIZEOF_EVENT_HEADER;
          m = st_le m (evt + 8) 2 EFI_TCG2_EVENT_HEADER_VERSION; m = st_le m (evt + 10) 4 pcr_index;
          m = st_le m (evt + 14) 4 EV_EVENT_TAG; m = st_le m (evt + 18) 4 event_id;
          m = st_le m (evt + 22) 4 (int (length event_data))
      in put_bytes m (evt + 26) event_data)"

definition efi_measure_tagged_event ::
  "'w firmware \<Rightarrow> addr \<Rightarrow> int \<Rightarrow> efistub_event \<Rightarrow> ('w, 'z) efi_scheme \<Rightarrow> int \<times> ('w, 'z) efi_scheme" where
  "efi_measure_tagged_event fw load_addr load_size event s =
     (case efi_bs_call fw (LocateProtocol EFI_TCG2_PROTOCOL_GUID) s of
        (r, s) \<Rightarrow>
          (let tcg2 = out r
           in if tcg2 \<noteq> 0 then
                (case events event of
                   (pcr_index, event_id, event_data) \<Rightarrow>
                     (let size0 = SIZEOF_MEASURED_EVENT + int (length event_data)
                      in case efi_bs_call fw (AllocatePool EfiLoaderData size0) s of
                           (r, s) \<Rightarrow>
                             if status r \<noteq> EFI_SUCCESS then (status r, s)
                             else
                               (let evt = out r;
                                    s = s\<lparr>memory := fill_event (memory s) evt size0 pcr_index event_id event_data\<rparr>
                                in case efi_bs_call fw (HashLogExtendEvent tcg2 0 load_addr load_size evt) s of
                                     (r, s) \<Rightarrow>
                                       (let s = snd (efi_bs_call fw (FreePool evt) s)
                                        in if status r \<noteq> EFI_SUCCESS then (status r, s) else (EFI_SUCCESS, s)))))
              else (EFI_UNSUPPORTED, s)))"

section \<open>The command line\<close>

text \<open>The fields of the loaded image that the stub reads.\<close>

definition LoadOptionsSize :: "mem \<Rightarrow> addr \<Rightarrow> int" where "LoadOptionsSize m loaded_image = ld_le m (loaded_image + 48) 4"
definition LoadOptions :: "mem \<Rightarrow> addr \<Rightarrow> addr" where "LoadOptions m loaded_image = ld_le m (loaded_image + 56) 8"
definition ImageBase :: "mem \<Rightarrow> addr \<Rightarrow> int" where "ImageBase m loaded_image = ld_le m (loaded_image + 64) 8"
definition ImageSize :: "mem \<Rightarrow> addr \<Rightarrow> int" where "ImageSize m loaded_image = ld_le m (loaded_image + 72) 8"

text \<open>The workaround is for \<open>CONFIG_X86\<close> only: elsewhere the function returns at once.\<close>

definition efi_apply_loadoptions_quirk :: "addr \<Rightarrow> int \<Rightarrow> addr \<times> int" where
  "efi_apply_loadoptions_quirk load_options load_options_size = (load_options, load_options_size)"

text \<open>
  The loop that counts the UTF-8 bytes: \<open>options_bytes\<close> and \<open>safe_options_bytes\<close> at its end.
\<close>

function scan_options :: "mem \<Rightarrow> addr \<Rightarrow> int \<Rightarrow> int \<Rightarrow> bool \<Rightarrow> nat \<Rightarrow> int \<times> int" where
  "scan_options m s2 options_bytes safe_options_bytes in_quote options_chars =
     (if options_bytes < int COMMAND_LINE_SIZE \<and> options_chars \<noteq> 0 then
        (let options_chars = options_chars - 1; c = ld_le m s2 2; s2 = s2 + 2
         in if c < 0x80 then
              (if c = 0 \<or> c = 10 then (options_bytes, safe_options_bytes)
               else
                 (let (in_quote, safe_options_bytes) =
                        (if c = 34 then (\<not> in_quote, safe_options_bytes)
                         else if \<not> in_quote \<and> isspace (byte_of c) then (in_quote, options_bytes)
                         else (in_quote, safe_options_bytes))
                  in scan_options m s2 (options_bytes + 1) safe_options_bytes in_quote options_chars))
            else
              (let options_bytes = options_bytes + 2 + (if c \<ge> 0x800 then 1 else 0)
               in if c AND 0xfc00 = 0xd800 then
                    (if options_chars = 0
                     then scan_options m s2 (options_bytes - 3) safe_options_bytes in_quote options_chars
                     else if ld_le m s2 2 AND 0xfc00 = 0xdc00
                     then scan_options m (s2 + 2) (options_bytes + 1) safe_options_bytes in_quote (options_chars - 1)
                     else scan_options m s2 options_bytes safe_options_bytes in_quote options_chars)
                  else scan_options m s2 options_bytes safe_options_bytes in_quote options_chars))
      else (options_bytes, safe_options_bytes))"
  by pat_completeness auto
termination by (relation "measure (\<lambda>(m, s2, b, safe, q, n). n)") auto

declare scan_options.simps [simp del]

text \<open>\<open>None\<close> is the null pointer; otherwise the string and \<open>*cmd_line_len\<close>.\<close>

definition efi_convert_cmdline ::
  "'w firmware \<Rightarrow> addr \<Rightarrow> ('w, 'z) efi_scheme \<Rightarrow> (addr \<times> int) option \<times> ('w, 'z) efi_scheme" where
  "efi_convert_cmdline fw loaded_image s =
     (let options = LoadOptions (memory s) loaded_image;
          options_size = LoadOptionsSize (memory s) loaded_image;
          s = (if options_size > 0
               then snd (efi_measure_tagged_event fw options options_size EFISTUB_EVT_LOAD_OPTIONS s) else s);
          (options, options_size) = efi_apply_loadoptions_quirk options options_size;
          options_chars = nat (options_size div 2);
          options_bytes =
            (if options \<noteq> 0 then
               (case scan_options (memory s) options 0 0 False options_chars of
                  (options_bytes, safe_options_bytes) \<Rightarrow>
                    if options_bytes \<ge> int COMMAND_LINE_SIZE then safe_options_bytes else options_bytes)
             else 0) + 1
      in case efi_bs_call fw (AllocatePool EfiLoaderData options_bytes) s of
           (r, s) \<Rightarrow>
             if status r \<noteq> EFI_SUCCESS then (None, s)
             else
               (let cmdline_addr = out r;
                    m = snd (snprintf (memory s) cmdline_addr options_bytes (str ''%.*ls'') [options_bytes - 1, options])
                in (Some (cmdline_addr, options_bytes), s\<lparr>memory := m\<rparr>)))"

text \<open>
  The options are parsed in the copy \<open>buf\<close>, which \<open>next_arg\<close> also writes to; \<open>parse_cmdline\<close> does so
  on the list of its bytes, and \<open>buf\<close> is freed behind it.
\<close>

definition efi_parse_options ::
  "'w firmware \<Rightarrow> addr \<Rightarrow> ('w, 'z) stub_scheme \<Rightarrow> int \<times> ('w, 'z) stub_scheme" where
  "efi_parse_options fw cmdline s =
     (if cmdline = 0 then (EFI_SUCCESS, s)
      else
        (let len = int (strnlen (memory s) cmdline (COMMAND_LINE_SIZE - 1)) + 1
         in case efi_bs_call fw (AllocatePool EfiLoaderData len) s of
              (r, s) \<Rightarrow>
                if status r \<noteq> EFI_SUCCESS then (status r, s)
                else
                  (let buf = out r;
                       m = memcpy (memory s) buf cmdline (nat (len - 1));
                       m = m(buf + (len - 1) := 0);
                       s = s\<lparr>memory := m, opts := parse_cmdline (cstr m buf) (opts s)\<rparr>;
                       s = snd (efi_bs_call fw (FreePool buf) s)
                   in (EFI_SUCCESS, s))))"

section \<open>Configuration tables\<close>

definition efi_guidcmp :: "guid \<Rightarrow> guid \<Rightarrow> bool" where
  "efi_guidcmp left right \<longleftrightarrow> left \<noteq> right"

fun config_table_loop :: "mem \<Rightarrow> addr \<Rightarrow> guid \<Rightarrow> nat \<Rightarrow> addr" where
  "config_table_loop m tables guid 0 = 0"
| "config_table_loop m tables guid (Suc n) =
     (if \<not> efi_guidcmp (bytes_at m tables 16) guid then ld_le m (tables + 16) 8
      else config_table_loop m (tables + 24) guid n)"

definition get_efi_config_table :: "guid \<Rightarrow> ('w, 'z) stub_scheme \<Rightarrow> addr" where
  "get_efi_config_table guid s =
     (let tables = ld_le (memory s) (system_table s + 112) 8;
          nr_tables = s32 (ld_le (memory s) (system_table s + 104) 8)
      in config_table_loop (memory s) tables guid (nat nr_tables))"

section \<open>Leaving the boot services\<close>

text \<open>
  The callback works on the map and on private data. It may fail to end, and so may the function:
  with \<open>efi=disable_early_pci_dma\<close> on the command line it ends up in \<open>efi_todo\<close> (\<open>printk.h\<close>), which
  loops for ever, before its first call.
\<close>

type_synonym ('p, 's) map_processing = "addr \<Rightarrow> 'p \<Rightarrow> 's \<Rightarrow> (int \<times> 'p \<times> 's) option"

definition efi_exit_boot_services ::
  "'w firmware \<Rightarrow> int \<Rightarrow> 'p \<Rightarrow> ('p, ('w, 'z) stub_scheme) map_processing \<Rightarrow> ('w, 'z) stub_scheme \<Rightarrow>
   (int \<times> 'p \<times> ('w, 'z) stub_scheme) option" where
  "efi_exit_boot_services fw handle priv priv_func s =
     (if efi_disable_pci_dma (opts s) then None
      else case efi_get_memory_map fw 0 True s of
        (st, map0, s) \<Rightarrow>
          if st \<noteq> EFI_SUCCESS then Some (st, priv, s)
          else do {
            (st, priv, s) \<leftarrow> priv_func map0 priv s;
            if st \<noteq> EFI_SUCCESS then Some (st, priv, snd (efi_bs_call fw (FreePool map0) s))
            else
              (case efi_bs_call fw (ExitBootServices handle (mm_map_key (memory s) map0)) s of
                 (r, s) \<Rightarrow>
                   if status r = EFI_INVALID_PARAMETER then
                     (let s = s\<lparr>memory := st_le (memory s) map0 8 (mm_buff_size (memory s) map0)\<rparr>
                      in case efi_bs_call fw (GetMemoryMap (mm_map_size (memory s) map0)
                                 (Some (map0 + SIZEOF_BOOT_MEMMAP))) s of
                           (r, s) \<Rightarrow>
                             (let s = s\<lparr>memory := store_map_reply r map0 (memory s)\<rparr>
                              in if status r \<noteq> EFI_SUCCESS then Some (status r, priv, s)
                                 else do {
                                   (st, priv, s) \<leftarrow> priv_func map0 priv s;
                                   if st \<noteq> EFI_SUCCESS then Some (st, priv, s)
                                   else
                                     (case efi_bs_call fw (ExitBootServices handle (mm_map_key (memory s) map0)) s of
                                        (r, s) \<Rightarrow> Some (status r, priv, s))
                                 }))
                   else Some (status r, priv, s))
          })"

section \<open>Secure boot\<close>

datatype efi_secureboot_mode =
    efi_secureboot_mode_unset
  | efi_secureboot_mode_unknown
  | efi_secureboot_mode_disabled
  | efi_secureboot_mode_enabled

text \<open>A one-byte variable; a reply without contents leaves the old value.\<close>

definition var_byte :: "efi_reply \<Rightarrow> byte \<Rightarrow> byte" where
  "var_byte r old = (case data r of [] \<Rightarrow> old | b # _ \<Rightarrow> b)"

definition efi_get_secureboot_mode ::
  "'w firmware \<Rightarrow> ('w, 'z) efi_scheme \<Rightarrow> efi_secureboot_mode \<times> ('w, 'z) efi_scheme" where
  "efi_get_secureboot_mode fw s =
     (case efi_bs_call fw (GetVariable ''SecureBoot'' EFI_GLOBAL_VARIABLE_GUID 1) s of
        (r, s) \<Rightarrow>
          if status r = EFI_NOT_FOUND then (efi_secureboot_mode_disabled, s)
          else if status r \<noteq> EFI_SUCCESS then (efi_secureboot_mode_unknown, s)
          else
            (case efi_bs_call fw (GetVariable ''SetupMode'' EFI_GLOBAL_VARIABLE_GUID 1) s of
               (r', s) \<Rightarrow>
                 if var_byte r 0 = 0 \<or> var_byte r' 0 = 1 then (efi_secureboot_mode_disabled, s)
                 else (efi_secureboot_mode_enabled, s)))"

abbreviation (input) EFI_VARIABLE_NON_VOLATILE :: int where "EFI_VARIABLE_NON_VOLATILE \<equiv> 1"

definition efi_get_secureboot ::
  "'w firmware \<Rightarrow> ('w, 'z) efi_scheme \<Rightarrow> efi_secureboot_mode \<times> ('w, 'z) efi_scheme" where
  "efi_get_secureboot fw s =
     (case efi_get_secureboot_mode fw s of
        (mode, s) \<Rightarrow>
          if mode = efi_secureboot_mode_unknown then (efi_secureboot_mode_unknown, s)
          else if mode \<noteq> efi_secureboot_mode_enabled then (mode, s)
          else
            (case efi_bs_call fw (GetVariable ''MokSBStateRT'' EFI_SHIM_LOCK_GUID 1) s of
               (r, s) \<Rightarrow>
                 if status r \<noteq> EFI_SUCCESS then (efi_secureboot_mode_enabled, s)
                 else if attr r AND EFI_VARIABLE_NON_VOLATILE = 0 \<and> var_byte r 0 = 1
                 then (efi_secureboot_mode_disabled, s)
                 else (efi_secureboot_mode_enabled, s)))"

section \<open>Random bytes\<close>

definition efi_get_random_bytes ::
  "'w firmware \<Rightarrow> int \<Rightarrow> addr \<Rightarrow> ('w, 'z) efi_scheme \<Rightarrow> int \<times> ('w, 'z) efi_scheme" where
  "efi_get_random_bytes fw size0 buf s =
     (case efi_bs_call fw (LocateProtocol EFI_RNG_PROTOCOL_GUID) s of
        (r, s) \<Rightarrow>
          if status r \<noteq> EFI_SUCCESS then (status r, s)
          else (case efi_bs_call fw (GetRng (out r) size0 buf) s of (r, s) \<Rightarrow> (status r, s)))"

section \<open>The boot hart\<close>

definition get_boot_hartid_from_fdt :: "('w, 'z) stub_scheme \<Rightarrow> (int \<times> ('w, 'z) stub_scheme) option" where
  "get_boot_hartid_from_fdt s =
     (let fdt = get_efi_config_table DEVICE_TREE_GUID s; m = memory s
      in if fdt = 0 then Some (EFI_INVALID_PARAMETER, s)
         else do {
           chosen_node \<leftarrow> fdt_path_offset m fdt (str ''/chosen'');
           if chosen_node < 0 then Some (EFI_INVALID_PARAMETER, s)
           else
             (case fdt_getprop m fdt chosen_node (str ''boot-hartid'') of
                (None, len) \<Rightarrow> Some (EFI_INVALID_PARAMETER, s)
              | (Some prp, len) \<Rightarrow>
                  if len = 4 then Some (0, s\<lparr>hartid := fdt32_ld m prp\<rparr>)
                  else if len = 8 then Some (0, s\<lparr>hartid := fdt64_ld m prp\<rparr>)
                  else Some (EFI_INVALID_PARAMETER, s))
         })"

text \<open>\<open>out r\<close> is what the protocol stores in \<open>hartid\<close>.\<close>

definition get_boot_hartid_from_efi ::
  "'w firmware \<Rightarrow> ('w, 'z) stub_scheme \<Rightarrow> int \<times> ('w, 'z) stub_scheme" where
  "get_boot_hartid_from_efi fw s =
     (case efi_bs_call fw (LocateProtocol RISCV_EFI_BOOT_PROTOCOL_GUID) s of
        (r, s) \<Rightarrow>
          if status r \<noteq> EFI_SUCCESS then (status r, s)
          else
            (case efi_bs_call fw (GetBootHartid (out r)) s of
               (r, s) \<Rightarrow> (status r, if status r = EFI_SUCCESS then s\<lparr>hartid := out r\<rparr> else s)))"

definition check_platform_features ::
  "'w firmware \<Rightarrow> ('w, 'z) stub_scheme \<Rightarrow> (int \<times> ('w, 'z) stub_scheme) option" where
  "check_platform_features fw s =
     (case get_boot_hartid_from_efi fw s of
        (st, s) \<Rightarrow>
          if st \<noteq> EFI_SUCCESS then do {
            (ret, s) \<leftarrow> get_boot_hartid_from_fdt s;
            if s32 ret \<noteq> 0 then Some (EFI_UNSUPPORTED, s) else Some (EFI_SUCCESS, s)
          }
          else Some (EFI_SUCCESS, s))"

end
