(* ===== verification/Helper_Spec.thy ===== *)
theory Helper_Spec
  imports Helper Vsprintf_Numbers
begin

text \<open>
  What the helpers of the stub do: the command line they build and the options they take from it,
  the table they find, the policy of secure boot, and the protocol of leaving the boot services.
\<close>

section \<open>The command line\<close>

lemma scan_options_bounds:
  assumes "scan_options m s2 b safe q n = (b', safe')" "0 \<le> b" "0 \<le> safe" "safe < 1024"
  shows "0 \<le> b' \<and> 0 \<le> safe' \<and> safe' < 1024"
  using assms
proof (induction m s2 b safe q n rule: scan_options.induct)
  case (1 m s2 b safe q n)
  show ?case
  proof (cases "b < int COMMAND_LINE_SIZE \<and> n \<noteq> 0")
    case False
    then show ?thesis using "1.prems" by (subst (asm) scan_options.simps) (auto split: if_splits)
  next
    case True
    define c where "c = ld_le m s2 2"
    note unf = scan_options.simps [of m s2 b safe q n, unfolded Let_def c_def [symmetric]]
    note IH = "1.IH" [OF True refl c_def refl]
    show ?thesis
    proof (cases "c < 0x80")
      case lt: True
      then show ?thesis
        using IH(1) "1.prems" True unfolding unf by (auto split: if_splits)
    next
      case ge: False
      have s: "0x800 \<le> c" if "c AND 0xfc00 = 0xd800"
      proof (rule ccontr)
        assume "\<not> 0x800 \<le> c"
        have "c AND 0xfc00 \<le> c" using ge by (intro AND_upper1) auto
        then show False using that \<open>\<not> 0x800 \<le> c\<close> by simp
      qed
      show ?thesis
        using IH(2-5) [OF ge refl] "1.prems" True ge s unfolding unf by (auto split: if_splits)
    qed
  qed
qed

text \<open>The UTF-16 form of a string of single bytes.\<close>

definition utf16 :: "mem \<Rightarrow> addr \<Rightarrow> byte list \<Rightarrow> bool" where
  "utf16 m p cs \<longleftrightarrow> (\<forall>i < length cs. m (p + 2 * int i) = cs ! i \<and> m (p + 2 * int i + 1) = 0)"

lemma utf16_Cons: "utf16 m p (c # cs) \<longleftrightarrow> m p = c \<and> m (p + 1) = 0 \<and> utf16 m (p + 2) cs"
  unfolding utf16_def by (auto simp: All_less_Suc2 algebra_simps)

definition plain_option :: "byte \<Rightarrow> bool" where
  "plain_option c \<longleftrightarrow> c \<noteq> 0 \<and> c \<noteq> 10 \<and> c < 128"

lemma ld_le_two: "ld_le m p 2 = uint (m p) + 256 * uint (m (p + 1))"
  by (simp add: ld_le_def eval_nat_numeral bytes_at_Suc)

lemma scan_options_ascii:
  assumes "utf16 m p cs" "list_all plain_option cs" "b + int (length cs) < 1024"
  shows "fst (scan_options m p b safe q (length cs)) = b + int (length cs)"
  using assms
proof (induction cs arbitrary: p b safe q)
  case Nil
  then show ?case by (simp add: scan_options.simps)
next
  case (Cons c cs)
  have c: "c \<noteq> 0" "c \<noteq> 10" "uint c < 128" and u: "ld_le m p 2 = uint c"
    using Cons.prems by (auto simp: utf16_Cons ld_le_two plain_option_def word_less_def)
  have u0: "uint c \<noteq> 0" "uint c \<noteq> 10"
    using c by (auto simp: uint_0_iff) (metis uint_numeral_byte word_of_int_uint word_numeral_alt)
  have IH: "fst (scan_options m (p + 2) (b + 1) safe' q' (length cs)) = b + 1 + int (length cs)" for safe' q'
    using Cons by (intro Cons.IH) (auto simp: utf16_Cons)
  show ?case using Cons.prems c u0 IH by (subst scan_options.simps) (simp add: u Let_def)
qed

lemma measure_no_tpm:
  assumes "out (fst (efi_bs_call fw (LocateProtocol EFI_TCG2_PROTOCOL_GUID) s)) = 0"
  shows "efi_measure_tagged_event fw a n e s =
    (EFI_UNSUPPORTED, snd (efi_bs_call fw (LocateProtocol EFI_TCG2_PROTOCOL_GUID) s))"
  using assms by (simp add: efi_measure_tagged_event_def case_prod_unfold)

lemma convert_cmdline_shape:
  assumes "efi_convert_cmdline fw img s = (Some (a, n), s')"
  shows "\<exists>r t p. efi_bs_call fw (AllocatePool EfiLoaderData n) t = (r, s'\<lparr>memory := p\<rparr>) \<and> out r = a
    \<and> status r = EFI_SUCCESS \<and> 1 \<le> n \<and> n \<le> 1024
    \<and> memory s' = snd (snprintf p a n (str ''%.*ls'') [n - 1, LoadOptions (memory s) img])"
proof -
  define o1 where "o1 = LoadOptions (memory s) img"
  define sz where "sz = LoadOptionsSize (memory s) img"
  define s1 where "s1 = (if sz > 0 then snd (efi_measure_tagged_event fw o1 sz EFISTUB_EVT_LOAD_OPTIONS s) else s)"
  obtain b safe where sc: "scan_options (memory s1) o1 0 0 False (nat (sz div 2)) = (b, safe)" by fastforce
  define k where "k = (if o1 \<noteq> 0 then (if b \<ge> int COMMAND_LINE_SIZE then safe else b) else 0) + 1"
  have k: "1 \<le> k" "k \<le> 1024" using scan_options_bounds [OF sc] by (auto simp: k_def)
  obtain r t where al: "efi_bs_call fw (AllocatePool EfiLoaderData k) s1 = (r, t)" by fastforce
  have "efi_convert_cmdline fw img s =
    (if status r \<noteq> EFI_SUCCESS then (None, t)
     else (Some (out r, k), t\<lparr>memory := snd (snprintf (memory t) (out r) k (str ''%.*ls'') [k - 1, o1])\<rparr>))"
    unfolding efi_convert_cmdline_def Let_def o1_def [symmetric] sz_def [symmetric] s1_def [symmetric]
      efi_apply_loadoptions_quirk_def prod.case sc k_def [symmetric] al by simp
  then show ?thesis
    using assms al k unfolding o1_def [symmetric]
    by (auto split: if_splits intro!: exI [of _ r] exI [of _ s1] exI [of _ "memory t"])
qed

section \<open>The options\<close>

lemma strnlen_min: "0 \<le> p \<Longrightarrow> p + int k < ADDR_LIMIT \<Longrightarrow> strnlen m p k = min k (strlen m p)"
proof (induction k arbitrary: p)
  case (Suc k)
  then show ?case by (simp add: strlen_step [of m p] add.assoc)
qed simp

lemma cstr_nth: "i < strlen m p \<Longrightarrow> m (p + int i) \<noteq> 0"
proof (induction m p arbitrary: i rule: strlen.induct)
  case (1 m p)
  have *: "p < ADDR_LIMIT \<and> m p \<noteq> 0" using "1.prems" by (simp add: strlen_step [of m p] split: if_splits)
  show ?case
  proof (cases i)
    case 0
    then show ?thesis using * by simp
  next
    case (Suc j)
    then have "j < strlen m (p + 1)" using "1.prems" * by (simp add: strlen_step [of m p])
    then have "m (p + 1 + int j) \<noteq> 0" by (rule "1.IH" [OF *])
    then show ?thesis by (simp add: Suc add.assoc)
  qed
qed

lemma cstr_no_nul: "0 \<notin> set (cstr m p)"
  by (auto simp: cstr_def in_set_conv_nth cstr_nth)

lemma cstr_agree: "agree p (p + int (strlen m p) + 1) m m' \<Longrightarrow> cstr m' p = cstr m p"
  unfolding cstr_def using strlen_agree by (simp add: bytes_at_agree [OF agree_sym])

lemma parse_options_effect:
  assumes r: "efi_parse_options fw c s = (EFI_SUCCESS, s')"
    and c: "0 < c" "c + 1024 < ADDR_LIMIT"
    and fw: "leaves_alone fw c (c + int (strlen (memory s) c) + 1)"
    and b: "\<And>a n r t. (AllocatePool a n, r) \<in> set (drop (length (calls s)) (calls s')) \<Longrightarrow>
        0 \<le> out r \<and> out r + n < ADDR_LIMIT \<and> (out r + n \<le> c \<or> c + int (strlen (memory s) c) + 1 \<le> out r)"
  shows "opts s' = parse_cmdline (cstr (memory s) c) (opts s)
    \<and> (\<exists>n r r'. calls s' = calls s @ [(AllocatePool EfiLoaderData n, r), (FreePool (out r), r')])"
proof -
  define k where "k = strnlen (memory s) c (COMMAND_LINE_SIZE - 1)"
  have k: "k = min 1023 (strlen (memory s) c)" unfolding k_def using c by (subst strnlen_min) auto
  obtain r1 s1 where al: "efi_bs_call fw (AllocatePool EfiLoaderData (int k + 1)) s = (r1, s1)" by fastforce
  define m2 where "m2 = (memcpy (memory s1) (out r1) c k)(out r1 + int k := 0)"
  define s2 where "s2 = s1\<lparr>memory := m2, opts := parse_cmdline (cstr m2 (out r1)) (opts s1)\<rparr>"
  have e: "status r1 = EFI_SUCCESS" "s' = snd (efi_bs_call fw (FreePool (out r1)) s2)"
  proof -
    have "c \<noteq> 0" using c by simp
    then have "efi_parse_options fw c s = (if status r1 \<noteq> EFI_SUCCESS then (status r1, s1)
        else (EFI_SUCCESS, snd (efi_bs_call fw (FreePool (out r1)) s2)))"
      unfolding efi_parse_options_def Let_def k_def [symmetric] al prod.case by (simp add: m2_def s2_def)
    then show "status r1 = EFI_SUCCESS" "s' = snd (efi_bs_call fw (FreePool (out r1)) s2)"
      using r by (auto split: if_splits)
  qed
  have cs: "calls s' = calls s @ [(AllocatePool EfiLoaderData (int k + 1), r1),
      (FreePool (out r1), fst (efi_bs_call fw (FreePool (out r1)) s2))]"
    using efi_bs_call_calls [OF al] by (simp add: e(2) s2_def)
  then have buf: "0 \<le> out r1" "out r1 + (int k + 1) < ADDR_LIMIT"
    "out r1 + (int k + 1) \<le> c \<or> c + int (strlen (memory s) c) + 1 \<le> out r1"
    using b [of EfiLoaderData "int k + 1" r1] by simp_all
  have ag: "agree c (c + int (strlen (memory s) c) + 1) (memory s) (memory s1)" by (rule bs_call_agree [OF fw al])
  have "bytes_at (memory s1) c k = bytes_at (memory s) c k"
    by (rule bytes_at_agree [OF agree_sym [OF ag]]) (auto simp: k)
  moreover have "memcpy (memory s1) (out r1) c k = copied (memory s1) (out r1) c k"
    using buf k by (intro memcpy_copied) auto
  moreover have "copied (memory s1) (out r1) c k = put_bytes (memory s1) (out r1) (bytes_at (memory s1) c k)"
    by (auto simp: copied_def put_bytes_def fun_eq_iff)
  moreover have "(put_bytes (memory s1) (out r1) xs)(out r1 + int (length xs) := 0)
      = put_bytes (memory s1) (out r1) (xs @ [0])" for xs
    by (auto simp: put_bytes_def fun_eq_iff nth_append)
  from this [of "bytes_at (memory s1) c k"] have "(put_bytes (memory s1) (out r1) (bytes_at (memory s1) c k))(out r1 + int k := 0)
      = put_bytes (memory s1) (out r1) (bytes_at (memory s1) c k @ [0])" by simp
  ultimately have m2: "m2 = put_bytes (memory s1) (out r1) (bytes_at (memory s) c k @ [0])" by (simp add: m2_def)
  have tk: "bytes_at (memory s) c k = take 1023 (cstr (memory s) c)"
    by (rule nth_equalityI) (auto simp: cstr_def k)
  have "cstr m2 (out r1) = take 1023 (cstr (memory s) c)"
    unfolding m2 tk using buf cstr_no_nul [of "memory s" c]
    by (intro cstr_put) (auto simp: cstr_def k dest: in_set_takeD)
  moreover have "efi_bs_call fw x y = (p, q) \<Longrightarrow> opts q = opts y" for x and y q :: "('a, 'b) stub_scheme" and p
    by (auto simp: efi_bs_call_def split: prod.splits)
  then have "opts s' = opts s2" "opts s1 = opts s" using al by (auto simp: e(2)) (metis prod.collapse)
  ultimately have "opts s' = parse_cmdline (cstr (memory s) c) (opts s)"
    by (simp add: s2_def parse_cmdline_def)
  then show ?thesis using cs by blast
qed


section \<open>Configuration tables\<close>

text \<open>The entries of the system table's configuration table.\<close>

definition config_tables :: "('w, 'z) stub_scheme \<Rightarrow> (guid \<times> addr) list" where
  "config_tables s =
     (let m = memory s; t = ld_le m (system_table s + 112) 8
      in map (\<lambda>i. (bytes_at m (t + 24 * int i) 16, ld_le m (t + 24 * int i + 16) 8))
           [0..<nat (s32 (ld_le m (system_table s + 104) 8))])"

lemma config_table_loop_map_of:
  "config_table_loop m t g n =
     (case map_of (map (\<lambda>i. (bytes_at m (t + 24 * int i) 16, ld_le m (t + 24 * int i + 16) 8)) [0..<n]) g of
        None \<Rightarrow> 0 | Some a \<Rightarrow> a)"
proof (induction m t g n rule: config_table_loop.induct)
  case (2 m t g n)
  have "[0..<Suc n] = 0 # map Suc [0..<n]" by (simp add: upt_conv_Cons map_Suc_upt del: upt_Suc)
  moreover have "t + 24 * int (Suc i) = t + 24 + 24 * int i" for i by simp
  ultimately show ?case using 2 by (auto simp: efi_guidcmp_def comp_def add.assoc simp del: upt_Suc of_nat_Suc)
qed simp

lemma get_efi_config_table_map_of:
  "get_efi_config_table g s = (case map_of (config_tables s) g of None \<Rightarrow> 0 | Some a \<Rightarrow> a)"
  by (simp add: get_efi_config_table_def config_tables_def config_table_loop_map_of Let_def)

section \<open>Secure boot\<close>

text \<open>The variables of a firmware: the attributes and the byte of each that is there.\<close>

type_synonym variables = "string \<Rightarrow> guid \<Rightarrow> (int \<times> byte) option"

definition answers :: "'w firmware \<Rightarrow> variables \<Rightarrow> bool" where
  "answers fw vars \<longleftrightarrow> (\<forall>n g k m w.
     case vars n g of
       None \<Rightarrow> status (fst (fw (GetVariable n g k) m w)) = EFI_NOT_FOUND
     | Some (a, b) \<Rightarrow> status (fst (fw (GetVariable n g k) m w)) = EFI_SUCCESS
         \<and> attr (fst (fw (GetVariable n g k) m w)) = a \<and> data (fst (fw (GetVariable n g k) m w)) = [b])"

definition value_of :: "variables \<Rightarrow> string \<Rightarrow> guid \<Rightarrow> byte option" where
  "value_of vars n g = map_option snd (vars n g)"

text \<open>
  Secure boot counts as disabled when the firmware does not have it or has it switched off, when the
  platform is in setup mode, and when the shim's volatile variable says so.
\<close>

definition boot_is_insecure :: "variables \<Rightarrow> bool" where
  "boot_is_insecure vars \<longleftrightarrow>
     value_of vars ''SecureBoot'' EFI_GLOBAL_VARIABLE_GUID \<in> {None, Some 0}
   \<or> value_of vars ''SetupMode'' EFI_GLOBAL_VARIABLE_GUID = Some 1
   \<or> (\<exists>a. vars ''MokSBStateRT'' EFI_SHIM_LOCK_GUID = Some (a, 1) \<and> a AND EFI_VARIABLE_NON_VOLATILE = 0)"

lemma bs_call_variable:
  assumes "answers fw vars" "efi_bs_call fw (GetVariable n g k) s = (r, s')"
  shows "vars n g = None \<Longrightarrow> status r = EFI_NOT_FOUND"
    and "vars n g = Some (a, b) \<Longrightarrow> status r = EFI_SUCCESS \<and> attr r = a \<and> data r = [b]"
  using assms unfolding answers_def efi_bs_call_def
  by (auto split: prod.splits dest!: spec [of _ n] spec [of _ g] spec [of _ k] spec [of _ "memory s"] spec [of _ "world s"])

text \<open>A missing variable leaves the byte at zero, as the reply has no contents.\<close>

definition no_data :: "'w firmware \<Rightarrow> bool" where
  "no_data fw \<longleftrightarrow> (\<forall>c m w. status (fst (fw c m w)) = EFI_NOT_FOUND \<longrightarrow> data (fst (fw c m w)) = [])"

lemma bs_call_no_data:
  "no_data fw \<Longrightarrow> efi_bs_call fw c s = (r, s') \<Longrightarrow> status r = EFI_NOT_FOUND \<Longrightarrow> data r = []"
  unfolding no_data_def efi_bs_call_def
  by (auto split: prod.splits dest!: spec [of _ c] spec [of _ "memory s"] spec [of _ "world s"])

lemma secureboot_policy:
  assumes a: "answers fw vars" and d: "no_data fw"
  shows "fst (efi_get_secureboot fw s) =
    (if boot_is_insecure vars then efi_secureboot_mode_disabled else efi_secureboot_mode_enabled)"
proof -
  obtain r1 s1 where 1: "efi_bs_call fw (GetVariable ''SecureBoot'' EFI_GLOBAL_VARIABLE_GUID 1) s = (r1, s1)" by fastforce
  obtain r2 s2 where 2: "efi_bs_call fw (GetVariable ''SetupMode'' EFI_GLOBAL_VARIABLE_GUID 1) s1 = (r2, s2)" by fastforce
  obtain r3 s3 where 3: "efi_bs_call fw (GetVariable ''MokSBStateRT'' EFI_SHIM_LOCK_GUID 1) s2 = (r3, s3)" by fastforce
  note v1 = bs_call_variable [OF a 1] and v2 = bs_call_variable [OF a 2] and v3 = bs_call_variable [OF a 3]
  note unf = efi_get_secureboot_def efi_get_secureboot_mode_def 1 2 3 prod.case
  show ?thesis
  proof (cases "vars ''SecureBoot'' EFI_GLOBAL_VARIABLE_GUID")
    case None
    then show ?thesis using v1 by (simp add: unf boot_is_insecure_def value_of_def)
  next
    case (Some x)
    obtain a1 b1 where x: "x = (a1, b1)" by fastforce
    have e1: "status r1 = EFI_SUCCESS" "var_byte r1 0 = b1" using v1(2) Some x by (auto simp: var_byte_def)
    have e2: "var_byte r2 0 = 1 \<longleftrightarrow> value_of vars ''SetupMode'' EFI_GLOBAL_VARIABLE_GUID = Some 1"
    proof (cases "vars ''SetupMode'' EFI_GLOBAL_VARIABLE_GUID")
      case None
      then show ?thesis using v2(1) bs_call_no_data [OF d 2] by (simp add: value_of_def var_byte_def)
    next
      case (Some y)
      then show ?thesis using v2(2) by (cases y) (simp add: value_of_def var_byte_def)
    qed
    have e3: "status r3 = EFI_SUCCESS \<and> attr r3 AND EFI_VARIABLE_NON_VOLATILE = 0 \<and> var_byte r3 0 = 1 \<longleftrightarrow>
      (\<exists>a. vars ''MokSBStateRT'' EFI_SHIM_LOCK_GUID = Some (a, 1) \<and> a AND EFI_VARIABLE_NON_VOLATILE = 0)"
    proof (cases "vars ''MokSBStateRT'' EFI_SHIM_LOCK_GUID")
      case None
      then show ?thesis using v3(1) by simp
    next
      case (Some y)
      then show ?thesis using v3(2) by (cases y) (auto simp: var_byte_def)
    qed
    show ?thesis
      using e1 e2 e3 Some x unfolding boot_is_insecure_def unf
      by (cases "b1 = 0 \<or> var_byte r2 0 = 1") (auto simp: value_of_def 3)
  qed
qed

section \<open>Leaving the boot services\<close>

text \<open>The calls that an operation adds to the record all satisfy \<open>P\<close>.\<close>

definition extends :: "(efi_call \<times> efi_reply \<Rightarrow> bool) \<Rightarrow> (efi_call \<times> efi_reply) list \<Rightarrow> (efi_call \<times> efi_reply) list \<Rightarrow> bool" where
  "extends P cs cs' \<longleftrightarrow> (\<exists>new. cs' = cs @ new \<and> list_all P new)"

lemma extends_refl [simp]: "extends P cs cs"
  by (simp add: extends_def)

lemma extends_trans [trans]: "extends P a b \<Longrightarrow> extends P b c \<Longrightarrow> extends P a c"
  by (force simp: extends_def)

lemma extends_bs_call: "efi_bs_call fw c s = (r, s') \<Longrightarrow> P (c, r) \<Longrightarrow> extends P (calls s) (calls s')"
  by (simp add: efi_bs_call_calls extends_def)

lemma extends_snd: "P (c, fst (efi_bs_call fw c s)) \<Longrightarrow> extends P cs (calls s) \<Longrightarrow> extends P cs (calls (snd (efi_bs_call fw c s)))"
  by (rule extends_trans [OF _ extends_bs_call [OF prod.collapse [symmetric]]])

fun is_exit :: "efi_call \<Rightarrow> bool" where
  "is_exit (ExitBootServices h k) = True"
| "is_exit _ = False"

fun is_get_map :: "efi_call \<Rightarrow> bool" where
  "is_get_map (GetMemoryMap n p) = True"
| "is_get_map _ = False"

lemma get_memory_map_no_exit:
  assumes "efi_get_memory_map fw p b s = (st, m, s')"
  shows "extends (\<lambda>x. \<not> is_exit (fst x)) (calls s) (calls s')"
  using assms unfolding efi_get_memory_map_def Let_def
  by (auto simp: extends_def split: prod.splits if_splits dest!: efi_bs_call_calls)


lemma quiet_prefix:
  assumes "list_all (\<lambda>x. \<not> is_exit (fst x)) q"
  shows "dropWhile (\<lambda>c. \<not> is_exit c) (map fst (q @ r)) = dropWhile (\<lambda>c. \<not> is_exit c) (map fst r)"
    and "filter is_exit (map fst (q @ r)) = filter is_exit (map fst r)"
  using assms by (induction q) auto

text \<open>No \<open>ExitBootServices\<close> has succeeded.\<close>

definition boot_services_live :: "(efi_call \<times> efi_reply) list \<Rightarrow> bool" where
  "boot_services_live = list_all (\<lambda>x. is_exit (fst x) \<longrightarrow> status (snd x) \<noteq> EFI_SUCCESS)"

lemma live_append [simp]:
  "boot_services_live []"
  "boot_services_live (xs @ ys) \<longleftrightarrow> boot_services_live xs \<and> boot_services_live ys"
  "boot_services_live (x # xs) \<longleftrightarrow> (is_exit (fst x) \<longrightarrow> status (snd x) \<noteq> EFI_SUCCESS) \<and> boot_services_live xs"
  by (simp_all add: boot_services_live_def)

lemma live_quiet: "list_all (\<lambda>x. \<not> is_exit (fst x)) q \<Longrightarrow> boot_services_live q"
  by (auto simp: boot_services_live_def list_all_iff)

text \<open>
  The protocol of the boot services: from the first call of \<open>ExitBootServices\<close> on nothing but it and
  \<open>GetMemoryMap\<close> is called, it is called at most twice, before the last call it has not succeeded, and
  the status is a success exactly when the last call was an \<open>ExitBootServices\<close> that succeeded.
\<close>

definition exit_protocol :: "int \<Rightarrow> (efi_call \<times> efi_reply) list \<Rightarrow> bool" where
  "exit_protocol st new \<longleftrightarrow>
     list_all (\<lambda>c. is_exit c \<or> is_get_map c) (dropWhile (\<lambda>c. \<not> is_exit c) (map fst new))
   \<and> length (filter is_exit (map fst new)) \<le> 2
   \<and> boot_services_live (butlast new)
   \<and> (st = EFI_SUCCESS \<longleftrightarrow> new \<noteq> [] \<and> is_exit (fst (last new)) \<and> status (snd (last new)) = EFI_SUCCESS)"

lemma exit_protocol_quiet:
  assumes "list_all (\<lambda>x. \<not> is_exit (fst x)) q"
  shows "r \<noteq> [] \<Longrightarrow> exit_protocol st (q @ r) = exit_protocol st r"
    and "st \<noteq> EFI_SUCCESS \<Longrightarrow> exit_protocol st q"
proof -
  show "exit_protocol st (q @ r) = exit_protocol st r" if "r \<noteq> []"
    using that quiet_prefix [OF assms, of r] live_quiet [OF assms] by (simp add: exit_protocol_def butlast_append)
  have "q \<noteq> [] \<Longrightarrow> \<not> is_exit (fst (last q))" using assms by (simp add: list_all_iff)
  moreover have d: "dropWhile (\<lambda>c. \<not> is_exit c) (map fst q) = []" "filter is_exit (map fst q) = []"
    using quiet_prefix [OF assms, of "[]"] by simp_all
  moreover have "boot_services_live (butlast q)"
    using assms by (intro live_quiet) (auto simp: list_all_iff dest: in_set_butlastD)
  ultimately show "exit_protocol st q" if "st \<noteq> EFI_SUCCESS"
    using that unfolding exit_protocol_def d by auto
qed

lemma live_last: "xs \<noteq> [] \<Longrightarrow> boot_services_live xs \<longleftrightarrow>
    boot_services_live (butlast xs) \<and> (is_exit (fst (last xs)) \<longrightarrow> status (snd (last xs)) \<noteq> EFI_SUCCESS)"
  by (cases xs rule: rev_cases) auto

lemma exit_protocol_live:
  assumes "exit_protocol st new"
  shows "st \<noteq> EFI_SUCCESS \<Longrightarrow> boot_services_live new"
    and "st = EFI_SUCCESS \<Longrightarrow> \<exists>pre h k r. new = pre @ [(ExitBootServices h k, r)]
      \<and> status r = EFI_SUCCESS \<and> boot_services_live pre"
proof -
  show "boot_services_live new" if "st \<noteq> EFI_SUCCESS"
    using assms that live_last [of new] unfolding exit_protocol_def by (cases "new = []") auto
  assume "st = EFI_SUCCESS"
  then have n: "new \<noteq> []" "is_exit (fst (last new))" "status (snd (last new)) = EFI_SUCCESS" "boot_services_live (butlast new)"
    using assms by (auto simp: exit_protocol_def)
  moreover from this obtain h k r where l: "last new = (ExitBootServices h k, r)"
    by (cases "last new"; cases "fst (last new)") auto
  moreover have "new = butlast new @ [(ExitBootServices h k, r)]" using n(1) l [symmetric] by simp
  ultimately show "\<exists>pre h k r. new = pre @ [(ExitBootServices h k, r)]
      \<and> status r = EFI_SUCCESS \<and> boot_services_live pre"
    by auto
qed

text \<open>What a callback for the memory map promises: it makes no call of its own.\<close>

locale map_callback =
  fixes priv_func :: "('p, ('w, 'z) stub_scheme) map_processing"
  assumes no_calls: "priv_func map0 p s = Some (st, p', s') \<Longrightarrow> calls s' = calls s"
begin

lemma keeps_protocol:
  assumes "efi_exit_boot_services fw h p priv_func s = Some (st, p', s')"
  shows "\<exists>new. calls s' = calls s @ new \<and> exit_protocol st new"
proof -
  obtain st1 map0 s1 where 1: "efi_get_memory_map fw 0 True s = (st1, map0, s1)" by (rule prod_cases3)
  obtain q where q: "calls s1 = calls s @ q" "list_all (\<lambda>x. \<not> is_exit (fst x)) q"
    using get_memory_map_no_exit [OF 1] by (auto simp: extends_def)
  have dma: "\<not> efi_disable_pci_dma (opts s)" using assms by (auto simp: efi_exit_boot_services_def)
  note unf = efi_exit_boot_services_def 1 prod.case if_not_P [OF dma]
  show ?thesis
  proof (cases "st1 = EFI_SUCCESS")
    case False
    then have "st \<noteq> EFI_SUCCESS" "s' = s1" using assms unfolding unf by auto
    then show ?thesis using q exit_protocol_quiet(2) [OF q(2)] by auto
  next
    case True
    then obtain st2 p2 s2 where 2: "priv_func map0 p s1 = Some (st2, p2, s2)"
      using assms unfolding unf by (auto simp: bind_eq_Some_conv)
    have c2: "calls s2 = calls s1" by (rule no_calls [OF 2])
    show ?thesis
    proof (cases "st2 = EFI_SUCCESS")
      case False
      then have "st \<noteq> EFI_SUCCESS" "s' = snd (efi_bs_call fw (FreePool map0) s2)"
        using assms True 2 unfolding unf by auto
      then show ?thesis
        using q c2 exit_protocol_quiet(2) [of "q @ [(FreePool map0, fst (efi_bs_call fw (FreePool map0) s2))]" st] by auto
    next
      case st2: True
      obtain r3 s3 where 3: "efi_bs_call fw (ExitBootServices h (mm_map_key (memory s2) map0)) s2 = (r3, s3)" by fastforce
      define e3 where "e3 = (ExitBootServices h (mm_map_key (memory s2) map0), r3)"
      have c3: "calls s3 = calls s @ q @ [e3]" using efi_bs_call_calls [OF 3] c2 q by (simp add: e3_def)
      have x3: "is_exit (fst e3)" "snd e3 = r3" by (simp_all add: e3_def)
      show ?thesis
      proof (cases "status r3 = EFI_INVALID_PARAMETER")
        case False
        then have "st = status r3" "s' = s3" using assms True 2 st2 3 unfolding unf by auto
        then show ?thesis using c3 exit_protocol_quiet(1) [OF q(2), of "[e3]"] x3
          by (auto simp: exit_protocol_def intro!: exI [of _ "q @ [e3]"])
      next
        case inv: True
        define s4 where "s4 = s3\<lparr>memory := st_le (memory s3) map0 8 (mm_buff_size (memory s3) map0)\<rparr>"
        define c5 where "c5 = GetMemoryMap (mm_map_size (memory s4) map0) (Some (map0 + SIZEOF_BOOT_MEMMAP))"
        obtain r5 s5 where 5: "efi_bs_call fw c5 s4 = (r5, s5)" by fastforce
        define s6 where "s6 = s5\<lparr>memory := store_map_reply r5 map0 (memory s5)\<rparr>"
        have c6: "calls s6 = calls s @ q @ [e3, (c5, r5)]"
          using efi_bs_call_calls [OF 5] c3 by (simp add: s6_def s4_def)
        have g: "is_get_map c5" "\<not> is_exit c5" by (simp_all add: c5_def)
        have "efi_exit_boot_services fw h p priv_func s = (if status r5 \<noteq> EFI_SUCCESS then Some (status r5, p2, s6)
            else do {
              (st, priv, s) \<leftarrow> priv_func map0 p2 s6;
              if st \<noteq> EFI_SUCCESS then Some (st, priv, s)
              else (case efi_bs_call fw (ExitBootServices h (mm_map_key (memory s) map0)) s of
                      (r, s) \<Rightarrow> Some (status r, priv, s)) })"
          unfolding unf using True 2 st2 3 inv
          by (simp add: Let_def s6_def 5 [unfolded c5_def s4_def, simplified])
        note rest = this [symmetric, unfolded assms]
        show ?thesis
        proof (cases "status r5 = EFI_SUCCESS")
          case False
          then have "st \<noteq> EFI_SUCCESS" "s' = s6" using rest by auto
          then show ?thesis using c6 exit_protocol_quiet(1) [OF q(2), of "[e3, (c5, r5)]"] x3 g inv
            by (auto simp: exit_protocol_def intro!: exI [of _ "q @ [e3, (c5, r5)]"])
        next
          case st5: True
          then obtain st7 p7 s7 where 7: "priv_func map0 p2 s6 = Some (st7, p7, s7)"
            using rest by (auto simp: bind_eq_Some_conv)
          have c7: "calls s7 = calls s6" by (rule no_calls [OF 7])
          show ?thesis
          proof (cases "st7 = EFI_SUCCESS")
            case False
            then have "st \<noteq> EFI_SUCCESS" "s' = s7" using rest 7 st5 by auto
            then show ?thesis using c6 c7 exit_protocol_quiet(1) [OF q(2), of "[e3, (c5, r5)]"] x3 g inv
              by (auto simp: exit_protocol_def intro!: exI [of _ "q @ [e3, (c5, r5)]"])
          next
            case st7: True
            obtain r8 s8 where 8: "efi_bs_call fw (ExitBootServices h (mm_map_key (memory s7) map0)) s7 = (r8, s8)" by fastforce
            define e8 where "e8 = (ExitBootServices h (mm_map_key (memory s7) map0), r8)"
            have "calls s8 = calls s @ q @ [e3, (c5, r5), e8]" using efi_bs_call_calls [OF 8] c7 c6 by (simp add: e8_def)
            moreover have "st = status r8" "s' = s8" using rest 7 st5 st7 8 by auto
            moreover have "is_exit (fst e8)" "snd e8 = r8" by (simp_all add: e8_def)
            ultimately show ?thesis using exit_protocol_quiet(1) [OF q(2), of "[e3, (c5, r5), e8]"] x3 g inv
              by (auto simp: exit_protocol_def intro!: exI [of _ "q @ [e3, (c5, r5), e8]"])
          qed
        qed
      qed
    qed
  qed
qed

lemma success_ends_in_exit:
  assumes "efi_exit_boot_services fw h p priv_func s = Some (st, p', s')"
  shows "\<exists>new. calls s' = calls s @ new \<and>
    (if st = EFI_SUCCESS
     then \<exists>pre h k r. new = pre @ [(ExitBootServices h k, r)] \<and> status r = EFI_SUCCESS \<and> boot_services_live pre
     else boot_services_live new)"
proof -
  obtain new where n: "calls s' = calls s @ new" "exit_protocol st new" using keeps_protocol [OF assms] by blast
  show ?thesis
  proof (cases "st = EFI_SUCCESS")
    case True
    then show ?thesis using n exit_protocol_live(2) [OF n(2)] by simp
  next
    case False
    then show ?thesis using n exit_protocol_live(1) [OF n(2)] by simp
  qed
qed

lemma returns:
  assumes "\<not> efi_disable_pci_dma (opts s)"
    and "\<And>map0 p s. \<exists>st p' s'. priv_func map0 p s = Some (st, p', s')"
  shows "\<exists>st p' s'. efi_exit_boot_services fw h p priv_func s = Some (st, p', s')"
proof -
  have a: "priv_func map0 p s \<noteq> None" for map0 p s using assms(2) [of map0 p s] by auto
  have "efi_exit_boot_services fw h p priv_func s \<noteq> None"
    unfolding efi_exit_boot_services_def Let_def
    by (auto simp: a assms(1) simp del: not_None_eq split: prod.splits Option.bind_splits)
  then show ?thesis by auto
qed

end

end
