(* ===== verification/Helper_Properties.thy ===== *)
theory Helper_Properties
  imports Helper_Spec Demo_Firmware
begin

text \<open>
  The properties of the helpers: the command line, the options, secure boot and the end of the boot
  services, each with an instance at the small firmware.
\<close>

definition demo_stub :: "mem \<Rightarrow> int \<Rightarrow> int stub" where
  "demo_stub m w = \<lparr>memory = m, world = w, calls = [], opts = initial_options, hartid = 0, image_base = 0,
     image_size = 0, image_end = 0, virtmap_base = 0x20000000, system_table = 0\<rparr>"

section \<open>The command line\<close>

lemma convert_cmdline_one_char:
  assumes r: "efi_convert_cmdline fw img s = (Some (a, n), s')"
    and cs: "utf16 (memory s) (LoadOptions (memory s) img) cs" "list_all plain_option cs" "cs \<noteq> []" "length cs < 1023"
    and sz: "LoadOptionsSize (memory s) img = 2 * int (length cs)"
    and o: "4096 \<le> LoadOptions (memory s) img" "LoadOptions (memory s) img < 18446744073709547521"
    and fw: "leaves_alone fw (LoadOptions (memory s) img) (LoadOptions (memory s) img + 2 * int (length cs))"
    and tpm: "out (fst (efi_bs_call fw (LocateProtocol EFI_TCG2_PROTOCOL_GUID) s)) = 0"
    and a: "0 \<le> a" "a + n < 18446744073709551616" "a + n \<le> LoadOptions (memory s) img \<or> LoadOptions (memory s) img + 2 * int (length cs) \<le> a"
  shows "n = int (length cs) + 1 \<and> cstr (memory s') a = [hd cs]"
proof -
  define o1 where "o1 = LoadOptions (memory s) img"
  define hi where "hi = o1 + 2 * int (length cs)"
  note fw' = fw [folded o1_def, folded hi_def]
  define s1 where "s1 = snd (efi_bs_call fw (LocateProtocol EFI_TCG2_PROTOCOL_GUID) s)"
  have ag1: "agree o1 hi (memory s) (memory s1)" unfolding s1_def by (rule bs_call_agree_snd [OF fw'])
  have utf_agree: "utf16 m' o1 cs" if "agree o1 hi (memory s) m'" for m'
    using cs(1) that unfolding utf16_def o1_def [symmetric] hi_def agree_def by auto
  have m: "snd (efi_measure_tagged_event fw o1 (2 * int (length cs)) EFISTUB_EVT_LOAD_OPTIONS s) = s1"
    using measure_no_tpm [OF tpm] by (simp add: s1_def)
  obtain b safe where sc: "scan_options (memory s1) o1 0 0 False (length cs) = (b, safe)" by fastforce
  have b: "b = int (length cs)"
    using scan_options_ascii [OF utf_agree [OF ag1] cs(2), of 0 0 False] cs(4) sc by simp
  obtain r t where al: "efi_bs_call fw (AllocatePool EfiLoaderData (int (length cs) + 1)) s1 = (r, t)" by fastforce
  have ag2: "agree o1 hi (memory s) (memory t)" by (rule agree_trans [OF ag1 bs_call_agree [OF fw' al]])
  have "efi_convert_cmdline fw img s =
    (if status r \<noteq> EFI_SUCCESS then (None, t)
     else (Some (out r, int (length cs) + 1), t\<lparr>memory :=
       snd (snprintf (memory t) (out r) (int (length cs) + 1) (str ''%.*ls'') [int (length cs) + 1 - 1, o1])\<rparr>))"
    using cs(3,4) o b sc al
    by (simp add: efi_convert_cmdline_def Let_def o1_def [symmetric] sz m efi_apply_loadoptions_quirk_def)
  then have e: "n = int (length cs) + 1" "memory s' = snd (snprintf (memory t) a n (str ''%.*ls'') [n - 1, o1])"
    using r by (auto split: if_splits)
  obtain c cs' where c: "cs = c # cs'" using cs(3) by (cases cs) auto
  have u: "memory t o1 = c" "memory t (o1 + 1) = 0" "c \<noteq> 0"
    using utf_agree [OF ag2] cs(2) by (simp_all add: c utf16_Cons plain_option_def)
  have len: "strlen (memory t) o1 = 1"
    using u o by (simp add: o1_def [symmetric] strlen_step [of "memory t"])
  have k: "min (nat (n - 1)) (strlen (memory t) o1) = 1" using e(1) len c by simp
  have "memory s' = put_bytes (memory t) a ([c] @ [0])"
    using snprintf_ls [of a n o1 "memory t"] a o cs(4) len k u e
    by (auto simp: o1_def [symmetric] c bytes_at_Suc)
  then have "cstr (memory s') a = [c]" using u a c e(1) by (simp only:) (intro cstr_put; simp)
  then show ?thesis using e(1) c by simp
qed

text \<open>
  C27: the format \<open>%.*ls\<close> of \<open>efi_convert_cmdline\<close> is taken as \<open>%.*s\<close>: of load options in UTF-16 the
  buffer, which has room for all of them, gets the first character only. Every other character
  and with it every option is lost.
\<close>

theorem convert_cmdline_keeps_one_char:
  assumes "efi_convert_cmdline fw img s = (Some (a, n), s')"
    and "utf16 (memory s) (LoadOptions (memory s) img) cs" "list_all plain_option cs" "cs \<noteq> []" "length cs < 1023"
    and "LoadOptionsSize (memory s) img = 2 * int (length cs)"
    and "4096 \<le> LoadOptions (memory s) img" "LoadOptions (memory s) img < 18446744073709547521"
    and "leaves_alone fw (LoadOptions (memory s) img) (LoadOptions (memory s) img + 2 * int (length cs))"
    and "out (fst (efi_bs_call fw (LocateProtocol EFI_TCG2_PROTOCOL_GUID) s)) = 0"
    and "0 \<le> a" "a + n < 18446744073709551616"
    and "a + n \<le> LoadOptions (memory s) img \<or> LoadOptions (memory s) img + 2 * int (length cs) \<le> a"
  shows "n = int (length cs) + 1 \<and> cstr (memory s') a = [hd cs]"
  by (rule convert_cmdline_one_char [OF assms])

definition demo_options :: mem where
  "demo_options = put_bytes (put_bytes (put_bytes (\<lambda>_. 0) 4144 (le 4 10)) 4152 (le 8 8192)) 8192
     (concat (map (\<lambda>c. [c, 0]) (str ''quiet'')))"

theorem convert_cmdline_keeps_one_char_witness:
  "cstr (memory (snd (efi_convert_cmdline demo_fw 4096 (demo_stub demo_options 65536)))) 65536 = str ''q''"
proof -
  define C where "C = efi_convert_cmdline demo_fw 4096 (demo_stub demo_options 65536)"
  have "fst C = Some (65536, 6)" unfolding C_def by code_simp
  then have C: "C = (Some (65536, 6), snd C)" by (cases C) simp
  have o: "LoadOptions (memory (demo_stub demo_options 65536)) 4096 = 8192"
    "LoadOptionsSize (memory (demo_stub demo_options 65536)) 4096 = 10"
    "out (fst (efi_bs_call demo_fw (LocateProtocol EFI_TCG2_PROTOCOL_GUID) (demo_stub demo_options 65536))) = 0" by code_simp+
  have l: "list_all (\<lambda>i. demo_options (8192 + 2 * int i) = str ''quiet'' ! i \<and> demo_options (8192 + 2 * int i + 1) = 0) [0..<5]"
    "list_all plain_option (str ''quiet'')" by code_simp+
  have u: "utf16 (memory (demo_stub demo_options 65536)) 8192 (str ''quiet'')"
    using l(1) unfolding utf16_def list_all_iff by (simp add: demo_stub_def)
  have ne: "str ''quiet'' \<noteq> []" "length (str ''quiet'') = 5" "hd (str ''quiet'') = 113" "str ''q'' = [113]" by code_simp+
  have "cstr (memory (snd C)) 65536 = [hd (str ''quiet'')]"
    using convert_cmdline_keeps_one_char [OF C [unfolded C_def], of "str ''quiet''", folded C_def] u l(2) ne o demo_fw_leaves_alone
    by simp
  then show ?thesis by (simp only: C_def ne)
qed

section \<open>Options\<close>

text \<open>
  \<open>efi_parse_options\<close> applies the options of the command line, cut to 1023 characters, to the
  global settings, and gives back the one buffer that it allocates for its copy.
\<close>

theorem parse_options_applies:
  assumes "efi_parse_options fw c s = (EFI_SUCCESS, s')"
    and "0 < c" "c + 1024 < ADDR_LIMIT"
    and "leaves_alone fw c (c + int (strlen (memory s) c) + 1)"
    and "\<And>a n r t. (AllocatePool a n, r) \<in> set (drop (length (calls s)) (calls s')) \<Longrightarrow>
        0 \<le> out r \<and> out r + n < ADDR_LIMIT \<and> (out r + n \<le> c \<or> c + int (strlen (memory s) c) + 1 \<le> out r)"
  shows "opts s' = parse_cmdline (cstr (memory s) c) (opts s)
    \<and> (\<exists>n r r'. calls s' = calls s @ [(AllocatePool EfiLoaderData n, r), (FreePool (out r), r')])"
  by (rule parse_options_effect [OF assms])

definition demo_line :: mem where
  "demo_line = put_bytes (\<lambda>_. 0) 4096 (str ''efi=novamap noinitrd'')"

theorem parse_options_applies_witness:
  "efi_novamap (opts (snd (efi_parse_options demo_fw 4096 (demo_stub demo_line 65536))))"
proof -
  define P where "P = efi_parse_options demo_fw 4096 (demo_stub demo_line 65536)"
  have n: "strnlen demo_line 4096 1023 = 20" by code_simp
  have "fst P = EFI_SUCCESS"
    using n by (simp add: P_def efi_parse_options_def demo_stub_def Let_def efi_bs_call_def fw_reply_def)
  then have P: "P = (EFI_SUCCESS, snd P)" by (cases P) simp
  have c: "map (\<lambda>(c, r). (c, out r)) (calls (snd P)) = [(AllocatePool 2 21, 65536), (FreePool 65536, 0)]"
    using n by (simp add: P_def efi_parse_options_def demo_stub_def Let_def efi_bs_call_def fw_reply_def)
  have len: "strlen demo_line 4096 = 20" by code_simp
  have "0 \<le> out r \<and> out r + n < ADDR_LIMIT \<and> (out r + n \<le> 4096 \<or> 4096 + int (strlen demo_line 4096) + 1 \<le> out r)"
    if "(AllocatePool a n, r) \<in> set (calls (snd P))" for a n r
  proof -
    have "(AllocatePool a n, out r) \<in> set (map (\<lambda>(c, r). (c, out r)) (calls (snd P)))"
      using that by (auto intro: rev_image_eqI)
    then show ?thesis unfolding c len by simp
  qed
  then have "opts (snd P) = parse_cmdline (cstr demo_line 4096) initial_options"
    using parse_options_applies [OF P [unfolded P_def], folded P_def] demo_fw_leaves_alone
    by (simp add: demo_stub_def)
  moreover have "efi_novamap (parse_cmdline (cstr demo_line 4096) initial_options)" by code_simp
  ultimately show ?thesis by (simp add: P_def)
qed

section \<open>Secure boot\<close>

text \<open>
  C26: \<open>efi_get_secureboot\<close> reports secure boot as enabled exactly when the firmware has it switched
  on, is not in setup mode, and the shim's volatile variable does not turn it off; otherwise as
  disabled.
\<close>

theorem secureboot_follows_variables:
  assumes "answers fw vars" "no_data fw"
  shows "fst (efi_get_secureboot fw s) =
    (if boot_is_insecure vars then efi_secureboot_mode_disabled else efi_secureboot_mode_enabled)"
  by (rule secureboot_policy [OF assms])

fun secure_fw :: "unit firmware" where
  "secure_fw (GetVariable n g k) m w =
     (if n = ''SecureBoot'' then (\<lparr>status = EFI_SUCCESS, out = 0, attr = 6, data = [1], map_size = 0, map_key = 0,
         desc_size = 0, desc_ver = 0\<rparr>, m, w)
      else (fw_reply EFI_NOT_FOUND 0, m, w))"
| "secure_fw c m w = (fw_reply EFI_UNSUPPORTED 0, m, w)"

theorem secureboot_follows_variables_witness:
  "fst (efi_get_secureboot secure_fw \<lparr>memory = \<lambda>_. 0, world = (), calls = []\<rparr>) = efi_secureboot_mode_enabled"
proof -
  define vars :: variables where "vars = (\<lambda>n g. if n = ''SecureBoot'' then Some (6, 1) else None)"
  have "answers secure_fw vars" by (simp add: answers_def vars_def fw_reply_def)
  moreover have "no_data secure_fw"
    unfolding no_data_def
  proof (intro allI impI)
    fix c m w
    show "status (fst (secure_fw c m w)) = EFI_NOT_FOUND \<Longrightarrow> data (fst (secure_fw c m w)) = []"
      by (cases c) (auto simp: fw_reply_def split: if_splits)
  qed
  moreover have "\<not> boot_is_insecure vars" by (simp add: boot_is_insecure_def value_of_def vars_def)
  ultimately show ?thesis using secureboot_follows_variables [of secure_fw vars] by simp
qed

end
