(* ===== verification/Stub.thy ===== *)
theory Stub
  imports Helper Fdt_Rw Fdt_Sw
begin

text \<open>
  The driver of the stub: \<open>apps/stub.c\<close>, \<open>apps/fdt.c\<close>, the jump of \<open>apps/riscv-stub.c\<close> and \<open>efi_main\<close>
  of \<open>apps/dragon_stub-main.c\<close>.

  The addresses of the linker's symbols are a parameter. What the program comes to is an \<open>outcome\<close>:
  a status returned to the firmware, the jump to the kernel, or the endless loop of \<open>efi_todo\<close>
  (\<open>printk.h\<close>) at the end of \<open>efi_main\<close>. A result \<open>None\<close> is a loop before that which does not end.
\<close>

record symbols =
  sym_start :: addr
  sym_image_end :: addr
  sym_payload_start :: addr
  sym_payload_end :: addr

datatype outcome =
    Returned int
  | Entered int int addr \<comment> \<open>entry, hart, device tree\<close>
  | Halted

section \<open>Command line and payload\<close>

text \<open>
  The status and the value left in \<open>*cmdline_ptr\<close>. The failing path frees \<open>cmdline_ptr\<close>, the address
  of the caller's variable, which is the parameter \<open>cmdline_var\<close>, not the buffer.
\<close>

definition efi_handle_cmdline ::
  "'w firmware \<Rightarrow> addr \<Rightarrow> addr \<Rightarrow> ('w, 'z) stub_scheme \<Rightarrow> int \<times> addr \<times> ('w, 'z) stub_scheme" where
  "efi_handle_cmdline fw loaded_image cmdline_var s =
     (case efi_convert_cmdline fw loaded_image s of
        (None, s) \<Rightarrow> (EFI_OUT_OF_RESOURCES, 0, s)
      | (Some (cmdline, cmdline_size), s) \<Rightarrow>
          (if cmdline_size > 0
           then (case efi_parse_options fw cmdline s of
                   (st, s) \<Rightarrow>
                     if st \<noteq> EFI_SUCCESS then (st, 0, snd (efi_bs_call fw (FreePool cmdline_var) s))
                     else (EFI_SUCCESS, cmdline, s))
           else (EFI_SUCCESS, cmdline, s)))"

definition init_efi_program_info :: "symbols \<Rightarrow> addr \<Rightarrow> ('w, 'z) stub_scheme \<Rightarrow> int \<times> ('w, 'z) stub_scheme" where
  "init_efi_program_info lnk loaded_image s =
     (EFI_SUCCESS, s\<lparr>image_base := ImageBase (memory s) loaded_image,
        image_size := ImageSize (memory s) loaded_image, image_end := sym_image_end lnk\<rparr>)"

definition payload_info_new :: "int \<Rightarrow> int \<Rightarrow> payload_info" where
  "payload_info_new addr size0 =
     \<lparr>payload_addr = addr, payload_size = size0, loaded_paddr = 0, loaded_size = 0, kernel_entry = 0\<rparr>"

definition find_elf :: "symbols \<Rightarrow> payload_info \<Rightarrow> mem \<Rightarrow> int \<times> payload_info" where
  "find_elf lnk info m =
     (let payload_start = sym_payload_start lnk; payload_end = sym_payload_end lnk;
          payload_size = u64 (payload_end - payload_start)
      in if payload_start = 0 \<or> payload_end \<le> u64 (payload_start + 4) \<or> payload_size = 0
         then (EFI_NOT_FOUND, info)
         else if elf_check m payload_start payload_size
         then (EFI_SUCCESS, info\<lparr>payload_addr := payload_start, payload_size := payload_size\<rparr>)
         else (EFI_NOT_FOUND, info))"

definition find_payload ::
  "symbols \<Rightarrow> addr \<Rightarrow> payload_info \<Rightarrow> ('w, 'z) stub_scheme \<Rightarrow> int \<times> payload_info \<times> ('w, 'z) stub_scheme" where
  "find_payload lnk loaded_image ret_info s =
     (case init_efi_program_info lnk loaded_image s of
        (st, s) \<Rightarrow>
          if st \<noteq> EFI_SUCCESS then (st, ret_info, s)
          else
            (case find_elf lnk (payload_info_new 0 0) (memory s) of
               (st, info) \<Rightarrow> if st \<noteq> EFI_SUCCESS then (st, ret_info, s) else (EFI_SUCCESS, info, s)))"

section \<open>The virtual memory map\<close>

text \<open>The fields of a memory descriptor, and addresses for the runtime services.\<close>

definition PhysicalStart :: "mem \<Rightarrow> addr \<Rightarrow> int" where "PhysicalStart m d = ld_le m (d + 8) 8"
definition VirtualStart :: "mem \<Rightarrow> addr \<Rightarrow> int" where "VirtualStart m d = ld_le m (d + 16) 8"
definition NumberOfPages :: "mem \<Rightarrow> addr \<Rightarrow> int" where "NumberOfPages m d = ld_le m (d + 24) 8"
definition Attribute :: "mem \<Rightarrow> addr \<Rightarrow> int" where "Attribute m d = ld_le m (d + 32) 8"

abbreviation (input) EFI_MEMORY_RUNTIME :: int where "EFI_MEMORY_RUNTIME \<equiv> 0x8000000000000000"
abbreviation (input) EFI_RT_VIRTUAL_BASE :: int where "EFI_RT_VIRTUAL_BASE \<equiv> 0x20000000"
abbreviation (input) EFI_RT_VIRTUAL_OFFSET :: int where "EFI_RT_VIRTUAL_OFFSET \<equiv> 0"
abbreviation (input) SZ_64K :: int where "SZ_64K \<equiv> 65536"
abbreviation (input) SZ_2M :: int where "SZ_2M \<equiv> 2097152"

definition round_down :: "int \<Rightarrow> int \<Rightarrow> int" where
  "round_down x y = x AND NOT (y - 1)"

definition IS_ALIGNED :: "int \<Rightarrow> int \<Rightarrow> bool" where
  "IS_ALIGNED x a \<longleftrightarrow> x AND (a - 1) = 0"

text \<open>The status, \<open>*virtmap\<close>, \<open>*desc_size\<close> and \<open>*desc_ver\<close>.\<close>

definition efi_alloc_virtmap ::
  "'w firmware \<Rightarrow> addr \<Rightarrow> ('w, 'z) efi_scheme \<Rightarrow> int \<times> addr \<times> int \<times> int \<times> ('w, 'z) efi_scheme" where
  "efi_alloc_virtmap fw virtmap s =
     (case efi_bs_call fw (GetMemoryMap 0 None) s of
        (r, s) \<Rightarrow>
          if status r \<noteq> EFI_BUFFER_TOO_SMALL then (EFI_LOAD_ERROR, virtmap, desc_size r, desc_ver r, s)
          else
            (case efi_bs_call fw (AllocatePool EfiLoaderData (map_size r)) s of
               (a, s) \<Rightarrow> (status a, if status a = EFI_SUCCESS then out a else virtmap, desc_size r, desc_ver r, s)))"

text \<open>
  One runtime region: the descriptor with its virtual address, and the next free virtual address.
  \<open>flat_va_mapping\<close> is false because the offset is zero.
\<close>

definition assign_virtual :: "mem \<Rightarrow> addr \<Rightarrow> int \<Rightarrow> mem \<times> int" where
  "assign_virtual m d efi_virt_base =
     (let size0 = u64 (NumberOfPages m d * EFI_PAGE_SIZE);
          paddr = round_down (PhysicalStart m d) SZ_64K;
          size0 = u64 (size0 + u64 (PhysicalStart m d - paddr));
          efi_virt_base = (if IS_ALIGNED (PhysicalStart m d) SZ_2M \<and> size0 \<ge> SZ_2M
                           then round_up efi_virt_base SZ_2M else round_up efi_virt_base SZ_64K)
      in (st_le m (d + 16) 8 (u64 (VirtualStart m d + u64 (efi_virt_base - paddr))),
          u64 (efi_virt_base + size0)))"

text \<open>The offset \<open>l\<close> is an \<open>int\<close>, compared with a 64-bit size. The memory and \<open>*count\<close>.\<close>

partial_function (option) virtmap_loop ::
  "bool \<Rightarrow> addr \<Rightarrow> int \<Rightarrow> int \<Rightarrow> mem \<Rightarrow> int \<Rightarrow> addr \<Rightarrow> int \<Rightarrow> int \<Rightarrow> (mem \<times> int) option" where
  "virtmap_loop novamap memory_map map_sz desc_sz m l dst efi_virt_base cnt =
     (if u64 l < map_sz then
        (let d = memory_map + l; l' = s32 (u64 l + desc_sz)
         in if Attribute m d AND EFI_MEMORY_RUNTIME = 0
            then virtmap_loop novamap memory_map map_sz desc_sz m l' dst efi_virt_base cnt
            else
              (let m = st_le m (d + 16) 8 (u64 (PhysicalStart m d + EFI_RT_VIRTUAL_OFFSET))
               in if novamap then virtmap_loop novamap memory_map map_sz desc_sz m l' dst efi_virt_base cnt
                  else
                    (case assign_virtual m d efi_virt_base of
                       (m, efi_virt_base) \<Rightarrow>
                         virtmap_loop novamap memory_map map_sz desc_sz (memcpy m dst d (nat desc_sz)) l'
                           (dst + desc_sz) efi_virt_base (s32 (cnt + 1)))))
      else Some (m, cnt))"

definition efi_get_virtmap ::
  "addr \<Rightarrow> int \<Rightarrow> int \<Rightarrow> addr \<Rightarrow> ('w, 'z) stub_scheme \<Rightarrow> (int \<times> ('w, 'z) stub_scheme) option" where
  "efi_get_virtmap memory_map map_sz desc_sz runtime_map s = do {
     (m, cnt) \<leftarrow> virtmap_loop (efi_novamap (opts s)) memory_map map_sz desc_sz (memory s) 0 runtime_map
                     (virtmap_base s) 0;
     Some (cnt, s\<lparr>memory := m\<rparr>)
   }"

section \<open>Tables\<close>

definition LINUX_EFI_MEMRESERVE_TABLE_GUID :: guid where
  "LINUX_EFI_MEMRESERVE_TABLE_GUID =
     MAKE_EFI_GUID 0x888eb0c6 0x8ede 0x4ff5 [0xa8, 0xf0, 0x9a, 0xee, 0x5c, 0xb9, 0x77, 0xc2]"
definition EFI_RT_PROPERTIES_TABLE_GUID :: guid where
  "EFI_RT_PROPERTIES_TABLE_GUID =
     MAKE_EFI_GUID 0xeb66918a 0x7eef 0x402a [0x84, 0x2e, 0x93, 0x1d, 0x21, 0xc3, 0x8a, 0xe9]"
definition LoadedImageProtocol :: guid where
  "LoadedImageProtocol =
     MAKE_EFI_GUID 0x5B1B31A1 0x9562 0x11d2 [0x8E, 0x3F, 0x00, 0xA0, 0xC9, 0x69, 0x72, 0x3B]"

text \<open>\<open>struct linux_efi_memreserve\<close>: \<open>size\<close>, \<open>count\<close> and \<open>next\<close> in 16 bytes.\<close>

definition install_memreserve_table :: "'w firmware \<Rightarrow> ('w, 'z) efi_scheme \<Rightarrow> ('w, 'z) efi_scheme" where
  "install_memreserve_table fw s =
     (case efi_bs_call fw (AllocatePool EfiLoaderData 16) s of
        (r, s) \<Rightarrow>
          if status r \<noteq> EFI_SUCCESS then s
          else
            (let rsv = out r; m = st_le (memory s) (rsv + 8) 8 0; m = st_le m rsv 4 0; m = st_le m (rsv + 4) 4 0
             in snd (efi_bs_call fw (InstallConfigurationTable LINUX_EFI_MEMRESERVE_TABLE_GUID (Some rsv))
                       (s\<lparr>memory := m\<rparr>))))"

abbreviation (input) EFI_RT_SUPPORTED_ALL :: int where "EFI_RT_SUPPORTED_ALL \<equiv> 0x3fff"
abbreviation (input) EFI_RT_SUPPORTED_SET_VIRTUAL_ADDRESS_MAP :: int where
  "EFI_RT_SUPPORTED_SET_VIRTUAL_ADDRESS_MAP \<equiv> 0x0080"

definition get_supported_rt_services :: "('w, 'z) stub_scheme \<Rightarrow> int" where
  "get_supported_rt_services s =
     (let rt_prop_table = get_efi_config_table EFI_RT_PROPERTIES_TABLE_GUID s
      in if rt_prop_table \<noteq> 0 then EFI_RT_SUPPORTED_ALL AND ld_le (memory s) (rt_prop_table + 4) 4
         else EFI_RT_SUPPORTED_ALL)"

section \<open>The device tree for the kernel\<close>

definition fdt_update_cell_size :: "mem \<Rightarrow> addr \<Rightarrow> mem option" where
  "fdt_update_cell_size m fdt = do {
     offset \<leftarrow> fdt_path_offset m fdt (str ''/'');
     let m = snd (fdt_setprop m fdt offset (str ''#address-cells'') (be32 2));
     Some (snd (fdt_setprop m fdt offset (str ''#size-cells'') (be32 2)))
   }"

definition update_fdt_memmap :: "mem \<Rightarrow> addr \<Rightarrow> addr \<Rightarrow> (int \<times> mem) option" where
  "update_fdt_memmap m fdt map0 = do {
     node \<leftarrow> fdt_path_offset m fdt (str ''/chosen'');
     if node < 0 then Some (EFI_LOAD_ERROR, m)
     else
       (case fdt_setprop_inplace m fdt node (str ''linux,uefi-mmap-start'') (be64 (map0 + SIZEOF_BOOT_MEMMAP)) of
          (err, m) \<Rightarrow>
            if err \<noteq> 0 then Some (EFI_LOAD_ERROR, m)
            else
              (case fdt_setprop_inplace m fdt node (str ''linux,uefi-mmap-size'') (be32 (mm_map_size m map0)) of
                 (err, m) \<Rightarrow>
                   if err \<noteq> 0 then Some (EFI_LOAD_ERROR, m)
                   else
                     (case fdt_setprop_inplace m fdt node (str ''linux,uefi-mmap-desc-size'') (be32 (mm_desc_size m map0)) of
                        (err, m) \<Rightarrow>
                          if err \<noteq> 0 then Some (EFI_LOAD_ERROR, m)
                          else
                            (case fdt_setprop_inplace m fdt node (str ''linux,uefi-mmap-desc-ver'') (be32 (mm_desc_ver m map0)) of
                               (err, m) \<Rightarrow>
                                 if err \<noteq> 0 then Some (EFI_LOAD_ERROR, m) else Some (EFI_SUCCESS, m)))))
   }"

text \<open>\<open>while (num_rsv-- > 0) fdt_del_mem_rsv(fdt, num_rsv);\<close>\<close>

fun del_mem_rsvs :: "mem \<Rightarrow> addr \<Rightarrow> nat \<Rightarrow> mem option" where
  "del_mem_rsvs m fdt 0 = Some m"
| "del_mem_rsvs m fdt (Suc n) = do { (_, m) \<leftarrow> fdt_del_mem_rsv m fdt (int n); del_mem_rsvs m fdt n }"

text \<open>Calls of \<open>fdt_setprop\<close> in a row, up to the first that fails.\<close>

fun setprops :: "mem \<Rightarrow> addr \<Rightarrow> int \<Rightarrow> (byte list \<times> byte list) list \<Rightarrow> int \<times> mem" where
  "setprops m fdt node [] = (0, m)"
| "setprops m fdt node ((name, val) # ps) =
     (case fdt_setprop m fdt node name val of
        (st, m) \<Rightarrow> if st \<noteq> 0 then (st, m) else setprops m fdt node ps)"

definition fdt_set_fail :: "int \<Rightarrow> int" where
  "fdt_set_fail st = (if st = - FDT_ERR_NOSPACE then EFI_BUFFER_TOO_SMALL else EFI_LOAD_ERROR)"

text \<open>Behind \<open>fdt_open_into\<close> and its alternative. \<open>CONFIG_RANDOMIZE_BASE\<close> is not set in the build.\<close>

definition update_fdt_nodes :: "mem \<Rightarrow> addr \<Rightarrow> addr \<Rightarrow> addr \<Rightarrow> (int \<times> mem) option" where
  "update_fdt_nodes m fdt cmdline_ptr st0 = do {
     num_rsv \<leftarrow> fdt_num_mem_rsv m fdt;
     m \<leftarrow> del_mem_rsvs m fdt (nat num_rsv);
     let node = fdt_subnode_offset m fdt 0 (str ''chosen'');
     let (node, m) = (if node < 0 then fdt_add_subnode m fdt 0 (str ''chosen'') else (node, m));
     if node < 0 then Some (fdt_set_fail node, m)
     else
       (case (if cmdline_ptr \<noteq> 0 \<and> strlen m cmdline_ptr > 0
              then fdt_setprop m fdt node (str ''bootargs'') (bytes_at m cmdline_ptr (strlen m cmdline_ptr + 1))
              else (0, m)) of
          (st, m) \<Rightarrow>
            if st \<noteq> 0 then Some (fdt_set_fail st, m)
            else
              (let node = fdt_subnode_offset m fdt 0 (str ''chosen'')
               in case setprops m fdt node
                    [(str ''linux,uefi-system-table'', be64 st0),
                     (str ''linux,uefi-mmap-start'', be64 UINT64_MAX),
                     (str ''linux,uefi-mmap-size'', be32 UINT32_MAX),
                     (str ''linux,uefi-mmap-desc-size'', be32 UINT32_MAX),
                     (str ''linux,uefi-mmap-desc-ver'', be32 UINT32_MAX)] of
                 (st, m) \<Rightarrow>
                   if st \<noteq> 0 then Some (fdt_set_fail st, m)
                   else do { (_, m) \<leftarrow> fdt_pack m fdt; Some (EFI_SUCCESS, m) }))
   }"

definition update_fdt :: "mem \<Rightarrow> addr \<Rightarrow> int \<Rightarrow> addr \<Rightarrow> int \<Rightarrow> addr \<Rightarrow> addr \<Rightarrow> (int \<times> mem) option" where
  "update_fdt m orig_fdt orig_fdt_size fdt new_fdt_size cmdline_ptr st0 =
     (if orig_fdt \<noteq> 0 \<and> fdt_check_header m orig_fdt \<noteq> 0 then Some (EFI_LOAD_ERROR, m)
      else if orig_fdt \<noteq> 0 \<and> orig_fdt_size \<noteq> 0 \<and> fdt_totalsize m orig_fdt > orig_fdt_size
      then Some (EFI_LOAD_ERROR, m)
      else do {
        (st, m) \<leftarrow> (if orig_fdt \<noteq> 0 then fdt_open_into m orig_fdt fdt new_fdt_size
                   else do {
                     (st, m) \<leftarrow> fdt_create_empty_tree m fdt new_fdt_size;
                     m \<leftarrow> (if st = 0 then fdt_update_cell_size m fdt else Some m);
                     Some (st, m)
                   });
        if st \<noteq> 0 then Some (fdt_set_fail st, m) else update_fdt_nodes m fdt cmdline_ptr st0
      })"

text \<open>The device tree of the firmware and \<open>*fdt_size\<close>, which stays as it was when there is none.\<close>

definition get_fdt :: "int \<Rightarrow> ('w, 'z) stub_scheme \<Rightarrow> addr \<times> int" where
  "get_fdt fdt_size s =
     (let fdt = get_efi_config_table DEVICE_TREE_GUID s
      in if fdt = 0 then (0, fdt_size)
         else if fdt_check_header (memory s) fdt \<noteq> 0 then (0, fdt_size)
         else (fdt, fdt_totalsize (memory s) fdt))"

section \<open>The last steps\<close>

record exit_boot_struct =
  boot_memmap :: addr
  runtime_map :: addr
  runtime_entry_count :: int
  new_fdt_addr :: addr

definition exit_boot_func :: "(exit_boot_struct, ('w, 'z) stub_scheme) map_processing" where
  "exit_boot_func map0 p s = do {
     let p = p\<lparr>boot_memmap := map0\<rparr>;
     (cnt, s) \<leftarrow> efi_get_virtmap (map0 + SIZEOF_BOOT_MEMMAP) (mm_map_size (memory s) map0)
                     (mm_desc_size (memory s) map0) (runtime_map p) s;
     let p = p\<lparr>runtime_entry_count := cnt\<rparr>;
     (st, m) \<leftarrow> update_fdt_memmap (memory s) (new_fdt_addr p) map0;
     Some (st, p, s\<lparr>memory := m\<rparr>)
   }"

text \<open>Marks the runtime regions of the map as not translated.\<close>

partial_function (option) unmap_loop :: "addr \<Rightarrow> mem \<Rightarrow> int \<Rightarrow> mem option" where
  "unmap_loop map0 m l =
     (if u64 l < mm_map_size m map0 then
        (let p = map0 + SIZEOF_BOOT_MEMMAP + l;
             m = (if Attribute m p AND EFI_MEMORY_RUNTIME \<noteq> 0 then st_le m (p + 16) 8 UINT64_MAX else m)
         in unmap_loop map0 m (s32 (u64 l + mm_desc_size m map0)))
      else Some m)"

abbreviation (input) MAX_FDT_SIZE :: int where "MAX_FDT_SIZE \<equiv> 2097152"

text \<open>Behind the labels \<open>fail_free_new_fdt\<close> and \<open>fail\<close>.\<close>

definition fail_exit_boot ::
  "'w firmware \<Rightarrow> int \<Rightarrow> addr \<Rightarrow> addr \<Rightarrow> ('w, 'z) efi_scheme \<Rightarrow> ('w, 'z) efi_scheme" where
  "fail_exit_boot fw fdt_size fdt_addr rt_map s =
     snd (efi_bs_call fw (FreePool rt_map) (efi_free fw fdt_size fdt_addr s))"

text \<open>
  The status and \<open>*new_fdt_addr\<close>. The search for \<open>dtb=\<close> in the command line only prints a message:
  \<open>CONFIG_EFI_ARMSTUB_DTB_LOADER\<close> is not set.
\<close>

definition allocate_new_fdt_and_exit_boot ::
  "'w firmware \<Rightarrow> int \<Rightarrow> addr \<Rightarrow> addr \<Rightarrow> ('w, 'z) stub_scheme \<Rightarrow> (int \<times> addr \<times> ('w, 'z) stub_scheme) option" where
  "allocate_new_fdt_and_exit_boot fw handle new_fdt cmdline_ptr s =
     (let novamap = efi_novamap (opts s);
          (st, rt_map, desc_sz, desc_v, s) =
            (if \<not> novamap then efi_alloc_virtmap fw 0 s else (EFI_SUCCESS, 0, 0, 0, s))
      in if st \<noteq> EFI_SUCCESS then Some (st, new_fdt, s)
         else
           (let s = snd (efi_get_secureboot fw s);
                (fdt_addr, fdt_size) = get_fdt 0 s
            in case efi_allocate_pages fw MAX_FDT_SIZE new_fdt ULONG_MAX s of
                 (st, new_fdt, s) \<Rightarrow>
                   if st \<noteq> EFI_SUCCESS
                   then Some (EFI_LOAD_ERROR, new_fdt, fail_exit_boot fw fdt_size fdt_addr rt_map s)
                   else do {
                     (st, m) \<leftarrow> update_fdt (memory s) fdt_addr fdt_size new_fdt MAX_FDT_SIZE cmdline_ptr (system_table s);
                     let s = s\<lparr>memory := m\<rparr>;
                     if st \<noteq> EFI_SUCCESS
                     then Some (EFI_LOAD_ERROR, new_fdt,
                            fail_exit_boot fw fdt_size fdt_addr rt_map (efi_free fw MAX_FDT_SIZE new_fdt s))
                     else do {
                       (st, priv, s) \<leftarrow> efi_exit_boot_services fw handle
                          \<lparr>boot_memmap = 0, runtime_map = rt_map, runtime_entry_count = 0, new_fdt_addr = new_fdt\<rparr>
                          exit_boot_func s;
                       if st \<noteq> EFI_SUCCESS
                       then Some (EFI_LOAD_ERROR, new_fdt,
                              fail_exit_boot fw fdt_size fdt_addr rt_map (efi_free fw MAX_FDT_SIZE new_fdt s))
                       else if novamap then Some (EFI_SUCCESS, new_fdt, s)
                       else
                         (case efi_bs_call fw (SetVirtualAddressMap (u64 (runtime_entry_count priv * desc_sz)) desc_sz
                                 desc_v (runtime_map priv)) s of
                            (r, s) \<Rightarrow>
                              if status r \<noteq> EFI_SUCCESS then do {
                                m \<leftarrow> unmap_loop (boot_memmap priv) (memory s) 0;
                                Some (EFI_SUCCESS, new_fdt, s\<lparr>memory := m\<rparr>)
                              }
                              else Some (EFI_SUCCESS, new_fdt, s))
                     }
                   }))"

definition efi_enter_kernel :: "payload_info \<Rightarrow> addr \<Rightarrow> ('w, 'z) stub_scheme \<Rightarrow> outcome" where
  "efi_enter_kernel info fdt s = Entered (kernel_entry info) (hartid s) fdt"

definition efi_boot_kernel ::
  "'w firmware \<Rightarrow> symbols \<Rightarrow> int \<Rightarrow> payload_info \<Rightarrow> addr \<Rightarrow> ('w, 'z) stub_scheme \<Rightarrow>
   (outcome \<times> ('w, 'z) stub_scheme) option" where
  "efi_boot_kernel fw lnk handle info cmdline_ptr s =
     (case load_elf fw (sym_start lnk) (sym_image_end lnk) info s of
        (st, info, s) \<Rightarrow>
          if st \<noteq> EFI_SUCCESS then Some (Returned st, s)
          else do {
            (st, fdt_addr, s) \<leftarrow> allocate_new_fdt_and_exit_boot fw handle 0 cmdline_ptr s;
            if st \<noteq> EFI_SUCCESS then Some (Returned st, s)
            else Some (efi_enter_kernel info fdt_addr s, s)
          })"

definition efi_stub_common ::
  "'w firmware \<Rightarrow> symbols \<Rightarrow> int \<Rightarrow> payload_info \<Rightarrow> addr \<Rightarrow> ('w, 'z) stub_scheme \<Rightarrow>
   (outcome \<times> ('w, 'z) stub_scheme) option" where
  "efi_stub_common fw lnk handle info cmdline_ptr s = do {
     (st, s) \<leftarrow> check_platform_features fw s;
     if st \<noteq> EFI_SUCCESS then Some (Returned st, s)
     else
       (let novamap = efi_novamap (opts s)
              \<or> get_supported_rt_services s AND EFI_RT_SUPPORTED_SET_VIRTUAL_ADDRESS_MAP = 0;
            s = s\<lparr>opts := (opts s)\<lparr>efi_novamap := novamap\<rparr>\<rparr>;
            s = install_memreserve_table fw s
        in efi_boot_kernel fw lnk handle info cmdline_ptr s)
   }"

text \<open>
  \<open>cmdline_var\<close> is the address of the local variable \<open>cmdline_ptr\<close>. When \<open>efi_stub_common\<close> comes
  back, \<open>efi_main\<close> does not look at its status: \<open>efi_todo\<close> prints a message and loops for ever.
\<close>

definition efi_main ::
  "'w firmware \<Rightarrow> symbols \<Rightarrow> int \<Rightarrow> addr \<Rightarrow> ('w, 'z) stub_scheme \<Rightarrow> (outcome \<times> ('w, 'z) stub_scheme) option" where
  "efi_main fw lnk image_handle cmdline_var s =
     (case efi_bs_call fw (HandleProtocol image_handle LoadedImageProtocol) s of
        (r, s) \<Rightarrow>
          if EFI_ERROR (status r) then Some (Returned (status r), s)
          else
            (let loaded_image = out r
             in case efi_handle_cmdline fw loaded_image cmdline_var s of
                  (st, cmdline_ptr, s) \<Rightarrow>
                    if EFI_ERROR st then Some (Returned st, s)
                    else
                      (case find_payload lnk loaded_image (payload_info_new 0 0) s of
                         (st, payload, s) \<Rightarrow>
                           if EFI_ERROR st then Some (Returned st, s)
                           else do {
                             (res, s) \<leftarrow> efi_stub_common fw lnk image_handle payload cmdline_ptr s;
                             (case res of
                                Entered _ _ _ \<Rightarrow> Some (res, s)
                              | _ \<Rightarrow> Some (Halted, s))
                           })))"

end
