(* ===== verification/Stub_Calls.thy ===== *)
theory Stub_Calls
  imports Stub Helper_Spec
begin

text \<open>
  The way of the stub to the kernel, as the calls it makes: the boot services are alive when it returns
  and have ended, with nothing but \<open>SetVirtualAddressMap\<close> behind, when the kernel is entered.
\<close>

section \<open>Calls on the way\<close>

text \<open>A step is quiet when it adds calls but no \<open>ExitBootServices\<close> to the record.\<close>

abbreviation quiet :: "('w, 'y) efi_scheme \<Rightarrow> ('w, 'y) efi_scheme \<Rightarrow> bool" where
  "quiet s s' \<equiv> extends (\<lambda>x. \<not> is_exit (fst x)) (calls s) (calls s')"

lemma quiet_bs_call: "efi_bs_call fw c s = (r, s') \<Longrightarrow> \<not> is_exit c \<Longrightarrow> quiet s s'"
  by (rule extends_bs_call) simp_all

lemma extends_append: "list_all P new \<Longrightarrow> extends P a b \<Longrightarrow> extends P a (b @ new)"
  by (auto simp: extends_def)

lemma extends_self [simp]: "extends P a (a @ new) \<longleftrightarrow> list_all P new"
  by (simp add: extends_def)

lemma quiet_snd: "\<not> is_exit c \<Longrightarrow> quiet s (snd (efi_bs_call fw c s))"
  by (simp add: extends_snd)

lemma quiet_measure: "quiet s (snd (efi_measure_tagged_event fw a n e s))"
  unfolding efi_measure_tagged_event_def Let_def
  by (auto simp: extends_def split: prod.splits dest!: efi_bs_call_calls)

lemma quiet_convert: "efi_convert_cmdline fw img s = (r, s') \<Longrightarrow> quiet s s'"
  using quiet_measure [of s fw "LoadOptions (memory s) img" "LoadOptionsSize (memory s) img" EFISTUB_EVT_LOAD_OPTIONS]
  unfolding efi_convert_cmdline_def Let_def
  by (auto simp: extends_def split: prod.splits if_splits dest!: efi_bs_call_calls)

lemma quiet_parse: "efi_parse_options fw c s = (r, s') \<Longrightarrow> quiet s s'"
  unfolding efi_parse_options_def Let_def
  by (auto simp: extends_def split: prod.splits if_splits dest!: efi_bs_call_calls)

lemma quiet_handle: "efi_handle_cmdline fw img v s = (st, c, s') \<Longrightarrow> quiet s s'"
  unfolding efi_handle_cmdline_def Let_def
  by (auto split: prod.splits if_splits option.splits dest!: quiet_convert quiet_parse intro!: extends_append intro: extends_trans)

lemma calls_find_payload: "find_payload lnk img i s = (st, i', s') \<Longrightarrow> calls s' = calls s"
  unfolding find_payload_def init_efi_program_info_def find_elf_def
  by (auto simp: Let_def split: prod.splits if_splits)

lemma quiet_platform: "check_platform_features fw s = Some (st, s') \<Longrightarrow> quiet s s'"
  unfolding check_platform_features_def get_boot_hartid_from_efi_def get_boot_hartid_from_fdt_def Let_def
  by (auto simp: extends_def split: prod.splits if_splits option.splits Option.bind_splits dest!: efi_bs_call_calls)

lemma quiet_memreserve: "quiet s (install_memreserve_table fw s)"
  unfolding install_memreserve_table_def Let_def
  by (auto simp: extends_def split: prod.splits if_splits dest!: efi_bs_call_calls)

lemma quiet_free [simp]: "quiet s (efi_free fw n a s)"
  by (simp add: efi_free_def Let_def)

lemma quiet_aligned: "efi_allocate_pages_aligned fw n a m al t s = (st, a', s') \<Longrightarrow> quiet s s'"
  unfolding efi_allocate_pages_aligned_def Let_def
  by (auto simp: extends_def split: prod.splits if_splits dest!: efi_bs_call_calls)

lemma quiet_remap [simp]: "quiet s (efi_remap_image_all_rwx fw a n s)"
  unfolding efi_remap_image_all_rwx_def clear_if_def Let_def
  by (auto simp: extends_def split: prod.splits if_splits dest!: efi_bs_call_calls)

lemma quiet_update [simp]: "quiet s (s'\<lparr>memory := m\<rparr>) = quiet s s'" "quiet (s'\<lparr>memory := m\<rparr>) s = quiet s' s"
  by simp_all

lemma quiet_kernel_memory: "efi_allocate_kernel_memory fw ph n km s = (st, km', s') \<Longrightarrow> quiet s s'"
  unfolding efi_allocate_kernel_memory_def Let_def
  by (auto split: prod.splits if_splits sum.splits dest!: quiet_aligned intro: extends_trans [OF _ quiet_remap])

lemma quiet_load_program: "load_program fw ps pn ph n km s = (st, km', s') \<Longrightarrow> quiet s s'"
  unfolding load_program_def Let_def
  by (auto split: prod.splits if_splits dest!: quiet_kernel_memory intro!: extends_trans [OF _ quiet_free])

lemma quiet_load_elf: "load_elf fw a b i s = (st, i', s') \<Longrightarrow> quiet s s'"
  unfolding load_elf_def Let_def
  by (auto split: prod.splits if_splits sum.splits dest!: quiet_load_program efi_bs_call_calls
      intro!: extends_append extends_trans [OF _ quiet_remap])

lemma quiet_virtmap: "efi_alloc_virtmap fw v s = (st, v', d, k, s') \<Longrightarrow> quiet s s'"
  unfolding efi_alloc_virtmap_def
  by (auto simp: extends_def split: prod.splits if_splits dest!: efi_bs_call_calls)

lemma quiet_secureboot: "quiet s (snd (efi_get_secureboot fw s))"
  unfolding efi_get_secureboot_def efi_get_secureboot_mode_def
  by (auto simp: extends_def split: prod.splits if_splits dest!: efi_bs_call_calls)

lemma quiet_pages: "efi_allocate_pages fw n a m s = (st, a', s') \<Longrightarrow> quiet s s'"
  unfolding efi_allocate_pages_def Let_def
  by (auto simp: extends_def split: prod.splits if_splits dest!: efi_bs_call_calls)

lemma quiet_fail_exit_boot: "quiet s (fail_exit_boot fw n a v s)"
  unfolding fail_exit_boot_def by (auto intro!: extends_append)

section \<open>The last steps\<close>

text \<open>The callback of \<open>efi_exit_boot_services\<close> only writes to memory.\<close>

lemma exit_boot_func_calls:
  "exit_boot_func map0 p s = Some (st, p', s') \<Longrightarrow> calls s' = calls s"
  unfolding exit_boot_func_def efi_get_virtmap_def Let_def
  by (auto simp: bind_eq_Some_conv split: prod.splits)

interpretation exit_boot: map_callback exit_boot_func
  by unfold_locales (rule exit_boot_func_calls)

text \<open>
  A run that returns to the firmware has left its boot services alive. One that enters the kernel has
  ended them with its last call but one at most, which is then that of \<open>SetVirtualAddressMap\<close>.
\<close>

definition hands_over :: "(efi_call \<times> efi_reply) list \<Rightarrow> bool" where
  "hands_over new \<longleftrightarrow>
     (\<exists>pre h k r post. new = pre @ (ExitBootServices h k, r) # post
        \<and> boot_services_live pre \<and> status r = EFI_SUCCESS
        \<and> (post = [] \<or> (\<exists>n d v p a. post = [(SetVirtualAddressMap n d v p, a)])))"

lemma hands_over_live: "boot_services_live q \<Longrightarrow> hands_over new \<Longrightarrow> hands_over (q @ new)"
  unfolding hands_over_def
  apply clarify
  subgoal for pre h k r post by (rule exI [of _ "q @ pre"]) auto
  done

definition run_calls :: "bool \<Rightarrow> ('w, 'y) efi_scheme \<Rightarrow> ('w, 'y) efi_scheme \<Rightarrow> bool" where
  "run_calls entered s s' \<longleftrightarrow>
     (\<exists>new. calls s' = calls s @ new \<and> (if entered then hands_over new else boot_services_live new))"

lemma run_calls_quiet:
  assumes "quiet s s1" "run_calls b s1 s2"
  shows "run_calls b s s2"
proof -
  obtain q new where q: "calls s1 = calls s @ q" "boot_services_live q"
    and n: "calls s2 = calls s1 @ new" "if b then hands_over new else boot_services_live new"
    using assms live_quiet unfolding run_calls_def extends_def by blast
  then show ?thesis using hands_over_live [OF q(2)] by (cases b) (auto simp: run_calls_def)
qed

lemma run_calls_False: "quiet s s' \<Longrightarrow> run_calls False s s'"
  unfolding run_calls_def extends_def by (auto dest: live_quiet)

lemma hands_over_exit:
  assumes "boot_services_live pre" "status r = EFI_SUCCESS"
  shows "hands_over (pre @ [(ExitBootServices h k, r)])"
    and "hands_over (pre @ [(ExitBootServices h k, r), (SetVirtualAddressMap n d v p, a)])"
  using assms unfolding hands_over_def by blast+

lemma exit_boot_calls:
  assumes "efi_exit_boot_services fw h p exit_boot_func s = Some (st, p', s')"
  shows "st \<noteq> EFI_SUCCESS \<Longrightarrow> run_calls False s s'"
    and "st = EFI_SUCCESS \<Longrightarrow> run_calls True s s'"
    and "st = EFI_SUCCESS \<Longrightarrow> efi_bs_call fw (SetVirtualAddressMap n d v a) s' = (r, s2) \<Longrightarrow> run_calls True s s2"
  using exit_boot.success_ends_in_exit [OF assms]
  by (auto simp: run_calls_def intro: hands_over_exit dest!: efi_bs_call_calls split: if_splits)

lemma run_calls_after: "run_calls False s s1 \<Longrightarrow> quiet s1 s2 \<Longrightarrow> run_calls False s s2"
  unfolding run_calls_def extends_def by (auto dest: live_quiet)

lemma allocate_and_exit_calls:
  assumes "allocate_new_fdt_and_exit_boot fw h nf c s = Some (st, nf', s')"
  shows "run_calls (st = EFI_SUCCESS) s s'"
proof -
  define nov where "nov = efi_novamap (opts s)"
  obtain st1 rt dsz dv s1 where 1: "(if \<not> nov then efi_alloc_virtmap fw 0 s else (EFI_SUCCESS, 0, 0, 0, s)) = (st1, rt, dsz, dv, s1)"
    by (rule prod_cases5)
  have q1: "quiet s s1" using 1 by (auto split: if_splits dest: quiet_virtmap)
  define s2 where "s2 = snd (efi_get_secureboot fw s1)"
  have q2: "quiet s s2" unfolding s2_def by (rule extends_trans [OF q1 quiet_secureboot])
  obtain fa fs where 2: "get_fdt 0 s2 = (fa, fs)" by fastforce
  obtain st3 a3 s3 where 3: "efi_allocate_pages fw MAX_FDT_SIZE nf ULONG_MAX s2 = (st3, a3, s3)" by (rule prod_cases3)
  have q3: "quiet s s3" by (rule extends_trans [OF q2 quiet_pages [OF 3]])
  note unf = allocate_new_fdt_and_exit_boot_def Let_def nov_def [symmetric] 1 prod.case s2_def [symmetric] 2 3
  show ?thesis
  proof (cases "st1 = EFI_SUCCESS \<and> st3 = EFI_SUCCESS")
    case False
    then have "st \<noteq> EFI_SUCCESS" "quiet s s'"
      using assms q1 q3 extends_trans [OF q3 quiet_fail_exit_boot] unfolding unf by (auto split: if_splits)
    then show ?thesis by (simp add: run_calls_False)
  next
    case ok: True
    then obtain st4 m where 4: "update_fdt (memory s3) fa fs a3 MAX_FDT_SIZE c (system_table s3) = Some (st4, m)"
      using assms unfolding unf by (auto simp: bind_eq_Some_conv)
    define s4 where "s4 = s3\<lparr>memory := m\<rparr>"
    have q4: "quiet s s4" using q3 by (simp add: s4_def)
    show ?thesis
    proof (cases "st4 = EFI_SUCCESS")
      case False
      then have "st \<noteq> EFI_SUCCESS" "s' = fail_exit_boot fw fs fa rt (efi_free fw MAX_FDT_SIZE a3 s4)"
        using assms ok 4 unfolding unf by (auto simp: s4_def)
      moreover have "quiet s (fail_exit_boot fw fs fa rt (efi_free fw MAX_FDT_SIZE a3 s4))"
        by (rule extends_trans [OF extends_trans [OF q4 quiet_free] quiet_fail_exit_boot])
      ultimately show ?thesis by (simp add: run_calls_False)
    next
      case ok4: True
      define p where "p = \<lparr>boot_memmap = 0, runtime_map = rt, runtime_entry_count = 0, new_fdt_addr = a3\<rparr>"
      obtain st5 p5 s5 where 5: "efi_exit_boot_services fw h p exit_boot_func s4 = Some (st5, p5, s5)"
        using assms ok ok4 4 unfolding unf by (auto simp: bind_eq_Some_conv s4_def p_def)
      note e5 = exit_boot_calls [OF 5]
      show ?thesis
      proof (cases "st5 = EFI_SUCCESS")
        case False
        then have "st \<noteq> EFI_SUCCESS" "s' = fail_exit_boot fw fs fa rt (efi_free fw MAX_FDT_SIZE a3 s5)"
          using assms ok 4 ok4 5 unfolding unf by (auto simp: s4_def p_def)
        moreover have "quiet s5 (fail_exit_boot fw fs fa rt (efi_free fw MAX_FDT_SIZE a3 s5))"
          by (rule extends_trans [OF quiet_free quiet_fail_exit_boot])
        ultimately show ?thesis
          using run_calls_after [OF run_calls_quiet [OF q4 e5(1) [OF False]]] by simp
      next
        case ok5: True
        obtain r6 s6 where 6: "efi_bs_call fw (SetVirtualAddressMap (u64 (runtime_entry_count p5 * dsz)) dsz dv (runtime_map p5)) s5 = (r6, s6)"
          by fastforce
        have "st = EFI_SUCCESS \<and> (calls s' = calls s5 \<or> calls s' = calls s6)"
          using assms ok 4 ok4 5 ok5 6 unfolding unf
          by (auto simp: s4_def p_def bind_eq_Some_conv split: if_splits)
        then show ?thesis
          using run_calls_quiet [OF q4 e5(2) [OF ok5]] run_calls_quiet [OF q4 e5(3) [OF ok5 6]]
          by (auto simp: run_calls_def)
      qed
    qed
  qed
qed

definition entered :: "outcome \<Rightarrow> bool" where
  "entered res \<longleftrightarrow> (case res of Entered e h f \<Rightarrow> True | _ \<Rightarrow> False)"

lemma entered_simps [simp]: "\<not> entered (Returned st)" "\<not> entered Halted" "entered (Entered e h f)" "entered (efi_enter_kernel i f s)"
  by (simp_all add: entered_def efi_enter_kernel_def)

lemma boot_kernel_calls:
  assumes "efi_boot_kernel fw lnk h i c s = Some (res, s')"
  shows "run_calls (entered res) s s'"
proof -
  obtain st1 i1 s1 where 1: "load_elf fw (sym_start lnk) (sym_image_end lnk) i s = (st1, i1, s1)" by (rule prod_cases3)
  note q = quiet_load_elf [OF 1]
  show ?thesis
  proof (cases "st1 = EFI_SUCCESS")
    case False
    then show ?thesis using assms q unfolding efi_boot_kernel_def 1 prod.case by (auto intro: run_calls_False)
  next
    case True
    then obtain st2 f s2 where 2: "allocate_new_fdt_and_exit_boot fw h 0 c s1 = Some (st2, f, s2)"
      using assms unfolding efi_boot_kernel_def 1 prod.case by (auto simp: bind_eq_Some_conv)
    note r = run_calls_quiet [OF q allocate_and_exit_calls [OF 2]]
    then show ?thesis using assms True 2 unfolding efi_boot_kernel_def 1 prod.case by (auto split: if_splits)
  qed
qed

lemma stub_common_calls:
  assumes "efi_stub_common fw lnk h i c s = Some (res, s')"
  shows "run_calls (entered res) s s'"
proof -
  obtain st1 s1 where 1: "check_platform_features fw s = Some (st1, s1)"
    using assms by (auto simp: efi_stub_common_def bind_eq_Some_conv)
  note q = quiet_platform [OF 1]
  show ?thesis
  proof (cases "st1 = EFI_SUCCESS")
    case False
    then show ?thesis using assms q unfolding efi_stub_common_def 1 by (auto intro: run_calls_False)
  next
    case True
    then obtain s2 where 2: "calls s2 = calls s1" "efi_boot_kernel fw lnk h i c (install_memreserve_table fw s2) = Some (res, s')"
      using assms
      by (intro that [of "s1\<lparr>opts := (opts s1)\<lparr>efi_novamap := efi_novamap (opts s1)
            \<or> get_supported_rt_services s1 AND EFI_RT_SUPPORTED_SET_VIRTUAL_ADDRESS_MAP = 0\<rparr>\<rparr>"])
        (simp_all add: efi_stub_common_def 1 Let_def)
    have "quiet s (install_memreserve_table fw s2)"
      using extends_trans [OF q [folded 2(1)] quiet_memreserve] .
    then show ?thesis by (rule run_calls_quiet [OF _ boot_kernel_calls [OF 2(2)]])
  qed
qed

lemma main_calls:
  assumes "efi_main fw lnk h cv s = Some (res, s')"
  shows "run_calls (entered res) s s'"
proof -
  obtain r s1 where 1: "efi_bs_call fw (HandleProtocol h LoadedImageProtocol) s = (r, s1)" by fastforce
  obtain st2 c s2 where 2: "efi_handle_cmdline fw (out r) cv s1 = (st2, c, s2)" by (rule prod_cases3)
  obtain st3 i s3 where 3: "find_payload lnk (out r) (payload_info_new 0 0) s2 = (st3, i, s3)" by (rule prod_cases3)
  have q: "quiet s s1" "quiet s s2" "quiet s s3"
    using quiet_bs_call [OF 1] extends_trans [OF _ quiet_handle [OF 2]] calls_find_payload [OF 3] by auto
  note unf = efi_main_def 1 2 3 prod.case Let_def
  show ?thesis
  proof (cases "EFI_ERROR (status r) \<or> EFI_ERROR st2 \<or> EFI_ERROR st3")
    case True
    then show ?thesis using assms q unfolding unf by (auto intro: run_calls_False split: if_splits)
  next
    case False
    then obtain res4 s4 where 4: "efi_stub_common fw lnk h i c s3 = Some (res4, s4)"
      using assms unfolding unf by (auto simp: bind_eq_Some_conv)
    then have "s' = s4" "entered res = entered res4"
      using assms False unfolding unf by (auto split: outcome.splits)
    then show ?thesis using run_calls_quiet [OF q(3) stub_common_calls [OF 4]] by simp
  qed
qed

lemma boot_kernel_hart: "efi_boot_kernel fw lnk h i c s = Some (Entered e hart f, s') \<Longrightarrow> hart = hartid s'"
  unfolding efi_boot_kernel_def efi_enter_kernel_def
  by (auto simp: bind_eq_Some_conv split: prod.splits if_splits)

lemma stub_common_hart: "efi_stub_common fw lnk h i c s = Some (Entered e hart f, s') \<Longrightarrow> hart = hartid s'"
  unfolding efi_stub_common_def Let_def
  by (auto simp: bind_eq_Some_conv split: prod.splits if_splits dest!: boot_kernel_hart)

text \<open>A status that \<open>efi_main\<close> returns is an error, and the kernel gets the hart of the state.\<close>

lemma main_outcome:
  assumes "efi_main fw lnk h cv s = Some (res, s')"
  shows "case res of Returned st \<Rightarrow> EFI_ERROR st | Halted \<Rightarrow> True | Entered e hart f \<Rightarrow> hart = hartid s'"
proof -
  define Q where "Q = (case res of Returned st \<Rightarrow> EFI_ERROR st | Halted \<Rightarrow> True | Entered e hart f \<Rightarrow> hart = hartid s')"
  have error: "res = Returned st \<Longrightarrow> EFI_ERROR st \<Longrightarrow> Q" for st by (simp add: Q_def)
  have end_of_main: "Q" if "efi_stub_common fw lnk h i c s1 = Some (res1, s2)"
      "(case res1 of Entered _ _ _ \<Rightarrow> Some (res1, s2) | _ \<Rightarrow> Some (Halted, s2)) = Some (res, s')" for i c s1 res1 s2
    using that by (cases res1) (auto dest!: stub_common_hart simp: Q_def)
  have "Q"
    using assms unfolding efi_main_def Let_def
    by (auto simp: bind_eq_Some_conv split: prod.splits if_splits intro: error end_of_main)
  then show ?thesis by (simp add: Q_def)
qed

end
