(* ===== verification/Stub_Virtmap.thy ===== *)
theory Stub_Virtmap
  imports Stub
begin

text \<open>
  The virtual memory map for the runtime services. The reference is a function on lists of regions
  that gives each its virtual address; the loop over the firmware's map computes it. The addresses
  of the reference do not overlap and keep the alignment that the kernel's page tables need.
\<close>

section \<open>The reference\<close>

record region =
  phys :: int
  virt :: int
  pages :: int
  attrs :: int

abbreviation (input) align_up :: "int \<Rightarrow> int \<Rightarrow> int" where
  "align_up a x \<equiv> a * ((x + a - 1) div a)"

text \<open>The bytes from the 64 KB boundary below a region to its end.\<close>

definition span :: "region \<Rightarrow> int" where
  "span r = 4096 * pages r + phys r mod SZ_64K"

definition wants_block :: "region \<Rightarrow> bool" where
  "wants_block r \<longleftrightarrow> phys r mod SZ_2M = 0 \<and> SZ_2M \<le> span r"

definition window :: "int \<Rightarrow> region \<Rightarrow> int" where
  "window base r = align_up (if wants_block r then SZ_2M else SZ_64K) base"

primrec assign :: "int \<Rightarrow> region list \<Rightarrow> region list" where
  "assign base [] = []"
| "assign base (r # rs) =
     r\<lparr>virt := window base r + phys r mod SZ_64K\<rparr> # assign (window base r + span r) rs"

primrec assign_end :: "int \<Rightarrow> region list \<Rightarrow> int" where
  "assign_end base [] = base"
| "assign_end base (r # rs) = assign_end (window base r + span r) rs"

lemma window_bounds: "base \<le> window base r" "window base r < base + SZ_2M"
  using round_bounds [of SZ_2M base] round_bounds [of SZ_64K base] by (auto simp: window_def)

lemma window_mod: "window base r mod SZ_64K = 0" "wants_block r \<Longrightarrow> window base r mod SZ_2M = 0"
proof -
  have "SZ_2M * k mod SZ_64K = 0" for k by (simp add: mod_eq_0_iff_dvd)
  then show "window base r mod SZ_64K = 0" by (simp add: window_def)
  show "wants_block r \<Longrightarrow> window base r mod SZ_2M = 0" by (simp add: window_def)
qed

definition valid_region :: "region \<Rightarrow> bool" where
  "valid_region r \<longleftrightarrow> 0 \<le> phys r \<and> 0 \<le> pages r"

lemma span_nonneg: "valid_region r \<Longrightarrow> 0 \<le> span r"
  by (simp add: span_def valid_region_def)

lemma assign_end_ge: "list_all valid_region rs \<Longrightarrow> base \<le> assign_end base rs"
proof (induction rs arbitrary: base)
  case (Cons r rs)
  then have "window base r + span r \<le> assign_end (window base r + span r) rs" by simp
  then show ?case using window_bounds(1) [of base r] span_nonneg [of r] Cons.prems by simp
qed simp

text \<open>The regions lie between the base and the end, one behind the other.\<close>

definition below :: "region \<Rightarrow> region \<Rightarrow> bool" where
  "below r q \<longleftrightarrow> virt r + 4096 * pages r \<le> virt q"

lemma assign_bounds:
  "list_all valid_region rs \<Longrightarrow> r \<in> set (assign base rs) \<Longrightarrow>
   base \<le> virt r \<and> virt r + 4096 * pages r \<le> assign_end base rs"
proof (induction rs arbitrary: base)
  case (Cons q rs)
  show ?case
  proof (cases "r = q\<lparr>virt := window base q + phys q mod SZ_64K\<rparr>")
    case True
    have "window base q + span q \<le> assign_end (window base q + span q) rs"
      by (rule assign_end_ge) (use Cons.prems in simp)
    then show ?thesis using True window_bounds(1) [of base q] Cons.prems
      by (simp add: span_def valid_region_def)
  next
    case False
    then have "r \<in> set (assign (window base q + span q) rs)" using Cons.prems by simp
    from Cons.IH [OF _ this] show ?thesis
      using Cons.prems window_bounds(1) [of base q] span_nonneg [of q] by simp
  qed
qed simp

lemma assign_sorted: "list_all valid_region rs \<Longrightarrow> sorted_wrt below (assign base rs)"
proof (induction rs arbitrary: base)
  case (Cons q rs)
  have "below (q\<lparr>virt := window base q + phys q mod SZ_64K\<rparr>) r" if "r \<in> set (assign (window base q + span q) rs)" for r
    using assign_bounds [OF _ that] Cons.prems by (simp add: below_def span_def)
  then show ?case using Cons by simp
qed simp

lemma assign_aligned:
  "r \<in> set (assign base rs) \<Longrightarrow>
   virt r mod SZ_64K = phys r mod SZ_64K \<and> (wants_block r \<longrightarrow> virt r mod SZ_2M = 0)"
proof (induction rs arbitrary: base)
  case (Cons q rs)
  show ?case
  proof (cases "r = q\<lparr>virt := window base q + phys q mod SZ_64K\<rparr>")
    case True
    have w: "wants_block r = wants_block q" by (simp add: True wants_block_def span_def)
    have "(window base q + phys q mod SZ_64K) mod SZ_64K = phys q mod SZ_64K"
      by (simp add: mod_add_eq [symmetric] window_mod(1))
    moreover have "virt r mod SZ_2M = 0" if "wants_block q"
    proof -
      have "SZ_2M dvd phys q" using that unfolding wants_block_def by (simp add: mod_eq_0_iff_dvd)
      then have "SZ_64K dvd phys q" by (rule dvd_trans [rotated]) simp
      then have "phys q mod SZ_64K = 0" by simp
      then show ?thesis using window_mod(2) [OF that] True by simp
    qed
    ultimately show ?thesis using w True by simp
  next
    case False
    then show ?thesis using Cons by simp
  qed
qed simp

lemma assign_fields:
  "map phys (assign base rs) = map phys rs" "map pages (assign base rs) = map pages rs"
  "map attrs (assign base rs) = map attrs rs" "length (assign base rs) = length rs"
  by (induction rs arbitrary: base) simp_all

section \<open>Regions in memory\<close>

definition region_at :: "mem \<Rightarrow> addr \<Rightarrow> region" where
  "region_at m d = \<lparr>phys = PhysicalStart m d, virt = VirtualStart m d, pages = NumberOfPages m d, attrs = Attribute m d\<rparr>"

lemma region_at_fields:
  "phys (region_at m d) = PhysicalStart m d" "virt (region_at m d) = VirtualStart m d"
  "pages (region_at m d) = NumberOfPages m d" "attrs (region_at m d) = Attribute m d"
  by (simp_all add: region_at_def)

primrec regions_at :: "mem \<Rightarrow> addr \<Rightarrow> int \<Rightarrow> nat \<Rightarrow> region list" where
  "regions_at m d sz 0 = []"
| "regions_at m d sz (Suc n) = region_at m d # regions_at m (d + sz) sz n"

definition is_runtime :: "region \<Rightarrow> bool" where
  "is_runtime r \<longleftrightarrow> attrs r AND EFI_MEMORY_RUNTIME \<noteq> 0"

text \<open>The addresses of \<open>n\<close> descriptors in a row, and of those of them that are for the runtime services.\<close>

primrec descs :: "addr \<Rightarrow> int \<Rightarrow> nat \<Rightarrow> addr list" where
  "descs d sz 0 = []"
| "descs d sz (Suc n) = d # descs (d + sz) sz n"

definition runtime_descs :: "mem \<Rightarrow> addr \<Rightarrow> int \<Rightarrow> nat \<Rightarrow> addr list" where
  "runtime_descs m d sz n = filter (\<lambda>d. is_runtime (region_at m d)) (descs d sz n)"

lemma descs_bounds: "0 \<le> sz \<Longrightarrow> x \<in> set (descs d sz n) \<Longrightarrow> d \<le> x \<and> x + sz \<le> d + sz * int n"
proof (induction n arbitrary: d)
  case (Suc n)
  have "0 \<le> sz * int n" using Suc.prems by simp
  then show ?case using Suc.prems Suc.IH [of "d + sz"] by (auto simp: algebra_simps)
qed simp

lemma filter_regions: "filter is_runtime (regions_at m d sz n) = map (region_at m) (runtime_descs m d sz n)"
  unfolding runtime_descs_def by (induction n arbitrary: d) simp_all

lemma region_at_agree: "agree lo hi m m' \<Longrightarrow> lo \<le> d \<Longrightarrow> d + 40 \<le> hi \<Longrightarrow> region_at m d = region_at m' d"
  unfolding region_at_def PhysicalStart_def VirtualStart_def NumberOfPages_def Attribute_def
  by (simp add: ld_le_agree)

lemma regions_at_agree:
  "agree lo hi m m' \<Longrightarrow> 40 \<le> sz \<Longrightarrow> lo \<le> d \<Longrightarrow> d + sz * int n \<le> hi \<Longrightarrow> regions_at m d sz n = regions_at m' d sz n"
proof (induction n arbitrary: d)
  case (Suc n)
  have "0 \<le> sz * int n" using Suc.prems by simp
  moreover have "sz * int (Suc n) = sz + sz * int n" by (simp add: algebra_simps)
  ultimately have "d + 40 \<le> hi" using Suc.prems by linarith
  then have "region_at m d = region_at m' d"
    using Suc.prems by (intro region_at_agree [of lo hi]) auto
  then show ?case using Suc.prems Suc.IH [of "d + sz"] by (simp add: algebra_simps)
qed simp

lemma region_at_valid: "valid_region (region_at m d)"
  by (simp add: valid_region_def region_at_def PhysicalStart_def NumberOfPages_def ld_le_bounds)

lemma regions_at_valid: "list_all valid_region (regions_at m d sz n)"
  by (induction n arbitrary: d) (simp_all add: region_at_valid)

section \<open>The loop\<close>

lemma SZ_pow: "SZ_64K = 2 ^ 16" "SZ_2M = 2 ^ 21"
  by simp_all

lemma round_down_64K: "round_down x SZ_64K = x - x mod SZ_64K"
  using and_not_pow [of x 16] by (simp add: round_down_def minus_mod_eq_mult_div)

lemma IS_ALIGNED_2M: "IS_ALIGNED x SZ_2M \<longleftrightarrow> x mod SZ_2M = 0"
  using and_pow [of x 21] by (simp add: IS_ALIGNED_def)

lemma assign_virtual_window:
  assumes v: "VirtualStart m d = PhysicalStart m d" and b: "0 \<le> base"
    and e: "window base (region_at m d) + span (region_at m d) < 18446744073709551616"
  shows "assign_virtual m d base =
    (st_le m (d + 16) 8 (window base (region_at m d) + PhysicalStart m d mod SZ_64K),
     window base (region_at m d) + span (region_at m d))"
proof -
  define p where "p = PhysicalStart m d"
  define n where "n = NumberOfPages m d"
  define w where "w = window base (region_at m d)"
  have pn: "0 \<le> p" "p < 18446744073709551616" "0 \<le> n"
    using ld_le_bounds [of m "d + 8" 8] ld_le_bounds [of m "d + 24" 8]
    by (simp_all add: p_def n_def PhysicalStart_def NumberOfPages_def)
  have sp: "span (region_at m d) = 4096 * n + p mod SZ_64K" by (simp add: span_def region_at_def p_def n_def)
  have pm: "0 \<le> p mod SZ_64K" "p mod SZ_64K < SZ_64K" "p mod SZ_64K \<le> p" using pn by (simp_all add: zmod_le_nonneg_dividend)
  have w: "base \<le> w" unfolding w_def by (rule window_bounds)
  have lim: "w + (4096 * n + p mod SZ_64K) < 18446744073709551616" using e by (simp add: w_def sp)
  have u: "u64 (n * 4096) = 4096 * n" "u64 (p mod SZ_64K) = p mod SZ_64K"
    "u64 (4096 * n + p mod SZ_64K) = 4096 * n + p mod SZ_64K" "u64 (w + (4096 * n + p mod SZ_64K)) = w + (4096 * n + p mod SZ_64K)"
    using pm pn w b lim by (simp_all add: u64_id)
  have wb: "wants_block (region_at m d) \<longleftrightarrow> p mod SZ_2M = 0 \<and> SZ_2M \<le> 4096 * n + p mod SZ_64K"
    by (simp add: wants_block_def sp) (simp add: region_at_def p_def)
  have r: "(if IS_ALIGNED p SZ_2M \<and> SZ_2M \<le> 4096 * n + p mod SZ_64K then round_up base SZ_2M else round_up base SZ_64K) = w"
  proof (cases "wants_block (region_at m d)")
    case True
    have "base + SZ_2M \<le> 18446744073709551616" using lim w wb True by simp
    then have "round_up base SZ_2M = w" using round_up_pow [of base 21] b True by (simp add: w_def window_def)
    then show ?thesis using True wb by (simp add: IS_ALIGNED_2M)
  next
    case False
    obtain k where k: "w = SZ_64K * k" using window_mod(1) [of base "region_at m d"] by (auto simp: w_def)
    then have "w + SZ_64K \<le> 18446744073709551616" using lim pm pn by simp
    then have "round_up base SZ_64K = w" using round_up_pow [of base 16] b w False by (simp add: w_def window_def)
    then show ?thesis using False wb by (auto simp: IS_ALIGNED_2M)
  qed
  have "u64 (p + u64 (w - (p - p mod SZ_64K))) = w + p mod SZ_64K"
  proof -
    have "u64 (p + u64 (w - (p - p mod SZ_64K))) = u64 (w + p mod SZ_64K)" by (simp add: u64_def mod_simps)
    also have "\<dots> = w + p mod SZ_64K" using lim pm pn w b by (intro u64_id) simp_all
    finally show ?thesis .
  qed
  then show ?thesis
    unfolding assign_virtual_def Let_def round_down_64K v p_def [symmetric] n_def [symmetric] w_def [symmetric] sp
    using r u by simp
qed

text \<open>One runtime region: what the body of the loop leaves.\<close>

lemma region_set_virt:
  assumes "0 \<le> v" "v < 18446744073709551616"
  shows "region_at (st_le m (d + 16) 8 v) d = (region_at m d)\<lparr>virt := v\<rparr>"
  using assms by (simp add: region_at_def PhysicalStart_def VirtualStart_def NumberOfPages_def Attribute_def mem_simps)

lemma window_span_virt [simp]:
  "window base (r\<lparr>virt := v\<rparr>) = window base r" "span (r\<lparr>virt := v\<rparr>) = span r" "is_runtime (r\<lparr>virt := v\<rparr>) = is_runtime r"
  by (simp_all add: window_def wants_block_def span_def is_runtime_def)

lemma bytes_at_copied_part:
  "0 \<le> i \<Longrightarrow> i + int n \<le> int k \<Longrightarrow> bytes_at (copied m dst src k) (dst + i) n = bytes_at m (src + i) n"
  by (rule nth_equalityI) (auto simp: copied_inside add.assoc)

lemma virtmap_step:
  assumes rt: "is_runtime (region_at m d)" and ds: "40 \<le> ds"
    and l: "0 \<le> l" "l + ds \<le> map_sz" "map_sz < 2147483648" and d: "d = mp + l"
    and b: "0 \<le> base" "window base (region_at m d) + span (region_at m d) < 18446744073709551616"
    and dst: "dst + ds \<le> d \<or> d + ds \<le> dst" and c: "0 \<le> cnt" "cnt + 1 < 2147483648"
  shows "\<exists>m'. virtmap_loop False mp map_sz ds m l dst base cnt
        = virtmap_loop False mp map_sz ds m' (l + ds) (dst + ds) (window base (region_at m d) + span (region_at m d)) (cnt + 1)
    \<and> region_at m' dst = (region_at m d)\<lparr>virt := window base (region_at m d) + phys (region_at m d) mod SZ_64K\<rparr>
    \<and> bytes_at m' dst (nat ds) = bytes_at m' d (nat ds)
    \<and> (\<forall>a. (a < d + 16 \<or> d + 24 \<le> a) \<and> (a < dst \<or> dst + ds \<le> a) \<longrightarrow> m' a = m a)"
proof -
  define r where "r = region_at m d"
  define w where "w = window base r"
  define m1 where "m1 = st_le m (d + 16) 8 (u64 (PhysicalStart m d + EFI_RT_VIRTUAL_OFFSET))"
  define m2 where "m2 = st_le m1 (d + 16) 8 (w + phys r mod SZ_64K)"
  have ph: "PhysicalStart m d = phys r" "0 \<le> phys r" "phys r < 18446744073709551616" "0 \<le> pages r"
    using ld_le_bounds [of m "d + 8" 8] ld_le_bounds [of m "d + 24" 8]
    by (simp_all add: r_def region_at_def PhysicalStart_def NumberOfPages_def)
  have m1: "region_at m1 d = r\<lparr>virt := phys r\<rparr>"
    unfolding m1_def r_def using ph by (subst region_set_virt) (simp_all add: u64_id r_def)
  then have f1: "PhysicalStart m1 d = phys r" "VirtualStart m1 d = phys r"
    using region_at_fields(1,2) [of m1 d] by simp_all
  have w: "0 \<le> w" "w + phys r mod SZ_64K < 18446744073709551616"
    using b window_bounds(1) [of base r] ph by (simp_all add: w_def r_def span_def)
  have m2: "region_at m2 d = r\<lparr>virt := w + phys r mod SZ_64K\<rparr>"
    unfolding m2_def using w m1 by (subst region_set_virt) simp_all
  have av: "assign_virtual m1 d base = (m2, w + span r)"
    using assign_virtual_window [of m1 d base] b f1 by (simp add: m1 w_def [symmetric] m2_def r_def [symmetric])
  have cp: "memcpy m2 dst d (nat ds) = copied m2 dst d (nat ds)" using dst ds by (intro memcpy_copied) auto
  have n: "s32 (u64 l + ds) = l + ds" "s32 (cnt + 1) = cnt + 1" "u64 l < map_sz"
    using l ds c by (simp_all add: u64_id s32_id)
  have a: "Attribute m d AND EFI_MEMORY_RUNTIME \<noteq> 0" using rt by (simp add: is_runtime_def region_at_def)
  have "virtmap_loop False mp map_sz ds m l dst base cnt
      = virtmap_loop False mp map_sz ds (memcpy m2 dst d (nat ds)) (l + ds) (dst + ds) (w + span r) (cnt + 1)"
    using a n by (subst virtmap_loop.simps) (simp add: d [symmetric] av [unfolded m1_def, simplified] Let_def)
  moreover have "region_at (memcpy m2 dst d (nat ds)) dst = region_at m2 d"
    using ds unfolding cp region_at_def PhysicalStart_def VirtualStart_def NumberOfPages_def Attribute_def ld_le_def
    by (simp add: bytes_at_copied_part)
  moreover have "bytes_at (memcpy m2 dst d (nat ds)) dst (nat ds) = bytes_at (memcpy m2 dst d (nat ds)) d (nat ds)"
  proof -
    have "bytes_at (copied m2 dst d (nat ds)) d (nat ds) = bytes_at m2 d (nat ds)"
      using dst by (intro bytes_at_eqI copied_outside) auto
    then show ?thesis unfolding cp by (simp add: bytes_at_copied)
  qed
  moreover have "memcpy m2 dst d (nat ds) a = m a" if "a < d + 16 \<or> d + 24 \<le> a" "a < dst \<or> dst + ds \<le> a" for a
    using that ds unfolding cp by (subst copied_outside) (auto simp: m2_def m1_def st_le_outside)
  ultimately show ?thesis unfolding m2 w_def r_def by blast
qed

lemma virtmap_skip:
  assumes rt: "\<not> is_runtime (region_at m d)" and d: "d = mp + l"
    and l: "0 \<le> l" "0 \<le> ds" "l + ds \<le> map_sz" "l < map_sz" "map_sz < 2147483648"
  shows "virtmap_loop novamap mp map_sz ds m l dst base cnt = virtmap_loop novamap mp map_sz ds m (l + ds) dst base cnt"
proof -
  have "s32 (u64 l + ds) = l + ds" "u64 l < map_sz" using l by (simp_all add: u64_id s32_id)
  moreover have "Attribute m d AND EFI_MEMORY_RUNTIME = 0" using rt by (simp add: is_runtime_def region_at_def)
  ultimately show ?thesis by (subst virtmap_loop.simps) (simp add: d [symmetric] Let_def)
qed

lemma virtmap_loop_assign:
  assumes "40 \<le> ds" "0 \<le> l" "map_sz = l + ds * int k" "map_sz < 2147483648"
    and "rs = filter is_runtime (regions_at m (mp + l) ds k)"
    and "dst + ds * int (length rs) \<le> mp + l \<or> mp + map_sz \<le> dst"
    and "0 \<le> base" "assign_end base rs < 18446744073709551616"
    and "0 \<le> cnt" "cnt + int (length rs) < 2147483648"
  shows "\<exists>m'. virtmap_loop False mp map_sz ds m l dst base cnt = Some (m', cnt + int (length rs))
    \<and> regions_at m' dst ds (length rs) = assign base rs
    \<and> list_all2 (\<lambda>q d. bytes_at m' q (nat ds) = bytes_at m' d (nat ds)) (descs dst ds (length rs)) (runtime_descs m (mp + l) ds k)
    \<and> (\<forall>a. (\<forall>d \<in> set (runtime_descs m (mp + l) ds k). a < d + 16 \<or> d + 24 \<le> a)
          \<and> (a < dst \<or> dst + ds * int (length rs) \<le> a) \<longrightarrow> m' a = m a)"
  using assms
proof (induction k arbitrary: l m dst base cnt rs)
  case 0
  then show ?case by (subst virtmap_loop.simps) (simp add: u64_id runtime_descs_def)
next
  case (Suc k)
  define d where "d = mp + l"
  define r where "r = region_at m d"
  define K where "K = ds * int k"
  have K: "0 \<le> K" "map_sz = l + ds + K" using Suc.prems by (simp_all add: K_def algebra_simps)
  have rs: "rs = filter is_runtime (r # regions_at m (mp + (l + ds)) ds k)"
    using Suc.prems(5) by (simp add: r_def d_def add.assoc)
  show ?case
  proof (cases "is_runtime r")
    case False
    have "virtmap_loop False mp map_sz ds m l dst base cnt = virtmap_loop False mp map_sz ds m (l + ds) dst base cnt"
      by (rule virtmap_skip [OF _ d_def]) (use False Suc.prems K in \<open>simp_all add: r_def\<close>)
    moreover have s: "dst + ds * int (length rs) \<le> mp + (l + ds) \<or> mp + map_sz \<le> dst" using Suc.prems(1,6) by linarith
    have "rs = filter is_runtime (regions_at m (mp + (l + ds)) ds k)" using rs False by simp
    note IH = Suc.IH [OF Suc.prems(1) _ _ Suc.prems(4) this s Suc.prems(7-10)]
    have "runtime_descs m (mp + l) ds (Suc k) = runtime_descs m (mp + (l + ds)) ds k"
      using False by (simp add: runtime_descs_def r_def d_def add.assoc)
    ultimately show ?thesis using IH Suc.prems(1,2) K by (simp add: K_def)
  next
    case True
    define rs' where "rs' = filter is_runtime (regions_at m (mp + (l + ds)) ds k)"
    define L where "L = ds * int (length rs')"
    define b' where "b' = window base r + span r"
    have rs': "rs = r # rs'" using rs True by (simp add: rs'_def)
    have L: "0 \<le> L" "ds * int (length rs) = ds + L" using Suc.prems(1) by (simp_all add: L_def rs' algebra_simps)
    have "list_all valid_region rs'" using regions_at_valid [of m "mp + (l + ds)" ds k] by (simp add: rs'_def list_all_iff)
    then have "b' \<le> assign_end base rs" using assign_end_ge [of rs' b'] by (simp add: rs' b'_def)
    moreover have "0 \<le> b'"
      using window_bounds(1) [of base r] span_nonneg [of r] region_at_valid [of m d] Suc.prems(7) by (simp add: b'_def r_def)
    ultimately have b': "0 \<le> b'" "b' < 18446744073709551616" using Suc.prems(8) by auto
    have sep: "dst + ds + L \<le> d \<or> d + ds + K \<le> dst" using Suc.prems(6) K L by (auto simp: d_def)
    obtain m3 where m3: "virtmap_loop False mp map_sz ds m l dst base cnt
          = virtmap_loop False mp map_sz ds m3 (l + ds) (dst + ds) b' (cnt + 1)"
        "region_at m3 dst = r\<lparr>virt := window base r + phys r mod SZ_64K\<rparr>"
        "bytes_at m3 dst (nat ds) = bytes_at m3 d (nat ds)"
        "\<And>a. (a < d + 16 \<or> d + 24 \<le> a) \<and> (a < dst \<or> dst + ds \<le> a) \<Longrightarrow> m3 a = m a"
    proof -
      have "l + ds \<le> map_sz" "dst + ds \<le> d \<or> d + ds \<le> dst" "cnt + 1 < 2147483648"
        using K L sep Suc.prems(10) by (auto simp: rs')
      from virtmap_step [OF True [unfolded r_def] Suc.prems(1,2) this(1) Suc.prems(4) d_def Suc.prems(7)
          b'(2) [unfolded b'_def r_def] this(2) Suc.prems(9) this(3)]
      show thesis using that unfolding r_def [symmetric] b'_def [symmetric] by blast
    qed
    have ag: "agree (d + ds) (d + ds + K) m m3" using sep L Suc.prems(1) by (auto intro!: m3(4) [symmetric])
    have rd: "runtime_descs m (d + ds) ds k = runtime_descs m3 (d + ds) ds k"
      unfolding runtime_descs_def
    proof (rule filter_cong [OF refl])
      fix x assume "x \<in> set (descs (d + ds) ds k)"
      then have "d + ds \<le> x" "x + ds \<le> d + ds + K" using descs_bounds [of ds x "d + ds" k] Suc.prems(1) by (auto simp: K_def)
      then show "is_runtime (region_at m x) = is_runtime (region_at m3 x)"
        using region_at_agree [OF ag, of x] Suc.prems(1) by simp
    qed
    have "rs' = filter is_runtime (regions_at m3 (mp + (l + ds)) ds k)"
      using regions_at_agree [OF ag Suc.prems(1), of "d + ds" k] by (simp add: rs'_def d_def K_def add.assoc)
    note IH = Suc.IH [OF Suc.prems(1) _ _ Suc.prems(4) this, of "dst + ds" b' "cnt + 1"]
    have p: "0 \<le> l + ds" "map_sz = l + ds + ds * int k" "dst + ds + ds * int (length rs') \<le> mp + (l + ds) \<or> mp + map_sz \<le> dst + ds"
      "assign_end b' rs' < 18446744073709551616" "0 \<le> cnt + 1" "cnt + 1 + int (length rs') < 2147483648"
      using Suc.prems(1,2,8,9,10) K sep by (auto simp: rs' b'_def K_def L_def d_def)
    have dl: "mp + (l + ds) = d + ds" by (simp add: d_def)
    obtain m' where m': "virtmap_loop False mp map_sz ds m3 (l + ds) (dst + ds) b' (cnt + 1) = Some (m', cnt + 1 + int (length rs'))"
      "regions_at m' (dst + ds) ds (length rs') = assign b' rs'"
      "list_all2 (\<lambda>q d. bytes_at m' q (nat ds) = bytes_at m' d (nat ds)) (descs (dst + ds) ds (length rs')) (runtime_descs m (d + ds) ds k)"
      "\<And>a. (\<forall>d \<in> set (runtime_descs m (d + ds) ds k). a < d + 16 \<or> d + 24 \<le> a) \<and> (a < dst + ds \<or> dst + ds + L \<le> a) \<Longrightarrow> m' a = m3 a"
      using IH [OF p(1-3) b'(1) p(4-6)] unfolding L_def rd dl by blast
    have low: "m' a = m3 a" if "a < d + ds" "a < dst + ds \<or> dst + ds + L \<le> a" for a
    proof (rule m'(4), intro conjI ballI)
      fix x assume "x \<in> set (runtime_descs m (d + ds) ds k)"
      then have "d + ds \<le> x" using descs_bounds [of ds x "d + ds" k] Suc.prems(1) by (auto simp: runtime_descs_def)
      then show "a < x + 16 \<or> x + 24 \<le> a" using that by linarith
    qed (rule that(2))
    have out: "m' a = m3 a" if "dst \<le> a" "a < dst + ds" for a
    proof (rule m'(4), intro conjI ballI)
      fix x assume "x \<in> set (runtime_descs m (d + ds) ds k)"
      then have "d + ds \<le> x" "x + ds \<le> d + ds + K"
        using descs_bounds [of ds x "d + ds" k] Suc.prems(1) by (auto simp: runtime_descs_def K_def)
      then show "a < x + 16 \<or> x + 24 \<le> a" using that sep L Suc.prems(1) by linarith
    qed (use that in simp)
    have rd1: "runtime_descs m (mp + l) ds (Suc k) = d # runtime_descs m (d + ds) ds k"
      using True by (simp add: runtime_descs_def r_def d_def)
    have "agree dst (dst + ds) m' m3" by (simp add: agree_def out)
    then have "region_at m' dst = r\<lparr>virt := window base r + phys r mod SZ_64K\<rparr>"
      using region_at_agree [of dst "dst + ds" m' m3 dst] m3(2) Suc.prems(1) by simp
    moreover have "bytes_at m' dst (nat ds) = bytes_at m' d (nat ds)"
    proof -
      have "bytes_at m' dst (nat ds) = bytes_at m3 dst (nat ds)" by (rule bytes_at_eqI) (use out Suc.prems(1) in auto)
      moreover have "bytes_at m' d (nat ds) = bytes_at m3 d (nat ds)"
        by (rule bytes_at_eqI, rule low) (use sep L K Suc.prems(1) in auto)
      ultimately show ?thesis using m3(3) by simp
    qed
    moreover have "m' a = m a" if "\<forall>x \<in> set (runtime_descs m (mp + l) ds (Suc k)). a < x + 16 \<or> x + 24 \<le> a"
        "a < dst \<or> dst + (ds + L) \<le> a" for a
      using that m'(4) [of a] m3(4) [of a] L Suc.prems(1) by (auto simp: rd1)
    ultimately show ?thesis using m3(1) m'(1,2,3) L(2) by (auto simp: rs' b'_def rd1)
  qed
qed

section \<open>The map of the program\<close>

lemma efi_get_virtmap_assign:
  assumes "\<not> efi_novamap (opts s)" "40 \<le> ds" "map_sz = ds * int k" "map_sz < 2147483648"
    and "rs = filter is_runtime (regions_at (memory s) mp ds k)"
    and "rt + ds * int (length rs) \<le> mp \<or> mp + map_sz \<le> rt"
    and "0 \<le> virtmap_base s" "assign_end (virtmap_base s) rs < 18446744073709551616"
  shows "\<exists>m'. efi_get_virtmap mp map_sz ds rt s = Some (int (length rs), s\<lparr>memory := m'\<rparr>)
    \<and> regions_at m' rt ds (length rs) = assign (virtmap_base s) rs
    \<and> list_all2 (\<lambda>q d. bytes_at m' q (nat ds) = bytes_at m' d (nat ds))
         (descs rt ds (length rs)) (runtime_descs (memory s) mp ds k)
    \<and> (\<forall>a. (\<forall>d \<in> set (runtime_descs (memory s) mp ds k). a < d + 16 \<or> d + 24 \<le> a)
          \<and> (a < rt \<or> rt + ds * int (length rs) \<le> a) \<longrightarrow> m' a = memory s a)"
proof -
  have len: "length (regions_at m d sz n) = n" for m d sz n by (induction n arbitrary: d) simp_all
  have "length rs \<le> k" using length_filter_le [of is_runtime "regions_at (memory s) mp ds k"] by (simp add: assms(5) len)
  moreover have "1 * int k \<le> ds * int k" using assms(2) by (intro mult_right_mono) auto
  ultimately have "int (length rs) < 2147483648" using assms(3,4) by linarith
  then show ?thesis
    using virtmap_loop_assign [of ds 0 map_sz k rs "memory s" mp rt "virtmap_base s" 0] assms
    by (auto simp: efi_get_virtmap_def)
qed

lemma u64_neg: "x < 0 \<Longrightarrow> - 18446744073709551616 \<le> x \<Longrightarrow> u64 x = x + 18446744073709551616"
  using mod_pos_pos_trivial [of "x + 18446744073709551616" 18446744073709551616] by (simp add: u64_def)

lemma virtmap_loop_returns:
  assumes "0 < ds" "ds < 2147483648" "map_sz < 2147483648" "- 2147483648 \<le> l" "l < 2147483648"
  shows "\<exists>m' cnt'. virtmap_loop novamap mp map_sz ds m l dst base cnt = Some (m', cnt')"
  using assms
proof (induction "nat (map_sz - l)" arbitrary: l m dst base cnt rule: less_induct)
  case less
  show ?case
  proof (cases "u64 l < map_sz")
    case False
    then show ?thesis by (subst virtmap_loop.simps) simp
  next
    case True
    have l: "0 \<le> l"
    proof (rule ccontr)
      assume "\<not> 0 \<le> l"
      then have "u64 l = l + 18446744073709551616" using less.prems by (intro u64_neg) auto
      then show False using True less.prems by simp
    qed
    then have u: "u64 l = l" using less.prems by (simp add: u64_id)
    have "\<exists>m' cnt'. virtmap_loop novamap mp map_sz ds m2 (s32 (l + ds)) dst2 base2 cnt2 = Some (m', cnt')" for m2 dst2 base2 cnt2
    proof (cases "l + ds < 2147483648")
      case True
      then show ?thesis using less.hyps [of "l + ds"] less.prems l \<open>u64 l < map_sz\<close> u by (simp add: s32_id)
    next
      case False
      then have s: "s32 (l + ds) = l + ds - 4294967296" using less.prems l by (intro s32_big) auto
      have "u64 (l + ds - 4294967296) = l + ds - 4294967296 + 18446744073709551616"
        using less.prems l False by (intro u64_neg) auto
      then have "\<not> u64 (s32 (l + ds)) < map_sz" using less.prems l s by simp
      then show ?thesis by (subst virtmap_loop.simps) simp
    qed
    then show ?thesis using True u by (subst virtmap_loop.simps) (auto simp: Let_def split: prod.split)
  qed
qed

lemma efi_get_virtmap_returns:
  assumes "0 < ds" "ds < 2147483648" "map_sz < 2147483648"
  shows "\<exists>cnt s'. efi_get_virtmap mp map_sz ds rt s = Some (cnt, s')"
  using virtmap_loop_returns [OF assms, of 0 "efi_novamap (opts s)" mp "memory s" rt "virtmap_base s" 0]
  by (auto simp: efi_get_virtmap_def)

lemma assign_plan:
  assumes "list_all valid_region rs"
  shows "sorted_wrt below (assign base rs)
    \<and> (\<forall>r \<in> set (assign base rs). base \<le> virt r \<and> virt r + 4096 * pages r \<le> assign_end base rs
        \<and> virt r mod SZ_64K = phys r mod SZ_64K \<and> (wants_block r \<longrightarrow> virt r mod SZ_2M = 0))
    \<and> map phys (assign base rs) = map phys rs \<and> map pages (assign base rs) = map pages rs"
  using assign_sorted [OF assms] assign_bounds [OF assms] assign_aligned assign_fields by blast

end
