(* ===== verification/Fdt_Frame.thy ===== *)
theory Fdt_Frame
  imports Fdt_Edit
begin

text \<open>
  What \<open>fdt_setprop_inplace\<close> leaves alone: the walk over the items of the tree and the values of
  all other properties.
\<close>

section \<open>Reading from an offset upwards\<close>

lemma skip_name_neg: "off < 0 \<Longrightarrow> skip_name m fdt off = None"
  by (simp add: skip_name.simps [of m fdt off] fdt_offset_ptr_def Let_def)

lemma skip_name_from:
  "agree fdt (fdt + SIZEOF_HEADER) m m' \<Longrightarrow> (\<And>a. fdt + fdt_off_dt_struct m fdt + off \<le> a \<Longrightarrow> m' a = m a) \<Longrightarrow>
   off < 2147483648 \<Longrightarrow> skip_name m' fdt off = skip_name m fdt off"
proof (induction m fdt off rule: skip_name.induct)
  case (1 m fdt off)
  note hp = fdt_offset_ptr_hdr [OF "1.prems"(1)]
  show ?case
  proof (cases "fdt_offset_ptr m fdt off 1")
    case None
    then show ?thesis by (simp add: skip_name.simps [of m' fdt off] skip_name.simps [of m fdt off] hp)
  next
    case (Some p)
    then have p: "0 \<le> off" "m' p = m p" using "1.prems"(2) [of p] by (auto dest: fdt_offset_ptr_SomeD)
    have "skip_name m' fdt (s32 (off + 1)) = skip_name m fdt (s32 (off + 1))" if "m p \<noteq> 0"
    proof (cases "s32 (off + 1) < 0")
      case True
      then show ?thesis by (simp add: skip_name_neg)
    next
      case False
      then have s: "s32 (off + 1) = off + 1" using s32_Suc_cases [of off 1] p "1.prems"(3) by auto
      show ?thesis by (rule "1.IH" [OF Some that "1.prems"(1)]) (use "1.prems"(2) s s32_bounds(2) [of "off + 1"] in auto)
    qed
    then show ?thesis using Some p by (simp add: skip_name.simps [of m' fdt off] skip_name.simps [of m fdt off] hp)
  qed
qed

lemma fdt_next_tag_from:
  assumes hdr: "agree fdt (fdt + SIZEOF_HEADER) m m'"
    and a: "\<And>a. fdt + fdt_off_dt_struct m fdt + off \<le> a \<Longrightarrow> m' a = m a" and off: "off < 2147483648"
  shows "fdt_next_tag m' fdt off = fdt_next_tag m fdt off"
proof (cases "fdt_offset_ptr m fdt off FDT_TAGSIZE")
  case None
  then show ?thesis by (simp add: fdt_next_tag_def fdt_offset_ptr_hdr [OF hdr])
next
  case (Some tagp)
  then have p: "0 \<le> off" "tagp = fdt + fdt_off_dt_struct m fdt + off" by (auto dest: fdt_offset_ptr_SomeD)
  have ld: "fdt32_ld m' q = fdt32_ld m q" if "fdt + fdt_off_dt_struct m fdt + off \<le> q" for q
    using that a by (intro fdt32_ld_cong [symmetric]) auto
  have sw: "next_tag_switch m' fdt tag (s32 (off + 4)) = next_tag_switch m fdt tag (s32 (off + 4))" for tag
  proof (cases "s32 (off + 4) < 0")
    case True
    then show ?thesis
      by (simp add: next_tag_switch_def skip_name_neg fdt_offset_ptr_def Let_def)
  next
    case False
    then have s: "off \<le> s32 (off + 4)" using p off s32_big [of "off + 4"] s32_id [of "off + 4"] by (cases "off + 4 < 2147483648") auto
    have "skip_name m' fdt (s32 (off + 4)) = skip_name m fdt (s32 (off + 4))"
      by (rule skip_name_from [OF hdr]) (use s a in auto)
    moreover have "fdt32_ld m' lenp = fdt32_ld m lenp" if "fdt_offset_ptr m fdt (s32 (off + 4)) 4 = Some lenp" for lenp
      using fdt_offset_ptr_SomeD [OF that] s by (intro ld) auto
    ultimately show ?thesis
      by (simp add: next_tag_switch_def fdt_offset_ptr_hdr [OF hdr] fdt_hdr_agree(6) [OF hdr] Let_def split: option.split)
  qed
  show ?thesis
    using ld [of tagp] p unfolding fdt_next_tag_def fdt_offset_ptr_hdr [OF hdr] by (simp add: Some sw)
qed

lemma tokens_from:
  assumes hdr: "agree fdt (fdt + SIZEOF_HEADER) m m'"
    and a: "\<And>a. fdt + fdt_off_dt_struct m fdt + off \<le> a \<Longrightarrow> m' a = m a" and off: "off < 2147483648"
  shows "tokens m' fdt off = tokens m fdt off"
  using a off
proof (induction "walk_left off" arbitrary: off rule: less_induct)
  case less
  obtain tag nxt where t: "fdt_next_tag m fdt off = (tag, nxt)" by fastforce
  have t': "fdt_next_tag m' fdt off = (tag, nxt)" using fdt_next_tag_from [OF hdr less.prems] t by simp
  show ?case
  proof (cases "tag = FDT_END")
    case True
    then show ?thesis using t t' by (simp add: tokens_unfold)
  next
    case ne: False
    have "tokens m' fdt nxt = tokens m fdt nxt"
    proof (cases "nxt < 0")
      case True
      then have "fdt_next_tag m1 fdt nxt = (FDT_END, - FDT_ERR_TRUNCATED)" for m1
        by (simp add: fdt_next_tag_def fdt_offset_ptr_def Let_def)
      then show ?thesis by (simp add: tokens_unfold)
    next
      case False
      then have "off < nxt" using fdt_next_tag_range [OF t ne less.prems(2)] by auto
      then show ?thesis
        by (intro less.hyps [OF fdt_next_tag_progress [OF t ne]] less.prems(1) fdt_next_tag_lt [OF t]) auto
    qed
    then show ?thesis using t t' ne by (simp add: tokens_unfold)
  qed
qed

section \<open>The walk of a node whose property is set in place\<close>

text \<open>
  The properties of a node, as the walk finds them, are the same when only bytes of the value of one
  of them have changed.
\<close>

lemma node_props_range:
  assumes pl: "placed m fdt"
  shows "off < 2147483648 \<Longrightarrow> p \<in> set (node_props (tokens m fdt off)) \<Longrightarrow>
    off \<le> p \<and> p < 2147483648 \<and> (\<exists>nxt. fdt_next_tag m fdt p = (FDT_PROP, nxt))"
proof (induction "walk_left off" arbitrary: off rule: less_induct)
  case less
  obtain tag nxt where t: "fdt_next_tag m fdt off = (tag, nxt)" by fastforce
  have ne: "tag \<noteq> FDT_END" using less.prems(2) by (auto simp: tokens_unfold [OF t])
  have nn: "off < nxt" "nxt < 2147483648"
    using fdt_next_tag_range [OF t ne less.prems(1)] fdt_next_tag_nonneg [OF t ne less.prems(1) pl] by auto
  consider "tag = FDT_PROP" "p = off" | "p \<in> set (node_props (tokens m fdt nxt))"
    using less.prems(2) ne by (auto simp: tokens_unfold [OF t] split: if_splits)
  then show ?case
  proof cases
    case 1
    then show ?thesis using t less.prems(1) by simp
  next
    case 2
    then show ?thesis using less.hyps [OF fdt_next_tag_progress [OF t ne] nn(2)] nn(1) by auto
  qed
qed

lemma node_props_inplace:
  assumes pl: "placed m fdt" and hdr: "agree fdt (fdt + SIZEOF_HEADER) m m'"
    and t: "fdt_next_tag m fdt p = (FDT_PROP, nxt)" "p < 2147483648"
    and lo: "agree (fdt + fdt_off_dt_struct m fdt) (fdt + fdt_off_dt_struct m fdt + p + 12) m m'"
    and hi: "\<And>a. fdt + fdt_off_dt_struct m fdt + nxt \<le> a \<Longrightarrow> m' a = m a"
  shows "off < 2147483648 \<Longrightarrow> 0 \<le> off \<Longrightarrow> p \<in> set (node_props (tokens m fdt off)) \<Longrightarrow>
    node_props (tokens m' fdt off) = node_props (tokens m fdt off)
    \<and> (\<forall>q \<in> set (node_props (tokens m fdt off)). q \<le> p \<or> nxt \<le> q)"
proof (induction "walk_left off" arbitrary: off rule: less_induct)
  case less
  obtain tag n1 where t1: "fdt_next_tag m fdt off = (tag, n1)" by fastforce
  have ne: "tag \<noteq> FDT_END" "tag = FDT_PROP \<or> tag = FDT_NOP"
    using less.prems(3) by (auto simp: tokens_unfold [OF t1] split: if_splits)
  have nn: "0 \<le> n1" "n1 < 2147483648" "off < n1"
    using fdt_next_tag_nonneg [OF t1 ne(1) less.prems(1) pl] fdt_next_tag_range [OF t1 ne(1) less.prems(1)] by auto
  have p: "off \<le> p" using node_props_range [OF pl less.prems(1,3)] by simp
  note tok = tokens_unfold [OF t1]
  show ?case
  proof (cases "off = p")
    case True
    then have pt: "tag = FDT_PROP" "n1 = nxt" using t t1 by simp_all
    have t1': "fdt_next_tag m' fdt off = (tag, n1)"
      using True pt less.prems(2) by (intro fdt_next_tag_local [OF t1 ne(1) nn(1) less.prems(1) hdr] agree_subset [OF lo]) auto
    have "tokens m' fdt nxt = tokens m fdt nxt"
      using hi nn pt by (intro tokens_from [OF hdr]) auto
    moreover have "nxt \<le> q" if "q \<in> set (node_props (tokens m fdt nxt))" for q
      using node_props_range [OF pl _ that] nn pt by simp
    ultimately show ?thesis using True pt tok tokens_unfold [OF t1'] by simp
  next
    case False
    then have pin: "p \<in> set (node_props (tokens m fdt n1))" using less.prems(3) ne by (auto simp: tok split: if_splits)
    then have np: "n1 \<le> p" using node_props_range [OF pl nn(2)] by blast
    have t1': "fdt_next_tag m' fdt off = (tag, n1)"
      using False p np less.prems(2) by (intro fdt_next_tag_local [OF t1 ne(1) nn(1) less.prems(1) hdr] agree_subset [OF lo]) auto
    from less.hyps [OF fdt_next_tag_progress [OF t1 ne(1)] nn(2,1) pin]
    show ?thesis using p tok tokens_unfold [OF t1'] ne by auto
  qed
qed

lemma node_props_disjoint:
  assumes pl: "placed m fdt" and off: "off < 2147483648" "0 \<le> off"
    and q: "q \<in> set (node_props (tokens m fdt off))" "fdt_next_tag m fdt q = (FDT_PROP, nxt)"
    and p: "p \<in> set (node_props (tokens m fdt off))"
  shows "p \<le> q \<or> nxt \<le> p"
  using node_props_inplace [OF pl agree_refl q(2) _ agree_refl refl off q(1)] node_props_range [OF pl off(1) q(1)] p by blast

lemma prop_named_unique: "prop_named m fdt s p \<Longrightarrow> prop_named m fdt s' p \<Longrightarrow> s = s'"
  unfolding prop_named_def fdt_string_eq_i_def mem_eq_def
  by (auto split: option.splits prod.splits)

text \<open>
  Every property of the node is found where it was, and the values of the others are as they were.
\<close>

lemma fdt_setprop_inplace_others:
  assumes lay: "layout m fdt" and node: "node < 2147483648"
    and set: "fdt_setprop_inplace m fdt node name val = (0, m')"
  shows "fdt_getprop m fdt node nm = (Some w, len) \<Longrightarrow> fdt_getprop m' fdt node nm = (Some w, len)"
    and "nm \<noteq> name \<Longrightarrow> fdt_getprop m fdt node nm = (Some w, len) \<Longrightarrow> bytes_at m' w (nat len) = bytes_at m w (nat len)"
proof -
  note pl = layout_placed [OF lay]
  note ll = layout_lin [OF lay]
  have ver: "fdt_version m fdt = 17" using lay by (simp add: layout_def)
  define L where "L = int (length val)"
  obtain v where gp: "fdt_getprop m fdt node name = (Some v, L)" and m': "m' = put_bytes m v val" and lay': "layout m' fdt"
    using fdt_setprop_inplace_getprop [OF lay node set] by (auto simp: L_def)
  obtain p where p: "0 \<le> p" "p < 2147483648"
    "fdt_next_tag m fdt p = (FDT_PROP, FDT_TAGALIGN (p + 12 + L))" "prop_named m fdt name p"
    "v = fdt_offset_ptr_i m fdt p + 12" "L = fdt32_ld m (fdt_offset_ptr_i m fdt p + 4)"
    "fdt_get_property_namelen_i m fdt node name = (Some (fdt_offset_ptr_i m fdt p), L, p)"
    by (rule fdt_getprop_Some [OF gp]) (use ver in auto)
  define nxt where "nxt = FDT_TAGALIGN (p + 12 + L)"
  have nxt: "p + 12 + L \<le> nxt" using FDT_TAGALIGN_bounds [of "p + 12 + L"] by (simp add: nxt_def)
  have v: "v = fdt + fdt_off_dt_struct m fdt + p + 12" using p(5) by (simp add: fdt_offset_ptr_i_def)
  have vlen: "p + 12 + L \<le> fdt_size_dt_struct m fdt"
    using fdt_next_tag_prop_struct [OF p(3) _ p(2)] p(1,6) ver FDT_TAGALIGN_bounds [of "p + 12 + L"] by (simp add: L_def)
  have hdr: "agree fdt (fdt + SIZEOF_HEADER) m m'"
    and str: "agree (fdt + fdt_off_dt_strings m fdt)
      (fdt + fdt_off_dt_strings m fdt + fdt_size_dt_strings m fdt) m m'"
    and lo: "agree (fdt + fdt_off_dt_struct m fdt) (fdt + fdt_off_dt_struct m fdt + p + 12) m m'"
    unfolding m' using v vlen ll p(1) by (auto simp: agree_def put_bytes_outside L_def)
  have hi: "m' a = m a" if "fdt + fdt_off_dt_struct m fdt + nxt \<le> a" for a
    unfolding m' using that v nxt by (intro put_bytes_outside) (auto simp: L_def)
  define body where "body = fdt_check_node_offset_i m fdt node"
  have body: "0 \<le> body"
  proof (rule ccontr)
    assume "\<not> 0 \<le> body"
    then show False using p(7)
      by (simp add: fdt_get_property_namelen_i_def fdt_first_property_offset_def body_def
          get_property_loop.simps)
  qed
  have t: "fdt_next_tag m fdt node = (FDT_BEGIN_NODE, body)" "0 \<le> node"
    using fdt_check_node_offsetD [of m fdt node] body by (simp_all add: body_def)
  have bl: "body < 2147483648" using fdt_next_tag_lt [OF t(1)] .
  define ps where "ps = node_props (tokens m fdt body)"
  note gt = fdt_getprop_tokens [OF pl node _ body_def [symmetric] body, folded ps_def]
  have pin: "p \<in> set ps"
  proof -
    obtain p' where "List.find (prop_named m fdt name) ps = Some p'" "v = fdt_offset_ptr_i m fdt p' + 12"
      using gt [of name] gp ver by (auto split: option.splits)
    then show ?thesis using v by (auto simp: find_Some_iff fdt_offset_ptr_i_def)
  qed
  have ps: "node_props (tokens m' fdt body) = ps" "\<And>q. q \<in> set ps \<Longrightarrow> q \<le> p \<or> nxt \<le> q"
    using node_props_inplace [OF pl hdr p(3)[folded nxt_def] p(2) lo hi bl body] pin by (auto simp: ps_def)
  have bp: "body \<le> p" using node_props_range [OF pl bl] pin by (simp add: ps_def)
  have t': "fdt_next_tag m' fdt node = (FDT_BEGIN_NODE, body)"
    using bp t(2) by (intro fdt_next_tag_local [OF t(1) _ body node hdr] agree_subset [OF lo]) auto
  have body': "fdt_check_node_offset_i m' fdt node = body"
    using t t' body by (auto simp: fdt_check_node_offset_i_def body_def split: if_splits)
  note gt' = fdt_getprop_tokens [OF layout_placed [OF lay'] node _ body' body, unfolded ps(1)]
  have ptr: "fdt_offset_ptr_i m' fdt q = fdt_offset_ptr_i m fdt q" for q
    by (simp add: fdt_offset_ptr_i_def fdt_hdr_agree(3) [OF hdr])
  have ld: "fdt32_ld m' (fdt_offset_ptr_i m fdt q + i) = fdt32_ld m (fdt_offset_ptr_i m fdt q + i)"
    if "q \<in> set ps" "0 \<le> i" "i \<le> 8" for q i
  proof -
    have "0 \<le> q" using node_props_range [OF pl bl, of q] that body by (simp add: ps_def)
    then show ?thesis
      using ps(2) [OF that(1)] that(2,3) nxt L_def
      by (auto simp: fdt_offset_ptr_i_def intro!: fdt32_ld_cong intro: hi agreeD [OF lo, symmetric])
  qed
  have named: "prop_named m' fdt s q = prop_named m fdt s q" if "q \<in> set ps" for s q
    unfolding prop_named_def ptr using ld [OF that, of 8] fdt_get_string_layout(2) [OF lay hdr str s32_bounds(2)] by simp
  have find: "List.find (prop_named m' fdt s) ps = List.find (prop_named m fdt s) ps" for s
    using named by (intro find_cong) auto
  have ver': "16 \<le> fdt_version m' fdt" using lay' by (simp add: layout_def)
  show "fdt_getprop m' fdt node nm = (Some w, len)" if g: "fdt_getprop m fdt node nm = (Some w, len)"
  proof -
    obtain q where q: "List.find (prop_named m fdt nm) ps = Some q" "w = fdt_offset_ptr_i m fdt q + 12"
      "len = fdt32_ld m (fdt_offset_ptr_i m fdt q + 4)"
      using gt [of nm] g ver by (auto split: option.splits)
    moreover from this have "q \<in> set ps" by (auto simp: find_Some_iff)
    ultimately show ?thesis
      using gt' [OF ver', of nm] ld [of q 4] by (auto simp: find ptr split: prod.splits)
  qed
  show "bytes_at m' w (nat len) = bytes_at m w (nat len)"
    if ne: "nm \<noteq> name" and g: "fdt_getprop m fdt node nm = (Some w, len)"
  proof -
    obtain q where q: "List.find (prop_named m fdt nm) ps = Some q" "w = fdt_offset_ptr_i m fdt q + 12"
      "len = fdt32_ld m (fdt_offset_ptr_i m fdt q + 4)"
      using gt [of nm] g ver by (auto split: option.splits)
    have qin: "q \<in> set ps" "prop_named m fdt nm q" using q(1) by (auto simp: find_Some_iff)
    have "q \<noteq> p" using prop_named_unique [OF qin(2), of name] p(4) ne by auto
    obtain nq where nq: "fdt_next_tag m fdt q = (FDT_PROP, nq)" "q < 2147483648"
      using node_props_range [OF pl bl] qin(1) by (auto simp: ps_def)
    have "0 \<le> nq" using fdt_next_tag_nonneg [OF nq(1) _ nq(2) pl] by simp
    then have nql: "q + 12 + len \<le> nq"
      using fdt_next_tag_prop(7) [OF nq(1) _ nq(2)] ver FDT_TAGALIGN_bounds [of "q + 12 + len"] q(3) by simp
    have "nq \<le> p \<or> nxt \<le> q"
      using ps(2) [OF qin(1)] node_props_disjoint [OF pl bl body _ nq(1), of p] qin(1) pin \<open>q \<noteq> p\<close> by (auto simp: ps_def)
    then have "w + len \<le> v \<or> v + L \<le> w" using nql nxt q(2) v by (auto simp: fdt_offset_ptr_i_def)
    moreover have "0 \<le> len" using q(3) by simp
    ultimately show ?thesis unfolding m' by (intro bytes_at_eqI put_bytes_outside) (auto simp: L_def)
  qed
qed

end
