(* ===== verification/Stub_Fdt.thy ===== *)
theory Stub_Fdt
  imports Stub Fdt_Frame
begin

text \<open>
  The device tree that is handed to the kernel: the placeholders for the memory map are filled in
  without disturbing each other or anything else in the tree.
\<close>

section \<open>Setting several properties in place\<close>

primrec set_all :: "mem \<Rightarrow> addr \<Rightarrow> int \<Rightarrow> (byte list \<times> byte list) list \<Rightarrow> mem option" where
  "set_all m fdt node [] = Some m"
| "set_all m fdt node (p # ps) =
     (case fdt_setprop_inplace m fdt node (fst p) (snd p) of
        (err, m) \<Rightarrow> if err \<noteq> 0 then None else set_all m fdt node ps)"

definition has_value :: "mem \<Rightarrow> addr \<Rightarrow> int \<Rightarrow> byte list \<Rightarrow> byte list \<Rightarrow> bool" where
  "has_value m fdt node nm val \<longleftrightarrow>
     (case fdt_getprop m fdt node nm of
        (None, len) \<Rightarrow> False
      | (Some v, len) \<Rightarrow> len = int (length val) \<and> bytes_at m v (length val) = val)"

lemma has_value_iff:
  "has_value m fdt node nm val \<longleftrightarrow>
   (\<exists>v. fdt_getprop m fdt node nm = (Some v, int (length val)) \<and> bytes_at m v (length val) = val)"
  by (auto simp: has_value_def split: prod.splits option.splits)

lemma setprop_inplace_has_value:
  assumes "layout m fdt" "node < 2147483648" "fdt_setprop_inplace m fdt node name val = (0, m')"
  shows "has_value m' fdt node name val"
    and "nm \<noteq> name \<Longrightarrow> has_value m fdt node nm w \<Longrightarrow> has_value m' fdt node nm w"
proof -
  show "has_value m' fdt node name val" using fdt_setprop_inplace_getprop [OF assms] by (auto simp: has_value_iff)
  show "has_value m' fdt node nm w" if ne: "nm \<noteq> name" and h: "has_value m fdt node nm w"
  proof -
    obtain v where v: "fdt_getprop m fdt node nm = (Some v, int (length w))" "bytes_at m v (length w) = w"
      using h by (auto simp: has_value_iff)
    then show ?thesis using fdt_setprop_inplace_others [OF assms, of nm v "int (length w)"] ne by (simp add: has_value_iff)
  qed
qed

lemma set_all_has_value:
  assumes "layout m fdt" "node < 2147483648" "set_all m fdt node ps = Some m'" "distinct (map fst ps)"
  shows "edit_keeps fdt m m' \<and> list_all (\<lambda>p. has_value m' fdt node (fst p) (snd p)) ps
    \<and> (\<forall>nm w. nm \<notin> fst ` set ps \<longrightarrow> has_value m fdt node nm w \<longrightarrow> has_value m' fdt node nm w)"
  using assms
proof (induction ps arbitrary: m)
  case Nil
  then show ?case by (simp add: edit_keeps_refl)
next
  case (Cons p ps)
  obtain m1 where 1: "fdt_setprop_inplace m fdt node (fst p) (snd p) = (0, m1)" "set_all m1 fdt node ps = Some m'"
    using Cons.prems(3) by (auto split: prod.splits if_splits)
  note k1 = fdt_setprop_inplace_keeps [OF Cons.prems(1,2) 1(1)]
  note hv = setprop_inplace_has_value [OF Cons.prems(1,2) 1(1)]
  have IH: "edit_keeps fdt m1 m'" "list_all (\<lambda>p. has_value m' fdt node (fst p) (snd p)) ps"
    "\<And>nm w. nm \<notin> fst ` set ps \<Longrightarrow> has_value m1 fdt node nm w \<Longrightarrow> has_value m' fdt node nm w"
    using Cons.IH [OF edit_keeps_layout [OF k1] Cons.prems(2) 1(2)] Cons.prems(4) by auto
  have "has_value m' fdt node (fst p) (snd p)" using IH(3) [OF _ hv(1)] Cons.prems(4) by simp
  moreover have "has_value m' fdt node nm w" if "nm \<notin> fst ` set (p # ps)" "has_value m fdt node nm w" for nm w
    using that hv(2) [of nm w] IH(3) [of nm w] by simp
  ultimately show ?case using edit_keeps_trans [OF k1 IH(1)] IH(2) by simp
qed

lemma setprop_inplace_of_getprop:
  "fdt_getprop m fdt node name = (Some v, int (length val)) \<Longrightarrow>
   fdt_setprop_inplace m fdt node name val = (0, put_bytes m v val)"
  by (simp add: fdt_setprop_inplace_def fdt_setprop_inplace_namelen_partial_def fdt_getprop_def)

text \<open>The placeholder for a value: a property of the same length.\<close>

definition placeholder :: "mem \<Rightarrow> addr \<Rightarrow> int \<Rightarrow> byte list \<times> byte list \<Rightarrow> bool" where
  "placeholder m fdt node p \<longleftrightarrow>
     (case fdt_getprop m fdt node (fst p) of
        (None, len) \<Rightarrow> False
      | (Some v, len) \<Rightarrow> len = int (length (snd p)))"

lemma placeholder_iff:
  "placeholder m fdt node p \<longleftrightarrow> (\<exists>v. fdt_getprop m fdt node (fst p) = (Some v, int (length (snd p))))"
  by (auto simp: placeholder_def split: prod.splits option.splits)

lemma set_all_succeeds:
  assumes "layout m fdt" "node < 2147483648" "list_all (placeholder m fdt node) ps"
  shows "set_all m fdt node ps \<noteq> None"
  using assms
proof (induction ps arbitrary: m)
  case (Cons p ps)
  obtain v where "fdt_getprop m fdt node (fst p) = (Some v, int (length (snd p)))"
    using Cons.prems(3) by (auto simp: placeholder_iff)
  note s = setprop_inplace_of_getprop [OF this]
  have "list_all (placeholder (put_bytes m v (snd p)) fdt node) ps"
    using Cons.prems(3) fdt_setprop_inplace_others(1) [OF Cons.prems(1,2) s]
    by (auto simp: list_all_iff placeholder_iff)
  then have "set_all (put_bytes m v (snd p)) fdt node ps \<noteq> None"
    by (intro Cons.IH edit_keeps_layout [OF fdt_setprop_inplace_keeps [OF Cons.prems(1,2) s]] Cons.prems(2))
  then show ?case by (simp add: s)
qed simp

section \<open>The memory map in the tree\<close>

definition memmap_props :: "mem \<Rightarrow> addr \<Rightarrow> (byte list \<times> byte list) list" where
  "memmap_props m map0 =
     [(str ''linux,uefi-mmap-start'', be64 (map0 + SIZEOF_BOOT_MEMMAP)),
      (str ''linux,uefi-mmap-size'', be32 (mm_map_size m map0)),
      (str ''linux,uefi-mmap-desc-size'', be32 (mm_desc_size m map0)),
      (str ''linux,uefi-mmap-desc-ver'', be32 (mm_desc_ver m map0))]"

lemma path_walk_lt: "off < 2147483648 \<Longrightarrow> path_walk m fdt off p < 2147483648"
proof (induction m fdt off p rule: path_walk.induct)
  case (1 m fdt off p)
  define p1 where "p1 = dropWhile (\<lambda>c. c = 47) p"
  define o1 where "o1 = fdt_subnode_offset_namelen m fdt off (takeWhile (\<lambda>c. c \<noteq> 47) p1)"
  have "o1 < 2147483648" if "\<not> o1 < 0"
    using that subnode_loop_lt [OF "1.prems"]
    by (auto simp: o1_def fdt_subnode_offset_namelen_def split: if_splits)
  then show ?case
    using "1.IH" [OF _ p1_def _ o1_def] "1.prems"
    unfolding path_walk.simps [of m fdt off p] Let_def p1_def [symmetric] o1_def [symmetric] by simp
qed

lemma chosen_offset:
  obtains node where "fdt_path_offset m fdt (str ''/chosen'') = Some node" "node < 2147483648"
proof -
  have "deref (str ''/chosen'') = 47" by code_simp
  from fdt_path_offset_absolute [OF this, of m fdt] show thesis
    using that path_walk_lt [of 0 m fdt] by (auto split: if_splits)
qed

lemma mm_fields_agree:
  assumes "agree p (p + SIZEOF_BOOT_MEMMAP) m m'"
  shows "mm_map_size m' p = mm_map_size m p" "mm_desc_size m' p = mm_desc_size m p" "mm_desc_ver m' p = mm_desc_ver m p"
  unfolding mm_map_size_def mm_desc_size_def mm_desc_ver_def
  by (rule ld_le_agree [OF agree_sym [OF assms]]; simp)+

text \<open>
  \<open>update_fdt_memmap\<close> sets the four properties in turn; it reads the fields of the map again before
  each, and a map outside the tree has not changed by then.
\<close>

lemma edit_keeps_apart:
  assumes "edit_keeps fdt m m'" "map0 + SIZEOF_BOOT_MEMMAP \<le> fdt \<or> fdt + fdt_totalsize m fdt \<le> map0"
  shows "agree map0 (map0 + SIZEOF_BOOT_MEMMAP) m m'"
  using assms by (auto simp: edit_keeps_def unchanged_outside_def agree_def)

lemma update_fdt_memmap_set_all:
  assumes lay: "layout m fdt" and apart: "map0 + SIZEOF_BOOT_MEMMAP \<le> fdt \<or> fdt + fdt_totalsize m fdt \<le> map0"
    and node: "fdt_path_offset m fdt (str ''/chosen'') = Some node" "node < 2147483648"
    and u: "update_fdt_memmap m fdt map0 = Some (st, m')"
  shows "edit_keeps fdt m m' \<and> (st = EFI_SUCCESS \<or> st = EFI_LOAD_ERROR)
    \<and> (st = EFI_SUCCESS \<longrightarrow> set_all m fdt node (memmap_props m map0) = Some m')
    \<and> (0 \<le> node \<and> set_all m fdt node (memmap_props m map0) \<noteq> None \<longrightarrow> st = EFI_SUCCESS)"
proof (cases "node < 0")
  case True
  then show ?thesis using u node edit_keeps_refl [OF lay] by (simp add: update_fdt_memmap_def)
next
  case False
  note kf = mm_fields_agree [OF edit_keeps_apart [OF _ apart]]
  obtain e1 m1 where 1: "fdt_setprop_inplace m fdt node (str ''linux,uefi-mmap-start'') (be64 (map0 + SIZEOF_BOOT_MEMMAP)) = (e1, m1)"
    by fastforce
  have k1: "edit_keeps fdt m m1" by (rule fdt_setprop_inplace_keeps [OF lay node(2) 1])
  obtain e2 m2 where 2: "fdt_setprop_inplace m1 fdt node (str ''linux,uefi-mmap-size'') (be32 (mm_map_size m map0)) = (e2, m2)"
    by fastforce
  have k2: "edit_keeps fdt m m2"
    by (rule edit_keeps_trans [OF k1 fdt_setprop_inplace_keeps [OF edit_keeps_layout [OF k1] node(2) 2]])
  obtain e3 m3 where 3: "fdt_setprop_inplace m2 fdt node (str ''linux,uefi-mmap-desc-size'') (be32 (mm_desc_size m map0)) = (e3, m3)"
    by fastforce
  have k3: "edit_keeps fdt m m3"
    by (rule edit_keeps_trans [OF k2 fdt_setprop_inplace_keeps [OF edit_keeps_layout [OF k2] node(2) 3]])
  obtain e4 m4 where 4: "fdt_setprop_inplace m3 fdt node (str ''linux,uefi-mmap-desc-ver'') (be32 (mm_desc_ver m map0)) = (e4, m4)"
    by fastforce
  have k4: "edit_keeps fdt m m4"
    by (rule edit_keeps_trans [OF k3 fdt_setprop_inplace_keeps [OF edit_keeps_layout [OF k3] node(2) 4]])
  have "Some (st, m') = (if e1 \<noteq> 0 then Some (EFI_LOAD_ERROR, m1) else if e2 \<noteq> 0 then Some (EFI_LOAD_ERROR, m2)
      else if e3 \<noteq> 0 then Some (EFI_LOAD_ERROR, m3) else if e4 \<noteq> 0 then Some (EFI_LOAD_ERROR, m4) else Some (EFI_SUCCESS, m4))"
    using u False
    unfolding update_fdt_memmap_def node(1) Option.bind.simps 1 prod.case kf(1) [OF k1] 2 kf(2) [OF k2] 3 kf(3) [OF k3] 4
    by simp
  then show ?thesis
    using k1 k2 k3 k4 by (auto simp: memmap_props_def 1 2 3 4 split: if_splits)
qed

lemma update_fdt_memmap_returns: "\<exists>st m'. update_fdt_memmap m fdt map0 = Some (st, m')"
proof -
  obtain node where "fdt_path_offset m fdt (str ''/chosen'') = Some node" by (rule chosen_offset)
  then show ?thesis unfolding update_fdt_memmap_def by (simp split: prod.split)
qed

text \<open>
  The tree is still good when the update fails. It succeeds when the placeholders are there, and then
  the kernel finds the map.
\<close>

lemma update_fdt_memmap_found:
  assumes "layout m fdt" "map0 + SIZEOF_BOOT_MEMMAP \<le> fdt \<or> fdt + fdt_totalsize m fdt \<le> map0"
    and "fdt_path_offset m fdt (str ''/chosen'') = Some node"
    and "update_fdt_memmap m fdt map0 = Some (st, m')"
  shows "edit_keeps fdt m m'
    \<and> (0 \<le> node \<and> list_all (placeholder m fdt node) (memmap_props m map0) \<longrightarrow> st = EFI_SUCCESS)
    \<and> (st = EFI_SUCCESS \<longrightarrow>
         list_all (\<lambda>p. has_value m' fdt node (fst p) (snd p)) (memmap_props m map0)
       \<and> (\<forall>nm w. nm \<notin> fst ` set (memmap_props m map0) \<longrightarrow> has_value m fdt node nm w \<longrightarrow> has_value m' fdt node nm w))"
proof -
  have lt: "node < 2147483648" using chosen_offset [of m fdt] assms(3) by auto
  have d: "distinct (map fst (memmap_props m map0))" by (simp add: memmap_props_def str_def)
  note s = update_fdt_memmap_set_all [OF assms(1-3) lt assms(4)]
  show ?thesis using s set_all_has_value [OF assms(1) lt _ d] set_all_succeeds [OF assms(1) lt] by blast
qed

end
