(* ===== verification/Stub_Properties.thy ===== *)
theory Stub_Properties
  imports Stub_Calls Stub_Virtmap Stub_Fdt Helper_Properties Demo_Tree
begin

text \<open>
  The properties of the driver: the virtual memory map, the device tree it hands over, and the end
  of the boot services.
\<close>

section \<open>The virtual memory map\<close>


text \<open>Three regions of 48 bytes: two of the runtime services and one of free memory between them.\<close>

definition demo_map :: mem where
  "demo_map = mem_of 8192
     (le 8 5 @ le 8 0x3000 @ le 8 0 @ le 8 2 @ le 8 0x8000000000000000 @ le 8 0
    @ le 8 7 @ le 8 0x5000 @ le 8 0 @ le 8 16 @ le 8 0 @ le 8 0
    @ le 8 6 @ le 8 0x400000 @ le 8 0 @ le 8 512 @ le 8 0x8000000000000000 @ le 8 0)"

definition demo_regions :: "region list" where
  "demo_regions =
     [\<lparr>phys = 0x3000, virt = 0, pages = 2, attrs = 0x8000000000000000\<rparr>,
      \<lparr>phys = 0x400000, virt = 0, pages = 512, attrs = 0x8000000000000000\<rparr>]"

lemma demo_map_regions: "demo_regions = filter is_runtime (regions_at demo_map 8192 48 3)"
  by code_simp

lemma demo_map_end: "assign_end 0x20000000 demo_regions = 0x20400000" "length demo_regions = 2"
  "map virt (assign 0x20000000 demo_regions) = [0x20003000, 0x20200000]"
  by code_simp+

lemma demo_stub_fields [simp]:
  "memory (demo_stub m w) = m" "virtmap_base (demo_stub m w) = 0x20000000" "\<not> efi_novamap (opts (demo_stub m w))"
  "calls (demo_stub m w) = []"
  by (simp_all add: demo_stub_def initial_options_def)


text \<open>
  C13: the virtual regions that \<open>efi_get_virtmap\<close> hands to the firmware do not overlap, ascend from
  the virtual base, agree with the physical regions modulo 64 KB, and begin at a multiple of 2 MB
  where the physical region does and spans as much.
\<close>

theorem virtual_regions_disjoint:
  assumes "\<not> efi_novamap (opts s)" "40 \<le> ds" "map_sz = ds * int k" "map_sz < 2147483648"
    and "rs = filter is_runtime (regions_at (memory s) mp ds k)"
    and "rt + ds * int (length rs) \<le> mp \<or> mp + map_sz \<le> rt"
    and "0 \<le> virtmap_base s" "assign_end (virtmap_base s) rs < 18446744073709551616"
    and "efi_get_virtmap mp map_sz ds rt s = Some (cnt, s')"
  shows "sorted_wrt below (regions_at (memory s') rt ds (nat cnt))
    \<and> list_all (\<lambda>r. virtmap_base s \<le> virt r \<and> virt r mod SZ_64K = phys r mod SZ_64K
        \<and> (wants_block r \<longrightarrow> virt r mod SZ_2M = 0)) (regions_at (memory s') rt ds (nat cnt))"
proof -
  have v: "list_all valid_region rs" using regions_at_valid [of "memory s" mp ds k] by (simp add: assms(5) list_all_iff)
  show ?thesis
    using efi_get_virtmap_assign [OF assms(1-8)] assms(9) assign_plan [OF v, of "virtmap_base s"]
    by (auto simp: list_all_iff)
qed

theorem virtual_regions_disjoint_witness:
  "\<exists>r. efi_get_virtmap 8192 144 48 16384 (demo_stub demo_map 0) = Some r
    \<and> sorted_wrt below (regions_at (memory (snd r)) 16384 48 (nat (fst r)))"
proof -
  obtain cnt s' where r: "efi_get_virtmap 8192 144 48 16384 (demo_stub demo_map 0) = Some (cnt, s')"
    using efi_get_virtmap_returns [of 48 144 8192 16384 "demo_stub demo_map 0"] by auto
  then show ?thesis
    using virtual_regions_disjoint [of "demo_stub demo_map 0" 48 144 3 demo_regions 8192 16384 cnt s']
      demo_map_regions demo_map_end
    by (intro exI [of _ "(cnt, s')"]) auto
qed

text \<open>
  C31: \<open>efi_get_virtmap\<close> returns for any map below 2 GB and any descriptor size from 1 to 2 GB, even
  where the size of the map is not a multiple of it and the \<open>int\<close> offset runs past the end; only a
  descriptor size of zero is left out, with which the loop does not move.
\<close>

theorem virtmap_returns:
  assumes "0 < ds" "ds < 2147483648" "map_sz < 2147483648"
  shows "\<exists>cnt s'. efi_get_virtmap mp map_sz ds rt s = Some (cnt, s')"
  by (rule efi_get_virtmap_returns [OF assms])

theorem virtmap_returns_witness:
  "\<exists>cnt s'. efi_get_virtmap 8192 2147483647 2147483647 16384 (demo_stub demo_map 0) = Some (cnt, s')"
  by (rule virtmap_returns) simp_all

section \<open>The device tree\<close>

text \<open>
  A property set in place leaves every other property of the node where it was, with its length
  and its bytes.
\<close>

theorem setprop_inplace_keeps_others:
  assumes "layout m fdt" "node < 2147483648" "fdt_setprop_inplace m fdt node name val = (0, m')"
    and "nm \<noteq> name" "fdt_getprop m fdt node nm = (Some w, len)"
  shows "fdt_getprop m' fdt node nm = (Some w, len) \<and> bytes_at m' w (nat len) = bytes_at m w (nat len)"
  using fdt_setprop_inplace_others [OF assms(1-3)] assms(4,5) by simp

text \<open>
  A tree at 4096 with the four placeholders in \<open>/chosen\<close>, in rows of 16 bytes: the header, a
  reservation, the root, the node with its properties, the names. Above it, at 8192, the header of a
  memory map of 96 bytes with descriptors of 48.
\<close>

definition chosen_rows :: "byte list list" where
  "chosen_rows =
     [[208, 13, 254, 237, 0, 0, 0, 250, 0, 0, 0, 56, 0, 0, 0, 156],
      [0, 0, 0, 40, 0, 0, 0, 17, 0, 0, 0, 16, 0, 0, 0, 0],
      [0, 0, 0, 94, 0, 0, 0, 100, 0, 0, 0, 0, 0, 0, 0, 0],
      [0, 0, 0, 0, 0, 0, 0, 0, 0, 0, 0, 1, 0, 0, 0, 0],
      [0, 0, 0, 1, 99, 104, 111, 115, 101, 110, 0, 0, 0, 0, 0, 3],
      [0, 0, 0, 8, 0, 0, 0, 0, 255, 255, 255, 255, 255, 255, 255, 255],
      [0, 0, 0, 3, 0, 0, 0, 4, 0, 0, 0, 22, 255, 255, 255, 255],
      [0, 0, 0, 3, 0, 0, 0, 4, 0, 0, 0, 43, 255, 255, 255, 255],
      [0, 0, 0, 3, 0, 0, 0, 4, 0, 0, 0, 69, 255, 255, 255, 255],
      [0, 0, 0, 2, 0, 0, 0, 2, 0, 0, 0, 9, 108, 105, 110, 117],
      [120, 44, 117, 101, 102, 105, 45, 109, 109, 97, 112, 45, 115, 116, 97, 114],
      [116, 0, 108, 105, 110, 117, 120, 44, 117, 101, 102, 105, 45, 109, 109, 97],
      [112, 45, 115, 105, 122, 101, 0, 108, 105, 110, 117, 120, 44, 117, 101, 102],
      [105, 45, 109, 109, 97, 112, 45, 100, 101, 115, 99, 45, 115, 105, 122, 101],
      [0, 108, 105, 110, 117, 120, 44, 117, 101, 102, 105, 45, 109, 109, 97, 112],
      [45, 100, 101, 115, 99, 45, 118, 101, 114, 0]]"

definition map_rows :: "byte list list" where
  "map_rows = [[96, 0, 0, 0, 0, 0, 0, 0, 48, 0, 0, 0, 0, 0, 0, 0], [1, 0, 0, 0, 0, 0, 0, 0, 7, 0, 0, 0, 0, 0, 0, 0],
     [224, 1, 0, 0, 0, 0, 0, 0]]"

definition demo_chosen :: mem where
  "demo_chosen a =
     (if 4096 \<le> a \<and> a < 4346 then chosen_rows ! nat ((a - 4096) div 16) ! nat (a mod 16)
      else if 8192 \<le> a \<and> a < 8232 then map_rows ! nat ((a - 8192) div 16) ! nat (a mod 16)
      else 0)"

lemma demo_chosen_layout: "layout demo_chosen 4096"
  by code_simp

lemma demo_chosen_node: "fdt_path_offset demo_chosen 4096 (str ''/chosen'') = Some 8"
proof -
  have "deref (str ''/chosen'') = 47" by code_simp
  moreover have "\<not> fdt_ro_probe_i demo_chosen 4096 < 0" by code_simp
  moreover have "path_walk demo_chosen 4096 0 (str ''/chosen'') = 8" by code_simp
  ultimately show ?thesis using fdt_path_offset_absolute by simp
qed

lemma demo_placeholder_start: "placeholder demo_chosen 4096 8 (str ''linux,uefi-mmap-start'', be64 8232)"
  by code_simp

lemma demo_placeholder_size: "placeholder demo_chosen 4096 8 (str ''linux,uefi-mmap-size'', be32 96)"
  by code_simp

lemma demo_placeholder_desc_size: "placeholder demo_chosen 4096 8 (str ''linux,uefi-mmap-desc-size'', be32 48)"
  by code_simp

lemma demo_placeholder_desc_ver: "placeholder demo_chosen 4096 8 (str ''linux,uefi-mmap-desc-ver'', be32 1)"
  by code_simp

lemmas demo_placeholders =
  demo_placeholder_start demo_placeholder_size demo_placeholder_desc_size demo_placeholder_desc_ver

lemma demo_memmap_fields:
  "mm_map_size demo_chosen 8192 = 96" "mm_desc_size demo_chosen 8192 = 48" "mm_desc_ver demo_chosen 8192 = 1"
  "fdt_totalsize demo_chosen 4096 = 250"
  by code_simp+

theorem setprop_inplace_keeps_others_witness:
  "\<exists>w m'. fdt_setprop_inplace demo_chosen 4096 8 (str ''linux,uefi-mmap-start'') (be64 8232) = (0, m')
    \<and> fdt_getprop m' 4096 8 (str ''linux,uefi-mmap-size'') = (Some w, 4)"
proof -
  obtain v w where g: "fdt_getprop demo_chosen 4096 8 (str ''linux,uefi-mmap-start'') = (Some v, int (length (be64 8232)))"
    "fdt_getprop demo_chosen 4096 8 (str ''linux,uefi-mmap-size'') = (Some w, 4)"
    using demo_placeholders(1,2) by (auto simp: placeholder_iff be32_def)
  note s = setprop_inplace_of_getprop [OF g(1)]
  have ne: "str ''linux,uefi-mmap-size'' \<noteq> str ''linux,uefi-mmap-start''" by code_simp
  show ?thesis using setprop_inplace_keeps_others [OF demo_chosen_layout _ s ne g(2)] s by auto
qed

text \<open>
  C14: whatever \<open>update_fdt_memmap\<close> returns, the tree keeps its layout and nothing outside it changes.
  It succeeds when \<open>/chosen\<close> has placeholders of the right lengths, and then the tree holds the
  address, size, descriptor size and version of the memory map, all four as they are in the map, and
  the other properties of the node as they were.
\<close>

theorem memmap_reaches_kernel:
  assumes "layout m fdt" "map0 + SIZEOF_BOOT_MEMMAP \<le> fdt \<or> fdt + fdt_totalsize m fdt \<le> map0"
    and "fdt_path_offset m fdt (str ''/chosen'') = Some node"
    and "update_fdt_memmap m fdt map0 = Some (st, m')"
  shows "edit_keeps fdt m m'
    \<and> (0 \<le> node \<and> list_all (placeholder m fdt node) (memmap_props m map0) \<longrightarrow> st = EFI_SUCCESS)
    \<and> (st = EFI_SUCCESS \<longrightarrow>
         list_all (\<lambda>p. has_value m' fdt node (fst p) (snd p)) (memmap_props m map0)
       \<and> (\<forall>nm w. nm \<notin> fst ` set (memmap_props m map0) \<longrightarrow> has_value m fdt node nm w \<longrightarrow> has_value m' fdt node nm w))"
  by (rule update_fdt_memmap_found [OF assms])

theorem memmap_reaches_kernel_witness:
  "\<exists>m'. update_fdt_memmap demo_chosen 4096 8192 = Some (EFI_SUCCESS, m')
    \<and> has_value m' 4096 8 (str ''linux,uefi-mmap-size'') (be32 96)"
proof -
  obtain st m' where u: "update_fdt_memmap demo_chosen 4096 8192 = Some (st, m')"
    using update_fdt_memmap_returns by blast
  have "list_all (placeholder demo_chosen 4096 8) (memmap_props demo_chosen 8192)"
    using demo_placeholders by (simp add: memmap_props_def demo_memmap_fields)
  then have "st = EFI_SUCCESS \<and> list_all (\<lambda>p. has_value m' 4096 8 (fst p) (snd p)) (memmap_props demo_chosen 8192)"
    using memmap_reaches_kernel [OF demo_chosen_layout _ demo_chosen_node u] demo_memmap_fields by simp
  then show ?thesis using u by (simp add: memmap_props_def demo_memmap_fields)
qed

section \<open>The end of the boot services\<close>

text \<open>
  C1: \<open>efi_main\<close> returns to the firmware only with an error, and then no call of \<open>ExitBootServices\<close> has
  succeeded; nor has one when \<open>efi_stub_common\<close> has come back and \<open>efi_main\<close> loops in \<open>efi_todo\<close>. When it
  enters the kernel, which gets the hart that was found, one has, exactly once, and the only call behind
  it is at most one of \<open>SetVirtualAddressMap\<close>.
\<close>

theorem kernel_entered_after_exit:
  assumes "efi_main fw lnk h cv s = Some (res, s')"
  shows "\<exists>new. calls s' = calls s @ new \<and>
    (case res of Returned st \<Rightarrow> EFI_ERROR st \<and> boot_services_live new
     | Halted \<Rightarrow> boot_services_live new
     | Entered entry hart fdt \<Rightarrow> hart = hartid s' \<and> hands_over new)"
  using main_calls [OF assms] main_outcome [OF assms] by (auto simp: run_calls_def split: outcome.splits)

text \<open>An image at 4096 without load options, and no payload.\<close>

definition no_payload :: symbols where
  "no_payload = \<lparr>sym_start = 0, sym_image_end = 0, sym_payload_start = 0, sym_payload_end = 0\<rparr>"

theorem kernel_entered_after_exit_witness:
  "\<exists>s'. efi_main demo_fw no_payload 1 4096 (demo_stub (\<lambda>_. 0) 65536) = Some (Returned EFI_NOT_FOUND, s')
    \<and> boot_services_live (calls s')"
proof -
  have "map_option fst (efi_main demo_fw no_payload 1 4096 (demo_stub (\<lambda>_. 0) 65536)) = Some (Returned EFI_NOT_FOUND)"
    by code_simp
  then obtain s' where s: "efi_main demo_fw no_payload 1 4096 (demo_stub (\<lambda>_. 0) 65536) = Some (Returned EFI_NOT_FOUND, s')"
    by (auto simp: map_option_eq_Some)
  from kernel_entered_after_exit [OF s] show ?thesis using s by (simp add: demo_stub_def)
qed

end
