(* ===== verification/Fdt_Items.thy ===== *)
theory Fdt_Items
  imports Fdt_Edit
begin

text \<open>
  The structure block as the list of its items: what a tree says, with every offset gone.
  \<open>item_at\<close> reads one item off the front of a list of bytes and \<open>items\<close> all of them up to
  \<open>FDT_END\<close> or to the first that cannot be read. On a tree with a layout \<open>fdt_next_tag\<close> reads
  exactly the item that \<open>item_at\<close> reads from the bytes behind its offset, so the walks of the
  readers are walks along the list.
\<close>

section \<open>Reading an item off the front\<close>

datatype 'n item = Begin "byte list" | Endnode | Property 'n "byte list" | Nop

definition rd32 :: "byte list \<Rightarrow> nat \<Rightarrow> int" where
  "rd32 bs i = uint (bs ! i) * 16777216 + uint (bs ! (i + 1)) * 65536 + uint (bs ! (i + 2)) * 256
     + uint (bs ! (i + 3))"

definition align4 :: "nat \<Rightarrow> nat" where
  "align4 n = 4 * ((n + 3) div 4)"

text \<open>The item and the number of bytes it takes, the padding included.\<close>

definition item_at :: "byte list \<Rightarrow> (int item \<times> nat) option" where
  "item_at bs =
     (if length bs < 4 then None
      else if rd32 bs 0 = FDT_BEGIN_NODE then
        (let nm = takeWhile (\<lambda>b. b \<noteq> 0) (drop 4 bs)
         in if 4 + length nm < length bs then Some (Begin nm, align4 (5 + length nm)) else None)
      else if rd32 bs 0 = FDT_END_NODE then Some (Endnode, 4)
      else if rd32 bs 0 = FDT_PROP then
        (if 12 \<le> length bs \<and> 12 + nat (rd32 bs 4) \<le> length bs
         then Some (Property (rd32 bs 8) (take (nat (rd32 bs 4)) (drop 12 bs)), align4 (12 + nat (rd32 bs 4)))
         else None)
      else if rd32 bs 0 = FDT_NOP then Some (Nop, 4)
      else None)"

lemma align4_bounds: "n \<le> align4 n" "align4 n \<le> n + 3" "align4 n mod 4 = 0"
  by (simp_all add: align4_def)

lemma item_at_pos: "item_at bs = Some (it, n) \<Longrightarrow> 4 \<le> n \<and> n \<le> length bs + 3 \<and> n mod 4 = 0 \<and> 4 \<le> length bs"
  using align4_bounds [of "5 + length (takeWhile (\<lambda>b. b \<noteq> 0) (drop 4 bs))"] align4_bounds [of "12 + nat (rd32 bs 4)"]
  by (auto simp: item_at_def Let_def split: if_splits)

function items :: "byte list \<Rightarrow> int item list" where
  "items bs = (case item_at bs of None \<Rightarrow> [] | Some (it, n) \<Rightarrow> it # items (drop n bs))"
  by pat_completeness auto
termination by (relation "measure length") (auto dest!: item_at_pos)

declare items.simps [simp del]

definition tag_of :: "'n item \<Rightarrow> int" where
  "tag_of it = (case it of Begin _ \<Rightarrow> FDT_BEGIN_NODE | Endnode \<Rightarrow> FDT_END_NODE | Property _ _ \<Rightarrow> FDT_PROP | Nop \<Rightarrow> FDT_NOP)"

lemma tag_of_simps [simp]: "tag_of (Begin nm) = FDT_BEGIN_NODE" "tag_of Endnode = FDT_END_NODE"
  "tag_of (Property n v) = FDT_PROP" "tag_of Nop = FDT_NOP"
  by (simp_all add: tag_of_def)

section \<open>The bytes of the structure block\<close>

lemma drop_bytes_at: "drop k (bytes_at m p n) = bytes_at m (p + int k) (n - k)"
  by (rule nth_equalityI) (auto simp: add.assoc)

lemma take_bytes_at: "take k (bytes_at m p n) = bytes_at m p (min k n)"
  by (rule nth_equalityI) auto

lemma rd32_bytes_at: "i + 4 \<le> n \<Longrightarrow> rd32 (bytes_at m p n) i = fdt32_ld m (p + int i)"
  by (simp add: rd32_def fdt32_ld_def ac_simps)

definition blk :: "mem \<Rightarrow> addr \<Rightarrow> int \<Rightarrow> byte list" where
  "blk m fdt off = bytes_at m (fdt + fdt_off_dt_struct m fdt + off) (nat (fdt_size_dt_struct m fdt - off))"

lemma length_blk [simp]: "length (blk m fdt off) = nat (fdt_size_dt_struct m fdt - off)"
  by (simp add: blk_def)

lemma drop_blk: "drop n (blk m fdt off) = blk m fdt (off + int n)"
proof -
  have "nat (s - off) - n = nat (s - (off + int n))" for s by arith
  then show ?thesis by (simp add: blk_def drop_bytes_at add.assoc)
qed

lemma rd32_blk:
  "0 \<le> off \<Longrightarrow> off + int i + 4 \<le> fdt_size_dt_struct m fdt \<Longrightarrow>
   rd32 (blk m fdt off) i = fdt32_ld m (fdt + fdt_off_dt_struct m fdt + off + int i)"
  unfolding blk_def by (subst rd32_bytes_at) auto

lemma blk_Cons: "off < fdt_size_dt_struct m fdt \<Longrightarrow>
  blk m fdt off = m (fdt + fdt_off_dt_struct m fdt + off) # blk m fdt (off + 1)"
proof -
  assume "off < fdt_size_dt_struct m fdt"
  then have "nat (fdt_size_dt_struct m fdt - off) = Suc (nat (fdt_size_dt_struct m fdt - (off + 1)))" by simp
  then show ?thesis by (simp add: blk_def bytes_at_Suc add.assoc)
qed

lemma blk_Nil: "fdt_size_dt_struct m fdt \<le> off \<Longrightarrow> blk m fdt off = []"
  by (simp add: blk_def)

section \<open>The tag reader on a tree with a layout\<close>

lemma fdt_offset_ptr_layout:
  assumes lay: "layout m fdt" and "0 \<le> off" "off < 2147483648" "0 \<le> len" "len < 4294967296"
  shows "fdt_offset_ptr m fdt off len =
    (if off + len \<le> fdt_size_dt_struct m fdt then Some (fdt + fdt_off_dt_struct m fdt + off) else None)"
proof -
  note ll = layout_lin [OF lay]
  have ver: "fdt_version m fdt = 17" using lay by (simp add: layout_def)
  have u: "u32 off = off" "u32 (off + fdt_off_dt_struct m fdt) = off + fdt_off_dt_struct m fdt"
    using assms ll by (intro u32_id; linarith)+
  show ?thesis
  proof (cases "off + len \<le> fdt_size_dt_struct m fdt")
    case True
    then have "u32 (off + len) = off + len" "u32 (off + fdt_off_dt_struct m fdt + len) = off + fdt_off_dt_struct m fdt + len"
      using assms ll by (intro u32_id; linarith)+
    then show ?thesis using True u ll assms by (auto simp: fdt_offset_ptr_def fdt_offset_ptr_i_def Let_def ver not_less not_le; linarith)
  next
    case False
    then have "\<not> (off \<le> u32 (off + len) \<and> u32 (off + len) \<le> fdt_size_dt_struct m fdt)"
      using u32_add_nowrap [of off len] assms by auto
    then show ?thesis using False u by (auto simp: fdt_offset_ptr_def Let_def ver)
  qed
qed

lemma skip_name_layout:
  assumes lay: "layout m fdt"
  shows "0 \<le> off \<Longrightarrow> off < 2147483648 \<Longrightarrow>
    skip_name m fdt off =
      (let nm = takeWhile (\<lambda>b. b \<noteq> 0) (blk m fdt off)
       in if length nm < length (blk m fdt off) then Some (off + int (length nm) + 1) else None)"
proof (induction "nat (2147483648 - off)" arbitrary: off rule: less_induct)
  case less
  note ll = layout_lin [OF lay]
  show ?case
  proof (cases "off < fdt_size_dt_struct m fdt")
    case False
    then show ?thesis using less.prems
      by (simp add: skip_name.simps [of m fdt off] fdt_offset_ptr_layout [OF lay] blk_Nil)
  next
    case True
    then have o1: "off + 1 < 2147483648" using ll by linarith
    then have s: "s32 (off + 1) = off + 1" using less.prems by (intro s32_id) linarith+
    have IH: "skip_name m fdt (off + 1) =
      (let nm = takeWhile (\<lambda>b. b \<noteq> 0) (blk m fdt (off + 1))
       in if length nm < length (blk m fdt (off + 1)) then Some (off + 1 + int (length nm) + 1) else None)"
      using less.hyps [of "off + 1"] less.prems o1 by simp
    have len: "nat (fdt_size_dt_struct m fdt - off) = Suc (nat (fdt_size_dt_struct m fdt - (off + 1)))"
      using True by simp
    show ?thesis
      using True less.prems s IH len
      by (simp add: skip_name.simps [of m fdt off] fdt_offset_ptr_layout [OF lay] blk_Cons [OF True] Let_def del: diff_add_eq diff_diff_eq)
  qed
qed

text \<open>One step of the tag reader is one item.\<close>

lemma fdt_next_tag_items:
  assumes lay: "layout m fdt" and off: "0 \<le> off" "off mod 4 = 0" "off < 2147483648"
  shows "case item_at (blk m fdt off) of
      Some (it, n) \<Rightarrow> fdt_next_tag m fdt off = (tag_of it, off + int n)
        \<and> off + int n \<le> fdt_size_dt_struct m fdt + 3 \<and> off + int n < 2147483648
    | None \<Rightarrow> fst (fdt_next_tag m fdt off) = FDT_END"
proof (cases "off + 4 \<le> fdt_size_dt_struct m fdt")
  case False
  then have "length (blk m fdt off) < 4" by simp
  then show ?thesis
    using False off by (simp add: item_at_def fdt_next_tag_def fdt_offset_ptr_layout [OF lay])
next
  case True
  note ll = layout_lin [OF lay]
  have ver: "fdt_version m fdt = 17" using lay by (simp add: layout_def)
  define S where "S = fdt_size_dt_struct m fdt"
  define tag where "tag = rd32 (blk m fdt off) 0"
  have S: "S < 2147483592" "off + 4 \<le> S" using ll True unfolding S_def by linarith+
  have tag': "fdt32_ld m (fdt + fdt_off_dt_struct m fdt + off) = tag"
    using rd32_blk [of off 0 m fdt] off True by (simp add: tag_def)
  have s4: "s32 (off + 4) = off + 4" using S off by (simp add: s32_id)
  have al: "FDT_TAGALIGN (off + int k) = off + int (align4 k)" for k
    using off(2) unfolding FDT_TAGALIGN_div align4_def by (simp add: zdiv_int) presburger
  have step: "fdt_next_tag m fdt off = (case next_tag_switch m fdt tag (off + 4) of
      None \<Rightarrow> (FDT_END, - FDT_ERR_BADSTRUCTURE)
    | Some r \<Rightarrow> (case fdt_offset_ptr m fdt off (u32 (r - off)) of
        None \<Rightarrow> (FDT_END, - FDT_ERR_BADSTRUCTURE) | Some _ \<Rightarrow> (tag, s32 (FDT_TAGALIGN r))))"
    using True off by (simp add: fdt_next_tag_def fdt_offset_ptr_layout [OF lay] tag' s4 Let_def)
  have fin: "(case fdt_offset_ptr m fdt off (u32 (off + int k - off)) of
        None \<Rightarrow> (FDT_END, - FDT_ERR_BADSTRUCTURE) | Some _ \<Rightarrow> (tag, s32 (FDT_TAGALIGN (off + int k))))
      = (tag, off + int (align4 k))" if "off + int k \<le> S" for k
  proof -
    have "u32 (int k) = int k" using that S off by (intro u32_id) auto
    moreover have "s32 (off + int (align4 k)) = off + int (align4 k)"
      using that S off align4_bounds [of k] by (intro s32_id) auto
    ultimately show ?thesis
      using that S off by (simp add: fdt_offset_ptr_layout [OF lay] al S_def)
  qed
  have nat4: "\<not> length (blk m fdt off) < 4" using True by simp
  consider (bn) "tag = FDT_BEGIN_NODE" | (pr) "tag = FDT_PROP" | (fx) "tag = FDT_END_NODE \<or> tag = FDT_NOP"
    | (other) "tag \<noteq> FDT_BEGIN_NODE" "tag \<noteq> FDT_PROP" "tag \<noteq> FDT_END_NODE" "tag \<noteq> FDT_NOP" by blast
  then show ?thesis
  proof cases
    case other
    then show ?thesis
      using nat4 by (auto simp: item_at_def tag_def [symmetric] step next_tag_switch_def split: option.splits)
  next
    case fx
    have a4: "align4 4 = 4" by (simp add: align4_def)
    have "next_tag_switch m fdt tag (off + 4) = Some (off + 4)" using fx by (auto simp: next_tag_switch_def)
    then have "fdt_next_tag m fdt off = (tag, off + 4)"
      using fin [of 4, unfolded of_nat_numeral a4] S by (simp only: step option.case)
    then show ?thesis using fx nat4 S by (auto simp: item_at_def tag_def [symmetric] S_def)
  next
    case bn
    define nm where "nm = takeWhile (\<lambda>b. b \<noteq> 0) (blk m fdt (off + 4))"
    have sk: "skip_name m fdt (off + 4) = (if length nm < length (blk m fdt (off + 4)) then Some (off + 4 + int (length nm) + 1) else None)"
      using skip_name_layout [OF lay, of "off + 4"] off S by (simp add: nm_def Let_def)
    have d: "drop 4 (blk m fdt off) = blk m fdt (off + 4)" by (simp add: drop_blk)
    show ?thesis
    proof (cases "length nm < length (blk m fdt (off + 4))")
      case False
      then show ?thesis using bn nat4 sk S
        by (simp add: item_at_def tag_def [symmetric] step next_tag_switch_def Let_def d nm_def [symmetric])
    next
      case True
      then have le: "off + int (5 + length nm) \<le> S" by (simp add: S_def)
      have "next_tag_switch m fdt tag (off + 4) = Some (off + int (5 + length nm))"
        using bn sk True by (simp add: next_tag_switch_def)
      then have "fdt_next_tag m fdt off = (tag, off + int (align4 (5 + length nm)))"
        by (simp only: step option.case fin [OF le])
      then show ?thesis using bn nat4 le True S align4_bounds [of "5 + length nm"]
        by (simp add: item_at_def tag_def [symmetric] Let_def d nm_def [symmetric] S_def)
    qed
  next
    case pr
    show ?thesis
    proof (cases "off + 8 \<le> S")
      case False
      then show ?thesis using pr nat4 off S
        by (simp add: item_at_def tag_def [symmetric] step next_tag_switch_def fdt_offset_ptr_layout [OF lay] S_def)
    next
      case True
      define len where "len = rd32 (blk m fdt off) 4"
      have len: "fdt32_ld m (fdt + fdt_off_dt_struct m fdt + (off + 4)) = len" "0 \<le> len" "len < 4294967296"
        using rd32_blk [of off 4 m fdt] off True by (simp_all add: len_def S_def add.assoc)
      show ?thesis
      proof (cases "off + 12 + len \<le> S")
        case True
        define k where "k = nat (12 + len)"
        have k: "off + int k \<le> S" "off + int k = off + 12 + len" using True len by (simp_all add: k_def)
        have "u32 (len + (off + 4)) = len + (off + 4)" "s32 (off + 12 + len) = off + 12 + len" "u32 (off + 4) = off + 4"
          using True S off len by (simp_all add: u32_id s32_id)
        then have "next_tag_switch m fdt tag (off + 4) = Some (off + int k)"
          using pr True S off len k by (simp add: next_tag_switch_def fdt_offset_ptr_layout [OF lay] ver Let_def S_def algebra_simps)
        then have "fdt_next_tag m fdt off = (tag, off + int (align4 k))" by (simp only: step option.case fin [OF k(1)])
        moreover have "item_at (blk m fdt off) = Some (Property (rd32 (blk m fdt off) 8) (take (nat len) (drop 12 (blk m fdt off))), align4 k)"
        proof -
          have "12 \<le> length (blk m fdt off) \<and> 12 + nat len \<le> length (blk m fdt off)"
            using True len(2) unfolding S_def by (simp only: length_blk) linarith
          then show ?thesis
            using pr nat4 len(2) by (simp add: item_at_def tag_def [symmetric] len_def [symmetric] k_def nat_add_distrib)
        qed
        ultimately show ?thesis using pr k S align4_bounds [of k] by (simp add: S_def)
      next
        case False
        then have "item_at (blk m fdt off) = None"
        proof -
          have "\<not> (12 \<le> length (blk m fdt off) \<and> 12 + nat len \<le> length (blk m fdt off))"
            using False len(2) unfolding S_def by (simp only: length_blk) linarith
          then show ?thesis
            using pr nat4 by (simp add: item_at_def tag_def [symmetric] len_def [symmetric] cong: if_cong)
        qed
        moreover have "fst (fdt_next_tag m fdt off) = FDT_END"
        proof (cases "off + 4 + len < INT_MAX")
          case lt: True
          have u: "u32 (len + (off + 4)) = len + (off + 4)" "u32 (off + 4) = off + 4"
            using lt S off len by (simp_all add: u32_id)
          have sw: "next_tag_switch m fdt tag (off + 4) = Some (s32 (off + 12 + len))"
            using pr \<open>off + 8 \<le> S\<close> S off len lt u by (simp add: next_tag_switch_def fdt_offset_ptr_layout [OF lay] ver Let_def S_def algebra_simps)
          have "fdt_offset_ptr m fdt off (u32 (s32 (off + 12 + len) - off)) = None"
          proof -
            have "u32 (s32 (off + 12 + len) - off) = 12 + len"
            proof (cases "off + 12 + len < 2147483648")
              case True
              then show ?thesis using len off by (simp add: s32_id u32_id)
            next
              case False
              then have "s32 (off + 12 + len) - off = 12 + len - 4294967296" using lt by (subst s32_big) linarith+
              moreover have "u32 (12 + len - 4294967296) = 12 + len"
                using lt len off by (subst u32_neg) linarith+
              ultimately show ?thesis by simp
            qed
            then show ?thesis using False len off lt by (simp add: fdt_offset_ptr_layout [OF lay] S_def)
          qed
          then show ?thesis by (simp add: step sw)
        next
          case ge: False
          have "INT_MAX \<le> u32 (len + (off + 4)) \<or> u32 (len + (off + 4)) < u32 (off + 4)"
            using ge len off S u32_wrapped [of "len + (off + 4)"] by (cases "len + (off + 4) < 4294967296") (auto simp: u32_id)
          then have "next_tag_switch m fdt tag (off + 4) = None"
            using pr \<open>off + 8 \<le> S\<close> S off len by (auto simp: next_tag_switch_def fdt_offset_ptr_layout [OF lay] ver Let_def S_def)
          then show ?thesis by (simp add: step)
        qed
        ultimately show ?thesis by simp
      qed
    qed
  qed
qed


section \<open>Walking along the items\<close>

text \<open>The items of the first \<open>k\<close> bytes, which end where an item ends.\<close>

inductive reaches :: "byte list \<Rightarrow> nat \<Rightarrow> int item list \<Rightarrow> bool" where
  here: "reaches bs 0 []"
| step: "item_at bs = Some (it, n) \<Longrightarrow> n \<le> length bs \<Longrightarrow> reaches (drop n bs) k its \<Longrightarrow> reaches bs (n + k) (it # its)"

lemma item_at_take:
  assumes "item_at bs = Some (it, n)" "n \<le> k" "k \<le> length bs"
  shows "item_at (take k bs @ xs) = Some (it, n)"
proof -
  have n4: "4 \<le> n" using item_at_pos [OF assms(1)] by simp
  have rd: "rd32 (take k bs @ xs) i = rd32 bs i" if "i + 4 \<le> k" for i
    using that assms(3) by (simp add: rd32_def nth_append)
  have r0: "rd32 (take k bs @ xs) 0 = rd32 bs 0" using n4 assms(2) by (intro rd) simp
  have l: "\<not> length bs < 4" "\<not> length (take k bs @ xs) < 4" using assms n4 by auto
  consider "rd32 bs 0 = FDT_BEGIN_NODE" | "rd32 bs 0 = FDT_PROP" | "rd32 bs 0 \<noteq> FDT_BEGIN_NODE" "rd32 bs 0 \<noteq> FDT_PROP" by blast
  then show ?thesis
  proof cases
    case 1
    define nm where "nm = takeWhile (\<lambda>b. b \<noteq> 0) (drop 4 bs)"
    have nm: "it = Begin nm" "n = align4 (5 + length nm)" "4 + length nm < length bs"
      using assms(1) 1 l by (auto simp: item_at_def Let_def nm_def split: if_splits)
    have lt: "length nm < length (drop 4 bs)" "4 + length nm < k"
      using nm assms(2) align4_bounds [of "5 + length nm"] by auto
    obtain ys where ys: "drop 4 bs = nm @ 0 # ys"
    proof -
      have "drop 4 bs = nm @ dropWhile (\<lambda>b. b \<noteq> 0) (drop 4 bs)" by (simp add: nm_def)
      moreover from this lt(1) have "dropWhile (\<lambda>b. b \<noteq> 0) (drop 4 bs) \<noteq> []" by (metis append_Nil2 less_irrefl)
      moreover from this have "hd (dropWhile (\<lambda>b. b \<noteq> 0) (drop 4 bs)) = 0" using hd_dropWhile by blast
      ultimately show ?thesis using that by (metis list.collapse)
    qed
    have "takeWhile (\<lambda>b. b \<noteq> 0) (drop 4 (take k bs @ xs)) = nm"
    proof -
      obtain j where j: "k - (4 + length nm) = Suc j" using lt(2) by (metis Suc_diff_Suc)
      have "drop 4 (take k bs @ xs) = take (k - 4) (drop 4 bs) @ xs" using n4 assms(2,3) by (simp add: drop_take)
      then have "drop 4 (take k bs @ xs) = nm @ 0 # take j ys @ xs" using lt(2) by (simp add: ys j)
      moreover have "0 \<notin> set nm" unfolding nm_def by (auto dest: set_takeWhileD)
      moreover from this have "takeWhile (\<lambda>b. b \<noteq> 0) (nm @ 0 # zs) = nm" for zs
        by (metis (mono_tags, lifting) append_Nil2 takeWhile.simps(2) takeWhile_append2)
      ultimately show ?thesis by simp
    qed
    then show ?thesis using 1 r0 l nm lt assms(3) by (simp add: item_at_def)
  next
    case 2
    have it: "12 + nat (rd32 bs 4) \<le> length bs" "n = align4 (12 + nat (rd32 bs 4))"
      "it = Property (rd32 bs 8) (take (nat (rd32 bs 4)) (drop 12 bs))"
      using assms(1) 2 l by (auto simp: item_at_def split: if_splits)
    have k: "12 + nat (rd32 bs 4) \<le> k" using it(2) assms(2) align4_bounds [of "12 + nat (rd32 bs 4)"] by simp
    have "rd32 (take k bs @ xs) 4 = rd32 bs 4" "rd32 (take k bs @ xs) 8 = rd32 bs 8" using k by (auto intro!: rd)
    moreover have "take (nat (rd32 bs 4)) (drop 12 (take k bs @ xs)) = take (nat (rd32 bs 4)) (drop 12 bs)"
      using k assms(3) by (simp add: drop_take)
    ultimately show ?thesis using 2 r0 l it k assms(3) by (simp add: item_at_def)
  next
    case 3
    then show ?thesis using assms(1) r0 l by (auto simp: item_at_def split: if_splits)
  qed
qed


lemma reaches_le: "reaches bs k its \<Longrightarrow> k \<le> length bs \<and> k mod 4 = 0"
  by (induction rule: reaches.induct) (auto dest: item_at_pos)

lemma items_unfold: "item_at bs = Some (it, n) \<Longrightarrow> items bs = it # items (drop n bs)"
  by (simp add: items.simps [of bs])

lemma reaches_items: "reaches bs k its \<Longrightarrow> items bs = its @ items (drop k bs)"
proof (induction rule: reaches.induct)
  case (step bs it n k its)
  have "items bs = it # items (drop n bs)" by (rule items_unfold [OF step.hyps(1)])
  then show ?case using step.IH by (simp add: add.commute)
qed simp

lemma reaches_take: "reaches bs k its \<Longrightarrow> k \<le> j \<Longrightarrow> j \<le> length bs \<Longrightarrow> reaches (take j bs @ xs) k its"
proof (induction arbitrary: j rule: reaches.induct)
  case (here bs)
  show ?case by (rule reaches.here)
next
  case (step bs it n k its)
  have "reaches (take (j - n) (drop n bs) @ xs) k its" by (rule step.IH) (use step.prems in auto)
  moreover have "drop n (take j bs @ xs) = take (j - n) (drop n bs) @ xs"
    using step.prems step.hyps(2) by (simp add: drop_take)
  moreover have "item_at (take j bs @ xs) = Some (it, n)"
    using step.prems step.hyps(1) by (intro item_at_take) auto
  ultimately show ?case using step.prems step.hyps(2) by (intro reaches.step) auto
qed

lemma items_take: "reaches bs k its \<Longrightarrow> items (take k bs @ xs) = its @ items xs"
  using reaches_items [OF reaches_take [of bs k its k xs]] reaches_le [of bs k its] by simp

lemma reaches_trans: "reaches bs k its \<Longrightarrow> reaches (drop k bs) j jts \<Longrightarrow> reaches bs (k + j) (its @ jts)"
proof (induction rule: reaches.induct)
  case (step bs it n k its)
  then show ?case using reaches.step [of bs it n "k + j" "its @ jts"] by (simp add: ac_simps)
qed simp

section \<open>Names in the string block\<close>

definition strs :: "mem \<Rightarrow> addr \<Rightarrow> byte list" where
  "strs m fdt = bytes_at m (fdt + fdt_off_dt_strings m fdt) (nat (fdt_size_dt_strings m fdt))"

definition name_at :: "byte list \<Rightarrow> int \<Rightarrow> byte list option" where
  "name_at tab so =
     (let nm = takeWhile (\<lambda>b. b \<noteq> 0) (drop (nat so) tab)
      in if 0 \<le> so \<and> nat so + length nm < length tab then Some nm else None)"

lemma takeWhile_bytes_at:
  "length (takeWhile (\<lambda>b. b \<noteq> 0) (bytes_at m p n)) < n \<Longrightarrow>
   m (p + int (length (takeWhile (\<lambda>b. b \<noteq> 0) (bytes_at m p n)))) = 0"
  using nth_length_takeWhile [of "\<lambda>b. b \<noteq> 0" "bytes_at m p n"] by simp

lemma memchr_nul:
  "memchr m s 0 n = (let nm = takeWhile (\<lambda>b. b \<noteq> 0) (bytes_at m s n)
     in if length nm < n then Some (s + int (length nm)) else None)"
  unfolding memchr_search
proof (induction n arbitrary: s)
  case (Suc n)
  then show ?case by (auto simp: bytes_at_Suc Let_def)
qed simp

lemma takeWhile_bytes_at_take:
  "takeWhile P (bytes_at m s n) = bytes_at m s (length (takeWhile P (bytes_at m s n)))"
  using takeWhile_eq_take [of P "bytes_at m s n"] length_takeWhile_le [of P "bytes_at m s n"]
  by (simp add: take_bytes_at min_def)

lemma fdt_get_string_items:
  assumes lay: "layout m fdt" and so: "0 \<le> so" "so < 4294967296"
  shows "case name_at (strs m fdt) so of
      Some nm \<Rightarrow> fdt_get_string m fdt (s32 so) = (Some (fdt + fdt_off_dt_strings m fdt + so), int (length nm))
        \<and> bytes_at m (fdt + fdt_off_dt_strings m fdt + so) (length nm) = nm
    | None \<Rightarrow> fst (fdt_get_string m fdt (s32 so)) = None"
proof -
  note ll = layout_lin [OF lay]
  have v: "fdt_magic m fdt = FDT_MAGIC" "fdt_version m fdt = 17" "fdt_ro_probe_i m fdt = fdt_totalsize m fdt"
    using lay layout_probe [OF lay] by (simp_all add: layout_def)
  define Z where "Z = fdt_size_dt_strings m fdt"
  define T where "T = fdt_off_dt_strings m fdt"
  have Z: "0 \<le> Z" "Z < 2147483648" "T + Z \<le> fdt_totalsize m fdt" "0 \<le> T" "fdt_totalsize m fdt < 2147483647"
    using ll unfolding Z_def T_def by linarith+
  have ds: "drop (nat so) (strs m fdt) = bytes_at m (fdt + T + so) (nat (Z - so))"
    using so by (simp add: strs_def drop_bytes_at nat_diff_distrib' Z_def T_def)
  show ?thesis
  proof (cases "so < Z")
    case True
    then have s: "s32 so = so" "u32 so = so" "u32 (Z - so) = Z - so" "u32 (so + T) = so + T"
      "u32 (fdt_totalsize m fdt - (so + T)) = fdt_totalsize m fdt - (so + T)"
      using so Z by (simp_all add: s32_id u32_id)
    have g: "fdt_get_string m fdt (s32 so) = string_at m (fdt + (so + T)) (Z - so)"
    proof (cases "Z - so < fdt_totalsize m fdt - (so + T)")
      case lt: True
      then show ?thesis
        using True so Z by (simp add: fdt_get_string_def s v Z_def [symmetric] T_def [symmetric] Let_def)
    next
      case False
      then have e: "fdt_totalsize m fdt - (so + T) = Z - so" using Z by linarith
      then show ?thesis
        using True so Z by (simp add: fdt_get_string_def s e v Z_def [symmetric] T_def [symmetric] Let_def)
    qed
    define nm where "nm = takeWhile (\<lambda>b. b \<noteq> 0) (bytes_at m (fdt + T + so) (nat (Z - so)))"
    have a: "fdt + (so + T) = fdt + T + so" by simp
    have "bytes_at m (fdt + T + so) (length nm) = nm" unfolding nm_def by (rule takeWhile_bytes_at_take [symmetric])
    moreover have "s32 (int (length nm)) = int (length nm)" if "length nm < nat (Z - so)"
      using that Z so by (intro s32_id) auto
    moreover have "nat so + length nm < nat Z \<longleftrightarrow> length nm < nat (Z - so)" using so Z True by linarith
    moreover have "length (strs m fdt) = nat Z" by (simp add: strs_def Z_def)
    ultimately show ?thesis
      using so unfolding g a
      by (simp add: string_at_def memchr_nul name_at_def ds nm_def [symmetric] Let_def T_def [symmetric])
  next
    case False
    have n: "name_at (strs m fdt) so = None" using False so Z by (auto simp: name_at_def strs_def Z_def [symmetric] Let_def)
    have "fst (fdt_get_string m fdt (s32 so)) = None"
    proof (cases "so < 2147483648")
      case True
      then show ?thesis using False so v by (simp add: fdt_get_string_def s32_id u32_id Z_def Let_def)
    next
      case ge: False
      then have "s32 so < 0" using so by (simp add: s32_big)
      then show ?thesis using v by (simp add: fdt_get_string_def Let_def)
    qed
    then show ?thesis by (simp add: n)
  qed
qed

lemma fdt_string_eq_items:
  assumes lay: "layout m fdt" and so: "0 \<le> so" "so < 4294967296"
  shows "fdt_string_eq_i m fdt (s32 so) nm \<longleftrightarrow> name_at (strs m fdt) so = Some nm"
  using fdt_get_string_items [OF assms]
  by (auto simp: fdt_string_eq_i_def mem_eq_def split: option.splits prod.splits)

section \<open>Looking up a property\<close>

text \<open>
  The items with the offsets of the names replaced by the names: what the tree says.
\<close>

definition view :: "mem \<Rightarrow> addr \<Rightarrow> int \<Rightarrow> byte list option item list" where
  "view m fdt off = map (map_item (name_at (strs m fdt))) (items (blk m fdt off))"

fun aget :: "byte list \<Rightarrow> byte list option item list \<Rightarrow> byte list option" where
  "aget nm (Property n v # its) = (if n = Some nm then Some v else aget nm its)"
| "aget nm (Nop # its) = aget nm its"
| "aget nm its = None"

text \<open>Where the first property of that name begins in the bytes behind the head of its node.\<close>

function find_prop :: "byte list \<Rightarrow> byte list \<Rightarrow> byte list \<Rightarrow> nat option" where
  "find_prop tab nm bs =
     (case item_at bs of
        Some (Property so v, n) \<Rightarrow>
          if name_at tab so = Some nm then Some 0 else map_option ((+) n) (find_prop tab nm (drop n bs))
      | Some (Nop, n) \<Rightarrow> map_option ((+) n) (find_prop tab nm (drop n bs))
      | _ \<Rightarrow> None)"
  by pat_completeness auto
termination by (relation "measure (\<lambda>(tab, nm, bs). length bs)") (auto dest!: item_at_pos)

declare find_prop.simps [simp del]

text \<open>The items a search for a name goes past.\<close>

definition passed :: "byte list \<Rightarrow> byte list \<Rightarrow> int item list \<Rightarrow> bool" where
  "passed tab nm = list_all (\<lambda>it. case it of Property so v \<Rightarrow> name_at tab so \<noteq> Some nm | Nop \<Rightarrow> True | _ \<Rightarrow> False)"

lemma passed_simps [simp]: "passed tab nm []"
  "passed tab nm (Property so v # its) \<longleftrightarrow> name_at tab so \<noteq> Some nm \<and> passed tab nm its"
  "passed tab nm (Nop # its) \<longleftrightarrow> passed tab nm its"
  by (simp_all add: passed_def)

lemma aget_passed:
  "passed tab nm pre \<Longrightarrow> aget nm (map (map_item (name_at tab)) (pre @ its)) = aget nm (map (map_item (name_at tab)) its)"
  by (induction pre) (auto simp: passed_def split: item.splits)

lemma find_prop_Some:
  "find_prop tab nm bs = Some k \<Longrightarrow> \<exists>pre so v n. reaches bs k pre \<and> passed tab nm pre
     \<and> item_at (drop k bs) = Some (Property so v, n) \<and> name_at tab so = Some nm"
proof (induction tab nm bs arbitrary: k rule: find_prop.induct)
  case (1 tab nm bs)
  obtain it n where it: "item_at bs = Some (it, n)" using "1.prems" by (auto simp: find_prop.simps [of tab nm bs] split: option.splits)
  have rest: ?case if past: "passed tab nm [it]" and f: "find_prop tab nm bs = map_option ((+) n) (find_prop tab nm (drop n bs))"
    and IH: "\<And>k. find_prop tab nm (drop n bs) = Some k \<Longrightarrow> \<exists>pre so v n'. reaches (drop n bs) k pre \<and> passed tab nm pre
     \<and> item_at (drop k (drop n bs)) = Some (Property so v, n') \<and> name_at tab so = Some nm"
  proof -
    obtain j where j: "find_prop tab nm (drop n bs) = Some j" "k = n + j"
      using f "1.prems" by (cases "find_prop tab nm (drop n bs)") auto
    obtain pre so v n' where r: "reaches (drop n bs) j pre" "passed tab nm pre"
      "item_at (drop j (drop n bs)) = Some (Property so v, n')" "name_at tab so = Some nm" using IH [OF j(1)] by blast
    have "4 \<le> length (drop j (drop n bs))" using item_at_pos [OF r(3)] by simp
    then have "n \<le> length bs" by simp
    then have "reaches bs k (it # pre)" using reaches.step [OF it _ r(1)] j(2) by simp
    moreover have "passed tab nm (it # pre)" using past r(2) by (simp add: passed_def)
    ultimately show ?thesis using r(3,4) j(2) by (metis add.commute drop_drop)
  qed
  show ?case
  proof (cases it)
    case (Property so v)
    show ?thesis
    proof (cases "name_at tab so = Some nm")
      case True
      then have "k = 0" using "1.prems" it Property by (simp add: find_prop.simps [of tab nm bs])
      then show ?thesis using True it Property reaches.here [of bs]
        by (intro exI [of _ "[]"] exI [of _ so] exI [of _ v] exI [of _ n]) simp
    next
      case False
      then show ?thesis using it Property "1.IH"(1) [OF it]
        by (intro rest) (auto simp: find_prop.simps [of tab nm bs])
    qed
  next
    case Nop
    then show ?thesis using it "1.IH"(2) [OF it]
      by (intro rest) (auto simp: find_prop.simps [of tab nm bs])
  qed (use "1.prems" it in \<open>auto simp: find_prop.simps [of tab nm bs]\<close>)
qed

lemma find_prop_None: "find_prop tab nm bs = None \<Longrightarrow> aget nm (map (map_item (name_at tab)) (items bs)) = None"
proof (induction tab nm bs rule: find_prop.induct)
  case (1 tab nm bs)
  show ?case
  proof (cases "item_at bs")
    case None
    then show ?thesis by (simp add: items.simps [of bs])
  next
    case (Some p)
    obtain it n where it: "item_at bs = Some (it, n)" using Some by (cases p) auto
    then show ?thesis using "1.prems" "1.IH" [OF it]
      by (cases it) (auto simp: items_unfold [OF it] find_prop.simps [of tab nm bs] split: if_splits)
  qed
qed

lemma find_prop_aget:
  "aget nm (map (map_item (name_at tab)) (items bs)) =
     (case find_prop tab nm bs of None \<Rightarrow> None
      | Some k \<Rightarrow> (case item_at (drop k bs) of Some (Property so v, n) \<Rightarrow> Some v | _ \<Rightarrow> None))"
proof (cases "find_prop tab nm bs")
  case None
  then show ?thesis using find_prop_None by simp
next
  case (Some k)
  obtain pre so v n where r: "reaches bs k pre" "passed tab nm pre"
      "item_at (drop k bs) = Some (Property so v, n)" "name_at tab so = Some nm" using find_prop_Some [OF Some] by blast
  have "items bs = pre @ Property so v # items (drop n (drop k bs))"
    using reaches_items [OF r(1)] items_unfold [OF r(3)] by simp
  then have "aget nm (map (map_item (name_at tab)) (items bs))
      = aget nm (map (map_item (name_at tab)) (Property so v # items (drop n (drop k bs))))"
    by (simp only: aget_passed [OF r(2)])
  then show ?thesis using r(3,4) Some by simp
qed

lemma prop_named_items:
  assumes lay: "layout m fdt" and off: "0 \<le> off" and it: "item_at (blk m fdt off) = Some (Property so v, n)"
  shows "prop_named m fdt nm off \<longleftrightarrow> name_at (strs m fdt) so = Some nm"
    "fdt32_ld m (fdt_offset_ptr_i m fdt off + 4) = int (length v)"
    "bytes_at m (fdt_offset_ptr_i m fdt off + 12) (length v) = v"
    "off + 12 + int (length v) \<le> fdt_size_dt_struct m fdt" "n = align4 (12 + length v)"
    "so = fdt32_ld m (fdt_offset_ptr_i m fdt off + 8)"
proof -
  define B where "B = blk m fdt off"
  have i: "12 \<le> length B" "12 + nat (rd32 B 4) \<le> length B" "so = rd32 B 8" "v = take (nat (rd32 B 4)) (drop 12 B)"
    "n = align4 (12 + nat (rd32 B 4))"
    using it by (auto simp: item_at_def B_def [symmetric] Let_def split: if_splits)
  have l: "off + 12 \<le> fdt_size_dt_struct m fdt" using i(1) by (simp add: B_def)
  have r: "rd32 B 4 = fdt32_ld m (fdt_offset_ptr_i m fdt off + 4)" "rd32 B 8 = fdt32_ld m (fdt_offset_ptr_i m fdt off + 8)"
    using rd32_blk [of off 4 m fdt] rd32_blk [of off 8 m fdt] off l by (simp_all add: B_def fdt_offset_ptr_i_def)
  have lv: "length v = nat (rd32 B 4)" using i(2,4) by simp
  then show "fdt32_ld m (fdt_offset_ptr_i m fdt off + 4) = int (length v)" by (simp add: r)
  show "off + 12 + int (length v) \<le> fdt_size_dt_struct m fdt" using i(2) lv l unfolding B_def length_blk by linarith
  show "n = align4 (12 + length v)" using i(5) lv by simp
  show "so = fdt32_ld m (fdt_offset_ptr_i m fdt off + 8)" using i(3) r by simp
  show "bytes_at m (fdt_offset_ptr_i m fdt off + 12) (length v) = v"
    using i(2,4) lv by (simp add: B_def blk_def drop_bytes_at take_bytes_at fdt_offset_ptr_i_def add.assoc min_def)
  show "prop_named m fdt nm off \<longleftrightarrow> name_at (strs m fdt) so = Some nm"
    unfolding prop_named_def using fdt_string_eq_items [OF lay, of "rd32 B 8" nm] i(3) r by simp
qed

lemma find_prop_tokens:
  assumes lay: "layout m fdt"
  shows "0 \<le> off \<Longrightarrow> off mod 4 = 0 \<Longrightarrow> off < 2147483648 \<Longrightarrow>
    List.find (prop_named m fdt nm) (node_props (tokens m fdt off))
      = map_option (\<lambda>k. off + int k) (find_prop (strs m fdt) nm (blk m fdt off))"
proof (induction "nat (2147483648 - off)" arbitrary: off rule: less_induct)
  case less
  obtain tag nxt where t: "fdt_next_tag m fdt off = (tag, nxt)" by fastforce
  note tok = tokens_unfold [OF t]
  note nt = fdt_next_tag_items [OF lay less.prems]
  note fp = find_prop.simps [of "strs m fdt" nm "blk m fdt off"]
  show ?case
  proof (cases "item_at (blk m fdt off)")
    case None
    then show ?thesis using nt tok t fp by simp
  next
    case (Some p)
    obtain it n where it: "item_at (blk m fdt off) = Some (it, n)" using Some by (cases p) auto
    have n: "tag = tag_of it" "nxt = off + int n" "off + int n < 2147483648" using nt it t by simp_all
    have n4: "4 \<le> n" "n mod 4 = 0" using item_at_pos [OF it] by simp_all
    have IH: "List.find (prop_named m fdt nm) (node_props (tokens m fdt nxt))
      = map_option (\<lambda>k. off + int k) (map_option ((+) n) (find_prop (strs m fdt) nm (drop n (blk m fdt off))))"
    proof -
      have "(off + int n) mod 4 = 0" using less.prems(2) n4(2) by presburger
      then show ?thesis using less.hyps [of "off + int n"] less.prems n n4
        by (simp add: drop_blk option.map_comp comp_def add.assoc)
    qed
    show ?thesis
      using IH tok it n(1) fp prop_named_items(1) [OF lay less.prems(1)] by (cases it) auto
  qed
qed

text \<open>The head of a node.\<close>

lemma fdt_check_node_items:
  assumes lay: "layout m fdt" and c: "fdt_check_node_offset_i m fdt node = body" "0 \<le> body" "node < 2147483648"
  obtains nm where "item_at (blk m fdt node) = Some (Begin nm, nat (body - node))" "0 \<le> node" "node mod 4 = 0"
    "node + 4 \<le> body" "body mod 4 = 0" "body < 2147483648" "body \<le> fdt_size_dt_struct m fdt + 3"
proof -
  have n: "0 \<le> node" "node mod 4 = 0" using c by (auto simp: fdt_check_node_offset_i_def Let_def split: if_splits)
  have t: "fdt_next_tag m fdt node = (FDT_BEGIN_NODE, body)" using fdt_check_node_offsetD [of m fdt node] c by simp
  note nt = fdt_next_tag_items [OF lay n c(3)]
  obtain it k where it: "item_at (blk m fdt node) = Some (it, k)" using nt t by (cases "item_at (blk m fdt node)") auto
  then have k: "tag_of it = FDT_BEGIN_NODE" "body = node + int k" "body < 2147483648" "body \<le> fdt_size_dt_struct m fdt + 3"
    using nt t by auto
  then obtain nm where "it = Begin nm" by (cases it) auto
  moreover have "(node + int k) mod 4 = 0" using item_at_pos [OF it] n(2) by presburger
  ultimately show ?thesis using that [of nm] it k n item_at_pos [OF it] by auto
qed

text \<open>\<open>fdt_getprop\<close> returns what the list of items says.\<close>

lemma fdt_getprop_view:
  assumes lay: "layout m fdt" and node: "node < 2147483648" and c: "0 \<le> fdt_check_node_offset_i m fdt node"
  shows "case fdt_getprop m fdt node nm of
      (Some v, len) \<Rightarrow> 0 \<le> len \<and> aget nm (tl (view m fdt node)) = Some (bytes_at m v (nat len))
    | (None, len) \<Rightarrow> len < 0 \<and> aget nm (tl (view m fdt node)) = None"
proof -
  define body where "body = fdt_check_node_offset_i m fdt node"
  obtain bn where b: "item_at (blk m fdt node) = Some (Begin bn, nat (body - node))" "0 \<le> node"
    "node + 4 \<le> body" "body mod 4 = 0" "body < 2147483648"
    by (rule fdt_check_node_items [OF lay _ c node]) (auto simp: body_def)
  have tlv: "tl (view m fdt node) = map (map_item (name_at (strs m fdt))) (items (blk m fdt body))"
    using b(2,3) by (simp add: view_def items_unfold [OF b(1)] drop_blk)
  have ver: "16 \<le> fdt_version m fdt" using lay by (simp add: layout_def)
  have f: "List.find (prop_named m fdt nm) (node_props (tokens m fdt body))
      = map_option (\<lambda>k. body + int k) (find_prop (strs m fdt) nm (blk m fdt body))"
    using b by (intro find_prop_tokens [OF lay]) auto
  note g = fdt_getprop_tokens [OF layout_placed [OF lay] node ver body_def [symmetric] c [folded body_def], of nm]
  show ?thesis
  proof (cases "find_prop (strs m fdt) nm (blk m fdt body)")
    case None
    then show ?thesis using g f find_prop_None [OF None] by (auto simp: tlv split: prod.splits)
  next
    case (Some k)
    obtain pre so v n where r: "reaches (blk m fdt body) k pre" "passed (strs m fdt) nm pre"
      "item_at (drop k (blk m fdt body)) = Some (Property so v, n)" "name_at (strs m fdt) so = Some nm"
      using find_prop_Some [OF Some] by blast
    have it: "item_at (blk m fdt (body + int k)) = Some (Property so v, n)" using r(3) by (simp add: drop_blk)
    have "0 \<le> body + int k" using b by simp
    note pn = prop_named_items [OF lay this it]
    have "aget nm (tl (view m fdt node)) = Some v"
      using find_prop_aget [of nm "strs m fdt" "blk m fdt body"] Some r(3) by (simp add: tlv)
    then show ?thesis using g f Some pn(2,3) by (auto split: prod.splits)
  qed
qed

end
