(* ===== verification/Fdt_View.thy ===== *)
theory Fdt_View
  imports Fdt_Items
begin

text \<open>
  What the writers of \<open>fdt_rw.c\<close> do to the list of items. Each successful edit is one operation on
  the items of a node: \<open>aset\<close> for \<open>fdt_setprop\<close>, \<open>adel\<close> for \<open>fdt_delprop\<close>, and so on, at the place
  where the node stands in the list, and nothing else of the list changes, whatever bytes have moved.
\<close>

section \<open>The operations on the items of a node\<close>

type_synonym tree_items = "byte list option item list"

fun areplace :: "byte list \<Rightarrow> (byte list \<Rightarrow> byte list) \<Rightarrow> tree_items \<Rightarrow> tree_items" where
  "areplace nm f (Property n v # its) =
     (if n = Some nm then Property n (f v) # its else Property n v # areplace nm f its)"
| "areplace nm f (Nop # its) = Nop # areplace nm f its"
| "areplace nm f its = its"

text \<open>A new property becomes the first one of its node.\<close>

definition aset :: "byte list \<Rightarrow> byte list \<Rightarrow> tree_items \<Rightarrow> tree_items" where
  "aset nm v its = (if aget nm its = None then Property (Some nm) v # its else areplace nm (\<lambda>_. v) its)"

definition aappend :: "byte list \<Rightarrow> byte list \<Rightarrow> tree_items \<Rightarrow> tree_items" where
  "aappend nm v its = (if aget nm its = None then Property (Some nm) v # its else areplace nm (\<lambda>w. w @ v) its)"

fun adel :: "byte list \<Rightarrow> tree_items \<Rightarrow> tree_items" where
  "adel nm (Property n v # its) = (if n = Some nm then its else Property n v # adel nm its)"
| "adel nm (Nop # its) = Nop # adel nm its"
| "adel nm its = its"

text \<open>A new child goes behind the properties.\<close>

fun aadd_child :: "byte list \<Rightarrow> tree_items \<Rightarrow> tree_items" where
  "aadd_child nm (Property n v # its) = Property n v # aadd_child nm its"
| "aadd_child nm (Nop # its) = Nop # aadd_child nm its"
| "aadd_child nm its = Begin nm # Endnode # its"

text \<open>Behind the end of the node in whose items we are, \<open>d\<close> levels down.\<close>

fun aend :: "nat \<Rightarrow> 'n item list \<Rightarrow> 'n item list option" where
  "aend d [] = None"
| "aend d (Begin nm # its) = aend (Suc d) its"
| "aend d (Endnode # its) = (case d of 0 \<Rightarrow> Some its | Suc d' \<Rightarrow> aend d' its)"
| "aend d (_ # its) = aend d its"

text \<open>An operation on the items behind the head of the node that is item number \<open>j\<close>.\<close>

definition under :: "nat \<Rightarrow> (tree_items \<Rightarrow> tree_items) \<Rightarrow> tree_items \<Rightarrow> tree_items" where
  "under j f its = take (Suc j) its @ f (drop (Suc j) its)"

subsection \<open>Reading what was written\<close>

lemma aget_areplace: "aget nm' (areplace nm f its) = (if nm' = nm then map_option f (aget nm its) else aget nm' its)"
  by (induction nm f its rule: areplace.induct) auto

lemma aget_aset [simp]: "aget nm (aset nm v its) = Some v"
  by (auto simp: aset_def aget_areplace)

lemma aget_aset_other [simp]: "nm' \<noteq> nm \<Longrightarrow> aget nm' (aset nm v its) = aget nm' its"
  by (auto simp: aset_def aget_areplace)

lemma aget_aappend: "aget nm (aappend nm v its) = Some (case aget nm its of None \<Rightarrow> v | Some w \<Rightarrow> w @ v)"
  by (auto simp: aappend_def aget_areplace)

lemma aget_adel_other: "nm' \<noteq> nm \<Longrightarrow> aget nm' (adel nm its) = aget nm' its"
  by (induction nm its rule: adel.induct) auto

lemma adel_None: "aget nm its = None \<Longrightarrow> adel nm its = its"
  by (induction nm its rule: adel.induct) (auto split: if_splits)

text \<open>A node whose properties have different names.\<close>

fun prop_names :: "tree_items \<Rightarrow> byte list option list" where
  "prop_names (Property n v # its) = n # prop_names its"
| "prop_names (Nop # its) = prop_names its"
| "prop_names its = []"

lemma aget_prop_names: "aget nm its = None \<longleftrightarrow> Some nm \<notin> set (prop_names its)"
  by (induction nm its rule: aget.induct) auto

lemma aget_adel: "distinct (prop_names its) \<Longrightarrow> aget nm (adel nm its) = None"
  by (induction nm its rule: adel.induct) (auto simp: aget_prop_names split: if_splits)

lemma aget_aadd_child [simp]: "aget nm (aadd_child c its) = aget nm its"
  by (induction c its rule: aadd_child.induct) auto

lemma under_under: "Suc j \<le> length its \<Longrightarrow> under j f (under j g its) = under j (f \<circ> g) its"
  by (simp add: under_def min_def)

lemma tl_drop_under: "Suc j \<le> length its \<Longrightarrow> drop (Suc j) (under j f its) = f (drop (Suc j) its)"
  by (simp add: under_def)

section \<open>Where a node stands\<close>

function index_of :: "byte list \<Rightarrow> nat \<Rightarrow> nat option" where
  "index_of bs k =
     (if k = 0 then Some 0
      else (case item_at bs of
              None \<Rightarrow> None
            | Some (it, n) \<Rightarrow> if n \<le> k then map_option Suc (index_of (drop n bs) (k - n)) else None))"
  by pat_completeness auto
termination by (relation "measure (\<lambda>(bs, k). length bs)") (auto dest!: item_at_pos)

declare index_of.simps [simp del]

lemma index_of_reaches:
  "index_of bs k = Some j \<Longrightarrow> k \<le> length bs \<Longrightarrow> \<exists>pre. reaches bs k pre \<and> length pre = j"
proof (induction bs k arbitrary: j rule: index_of.induct)
  case (1 bs k)
  show ?case
  proof (cases "k = 0")
    case True
    then show ?thesis using "1.prems" reaches.here [of bs] by (auto simp: index_of.simps [of bs 0])
  next
    case False
    then obtain it n i where i: "item_at bs = Some (it, n)" "n \<le> k" "index_of (drop n bs) (k - n) = Some i" "j = Suc i"
      using "1.prems" by (auto simp: index_of.simps [of bs k] split: option.splits if_splits)
    obtain pre where "reaches (drop n bs) (k - n) pre" "length pre = i"
      using "1.IH" [OF False i(1) refl i(2,3)] diff_le_mono [OF "1.prems"(2), of n] by auto
    then show ?thesis using reaches.step [OF i(1), of "k - n" pre] i "1.prems"(2) by (intro exI [of _ "it # pre"]) simp
  qed
qed

definition node_index :: "mem \<Rightarrow> addr \<Rightarrow> int \<Rightarrow> nat option" where
  "node_index m fdt node = (if 0 \<le> node \<and> node < fdt_size_dt_struct m fdt then index_of (blk m fdt 0) (nat node) else None)"

text \<open>
  A tree the writers can work on: a layout, a structure block of whole words, and a name for every
  property.
\<close>

definition named :: "byte list \<Rightarrow> int item list \<Rightarrow> bool" where
  "named tab its \<longleftrightarrow> (\<forall>so v. Property so v \<in> set its \<longrightarrow> name_at tab so \<noteq> None)"

definition sound :: "mem \<Rightarrow> addr \<Rightarrow> bool" where
  "sound m fdt \<longleftrightarrow> layout m fdt \<and> fdt_size_dt_struct m fdt mod 4 = 0
     \<and> named (strs m fdt) (items (blk m fdt 0))"

lemma length_view_index: "length (map (map_item f) its) = length its"
  by simp

section \<open>The structure block after a splice\<close>

lemma blk_cong:
  assumes "fdt_off_dt_struct m' fdt = fdt_off_dt_struct m fdt" "fdt_size_dt_struct m' fdt = fdt_size_dt_struct m fdt"
    and "\<And>a. fdt + fdt_off_dt_struct m fdt + off \<le> a \<Longrightarrow> a < fdt + fdt_off_dt_struct m fdt + fdt_size_dt_struct m fdt \<Longrightarrow> m' a = m a"
  shows "blk m' fdt off = blk m fdt off"
  unfolding blk_def assms(1,2) by (rule bytes_at_eqI) (use assms(3) in \<open>auto split: if_splits\<close>)

lemma strs_cong:
  assumes "fdt_off_dt_strings m' fdt = fdt_off_dt_strings m fdt" "fdt_size_dt_strings m' fdt = fdt_size_dt_strings m fdt"
    and "\<And>a. fdt + fdt_off_dt_strings m fdt \<le> a \<Longrightarrow> a < fdt + fdt_off_dt_strings m fdt + fdt_size_dt_strings m fdt \<Longrightarrow> m' a = m a"
  shows "strs m' fdt = strs m fdt"
  unfolding strs_def assms(1,2) by (rule bytes_at_eqI) (use assms(3) in auto)

text \<open>The bytes after the splice: those below stay, those behind the part replaced have moved.\<close>

lemma fdt_splice_struct_bytes:
  assumes lay: "layout m fdt" and a: "0 \<le> a" "0 \<le> oldlen" "a + oldlen \<le> fdt_size_dt_struct m fdt"
    and n: "0 \<le> newlen" "newlen < 2147483648"
    and s: "fdt_splice_struct_i m fdt (fdt + fdt_off_dt_struct m fdt + a) oldlen newlen = (0, m')"
  defines "p \<equiv> fdt + fdt_off_dt_struct m fdt + a"
  shows "fdt + SIZEOF_HEADER \<le> x \<Longrightarrow> x < p + newlen \<Longrightarrow> m' x = m x"
    "p + newlen \<le> x \<Longrightarrow> x < fdt + fdt_data_size_i m fdt - oldlen + newlen \<Longrightarrow> m' x = m (x - newlen + oldlen)"
proof -
  note ll = layout_lin [OF lay]
  have pb: "p < fdt + 4294967296" "oldlen < 2147483648" "fdt + SIZEOF_HEADER \<le> p"
    using a ll unfolding p_def by linarith+
  obtain m1 where s1: "fdt_splice_i m fdt p oldlen newlen = (0, m1)"
    using s by (auto simp: fdt_splice_struct_i_def p_def Let_def split: prod.splits if_splits)
  have m': "m' = fdt_set_off_dt_strings (fdt_set_size_dt_struct m1 fdt v) fdt w" if "v = fdt_size_dt_struct m1 fdt + s32 (newlen - oldlen)"
    "w = fdt_off_dt_strings (fdt_set_size_dt_struct m1 fdt v) fdt + s32 (newlen - oldlen)" for v w
    using s s1 that by (simp add: fdt_splice_struct_i_def p_def Let_def)
  have hd: "m' x = m1 x" if "fdt + SIZEOF_HEADER \<le> x" for x
    using that by (simp add: m' [OF refl refl] fdt_set_defs fdt32_st_outside)
  note ok = fdt_splice_ok [OF lay s1 pb(1,2) n]
  show "fdt + SIZEOF_HEADER \<le> x \<Longrightarrow> x < p + newlen \<Longrightarrow> m' x = m x"
    using hd [of x] n by (simp add: ok(5) copied_outside)
  show "m' x = m (x - newlen + oldlen)" if "p + newlen \<le> x" "x < fdt + fdt_data_size_i m fdt - oldlen + newlen"
  proof -
    have "m' x = m1 x" by (rule hd) (use that pb n in linarith)
    moreover have "m1 x = m (x - newlen + oldlen)"
      unfolding ok(5) using that by (subst copied_inside) (auto intro: arg_cong [where f = m])
    ultimately show ?thesis by simp
  qed
qed

lemma fdt_splice_struct_blk:
  assumes lay: "layout m fdt" and w: "0 \<le> w" "w \<le> a" and a: "0 \<le> oldlen" "a + oldlen \<le> fdt_size_dt_struct m fdt"
    and n: "0 \<le> newlen" "newlen < 2147483648"
    and s: "fdt_splice_struct_i m fdt (fdt + fdt_off_dt_struct m fdt + a) oldlen newlen = (0, m1)"
    and un: "unchanged_outside (fdt + fdt_off_dt_struct m fdt + w) (fdt + fdt_off_dt_struct m fdt + a + newlen) m1 m'"
  shows "layout m' fdt" "strs m' fdt = strs m fdt"
    "fdt_off_dt_struct m' fdt = fdt_off_dt_struct m fdt"
    "fdt_size_dt_struct m' fdt = fdt_size_dt_struct m fdt + newlen - oldlen"
    "blk m' fdt 0 = take (nat w) (blk m fdt 0)
       @ bytes_at m' (fdt + fdt_off_dt_struct m fdt + w) (nat (a - w + newlen)) @ drop (nat (a + oldlen)) (blk m fdt 0)"
proof -
  note ll = layout_lin [OF lay]
  define S where "S = fdt + fdt_off_dt_struct m fdt"
  have pb: "fdt + SIZEOF_HEADER \<le> S + a" "S + a < fdt + 4294967296" "oldlen \<le> fdt_size_dt_struct m fdt"
    using a w ll unfolding S_def by linarith+
  note k = fdt_splice_struct_keeps [OF lay s [folded S_def] pb n]
  note bt = fdt_splice_struct_bytes [OF lay _ a n s, folded S_def]
  have a0: "0 \<le> a" using w by simp
  have agr: "agree fdt (fdt + SIZEOF_HEADER) m1 m'"
    using un w ll by (auto simp: unchanged_outside_def agree_def S_def)
  note h = fdt_hdr_agree [OF agr, symmetric]
  show "layout m' fdt" by (rule layout_hdr [OF edit_keeps_layout [OF k(1)] agr])
  show os: "fdt_off_dt_struct m' fdt = fdt_off_dt_struct m fdt" using h(3) k(5) by simp
  show sz: "fdt_size_dt_struct m' fdt = fdt_size_dt_struct m fdt + newlen - oldlen" using h(10) k(3) by simp
  have st: "fdt_off_dt_strings m' fdt = fdt_off_dt_strings m fdt + newlen - oldlen"
    "fdt_size_dt_strings m' fdt = fdt_size_dt_strings m fdt" using h(4,9) k(4,6) by simp_all
  have un': "m' x = m1 x" if "x < S + w \<or> S + a + newlen \<le> x" for x using un that by (auto simp: S_def)
  have lo: "m' x = m x" if "S \<le> x" "x < S + w" for x
    using un' [of x] bt(1) [OF a0, of x] that w n ll S_def by auto
  have hi: "m' x = m (x - newlen + oldlen)" if "S + a + newlen \<le> x" "x < fdt + fdt_data_size_i m fdt - oldlen + newlen" for x
    using un' [of x] bt(2) [OF a0, of x] that by auto
  note dd = data_size_layout [OF lay]
  show "strs m' fdt = strs m fdt"
    unfolding strs_def st
  proof (rule nth_equalityI, simp, simp)
    fix i assume "i < nat (fdt_size_dt_strings m fdt)"
    then have "m' (fdt + (fdt_off_dt_strings m fdt + newlen - oldlen) + int i)
        = m (fdt + (fdt_off_dt_strings m fdt + newlen - oldlen) + int i - newlen + oldlen)"
      using a ll dd w by (intro hi) (auto simp: S_def)
    then show "m' (fdt + (fdt_off_dt_strings m fdt + newlen - oldlen) + int i) = m (fdt + fdt_off_dt_strings m fdt + int i)"
      by (simp add: algebra_simps)
  qed
  define Z where "Z = fdt_size_dt_struct m fdt"
  have split: "nat (Z + newlen - oldlen) = nat w + (nat (a - w + newlen) + nat (Z - (a + oldlen)))"
    using a w n by (simp add: Z_def)
  have "blk m' fdt 0 = bytes_at m' S (nat w) @ bytes_at m' (S + w) (nat (a - w + newlen))
      @ bytes_at m' (S + a + newlen) (nat (Z - (a + oldlen)))"
    unfolding blk_def os sz Z_def [symmetric] S_def [symmetric] diff_zero split bytes_at_add
    using w a n by (simp add: add.assoc)
  moreover have "bytes_at m' S (nat w) = take (nat w) (blk m fdt 0)"
    unfolding blk_def S_def [symmetric] Z_def [symmetric] take_bytes_at
    using w a lo by (auto simp: Z_def min_def intro!: bytes_at_eqI)
  moreover have "bytes_at m' (S + a + newlen) (nat (Z - (a + oldlen))) = drop (nat (a + oldlen)) (blk m fdt 0)"
  proof -
    have "bytes_at m' (S + a + newlen) (nat (Z - (a + oldlen))) = bytes_at m (S + a + oldlen) (nat (Z - (a + oldlen)))"
    proof (rule nth_equalityI, simp, simp)
      fix i assume "i < nat (Z - (a + oldlen))"
      then have "a + oldlen + int i < Z" by simp
      then have "m' (S + a + newlen + int i) = m (S + a + newlen + int i - newlen + oldlen)"
        using ll dd unfolding S_def Z_def by (intro hi [unfolded S_def]) linarith+
      then show "m' (S + a + newlen + int i) = m (S + a + oldlen + int i)" by (simp add: algebra_simps)
    qed
    moreover have "drop (nat (a + oldlen)) (blk m fdt 0) = blk m fdt (a + oldlen)"
      using drop_blk [of "nat (a + oldlen)" m fdt 0] a w by simp
    ultimately show ?thesis by (simp add: blk_def S_def Z_def add.assoc)
  qed
  ultimately show "blk m' fdt 0 = take (nat w) (blk m fdt 0)
       @ bytes_at m' (fdt + fdt_off_dt_struct m fdt + w) (nat (a - w + newlen)) @ drop (nat (a + oldlen)) (blk m fdt 0)"
    by (simp add: S_def)
qed

section \<open>Encoded items\<close>

lemma align4_plus: "align4 (4 * k + n) = 4 * k + align4 n"
  unfolding align4_def by presburger

lemma align4_12: "align4 (12 + n) = 12 + align4 n"
  using align4_plus [of 3 n] by simp

lemma FDT_TAGALIGN_nat: "FDT_TAGALIGN (int n) = int (align4 n)"
  by (simp add: FDT_TAGALIGN_div align4_def zdiv_int)

lemma rd32_append: "i + 4 \<le> length xs \<Longrightarrow> rd32 (xs @ ys) i = rd32 xs i"
  by (simp add: rd32_def nth_append)

lemma item_at_prop:
  assumes "fdt32_ld m q = FDT_PROP" "fdt32_ld m (q + 4) = int L"
  shows "item_at (bytes_at m q (12 + align4 L) @ R) = Some (Property (fdt32_ld m (q + 8)) (bytes_at m (q + 12) L), 12 + align4 L)"
proof -
  define X where "X = bytes_at m q (12 + align4 L)"
  have l: "length X = 12 + align4 L" by (simp add: X_def)
  have r: "rd32 (X @ R) 0 = FDT_PROP" "rd32 (X @ R) 4 = int L" "rd32 (X @ R) 8 = fdt32_ld m (q + 8)"
    using assms by (simp_all add: rd32_append l) (simp_all add: X_def rd32_bytes_at)
  have "take L (drop 12 (X @ R)) = bytes_at m (q + 12) L"
    using align4_bounds(1) [of L] l by (simp add: X_def drop_bytes_at take_bytes_at min_def)
  then show ?thesis using r l align4_bounds(1) [of L] by (simp add: item_at_def align4_12 X_def [symmetric])
qed

lemma takeWhile_nul: "0 \<notin> set nm \<Longrightarrow> takeWhile (\<lambda>b. b \<noteq> 0) (nm @ 0 # zs) = nm" for nm :: "byte list"
  by (induction nm) auto

lemma item_at_begin:
  assumes "fdt32_ld m q = FDT_BEGIN_NODE" "bytes_at m (q + 4) (length nm + 1) = nm @ [0]" "0 \<notin> set nm"
  shows "item_at (bytes_at m q (4 + align4 (length nm + 1)) @ R) = Some (Begin nm, 4 + align4 (length nm + 1))"
proof -
  define X where "X = bytes_at m q (4 + align4 (length nm + 1))"
  have l: "length X = 4 + align4 (length nm + 1)" by (simp add: X_def)
  note al = align4_bounds(1) [of "length nm + 1"]
  have r: "rd32 (X @ R) 0 = FDT_BEGIN_NODE" using assms(1) by (simp add: rd32_append l) (simp add: X_def rd32_bytes_at)
  have "drop 4 (X @ R) = bytes_at m (q + 4) (align4 (length nm + 1)) @ R" by (simp add: X_def drop_bytes_at)
  moreover have "bytes_at m (q + 4) (align4 (length nm + 1)) = bytes_at m (q + 4) (length nm + 1)
      @ bytes_at m (q + 4 + int (length nm + 1)) (align4 (length nm + 1) - (length nm + 1))"
    using bytes_at_add [of m "q + 4" "length nm + 1" "align4 (length nm + 1) - (length nm + 1)"] al by simp
  ultimately have "takeWhile (\<lambda>b. b \<noteq> 0) (drop 4 (X @ R)) = nm"
    using assms(2) takeWhile_nul [OF assms(3)] by simp
  moreover have "align4 (5 + length nm) = 4 + align4 (length nm + 1)" using align4_plus [of 1 "length nm + 1"] by simp
  moreover have "4 + length nm < length (X @ R)" "\<not> length (X @ R) < 4" using l al by simp_all
  ultimately have "item_at (X @ R) = Some (Begin nm, 4 + align4 (length nm + 1))"
    using r by (simp add: item_at_def Let_def del: drop_append length_append)
  then show ?thesis by (simp only: X_def)
qed

lemma items_property:
  "fdt32_ld m q = FDT_PROP \<Longrightarrow> fdt32_ld m (q + 4) = int L \<Longrightarrow>
   items (bytes_at m q (12 + align4 L) @ R) = Property (fdt32_ld m (q + 8)) (bytes_at m (q + 12) L) # items R"
  using items_unfold [OF item_at_prop] by simp

section \<open>The place of a property and of a node\<close>

lemma align4_up: "x + 12 + l \<le> y \<Longrightarrow> x mod 4 = 0 \<Longrightarrow> y mod 4 = 0 \<Longrightarrow> a mod 4 = 0 \<Longrightarrow> a \<le> l + 3 \<Longrightarrow> x + 12 + a \<le> y"
  for x y a l :: int
  by presburger

lemma align4_down: "x \<le> y + 3 \<Longrightarrow> x mod 4 = 0 \<Longrightarrow> y mod 4 = 0 \<Longrightarrow> x \<le> y" for x y :: int
  by presburger

text \<open>The head of a node whose place in the list of items is known.\<close>

lemma node_located:
  assumes snd: "sound m fdt" and ix: "node_index m fdt node = Some j"
    and c: "0 \<le> fdt_check_node_offset_i m fdt node"
  defines "body \<equiv> fdt_check_node_offset_i m fdt node"
  obtains pre bn where "reaches (blk m fdt 0) (nat node) pre" "length pre = j"
    "item_at (drop (nat node) (blk m fdt 0)) = Some (Begin bn, nat (body - node))"
    "reaches (blk m fdt 0) (nat body) (pre @ [Begin bn])"
    "0 \<le> node" "node < 2147483648" "node + 4 \<le> body" "body \<le> fdt_size_dt_struct m fdt" "body mod 4 = 0" "body < 2147483648"
proof -
  have lay: "layout m fdt" using snd by (simp add: sound_def)
  have n: "0 \<le> node" "node < fdt_size_dt_struct m fdt" "index_of (blk m fdt 0) (nat node) = Some j"
    using ix by (auto simp: node_index_def split: if_splits)
  then obtain pre where pre: "reaches (blk m fdt 0) (nat node) pre" "length pre = j"
    using index_of_reaches [OF n(3)] nat_mono [of node "fdt_size_dt_struct m fdt"] by auto
  have nl: "node < 2147483648" using n(2) layout_lin [OF lay] by linarith
  obtain bn where b: "item_at (blk m fdt node) = Some (Begin bn, nat (body - node))"
    "node + 4 \<le> body" "body mod 4 = 0" "body < 2147483648" "body \<le> fdt_size_dt_struct m fdt + 3"
    by (rule fdt_check_node_items [OF lay _ c nl]) (auto simp: body_def)
  have d: "drop (nat node) (blk m fdt 0) = blk m fdt node" using n(1) by (simp add: drop_blk)
  have bs: "body \<le> fdt_size_dt_struct m fdt" by (rule align4_down [OF b(5,3)]) (use snd in \<open>simp add: sound_def\<close>)
  have "reaches (drop (nat node) (blk m fdt 0)) (nat (body - node) + 0) [Begin bn]"
    using b(1) bs n unfolding d by (intro reaches.step reaches.here) auto
  then have "reaches (blk m fdt 0) (nat node + (nat (body - node) + 0)) (pre @ [Begin bn])"
    by (rule reaches_trans [OF pre(1)])
  moreover have "nat node + (nat (body - node) + 0) = nat body" using n(1) b(2) by simp
  ultimately have r: "reaches (blk m fdt 0) (nat body) (pre @ [Begin bn])" by (simp only:)
  show ?thesis by (rule that [OF pre _ r n(1) nl b(2) bs b(3,4)]) (simp only: d b(1))
qed

text \<open>A property found by name, with the items before it.\<close>

lemma property_located:
  assumes snd: "sound m fdt" and body: "0 \<le> body" "body mod 4 = 0" "body < 2147483648" "body \<le> fdt_size_dt_struct m fdt"
    and f: "find_prop (strs m fdt) nm (blk m fdt body) = Some k"
  obtains mid so v where "passed (strs m fdt) nm mid" "name_at (strs m fdt) so = Some nm"
    "reaches (drop (nat body) (blk m fdt 0)) k mid"
    "items (drop (nat (body + int k)) (blk m fdt 0)) = Property so v # items (drop (nat (body + int k + 12 + int (align4 (length v)))) (blk m fdt 0))"
    "so = fdt32_ld m (fdt_offset_ptr_i m fdt (body + int k) + 8)" "int (length v) = fdt32_ld m (fdt_offset_ptr_i m fdt (body + int k) + 4)"
    "fdt32_ld m (fdt_offset_ptr_i m fdt (body + int k)) = FDT_PROP"
    "body + int k + 12 + int (align4 (length v)) \<le> fdt_size_dt_struct m fdt" "int k mod 4 = 0"
    "bytes_at m (fdt_offset_ptr_i m fdt (body + int k) + 12) (length v) = v"
proof -
  have lay: "layout m fdt" and s4: "fdt_size_dt_struct m fdt mod 4 = 0" using snd by (simp_all add: sound_def)
  have d: "drop (nat body) (blk m fdt 0) = blk m fdt body" using body(1) by (simp add: drop_blk)
  obtain mid so v n where r: "reaches (blk m fdt body) k mid" "passed (strs m fdt) nm mid"
      "item_at (drop k (blk m fdt body)) = Some (Property so v, n)" "name_at (strs m fdt) so = Some nm"
    using find_prop_Some [OF f] by blast
  have it: "item_at (blk m fdt (body + int k)) = Some (Property so v, n)" using r(3) by (simp add: drop_blk)
  have b0: "0 \<le> body + int k" using body by simp
  note pn = prop_named_items [OF lay b0 it]
  have k4: "int k mod 4 = 0" using reaches_le [OF r(1)] by presburger
  have n: "n = 12 + align4 (length v)" using pn(5) by (simp add: align4_12)
  have dk: "drop (nat (body + int k)) (blk m fdt 0) = blk m fdt (body + int k)" using b0 by (simp add: drop_blk)
  have i: "items (drop (nat (body + int k)) (blk m fdt 0)) = Property so v # items (drop (nat (body + int k + 12 + int (align4 (length v)))) (blk m fdt 0))"
    using items_unfold [OF it] b0 unfolding dk by (simp add: drop_blk n algebra_simps)
  have le: "body + int k + 12 + int (align4 (length v)) \<le> fdt_size_dt_struct m fdt"
  proof -
    define A where "A = int (align4 (length v))"
    define L where "L = int (length v)"
    have aa: "A mod 4 = 0" "A \<le> L + 3" using align4_bounds(2,3) [of "length v"] unfolding A_def L_def by presburger+
    have "(body + int k) mod 4 = 0" using k4 body(2) by presburger
    then have "body + int k + 12 + A \<le> fdt_size_dt_struct m fdt"
      by (rule align4_up [OF pn(4) _ s4 aa(1)]) (use aa(2) in \<open>simp add: L_def\<close>)
    then show ?thesis by (simp add: A_def)
  qed
  have "fdt32_ld m (fdt_offset_ptr_i m fdt (body + int k)) = FDT_PROP"
  proof -
    have "rd32 (blk m fdt (body + int k)) 0 = FDT_PROP" using it by (auto simp: item_at_def Let_def split: if_splits)
    then show ?thesis using rd32_blk [of "body + int k" 0 m fdt] b0 le by (simp add: fdt_offset_ptr_i_def)
  qed
  then show ?thesis
    by (intro that [OF r(2,4) _ i pn(6) pn(2) [symmetric] _ le k4 pn(3)]) (simp only: d r(1))
qed

text \<open>What the property readers return, over the items.\<close>

lemma fdt_get_property_items:
  assumes lay: "layout m fdt" and node: "node < 2147483648" and c: "0 \<le> fdt_check_node_offset_i m fdt node"
  defines "body \<equiv> fdt_check_node_offset_i m fdt node"
  shows "case find_prop (strs m fdt) nm (blk m fdt body) of
      Some k \<Rightarrow> fdt_get_property m fdt node nm = (Some (fdt_offset_ptr_i m fdt (body + int k)), fdt32_ld m (fdt_offset_ptr_i m fdt (body + int k) + 4))
    | None \<Rightarrow> fst (fdt_get_property m fdt node nm) = None"
proof -
  obtain bn where b: "item_at (blk m fdt node) = Some (Begin bn, nat (body - node))" "0 \<le> node"
    "node + 4 \<le> body" "body mod 4 = 0" "body < 2147483648"
    by (rule fdt_check_node_items [OF lay _ c node]) (auto simp: body_def)
  have ver: "fdt_version m fdt = 17" using lay by (simp add: layout_def)
  have f: "List.find (prop_named m fdt nm) (node_props (tokens m fdt body))
      = map_option (\<lambda>k. body + int k) (find_prop (strs m fdt) nm (blk m fdt body))"
    using b by (intro find_prop_tokens [OF lay]) auto
  note g = fdt_get_property_tokens [OF layout_placed [OF lay] node refl c, folded body_def, of nm]
  show ?thesis
    using g f ver by (auto simp: fdt_get_property_def fdt_get_property_namelen_def split: option.splits prod.splits)
qed

section \<open>A name added to the string block\<close>

definition tab_extends :: "byte list \<Rightarrow> byte list \<Rightarrow> bool" where
  "tab_extends tab tab' \<longleftrightarrow> (\<forall>so nm. name_at tab so = Some nm \<longrightarrow> name_at tab' so = Some nm)"

lemma tab_extends_refl [simp]: "tab_extends tab tab"
  by (simp add: tab_extends_def)

lemma name_at_range: "name_at tab so = Some nm \<Longrightarrow> 0 \<le> so \<and> so < int (length tab)"
  by (auto simp: name_at_def Let_def split: if_splits)

lemma tab_extends_append: "tab_extends tab (tab @ xs)"
  unfolding tab_extends_def
proof (intro allI impI)
  fix so nm assume "name_at tab so = Some nm"
  then have n: "0 \<le> so" "nat so + length nm < length tab" "nm = takeWhile (\<lambda>b. b \<noteq> 0) (drop (nat so) tab)"
    by (auto simp: name_at_def Let_def split: if_splits)
  then have "length (takeWhile (\<lambda>b. b \<noteq> 0) (drop (nat so) tab)) < length (drop (nat so) tab)" by simp
  then obtain x where "x \<in> set (drop (nat so) tab)" "\<not> x \<noteq> 0"
    using takeWhile_eq_all_conv [of "\<lambda>b. b \<noteq> 0" "drop (nat so) tab"] by (metis less_irrefl)
  then have "takeWhile (\<lambda>b. b \<noteq> 0) (drop (nat so) tab @ xs) = nm" using n(3) by (auto simp: takeWhile_append1)
  then show "name_at (tab @ xs) so = Some nm" using n by (simp add: name_at_def)
qed

lemma named_simps [simp]: "named tab []"
  "named tab (Property so v # its) \<longleftrightarrow> name_at tab so \<noteq> None \<and> named tab its"
  "named tab (Begin nm # its) \<longleftrightarrow> named tab its" "named tab (Endnode # its) \<longleftrightarrow> named tab its"
  "named tab (Nop # its) \<longleftrightarrow> named tab its"
  by (auto simp: named_def)

lemma named_append [simp]: "named tab (xs @ ys) \<longleftrightarrow> named tab xs \<and> named tab ys"
  by (auto simp: named_def)

lemma named_extends: "named tab its \<Longrightarrow> tab_extends tab tab' \<Longrightarrow> named tab' its"
  by (fastforce simp: named_def tab_extends_def)

lemma resolve_extends:
  "named tab its \<Longrightarrow> tab_extends tab tab' \<Longrightarrow> map (map_item (name_at tab')) its = map (map_item (name_at tab)) its"
proof (induction its)
  case (Cons it its)
  then show ?case by (cases it) (auto simp: tab_extends_def)
qed simp

lemma name_atI:
  assumes "0 \<le> so" "take (length nm + 1) (drop (nat so) tab) = nm @ [0]" "0 \<notin> set nm"
  shows "name_at tab so = Some nm"
proof -
  have "drop (nat so) tab = nm @ 0 # drop (length nm + 1) (drop (nat so) tab)"
    using assms(2) append_take_drop_id [of "length nm + 1" "drop (nat so) tab"] by simp
  moreover from this have "length nm < length (drop (nat so) tab)" by (metis length_append length_Cons less_add_Suc1 add_Suc_right)
  moreover from this have "nat so + length nm < length tab" by simp
  moreover have "takeWhile (\<lambda>b. b \<noteq> 0) (drop (nat so) tab) = nm"
    using takeWhile_nul [OF assms(3), of "drop (length nm + 1) (drop (nat so) tab)"] calculation(1) by simp
  ultimately show ?thesis using assms(1) by (simp add: name_at_def Let_def)
qed

lemma find_string_loop_Some:
  "find_string_loop m p lastp s = Some q \<Longrightarrow> p \<le> q \<and> q \<le> lastp \<and> mem_eq m q (s @ [0])"
proof (induction m p lastp s rule: find_string_loop.induct)
  case (1 m p lastp s)
  then show ?case by (auto simp: find_string_loop.simps [of m p lastp s] split: if_splits)
qed

lemma fdt_find_add_string_view:
  assumes lay: "layout m fdt" and nm: "is_cstr nm" "int (length nm) < 2147483600"
    and f: "fdt_find_add_string_i m fdt nm = (so, al, m1)" "0 \<le> so"
  shows "layout m1 fdt" "blk m1 fdt 0 = blk m fdt 0" "tab_extends (strs m fdt) (strs m1 fdt)"
    "name_at (strs m1 fdt) so = Some nm" "so < 2147483648"
    "fdt_off_dt_struct m1 fdt = fdt_off_dt_struct m fdt" "fdt_size_dt_struct m1 fdt = fdt_size_dt_struct m fdt"
    "\<And>x. fdt + SIZEOF_HEADER \<le> x \<Longrightarrow> x < fdt + fdt_off_dt_strings m fdt + fdt_size_dt_strings m fdt \<Longrightarrow> m1 x = m x"
proof -
  note ll = layout_lin [OF lay]
  have nz: "0 \<notin> set nm" using nm(1) by (simp add: is_cstr_def)
  define T where "T = fdt + fdt_off_dt_strings m fdt"
  define Z where "Z = fdt_size_dt_strings m fdt"
  have Z: "0 \<le> Z" "Z < 2147483648" "fdt + 56 \<le> T" using ll unfolding Z_def T_def by linarith+
  have all: "layout m1 fdt \<and> blk m1 fdt 0 = blk m fdt 0 \<and> tab_extends (strs m fdt) (strs m1 fdt)
    \<and> name_at (strs m1 fdt) so = Some nm \<and> so < 2147483648
    \<and> fdt_off_dt_struct m1 fdt = fdt_off_dt_struct m fdt \<and> fdt_size_dt_struct m1 fdt = fdt_size_dt_struct m fdt
    \<and> (\<forall>x. fdt + SIZEOF_HEADER \<le> x \<longrightarrow> x < T + Z \<longrightarrow> m1 x = m x)"
  proof (cases "fdt_find_string_i m T (s32 Z) nm")
    case (Some q)
    then have "find_string_loop m T (T + Z - (int (length nm) + 1)) nm = Some q"
      using Z by (simp add: fdt_find_string_i_def Let_def s32_id)
    from find_string_loop_Some [OF this]
    have q: "T \<le> q" "q + int (length nm) + 1 \<le> T + Z" "mem_eq m q (nm @ [0])" by simp_all
    have r: "so = q - T" "m1 = m"
      using f(1) Some q Z nm by (auto simp: fdt_find_add_string_i_def T_def [symmetric] Z_def [symmetric] Let_def s32_id)
    have "take (length nm + 1) (drop (nat so) (strs m fdt)) = bytes_at m q (length nm + 1)"
    proof -
      have "length nm + 1 \<le> nat Z - nat (q - T)" using q Z by linarith
      then show ?thesis
        using q r by (simp add: strs_def drop_bytes_at take_bytes_at T_def [symmetric] Z_def [symmetric] min_def)
    qed
    then have "name_at (strs m fdt) so = Some nm"
      using f(2) q(3) nz by (intro name_atI) (simp_all add: mem_eq_def)
    then show ?thesis using lay r q Z by (simp add: r(2))
  next
    case None
    define L where "L = int (length nm) + 1"
    have L: "0 \<le> L" "L < 2147483648" using nm(2) by (simp_all add: L_def)
    obtain e m0 where sp: "fdt_splice_string_i m fdt L = (e, m0)" by fastforce
    note k = fdt_splice_string_keeps [OF lay sp L]
    have e: "e = 0"
    proof (rule ccontr)
      assume ne: "e \<noteq> 0"
      then have "so = e" using f(1) None sp by (simp add: fdt_find_add_string_i_def T_def [symmetric] Z_def [symmetric] L_def Let_def)
      moreover have "e < 0"
      proof -
        obtain e1 m2 where s1: "fdt_splice_i m fdt (T + Z) 0 L = (e1, m2)" by fastforce
        then have "e = e1" using sp ne by (auto simp: fdt_splice_string_i_def T_def Z_def Let_def split: if_splits)
        then show ?thesis using fdt_splice_err [OF s1] ne by simp
      qed
      ultimately show False using f(2) by simp
    qed
    have m0: "m0 = fdt_set_size_dt_strings m fdt (Z + L)"
    proof -
      obtain m2 where s1: "fdt_splice_i m fdt (T + Z) 0 L = (0, m2)"
        using sp e by (auto simp: fdt_splice_string_i_def T_def Z_def Let_def split: prod.splits if_splits)
      have pb: "T + Z < fdt + 4294967296" "(0::int) < 2147483648" using ll unfolding T_def Z_def by linarith+
      have "m2 = m"
        using fdt_splice_ok(5) [OF lay s1 pb L] data_size_layout [OF lay] by (simp add: T_def Z_def)
      then show ?thesis using sp s1 by (simp add: fdt_splice_string_i_def T_def Z_def Let_def)
    qed
    have m1: "so = s32 Z" "m1 = put_bytes m0 (T + Z) (nm @ [0])"
      using f(1) None sp e by (simp_all add: fdt_find_add_string_i_def T_def [symmetric] Z_def [symmetric] L_def Let_def)
    have so: "so = Z" using m1(1) Z by (simp add: s32_id)
    have un: "m1 x = m x" if "fdt + SIZEOF_HEADER \<le> x" "x < T + Z" for x
      using that by (simp add: m1(2) m0 put_bytes_outside fdt_set_defs fdt32_st_outside)
    have agr: "agree fdt (fdt + SIZEOF_HEADER) m0 m1"
      using Z by (auto simp: agree_def m1(2) put_bytes_outside)
    note h = fdt_hdr_agree [OF agr, symmetric]
    have hd: "fdt_off_dt_strings m1 fdt = fdt_off_dt_strings m fdt" "fdt_size_dt_strings m1 fdt = Z + L"
      "fdt_off_dt_struct m1 fdt = fdt_off_dt_struct m fdt" "fdt_size_dt_struct m1 fdt = fdt_size_dt_struct m fdt"
      using k(3) [OF e] h by (simp_all add: Z_def)
    have ln: "nat (Z + L) = nat Z + (length nm + 1)" using Z by (simp add: L_def)
    have "strs m1 fdt = strs m fdt @ nm @ [0]"
    proof -
      have "bytes_at m1 T (nat Z) = bytes_at m T (nat Z)" using un Z by (intro bytes_at_eqI) auto
      moreover have "bytes_at m1 (T + Z) (length nm + 1) = nm @ [0]"
        using bytes_at_put_bytes_same [of m0 "T + Z" "nm @ [0]"] by (simp add: m1(2))
      ultimately show ?thesis
        unfolding strs_def hd T_def [symmetric] Z_def [symmetric] ln bytes_at_add using Z by simp
    qed
    moreover have "length (strs m fdt) = nat Z" by (simp add: strs_def Z_def)
    ultimately have "tab_extends (strs m fdt) (strs m1 fdt)" "name_at (strs m1 fdt) so = Some nm"
      using tab_extends_append nz Z so by (auto intro!: name_atI)
    moreover have "blk m1 fdt 0 = blk m fdt 0"
      by (rule blk_cong [OF hd(3,4)], rule un) (use ll Z in \<open>unfold T_def Z_def, linarith+\<close>)
    ultimately show ?thesis
      using hd so Z un layout_hdr [OF edit_keeps_layout [OF k(1)] agr] by simp
  qed
  from all show "layout m1 fdt" "blk m1 fdt 0 = blk m fdt 0" "tab_extends (strs m fdt) (strs m1 fdt)"
    "name_at (strs m1 fdt) so = Some nm" "so < 2147483648"
    "fdt_off_dt_struct m1 fdt = fdt_off_dt_struct m fdt" "fdt_size_dt_struct m1 fdt = fdt_size_dt_struct m fdt"
    "\<And>x. fdt + SIZEOF_HEADER \<le> x \<Longrightarrow> x < fdt + fdt_off_dt_strings m fdt + fdt_size_dt_strings m fdt \<Longrightarrow> m1 x = m x"
    by (simp_all add: T_def Z_def)
qed

section \<open>Setting a property\<close>

lemma areplace_passed:
  "passed tab nm mid \<Longrightarrow> name_at tab so = Some nm \<Longrightarrow>
   areplace nm f (map (map_item (name_at tab)) mid @ Property (Some nm) v # its)
     = map (map_item (name_at tab)) mid @ Property (Some nm) (f v) # its"
  by (induction mid) (auto simp: passed_def split: item.splits)

lemma adel_passed:
  "passed tab nm mid \<Longrightarrow> adel nm (map (map_item (name_at tab)) mid @ Property (Some nm) v # its)
     = map (map_item (name_at tab)) mid @ its"
  by (induction mid) (auto simp: passed_def split: item.splits)

lemma under_append: "length pre = j \<Longrightarrow> under j f (map g pre @ b # its) = map g pre @ b # f its"
  by (auto simp: under_def)

lemma reaches_index_of: "reaches bs k its \<Longrightarrow> index_of bs k = Some (length its)"
proof (induction rule: reaches.induct)
  case (here bs)
  show ?case by (simp add: index_of.simps [of bs 0])
next
  case (step bs it n k its)
  then show ?case using item_at_pos [OF step.hyps(1)] by (simp add: index_of.simps [of bs "n + k"])
qed

text \<open>An edit that rewrites the bytes from \<open>w\<close> to \<open>e\<close> of the structure block, where both are bounds of items.\<close>

lemma rewrite_items:
  assumes "reaches B w its" and B': "B' = take w B @ X @ drop e B"
  shows "items B' = its @ items (X @ drop e B)" "items B = its @ items (drop w B)"
    "reaches B k pre \<Longrightarrow> k \<le> w \<Longrightarrow> reaches B' k pre"
  using items_take [OF assms(1), of "X @ drop e B"] reaches_items [OF assms(1)] reaches_take [of B k pre w "X @ drop e B"]
    reaches_le [OF assms(1)] by (simp_all add: B')

lemma node_index_rewrite:
  assumes B': "blk m' fdt 0 = take (nat w) (blk m fdt 0) @ X" and r: "reaches (blk m fdt 0) (nat w) its"
    and ix: "node_index m fdt n = Some i" and n: "n \<le> w" "n < fdt_size_dt_struct m' fdt"
  shows "node_index m' fdt n = Some i"
proof -
  have n0: "0 \<le> n" "n < fdt_size_dt_struct m fdt" "index_of (blk m fdt 0) (nat n) = Some i"
    using ix by (auto simp: node_index_def split: if_splits)
  obtain pre where pre: "reaches (blk m fdt 0) (nat n) pre" "length pre = i"
    using index_of_reaches [OF n0(3)] nat_mono [of n "fdt_size_dt_struct m fdt"] n0 by auto
  have "reaches (take (nat w) (blk m fdt 0) @ X) (nat n) pre"
    by (rule reaches_take [OF pre(1)]) (use n reaches_le [OF r] in auto)
  then show ?thesis using reaches_index_of pre(2) n n0 by (simp add: node_index_def B')
qed

lemma fdt_resize_property_view:
  assumes snd: "sound m fdt" and ix: "node_index m fdt node = Some j"
    and c: "0 \<le> fdt_check_node_offset_i m fdt node"
    and f: "find_prop (strs m fdt) nm (blk m fdt (fdt_check_node_offset_i m fdt node)) = Some k"
    and len: "0 \<le> len" "len < 2147483600"
    and r: "fdt_resize_property_i m fdt node nm len = (0, Some q, m1)"
    and un: "unchanged_outside (q + 12) (q + 12 + len) m1 m'"
  shows "sound m' fdt \<and> view m' fdt 0 = under j (areplace nm (\<lambda>_. bytes_at m' (q + 12) (nat len))) (view m fdt 0)
    \<and> aget nm (drop (Suc j) (view m fdt 0)) \<noteq> None \<and> (\<forall>n i. n \<le> node \<longrightarrow> node_index m fdt n = Some i \<longrightarrow> node_index m' fdt n = Some i)"
proof -
  define body where "body = fdt_check_node_offset_i m fdt node"
  have lay: "layout m fdt" and s4: "fdt_size_dt_struct m fdt mod 4 = 0"
    and nmd: "named (strs m fdt) (items (blk m fdt 0))" using snd by (simp_all add: sound_def)
  note ll = layout_lin [OF lay]
  obtain pre bn where nd: "reaches (blk m fdt 0) (nat body) (pre @ [Begin bn])" "length pre = j"
    "0 \<le> node" "node < 2147483648" "node + 4 \<le> body" "body \<le> fdt_size_dt_struct m fdt" "body mod 4 = 0" "body < 2147483648"
    by (rule node_located [OF snd ix c]) (auto simp: body_def)
  have b0: "0 \<le> body" using nd by simp
  obtain mid so old where pr: "passed (strs m fdt) nm mid" "name_at (strs m fdt) so = Some nm"
    "reaches (drop (nat body) (blk m fdt 0)) k mid"
    "items (drop (nat (body + int k)) (blk m fdt 0)) = Property so old # items (drop (nat (body + int k + 12 + int (align4 (length old)))) (blk m fdt 0))"
    "so = fdt32_ld m (fdt_offset_ptr_i m fdt (body + int k) + 8)" "int (length old) = fdt32_ld m (fdt_offset_ptr_i m fdt (body + int k) + 4)"
    "fdt32_ld m (fdt_offset_ptr_i m fdt (body + int k)) = FDT_PROP"
    "body + int k + 12 + int (align4 (length old)) \<le> fdt_size_dt_struct m fdt" "int k mod 4 = 0"
    by (rule property_located [OF snd b0 nd(7,8,6) f [folded body_def]])
  define w where "w = body + int k"
  define A where "A = int (align4 (length old))"
  define S where "S = fdt + fdt_off_dt_struct m fdt"
  define N where "N = int (align4 (nat len))"
  have N: "N = FDT_TAGALIGN len" "len \<le> N" "0 \<le> N" "N < 2147483648" "N mod 4 = 0"
    using FDT_TAGALIGN_nat [of "nat len"] FDT_TAGALIGN_bounds [of len] len by (simp_all add: N_def)
  have A: "A = FDT_TAGALIGN (int (length old))" "int (length old) \<le> A" "0 \<le> A" "A mod 4 = 0"
    using FDT_TAGALIGN_nat [of "length old"] FDT_TAGALIGN_bounds [of "int (length old)"] by (simp_all add: A_def)
  have w: "0 \<le> w" "w + 12 + A \<le> fdt_size_dt_struct m fdt" using b0 pr(8) by (simp_all add: w_def A_def)
  have q: "fdt_get_property m fdt node nm = (Some (S + w), int (length old))"
    using fdt_get_property_items [OF lay nd(4) c, of nm] f pr(6) by (simp add: body_def w_def S_def fdt_offset_ptr_i_def)
  have al: "s32 (FDT_TAGALIGN (int (length old))) = A" "s32 (FDT_TAGALIGN len) = N"
  proof -
    have "A < 2147483648" using w ll by linarith
    then show "s32 (FDT_TAGALIGN (int (length old))) = A" "s32 (FDT_TAGALIGN len) = N"
      unfolding A(1) [symmetric] N(1) [symmetric] using A(3) N(3,4) by (simp_all add: s32_id)
  qed
  obtain m0 where sp: "fdt_splice_struct_i m fdt (S + (w + 12)) A N = (0, m0)"
    and qq: "q = S + w" and m1: "m1 = fdt32_st m0 (q + 4) len"
    using r q al by (auto simp: fdt_resize_property_i_def add.assoc split: prod.splits if_splits)
  have un0: "unchanged_outside (S + w) (S + (w + 12) + N) m0 m'"
    using un N len unfolding m1 qq by (auto simp: unchanged_outside_def fdt32_st_outside)
  have wa: "w \<le> w + 12" "w + 12 + A \<le> fdt_size_dt_struct m fdt" using w by simp_all
  note sb = fdt_splice_struct_blk [OF lay w(1) wa(1) A(3) wa(2) N(3,4) sp [unfolded S_def] un0 [unfolded S_def], folded S_def]
  note bt = fdt_splice_struct_bytes [OF lay _ A(3) wa(2) N(3,4) sp [unfolded S_def], folded S_def]
  have ld: "fdt32_ld m' (q + i) = fdt32_ld m (q + i)" if "i = 0 \<or> i = 8" for i
  proof (rule fdt32_ld_cong)
    fix a assume a: "q + i \<le> a" "a < q + i + 4"
    have "m' a = m1 a" using that a by (intro unchanged_outsideD [OF un]) auto
    also have "\<dots> = m0 a" using that a by (auto simp: m1 fdt32_st_outside)
    also have "\<dots> = m a" using that a w ll N by (intro bt(1)) (auto simp: qq S_def)
    finally show "m' a = m a" .
  qed
  have l4: "fdt32_ld m' (q + 4) = len"
  proof -
    have "fdt32_ld m' (q + 4) = fdt32_ld m1 (q + 4)" by (intro fdt32_ld_cong unchanged_outsideD [OF un]) auto
    then show ?thesis using len by (simp add: m1 u32_id)
  qed
  have X: "nat (w + 12 - w + N) = 12 + align4 (nat len)" using N by (simp add: N_def nat_add_distrib)
  have it: "items (bytes_at m' (S + w) (12 + align4 (nat len)) @ R)
      = Property so (bytes_at m' (q + 12) (nat len)) # items R" for R
    using ld [of 0] ld [of 8] l4 len pr(5,7) items_property [of m' q "nat len" R]
    by (simp add: qq w_def S_def fdt_offset_ptr_i_def add.assoc)
  have rw: "reaches (blk m fdt 0) (nat w) (pre @ Begin bn # mid)"
    using reaches_trans [OF nd(1) pr(3)] b0 by (simp add: w_def nat_add_distrib)
  note ri = rewrite_items [OF rw sb(5) [unfolded X]]
  define R where "R = items (drop (nat (w + 12 + A)) (blk m fdt 0))"
  have iB: "items (blk m fdt 0) = pre @ Begin bn # mid @ Property so old # R"
    using ri(2) pr(4) by (simp add: w_def A_def R_def)
  have iB': "items (blk m' fdt 0) = pre @ Begin bn # mid @ Property so (bytes_at m' (q + 12) (nat len)) # R"
    using ri(1) it by (simp add: R_def)
  have nw: "n \<le> node \<Longrightarrow> node_index m fdt n = Some i \<Longrightarrow> node_index m' fdt n = Some i" for n i
    by (rule node_index_rewrite [OF sb(5) rw]) (use nd N A w b0 sb(4) in \<open>auto simp: w_def\<close>)
  have "sound m' fdt"
    using sb(1,2,4) s4 N A nmd unfolding sound_def iB iB' by (simp add: mod_add_eq mod_diff_eq) presburger
  moreover have "view m' fdt 0 = under j (areplace nm (\<lambda>_. bytes_at m' (q + 12) (nat len))) (view m fdt 0)"
    using pr(2) nd(2) by (simp add: view_def iB iB' sb(2) under_append areplace_passed [OF pr(1,2)])
  moreover have "aget nm (drop (Suc j) (view m fdt 0)) \<noteq> None"
    using pr(2) nd(2) aget_passed [OF pr(1), of "Property so old # R"] by (simp add: view_def iB)
  ultimately show ?thesis using nw by blast
qed

end
