(* ===== verification/Fdt_Write.thy ===== *)
theory Fdt_Write
  imports Fdt_View
begin

text \<open>
  The writers of \<open>fdt_rw.c\<close> that change the properties of a node, as operations on its items:
  \<open>fdt_setprop\<close> is \<open>aset\<close>, \<open>fdt_appendprop\<close> is \<open>aappend\<close> and \<open>fdt_delprop\<close> is \<open>adel\<close>. Each keeps the
  tree sound and the place of every node up to the one it works on.
\<close>

lemma node_index_lt:
  assumes "layout m fdt" "node_index m fdt node = Some j"
  shows "node < 2147483648"
proof -
  have "node < fdt_size_dt_struct m fdt" using assms(2) by (simp add: node_index_def split: if_splits)
  then show ?thesis using layout_lin [OF assms(1)] by linarith
qed

section \<open>Adding a property\<close>

lemma fdt_add_property_view:
  assumes snd: "sound m fdt" and ix: "node_index m fdt node = Some j"
    and c: "0 \<le> fdt_check_node_offset_i m fdt node"
    and nm: "is_cstr nm" "int (length nm) < 2147483600"
    and len: "0 \<le> len" "len < 2147483600"
    and r: "fdt_add_property_i m fdt node nm len = (0, Some q, m1)"
    and un: "unchanged_outside (q + 12) (q + 12 + len) m1 m'"
  shows "sound m' fdt \<and> view m' fdt 0 = under j (\<lambda>its. Property (Some nm) (bytes_at m' (q + 12) (nat len)) # its) (view m fdt 0)
    \<and> (\<forall>n i. n \<le> node \<longrightarrow> node_index m fdt n = Some i \<longrightarrow> node_index m' fdt n = Some i)"
proof -
  define body where "body = fdt_check_node_offset_i m fdt node"
  have lay: "layout m fdt" and s4: "fdt_size_dt_struct m fdt mod 4 = 0"
    and nmd: "named (strs m fdt) (items (blk m fdt 0))" using snd by (simp_all add: sound_def)
  obtain pre bn where nd: "reaches (blk m fdt 0) (nat body) (pre @ [Begin bn])" "length pre = j"
    "0 \<le> node" "node < 2147483648" "node + 4 \<le> body" "body \<le> fdt_size_dt_struct m fdt" "body mod 4 = 0" "body < 2147483648"
    by (rule node_located [OF snd ix c]) (auto simp: body_def)
  have b0: "0 \<le> body" using nd by simp
  obtain so al m0 where fa: "fdt_find_add_string_i m fdt nm = (so, al, m0)" by (cases "fdt_find_add_string_i m fdt nm") auto
  have so0: "0 \<le> so" using r c fa by (auto simp: fdt_add_property_i_def Let_def split: if_splits)
  note fv = fdt_find_add_string_view [OF lay nm fa so0]
  note ll = layout_lin [OF fv(1)]
  define S where "S = fdt + fdt_off_dt_struct m0 fdt"
  define N where "N = int (align4 (nat len))"
  have N: "N = FDT_TAGALIGN len" "len \<le> N" "0 \<le> N" "12 + N < 2147483648" "N mod 4 = 0"
    using FDT_TAGALIGN_nat [of "nat len"] FDT_TAGALIGN_bounds [of len] len by (simp_all add: N_def)
  have s12: "s32 (12 + FDT_TAGALIGN len) = 12 + N" unfolding N(1) [symmetric] using N by (simp add: s32_id)
  obtain m2 where sp: "fdt_splice_struct_i m0 fdt (S + body) 0 (12 + N) = (0, m2)" and q: "q = S + body"
    and m1: "m1 = fdt32_st (fdt32_st (fdt32_st m2 q FDT_PROP) (q + 8) so) (q + 4) len"
    using r c fa so0 s12
    by (auto simp: fdt_add_property_i_def body_def S_def fdt_offset_ptr_i_def Let_def split: prod.splits if_splits)
  have bs: "body + 0 \<le> fdt_size_dt_struct m0 fdt" using nd fv(7) by simp
  have un0: "unchanged_outside (S + body) (S + body + (12 + N)) m2 m'"
    using un N len unfolding m1 q by (auto simp: unchanged_outside_def fdt32_st_outside)
  have N0: "0 \<le> 12 + N" using N by simp
  note sb = fdt_splice_struct_blk [OF fv(1) b0 order_refl _ bs N0 N(4) sp [unfolded S_def] un0 [unfolded S_def], folded S_def]
  have ld: "fdt32_ld m' q = FDT_PROP" "fdt32_ld m' (q + 4) = len" "fdt32_ld m' (q + 8) = so"
  proof -
    have "fdt32_ld m' (q + i) = fdt32_ld m1 (q + i)" if "i \<le> 8" for i
      using that by (intro fdt32_ld_cong unchanged_outsideD [OF un]) auto
    from this [of 0] this [of 4] this [of 8] show "fdt32_ld m' q = FDT_PROP" "fdt32_ld m' (q + 4) = len" "fdt32_ld m' (q + 8) = so"
      using len so0 fv(5) by (simp_all add: m1 fdt32_ld_st_other u32_id)
  qed
  have X: "nat (body - body + (12 + N)) = 12 + align4 (nat len)" using N by (simp add: N_def nat_add_distrib)
  have rw: "reaches (blk m0 fdt 0) (nat body) (pre @ [Begin bn])" using nd(1) fv(2) by simp
  note ri = rewrite_items [OF rw sb(5) [OF order_refl, unfolded X]]
  define R where "R = items (drop (nat body) (blk m fdt 0))"
  have iB: "items (blk m fdt 0) = pre @ Begin bn # R" using ri(2) fv(2) by (simp add: R_def)
  have iB': "items (blk m' fdt 0) = pre @ Begin bn # Property so (bytes_at m' (q + 12) (nat len)) # R"
    using ri(1) ld len items_property [of m' q "nat len"] fv(2) by (simp add: R_def q)
  have nms: "named (strs m' fdt) (items (blk m fdt 0))" "map (map_item (name_at (strs m' fdt))) (items (blk m fdt 0)) = view m fdt 0"
    using named_extends [OF nmd fv(3)] resolve_extends [OF nmd fv(3)] sb(2) [OF order_refl] by (simp_all add: view_def)
  have nw: "n \<le> node \<Longrightarrow> node_index m fdt n = Some i \<Longrightarrow> node_index m' fdt n = Some i" for n i
  proof (rule node_index_rewrite [OF sb(5) [OF order_refl] rw])
    assume "node_index m fdt n = Some i"
    then show "node_index m0 fdt n = Some i" using fv(2,7) by (simp add: node_index_def split: if_splits)
  qed (use nd N sb(4) [OF order_refl] fv(7) in auto)
  have nso: "name_at (strs m' fdt) so = Some nm" using fv(4) sb(2) [OF order_refl] by simp
  have "sound m' fdt"
    using sb(1,4) [OF order_refl] s4 N nms(1) nso fv(7) unfolding sound_def iB iB' by simp presburger
  moreover have "view m' fdt 0 = under j (\<lambda>its. Property (Some nm) (bytes_at m' (q + 12) (nat len)) # its) (view m fdt 0)"
    unfolding nms(2) [symmetric] iB using nd(2) nso by (simp add: view_def iB' under_append)
  ultimately show ?thesis using nw by blast
qed

section \<open>Setting a property\<close>

text \<open>The node has to be one: every operation on a property fails otherwise.\<close>

lemma fdt_get_property_node:
  "fdt_check_node_offset_i m fdt node < 0 \<Longrightarrow> fst (fdt_get_property m fdt node nm) = None"
  by (simp add: fdt_get_property_def fdt_get_property_namelen_def fdt_get_property_namelen_i_def
      fdt_first_property_offset_def get_property_loop.simps)

lemma fdt_add_property_node:
  "fdt_add_property_i m fdt node nm len = (0, pr, m') \<Longrightarrow> 0 \<le> fdt_check_node_offset_i m fdt node"
  by (auto simp: fdt_add_property_i_def Let_def split: if_splits)

lemma find_prop_body:
  assumes snd: "sound m fdt" and ix: "node_index m fdt node = Some j"
    and c: "0 \<le> fdt_check_node_offset_i m fdt node"
  shows "find_prop (strs m fdt) nm (blk m fdt (fdt_check_node_offset_i m fdt node)) = None
    \<longleftrightarrow> aget nm (drop (Suc j) (view m fdt 0)) = None"
proof -
  define body where "body = fdt_check_node_offset_i m fdt node"
  obtain pre bn where nd: "reaches (blk m fdt 0) (nat body) (pre @ [Begin bn])" "length pre = j" "node + 4 \<le> body" "0 \<le> node"
    by (rule node_located [OF snd ix c]) (auto simp: body_def)
  have "drop (nat body) (blk m fdt 0) = blk m fdt body" using nd by (simp add: drop_blk)
  then have "drop (Suc j) (view m fdt 0) = map (map_item (name_at (strs m fdt))) (items (blk m fdt body))"
    using reaches_items [OF nd(1)] nd(2) by (simp add: view_def)
  then show ?thesis
    using find_prop_aget [of nm "strs m fdt" "blk m fdt body"] find_prop_Some [of "strs m fdt" nm "blk m fdt body"]
    by (fastforce simp: body_def split: option.splits)
qed

lemma fdt_setprop_placeholder_view:
  assumes snd: "sound m fdt" and ix: "node_index m fdt node = Some j"
    and nm: "is_cstr nm" "int (length nm) < 2147483600"
    and len: "0 \<le> len" "len < 2147483600"
    and r: "fdt_setprop_placeholder m fdt node nm len = (0, Some pd, m1)"
    and un: "unchanged_outside pd (pd + len) m1 m'"
  shows "sound m' fdt" "view m' fdt 0 = under j (aset nm (bytes_at m' pd (nat len))) (view m fdt 0)"
    "n \<le> node \<Longrightarrow> node_index m fdt n = Some i \<Longrightarrow> node_index m' fdt n = Some i"
proof -
  have lay: "layout m fdt" using snd by (simp add: sound_def)
  have nl: "node < 2147483648" by (rule node_index_lt [OF lay ix])
  define body where "body = fdt_check_node_offset_i m fdt node"
  have all: "sound m' fdt \<and> view m' fdt 0 = under j (aset nm (bytes_at m' pd (nat len))) (view m fdt 0)
    \<and> (\<forall>n i. n \<le> node \<longrightarrow> node_index m fdt n = Some i \<longrightarrow> node_index m' fdt n = Some i)"
  proof (cases "0 \<le> body")
    case False
    then have g: "fst (fdt_get_property m fdt node nm) = None" by (simp add: fdt_get_property_node body_def)
    obtain ol where ol: "fdt_resize_property_i m fdt node nm len = (ol, None, m)"
      using g by (cases "fdt_get_property m fdt node nm") (auto simp: fdt_resize_property_i_def)
    have ol0: "ol < 0" using g fdt_get_property_None [of m fdt node nm]
      using ol by (cases "fdt_get_property m fdt node nm") (auto simp: fdt_resize_property_i_def)
    show ?thesis
      using r ol ol0 False fdt_add_property_node [of m fdt node nm len]
      by (auto simp: fdt_setprop_placeholder_def layout_rw_probe [OF lay] body_def split: prod.splits if_splits)
  next
    case True
    note g = fdt_get_property_items [OF lay nl True [unfolded body_def], of nm, folded body_def]
    show ?thesis
    proof (cases "find_prop (strs m fdt) nm (blk m fdt body)")
      case (Some k)
      then have "fst (fdt_resize_property_i m fdt node nm len) \<noteq> - FDT_ERR_NOTFOUND"
      proof -
        have "fst (fdt_splice_struct_i m fdt p a b) \<noteq> - 1" for p a b
          by (auto simp: fdt_splice_struct_i_def fdt_splice_i_def Let_def split: prod.splits if_splits)
        then show ?thesis using Some g by (auto simp: fdt_resize_property_i_def split: prod.splits) (metis fst_conv)
      qed
      then obtain q where q: "fdt_resize_property_i m fdt node nm len = (0, Some q, m1)" "pd = q + 12"
        using r by (auto simp: fdt_setprop_placeholder_def layout_rw_probe [OF lay] split: prod.splits if_splits)
      note v = fdt_resize_property_view [OF snd ix True [unfolded body_def] Some [unfolded body_def] len q(1) un [unfolded q(2)]]
      have "under j (areplace nm (\<lambda>_. bytes_at m' pd (nat len))) (view m fdt 0) = under j (aset nm (bytes_at m' pd (nat len))) (view m fdt 0)"
        using v by (auto simp: under_def aset_def)
      then show ?thesis using v by (simp add: q(2))
    next
      case None
      then have ge: "fst (fdt_get_property m fdt node nm) = None" using g by simp
      obtain ol where ol: "fdt_resize_property_i m fdt node nm len = (ol, None, m)" "ol < 0"
        using ge fdt_get_property_None [of m fdt node nm]
        by (cases "fdt_get_property m fdt node nm") (auto simp: fdt_resize_property_i_def)
      then obtain q where q: "fdt_add_property_i m fdt node nm len = (0, Some q, m1)" "pd = q + 12"
        using r by (auto simp: fdt_setprop_placeholder_def layout_rw_probe [OF lay] split: prod.splits if_splits)
      note v = fdt_add_property_view [OF snd ix True [unfolded body_def] nm len q(1) un [unfolded q(2)]]
      have "aget nm (drop (Suc j) (view m fdt 0)) = None"
        using find_prop_body [OF snd ix True [unfolded body_def], of nm] None by (simp add: body_def)
      then have "under j (\<lambda>its. Property (Some nm) (bytes_at m' pd (nat len)) # its) (view m fdt 0) = under j (aset nm (bytes_at m' pd (nat len))) (view m fdt 0)"
        by (simp add: under_def aset_def)
      then show ?thesis using v by (simp add: q(2))
    qed
  qed
  then show "sound m' fdt" "view m' fdt 0 = under j (aset nm (bytes_at m' pd (nat len))) (view m fdt 0)"
    "n \<le> node \<Longrightarrow> node_index m fdt n = Some i \<Longrightarrow> node_index m' fdt n = Some i" by simp_all
qed

lemma fdt_setprop_view:
  assumes snd: "sound m fdt" and ix: "node_index m fdt node = Some j"
    and nm: "is_cstr nm" "int (length nm) < 2147483600" and len: "int (length val) < 2147483600"
    and r: "fdt_setprop m fdt node nm val = (0, m')"
  shows "sound m' fdt" "view m' fdt 0 = under j (aset nm val) (view m fdt 0)"
    "n \<le> node \<Longrightarrow> node_index m fdt n = Some i \<Longrightarrow> node_index m' fdt n = Some i"
proof -
  have lay: "layout m fdt" using snd by (simp add: sound_def)
  have nl: "node < 2147483648" by (rule node_index_lt [OF lay ix])
  obtain pr m1 where ph: "fdt_setprop_placeholder m fdt node nm (int (length val)) = (0, pr, m1)"
    and m': "m' = (if val \<noteq> [] then put_bytes m1 (the pr) val else m1)"
    using r by (auto simp: fdt_setprop_def split: prod.splits if_splits)
  have "pr \<noteq> None"
  proof -
    obtain e1 p1 n1 where r1: "fdt_resize_property_i m fdt node nm (int (length val)) = (e1, p1, n1)" by (rule prod_cases3)
    have n1: "e1 = - FDT_ERR_NOTFOUND \<Longrightarrow> n1 = m" using fdt_resize_property_keeps(2) [OF lay nl _ len r1] by simp
    obtain e2 p2 n2 where r2: "fdt_add_property_i m fdt node nm (int (length val)) = (e2, p2, n2)" by (rule prod_cases3)
    have "e1 = 0 \<Longrightarrow> p1 \<noteq> None" using fdt_resize_property_keeps(3) [OF lay nl _ len r1] by auto
    moreover have "e2 = 0 \<Longrightarrow> p2 \<noteq> None" using fdt_add_property_keeps(2) [OF lay nl _ len nm(2) r2] by auto
    ultimately show ?thesis
      using ph r1 r2 n1 by (auto simp: fdt_setprop_placeholder_def layout_rw_probe [OF lay] split: if_splits)
  qed
  then obtain pd where pd: "pr = Some pd" by auto
  have un: "unchanged_outside pd (pd + int (length val)) m1 m'"
    by (auto simp: m' pd intro: put_bytes_unchanged)
  have v: "bytes_at m' pd (nat (int (length val))) = val" by (simp add: m' pd)
  note ph' = fdt_setprop_placeholder_view [OF snd ix nm _ len ph [unfolded pd] un, unfolded v]
  show "sound m' fdt" "view m' fdt 0 = under j (aset nm val) (view m fdt 0)"
    "n \<le> node \<Longrightarrow> node_index m fdt n = Some i \<Longrightarrow> node_index m' fdt n = Some i"
    using ph' by simp_all
qed

section \<open>Deleting and appending\<close>

text \<open>A property of the node, found by name: everything a change of it needs.\<close>

lemma property_edit:
  assumes snd: "sound m fdt" and ix: "node_index m fdt node = Some j"
    and g: "fdt_get_property m fdt node nm = (Some q, len)"
  obtains w pre bn mid so old where "q = fdt + fdt_off_dt_struct m fdt + w" "len = int (length old)" "0 \<le> w" "node < w"
    "w + 12 + int (align4 (length old)) \<le> fdt_size_dt_struct m fdt"
    "reaches (blk m fdt 0) (nat w) (pre @ Begin bn # mid)" "length pre = j"
    "passed (strs m fdt) nm mid" "name_at (strs m fdt) so = Some nm"
    "items (blk m fdt 0) = pre @ Begin bn # mid @ Property so old # items (drop (nat (w + 12 + int (align4 (length old)))) (blk m fdt 0))"
    "fdt32_ld m q = FDT_PROP" "fdt32_ld m (q + 8) = so" "bytes_at m (q + 12) (length old) = old"
proof -
  define body where "body = fdt_check_node_offset_i m fdt node"
  have lay: "layout m fdt" using snd by (simp add: sound_def)
  have nl: "node < 2147483648" by (rule node_index_lt [OF lay ix])
  have c: "0 \<le> body"
  proof (rule ccontr)
    assume "\<not> 0 \<le> body"
    then show False using fdt_get_property_node [of m fdt node nm] g by (simp add: body_def)
  qed
  obtain pre bn where nd: "reaches (blk m fdt 0) (nat body) (pre @ [Begin bn])" "length pre = j"
    "0 \<le> node" "node + 4 \<le> body" "body \<le> fdt_size_dt_struct m fdt" "body mod 4 = 0" "body < 2147483648"
    by (rule node_located [OF snd ix c [unfolded body_def]]) (auto simp: body_def)
  note gi = fdt_get_property_items [OF lay nl c [unfolded body_def], of nm, folded body_def]
  obtain k where f: "find_prop (strs m fdt) nm (blk m fdt body) = Some k"
    using gi g by (auto split: option.splits)
  obtain mid so old where pr: "passed (strs m fdt) nm mid" "name_at (strs m fdt) so = Some nm"
    "reaches (drop (nat body) (blk m fdt 0)) k mid"
    "items (drop (nat (body + int k)) (blk m fdt 0)) = Property so old # items (drop (nat (body + int k + 12 + int (align4 (length old)))) (blk m fdt 0))"
    "so = fdt32_ld m (fdt_offset_ptr_i m fdt (body + int k) + 8)" "int (length old) = fdt32_ld m (fdt_offset_ptr_i m fdt (body + int k) + 4)"
    "fdt32_ld m (fdt_offset_ptr_i m fdt (body + int k)) = FDT_PROP"
    "body + int k + 12 + int (align4 (length old)) \<le> fdt_size_dt_struct m fdt" "int k mod 4 = 0"
    "bytes_at m (fdt_offset_ptr_i m fdt (body + int k) + 12) (length old) = old"
    by (rule property_located [OF snd c nd(6,7,5) f])
  have q: "q = fdt_offset_ptr_i m fdt (body + int k)" "len = int (length old)" using gi g f pr(6) by simp_all
  have rw: "reaches (blk m fdt 0) (nat (body + int k)) (pre @ Begin bn # mid)"
    using reaches_trans [OF nd(1) pr(3)] c by (simp add: nat_add_distrib)
  have it: "items (blk m fdt 0) = pre @ Begin bn # mid @ Property so old # items (drop (nat (body + int k + 12 + int (align4 (length old)))) (blk m fdt 0))"
    using reaches_items [OF rw] pr(4) by simp
  show ?thesis
    by (rule that [OF _ q(2) _ _ pr(8) rw nd(2) pr(1,2) it])
       (use c nd pr(5,7,10) in \<open>simp_all add: q(1) fdt_offset_ptr_i_def\<close>)
qed

lemma fdt_delprop_view:
  assumes snd: "sound m fdt" and ix: "node_index m fdt node = Some j" and r: "fdt_delprop m fdt node nm = (0, m')"
  shows "sound m' fdt" "view m' fdt 0 = under j (adel nm) (view m fdt 0)"
    "n \<le> node \<Longrightarrow> node_index m fdt n = Some i \<Longrightarrow> node_index m' fdt n = Some i"
proof -
  have lay: "layout m fdt" and s4: "fdt_size_dt_struct m fdt mod 4 = 0"
    and nmd: "named (strs m fdt) (items (blk m fdt 0))" using snd by (simp_all add: sound_def)
  note ll = layout_lin [OF lay]
  obtain q len where g: "fdt_get_property m fdt node nm = (Some q, len)"
    using r fdt_get_property_None [of m fdt node nm]
    by (fastforce simp: fdt_delprop_def layout_rw_probe [OF lay] split: prod.splits option.splits)
  obtain w pre bn mid so old where e: "q = fdt + fdt_off_dt_struct m fdt + w" "len = int (length old)" "0 \<le> w" "node < w"
    "w + 12 + int (align4 (length old)) \<le> fdt_size_dt_struct m fdt"
    "reaches (blk m fdt 0) (nat w) (pre @ Begin bn # mid)" "length pre = j"
    "passed (strs m fdt) nm mid" "name_at (strs m fdt) so = Some nm"
    "items (blk m fdt 0) = pre @ Begin bn # mid @ Property so old # items (drop (nat (w + 12 + int (align4 (length old)))) (blk m fdt 0))"
    by (rule property_edit [OF snd ix g])
  define A where "A = 12 + int (align4 (length old))"
  have A: "0 \<le> A" "A mod 4 = 0" "w + A \<le> fdt_size_dt_struct m fdt"
    using e(5) align4_bounds(3) [of "length old"] unfolding A_def by presburger+
  have "s32 (12 + FDT_TAGALIGN len) = A"
  proof -
    have "A < 2147483648" using A e(3) ll by linarith
    then show ?thesis unfolding e(2) FDT_TAGALIGN_nat A_def [symmetric] using A by (simp add: s32_id)
  qed
  then have sp: "fdt_splice_struct_i m fdt (fdt + fdt_off_dt_struct m fdt + w) A 0 = (0, m')"
    using r g e(1) by (simp add: fdt_delprop_def layout_rw_probe [OF lay])
  note sb = fdt_splice_struct_blk [OF lay e(3) order_refl A(1,3) order_refl _ sp unchanged_outside_refl]
  have b: "blk m' fdt 0 = take (nat w) (blk m fdt 0) @ [] @ drop (nat (w + A)) (blk m fdt 0)" using sb(5) by simp
  note ri = rewrite_items [OF e(6) b]
  have wA: "w + A = w + 12 + int (align4 (length old))" by (simp add: A_def)
  have iB': "items (blk m' fdt 0) = pre @ Begin bn # mid @ items (drop (nat (w + A)) (blk m fdt 0))"
    using ri(1) by simp
  show "sound m' fdt"
    using sb(1,2,4) s4 A nmd unfolding sound_def e(10) iB' wA by simp presburger
  show "view m' fdt 0 = under j (adel nm) (view m fdt 0)"
    using e(7,9) sb(2) by (simp add: view_def e(10) iB' under_append adel_passed [OF e(8)] wA)
  show "n \<le> node \<Longrightarrow> node_index m fdt n = Some i \<Longrightarrow> node_index m' fdt n = Some i"
    by (rule node_index_rewrite [OF b e(6)]) (use e(3,4,5) sb(4) A in auto)
qed

text \<open>\<open>fdt_appendprop\<close> puts the new bytes behind the old value, or adds the property.\<close>

lemma fdt_appendprop_view:
  assumes snd: "sound m fdt" and ix: "node_index m fdt node = Some j"
    and nm: "is_cstr nm" "int (length nm) < 2147483600" and len: "int (length val) < 1073741800"
    and r: "fdt_appendprop m fdt node nm val = (0, m')"
    and small: "fdt_size_dt_struct m fdt < 1073741800"
  shows "sound m' fdt" "view m' fdt 0 = under j (aappend nm val) (view m fdt 0)"
    "n \<le> node \<Longrightarrow> node_index m fdt n = Some i \<Longrightarrow> node_index m' fdt n = Some i"
proof -
  have lay: "layout m fdt" and s4: "fdt_size_dt_struct m fdt mod 4 = 0"
    and nmd: "named (strs m fdt) (items (blk m fdt 0))" using snd by (simp_all add: sound_def)
  note ll = layout_lin [OF lay]
  have nl: "node < 2147483648" by (rule node_index_lt [OF lay ix])
  have all: "sound m' fdt \<and> view m' fdt 0 = under j (aappend nm val) (view m fdt 0)
    \<and> (\<forall>n i. n \<le> node \<longrightarrow> node_index m fdt n = Some i \<longrightarrow> node_index m' fdt n = Some i)"
  proof (cases "fst (fdt_get_property m fdt node nm)")
    case None
    then obtain ol where g: "fdt_get_property m fdt node nm = (None, ol)" by (cases "fdt_get_property m fdt node nm") auto
    obtain q m1 where ad: "fdt_add_property_i m fdt node nm (int (length val)) = (0, Some q, m1)" and m': "m' = put_bytes m1 (q + 12) val"
    proof -
      obtain e pr m1 where a: "fdt_add_property_i m fdt node nm (int (length val)) = (e, pr, m1)" by (rule prod_cases3)
      moreover from this have "e = 0" using r g by (auto simp: fdt_appendprop_def layout_rw_probe [OF lay] split: if_splits)
      moreover from a this obtain q where "pr = Some q"
        using fdt_add_property_keeps(2) [OF lay nl _ _ nm(2) a] len by auto
      ultimately show ?thesis using that r g by (simp add: fdt_appendprop_def layout_rw_probe [OF lay])
    qed
    have c: "0 \<le> fdt_check_node_offset_i m fdt node" by (rule fdt_add_property_node [OF ad])
    have un: "unchanged_outside (q + 12) (q + 12 + int (length val)) m1 m'" by (auto simp: m' intro: put_bytes_unchanged)
    have v: "bytes_at m' (q + 12) (nat (int (length val))) = val" by (simp add: m')
    have l: "0 \<le> int (length val)" "int (length val) < 2147483600" using len by simp_all
    note av = fdt_add_property_view [OF snd ix c nm l ad un, unfolded v]
    have "aget nm (drop (Suc j) (view m fdt 0)) = None"
      using fdt_get_property_items [OF lay nl c, of nm] g find_prop_body [OF snd ix c, of nm] by (auto split: option.splits)
    then have "under j (\<lambda>its. Property (Some nm) val # its) (view m fdt 0) = under j (aappend nm val) (view m fdt 0)"
      by (simp add: under_def aappend_def)
    then show ?thesis using av by simp
  next
    case (Some q)
    then obtain ol where g: "fdt_get_property m fdt node nm = (Some q, ol)" by (cases "fdt_get_property m fdt node nm") auto
    obtain w pre bn mid so old where e: "q = fdt + fdt_off_dt_struct m fdt + w" "ol = int (length old)" "0 \<le> w" "node < w"
      "w + 12 + int (align4 (length old)) \<le> fdt_size_dt_struct m fdt"
      "reaches (blk m fdt 0) (nat w) (pre @ Begin bn # mid)" "length pre = j"
      "passed (strs m fdt) nm mid" "name_at (strs m fdt) so = Some nm"
      "items (blk m fdt 0) = pre @ Begin bn # mid @ Property so old # items (drop (nat (w + 12 + int (align4 (length old)))) (blk m fdt 0))"
      "fdt32_ld m q = FDT_PROP" "fdt32_ld m (q + 8) = so" "bytes_at m (q + 12) (length old) = old"
      by (rule property_edit [OF snd ix g])
    define A where "A = int (align4 (length old))"
    define L where "L = length val + length old"
    define N where "N = int (align4 L)"
    define S where "S = fdt + fdt_off_dt_struct m fdt"
    have A: "0 \<le> A" "A mod 4 = 0" "w + 12 + A \<le> fdt_size_dt_struct m fdt" "int (length old) \<le> A"
      using e(5) align4_bounds(1,3) [of "length old"] unfolding A_def by presburger+
    have L: "int L < 2147483600" using A e(3) len small by (simp add: L_def)
    have N: "0 \<le> N" "N mod 4 = 0" "int L \<le> N" "N < 2147483648"
      using align4_bounds [of L] L unfolding N_def by presburger+
    have al: "s32 (FDT_TAGALIGN (int (length old))) = A" "s32 (int (length val) + ol) = int L" "s32 (FDT_TAGALIGN (int L)) = N"
    proof -
      have "A < 2147483648" using A e(3) ll by linarith
      then show "s32 (FDT_TAGALIGN (int (length old))) = A" "s32 (int (length val) + ol) = int L" "s32 (FDT_TAGALIGN (int L)) = N"
        unfolding FDT_TAGALIGN_nat A_def [symmetric] N_def [symmetric] using A N L by (simp_all add: s32_id e(2) L_def)
    qed
    obtain m0 where sp: "fdt_splice_struct_i m fdt (S + (w + 12)) A N = (0, m0)"
      and m': "m' = put_bytes (fdt32_st m0 (q + 4) (int L)) (q + 12 + ol) val"
      using r g al by (auto simp: fdt_appendprop_def layout_rw_probe [OF lay] e(1,2) S_def add.assoc Let_def split: prod.splits if_splits)
    have un0: "unchanged_outside (S + w) (S + (w + 12) + N) m0 m'"
      using N(3) unfolding m' e(1,2) S_def L_def by (auto simp: unchanged_outside_def fdt32_st_outside put_bytes_outside)
    have wa: "w \<le> w + 12" "w + 12 + A \<le> fdt_size_dt_struct m fdt" using A by simp_all
    note sb = fdt_splice_struct_blk [OF lay e(3) wa(1) A(1) wa(2) N(1,4) sp [unfolded S_def] un0 [unfolded S_def], folded S_def]
    note bt = fdt_splice_struct_bytes [OF lay _ A(1) wa(2) N(1,4) sp [unfolded S_def], folded S_def]
    have qS: "q = S + w" by (simp add: e(1) S_def)
    have same: "m' a = m a" if "q \<le> a" "a < q + 4 \<or> q + 8 \<le> a" "a < q + 12 + ol" for a
    proof -
      have "m' a = m0 a" using that by (auto simp: m' fdt32_st_outside put_bytes_outside)
      also have "\<dots> = m a" using that e(2,3) N(3) ll by (intro bt(1)) (auto simp: qS S_def L_def)
      finally show ?thesis .
    qed
    have ld: "fdt32_ld m' q = FDT_PROP" "fdt32_ld m' (q + 8) = so" "fdt32_ld m' (q + 4) = int L"
    proof -
      have "fdt32_ld m' q = fdt32_ld m q" "fdt32_ld m' (q + 8) = fdt32_ld m (q + 8)"
        using e(2) by (auto intro!: fdt32_ld_cong same)
      then show "fdt32_ld m' q = FDT_PROP" "fdt32_ld m' (q + 8) = so" using e(11,12) by simp_all
      have "fdt32_ld m' (q + 4) = fdt32_ld (fdt32_st m0 (q + 4) (int L)) (q + 4)"
        unfolding m' using e(2) by (intro fdt32_ld_cong) (simp add: put_bytes_outside)
      then show "fdt32_ld m' (q + 4) = int L" using L by (simp add: u32_id)
    qed
    have val: "bytes_at m' (q + 12) L = old @ val"
    proof -
      have "bytes_at m' (q + 12) (length old) = bytes_at m (q + 12) (length old)"
        by (rule bytes_at_eqI, rule same) (use e(2) in auto)
      moreover have "bytes_at m' (q + 12 + int (length old)) (length val) = val" by (simp add: m' e(2))
      ultimately show ?thesis using e(13) bytes_at_add [of m' "q + 12" "length old" "length val"] by (simp add: L_def add.commute)
    qed
    have X: "nat (w + 12 - w + N) = 12 + align4 L" using N by (simp add: N_def nat_add_distrib)
    have it: "items (bytes_at m' (S + w) (12 + align4 L) @ R) = Property so (old @ val) # items R" for R
      using ld items_property [of m' q L R] by (simp add: qS [symmetric] val)
    note ri = rewrite_items [OF e(6) sb(5) [unfolded X]]
    have wA: "w + 12 + A = w + 12 + int (align4 (length old))" by (simp add: A_def)
    have iB': "items (blk m' fdt 0) = pre @ Begin bn # mid @ Property so (old @ val) # items (drop (nat (w + 12 + A)) (blk m fdt 0))"
      using ri(1) it by simp
    have "sound m' fdt" using sb(1,2,4) s4 A N nmd unfolding sound_def e(10) iB' wA by simp presburger
    moreover have "view m' fdt 0 = under j (areplace nm (\<lambda>v. v @ val)) (view m fdt 0)"
      using e(7,9) sb(2) by (simp add: view_def e(10) iB' under_append areplace_passed [OF e(8,9)] wA)
    moreover have "aget nm (drop (Suc j) (view m fdt 0)) \<noteq> None"
      using e(7,9) aget_passed [OF e(8), of "Property so old # items (drop (nat (w + 12 + int (align4 (length old)))) (blk m fdt 0))"]
      by (simp add: view_def e(10))
    moreover have "n \<le> node \<Longrightarrow> node_index m fdt n = Some i \<Longrightarrow> node_index m' fdt n = Some i" for n i
      by (rule node_index_rewrite [OF sb(5) e(6)]) (use e(3,4) A N sb(4) in auto)
    ultimately show ?thesis by (auto simp: under_def aappend_def)
  qed
  then show "sound m' fdt" "view m' fdt 0 = under j (aappend nm val) (view m fdt 0)"
    "n \<le> node \<Longrightarrow> node_index m fdt n = Some i \<Longrightarrow> node_index m' fdt n = Some i" by simp_all
qed

end
