(* ===== verification/Fdt_Nodes.thy ===== *)
theory Fdt_Nodes
  imports Fdt_Write
begin

text \<open>
  The writers of \<open>fdt_rw.c\<close> that change nodes, as operations on the list of items:
  \<open>fdt_add_subnode\<close> is \<open>aadd_child\<close>, \<open>fdt_del_node\<close> takes the items of the node out, and
  \<open>fdt_set_name\<close> replaces its head.
\<close>

section \<open>Adding a node\<close>

definition prop_or_nop :: "'n item \<Rightarrow> bool" where
  "prop_or_nop it \<longleftrightarrow> (case it of Property _ _ \<Rightarrow> True | Nop \<Rightarrow> True | _ \<Rightarrow> False)"

lemma prop_or_nop_simps [simp]: "prop_or_nop (Property n v)" "prop_or_nop Nop"
  "\<not> prop_or_nop (Begin nm)" "\<not> prop_or_nop Endnode"
  by (simp_all add: prop_or_nop_def)

lemma prop_or_nop_tag: "prop_or_nop it \<longleftrightarrow> tag_of it = FDT_PROP \<or> tag_of it = FDT_NOP"
  by (cases it) auto

lemma aadd_child_passed:
  "list_all prop_or_nop mid \<Longrightarrow> rest = [] \<or> \<not> prop_or_nop (hd rest) \<Longrightarrow>
   aadd_child nm (mid @ rest) = mid @ Begin nm # Endnode # rest"
proof (induction mid)
  case Nil
  then show ?case by (cases "(nm, rest)" rule: aadd_child.cases) auto
next
  case (Cons it mid)
  then show ?case by (cases it) auto
qed

lemma prop_or_nop_map [simp]: "prop_or_nop (map_item f it) = prop_or_nop it"
  by (cases it) auto

lemma skip_props_items:
  assumes lay: "layout m fdt" and s4: "fdt_size_dt_struct m fdt mod 4 = 0"
  shows "0 \<le> off \<Longrightarrow> off mod 4 = 0 \<Longrightarrow> off < 2147483648 \<Longrightarrow>
    \<exists>k mid. skip_props m fdt off = off + int k \<and> reaches (blk m fdt off) k mid \<and> list_all prop_or_nop mid
      \<and> (items (blk m fdt (off + int k)) = [] \<or> \<not> prop_or_nop (hd (items (blk m fdt (off + int k)))))"
proof (induction "nat (2147483648 - off)" arbitrary: off rule: less_induct)
  case less
  obtain tag nxt where t: "fdt_next_tag m fdt off = (tag, nxt)" by fastforce
  note nt = fdt_next_tag_items [OF lay less.prems]
  note sp = skip_props.simps [of m fdt off]
  show ?case
  proof (cases "item_at (blk m fdt off)")
    case None
    then have "skip_props m fdt off = off + int 0" "items (blk m fdt (off + int 0)) = []"
      using nt t sp by (simp_all add: items.simps [of "blk m fdt off"])
    then show ?thesis using reaches.here by (intro exI [of _ 0] exI [of _ "[]"]) simp
  next
    case (Some p)
    obtain it n where it: "item_at (blk m fdt off) = Some (it, n)" using Some by (cases p) auto
    have n: "tag = tag_of it" "nxt = off + int n" "off + int n < 2147483648" "off + int n \<le> fdt_size_dt_struct m fdt + 3"
      using nt it t by simp_all
    have n4: "4 \<le> n" "n mod 4 = 0" using item_at_pos [OF it] by simp_all
    show ?thesis
    proof (cases "prop_or_nop it")
      case False
      then have "skip_props m fdt off = off + int 0"
        "\<not> prop_or_nop (hd (items (blk m fdt (off + int 0))))"
        using sp t n(1) by (simp_all add: prop_or_nop_tag items_unfold [OF it])
      then show ?thesis using reaches.here by (intro exI [of _ 0] exI [of _ "[]"]) simp
    next
      case True
      have o4: "(off + int n) mod 4 = 0" using less.prems(2) n4(2) by presburger
      have le: "off + int n \<le> fdt_size_dt_struct m fdt" by (rule align4_down [OF n(4) o4 s4])
      obtain k mid where k: "skip_props m fdt (off + int n) = off + int n + int k" "reaches (blk m fdt (off + int n)) k mid"
        "list_all prop_or_nop mid" "items (blk m fdt (off + int n + int k)) = [] \<or> \<not> prop_or_nop (hd (items (blk m fdt (off + int n + int k))))"
        using less.hyps [of "off + int n"] less.prems n n4 o4 by auto
      have "reaches (blk m fdt off) (n + k) (it # mid)"
        using reaches.step [OF it, of k mid] k(2) le less.prems(1) by (simp add: drop_blk)
      moreover have "skip_props m fdt off = off + int (n + k)"
        using sp t n(1,2) True k(1) by (simp add: prop_or_nop_tag)
      moreover have "off + int n + int k = off + int (n + k)" by simp
      note k4 = k(4) [unfolded this]
      ultimately show ?thesis using k(3) k4 True
        by (intro exI [of _ "n + k"] exI [of _ "it # mid"]) simp
    qed
  qed
qed

lemma item_at_endnode: "fdt32_ld m q = FDT_END_NODE \<Longrightarrow> item_at (bytes_at m q 4 @ R) = Some (Endnode, 4)"
proof -
  assume a: "fdt32_ld m q = FDT_END_NODE"
  have "rd32 (bytes_at m q 4 @ R) 0 = FDT_END_NODE" using a by (simp add: rd32_append rd32_bytes_at)
  then show ?thesis by (simp add: item_at_def)
qed

lemma fdt_add_subnode_view:
  assumes snd: "sound m fdt" and ix: "node_index m fdt parent = Some j"
    and nm: "is_cstr nm" "int (length nm) < 1073741800"
    and r: "fdt_add_subnode m fdt parent nm = (node, m')" "0 \<le> node"
  shows "sound m' fdt" "view m' fdt 0 = under j (aadd_child nm) (view m fdt 0)"
    "n \<le> node \<Longrightarrow> node_index m fdt n = Some i \<Longrightarrow> node_index m' fdt n = Some i"
    "parent < node" "\<exists>i. node_index m' fdt node = Some i \<and> i < length (view m' fdt 0) \<and> view m' fdt 0 ! i = Begin nm"
proof -
  have lay: "layout m fdt" and s4: "fdt_size_dt_struct m fdt mod 4 = 0"
    and nmd: "named (strs m fdt) (items (blk m fdt 0))" using snd by (simp_all add: sound_def)
  note ll = layout_lin [OF lay]
  have nl: "parent < 2147483648" by (rule node_index_lt [OF lay ix])
  have p0: "0 \<le> parent" "parent mod 4 = 0"
  proof -
    have "0 \<le> parent" "index_of (blk m fdt 0) (nat parent) = Some j" "parent < fdt_size_dt_struct m fdt"
      using ix by (auto simp: node_index_def split: if_splits)
    moreover from this obtain pre where "reaches (blk m fdt 0) (nat parent) pre"
      using index_of_reaches nat_mono [of parent "fdt_size_dt_struct m fdt"] by fastforce
    moreover have "nat parent mod 4 = 0" using reaches_le [OF calculation(4)] by simp
    ultimately show "0 \<le> parent" "parent mod 4 = 0" by (simp, presburger)
  qed
  obtain tag body where t: "fdt_next_tag m fdt parent = (tag, body)" by fastforce
  define so where "so = fdt_subnode_offset_namelen m fdt parent nm"
  have so: "so = - FDT_ERR_NOTFOUND" "tag = FDT_BEGIN_NODE"
    using r t by (auto simp: fdt_add_subnode_def fdt_add_subnode_namelen_def layout_rw_probe [OF lay] so_def [symmetric] Let_def split: if_splits)
  have c: "fdt_check_node_offset_i m fdt parent = body" using p0 t so(2) by (simp add: fdt_check_node_offset_i_def)
  have b0: "0 \<le> body"
    using fdt_next_tag_nonneg [OF t _ nl layout_placed [OF lay]] so(2) by simp
  obtain pre bn where nd: "reaches (blk m fdt 0) (nat body) (pre @ [Begin bn])" "length pre = j"
    "parent + 4 \<le> body" "body \<le> fdt_size_dt_struct m fdt" "body mod 4 = 0" "body < 2147483648"
    by (rule node_located [OF snd ix]) (use c b0 in auto)
  obtain k mid where sk: "skip_props m fdt body = body + int k" "reaches (blk m fdt body) k mid" "list_all prop_or_nop mid"
    "items (blk m fdt (body + int k)) = [] \<or> \<not> prop_or_nop (hd (items (blk m fdt (body + int k))))"
    using skip_props_items [OF lay s4 b0 nd(5,6)] by blast
  define w where "w = body + int k"
  define S where "S = fdt + fdt_off_dt_struct m fdt"
  define N where "N = int (align4 (length nm + 1))"
  have N: "0 \<le> N" "N mod 4 = 0" "int (length nm) + 1 \<le> N" "N + 8 < 2147483648"
    using align4_bounds [of "length nm + 1"] nm(2) unfolding N_def by presburger+
  have NT: "FDT_TAGALIGN (int (length nm) + 1) = N" using FDT_TAGALIGN_nat [of "length nm + 1"] by (simp add: N_def add.commute)
  have dB: "drop (nat body) (blk m fdt 0) = blk m fdt body" "drop (nat w) (blk m fdt 0) = blk m fdt w"
    using b0 by (simp_all add: drop_blk w_def)
  have w: "0 \<le> w" "w \<le> fdt_size_dt_struct m fdt" "parent < w"
    using b0 nd(3,4) reaches_le [OF sk(2)] by (auto simp: w_def)
  have rw: "reaches (blk m fdt 0) (nat w) (pre @ Begin bn # mid)"
    using reaches_trans [OF nd(1), of k mid] sk(2) b0 by (simp add: w_def dB nat_add_distrib)
  obtain m1 where sp: "fdt_splice_struct_i m fdt (S + w) 0 (N + 8) = (0, m1)" and nw: "node = w"
    and m': "m' = fdt32_st (put_bytes (memset (fdt32_st m1 (S + w) FDT_BEGIN_NODE) (S + w + 4) 0 (nat N)) (S + w + 4) nm) (S + w + (N + 8) - 4) FDT_END_NODE"
  proof -
    obtain e m1 where s: "fdt_splice_struct_i m fdt (S + w) 0 (N + 8) = (e, m1)" by fastforce
    have s8: "s32 (8 + N) = N + 8" using N by (simp add: s32_id)
    have ptr: "fdt_offset_ptr_i m fdt w = S + w" by (simp add: fdt_offset_ptr_i_def S_def)
    have e: "e = 0"
    proof (rule ccontr)
      assume ne: "e \<noteq> 0"
      then have "node = e" using r(1) t so s by (simp add: fdt_add_subnode_def fdt_add_subnode_namelen_def layout_rw_probe [OF lay]
            so_def [symmetric] Let_def sk(1) w_def [symmetric] ptr NT s8)
      moreover have "e < 0"
      proof -
        obtain e1 m2 where s1: "fdt_splice_i m fdt (S + w) 0 (N + 8) = (e1, m2)" by fastforce
        then have "e = e1" using s ne by (auto simp: fdt_splice_struct_i_def Let_def split: if_splits)
        then show ?thesis using fdt_splice_err [OF s1] ne by simp
      qed
      ultimately show False using r(2) by simp
    qed
    have "node = w" "m' = fdt32_st (put_bytes (memset (fdt32_st m1 (S + w) FDT_BEGIN_NODE) (S + w + 4) 0 (nat N)) (S + w + 4) nm) (S + w + (N + 8) - 4) FDT_END_NODE"
      using r(1) t so s e
      by (auto simp: fdt_add_subnode_def fdt_add_subnode_namelen_def layout_rw_probe [OF lay]
            so_def [symmetric] Let_def sk(1) w_def [symmetric] ptr NT s8)
    then show ?thesis using that [of m1] s e by simp
  qed
  have un0: "unchanged_outside (S + w) (S + w + (N + 8)) m1 m'"
    unfolding m' memset_fill using N by (auto simp: unchanged_outside_def fdt32_st_def put_bytes_def)
  have N8: "0 \<le> N + 8" "w + 0 \<le> fdt_size_dt_struct m fdt" using N w by simp_all
  note sb = fdt_splice_struct_blk [OF lay w(1) order_refl order_refl N8(2,1) N(4) sp [unfolded S_def] un0 [unfolded S_def], folded S_def]
  have X: "nat (w - w + (N + 8)) = (4 + align4 (length nm + 1)) + 4" using N by (simp add: N_def nat_add_distrib)
  have b1: "fdt32_ld m' (S + w) = FDT_BEGIN_NODE"
  proof -
    have "fdt32_ld m' (S + w) = fdt32_ld (fdt32_st m1 (S + w) FDT_BEGIN_NODE) (S + w)"
      unfolding m' memset_fill using N by (intro fdt32_ld_cong) (auto simp: fdt32_st_outside put_bytes_outside)
    then show ?thesis by (simp add: u32_def)
  qed
  have b2: "bytes_at m' (S + w + 4) (length nm + 1) = nm @ [0]"
  proof (rule nth_equalityI, simp)
    fix i assume "i < length (bytes_at m' (S + w + 4) (length nm + 1))"
    then have i: "i \<le> length nm" by simp
    have "m' (S + w + 4 + int i) = put_bytes (memset (fdt32_st m1 (S + w) FDT_BEGIN_NODE) (S + w + 4) 0 (nat N)) (S + w + 4) nm (S + w + 4 + int i)"
      unfolding m' using i N by (intro fdt32_st_outside) auto
    then show "bytes_at m' (S + w + 4) (length nm + 1) ! i = (nm @ [0]) ! i"
      using i N by (auto simp: put_bytes_def memset_fill nth_append)
  qed
  have b3: "fdt32_ld m' (S + w + int (4 + align4 (length nm + 1))) = FDT_END_NODE"
    by (simp add: m' N_def u32_def algebra_simps)
  have nz: "0 \<notin> set nm" using nm(1) by (simp add: is_cstr_def)
  have it: "items (bytes_at m' (S + w) ((4 + align4 (length nm + 1)) + 4) @ R) = Begin nm # Endnode # items R" for R
    unfolding bytes_at_add [of m' "S + w" "4 + align4 (length nm + 1)" 4] append_assoc
    using items_unfold [OF item_at_begin [OF b1 b2 nz]] items_unfold [OF item_at_endnode [OF b3]] by simp
  note ri = rewrite_items [OF rw sb(5) [unfolded X]]
  define R where "R = items (blk m fdt w)"
  have R: "R = [] \<or> \<not> prop_or_nop (hd R)" using sk(4) by (simp add: R_def w_def)
  have iB: "items (blk m fdt 0) = pre @ Begin bn # mid @ R" using ri(2) by (simp add: R_def dB)
  have iB': "items (blk m' fdt 0) = pre @ Begin bn # mid @ Begin nm # Endnode # R" using ri(1) it by (simp add: R_def dB)
  show "sound m' fdt" using sb(1,2,4) s4 N nmd unfolding sound_def iB iB' by simp presburger
  have "map (map_item (name_at (strs m fdt))) (mid @ Begin nm # Endnode # R) = aadd_child nm (map (map_item (name_at (strs m fdt))) (mid @ R))"
  proof -
    have l: "list_all prop_or_nop (map (map_item (name_at (strs m fdt))) mid)" using sk(3) by (simp add: list.pred_map comp_def)
    have h: "map (map_item (name_at (strs m fdt))) R = [] \<or> \<not> prop_or_nop (hd (map (map_item (name_at (strs m fdt))) R))"
      using R by (cases R) auto
    show ?thesis by (simp add: aadd_child_passed [OF l h])
  qed
  then show "view m' fdt 0 = under j (aadd_child nm) (view m fdt 0)"
    using nd(2) sb(2) by (simp add: view_def iB iB' under_append)
  show nix: "n \<le> node \<Longrightarrow> node_index m fdt n = Some i \<Longrightarrow> node_index m' fdt n = Some i" for n i
    by (rule node_index_rewrite [OF sb(5) rw]) (use nw w N sb(4) in \<open>auto simp: node_index_def split: if_splits\<close>)
  show "parent < node" using w nw by simp
  have "reaches (blk m' fdt 0) (nat node) (pre @ Begin bn # mid)"
    using ri(3) [OF rw] nw by simp
  then have "node_index m' fdt node = Some (length (pre @ Begin bn # mid))"
    using reaches_index_of w nw N sb(4) by (fastforce simp: node_index_def)
  then show "\<exists>i. node_index m' fdt node = Some i \<and> i < length (view m' fdt 0) \<and> view m' fdt 0 ! i = Begin nm"
    by (intro exI [of _ "length (pre @ Begin bn # mid)"]) (simp add: view_def iB' nth_append)
qed

section \<open>Deleting a node\<close>

text \<open>The items of item number \<open>j\<close>, a head of a node, up to its end taken out.\<close>

definition adel_node :: "nat \<Rightarrow> tree_items \<Rightarrow> tree_items" where
  "adel_node j its = take j its @ (case aend 0 (drop (Suc j) its) of None \<Rightarrow> [] | Some rest \<Rightarrow> rest)"

lemma aend_map: "aend d (map (map_item f) its) = map_option (map (map_item f)) (aend d its)"
  by (induction d its rule: aend.induct) (auto split: nat.splits)

lemma node_end_items:
  assumes lay: "layout m fdt" and s4: "fdt_size_dt_struct m fdt mod 4 = 0"
  shows "0 \<le> off \<Longrightarrow> off mod 4 = 0 \<Longrightarrow> off < 2147483648 \<Longrightarrow>
    (case fdt_next_node_loop m fdt off (Some (int d)) of (o', d') \<Rightarrow> node_end_loop m fdt o' (the d')) = e \<Longrightarrow> 0 \<le> e \<Longrightarrow>
    \<exists>k its. e = off + int k \<and> reaches (blk m fdt off) k its \<and> (\<forall>rest. aend d (its @ rest) = Some rest)"
proof (induction "nat (2147483648 - off)" arbitrary: off d rule: less_induct)
  case less
  obtain tag nxt where t: "fdt_next_tag m fdt off = (tag, nxt)" by fastforce
  note nt = fdt_next_tag_items [OF lay less.prems(1-3)]
  note nl = fdt_next_node_loop.simps [of m fdt off "Some (int d)"]
  show ?case
  proof (cases "item_at (blk m fdt off)")
    case None
    then have "tag = FDT_END" using nt t by simp
    then have "\<exists>o' d'. fdt_next_node_loop m fdt off (Some (int d)) = (o', Some d') \<and> o' < 0"
      using nl t by (auto split: if_splits)
    then show ?thesis using less.prems(4,5) by (auto simp: node_end_loop.simps)
  next
    case (Some p)
    obtain it n where it: "item_at (blk m fdt off) = Some (it, n)" using Some by (cases p) auto
    have n: "tag = tag_of it" "nxt = off + int n" "off + int n < 2147483648" "off + int n \<le> fdt_size_dt_struct m fdt + 3"
      using nt it t by simp_all
    have n4: "4 \<le> n" "n mod 4 = 0" using item_at_pos [OF it] by simp_all
    have o4: "(off + int n) mod 4 = 0" using less.prems(2) n4(2) by presburger
    have le: "off + int n \<le> fdt_size_dt_struct m fdt" by (rule align4_down [OF n(4) o4 s4])
    have rest: "\<exists>k its. e = off + int k \<and> reaches (blk m fdt off) k its \<and> (\<forall>rest. aend d (its @ rest) = Some rest)"
      if st: "(case fdt_next_node_loop m fdt (off + int n) (Some (int d1)) of (o', d') \<Rightarrow> node_end_loop m fdt o' (the d')) = e"
        and ae: "\<And>xs. aend d (it # xs) = aend d1 xs" for d1
    proof -
      obtain k its where k: "e = off + int n + int k" "reaches (blk m fdt (off + int n)) k its" "\<forall>rest. aend d1 (its @ rest) = Some rest"
        using less.hyps [of "off + int n" d1, OF _ _ o4 n(3) st less.prems(5)] less.prems(1) n n4 by auto
      have "reaches (blk m fdt off) (n + k) (it # its)"
        using reaches.step [OF it, of k its] k(2) le less.prems(1) by (simp add: drop_blk)
      then show ?thesis using k(1,3) ae by (intro exI [of _ "n + k"] exI [of _ "it # its"]) simp
    qed
    show ?thesis
    proof (cases it)
      case (Begin nm)
      then have l: "fdt_next_node_loop m fdt off (Some (int d)) = (off, Some (int d + 1))" using nl t n(1) by simp
      have c: "fdt_check_node_offset_i m fdt off = off + int n"
        using less.prems(1,2) t n Begin by (simp add: fdt_check_node_offset_i_def)
      have nn: "fdt_next_node m fdt off (Some (int d + 1)) = fdt_next_node_loop m fdt (off + int n) (Some (int (Suc d)))"
        using less.prems(1) c by (simp add: fdt_next_node_def Let_def add.commute)
      have "node_end_loop m fdt off (int d + 1) = (case fdt_next_node_loop m fdt (off + int n) (Some (int (Suc d))) of (o', d') \<Rightarrow> node_end_loop m fdt o' (the d'))"
        using less.prems(1) by (simp add: node_end_loop.simps [of m fdt off] nn)
      then show ?thesis using less.prems(4) l Begin by (intro rest [of "Suc d"]) simp_all
    next
      case Endnode
      show ?thesis
      proof (cases d)
        case 0
        then have "fdt_next_node_loop m fdt off (Some (int d)) = (off + int n, Some (- 1))" using nl t n Endnode by simp
        then have "e = off + int n" using less.prems(4) by (simp add: node_end_loop.simps)
        moreover have "reaches (blk m fdt off) (n + 0) [it]"
          using reaches.step [OF it, of 0 "[]"] reaches.here le less.prems(1) by simp
        ultimately show ?thesis using 0 Endnode by (intro exI [of _ n] exI [of _ "[it]"]) simp
      next
        case (Suc d1)
        then have "fdt_next_node_loop m fdt off (Some (int d)) = fdt_next_node_loop m fdt (off + int n) (Some (int d1))"
          using nl t n Endnode by simp
        then show ?thesis using less.prems(4) Suc Endnode by (intro rest [of d1]) simp_all
      qed
    next
      case (Property so v)
      then have "fdt_next_node_loop m fdt off (Some (int d)) = fdt_next_node_loop m fdt (off + int n) (Some (int d))"
        using nl t n by simp
      then show ?thesis using less.prems(4) Property by (intro rest [of d]) simp_all
    next
      case Nop
      then have "fdt_next_node_loop m fdt off (Some (int d)) = fdt_next_node_loop m fdt (off + int n) (Some (int d))"
        using nl t n by simp
      then show ?thesis using less.prems(4) Nop by (intro rest [of d]) simp_all
    qed
  qed
qed

lemma fdt_del_node_view:
  assumes snd: "sound m fdt" and ix: "node_index m fdt node = Some j" and r: "fdt_del_node m fdt node = (0, m')"
  shows "sound m' fdt" "view m' fdt 0 = adel_node j (view m fdt 0)"
    "n < node \<Longrightarrow> node_index m fdt n = Some i \<Longrightarrow> node_index m' fdt n = Some i"
    "\<exists>bn. j < length (view m fdt 0) \<and> view m fdt 0 ! j = Begin bn"
proof -
  have lay: "layout m fdt" and s4: "fdt_size_dt_struct m fdt mod 4 = 0"
    and nmd: "named (strs m fdt) (items (blk m fdt 0))" using snd by (simp_all add: sound_def)
  have nl: "node < 2147483648" by (rule node_index_lt [OF lay ix])
  define e where "e = fdt_node_end_offset_i m fdt node"
  have e0: "0 \<le> e" and sp0: "fdt_splice_struct_i m fdt (fdt_offset_ptr_i m fdt node) (e - node) 0 = (0, m')"
    using r by (auto simp: fdt_del_node_def layout_rw_probe [OF lay] e_def Let_def split: if_splits)
  have n0: "0 \<le> node" using ix by (simp add: node_index_def split: if_splits)
  define body where "body = fdt_check_node_offset_i m fdt node"
  have c: "0 \<le> body"
  proof (rule ccontr)
    assume "\<not> 0 \<le> body"
    then have "fdt_next_node m fdt node (Some 0) = (body, Some 0)" using n0 by (simp add: fdt_next_node_def body_def Let_def)
    then have "e = body" using n0 \<open>\<not> 0 \<le> body\<close>
      by (simp add: e_def fdt_node_end_offset_i_def node_end_loop.simps [of m fdt node] node_end_loop.simps [of m fdt body])
    then show False using e0 \<open>\<not> 0 \<le> body\<close> by simp
  qed
  obtain pre bn where nd: "reaches (blk m fdt 0) (nat node) pre" "length pre = j" "reaches (blk m fdt 0) (nat body) (pre @ [Begin bn])"
    "node + 4 \<le> body" "body \<le> fdt_size_dt_struct m fdt" "body mod 4 = 0" "body < 2147483648"
    by (rule node_located [OF snd ix c [unfolded body_def]]) (auto simp: body_def)
  have nn: "fdt_next_node m fdt node (Some 0) = fdt_next_node_loop m fdt body (Some (int 0))"
    using n0 c by (simp add: fdt_next_node_def body_def [symmetric] Let_def)
  have "(case fdt_next_node_loop m fdt body (Some (int 0)) of (o', d') \<Rightarrow> node_end_loop m fdt o' (the d')) = e"
    using n0 nn by (simp add: e_def fdt_node_end_offset_i_def node_end_loop.simps [of m fdt node])
  from node_end_items [OF lay s4 c nd(6,7) this e0]
  obtain k its where k: "e = body + int k" "reaches (blk m fdt body) k its" "\<And>rest. aend 0 (its @ rest) = Some rest" by blast
  have dB: "drop (nat body) (blk m fdt 0) = blk m fdt body" using c by (simp add: drop_blk)
  have re: "reaches (blk m fdt 0) (nat e) (pre @ Begin bn # its)"
    using reaches_trans [OF nd(3), of k its] k(1,2) c by (simp add: dB nat_add_distrib)
  have el: "e \<le> fdt_size_dt_struct m fdt" "(e - node) mod 4 = 0" "node < e"
  proof -
    have "nat e \<le> length (blk m fdt 0)" "nat e mod 4 = 0" "nat node mod 4 = 0" using reaches_le [OF re] reaches_le [OF nd(1)] by simp_all
    then have a: "nat e \<le> nat (fdt_size_dt_struct m fdt)" "nat e mod 4 = 0" "nat node mod 4 = 0" by simp_all
    have m4: "nat x mod 4 = 0 \<Longrightarrow> 0 \<le> x \<Longrightarrow> x mod 4 = 0" for x :: int using zmod_int [of "nat x" 4] by simp
    show "e \<le> fdt_size_dt_struct m fdt" using a(1) layout_lin(6) [OF lay] by (simp add: nat_le_iff)
    show "(e - node) mod 4 = 0" using m4 [OF a(2) e0] m4 [OF a(3) n0] by presburger
    show "node < e" using nd(4) k(1) by simp
  qed
  have sp: "fdt_splice_struct_i m fdt (fdt + fdt_off_dt_struct m fdt + node) (e - node) 0 = (0, m')"
    using sp0 by (simp add: fdt_offset_ptr_i_def)
  have bb: "0 \<le> e - node" "node + (e - node) \<le> fdt_size_dt_struct m fdt" using el by simp_all
  note sb = fdt_splice_struct_blk [OF lay n0 order_refl bb order_refl _ sp unchanged_outside_refl]
  have b: "blk m' fdt 0 = take (nat node) (blk m fdt 0) @ [] @ drop (nat e) (blk m fdt 0)" using sb(5) by simp
  note ri = rewrite_items [OF nd(1) b]
  have iB: "items (blk m fdt 0) = pre @ Begin bn # its @ items (drop (nat e) (blk m fdt 0))" using reaches_items [OF re] by simp
  have iB': "items (blk m' fdt 0) = pre @ items (drop (nat e) (blk m fdt 0))" using ri(1) by simp
  show "sound m' fdt" using sb(1,2,4) s4 el(2) nmd unfolding sound_def iB iB' by simp presburger
  show "view m' fdt 0 = adel_node j (view m fdt 0)"
  proof -
    have "aend 0 (map (map_item (name_at (strs m fdt))) its @ map (map_item (name_at (strs m fdt))) R) = Some (map (map_item (name_at (strs m fdt))) R)" for R
      using aend_map [of 0 "name_at (strs m fdt)" "its @ R"] k(3) [of R] by simp
    then show ?thesis using nd(2) sb(2) by (auto simp: view_def iB iB' adel_node_def)
  qed
  show "\<exists>bn. j < length (view m fdt 0) \<and> view m fdt 0 ! j = Begin bn"
    using nd(2) by (auto simp: view_def iB nth_append)
  show "n < node \<Longrightarrow> node_index m fdt n = Some i \<Longrightarrow> node_index m' fdt n = Some i"
  proof (rule node_index_rewrite [OF b nd(1)])
    assume "n < node" "node_index m fdt n = Some i"
    then show "n < fdt_size_dt_struct m' fdt" using sb(4) el by simp
  qed auto
qed

section \<open>Rewriting in place\<close>

text \<open>A change in place of the bytes from \<open>w\<close> to \<open>e\<close>.\<close>

lemma blk_patch:
  assumes lay: "layout m fdt" and w: "0 \<le> w" "w \<le> e" "e \<le> fdt_size_dt_struct m fdt"
    and un: "unchanged_outside (fdt + fdt_off_dt_struct m fdt + w) (fdt + fdt_off_dt_struct m fdt + e) m m'"
  shows "layout m' fdt" "strs m' fdt = strs m fdt" "fdt_size_dt_struct m' fdt = fdt_size_dt_struct m fdt"
    "fdt_off_dt_struct m' fdt = fdt_off_dt_struct m fdt"
    "blk m' fdt 0 = take (nat w) (blk m fdt 0) @ bytes_at m' (fdt + fdt_off_dt_struct m fdt + w) (nat (e - w)) @ drop (nat e) (blk m fdt 0)"
proof -
  note ll = layout_lin [OF lay]
  have agr: "agree fdt (fdt + SIZEOF_HEADER) m m'"
    using un w ll by (auto simp: unchanged_outside_def agree_def)
  note h = fdt_hdr_agree [OF agr, symmetric]
  show "layout m' fdt" by (rule layout_hdr [OF lay agr])
  show "fdt_size_dt_struct m' fdt = fdt_size_dt_struct m fdt" "fdt_off_dt_struct m' fdt = fdt_off_dt_struct m fdt"
    by (rule h(10), rule h(3))
  show "strs m' fdt = strs m fdt" by (rule strs_cong [OF h(4,9)], rule unchanged_outsideD [OF un], rule disjI2) (use w ll in linarith)
  define S where "S = fdt + fdt_off_dt_struct m fdt"
  define Z where "Z = fdt_size_dt_struct m fdt"
  have split: "nat Z = nat w + (nat (e - w) + nat (Z - e))" using w by (simp add: Z_def)
  have "blk m' fdt 0 = bytes_at m' S (nat w) @ bytes_at m' (S + w) (nat (e - w)) @ bytes_at m' (S + e) (nat (Z - e))"
    unfolding blk_def h S_def [symmetric] Z_def [symmetric] add_0_right diff_zero split bytes_at_add using w by simp
  moreover have "bytes_at m' S (nat w) = bytes_at m S (nat w)"
    using w by (intro bytes_at_eqI unchanged_outsideD [OF un]) (auto simp: S_def)
  moreover have "bytes_at m' (S + e) (nat (Z - e)) = bytes_at m (S + e) (nat (Z - e))"
    by (intro bytes_at_eqI unchanged_outsideD [OF un]) (auto simp: S_def)
  ultimately show "blk m' fdt 0 = take (nat w) (blk m fdt 0) @ bytes_at m' (fdt + fdt_off_dt_struct m fdt + w) (nat (e - w)) @ drop (nat e) (blk m fdt 0)"
    using w by (simp add: blk_def take_bytes_at drop_bytes_at min_def S_def Z_def nat_diff_distrib')
qed

lemma fdt_getprop_get_property:
  "16 \<le> fdt_version m fdt \<Longrightarrow> fdt_getprop m fdt node nm = (Some v, len) \<Longrightarrow>
   fdt_get_property m fdt node nm = (Some (v - 12), len)"
  by (auto simp: fdt_getprop_def fdt_getprop_namelen_def fdt_get_property_def fdt_get_property_namelen_def prop_value_def
      split: option.splits prod.splits)

lemma fdt_setprop_inplace_view:
  assumes snd: "sound m fdt" and ix: "node_index m fdt node = Some j"
    and r: "fdt_setprop_inplace m fdt node nm val = (0, m')"
  shows "sound m' fdt" "view m' fdt 0 = under j (aset nm val) (view m fdt 0)"
    "node_index m fdt n = Some i \<Longrightarrow> n \<le> node \<Longrightarrow> node_index m' fdt n = Some i"
proof -
  have lay: "layout m fdt" and s4: "fdt_size_dt_struct m fdt mod 4 = 0"
    and nmd: "named (strs m fdt) (items (blk m fdt 0))" using snd by (simp_all add: sound_def)
  have nl: "node < 2147483648" by (rule node_index_lt [OF lay ix])
  obtain v where v: "fdt_getprop m fdt node nm = (Some v, int (length val))" "m' = put_bytes m v val"
    using fdt_setprop_inplace_getprop [OF lay nl r] by blast
  have "16 \<le> fdt_version m fdt" using lay by (simp add: layout_def)
  note g = fdt_getprop_get_property [OF this v(1)]
  obtain w pre bn mid so old where e: "v - 12 = fdt + fdt_off_dt_struct m fdt + w" "int (length val) = int (length old)" "0 \<le> w" "node < w"
    "w + 12 + int (align4 (length old)) \<le> fdt_size_dt_struct m fdt"
    "reaches (blk m fdt 0) (nat w) (pre @ Begin bn # mid)" "length pre = j"
    "passed (strs m fdt) nm mid" "name_at (strs m fdt) so = Some nm"
    "items (blk m fdt 0) = pre @ Begin bn # mid @ Property so old # items (drop (nat (w + 12 + int (align4 (length old)))) (blk m fdt 0))"
    "fdt32_ld m (v - 12) = FDT_PROP" "fdt32_ld m (v - 12 + 8) = so"
    by (rule property_edit [OF snd ix g])
  have len4: "fdt32_ld m (v - 12 + 4) = int (length val)"
    by (rule fdt_get_property_layout [OF lay g nl]) simp
  define S where "S = fdt + fdt_off_dt_struct m fdt"
  have vS: "v = S + w + 12" using e(1) by (simp add: S_def)
  have al: "length val \<le> align4 (length old)" using e(2) align4_bounds(1) [of "length old"] by simp
  have un: "unchanged_outside (S + w) (S + (w + 12 + int (align4 (length old)))) m m'"
    unfolding v(2) vS using al by (intro put_bytes_unchanged) auto
  have we: "w \<le> w + 12 + int (align4 (length old))" by simp
  note bp = blk_patch [OF lay e(3) we e(5) un [unfolded S_def], folded S_def]
  have X: "nat (w + 12 + int (align4 (length old)) - w) = 12 + align4 (length val)" using e(2) by (simp add: nat_add_distrib)
  have ld: "fdt32_ld m' (S + w + i) = fdt32_ld m (S + w + i)" if "i \<le> 8" for i
    unfolding v(2) vS using that by (intro fdt32_ld_cong put_bytes_outside) auto
  have it: "items (bytes_at m' (S + w) (12 + align4 (length val)) @ R) = Property so val # items R" for R
  proof -
    have "fdt32_ld m' (S + w) = FDT_PROP" "fdt32_ld m' (S + w + 4) = int (length val)" "fdt32_ld m' (S + w + 8) = so"
      using ld [of 0] ld [of 4] ld [of 8] e(1,11,12) len4 by (simp_all add: S_def)
    moreover have "bytes_at m' (S + w + 12) (length val) = val" by (simp add: v(2) vS)
    ultimately show ?thesis using items_property [of m' "S + w" "length val" R] by simp
  qed
  note ri = rewrite_items [OF e(6) bp(5) [unfolded X]]
  have iB': "items (blk m' fdt 0) = pre @ Begin bn # mid @ Property so val # items (drop (nat (w + 12 + int (align4 (length old)))) (blk m fdt 0))"
    using ri(1) it by simp
  show "sound m' fdt" using bp(1,2,3) s4 nmd unfolding sound_def e(10) iB' by simp
  have "aget nm (drop (Suc j) (view m fdt 0)) \<noteq> None"
    using e(7,9) aget_passed [OF e(8), of "Property so old # items (drop (nat (w + 12 + int (align4 (length old)))) (blk m fdt 0))"]
    by (simp add: view_def e(10))
  moreover have "view m' fdt 0 = under j (areplace nm (\<lambda>_. val)) (view m fdt 0)"
    using e(7,9) bp(2) by (simp add: view_def e(10) iB' under_append areplace_passed [OF e(8,9)])
  ultimately show "view m' fdt 0 = under j (aset nm val) (view m fdt 0)" by (auto simp: under_def aset_def)
  show "node_index m fdt n = Some i \<Longrightarrow> n \<le> node \<Longrightarrow> node_index m' fdt n = Some i"
    by (rule node_index_rewrite [OF bp(5) e(6)]) (use e(3,4,5) bp(3) in auto)
qed

section \<open>Renaming a node\<close>

definition arename :: "byte list \<Rightarrow> nat \<Rightarrow> tree_items \<Rightarrow> tree_items" where
  "arename nm j its = its[j := Begin nm]"

lemma strlen_takeWhile:
  assumes l: "length (takeWhile (\<lambda>b. b \<noteq> 0) (bytes_at m p n)) < n" and lim: "p + int n \<le> ADDR_LIMIT"
  shows "strlen m p = length (takeWhile (\<lambda>b. b \<noteq> 0) (bytes_at m p n))"
proof -
  define k where "k = length (takeWhile (\<lambda>b. b \<noteq> 0) (bytes_at m p n))"
  have z: "m (p + int k) = 0" using takeWhile_bytes_at [OF l] by (simp add: k_def)
  have nz: "m (p + int i) \<noteq> 0" if "i < k" for i
  proof -
    have "takeWhile (\<lambda>b. b \<noteq> 0) (bytes_at m p n) ! i \<in> set (takeWhile (\<lambda>b. b \<noteq> 0) (bytes_at m p n))"
      using that by (intro nth_mem) (simp add: k_def)
    then have "takeWhile (\<lambda>b. b \<noteq> 0) (bytes_at m p n) ! i \<noteq> 0" by (auto dest: set_takeWhileD)
    moreover have "takeWhile (\<lambda>b. b \<noteq> 0) (bytes_at m p n) ! i = m (p + int i)"
      using that l by (simp add: takeWhile_nth k_def)
    ultimately show ?thesis by simp
  qed
  have "m a \<noteq> 0" if "p \<le> a" "a < p + int k" for a using nz [of "nat (a - p)"] that by simp
  then have "strlen m p = nat (p + int k - p)" using z l lim by (intro strlen_nul) (auto simp: k_def)
  then show ?thesis by (simp add: k_def)
qed

lemma fdt_set_name_view:
  assumes snd: "sound m fdt" and ix: "node_index m fdt node = Some j"
    and nm: "is_cstr nm" "int (length nm) < 1073741800" and lim: "fdt + fdt_totalsize m fdt \<le> ADDR_LIMIT"
    and r: "fdt_set_name m fdt node nm = (0, m')"
  shows "sound m' fdt" "view m' fdt 0 = arename nm j (view m fdt 0)"
    "node_index m fdt n = Some i \<Longrightarrow> n \<le> node \<Longrightarrow> node_index m' fdt n = Some i"
    "\<exists>bn. j < length (view m fdt 0) \<and> view m fdt 0 ! j = Begin bn"
proof -
  have lay: "layout m fdt" and s4: "fdt_size_dt_struct m fdt mod 4 = 0"
    and nmd: "named (strs m fdt) (items (blk m fdt 0))" using snd by (simp_all add: sound_def)
  note ll = layout_lin [OF lay]
  have nl: "node < 2147483648" by (rule node_index_lt [OF lay ix])
  have ver: "fdt_version m fdt = 17" using lay by (simp add: layout_def)
  define body where "body = fdt_check_node_offset_i m fdt node"
  define S where "S = fdt + fdt_off_dt_struct m fdt"
  define np where "np = S + (node + 4)"
  have ptr: "fdt_offset_ptr_i m fdt node + 4 = np" by (simp add: fdt_offset_ptr_i_def np_def S_def)
  have c: "0 \<le> body"
    using r layout_probe [OF lay] ll
    by (auto simp: fdt_set_name_def layout_rw_probe [OF lay] fdt_get_name_def body_def Let_def split: if_splits)
  obtain pre bn where nd: "reaches (blk m fdt 0) (nat node) pre" "length pre = j"
    "item_at (drop (nat node) (blk m fdt 0)) = Some (Begin bn, nat (body - node))"
    "reaches (blk m fdt 0) (nat body) (pre @ [Begin bn])" "0 \<le> node"
    "node + 4 \<le> body" "body \<le> fdt_size_dt_struct m fdt"
    by (rule node_located [OF snd ix c [unfolded body_def]]) (auto simp: body_def)
  have dn: "drop (nat node) (blk m fdt 0) = blk m fdt node" using nd(5) by (simp add: drop_blk)
  define Q where "Q = nat (fdt_size_dt_struct m fdt - (node + 4))"
  have it: "bn = takeWhile (\<lambda>b. b \<noteq> 0) (bytes_at m np Q)" "length bn < Q" "nat (body - node) = align4 (5 + length bn)"
  proof -
    have d4: "drop 4 (blk m fdt node) = bytes_at m np Q"
    proof -
      have "nat (fdt_size_dt_struct m fdt - node) - 4 = Q" unfolding Q_def by linarith
      then show ?thesis by (simp add: blk_def drop_bytes_at np_def S_def algebra_simps)
    qed
    show "bn = takeWhile (\<lambda>b. b \<noteq> 0) (bytes_at m np Q)" "nat (body - node) = align4 (5 + length bn)"
      using nd(3) by (auto simp: dn item_at_def d4 Let_def split: if_splits)
    moreover have "4 + length bn < length (blk m fdt node)"
      using nd(3) calculation(1) by (auto simp: dn item_at_def d4 Let_def split: if_splits)
    ultimately show "length bn < Q" using nd(5) by (simp add: Q_def)
  qed
  have sl: "strlen m np = length bn"
  proof -
    have "np + int Q \<le> ADDR_LIMIT" using lim ll nd(5,6,7) unfolding np_def S_def Q_def by linarith
    then show ?thesis using strlen_takeWhile [of m np Q] it(1,2) by simp
  qed
  define A where "A = int (align4 (length bn + 1))"
  define N where "N = int (align4 (length nm + 1))"
  have bA: "body = node + 4 + A" using it(3) nd(6) align4_plus [of 1 "length bn + 1"] by (simp add: A_def)
  have A: "0 \<le> A" "A mod 4 = 0" "int (length bn) + 1 \<le> A" "A < 2147483648"
    using align4_bounds(1,3) [of "length bn + 1"] bA nd(5,7) ll unfolding A_def by (presburger | linarith)+
  have N: "0 \<le> N" "N mod 4 = 0" "int (length nm) + 1 \<le> N" "N < 2147483648"
    using align4_bounds [of "length nm + 1"] nm(2) unfolding N_def by presburger+
  have T: "s32 (int (length bn)) = int (length bn)" "s32 (FDT_TAGALIGN (int (length bn) + 1)) = A" "s32 (FDT_TAGALIGN (int (length nm) + 1)) = N"
    using FDT_TAGALIGN_nat [of "length nm + 1"] FDT_TAGALIGN_nat [of "length bn + 1"] A N
    by (simp_all add: N_def A_def s32_id add.commute)
  have gn: "fdt_get_name m fdt node = (Some np, int (length bn))"
    using c layout_probe [OF lay] ll ver by (simp add: fdt_get_name_def body_def ptr sl T(1) Let_def)
  obtain m0 where sp: "fdt_splice_struct_i m fdt np A N = (0, m0)" and m': "m' = put_bytes m0 np (nm @ [0])"
    using r by (auto simp: fdt_set_name_def layout_rw_probe [OF lay] gn T Let_def split: prod.splits if_splits)
  have un: "unchanged_outside (S + node) (S + (node + 4) + N) m0 m'"
    unfolding m' np_def using N(3) by (intro put_bytes_unchanged) auto
  have wa: "node \<le> node + 4" "node + 4 + A \<le> fdt_size_dt_struct m fdt" using bA nd(7) by simp_all
  note sb = fdt_splice_struct_blk [OF lay nd(5) wa(1) A(1) wa(2) N(1,4) sp [unfolded np_def S_def] un [unfolded S_def], folded S_def]
  note bt = fdt_splice_struct_bytes [OF lay _ A(1) wa(2) N(1,4) sp [unfolded np_def S_def], folded S_def]
  have b1: "fdt32_ld m' (S + node) = FDT_BEGIN_NODE"
  proof -
    have "m' x = m x" if "S + node \<le> x" "x < S + node + 4" for x
    proof -
      have "m' x = m0 x" using that by (simp add: m' np_def put_bytes_outside)
      also have "\<dots> = m x" using that nd(5) ll N by (intro bt(1)) (auto simp: S_def)
      finally show ?thesis .
    qed
    then have "fdt32_ld m' (S + node) = fdt32_ld m (S + node)" by (intro fdt32_ld_cong) auto
    moreover have "rd32 (blk m fdt node) 0 = FDT_BEGIN_NODE" using nd(3) by (auto simp: dn item_at_def Let_def split: if_splits)
    ultimately show ?thesis using rd32_blk [of node 0 m fdt] nd(5,6,7) by (simp add: S_def)
  qed
  have b2: "bytes_at m' (S + node + 4) (length nm + 1) = nm @ [0]"
    using bytes_at_put_bytes_same [of m0 np "nm @ [0]"] by (simp add: m' np_def add.assoc)
  have X: "nat (node + 4 - node + N) = 4 + align4 (length nm + 1)" using N by (simp add: N_def nat_add_distrib)
  have nz: "0 \<notin> set nm" using nm(1) by (simp add: is_cstr_def)
  note ri = rewrite_items [OF nd(1) sb(5) [unfolded X]]
  have iB: "items (blk m fdt 0) = pre @ Begin bn # items (drop (nat (node + 4 + A)) (blk m fdt 0))"
    using reaches_items [OF nd(4)] by (simp add: bA)
  have iB': "items (blk m' fdt 0) = pre @ Begin nm # items (drop (nat (node + 4 + A)) (blk m fdt 0))"
    using ri(1) items_unfold [OF item_at_begin [OF b1 b2 nz]] by simp
  show "sound m' fdt" using sb(1,2,4) s4 A N nmd unfolding sound_def iB iB' by simp presburger
  show "view m' fdt 0 = arename nm j (view m fdt 0)"
    using nd(2) sb(2) by (auto simp: view_def iB iB' arename_def list_update_append)
  show "\<exists>bn. j < length (view m fdt 0) \<and> view m fdt 0 ! j = Begin bn"
    using nd(2) by (auto simp: view_def iB nth_append)
  show "node_index m fdt n = Some i \<Longrightarrow> n \<le> node \<Longrightarrow> node_index m' fdt n = Some i"
    by (rule node_index_rewrite [OF sb(5) nd(1)]) (use sb(4) A N wa nd(5) in auto)
qed

end
