(* ===== verification/Fdt_Refine.thy ===== *)
theory Fdt_Refine
  imports Fdt_Nodes
begin

text \<open>
  The editor as a refinement of operations on the tree: what a failed edit leaves, and one
  statement for all requests of \<open>Fdt_Edit\<close>.
\<close>

section \<open>A failed edit\<close>

definition same_tree :: "mem \<Rightarrow> mem \<Rightarrow> addr \<Rightarrow> bool" where
  "same_tree m m' fdt \<longleftrightarrow> layout m' fdt \<and> blk m' fdt 0 = blk m fdt 0 \<and> strs m' fdt = strs m fdt
     \<and> fdt_size_dt_struct m' fdt = fdt_size_dt_struct m fdt"

lemma same_tree_refl: "layout m fdt \<Longrightarrow> same_tree m m fdt"
  by (simp add: same_tree_def)

lemma same_tree_view:
  assumes "same_tree m m' fdt"
  shows "sound m fdt \<Longrightarrow> sound m' fdt" "view m' fdt 0 = view m fdt 0" "node_index m' fdt n = node_index m fdt n"
  using assms by (simp_all add: same_tree_def sound_def view_def node_index_def)

lemma fdt_splice_struct_err:
  assumes "fdt_splice_struct_i m fdt p a b = (err, m')" "err \<noteq> 0" shows "m' = m" "err < 0"
proof -
  obtain e m2 where s: "fdt_splice_i m fdt p a b = (e, m2)" by fastforce
  then have "err = e \<and> m' = m2" using assms by (auto simp: fdt_splice_struct_i_def Let_def split: if_splits)
  then show "m' = m" "err < 0" using fdt_splice_err [OF s] assms(2) by simp_all
qed

text \<open>What \<open>fdt_find_add_string_\<close> does to memory.\<close>

lemma fdt_find_add_string_mem:
  assumes lay: "layout m fdt" and nm: "int (length nm) < 2147483600"
    and f: "fdt_find_add_string_i m fdt nm = (so, al, m1)"
  shows "so < 0 \<or> \<not> al \<Longrightarrow> m1 = m"
    "al \<Longrightarrow> m1 = put_bytes (fdt_set_size_dt_strings m fdt (fdt_size_dt_strings m fdt + (int (length nm) + 1)))
        (fdt + fdt_off_dt_strings m fdt + fdt_size_dt_strings m fdt) (nm @ [0])"
    "al \<Longrightarrow> fdt_size_dt_strings m fdt + (int (length nm) + 1) < 4294967296"
proof -
  note ll = layout_lin [OF lay]
  define T where "T = fdt + fdt_off_dt_strings m fdt"
  define Z where "Z = fdt_size_dt_strings m fdt"
  define L where "L = int (length nm) + 1"
  have L: "0 \<le> L" "L < 2147483648" using nm by (simp_all add: L_def)
  have Z: "0 \<le> Z" "Z < 2147483648" using ll unfolding Z_def by linarith+
  have pb: "T + Z < fdt + 4294967296" "(0::int) < 2147483648" using ll unfolding T_def Z_def by linarith+
  have all: "(so < 0 \<or> \<not> al \<longrightarrow> m1 = m)
      \<and> (al \<longrightarrow> m1 = put_bytes (fdt_set_size_dt_strings m fdt (Z + L)) (T + Z) (nm @ [0]) \<and> Z + L < 4294967296)"
  proof (cases "fdt_find_string_i m T (s32 Z) nm")
    case (Some q)
    then show ?thesis using f by (auto simp: fdt_find_add_string_i_def T_def [symmetric] Z_def [symmetric] Let_def)
  next
    case None
    obtain e m2 where s: "fdt_splice_i m fdt (T + Z) 0 L = (e, m2)" by fastforce
    show ?thesis
    proof (cases "e = 0")
      case True
      then have "m2 = m" using fdt_splice_ok(5) [OF lay _ pb L] s data_size_layout [OF lay] by (simp add: T_def Z_def)
      then have "so = s32 Z" "al" "m1 = put_bytes (fdt_set_size_dt_strings m fdt (Z + L)) (T + Z) (nm @ [0])"
        using f None s True
        by (auto simp: fdt_find_add_string_i_def fdt_splice_string_i_def T_def [symmetric] Z_def [symmetric] L_def [symmetric] Let_def)
      then show ?thesis using Z L by (simp add: s32_id)
    next
      case False
      then show ?thesis using f None s fdt_splice_err [OF s]
        by (auto simp: fdt_find_add_string_i_def fdt_splice_string_i_def T_def [symmetric] Z_def [symmetric] L_def [symmetric] Let_def)
    qed
  qed
  then show "so < 0 \<or> \<not> al \<Longrightarrow> m1 = m"
    "al \<Longrightarrow> m1 = put_bytes (fdt_set_size_dt_strings m fdt (fdt_size_dt_strings m fdt + (int (length nm) + 1)))
        (fdt + fdt_off_dt_strings m fdt + fdt_size_dt_strings m fdt) (nm @ [0])"
    "al \<Longrightarrow> fdt_size_dt_strings m fdt + (int (length nm) + 1) < 4294967296"
    by (simp_all add: T_def Z_def L_def)
qed

text \<open>A string added and taken back leaves the tree as it was.\<close>

lemma del_last_string_undoes:
  assumes lay: "layout m fdt" and nm: "int (length nm) < 2147483600"
    and f: "fdt_find_add_string_i m fdt nm = (so, al, m1)"
  shows "same_tree m (if al then fdt_del_last_string_i m1 fdt nm else m1) fdt"
proof (cases al)
  case False
  then show ?thesis using fdt_find_add_string_mem(1) [OF lay nm f] same_tree_refl [OF lay] by simp
next
  case True
  note ll = layout_lin [OF lay]
  define P where "P = fdt + fdt_off_dt_strings m fdt + fdt_size_dt_strings m fdt"
  define Z where "Z = fdt_size_dt_strings m fdt"
  define L where "L = int (length nm) + 1"
  define m0 where "m0 = fdt_set_size_dt_strings m fdt (Z + L)"
  have m1: "m1 = put_bytes m0 P (nm @ [0])" and ZL: "Z + L < 4294967296"
    using fdt_find_add_string_mem(2,3) [OF lay nm f True] by (simp_all add: P_def Z_def L_def m0_def)
  have P: "fdt + 56 \<le> P" using ll unfolding P_def by linarith
  have Z: "0 \<le> Z" "0 \<le> L" by (simp_all add: Z_def L_def)
  have "agree fdt (fdt + SIZEOF_HEADER) m0 m1" using P by (auto simp: agree_def m1 put_bytes_outside)
  note h = fdt_hdr_agree [OF this, symmetric]
  define m2 where "m2 = fdt_set_size_dt_strings m1 fdt (fdt_size_dt_strings m1 fdt - L)"
  have s1: "fdt_size_dt_strings m1 fdt - L = Z" using h ZL Z by (simp add: m0_def u32_id mem_simps)
  have hd: "fdt_magic m2 fdt = fdt_magic m fdt" "fdt_totalsize m2 fdt = fdt_totalsize m fdt"
    "fdt_off_dt_struct m2 fdt = fdt_off_dt_struct m fdt" "fdt_off_dt_strings m2 fdt = fdt_off_dt_strings m fdt"
    "fdt_off_mem_rsvmap m2 fdt = fdt_off_mem_rsvmap m fdt" "fdt_version m2 fdt = fdt_version m fdt"
    "fdt_last_comp_version m2 fdt = fdt_last_comp_version m fdt" "fdt_size_dt_strings m2 fdt = Z"
    "fdt_size_dt_struct m2 fdt = fdt_size_dt_struct m fdt"
    unfolding m2_def s1 using h Z ZL by (simp_all add: m0_def u32_id mem_simps)
  have un: "m2 x = m x" if "fdt + SIZEOF_HEADER \<le> x" "x < P" for x
    using that by (simp add: m2_def m1 m0_def put_bytes_outside fdt_set_defs fdt32_st_outside)
  have "layout m2 fdt" using lay unfolding layout_def hd Z_def .
  moreover have "blk m2 fdt 0 = blk m fdt 0"
    by (rule blk_cong [OF hd(3,9)], rule un) (use ll in \<open>unfold P_def, linarith+\<close>)
  moreover have "strs m2 fdt = strs m fdt"
    by (rule strs_cong [OF hd(4) hd(8) [unfolded Z_def]], rule un) (use ll in \<open>unfold P_def, linarith+\<close>)
  ultimately have "same_tree m m2 fdt" by (simp add: same_tree_def hd)
  then show ?thesis using True by (simp add: fdt_del_last_string_i_def m2_def L_def)
qed

lemma fdt_add_property_undone:
  assumes lay: "layout m fdt" and nm: "int (length nm) < 2147483600"
    and r: "fdt_add_property_i m fdt node nm len = (err, pr, m')" "err \<noteq> 0"
  shows "same_tree m m' fdt" "err < 0"
proof -
  obtain so al m1 where f: "fdt_find_add_string_i m fdt nm = (so, al, m1)" by (rule prod_cases3)
  define q where "q = fdt_offset_ptr_i m1 fdt (fdt_check_node_offset_i m fdt node)"
  obtain e m2 where s: "fdt_splice_struct_i m1 fdt q 0 (s32 (SIZEOF_PROPERTY + FDT_TAGALIGN len)) = (e, m2)" by fastforce
  note se = fdt_splice_struct_err [OF s]
  note mm = fdt_find_add_string_mem(1) [OF lay nm f]
  have "same_tree m m' fdt \<and> err < 0"
    using r f s se mm del_last_string_undoes [OF lay nm f] same_tree_refl [OF lay]
    by (auto simp: fdt_add_property_i_def q_def Let_def split: if_splits)
  then show "same_tree m m' fdt" "err < 0" by simp_all
qed

lemma fdt_setprop_undone:
  assumes lay: "layout m fdt" and nm: "int (length nm) < 2147483600"
    and r: "fdt_setprop m fdt node nm val = (err, m')" "err \<noteq> 0"
  shows "same_tree m m' fdt" "err < 0"
proof -
  obtain e1 p1 n1 where r1: "fdt_resize_property_i m fdt node nm (int (length val)) = (e1, p1, n1)" by (rule prod_cases3)
  have n1: "e1 \<noteq> 0 \<Longrightarrow> n1 = m \<and> e1 < 0"
  proof -
    assume ne: "e1 \<noteq> 0"
    obtain pr ol where g: "fdt_get_property m fdt node nm = (pr, ol)" by fastforce
    show "n1 = m \<and> e1 < 0"
    proof (cases pr)
      case None
      then show ?thesis using r1 g ne fdt_get_property_None [of m fdt node nm] by (auto simp: fdt_resize_property_i_def)
    next
      case (Some q)
      obtain e m2 where s: "fdt_splice_struct_i m fdt (q + 12) (s32 (FDT_TAGALIGN ol)) (s32 (FDT_TAGALIGN (int (length val)))) = (e, m2)" by fastforce
      then show ?thesis using r1 g ne Some fdt_splice_struct_err [OF s] by (auto simp: fdt_resize_property_i_def split: if_splits)
    qed
  qed
  obtain e2 p2 n2 where r2: "fdt_add_property_i m fdt node nm (int (length val)) = (e2, p2, n2)" by (rule prod_cases3)
  note un = fdt_add_property_undone [OF lay nm r2]
  have "same_tree m m' fdt \<and> err < 0"
    using r r1 r2 n1 un same_tree_refl [OF lay]
    by (auto simp: fdt_setprop_def fdt_setprop_placeholder_def layout_rw_probe [OF lay] split: if_splits)
  then show "same_tree m m' fdt" "err < 0" by simp_all
qed


lemma fdt_appendprop_undone:
  assumes lay: "layout m fdt" and nm: "int (length nm) < 2147483600"
    and r: "fdt_appendprop m fdt node nm val = (err, m')" "err \<noteq> 0"
  shows "same_tree m m' fdt" "err < 0"
proof -
  obtain pr ol where g: "fdt_get_property m fdt node nm = (pr, ol)" by fastforce
  have "same_tree m m' fdt \<and> err < 0"
  proof (cases pr)
    case None
    obtain e p2 n2 where a: "fdt_add_property_i m fdt node nm (int (length val)) = (e, p2, n2)" by (rule prod_cases3)
    show ?thesis using r g a None fdt_add_property_undone [OF lay nm a]
      by (auto simp: fdt_appendprop_def layout_rw_probe [OF lay] split: if_splits)
  next
    case (Some q)
    obtain e n2 where a: "fdt_splice_struct_i m fdt (q + 12) (s32 (FDT_TAGALIGN ol)) (s32 (FDT_TAGALIGN (s32 (int (length val) + ol)))) = (e, n2)" by fastforce
    show ?thesis using r g a Some fdt_splice_struct_err [OF a] same_tree_refl [OF lay]
      by (auto simp: fdt_appendprop_def layout_rw_probe [OF lay] Let_def split: if_splits)
  qed
  then show "same_tree m m' fdt" "err < 0" by simp_all
qed

lemma fdt_delprop_undone:
  assumes lay: "layout m fdt" and r: "fdt_delprop m fdt node nm = (err, m')" "err \<noteq> 0"
  shows "m' = m" "err < 0"
proof -
  have "m' = m \<and> err < 0"
    using r fdt_get_property_None [of m fdt node nm] fdt_splice_struct_err
    by (auto simp: fdt_delprop_def layout_rw_probe [OF lay] split: prod.splits option.splits)
  then show "m' = m" "err < 0" by simp_all
qed

lemma fdt_add_subnode_undone:
  assumes lay: "layout m fdt" and r: "fdt_add_subnode m fdt parent nm = (err, m')" "err < 0" and nl: "parent < 2147483648"
  shows "m' = m"
proof (rule ccontr)
  assume ne: "m' \<noteq> m"
  obtain tag body where t: "fdt_next_tag m fdt parent = (tag, body)" by fastforce
  have tg: "tag = FDT_BEGIN_NODE"
    using r t ne by (auto simp: fdt_add_subnode_def fdt_add_subnode_namelen_def layout_rw_probe [OF lay] Let_def split: if_splits)
  have b0: "0 \<le> body"
    using fdt_next_tag_nonneg [OF t _ nl layout_placed [OF lay]] tg by simp
  have "0 \<le> skip_props m fdt body"
    using skip_props_bound [OF lay fdt_next_tag_lt [OF t] b0] b0 by linarith
  then show False using r t ne tg fdt_splice_struct_err
    by (auto simp: fdt_add_subnode_def fdt_add_subnode_namelen_def layout_rw_probe [OF lay] Let_def split: if_splits prod.splits)
qed

lemma fdt_set_name_undone:
  assumes lay: "layout m fdt" and r: "fdt_set_name m fdt node nm = (err, m')" "err \<noteq> 0"
  shows "m' = m" "err < 0"
proof -
  have "fdt_get_name m fdt node = (None, e) \<Longrightarrow> e < 0" for e
    using layout_probe [OF lay] layout_lin [OF lay]
    by (auto simp: fdt_get_name_def Let_def split: if_splits option.splits)
  then have "m' = m \<and> err < 0"
    using r fdt_splice_struct_err
    by (auto simp: fdt_set_name_def layout_rw_probe [OF lay] Let_def split: prod.splits option.splits if_splits)
  then show "m' = m" "err < 0" by simp_all
qed

lemma fdt_del_node_undone:
  assumes lay: "layout m fdt" and r: "fdt_del_node m fdt node = (err, m')" "err \<noteq> 0"
  shows "m' = m" "err < 0"
proof -
  have "m' = m \<and> err < 0"
    using r fdt_splice_struct_err
    by (auto simp: fdt_del_node_def layout_rw_probe [OF lay] Let_def split: if_splits)
  then show "m' = m" "err < 0" by simp_all
qed

lemma fdt_setprop_inplace_undone:
  assumes lay: "layout m fdt" and r: "fdt_setprop_inplace m fdt node nm val = (err, m')" "err \<noteq> 0"
  shows "m' = m" "err < 0"
proof -
  have n: "fdt_getprop m fdt node nm = (None, e) \<Longrightarrow> e < 0" for e
    using lay fdt_get_property_None [of m fdt node nm]
    by (auto simp: fdt_getprop_def fdt_getprop_namelen_def fdt_get_property_def fdt_get_property_namelen_def prop_value_def layout_def
      split: option.splits prod.splits)
  have g: "fdt_getprop_namelen m fdt node nm = fdt_getprop m fdt node nm" by (simp add: fdt_getprop_def)
  have "m' = m \<and> err < 0"
    using r n
    by (auto simp: fdt_setprop_inplace_def fdt_setprop_inplace_namelen_partial_def g split: prod.splits option.splits if_splits)
  then show "m' = m" "err < 0" by simp_all
qed

section \<open>The editor of trees\<close>

text \<open>What a request asks of the tree when its node is item number \<open>j\<close>.\<close>

fun abs_edit :: "request \<Rightarrow> nat \<Rightarrow> tree_items \<Rightarrow> tree_items" where
  "abs_edit (Setprop node nm v) j = under j (aset nm v)"
| "abs_edit (Setprop_inplace node nm v) j = under j (aset nm v)"
| "abs_edit (Appendprop node nm v) j = under j (aappend nm v)"
| "abs_edit (Delprop node nm) j = under j (adel nm)"
| "abs_edit (Add_subnode parent nm) j = under j (aadd_child nm)"
| "abs_edit (Del_node node) j = adel_node j"
| "abs_edit (Set_name node nm) j = arename nm j"

fun node_of :: "request \<Rightarrow> int" where
  "node_of (Setprop node nm v) = node"
| "node_of (Setprop_inplace node nm v) = node"
| "node_of (Appendprop node nm v) = node"
| "node_of (Delprop node nm) = node"
| "node_of (Add_subnode parent nm) = parent"
| "node_of (Del_node node) = node"
| "node_of (Set_name node nm) = node"

text \<open>Names are C strings, and nothing is as long as half of the largest \<open>int\<close>.\<close>

fun well_formed :: "request \<Rightarrow> bool" where
  "well_formed (Setprop node nm v) \<longleftrightarrow> is_cstr nm \<and> int (length nm) < 1073741800 \<and> int (length v) < 1073741800"
| "well_formed (Setprop_inplace node nm v) \<longleftrightarrow> True"
| "well_formed (Appendprop node nm v) \<longleftrightarrow> is_cstr nm \<and> int (length nm) < 1073741800 \<and> int (length v) < 1073741800"
| "well_formed (Delprop node nm) \<longleftrightarrow> True"
| "well_formed (Add_subnode parent nm) \<longleftrightarrow> is_cstr nm \<and> int (length nm) < 1073741800"
| "well_formed (Del_node node) \<longleftrightarrow> True"
| "well_formed (Set_name node nm) \<longleftrightarrow> is_cstr nm \<and> int (length nm) < 1073741800"

text \<open>The buffer lies below the top of the address space and is smaller than a gigabyte.\<close>

definition roomy :: "mem \<Rightarrow> addr \<Rightarrow> bool" where
  "roomy m fdt \<longleftrightarrow> fdt + fdt_totalsize m fdt \<le> ADDR_LIMIT \<and> fdt_totalsize m fdt < 1073741800"

lemma well_formed_ok: "well_formed a \<Longrightarrow> node_of a < 2147483648 \<Longrightarrow> request_ok a"
  by (cases a) auto

lemma roomy_struct: "layout m fdt \<Longrightarrow> roomy m fdt \<Longrightarrow> fdt_size_dt_struct m fdt < 1073741800"
  using layout_lin [of m fdt] unfolding roomy_def by linarith

lemma apply_request_done:
  assumes snd: "sound m fdt" and room: "roomy m fdt" and wf: "well_formed a"
    and ix: "node_index m fdt (node_of a) = Some j" and r: "apply_request a m fdt = (err, m')" "0 \<le> err"
  shows "sound m' fdt \<and> view m' fdt 0 = abs_edit a j (view m fdt 0)"
proof -
  have lay: "layout m fdt" using snd by (simp add: sound_def)
  note small = roomy_struct [OF lay room]
  have lim: "fdt + fdt_totalsize m fdt \<le> ADDR_LIMIT" using room by (simp add: roomy_def)
  show ?thesis
  proof (cases a)
    case (Setprop node nm v)
    then have "err = 0" using r fdt_setprop_undone(2) [OF lay, of nm node v err m'] wf by (cases "err = 0") auto
    with Setprop show ?thesis using r wf fdt_setprop_view [OF snd, of node j nm v m'] ix by simp
  next
    case (Setprop_inplace node nm v)
    then have "err = 0" using r fdt_setprop_inplace_undone(2) [OF lay, of node nm v err m'] by (cases "err = 0") auto
    with Setprop_inplace show ?thesis using r fdt_setprop_inplace_view [OF snd, of node j nm v m'] ix by simp
  next
    case (Appendprop node nm v)
    then have "err = 0" using r fdt_appendprop_undone(2) [OF lay, of nm node v err m'] wf by (cases "err = 0") auto
    with Appendprop show ?thesis using r wf fdt_appendprop_view [OF snd, of node j nm v m'] ix small by simp
  next
    case (Delprop node nm)
    then have "err = 0" using r fdt_delprop_undone(2) [OF lay, of node nm err m'] by (cases "err = 0") auto
    with Delprop show ?thesis using r fdt_delprop_view [OF snd, of node j nm m'] ix by simp
  next
    case (Add_subnode parent nm)
    then show ?thesis using r wf fdt_add_subnode_view [OF snd, of parent j nm err m'] ix by simp
  next
    case (Del_node node)
    then have "err = 0" using r fdt_del_node_undone(2) [OF lay, of node err m'] by (cases "err = 0") auto
    with Del_node show ?thesis using r fdt_del_node_view [OF snd, of node j m'] ix by simp
  next
    case (Set_name node nm)
    then have "err = 0" using r fdt_set_name_undone(2) [OF lay, of node nm err m'] by (cases "err = 0") auto
    with Set_name show ?thesis using r wf fdt_set_name_view [OF snd, of node j nm m'] ix lim by simp
  qed
qed

lemma apply_request_undone:
  assumes snd: "sound m fdt" and wf: "well_formed a"
    and ix: "node_index m fdt (node_of a) = Some j" and r: "apply_request a m fdt = (err, m')" "err < 0"
  shows "same_tree m m' fdt"
proof -
  have lay: "layout m fdt" using snd by (simp add: sound_def)
  have ne: "err \<noteq> 0" using r(2) by simp
  note refl = same_tree_refl [OF lay]
  show ?thesis
  proof (cases a)
    case (Setprop node nm v)
    then show ?thesis using r wf ne fdt_setprop_undone(1) [OF lay, of nm node v err m'] by simp
  next
    case (Setprop_inplace node nm v)
    then show ?thesis using r ne refl fdt_setprop_inplace_undone(1) [OF lay, of node nm v err m'] by simp
  next
    case (Appendprop node nm v)
    then show ?thesis using r wf ne fdt_appendprop_undone(1) [OF lay, of nm node v err m'] by simp
  next
    case (Delprop node nm)
    then show ?thesis using r ne refl fdt_delprop_undone(1) [OF lay, of node nm err m'] by simp
  next
    case (Add_subnode parent nm)
    then show ?thesis
      using r refl node_index_lt [OF lay ix] fdt_add_subnode_undone [OF lay, of parent nm err m'] by simp
  next
    case (Del_node node)
    then show ?thesis using r ne refl fdt_del_node_undone(1) [OF lay, of node err m'] by simp
  next
    case (Set_name node nm)
    then show ?thesis using r ne refl fdt_set_name_undone(1) [OF lay, of node nm err m'] by simp
  qed
qed

lemma apply_request_refines:
  assumes snd: "sound m fdt" and room: "roomy m fdt" and wf: "well_formed a"
    and ix: "node_index m fdt (node_of a) = Some j" and r: "apply_request a m fdt = (err, m')"
  shows "sound m' fdt" "roomy m' fdt"
    "view m' fdt 0 = (if 0 \<le> err then abs_edit a j (view m fdt 0) else view m fdt 0)"
proof -
  have lay: "layout m fdt" using snd by (simp add: sound_def)
  have "request_ok a" by (rule well_formed_ok [OF wf node_index_lt [OF lay ix]])
  from apply_request_keeps [OF lay this r] show "roomy m' fdt" using room by (simp add: roomy_def edit_keeps_def)
  show "sound m' fdt" "view m' fdt 0 = (if 0 \<le> err then abs_edit a j (view m fdt 0) else view m fdt 0)"
    using apply_request_done [OF snd room wf ix r] same_tree_view [OF apply_request_undone [OF snd wf ix r]] snd
    by (cases "0 \<le> err"; simp)+
qed


text \<open>A request that succeeds stands at the head of a node.\<close>

lemma head_of_node:
  assumes "sound m fdt" "node_index m fdt node = Some j" "0 \<le> fdt_check_node_offset_i m fdt node"
  shows "\<exists>nm. j < length (view m fdt 0) \<and> view m fdt 0 ! j = Begin nm"
proof -
  obtain pre bn where nd: "reaches (blk m fdt 0) (nat (fdt_check_node_offset_i m fdt node)) (pre @ [Begin bn])" "length pre = j"
    by (rule node_located [OF assms]) blast
  show ?thesis using reaches_items [OF nd(1)] nd(2) by (auto simp: view_def nth_append)
qed

lemma fdt_get_property_at_node:
  "fdt_get_property m fdt n nm = (Some q, l) \<Longrightarrow> 0 \<le> fdt_check_node_offset_i m fdt n"
  using fdt_get_property_node [of m fdt n nm] by fastforce

lemma fdt_setprop_at_node:
  assumes lay: "layout m fdt" and r: "fdt_setprop m fdt node nm v = (0, m')"
  shows "0 \<le> fdt_check_node_offset_i m fdt node"
proof -
  obtain e1 p1 n1 where r1: "fdt_resize_property_i m fdt node nm (int (length v)) = (e1, p1, n1)" by (rule prod_cases3)
  obtain pr ol where gg: "fdt_get_property m fdt node nm = (pr, ol)" by fastforce
  show ?thesis
  proof (cases pr)
    case None
    then have "e1 < 0" "n1 = m" using r1 gg fdt_get_property_None [of m fdt node nm] by (auto simp: fdt_resize_property_i_def)
    then have "\<exists>q m1. fdt_add_property_i m fdt node nm (int (length v)) = (0, q, m1)"
      using r r1 by (auto simp: fdt_setprop_def fdt_setprop_placeholder_def layout_rw_probe [OF lay] split: prod.splits if_splits)
    then show ?thesis using fdt_add_property_node by blast
  qed (use gg fdt_get_property_at_node in auto)
qed

lemma fdt_appendprop_at_node:
  assumes lay: "layout m fdt" and r: "fdt_appendprop m fdt node nm v = (0, m')"
  shows "0 \<le> fdt_check_node_offset_i m fdt node"
proof -
  obtain pr ol where gg: "fdt_get_property m fdt node nm = (pr, ol)" by fastforce
  show ?thesis
  proof (cases pr)
    case None
    then have "\<exists>q m1. fdt_add_property_i m fdt node nm (int (length v)) = (0, q, m1)"
      using r gg by (auto simp: fdt_appendprop_def layout_rw_probe [OF lay] split: prod.splits if_splits)
    then show ?thesis using fdt_add_property_node by blast
  qed (use gg fdt_get_property_at_node in auto)
qed

lemma fdt_add_subnode_at_node:
  assumes lay: "layout m fdt" and ix: "node_index m fdt parent = Some j"
    and r: "fdt_add_subnode m fdt parent nm = (e, m')" "0 \<le> e"
  shows "0 \<le> fdt_check_node_offset_i m fdt parent"
proof -
  obtain tag body where t: "fdt_next_tag m fdt parent = (tag, body)" by fastforce
  have tg: "tag = FDT_BEGIN_NODE"
    using r t by (auto simp: fdt_add_subnode_def fdt_add_subnode_namelen_def layout_rw_probe [OF lay] Let_def split: if_splits)
  have i: "index_of (blk m fdt 0) (nat parent) = Some j" "0 \<le> parent" "parent < fdt_size_dt_struct m fdt"
    using ix by (auto simp: node_index_def split: if_splits)
  then obtain pre where "reaches (blk m fdt 0) (nat parent) pre"
    using index_of_reaches nat_mono [of parent "fdt_size_dt_struct m fdt"] by fastforce
  then have "parent mod 4 = 0" using i(2) reaches_le [of "blk m fdt 0" "nat parent" pre] by presburger
  moreover have "0 \<le> body"
    using fdt_next_tag_nonneg [OF t _ _ layout_placed [OF lay]] tg node_index_lt [OF lay ix] by simp
  ultimately show ?thesis using i(2) t tg by (simp add: fdt_check_node_offset_i_def)
qed

lemma fdt_set_name_at_node:
  assumes lay: "layout m fdt" and r: "fdt_set_name m fdt node nm = (0, m')"
  shows "0 \<le> fdt_check_node_offset_i m fdt node"
  using r layout_probe [OF lay] layout_lin [OF lay]
  by (auto simp: fdt_set_name_def fdt_get_name_def layout_rw_probe [OF lay] Let_def split: prod.splits option.splits if_splits)

lemma apply_request_at_node:
  assumes snd: "sound m fdt" and ix: "node_index m fdt (node_of a) = Some j"
    and wf: "well_formed a" and r: "apply_request a m fdt = (err, m')" "0 \<le> err"
  shows "\<exists>nm. j < length (view m fdt 0) \<and> view m fdt 0 ! j = Begin nm"
proof -
  have lay: "layout m fdt" using snd by (simp add: sound_def)
  have "0 \<le> fdt_check_node_offset_i m fdt (node_of a) \<or> (\<exists>node. a = Del_node node)"
  proof (cases a)
    case (Setprop node nm v)
    with r fdt_setprop_undone(2) [OF lay, of nm node v err m'] wf fdt_setprop_at_node [OF lay, of node nm v m']
    show ?thesis by (cases "err = 0") auto
  next
    case (Setprop_inplace node nm v)
    then have "err = 0" using r fdt_setprop_inplace_undone(2) [OF lay, of node nm v err m'] by (cases "err = 0") auto
    then obtain q where "fdt_getprop m fdt node nm = (Some q, int (length v))"
      using fdt_setprop_inplace_getprop [OF lay, of node nm v m'] node_index_lt [OF lay ix] Setprop_inplace r by fastforce
    moreover have "16 \<le> fdt_version m fdt" using lay by (simp add: layout_def)
    ultimately show ?thesis
      using fdt_get_property_at_node [OF fdt_getprop_get_property] Setprop_inplace by simp
  next
    case (Appendprop node nm v)
    with r fdt_appendprop_undone(2) [OF lay, of nm node v err m'] wf fdt_appendprop_at_node [OF lay, of node nm v m']
    show ?thesis by (cases "err = 0") auto
  next
    case (Delprop node nm)
    then have "err = 0" using r fdt_delprop_undone(2) [OF lay, of node nm err m'] by (cases "err = 0") auto
    moreover obtain pr ol where gg: "fdt_get_property m fdt node nm = (pr, ol)" by fastforce
    ultimately have "pr \<noteq> None"
      using Delprop r fdt_get_property_None [of m fdt node nm] by (cases pr) (auto simp: fdt_delprop_def layout_rw_probe [OF lay])
    then show ?thesis using Delprop fdt_get_property_at_node gg by auto
  next
    case (Add_subnode parent nm)
    then show ?thesis using fdt_add_subnode_at_node [OF lay, of parent j nm err m'] ix r by simp
  next
    case (Set_name node nm)
    with r fdt_set_name_undone(2) [OF lay, of node nm err m'] fdt_set_name_at_node [OF lay, of node nm m']
    show ?thesis by (cases "err = 0") auto
  qed simp
  then show ?thesis
  proof
    assume "\<exists>node. a = Del_node node"
    then obtain node where d: "a = Del_node node" by blast
    then have "err = 0" using r fdt_del_node_undone(2) [OF lay, of node err m'] by (cases "err = 0") auto
    with d show ?thesis using r fdt_del_node_view(4) [OF snd, of node j m'] ix by simp
  qed (rule head_of_node [OF snd ix])
qed

section \<open>Nesting\<close>

text \<open>The level behind a list of items that starts at level \<open>d\<close>, unless it leaves the level it began on.\<close>

fun depth :: "nat \<Rightarrow> 'n item list \<Rightarrow> nat option" where
  "depth d [] = Some d"
| "depth d (Begin nm # its) = depth (Suc d) its"
| "depth d (Endnode # its) = (case d of 0 \<Rightarrow> None | Suc d' \<Rightarrow> depth d' its)"
| "depth d (_ # its) = depth d its"

definition nested :: "'n item list \<Rightarrow> bool" where
  "nested its \<longleftrightarrow> depth 0 its = Some 0"

lemma depth_append: "depth d (xs @ ys) = Option.bind (depth d xs) (\<lambda>d. depth d ys)"
  by (induction d xs rule: depth.induct) (auto split: nat.splits)

lemma depth_areplace: "depth d (areplace nm f its) = depth d its"
  by (induction nm f its rule: areplace.induct) auto

lemma depth_aset: "depth d (aset nm v its) = depth d its"
  and depth_aappend: "depth d (aappend nm v its) = depth d its"
  by (auto simp: aset_def aappend_def depth_areplace)

lemma depth_adel: "depth d (adel nm its) = depth d its"
  by (induction nm its rule: adel.induct) auto

lemma depth_aadd_child: "depth d (aadd_child nm its) = depth d its"
  by (induction nm its rule: aadd_child.induct) auto

lemma nested_under: "(\<And>d xs. depth d (f xs) = depth d xs) \<Longrightarrow> nested its \<Longrightarrow> nested (under j f its)"
proof -
  assume f: "\<And>d xs. depth d (f xs) = depth d xs" and n: "nested its"
  have "depth 0 (under j f its) = depth 0 (take (Suc j) its @ drop (Suc j) its)"
    unfolding under_def depth_append f ..
  then show ?thesis using n by (simp add: nested_def)
qed

lemma nested_arename:
  assumes "j < length its" "its ! j = Begin bn" "nested its" shows "nested (arename nm j its)"
proof -
  have "its = take j its @ Begin bn # drop (Suc j) its" using id_take_nth_drop [OF assms(1)] assms(2) by simp
  then have "depth 0 its = Option.bind (depth 0 (take j its)) (\<lambda>d. depth (Suc d) (drop (Suc j) its))"
    using depth_append [of 0 "take j its" "Begin bn # drop (Suc j) its"] by simp
  then show ?thesis
    using assms(1,3) by (simp add: nested_def arename_def upd_conv_take_nth_drop depth_append)
qed

lemma depth_aend: "depth (Suc (e + d)) its = Some 0 \<Longrightarrow> \<exists>rest. aend e its = Some rest \<and> depth d rest = Some 0"
  by (induction e its rule: aend.induct) (auto split: nat.splits)

lemma nested_adel_node:
  assumes "j < length its" "its ! j = Begin bn" "nested its" shows "nested (adel_node j its)"
proof -
  have "its = take j its @ Begin bn # drop (Suc j) its" using id_take_nth_drop [OF assms(1)] assms(2) by simp
  then have "depth 0 its = Option.bind (depth 0 (take j its)) (\<lambda>d. depth (Suc d) (drop (Suc j) its))"
    using depth_append [of 0 "take j its" "Begin bn # drop (Suc j) its"] by simp
  then obtain d where d: "depth 0 (take j its) = Some d" "depth (Suc (0 + d)) (drop (Suc j) its) = Some 0"
    using assms(3) by (auto simp: nested_def bind_eq_Some_conv)
  obtain rest where "aend 0 (drop (Suc j) its) = Some rest" "depth d rest = Some 0"
    using depth_aend [OF d(2)] by blast
  then show ?thesis using d(1) by (simp add: nested_def adel_node_def depth_append)
qed

lemma nested_abs_edit:
  assumes "j < length its" "its ! j = Begin bn" "nested its" shows "nested (abs_edit a j its)"
  using assms
  by (cases a) (simp_all add: nested_under depth_aset depth_aappend depth_adel depth_aadd_child nested_arename nested_adel_node)

section \<open>Scripts of edits\<close>

text \<open>
  A relation between concrete states is simulated by one between abstract ones: a step keeps what
  is good, and is either invisible or a step of the abstract relation.
\<close>

locale simulation =
  fixes good :: "'c \<Rightarrow> bool" and absf :: "'c \<Rightarrow> 'a" and step :: "'c \<Rightarrow> 'c \<Rightarrow> bool" and spec :: "'a \<Rightarrow> 'a \<Rightarrow> bool"
  assumes step_good: "good c \<Longrightarrow> step c c' \<Longrightarrow> good c'"
    and step_sim: "good c \<Longrightarrow> step c c' \<Longrightarrow> absf c' = absf c \<or> spec (absf c) (absf c')"
begin

lemma steps_sim: "step\<^sup>*\<^sup>* c c' \<Longrightarrow> good c \<Longrightarrow> good c' \<and> spec\<^sup>*\<^sup>* (absf c) (absf c')"
proof (induction rule: rtranclp_induct)
  case (step d e)
  then have d: "good d" "spec\<^sup>*\<^sup>* (absf c) (absf d)" by simp_all
  show ?case
    using step_sim [OF d(1) step.hyps(2)] step_good [OF d(1) step.hyps(2)] d(2)
    by (auto intro: rtranclp.rtrancl_into_rtrancl)
qed simp

lemma steps_invariant:
  assumes inv: "\<And>a b. P a \<Longrightarrow> spec a b \<Longrightarrow> P b" and "step\<^sup>*\<^sup>* c c'" "good c" "P (absf c)"
  shows "P (absf c')"
proof -
  have "spec\<^sup>*\<^sup>* (absf c) (absf c')" using steps_sim assms(2,3) by blast
  then show ?thesis using assms(4) by (induction rule: rtranclp_induct) (auto intro: inv)
qed

end

text \<open>One request of the script at the head of a node, with whatever result.\<close>

inductive edit_step :: "addr \<Rightarrow> mem \<Rightarrow> mem \<Rightarrow> bool" for fdt where
  request: "well_formed a \<Longrightarrow> node_index m fdt (node_of a) \<noteq> None \<Longrightarrow> apply_request a m fdt = (err, m') \<Longrightarrow>
    edit_step fdt m m'"

inductive tree_step :: "tree_items \<Rightarrow> tree_items \<Rightarrow> bool" where
  edit: "j < length t \<Longrightarrow> t ! j = Begin nm \<Longrightarrow> tree_step t (abs_edit a j t)"

inductive_cases edit_stepE: "edit_step fdt m m'"
inductive_cases tree_stepE: "tree_step t t'"

interpretation editor: simulation "\<lambda>m. sound m fdt \<and> roomy m fdt" "\<lambda>m. view m fdt 0" "edit_step fdt" tree_step for fdt
proof
  fix m m'
  assume good: "sound m fdt \<and> roomy m fdt" and step: "edit_step fdt m m'"
  from step obtain a err j where a: "well_formed a" "node_index m fdt (node_of a) = Some j" "apply_request a m fdt = (err, m')"
    by (auto elim: edit_stepE)
  note ref = apply_request_refines [OF conjunct1 [OF good] conjunct2 [OF good] a]
  show "sound m' fdt \<and> roomy m' fdt" using ref by simp
  show "view m' fdt 0 = view m fdt 0 \<or> tree_step (view m fdt 0) (view m' fdt 0)"
    using ref(3) apply_request_at_node [OF conjunct1 [OF good] a(2,1,3)] by (auto intro: tree_step.edit)
qed

lemma nested_tree_step: "nested t \<Longrightarrow> tree_step t t' \<Longrightarrow> nested t'"
  by (auto elim!: tree_stepE intro: nested_abs_edit)

lemma edits_nested:
  "(edit_step fdt)\<^sup>*\<^sup>* m m' \<Longrightarrow> sound m fdt \<Longrightarrow> roomy m fdt \<Longrightarrow> nested (view m fdt 0) \<Longrightarrow>
   sound m' fdt \<and> nested (view m' fdt 0) \<and> tree_step\<^sup>*\<^sup>* (view m fdt 0) (view m' fdt 0)"
  using editor.steps_sim [of fdt m m'] editor.steps_invariant [of nested fdt m m'] nested_tree_step by blast

section \<open>Reading back\<close>

lemma node_of_index:
  assumes snd: "sound m fdt" and ix: "node_index m fdt node = Some j"
    and b: "j < length (view m fdt 0)" "view m fdt 0 ! j = Begin nm"
  shows "0 \<le> fdt_check_node_offset_i m fdt node" "view m fdt node = drop j (view m fdt 0)"
proof -
  have lay: "layout m fdt" using snd by (simp add: sound_def)
  have n: "0 \<le> node" "index_of (blk m fdt 0) (nat node) = Some j" "node < fdt_size_dt_struct m fdt"
    using ix by (auto simp: node_index_def split: if_splits)
  then obtain pre where pre: "reaches (blk m fdt 0) (nat node) pre" "length pre = j"
    using index_of_reaches [OF n(2)] nat_mono [of node "fdt_size_dt_struct m fdt"] by auto
  have dn: "drop (nat node) (blk m fdt 0) = blk m fdt node" using n(1) by (simp add: drop_blk)
  have its: "items (blk m fdt 0) = pre @ items (blk m fdt node)" using reaches_items [OF pre(1)] dn by simp
  then show vd: "view m fdt node = drop j (view m fdt 0)" using pre(2) by (simp add: view_def)
  have "items (blk m fdt node) \<noteq> []" using b(1) pre(2) by (simp add: view_def its)
  then obtain it k where it: "item_at (blk m fdt node) = Some (it, k)"
    by (cases "item_at (blk m fdt node)") (auto simp: items.simps [of "blk m fdt node"])
  have "map_item (name_at (strs m fdt)) it = Begin nm"
    using b pre(2) by (simp add: view_def its nth_append items_unfold [OF it])
  then have tg: "tag_of it = FDT_BEGIN_NODE" by (cases it) auto
  have "nat node mod 4 = 0" using reaches_le [OF pre(1)] by simp
  then have "nat (node mod 4) = 0" using nat_mod_distrib [of node 4] n(1) by simp
  then have "node mod 4 = 0" using pos_mod_sign [of 4 node] by linarith
  moreover have "node < 2147483648" by (rule node_index_lt [OF lay ix])
  moreover note tg
  ultimately show "0 \<le> fdt_check_node_offset_i m fdt node"
    using fdt_next_tag_items [OF lay n(1), of] it n(1) by (auto simp: fdt_check_node_offset_i_def split: prod.splits)
qed

text \<open>The value \<open>fdt_getprop\<close> returns, as bytes.\<close>

definition prop_bytes :: "mem \<Rightarrow> addr \<Rightarrow> int \<Rightarrow> byte list \<Rightarrow> byte list option" where
  "prop_bytes m fdt node nm =
     (case fdt_getprop m fdt node nm of (Some v, len) \<Rightarrow> Some (bytes_at m v (nat len)) | (None, len) \<Rightarrow> None)"

lemma prop_bytes_view:
  assumes snd: "sound m fdt" and ix: "node_index m fdt node = Some j"
    and b: "j < length (view m fdt 0)" "view m fdt 0 ! j = Begin bn"
  shows "prop_bytes m fdt node nm = aget nm (drop (Suc j) (view m fdt 0))"
proof -
  have lay: "layout m fdt" using snd by (simp add: sound_def)
  note n = node_of_index [OF snd ix b]
  have "tl (view m fdt node) = drop (Suc j) (view m fdt 0)" by (simp add: n(2) drop_Suc tl_drop)
  then show ?thesis
    using fdt_getprop_view [OF lay node_index_lt [OF lay ix] n(1), of nm] by (auto simp: prop_bytes_def split: prod.splits option.splits)
qed

lemma prop_bytes_under:
  assumes "sound m fdt" "sound m' fdt" "node_index m fdt node = Some j" "node_index m' fdt node = Some j"
    and b: "j < length (view m fdt 0)" "view m fdt 0 ! j = Begin bn" and v: "view m' fdt 0 = under j f (view m fdt 0)"
  shows "prop_bytes m fdt node nm = aget nm (drop (Suc j) (view m fdt 0))"
    "prop_bytes m' fdt node nm = aget nm (f (drop (Suc j) (view m fdt 0)))"
proof -
  show "prop_bytes m fdt node nm = aget nm (drop (Suc j) (view m fdt 0))"
    by (rule prop_bytes_view [OF assms(1,3) b])
  have "j < length (view m' fdt 0)" "view m' fdt 0 ! j = Begin bn"
    using b by (simp_all add: v under_def nth_append)
  from prop_bytes_view [OF assms(2,4) this]
  show "prop_bytes m' fdt node nm = aget nm (f (drop (Suc j) (view m fdt 0)))"
    using b(1) by (simp add: v tl_drop_under)
qed

lemma fdt_setprop_getprop:
  assumes snd: "sound m fdt" and ix: "node_index m fdt node = Some j"
    and nm: "is_cstr nm" "int (length nm) < 2147483600" and len: "int (length val) < 2147483600"
    and r: "fdt_setprop m fdt node nm val = (0, m')"
  shows "prop_bytes m' fdt node nm' = (if nm' = nm then Some val else prop_bytes m fdt node nm')"
proof -
  have lay: "layout m fdt" using snd by (simp add: sound_def)
  note v = fdt_setprop_view [OF snd ix nm len r]
  obtain bn where b: "j < length (view m fdt 0)" "view m fdt 0 ! j = Begin bn"
    using head_of_node [OF snd ix fdt_setprop_at_node [OF lay r]] by blast
  note p = prop_bytes_under [OF snd v(1) ix v(3) [OF order_refl ix] b v(2)]
  show ?thesis unfolding p by simp
qed

lemma fdt_delprop_getprop:
  assumes snd: "sound m fdt" and ix: "node_index m fdt node = Some j" and r: "fdt_delprop m fdt node nm = (0, m')"
    and "nm' \<noteq> nm"
  shows "prop_bytes m' fdt node nm' = prop_bytes m fdt node nm'"
proof -
  have lay: "layout m fdt" using snd by (simp add: sound_def)
  note v = fdt_delprop_view [OF snd ix r]
  obtain pr ol where gg: "fdt_get_property m fdt node nm = (pr, ol)" by fastforce
  then have "pr \<noteq> None"
    using r fdt_get_property_None [of m fdt node nm] by (cases pr) (auto simp: fdt_delprop_def layout_rw_probe [OF lay])
  then have "0 \<le> fdt_check_node_offset_i m fdt node" using gg fdt_get_property_at_node by auto
  then obtain bn where b: "j < length (view m fdt 0)" "view m fdt 0 ! j = Begin bn"
    using head_of_node [OF snd ix] by blast
  note p = prop_bytes_under [OF snd v(1) ix v(3) [OF order_refl ix] b v(2)]
  show ?thesis unfolding p using assms(4) by (simp add: aget_adel_other)
qed
end
