(* ===== verification/Tree_Properties.thy ===== *)
theory Tree_Properties
  imports Fdt_Refine Demo_Tree
begin

text \<open>
  The properties of the tree editor on the list of items, and the concrete tree they are applied to.
\<close>

section \<open>The demo tree as a list of items\<close>

lemma demo_blk: "blk demo demo_addr 0 = demo_struct" by code_simp
lemma demo_strs: "strs demo demo_addr = str ''reg'' @ [0]" by code_simp

lemma demo_items:
  "items demo_struct = [Begin [], Property 0 [0, 0, 0, 1], Begin (str ''cpu''), Endnode, Endnode]"
  by code_simp

lemma demo_sound: "sound demo demo_addr"
proof -
  have "name_at (str ''reg'' @ [0]) 0 \<noteq> None" by code_simp
  moreover have "layout demo demo_addr" by code_simp
  moreover have "fdt_size_dt_struct demo demo_addr mod 4 = 0" by code_simp
  ultimately show ?thesis
    unfolding sound_def named_def demo_blk demo_strs demo_items by simp
qed

lemma demo_roomy: "roomy demo demo_addr" by code_simp
lemma demo_root_index: "node_index demo demo_addr 0 = Some 0" by code_simp
lemma demo_cpu: "node_index demo demo_addr 24 = Some 2" by code_simp

lemma demo_view:
  "view demo demo_addr 0 = [Begin [], Property (Some (str ''reg'')) [0, 0, 0, 1], Begin (str ''cpu''), Endnode, Endnode]"
  unfolding view_def demo_blk demo_strs demo_items by code_simp


lemma demo_setprop: "fst (fdt_setprop demo demo_addr 24 (str ''reg'') [7]) = 0" by code_simp

definition demo_set :: mem where
  "demo_set = snd (fdt_setprop demo demo_addr 24 (str ''reg'') [7])"

lemma demo_set: "fdt_setprop demo demo_addr 24 (str ''reg'') [7] = (0, demo_set)"
  using demo_setprop by (simp add: demo_set_def prod_eq_iff)

section \<open>Properties\<close>

text \<open>
  C3: each of \<open>fdt_setprop\<close>, \<open>fdt_setprop_inplace\<close>, \<open>fdt_appendprop\<close>, \<open>fdt_delprop\<close>, \<open>fdt_add_subnode\<close>,
  \<open>fdt_del_node\<close> and \<open>fdt_set_name\<close> (the type \<open>request\<close>), with names and values of bounded length, on a
  sound tree refines one operation on its list of items, at the node the request names: a request that
  succeeds makes exactly that change, whatever bytes it moved and whatever string it added, and one
  that fails leaves the list as it was. The tree stays sound. The other edits of the library (those
  that write \<open>FDT_NOP\<close>, of reservations, of a part of a value, of the whole tree) are not requests.
\<close>

lemma edit_refines_tree:
  assumes "sound m fdt" "roomy m fdt" "well_formed a" "node_index m fdt (node_of a) = Some j"
    and "apply_request a m fdt = (err, m')"
  shows "sound m' fdt \<and> roomy m' fdt
    \<and> view m' fdt 0 = (if 0 \<le> err then abs_edit a j (view m fdt 0) else view m fdt 0)"
  using apply_request_refines [OF assms] by blast

lemma edit_refines_tree_witness:
  "sound demo_set demo_addr \<and> view demo_set demo_addr 0 =
     [Begin [], Property (Some (str ''reg'')) [0, 0, 0, 1], Begin (str ''cpu''), Property (Some (str ''reg'')) [7], Endnode, Endnode]"
proof -
  have w: "well_formed (Setprop 24 (str ''reg'') [7])" by code_simp
  have a: "apply_request (Setprop 24 (str ''reg'') [7]) demo demo_addr = (0, demo_set)" by (simp add: demo_set)
  have "abs_edit (Setprop 24 (str ''reg'') [7]) 2 (view demo demo_addr 0) =
      [Begin [], Property (Some (str ''reg'')) [0, 0, 0, 1], Begin (str ''cpu''), Property (Some (str ''reg'')) [7], Endnode, Endnode]"
    unfolding demo_view by code_simp
  then show ?thesis
    using edit_refines_tree [OF demo_sound demo_roomy w _ a] demo_cpu by simp
qed

text \<open>
  C6: whatever script of edits runs on a sound tree whose nodes are nested, and whichever of them
  fail, the nodes of the tree are nested afterwards, and its list of items comes from the first one
  by operations on nodes.
\<close>

lemma edit_scripts_keep_nesting:
  assumes "sound m fdt" "roomy m fdt" "nested (view m fdt 0)" "(edit_step fdt)\<^sup>*\<^sup>* m m'"
  shows "sound m' fdt \<and> nested (view m' fdt 0) \<and> tree_step\<^sup>*\<^sup>* (view m fdt 0) (view m' fdt 0)"
  by (rule edits_nested [OF assms(4,1-3)])

lemma edit_scripts_keep_nesting_witness:
  "nested (view (snd (fdt_del_node demo_set demo_addr 24)) demo_addr 0)"
proof -
  have w: "well_formed (Setprop 24 (str ''reg'') [7])" by code_simp
  have "edit_step demo_addr demo demo_set"
    by (rule edit_step.request [OF w, where err = 0]) (simp_all add: demo_cpu demo_set)
  moreover have "node_index demo_set demo_addr 24 = Some 2"
    using fdt_setprop_view(3) [OF demo_sound demo_cpu _ _ _ demo_set order_refl demo_cpu] by (simp add: is_cstr_def str_def)
  then have "edit_step demo_addr demo_set (snd (fdt_del_node demo_set demo_addr 24))"
    by (intro edit_step.request [where a = "Del_node 24" and err = "fst (fdt_del_node demo_set demo_addr 24)"]) simp_all
  ultimately have "(edit_step demo_addr)\<^sup>*\<^sup>* demo (snd (fdt_del_node demo_set demo_addr 24))" by simp
  moreover have "nested (view demo demo_addr 0)" unfolding demo_view by code_simp
  ultimately show ?thesis using edit_scripts_keep_nesting [OF demo_sound demo_roomy] by blast
qed

text \<open>
  C7: a property that \<open>fdt_setprop\<close> has set reads back as it was set, and every other property of
  the node reads as before.
\<close>

lemma setprop_reads_back:
  assumes "sound m fdt" "node_index m fdt node = Some j" "is_cstr nm" "int (length nm) < 2147483600"
    and "int (length val) < 2147483600" "fdt_setprop m fdt node nm val = (0, m')"
  shows "prop_bytes m' fdt node nm' = (if nm' = nm then Some val else prop_bytes m fdt node nm')"
  by (rule fdt_setprop_getprop [OF assms])

lemma setprop_reads_back_witness:
  "prop_bytes demo_set demo_addr 24 (str ''reg'') = Some [7] \<and> prop_bytes demo_set demo_addr 24 (str ''x'') = None"
proof -
  have c: "is_cstr (str ''reg'')" "int (length (str ''reg'')) < 2147483600" "int (length [7::byte]) < 2147483600"
    by (simp_all add: is_cstr_def str_def)
  have "prop_bytes demo demo_addr 24 (str ''x'') = None" "str ''x'' \<noteq> str ''reg''" by code_simp+
  then show ?thesis
    using setprop_reads_back [OF demo_sound demo_cpu c demo_set, of "str ''reg''"]
      setprop_reads_back [OF demo_sound demo_cpu c demo_set, of "str ''x''"] by simp
qed

end
