(* ===== verification/Strchr.thy ===== *)
theory Strchr
  imports Cstring
begin

text \<open>
  \<open>strchr\<close> and \<open>__strchrnul\<close> of \<open>lib/string.c\<close>: byte by byte up to an 8-aligned address, then a
  word at a time with the \<open>HASZERO\<close> test for the NUL and for the character, then byte by byte.
\<close>

unbundle bit_operations_syntax

section \<open>The code\<close>

text \<open>\<open>for (; (uintptr_t)s % __ALIGN; s++) if (!*s || *s == c) return s\<close>: \<open>Inl\<close> where it returns.\<close>

function strchrnul_align :: "mem \<Rightarrow> addr \<Rightarrow> byte \<Rightarrow> addr + addr" where
  "strchrnul_align m s c =
     (if s mod 8 \<noteq> 0 then (if m s = 0 \<or> m s = c then Inl s else strchrnul_align m (s + 1) c) else Inr s)"
  by pat_completeness auto
termination
proof (relation "measure (\<lambda>(m, s, c). nat (- s mod 8))", simp)
  fix s :: int
  assume "s mod 8 \<noteq> 0"
  then have "- (s + 1) mod 8 < - s mod 8" "0 \<le> - (s + 1) mod 8" by presburger+
  then show "((m, s + 1, c), m, s, c) \<in> measure (\<lambda>(m, s, c). nat (- s mod 8))" for m :: mem and c :: byte by simp
qed

text \<open>A string is taken to end below the top of the address space.\<close>

function strchrnul_words :: "mem \<Rightarrow> addr \<Rightarrow> 64 word \<Rightarrow> addr" where
  "strchrnul_words m w k =
     (if w < ADDR_LIMIT \<and> HASZERO (ld64le m w) = 0 \<and> HASZERO (ld64le m w XOR k) = 0
      then strchrnul_words m (w + 8) k else w)"
  by pat_completeness auto
termination by (relation "measure (\<lambda>(m, w, k). nat (ADDR_LIMIT - w))") auto

function strchrnul_bytes :: "mem \<Rightarrow> addr \<Rightarrow> byte \<Rightarrow> addr" where
  "strchrnul_bytes m s c = (if s < ADDR_LIMIT \<and> m s \<noteq> 0 \<and> m s \<noteq> c then strchrnul_bytes m (s + 1) c else s)"
  by pat_completeness auto
termination by (relation "measure (\<lambda>(m, s, c). nat (ADDR_LIMIT - s))") auto

declare strchrnul_align.simps [simp del] strchrnul_words.simps [simp del] strchrnul_bytes.simps [simp del]

definition strchrnul :: "mem \<Rightarrow> addr \<Rightarrow> byte \<Rightarrow> addr" where
  "strchrnul m s c =
     (if c = 0 then s + int (strlen m s)
      else (case strchrnul_align m s c of
              Inl s \<Rightarrow> s
            | Inr s \<Rightarrow> strchrnul_bytes m (strchrnul_words m s (ONES * ucast c)) c))"

definition strchr :: "mem \<Rightarrow> addr \<Rightarrow> byte \<Rightarrow> addr option" where
  "strchr m s c = (let r = strchrnul m s c in if m r = c then Some r else None)"

section \<open>The first occurrence\<close>

lemma strchrnul_align_skips:
  "case strchrnul_align m s c of
     Inl r \<Rightarrow> s \<le> r \<and> (m r = 0 \<or> m r = c) \<and> (\<forall>a. s \<le> a \<and> a < r \<longrightarrow> m a \<noteq> 0 \<and> m a \<noteq> c)
   | Inr r \<Rightarrow> s \<le> r \<and> (\<forall>a. s \<le> a \<and> a < r \<longrightarrow> m a \<noteq> 0 \<and> m a \<noteq> c)"
proof (induction m s c rule: strchrnul_align.induct)
  case (1 m s c)
  have step: "s \<le> a \<longleftrightarrow> a = s \<or> s + 1 \<le> a" for a by auto
  show ?case
  proof (cases "s mod 8 \<noteq> 0 \<and> \<not> (m s = 0 \<or> m s = c)")
    case True
    then show ?thesis using 1
      by (simp add: strchrnul_align.simps [of m s c] split: sum.splits) (auto simp: step)
  next
    case False
    then show ?thesis by (auto simp: strchrnul_align.simps [of m s c] split: sum.splits)
  qed
qed

lemma word_without:
  assumes "HASZERO (ld64le m w) = 0" "HASZERO (ld64le m w XOR (ONES * ucast c)) = 0" "w \<le> a" "a < w + 8"
  shows "m a \<noteq> 0 \<and> m a \<noteq> c"
proof -
  obtain i where i: "i < 8" "a = w + int i" using assms(3,4) by (metis zle_iff_zadd nat_int zless_nat_conj add_less_cancel_left of_nat_less_iff of_nat_numeral)
  have "m a \<noteq> 0"
  proof
    assume "m a = 0"
    then have "(uint (ld64le m w) div 256 ^ i) mod 256 = 0" using i by (simp add: ld64le_byte)
    with HASZERO_complete [OF i(1) this] assms(1) show False by simp
  qed
  moreover have "m a \<noteq> c"
  proof
    assume "m a = c"
    then have "(uint (ld64le m w XOR (ONES * ucast c)) div 256 ^ i) mod 256 = 0"
      using i by (intro xor_byte) (simp add: ld64le_byte ONES_byte)
    with HASZERO_complete [OF i(1) this] assms(2) show False by simp
  qed
  ultimately show ?thesis ..
qed

lemma strchrnul_words_skips:
  "w \<le> strchrnul_words m w (ONES * ucast c) \<and>
   (\<forall>a. w \<le> a \<and> a < strchrnul_words m w (ONES * ucast c) \<longrightarrow> m a \<noteq> 0 \<and> m a \<noteq> c)"
proof (induction m w "ONES * ucast c :: 64 word" rule: strchrnul_words.induct)
  case (1 m w)
  have step: "w \<le> a \<longleftrightarrow> w \<le> a \<and> a < w + 8 \<or> w + 8 \<le> a" for a by auto
  show ?case
  proof (cases "w < ADDR_LIMIT \<and> HASZERO (ld64le m w) = 0 \<and> HASZERO (ld64le m w XOR (ONES * ucast c)) = 0")
    case True
    then show ?thesis using 1 word_without [of m w c]
      by (simp add: strchrnul_words.simps [of m w]) (metis step)
  next
    case False
    then show ?thesis by (auto simp: strchrnul_words.simps [of m w])
  qed
qed

lemma strchrnul_bytes_first:
  "s \<le> q \<Longrightarrow> q < ADDR_LIMIT \<Longrightarrow> m q = 0 \<or> m q = c \<Longrightarrow> \<forall>a. s \<le> a \<and> a < q \<longrightarrow> m a \<noteq> 0 \<and> m a \<noteq> c \<Longrightarrow>
   strchrnul_bytes m s c = q"
proof (induction m s c rule: strchrnul_bytes.induct)
  case (1 m s c)
  show ?case
  proof (cases "s = q")
    case True
    then show ?thesis using "1.prems"(3) by (subst strchrnul_bytes.simps) auto
  next
    case False
    then have "s + 1 \<le> q" "s < ADDR_LIMIT \<and> m s \<noteq> 0 \<and> m s \<noteq> c" using "1.prems" by auto
    then show ?thesis using 1 by (subst strchrnul_bytes.simps) simp
  qed
qed

lemma strchrnul_first:
  assumes c: "c \<noteq> 0" and q: "s \<le> q" "q < ADDR_LIMIT" "m q = 0 \<or> m q = c"
    and no: "\<forall>a. s \<le> a \<and> a < q \<longrightarrow> m a \<noteq> 0 \<and> m a \<noteq> c"
  shows "strchrnul m s c = q"
proof (cases "strchrnul_align m s c")
  case (Inl r)
  then have "s \<le> r" "m r = 0 \<or> m r = c" "\<forall>a. s \<le> a \<and> a < r \<longrightarrow> m a \<noteq> 0 \<and> m a \<noteq> c"
    using strchrnul_align_skips [where m = m and s = s and c = c] by auto
  then have "r = q" using q no by (metis linorder_neqE)
  then show ?thesis using c Inl by (simp add: strchrnul_def)
next
  case (Inr r)
  define w where "w = strchrnul_words m r (ONES * ucast c)"
  have "s \<le> r" "\<forall>a. s \<le> a \<and> a < r \<longrightarrow> m a \<noteq> 0 \<and> m a \<noteq> c"
    using Inr strchrnul_align_skips [where m = m and s = s and c = c] by auto
  then have w: "s \<le> w" "\<forall>a. s \<le> a \<and> a < w \<longrightarrow> m a \<noteq> 0 \<and> m a \<noteq> c"
    using strchrnul_words_skips [where m = m and w = r and c = c] unfolding w_def by (fastforce, metis not_le)
  then have "w \<le> q" using q by (metis not_le)
  then have "strchrnul_bytes m w c = q" using q no w by (intro strchrnul_bytes_first) auto
  then show ?thesis using c Inr by (simp add: strchrnul_def w_def)
qed

lemma strlen_first: "strlen m s = k \<Longrightarrow> s + int k < ADDR_LIMIT \<Longrightarrow> m (s + int k) = 0 \<and> (\<forall>a. s \<le> a \<and> a < s + int k \<longrightarrow> m a \<noteq> 0)"
proof (induction m s arbitrary: k rule: strlen.induct)
  case (1 m s)
  have step: "s \<le> a \<longleftrightarrow> a = s \<or> s + 1 \<le> a" for a by auto
  show ?case
  proof (cases "s < ADDR_LIMIT \<and> m s \<noteq> 0")
    case True
    then obtain k' where k: "k = Suc k'" "strlen m (s + 1) = k'" using "1.prems"(1) by (simp add: strlen.simps [of m s])
    have "m (s + 1 + int k') = 0 \<and> (\<forall>a. s + 1 \<le> a \<and> a < s + 1 + int k' \<longrightarrow> m a \<noteq> 0)"
      using "1.IH" [OF True k(2)] "1.prems"(2) k(1) by simp
    then show ?thesis using True k(1) by (auto simp: step add.assoc)
  next
    case False
    then show ?thesis using "1.prems" by (auto simp: strlen.simps [of m s])
  qed
qed

text \<open>\<open>strchr\<close> finds the first occurrence up to and including the NUL, as \<open>memchr\<close> would.\<close>

lemma strchr_search:
  assumes "s + int (strlen m s) < ADDR_LIMIT"
  shows "strchr m s c = memchr m s c (strlen m s + 1)"
proof -
  define e where "e = s + int (strlen m s)"
  have e: "m e = 0" "\<forall>a. s \<le> a \<and> a < e \<longrightarrow> m a \<noteq> 0" "s \<le> e" "e < ADDR_LIMIT"
    using strlen_first [OF refl assms] assms by (simp_all add: e_def)
  show ?thesis
  proof (cases "memchr_bytes m s c (strlen m s + 1)")
    case None
    have no: "\<forall>a. s \<le> a \<and> a < e + 1 \<longrightarrow> m a \<noteq> c"
      using None [unfolded memchr_bytes_None] by (simp add: e_def)
    then have "c \<noteq> 0" using e(1,3) by auto
    then have "strchrnul m s c = e" using e no by (intro strchrnul_first) auto
    then show ?thesis using None no e(3) by (simp add: strchr_def memchr_search Let_def)
  next
    case (Some p)
    have p: "s \<le> p" "p < e + 1" "m p = c" "\<forall>a. s \<le> a \<and> a < p \<longrightarrow> m a \<noteq> c"
      using Some [unfolded memchr_bytes_Some] by (simp_all add: e_def)
    have "strchrnul m s c = p"
    proof (cases "c = 0")
      case True
      then have "p = e" using p e by (metis linorder_neqE not_less_iff_gr_or_eq zle_add1_eq_le order.strict_iff_order)
      then show ?thesis using True by (simp add: strchrnul_def e_def)
    next
      case False
      then show ?thesis using p e by (intro strchrnul_first) auto
    qed
    then show ?thesis using Some p(3) by (simp add: strchr_def memchr_search Let_def)
  qed
qed

end
