(* ===== verification/Fdt_Overlay.thy ===== *)
theory Fdt_Overlay
  imports Fdt_Rw Strchr
begin

text \<open>
  \<open>fdt_overlay.c\<close>: merging an overlay into a base tree. Both trees lie in one memory, at \<open>fdt\<close> and
  \<open>fdto\<close>. The steps are those of \<open>fdt_overlay_apply\<close>: shift the phandles of the overlay above those
  of the base, follow them in the references of the overlay, resolve the references to the base, merge
  the fragments, and extend the symbols of the base. A result that is an option is \<open>None\<close> where
  \<open>fdt_path_offset\<close> or \<open>fdt_get_path\<close> does not return. \<open>strtoul\<close>, which no file of the repository
  defines, is a parameter: the value it reads from a string and the number of characters it takes.
\<close>

section \<open>Targets of fragments\<close>

definition overlay_get_target_phandle :: "mem \<Rightarrow> addr \<Rightarrow> int \<Rightarrow> int" where
  "overlay_get_target_phandle m fdto fragment =
     (case fdt_getprop m fdto fragment (str ''target'') of
        (None, len) \<Rightarrow> 0
      | (Some val, len) \<Rightarrow>
          if len \<noteq> 4 \<or> fdt32_ld m val = 0xffffffff then 0xffffffff else fdt32_ld m val)"

text \<open>The result and, where it is set, \<open>*pathp\<close>.\<close>

definition fdt_overlay_target_offset :: "mem \<Rightarrow> addr \<Rightarrow> addr \<Rightarrow> int \<Rightarrow> (int \<times> addr option) option" where
  "fdt_overlay_target_offset m fdt fdto fragment_offset =
     (let phandle = overlay_get_target_phandle m fdto fragment_offset
      in if phandle = 0xffffffff then Some (- FDT_ERR_BADPHANDLE, None)
         else do {
           (ret, path, path_len) \<leftarrow>
             (if phandle = 0 then
                (case fdt_getprop m fdto fragment_offset (str ''target-path'') of
                   (Some path, path_len) \<Rightarrow>
                     do { ret \<leftarrow> fdt_path_offset m fdt (cstr m path); Some (ret, Some path, path_len) }
                 | (None, path_len) \<Rightarrow> Some (path_len, None, path_len))
              else Some (fdt_node_offset_by_phandle m fdt phandle, None, 0));
           (let ret = (if ret < 0 \<and> path_len = - FDT_ERR_NOTFOUND then - FDT_ERR_BADOVERLAY else ret)
            in Some (ret, if ret < 0 then None else path))
         })"

section \<open>Shifting the phandles of the overlay\<close>

text \<open>\<open>fdt_setprop_inplace_u32\<close> of \<open>libfdt.h\<close>.\<close>

definition fdt_setprop_inplace_u32 :: "mem \<Rightarrow> addr \<Rightarrow> int \<Rightarrow> byte list \<Rightarrow> int \<Rightarrow> int \<times> mem" where
  "fdt_setprop_inplace_u32 m fdt nodeoffset name val = fdt_setprop_inplace m fdt nodeoffset name (be32 val)"

definition overlay_phandle_add_offset :: "mem \<Rightarrow> addr \<Rightarrow> int \<Rightarrow> byte list \<Rightarrow> int \<Rightarrow> int \<times> mem" where
  "overlay_phandle_add_offset m fdt node name delta =
     (case fdt_getprop m fdt node name of
        (None, len) \<Rightarrow> (len, m)
      | (Some val, len) \<Rightarrow>
          if len \<noteq> 4 then (- FDT_ERR_BADPHANDLE, m)
          else
            (let adj_val = fdt32_ld m val
             in if u32 (adj_val + delta) < adj_val then (- FDT_ERR_NOPHANDLES, m)
                else
                  (let adj_val = u32 (adj_val + delta)
                   in if adj_val = 0xffffffff then (- FDT_ERR_NOPHANDLES, m)
                      else fdt_setprop_inplace_u32 m fdt node name adj_val)))"

text \<open>How far a walk over the children of a node can still go, and over a tree below it.\<close>

definition child_left :: "int \<Rightarrow> nat" where
  "child_left child = (if child < 0 then 0 else 2 * node_left child + 1)"

lemma fdt_next_subnode_loop_left:
  "0 \<le> fdt_next_subnode_loop m fdt off d \<Longrightarrow> node_left (fdt_next_subnode_loop m fdt off d) < node_left off"
proof (induction m fdt off d rule: fdt_next_subnode_loop.induct)
  case (1 m fdt off d)
  obtain o' d' where n: "fdt_next_node m fdt off (Some d) = (o', d')" by fastforce
  show ?case
  proof (cases d')
    case None
    then show ?thesis using "1.prems" by (simp add: fdt_next_subnode_loop.simps [of m fdt off] n)
  next
    case (Some e)
    note r = fdt_next_subnode_loop.simps [of m fdt off d, unfolded n Some prod.case option.case]
    have ge: "0 \<le> o'" "1 \<le> e" using "1.prems" unfolding r by (auto split: if_splits)
    have less: "node_left o' < node_left off" by (rule fdt_next_node_left [OF n ge(1)])
    show ?thesis
    proof (cases "e > 1")
      case True
      have "node_left (fdt_next_subnode_loop m fdt o' e) < node_left o'"
        using "1.IH" [OF n [symmetric] Some] True ge "1.prems" r by simp
      then show ?thesis using less True ge r by simp
    next
      case False
      then show ?thesis using less ge r by simp
    qed
  qed
qed

lemma child_left_first: "child_left (fdt_first_subnode m fdt node) < 2 * node_left node"
proof -
  obtain o' d' where n: "fdt_next_node m fdt node (Some 0) = (o', d')" by fastforce
  have "0 < node_left node" by (auto simp: node_left_def walk_left_def)
  then show ?thesis
    using fdt_next_node_left [OF n] by (auto simp: fdt_first_subnode_def n child_left_def)
qed

lemma child_left_next: "0 \<le> child \<Longrightarrow> child_left (fdt_next_subnode m fdt child) < child_left child"
  using fdt_next_subnode_loop_left [of m fdt child 1]
  by (auto simp: fdt_next_subnode_def child_left_def)

lemma child_left_node: "0 \<le> child \<Longrightarrow> 2 * node_left child < child_left child"
  by (simp add: child_left_def)

text \<open>\<open>fdt_for_each_subnode\<close>: the second function is the loop, from a child already reached.\<close>

function overlay_adjust_node_phandles :: "mem \<Rightarrow> addr \<Rightarrow> int \<Rightarrow> int \<Rightarrow> int \<times> mem"
  and adjust_children :: "mem \<Rightarrow> addr \<Rightarrow> int \<Rightarrow> int \<Rightarrow> int \<times> mem" where
  "overlay_adjust_node_phandles m fdto node delta =
     (case overlay_phandle_add_offset m fdto node (str ''phandle'') delta of
        (ret, m) \<Rightarrow>
          if ret \<noteq> 0 \<and> ret \<noteq> - FDT_ERR_NOTFOUND then (ret, m)
          else
            (case overlay_phandle_add_offset m fdto node (str ''linux,phandle'') delta of
               (ret, m) \<Rightarrow>
                 if ret \<noteq> 0 \<and> ret \<noteq> - FDT_ERR_NOTFOUND then (ret, m)
                 else adjust_children m fdto (fdt_first_subnode m fdto node) delta))"
| "adjust_children m fdto child delta =
     (if child < 0 then (0, m)
      else
        (case overlay_adjust_node_phandles m fdto child delta of
           (ret, m) \<Rightarrow>
             if ret \<noteq> 0 then (ret, m)
             else adjust_children m fdto (fdt_next_subnode m fdto child) delta))"
  by pat_completeness auto
termination
  by (relation "measure (case_sum (\<lambda>(m, fdto, node, delta). 2 * node_left node)
                                  (\<lambda>(m, fdto, child, delta). child_left child))")
     (auto simp: child_left_first child_left_next child_left_node)

declare overlay_adjust_node_phandles.simps [simp del] adjust_children.simps [simp del]

definition overlay_adjust_local_phandles :: "mem \<Rightarrow> addr \<Rightarrow> int \<Rightarrow> int \<times> mem" where
  "overlay_adjust_local_phandles m fdto delta = overlay_adjust_node_phandles m fdto 0 delta"

section \<open>The references within the overlay\<close>

text \<open>
  The loop \<open>for (i = 0; i < fixup_len; i++)\<close>, the argument \<open>n\<close> the iterations left. The word at
  \<open>tree_val + poffset\<close> is read before anything has compared \<open>poffset\<close> with the length of the value.
\<close>

primrec fixup_cells :: "mem \<Rightarrow> addr \<Rightarrow> int \<Rightarrow> addr \<Rightarrow> addr \<Rightarrow> addr \<Rightarrow> int \<Rightarrow> int \<Rightarrow> nat \<Rightarrow> int \<times> mem" where
  "fixup_cells m fdto tree_node name fixup_val tree_val delta i 0 = (0, m)"
| "fixup_cells m fdto tree_node name fixup_val tree_val delta i (Suc n) =
     (let poffset = fdt32_ld m (fixup_val + 4 * i);
          adj_val = u32 (fdt32_ld m (tree_val + poffset) + delta)
      in case fdt_setprop_inplace_namelen_partial m fdto tree_node (cstr m name) poffset (be32 adj_val) of
           (ret, m) \<Rightarrow>
             if ret = - FDT_ERR_NOSPACE then (- FDT_ERR_BADOVERLAY, m)
             else if ret \<noteq> 0 then (ret, m)
             else fixup_cells m fdto tree_node name fixup_val tree_val delta (i + 1) n)"

definition update_reference :: "mem \<Rightarrow> addr \<Rightarrow> int \<Rightarrow> int \<Rightarrow> int \<Rightarrow> int \<times> mem" where
  "update_reference m fdto tree_node fixup_prop delta =
     (case fdt_getprop_by_offset m fdto fixup_prop of
        (None, namep, fixup_len) \<Rightarrow> (fixup_len, m)
      | (Some fixup_val, namep, fixup_len) \<Rightarrow>
          if u64 fixup_len mod 4 \<noteq> 0 then (- FDT_ERR_BADOVERLAY, m)
          else
            (case fdt_getprop m fdto tree_node (cstr m (the namep)) of
               (None, tree_len) \<Rightarrow> (if tree_len = - FDT_ERR_NOTFOUND then - FDT_ERR_BADOVERLAY else tree_len, m)
             | (Some tree_val, tree_len) \<Rightarrow>
                 fixup_cells m fdto tree_node (the namep) fixup_val tree_val delta 0 (nat (s32 (u64 fixup_len div 4)))))"

function update_references :: "mem \<Rightarrow> addr \<Rightarrow> int \<Rightarrow> int \<Rightarrow> int \<Rightarrow> int \<times> mem" where
  "update_references m fdto tree_node fixup_prop delta =
     (if fixup_prop < 0 then (0, m)
      else
        (case update_reference m fdto tree_node fixup_prop delta of
           (ret, m) \<Rightarrow>
             if ret \<noteq> 0 then (ret, m)
             else update_references m fdto tree_node (fdt_next_property_offset m fdto fixup_prop) delta))"
  by pat_completeness auto
termination
  by (relation "measure (\<lambda>(m, fdto, tree_node, fixup_prop, delta). walk_left fixup_prop)")
     (auto intro: fdt_next_property_left)

declare update_references.simps [simp del]

text \<open>The name of a child, which is used unchecked; \<open>NULL\<close> is the address 0.\<close>

definition child_name :: "mem \<Rightarrow> addr \<Rightarrow> int \<Rightarrow> byte list" where
  "child_name m fdt node = (case fst (fdt_get_name m fdt node) of None \<Rightarrow> cstr m 0 | Some p \<Rightarrow> cstr m p)"

function overlay_update_local_node_references :: "mem \<Rightarrow> addr \<Rightarrow> int \<Rightarrow> int \<Rightarrow> int \<Rightarrow> int \<times> mem"
  and update_children :: "mem \<Rightarrow> addr \<Rightarrow> int \<Rightarrow> int \<Rightarrow> int \<Rightarrow> int \<times> mem" where
  "overlay_update_local_node_references m fdto tree_node fixup_node delta =
     (case update_references m fdto tree_node (fdt_first_property_offset m fdto fixup_node) delta of
        (ret, m) \<Rightarrow>
          if ret \<noteq> 0 then (ret, m)
          else update_children m fdto tree_node (fdt_first_subnode m fdto fixup_node) delta)"
| "update_children m fdto tree_node fixup_child delta =
     (if fixup_child < 0 then (0, m)
      else
        (let tree_child = fdt_subnode_offset m fdto tree_node (child_name m fdto fixup_child)
         in if tree_child = - FDT_ERR_NOTFOUND then (- FDT_ERR_BADOVERLAY, m)
            else if tree_child < 0 then (tree_child, m)
            else
              (case overlay_update_local_node_references m fdto tree_child fixup_child delta of
                 (ret, m) \<Rightarrow>
                   if ret \<noteq> 0 then (ret, m)
                   else update_children m fdto tree_node (fdt_next_subnode m fdto fixup_child) delta)))"
  by pat_completeness auto
termination
  by (relation "measure (case_sum (\<lambda>(m, fdto, tree_node, node, delta). 2 * node_left node)
                                  (\<lambda>(m, fdto, tree_node, child, delta). child_left child))")
     (auto simp: child_left_first child_left_next child_left_node)

declare overlay_update_local_node_references.simps [simp del] update_children.simps [simp del]

definition overlay_update_local_references :: "mem \<Rightarrow> addr \<Rightarrow> int \<Rightarrow> (int \<times> mem) option" where
  "overlay_update_local_references m fdto delta =
     do {
       fixups \<leftarrow> fdt_path_offset m fdto (str ''/__local_fixups__'');
       Some (if fixups < 0 then (if fixups = - FDT_ERR_NOTFOUND then 0 else fixups, m)
             else overlay_update_local_node_references m fdto 0 fixups delta)
     }"


section \<open>The references to the base tree\<close>

definition overlay_fixup_one_phandle ::
  "mem \<Rightarrow> addr \<Rightarrow> addr \<Rightarrow> int \<Rightarrow> byte list \<Rightarrow> byte list \<Rightarrow> int \<Rightarrow> byte list \<Rightarrow> (int \<times> mem) option" where
  "overlay_fixup_one_phandle m fdt fdto symbols_off path name poffset label =
     (if symbols_off < 0 then Some (symbols_off, m)
      else
        (case fdt_getprop m fdt symbols_off label of
           (None, prop_len) \<Rightarrow> Some (prop_len, m)
         | (Some symbol_path, prop_len) \<Rightarrow>
             do {
               symbol_off \<leftarrow> fdt_path_offset m fdt (cstr m symbol_path);
               (if symbol_off < 0 then Some (symbol_off, m)
                else
                  (let phandle = fdt_get_phandle m fdt symbol_off
                   in if phandle = 0 then Some (- FDT_ERR_NOTFOUND, m)
                      else
                        do {
                          fixup_off \<leftarrow> fdt_path_offset_namelen m fdto path;
                          Some (if fixup_off = - FDT_ERR_NOTFOUND then (- FDT_ERR_BADOVERLAY, m)
                                else if fixup_off < 0 then (fixup_off, m)
                                else fdt_setprop_inplace_namelen_partial m fdto fixup_off name (u32 poffset) (be32 phandle))
                        }))
             }))"

text \<open>
  One round of the loop of \<open>overlay_fixup_phandle\<close>, on the string at \<open>value\<close> that ends at
  \<open>fixup_end\<close>: \<open>path:name:offset\<close>.
\<close>

definition fixup_entry ::
  "(byte list \<Rightarrow> int \<Rightarrow> int \<times> nat) \<Rightarrow> mem \<Rightarrow> addr \<Rightarrow> addr \<Rightarrow> int \<Rightarrow> byte list \<Rightarrow> addr \<Rightarrow> addr \<Rightarrow> (int \<times> mem) option" where
  "fixup_entry strtoul m fdt fdto symbols_off label fixup_str fixup_end =
     (let fixup_len = fixup_end - fixup_str
      in case memchr m fixup_str 58 (nat fixup_len) of
           None \<Rightarrow> Some (- FDT_ERR_BADOVERLAY, m)
         | Some sep \<Rightarrow>
             (let path_len = sep - fixup_str;
                  name = sep + 1;
                  name_room = fixup_len - (path_len + 1)
              in if path_len = fixup_len - 1 then Some (- FDT_ERR_BADOVERLAY, m)
                 else
                   (case memchr m name 58 (nat name_room) of
                      None \<Rightarrow> Some (- FDT_ERR_BADOVERLAY, m)
                    | Some sep \<Rightarrow>
                        (let name_len = sep - name;
                             (value, taken) = strtoul (cstr m (sep + 1)) 10
                         in if name_len = 0 then Some (- FDT_ERR_BADOVERLAY, m)
                            else if m (sep + 1 + int taken) \<noteq> 0 \<or> taken = 0 then Some (- FDT_ERR_BADOVERLAY, m)
                            else overlay_fixup_one_phandle m fdt fdto symbols_off
                                   (bytes_at m fixup_str (nat path_len)) (bytes_at m name (nat name_len)) (s32 value) label))))"

function fixup_entries ::
  "(byte list \<Rightarrow> int \<Rightarrow> int \<times> nat) \<Rightarrow> mem \<Rightarrow> addr \<Rightarrow> addr \<Rightarrow> int \<Rightarrow> addr \<Rightarrow> addr \<Rightarrow> int \<Rightarrow> (int \<times> mem) option" where
  "fixup_entries strtoul m fdt fdto symbols_off label value len =
     (case memchr m value 0 (nat len) of
        None \<Rightarrow> Some (- FDT_ERR_BADOVERLAY, m)
      | Some fixup_end \<Rightarrow>
          (case fixup_entry strtoul m fdt fdto symbols_off (cstr m label) value fixup_end of
             None \<Rightarrow> None
           | Some (ret, m) \<Rightarrow>
               if ret \<noteq> 0 then Some (ret, m)
               else
                 (let len' = len - (fixup_end - value + 1)
                  in if len' > 0 then fixup_entries strtoul m fdt fdto symbols_off label (fixup_end + 1) len'
                     else Some (0, m))))"
  by pat_completeness auto
termination
  by (relation "measure (\<lambda>(strtoul, m, fdt, fdto, symbols_off, label, value, len). nat len)")
     (auto dest!: memchr_SomeD)

declare fixup_entries.simps [simp del]

definition overlay_fixup_phandle ::
  "(byte list \<Rightarrow> int \<Rightarrow> int \<times> nat) \<Rightarrow> mem \<Rightarrow> addr \<Rightarrow> addr \<Rightarrow> int \<Rightarrow> int \<Rightarrow> (int \<times> mem) option" where
  "overlay_fixup_phandle strtoul m fdt fdto symbols_off property =
     (case fdt_getprop_by_offset m fdto property of
        (None, label, len) \<Rightarrow> Some (if len = - FDT_ERR_NOTFOUND then - FDT_ERR_INTERNAL else len, m)
      | (Some value, label, len) \<Rightarrow> fixup_entries strtoul m fdt fdto symbols_off (the label) value len)"

function fixup_properties ::
  "(byte list \<Rightarrow> int \<Rightarrow> int \<times> nat) \<Rightarrow> mem \<Rightarrow> addr \<Rightarrow> addr \<Rightarrow> int \<Rightarrow> int \<Rightarrow> (int \<times> mem) option" where
  "fixup_properties strtoul m fdt fdto symbols_off property =
     (if property < 0 then Some (0, m)
      else
        (case overlay_fixup_phandle strtoul m fdt fdto symbols_off property of
           None \<Rightarrow> None
         | Some (ret, m) \<Rightarrow>
             if ret \<noteq> 0 then Some (ret, m)
             else fixup_properties strtoul m fdt fdto symbols_off (fdt_next_property_offset m fdto property)))"
  by pat_completeness auto
termination
  by (relation "measure (\<lambda>(strtoul, m, fdt, fdto, symbols_off, property). walk_left property)")
     (auto intro: fdt_next_property_left)

declare fixup_properties.simps [simp del]

definition overlay_fixup_phandles ::
  "(byte list \<Rightarrow> int \<Rightarrow> int \<times> nat) \<Rightarrow> mem \<Rightarrow> addr \<Rightarrow> addr \<Rightarrow> (int \<times> mem) option" where
  "overlay_fixup_phandles strtoul m fdt fdto =
     do {
       fixups_off \<leftarrow> fdt_path_offset m fdto (str ''/__fixups__'');
       (if fixups_off = - FDT_ERR_NOTFOUND then Some (0, m)
        else if fixups_off < 0 then Some (fixups_off, m)
        else
          do {
            symbols_off \<leftarrow> fdt_path_offset m fdt (str ''/__symbols__'');
            (if symbols_off < 0 \<and> symbols_off \<noteq> - FDT_ERR_NOTFOUND then Some (symbols_off, m)
             else fixup_properties strtoul m fdt fdto symbols_off (fdt_first_property_offset m fdto fixups_off))
          })
     }"

section \<open>Merging\<close>

text \<open>
  The property of the overlay is read before the base tree is edited: \<open>fdt_setprop\<close> gets its bytes.
  This is what the code does where the two trees do not overlap.
\<close>

function apply_properties :: "mem \<Rightarrow> addr \<Rightarrow> int \<Rightarrow> addr \<Rightarrow> int \<Rightarrow> int \<times> mem" where
  "apply_properties m fdt target fdto property =
     (if property < 0 then (0, m)
      else
        (case fdt_getprop_by_offset m fdto property of
           (prop, name, prop_len) \<Rightarrow>
             if prop_len = - FDT_ERR_NOTFOUND then (- FDT_ERR_INTERNAL, m)
             else if prop_len < 0 then (prop_len, m)
             else
               (case fdt_setprop m fdt target (cstr m (the name)) (bytes_at m (the prop) (nat prop_len)) of
                  (ret, m) \<Rightarrow>
                    if ret \<noteq> 0 then (ret, m)
                    else apply_properties m fdt target fdto (fdt_next_property_offset m fdto property))))"
  by pat_completeness auto
termination
  by (relation "measure (\<lambda>(m, fdt, target, fdto, property). walk_left property)")
     (auto intro: fdt_next_property_left)

declare apply_properties.simps [simp del]

text \<open>The node of the base tree for a child of the overlay: a new one, or the one that is there.\<close>

definition target_child :: "mem \<Rightarrow> addr \<Rightarrow> int \<Rightarrow> byte list \<Rightarrow> int \<times> mem" where
  "target_child m fdt target name =
     (case fdt_add_subnode m fdt target name of
        (nnode, m) \<Rightarrow>
          if nnode = - FDT_ERR_EXISTS then
            (let nnode = fdt_subnode_offset m fdt target name
             in (if nnode = - FDT_ERR_NOTFOUND then - FDT_ERR_INTERNAL else nnode, m))
          else (nnode, m))"

function overlay_apply_node :: "mem \<Rightarrow> addr \<Rightarrow> int \<Rightarrow> addr \<Rightarrow> int \<Rightarrow> int \<times> mem"
  and apply_children :: "mem \<Rightarrow> addr \<Rightarrow> int \<Rightarrow> addr \<Rightarrow> int \<Rightarrow> int \<times> mem" where
  "overlay_apply_node m fdt target fdto node =
     (case apply_properties m fdt target fdto (fdt_first_property_offset m fdto node) of
        (ret, m) \<Rightarrow>
          if ret \<noteq> 0 then (ret, m)
          else apply_children m fdt target fdto (fdt_first_subnode m fdto node))"
| "apply_children m fdt target fdto subnode =
     (if subnode < 0 then (0, m)
      else
        (case target_child m fdt target (child_name m fdto subnode) of
           (nnode, m) \<Rightarrow>
             if nnode < 0 then (nnode, m)
             else
               (case overlay_apply_node m fdt nnode fdto subnode of
                  (ret, m) \<Rightarrow>
                    if ret \<noteq> 0 then (ret, m)
                    else apply_children m fdt target fdto (fdt_next_subnode m fdto subnode))))"
  by pat_completeness auto
termination
  by (relation "measure (case_sum (\<lambda>(m, fdt, target, fdto, node). 2 * node_left node)
                                  (\<lambda>(m, fdt, target, fdto, child). child_left child))")
     (auto simp: child_left_first child_left_next child_left_node)

declare overlay_apply_node.simps [simp del] apply_children.simps [simp del]

text \<open>One fragment of the overlay: a fragment without \<open>__overlay__\<close> is passed over.\<close>

definition merge_fragment :: "mem \<Rightarrow> addr \<Rightarrow> addr \<Rightarrow> int \<Rightarrow> (int \<times> mem) option" where
  "merge_fragment m fdt fdto fragment =
     (let overlay = fdt_subnode_offset m fdto fragment (str ''__overlay__'')
      in if overlay = - FDT_ERR_NOTFOUND then Some (0, m)
         else if overlay < 0 then Some (overlay, m)
         else
           do {
             (target, path) \<leftarrow> fdt_overlay_target_offset m fdt fdto fragment;
             Some (if target < 0 then (target, m) else overlay_apply_node m fdt target fdto overlay)
           })"

function merge_fragments :: "mem \<Rightarrow> addr \<Rightarrow> addr \<Rightarrow> int \<Rightarrow> (int \<times> mem) option" where
  "merge_fragments m fdt fdto fragment =
     (if fragment < 0 then Some (0, m)
      else
        (case merge_fragment m fdt fdto fragment of
           None \<Rightarrow> None
         | Some (ret, m) \<Rightarrow>
             if ret \<noteq> 0 then Some (ret, m)
             else merge_fragments m fdt fdto (fdt_next_subnode m fdto fragment)))"
  by pat_completeness auto
termination
  by (relation "measure (\<lambda>(m, fdt, fdto, fragment). child_left fragment)")
     (auto simp: child_left_next)

declare merge_fragments.simps [simp del]

definition overlay_merge :: "mem \<Rightarrow> addr \<Rightarrow> addr \<Rightarrow> (int \<times> mem) option" where
  "overlay_merge m fdt fdto = merge_fragments m fdt fdto (fdt_first_subnode m fdto 0)"

section \<open>The symbols of the base tree\<close>

text \<open>\<open>for (;;)\<close> of \<open>get_path_len\<close>, with the length so far.\<close>

partial_function (option) path_len_loop :: "mem \<Rightarrow> addr \<Rightarrow> int \<Rightarrow> int \<Rightarrow> int option" where
  "path_len_loop m fdt nodeoffset len =
     (case fdt_get_name m fdt nodeoffset of
        (None, namelen) \<Rightarrow> Some namelen
      | (Some name, namelen) \<Rightarrow>
          if namelen = 0 then Some (if len = 0 then 1 else len)
          else if fdt_parent_offset m fdt nodeoffset < 0 then Some (fdt_parent_offset m fdt nodeoffset)
          else path_len_loop m fdt (fdt_parent_offset m fdt nodeoffset) (s32 (len + (namelen + 1))))"

definition get_path_len :: "mem \<Rightarrow> addr \<Rightarrow> int \<Rightarrow> int option" where
  "get_path_len m fdt nodeoffset =
     (if fdt_ro_probe_i m fdt < 0 then Some (fdt_ro_probe_i m fdt) else path_len_loop m fdt nodeoffset 0)"

text \<open>
  The symbol \<open>/fragment/__overlay__/rest\<close>: the fragment's name and the path below it, a pointer and a
  length. \<open>Inl\<close> is a result of the whole function, \<open>None\<close> inside stands for \<open>continue\<close>.
\<close>

definition symbol_path :: "mem \<Rightarrow> addr option \<Rightarrow> int \<Rightarrow> int + (byte list \<times> addr \<times> int) option" where
  "symbol_path m pathp path_len =
     (case pathp of
        None \<Rightarrow> Inl path_len
      | Some path \<Rightarrow>
          if path_len < 1 \<or> memchr m path 0 (nat path_len) \<noteq> Some (path + path_len - 1) then Inl (- FDT_ERR_BADVALUE)
          else if m path \<noteq> 47 then Inl (- FDT_ERR_BADVALUE)
          else
            (case strchr m (path + 1) 47 of
               None \<Rightarrow> Inr None
             | Some s \<Rightarrow>
                 (let e = path + path_len;
                      frag_name = bytes_at m (path + 1) (nat (s - path - 1));
                      len = 13
                  in if e - s > len \<and> bytes_at m s 13 = str ''/__overlay__/''
                     then Inr (Some (frag_name, s + len, e - (s + len) - 1))
                     else if e - s = len \<and> bytes_at m s 12 = str ''/__overlay__''
                     then Inr (Some (frag_name, s + 12, 0))
                     else Inr None)))"

text \<open>
  The new symbol, written behind \<open>fdt_setprop_placeholder\<close>: the path of the target and the path
  below it. \<open>prop\<close>, \<open>name\<close> and \<open>rel_path\<close> point into the overlay.
\<close>

definition write_symbol ::
  "mem \<Rightarrow> addr \<Rightarrow> addr \<Rightarrow> int \<Rightarrow> int \<Rightarrow> addr option \<Rightarrow> int \<Rightarrow> addr \<Rightarrow> addr \<Rightarrow> int \<Rightarrow> (int \<times> mem) option" where
  "write_symbol m fdt fdto root_sym fragment target_path len name rel_path rel_path_len =
     (case fdt_setprop_placeholder m fdt root_sym (cstr m name)
             (s32 (len + (if len > 1 then 1 else 0) + rel_path_len + 1)) of
        (ret, p, m) \<Rightarrow>
          if ret < 0 then Some (ret, m)
          else
            do {
              (target, target_path) \<leftarrow>
                (if target_path = None then fdt_overlay_target_offset m fdt fdto fragment else Some (0, target_path));
              (if target < 0 then Some (target, m)
               else
                 do {
                   (ret, m) \<leftarrow>
                     (if len > 1 then
                        (case target_path of
                           None \<Rightarrow> fdt_get_path m fdt target (the p) (s32 (len + 1))
                         | Some tp \<Rightarrow> Some (0, memcpy m (the p) tp (nat (len + 1))))
                      else Some (0, m));
                   Some (if ret < 0 then (ret, m)
                         else
                           (let len = (if len > 1 then len else len - 1);
                                m = m(the p + len := 47);
                                m = memcpy m (the p + len + 1) rel_path (nat rel_path_len);
                                m = m(the p + len + 1 + rel_path_len := 0)
                            in (0, m)))
                 })
            })"

text \<open>One symbol of the overlay; the result 0 goes on to the next.\<close>

definition update_symbol :: "mem \<Rightarrow> addr \<Rightarrow> addr \<Rightarrow> int \<Rightarrow> int \<Rightarrow> (int \<times> mem) option" where
  "update_symbol m fdt fdto root_sym prop =
     (case fdt_getprop_by_offset m fdto prop of
        (path, name, path_len) \<Rightarrow>
          (case symbol_path m path path_len of
             Inl err \<Rightarrow> Some (err, m)
           | Inr None \<Rightarrow> Some (0, m)
           | Inr (Some (frag_name, rel_path, rel_path_len)) \<Rightarrow>
               (let fragment = fdt_subnode_offset_namelen m fdto 0 frag_name
                in if fragment < 0 then Some (- FDT_ERR_BADOVERLAY, m)
                   else if fdt_subnode_offset m fdto fragment (str ''__overlay__'') < 0
                   then Some (- FDT_ERR_BADOVERLAY, m)
                   else
                     do {
                       (target, target_path) \<leftarrow> fdt_overlay_target_offset m fdt fdto fragment;
                       (if target < 0 then Some (target, m)
                        else
                          do {
                            len \<leftarrow> (case target_path of
                                     None \<Rightarrow> get_path_len m fdt target
                                   | Some tp \<Rightarrow> Some (s32 (int (strlen m tp))));
                            (if len < 0 \<and> target_path = None then Some (len, m)
                             else write_symbol m fdt fdto root_sym fragment target_path len (the name) rel_path rel_path_len)
                          })
                     })))"

function update_symbols :: "mem \<Rightarrow> addr \<Rightarrow> addr \<Rightarrow> int \<Rightarrow> int \<Rightarrow> (int \<times> mem) option" where
  "update_symbols m fdt fdto root_sym prop =
     (if prop < 0 then Some (0, m)
      else
        (case update_symbol m fdt fdto root_sym prop of
           None \<Rightarrow> None
         | Some (ret, m) \<Rightarrow>
             if ret \<noteq> 0 then Some (ret, m)
             else update_symbols m fdt fdto root_sym (fdt_next_property_offset m fdto prop)))"
  by pat_completeness auto
termination
  by (relation "measure (\<lambda>(m, fdt, fdto, root_sym, prop). walk_left prop)")
     (auto intro: fdt_next_property_left)

declare update_symbols.simps [simp del]

definition overlay_symbol_update :: "mem \<Rightarrow> addr \<Rightarrow> addr \<Rightarrow> (int \<times> mem) option" where
  "overlay_symbol_update m fdt fdto =
     (let ov_sym = fdt_subnode_offset m fdto 0 (str ''__symbols__'')
      in if ov_sym < 0 then Some (0, m)
         else
           (let root_sym = fdt_subnode_offset m fdt 0 (str ''__symbols__'');
                (root_sym, m) = (if root_sym = - FDT_ERR_NOTFOUND
                                 then fdt_add_subnode m fdt 0 (str ''__symbols__'') else (root_sym, m))
            in if root_sym < 0 then Some (root_sym, m)
               else update_symbols m fdt fdto root_sym (fdt_first_property_offset m fdto ov_sym)))"

section \<open>Applying an overlay\<close>

text \<open>The steps before the last, up to the first that fails.\<close>

definition overlay_steps :: "(byte list \<Rightarrow> int \<Rightarrow> int \<times> nat) \<Rightarrow> mem \<Rightarrow> addr \<Rightarrow> addr \<Rightarrow> (int \<times> mem) option" where
  "overlay_steps strtoul m fdt fdto =
     (case fdt_find_max_phandle m fdt of
        (ret, delta) \<Rightarrow>
          if ret \<noteq> 0 then Some (ret, m)
          else
            (case overlay_adjust_local_phandles m fdto (the delta) of
               (ret, m) \<Rightarrow>
                 if ret \<noteq> 0 then Some (ret, m)
                 else
                   do {
                     (ret, m) \<leftarrow> overlay_update_local_references m fdto (the delta);
                     (if ret \<noteq> 0 then Some (ret, m)
                      else
                        do {
                          (ret, m) \<leftarrow> overlay_fixup_phandles strtoul m fdt fdto;
                          (if ret \<noteq> 0 then Some (ret, m)
                           else
                             do {
                               (ret, m) \<leftarrow> overlay_merge m fdt fdto;
                               (if ret \<noteq> 0 then Some (ret, m) else overlay_symbol_update m fdt fdto)
                             })
                        })
                   }))"

definition fdt_overlay_apply :: "(byte list \<Rightarrow> int \<Rightarrow> int \<times> nat) \<Rightarrow> mem \<Rightarrow> addr \<Rightarrow> addr \<Rightarrow> (int \<times> mem) option" where
  "fdt_overlay_apply strtoul m fdt fdto =
     (if fdt_ro_probe_i m fdt < 0 then Some (fdt_ro_probe_i m fdt, m)
      else if fdt_ro_probe_i m fdto < 0 then Some (fdt_ro_probe_i m fdto, m)
      else
        do {
          (ret, m) \<leftarrow> overlay_steps strtoul m fdt fdto;
          Some (if ret = 0 then (0, fdt_set_magic m fdto 0xffffffff)
                else (ret, fdt_set_magic (fdt_set_magic m fdto 0xffffffff) fdt 0xffffffff))
        })"
end
