(* ===== verification/Fdt_Walk.thy ===== *)
theory Fdt_Walk
  imports Fdt_Refine
begin

text \<open>
  Walks over the nodes of a sound tree stay on its items: every offset that \<open>fdt_next_node\<close>,
  \<open>fdt_first_subnode\<close>, \<open>fdt_next_subnode\<close> and \<open>fdt_subnode_offset\<close> return is the head of a node.
\<close>

section \<open>From node to node\<close>

definition at_node :: "mem \<Rightarrow> addr \<Rightarrow> int \<Rightarrow> bool" where
  "at_node m fdt off \<longleftrightarrow> 0 \<le> off \<and> (\<exists>pre nm k. reaches (blk m fdt 0) (nat off) pre \<and> item_at (blk m fdt off) = Some (Begin nm, k))"

lemma at_node_index:
  assumes "at_node m fdt off"
  shows "\<exists>j nm. node_index m fdt off = Some j \<and> j < length (view m fdt 0) \<and> view m fdt 0 ! j = Begin nm"
proof -
  obtain pre nm k where r: "0 \<le> off" "reaches (blk m fdt 0) (nat off) pre" and it: "item_at (blk m fdt off) = Some (Begin nm, k)"
    using assms by (auto simp: at_node_def)
  have "4 \<le> length (blk m fdt off)" using item_at_pos [OF it] by simp
  then have "node_index m fdt off = Some (length pre)"
    using reaches_index_of [OF r(2)] r(1) by (simp add: node_index_def)
  moreover have "items (blk m fdt 0) = pre @ Begin nm # items (drop k (blk m fdt off))"
    using reaches_items [OF r(2)] r(1) items_unfold [OF it] by (simp add: drop_blk)
  ultimately show ?thesis by (auto simp: view_def nth_append)
qed

lemma at_node_lt: "layout m fdt \<Longrightarrow> at_node m fdt off \<Longrightarrow> off < 2147483648"
  using at_node_index [of m fdt off] node_index_lt [of m fdt off] by blast

lemma index_at_node:
  assumes snd: "sound m fdt" and ix: "node_index m fdt off = Some j" "j < length (view m fdt 0)" "view m fdt 0 ! j = Begin nm"
  shows "at_node m fdt off"
proof -
  have c: "0 \<le> fdt_check_node_offset_i m fdt off" by (rule node_of_index(1) [OF snd ix])
  obtain pre bn where "reaches (blk m fdt 0) (nat off) pre" "0 \<le> off"
    "item_at (drop (nat off) (blk m fdt 0)) = Some (Begin bn, nat (fdt_check_node_offset_i m fdt off - off))"
    by (rule node_located [OF snd ix(1) c])
  then show ?thesis by (auto simp: at_node_def drop_blk)
qed

text \<open>Behind the head of a node, or anywhere else on the items.\<close>

definition on_items :: "mem \<Rightarrow> addr \<Rightarrow> int \<Rightarrow> bool" where
  "on_items m fdt off \<longleftrightarrow> 0 \<le> off \<and> off < 2147483648 \<and> (\<exists>pre. reaches (blk m fdt 0) (nat off) pre)"

lemma on_items_aligned: "on_items m fdt off \<Longrightarrow> off mod 4 = 0"
proof -
  assume "on_items m fdt off"
  then obtain pre where r: "0 \<le> off" "reaches (blk m fdt 0) (nat off) pre" by (auto simp: on_items_def)
  have "nat off mod 4 = 0" using reaches_le [OF r(2)] by simp
  then have "nat (off mod 4) = 0" using nat_mod_distrib [of off 4] r(1) by simp
  then show ?thesis using pos_mod_sign [of 4 off] by linarith
qed

lemma on_items_step:
  assumes snd: "sound m fdt" and on: "on_items m fdt off" and it: "item_at (blk m fdt off) = Some (i, n)"
  shows "fdt_next_tag m fdt off = (tag_of i, off + int n)" "on_items m fdt (off + int n)"
proof -
  have lay: "layout m fdt" and s4: "fdt_size_dt_struct m fdt mod 4 = 0" using snd by (simp_all add: sound_def)
  obtain pre where off: "0 \<le> off" "off < 2147483648" "off mod 4 = 0" "reaches (blk m fdt 0) (nat off) pre"
    using on on_items_aligned [OF on] by (auto simp: on_items_def)
  have t: "fdt_next_tag m fdt off = (tag_of i, off + int n)" "off + int n \<le> fdt_size_dt_struct m fdt + 3" "off + int n < 2147483648"
    using fdt_next_tag_items [OF lay off(1,3,2)] it by simp_all
  have n4: "n mod 4 = 0" using item_at_pos [OF it] by simp
  have "(off + int n) mod 4 = 0" using off(3) n4 by presburger
  then have le: "off + int n \<le> fdt_size_dt_struct m fdt" by (rule align4_down [OF t(2) _ s4])
  have "reaches (drop (nat off) (blk m fdt 0)) (n + 0) [i]"
    using it off(1) le by (intro reaches.step reaches.here) (auto simp: drop_blk)
  from reaches_trans [OF off(4) this] have "reaches (blk m fdt 0) (nat (off + int n)) (pre @ [i])"
    using off(1) by (simp add: nat_add_distrib)
  then show "on_items m fdt (off + int n)" using off(1) t(3) by (auto simp: on_items_def)
  show "fdt_next_tag m fdt off = (tag_of i, off + int n)" by (rule t(1))
qed

lemma on_items_end: "sound m fdt \<Longrightarrow> on_items m fdt off \<Longrightarrow> item_at (blk m fdt off) = None \<Longrightarrow> fst (fdt_next_tag m fdt off) = FDT_END"
  using fdt_next_tag_items [of m fdt off] on_items_aligned [of m fdt off] by (auto simp: on_items_def sound_def)

lemma on_items_at_node: "on_items m fdt off \<Longrightarrow> item_at (blk m fdt off) = Some (Begin nm, n) \<Longrightarrow> at_node m fdt off"
  by (auto simp: on_items_def at_node_def)

lemma at_node_on_items: "layout m fdt \<Longrightarrow> at_node m fdt off \<Longrightarrow> on_items m fdt off"
  using at_node_lt [of m fdt off] by (auto simp: on_items_def at_node_def)

lemma at_node_check:
  assumes snd: "sound m fdt" and n: "at_node m fdt off"
  shows "0 \<le> fdt_check_node_offset_i m fdt off" "on_items m fdt (fdt_check_node_offset_i m fdt off)"
proof -
  have lay: "layout m fdt" using snd by (simp add: sound_def)
  note on = at_node_on_items [OF lay n]
  obtain nm k where it: "item_at (blk m fdt off) = Some (Begin nm, k)" using n by (auto simp: at_node_def)
  note st = on_items_step [OF snd on it]
  have "fdt_check_node_offset_i m fdt off = off + int k"
    using st(1) on on_items_aligned [OF on] by (auto simp: fdt_check_node_offset_i_def on_items_def)
  then show "0 \<le> fdt_check_node_offset_i m fdt off" "on_items m fdt (fdt_check_node_offset_i m fdt off)"
    using st(2) by (simp_all add: on_items_def)
qed

lemma next_node_loop_at_node:
  "sound m fdt \<Longrightarrow> on_items m fdt off \<Longrightarrow> fdt_next_node_loop m fdt off d = (off', d') \<Longrightarrow> 0 \<le> off' \<Longrightarrow>
    d' = None \<or> 0 \<le> the d' \<Longrightarrow> at_node m fdt off'"
proof (induction m fdt off d arbitrary: off' d' rule: fdt_next_node_loop.induct)
  case (1 m fdt off d)
  obtain tag nxt where t: "fdt_next_tag m fdt off = (tag, nxt)" by fastforce
  note r = fdt_next_node_loop.simps [of m fdt off d, unfolded t prod.case]
  show ?case
  proof (cases "item_at (blk m fdt off)")
    case None
    then have "tag = FDT_END" using on_items_end [OF "1.prems"(1,2)] t by simp
    then show ?thesis using "1.prems"(3,4) r by (auto split: if_splits)
  next
    case (Some p)
    obtain i n where it: "item_at (blk m fdt off) = Some (i, n)" using Some by (cases p) auto
    note st = on_items_step [OF "1.prems"(1,2) it]
    have tn: "tag = tag_of i" "nxt = off + int n" using st(1) t by simp_all
    show ?thesis
    proof (cases i)
      case (Begin nm)
      then show ?thesis using "1.prems"(3) r tn on_items_at_node [OF "1.prems"(2)] it by simp
    next
      case Endnode
      then show ?thesis
        using "1.prems" "1.IH"(2,3) [OF t [symmetric]] r tn st(2) by (auto split: option.splits if_splits)
    qed (use "1.prems" "1.IH"(1) [OF t [symmetric]] r tn st(2) in auto)
  qed
qed

lemma next_node_at_node:
  assumes "sound m fdt" "at_node m fdt off" "fdt_next_node m fdt off d = (off', d')" "0 \<le> off'" "d' = None \<or> 0 \<le> the d'"
  shows "at_node m fdt off'"
proof -
  have "0 \<le> off" using assms(2) by (simp add: at_node_def)
  then have "fdt_next_node_loop m fdt (fdt_check_node_offset_i m fdt off) d = (off', d')"
    using assms(3) at_node_check(1) [OF assms(1,2)] by (simp add: fdt_next_node_def Let_def)
  then show ?thesis by (rule next_node_loop_at_node [OF assms(1) at_node_check(2) [OF assms(1,2)] _ assms(4,5)])
qed

lemma first_subnode_at_node:
  "sound m fdt \<Longrightarrow> at_node m fdt off \<Longrightarrow> 0 \<le> fdt_first_subnode m fdt off \<Longrightarrow> at_node m fdt (fdt_first_subnode m fdt off)"
  by (auto simp: fdt_first_subnode_def split: prod.splits if_splits intro: next_node_at_node)

lemma next_subnode_loop_at_node:
  "sound m fdt \<Longrightarrow> at_node m fdt off \<Longrightarrow> 0 \<le> fdt_next_subnode_loop m fdt off d \<Longrightarrow>
   at_node m fdt (fdt_next_subnode_loop m fdt off d)"
proof (induction m fdt off d rule: fdt_next_subnode_loop.induct)
  case (1 m fdt off d)
  obtain o' d' where n: "fdt_next_node m fdt off (Some d) = (o', d')" by fastforce
  show ?case
  proof (cases d')
    case None
    then show ?thesis using "1.prems" by (simp add: fdt_next_subnode_loop.simps [of m fdt off d] n)
  next
    case (Some e)
    note r = fdt_next_subnode_loop.simps [of m fdt off d, unfolded n Some prod.case option.case]
    have ge: "0 \<le> o'" "1 \<le> e" using "1.prems"(3) unfolding r by (auto split: if_splits)
    have at: "at_node m fdt o'" by (rule next_node_at_node [OF "1.prems"(1,2) n ge(1)]) (use ge Some in simp)
    show ?thesis
      using "1.IH" [OF n [symmetric] Some] "1.prems" at ge unfolding r by (cases "e > 1") simp_all
  qed
qed

lemma next_subnode_at_node:
  "sound m fdt \<Longrightarrow> at_node m fdt off \<Longrightarrow> 0 \<le> fdt_next_subnode m fdt off \<Longrightarrow> at_node m fdt (fdt_next_subnode m fdt off)"
  unfolding fdt_next_subnode_def by (rule next_subnode_loop_at_node)

lemma subnode_loop_at_node:
  "sound m fdt \<Longrightarrow> at_node m fdt off \<or> off < 0 \<or> d < 0 \<Longrightarrow> 0 \<le> subnode_loop m fdt nm off d \<Longrightarrow>
   at_node m fdt (subnode_loop m fdt nm off d)"
proof (induction m fdt nm off d rule: subnode_loop.induct)
  case (1 m fdt nm off d)
  obtain o' d' where n: "fdt_next_node m fdt off (Some d) = (o', d')" by fastforce
  have d': "d' \<noteq> None" using fdt_next_node_depth [OF n] by auto
  then obtain e where e: "d' = Some e" by auto
  note r = subnode_loop.simps [of m fdt nm off d, unfolded n e prod.case option.case]
  show ?case
  proof (cases "off \<ge> 0 \<and> d \<ge> 0")
    case False
    then show ?thesis using "1.prems"(3) r by (auto split: if_splits)
  next
    case True
    then have at: "at_node m fdt off" using "1.prems"(2) by auto
    show ?thesis
    proof (cases "d = 1 \<and> fdt_nodename_eq_i m fdt off nm")
      case True
      then show ?thesis using at r \<open>off \<ge> 0 \<and> d \<ge> 0\<close> by simp
    next
      case False
      have "at_node m fdt o' \<or> o' < 0 \<or> e < 0"
        using next_node_at_node [OF "1.prems"(1) at n] e by (cases "o' < 0"; cases "e < 0"; simp)
      then show ?thesis using "1.IH" [OF True False n [symmetric] e] "1.prems"(1,3) r True False by simp
    qed
  qed
qed

lemma subnode_offset_at_node:
  "sound m fdt \<Longrightarrow> at_node m fdt off \<Longrightarrow> 0 \<le> fdt_subnode_offset m fdt off nm \<Longrightarrow> at_node m fdt (fdt_subnode_offset m fdt off nm)"
  by (auto simp: fdt_subnode_offset_def fdt_subnode_offset_namelen_def split: if_splits intro: subnode_loop_at_node)

end
