(* ===== verification/Overlay_Merge.thy ===== *)
theory Overlay_Merge
  imports Fdt_Overlay Fdt_Walk
begin

text \<open>
  What merging an overlay does to the base tree: a script of edits at nodes of the base, which leaves
  the overlay alone.
\<close>

section \<open>Reading the overlay\<close>

lemma strlen_at: "m (p + int n) = 0 \<Longrightarrow> (\<And>i. i < n \<Longrightarrow> m (p + int i) \<noteq> 0) \<Longrightarrow> p + int n < ADDR_LIMIT \<Longrightarrow> strlen m p = n"
proof -
  assume a: "m (p + int n) = 0" "\<And>i. i < n \<Longrightarrow> m (p + int i) \<noteq> 0" "p + int n < ADDR_LIMIT"
  have "m x \<noteq> 0" if "p \<le> x" "x < p + int n" for x using a(2) [of "nat (x - p)"] that by simp
  then show ?thesis using strlen_nul [of p "p + int n" m] a(1,3) by simp
qed

lemma is_cstr_cstr: "p + int (strlen m p) < ADDR_LIMIT \<Longrightarrow> is_cstr (cstr m p)"
  using strlen_first [OF refl, where m = m and s = p] by (auto simp: is_cstr_def cstr_def in_set_conv_nth)

lemma cstr_fdt_string:
  assumes lay: "layout m fdt" and lim: "fdt + fdt_totalsize m fdt \<le> ADDR_LIMIT"
    and so: "0 \<le> so" "so < 4294967296" and nm: "name_at (strs m fdt) so = Some nm"
  shows "fst (fdt_get_string m fdt (s32 so)) = Some (fdt + fdt_off_dt_strings m fdt + so)"
    "cstr m (fdt + fdt_off_dt_strings m fdt + so) = nm" "is_cstr nm" "int (length nm) < fdt_totalsize m fdt"
proof -
  define p where "p = fdt + fdt_off_dt_strings m fdt + so"
  have g: "fdt_get_string m fdt (s32 so) = (Some p, int (length nm))" "bytes_at m p (length nm) = nm"
    using fdt_get_string_items [OF lay so] nm by (simp_all add: p_def)
  note gs = fdt_get_string_Some [OF g(1)]
  have e: "p + int (length nm) < ADDR_LIMIT" using gs(3) lim by linarith
  have "strlen m p = length nm" using strlen_at [of m p "length nm"] gs(4,5) e by auto
  then show c: "cstr m (fdt + fdt_off_dt_strings m fdt + so) = nm" using g(2) by (simp add: cstr_def p_def)
  show "fst (fdt_get_string m fdt (s32 so)) = Some (fdt + fdt_off_dt_strings m fdt + so)" using g(1) by (simp add: p_def)
  show "is_cstr nm" using is_cstr_cstr [of p m] \<open>strlen m p = length nm\<close> e c by (simp add: p_def)
  show "int (length nm) < fdt_totalsize m fdt" using gs(1,3) by linarith
qed

text \<open>The name of a node.\<close>

lemma fdt_get_name_at_node:
  assumes snd: "sound m fdt" and lim: "fdt + fdt_totalsize m fdt \<le> ADDR_LIMIT"
    and on: "at_node m fdt off" and it: "item_at (blk m fdt off) = Some (Begin nm, k)"
  shows "\<exists>p len. fdt_get_name m fdt off = (Some p, len) \<and> cstr m p = nm" "is_cstr nm"
    "int (length nm) < fdt_totalsize m fdt"
proof -
  have lay: "layout m fdt" using snd by (simp add: sound_def)
  note ll = layout_lin [OF lay]
  have ver: "fdt_version m fdt = 17" using lay by (simp add: layout_def)
  have off: "0 \<le> off" using on by (simp add: at_node_def)
  define np where "np = fdt + fdt_off_dt_struct m fdt + (off + 4)"
  define Q where "Q = nat (fdt_size_dt_struct m fdt - (off + 4))"
  have d4: "drop 4 (blk m fdt off) = bytes_at m np Q"
  proof -
    have "nat (fdt_size_dt_struct m fdt - off) - 4 = Q" unfolding Q_def by linarith
    then show ?thesis by (simp add: blk_def drop_bytes_at np_def algebra_simps)
  qed
  have q: "nm = takeWhile (\<lambda>b. b \<noteq> 0) (bytes_at m np Q)" "4 + length nm < length (blk m fdt off)"
    using it by (auto simp: item_at_def d4 Let_def split: if_splits)
  then have l: "length nm < Q" using off by (simp add: Q_def)
  have "off + 4 < fdt_size_dt_struct m fdt" using q(2) by simp
  then have e: "np + int Q \<le> ADDR_LIMIT" "int Q < fdt_totalsize m fdt"
    using lim ll off unfolding np_def Q_def by linarith+
  have sl: "strlen m np = length nm" using strlen_takeWhile [of m np Q] q(1) l e by simp
  have c: "cstr m np = nm" using sl q(1) takeWhile_bytes_at_take [of "\<lambda>b. b \<noteq> 0" m np Q] by (simp add: cstr_def)
  have "fst (fdt_get_name m fdt off) = Some np"
    using at_node_check(1) [OF snd on] layout_probe [OF lay] ll ver
    by (simp add: fdt_get_name_def fdt_offset_ptr_i_def np_def Let_def algebra_simps)
  then show "\<exists>p len. fdt_get_name m fdt off = (Some p, len) \<and> cstr m p = nm"
    using c by (cases "fdt_get_name m fdt off") auto
  have "np + int (strlen m np) < ADDR_LIMIT" using sl l e by simp
  then show "is_cstr nm" using is_cstr_cstr [of np m] c by simp
  show "int (length nm) < fdt_totalsize m fdt" using l e by simp
qed

section \<open>The properties of a node\<close>

fun aprops :: "tree_items \<Rightarrow> (byte list \<times> byte list) list" where
  "aprops (Property n v # its) = (the n, v) # aprops its"
| "aprops (Nop # its) = aprops its"
| "aprops its = []"

definition at_prop :: "mem \<Rightarrow> addr \<Rightarrow> int \<Rightarrow> bool" where
  "at_prop m fdt off \<longleftrightarrow> on_items m fdt off \<and> (\<exists>so v n. item_at (blk m fdt off) = Some (Property so v, n))"

lemma nextprop_items:
  "sound m fdt \<Longrightarrow> on_items m fdt off \<Longrightarrow>
   (if 0 \<le> nextprop_i m fdt off
    then at_prop m fdt (nextprop_i m fdt off) \<and> aprops (view m fdt (nextprop_i m fdt off)) = aprops (view m fdt off)
    else aprops (view m fdt off) = [])"
proof (induction m fdt off rule: nextprop_i.induct)
  case (1 m fdt off)
  obtain tag nxt where t: "fdt_next_tag m fdt off = (tag, nxt)" by fastforce
  note r = nextprop_i.simps [of m fdt off, unfolded t prod.case]
  show ?case
  proof (cases "item_at (blk m fdt off)")
    case None
    then have "tag = FDT_END" "view m fdt off = []"
      using on_items_end [OF "1.prems"] t by (simp_all add: view_def items.simps [of "blk m fdt off"])
    then show ?thesis using r by simp
  next
    case (Some p)
    obtain i n where it: "item_at (blk m fdt off) = Some (i, n)" using Some by (cases p) auto
    note st = on_items_step [OF "1.prems" it]
    have tn: "tag = tag_of i" "nxt = off + int n" using st(1) t by simp_all
    have v: "view m fdt off = map_item (name_at (strs m fdt)) i # view m fdt nxt"
      by (simp add: view_def items_unfold [OF it] drop_blk tn)
    have "0 \<le> off" using "1.prems"(2) by (simp add: on_items_def)
    then show ?thesis
      using 1(1) [OF t [symmetric]] "1.prems" r tn st(2) it v by (cases i) (auto simp: at_prop_def)
  qed
qed

lemma at_prop_value:
  assumes snd: "sound m fdt" and lim: "fdt + fdt_totalsize m fdt \<le> ADDR_LIMIT" and at: "at_prop m fdt off"
  shows "\<exists>q np v. fdt_getprop_by_offset m fdt off = (Some q, Some np, int (length v)) \<and> bytes_at m q (length v) = v
    \<and> is_cstr (cstr m np) \<and> int (length (cstr m np)) < fdt_totalsize m fdt \<and> int (length v) < fdt_totalsize m fdt
    \<and> aprops (view m fdt off) = (cstr m np, v) # (if 0 \<le> fdt_next_property_offset m fdt off
         then aprops (view m fdt (fdt_next_property_offset m fdt off)) else [])
    \<and> (0 \<le> fdt_next_property_offset m fdt off \<longrightarrow> at_prop m fdt (fdt_next_property_offset m fdt off))"
proof -
  have lay: "layout m fdt" and nmd: "named (strs m fdt) (items (blk m fdt 0))" using snd by (simp_all add: sound_def)
  note ll = layout_lin [OF lay]
  have ver: "fdt_version m fdt = 17" using lay by (simp add: layout_def)
  obtain so v n where on: "on_items m fdt off" and it: "item_at (blk m fdt off) = Some (Property so v, n)"
    using at by (auto simp: at_prop_def)
  have off: "0 \<le> off" "off mod 4 = 0" using on on_items_aligned by (auto simp: on_items_def)
  note pn = prop_named_items [OF lay off(1) it]
  note st = on_items_step [OF snd on it]
  obtain pre where "reaches (blk m fdt 0) (nat off) pre" using on by (auto simp: on_items_def)
  from reaches_items [OF this] have "Property so v \<in> set (items (blk m fdt 0))"
    using off by (simp add: drop_blk items_unfold [OF it])
  then obtain nm where nm: "name_at (strs m fdt) so = Some nm" using nmd by (auto simp: named_def)
  have so: "0 \<le> so" "so < 4294967296" using pn(6) by simp_all
  note cs = cstr_fdt_string [OF lay lim so nm]
  have lv: "int (length v) < 2147483648" "int (length v) < fdt_totalsize m fdt" using pn(4) off ll by linarith+
  have c: "fdt_check_prop_offset_i m fdt off = off + int n"
    using st(1) off by (simp add: fdt_check_prop_offset_i_def)
  have g: "fdt_get_property_by_offset_i m fdt off = (Some (fdt_offset_ptr_i m fdt off), int (length v))"
    using c off lv by (simp add: fdt_get_property_by_offset_i_def pn(2) s32_id Let_def)
  obtain gl where gs: "fdt_get_string m fdt (s32 so) = (Some (fdt + fdt_off_dt_strings m fdt + so), gl)"
    using cs(1) by (cases "fdt_get_string m fdt (s32 so)") auto
  have gp: "fdt_getprop_by_offset m fdt off = (Some (fdt_offset_ptr_i m fdt off + 12), Some (fdt + fdt_off_dt_strings m fdt + so), int (length v))"
    using gs pn(6) by (simp add: fdt_getprop_by_offset_def g prop_value_def ver)
  have nx: "fdt_next_property_offset m fdt off = nextprop_i m fdt (off + int n)"
    using c off by (simp add: fdt_next_property_offset_def Let_def)
  note np = nextprop_items [OF snd st(2), folded nx]
  have "view m fdt off = Property (Some nm) v # view m fdt (off + int n)"
    by (simp add: view_def items_unfold [OF it] drop_blk nm)
  then have ap: "aprops (view m fdt off) = (nm, v) # aprops (view m fdt (off + int n))" by simp
  show ?thesis
    unfolding gp ap using np cs lv pn(3)
    by (intro exI [of _ "fdt_offset_ptr_i m fdt off + 12"] exI [of _ "fdt + fdt_off_dt_strings m fdt + so"] exI [of _ v])
       (auto split: if_splits)
qed


section \<open>Two trees in one memory\<close>

definition apart :: "mem \<Rightarrow> addr \<Rightarrow> addr \<Rightarrow> bool" where
  "apart m fdt fdto \<longleftrightarrow> fdt + fdt_totalsize m fdt \<le> fdto \<or> fdto + fdt_totalsize m fdto \<le> fdt"

definition two_trees :: "mem \<Rightarrow> addr \<Rightarrow> addr \<Rightarrow> bool" where
  "two_trees m fdt fdto \<longleftrightarrow> sound m fdt \<and> roomy m fdt \<and> sound m fdto \<and> roomy m fdto \<and> apart m fdt fdto"

lemma same_blob_apart:
  assumes "layout m fdto" "layout m fdt" "apart m fdt fdto" "edit_keeps fdt m m'"
  shows "same_blob fdto m m'"
proof -
  have "40 \<le> fdt_totalsize m fdto" "40 \<le> fdt_totalsize m fdt" using layout_lin [OF assms(1)] layout_lin [OF assms(2)] by linarith+
  moreover have "unchanged_outside fdt (fdt + fdt_totalsize m fdt) m m'" using assms(4) by (simp add: edit_keeps_def)
  ultimately show ?thesis using assms(3) by (auto simp: same_blob_def agree_def apart_def unchanged_outside_def)
qed

lemma same_blob_tree:
  assumes s: "same_blob fdt m m'" and lay: "layout m fdt"
  shows "layout m' fdt" "0 \<le> off \<Longrightarrow> blk m' fdt off = blk m fdt off" "strs m' fdt = strs m fdt"
    "fdt_size_dt_struct m' fdt = fdt_size_dt_struct m fdt" "fdt_totalsize m' fdt = fdt_totalsize m fdt"
proof -
  note ll = layout_lin [OF lay] and h = same_blob_hdr [OF s]
  show "layout m' fdt" by (rule layout_hdr [OF lay same_blob_header [OF s]])
  show "fdt_size_dt_struct m' fdt = fdt_size_dt_struct m fdt" "fdt_totalsize m' fdt = fdt_totalsize m fdt" by (rule h)+
  show "strs m' fdt = strs m fdt"
    by (rule strs_cong [OF h(4) h(8)], rule same_blob_byte [OF s]) (use ll in linarith)+
  show "blk m' fdt off = blk m fdt off" if "0 \<le> off"
    by (rule blk_cong [OF h(3) h(9)], rule same_blob_byte [OF s]) (use ll that in linarith)+
qed

lemma same_blob_items:
  assumes s: "same_blob fdt m m'" and lay: "layout m fdt"
  shows "sound m' fdt = sound m fdt" "0 \<le> off \<Longrightarrow> view m' fdt off = view m fdt off"
    "at_node m' fdt off = at_node m fdt off" "on_items m' fdt off = on_items m fdt off"
    "at_prop m' fdt off = at_prop m fdt off" "roomy m' fdt = roomy m fdt"
proof -
  note t = same_blob_tree [OF s lay]
  show "sound m' fdt = sound m fdt" using t lay by (simp add: sound_def)
  show "0 \<le> off \<Longrightarrow> view m' fdt off = view m fdt off" using t by (simp add: view_def)
  show "at_node m' fdt off = at_node m fdt off" using t(2) [of 0] t(2) [of off] by (auto simp: at_node_def)
  show on: "on_items m' fdt off = on_items m fdt off" using t(2) [of 0] by (simp add: on_items_def)
  show "at_prop m' fdt off = at_prop m fdt off"
    using on t(2) [of off] by (auto simp: at_prop_def) (simp_all add: on_items_def)
  show "roomy m' fdt = roomy m fdt" using t by (simp add: roomy_def)
qed

lemma same_blob_trans: "same_blob fdt m m' \<Longrightarrow> same_blob fdt m' m'' \<Longrightarrow> same_blob fdt m m''"
  using same_blob_hdr(2) [of fdt m m'] by (simp add: same_blob_def agree_def)

text \<open>What every step of the merge keeps: the script so far, the overlay, the nodes up to \<open>b\<close>.\<close>

definition merged :: "addr \<Rightarrow> addr \<Rightarrow> int \<Rightarrow> mem \<Rightarrow> mem \<Rightarrow> bool" where
  "merged fdt fdto b m m' \<longleftrightarrow> two_trees m' fdt fdto \<and> same_blob fdto m m' \<and> (edit_step fdt)\<^sup>*\<^sup>* m m'
     \<and> (\<forall>n j. n \<le> b \<longrightarrow> at_node m fdt n \<longrightarrow> node_index m fdt n = Some j \<longrightarrow> at_node m' fdt n \<and> node_index m' fdt n = Some j)"

lemma merged_refl: "two_trees m fdt fdto \<Longrightarrow> merged fdt fdto b m m"
  by (simp add: merged_def same_blob_def agree_def)

lemma merged_trans: "merged fdt fdto b m m' \<Longrightarrow> merged fdt fdto b' m' m'' \<Longrightarrow> b \<le> b' \<Longrightarrow> merged fdt fdto b m m''"
  unfolding merged_def by (fastforce intro: same_blob_trans rtranclp_trans)

lemma reaches_mono: "reaches bs k pre \<Longrightarrow> reaches bs k' pre' \<Longrightarrow> k \<le> k' \<Longrightarrow> length pre \<le> length pre'"
proof (induction arbitrary: k' pre' rule: reaches.induct)
  case (step bs it n k its)
  have "4 \<le> n" using item_at_pos [OF step.hyps(1)] by simp
  with step.prems step.hyps(1) obtain k'' its' where "reaches (drop n bs) k'' its'" "k' = n + k''" "pre' = it # its'"
    by (cases rule: reaches.cases [of bs k' pre']) auto
  then show ?case using step.IH [of k'' its'] step.prems(2) by simp
qed simp

lemma node_index_mono:
  assumes "node_index m fdt n = Some i" "node_index m fdt n' = Some j" "n \<le> n'" shows "i \<le> j"
proof -
  have ix: "index_of (blk m fdt 0) (nat n) = Some i" "index_of (blk m fdt 0) (nat n') = Some j"
    "n < fdt_size_dt_struct m fdt" "n' < fdt_size_dt_struct m fdt"
    using assms by (auto simp: node_index_def split: if_splits)
  obtain pre where "reaches (blk m fdt 0) (nat n) pre" "length pre = i"
    using index_of_reaches [OF ix(1)] ix(3) nat_mono [of n "fdt_size_dt_struct m fdt"] by auto
  moreover obtain pre' where "reaches (blk m fdt 0) (nat n') pre'" "length pre' = j"
    using index_of_reaches [OF ix(2)] ix(4) nat_mono [of n' "fdt_size_dt_struct m fdt"] by auto
  ultimately show ?thesis using reaches_mono assms(3) nat_mono by blast
qed

text \<open>A change of the items behind a node leaves the nodes up to it where they are.\<close>

lemma at_node_under:
  assumes snd: "sound m fdt" "sound m' fdt" and v: "view m' fdt 0 = under j f (view m fdt 0)"
    and t: "node_index m fdt b = Some j" "j < length (view m fdt 0)"
    and n: "n \<le> b" "at_node m fdt n" "node_index m fdt n = Some i" "node_index m' fdt n = Some i"
  shows "at_node m' fdt n"
proof -
  obtain nm where i: "i < length (view m fdt 0)" "view m fdt 0 ! i = Begin nm" using at_node_index [OF n(2)] n(3) by auto
  have "i \<le> j" by (rule node_index_mono [OF n(3) t(1) n(1)])
  then have "i < length (view m' fdt 0)" "view m' fdt 0 ! i = Begin nm"
    using i t(2) by (simp_all add: v under_def nth_append)
  then show ?thesis by (rule index_at_node [OF snd(2) n(4)])
qed

lemma request_merged:
  assumes two: "two_trees m fdt fdto" and at: "at_node m fdt b" and wf: "well_formed a" and no: "node_of a = b"
    and r: "apply_request a m fdt = (err, m')"
    and ok: "\<And>j. 0 \<le> err \<Longrightarrow> node_index m fdt b = Some j \<Longrightarrow>
      (\<exists>f. view m' fdt 0 = under j f (view m fdt 0)) \<and> (\<forall>n i. n \<le> b \<longrightarrow> node_index m fdt n = Some i \<longrightarrow> node_index m' fdt n = Some i)"
  shows "merged fdt fdto b m m'"
proof -
  have snd: "sound m fdt" "roomy m fdt" "sound m fdto" "roomy m fdto" "apart m fdt fdto" using two by (simp_all add: two_trees_def)
  have lay: "layout m fdt" "layout m fdto" using snd by (simp_all add: sound_def)
  obtain j nm where j: "node_index m fdt b = Some j" "j < length (view m fdt 0)" "view m fdt 0 ! j = Begin nm"
    using at_node_index [OF at] by blast
  note ix = j(1) [folded no]
  have "request_ok a" by (rule well_formed_ok [OF wf node_index_lt [OF lay(1) ix]])
  note ek = apply_request_keeps [OF lay(1) this r]
  have sb: "same_blob fdto m m'" by (rule same_blob_apart [OF lay(2,1) snd(5) ek])
  note ref = apply_request_refines [OF snd(1,2) wf ix r]
  have "apart m' fdt fdto"
    using snd(5) ek same_blob_tree(5) [OF sb lay(2)] by (simp add: apart_def edit_keeps_def)
  then have two': "two_trees m' fdt fdto"
    using ref same_blob_items(1,6) [OF sb lay(2)] snd by (simp add: two_trees_def)
  have es: "edit_step fdt m m'" by (rule edit_step.request [OF wf _ r]) (use ix in simp)
  have "at_node m' fdt n \<and> node_index m' fdt n = Some i" if n: "n \<le> b" "at_node m fdt n" "node_index m fdt n = Some i" for n i
  proof (cases "0 \<le> err")
    case True
    from ok [OF True j(1)] obtain f where f: "view m' fdt 0 = under j f (view m fdt 0)"
      and same: "node_index m' fdt n = Some i" using n by blast
    show ?thesis using at_node_under [OF snd(1) ref(1) f j(1,2) n same] same by simp
  next
    case False
    then have st: "same_tree m m' fdt" using apply_request_undone [OF snd(1) wf ix r] by simp
    note v = same_tree_view(2,3) [OF st]
    obtain nm where "i < length (view m fdt 0)" "view m fdt 0 ! i = Begin nm" using at_node_index [OF n(2)] n(3) by auto
    then show ?thesis using index_at_node [OF ref(1), of n i nm] n(3) v by simp
  qed
  then show ?thesis using two' sb es by (simp add: merged_def)
qed

lemma setprop_merged:
  assumes two: "two_trees m fdt fdto" and at: "at_node m fdt b"
    and nm: "is_cstr nm" "int (length nm) < 1073741800" "int (length v) < 1073741800"
    and r: "fdt_setprop m fdt b nm v = (err, m')"
  shows "merged fdt fdto b m m'"
proof (rule request_merged [OF two at, where a = "Setprop b nm v" and err = err])
  fix j
  assume "0 \<le> err" and j: "node_index m fdt b = Some j"
  have snd: "sound m fdt" "layout m fdt" using two by (simp_all add: two_trees_def sound_def)
  have "err = 0" using fdt_setprop_undone(2) [OF snd(2) _ r] nm \<open>0 \<le> err\<close> by (cases "err = 0") auto
  then show "(\<exists>f. view m' fdt 0 = under j f (view m fdt 0)) \<and> (\<forall>n i. n \<le> b \<longrightarrow> node_index m fdt n = Some i \<longrightarrow> node_index m' fdt n = Some i)"
    using fdt_setprop_view [OF snd(1) j nm(1) _ _ r [unfolded \<open>err = 0\<close>]] nm by auto
qed (use nm r in simp_all)

lemma add_subnode_merged:
  assumes two: "two_trees m fdt fdto" and at: "at_node m fdt b"
    and nm: "is_cstr nm" "int (length nm) < 1073741800"
    and r: "fdt_add_subnode m fdt b nm = (err, m')"
  shows "merged fdt fdto b m m'" "0 \<le> err \<Longrightarrow> b < err \<and> at_node m' fdt err"
proof -
  have snd: "sound m fdt" using two by (simp add: two_trees_def)
  show "merged fdt fdto b m m'"
  proof (rule request_merged [OF two at, where a = "Add_subnode b nm" and err = err])
    fix j
    assume "0 \<le> err" and j: "node_index m fdt b = Some j"
    note v = fdt_add_subnode_view [OF snd j nm r \<open>0 \<le> err\<close>]
    show "(\<exists>f. view m' fdt 0 = under j f (view m fdt 0)) \<and> (\<forall>n i. n \<le> b \<longrightarrow> node_index m fdt n = Some i \<longrightarrow> node_index m' fdt n = Some i)"
      using v(2,3,4) by auto
  qed (use nm r in simp_all)
  show "b < err \<and> at_node m' fdt err" if "0 \<le> err"
  proof -
    obtain j where j: "node_index m fdt b = Some j" using at_node_index [OF at] by blast
    note v = fdt_add_subnode_view [OF snd j nm r that]
    obtain i where i: "node_index m' fdt err = Some i" "i < length (view m' fdt 0)" "view m' fdt 0 ! i = Begin nm" using v(5) by blast
    show ?thesis using v(4) index_at_node [OF v(1) i] by simp
  qed
qed


section \<open>Merging a node\<close>

lemma at_prop_same:
  assumes "same_blob fdt m m'" "layout m fdt" "at_prop m fdt off"
  shows "fdt_next_property_offset m' fdt off = fdt_next_property_offset m fdt off"
proof -
  have "off < 2147483648" using assms(3) by (simp add: at_prop_def on_items_def)
  then show ?thesis by (rule fdt_property_offset_same(2) [OF assms(1)])
qed

text \<open>The properties of the overlay's node are set on the base's node, the first one first.\<close>

definition aset_all :: "(byte list \<times> byte list) list \<Rightarrow> tree_items \<Rightarrow> tree_items" where
  "aset_all ps its = fold (\<lambda>(nm, v). aset nm v) ps its"

lemma under_compose: "Suc j \<le> length its \<Longrightarrow> under j g (under j f its) = under j (\<lambda>xs. g (f xs)) its"
  using under_under [of j its g f] by (simp add: comp_def)

lemma under_cong: "(\<And>xs. f xs = g xs) \<Longrightarrow> under j f its = under j g its"
  by (simp add: under_def)

lemma apply_properties_merged:
  "two_trees m fdt fdto \<Longrightarrow> at_node m fdt b \<Longrightarrow> p < 0 \<or> at_prop m fdto p \<Longrightarrow>
   apply_properties m fdt b fdto p = (ret, m') \<Longrightarrow>
   merged fdt fdto b m m' \<and>
   (\<forall>j. ret = 0 \<longrightarrow> node_index m fdt b = Some j \<longrightarrow>
      view m' fdt 0 = under j (aset_all (if p < 0 then [] else aprops (view m fdto p))) (view m fdt 0))"
proof (induction m fdt b fdto p arbitrary: ret m' rule: apply_properties.induct)
  case (1 m fdt b fdto p)
  note r = apply_properties.simps [of m fdt b fdto p]
  show ?case
  proof (cases "p < 0")
    case True
    then show ?thesis using "1.prems"(1,4) r by (auto simp: merged_refl aset_all_def under_def)
  next
    case False
    have two: "sound m fdto" "roomy m fdto" "sound m fdt" "layout m fdto" "layout m fdt" using "1.prems"(1) by (simp_all add: two_trees_def sound_def)
    have lim: "fdto + fdt_totalsize m fdto \<le> ADDR_LIMIT" "fdt_totalsize m fdto < 1073741800" using two(2) by (simp_all add: roomy_def)
    have at: "at_prop m fdto p" using "1.prems"(3) False by simp
    obtain q np v where g: "fdt_getprop_by_offset m fdto p = (Some q, Some np, int (length v))" "bytes_at m q (length v) = v"
      and nm: "is_cstr (cstr m np)" "int (length (cstr m np)) < fdt_totalsize m fdto" "int (length v) < fdt_totalsize m fdto"
      and ap: "aprops (view m fdto p) = (cstr m np, v) # (if 0 \<le> fdt_next_property_offset m fdto p
         then aprops (view m fdto (fdt_next_property_offset m fdto p)) else [])"
      and nx: "0 \<le> fdt_next_property_offset m fdto p \<longrightarrow> at_prop m fdto (fdt_next_property_offset m fdto p)"
      using at_prop_value [OF two(1) lim(1) at] by blast
    obtain e m1 where s: "fdt_setprop m fdt b (cstr m np) v = (e, m1)" by fastforce
    have wf: "is_cstr (cstr m np)" "int (length (cstr m np)) < 1073741800" "int (length v) < 1073741800" using nm lim(2) by linarith+
    note sm = setprop_merged [OF "1.prems"(1,2) wf s]
    have sm': "two_trees m1 fdt fdto" "same_blob fdto m m1" "at_node m1 fdt b"
      using sm "1.prems"(2) at_node_index [OF "1.prems"(2)] by (auto simp: merged_def)
    have step: "apply_properties m fdt b fdto p =
        (if e \<noteq> 0 then (e, m1) else apply_properties m1 fdt b fdto (fdt_next_property_offset m1 fdto p))"
      using r False g s by simp
    show ?thesis
    proof (cases "e = 0")
      case ne: False
      then show ?thesis using "1.prems"(4) step sm by simp
    next
      case True
      define p' where "p' = fdt_next_property_offset m1 fdto p"
      have p': "p' = fdt_next_property_offset m fdto p" using at_prop_same [OF sm'(2) two(4) at] by (simp add: p'_def)
      have rec: "apply_properties m1 fdt b fdto p' = (ret, m')" using "1.prems"(4) step True by (simp add: p'_def)
      have at': "p' < 0 \<or> at_prop m1 fdto p'" using nx p' same_blob_items(5) [OF sm'(2) two(4)] by auto
      have IH: "merged fdt fdto b m1 m' \<and> (\<forall>j. ret = 0 \<longrightarrow> node_index m1 fdt b = Some j \<longrightarrow>
          view m' fdt 0 = under j (aset_all (if p' < 0 then [] else aprops (view m1 fdto p'))) (view m1 fdt 0))"
      proof -
        have c: "int (length v) \<noteq> - FDT_ERR_NOTFOUND" "\<not> int (length v) < 0" by simp_all
        have s': "(e, m1) = fdt_setprop m fdt b (cstr m (the (Some np))) (bytes_at m (the (Some q)) (nat (int (length v))))"
          using s g(2) by simp
        have e': "\<not> e \<noteq> 0" using True by simp
        show ?thesis unfolding p'_def
          by (rule "1.IH" [OF False g(1) [symmetric] refl c s' e' sm'(1,3) at' [unfolded p'_def] rec [unfolded p'_def]])
      qed
      show ?thesis
      proof (intro conjI allI impI)
        show "merged fdt fdto b m m'" using merged_trans [OF sm conjunct1 [OF IH]] by simp
      next
        fix j
        assume ret: "ret = 0" and j: "node_index m fdt b = Some j"
        have j1: "node_index m1 fdt b = Some j" using sm j "1.prems"(2) by (auto simp: merged_def)
        have v1: "view m1 fdt 0 = under j (aset (cstr m np) v) (view m fdt 0)"
          using fdt_setprop_view(2) [OF two(3) j wf(1) _ _ s [unfolded True]] wf by simp
        have lj: "Suc j \<le> length (view m fdt 0)" using at_node_index [OF "1.prems"(2)] j by auto
        have vo: "0 \<le> p' \<Longrightarrow> view m1 fdto p' = view m fdto p'" using same_blob_items(2) [OF sm'(2) two(4)] by simp
        have "view m' fdt 0 = under j (aset_all (if p' < 0 then [] else aprops (view m fdto p'))) (view m1 fdt 0)"
          using IH ret j1 vo by (cases "p' < 0") auto
        also have "\<dots> = under j (aset_all (aprops (view m fdto p))) (view m fdt 0)"
          unfolding v1 under_compose [OF lj] ap p' [symmetric] by (rule under_cong) (auto simp: aset_all_def not_le)
        finally show "view m' fdt 0 = under j (aset_all (if p < 0 then [] else aprops (view m fdto p))) (view m fdt 0)"
          using False by simp
      qed
    qed
  qed
qed


lemma first_property:
  assumes snd: "sound m fdt" and at: "at_node m fdt node"
  defines "p \<equiv> fdt_first_property_offset m fdt node"
  shows "p < 0 \<or> at_prop m fdt p" "(if p < 0 then [] else aprops (view m fdt p)) = aprops (tl (view m fdt node))"
proof -
  define body where "body = fdt_check_node_offset_i m fdt node"
  have lay: "layout m fdt" using snd by (simp add: sound_def)
  have c: "0 \<le> body" "on_items m fdt body" using at_node_check [OF snd at] by (simp_all add: body_def)
  have p: "p = nextprop_i m fdt body" using c(1) by (simp add: p_def fdt_first_property_offset_def body_def [symmetric] Let_def)
  obtain bn where b: "item_at (blk m fdt node) = Some (Begin bn, nat (body - node))" "0 \<le> node" "node + 4 \<le> body"
    by (rule fdt_check_node_items [OF lay body_def [symmetric] c(1) at_node_lt [OF lay at]]) blast
  have "tl (view m fdt node) = view m fdt body" using b by (simp add: view_def items_unfold [OF b(1)] drop_blk)
  then show "p < 0 \<or> at_prop m fdt p" "(if p < 0 then [] else aprops (view m fdt p)) = aprops (tl (view m fdt node))"
    using nextprop_items [OF snd c(2)] unfolding p by (auto split: if_splits)
qed

lemma subnode_loop_ge:
  "0 \<le> off \<Longrightarrow> 0 \<le> subnode_loop m fdt nm off d \<Longrightarrow> off < 2147483648 \<Longrightarrow> off \<le> subnode_loop m fdt nm off d"
proof (induction m fdt nm off d rule: subnode_loop.induct)
  case (1 m fdt nm off d)
  obtain o' d' where n: "fdt_next_node m fdt off (Some d) = (o', d')" by fastforce
  obtain e where e: "d' = Some e" using fdt_next_node_depth [OF n] by auto
  note r = subnode_loop.simps [of m fdt nm off d, unfolded n e prod.case option.case]
  show ?case
  proof (cases "off \<ge> 0 \<and> d \<ge> 0 \<and> \<not> (d = 1 \<and> fdt_nodename_eq_i m fdt off nm)")
    case False
    then show ?thesis using "1.prems"(1,2) r by (auto split: if_splits)
  next
    case True
    have rec: "subnode_loop m fdt nm off d = subnode_loop m fdt nm o' e" using r True by simp
    show ?thesis
    proof (cases "0 \<le> o'")
      case ge: True
      have "walk_left o' < walk_left off" by (rule fdt_next_node_progress [OF n "1.prems"(1)])
      then have lt: "off < o'" "o' < 2147483648" using ge "1.prems"(1,3) by (auto simp: walk_left_def split: if_splits)
      have "o' \<le> subnode_loop m fdt nm o' e"
        using "1.IH" [OF _ _ n [symmetric] e] True ge lt(2) "1.prems"(2) rec by simp
      then show ?thesis using rec lt by simp
    next
      case False
      then have "subnode_loop m fdt nm o' e < 0" using subnode_loop.simps [of m fdt nm o' e] by (simp split: if_splits)
      then show ?thesis using rec "1.prems"(2) by simp
    qed
  qed
qed

lemma target_child_merged:
  assumes two: "two_trees m fdt fdto" and at: "at_node m fdt b"
    and nm: "is_cstr nm" "int (length nm) < 1073741800"
    and r: "target_child m fdt b nm = (n, m')"
  shows "merged fdt fdto b m m'" "0 \<le> n \<Longrightarrow> b \<le> n \<and> at_node m' fdt n"
proof -
  have snd: "sound m fdt" "layout m fdt" using two by (simp_all add: two_trees_def sound_def)
  obtain e m1 where a: "fdt_add_subnode m fdt b nm = (e, m1)" by fastforce
  note am = add_subnode_merged [OF two at nm a]
  note bl = at_node_lt [OF snd(2) at]
  have "merged fdt fdto b m m' \<and> (0 \<le> n \<longrightarrow> b \<le> n \<and> at_node m' fdt n)"
  proof (cases "e = - FDT_ERR_EXISTS")
    case False
    then show ?thesis using r a am by (auto simp: target_child_def)
  next
    case True
    then have m1: "m1 = m" using fdt_add_subnode_undone [OF snd(2) a _ bl] by simp
    have n: "m' = m" "0 \<le> n \<Longrightarrow> n = fdt_subnode_offset m fdt b nm"
      using r a True m1 by (auto simp: target_child_def Let_def split: if_splits)
    moreover have "b \<le> fdt_subnode_offset m fdt b nm" if "0 \<le> fdt_subnode_offset m fdt b nm"
      using subnode_loop_ge [of b m fdt nm 0] that bl at
      by (auto simp: fdt_subnode_offset_def fdt_subnode_offset_namelen_def at_node_def split: if_splits)
    ultimately show ?thesis using merged_refl [OF two] subnode_offset_at_node [OF snd(1) at, of nm] by auto
  qed
  then show "merged fdt fdto b m m'" "0 \<le> n \<Longrightarrow> b \<le> n \<and> at_node m' fdt n" by simp_all
qed

lemma merged_at_node: "merged fdt fdto b m m' \<Longrightarrow> at_node m fdt n \<Longrightarrow> n \<le> b \<Longrightarrow> at_node m' fdt n"
  using at_node_index [of m fdt n] unfolding merged_def by blast

lemma merged_overlay:
  assumes "two_trees m fdt fdto" "merged fdt fdto b m m'"
  shows "two_trees m' fdt fdto" "same_blob fdto m m'" "layout m fdto" "sound m fdto"
  using assms by (simp_all add: merged_def two_trees_def sound_def)

lemma merged_subnodes:
  assumes "two_trees m fdt fdto" "merged fdt fdto b m m'" "at_node m fdto n"
  shows "fdt_first_subnode m' fdto n = fdt_first_subnode m fdto n" "at_node m' fdto n"
proof -
  note o = merged_overlay [OF assms(1,2)]
  show "at_node m' fdto n" using same_blob_items(3) [OF o(2,3)] assms(3) by simp
  have "n < 2147483648" by (rule at_node_lt [OF o(3) assms(3)])
  then show "fdt_first_subnode m' fdto n = fdt_first_subnode m fdto n"
    using fdt_next_node_same [OF o(2)] by (simp add: fdt_first_subnode_def)
qed

lemma child_name_at_node:
  assumes two: "two_trees m fdt fdto" and at: "at_node m fdto n"
  shows "is_cstr (child_name m fdto n)" "int (length (child_name m fdto n)) < 1073741800"
proof -
  obtain nm k where it: "item_at (blk m fdto n) = Some (Begin nm, k)" using at by (auto simp: at_node_def)
  have s: "sound m fdto" "fdto + fdt_totalsize m fdto \<le> ADDR_LIMIT" "fdt_totalsize m fdto < 1073741800"
    using two by (simp_all add: two_trees_def roomy_def)
  note g = fdt_get_name_at_node [OF s(1,2) at it]
  have "child_name m fdto n = nm" using g(1) by (auto simp: child_name_def)
  then show "is_cstr (child_name m fdto n)" "int (length (child_name m fdto n)) < 1073741800" using g(2,3) s(3) by simp_all
qed

lemma overlay_apply_node_merged:
  "two_trees m fdt fdto \<Longrightarrow> at_node m fdt b \<Longrightarrow> at_node m fdto node \<Longrightarrow>
   overlay_apply_node m fdt b fdto node = (ret, m') \<Longrightarrow> merged fdt fdto b m m'"
  "two_trees m fdt fdto \<Longrightarrow> at_node m fdt b \<Longrightarrow> c < 0 \<or> at_node m fdto c \<Longrightarrow>
   apply_children m fdt b fdto c = (ret, m') \<Longrightarrow> merged fdt fdto b m m'"
proof (induction m fdt b fdto node and m fdt b fdto c arbitrary: ret m' and ret m'
    rule: overlay_apply_node_apply_children.induct)
  case (1 m fdt b fdto node)
  have snd: "sound m fdto" using "1.prems"(1) by (simp add: two_trees_def)
  obtain e m1 where a: "apply_properties m fdt b fdto (fdt_first_property_offset m fdto node) = (e, m1)" by fastforce
  note am = conjunct1 [OF apply_properties_merged [OF "1.prems"(1,2) first_property(1) [OF snd "1.prems"(3)] a]]
  note o = merged_overlay [OF "1.prems"(1) am]
  note fs = merged_subnodes [OF "1.prems"(1) am "1.prems"(3)]
  note r = overlay_apply_node.simps [of m fdt b fdto node, unfolded a prod.case]
  show ?case
  proof (cases "e = 0")
    case False
    then show ?thesis using "1.prems"(4) r am by simp
  next
    case True
    have snd1: "sound m1 fdto" using o by (simp add: two_trees_def)
    have c: "fdt_first_subnode m1 fdto node < 0 \<or> at_node m1 fdto (fdt_first_subnode m1 fdto node)"
      using first_subnode_at_node [OF snd1 fs(2)] by (cases "fdt_first_subnode m1 fdto node < 0") auto
    have "merged fdt fdto b m1 m'"
      using "1.IH" [OF a [symmetric] _ o(1) merged_at_node [OF am "1.prems"(2) order_refl] c] "1.prems"(4) r True by simp
    then show ?thesis by (rule merged_trans [OF am _ order_refl])
  qed
next
  case (2 m fdt b fdto c)
  note r = apply_children.simps [of m fdt b fdto c]
  show ?case
  proof (cases "c < 0")
    case True
    then show ?thesis using "2.prems"(1,4) r merged_refl by simp
  next
    case False
    then have at: "at_node m fdto c" using "2.prems"(3) by simp
    obtain n m1 where t: "target_child m fdt b (child_name m fdto c) = (n, m1)" by fastforce
    note tm = target_child_merged [OF "2.prems"(1,2) child_name_at_node [OF "2.prems"(1) at] t]
    note o1 = merged_overlay [OF "2.prems"(1) tm(1)]
    show ?thesis
    proof (cases "n < 0")
      case True
      then show ?thesis using "2.prems"(4) r False t tm(1) by simp
    next
      case ge: False
      have n: "b \<le> n" "at_node m1 fdt n" using tm(2) ge by simp_all
      have at1: "at_node m1 fdto c" using merged_subnodes(2) [OF "2.prems"(1) tm(1) at] .
      obtain e m2 where a: "overlay_apply_node m1 fdt n fdto c = (e, m2)" by fastforce
      have am: "merged fdt fdto n m1 m2"
        using "2.IH"(1) [OF False t [symmetric] ge o1(1) n(2) at1 a] .
      have m2: "merged fdt fdto b m m2" by (rule merged_trans [OF tm(1) am n(1)])
      note o2 = merged_overlay [OF "2.prems"(1) m2]
      show ?thesis
      proof (cases "e = 0")
        case False
        then show ?thesis using "2.prems"(4) r \<open>\<not> c < 0\<close> t ge a m2 by simp
      next
        case True
        have snd2: "sound m2 fdto" using o2 by (simp add: two_trees_def)
        have at2: "at_node m2 fdto c" using merged_subnodes(2) [OF "2.prems"(1) m2 at] .
        have c2: "fdt_next_subnode m2 fdto c < 0 \<or> at_node m2 fdto (fdt_next_subnode m2 fdto c)"
          using next_subnode_at_node [OF snd2 at2] by (cases "fdt_next_subnode m2 fdto c < 0") auto
        have "merged fdt fdto b m2 m'"
          using "2.IH"(2) [OF False t [symmetric] ge a [symmetric] _ o2(1) merged_at_node [OF m2 "2.prems"(2) order_refl] c2]
            "2.prems"(4) r \<open>\<not> c < 0\<close> t ge a True by simp
        then show ?thesis by (rule merged_trans [OF m2 _ order_refl])
      qed
    qed
  qed
qed


section \<open>Finding the targets\<close>

lemma subnode_offset_namelen_at_node:
  "sound m fdt \<Longrightarrow> at_node m fdt off \<Longrightarrow> 0 \<le> fdt_subnode_offset_namelen m fdt off nm \<Longrightarrow>
   at_node m fdt (fdt_subnode_offset_namelen m fdt off nm)"
  using subnode_offset_at_node [of m fdt off nm] by (simp add: fdt_subnode_offset_def)

lemma path_walk_at_node:
  "sound m fdt \<Longrightarrow> off < 0 \<or> at_node m fdt off \<Longrightarrow> 0 \<le> path_walk m fdt off p \<Longrightarrow> at_node m fdt (path_walk m fdt off p)"
proof (induction m fdt off p rule: path_walk.induct)
  case (1 m fdt off p)
  define q where "q = dropWhile (\<lambda>c. c = 47) p"
  define n where "n = fdt_subnode_offset_namelen m fdt off (takeWhile (\<lambda>c. c \<noteq> 47) q)"
  note r = path_walk.simps [of m fdt off p, folded q_def, unfolded Let_def, folded n_def]
  have n: "n < 0 \<or> at_node m fdt n"
  proof (cases "off < 0")
    case True
    then show ?thesis by (simp add: n_def fdt_subnode_offset_namelen_def subnode_loop.simps [of m fdt _ off])
  next
    case False
    then show ?thesis using subnode_offset_namelen_at_node [OF "1.prems"(1)] "1.prems"(2)
      by (cases "n < 0") (auto simp: n_def)
  qed
  show ?case
  proof (cases "p = [] \<or> q = []")
    case True
    then have "path_walk m fdt off p = off" using r by auto
    then show ?thesis using "1.prems"(2,3) by simp
  next
    case False
    then show ?thesis using "1.IH" [OF _ q_def _ n_def _ "1.prems"(1) n] "1.prems"(3) r n by (auto split: if_splits)
  qed
qed

lemma by_phandle_loop_at_node:
  "sound m fdt \<Longrightarrow> off < 0 \<or> at_node m fdt off \<Longrightarrow> 0 \<le> by_phandle_loop m fdt ph off \<Longrightarrow>
   at_node m fdt (by_phandle_loop m fdt ph off)"
proof (induction m fdt ph off rule: by_phandle_loop.induct)
  case (1 m fdt ph off)
  obtain o' d' where n: "fdt_next_node m fdt off None = (o', d')" by fastforce
  have d': "d' = None" using fdt_next_node_depth [OF n] by simp
  note r = by_phandle_loop.simps [of m fdt ph off, unfolded n Let_def fst_conv]
  have at: "at_node m fdt o'" if "0 \<le> o'"
  proof (cases "off < 0")
    case True
    then have "fdt_next_node_loop m fdt 0 None = (o', d')" using n by (simp add: fdt_next_node_def)
    moreover have "on_items m fdt 0" using reaches.here by (auto simp: on_items_def)
    ultimately show ?thesis using next_node_loop_at_node [OF "1.prems"(1)] that d' by blast
  next
    case False
    then show ?thesis using next_node_at_node [OF "1.prems"(1) _ n that] "1.prems"(2) d' by simp
  qed
  show ?case
  proof (cases "0 \<le> o'")
    case True
    then show ?thesis using "1.prems"(1,3) "1.IH" n r at by (auto split: if_splits)
  next
    case False
    then show ?thesis using "1.prems"(3) r by simp
  qed
qed

lemma path_offset_at_node:
  assumes "fdt_path_offset_namelen m fdt p = Some off"
  shows "sound m fdt \<Longrightarrow> at_node m fdt 0 \<Longrightarrow> 0 \<le> off \<Longrightarrow> at_node m fdt off"
proof -
  have "sound m fdt \<longrightarrow> at_node m fdt 0 \<longrightarrow> 0 \<le> off \<longrightarrow> at_node m fdt off"
  proof (rule fdt_path_offset_namelen.raw_induct [OF _ assms], goal_cases)
    case (1 f m fdt p off)
    have IH: "at_node m fdt off" if "f m fdt p = Some off" "sound m fdt" "at_node m fdt 0" "0 \<le> off" for m fdt p off
      using 1(1) that by blast
    show ?case using 1(2)
      by (auto simp: bind_eq_Some_conv not_less split: if_splits option.splits intro!: path_walk_at_node)
         (metis IH not_le)
  qed
  then show "sound m fdt \<Longrightarrow> at_node m fdt 0 \<Longrightarrow> 0 \<le> off \<Longrightarrow> at_node m fdt off" by simp
qed

lemma target_offset_at_node:
  assumes "fdt_overlay_target_offset m fdt fdto fragment = Some (ret, path)" "sound m fdt" "at_node m fdt 0" "0 \<le> ret"
  shows "at_node m fdt ret"
  using assms path_offset_at_node [of m fdt] by_phandle_loop_at_node [of m fdt "- 1"] fdt_getprop_None [of m fdto]
  by (auto simp: fdt_overlay_target_offset_def fdt_node_offset_by_phandle_def fdt_path_offset_def Let_def bind_eq_Some_conv
      split: if_splits option.splits prod.splits)

lemma merge_fragment_merged:
  assumes two: "two_trees m fdt fdto" and root: "at_node m fdt 0" and at: "at_node m fdto c"
    and r: "merge_fragment m fdt fdto c = Some (ret, m')"
  shows "merged fdt fdto 0 m m'"
proof -
  have snd: "sound m fdt" "sound m fdto" using two by (simp_all add: two_trees_def)
  define ov where "ov = fdt_subnode_offset m fdto c (str ''__overlay__'')"
  show ?thesis
  proof (cases "ov < 0")
    case True
    then show ?thesis using r merged_refl [OF two] by (auto simp: merge_fragment_def ov_def [symmetric] Let_def split: if_splits)
  next
    case False
    have ato: "at_node m fdto ov" using subnode_offset_at_node [OF snd(2) at] False by (simp add: ov_def)
    obtain t path where t: "fdt_overlay_target_offset m fdt fdto c = Some (t, path)"
      and m': "(ret, m') = (if t < 0 then (t, m) else overlay_apply_node m fdt t fdto ov)"
      using r False by (auto simp: merge_fragment_def ov_def [symmetric] Let_def bind_eq_Some_conv split: if_splits)
    show ?thesis
    proof (cases "t < 0")
      case True
      then show ?thesis using m' merged_refl [OF two] by simp
    next
      case ge: False
      have att: "at_node m fdt t" using target_offset_at_node [OF t snd(1) root] ge by simp
      have "overlay_apply_node m fdt t fdto ov = (ret, m')" using m' ge by simp
      from overlay_apply_node_merged(1) [OF two att ato this] show ?thesis
        using merged_trans [OF merged_refl [OF two, of 0]] ge by simp
    qed
  qed
qed

lemma merge_fragments_merged:
  "two_trees m fdt fdto \<Longrightarrow> at_node m fdt 0 \<Longrightarrow> c < 0 \<or> at_node m fdto c \<Longrightarrow>
   merge_fragments m fdt fdto c = Some (ret, m') \<Longrightarrow> merged fdt fdto 0 m m'"
proof (induction m fdt fdto c arbitrary: ret m' rule: merge_fragments.induct)
  case (1 m fdt fdto c)
  note r = merge_fragments.simps [of m fdt fdto c]
  show ?case
  proof (cases "c < 0")
    case True
    then show ?thesis using "1.prems"(1,4) r merged_refl by simp
  next
    case False
    then have at: "at_node m fdto c" using "1.prems"(3) by simp
    obtain e m1 where f: "merge_fragment m fdt fdto c = Some (e, m1)" using "1.prems"(4) r False by (auto split: option.splits)
    note fm = merge_fragment_merged [OF "1.prems"(1,2) at f]
    note o1 = merged_overlay [OF "1.prems"(1) fm]
    show ?thesis
    proof (cases "e = 0")
      case False
      then show ?thesis using "1.prems"(4) r \<open>\<not> c < 0\<close> f fm by simp
    next
      case True
      have at1: "at_node m1 fdto c" by (rule merged_subnodes(2) [OF "1.prems"(1) fm at])
      have snd1: "sound m1 fdto" using o1 by (simp add: two_trees_def)
      have c1: "fdt_next_subnode m1 fdto c < 0 \<or> at_node m1 fdto (fdt_next_subnode m1 fdto c)"
        using next_subnode_at_node [OF snd1 at1] by (cases "fdt_next_subnode m1 fdto c < 0") auto
      have "merged fdt fdto 0 m1 m'"
        using "1.IH" [OF False f refl _ o1(1) merged_at_node [OF fm "1.prems"(2) order_refl] c1] "1.prems"(4) r False f True by simp
      then show ?thesis by (rule merged_trans [OF fm _ order_refl])
    qed
  qed
qed

lemma overlay_merge_merged:
  assumes "two_trees m fdt fdto" "at_node m fdt 0" "at_node m fdto 0" "overlay_merge m fdt fdto = Some (ret, m')"
  shows "merged fdt fdto 0 m m'"
proof -
  have snd: "sound m fdto" using assms(1) by (simp add: two_trees_def)
  have "fdt_first_subnode m fdto 0 < 0 \<or> at_node m fdto (fdt_first_subnode m fdto 0)"
    using first_subnode_at_node [OF snd assms(3)] by (cases "fdt_first_subnode m fdto 0 < 0") auto
  then show ?thesis using merge_fragments_merged [OF assms(1,2)] assms(4) by (simp add: overlay_merge_def)
qed

end
