(* ===== verification/Overlay_Spec.thy ===== *)
theory Overlay_Spec
  imports Overlay_Merge
begin

text \<open>
  Around the merge of \<open>fdt_overlay.c\<close>: the phandles of the overlay are shifted without wrapping, and
  the outcome decides which of the two trees stays usable.
\<close>

section \<open>The phandles of the overlay\<close>

lemma be32_ld: "be32 (fdt32_ld m p) = bytes_at m p 4"
proof -
  define a b c d where "a = uint (m p)" and "b = uint (m (p + 1))" and "c = uint (m (p + 2))" and "d = uint (m (p + 3))"
  have r: "0 \<le> a" "a < 256" "0 \<le> b" "b < 256" "0 \<le> c" "c < 256" "0 \<le> d" "d < 256"
    using uint_byte_bounds unfolding a_def b_def c_def d_def by blast+
  define v where "v = a * 16777216 + b * 65536 + c * 256 + d"
  have "v div 16777216 = a" by (rule int_div_pos_eq [where r = "b * 65536 + c * 256 + d"]) (use r in \<open>simp_all add: v_def\<close>)
  moreover have "v div 65536 = a * 256 + b" by (rule int_div_pos_eq [where r = "c * 256 + d"]) (use r in \<open>simp_all add: v_def\<close>)
  moreover have "v div 256 = a * 65536 + b * 256 + c" by (rule int_div_pos_eq [where r = d]) (use r in \<open>simp_all add: v_def\<close>)
  moreover have "fdt32_ld m p = v" by (simp add: fdt32_ld_def v_def a_def b_def c_def d_def)
  ultimately have e: "be32 (fdt32_ld m p) = [byte_of a, byte_of (a * 256 + b), byte_of (a * 65536 + b * 256 + c), byte_of v]"
    by (simp add: be32_def)
  have "(a * 256 + b) mod 256 = b" by (rule int_mod_pos_eq [where q = a]) (use r in simp_all)
  moreover have "(a * 65536 + b * 256 + c) mod 256 = c" by (rule int_mod_pos_eq [where q = "a * 256 + b"]) (use r in simp_all)
  moreover have "v mod 256 = d" by (rule int_mod_pos_eq [where q = "a * 65536 + b * 256 + c"]) (use r in \<open>simp_all add: v_def\<close>)
  ultimately have "byte_of (a * 256 + b) = m (p + 1)" "byte_of (a * 65536 + b * 256 + c) = m (p + 2)" "byte_of v = m (p + 3)"
    by (simp_all only: word_uint_eq_iff uint_byte_of b_def c_def d_def)
  moreover have "byte_of a = m p" by (simp add: byte_of_def a_def)
  ultimately show ?thesis unfolding e by (simp add: numeral_eq_Suc bytes_at_Suc add.assoc)
qed

text \<open>
  A phandle of the overlay is shifted, or left alone where the sum does not fit below the largest
  phandle; the other properties of the node stay.
\<close>

lemma phandle_add_offset:
  assumes snd: "sound m fdt" and at: "at_node m fdt node" and d: "0 \<le> delta" and lt: "delta < 4294967296"
    and r: "overlay_phandle_add_offset m fdt node nm delta = (ret, m')"
  shows "ret \<noteq> 0 \<Longrightarrow> m' = m"
    "ret = 0 \<Longrightarrow> \<exists>v. 0 \<le> v \<and> v + delta < 0xffffffff \<and> prop_bytes m fdt node nm = Some (be32 v)
       \<and> (\<forall>nm'. prop_bytes m' fdt node nm' = (if nm' = nm then Some (be32 (v + delta)) else prop_bytes m fdt node nm'))"
proof -
  have lay: "layout m fdt" using snd by (simp add: sound_def)
  show "ret \<noteq> 0 \<Longrightarrow> m' = m"
    using r fdt_setprop_inplace_undone(1) [OF lay]
    by (auto simp: overlay_phandle_add_offset_def fdt_setprop_inplace_u32_def Let_def split: option.splits prod.splits if_splits)
  assume "ret = 0"
  obtain q where g: "fdt_getprop m fdt node nm = (Some q, 4)"
    using r \<open>ret = 0\<close> fdt_getprop_None [of m fdt node nm]
    by (auto simp: overlay_phandle_add_offset_def split: option.splits prod.splits if_splits)
  define v where "v = fdt32_ld m q"
  have v: "0 \<le> v" "v < 4294967296" by (simp_all add: v_def)
  have nw: "\<not> u32 (v + delta) < v" "u32 (v + delta) \<noteq> 0xffffffff"
    and s: "fdt_setprop_inplace m fdt node nm (be32 (u32 (v + delta))) = (0, m')"
    using r g \<open>ret = 0\<close> unfolding v_def
    by (auto simp: overlay_phandle_add_offset_def fdt_setprop_inplace_u32_def Let_def split: if_splits)
  have sum: "u32 (v + delta) = v + delta"
  proof (rule ccontr)
    assume "u32 (v + delta) \<noteq> v + delta"
    then have "4294967296 \<le> v + delta" using v d by (meson not_le u32_id add_nonneg_nonneg)
    then have "u32 (v + delta) = v + delta - 4294967296" using v lt by (intro u32_wrapped) simp_all
    then show False using nw(1) lt by simp
  qed
  have w: "0 \<le> v + delta" "v + delta < 4294967296" using sum d v u32_bounds [of "v + delta"] by simp_all
  obtain j bn where j: "node_index m fdt node = Some j" "j < length (view m fdt 0)" "view m fdt 0 ! j = Begin bn"
    using at_node_index [OF at] by blast
  note iv = fdt_setprop_inplace_view [OF snd j(1) s]
  note pu = prop_bytes_under [OF snd iv(1) j(1) iv(3) [OF j(1) order_refl] j(2,3) iv(2)]
  have "prop_bytes m fdt node nm = Some (be32 v)" using g be32_ld [of m q] by (simp add: prop_bytes_def v_def)
  moreover have "v + delta < 0xffffffff" using nw(2) sum w by simp
  ultimately show "\<exists>v. 0 \<le> v \<and> v + delta < 0xffffffff \<and> prop_bytes m fdt node nm = Some (be32 v)
       \<and> (\<forall>nm'. prop_bytes m' fdt node nm' = (if nm' = nm then Some (be32 (v + delta)) else prop_bytes m fdt node nm'))"
    using v(1) pu sum by (intro exI [of _ v]) simp
qed

section \<open>The outcome\<close>

lemma fdt_ro_probe_aligned: "0 \<le> fdt_ro_probe_i m fdt \<Longrightarrow> fdt mod 8 = 0"
  using take_bit_eq_mask [of 3 fdt]
  by (auto simp: fdt_ro_probe_i_def Let_def take_bit_eq_mod mask_eq_exp_minus_1 split: if_splits)

lemma fdt_ro_probe_erased: "0 \<le> fdt_ro_probe_i m fdt \<Longrightarrow> fdt_magic m' fdt = 0xffffffff \<Longrightarrow> fdt_ro_probe_i m' fdt = - FDT_ERR_BADMAGIC"
  by (auto simp: fdt_ro_probe_i_def Let_def split: if_splits)

text \<open>
  The overlay is unusable afterwards in any case, and so is the base tree when a step has failed: no
  function of \<open>libfdt\<close> reads either again.
\<close>

lemma fdt_overlay_apply_erases:
  assumes r: "fdt_overlay_apply strtoul m fdt fdto = Some (ret, m')"
    and p: "0 \<le> fdt_ro_probe_i m fdt" "0 \<le> fdt_ro_probe_i m fdto"
  shows "fdt_ro_probe_i m' fdto = - FDT_ERR_BADMAGIC" "ret \<noteq> 0 \<Longrightarrow> fdt_ro_probe_i m' fdt = - FDT_ERR_BADMAGIC"
proof -
  have al: "fdt mod 8 = 0" "fdto mod 8 = 0" using fdt_ro_probe_aligned [OF p(1)] fdt_ro_probe_aligned [OF p(2)] by simp_all
  then have d: "fdto = fdt \<or> fdto + 4 \<le> fdt \<or> fdt + 4 \<le> fdto" by presburger
  obtain m1 where m': "m' = (if ret = 0 then fdt_set_magic m1 fdto 0xffffffff
      else fdt_set_magic (fdt_set_magic m1 fdto 0xffffffff) fdt 0xffffffff)"
    using r p by (auto simp: fdt_overlay_apply_def bind_eq_Some_conv not_less split: if_splits)
  have "fdt_magic m' fdto = 0xffffffff"
    using d by (auto simp: m' fdt_magic_def fdt_set_magic_def fdt32_ld_st_other u32_def)
  then show "fdt_ro_probe_i m' fdto = - FDT_ERR_BADMAGIC" by (rule fdt_ro_probe_erased [OF p(2)])
  assume "ret \<noteq> 0"
  then have "fdt_magic m' fdt = 0xffffffff" by (simp add: m' fdt_magic_def fdt_set_magic_def u32_def)
  then show "fdt_ro_probe_i m' fdt = - FDT_ERR_BADMAGIC" by (rule fdt_ro_probe_erased [OF p(1)])
qed

text \<open>
  The bound check of \<open>fdt_setprop_inplace_namelen_partial\<close> adds in 32 bits. A reference of the
  overlay at the offset \<open>0xfffffffc\<close> passes it and is written four gigabytes behind the value.
\<close>

lemma inplace_partial_wraps:
  assumes "fdt_getprop_namelen m fdt node nm = (Some p, len)" "length val = 4"
  shows "fdt_setprop_inplace_namelen_partial m fdt node nm 0xfffffffc val = (0, put_bytes m (p + 0xfffffffc) val)"
  using assms by (simp add: fdt_setprop_inplace_namelen_partial_def u32_def)

end
