(* ===== verification/Overlay_Properties.thy ===== *)
theory Overlay_Properties
  imports Overlay_Spec Tree_Properties
begin

text \<open>
  The properties of \<open>fdt_overlay.c\<close>, and a concrete pair of trees: the demo tree at 4096 and, at
  8192, an overlay whose fragment \<open>f\<close> has the target path \<open>/cpu\<close> and sets \<open>reg\<close> to one byte.
\<close>

section \<open>The demo tree and an overlay\<close>

definition base_rows :: "byte list list" where
  "base_rows =
    [[208, 13, 254, 237, 0, 0, 0, 160, 0, 0, 0, 56, 0, 0, 0, 100],
     [0, 0, 0, 40, 0, 0, 0, 17, 0, 0, 0, 16, 0, 0, 0, 0],
     [0, 0, 0, 4, 0, 0, 0, 44, 0, 0, 0, 0, 0, 0, 0, 0],
     [0, 0, 0, 0, 0, 0, 0, 0, 0, 0, 0, 1, 0, 0, 0, 0],
     [0, 0, 0, 3, 0, 0, 0, 4, 0, 0, 0, 0, 0, 0, 0, 1],
     [0, 0, 0, 1, 99, 112, 117, 0, 0, 0, 0, 2, 0, 0, 0, 2],
     [0, 0, 0, 9, 114, 101, 103, 0, 0, 0, 0, 0, 0, 0, 0, 0],
     [0, 0, 0, 0, 0, 0, 0, 0, 0, 0, 0, 0, 0, 0, 0, 0],
     [0, 0, 0, 0, 0, 0, 0, 0, 0, 0, 0, 0, 0, 0, 0, 0],
     [0, 0, 0, 0, 0, 0, 0, 0, 0, 0, 0, 0, 0, 0, 0, 0]]"

definition overlay_rows :: "byte list list" where
  "overlay_rows =
    [[208, 13, 254, 237, 0, 0, 0, 156, 0, 0, 0, 56, 0, 0, 0, 140],
     [0, 0, 0, 40, 0, 0, 0, 17, 0, 0, 0, 16, 0, 0, 0, 0],
     [0, 0, 0, 16, 0, 0, 0, 84, 0, 0, 0, 0, 0, 0, 0, 0],
     [0, 0, 0, 0, 0, 0, 0, 0, 0, 0, 0, 1, 0, 0, 0, 0],
     [0, 0, 0, 1, 102, 0, 0, 0, 0, 0, 0, 3, 0, 0, 0, 5],
     [0, 0, 0, 0, 47, 99, 112, 117, 0, 0, 0, 0, 0, 0, 0, 1],
     [95, 95, 111, 118, 101, 114, 108, 97, 121, 95, 95, 0, 0, 0, 0, 3],
     [0, 0, 0, 1, 0, 0, 0, 12, 7, 0, 0, 0, 0, 0, 0, 2],
     [0, 0, 0, 2, 0, 0, 0, 2, 0, 0, 0, 9, 116, 97, 114, 103],
     [101, 116, 45, 112, 97, 116, 104, 0, 114, 101, 103, 0]]"

definition demo_two :: mem where
  "demo_two a =
     (if 4096 \<le> a \<and> a < 4256 then base_rows ! nat ((a - 4096) div 16) ! nat (a mod 16)
      else if 8192 \<le> a \<and> a < 8348 then overlay_rows ! nat ((a - 8192) div 16) ! nat (a mod 16)
      else 0)"

lemma two_blk: "blk demo_two 4096 0 = demo_struct" by code_simp
lemma two_strs: "strs demo_two 4096 = str ''reg'' @ [0]" by code_simp

lemma two_base: "sound demo_two 4096"
proof -
  have "name_at (str ''reg'' @ [0]) 0 \<noteq> None" by code_simp
  moreover have "layout demo_two 4096" by code_simp
  moreover have "fdt_size_dt_struct demo_two 4096 mod 4 = 0" by code_simp
  ultimately show ?thesis unfolding sound_def named_def two_blk two_strs demo_items by simp
qed

lemma two_overlay_items:
  "items (blk demo_two 8192 0) = [Begin [], Begin (str ''f''), Property 0 (str ''/cpu'' @ [0]),
     Begin (str ''__overlay__''), Property 12 [7], Endnode, Endnode, Endnode]"
  by code_simp

lemma two_overlay: "sound demo_two 8192"
proof -
  have "name_at (strs demo_two 8192) 0 \<noteq> None" "name_at (strs demo_two 8192) 12 \<noteq> None" by code_simp+
  moreover have "layout demo_two 8192" by code_simp
  moreover have "fdt_size_dt_struct demo_two 8192 mod 4 = 0" by code_simp
  ultimately show ?thesis unfolding sound_def named_def two_overlay_items by auto
qed

lemma two_disjoint: "two_trees demo_two 4096 8192"
proof -
  have "roomy demo_two 4096" "roomy demo_two 8192" "apart demo_two 4096 8192" by code_simp+
  then show ?thesis using two_base two_overlay by (simp add: two_trees_def)
qed

lemma two_view:
  "view demo_two 4096 0 = [Begin [], Property (Some (str ''reg'')) [0, 0, 0, 1], Begin (str ''cpu''), Endnode, Endnode]"
  unfolding view_def two_blk two_strs demo_items by code_simp

lemma two_cpu_index: "node_index demo_two 4096 24 = Some 2" by code_simp
lemma two_cpu: "at_node demo_two 4096 24"
  using index_at_node [OF two_base two_cpu_index] two_view by simp

lemma two_ov_index: "node_index demo_two 8192 36 = Some 3" by code_simp
lemma two_ov: "at_node demo_two 8192 36"
  using index_at_node [OF two_overlay two_ov_index] by (simp add: view_def two_overlay_items)


text \<open>An overlay whose root has a phandle of one byte.\<close>

definition malformed_rows :: "byte list list" where
  "malformed_rows =
    [[208, 13, 254, 237, 0, 0, 0, 96, 0, 0, 0, 56, 0, 0, 0, 88],
     [0, 0, 0, 40, 0, 0, 0, 17, 0, 0, 0, 16, 0, 0, 0, 0],
     [0, 0, 0, 8, 0, 0, 0, 32, 0, 0, 0, 0, 0, 0, 0, 0],
     [0, 0, 0, 0, 0, 0, 0, 0, 0, 0, 0, 1, 0, 0, 0, 0],
     [0, 0, 0, 3, 0, 0, 0, 1, 0, 0, 0, 0, 7, 0, 0, 0],
     [0, 0, 0, 2, 0, 0, 0, 9, 112, 104, 97, 110, 100, 108, 101, 0]]"

definition demo_malformed :: mem where
  "demo_malformed a =
     (if 4096 \<le> a \<and> a < 4256 then base_rows ! nat ((a - 4096) div 16) ! nat (a mod 16)
      else if 8192 \<le> a \<and> a < 8288 then malformed_rows ! nat ((a - 8192) div 16) ! nat (a mod 16)
      else 0)"

text \<open>\<open>strtoul\<close> as the repository's own parser would do it.\<close>

definition simple_strtoul_taken :: "byte list \<Rightarrow> int \<Rightarrow> int \<times> nat" where
  "simple_strtoul_taken s base = (case simple_strtoull s base of (v, rest) \<Rightarrow> (v, length s - length rest))"

section \<open>Properties\<close>

text \<open>
  C4: merging a node of an overlay into a node of the base tree, its properties and the whole subtree
  below it, is a script of edits at nodes of the base: the base stays sound and nested, its list of
  items changes by operations on nodes only, and no byte of the overlay changes, whatever step fails.
\<close>

lemma overlay_merge_is_script:
  assumes "two_trees m fdt fdto" "at_node m fdt node0" "at_node m fdto node" "nested (view m fdt 0)"
    and "overlay_apply_node m fdt node0 fdto node = (ret, m')"
  shows "sound m' fdt \<and> nested (view m' fdt 0) \<and> tree_step\<^sup>*\<^sup>* (view m fdt 0) (view m' fdt 0)
    \<and> same_blob fdto m m'"
proof -
  have "merged fdt fdto node0 m m'" by (rule overlay_apply_node_merged(1) [OF assms(1,2,3,5)])
  then show ?thesis using edits_nested [of fdt m m'] assms(1,4) by (simp add: merged_def two_trees_def)
qed

lemma overlay_merge_is_script_witness:
  "sound (snd (overlay_apply_node demo_two 4096 24 8192 36)) 4096
    \<and> nested (view (snd (overlay_apply_node demo_two 4096 24 8192 36)) 4096 0)"
proof -
  have "nested (view demo_two 4096 0)" unfolding two_view by code_simp
  then show ?thesis
    using overlay_merge_is_script [OF two_disjoint two_cpu two_ov _ surjective_pairing] by blast
qed

text \<open>
  C12: when the properties of an overlay's node have been merged, the node of the base has each of them
  with the overlay's value, set in the overlay's order, and everything else of the base is as before.
\<close>

lemma overlay_properties_are_set:
  assumes "two_trees m fdt fdto" "at_node m fdt node0" "at_node m fdto node" "node_index m fdt node0 = Some j"
    and "apply_properties m fdt node0 fdto (fdt_first_property_offset m fdto node) = (0, m')"
  shows "view m' fdt 0 = under j (aset_all (aprops (tl (view m fdto node)))) (view m fdt 0)"
proof -
  have snd: "sound m fdto" using assms(1) by (simp add: two_trees_def)
  note f = first_property [OF snd assms(3)]
  show ?thesis using apply_properties_merged [OF assms(1,2) f(1) assms(5)] assms(4) f(2) by simp
qed

lemma demo_merge: "fst (apply_properties demo_two 4096 24 8192 (fdt_first_property_offset demo_two 8192 36)) = 0"
  by code_simp

lemma overlay_properties_are_set_witness:
  "view (snd (apply_properties demo_two 4096 24 8192 (fdt_first_property_offset demo_two 8192 36))) 4096 0 =
     [Begin [], Property (Some (str ''reg'')) [0, 0, 0, 1], Begin (str ''cpu''), Property (Some (str ''reg'')) [7], Endnode, Endnode]"
proof -
  define r where "r = apply_properties demo_two 4096 24 8192 (fdt_first_property_offset demo_two 8192 36)"
  have r: "apply_properties demo_two 4096 24 8192 (fdt_first_property_offset demo_two 8192 36) = (0, snd r)"
    using demo_merge by (simp add: r_def prod_eq_iff)
  have a: "aprops (tl (view demo_two 8192 36)) = [(str ''reg'', [7])]" by code_simp
  have "under 2 (aset_all [(str ''reg'', [7])]) (view demo_two 4096 0) =
      [Begin [], Property (Some (str ''reg'')) [0, 0, 0, 1], Begin (str ''cpu''), Property (Some (str ''reg'')) [7], Endnode, Endnode]"
    unfolding two_view by code_simp
  then show ?thesis
    unfolding r_def [symmetric]
    using overlay_properties_are_set [OF two_disjoint two_cpu two_ov two_cpu_index r] a by simp
qed

text \<open>
  C18: a phandle of the overlay is shifted by the largest phandle of the base without wrapping and
  below the reserved value, the other properties of its node stay, and where it cannot be shifted
  nothing is written.
\<close>

lemma phandle_shift_no_wrap:
  assumes "sound m fdt" "at_node m fdt node" "0 \<le> delta" "delta < 4294967296"
    and "overlay_phandle_add_offset m fdt node nm delta = (ret, m')"
  shows "(ret \<noteq> 0 \<longrightarrow> m' = m) \<and>
    (ret = 0 \<longrightarrow> (\<exists>v. 0 \<le> v \<and> v + delta < 0xffffffff \<and> prop_bytes m fdt node nm = Some (be32 v)
       \<and> (\<forall>nm'. prop_bytes m' fdt node nm' = (if nm' = nm then Some (be32 (v + delta)) else prop_bytes m fdt node nm'))))"
  using phandle_add_offset [OF assms(1,2,3,4,5)] by blast

lemma two_root: "at_node demo_two 4096 0"
proof -
  have "node_index demo_two 4096 0 = Some 0" by code_simp
  then show ?thesis using index_at_node [OF two_base] two_view by simp
qed

lemma phandle_shift_no_wrap_witness:
  "prop_bytes (snd (overlay_phandle_add_offset demo_two 4096 0 (str ''reg'') 41)) 4096 0 (str ''reg'') = Some [0, 0, 0, 42]"
proof -
  define r where "r = overlay_phandle_add_offset demo_two 4096 0 (str ''reg'') 41"
  have "fst r = 0" unfolding r_def by code_simp
  then have r: "overlay_phandle_add_offset demo_two 4096 0 (str ''reg'') 41 = (0, snd r)"
    by (simp add: r_def prod_eq_iff)
  have b: "prop_bytes demo_two 4096 0 (str ''reg'') = Some [0, 0, 0, 1]" by code_simp
  obtain v where v: "0 \<le> v" "v + 41 < 0xffffffff" "Some [0, 0, 0, 1] = Some (be32 v)"
    "prop_bytes (snd r) 4096 0 (str ''reg'') = Some (be32 (v + 41))"
    using phandle_shift_no_wrap [OF two_base two_root _ _ r] b by auto
  have z: "v div 16777216 mod 256 = 0" "v div 65536 mod 256 = 0" "v div 256 mod 256 = 0" "v mod 256 = 1"
    using v(3) by (simp_all add: be32_def word_uint_eq_iff)
  have "v < 16777216" using z(1) v(1,2) by (auto simp: mod_pos_pos_trivial pos_imp_zdiv_nonneg_iff zdiv_eq_0_iff)
  then have "v < 65536" using z(2) v(1) by (auto simp: mod_pos_pos_trivial pos_imp_zdiv_nonneg_iff zdiv_eq_0_iff)
  then have "v < 256" using z(3) v(1) by (auto simp: mod_pos_pos_trivial pos_imp_zdiv_nonneg_iff zdiv_eq_0_iff)
  then have "v = 1" using z(4) v(1) by simp
  then have "prop_bytes (snd r) 4096 0 (str ''reg'') = Some (be32 42)" using v(4) by simp
  moreover have "be32 42 = [0, 0, 0, 42]" by code_simp
  ultimately show ?thesis by (simp add: r_def)
qed

text \<open>
  C19: when \<open>fdt_ro_probe_\<close> accepts the base tree and the overlay, then after \<open>fdt_overlay_apply\<close> it refuses
  the overlay with \<open>FDT_ERR_BADMAGIC\<close>, and the base tree too when a step has failed. When it refuses one
  of the two at the start, the call returns that error, of the base tree first, and writes nothing.
  Functions that do not call \<open>fdt_ro_probe_\<close>, such as \<open>fdt_next_node\<close> and \<open>fdt_num_mem_rsv\<close>, do not see the mark.
\<close>

lemma overlay_apply_erases:
  assumes "fdt_overlay_apply strtoul m fdt fdto = Some (ret, m')"
  shows "if fdt_ro_probe_i m fdt < 0 then ret = fdt_ro_probe_i m fdt \<and> m' = m
    else if fdt_ro_probe_i m fdto < 0 then ret = fdt_ro_probe_i m fdto \<and> m' = m
    else fdt_ro_probe_i m' fdto = - FDT_ERR_BADMAGIC
      \<and> (ret = 0 \<or> fdt_ro_probe_i m' fdt = - FDT_ERR_BADMAGIC)"
  using fdt_overlay_apply_erases [OF assms] assms by (auto simp: fdt_overlay_apply_def not_less split: if_splits)

lemma overlay_apply_erases_witness:
  "\<exists>ret m'. fdt_overlay_apply simple_strtoul_taken demo_malformed 4096 8192 = Some (ret, m') \<and> ret \<noteq> 0 \<and> fdt_ro_probe_i m' 4096 = - FDT_ERR_BADMAGIC"
proof -
  have p: "0 \<le> fdt_ro_probe_i demo_malformed 4096" "0 \<le> fdt_ro_probe_i demo_malformed 8192" by code_simp+
  have "fdt_find_max_phandle demo_malformed 4096 = (0, Some 0)" by code_simp
  moreover have "fst (overlay_adjust_local_phandles demo_malformed 8192 0) = - FDT_ERR_BADPHANDLE" by code_simp
  ultimately obtain m' where "fdt_overlay_apply simple_strtoul_taken demo_malformed 4096 8192 = Some (- FDT_ERR_BADPHANDLE, m')"
    using p by (cases "overlay_adjust_local_phandles demo_malformed 8192 0") (simp add: fdt_overlay_apply_def overlay_steps_def)
  then show ?thesis using overlay_apply_erases [of simple_strtoul_taken demo_malformed 4096 8192 "- FDT_ERR_BADPHANDLE" m'] p
    by (intro exI [of _ "- FDT_ERR_BADPHANDLE"] exI [of _ m']) auto
qed

end
