(* ===== verification/Crc32.thy ===== *)
theory Crc32
  imports Efi_Spec
begin

text \<open>
  The checksum of EFI tables, \<open>src/lib/crc.c\<close> of gnu-efi: \<open>CalculateCrc\<close> with its table of 256 words,
  and the functions that set and check the field \<open>CRC32\<close> of an \<open>EFI_0x00000000, 0x77073096, 0xEE0E612C, 0x990951BA, 0x076DC419, 0x706AF48F, 0xE963A535, 0x9E6495A3,
     0x0EDB8832, 0x79DCB8A4, 0xE0D5E91E, 0x97D2D988, 0x09B64C2B, 0x7EB17CBD, 0xE7B82D07, 0x90BF1D91,
     0x1DB71064, 0x6AB020F2, 0xF3B97148, 0x84BE41DE, 0x1ADAD47D, 0x6DDDE4EB, 0xF4D4B551, 0x83D385C7,
     0x136C9856, 0x646BA8C0, 0xFD62F97A, 0x8A65C9EC, 0x14015C4F, 0x63066CD9, 0xFA0F3D63, 0x8D080DF5,
     0x3B6E20C8, 0x4C69105E, 0xD56041E4, 0xA2677172, 0x3C03E4D1, 0x4B04D447, 0xD20D85FD, 0xA50AB56B,
     0x35B5A8FA, 0x42B2986C, 0xDBBBC9D6, 0xACBCF940, 0x32D86CE3, 0x45DF5C75, 0xDCD60DCF, 0xABD13D59,
     0x26D930AC, 0x51DE003A, 0xC8D75180, 0xBFD06116, 0x21B4F4B5, 0x56B3C423, 0xCFBA9599, 0xB8BDA50F,
     0x2802B89E, 0x5F058808, 0xC60CD9B2, 0xB10BE924, 0x2F6F7C87, 0x58684C11, 0xC1611DAB, 0xB6662D3D,
     0x76DC4190, 0x01DB7106, 0x98D220BC, 0xEFD5102A, 0x71B18589, 0x06B6B51F, 0x9FBFE4A5, 0xE8B8D433,
     0x7807C9A2, 0x0F00F934, 0x9609A88E, 0xE10E9818, 0x7F6A0DBB, 0x086D3D2D, 0x91646C97, 0xE6635C01,
     0x6B6B51F4, 0x1C6C6162, 0x856530D8, 0xF262004E, 0x6C0695ED, 0x1B01A57B, 0x8208F4C1, 0xF50FC457,
     0x65B0D9C6, 0x12B7E950, 0x8BBEB8EA, 0xFCB9887C, 0x62DD1DDF, 0x15DA2D49, 0x8CD37CF3, 0xFBD44C65,
     0x4DB26158, 0x3AB551CE, 0xA3BC0074, 0xD4BB30E2, 0x4ADFA541, 0x3DD895D7, 0xA4D1C46D, 0xD3D6F4FB,
     0x4369E96A, 0x346ED9FC, 0xAD678846, 0xDA60B8D0, 0x44042D73, 0x33031DE5, 0xAA0A4C5F, 0xDD0D7CC9,
     0x5005713C, 0x270241AA, 0xBE0B1010, 0xC90C2086, 0x5768B525, 0x206F85B3, 0xB966D409, 0xCE61E49F,
     0x5EDEF90E, 0x29D9C998, 0xB0D09822, 0xC7D7A8B4, 0x59B33D17, 0x2EB40D81, 0xB7BD5C3B, 0xC0BA6CAD,
     0xEDB88320, 0x9ABFB3B6, 0x03B6E20C, 0x74B1D29A, 0xEAD54739, 0x9DD277AF, 0x04DB2615, 0x73DC1683,
     0xE3630B12, 0x94643B84, 0x0D6D6A3E, 0x7A6A5AA8, 0xE40ECF0B, 0x9309FF9D, 0x0A00AE27, 0x7D079EB1,
     0xF00F9344, 0x8708A3D2, 0x1E01F268, 0x6906C2FE, 0xF762575D, 0x806567CB, 0x196C3671, 0x6E6B06E7,
     0xFED41B76, 0x89D32BE0, 0x10DA7A5A, 0x67DD4ACC, 0xF9B9DF6F, 0x8EBEEFF9, 0x17B7BE43, 0x60B08ED5,
     0xD6D6A3E8, 0xA1D1937E, 0x38D8C2C4, 0x4FDFF252, 0xD1BB67F1, 0xA6BC5767, 0x3FB506DD, 0x48B2364B,
     0xD80D2BDA, 0xAF0A1B4C, 0x36034AF6, 0x41047A60, 0xDF60EFC3, 0xA867DF55, 0x316E8EEF, 0x4669BE79,
     0xCB61B38C, 0xBC66831A, 0x256FD2A0, 0x5268E236, 0xCC0C7795, 0xBB0B4703, 0x220216B9, 0x5505262F,
     0xC5BA3BBE, 0xB2BD0B28, 0x2BB45A92, 0x5CB36A04, 0xC2D7FFA7, 0xB5D0CF31, 0x2CD99E8B, 0x5BDEAE1D,
     0x9B64C2B0, 0xEC63F226, 0x756AA39C, 0x026D930A, 0x9C0906A9, 0xEB0E363F, 0x72076785, 0x05005713,
     0x95BF4A82, 0xE2B87A14, 0x7BB12BAE, 0x0CB61B38, 0x92D28E9B, 0xE5D5BE0D, 0x7CDCEFB7, 0x0BDBDF21,
     0x86D3D2D4, 0xF1D4E242, 0x68DDB3F8, 0x1FDA836E, 0x81BE16CD, 0xF6B9265B, 0x6FB077E1, 0x18B74777,
     0x88085AE6, 0xFF0F6A70, 0x66063BCA, 0x11010B5C, 0x8F659EFF, 0xF862AE69, 0x616BFFD3, 0x166CCF45,
     0xA00AE278, 0xD70DD2EE, 0x4E048354, 0x3903B3C2, 0xA7672661, 0xD06016F7, 0x4969474D, 0x3E6E77DB,
     0xAED16A4A, 0xD9D65ADC, 0x40DF0B66, 0x37D83BF0, 0xA9BCAE53, 0xDEBB9EC5, 0x47B2CF7F, 0x30B5FFE9,
     0xBDBDF21C, 0xCABAC28A, 0x53B39330, 0x24B4A3A6, 0xBAD03605, 0xCDD70693, 0x54DE5729, 0x23D967BF,
     0xB3667A2E, 0xC4614AB8, 0x5D681B02, 0x2A6F2B94, 0xB40BBE37, 0xC30C8EA1, 0x5A05DF1B, 0x2D02EF8DLE_HEADER\<close>. The reference is the
  division by the polynomial, one bit at a time: \<open>crc32\<close>.
\<close>

unbundle bit_operations_syntax

section \<open>The code\<close>

definition CRCTable :: "32 word list" where
  "CRCTable =
    [0x00000000, 0x77073096, 0xEE0E612C, 0x990951BA, 0x076DC419, 0x706AF48F, 0xE963A535, 0x9E6495A3,
     0x0EDB8832, 0x79DCB8A4, 0xE0D5E91E, 0x97D2D988, 0x09B64C2B, 0x7EB17CBD, 0xE7B82D07, 0x90BF1D91,
     0x1DB71064, 0x6AB020F2, 0xF3B97148, 0x84BE41DE, 0x1ADAD47D, 0x6DDDE4EB, 0xF4D4B551, 0x83D385C7,
     0x136C9856, 0x646BA8C0, 0xFD62F97A, 0x8A65C9EC, 0x14015C4F, 0x63066CD9, 0xFA0F3D63, 0x8D080DF5,
     0x3B6E20C8, 0x4C69105E, 0xD56041E4, 0xA2677172, 0x3C03E4D1, 0x4B04D447, 0xD20D85FD, 0xA50AB56B,
     0x35B5A8FA, 0x42B2986C, 0xDBBBC9D6, 0xACBCF940, 0x32D86CE3, 0x45DF5C75, 0xDCD60DCF, 0xABD13D59,
     0x26D930AC, 0x51DE003A, 0xC8D75180, 0xBFD06116, 0x21B4F4B5, 0x56B3C423, 0xCFBA9599, 0xB8BDA50F,
     0x2802B89E, 0x5F058808, 0xC60CD9B2, 0xB10BE924, 0x2F6F7C87, 0x58684C11, 0xC1611DAB, 0xB6662D3D,
     0x76DC4190, 0x01DB7106, 0x98D220BC, 0xEFD5102A, 0x71B18589, 0x06B6B51F, 0x9FBFE4A5, 0xE8B8D433,
     0x7807C9A2, 0x0F00F934, 0x9609A88E, 0xE10E9818, 0x7F6A0DBB, 0x086D3D2D, 0x91646C97, 0xE6635C01,
     0x6B6B51F4, 0x1C6C6162, 0x856530D8, 0xF262004E, 0x6C0695ED, 0x1B01A57B, 0x8208F4C1, 0xF50FC457,
     0x65B0D9C6, 0x12B7E950, 0x8BBEB8EA, 0xFCB9887C, 0x62DD1DDF, 0x15DA2D49, 0x8CD37CF3, 0xFBD44C65,
     0x4DB26158, 0x3AB551CE, 0xA3BC0074, 0xD4BB30E2, 0x4ADFA541, 0x3DD895D7, 0xA4D1C46D, 0xD3D6F4FB,
     0x4369E96A, 0x346ED9FC, 0xAD678846, 0xDA60B8D0, 0x44042D73, 0x33031DE5, 0xAA0A4C5F, 0xDD0D7CC9,
     0x5005713C, 0x270241AA, 0xBE0B1010, 0xC90C2086, 0x5768B525, 0x206F85B3, 0xB966D409, 0xCE61E49F,
     0x5EDEF90E, 0x29D9C998, 0xB0D09822, 0xC7D7A8B4, 0x59B33D17, 0x2EB40D81, 0xB7BD5C3B, 0xC0BA6CAD,
     0xEDB88320, 0x9ABFB3B6, 0x03B6E20C, 0x74B1D29A, 0xEAD54739, 0x9DD277AF, 0x04DB2615, 0x73DC1683,
     0xE3630B12, 0x94643B84, 0x0D6D6A3E, 0x7A6A5AA8, 0xE40ECF0B, 0x9309FF9D, 0x0A00AE27, 0x7D079EB1,
     0xF00F9344, 0x8708A3D2, 0x1E01F268, 0x6906C2FE, 0xF762575D, 0x806567CB, 0x196C3671, 0x6E6B06E7,
     0xFED41B76, 0x89D32BE0, 0x10DA7A5A, 0x67DD4ACC, 0xF9B9DF6F, 0x8EBEEFF9, 0x17B7BE43, 0x60B08ED5,
     0xD6D6A3E8, 0xA1D1937E, 0x38D8C2C4, 0x4FDFF252, 0xD1BB67F1, 0xA6BC5767, 0x3FB506DD, 0x48B2364B,
     0xD80D2BDA, 0xAF0A1B4C, 0x36034AF6, 0x41047A60, 0xDF60EFC3, 0xA867DF55, 0x316E8EEF, 0x4669BE79,
     0xCB61B38C, 0xBC66831A, 0x256FD2A0, 0x5268E236, 0xCC0C7795, 0xBB0B4703, 0x220216B9, 0x5505262F,
     0xC5BA3BBE, 0xB2BD0B28, 0x2BB45A92, 0x5CB36A04, 0xC2D7FFA7, 0xB5D0CF31, 0x2CD99E8B, 0x5BDEAE1D,
     0x9B64C2B0, 0xEC63F226, 0x756AA39C, 0x026D930A, 0x9C0906A9, 0xEB0E363F, 0x72076785, 0x05005713,
     0x95BF4A82, 0xE2B87A14, 0x7BB12BAE, 0x0CB61B38, 0x92D28E9B, 0xE5D5BE0D, 0x7CDCEFB7, 0x0BDBDF21,
     0x86D3D2D4, 0xF1D4E242, 0x68DDB3F8, 0x1FDA836E, 0x81BE16CD, 0xF6B9265B, 0x6FB077E1, 0x18B74777,
     0x88085AE6, 0xFF0F6A70, 0x66063BCA, 0x11010B5C, 0x8F659EFF, 0xF862AE69, 0x616BFFD3, 0x166CCF45,
     0xA00AE278, 0xD70DD2EE, 0x4E048354, 0x3903B3C2, 0xA7672661, 0xD06016F7, 0x4969474D, 0x3E6E77DB,
     0xAED16A4A, 0xD9D65ADC, 0x40DF0B66, 0x37D83BF0, 0xA9BCAE53, 0xDEBB9EC5, 0x47B2CF7F, 0x30B5FFE9,
     0xBDBDF21C, 0xCABAC28A, 0x53B39330, 0x24B4A3A6, 0xBAD03605, 0xCDD70693, 0x54DE5729, 0x23D967BF,
     0xB3667A2E, 0xC4614AB8, 0x5D681B02, 0x2A6F2B94, 0xB40BBE37, 0xC30C8EA1, 0x5A05DF1B, 0x2D02EF8D]"

text \<open>\<open>while (Size)\<close>; \<open>Crc\<close> is a \<open>UINTN\<close>, 64 bits wide.\<close>

primrec crc_loop :: "mem \<Rightarrow> addr \<Rightarrow> nat \<Rightarrow> 64 word \<Rightarrow> 64 word" where
  "crc_loop m pt 0 crc = crc"
| "crc_loop m pt (Suc Size) crc =
     crc_loop m (pt + 1) Size (drop_bit 8 crc XOR ucast (CRCTable ! unat ((ucast crc :: byte) XOR m pt)))"

definition CalculateCrc :: "mem \<Rightarrow> addr \<Rightarrow> nat \<Rightarrow> 32 word" where
  "CalculateCrc m pt Size = ucast (crc_loop m pt Size 0xffffffff XOR 0xffffffff)"

text \<open>The fields \<open>HeaderSize\<close> and \<open>CRC32\<close> of the header.\<close>

definition HeaderSize :: "mem \<Rightarrow> addr \<Rightarrow> int" where "HeaderSize m Hdr = ld_le m (Hdr + 12) 4"
definition CRC32 :: "mem \<Rightarrow> addr \<Rightarrow> int" where "CRC32 m Hdr = ld_le m (Hdr + 16) 4"

definition SetCrcAltSize :: "mem \<Rightarrow> int \<Rightarrow> addr \<Rightarrow> mem" where
  "SetCrcAltSize m Size Hdr =
     (let m = st_le m (Hdr + 16) 4 0
      in st_le m (Hdr + 16) 4 (uint (CalculateCrc m Hdr (nat Size))))"

definition SetCrc :: "mem \<Rightarrow> addr \<Rightarrow> mem" where
  "SetCrc m Hdr = SetCrcAltSize m (HeaderSize m Hdr) Hdr"

definition CheckCrcAltSize :: "mem \<Rightarrow> int \<Rightarrow> int \<Rightarrow> addr \<Rightarrow> bool \<times> mem" where
  "CheckCrcAltSize m MaxSize Size Hdr =
     (if Size = 0 then (False, m)
      else if MaxSize \<noteq> 0 \<and> Size > MaxSize then (False, m)
      else
        (let OrgCrc = CRC32 m Hdr;
             m = st_le m (Hdr + 16) 4 0;
             crc = CalculateCrc m Hdr (nat Size);
             m = st_le m (Hdr + 16) 4 OrgCrc
         in (OrgCrc = uint crc, m)))"

definition CheckCrc :: "mem \<Rightarrow> int \<Rightarrow> addr \<Rightarrow> bool \<times> mem" where
  "CheckCrc m MaxSize Hdr = CheckCrcAltSize m MaxSize (HeaderSize m Hdr) Hdr"

section \<open>Division by the polynomial\<close>

text \<open>One step of the register, the bits in reflected order.\<close>

definition crc_bit :: "32 word \<Rightarrow> 32 word" where
  "crc_bit x = (if bit x 0 then drop_bit 1 x XOR 0xEDB88320 else drop_bit 1 x)"

definition crc_byte :: "byte \<Rightarrow> 32 word \<Rightarrow> 32 word" where
  "crc_byte b s = (crc_bit ^^ 8) (s XOR ucast b)"

definition crc32 :: "byte list \<Rightarrow> 32 word" where
  "crc32 bs = fold crc_byte bs 0xffffffff XOR 0xffffffff"

lemma crc_bit_xor: "crc_bit (x XOR y) = crc_bit x XOR crc_bit y"
  by (simp add: crc_bit_def bit_xor_iff xor.assoc xor.left_commute xor.commute)

lemma crc_bits_xor: "(crc_bit ^^ n) (x XOR y) = (crc_bit ^^ n) x XOR (crc_bit ^^ n) y"
  by (induction n arbitrary: x y) (simp_all add: crc_bit_xor)

text \<open>Bits that are zero pass through the register without the polynomial.\<close>

lemma crc_bits_zero: "take_bit n x = 0 \<Longrightarrow> (crc_bit ^^ n) x = drop_bit n x"
proof (induction n arbitrary: x)
  case (Suc n)
  have b: "\<not> bit x i" if "i < Suc n" for i
    using Suc.prems that by (metis bit_0_eq bit_take_bit_iff bot_apply bot_bool_def)
  have "take_bit n (drop_bit 1 x) = 0"
    by (rule bit_eqI) (auto simp: bit_take_bit_iff bit_drop_bit_eq b)
  moreover have "crc_bit x = drop_bit 1 x" using b [of 0] by (simp add: crc_bit_def)
  ultimately show ?case using Suc.IH [of "drop_bit 1 x"]
    by (simp add: funpow_swap1 drop_bit_drop_bit del: funpow.simps add: funpow_Suc_right)
qed simp


text \<open>The table holds the register after the eight bits of a byte.\<close>

definition grow :: "32 word \<Rightarrow> 32 word list \<Rightarrow> 32 word list" where
  "grow w t = t @ map (\<lambda>x. w XOR x) t"

lemma basis:
  "(crc_bit ^^ 8) 1 = 0x77073096" "(crc_bit ^^ 8) 2 = 0xEE0E612C" "(crc_bit ^^ 8) 4 = 0x076DC419" "(crc_bit ^^ 8) 8 = 0x0EDB8832"
  "(crc_bit ^^ 8) 16 = 0x1DB71064" "(crc_bit ^^ 8) 32 = 0x3B6E20C8" "(crc_bit ^^ 8) 64 = 0x76DC4190" "(crc_bit ^^ 8) 128 = 0xEDB88320"
  by code_simp+

lemma table_grows:
  "CRCTable = grow 0xEDB88320 (grow 0x76DC4190 (grow 0x3B6E20C8 (grow 0x1DB71064 (grow 0x0EDB8832 (grow 0x076DC419
     (grow 0xEE0E612C (grow 0x77073096 [0])))))))"
  by code_simp


lemma word_of_nat_high:
  assumes "i < 2 ^ k"
  shows "(word_of_nat (2 ^ k + i) :: 32 word) = 2 ^ k XOR word_of_nat i"
proof -
  have t: "take_bit k i = i" by (rule take_bit_nat_eq_self [OF assms])
  have "2 ^ k AND i = 0"
    by (rule bit_eqI) (metis t bit_and_iff bit_exp_iff bit_take_bit_iff bit_0_eq bot_apply bot_bool_def order_less_irrefl)
  then have "2 ^ k + i = 2 ^ k XOR i" by (rule disjunctive_add_eq_xor)
  then show ?thesis by (simp add: of_nat_xor_eq)
qed

lemma grow_table:
  assumes "t = map (\<lambda>i. (crc_bit ^^ 8) (word_of_nat i)) [0..<2 ^ k]"
  shows "grow ((crc_bit ^^ 8) (2 ^ k)) t = map (\<lambda>i. (crc_bit ^^ 8) (word_of_nat i)) [0..<2 ^ Suc k]"
proof (rule nth_equalityI)
  fix i
  assume "i < length (grow ((crc_bit ^^ 8) (2 ^ k)) t)"
  then have i: "i < 2 ^ k + 2 ^ k" by (simp add: grow_def assms)
  show "grow ((crc_bit ^^ 8) (2 ^ k)) t ! i = map (\<lambda>i. (crc_bit ^^ 8) (word_of_nat i)) [0..<2 ^ Suc k] ! i"
  proof (cases "i < 2 ^ k")
    case True
    then show ?thesis by (simp add: grow_def assms nth_append del: funpow.simps)
  next
    case False
    then obtain j where "i = 2 ^ k + j" "j < 2 ^ k" using i by (metis le_Suc_ex linorder_not_less nat_add_left_cancel_less)
    then show ?thesis using word_of_nat_high [of j k]
      by (simp add: grow_def assms nth_append crc_bits_xor)
  qed
qed (simp add: grow_def assms)

lemma table_is_polynomial: "CRCTable = map (\<lambda>i. (crc_bit ^^ 8) (word_of_nat i)) [0..<256]"
proof -
  have t: "[0] = map (\<lambda>i. (crc_bit ^^ 8) (word_of_nat i)) [0..<2 ^ 0]"
    using crc_bits_zero [of 8 0] by simp
  note grown = t [THEN grow_table, THEN grow_table, THEN grow_table, THEN grow_table, THEN grow_table, THEN grow_table, THEN grow_table, THEN grow_table]
  show ?thesis using grown unfolding table_grows basis [symmetric] by simp
qed


lemma table_entry: "CRCTable ! unat b = (crc_bit ^^ 8) (ucast b)" for b :: byte
proof -
  have "unat b < 2 ^ LENGTH(8)" by (rule unsigned_less)
  then have b: "unat b < 256" by simp
  have "CRCTable ! unat b = (crc_bit ^^ 8) (word_of_nat (unat b))"
    unfolding table_is_polynomial using b by (simp del: funpow.simps)
  moreover have "(word_of_nat (unat b) :: 32 word) = ucast b" by (simp add: unsigned_of_nat)
  ultimately show ?thesis by simp
qed

lemma crc_step:
  "drop_bit 8 (ucast s :: 64 word) XOR ucast (CRCTable ! unat ((ucast (ucast s :: 64 word) :: byte) XOR b))
     = ucast (crc_byte b s)" for s :: "32 word"
proof -
  let ?lo = "ucast ((ucast s :: byte) XOR b) :: 32 word"
  have split: "s XOR ucast b = push_bit 8 (drop_bit 8 s) XOR ?lo"
    by (rule bit_word_eqI) (auto simp: bit_simps)
  have "drop_bit 8 (push_bit 8 (drop_bit 8 s)) = drop_bit 8 s"
  proof (rule bit_word_eqI)
    fix n
    show "bit (drop_bit 8 (push_bit 8 (drop_bit 8 s))) n = bit (drop_bit 8 s) n"
      using bit_imp_le_length [of s "8 + n"] by (auto simp: bit_simps)
  qed
  then have z: "(crc_bit ^^ 8) (push_bit 8 (drop_bit 8 s)) = drop_bit 8 s"
    by (subst crc_bits_zero) (auto simp: take_bit_push_bit)
  have "crc_byte b s = drop_bit 8 s XOR (crc_bit ^^ 8) ?lo"
    unfolding crc_byte_def split crc_bits_xor z ..
  moreover have "CRCTable ! unat ((ucast (ucast s :: 64 word) :: byte) XOR b) = (crc_bit ^^ 8) ?lo"
  proof -
    have "(ucast (ucast s :: 64 word) :: byte) = ucast s" by (rule bit_word_eqI) (auto simp: bit_simps)
    then show ?thesis using table_entry [of "(ucast s :: byte) XOR b"] by (simp only:)
  qed
  moreover have "ucast (drop_bit 8 s XOR w) = drop_bit 8 (ucast s) XOR (ucast w :: 64 word)" for w
    by (rule bit_word_eqI) (auto simp: bit_simps dest: bit_imp_le_length)
  ultimately show ?thesis by simp
qed

lemma crc_loop_fold: "crc_loop m pt n (ucast s) = ucast (fold crc_byte (bytes_at m pt n) s)"
  by (induction n arbitrary: pt s) (simp_all add: bytes_at_Suc crc_step del: funpow.simps)

lemma calculate_crc: "CalculateCrc m pt n = crc32 (bytes_at m pt n)"
proof -
  have "(0xffffffff :: 64 word) = ucast (0xffffffff :: 32 word)" by simp
  then have "crc_loop m pt n 0xffffffff = ucast (fold crc_byte (bytes_at m pt n) 0xffffffff)"
    by (simp only: crc_loop_fold)
  moreover have "ucast ((ucast w :: 64 word) XOR 0xffffffff) = w XOR 0xffffffff" for w :: "32 word"
    by (rule bit_word_eqI) (auto simp: bit_simps)
  ultimately show ?thesis by (simp add: CalculateCrc_def crc32_def)
qed

section \<open>What the checksum detects\<close>

lemma xor_zero: "x XOR y = 0 \<longleftrightarrow> x = y" for x :: "'a::len word"
  by (metis xor.assoc xor.right_neutral xor_self_eq xor.left_neutral)

lemma xor_cancel: "x XOR z = y XOR z \<longleftrightarrow> x = y" for x :: "'a::len word"
  by (metis xor.assoc xor.right_neutral xor_self_eq)

lemma crc_bit_zero:
  assumes "crc_bit z = 0"
  shows "z = 0"
proof (cases "bit z 0")
  case True
  then have d: "drop_bit 1 z = 0xEDB88320" using assms by (simp add: crc_bit_def xor_zero)
  have "bit (0xEDB88320 :: 32 word) 31" by code_simp
  then have "bit z (1 + 31)" unfolding d [symmetric] bit_drop_bit_eq comp_def .
  then show ?thesis using bit_imp_le_length [of z "1 + 31"] by simp
next
  case False
  then have d: "drop_bit 1 z = 0" using assms by (simp add: crc_bit_def)
  have "\<not> bit z i" for i
  proof (cases i)
    case 0
    then show ?thesis using False by simp
  next
    case (Suc j)
    have "\<not> bit (drop_bit 1 z) j" unfolding d by simp
    then show ?thesis using Suc by (simp add: bit_drop_bit_eq)
  qed
  then show ?thesis by (intro bit_word_eqI) simp
qed

lemma crc_bits_inj: "(crc_bit ^^ n) x = (crc_bit ^^ n) y \<longleftrightarrow> x = y"
proof (induction n arbitrary: x y)
  case (Suc n)
  have "crc_bit x = crc_bit y \<longleftrightarrow> x = y" for x y
    using crc_bit_zero [of "x XOR y"] by (auto simp: crc_bit_xor xor_zero)
  then show ?case using Suc by simp
qed simp

text \<open>Up to four bytes of the message are one word that is added to the register.\<close>

fun burst :: "byte list \<Rightarrow> 32 word" where
  "burst [] = 0"
| "burst (b # bs) = ucast b XOR push_bit 8 (burst bs)"

lemma burst_bits: "\<not> bit (burst bs) i" if "8 * length bs \<le> i"
  using that
proof (induction bs arbitrary: i)
  case (Cons b bs)
  then have "\<not> bit b i" "\<not> bit (burst bs) (i - 8)" using bit_imp_le_length [of b i] by auto
  then show ?case by (auto simp: bit_simps)
qed simp

lemma burst_shift:
  assumes "length bs \<le> 3"
  shows "drop_bit 8 (push_bit 8 (burst bs)) = burst bs"
proof (rule bit_word_eqI)
  fix n
  show "bit (drop_bit 8 (push_bit 8 (burst bs))) n = bit (burst bs) n"
    using burst_bits [of bs n] assms by (cases "n < 24") (auto simp: bit_simps)
qed

lemma crc_burst: "length bs \<le> 4 \<Longrightarrow> fold crc_byte bs s = (crc_bit ^^ (8 * length bs)) (s XOR burst bs)"
proof (induction bs arbitrary: s)
  case (Cons b bs)
  have "(crc_bit ^^ 8) (push_bit 8 (burst bs)) = burst bs"
    using burst_shift [of bs] Cons.prems by (subst crc_bits_zero) (auto simp: take_bit_push_bit)
  then have "crc_byte b s XOR burst bs = (crc_bit ^^ 8) (s XOR burst (b # bs))"
    by (simp only: crc_byte_def burst.simps xor.assoc [symmetric] crc_bits_xor [of 8 "s XOR ucast b"])
  moreover have "(crc_bit ^^ (8 * length (b # bs))) x = (crc_bit ^^ (8 * length bs)) ((crc_bit ^^ 8) x)" for x
    by (simp only: list.size mult_Suc_right add_Suc_right add_0_right funpow_add comp_def add.commute [of 8])
  ultimately show ?case using Cons by simp
qed simp

lemma burst_inj: "length bs = length cs \<Longrightarrow> length bs \<le> 4 \<Longrightarrow> burst bs = burst cs \<Longrightarrow> bs = cs"
proof (induction bs cs rule: list_induct2)
  case (Cons b bs c cs)
  have "ucast (burst (b # bs)) = b" "ucast (burst (c # cs)) = c"
    by (rule bit_word_eqI, auto simp: bit_simps)+
  then have bc: "b = c" using Cons.prems by metis
  have "push_bit 8 (burst bs) = push_bit 8 (burst cs)"
    using Cons.prems(2) bc xor_cancel [of "push_bit 8 (burst bs)" "ucast c" "push_bit 8 (burst cs)"]
    by (simp only: burst.simps xor.commute [of "ucast c"])
  moreover have "length bs \<le> 3" "length cs \<le> 3" using Cons by auto
  ultimately have "burst bs = burst cs" using burst_shift by metis
  then show ?case using Cons bc by simp
qed simp

lemma fold_crc_inj: "fold crc_byte bs x = fold crc_byte bs y \<longleftrightarrow> x = y"
  by (induction bs arbitrary: x y) (auto simp: crc_byte_def crc_bits_inj xor_cancel del: funpow.simps)

lemma crc32_burst:
  assumes "length xs = length ys" "length xs \<le> 4" "xs \<noteq> ys"
  shows "crc32 (pre @ xs @ post) \<noteq> crc32 (pre @ ys @ post)"
  using assms burst_inj [of xs ys]
  by (auto simp: crc32_def fold_crc_inj crc_burst crc_bits_inj xor_cancel xor.commute [of _ "burst _"])


section \<open>Setting and checking the field\<close>

text \<open>Writing back what was read restores the memory.\<close>

lemma byte_of_uint: "byte_of (uint b) = b" by (simp add: byte_of_def)

lemma horner_byte: "i < length bs \<Longrightarrow> byte_of (horner_sum uint 256 bs div 256 ^ i) = bs ! i"
  by (rule word_uint_eqI) (simp add: horner_bytes_nth)

lemma st_le_ld_le: "st_le (st_le m p n v) p n (ld_le m p n) = m"
proof
  fix a
  show "st_le (st_le m p n v) p n (ld_le m p n) a = m a"
  proof (cases "p \<le> a \<and> a < p + int n")
    case True
    then have i: "nat (a - p) < n" "a = p + int (nat (a - p))" by auto
    define i where "i = nat (a - p)"
    note i = i [folded i_def]
    then have "byte_of (ld_le m p n div 256 ^ i) = m a" using horner_byte [of i "bytes_at m p n"] by (simp add: ld_le_def)
    then show ?thesis using i by (simp add: st_le_def put_bytes_def)
  qed (auto simp: mem_simps)
qed

lemma st_le_st_le: "st_le (st_le m p n v) p n w = st_le m p n w"
  by (rule ext) (simp add: st_le_def put_bytes_def)

text \<open>The checksum is taken with the field cleared.\<close>

definition table_crc :: "mem \<Rightarrow> addr \<Rightarrow> nat \<Rightarrow> 32 word" where
  "table_crc m Hdr n = crc32 (bytes_at (st_le m (Hdr + 16) 4 0) Hdr n)"

lemma check_crc:
  "CheckCrcAltSize m MaxSize Size Hdr =
     (Size \<noteq> 0 \<and> (MaxSize = 0 \<or> Size \<le> MaxSize) \<and> CRC32 m Hdr = uint (table_crc m Hdr (nat Size)), m)"
  by (auto simp: CheckCrcAltSize_def Let_def CRC32_def st_le_ld_le table_crc_def calculate_crc)

lemma set_crc:
  "CRC32 (SetCrcAltSize m Size Hdr) Hdr = uint (table_crc m Hdr (nat Size))"
  "table_crc (SetCrcAltSize m Size Hdr) Hdr n = table_crc m Hdr n"
  using uint_lt2p [of "table_crc m Hdr (nat Size)"]
  by (simp_all add: SetCrcAltSize_def Let_def CRC32_def st_le_st_le table_crc_def calculate_crc mem_simps)

lemma bytes_split:
  assumes "Hdr \<le> p" "p + 4 \<le> Hdr + int n"
  shows "bytes_at m Hdr n = bytes_at m Hdr (nat (p - Hdr)) @ bytes_at m p 4 @ bytes_at m (p + 4) (nat (Hdr + int n - (p + 4)))"
proof -
  have "n = nat (p - Hdr) + (4 + nat (Hdr + int n - (p + 4)))" using assms by linarith
  then show ?thesis using assms bytes_at_add [of m Hdr "nat (p - Hdr)" "4 + nat (Hdr + int n - (p + 4))"]
    bytes_at_add [of m p 4 "nat (Hdr + int n - (p + 4))"] by simp
qed

text \<open>Any change within four bytes outside the field changes the checksum.\<close>

lemma table_crc_burst:
  assumes "Hdr \<le> p" "p + 4 \<le> Hdr + int n" "p + 4 \<le> Hdr + 16 \<or> Hdr + 20 \<le> p"
    and "unchanged_outside p (p + 4) m m'" "m' \<noteq> m"
  shows "table_crc m' Hdr n \<noteq> table_crc m Hdr n" "CRC32 m' Hdr = CRC32 m Hdr"
proof -
  let ?c = "\<lambda>m. st_le m (Hdr + 16) 4 0"
  have out: "?c m' a = ?c m a" if "a < p \<or> p + 4 \<le> a" for a
    using that assms(4) by (auto simp: st_le_def put_bytes_def)
  have inside: "bytes_at (?c m) p 4 = bytes_at m p 4" for m
    using assms(3) by (intro bytes_at_eqI) (auto simp: mem_simps)
  have "bytes_at m' p 4 \<noteq> bytes_at m p 4"
  proof
    assume eq: "bytes_at m' p 4 = bytes_at m p 4"
    have "m' a = m a" for a
    proof (cases "p \<le> a \<and> a < p + 4")
      case True
      then have "bytes_at m' p 4 ! nat (a - p) = m' a" "bytes_at m p 4 ! nat (a - p) = m a" by auto
      then show ?thesis using eq by simp
    qed (use assms(4) in \<open>auto simp: unchanged_outside_def\<close>)
    then show False using assms(5) by blast
  qed
  moreover have "bytes_at (?c m') Hdr (nat (p - Hdr)) = bytes_at (?c m) Hdr (nat (p - Hdr))"
    "bytes_at (?c m') (p + 4) k = bytes_at (?c m) (p + 4) k" for k
    using out assms(1) by (auto intro!: bytes_at_eqI)
  ultimately show "table_crc m' Hdr n \<noteq> table_crc m Hdr n"
    unfolding table_crc_def bytes_split [OF assms(1,2)] inside using crc32_burst by simp
  show "CRC32 m' Hdr = CRC32 m Hdr" unfolding CRC32_def
    by (rule ld_le_agree [of "Hdr + 16" "Hdr + 20"]) (use assms(3,4) in \<open>auto simp: agree_def unchanged_outside_def\<close>)
qed

end
