(* ===== verification/Reloc.thy ===== *)
theory Reloc
  imports Efi_Spec Cstring
begin

text \<open>
  The relocation of the stub itself, \<open>src/gnuefi/reloc_riscv64.c\<close>: \<open>_relocate\<close>, which the start-up code
  calls with the address the image was loaded at and its dynamic section, before anything else runs.
  Neither the section nor the table of relocations has a bound the code would check, so both loops are
  option valued: \<open>None\<close> where they do not end. \<open>long\<close> values are \<open>s64\<close>.
\<close>

section \<open>The code\<close>

abbreviation (input) DT_NULL :: int where "DT_NULL \<equiv> 0"
abbreviation (input) DT_RELA :: int where "DT_RELA \<equiv> 7"
abbreviation (input) DT_RELASZ :: int where "DT_RELASZ \<equiv> 8"
abbreviation (input) DT_RELAENT :: int where "DT_RELAENT \<equiv> 9"
abbreviation (input) R_RISCV_RELATIVE :: int where "R_RISCV_RELATIVE \<equiv> 3"

text \<open>\<open>Elf64_Dyn\<close>, 16 bytes, and \<open>Elf64_Rela\<close>.\<close>

definition d_tag :: "mem \<Rightarrow> addr \<Rightarrow> int" where "d_tag m d = s64 (ld_le m d 8)"
definition d_val :: "mem \<Rightarrow> addr \<Rightarrow> int" where "d_val m d = ld_le m (d + 8) 8"
definition r_offset :: "mem \<Rightarrow> addr \<Rightarrow> int" where "r_offset m r = ld_le m r 8"
definition r_info :: "mem \<Rightarrow> addr \<Rightarrow> int" where "r_info m r = ld_le m (r + 8) 8"
definition r_addend :: "mem \<Rightarrow> addr \<Rightarrow> int" where "r_addend m r = s64 (ld_le m (r + 16) 8)"

definition ELF64_R_TYPE :: "int \<Rightarrow> int" where "ELF64_R_TYPE i = i AND 0xffffffff"

text \<open>What the first loop has found: the table, its size and the size of an entry.\<close>

record rela =
  rel :: addr
  relsz :: int
  relent :: int

definition note_dyn :: "mem \<Rightarrow> int \<Rightarrow> addr \<Rightarrow> rela \<Rightarrow> rela" where
  "note_dyn m ldbase d s =
     (if d_tag m d = DT_RELA then s\<lparr>rel := u64 (d_val m d + ldbase)\<rparr>
      else if d_tag m d = DT_RELASZ then s\<lparr>relsz := s64 (d_val m d)\<rparr>
      else if d_tag m d = DT_RELAENT then s\<lparr>relent := s64 (d_val m d)\<rparr>
      else s)"

partial_function (option) dyn_loop :: "mem \<Rightarrow> int \<Rightarrow> addr \<Rightarrow> rela \<Rightarrow> rela option" where
  "dyn_loop m ldbase d s =
     (if d_tag m d \<noteq> DT_NULL then dyn_loop m ldbase (d + 16) (note_dyn m ldbase d s) else Some s)"

definition apply_reloc :: "mem \<Rightarrow> int \<Rightarrow> addr \<Rightarrow> mem" where
  "apply_reloc m ldbase r =
     (if ELF64_R_TYPE (r_info m r) = R_RISCV_RELATIVE
      then st_le m (u64 (ldbase + r_offset m r)) 8 (ldbase + r_addend m r) else m)"

partial_function (option) reloc_loop :: "mem \<Rightarrow> int \<Rightarrow> addr \<Rightarrow> int \<Rightarrow> int \<Rightarrow> mem option" where
  "reloc_loop m ldbase r ent sz =
     (if sz > 0 then reloc_loop (apply_reloc m ldbase r) ldbase (u64 (r + ent)) ent (s64 (sz - ent)) else Some m)"

definition relocate :: "mem \<Rightarrow> int \<Rightarrow> addr \<Rightarrow> (int \<times> mem) option" where
  "relocate m ldbase dyn =
     do {
       s \<leftarrow> dyn_loop m ldbase dyn \<lparr>rel = 0, relsz = 0, relent = 0\<rparr>;
       (if rel s = 0 \<and> relent s = 0 then Some (EFI_SUCCESS, m)
        else if rel s = 0 \<or> relent s = 0 then Some (EFI_LOAD_ERROR, m)
        else do {
          m \<leftarrow> reloc_loop m ldbase (rel s) (relent s) (relsz s);
          Some (EFI_SUCCESS, m)
        })
     }"

section \<open>The dynamic section\<close>

text \<open>The section at an address holds a list of tags and values, ended by \<open>DT_NULL\<close>.\<close>

primrec dynamic :: "mem \<Rightarrow> addr \<Rightarrow> (int \<times> int) list \<Rightarrow> bool" where
  "dynamic m d [] \<longleftrightarrow> d_tag m d = DT_NULL"
| "dynamic m d (e # es) \<longleftrightarrow> d_tag m d = fst e \<and> d_val m d = snd e \<and> fst e \<noteq> DT_NULL \<and> dynamic m (d + 16) es"

text \<open>The last entry of a tag counts.\<close>

definition tag_value :: "(int \<times> int) list \<Rightarrow> int \<Rightarrow> int option" where
  "tag_value es = map_of (rev es)"

definition noted :: "int \<Rightarrow> (int \<times> int) list \<Rightarrow> rela \<Rightarrow> rela" where
  "noted ldbase es s =
     \<lparr>rel = (case tag_value es DT_RELA of None \<Rightarrow> rel s | Some v \<Rightarrow> u64 (v + ldbase)),
      relsz = (case tag_value es DT_RELASZ of None \<Rightarrow> relsz s | Some v \<Rightarrow> s64 v),
      relent = (case tag_value es DT_RELAENT of None \<Rightarrow> relent s | Some v \<Rightarrow> s64 v)\<rparr>"

lemma tag_value_Cons:
  "tag_value (e # es) t = (case tag_value es t of None \<Rightarrow> if fst e = t then Some (snd e) else None | Some v \<Rightarrow> Some v)"
  by (cases e) (simp add: tag_value_def map_add_def split: option.split)

lemma dyn_loop_noted: "dynamic m d es \<Longrightarrow> dyn_loop m ldbase d s = Some (noted ldbase es s)"
proof (induction es arbitrary: d s)
  case Nil
  then show ?case by (subst dyn_loop.simps) (simp add: noted_def tag_value_def)
next
  case (Cons e es)
  then have "dyn_loop m ldbase (d + 16) (note_dyn m ldbase d s) = Some (noted ldbase es (note_dyn m ldbase d s))"
    by simp
  moreover have "noted ldbase es (note_dyn m ldbase d s) = noted ldbase (e # es) s"
    using Cons.prems by (auto simp: noted_def note_dyn_def tag_value_Cons split: option.splits)
  ultimately show ?case using Cons.prems by (subst dyn_loop.simps) simp
qed

section \<open>The relocations\<close>

text \<open>The entries of the table, the word each one asks for and the address it goes to.\<close>

definition is_relative :: "mem \<Rightarrow> addr \<Rightarrow> bool" where
  "is_relative m r \<longleftrightarrow> ELF64_R_TYPE (r_info m r) = R_RISCV_RELATIVE"

definition target :: "mem \<Rightarrow> int \<Rightarrow> addr \<Rightarrow> addr" where
  "target m ldbase r = u64 (ldbase + r_offset m r)"

text \<open>
  A table of \<open>n\<close> entries whose relative entries write outside the table, each to a word of its own.
\<close>

definition separate :: "mem \<Rightarrow> int \<Rightarrow> addr \<Rightarrow> nat \<Rightarrow> bool" where
  "separate m ldbase r n \<longleftrightarrow>
     (\<forall>i < n. is_relative m (r + 24 * int i) \<longrightarrow>
        (target m ldbase (r + 24 * int i) + 8 \<le> r \<or> r + 24 * int n \<le> target m ldbase (r + 24 * int i)) \<and>
        (\<forall>j < n. j \<noteq> i \<longrightarrow> is_relative m (r + 24 * int j) \<longrightarrow>
           target m ldbase (r + 24 * int i) + 8 \<le> target m ldbase (r + 24 * int j)
           \<or> target m ldbase (r + 24 * int j) + 8 \<le> target m ldbase (r + 24 * int i)))"

lemma entry_agree:
  assumes "agree r (r + 24) m m'"
  shows "is_relative m' r = is_relative m r" "target m' ldbase r = target m ldbase r" "r_addend m' r = r_addend m r"
proof -
  have "ld_le m' (r + 8) 8 = ld_le m (r + 8) 8" "ld_le m' r 8 = ld_le m r 8" "ld_le m' (r + 16) 8 = ld_le m (r + 16) 8"
    using assms by (auto intro!: ld_le_agree [of r "r + 24", symmetric])
  then show "is_relative m' r = is_relative m r" "target m' ldbase r = target m ldbase r" "r_addend m' r = r_addend m r"
    by (simp_all add: is_relative_def target_def r_info_def r_offset_def r_addend_def)
qed

text \<open>The entries applied one after the other.\<close>

primrec applied :: "mem \<Rightarrow> int \<Rightarrow> addr \<Rightarrow> nat \<Rightarrow> mem" where
  "applied m ldbase r 0 = m"
| "applied m ldbase r (Suc n) = apply_reloc (applied m ldbase r n) ldbase (r + 24 * int n)"

lemma reloc_loop_applied:
  assumes "0 \<le> r" "r + 24 * int (i + n) \<le> 18446744073709551615" "24 * int (i + n) < 9223372036854775808"
  shows "reloc_loop (applied m ldbase r i) ldbase (r + 24 * int i) 24 (24 * int n) = Some (applied m ldbase r (i + n))"
  using assms
proof (induction n arbitrary: i)
  case 0
  then show ?case by (subst reloc_loop.simps) simp
next
  case (Suc n)
  have "u64 (r + 24 * int i + 24) = r + 24 * int (Suc i)" using Suc.prems by (subst u64_id) auto
  moreover have "s64 (24 * int (Suc n) - 24) = 24 * int n" using Suc.prems by (simp add: s64_def)
  ultimately show ?case using Suc.IH [of "Suc i"] Suc.prems by (subst reloc_loop.simps) simp
qed

lemma applied_effect:
  assumes "separate m ldbase r n" "k \<le> n"
  shows "(\<forall>i < k. is_relative m (r + 24 * int i) \<longrightarrow>
            ld_le (applied m ldbase r k) (target m ldbase (r + 24 * int i)) 8 = u64 (ldbase + r_addend m (r + 24 * int i)))
       \<and> (\<forall>a. (\<forall>i < k. is_relative m (r + 24 * int i) \<longrightarrow>
                a < target m ldbase (r + 24 * int i) \<or> target m ldbase (r + 24 * int i) + 8 \<le> a)
            \<longrightarrow> applied m ldbase r k a = m a)"
  using assms(2)
proof (induction k)
  case (Suc k)
  let ?e = "\<lambda>i. r + 24 * int i" and ?m = "applied m ldbase r k"
  let ?t = "\<lambda>i. target m ldbase (?e i)"
  have table: "?m a = m a" if "r \<le> a" "a < r + 24 * int n" for a
  proof -
    have "a < ?t i \<or> ?t i + 8 \<le> a" if "i < k" "is_relative m (?e i)" for i
    proof -
      have "?t i + 8 \<le> r \<or> r + 24 * int n \<le> ?t i"
        using assms(1) that Suc.prems unfolding separate_def by (meson Suc_le_lessD less_trans)
      then show ?thesis using \<open>r \<le> a\<close> \<open>a < r + 24 * int n\<close> by linarith
    qed
    then show ?thesis using Suc by simp
  qed
  then have entry: "is_relative ?m (?e k) = is_relative m (?e k)" "target ?m ldbase (?e k) = ?t k"
    "r_addend ?m (?e k) = r_addend m (?e k)"
    using Suc.prems by (intro entry_agree; auto simp: agree_def)+
  have step: "applied m ldbase r (Suc k) = (if is_relative m (?e k) then st_le ?m (?t k) 8 (ldbase + r_addend m (?e k)) else ?m)"
    using entry by (simp add: apply_reloc_def is_relative_def target_def)
  have "ld_le (applied m ldbase r (Suc k)) (?t i) 8 = u64 (ldbase + r_addend m (?e i))"
    if "i < Suc k" "is_relative m (?e i)" for i
  proof (cases "i = k")
    case True
    then show ?thesis using that by (simp add: step ld_le_st_le u64_def del: applied.simps)
  next
    case False
    then have "is_relative m (?e k) \<Longrightarrow> ?t i + 8 \<le> ?t k \<or> ?t k + 8 \<le> ?t i"
      using assms(1) that Suc.prems unfolding separate_def by (meson less_le_trans less_SucE Suc_le_lessD)
    then show ?thesis using that False Suc by (auto simp: step ld_le_st_le_other less_Suc_eq simp del: applied.simps)
  qed
  moreover have "applied m ldbase r (Suc k) a = m a"
    if "\<forall>i < Suc k. is_relative m (?e i) \<longrightarrow> a < ?t i \<or> ?t i + 8 \<le> a" for a
    using Suc that by (auto simp: step st_le_outside less_Suc_eq simp del: applied.simps)
  ultimately show ?case by blast
qed simp


lemma relocate_table:
  assumes "dynamic m dyn es" "tag_value es DT_RELA = Some a" "tag_value es DT_RELASZ = Some (24 * int n)"
    "tag_value es DT_RELAENT = Some 24"
    and "0 < u64 (a + ldbase)" "u64 (a + ldbase) + 24 * int n \<le> 18446744073709551615" "24 * int n < 9223372036854775808"
  shows "relocate m ldbase dyn = Some (EFI_SUCCESS, applied m ldbase (u64 (a + ldbase)) n)"
  using assms reloc_loop_applied [of "u64 (a + ldbase)" 0 n m ldbase]
  by (simp add: relocate_def dyn_loop_noted [OF assms(1)] noted_def s64_def)

text \<open>Half a description of the table is refused, none at all is accepted, and then nothing is written.\<close>

lemma relocate_without_table:
  assumes "dynamic m dyn es"
    and "r = (case tag_value es DT_RELA of None \<Rightarrow> 0 | Some v \<Rightarrow> u64 (v + ldbase))"
    and "e = (case tag_value es DT_RELAENT of None \<Rightarrow> 0 | Some v \<Rightarrow> s64 v)"
    and "r = 0 \<or> e = 0"
  shows "relocate m ldbase dyn = Some (if r = 0 \<and> e = 0 then EFI_SUCCESS else EFI_LOAD_ERROR, m)"
proof -
  define s where "s = noted ldbase es \<lparr>rel = 0, relsz = 0, relent = 0\<rparr>"
  have "rel s = r" "relent s = e" using assms by (simp_all add: s_def noted_def split: option.split)
  then show ?thesis using assms(4) by (auto simp: relocate_def dyn_loop_noted [OF assms(1)] s_def [symmetric])
qed

end
