(* ===== verification/Rtlib.thy ===== *)
theory Rtlib
  imports Efi_Spec Cstring
begin

text \<open>
  The run-time library of gnu-efi: \<open>src/lib/runtime/efirtlib.c\<close> and \<open>rtstr.c\<close>, and the string functions
  of \<open>src/lib/str.c\<close>, most of which pass their arguments on to them. A \<open>CHAR16\<close> is two bytes, little
  endian; a walk to the terminating NUL stops at the end of the address space. \<open>UINTN\<close> values are
  \<open>u64\<close>, a count that a loop runs down is a \<open>nat\<close>.
\<close>

section \<open>Memory\<close>

primrec RtZeroMem :: "mem \<Rightarrow> addr \<Rightarrow> nat \<Rightarrow> mem" where
  "RtZeroMem m pt 0 = m"
| "RtZeroMem m pt (Suc Size) = RtZeroMem (m(pt := 0)) (pt + 1) Size"

primrec RtSetMem :: "mem \<Rightarrow> addr \<Rightarrow> nat \<Rightarrow> byte \<Rightarrow> mem" where
  "RtSetMem m pt 0 Value = m"
| "RtSetMem m pt (Suc Size) Value = RtSetMem (m(pt := Value)) (pt + 1) Size Value"

text \<open>\<open>for (d += len, s += len; len--; ) *--d = *--s\<close>, and \<open>while (len--) *d++ = *s++\<close>.\<close>

primrec copy_down :: "mem \<Rightarrow> addr \<Rightarrow> addr \<Rightarrow> nat \<Rightarrow> mem" where
  "copy_down m d s 0 = m"
| "copy_down m d s (Suc len) = copy_down (m(d + int len := m (s + int len))) d s len"

primrec copy_up :: "mem \<Rightarrow> addr \<Rightarrow> addr \<Rightarrow> nat \<Rightarrow> mem" where
  "copy_up m d s 0 = m"
| "copy_up m d s (Suc len) = copy_up (m(d := m s)) (d + 1) (s + 1) len"

definition RtCopyMem :: "mem \<Rightarrow> addr \<Rightarrow> addr \<Rightarrow> nat \<Rightarrow> mem" where
  "RtCopyMem m d s len =
     (if d = 0 \<or> s = 0 \<or> s = d then m
      else if d > s \<and> d < s + int len then copy_down m d s len
      else copy_up m d s len)"

primrec RtCompareMem :: "mem \<Rightarrow> addr \<Rightarrow> addr \<Rightarrow> nat \<Rightarrow> int" where
  "RtCompareMem m d s 0 = 0"
| "RtCompareMem m d s (Suc len) =
     (if m d \<noteq> m s then uint (m d) - uint (m s) else RtCompareMem m (d + 1) (s + 1) len)"

text \<open>Four differences of \<open>INT32\<close>, or-ed; a difference that overflows is taken to wrap.\<close>

definition RtCompareGuid :: "mem \<Rightarrow> addr \<Rightarrow> addr \<Rightarrow> int" where
  "RtCompareGuid m g1 g2 =
     (let d = \<lambda>i. s32 (s32 (ld_le m (g1 + 4 * i) 4) - s32 (ld_le m (g2 + 4 * i) 4))
      in ((d 0 OR d 1) OR d 2) OR d 3)"

lemma RtSetMem_memset: "RtSetMem m p n c = memset m p c n"
  by (induction n arbitrary: m p) simp_all

lemma RtZeroMem_memset: "RtZeroMem m p n = memset m p 0 n"
  by (induction n arbitrary: m p) simp_all

lemma copy_up_memcpy: "copy_up m d s n = memcpy m d s n"
  by (induction n arbitrary: m d s) simp_all

lemma copy_down_memmove: "copy_down m d s n = memmove_back m d s n"
  by (induction n arbitrary: m) simp_all

text \<open>The copy is right however the ranges overlap; a \<open>NULL\<close> makes it do nothing.\<close>

lemma RtCopyMem_copied: "RtCopyMem m d s n = (if d = 0 \<or> s = 0 then m else copied m d s n)"
  by (auto simp: RtCopyMem_def copy_up_memcpy copy_down_memmove memcpy_copied memmove_back_copied)

lemma RtCompareMem_eq: "RtCompareMem m d s n = 0 \<longleftrightarrow> bytes_at m d n = bytes_at m s n"
  by (induction n arbitrary: d s) (auto simp: bytes_at_Suc dest: word_uint_eqI)

lemma or_zero_iff: "a OR b = 0 \<longleftrightarrow> a = 0 \<and> b = 0" for a b :: int
  by (metis or.right_neutral or_eq_0_iff)

lemma s32_diff_zero:
  assumes "0 \<le> a" "a < 4294967296" "0 \<le> b" "b < 4294967296"
  shows "s32 (s32 a - s32 b) = 0 \<longleftrightarrow> a = b"
proof -
  have "s32 (s32 a - s32 b) = 0 \<longleftrightarrow> u32 (s32 a - s32 b) = 0" (is "s32 ?x = 0 \<longleftrightarrow> _")
  proof
    assume "s32 ?x = 0"
    then have "u32 (s32 ?x) = u32 0" by simp
    then show "u32 ?x = 0" by (simp add: u32_id)
  next
    assume "u32 ?x = 0"
    then have "s32 (u32 ?x) = s32 0" by simp
    then show "s32 ?x = 0" by (simp add: s32_id)
  qed
  also have "\<dots> \<longleftrightarrow> (a - b) mod 4294967296 = 0"
    by (simp add: u32_def s32_def mod_simps)
  also have "\<dots> \<longleftrightarrow> a mod 4294967296 = b mod 4294967296"
    by (metis mod_eq_dvd_iff dvd_eq_mod_eq_0)
  also have "\<dots> \<longleftrightarrow> a = b" using assms by simp
  finally show ?thesis .
qed


text \<open>Numbers read from memory are equal exactly when their bytes are.\<close>

lemma horner_inj: "length xs = length ys \<Longrightarrow> horner_sum uint 256 xs = horner_sum uint 256 ys \<longleftrightarrow> xs = ys"
  for xs ys :: "byte list"
proof (induction xs ys rule: list_induct2)
  case (Cons x xs y ys)
  have "uint x + 256 * h = uint y + 256 * k \<longleftrightarrow> x = y \<and> h = k" for h k
  proof
    assume e: "uint x + 256 * h = uint y + 256 * k"
    have "uint x = (uint x + 256 * h) mod 256" "uint y = (uint y + 256 * k) mod 256" by simp_all
    then have "uint x = uint y" using e by metis
    then show "x = y \<and> h = k" using e word_uint_eqI by auto
  qed simp
  then show ?case using Cons by simp
qed simp

lemma ld_le_eq: "ld_le m p n = ld_le m q n \<longleftrightarrow> bytes_at m p n = bytes_at m q n"
  by (simp add: ld_le_def horner_inj)

lemma le_bounds: "0 \<le> ld_le m p n" "ld_le m p n < 256 ^ n"
  using horner_bytes_bounds [of "bytes_at m p n"] by (simp_all add: ld_le_def)

lemma RtCompareGuid_eq: "RtCompareGuid m g1 g2 = 0 \<longleftrightarrow> bytes_at m g1 16 = bytes_at m g2 16"
proof -
  have part: "s32 (s32 (ld_le m (g1 + 4 * i) 4) - s32 (ld_le m (g2 + 4 * i) 4)) = 0 \<longleftrightarrow>
      bytes_at m (g1 + 4 * i) 4 = bytes_at m (g2 + 4 * i) 4" for i
    using le_bounds [of m "g1 + 4 * i" 4] le_bounds [of m "g2 + 4 * i" 4]
    by (subst s32_diff_zero) (simp_all add: ld_le_eq)
  have split: "bytes_at m g 16 = bytes_at m g 4 @ bytes_at m (g + 4) 4 @ bytes_at m (g + 8) 4 @ bytes_at m (g + 12) 4" for g
    using bytes_at_add [of m g 4 12] bytes_at_add [of m "g + 4" 4 8] bytes_at_add [of m "g + 8" 4 4] by (simp add: add.assoc)
  show ?thesis using part [of 0] part [of 1] part [of 2] part [of 3]
    by (auto simp: RtCompareGuid_def Let_def or_zero_iff split)
qed

section \<open>Packed decimal\<close>

definition RtBCDtoDecimal :: "byte \<Rightarrow> byte" where
  "RtBCDtoDecimal BcdValue =
     (let High = uint BcdValue div 16; Low = u64 (uint BcdValue - High * 16) in byte_of (Low + High * 10))"

definition RtDecimaltoBCD :: "byte \<Rightarrow> byte" where
  "RtDecimaltoBCD DecValue =
     (let High = uint DecValue div 10; Low = u64 (uint DecValue - High * 10) in byte_of (Low + High * 16))"

lemma bcd_round_trip: "RtBCDtoDecimal (RtDecimaltoBCD v) = v \<longleftrightarrow> uint v < 160"
proof -
  have "RtDecimaltoBCD v = byte_of (uint v mod 10 + uint v div 10 * 16)"
    by (simp add: RtDecimaltoBCD_def Let_def minus_div_mult_eq_mod u64_id)
  moreover have "RtBCDtoDecimal b = byte_of (uint b mod 16 + uint b div 16 * 10)" for b
    by (simp add: RtBCDtoDecimal_def Let_def minus_div_mult_eq_mod u64_id)
  ultimately have e: "uint (RtBCDtoDecimal (RtDecimaltoBCD v)) =
      ((uint v mod 10 + uint v div 10 * 16) mod 256 mod 16 + (uint v mod 10 + uint v div 10 * 16) mod 256 div 16 * 10) mod 256"
    by simp
  have "RtBCDtoDecimal (RtDecimaltoBCD v) = v \<longleftrightarrow> uint (RtBCDtoDecimal (RtDecimaltoBCD v)) = uint v"
    using word_uint_eqI by metis
  also have "\<dots> \<longleftrightarrow> uint v < 160"
  proof -
    define h l where "h = uint v div 10" and "l = uint v mod 10"
    have v: "uint v = 10 * h + l" "0 \<le> l" "l < 10" "0 \<le> h" "h \<le> 25"
    proof -
      have "0 \<le> x \<Longrightarrow> x < 256 \<Longrightarrow> 0 \<le> x div 10 \<and> x div 10 \<le> 25" for x :: int by presburger
      then show "0 \<le> h" "h \<le> 25" by (simp_all add: h_def)
    qed (simp_all add: h_def l_def)
    show ?thesis
    proof (cases "h < 16")
      case True
      then have "(l + h * 16) mod 256 = l + 16 * h" "(l + 16 * h) mod 16 = l" "(l + 16 * h) div 16 = h" using v by auto
      then show ?thesis using e v True uint_byte_bounds [of v] by (simp add: h_def [symmetric] l_def [symmetric])
    next
      case False
      have "(l + h * 16) mod 256 = (l + 16 * (h - 16) + 256) mod 256" by (simp add: algebra_simps)
      also have "\<dots> = l + 16 * (h - 16)" using v False by (subst mod_add_self2) simp
      finally have m: "(l + h * 16) mod 256 = l + 16 * (h - 16)" .
      have "(l + 16 * k) mod 16 = l" "(l + 16 * k) div 16 = k" for k using v by auto
      note this [of "h - 16"]
      then show ?thesis using e v False by (simp add: h_def [symmetric] l_def [symmetric] m)
    qed
  qed
  finally show ?thesis .
qed


section \<open>Strings of \<open>CHAR16\<close>\<close>

definition ld16 :: "mem \<Rightarrow> addr \<Rightarrow> int" where "ld16 m p = ld_le m p 2"
definition st16 :: "mem \<Rightarrow> addr \<Rightarrow> int \<Rightarrow> mem" where "st16 m p c = st_le m p 2 c"

function RtStrCmp :: "mem \<Rightarrow> addr \<Rightarrow> addr \<Rightarrow> int" where
  "RtStrCmp m s1 s2 =
     (if s1 < ADDR_LIMIT \<and> ld16 m s1 \<noteq> 0 \<and> ld16 m s1 = ld16 m s2 then RtStrCmp m (s1 + 2) (s2 + 2)
      else ld16 m s1 - ld16 m s2)"
  by pat_completeness auto
termination by (relation "measure (\<lambda>(m, s1, s2). nat (ADDR_LIMIT - s1))") auto

primrec StrnCmp :: "mem \<Rightarrow> addr \<Rightarrow> addr \<Rightarrow> nat \<Rightarrow> int" where
  "StrnCmp m s1 s2 0 = 0"
| "StrnCmp m s1 s2 (Suc len) =
     (if ld16 m s1 \<noteq> 0 \<and> ld16 m s1 = ld16 m s2 then StrnCmp m (s1 + 2) (s2 + 2) len
      else ld16 m s1 - ld16 m s2)"

text \<open>\<open>while (*Src) *(Dest++) = *(Src++); *Dest = 0\<close>, with the last \<open>Dest\<close>.\<close>

function RtStpCpy :: "mem \<Rightarrow> addr \<Rightarrow> addr \<Rightarrow> addr \<times> mem" where
  "RtStpCpy m Dest Src =
     (if Src < ADDR_LIMIT \<and> ld16 m Src \<noteq> 0 then RtStpCpy (st16 m Dest (ld16 m Src)) (Dest + 2) (Src + 2)
      else (Dest, st16 m Dest 0))"
  by pat_completeness auto
termination by (relation "measure (\<lambda>(m, Dest, Src). nat (ADDR_LIMIT - Src))") auto

function RtStrCpy :: "mem \<Rightarrow> addr \<Rightarrow> addr \<Rightarrow> mem" where
  "RtStrCpy m Dest Src =
     (if Src < ADDR_LIMIT \<and> ld16 m Src \<noteq> 0 then RtStrCpy (st16 m Dest (ld16 m Src)) (Dest + 2) (Src + 2)
      else st16 m Dest 0)"
  by pat_completeness auto
termination by (relation "measure (\<lambda>(m, Dest, Src). nat (ADDR_LIMIT - Src))") auto

function RtStrLen :: "mem \<Rightarrow> addr \<Rightarrow> nat" where
  "RtStrLen m s1 = (if s1 < ADDR_LIMIT \<and> ld16 m s1 \<noteq> 0 then Suc (RtStrLen m (s1 + 2)) else 0)"
  by pat_completeness auto
termination by (relation "measure (\<lambda>(m, s1). nat (ADDR_LIMIT - s1))") auto

declare RtStrCmp.simps [simp del] RtStpCpy.simps [simp del] RtStrCpy.simps [simp del] RtStrLen.simps [simp del]

text \<open>\<open>for (i = 0; *s1 && i < Len; i++)\<close>: the character behind the last that counts is read too.\<close>

primrec RtStrnLen :: "mem \<Rightarrow> addr \<Rightarrow> nat \<Rightarrow> nat" where
  "RtStrnLen m s1 0 = 0"
| "RtStrnLen m s1 (Suc Len) = (if ld16 m s1 \<noteq> 0 then Suc (RtStrnLen m (s1 + 2) Len) else 0)"

definition RtStrSize :: "mem \<Rightarrow> addr \<Rightarrow> nat" where
  "RtStrSize m s1 = (RtStrLen m s1 + 1) * 2"

definition RtStpnCpy :: "mem \<Rightarrow> addr \<Rightarrow> addr \<Rightarrow> nat \<Rightarrow> addr \<times> mem" where
  "RtStpnCpy m Dest Src Len =
     (let Size = RtStrnLen m Src Len;
          m = (if Size \<noteq> Len then RtSetMem m (Dest + 2 * int Size) ((Len - Size) * 2) 0 else m)
      in (Dest + 2 * int Size, RtCopyMem m Dest Src (Size * 2)))"

definition RtStrnCpy :: "mem \<Rightarrow> addr \<Rightarrow> addr \<Rightarrow> nat \<Rightarrow> mem" where
  "RtStrnCpy m Dest Src Len =
     (let Size = RtStrnLen m Src Len;
          m = (if Size \<noteq> Len then RtSetMem m (Dest + 2 * int Size) ((Len - Size) * 2) 0 else m)
      in RtCopyMem m Dest Src (Size * 2))"

definition RtStrCat :: "mem \<Rightarrow> addr \<Rightarrow> addr \<Rightarrow> mem" where
  "RtStrCat m Dest Src = RtStrCpy m (Dest + 2 * int (RtStrLen m Dest)) Src"

definition RtStrnCat :: "mem \<Rightarrow> addr \<Rightarrow> addr \<Rightarrow> nat \<Rightarrow> mem" where
  "RtStrnCat m Dest Src Len =
     (let DestSize = RtStrLen m Dest; Size = RtStrnLen m Src Len;
          m = RtCopyMem m (Dest + 2 * int DestSize) Src (Size * 2)
      in st16 m (Dest + 2 * int (DestSize + Size)) 0)"

text \<open>Strings of bytes, \<open>str.c\<close>; the difference of two characters is returned as a \<open>UINTN\<close>.\<close>

function strlena :: "mem \<Rightarrow> addr \<Rightarrow> nat" where
  "strlena m s1 = (if s1 < ADDR_LIMIT \<and> m s1 \<noteq> 0 then Suc (strlena m (s1 + 1)) else 0)"
  by pat_completeness auto
termination by (relation "measure (\<lambda>(m, s1). nat (ADDR_LIMIT - s1))") auto

function strcmpa :: "mem \<Rightarrow> addr \<Rightarrow> addr \<Rightarrow> int" where
  "strcmpa m s1 s2 =
     (if s1 < ADDR_LIMIT \<and> m s1 \<noteq> 0 \<and> m s1 = m s2 then strcmpa m (s1 + 1) (s2 + 1)
      else u64 (uint (m s1) - uint (m s2)))"
  by pat_completeness auto
termination by (relation "measure (\<lambda>(m, s1, s2). nat (ADDR_LIMIT - s1))") auto

primrec strncmpa :: "mem \<Rightarrow> addr \<Rightarrow> addr \<Rightarrow> nat \<Rightarrow> int" where
  "strncmpa m s1 s2 0 = 0"
| "strncmpa m s1 s2 (Suc len) =
     (if m s1 \<noteq> 0 \<and> m s1 = m s2 then strncmpa m (s1 + 1) (s2 + 1) len
      else u64 (uint (m s1) - uint (m s2)))"

declare strlena.simps [simp del] strcmpa.simps [simp del]

section \<open>Numbers\<close>

function skip_blanks :: "mem \<Rightarrow> addr \<Rightarrow> addr" where
  "skip_blanks m p = (if p < ADDR_LIMIT \<and> ld16 m p = 32 then skip_blanks m (p + 2) else p)"
  by pat_completeness auto
termination by (relation "measure (\<lambda>(m, p). nat (ADDR_LIMIT - p))") auto

function xtoi_loop :: "mem \<Rightarrow> addr \<Rightarrow> int \<Rightarrow> int" where
  "xtoi_loop m p u =
     (if p < ADDR_LIMIT \<and> ld16 m p \<noteq> 0 then
        (let c = ld16 m p; c = (if 97 \<le> c \<and> c \<le> 102 then c - 32 else c)
         in if 48 \<le> c \<and> c \<le> 57 \<or> 65 \<le> c \<and> c \<le> 70
            then xtoi_loop m (p + 2) (u64 (u * 16) OR (c - (if c \<ge> 65 then 55 else 48)))
            else u)
      else u)"
  by pat_completeness auto
termination by (relation "measure (\<lambda>(m, p, u). nat (ADDR_LIMIT - p))") auto

definition xtoi :: "mem \<Rightarrow> addr \<Rightarrow> int" where
  "xtoi m p = xtoi_loop m (skip_blanks m p) 0"

function Atoi_loop :: "mem \<Rightarrow> addr \<Rightarrow> int \<Rightarrow> int" where
  "Atoi_loop m p u =
     (if p < ADDR_LIMIT \<and> ld16 m p \<noteq> 0 then
        (let c = ld16 m p
         in if 48 \<le> c \<and> c \<le> 57 then Atoi_loop m (p + 2) (u64 (u64 (u64 (u * 10) + c) - 48)) else u)
      else u)"
  by pat_completeness auto
termination by (relation "measure (\<lambda>(m, p, u). nat (ADDR_LIMIT - p))") auto

definition Atoi :: "mem \<Rightarrow> addr \<Rightarrow> int" where
  "Atoi m p = Atoi_loop m (skip_blanks m p) 0"

declare skip_blanks.simps [simp del] xtoi_loop.simps [simp del] Atoi_loop.simps [simp del]

end
