(* ===== verification/Rtlib_Spec.thy ===== *)
theory Rtlib_Spec
  imports Rtlib
begin

text \<open>
  What the string functions of \<open>Rtlib\<close> do, in terms of the lists of characters in memory: comparison is
  the lexicographic order, copies move the characters with their NUL, concatenation appends, and the
  number readers compute the value of the leading digits.
\<close>

section \<open>Strings as lists\<close>

text \<open>At an address the memory holds the characters of a list and then a NUL.\<close>

primrec wide :: "mem \<Rightarrow> addr \<Rightarrow> int list \<Rightarrow> bool" where
  "wide m p [] \<longleftrightarrow> ld16 m p = 0"
| "wide m p (c # s) \<longleftrightarrow> p < ADDR_LIMIT \<and> ld16 m p = c \<and> c \<noteq> 0 \<and> wide m (p + 2) s"

lemma ld16_bounds: "0 \<le> ld16 m p" "ld16 m p < 65536"
  using le_bounds [of m p 2] by (simp_all add: ld16_def)

lemma ld16_agree: "agree lo hi m m' \<Longrightarrow> lo \<le> p \<Longrightarrow> p + 2 \<le> hi \<Longrightarrow> ld16 m' p = ld16 m p"
  unfolding ld16_def using ld_le_agree [of lo hi m m' p 2] by simp

lemma wide_chars: "wide m p s \<Longrightarrow> \<forall>c \<in> set s. 0 < c \<and> c < 65536"
proof (induction s arbitrary: p)
  case (Cons c s)
  then show ?case using ld16_bounds [of m p] by (auto simp: order_less_le)
qed simp

lemma wide_agree:
  "wide m p s \<Longrightarrow> agree lo hi m m' \<Longrightarrow> lo \<le> p \<Longrightarrow> p + 2 * int (length s) + 2 \<le> hi \<Longrightarrow> wide m' p s"
proof (induction s arbitrary: p)
  case Nil
  then show ?case using ld16_agree [of lo hi m m' p] by simp
next
  case (Cons c s)
  then show ?case using ld16_agree [of lo hi m m' p] by simp
qed

lemma wide_nth: "wide m p s \<Longrightarrow> i < length s \<Longrightarrow> ld16 m (p + 2 * int i) = s ! i"
proof (induction s arbitrary: p i)
  case (Cons c s)
  then show ?case by (cases i) (auto simp: add.assoc dest: Cons.IH [of "p + 2"])
qed simp

lemma wide_end: "wide m p s \<Longrightarrow> ld16 m (p + 2 * int (length s)) = 0"
proof (induction s arbitrary: p)
  case (Cons c s)
  then show ?case using Cons.IH [of "p + 2"] by (simp add: add.assoc)
qed simp

text \<open>The other direction, from the characters and the NUL.\<close>

lemma wideI:
  assumes "\<And>i. i < length s \<Longrightarrow> ld16 m (p + 2 * int i) = s ! i" "0 \<notin> set s"
    "ld16 m (p + 2 * int (length s)) = 0" "p + 2 * int (length s) < ADDR_LIMIT"
  shows "wide m p s"
  using assms
proof (induction s arbitrary: p)
  case (Cons c s)
  have "wide m (p + 2) s"
  proof (rule Cons.IH)
    show "ld16 m (p + 2 + 2 * int i) = s ! i" if "i < length s" for i
      using Cons.prems(1) [of "Suc i"] that by (simp add: add.assoc)
  qed (use Cons.prems(2-4) in \<open>simp_all add: add.assoc\<close>)
  moreover have "ld16 m p = c" using Cons.prems(1) [of 0] by simp
  ultimately show ?case using Cons.prems(2,4) by simp
qed simp

lemma RtStrLen_length: "wide m p s \<Longrightarrow> RtStrLen m p = length s"
  by (induction s arbitrary: p; subst RtStrLen.simps; simp)

lemma RtStrnLen_length: "wide m p s \<Longrightarrow> RtStrnLen m p n = min n (length s)"
proof (induction n arbitrary: p s)
  case (Suc n)
  then show ?case by (cases s) auto
qed simp

lemma RtStrSize_size: "wide m p s \<Longrightarrow> RtStrSize m p = 2 * length s + 2"
  by (simp add: RtStrSize_def RtStrLen_length)

section \<open>Comparison\<close>

fun wcmp :: "int list \<Rightarrow> int list \<Rightarrow> int" where
  "wcmp [] [] = 0"
| "wcmp [] (b # t) = - b"
| "wcmp (a # s) [] = a"
| "wcmp (a # s) (b # t) = (if a = b then wcmp s t else a - b)"

lemma RtStrCmp_wcmp: "wide m p s \<Longrightarrow> wide m q t \<Longrightarrow> RtStrCmp m p q = wcmp s t"
  by (induction s t arbitrary: p q rule: wcmp.induct; subst RtStrCmp.simps; auto)

lemma StrnCmp_wcmp: "wide m p s \<Longrightarrow> wide m q t \<Longrightarrow> StrnCmp m p q n = wcmp (take n s) (take n t)"
proof (induction n arbitrary: p q s t)
  case (Suc n)
  then show ?case by (cases s; cases t) auto
qed simp

lemma wcmp_eq: "\<forall>c \<in> set s \<union> set t. 0 < c \<Longrightarrow> wcmp s t = 0 \<longleftrightarrow> s = t"
  by (induction s t rule: wcmp.induct) auto

lemma wcmp_less: "\<forall>c \<in> set s \<union> set t. 0 < c \<Longrightarrow> wcmp s t < 0 \<longleftrightarrow> (s, t) \<in> lexord {(a, b). a < b}"
  by (induction s t rule: wcmp.induct) auto

lemma wide_pos: "wide m p s \<Longrightarrow> wide m q t \<Longrightarrow> \<forall>c \<in> set s \<union> set t. 0 < c"
  using wide_chars by blast

section \<open>Copies\<close>

lemma st16_ld16: "st16 m d (ld16 m s) = copied m d s 2"
proof
  fix a
  have "byte_of (ld_le m s 2 div 256 ^ i) = m (s + int i)" if "i < 2" for i
    using that by (intro word_uint_eqI) (simp add: ld_le_def horner_bytes_nth)
  from this [of "nat (a - d)"] show "st16 m d (ld16 m s) a = copied m d s 2 a"
    by (auto simp: st16_def ld16_def st_le_def put_bytes_def copied_def nat_less_iff)
qed

lemma ld16_copied:
  assumes "d \<le> p" "p + 2 \<le> d + int n"
  shows "ld16 (copied m d s n) p = ld16 m (s + (p - d))"
proof -
  have "bytes_at (copied m d s n) p 2 = bytes_at m (s + (p - d)) 2"
    using assms by (intro nth_equalityI) (auto simp: copied_def algebra_simps)
  then show ?thesis by (simp add: ld16_def ld_le_def)
qed

lemma copied_append:
  assumes "d \<le> s \<or> s + int (i + j) \<le> d"
  shows "copied (copied m d s i) (d + int i) (s + int i) j = copied m d s (i + j)"
  by (rule ext) (use assms in \<open>auto simp: copied_def algebra_simps\<close>)

lemma RtStrCpy_copied:
  assumes "wide m Src s" "Dest \<le> Src \<or> Src + 2 * int (length s) + 2 \<le> Dest"
  shows "RtStrCpy m Dest Src = copied m Dest Src (2 * length s + 2)"
  using assms
proof (induction s arbitrary: m Dest Src)
  case Nil
  then show ?case using st16_ld16 [of m Dest Src] by (simp add: RtStrCpy.simps numeral_2_eq_2)
next
  case (Cons c s)
  let ?m = "copied m Dest Src 2"
  have "wide m (Src + 2) s" using Cons.prems by simp
  moreover have "agree (Src + 2) (Src + 2 + 2 * int (length s) + 2) m ?m"
    using Cons.prems(2) by (auto simp: agree_def copied_def)
  ultimately have w: "wide ?m (Src + 2) s" by (rule wide_agree) auto
  have "RtStrCpy m Dest Src = RtStrCpy ?m (Dest + 2) (Src + 2)"
    using Cons.prems(1) st16_ld16 [of m Dest Src] by (subst RtStrCpy.simps) auto
  also have "\<dots> = copied ?m (Dest + 2) (Src + 2) (2 * length s + 2)"
    using Cons.prems(2) by (intro Cons.IH [OF w]) auto
  also have "\<dots> = copied m Dest Src (2 + (2 * length s + 2))"
    using copied_append [of Dest Src 2 "2 * length s + 2" m] Cons.prems(2) by auto
  finally show ?case by simp
qed

lemma RtStpCpy_RtStrCpy: "wide m Src s \<Longrightarrow> Dest \<le> Src \<or> Src + 2 * int (length s) + 2 \<le> Dest \<Longrightarrow>
   RtStpCpy m Dest Src = (Dest + 2 * int (length s), RtStrCpy m Dest Src)"
proof (induction s arbitrary: m Dest Src)
  case Nil
  then show ?case by (simp add: RtStpCpy.simps RtStrCpy.simps)
next
  case (Cons c s)
  let ?m = "copied m Dest Src 2"
  have "wide m (Src + 2) s" using Cons.prems by simp
  moreover have "agree (Src + 2) (Src + 2 + 2 * int (length s) + 2) m ?m"
    using Cons.prems(2) by (auto simp: agree_def copied_def)
  ultimately have w: "wide ?m (Src + 2) s" by (rule wide_agree) auto
  show ?case
    using Cons.prems Cons.IH [OF w, of "Dest + 2"] st16_ld16 [of m Dest Src]
    by (auto simp: RtStpCpy.simps [of m Dest] RtStrCpy.simps [of m Dest])
qed

lemma wide_copied:
  assumes "wide m Src s" "d + 2 * int (length s) < ADDR_LIMIT"
  shows "wide (copied m d Src (2 * length s + 2)) d s"
proof (rule wideI)
  show "ld16 (copied m d Src (2 * length s + 2)) (d + 2 * int i) = s ! i" if "i < length s" for i
    using that wide_nth [OF assms(1) that] by (subst ld16_copied) auto
  show "ld16 (copied m d Src (2 * length s + 2)) (d + 2 * int (length s)) = 0"
    using wide_end [OF assms(1)] by (subst ld16_copied) auto
qed (use assms wide_chars in \<open>fastforce+\<close>)


text \<open>Where source and destination are apart, the copy is the string and nothing else changes.\<close>

lemma RtStrCpy_wide:
  assumes "wide m Src s" "Src + 2 * int (length s) + 2 \<le> Dest \<or> Dest + 2 * int (length s) + 2 \<le> Src"
    and "Dest + 2 * int (length s) < ADDR_LIMIT"
  shows "wide (RtStrCpy m Dest Src) Dest s"
    and "unchanged_outside Dest (Dest + 2 * int (length s) + 2) m (RtStrCpy m Dest Src)"
proof -
  have "RtStrCpy m Dest Src = copied m Dest Src (2 * length s + 2)"
    using assms(2) by (intro RtStrCpy_copied [OF assms(1)]) auto
  then show "wide (RtStrCpy m Dest Src) Dest s"
    and "unchanged_outside Dest (Dest + 2 * int (length s) + 2) m (RtStrCpy m Dest Src)"
    using wide_copied [OF assms(1,3)] by (auto simp: copied_outside)
qed

lemma wide_append:
  assumes "\<And>i. i < length d \<Longrightarrow> ld16 m (p + 2 * int i) = d ! i" "0 \<notin> set d" "wide m (p + 2 * int (length d)) s"
    "p + 2 * int (length d) < ADDR_LIMIT"
  shows "wide m p (d @ s)"
  using assms
proof (induction d arbitrary: p)
  case (Cons c d)
  have "wide m (p + 2) (d @ s)"
  proof (rule Cons.IH)
    show "ld16 m (p + 2 + 2 * int i) = d ! i" if "i < length d" for i
      using Cons.prems(1) [of "Suc i"] that by (simp add: add.assoc)
  qed (use Cons.prems(2-4) in \<open>simp_all add: add.assoc\<close>)
  moreover have "ld16 m p = c" using Cons.prems(1) [of 0] by simp
  ultimately show ?case using Cons.prems(2,4) by simp
qed simp

lemma wide_append_agree:
  assumes "wide m Dest d" "agree Dest (Dest + 2 * int (length d)) m m'" "wide m' (Dest + 2 * int (length d)) s"
    "Dest + 2 * int (length d) < ADDR_LIMIT"
  shows "wide m' Dest (d @ s)"
proof (rule wide_append)
  show "ld16 m' (Dest + 2 * int i) = d ! i" if "i < length d" for i
    using wide_nth [OF assms(1) that] ld16_agree [OF assms(2), of "Dest + 2 * int i"] that by simp
qed (use assms wide_chars in \<open>fastforce+\<close>)

lemma RtStrCat_wide:
  assumes "wide m Dest d" "wide m Src s"
    and "Src + 2 * int (length s) + 2 \<le> Dest \<or> Dest + 2 * int (length (d @ s)) + 2 \<le> Src"
    and "Dest + 2 * int (length (d @ s)) < ADDR_LIMIT"
  shows "wide (RtStrCat m Dest Src) Dest (d @ s)"
    and "unchanged_outside (Dest + 2 * int (length d)) (Dest + 2 * int (length (d @ s)) + 2) m (RtStrCat m Dest Src)"
proof -
  let ?e = "Dest + 2 * int (length d)"
  have cat: "RtStrCat m Dest Src = RtStrCpy m ?e Src" by (simp add: RtStrCat_def RtStrLen_length [OF assms(1)])
  have w: "wide (RtStrCpy m ?e Src) ?e s" and u: "unchanged_outside ?e (?e + 2 * int (length s) + 2) m (RtStrCpy m ?e Src)"
    using assms(3,4) by (auto intro!: RtStrCpy_wide [OF assms(2)])
  show "wide (RtStrCat m Dest Src) Dest (d @ s)" unfolding cat
    using u assms(4) by (intro wide_append_agree [OF assms(1) _ w]) (auto simp: agree_def unchanged_outside_def)
  show "unchanged_outside ?e (Dest + 2 * int (length (d @ s)) + 2) m (RtStrCat m Dest Src)"
    using u by (simp add: cat algebra_simps)
qed

section \<open>Numbers\<close>

definition is_hex16 :: "int \<Rightarrow> bool" where
  "is_hex16 c \<longleftrightarrow> 48 \<le> c \<and> c \<le> 57 \<or> 65 \<le> c \<and> c \<le> 70 \<or> 97 \<le> c \<and> c \<le> 102"

definition hex_val :: "int \<Rightarrow> int" where
  "hex_val c = (if c \<le> 57 then c - 48 else if c \<le> 70 then c - 55 else c - 87)"

lemma skip_blanks_wide:
  "wide m p s \<Longrightarrow> wide m (skip_blanks m p) (dropWhile (\<lambda>c. c = 32) s)"
proof (induction s arbitrary: p)
  case Nil
  then show ?case by (subst skip_blanks.simps) simp
next
  case (Cons c s)
  then show ?case by (subst skip_blanks.simps) simp
qed

lemma mult_or_digit:
  assumes "0 \<le> v" "v < 16"
  shows "u64 (u * 16) OR v = u64 (u * 16 + v)"
proof -
  define r where "r = u mod 1152921504606846976"
  have "16 * u mod (16 * 1152921504606846976) = 16 * r" unfolding r_def by (rule mod_mult_mult1)
  then have u: "u64 (u * 16) = 16 * r" by (simp add: u64_def mult.commute)
  have r: "0 \<le> r" "r < 1152921504606846976" by (simp_all add: r_def)
  have "take_bit 4 v = v" using assms by (simp add: take_bit_int_eq_self)
  then have "push_bit 4 r AND v = 0" by (intro bit_eqI) (metis bit_and_iff bit_push_bit_iff bit_take_bit_iff bit_0_eq bot_apply bot_bool_def not_le)
  then have "16 * r OR v = 16 * r + v" by (simp add: disjunctive_add_eq_or push_bit_eq_mult mult.commute)
  moreover have "u64 (u * 16 + v) = u64 (u64 (u * 16) + v)" by (simp add: u64_def mod_simps)
  then have "u64 (u * 16 + v) = 16 * r + v" using u r assms by (simp add: u64_id)
  ultimately show ?thesis using u by simp
qed

lemma xtoi_loop_value:
  "wide m p s \<Longrightarrow> xtoi_loop m p (u64 u) = u64 (foldl (\<lambda>u c. u * 16 + hex_val c) u (takeWhile is_hex16 s))"
proof (induction s arbitrary: p u)
  case Nil
  then show ?case by (subst xtoi_loop.simps) simp
next
  case (Cons c s)
  have fold16: "u64 (u64 u * 16) = u64 (u * 16)" by (simp add: u64_def mod_simps)
  show ?case
  proof (cases "is_hex16 c")
    case True
    define c' where "c' = (if 97 \<le> c \<and> c \<le> 102 then c - 32 else c)"
    have v: "c' - (if 65 \<le> c' then 55 else 48) = hex_val c" "0 \<le> hex_val c" "hex_val c < 16"
      "48 \<le> c' \<and> c' \<le> 57 \<or> 65 \<le> c' \<and> c' \<le> 70"
      using True by (auto simp: c'_def is_hex16_def hex_val_def)
    have "xtoi_loop m p (u64 u) = xtoi_loop m (p + 2) (u64 (u64 u * 16) OR hex_val c)"
      using Cons.prems v by (subst xtoi_loop.simps) (simp add: Let_def c'_def [symmetric])
    also have "\<dots> = xtoi_loop m (p + 2) (u64 (u * 16 + hex_val c))"
      using v by (simp add: fold16 mult_or_digit)
    finally show ?thesis using Cons True by simp
  next
    case False
    then show ?thesis using Cons.prems by (subst xtoi_loop.simps) (auto simp: Let_def is_hex16_def)
  qed
qed

lemma xtoi_value:
  "wide m p s \<Longrightarrow>
   xtoi m p = u64 (foldl (\<lambda>u c. u * 16 + hex_val c) 0 (takeWhile is_hex16 (dropWhile (\<lambda>c. c = 32) s)))"
  using xtoi_loop_value [of m "skip_blanks m p" "dropWhile (\<lambda>c. c = 32) s" 0] skip_blanks_wide [of m p s]
  by (simp add: xtoi_def u64_id)

definition is_dec16 :: "int \<Rightarrow> bool" where
  "is_dec16 c \<longleftrightarrow> 48 \<le> c \<and> c \<le> 57"

lemma Atoi_loop_value:
  "wide m p s \<Longrightarrow> Atoi_loop m p (u64 u) = u64 (foldl (\<lambda>u c. u * 10 + (c - 48)) u (takeWhile is_dec16 s))"
proof (induction s arbitrary: p u)
  case Nil
  then show ?case by (subst Atoi_loop.simps) simp
next
  case (Cons c s)
  have "u64 (u64 (u64 (u64 u * 10) + c) - 48) = u64 (u * 10 + (c - 48))" by (simp add: u64_def mod_simps algebra_simps)
  moreover have "48 \<le> c \<and> c \<le> 57 \<longleftrightarrow> is_dec16 c" by (simp add: is_dec16_def)
  ultimately show ?case using Cons by (subst Atoi_loop.simps) (auto simp: Let_def)
qed

lemma Atoi_value:
  "wide m p s \<Longrightarrow> Atoi m p = u64 (foldl (\<lambda>u c. u * 10 + (c - 48)) 0 (takeWhile is_dec16 (dropWhile (\<lambda>c. c = 32) s)))"
  using Atoi_loop_value [of m "skip_blanks m p" "dropWhile (\<lambda>c. c = 32) s" 0] skip_blanks_wide [of m p s]
  by (simp add: Atoi_def u64_id)

end
