(* ===== verification/Metamatch.thy ===== *)
theory Metamatch
  imports Rtlib_Spec
begin

text \<open>
  \<open>MetaMatch\<close> of \<open>src/lib/str.c\<close>: matching a string against a pattern with \<open>*\<close>, \<open>?\<close> and sets
  \<open>[...]\<close>. The reference is a relation between a parsed pattern and a string. A set that is not closed
  is outside of it: there the code steps over the NUL that ends the pattern.
\<close>

section \<open>The code\<close>

text \<open>
  The loop \<open>while ((p = *Pattern++))\<close> in a set: \<open>None\<close> where it returns \<open>FALSE\<close>, otherwise \<open>p\<close> and
  \<open>Pattern\<close> behind it. \<open>l\<close> is the character before, the low end of a range.
\<close>

function set_scan :: "mem \<Rightarrow> int \<Rightarrow> int \<Rightarrow> addr \<Rightarrow> (int \<times> addr) option" where
  "set_scan m c l Pattern =
     (let p = ld16 m Pattern
      in if \<not> (Pattern < ADDR_LIMIT \<and> p \<noteq> 0) then Some (0, Pattern + 2)
         else if p = 93 then None
         else if p = 45 then
           (let p = ld16 m (Pattern + 2)
            in if p = 0 \<or> p = 93 then None
               else if c \<ge> l \<and> c \<le> p then Some (p, Pattern + 2)
               else if c = p then Some (p, Pattern + 2)
               else set_scan m c p (Pattern + 2))
         else if c = p then Some (p, Pattern + 2)
         else set_scan m c p (Pattern + 2))"
  by pat_completeness auto
termination by (relation "measure (\<lambda>(m, c, l, Pattern). nat (ADDR_LIMIT - Pattern))") auto

text \<open>\<open>while (p && p != ']')\<close>: to the end of the set.\<close>

function set_skip :: "mem \<Rightarrow> int \<Rightarrow> addr \<Rightarrow> addr" where
  "set_skip m p Pattern =
     (if Pattern < ADDR_LIMIT \<and> p \<noteq> 0 \<and> p \<noteq> 93 then set_skip m (ld16 m Pattern) (Pattern + 2) else Pattern)"
  by pat_completeness auto
termination by (relation "measure (\<lambda>(m, p, Pattern). nat (ADDR_LIMIT - Pattern))") auto

declare set_scan.simps [simp del] set_skip.simps [simp del]

lemma set_scan_ahead: "set_scan m c l Pattern = Some (p, Q) \<Longrightarrow> Pattern < Q"
  by (induction m c l Pattern rule: set_scan.induct)
     (subst (asm) set_scan.simps, fastforce simp: Let_def split: if_splits)

lemma set_skip_ahead: "Pattern \<le> set_skip m p Pattern"
  by (induction m p Pattern rule: set_skip.induct) (subst set_skip.simps, auto)

text \<open>The loop over the pattern, and the loop of the case \<open>'*'\<close> over the string.\<close>

function MetaMatch :: "mem \<Rightarrow> addr \<Rightarrow> addr \<Rightarrow> bool"
  and meta_star :: "mem \<Rightarrow> addr \<Rightarrow> addr \<Rightarrow> bool" where
  "MetaMatch m String Pattern =
     (let p = ld16 m Pattern; c = ld16 m String
      in if \<not> (Pattern < ADDR_LIMIT \<and> p \<noteq> 0) then c = 0
         else if p = 42 then meta_star m String (Pattern + 2)
         else if p = 63 then (if c = 0 then False else MetaMatch m (String + 2) (Pattern + 2))
         else if p = 91 then
           (if c = 0 then False
            else (case set_scan m c 0 (Pattern + 2) of
                    None \<Rightarrow> False
                  | Some (p, Q) \<Rightarrow> MetaMatch m (String + 2) (set_skip m p Q)))
         else if c \<noteq> p then False
         else MetaMatch m (String + 2) (Pattern + 2))"
| "meta_star m String Pattern =
     (if String < ADDR_LIMIT \<and> ld16 m String \<noteq> 0
      then (if MetaMatch m String Pattern then True else meta_star m (String + 2) Pattern)
      else MetaMatch m String Pattern)"
  by pat_completeness auto
termination
proof (relation "inv_image (less_than <*lex*> less_than <*lex*> less_than)
    (case_sum (\<lambda>(m, S, P). (nat (ADDR_LIMIT - P), 0, 0)) (\<lambda>(m, S, P). (nat (ADDR_LIMIT - P), 1 :: nat, nat (ADDR_LIMIT - S))))",
    goal_cases)
  case (4 m String Pattern x xa y p q)
  have "Pattern < set_skip m p q"
    using set_scan_ahead [of m xa 0 "Pattern + 2" p q] set_skip_ahead [of q m p] 4 by auto
  then show ?case using 4 by auto
qed auto

declare MetaMatch.simps [simp del] meta_star.simps [simp del]

section \<open>The reference\<close>

datatype meta = Lit int | AnyChar | Star | Class "int list"

text \<open>The characters of a set: single ones, and ranges from the character before to the one behind a \<open>-\<close>.\<close>

fun class_set :: "int \<Rightarrow> int list \<Rightarrow> int set" where
  "class_set l [] = {}"
| "class_set l (p # ps) =
     (if p = 45 then (case ps of [] \<Rightarrow> {} | h # _ \<Rightarrow> {l..h} \<union> {h} \<union> class_set h ps)
      else {p} \<union> class_set p ps)"

function parse_meta :: "int list \<Rightarrow> meta list option" where
  "parse_meta [] = Some []"
| "parse_meta (p # s) =
     (if p = 42 then map_option (Cons Star) (parse_meta s)
      else if p = 63 then map_option (Cons AnyChar) (parse_meta s)
      else if p = 91 then
        (if 93 \<in> set s
         then map_option (Cons (Class (takeWhile (\<lambda>c. c \<noteq> 93) s))) (parse_meta (tl (dropWhile (\<lambda>c. c \<noteq> 93) s)))
         else None)
      else map_option (Cons (Lit p)) (parse_meta s))"
  by pat_completeness auto
termination
proof (relation "measure length", goal_cases)
  case (4 p s)
  then show ?case using length_dropWhile_le [of "\<lambda>c. c \<noteq> 93" s] by (auto simp: less_Suc_eq_le)
qed auto

inductive glob :: "meta list \<Rightarrow> int list \<Rightarrow> bool" where
  glob_Nil: "glob [] []"
| glob_Lit: "glob ts s \<Longrightarrow> glob (Lit c # ts) (c # s)"
| glob_Any: "glob ts s \<Longrightarrow> glob (AnyChar # ts) (c # s)"
| glob_Class: "glob ts s \<Longrightarrow> c \<in> class_set 0 b \<Longrightarrow> glob (Class b # ts) (c # s)"
| glob_Star: "glob ts s \<Longrightarrow> glob (Star # ts) (u @ s)"

inductive_simps glob_simps: "glob [] s" "glob (Lit c # ts) s" "glob (AnyChar # ts) s" "glob (Class b # ts) s"
  "glob (Star # ts) s"

section \<open>The code meets it\<close>

lemma set_skip_end:
  "wide m P (b @ 93 # r) \<Longrightarrow> 93 \<notin> set b \<Longrightarrow> p \<noteq> 0 \<Longrightarrow> p \<noteq> 93 \<Longrightarrow>
   set_skip m p P = P + 2 * int (length b) + 2"
proof (induction b arbitrary: P p)
  case Nil
  then show ?case by (simp add: set_skip.simps [of m p] set_skip.simps [of m 93])
next
  case (Cons c b)
  then show ?case using Cons.IH [of "P + 2" c] by (simp add: set_skip.simps [of m p])
qed

lemma set_scan_class:
  "wide m P (b @ 93 # r) \<Longrightarrow> 93 \<notin> set b \<Longrightarrow>
   (case set_scan m c l P of
      None \<Rightarrow> c \<notin> class_set l b
    | Some (p, Q) \<Rightarrow> c \<in> class_set l b \<and> set_skip m p Q = P + 2 * int (length b) + 2)"
proof (induction b arbitrary: P l)
  case Nil
  then show ?case by (simp add: set_scan.simps [of m c l] Let_def)
next
  case (Cons p b)
  have w: "P < ADDR_LIMIT" "ld16 m P = p" "p \<noteq> 0" "wide m (P + 2) (b @ 93 # r)" "p \<noteq> 93" "93 \<notin> set b"
    using Cons.prems by auto
  have skip: "q \<noteq> 0 \<Longrightarrow> q \<noteq> 93 \<Longrightarrow> set_skip m q (P + 2) = P + 2 * int (length (p # b)) + 2" for q
    using set_skip_end [OF w(4,6)] by simp
  note step = set_scan.simps [of m c l P]
  note IH = Cons.IH [OF w(4,6)]
  show ?case
  proof (cases "p = 45")
    case False
    then show ?thesis using w skip [of p] IH [of p] by (auto simp: step Let_def split: option.splits)
  next
    case True
    show ?thesis
    proof (cases b)
      case Nil
      then show ?thesis using True w by (simp add: step Let_def)
    next
      case (Cons h t)
      have h: "ld16 m (P + 2) = h" "h \<noteq> 0" "h \<noteq> 93" using Cons w by auto
      have "class_set l (p # b) = {l..h} \<union> {h} \<union> class_set h b" using True Cons by simp
      then show ?thesis using w h True skip [of h] IH [of h]
        by (auto simp: step Let_def simp del: class_set.simps split: option.splits)
    qed
  qed
qed

lemma wide_drop: "wide m p (u @ v) \<Longrightarrow> wide m (p + 2 * int (length u)) v"
proof (induction u arbitrary: p)
  case (Cons c u)
  then show ?case using Cons.IH [of "p + 2"] by (simp add: add.assoc)
qed simp

lemma meta_star_split:
  "wide m p s \<Longrightarrow> meta_star m p q \<longleftrightarrow> (\<exists>u v. s = u @ v \<and> MetaMatch m (p + 2 * int (length u)) q)"
proof (induction s arbitrary: p)
  case Nil
  then show ?case by (simp add: meta_star.simps)
next
  case (Cons c s)
  have "(\<exists>u v. c # s = u @ v \<and> MetaMatch m (p + 2 * int (length u)) q) \<longleftrightarrow>
      MetaMatch m p q \<or> (\<exists>u v. s = u @ v \<and> MetaMatch m (p + 2 + 2 * int (length u)) q)"
    (is "?l \<longleftrightarrow> ?r")
  proof
    assume ?l
    then obtain u v where uv: "c # s = u @ v" "MetaMatch m (p + 2 * int (length u)) q" by blast
    then show ?r
    proof (cases u)
      case (Cons a u')
      have "p + 2 * int (length u) = p + 2 + 2 * int (length u')" using Cons by simp
      then show ?thesis using uv Cons by (metis append_Cons list.inject)
    qed (use uv in simp)
  next
    assume ?r
    then show ?l
    proof
      assume "MetaMatch m p q"
      then show ?l by (intro exI [of _ "[]"] exI [of _ "c # s"]) simp
    next
      assume "\<exists>u v. s = u @ v \<and> MetaMatch m (p + 2 + 2 * int (length u)) q"
      then obtain u v where "s = u @ v" "MetaMatch m (p + 2 + 2 * int (length u)) q" by blast
      then show ?l by (intro exI [of _ "c # u"] exI [of _ v]) (simp add: add.assoc)
    qed
  qed
  then show ?case using Cons by (subst meta_star.simps) auto
qed

lemma MetaMatch_glob:
  "wide m p s \<Longrightarrow> wide m q pat \<Longrightarrow> parse_meta pat = Some ts \<Longrightarrow> MetaMatch m p q \<longleftrightarrow> glob ts s"
proof (induction pat arbitrary: p q s ts rule: parse_meta.induct)
  case 1
  then show ?case by (cases s) (auto simp: MetaMatch.simps [of m p q] glob_simps)
next
  case (2 c pat)
  have w: "q < ADDR_LIMIT" "ld16 m q = c" "c \<noteq> 0" "wide m (q + 2) pat" using "2.prems" by auto
  note step = MetaMatch.simps [of m p q, unfolded Let_def]
  consider "c = 42" | "c = 63" | "c = 91" | "c \<notin> {42, 63, 91}" by blast
  then show ?case
  proof cases
    case 1
    then obtain ts' where ts: "parse_meta pat = Some ts'" "ts = Star # ts'" using "2.prems" by auto
    have "MetaMatch m p q \<longleftrightarrow> meta_star m p (q + 2)" using w 1 by (simp add: step)
    also have "\<dots> \<longleftrightarrow> (\<exists>u v. s = u @ v \<and> glob ts' v)"
      unfolding meta_star_split [OF "2.prems"(1)] using "2.IH"(1) [OF 1 _ w(4) ts(1)] "2.prems"(1)
      by (metis (no_types, lifting) wide_drop)
    finally show ?thesis by (auto simp: ts glob_simps)
  next
    case 2
    then obtain ts' where ts: "parse_meta pat = Some ts'" "ts = AnyChar # ts'" using "2.prems" by auto
    show ?thesis using "2.IH"(2) [OF _ _ _ w(4) ts(1)] "2.prems"(1) w 2 ts(2)
      by (cases s) (auto simp: step glob_simps)
  next
    case 3
    define b r where "b = takeWhile (\<lambda>c. c \<noteq> 93) pat" and "r = tl (dropWhile (\<lambda>c. c \<noteq> 93) pat)"
    obtain ts' where closed: "93 \<in> set pat" and ts: "parse_meta r = Some ts'" "ts = Class b # ts'"
      using "2.prems"(3) 3 by (auto simp: b_def r_def split: if_splits)
    have pat: "pat = b @ 93 # r" and b: "93 \<notin> set b"
      using closed by (auto simp: b_def r_def dest: set_takeWhileD) (metis (mono_tags, lifting) dropWhile_eq_Nil_conv hd_Cons_tl hd_dropWhile takeWhile_dropWhile_id)
    have wr: "wide m (q + 2 + 2 * int (length b) + 2) r"
      using wide_drop [of m "q + 2" "b @ [93]" r] w(4) by (simp add: pat add.assoc)
    show ?thesis
    proof (cases s)
      case Nil
      then show ?thesis using "2.prems"(1) w 3 ts(2) by (simp add: step glob_simps)
    next
      case (Cons d s')
      have d: "ld16 m p = d" "d \<noteq> 0" "wide m (p + 2) s'" using "2.prems"(1) Cons by auto
      have "MetaMatch m (p + 2) (q + 2 + 2 * int (length b) + 2) \<longleftrightarrow> glob ts' s'"
        using "2.IH"(3) [OF _ _ 3 closed d(3)] wr ts(1) 3 by (simp add: r_def)
      then show ?thesis
        using set_scan_class [of m "q + 2" b r d 0] w d b 3 ts(2) Cons pat
        by (auto simp: step glob_simps split: option.splits)
    qed
  next
    case 4
    then obtain ts' where ts: "parse_meta pat = Some ts'" "ts = Lit c # ts'" using "2.prems" by auto
    show ?thesis using "2.IH"(4) [OF _ _ _ _ w(4) ts(1)] "2.prems"(1) w 4 ts(2)
      by (cases s) (auto simp: step glob_simps)
  qed
qed


text \<open>
  A set without its end: the code goes on behind the NUL of the pattern, as though the set had matched.
\<close>

lemma MetaMatch_overrun:
  assumes "wide m p (d # s)" "wide m q [91, e]" "q + 4 < ADDR_LIMIT" "e \<notin> {45, 93}" "d \<noteq> e"
  shows "MetaMatch m p q \<longleftrightarrow> MetaMatch m (p + 2) (q + 6)"
proof -
  have "set_scan m d 0 (q + 2) = Some (0, q + 6)"
    using assms by (simp add: set_scan.simps [of m d 0] set_scan.simps [of m d e] Let_def)
  then show ?thesis
    using assms by (subst MetaMatch.simps) (simp add: Let_def set_skip.simps [of m 0])
qed

end
