(* ===== verification/Mbr.thy ===== *)
theory Mbr
  imports Efi_Spec
begin

text \<open>
  \<open>ValidMBR\<close> of \<open>src/lib/misc.c\<close>: whether a sector is a master boot record whose partitions lie on the
  device and do not overlap. The record is in memory, 512 bytes as \<open>efipart.h\<close> lays them out.
\<close>

section \<open>The code\<close>

definition EXTRACT_UINT32 :: "mem \<Rightarrow> addr \<Rightarrow> int" where
  "EXTRACT_UINT32 m D =
     u32 (((uint (m D) OR push_bit 8 (uint (m (D + 1)))) OR push_bit 16 (uint (m (D + 2)))) OR push_bit 24 (uint (m (D + 3))))"

definition OSIndicator :: "mem \<Rightarrow> addr \<Rightarrow> nat \<Rightarrow> byte" where
  "OSIndicator m Mbr i = m (Mbr + 446 + 16 * int i + 4)"
definition StartingLBA :: "mem \<Rightarrow> addr \<Rightarrow> nat \<Rightarrow> int" where
  "StartingLBA m Mbr i = EXTRACT_UINT32 m (Mbr + 446 + 16 * int i + 8)"
definition SizeInLBA :: "mem \<Rightarrow> addr \<Rightarrow> nat \<Rightarrow> int" where
  "SizeInLBA m Mbr i = EXTRACT_UINT32 m (Mbr + 446 + 16 * int i + 12)"
definition MbrSignature :: "mem \<Rightarrow> addr \<Rightarrow> int" where
  "MbrSignature m Mbr = ld_le m (Mbr + 510) 2"

abbreviation (input) MBR_SIGNATURE :: int where "MBR_SIGNATURE \<equiv> 0xaa55"
abbreviation (input) MIN_MBR_DEVICE_SIZE :: int where "MIN_MBR_DEVICE_SIZE \<equiv> 0x80000"
abbreviation (input) MBR_ERRATA_PAD :: int where "MBR_ERRATA_PAD \<equiv> 0x40000"

text \<open>A partition that the loops do not pass over, and its last block in 32 bits.\<close>

definition used :: "mem \<Rightarrow> addr \<Rightarrow> nat \<Rightarrow> bool" where
  "used m Mbr i \<longleftrightarrow> \<not> (OSIndicator m Mbr i = 0 \<or> SizeInLBA m Mbr i = 0)"

definition EndingLBA :: "mem \<Rightarrow> addr \<Rightarrow> nat \<Rightarrow> int" where
  "EndingLBA m Mbr i = u32 (StartingLBA m Mbr i + SizeInLBA m Mbr i - 1)"

text \<open>The inner loop over the partitions behind the \<open>i\<close>th: \<open>False\<close> where it returns.\<close>

fun no_overlap :: "mem \<Rightarrow> addr \<Rightarrow> int \<Rightarrow> int \<Rightarrow> nat list \<Rightarrow> bool" where
  "no_overlap m Mbr S E [] = True"
| "no_overlap m Mbr S E (j # js) =
     (if \<not> used m Mbr j then no_overlap m Mbr S E js
      else if StartingLBA m Mbr j \<ge> S \<and> StartingLBA m Mbr j \<le> E then False
      else if EndingLBA m Mbr j \<ge> S \<and> EndingLBA m Mbr j \<le> E then False
      else no_overlap m Mbr S E js)"

fun mbr_loop :: "mem \<Rightarrow> addr \<Rightarrow> int \<Rightarrow> bool \<Rightarrow> nat list \<Rightarrow> bool" where
  "mbr_loop m Mbr LastBlock ValidMbr [] = ValidMbr"
| "mbr_loop m Mbr LastBlock ValidMbr (i # is) =
     (if \<not> used m Mbr i then mbr_loop m Mbr LastBlock ValidMbr is
      else if EndingLBA m Mbr i > LastBlock \<and> LastBlock < MIN_MBR_DEVICE_SIZE then False
      else if EndingLBA m Mbr i > LastBlock \<and> EndingLBA m Mbr i > u64 (LastBlock + MBR_ERRATA_PAD) then False
      else if \<not> no_overlap m Mbr (StartingLBA m Mbr i) (EndingLBA m Mbr i) [i + 1..<4] then False
      else mbr_loop m Mbr LastBlock True is)"

definition ValidMBR :: "mem \<Rightarrow> addr \<Rightarrow> int \<Rightarrow> bool" where
  "ValidMBR m Mbr LastBlock =
     (if MbrSignature m Mbr \<noteq> MBR_SIGNATURE then False else mbr_loop m Mbr LastBlock False [0..<4])"

section \<open>What it accepts\<close>

lemma EXTRACT_UINT32_le: "EXTRACT_UINT32 m D = ld_le m D 4"
proof -
  have t: "take_bit k (a + push_bit k b) = a" if "0 \<le> a" "a < 2 ^ k" for a b :: int and k
    using that by (simp add: push_bit_eq_mult take_bit_eq_mod)
  have add: "a OR push_bit k b = a + push_bit k b" if "0 \<le> a" "a < 2 ^ k" for a b :: int and k
  proof -
    have "a AND push_bit k b = 0"
      using that by (intro bit_eqI) (metis bit_and_iff bit_push_bit_iff bit_take_bit_iff bit_0_eq bot_apply bot_bool_def not_le take_bit_int_eq_self)
    then show ?thesis by (simp add: disjunctive_add_eq_or)
  qed
  define b0 b1 b2 b3 where "b0 = uint (m D)" and "b1 = uint (m (D + 1))" and "b2 = uint (m (D + 2))" and "b3 = uint (m (D + 3))"
  have b: "0 \<le> b0" "b0 < 256" "0 \<le> b1" "b1 < 256" "0 \<le> b2" "b2 < 256" "0 \<le> b3" "b3 < 256"
    by (simp_all add: b0_def b1_def b2_def b3_def)
  have e1: "b0 OR push_bit 8 b1 = b0 + 256 * b1" using b by (subst add) (simp_all add: push_bit_eq_mult)
  have e2: "(b0 + 256 * b1) OR push_bit 16 b2 = b0 + 256 * b1 + 65536 * b2"
    using b by (subst add) (simp_all add: push_bit_eq_mult)
  have e3: "(b0 + 256 * b1 + 65536 * b2) OR push_bit 24 b3 = b0 + 256 * b1 + 65536 * b2 + 16777216 * b3"
    using b by (subst add) (simp_all add: push_bit_eq_mult)
  have "EXTRACT_UINT32 m D = u32 (b0 + 256 * b1 + 65536 * b2 + 16777216 * b3)"
    by (simp add: EXTRACT_UINT32_def b0_def [symmetric] b1_def [symmetric] b2_def [symmetric] b3_def [symmetric] e1 e2 e3)
  also have "\<dots> = b0 + 256 * b1 + 65536 * b2 + 16777216 * b3" using b by (intro u32_id) auto
  also have "\<dots> = ld_le m D 4"
    by (simp add: ld_le_def numeral_eq_Suc bytes_at_Suc b0_def b1_def b2_def b3_def algebra_simps)
  finally show ?thesis .
qed

lemma block_bounds:
  "0 \<le> StartingLBA m Mbr i" "StartingLBA m Mbr i < 4294967296" "0 \<le> SizeInLBA m Mbr i" "SizeInLBA m Mbr i < 4294967296"
  by (simp_all add: StartingLBA_def SizeInLBA_def EXTRACT_UINT32_def)

lemma no_overlap_iff:
  "no_overlap m Mbr S E js \<longleftrightarrow>
     (\<forall>j \<in> set js. used m Mbr j \<longrightarrow> \<not> (S \<le> StartingLBA m Mbr j \<and> StartingLBA m Mbr j \<le> E)
                                  \<and> \<not> (S \<le> EndingLBA m Mbr j \<and> EndingLBA m Mbr j \<le> E))"
  by (induction js) auto

definition on_device :: "int \<Rightarrow> int \<Rightarrow> bool" where
  "on_device E LastBlock \<longleftrightarrow> E \<le> LastBlock \<or> MIN_MBR_DEVICE_SIZE \<le> LastBlock \<and> E \<le> u64 (LastBlock + MBR_ERRATA_PAD)"

lemma mbr_loop_iff:
  "mbr_loop m Mbr LastBlock V is \<longleftrightarrow>
     (V \<or> (\<exists>i \<in> set is. used m Mbr i)) \<and>
     (\<forall>i \<in> set is. used m Mbr i \<longrightarrow> on_device (EndingLBA m Mbr i) LastBlock \<and>
         no_overlap m Mbr (StartingLBA m Mbr i) (EndingLBA m Mbr i) [i + 1..<4])"
  by (induction "is" arbitrary: V) (auto simp: on_device_def simp del: no_overlap.simps)

lemma valid_mbr:
  "ValidMBR m Mbr LastBlock \<longleftrightarrow>
     MbrSignature m Mbr = MBR_SIGNATURE \<and> (\<exists>i < 4. used m Mbr i) \<and>
     (\<forall>i < 4. used m Mbr i \<longrightarrow> on_device (EndingLBA m Mbr i) LastBlock) \<and>
     (\<forall>i j. i < j \<longrightarrow> j < 4 \<longrightarrow> used m Mbr i \<longrightarrow> used m Mbr j \<longrightarrow>
        \<not> (StartingLBA m Mbr i \<le> StartingLBA m Mbr j \<and> StartingLBA m Mbr j \<le> EndingLBA m Mbr i) \<and>
        \<not> (StartingLBA m Mbr i \<le> EndingLBA m Mbr j \<and> EndingLBA m Mbr j \<le> EndingLBA m Mbr i))"
proof -
  have "(\<forall>i < 4. used m Mbr i \<longrightarrow> (\<forall>j \<in> {i + 1..<4}. P i j)) \<longleftrightarrow> (\<forall>i j. i < j \<longrightarrow> j < 4 \<longrightarrow> used m Mbr i \<longrightarrow> P i j)"
    for P :: "nat \<Rightarrow> nat \<Rightarrow> bool"
    by auto
  then show ?thesis
    unfolding ValidMBR_def mbr_loop_iff no_overlap_iff by (auto simp del: upt_Suc)
qed

text \<open>The blocks of a partition that ends below \<open>2 ^ 32\<close>.\<close>

definition blocks :: "mem \<Rightarrow> addr \<Rightarrow> nat \<Rightarrow> int set" where
  "blocks m Mbr i = {StartingLBA m Mbr i ..< StartingLBA m Mbr i + SizeInLBA m Mbr i}"

lemma ending_no_wrap:
  assumes "used m Mbr i" "StartingLBA m Mbr i + SizeInLBA m Mbr i \<le> 4294967296"
  shows "EndingLBA m Mbr i = StartingLBA m Mbr i + SizeInLBA m Mbr i - 1"
proof -
  have "SizeInLBA m Mbr i \<noteq> 0" using assms(1) by (simp add: used_def)
  then show ?thesis using assms(2) block_bounds [of m Mbr i] by (simp add: EndingLBA_def u32_id)
qed

lemma valid_mbr_apart:
  assumes "ValidMBR m Mbr LastBlock" "i < j" "j < 4" "used m Mbr i" "used m Mbr j"
    and "StartingLBA m Mbr i + SizeInLBA m Mbr i \<le> 4294967296" "StartingLBA m Mbr j + SizeInLBA m Mbr j \<le> 4294967296"
  shows "blocks m Mbr i \<inter> blocks m Mbr j = {} \<or> blocks m Mbr i \<subset> blocks m Mbr j"
proof -
  let ?s = "StartingLBA m Mbr" and ?n = "SizeInLBA m Mbr"
  have n: "0 < ?n i" "0 < ?n j" using assms(4,5) block_bounds [of m Mbr] by (auto simp: used_def order_less_le)
  have e: "EndingLBA m Mbr i = ?s i + ?n i - 1" "EndingLBA m Mbr j = ?s j + ?n j - 1"
    using assms(4-7) by (auto intro: ending_no_wrap)
  have no: "\<not> (?s i \<le> ?s j \<and> ?s j \<le> ?s i + ?n i - 1)" "\<not> (?s i \<le> ?s j + ?n j - 1 \<and> ?s j + ?n j - 1 \<le> ?s i + ?n i - 1)"
    using assms(1-5) unfolding valid_mbr e [symmetric] by blast+
  show ?thesis
  proof (cases "?s j < ?s i \<and> ?s i + ?n i < ?s j + ?n j")
    case True
    then have "blocks m Mbr i \<subseteq> blocks m Mbr j" "?s j \<in> blocks m Mbr j" "?s j \<notin> blocks m Mbr i"
      using n by (auto simp: blocks_def)
    then show ?thesis by blast
  next
    case False
    then have "?s i + ?n i \<le> ?s j \<or> ?s j + ?n j \<le> ?s i" using no n by linarith
    then show ?thesis by (auto simp: blocks_def)
  qed
qed

text \<open>Conversely a record with disjoint partitions on the device is accepted.\<close>

lemma disjoint_mbr_valid:
  assumes "MbrSignature m Mbr = MBR_SIGNATURE" "i0 < 4" "used m Mbr i0"
    and "\<And>i. i < 4 \<Longrightarrow> used m Mbr i \<Longrightarrow> StartingLBA m Mbr i + SizeInLBA m Mbr i \<le> 4294967296 \<and>
           StartingLBA m Mbr i + SizeInLBA m Mbr i \<le> LastBlock + 1"
    and "\<And>i j. i < j \<Longrightarrow> j < 4 \<Longrightarrow> used m Mbr i \<Longrightarrow> used m Mbr j \<Longrightarrow> blocks m Mbr i \<inter> blocks m Mbr j = {}"
  shows "ValidMBR m Mbr LastBlock"
proof -
  let ?s = "StartingLBA m Mbr" and ?n = "SizeInLBA m Mbr"
  have e: "EndingLBA m Mbr i = ?s i + ?n i - 1" "0 < ?n i" "EndingLBA m Mbr i \<le> LastBlock" if "i < 4" "used m Mbr i" for i
    using that assms(4) [OF that] ending_no_wrap [of m Mbr i] block_bounds [of m Mbr i]
    by (auto simp: used_def order_less_le)
  have "\<not> (?s i \<le> ?s j \<and> ?s j \<le> EndingLBA m Mbr i) \<and> \<not> (?s i \<le> EndingLBA m Mbr j \<and> EndingLBA m Mbr j \<le> EndingLBA m Mbr i)"
    if "i < j" "j < 4" "used m Mbr i" "used m Mbr j" for i j
  proof -
    have "x \<notin> blocks m Mbr i \<or> x \<notin> blocks m Mbr j" for x using assms(5) [OF that] by blast
    from this [of "?s j"] this [of "EndingLBA m Mbr j"] show ?thesis
      using e [of i] e [of j] that by (auto simp: blocks_def)
  qed
  then show ?thesis using assms(1-3) e by (auto simp: valid_mbr on_device_def)
qed

end
