(* ===== verification/Library_Properties.thy ===== *)
theory Library_Properties
  imports Crc32 Reloc Metamatch Mbr
begin

text \<open>
  Properties of the library of gnu-efi: the checksum of tables, the relocation of the image, strings,
  patterns, and the master boot record.
\<close>

section \<open>The checksum of a table\<close>

text \<open>
  C28: \<open>CalculateCrc\<close>, which takes a byte per step from a table of 256 words, computes the CRC-32 of the
  bytes: the remainder of the division by the polynomial, one bit at a time.
\<close>

lemma crc_is_division: "CalculateCrc m pt n = crc32 (bytes_at m pt n)"
  by (rule calculate_crc)

text \<open>
  C21: a table whose checksum has just been set by \<open>SetCrcAltSize\<close> passes \<open>CheckCrcAltSize\<close> for the same
  size, and no longer passes it after any change within four consecutive bytes of these outside the
  checksum itself. The check leaves the table as it was. It is the same for \<open>CheckCrc\<close>, which takes the
  size from the header, when the change leaves the field \<open>HeaderSize\<close> alone: this field is what decides
  how many bytes are looked at.
\<close>

lemma checksum_detects_burst:
  assumes "0 < Size" "MaxSize = 0 \<or> Size \<le> MaxSize" "Hdr \<le> p" "p + 4 \<le> Hdr + Size" "p + 4 \<le> Hdr + 16 \<or> Hdr + 20 \<le> p"
    and "unchanged_outside p (p + 4) (SetCrcAltSize m Size Hdr) m'" "m' \<noteq> SetCrcAltSize m Size Hdr"
  shows "CheckCrcAltSize (SetCrcAltSize m Size Hdr) MaxSize Size Hdr = (True, SetCrcAltSize m Size Hdr)
    \<and> CheckCrcAltSize m' MaxSize Size Hdr = (False, m')
    \<and> (HeaderSize m Hdr = Size \<longrightarrow> CheckCrc (SetCrcAltSize m Size Hdr) MaxSize Hdr = (True, SetCrcAltSize m Size Hdr)
        \<and> (p + 4 \<le> Hdr + 12 \<or> Hdr + 16 \<le> p \<longrightarrow> CheckCrc m' MaxSize Hdr = (False, m')))"
proof -
  let ?m = "SetCrcAltSize m Size Hdr"
  have "table_crc m' Hdr (nat Size) \<noteq> table_crc ?m Hdr (nat Size)" "CRC32 m' Hdr = CRC32 ?m Hdr"
    using table_crc_burst [of Hdr p "nat Size" ?m m'] assms(1,3-7) by simp_all
  then have c: "CheckCrcAltSize ?m MaxSize Size Hdr = (True, ?m)" "CheckCrcAltSize m' MaxSize Size Hdr = (False, m')"
    using assms(1,2) by (auto simp: check_crc set_crc word_uint_eq_iff)
  have h: "HeaderSize ?m Hdr = HeaderSize m Hdr"
    unfolding HeaderSize_def by (rule ld_le_agree [of "Hdr + 12" "Hdr + 16"]) (auto simp: agree_def SetCrcAltSize_def Let_def mem_simps)
  have "HeaderSize m' Hdr = HeaderSize ?m Hdr" if "p + 4 \<le> Hdr + 12 \<or> Hdr + 16 \<le> p"
    unfolding HeaderSize_def
    by (rule ld_le_agree [of "Hdr + 12" "Hdr + 16"]) (use that assms(6) in \<open>auto simp: agree_def unchanged_outside_def\<close>)
  then show ?thesis using c h by (simp add: CheckCrc_def)
qed

lemma checksum_detects_burst_witness:
  "CheckCrcAltSize ((SetCrcAltSize (\<lambda>a. 7) 24 0)(9 := 8)) 0 24 0 = (False, (SetCrcAltSize (\<lambda>a. 7) 24 0)(9 := 8))"
proof -
  let ?m = "SetCrcAltSize (\<lambda>a. 7) 24 0"
  have "?m 9 = 7" by (simp add: SetCrcAltSize_def Let_def mem_simps)
  then have "?m(9 := 8) \<noteq> ?m" by (auto simp: fun_eq_iff)
  moreover have "unchanged_outside 8 (8 + 4) ?m (?m(9 := 8))" by (auto simp: unchanged_outside_def)
  ultimately show ?thesis using checksum_detects_burst [of 24 0 0 8 "\<lambda>a. 7" "?m(9 := 8)"] by simp
qed

section \<open>Relocation\<close>

text \<open>
  C20: for an image whose dynamic section describes a table of \<open>n\<close> relocations, the relative ones of which
  go to words of their own outside the table, \<open>_relocate\<close> returns with success; each of these words then
  holds its addend moved by the load address, and no other byte has changed.
\<close>

lemma relocation_applies:
  assumes "dynamic m dyn es" "tag_value es DT_RELA = Some a" "tag_value es DT_RELASZ = Some (24 * int n)"
    "tag_value es DT_RELAENT = Some 24" "r = u64 (a + ldbase)"
    and "0 < r" "r + 24 * int n \<le> 18446744073709551615" "24 * int n < 9223372036854775808" "separate m ldbase r n"
  shows "\<exists>m'. relocate m ldbase dyn = Some (EFI_SUCCESS, m') \<and>
    (\<forall>i < n. is_relative m (r + 24 * int i) \<longrightarrow>
       ld_le m' (target m ldbase (r + 24 * int i)) 8 = u64 (ldbase + r_addend m (r + 24 * int i))) \<and>
    (\<forall>b. (\<forall>i < n. is_relative m (r + 24 * int i) \<longrightarrow>
            b < target m ldbase (r + 24 * int i) \<or> target m ldbase (r + 24 * int i) + 8 \<le> b) \<longrightarrow> m' b = m b)"
  using relocate_table [OF assms(1-4)] applied_effect [OF assms(9) order_refl] assms(5-8) by simp

text \<open>A dynamic section of three tags, and a table of one entry: the word at 256 gets the load address and 5.\<close>

definition demo_image :: mem where
  "demo_image = mem_of 4096
     ([7,0,0,0,0,0,0,0, 64,0,0,0,0,0,0,0, 8,0,0,0,0,0,0,0, 24,0,0,0,0,0,0,0,
       9,0,0,0,0,0,0,0, 24,0,0,0,0,0,0,0, 0,0,0,0,0,0,0,0, 0,0,0,0,0,0,0,0,
       0,1,0,0,0,0,0,0, 3,0,0,0,0,0,0,0, 5,0,0,0,0,0,0,0] :: byte list)"

lemma relocation_applies_witness:
  "\<exists>m'. relocate demo_image 4096 4096 = Some (EFI_SUCCESS, m') \<and> ld_le m' 4352 8 = 4101 \<and> m' 4096 = 7"
proof -
  have d: "dynamic demo_image 4096 [(7, 64), (8, 24), (9, 24)]" by code_simp
  have t: "tag_value [(7, 64), (8, 24), (9, 24)] 7 = Some 64" "tag_value [(7, 64), (8, 24), (9, 24)] 8 = Some (24 * int 1)"
    "tag_value [(7, 64), (8, 24), (9, 24)] 9 = Some (24 :: int)" by (simp_all add: tag_value_def)
  have e: "is_relative demo_image 4160" "target demo_image 4096 4160 = 4352" "u64 (4096 + r_addend demo_image 4160) = 4101"
    "u64 (64 + 4096) = 4160" "demo_image 4096 = 7"
    by code_simp+
  have s: "separate demo_image 4096 4160 1" by (simp add: separate_def e)
  show ?thesis using relocation_applies [OF d t e(4) [symmetric]] s e by fastforce
qed

section \<open>Strings and patterns\<close>

text \<open>
  \<open>StrCmp\<close> orders strings of \<open>CHAR16\<close> as the lexicographic order of their characters does: it is 0
  exactly for equal strings, and negative exactly for a string that comes first.
\<close>

lemma strcmp_is_lexicographic:
  assumes "wide m p s" "wide m q t"
  shows "(RtStrCmp m p q = 0 \<longleftrightarrow> s = t) \<and> (RtStrCmp m p q < 0 \<longleftrightarrow> (s, t) \<in> lexord {(a, b). a < b})"
  using wcmp_eq [OF wide_pos [OF assms]] wcmp_less [OF wide_pos [OF assms]] by (simp add: RtStrCmp_wcmp [OF assms])

definition demo_strings :: mem where
  "demo_strings = mem_of 4096 ([97,0, 42,0, 91,0, 98,0, 45,0, 100,0, 93,0, 0,0,  97,0, 120,0, 99,0, 0,0] :: byte list)"

lemma demo_pattern: "wide demo_strings 4096 [97, 42, 91, 98, 45, 100, 93]" by code_simp
lemma demo_subject: "wide demo_strings 4112 [97, 120, 99]" by code_simp

lemma strcmp_is_lexicographic_witness: "RtStrCmp demo_strings 4096 4112 < 0"
  using strcmp_is_lexicographic [OF demo_pattern demo_subject] by simp

text \<open>
  \<open>StrCat\<close> leaves the first string followed by the second at its destination, when the second lies
  apart from it, and changes nothing but the room behind the first.
\<close>

lemma strcat_appends:
  assumes "wide m Dest d" "wide m Src s"
    and "Src + 2 * int (length s) + 2 \<le> Dest \<or> Dest + 2 * int (length (d @ s)) + 2 \<le> Src"
    and "Dest + 2 * int (length (d @ s)) < ADDR_LIMIT"
  shows "wide (RtStrCat m Dest Src) Dest (d @ s) \<and>
    unchanged_outside (Dest + 2 * int (length d)) (Dest + 2 * int (length (d @ s)) + 2) m (RtStrCat m Dest Src)"
  using RtStrCat_wide [OF assms] by blast

lemma strcat_appends_witness:
  "wide (RtStrCat demo_strings 4112 4096) 4112 ([97, 120, 99] @ [97, 42, 91, 98, 45, 100, 93])"
  using strcat_appends [OF demo_subject demo_pattern] by simp

text \<open>
  C29: \<open>MetaMatch\<close> finds a match exactly when the string is one of those the pattern stands for, \<open>*\<close> for
  any characters, \<open>?\<close> for one, a set for each of its characters and ranges, when every set is closed.
\<close>

lemma metamatch_is_glob:
  assumes "wide m p s" "wide m q pat" "parse_meta pat = Some ts"
  shows "MetaMatch m p q \<longleftrightarrow> glob ts s"
  by (rule MetaMatch_glob [OF assms])

lemma metamatch_is_glob_witness: "MetaMatch demo_strings 4112 4096"
proof -
  have "parse_meta [97, 42, 91, 98, 45, 100, 93] = Some [Lit 97, Star, Class [98, 45, 100]]" by simp
  moreover have "glob [Lit 97, Star, Class [98, 45, 100]] [97, 120, 99]"
    using glob_Lit [OF glob_Star [OF glob_Class [OF glob_Nil], of 99 "[98, 45, 100]" "[120]"], of 97] by simp
  ultimately show ?thesis using metamatch_is_glob [OF demo_subject demo_pattern] by blast
qed

section \<open>The master boot record\<close>

text \<open>
  C30: of two partitions that an accepted record uses and whose \<open>StartingLBA + SizeInLBA\<close> does not exceed
  \<open>2 ^ 32\<close>, either no block is in both or the later one contains the earlier. Both conditions are needed:
  \<open>mbr_accepts_enclosing\<close> is an accepted record with a later partition around an earlier one, and
  \<open>mbr_accepts_wrap\<close> one in which the end of a partition wraps in 32 bits to below its begin, which hides
  any overlap with it and any end behind the device.
\<close>

lemma mbr_partitions_apart:
  assumes "ValidMBR m Mbr LastBlock" "i < j" "j < 4" "used m Mbr i" "used m Mbr j"
    and "StartingLBA m Mbr i + SizeInLBA m Mbr i \<le> 4294967296" "StartingLBA m Mbr j + SizeInLBA m Mbr j \<le> 4294967296"
  shows "blocks m Mbr i \<inter> blocks m Mbr j = {} \<or> blocks m Mbr i \<subset> blocks m Mbr j"
  by (rule valid_mbr_apart [OF assms])

text \<open>Two partitions, the second of which contains the first.\<close>

definition demo_mbr :: mem where
  "demo_mbr = (\<lambda>a. 0)(510 := 0x55, 511 := 0xaa, 450 := 1, 454 := 5, 458 := 2, 466 := 1, 470 := 1, 474 := 20)"

lemma demo_mbr_accepted: "ValidMBR demo_mbr 0 100" by code_simp

lemma mbr_partitions_apart_witness: "blocks demo_mbr 0 0 \<inter> blocks demo_mbr 0 1 = {} \<or> blocks demo_mbr 0 0 \<subset> blocks demo_mbr 0 1"
proof -
  have "used demo_mbr 0 0" "used demo_mbr 0 1" "StartingLBA demo_mbr 0 0 + SizeInLBA demo_mbr 0 0 \<le> 4294967296"
    "StartingLBA demo_mbr 0 1 + SizeInLBA demo_mbr 0 1 \<le> 4294967296" by code_simp+
  then show ?thesis by (intro mbr_partitions_apart [OF demo_mbr_accepted]) simp_all
qed

lemma mbr_accepts_enclosing: "ValidMBR demo_mbr 0 100 \<and> 5 \<in> blocks demo_mbr 0 0 \<inter> blocks demo_mbr 0 1"
proof -
  have "StartingLBA demo_mbr 0 0 = 5" "SizeInLBA demo_mbr 0 0 = 2" "StartingLBA demo_mbr 0 1 = 1" "SizeInLBA demo_mbr 0 1 = 20"
    by code_simp+
  then show ?thesis by (simp add: blocks_def demo_mbr_accepted)
qed

text \<open>
  A partition from block 10 of \<open>2 ^ 32 - 1\<close> blocks, whose last block is computed as 8, and one from 20 to 24
  inside it, on a device of 101 blocks.
\<close>

definition wrap_mbr :: mem where
  "wrap_mbr = (\<lambda>a. 0)(510 := 0x55, 511 := 0xaa, 450 := 1, 454 := 10, 458 := 255, 459 := 255, 460 := 255, 461 := 255,
     466 := 1, 470 := 20, 474 := 5)"

lemma mbr_accepts_wrap:
  "ValidMBR wrap_mbr 0 100 \<and> EndingLBA wrap_mbr 0 0 = 8 \<and> 20 \<in> blocks wrap_mbr 0 0 \<inter> blocks wrap_mbr 0 1"
proof -
  have "StartingLBA wrap_mbr 0 0 = 10" "SizeInLBA wrap_mbr 0 0 = 4294967295" "StartingLBA wrap_mbr 0 1 = 20"
    "SizeInLBA wrap_mbr 0 1 = 5" "ValidMBR wrap_mbr 0 100" "EndingLBA wrap_mbr 0 0 = 8" by code_simp+
  then show ?thesis by (simp add: blocks_def)
qed

end
