(* ===== verification/Efi_Services.thy ===== *)
theory Efi_Services
  imports Rtlib_Spec
begin

text \<open>
  Services of the gnu-efi library that call the firmware: \<open>src/lib/misc.c\<close>, and the searches for handles
  and the file information of \<open>src/lib/hand.c\<close>. A query whose size is not known is repeated with a larger
  buffer as long as \<open>GrowBuffer\<close> says so; that loop is one function here, which takes the query as an
  argument. \<open>ty\<close> is the global variable \<open>PoolAllocationType\<close>; a \<open>NULL\<close> pointer is the address 0. What a
  query stores through its size pointer is the field \<open>out\<close> of the reply (\<open>map_size\<close> for a memory map).
\<close>

section \<open>Pool memory\<close>

definition AllocatePool_lib :: "'w firmware \<Rightarrow> int \<Rightarrow> int \<Rightarrow> ('w, 'z) efi_scheme \<Rightarrow> addr \<times> ('w, 'z) efi_scheme" where
  "AllocatePool_lib fw ty Size s =
     (case efi_bs_call fw (AllocatePool ty Size) s of
        (r, s) \<Rightarrow> (if EFI_ERROR (status r) then 0 else out r, s))"

definition FreePool_lib :: "'w firmware \<Rightarrow> addr \<Rightarrow> ('w, 'z) efi_scheme \<Rightarrow> ('w, 'z) efi_scheme" where
  "FreePool_lib fw Buffer s = snd (efi_bs_call fw (FreePool Buffer) s)"

definition AllocateZeroPool :: "'w firmware \<Rightarrow> int \<Rightarrow> int \<Rightarrow> ('w, 'z) efi_scheme \<Rightarrow> addr \<times> ('w, 'z) efi_scheme" where
  "AllocateZeroPool fw ty Size s =
     (case AllocatePool_lib fw ty Size s of
        (p, s) \<Rightarrow> (p, if p \<noteq> 0 then s\<lparr>memory := RtZeroMem (memory s) p (nat Size)\<rparr> else s))"

definition ReallocatePool ::
  "'w firmware \<Rightarrow> int \<Rightarrow> addr \<Rightarrow> int \<Rightarrow> int \<Rightarrow> ('w, 'z) efi_scheme \<Rightarrow> addr \<times> ('w, 'z) efi_scheme" where
  "ReallocatePool fw ty OldPool OldSize NewSize s =
     (let (NewPool, s) = (if NewSize \<noteq> 0 then AllocatePool_lib fw ty NewSize s else (0, s))
      in if OldPool \<noteq> 0
         then (let s = (if NewPool \<noteq> 0
                        then s\<lparr>memory := RtCopyMem (memory s) NewPool OldPool (nat (if OldSize < NewSize then OldSize else NewSize))\<rparr>
                        else s)
               in (NewPool, FreePool_lib fw OldPool s))
         else (NewPool, s))"

section \<open>Buffers that grow\<close>

text \<open>The result \<open>TryAgain\<close>, and what is left in \<open>*Status\<close> and \<open>*Buffer\<close>.\<close>

definition GrowBuffer ::
  "'w firmware \<Rightarrow> int \<Rightarrow> int \<Rightarrow> addr \<Rightarrow> int \<Rightarrow> ('w, 'z) efi_scheme \<Rightarrow> bool \<times> int \<times> addr \<times> ('w, 'z) efi_scheme" where
  "GrowBuffer fw ty Status Buffer BufferSize s =
     (let Status = (if Buffer = 0 \<and> BufferSize \<noteq> 0 then EFI_BUFFER_TOO_SMALL else Status);
          (TryAgain, Status, Buffer, s) =
            (if Status = EFI_BUFFER_TOO_SMALL then
               (let s = (if Buffer \<noteq> 0 then FreePool_lib fw Buffer s else s)
                in case AllocatePool_lib fw ty BufferSize s of
                     (Buffer, s) \<Rightarrow>
                       if Buffer \<noteq> 0 then (True, Status, Buffer, s)
                       else (False, EFI_OUT_OF_RESOURCES, Buffer, s))
             else (False, Status, Buffer, s))
      in if \<not> TryAgain \<and> EFI_ERROR Status \<and> Buffer \<noteq> 0
         then (TryAgain, Status, 0, FreePool_lib fw Buffer s)
         else (TryAgain, Status, Buffer, s))"

text \<open>
  \<open>while (GrowBuffer (&Status, &Buffer, BufferSize)) Status = query(&BufferSize, Buffer)\<close>. The result has
  the last reply, \<open>None\<close> when the query was never made.
\<close>

type_synonym ('w, 'z) query = "int \<Rightarrow> addr \<Rightarrow> ('w, 'z) efi_scheme \<Rightarrow> efi_reply \<times> int \<times> ('w, 'z) efi_scheme"

partial_function (option) grow_loop ::
  "'w firmware \<Rightarrow> int \<Rightarrow> ('w, 'z) query \<Rightarrow> int \<Rightarrow> addr \<Rightarrow> int \<Rightarrow> efi_reply option \<Rightarrow> ('w, 'z) efi_scheme
   \<Rightarrow> (int \<times> addr \<times> int \<times> efi_reply option \<times> ('w, 'z) efi_scheme) option" where
  "grow_loop fw ty query Status Buffer BufferSize r s =
     (case GrowBuffer fw ty Status Buffer BufferSize s of
        (TryAgain, Status, Buffer, s) \<Rightarrow>
          if TryAgain
          then (case query BufferSize Buffer s of
                  (r, BufferSize, s) \<Rightarrow> grow_loop fw ty query (status r) Buffer BufferSize (Some r) s)
          else Some (Status, Buffer, BufferSize, r, s))"

definition map_query :: "'w firmware \<Rightarrow> ('w, 'z) query" where
  "map_query fw BufferSize Buffer s =
     (case efi_bs_call fw (GetMemoryMap BufferSize (Some Buffer)) s of (r, s) \<Rightarrow> (r, map_size r, s))"

definition variable_query :: "'w firmware \<Rightarrow> string \<Rightarrow> guid \<Rightarrow> ('w, 'z) query" where
  "variable_query fw Name VendorGuid BufferSize Buffer s =
     (case efi_bs_call fw (GetVariable Name VendorGuid BufferSize) s of
        (r, s) \<Rightarrow> (r, out r, if status r = EFI_SUCCESS then s\<lparr>memory := put_bytes (memory s) Buffer (data r)\<rparr> else s))"

definition handle_query :: "'w firmware \<Rightarrow> int \<Rightarrow> guid option \<Rightarrow> addr \<Rightarrow> ('w, 'z) query" where
  "handle_query fw SearchType Protocol SearchKey BufferSize Buffer s =
     (case efi_bs_call fw (LocateHandle SearchType Protocol SearchKey BufferSize (Some Buffer)) s of
        (r, s) \<Rightarrow> (r, out r, s))"

definition info_query :: "'w firmware \<Rightarrow> addr \<Rightarrow> guid \<Rightarrow> ('w, 'z) query" where
  "info_query fw FHand Info BufferSize Buffer s =
     (case efi_bs_call fw (FileGetInfo FHand Info BufferSize (Some Buffer)) s of (r, s) \<Rightarrow> (r, out r, s))"

text \<open>
  The map, and what is stored through \<open>NoEntries\<close>, \<open>MapKey\<close>, \<open>DescriptorSize\<close> and \<open>DescriptorVersion\<close>
  when the last query has succeeded.
\<close>

definition LibMemoryMap ::
  "'w firmware \<Rightarrow> int \<Rightarrow> ('w, 'z) efi_scheme \<Rightarrow> (addr \<times> (int \<times> int \<times> int \<times> int) option \<times> ('w, 'z) efi_scheme) option" where
  "LibMemoryMap fw ty s =
     do {
       (Status, Buffer, BufferSize, r, s) \<leftarrow> grow_loop fw ty (map_query fw) EFI_SUCCESS 0 40 None s;
       Some (Buffer,
             if \<not> EFI_ERROR Status
             then map_option (\<lambda>r. (BufferSize div desc_size r, map_key r, desc_size r, desc_ver r)) r else None, s)
     }"

definition LibGetVariableAndSize ::
  "'w firmware \<Rightarrow> int \<Rightarrow> string \<Rightarrow> guid \<Rightarrow> ('w, 'z) efi_scheme \<Rightarrow> (addr \<times> int \<times> ('w, 'z) efi_scheme) option" where
  "LibGetVariableAndSize fw ty Name VendorGuid s =
     do {
       (Status, Buffer, BufferSize, r, s) \<leftarrow> grow_loop fw ty (variable_query fw Name VendorGuid) EFI_SUCCESS 0 100 None s;
       Some (Buffer, if Buffer \<noteq> 0 then BufferSize else 0, s)
     }"

definition LibGetVariable ::
  "'w firmware \<Rightarrow> int \<Rightarrow> string \<Rightarrow> guid \<Rightarrow> ('w, 'z) efi_scheme \<Rightarrow> (addr \<times> ('w, 'z) efi_scheme) option" where
  "LibGetVariable fw ty Name VendorGuid s =
     do { (Buffer, VarSize, s) \<leftarrow> LibGetVariableAndSize fw ty Name VendorGuid s; Some (Buffer, s) }"

abbreviation (input) EFI_VARIABLE_BS_RT :: int where "EFI_VARIABLE_BS_RT \<equiv> 6"
abbreviation (input) EFI_VARIABLE_BS_RT_NV :: int where "EFI_VARIABLE_BS_RT_NV \<equiv> 7"

definition LibDeleteVariable ::
  "'w firmware \<Rightarrow> int \<Rightarrow> string \<Rightarrow> guid \<Rightarrow> ('w, 'z) efi_scheme \<Rightarrow> (int \<times> ('w, 'z) efi_scheme) option" where
  "LibDeleteVariable fw ty VarName VarGuid s =
     do {
       (VarBuf, s) \<leftarrow> LibGetVariable fw ty VarName VarGuid s;
       Some (if VarBuf \<noteq> 0
             then (case efi_bs_call fw (SetVariable VarName VarGuid EFI_VARIABLE_BS_RT_NV []) s of
                     (r, s) \<Rightarrow> (status r, FreePool_lib fw VarBuf s))
             else (EFI_NOT_FOUND, s))
     }"

definition LibSetNVVariable ::
  "'w firmware \<Rightarrow> string \<Rightarrow> guid \<Rightarrow> int \<Rightarrow> addr \<Rightarrow> ('w, 'z) efi_scheme \<Rightarrow> int \<times> ('w, 'z) efi_scheme" where
  "LibSetNVVariable fw VarName VarGuid DataSize Data s =
     (case efi_bs_call fw (SetVariable VarName VarGuid EFI_VARIABLE_BS_RT_NV (bytes_at (memory s) Data (nat DataSize))) s of
        (r, s) \<Rightarrow> (status r, s))"

definition LibSetVariable ::
  "'w firmware \<Rightarrow> string \<Rightarrow> guid \<Rightarrow> int \<Rightarrow> addr \<Rightarrow> ('w, 'z) efi_scheme \<Rightarrow> int \<times> ('w, 'z) efi_scheme" where
  "LibSetVariable fw VarName VarGuid DataSize Data s =
     (case efi_bs_call fw (SetVariable VarName VarGuid EFI_VARIABLE_BS_RT (bytes_at (memory s) Data (nat DataSize))) s of
        (r, s) \<Rightarrow> (status r, s))"

definition LibLocateHandle ::
  "'w firmware \<Rightarrow> int \<Rightarrow> int \<Rightarrow> guid option \<Rightarrow> addr \<Rightarrow> ('w, 'z) efi_scheme
   \<Rightarrow> (int \<times> int \<times> addr \<times> ('w, 'z) efi_scheme) option" where
  "LibLocateHandle fw ty SearchType Protocol SearchKey s =
     do {
       (Status, Buffer, BufferSize, r, s) \<leftarrow>
          grow_loop fw ty (handle_query fw SearchType Protocol SearchKey) EFI_SUCCESS 0 (50 * 8) None s;
       Some (Status, if EFI_ERROR Status then 0 else BufferSize div 8, Buffer, s)
     }"

text \<open>The loop over the handles: the status and the interface of the first that has the protocol.\<close>

primrec handle_protocols ::
  "'w firmware \<Rightarrow> guid \<Rightarrow> addr \<Rightarrow> nat \<Rightarrow> int \<Rightarrow> addr \<Rightarrow> ('w, 'z) efi_scheme \<Rightarrow> int \<times> addr \<times> ('w, 'z) efi_scheme" where
  "handle_protocols fw ProtocolGuid Handles 0 Status Interface s = (Status, Interface, s)"
| "handle_protocols fw ProtocolGuid Handles (Suc n) Status Interface s =
     (case efi_bs_call fw (HandleProtocol (ld_le (memory s) Handles 8) ProtocolGuid) s of
        (r, s) \<Rightarrow> if \<not> EFI_ERROR (status r) then (status r, out r, s)
                  else handle_protocols fw ProtocolGuid (Handles + 8) n (status r) Interface s)"

definition LibLocateProtocol ::
  "'w firmware \<Rightarrow> int \<Rightarrow> guid \<Rightarrow> ('w, 'z) efi_scheme \<Rightarrow> (int \<times> addr \<times> ('w, 'z) efi_scheme) option" where
  "LibLocateProtocol fw ty ProtocolGuid s =
     do {
       (Status, NumberHandles, Handles, s) \<leftarrow> LibLocateHandle fw ty 2 (Some ProtocolGuid) 0 s;
       Some (if EFI_ERROR Status then (Status, 0, s)
             else
               (case handle_protocols fw ProtocolGuid Handles (nat NumberHandles) Status 0 s of
                  (Status, Interface, s) \<Rightarrow>
                    (Status, Interface, if Handles \<noteq> 0 then FreePool_lib fw Handles s else s)))
     }"

definition GenericFileInfo :: guid where
  "GenericFileInfo = MAKE_EFI_GUID 0x9576e92 0x6d3f 0x11d2 [0x8e, 0x39, 0x0, 0xa0, 0xc9, 0x69, 0x72, 0x3b]"
definition FileSystemInfo :: guid where
  "FileSystemInfo = MAKE_EFI_GUID 0x9576e93 0x6d3f 0x11d2 [0x8e, 0x39, 0x0, 0xa0, 0xc9, 0x69, 0x72, 0x3b]"
definition FileSystemVolumeLabelInfo :: guid where
  "FileSystemVolumeLabelInfo = MAKE_EFI_GUID 0xDB47D7D3 0xFE81 0x11d3 [0x9A, 0x35, 0x00, 0x90, 0x27, 0x3F, 0xC1, 0x4D]"

definition LibFileInfo ::
  "'w firmware \<Rightarrow> int \<Rightarrow> addr \<Rightarrow> ('w, 'z) efi_scheme \<Rightarrow> (addr \<times> ('w, 'z) efi_scheme) option" where
  "LibFileInfo fw ty FHand s =
     do {
       (Status, Buffer, BufferSize, r, s) \<leftarrow> grow_loop fw ty (info_query fw FHand GenericFileInfo) EFI_SUCCESS 0 (80 + 200) None s;
       Some (Buffer, s)
     }"

definition LibFileSystemInfo ::
  "'w firmware \<Rightarrow> int \<Rightarrow> addr \<Rightarrow> ('w, 'z) efi_scheme \<Rightarrow> (addr \<times> ('w, 'z) efi_scheme) option" where
  "LibFileSystemInfo fw ty FHand s =
     do {
       (Status, Buffer, BufferSize, r, s) \<leftarrow> grow_loop fw ty (info_query fw FHand FileSystemInfo) EFI_SUCCESS 0 (36 + 200) None s;
       Some (Buffer, s)
     }"

definition LibFileSystemVolumeLabelInfo ::
  "'w firmware \<Rightarrow> int \<Rightarrow> addr \<Rightarrow> ('w, 'z) efi_scheme \<Rightarrow> (addr \<times> ('w, 'z) efi_scheme) option" where
  "LibFileSystemVolumeLabelInfo fw ty FHand s =
     do {
       (Status, Buffer, BufferSize, r, s) \<leftarrow>
          grow_loop fw ty (info_query fw FHand FileSystemVolumeLabelInfo) EFI_SUCCESS 0 (0 + 200) None s;
       Some (Buffer, s)
     }"

definition FileSystemProtocol :: guid where
  "FileSystemProtocol = MAKE_EFI_GUID 0x964e5b22 0x6459 0x11d2 [0x8e, 0x39, 0x0, 0xa0, 0xc9, 0x69, 0x72, 0x3b]"

definition LibOpenRoot :: "'w firmware \<Rightarrow> int \<Rightarrow> ('w, 'z) efi_scheme \<Rightarrow> addr \<times> ('w, 'z) efi_scheme" where
  "LibOpenRoot fw DeviceHandle s =
     (case efi_bs_call fw (HandleProtocol DeviceHandle FileSystemProtocol) s of
        (r, s) \<Rightarrow>
          if \<not> EFI_ERROR (status r)
          then (case efi_bs_call fw (OpenVolume (out r)) s of
                  (r, s) \<Rightarrow> (if EFI_ERROR (status r) then 0 else out r, s))
          else (0, s))"


section \<open>The boot order and the configuration table\<close>

text \<open>\<open>NewBootOptionArray[Index] = BootOptionArray[Index]\<close>, from \<open>Index\<close> on, \<open>n\<close> times.\<close>

primrec copy_options :: "mem \<Rightarrow> addr \<Rightarrow> addr \<Rightarrow> int \<Rightarrow> nat \<Rightarrow> mem" where
  "copy_options m New Old Index 0 = m"
| "copy_options m New Old Index (Suc n) =
     copy_options (st16 m (New + 2 * Index) (ld16 m (Old + 2 * Index))) New Old (Index + 1) n"

definition EfiGlobalVariable :: guid where
  "EfiGlobalVariable = MAKE_EFI_GUID 0x8BE4DF61 0x93CA 0x11d2 [0xAA, 0x0D, 0x00, 0xE0, 0x98, 0x03, 0x2B, 0x8C]"

definition LibInsertToTailOfBootOrder ::
  "'w firmware \<Rightarrow> int \<Rightarrow> int \<Rightarrow> bool \<Rightarrow> ('w, 'z) efi_scheme \<Rightarrow> (int \<times> ('w, 'z) efi_scheme) option" where
  "LibInsertToTailOfBootOrder fw ty BootOption OnlyInsertIfEmpty s =
     do {
       (BootOptionArray, VarSize, s) \<leftarrow> LibGetVariableAndSize fw ty ''BootOrder'' EfiGlobalVariable s;
       Some (if VarSize \<noteq> 0 \<and> OnlyInsertIfEmpty
             then (EFI_UNSUPPORTED, if BootOptionArray \<noteq> 0 then FreePool_lib fw BootOptionArray s else s)
             else
               (let VarSize = u64 (VarSize + 2)
                in case AllocatePool_lib fw ty VarSize s of
                     (New, s) \<Rightarrow>
                       if New = 0 then (EFI_OUT_OF_RESOURCES, s)
                       else
                         (let n = VarSize div 2 - 1;
                              m = copy_options (memory s) New BootOptionArray 0 (nat n);
                              s = s\<lparr>memory := st16 m (New + 2 * n) BootOption\<rparr>
                          in case efi_bs_call fw (SetVariable ''BootOrder'' EfiGlobalVariable EFI_VARIABLE_BS_RT_NV
                                      (bytes_at (memory s) New (nat VarSize))) s of
                               (r, s) \<Rightarrow>
                                 (let s = FreePool_lib fw New s
                                  in (status r, if BootOptionArray \<noteq> 0 then FreePool_lib fw BootOptionArray s else s)))))
     }"

text \<open>\<open>Entries\<close> is \<open>ST->ConfigurationTable\<close>, \<open>n\<close> the entries left.\<close>

primrec config_search :: "mem \<Rightarrow> addr \<Rightarrow> addr \<Rightarrow> nat \<Rightarrow> int \<times> addr option" where
  "config_search m TableGuid Entries 0 = (EFI_NOT_FOUND, None)"
| "config_search m TableGuid Entries (Suc n) =
     (if RtCompareGuid m TableGuid Entries = 0 then (EFI_SUCCESS, Some (ld_le m (Entries + 16) 8))
      else config_search m TableGuid (Entries + 24) n)"

text \<open>The status and what is stored in \<open>*Table\<close>; the system table \<open>ST\<close> is in memory.\<close>

definition LibGetSystemConfigurationTable :: "mem \<Rightarrow> addr \<Rightarrow> addr \<Rightarrow> int \<times> addr option" where
  "LibGetSystemConfigurationTable m ST TableGuid =
     config_search m TableGuid (ld_le m (ST + 112) 8) (nat (ld_le m (ST + 104) 8))"

section \<open>Strings of the user interface\<close>

text \<open>
  An entry is two pointers, the language code and the string. The result: a string, or the text of the
  device path of the handle, which is made elsewhere.
\<close>

datatype ui_string = UiString addr | DevicePathStr int | NoString

partial_function (option) ui_skip_type :: "mem \<Rightarrow> addr \<Rightarrow> addr option" where
  "ui_skip_type m Arr = (if ld_le m Arr 8 \<noteq> 0 then ui_skip_type m (Arr + 16) else Some Arr)"

primrec ui_skip :: "mem \<Rightarrow> addr \<Rightarrow> nat \<Rightarrow> addr option" where
  "ui_skip m Arr 0 = Some Arr"
| "ui_skip m Arr (Suc n) = do { Arr \<leftarrow> ui_skip_type m Arr; ui_skip m (Arr + 16) n }"

text \<open>\<open>while (Array->LangCode)\<close>: the pointer is not moved in the loop.\<close>

partial_function (option) ui_search :: "mem \<Rightarrow> addr \<Rightarrow> addr \<Rightarrow> addr option option" where
  "ui_search m LangCode Arr =
     (if ld_le m Arr 8 \<noteq> 0 then
        (if strcmpa m (ld_le m Arr 8) LangCode = 0 then Some (Some (ld_le m (Arr + 8) 8))
         else ui_search m LangCode Arr)
      else Some None)"

definition UiProtocol :: guid where
  "UiProtocol = MAKE_EFI_GUID 0x32dd7981 0x2d27 0x11d4 [0xbc, 0x8b, 0x0, 0x80, 0xc7, 0x3c, 0x88, 0x81]"

definition LibGetUiString ::
  "'w firmware \<Rightarrow> int \<Rightarrow> nat \<Rightarrow> addr \<Rightarrow> bool \<Rightarrow> ('w, 'z) efi_scheme \<Rightarrow> (ui_string \<times> ('w, 'z) efi_scheme) option" where
  "LibGetUiString fw Handle StringType LangCode ReturnDevicePathStrOnMismatch s =
     (case efi_bs_call fw (HandleProtocol Handle UiProtocol) s of
        (r, s) \<Rightarrow>
          let mismatch = (if ReturnDevicePathStrOnMismatch then DevicePathStr Handle else NoString)
          in if EFI_ERROR (status r) then Some (mismatch, s)
             else
               do {
                 Arr \<leftarrow> ui_skip (memory s) (ld_le (memory s) (out r + 8) 8) StringType;
                 found \<leftarrow> ui_search (memory s) LangCode Arr;
                 Some (case found of Some p \<Rightarrow> UiString p | None \<Rightarrow> mismatch, s)
               })"

text \<open>The search ends only at once: at an entry of the language, or at the end of the list.\<close>

lemma ui_search_ends:
  assumes "ui_search m LangCode Arr = Some y"
  shows "ld_le m Arr 8 = 0 \<or> strcmpa m (ld_le m Arr 8) LangCode = 0"
proof (rule ui_search.raw_induct [OF _ assms], goal_cases)
  case (1 f m LangCode Arr y)
  then show ?case by (auto split: if_splits)
qed

lemma ui_search_first:
  "ui_search m LangCode Arr =
     (if ld_le m Arr 8 = 0 then Some None
      else if strcmpa m (ld_le m Arr 8) LangCode = 0 then Some (Some (ld_le m (Arr + 8) 8))
      else None)"
proof (cases "ld_le m Arr 8 \<noteq> 0 \<and> strcmpa m (ld_le m Arr 8) LangCode \<noteq> 0")
  case True
  then have "ui_search m LangCode Arr = None" using ui_search_ends by (cases "ui_search m LangCode Arr") blast+
  then show ?thesis using True by simp
next
  case False
  then show ?thesis by (subst ui_search.simps) auto
qed

end
