(* ===== verification/Efi_Services_Spec.thy ===== *)
theory Efi_Services_Spec
  imports Efi_Services
begin

text \<open>
  What the services of \<open>Efi_Services\<close> do with the pool: whatever the firmware answers and however often a
  query is repeated, the buffers asked for are the ones given back and the one that is returned. The
  queries share an interface, the locale \<open>sized_query\<close>: a query neither allocates nor frees.
\<close>

section \<open>Buffers that are owned\<close>

lemma pool_allocs_append [simp]: "pool_allocs (xs @ ys) = pool_allocs xs + pool_allocs ys"
  by (induction xs rule: pool_allocs.induct) auto

lemma pool_frees_append [simp]: "pool_frees (xs @ ys) = pool_frees xs + pool_frees ys"
  by (induction xs rule: pool_frees.induct) auto

text \<open>
  What the firmware promises of \<open>AllocatePool\<close>: a buffer that is not at 0, or an error.
\<close>

definition pool_answers :: "'w firmware \<Rightarrow> bool" where
  "pool_answers fw \<longleftrightarrow>
     (\<forall>ty n m w. let r = fst (fw (AllocatePool ty n) m w)
                 in status r = EFI_SUCCESS \<and> out r \<noteq> 0 \<or> EFI_ERROR (status r))"

definition own :: "addr \<Rightarrow> addr multiset" where "own b = (if b = 0 then {#} else {#b#})"

lemma own_simps [simp]: "own 0 = {#}" "b \<noteq> 0 \<Longrightarrow> own b = {#b#}"
  by (simp_all add: own_def)

lemma EFI_ERROR_codes [simp]: "\<not> EFI_ERROR 0" "EFI_ERROR EFI_BUFFER_TOO_SMALL" "EFI_ERROR EFI_OUT_OF_RESOURCES"
  by code_simp+

section \<open>Ledgers\<close>

text \<open>
  What is acquired and given back in the calls of a state: \<open>gain\<close> and \<open>loss\<close> read it off the calls. A step
  that takes \<open>B\<close> over and leaves \<open>B'\<close> settles the account.
\<close>

type_synonym call_log = "(efi_call \<times> efi_reply) list"

definition settled ::
  "(call_log \<Rightarrow> 'r multiset) \<Rightarrow> (call_log \<Rightarrow> 'r multiset) \<Rightarrow> ('w, 'z) efi_scheme \<Rightarrow> 'r multiset
   \<Rightarrow> ('w, 'z) efi_scheme \<Rightarrow> 'r multiset \<Rightarrow> bool" where
  "settled gain loss s B s' B' \<longleftrightarrow> (\<exists>cs. calls s' = calls s @ cs \<and> B + gain cs = loss cs + B')"

locale ledger =
  fixes gain loss :: "call_log \<Rightarrow> 'r multiset"
  assumes gain_append: "gain (xs @ ys) = gain xs + gain ys"
    and loss_append: "loss (xs @ ys) = loss xs + loss ys"
begin

lemma empty_log: "gain [] = {#}" "loss [] = {#}"
  using gain_append [of "[]" "[]"] loss_append [of "[]" "[]"] by simp_all

lemma settled_refl: "settled gain loss s B s B"
  unfolding settled_def by (rule exI [of _ "[]"]) (simp add: empty_log)

lemma settled_trans:
  assumes "settled gain loss s B s' B'" "settled gain loss s' B' s'' B''"
  shows "settled gain loss s B s'' B''"
proof -
  obtain cs where 1: "calls s' = calls s @ cs" "B + gain cs = loss cs + B'" using assms(1) by (auto simp: settled_def)
  obtain ds where 2: "calls s'' = calls s' @ ds" "B' + gain ds = loss ds + B''" using assms(2) by (auto simp: settled_def)
  have "B + gain (cs @ ds) = loss cs + (B' + gain ds)" using 1(2) by (simp add: gain_append add.assoc [symmetric])
  also have "\<dots> = loss (cs @ ds) + B''" using 2(2) by (simp add: loss_append add.assoc)
  finally show ?thesis using 1(1) 2(1) by (auto simp: settled_def)
qed

lemma settled_frame: "settled gain loss s B s' B' \<Longrightarrow> settled gain loss s (B + F) s' (B' + F)"
  unfolding settled_def by (metis add.assoc add.commute)

text \<open>One call.\<close>

lemma settled_call:
  assumes "efi_bs_call fw c s = (r, s')" "B + gain [(c, r)] = loss [(c, r)] + B'"
  shows "settled gain loss s B s' B'"
  using efi_bs_call_calls [OF assms(1)] assms(2) by (auto simp: settled_def)

end

lemma settled_memory [simp]:
  "settled gain loss s B (s'\<lparr>memory := m\<rparr>) B' \<longleftrightarrow> settled gain loss s B s' B'"
  "settled gain loss (s\<lparr>memory := m\<rparr>) B s' B' \<longleftrightarrow> settled gain loss s B s' B'"
  by (simp_all add: settled_def)

text \<open>The ledger of the pool; giving \<open>NULL\<close> back gives nothing back.\<close>

definition pool_returns :: "call_log \<Rightarrow> addr multiset" where
  "pool_returns cs = filter_mset (\<lambda>b. b \<noteq> 0) (pool_frees cs)"

interpretation pool: ledger pool_allocs pool_returns
  by unfold_locales (simp_all add: pool_returns_def)

abbreviation settles :: "('w, 'z) efi_scheme \<Rightarrow> addr multiset \<Rightarrow> ('w, 'z) efi_scheme \<Rightarrow> addr multiset \<Rightarrow> bool" where
  "settles \<equiv> settled pool_allocs pool_returns"

lemma settles_call:
  assumes "efi_bs_call fw c s = (r, s')" "pool_allocs [(c, r)] = {#}" "pool_frees [(c, r)] = {#}"
  shows "settles s B s' B"
  by (rule pool.settled_call [OF assms(1)]) (simp add: assms pool_returns_def)

text \<open>One buffer, or none.\<close>

definition balanced :: "('w, 'z) efi_scheme \<Rightarrow> addr \<Rightarrow> ('w, 'z) efi_scheme \<Rightarrow> addr \<Rightarrow> bool" where
  "balanced s b s' b' \<longleftrightarrow> settles s (own b) s' (own b')"

lemma balanced_refl [simp]: "balanced s b s b"
  by (simp add: balanced_def pool.settled_refl)

lemma balanced_trans [trans]: "balanced s b s' b' \<Longrightarrow> balanced s' b' s'' b'' \<Longrightarrow> balanced s b s'' b''"
  using pool.settled_trans by (simp add: balanced_def) blast

lemma balanced_memory [simp]:
  "balanced s b (s'\<lparr>memory := m\<rparr>) b' \<longleftrightarrow> balanced s b s' b'" "balanced (s\<lparr>memory := m\<rparr>) b s' b' \<longleftrightarrow> balanced s b s' b'"
  by (simp_all add: balanced_def)

lemma balanced_call:
  assumes "efi_bs_call fw c s = (r, s')" "pool_allocs [(c, r)] = {#}" "pool_frees [(c, r)] = {#}"
  shows "balanced s b s' b"
  unfolding balanced_def by (rule settles_call [OF assms])

lemma FreePool_balanced: "balanced s b (FreePool_lib fw b s) 0"
  using efi_bs_call_calls [of fw "FreePool b" s "fst (efi_bs_call fw (FreePool b) s)" "snd (efi_bs_call fw (FreePool b) s)"]
  by (auto simp: balanced_def settled_def pool_returns_def FreePool_lib_def own_def)

lemma AllocatePool_balanced:
  assumes "pool_answers fw" "AllocatePool_lib fw ty Size s = (p, s')"
  shows "balanced s 0 s' p"
proof -
  obtain r where r: "efi_bs_call fw (AllocatePool ty Size) s = (r, s')" "p = (if EFI_ERROR (status r) then 0 else out r)"
    using assms(2) by (auto simp: AllocatePool_lib_def split: prod.splits)
  have "r = fst (fw (AllocatePool ty Size) (memory s) (world s))"
    using r(1) by (auto simp: efi_bs_call_def split: prod.splits)
  then have "status r = EFI_SUCCESS \<and> out r \<noteq> 0 \<or> EFI_ERROR (status r)"
    using assms(1) by (auto simp: pool_answers_def Let_def)
  then show ?thesis using efi_bs_call_calls [OF r(1)] r(2) by (auto simp: balanced_def settled_def pool_returns_def)
qed

lemma GrowBuffer_balanced:
  assumes "pool_answers fw" "GrowBuffer fw ty st b sz s = (again, st', b', s')"
  shows "balanced s b s' b'" and "again \<Longrightarrow> b' \<noteq> 0" and "\<not> again \<Longrightarrow> EFI_ERROR st' \<Longrightarrow> b' = 0"
    and "\<not> again \<Longrightarrow> \<not> EFI_ERROR st' \<Longrightarrow> b' = b \<and> st' = st \<and> (b = 0 \<longrightarrow> sz = 0)"
proof -
  define st1 where "st1 = (if b = 0 \<and> sz \<noteq> 0 then EFI_BUFFER_TOO_SMALL else st)"
  define s1 where "s1 = (if b \<noteq> 0 then FreePool_lib fw b s else s)"
  obtain p s2 where p: "AllocatePool_lib fw ty sz s1 = (p, s2)" by fastforce
  have free: "balanced s b s1 0" by (simp add: s1_def FreePool_balanced)
  have alloc: "balanced s b s2 p" by (rule balanced_trans [OF free AllocatePool_balanced [OF assms(1) p]])
  have G: "GrowBuffer fw ty st b sz s =
      (if st1 = EFI_BUFFER_TOO_SMALL then
         (if p \<noteq> 0 then (True, st1, p, s2) else (False, EFI_OUT_OF_RESOURCES, 0, s2))
       else if EFI_ERROR st1 \<and> b \<noteq> 0 then (False, st1, 0, FreePool_lib fw b s) else (False, st1, b, s))"
    unfolding GrowBuffer_def st1_def [symmetric] s1_def [symmetric] p Let_def by simp
  show "balanced s b s' b'" using assms(2) alloc FreePool_balanced [of s b fw] unfolding G by (auto split: if_splits)
  show "again \<Longrightarrow> b' \<noteq> 0" and "\<not> again \<Longrightarrow> EFI_ERROR st' \<Longrightarrow> b' = 0"
    using assms(2) unfolding G by (auto split: if_splits)
  show "\<not> again \<Longrightarrow> \<not> EFI_ERROR st' \<Longrightarrow> b' = b \<and> st' = st \<and> (b = 0 \<longrightarrow> sz = 0)"
    using assms(2) unfolding G by (auto simp: st1_def split: if_splits)
qed

section \<open>The interface of a query\<close>

locale sized_query =
  fixes query :: "int \<Rightarrow> addr \<Rightarrow> ('w, 'z) efi_scheme \<Rightarrow> efi_reply \<times> int \<times> ('w, 'z) efi_scheme"
  assumes query_pool: "query sz b s = (r, sz', s') \<Longrightarrow> balanced s c s' c"
begin

text \<open>Nothing is lost however the loop ends; there is a buffer exactly when the last query succeeded.\<close>

lemma loop_balanced:
  assumes "pool_answers fw" "grow_loop fw ty query st b sz r s = Some (st', b', sz', r', s')"
    and "b \<noteq> 0 \<or> sz \<noteq> 0" "b \<noteq> 0 \<longrightarrow> r \<noteq> None"
  shows "balanced s b s' b' \<and> (b' = 0 \<longleftrightarrow> EFI_ERROR st') \<and> (b' \<noteq> 0 \<longrightarrow> r' \<noteq> None)"
proof -
  have "fw' = fw \<longrightarrow> q = query \<longrightarrow> (b \<noteq> 0 \<or> sz \<noteq> 0) \<longrightarrow> (b \<noteq> 0 \<longrightarrow> r \<noteq> None) \<longrightarrow>
      (case y of (st', b', sz', r', s') \<Rightarrow>
        balanced s b s' b' \<and> (b' = 0 \<longleftrightarrow> EFI_ERROR st') \<and> (b' \<noteq> 0 \<longrightarrow> r' \<noteq> None))"
    if "grow_loop fw' ty q st b sz r s = Some y" for fw' q st b sz r s y
  proof (rule grow_loop.raw_induct [OF _ that], goal_cases)
    case (1 f fw' ty q st b sz r s y)
    obtain again st1 b1 s1 where g: "GrowBuffer fw' ty st b sz s = (again, st1, b1, s1)" by (metis prod_cases4)
    show ?case
    proof (intro impI)
      assume eq: "fw' = fw" "q = query" "b \<noteq> 0 \<or> sz \<noteq> 0" "b \<noteq> 0 \<longrightarrow> r \<noteq> None"
      note G = GrowBuffer_balanced [OF assms(1) g [unfolded eq(1)]]
      show "case y of (st', b', sz', r', s') \<Rightarrow> balanced s b s' b' \<and> (b' = 0 \<longleftrightarrow> EFI_ERROR st') \<and> (b' \<noteq> 0 \<longrightarrow> r' \<noteq> None)"
      proof (cases again)
        case False
        then show ?thesis using 1(2) g G eq by auto
      next
        case True
        obtain r2 sz2 s2 where q: "query sz b1 s1 = (r2, sz2, s2)" by (metis prod_cases3)
        have step: "f fw ty query (status r2) b1 sz2 (Some r2) s2 = Some y" using 1(2) g True q eq by simp
        have "balanced s b s2 b1" by (rule balanced_trans [OF G(1) query_pool [OF q]])
        moreover have "case y of (st', b', sz', r', s') \<Rightarrow>
            balanced s2 b1 s' b' \<and> (b' = 0 \<longleftrightarrow> EFI_ERROR st') \<and> (b' \<noteq> 0 \<longrightarrow> r' \<noteq> None)"
          using 1(1) [OF step] G(2) [OF True] by auto
        ultimately show ?thesis using balanced_trans by auto
      qed
    qed
  qed
  from this [OF assms(2)] assms(3,4) show ?thesis by auto
qed

text \<open>The loop ends when every answer that the buffer is too small asks for a larger one, up to a bound.\<close>

lemma loop_returns:
  assumes "pool_answers fw"
    and grows: "\<And>sz b s r sz' s'. query sz b s = (r, sz', s') \<Longrightarrow> status r = EFI_BUFFER_TOO_SMALL \<Longrightarrow> sz < sz' \<and> sz' \<le> N"
  shows "\<exists>y. grow_loop fw ty query st b sz r s = Some y"
proof (induction "nat (N - sz)" arbitrary: st b sz r s rule: less_induct)
  case less
  obtain again st1 b1 s1 where g: "GrowBuffer fw ty st b sz s = (again, st1, b1, s1)" by (metis prod_cases4)
  show ?case
  proof (cases again)
    case False
    then show ?thesis by (subst grow_loop.simps) (simp add: g)
  next
    case True
    then have b1: "b1 \<noteq> 0" by (rule GrowBuffer_balanced(2) [OF assms(1) g])
    obtain r2 sz2 s2 where q: "query sz b1 s1 = (r2, sz2, s2)" by (metis prod_cases3)
    have "\<exists>y. grow_loop fw ty query (status r2) b1 sz2 (Some r2) s2 = Some y"
    proof (cases "status r2 = EFI_BUFFER_TOO_SMALL")
      case True
      then show ?thesis using grows [OF q True] by (intro less) auto
    next
      case False
      then show ?thesis using b1 by (subst grow_loop.simps) (simp add: GrowBuffer_def Let_def)
    qed
    then show ?thesis using True q by (subst grow_loop.simps) (simp add: g)
  qed
qed

end

interpretation memory_map: sized_query "map_query fw" for fw :: "'w firmware"
  by unfold_locales (auto simp: map_query_def split: prod.splits intro!: balanced_call)

interpretation variable: sized_query "variable_query fw name vendor" for fw :: "'w firmware" and name vendor
  by unfold_locales (auto simp: variable_query_def split: prod.splits if_splits intro!: balanced_call)

interpretation handles: sized_query "handle_query fw search protocol key" for fw :: "'w firmware" and search protocol key
  by unfold_locales (auto simp: handle_query_def split: prod.splits intro!: balanced_call)

interpretation file_info: sized_query "info_query fw FHand guid" for fw :: "'w firmware" and FHand guid
  by unfold_locales (auto simp: info_query_def split: prod.splits intro!: balanced_call)


section \<open>The services\<close>

lemma LibMemoryMap_balanced:
  assumes "pool_answers fw" "LibMemoryMap fw ty s = Some (b, info, s')"
  shows "balanced s 0 s' b" "b \<noteq> 0 \<longleftrightarrow> info \<noteq> None"
proof -
  obtain st sz r where l: "grow_loop fw ty (map_query fw) EFI_SUCCESS 0 40 None s = Some (st, b, sz, r, s')"
    and i: "info = (if \<not> EFI_ERROR st then map_option (\<lambda>r. (sz div desc_size r, map_key r, desc_size r, desc_ver r)) r else None)"
    using assms(2) by (auto simp: LibMemoryMap_def bind_eq_Some_conv)
  have "balanced s 0 s' b \<and> (b = 0 \<longleftrightarrow> EFI_ERROR st) \<and> (b \<noteq> 0 \<longrightarrow> r \<noteq> None)"
    using memory_map.loop_balanced [OF assms(1) l] by simp
  then show "balanced s 0 s' b" "b \<noteq> 0 \<longleftrightarrow> info \<noteq> None" by (auto simp: i)
qed

lemma LibMemoryMap_returns:
  assumes "pool_answers fw"
    and "\<And>sz b m w. let r = fst (fw (GetMemoryMap sz (Some b)) m w)
                    in status r = EFI_BUFFER_TOO_SMALL \<longrightarrow> sz < map_size r \<and> map_size r \<le> N"
  shows "\<exists>b info s'. LibMemoryMap fw ty s = Some (b, info, s')"
proof -
  have "sz < sz' \<and> sz' \<le> N" if "map_query fw sz b s = (r, sz', s')" "status r = EFI_BUFFER_TOO_SMALL" for sz b s r sz' s'
    using that assms(2) [of sz b "memory s" "world s"]
    by (auto simp: map_query_def efi_bs_call_def Let_def split: prod.splits)
  then obtain y where "grow_loop fw ty (map_query fw) EFI_SUCCESS 0 40 None s = Some y"
    using memory_map.loop_returns [OF assms(1), of fw N] by blast
  then show ?thesis by (cases y) (auto simp: LibMemoryMap_def)
qed

lemma LibGetVariableAndSize_balanced:
  assumes "pool_answers fw" "LibGetVariableAndSize fw ty name vendor s = Some (b, sz, s')"
  shows "balanced s 0 s' b" "b = 0 \<Longrightarrow> sz = 0"
proof -
  obtain st sz' r where l: "grow_loop fw ty (variable_query fw name vendor) EFI_SUCCESS 0 100 None s = Some (st, b, sz', r, s')"
    and "sz = (if b \<noteq> 0 then sz' else 0)"
    using assms(2) by (auto simp: LibGetVariableAndSize_def bind_eq_Some_conv)
  then show "balanced s 0 s' b" "b = 0 \<Longrightarrow> sz = 0"
    using variable.loop_balanced [OF assms(1) l] by auto
qed

lemma LibLocateHandle_balanced:
  assumes "pool_answers fw" "LibLocateHandle fw ty search protocol key s = Some (st, n, b, s')"
  shows "balanced s 0 s' b" "b = 0 \<longleftrightarrow> EFI_ERROR st" "EFI_ERROR st \<Longrightarrow> n = 0"
proof -
  obtain sz r where l: "grow_loop fw ty (handle_query fw search protocol key) EFI_SUCCESS 0 (50 * 8) None s = Some (st, b, sz, r, s')"
    and "n = (if EFI_ERROR st then 0 else sz div 8)"
    using assms(2) by (auto simp: LibLocateHandle_def bind_eq_Some_conv)
  then show "balanced s 0 s' b" "b = 0 \<longleftrightarrow> EFI_ERROR st" "EFI_ERROR st \<Longrightarrow> n = 0"
    using handles.loop_balanced [OF assms(1) l] by auto
qed

lemma handle_protocols_balanced:
  "handle_protocols fw guid hs n st i s = (st', i', s') \<Longrightarrow> balanced s b s' b"
proof (induction n arbitrary: hs st s)
  case (Suc n)
  obtain r s1 where 1: "efi_bs_call fw (HandleProtocol (ld_le (memory s) hs 8) guid) s = (r, s1)" by fastforce
  have "balanced s b s1 b" by (rule balanced_call [OF 1]) simp_all
  then show ?case using Suc 1 balanced_trans by (fastforce split: if_splits)
qed simp

text \<open>The list of handles is given back, whether or not one of them has the protocol.\<close>

lemma LibLocateProtocol_balanced:
  assumes "pool_answers fw" "LibLocateProtocol fw ty guid s = Some (st, i, s')"
  shows "balanced s 0 s' 0"
proof -
  obtain st1 n hs s1 where l: "LibLocateHandle fw ty 2 (Some guid) 0 s = Some (st1, n, hs, s1)"
    and f: "(if EFI_ERROR st1 then (st1, 0, s1)
         else (case handle_protocols fw guid hs (nat n) st1 0 s1 of
                 (st, i, s) \<Rightarrow> (st, i, if hs \<noteq> 0 then FreePool_lib fw hs s else s))) = (st, i, s')"
    using assms(2) by (auto simp: LibLocateProtocol_def bind_eq_Some_conv)
  note L = LibLocateHandle_balanced [OF assms(1) l]
  show ?thesis
  proof (cases "EFI_ERROR st1")
    case True
    then show ?thesis using L f by auto
  next
    case False
    then have "hs \<noteq> 0" using L by simp
    obtain st2 i2 s2 where h: "handle_protocols fw guid hs (nat n) st1 0 s1 = (st2, i2, s2)" by (metis prod_cases3)
    have "balanced s 0 s2 hs" by (rule balanced_trans [OF L(1) handle_protocols_balanced [OF h]])
    then have "balanced s 0 (FreePool_lib fw hs s2) 0"
      by (rule balanced_trans) (rule FreePool_balanced)
    then show ?thesis using f False h \<open>hs \<noteq> 0\<close> by simp
  qed
qed

lemma LibDeleteVariable_balanced:
  assumes "pool_answers fw" "LibDeleteVariable fw ty name vendor s = Some (st, s')"
  shows "balanced s 0 s' 0"
proof -
  obtain b s1 sz where v: "LibGetVariableAndSize fw ty name vendor s = Some (b, sz, s1)"
    and f: "(if b \<noteq> 0 then (case efi_bs_call fw (SetVariable name vendor EFI_VARIABLE_BS_RT_NV []) s1 of
               (r, s) \<Rightarrow> (status r, FreePool_lib fw b s)) else (EFI_NOT_FOUND, s1)) = (st, s')"
    using assms(2) by (auto simp: LibDeleteVariable_def LibGetVariable_def bind_eq_Some_conv)
  note V = LibGetVariableAndSize_balanced [OF assms(1) v]
  obtain r s2 where c: "efi_bs_call fw (SetVariable name vendor EFI_VARIABLE_BS_RT_NV []) s1 = (r, s2)" by fastforce
  have "balanced s1 b s2 b" by (rule balanced_call [OF c]) simp_all
  then have "b \<noteq> 0 \<Longrightarrow> balanced s 0 (FreePool_lib fw b s2) 0"
    using V(1) balanced_trans FreePool_balanced by metis
  then show ?thesis using f V c by (auto split: if_splits)
qed

section \<open>The boot order\<close>

lemma copy_options_effect:
  assumes "Old + 2 * int (i + n) \<le> New \<or> New + 2 * int (i + n) \<le> Old"
  shows "copy_options m New Old (int i) n a =
    (if New + 2 * int i \<le> a \<and> a < New + 2 * int (i + n) then m (Old + (a - New)) else m a)"
  using assms
proof (induction n arbitrary: m i)
  case (Suc n)
  let ?m = "copied m (New + 2 * int i) (Old + 2 * int i) 2"
  have "copy_options m New Old (int i) (Suc n) a = copy_options ?m New Old (int (Suc i)) n a"
    by (simp add: st16_ld16 add.commute)
  also have "\<dots> = (if New + 2 * int (Suc i) \<le> a \<and> a < New + 2 * int (Suc i + n) then ?m (Old + (a - New)) else ?m a)"
    using Suc.prems by (intro Suc.IH) simp
  also have "\<dots> = (if New + 2 * int i \<le> a \<and> a < New + 2 * int (i + Suc n) then m (Old + (a - New)) else m a)"
    using Suc.prems by (auto simp: copied_def algebra_simps)
  finally show ?case .
qed auto

text \<open>The new variable: the options that were there, and the new one behind them.\<close>

lemma boot_order_bytes:
  assumes "Old + 2 * int n \<le> New \<or> New + 2 * int n \<le> Old" "0 \<le> opt" "opt < 65536"
  shows "bytes_at (st16 (copy_options m New Old 0 n) (New + 2 * int n) opt) New (2 * n + 2)
     = bytes_at m Old (2 * n) @ [byte_of opt, byte_of (opt div 256)]"
proof -
  let ?m = "st16 (copy_options m New Old 0 n) (New + 2 * int n) opt"
  have "bytes_at ?m New (2 * n) = bytes_at m Old (2 * n)"
    using copy_options_effect [of Old 0 n New m] assms(1)
    by (intro nth_equalityI) (auto simp: st16_def st_le_outside)
  moreover have "bytes_at ?m (New + 2 * int n) 2 = [byte_of opt, byte_of (opt div 256)]"
    by (simp add: st16_def st_le_def numeral_2_eq_2 bytes_at_Suc put_bytes_def)
  ultimately show ?thesis using bytes_at_add [of ?m New "2 * n" 2] by simp
qed

text \<open>The options that were there and the new one behind them become the new order; both buffers are given back.\<close>

lemma boot_order_appends:
  assumes "pool_answers fw" "LibGetVariableAndSize fw ty ''BootOrder'' EfiGlobalVariable s = Some (b, 2 * int n, s1)"
    and "2 * int n + 2 < 18446744073709551616" "\<not> (n \<noteq> 0 \<and> only)"
    and "AllocatePool_lib fw ty (2 * int n + 2) s1 = (p, s2)" "p \<noteq> 0"
    and "b + 2 * int n \<le> p \<or> p + 2 * int n \<le> b" "0 \<le> opt" "opt < 65536"
  shows "\<exists>r s' cs. LibInsertToTailOfBootOrder fw ty opt only s = Some (status r, s') \<and> balanced s 0 s' 0 \<and>
    calls s' = calls s2 @ (SetVariable ''BootOrder'' EfiGlobalVariable EFI_VARIABLE_BS_RT_NV
      (bytes_at (memory s2) b (2 * n) @ [byte_of opt, byte_of (opt div 256)]), r) # cs"
proof -
  define m where "m = st16 (copy_options (memory s2) p b 0 n) (p + 2 * int n) opt"
  define N where "N = nat (2 * int n + 2)"
  have "bytes_at m p (2 * n + 2) = bytes_at (memory s2) b (2 * n) @ [byte_of opt, byte_of (opt div 256)]"
    using boot_order_bytes [of b n p opt "memory s2"] assms(7-9) by (auto simp: m_def)
  moreover have "N = 2 * n + 2" by (simp add: N_def)
  ultimately have bytes: "bytes_at m p N = bytes_at (memory s2) b (2 * n) @ [byte_of opt, byte_of (opt div 256)]" by simp
  define t where "t = s2\<lparr>memory := m\<rparr>"
  have mt: "memory t = m" by (simp add: t_def)
  define v where "v = SetVariable ''BootOrder'' EfiGlobalVariable EFI_VARIABLE_BS_RT_NV (bytes_at m p N)"
  obtain r t1 where c: "efi_bs_call fw v t = (r, t1)" by fastforce
  define t2 where "t2 = FreePool_lib fw p t1"
  define t3 where "t3 = (if b \<noteq> 0 then FreePool_lib fw b t2 else t2)"
  have "u64 (2 * int n + 2) = 2 * int n + 2" "(2 * int n + 2) div 2 - 1 = int n" "\<not> (2 * int n \<noteq> 0 \<and> only)"
    using assms(3,4) by (simp_all add: u64_def)
  then have "LibInsertToTailOfBootOrder fw ty opt only s = Some (status r, t3)"
    unfolding LibInsertToTailOfBootOrder_def assms(2)
    by (simp only: bind.bind_lunit prod.case if_False Let_def assms(5,6) nat_int m_def [symmetric]
        efi.surjective t_def [symmetric] efi.select_convs efi.update_convs N_def [symmetric] v_def [symmetric])
      (simp add: mt v_def [symmetric] c t2_def t3_def)
  moreover have "balanced s 0 t3 0"
  proof -
    note [trans] = pool.settled_trans
    have "settles s {#} s1 (own b)"
      using LibGetVariableAndSize_balanced(1) [OF assms(1,2)] by (simp add: balanced_def)
    also have "settles s1 (own b) s2 (own p + own b)"
      using pool.settled_frame [of s1 "{#}" s2 "own p" "own b"] AllocatePool_balanced [OF assms(1,5)] by (simp add: balanced_def)
    also have "settles s2 (own p + own b) t1 (own p + own b)"
      using settles_call [OF c, of "own p + own b"] by (simp add: t_def v_def)
    also have "settles t1 (own p + own b) t2 (own b)"
      using pool.settled_frame [of t1 "own p" t2 "{#}" "own b"] FreePool_balanced [of t1 p fw] by (simp add: balanced_def t2_def)
    also have "settles t2 (own b) t3 {#}"
      using FreePool_balanced [of t2 b fw] by (cases "b = 0") (simp_all add: balanced_def t3_def pool.settled_refl)
    finally show ?thesis by (simp add: balanced_def)
  qed
  moreover have "\<exists>cs. calls t3 = calls s2 @ (v, r) # cs"
    using efi_bs_call_calls [OF c] by (auto simp: t3_def t2_def FreePool_lib_def efi_bs_call_def t_def split: prod.splits)
  ultimately show ?thesis unfolding v_def bytes by blast
qed

text \<open>
  When the memory for the new order cannot be had the old one is not given back: it is a buffer that
  nobody owns any more.
\<close>

lemma boot_order_leak:
  assumes "pool_answers fw" "LibGetVariableAndSize fw ty ''BootOrder'' EfiGlobalVariable s = Some (b, sz, s1)"
    and "\<not> (sz \<noteq> 0 \<and> only)" "AllocatePool_lib fw ty (u64 (sz + 2)) s1 = (0, s')"
  shows "LibInsertToTailOfBootOrder fw ty opt only s = Some (EFI_OUT_OF_RESOURCES, s') \<and> balanced s 0 s' b"
proof
  show "LibInsertToTailOfBootOrder fw ty opt only s = Some (EFI_OUT_OF_RESOURCES, s')"
    using assms by (auto simp: LibInsertToTailOfBootOrder_def Let_def)
  obtain r where c: "efi_bs_call fw (AllocatePool ty (u64 (sz + 2))) s1 = (r, s')" "(if EFI_ERROR (status r) then 0 else out r) = 0"
    using assms(4) by (auto simp: AllocatePool_lib_def split: prod.splits)
  have "r = fst (fw (AllocatePool ty (u64 (sz + 2))) (memory s1) (world s1))"
    using c(1) by (auto simp: efi_bs_call_def split: prod.splits)
  then have "status r = EFI_SUCCESS \<and> out r \<noteq> 0 \<or> EFI_ERROR (status r)"
    using assms(1) by (auto simp: pool_answers_def Let_def)
  then have "balanced s1 b s' b" using c by (intro balanced_call [OF c(1)]) (auto split: if_splits)
  then show "balanced s 0 s' b" using LibGetVariableAndSize_balanced(1) [OF assms(1,2)] balanced_trans by blast
qed

text \<open>An order that is there is left alone when the option is to go into an empty one only.\<close>

lemma boot_order_kept:
  assumes "pool_answers fw" "LibGetVariableAndSize fw ty ''BootOrder'' EfiGlobalVariable s = Some (b, sz, s1)" "sz \<noteq> 0" "only"
  shows "\<exists>s' cs. LibInsertToTailOfBootOrder fw ty opt only s = Some (EFI_UNSUPPORTED, s') \<and> balanced s 0 s' 0 \<and>
    calls s' = calls s1 @ cs \<and> map fst cs = (if b = 0 then [] else [FreePool b])"
proof -
  define s' where "s' = (if b \<noteq> 0 then FreePool_lib fw b s1 else s1)"
  have "LibInsertToTailOfBootOrder fw ty opt only s = Some (EFI_UNSUPPORTED, s')"
    using assms(2-4) by (simp add: LibInsertToTailOfBootOrder_def s'_def)
  moreover have "balanced s 0 s' 0"
    using balanced_trans [OF LibGetVariableAndSize_balanced(1) [OF assms(1,2)] FreePool_balanced [of s1 b fw]]
      LibGetVariableAndSize_balanced(1) [OF assms(1,2)] by (cases "b = 0") (simp_all add: s'_def)
  moreover have "\<exists>cs. calls s' = calls s1 @ cs \<and> map fst cs = (if b = 0 then [] else [FreePool b])"
    by (auto simp: s'_def FreePool_lib_def efi_bs_call_def split: prod.splits)
  ultimately show ?thesis by blast
qed

end
