(* ===== verification/Dpath.thy ===== *)
theory Dpath
  imports Efi_Services_Spec
begin

text \<open>
  Device paths: the functions of \<open>src/lib/dpath.c\<close> that walk, copy and join them, the macros of
  \<open>src/inc/efidevp.h\<close>, and the search by disk signature of \<open>src/lib/hand.c\<close>. A path is a sequence of nodes
  in memory: a type, a subtype and a length of 16 bits in front of the data. A walk follows the lengths;
  one that meets a length of 0 never ends, so the walks are partial. \<open>ASSERT\<close> and \<open>DEBUG\<close> are empty in
  the builds of the repository, which do not define \<open>EFI_DEBUG\<close>.
\<close>

section \<open>Nodes\<close>

definition DevicePathType :: "mem \<Rightarrow> addr \<Rightarrow> int" where "DevicePathType m a = uint (m a) AND 0x7F"
definition DevicePathSubType :: "mem \<Rightarrow> addr \<Rightarrow> int" where "DevicePathSubType m a = uint (m (a + 1))"

definition DevicePathNodeLength :: "mem \<Rightarrow> addr \<Rightarrow> int" where
  "DevicePathNodeLength m a = uint (m (a + 2)) OR push_bit 8 (uint (m (a + 3)))"

definition NextDevicePathNode :: "mem \<Rightarrow> addr \<Rightarrow> addr" where
  "NextDevicePathNode m a = a + DevicePathNodeLength m a"

abbreviation (input) END_DEVICE_PATH_TYPE :: int where "END_DEVICE_PATH_TYPE \<equiv> 0x7f"
abbreviation (input) END_ENTIRE_DEVICE_PATH_SUBTYPE :: int where "END_ENTIRE_DEVICE_PATH_SUBTYPE \<equiv> 0xff"
abbreviation (input) END_INSTANCE_DEVICE_PATH_SUBTYPE :: int where "END_INSTANCE_DEVICE_PATH_SUBTYPE \<equiv> 1"
abbreviation (input) MEDIA_DEVICE_PATH :: int where "MEDIA_DEVICE_PATH \<equiv> 4"
abbreviation (input) MEDIA_HARDDRIVE_DP :: int where "MEDIA_HARDDRIVE_DP \<equiv> 1"
abbreviation (input) MEDIA_FILEPATH_DP :: int where "MEDIA_FILEPATH_DP \<equiv> 4"

definition IsDevicePathEndType :: "mem \<Rightarrow> addr \<Rightarrow> bool" where
  "IsDevicePathEndType m a \<longleftrightarrow> DevicePathType m a = END_DEVICE_PATH_TYPE"
definition IsDevicePathEndSubType :: "mem \<Rightarrow> addr \<Rightarrow> bool" where
  "IsDevicePathEndSubType m a \<longleftrightarrow> DevicePathSubType m a = END_ENTIRE_DEVICE_PATH_SUBTYPE"
definition IsDevicePathEnd :: "mem \<Rightarrow> addr \<Rightarrow> bool" where
  "IsDevicePathEnd m a \<longleftrightarrow> IsDevicePathEndType m a \<and> IsDevicePathEndSubType m a"

definition SetDevicePathNodeLength :: "mem \<Rightarrow> addr \<Rightarrow> int \<Rightarrow> mem" where
  "SetDevicePathNodeLength m a l = m(a + 2 := byte_of l, a + 3 := byte_of (l div 256))"

definition SetDevicePathEndNode :: "mem \<Rightarrow> addr \<Rightarrow> mem" where
  "SetDevicePathEndNode m a = m(a := 0x7f, a + 1 := 0xff, a + 2 := 4, a + 3 := 0)"

text \<open>The constants \<open>EndDevicePath\<close> and \<open>EndInstanceDevicePath\<close> of \<open>src/lib/data.c\<close>.\<close>

definition EndDevicePath :: "byte list" where "EndDevicePath = [0x7f, 0xff, 4, 0]"
definition EndInstanceDevicePath :: "byte list" where "EndInstanceDevicePath = [0x7f, 1, 4, 0]"

section \<open>Instances\<close>

definition DevicePathProtocol :: guid where
  "DevicePathProtocol = MAKE_EFI_GUID 0x9576e91 0x6d3f 0x11d2 [0x8e, 0x39, 0x0, 0xa0, 0xc9, 0x69, 0x72, 0x3b]"

definition DevicePathFromHandle :: "'w firmware \<Rightarrow> int \<Rightarrow> ('w, 'z) efi_scheme \<Rightarrow> addr \<times> ('w, 'z) efi_scheme" where
  "DevicePathFromHandle fw Handle s =
     (case efi_bs_call fw (HandleProtocol Handle DevicePathProtocol) s of
        (r, s) \<Rightarrow> (if EFI_ERROR (status r) then 0 else out r, s))"

text \<open>
  The loop; the number is \<open>01001 - Count\<close>. It ends at an end node or when \<open>Count > 01000\<close>, with \<open>DevPath\<close>
  and \<open>Next\<close>.
\<close>

primrec instance_loop :: "mem \<Rightarrow> addr \<Rightarrow> nat \<Rightarrow> addr \<times> addr" where
  "instance_loop m DevPath 0 = (DevPath, NextDevicePathNode m DevPath)"
| "instance_loop m DevPath (Suc n) =
     (let Next = NextDevicePathNode m DevPath
      in if IsDevicePathEndType m DevPath then (DevPath, Next) else instance_loop m Next n)"

text \<open>The result: the start, what is left in \<open>*DevicePath\<close> and \<open>*Size\<close>; \<open>None\<close> is the \<open>NULL\<close> result.\<close>

definition DevicePathInstance :: "mem \<Rightarrow> addr \<Rightarrow> (addr \<times> addr \<times> int) option" where
  "DevicePathInstance m DevicePath =
     (if DevicePath = 0 then None
      else (case instance_loop m DevicePath 513 of
              (DevPath, Next) \<Rightarrow>
                Some (DevicePath,
                      if DevicePathSubType m DevPath = END_ENTIRE_DEVICE_PATH_SUBTYPE then 0 else Next,
                      DevPath - DevicePath)))"

partial_function (option) instance_count :: "mem \<Rightarrow> addr \<Rightarrow> nat \<Rightarrow> nat option" where
  "instance_count m DevicePath Count =
     (case DevicePathInstance m DevicePath of
        None \<Rightarrow> Some Count
      | Some (Inst, DevicePath, Size) \<Rightarrow> instance_count m DevicePath (Count + 1))"

definition DevicePathInstanceCount :: "mem \<Rightarrow> addr \<Rightarrow> nat option" where
  "DevicePathInstanceCount m DevicePath = instance_count m DevicePath 0"

section \<open>Size and copy\<close>

partial_function (option) path_end :: "mem \<Rightarrow> addr \<Rightarrow> addr option" where
  "path_end m DevPath = (if \<not> IsDevicePathEnd m DevPath then path_end m (NextDevicePathNode m DevPath) else Some DevPath)"

definition DevicePathSize :: "mem \<Rightarrow> addr \<Rightarrow> int option" where
  "DevicePathSize m DevPath = do { e \<leftarrow> path_end m DevPath; Some (e - DevPath + 4) }"

definition DuplicateDevicePath ::
  "'w firmware \<Rightarrow> int \<Rightarrow> addr \<Rightarrow> ('w, 'z) efi_scheme \<Rightarrow> (addr \<times> ('w, 'z) efi_scheme) option" where
  "DuplicateDevicePath fw ty DevPath s =
     do {
       Size \<leftarrow> DevicePathSize (memory s) DevPath;
       Some (case AllocatePool_lib fw ty Size s of
               (New, s) \<Rightarrow>
                 (New, if New \<noteq> 0 then s\<lparr>memory := RtCopyMem (memory s) New DevPath (nat Size)\<rparr> else s))
     }"

definition LibDuplicateDevicePathInstance ::
  "'w firmware \<Rightarrow> int \<Rightarrow> addr \<Rightarrow> ('w, 'z) efi_scheme \<Rightarrow> addr \<times> ('w, 'z) efi_scheme" where
  "LibDuplicateDevicePathInstance fw ty DevPath s =
     (let (Inst, Size) = (case DevicePathInstance (memory s) DevPath of
                            None \<Rightarrow> (0, 0) | Some (Inst, Temp, Size) \<Rightarrow> (Inst, Size));
          (New, s) = (if Size \<noteq> 0 then AllocatePool_lib fw ty (Size + 4) s else (0, s))
      in if New \<noteq> 0
         then (let m = RtCopyMem (memory s) New Inst (nat Size);
                   Temp = NextDevicePathNode m New
               in (New, s\<lparr>memory := SetDevicePathEndNode m Temp\<rparr>))
         else (New, s))"

section \<open>Joining paths\<close>

text \<open>The loop over the instances of \<open>Src1\<close>: the last \<open>DstPos\<close> and the memory.\<close>

partial_function (option) append_loop :: "mem \<Rightarrow> addr \<Rightarrow> addr \<Rightarrow> int \<Rightarrow> addr \<Rightarrow> (addr \<times> mem) option" where
  "append_loop m Src1 Src2 Src2Size DstPos =
     (case DevicePathInstance m Src1 of
        None \<Rightarrow> Some (DstPos, m)
      | Some (Inst, Src1, Size) \<Rightarrow>
          let m = RtCopyMem m DstPos Inst (nat Size);
              DstPos = DstPos + Size;
              m = RtCopyMem m DstPos Src2 (nat Src2Size);
              DstPos = DstPos + Src2Size;
              m = put_bytes m DstPos EndInstanceDevicePath
          in append_loop m Src1 Src2 Src2Size (DstPos + 4))"

definition AppendDevicePath ::
  "'w firmware \<Rightarrow> int \<Rightarrow> addr \<Rightarrow> addr \<Rightarrow> ('w, 'z) efi_scheme \<Rightarrow> (addr \<times> ('w, 'z) efi_scheme) option" where
  "AppendDevicePath fw ty Src1 Src2 s =
     (if Src1 = 0 then DuplicateDevicePath fw ty Src2 s
      else if Src2 = 0 then DuplicateDevicePath fw ty Src1 s
      else do {
        Src1Size \<leftarrow> DevicePathSize (memory s) Src1;
        Src1Inst \<leftarrow> DevicePathInstanceCount (memory s) Src1;
        Src2Size \<leftarrow> DevicePathSize (memory s) Src2;
        (case AllocatePool_lib fw ty (u64 (Src1Size * int Src1Inst + Src2Size)) s of
           (Dst, s) \<Rightarrow>
             if Dst \<noteq> 0 then
               do {
                 (DstPos, m) \<leftarrow> append_loop (memory s) Src1 Src2 Src2Size Dst;
                 Some (Dst, s\<lparr>memory := put_bytes m (DstPos - 4) EndDevicePath\<rparr>)
               }
             else Some (Dst, s))
      })"

definition AppendDevicePathNode ::
  "'w firmware \<Rightarrow> int \<Rightarrow> addr \<Rightarrow> addr \<Rightarrow> ('w, 'z) efi_scheme \<Rightarrow> (addr \<times> ('w, 'z) efi_scheme) option" where
  "AppendDevicePathNode fw ty Src1 Src2 s =
     (let Length = DevicePathNodeLength (memory s) Src2
      in case AllocatePool_lib fw ty (Length + 4) s of
           (Temp, s) \<Rightarrow>
             if Temp = 0 then Some (0, s)
             else
               (let m = RtCopyMem (memory s) Temp Src2 (nat Length);
                    m = SetDevicePathEndNode m (NextDevicePathNode m Temp)
                in do {
                     (Src1, s) \<leftarrow> AppendDevicePath fw ty Src1 Temp (s\<lparr>memory := m\<rparr>);
                     Some (Src1, FreePool_lib fw Temp s)
                   }))"

text \<open>\<open>Device\<close> is \<open>None\<close> when it is \<open>NULL\<close>.\<close>

definition FileDevicePath ::
  "'w firmware \<Rightarrow> int \<Rightarrow> int option \<Rightarrow> addr \<Rightarrow> ('w, 'z) efi_scheme \<Rightarrow> (addr \<times> ('w, 'z) efi_scheme) option" where
  "FileDevicePath fw ty Device FileName s =
     (let Size = int (RtStrSize (memory s) FileName)
      in case AllocateZeroPool fw ty (Size + 4 + 4) s of
           (FilePath, s) \<Rightarrow>
             if FilePath \<noteq> 0 then
               (let m = (memory s)(FilePath := 4, FilePath + 1 := 4);
                    m = SetDevicePathNodeLength m FilePath (Size + 4);
                    m = RtCopyMem m (FilePath + 4) FileName (nat Size);
                    m = SetDevicePathEndNode m (NextDevicePathNode m FilePath);
                    s = s\<lparr>memory := m\<rparr>
                in case Device of
                     None \<Rightarrow> Some (FilePath, s)
                   | Some Device \<Rightarrow>
                       (case DevicePathFromHandle fw Device s of
                          (Path, s) \<Rightarrow>
                            do {
                              (DevicePath, s) \<leftarrow> AppendDevicePath fw ty Path FilePath s;
                              Some (DevicePath, FreePool_lib fw FilePath s)
                            }))
             else Some (0, s))"

text \<open>\<open>ASSERT(DevPath)\<close> is empty: when there is no memory the walk starts at address 0.\<close>

definition AppendDevicePathInstance ::
  "'w firmware \<Rightarrow> int \<Rightarrow> addr \<Rightarrow> addr \<Rightarrow> ('w, 'z) efi_scheme \<Rightarrow> (addr \<times> ('w, 'z) efi_scheme) option" where
  "AppendDevicePathInstance fw ty Src Instance s =
     (if Src = 0 then DuplicateDevicePath fw ty Instance s
      else do {
        SrcSize \<leftarrow> DevicePathSize (memory s) Src;
        InstanceSize \<leftarrow> DevicePathSize (memory s) Instance;
        (case AllocatePool_lib fw ty (u64 (SrcSize + InstanceSize)) s of
           (Ptr, s) \<Rightarrow>
             (let m = RtCopyMem (memory s) Ptr Src (nat SrcSize)
              in do {
                   DevPath \<leftarrow> path_end m Ptr;
                   (let m = m(DevPath + 1 := 1);
                        DevPath = NextDevicePathNode m DevPath
                    in Some (Ptr, s\<lparr>memory := RtCopyMem m DevPath Instance (nat InstanceSize)\<rparr>))
                 }))
      })"

section \<open>Unpacking\<close>

text \<open>\<open>MIN_ALIGNMENT_SIZE\<close> is 8.\<close>

definition ALIGN_SIZE :: "int \<Rightarrow> int" where
  "ALIGN_SIZE a = (if a mod 8 \<noteq> 0 then 8 - a mod 8 else 0)"

partial_function (option) unpack_size :: "mem \<Rightarrow> addr \<Rightarrow> int \<Rightarrow> int option" where
  "unpack_size m Src Size =
     (let Size = Size + DevicePathNodeLength m Src;
          Size = Size + ALIGN_SIZE Size
      in if IsDevicePathEnd m Src then Some Size else unpack_size m (NextDevicePathNode m Src) Size)"

partial_function (option) unpack_loop :: "mem \<Rightarrow> addr \<Rightarrow> addr \<Rightarrow> mem option" where
  "unpack_loop m Src Dest =
     (let Size = DevicePathNodeLength m Src;
          m = RtCopyMem m Dest Src (nat Size);
          Size = Size + ALIGN_SIZE Size;
          m = SetDevicePathNodeLength m Dest Size;
          m = m(Dest := m Dest OR 0x80);
          Dest = Dest + Size
      in if IsDevicePathEnd m Src then Some m else unpack_loop m (NextDevicePathNode m Src) Dest)"

definition UnpackDevicePath ::
  "'w firmware \<Rightarrow> int \<Rightarrow> addr \<Rightarrow> ('w, 'z) efi_scheme \<Rightarrow> (addr \<times> ('w, 'z) efi_scheme) option" where
  "UnpackDevicePath fw ty DevPath s =
     do {
       Size \<leftarrow> unpack_size (memory s) DevPath 0;
       (case AllocateZeroPool fw ty Size s of
          (NewPath, s) \<Rightarrow>
            if NewPath \<noteq> 0 then do { m \<leftarrow> unpack_loop (memory s) DevPath NewPath; Some (NewPath, s\<lparr>memory := m\<rparr>) }
            else Some (NewPath, s))
     }"

section \<open>Comparing and searching\<close>

partial_function (option) match_loop :: "mem \<Rightarrow> addr \<Rightarrow> addr \<Rightarrow> bool option" where
  "match_loop m DevicePath Single =
     (case DevicePathInstance m DevicePath of
        None \<Rightarrow> Some False
      | Some (Inst, DevicePath, Size) \<Rightarrow>
          if RtCompareMem m Single Inst (nat Size) = 0 then Some True else match_loop m DevicePath Single)"

definition LibMatchDevicePaths :: "mem \<Rightarrow> addr \<Rightarrow> addr \<Rightarrow> bool option" where
  "LibMatchDevicePaths m Multi Single =
     (if Multi = 0 \<or> Single = 0 then Some False else match_loop m Multi Single)"

definition LibDevicePathToInterface ::
  "'w firmware \<Rightarrow> guid \<Rightarrow> addr \<Rightarrow> ('w, 'z) efi_scheme \<Rightarrow> int \<times> addr \<times> ('w, 'z) efi_scheme" where
  "LibDevicePathToInterface fw Protocol FilePath s =
     (case efi_bs_call fw (LocateDevicePath Protocol FilePath) s of
        (r, s) \<Rightarrow>
          let (Status, Interface, s) =
                (if \<not> EFI_ERROR (status r) then
                   (if IsDevicePathEnd (memory s) (attr r)
                    then (case efi_bs_call fw (HandleProtocol (out r) Protocol) s of (r, s) \<Rightarrow> (status r, out r, s))
                    else (EFI_NOT_FOUND, 0, s))
                 else (status r, 0, s))
          in (Status, if EFI_ERROR Status then 0 else Interface, s))"

text \<open>
  The signature of a hard drive node, its \<open>MBRType\<close> and \<open>SignatureType\<close>: does the node at \<open>DevPath\<close> match?
\<close>

definition signature_matches :: "mem \<Rightarrow> int \<Rightarrow> int \<Rightarrow> addr \<Rightarrow> addr \<Rightarrow> bool" where
  "signature_matches m MBRType SignatureType Signature DevPath \<longleftrightarrow>
     uint (m (DevPath + 40)) = MBRType \<and> uint (m (DevPath + 41)) = SignatureType \<and>
     (if SignatureType = 1 then ld_le m Signature 4 = ld_le m (DevPath + 24) 4
      else SignatureType = 2 \<and> RtCompareGuid m Signature (DevPath + 24) = 0)"

partial_function (option) disk_loop :: "mem \<Rightarrow> int \<Rightarrow> int \<Rightarrow> addr \<Rightarrow> addr \<Rightarrow> bool \<Rightarrow> bool \<Rightarrow> bool option" where
  "disk_loop m MBRType SignatureType Signature DevPath Previous Match =
     (let drive = (DevicePathType m DevPath = MEDIA_DEVICE_PATH \<and> DevicePathSubType m DevPath = MEDIA_HARDDRIVE_DP);
          Match = (Match \<or> drive \<and> \<not> Previous \<and> IsDevicePathEndType m (NextDevicePathNode m DevPath)
                           \<and> signature_matches m MBRType SignatureType Signature DevPath)
      in if IsDevicePathEnd m DevPath then Some Match
         else disk_loop m MBRType SignatureType Signature (NextDevicePathNode m DevPath) drive Match)"

text \<open>The loop over the handles: one that does not match is overwritten; the result counts the others.\<close>

primrec disk_handles ::
  "'w firmware \<Rightarrow> int \<Rightarrow> int \<Rightarrow> addr \<Rightarrow> addr \<Rightarrow> nat \<Rightarrow> int \<Rightarrow> ('w, 'z) efi_scheme \<Rightarrow> (int \<times> ('w, 'z) efi_scheme) option" where
  "disk_handles fw MBRType SignatureType Signature Buffer 0 NoHandles s = Some (NoHandles, s)"
| "disk_handles fw MBRType SignatureType Signature Buffer (Suc n) NoHandles s =
     (case efi_bs_call fw (HandleProtocol (ld_le (memory s) Buffer 8) DevicePathProtocol) s of
        (r, s) \<Rightarrow>
          do {
            Match \<leftarrow> (if out r \<noteq> 0
                      then disk_loop (memory s) MBRType SignatureType Signature (out r) False False
                      else Some False);
            (if Match
             then disk_handles fw MBRType SignatureType Signature (Buffer + 8) n (NoHandles + 1) s
             else disk_handles fw MBRType SignatureType Signature (Buffer + 8) n NoHandles
                    (s\<lparr>memory := st_le (memory s) Buffer 8 0\<rparr>))
          })"

primrec gather_handles :: "mem \<Rightarrow> addr \<Rightarrow> nat \<Rightarrow> addr \<Rightarrow> int \<Rightarrow> int \<times> mem" where
  "gather_handles m Block 0 Buffer NoHandles = (NoHandles, m)"
| "gather_handles m Block (Suc n) Buffer NoHandles =
     (if ld_le m Block 8 \<noteq> 0
      then gather_handles (st_le m (Buffer + 8 * NoHandles) 8 (ld_le m Block 8)) (Block + 8) n Buffer (NoHandles + 1)
      else gather_handles m (Block + 8) n Buffer NoHandles)"

definition BlockIoProtocol :: guid where
  "BlockIoProtocol = MAKE_EFI_GUID 0x964e5b21 0x6459 0x11d2 [0x8e, 0x39, 0x0, 0xa0, 0xc9, 0x69, 0x72, 0x3b]"

text \<open>The status, \<open>*NoHandles\<close> and \<open>*Buffer\<close>.\<close>

definition LibLocateHandleByDiskSignature ::
  "'w firmware \<Rightarrow> int \<Rightarrow> int \<Rightarrow> int \<Rightarrow> addr \<Rightarrow> ('w, 'z) efi_scheme \<Rightarrow> (int \<times> int \<times> addr \<times> ('w, 'z) efi_scheme) option" where
  "LibLocateHandleByDiskSignature fw ty MBRType SignatureType Signature s =
     do {
       (Status, Block, BufferSize, r, s) \<leftarrow>
          grow_loop fw ty (handle_query fw 2 (Some BlockIoProtocol) 0) EFI_SUCCESS 0 (50 * 8) None s;
       let n = (if EFI_ERROR Status then 0 else BufferSize div 8);
       if n = 0 then Some (Status, 0, 0, FreePool_lib fw Block s)
       else do {
         (NoHandles, s) \<leftarrow> disk_handles fw MBRType SignatureType Signature Block (nat n) 0 s;
         if NoHandles = 0 then Some (EFI_SUCCESS, 0, 0, FreePool_lib fw Block s)
         else (case AllocatePool_lib fw ty (NoHandles * 8) s of
                 (Buffer, s) \<Rightarrow>
                   if Buffer = 0 then Some (EFI_OUT_OF_RESOURCES, 0, 0, FreePool_lib fw Block s)
                   else (case gather_handles (memory s) Block (nat n) Buffer 0 of
                           (NoHandles, m) \<Rightarrow>
                             Some (EFI_SUCCESS, NoHandles, Buffer, FreePool_lib fw Block (s\<lparr>memory := m\<rparr>))))
       }
     }"

end
