(* ===== verification/Simple_Read.thy ===== *)
theory Simple_Read
  imports Dpath
begin

text \<open>
  Files that are read from a copy in memory, through a file system or through the load-file protocol:
  \<open>src/lib/sread.c\<close>. The handle is a buffer of the pool; its fields are a record here, which only the library
  writes. \<open>FileHandle\<close> and \<open>Source\<close> are 0 when they are \<open>NULL\<close>; \<open>ASSERT\<close> is empty.
\<close>

section \<open>The code\<close>

record simple_read =
  FreeBuffer :: bool
  Source :: addr
  SourceSize :: int
  FileHandle :: addr

definition LoadFileProtocol :: guid where
  "LoadFileProtocol = MAKE_EFI_GUID 0x56EC3091 0x954C 0x11d2 [0x8E, 0x3F, 0x00, 0xA0, 0xC9, 0x69, 0x72, 0x3B]"

abbreviation (input) EFI_ALREADY_STARTED :: int where "EFI_ALREADY_STARTED \<equiv> 0x8000000000000014"

text \<open>The loop over the nodes of the path: the status, the last \<open>FileHandle\<close> and the state.\<close>

partial_function (option) open_nodes ::
  "'w firmware \<Rightarrow> addr \<Rightarrow> addr \<Rightarrow> int \<Rightarrow> ('w, 'z) efi_scheme \<Rightarrow> (int \<times> addr \<times> ('w, 'z) efi_scheme) option" where
  "open_nodes fw Node F Status s =
     (if IsDevicePathEnd (memory s) Node then Some (Status, F, s)
      else
        (let Status = (if DevicePathType (memory s) Node \<noteq> MEDIA_DEVICE_PATH \<or> DevicePathSubType (memory s) Node \<noteq> MEDIA_FILEPATH_DP
                       then EFI_UNSUPPORTED else Status)
         in if EFI_ERROR Status then Some (Status, F, s)
            else (case efi_bs_call fw (FileOpen F (Node + 4) 1 0) s of
                    (r, s) \<Rightarrow>
                      (let s = snd (efi_bs_call fw (FileClose F) s)
                       in open_nodes fw (NextDevicePathNode (memory s) Node) (out r) (status r) s))))"

text \<open>
  Through the load-file protocol, \<open>FilePath\<close> being what \<open>*FilePath\<close> is by then: the status, the handle's
  fields, \<open>*DeviceHandle\<close> when it is stored, and whether the function is done with it.
\<close>

definition load_file ::
  "'w firmware \<Rightarrow> int \<Rightarrow> bool \<Rightarrow> addr \<Rightarrow> simple_read \<Rightarrow> ('w, 'z) efi_scheme
   \<Rightarrow> (int \<times> simple_read \<times> int option \<times> ('w, 'z) efi_scheme) option" where
  "load_file fw ty BootPolicy FilePath H s =
     (case LibDevicePathToInterface fw LoadFileProtocol FilePath s of
        (Status, LF, s) \<Rightarrow>
          if \<not> EFI_ERROR Status then
            do {
              (Temp, s) \<leftarrow> DuplicateDevicePath fw ty FilePath s;
              (case efi_bs_call fw (LocateDevicePath LoadFileProtocol Temp) s of
                 (d, s) \<Rightarrow>
                   (case efi_bs_call fw (LoadFile LF FilePath BootPolicy 0 None) (FreePool_lib fw Temp s) of
                      (r, s) \<Rightarrow>
                        (let (Status, H, s) =
                               (if status r = EFI_BUFFER_TOO_SMALL then
                                  (case AllocatePool_lib fw ty (out r) s of
                                     (Buffer, s) \<Rightarrow>
                                       if Buffer \<noteq> 0 then
                                         (case efi_bs_call fw (LoadFile LF FilePath BootPolicy (out r) (Some Buffer)) s of
                                            (r', s) \<Rightarrow>
                                              (status r', H\<lparr>FreeBuffer := True, Source := Buffer, SourceSize := out r\<rparr>, s))
                                       else (status r, H, s))
                                else (status r, H, s))
                         in Some (if \<not> EFI_ERROR Status \<or> Status = EFI_ALREADY_STARTED then Status else EFI_UNSUPPORTED,
                                  H, Some (out d), s))))
            }
          else Some (EFI_UNSUPPORTED, H, None, s))"

text \<open>The clean-up at \<open>Done\<close>.\<close>

definition open_done :: "'w firmware \<Rightarrow> int \<Rightarrow> addr \<Rightarrow> simple_read \<Rightarrow> ('w, 'z) efi_scheme \<Rightarrow> ('w, 'z) efi_scheme" where
  "open_done fw Status FHand H s =
     (if EFI_ERROR Status \<and> Status \<noteq> EFI_ALREADY_STARTED then
        (if FHand \<noteq> 0
         then FreePool_lib fw FHand (if FreeBuffer H then FreePool_lib fw (Source H) s else s)
         else s)
      else s)"

text \<open>
  The result: the status, \<open>*FilePath\<close>, \<open>*DeviceHandle\<close> when it is stored, and the handle \<open>*SimpleReadHandle\<close>
  with its fields.
\<close>

definition OpenSimpleReadFile ::
  "'w firmware \<Rightarrow> int \<Rightarrow> bool \<Rightarrow> addr \<Rightarrow> int \<Rightarrow> addr \<Rightarrow> ('w, 'z) efi_scheme
   \<Rightarrow> (int \<times> addr \<times> int option \<times> addr \<times> simple_read \<times> ('w, 'z) efi_scheme) option" where
  "OpenSimpleReadFile fw ty BootPolicy SourceBuffer Size UserFilePath s =
     (let H = \<lparr>FreeBuffer = False, Source = 0, SourceSize = 0, FileHandle = 0\<rparr>
      in case AllocateZeroPool fw ty 40 s of
           (FHand, s) \<Rightarrow>
             if FHand = 0 then Some (EFI_OUT_OF_RESOURCES, UserFilePath, None, FHand, H, s)
             else if SourceBuffer \<noteq> 0 then
               Some (EFI_SUCCESS, UserFilePath, Some 0, FHand, H\<lparr>Source := SourceBuffer, SourceSize := Size\<rparr>, s)
             else
               (case efi_bs_call fw (LocateDevicePath FileSystemProtocol UserFilePath) s of
                  (r, s) \<Rightarrow>
                    (let FilePath = attr r;
                         (F, s) = (if \<not> EFI_ERROR (status r) then LibOpenRoot fw (out r) s else (0, s))
                     in do {
                          (Status, F, s) \<leftarrow> open_nodes fw FilePath F (if F \<noteq> 0 then EFI_SUCCESS else EFI_UNSUPPORTED) s;
                          (if \<not> EFI_ERROR Status then
                             Some (Status, FilePath, Some (out r), FHand, H\<lparr>FileHandle := F\<rparr>, s)
                           else
                             (let (FilePath, s) =
                                    (if F \<noteq> 0 then (UserFilePath, snd (efi_bs_call fw (FileClose F) s)) else (FilePath, s))
                              in if Status \<noteq> EFI_UNSUPPORTED then
                                   Some (Status, FilePath, Some (out r), FHand, H, open_done fw Status FHand H s)
                                 else do {
                                   (Status, H, Device, s) \<leftarrow> load_file fw ty BootPolicy FilePath H s;
                                   Some (Status, FilePath, case Device of None \<Rightarrow> Some (out r) | Some d \<Rightarrow> Some d,
                                         FHand, H, open_done fw Status FHand H s)
                                 }))
                        })))"

text \<open>The status and \<open>*ReadSize\<close>.\<close>

definition ReadSimpleReadFile ::
  "'w firmware \<Rightarrow> simple_read \<Rightarrow> int \<Rightarrow> int \<Rightarrow> addr \<Rightarrow> ('w, 'z) efi_scheme \<Rightarrow> int \<times> int \<times> ('w, 'z) efi_scheme" where
  "ReadSimpleReadFile fw H Offset ReadSize Buffer s =
     (if Source H \<noteq> 0 then
        (let EndPos = u64 (Offset + ReadSize);
             ReadSize = (if EndPos > SourceSize H
                         then (if Offset \<ge> SourceSize H then 0 else u64 (SourceSize H - Offset)) else ReadSize)
         in (EFI_SUCCESS, ReadSize, s\<lparr>memory := RtCopyMem (memory s) Buffer (Source H + Offset) (nat ReadSize)\<rparr>))
      else
        (case efi_bs_call fw (FileSetPosition (FileHandle H) Offset) s of
           (r, s) \<Rightarrow>
             if \<not> EFI_ERROR (status r)
             then (case efi_bs_call fw (FileRead (FileHandle H) ReadSize Buffer) s of (r, s) \<Rightarrow> (status r, out r, s))
             else (status r, ReadSize, s)))"

definition CloseSimpleReadFile :: "'w firmware \<Rightarrow> addr \<Rightarrow> simple_read \<Rightarrow> ('w, 'z) efi_scheme \<Rightarrow> ('w, 'z) efi_scheme" where
  "CloseSimpleReadFile fw FHand H s =
     (let s = (if FileHandle H \<noteq> 0 then snd (efi_bs_call fw (FileClose (FileHandle H)) s) else s);
          s = (if FreeBuffer H then FreePool_lib fw (Source H) s else s)
      in FreePool_lib fw FHand s)"


section \<open>What is opened is closed\<close>

fun file_opens :: "call_log \<Rightarrow> addr multiset" where
  "file_opens [] = {#}"
| "file_opens ((OpenVolume _, r) # cs) = (if EFI_ERROR (status r) then {#} else {#out r#}) + file_opens cs"
| "file_opens ((FileOpen _ _ _ _, r) # cs) = (if EFI_ERROR (status r) then {#} else {#out r#}) + file_opens cs"
| "file_opens (_ # cs) = file_opens cs"

fun file_closes :: "call_log \<Rightarrow> addr multiset" where
  "file_closes [] = {#}"
| "file_closes ((FileClose f, _) # cs) = {#f#} + file_closes cs"
| "file_closes (_ # cs) = file_closes cs"

lemma file_opens_append: "file_opens (xs @ ys) = file_opens xs + file_opens ys"
  by (induction xs rule: file_opens.induct) auto

lemma file_closes_append: "file_closes (xs @ ys) = file_closes xs + file_closes ys"
  by (induction xs rule: file_closes.induct) auto

interpretation files: ledger file_opens file_closes
  by unfold_locales (simp_all add: file_opens_append file_closes_append)

abbreviation settles_files where "settles_files \<equiv> settled file_opens file_closes"

text \<open>
  What the firmware promises of a file: its handle is not at 0, and after an error the pointer for the
  handle, which was \<open>NULL\<close>, is as it was.
\<close>

definition files_answer :: "'w firmware \<Rightarrow> bool" where
  "files_answer fw \<longleftrightarrow>
     (\<forall>f n md at m w. let r = fst (fw (FileOpen f n md at) m w) in EFI_ERROR (status r) \<longleftrightarrow> out r = 0) \<and>
     (\<forall>v m w. let r = fst (fw (OpenVolume v) m w) in \<not> EFI_ERROR (status r) \<longrightarrow> out r \<noteq> 0)"

lemma fw_reply_of: "efi_bs_call fw c s = (r, s') \<Longrightarrow> r = fst (fw c (memory s) (world s))"
  by (auto simp: efi_bs_call_def split: prod.splits)

lemma FileClose_settles:
  "settles_files s (own F) (snd (efi_bs_call fw (FileClose F) s)) {#}" if "F \<noteq> 0"
  using files.settled_call [of fw "FileClose F" s "fst (efi_bs_call fw (FileClose F) s)"] that by simp

lemma open_root_settles:
  assumes "files_answer fw" "LibOpenRoot fw d s = (F, s')"
  shows "settles_files s {#} s' (own F)" "settles s B s' B"
proof -
  obtain r s1 where c: "efi_bs_call fw (HandleProtocol d FileSystemProtocol) s = (r, s1)" by fastforce
  have q1: "settles_files s {#} s1 {#}" "settles s B s1 B"
    by (rule files.settled_call [OF c], simp) (rule settles_call [OF c], simp_all)
  have "settles_files s {#} s' (own F) \<and> settles s B s' B"
  proof (cases "EFI_ERROR (status r)")
    case True
    then show ?thesis using q1 assms(2) c by (auto simp: LibOpenRoot_def)
  next
    case False
    obtain r2 s2 where c2: "efi_bs_call fw (OpenVolume (out r)) s1 = (r2, s2)" by fastforce
    have F: "F = (if EFI_ERROR (status r2) then 0 else out r2)" "s' = s2"
      using assms(2) c c2 False by (auto simp: LibOpenRoot_def)
    have "\<not> EFI_ERROR (status r2) \<Longrightarrow> out r2 \<noteq> 0"
      using assms(1) fw_reply_of [OF c2] by (auto simp: files_answer_def Let_def)
    then have "settles_files s1 {#} s' (own F)" unfolding F(2)
      by (intro files.settled_call [OF c2]) (simp add: F(1))
    moreover have "settles s1 B s' B" unfolding F(2) by (rule settles_call [OF c2]) simp_all
    ultimately show ?thesis using q1 files.settled_trans pool.settled_trans by blast
  qed
  then show "settles_files s {#} s' (own F)" "settles s B s' B" by auto
qed

lemma open_nodes_settles:
  assumes "files_answer fw" "open_nodes fw N F st s = Some (st', F', s')" "\<not> EFI_ERROR st \<Longrightarrow> F \<noteq> 0"
  shows "settles_files s (own F) s' (own F') \<and> settles s B s' B \<and> (\<not> EFI_ERROR st' \<longrightarrow> F' \<noteq> 0)"
proof -
  have "fw' = fw \<longrightarrow> (\<not> EFI_ERROR st \<longrightarrow> F \<noteq> 0) \<longrightarrow>
      (case y of (st', F', s') \<Rightarrow> settles_files s (own F) s' (own F') \<and> settles s B s' B \<and> (\<not> EFI_ERROR st' \<longrightarrow> F' \<noteq> 0))"
    if "open_nodes fw' N F st s = Some y" for fw' N F st s y
  proof (rule open_nodes.raw_induct [OF _ that], goal_cases)
    case (1 f fw' N F st s y)
    note IH = 1(1)
    define st1 where "st1 = (if DevicePathType (memory s) N \<noteq> MEDIA_DEVICE_PATH \<or> DevicePathSubType (memory s) N \<noteq> MEDIA_FILEPATH_DP
                       then EFI_UNSUPPORTED else st)"
    note run = 1(2) [unfolded Let_def, folded st1_def]
    have unsup: "EFI_ERROR EFI_UNSUPPORTED" by code_simp
    show ?case
    proof (intro impI)
      assume eq: "fw' = fw" "\<not> EFI_ERROR st \<longrightarrow> F \<noteq> 0"
      obtain r s1 where c: "efi_bs_call fw (FileOpen F (N + 4) 1 0) s = (r, s1)" by fastforce
      define s2 where "s2 = snd (efi_bs_call fw (FileClose F) s1)"
      have st1: "\<not> EFI_ERROR st1 \<Longrightarrow> F \<noteq> 0" using eq(2) unsup by (auto simp: st1_def split: if_splits)
      consider "IsDevicePathEnd (memory s) N" | "\<not> IsDevicePathEnd (memory s) N" "EFI_ERROR st1"
        | "\<not> IsDevicePathEnd (memory s) N" "\<not> EFI_ERROR st1" by blast
      then show "case y of (st', F', s') \<Rightarrow> settles_files s (own F) s' (own F') \<and> settles s B s' B \<and> (\<not> EFI_ERROR st' \<longrightarrow> F' \<noteq> 0)"
      proof cases
        case 1
        then show ?thesis using run eq by (auto simp: files.settled_refl pool.settled_refl)
      next
        case 2
        then show ?thesis using run by (auto simp: files.settled_refl pool.settled_refl)
      next
        case 3
        then have F: "F \<noteq> 0" using st1 by blast
        have step: "f fw (NextDevicePathNode (memory s2) N) (out r) (status r) s2 = Some y"
          using run 3 c eq(1) by (simp add: s2_def)
        have r: "EFI_ERROR (status r) \<longleftrightarrow> out r = 0"
          using assms(1) fw_reply_of [OF c] by (auto simp: files_answer_def Let_def)
        have "settles_files s (own F) s1 (own F + own (out r))"
          by (rule files.settled_call [OF c]) (use r in simp)
        moreover have "settles_files s1 (own F + own (out r)) s2 (own (out r))"
          using files.settled_frame [OF FileClose_settles [OF F, of s1 fw], of "own (out r)"] by (simp add: s2_def)
        ultimately have f: "settles_files s (own F) s2 (own (out r))" by (rule files.settled_trans)
        obtain r2 where c2: "efi_bs_call fw (FileClose F) s1 = (r2, s2)" by (metis s2_def prod.collapse)
        have p: "settles s B s2 B"
          by (rule pool.settled_trans [OF settles_call [OF c] settles_call [OF c2]]) simp_all
        show ?thesis using IH [OF step] r f p files.settled_trans pool.settled_trans by (cases y) blast
      qed
    qed
  qed
  from this [OF assms(2)] assms(3) show ?thesis by auto
qed


text \<open>The buffers and the file of a handle.\<close>

definition read_buffers :: "addr \<Rightarrow> simple_read \<Rightarrow> addr multiset" where
  "read_buffers FHand H = own FHand + (if FreeBuffer H then own (Source H) else {#})"

lemma call_quiet:
  assumes "efi_bs_call fw c s = (r, s')"
    and "pool_allocs [(c, r)] = {#}" "pool_frees [(c, r)] = {#}" "file_opens [(c, r)] = {#}" "file_closes [(c, r)] = {#}"
  shows "settles s B s' B \<and> settles_files s C s' C"
  using settles_call [OF assms(1-3)] files.settled_call [OF assms(1), of C C] assms(4,5) by simp

lemma interface_quiet:
  assumes "LibDevicePathToInterface fw g p s = (st, i, s')"
  shows "settles s B s' B \<and> settles_files s C s' C"
proof -
  obtain r s1 where c: "efi_bs_call fw (LocateDevicePath g p) s = (r, s1)" by fastforce
  obtain r2 s2 where c2: "efi_bs_call fw (HandleProtocol (out r) g) s1 = (r2, s2)" by fastforce
  have "s' = s1 \<or> s' = s2" using assms c c2 by (auto simp: LibDevicePathToInterface_def Let_def split: if_splits)
  then show ?thesis using call_quiet [OF c, of B C] call_quiet [OF c2, of B C] pool.settled_trans files.settled_trans by fastforce
qed

lemma pool_calls_files:
  "settles_files s C (FreePool_lib fw b s) C" "AllocatePool_lib fw ty n s = (d, s') \<Longrightarrow> settles_files s C s' C"
proof -
  show "settles_files s C (FreePool_lib fw b s) C"
    using files.settled_call [of fw "FreePool b" s "fst (efi_bs_call fw (FreePool b) s)"] by (simp add: FreePool_lib_def)
  show "settles_files s C s' C" if "AllocatePool_lib fw ty n s = (d, s')"
    using files.settled_call [of fw "AllocatePool ty n" s "fst (efi_bs_call fw (AllocatePool ty n) s)"] that
    by (auto simp: AllocatePool_lib_def split: prod.splits)
qed

lemma FreePool_settles: "settles s (own b + B) (FreePool_lib fw b s) B"
  using pool.settled_frame [OF FreePool_balanced [unfolded balanced_def]] by simp

lemma AllocatePool_settles:
  "pool_answers fw \<Longrightarrow> AllocatePool_lib fw ty n s = (d, s') \<Longrightarrow> settles s B s' (own d + B)"
  using pool.settled_frame [OF AllocatePool_balanced [unfolded balanced_def]] by simp

lemma duplicate_settles:
  assumes "pool_answers fw" "DuplicateDevicePath fw ty p s = Some (d, s')"
  shows "settles s B s' (own d + B) \<and> settles_files s C s' C"
proof -
  obtain n where n: "DevicePathSize (memory s) p = Some n" using assms(2) by (auto simp: DuplicateDevicePath_def bind_eq_Some_conv)
  obtain d1 s1 where a: "AllocatePool_lib fw ty n s = (d1, s1)" by fastforce
  have "d = d1 \<and> (\<exists>m. s' = s1\<lparr>memory := m\<rparr> \<or> s' = s1)"
    using assms(2) a by (auto simp: DuplicateDevicePath_def n split: if_splits)
  then show ?thesis using AllocatePool_settles [OF assms(1) a, of B] pool_calls_files(2) [OF a, of C] by auto
qed

lemma load_file_settles:
  assumes "pool_answers fw" "load_file fw ty bp p H s = Some (st, H', d, s')" "\<not> FreeBuffer H"
  shows "settles s (own h) s' (read_buffers h H') \<and> settles_files s C s' C \<and> FileHandle H' = FileHandle H"
proof -
  obtain st1 lf s1 where 1: "LibDevicePathToInterface fw LoadFileProtocol p s = (st1, lf, s1)" by (metis prod_cases3)
  note q1 = interface_quiet [OF 1]
  show ?thesis
  proof (cases "EFI_ERROR st1")
    case True
    then show ?thesis using assms(2,3) 1 q1 by (auto simp: load_file_def read_buffers_def)
  next
    case False
    obtain t s2 where 2: "DuplicateDevicePath fw ty p s1 = Some (t, s2)"
      using assms(2) 1 False by (auto simp: load_file_def bind_eq_Some_conv)
    obtain r3 s3 where 3: "efi_bs_call fw (LocateDevicePath LoadFileProtocol t) s2 = (r3, s3)" by fastforce
    define s4 where "s4 = FreePool_lib fw t s3"
    obtain r5 s5 where 5: "efi_bs_call fw (LoadFile lf p bp 0 None) s4 = (r5, s5)" by fastforce
    obtain b s6 where 6: "AllocatePool_lib fw ty (out r5) s5 = (b, s6)" by fastforce
    obtain r7 s7 where 7: "efi_bs_call fw (LoadFile lf p bp (out r5) (Some b)) s6 = (r7, s7)" by fastforce
    have upto5: "settles s B s5 B \<and> settles_files s C s5 C" for B
    proof -
      note [trans] = pool.settled_trans files.settled_trans
      have "settles s B s1 B" using q1 by blast
      also have "settles s1 B s2 (own t + B)" using duplicate_settles [OF assms(1) 2] by blast
      also have "settles s2 (own t + B) s3 (own t + B)" using call_quiet [OF 3] by simp
      also have "settles s3 (own t + B) s4 B" unfolding s4_def by (rule FreePool_settles)
      also have "settles s4 B s5 B" using call_quiet [OF 5] by simp
      finally have p: "settles s B s5 B" .
      have "settles_files s C s1 C" using q1 by blast
      also have "settles_files s1 C s2 C" using duplicate_settles [OF assms(1) 2] by blast
      also have "settles_files s2 C s3 C" using call_quiet [OF 3] by simp
      also have "settles_files s3 C s4 C" unfolding s4_def by (rule pool_calls_files(1))
      also have "settles_files s4 C s5 C" using call_quiet [OF 5] by simp
      finally show ?thesis using p by blast
    qed
    have a6: "settles s5 B s6 (own b + B)" "settles_files s5 C s6 C" for B
      using AllocatePool_settles [OF assms(1) 6] pool_calls_files(2) [OF 6] by blast+
    have a7: "settles s6 B s7 B" "settles_files s6 C s7 C" for B using call_quiet [OF 7] by auto
    consider "status r5 \<noteq> EFI_BUFFER_TOO_SMALL" "H' = H" "s' = s5"
      | "b = 0" "H' = H" "s' = s6" | "b \<noteq> 0" "H' = H\<lparr>FreeBuffer := True, Source := b, SourceSize := out r5\<rparr>" "s' = s7"
      using assms(2) 1 False 2 3 5 6 7 by (auto simp: load_file_def s4_def [symmetric] Let_def split: if_splits)
    then show ?thesis
    proof cases
      case 1
      then show ?thesis using upto5 assms(3) by (simp add: read_buffers_def)
    next
      case 2
      then show ?thesis
        using pool.settled_trans [OF upto5 [THEN conjunct1] a6(1)] files.settled_trans [OF upto5 [THEN conjunct2] a6(2)] assms(3)
        by (simp add: read_buffers_def)
    next
      case 3
      have "settles s (own h) s7 (own b + own h)" "settles_files s C s7 C"
        by (rule pool.settled_trans [OF pool.settled_trans [OF upto5 [THEN conjunct1] a6(1)] a7(1)])
          (rule files.settled_trans [OF files.settled_trans [OF upto5 [THEN conjunct2] a6(2)] a7(2)])
      then show ?thesis using 3 by (simp add: read_buffers_def add.commute)
    qed
  qed
qed

text \<open>
  A handle that is returned owns its buffers and its file; when the file could not be opened everything has
  been given back and closed.
\<close>

definition kept :: "int \<Rightarrow> bool" where
  "kept st \<longleftrightarrow> \<not> EFI_ERROR st \<or> st = EFI_ALREADY_STARTED"

lemma open_done_settles:
  assumes "h \<noteq> 0"
  shows "settles s (read_buffers h H) (open_done fw st h H s) (if kept st then read_buffers h H else {#}) \<and>
    settles_files s C (open_done fw st h H s) C"
proof -
  define t where "t = (if FreeBuffer H then FreePool_lib fw (Source H) s else s)"
  have "settles s (read_buffers h H) t (own h)" "settles_files s C t C"
    using FreePool_settles [of s "Source H" "own h" fw] pool_calls_files(1) [of s C fw "Source H"]
    by (auto simp: t_def read_buffers_def add.commute pool.settled_refl files.settled_refl)
  moreover have "settles t (own h) (FreePool_lib fw h t) {#}" "settles_files t C (FreePool_lib fw h t) C"
    using FreePool_settles [of t h "{#}" fw] pool_calls_files(1) by auto
  ultimately have "settles s (read_buffers h H) (FreePool_lib fw h t) {#}" "settles_files s C (FreePool_lib fw h t) C"
    using pool.settled_trans files.settled_trans by blast+
  then show ?thesis using assms
    by (auto simp: open_done_def kept_def t_def [symmetric] pool.settled_refl files.settled_refl)
qed

lemma open_settles:
  assumes "pool_answers fw" "files_answer fw" "OpenSimpleReadFile fw ty bp src n p s = Some (st, fp, dh, h, H, s')"
  shows "settles s {#} s' (if kept st then read_buffers h H else {#})"
    and "settles_files s {#} s' (if kept st then own (FileHandle H) else {#})"
proof -
  note [trans] = pool.settled_trans files.settled_trans
  let ?H = "\<lparr>FreeBuffer = False, Source = 0, SourceSize = 0, FileHandle = 0\<rparr>"
  obtain h0 s0 where 0: "AllocatePool_lib fw ty 40 s = (h0, s0)" by fastforce
  obtain s1 where z: "AllocateZeroPool fw ty 40 s = (h0, s1)" "\<exists>m. s1 = s0\<lparr>memory := m\<rparr> \<or> s1 = s0"
    using 0 by (cases "h0 = 0") (auto simp: AllocateZeroPool_def)
  have a1: "settles s {#} s1 (own h0)" "settles_files s C s1 C" for C
    using AllocatePool_settles [OF assms(1) 0, of "{#}"] pool_calls_files(2) [OF 0] z(2) by auto
  have ko: "\<not> kept EFI_OUT_OF_RESOURCES" "kept EFI_SUCCESS" "EFI_ERROR EFI_UNSUPPORTED" by code_simp+
  have "settles s {#} s' (if kept st then read_buffers h H else {#}) \<and>
    settles_files s {#} s' (if kept st then own (FileHandle H) else {#})"
  proof (cases "h0 = 0 \<or> src \<noteq> 0")
    case True
    then show ?thesis using assms(3) a1 ko by (auto simp: OpenSimpleReadFile_def z(1) Let_def read_buffers_def split: if_splits)
  next
    case False
    then have h0: "h0 \<noteq> 0" "src = 0" by auto
    obtain r s2 where 2: "efi_bs_call fw (LocateDevicePath FileSystemProtocol p) s1 = (r, s2)" by fastforce
    obtain F s3 where 3: "(if \<not> EFI_ERROR (status r) then LibOpenRoot fw (out r) s2 else (0, s2)) = (F, s3)" by fastforce
    have a3: "settles s2 B s3 B" "settles_files s2 {#} s3 (own F)" for B
      using open_root_settles [OF assms(2), of "out r" s2 F s3] 3 by (auto simp: pool.settled_refl files.settled_refl split: if_splits)
    let ?rest = "open_nodes fw (attr r) F (if F \<noteq> 0 then EFI_SUCCESS else EFI_UNSUPPORTED) s3"
    obtain st4 F4 s4 where 4: "?rest = Some (st4, F4, s4)"
      using assms(3) h0 2 3 by (auto simp: OpenSimpleReadFile_def z(1) Let_def bind_eq_Some_conv split: prod.splits)
    have nz: "\<not> EFI_ERROR (if F \<noteq> 0 then EFI_SUCCESS else EFI_UNSUPPORTED) \<Longrightarrow> F \<noteq> 0" using ko(3) by (auto split: if_splits)
    note a4 = open_nodes_settles [OF assms(2) 4 nz]
    have "settles s {#} s4 (own h0)"
    proof -
      have "settles s {#} s1 (own h0)" by (rule a1(1))
      also have "settles s1 (own h0) s2 (own h0)" using call_quiet [OF 2] by simp
      also have "settles s2 (own h0) s3 (own h0)" by (rule a3(1))
      also have "settles s3 (own h0) s4 (own h0)" using a4 by blast
      finally show ?thesis .
    qed
    moreover have "settles_files s {#} s4 (own F4)"
    proof -
      have "settles_files s {#} s1 {#}" by (rule a1(2))
      also have "settles_files s1 {#} s2 {#}" using call_quiet [OF 2, of "{#}" "{#}"] by simp
      also have "settles_files s2 {#} s3 (own F)" by (rule a3(2))
      also have "settles_files s3 (own F) s4 (own F4)" using a4 by blast
      finally show ?thesis .
    qed
    ultimately have upto4: "settles s {#} s4 (own h0) \<and> settles_files s {#} s4 (own F4)" by blast
    show ?thesis
    proof (cases "EFI_ERROR st4")
      case False
      then have "st = st4 \<and> h = h0 \<and> H = ?H\<lparr>FileHandle := F4\<rparr> \<and> s' = s4"
        using assms(3) h0 2 3 4 by (auto simp: OpenSimpleReadFile_def z(1) Let_def)
      then show ?thesis using upto4 False by (simp add: kept_def read_buffers_def)
    next
      case True
      define s5 where "s5 = (if F4 \<noteq> 0 then snd (efi_bs_call fw (FileClose F4) s4) else s4)"
      define fp5 where "fp5 = (if F4 \<noteq> 0 then p else attr r)"
      have pair: "(if F4 \<noteq> 0 then (p, snd (efi_bs_call fw (FileClose F4) s4)) else (attr r, s4)) = (fp5, s5)"
        by (simp add: s5_def fp5_def)
      have "settles s4 (own h0) s5 (own h0) \<and> settles_files s4 (own F4) s5 {#}"
        using FileClose_settles [of F4 s4 fw] settles_call [of fw "FileClose F4" s4 "fst (efi_bs_call fw (FileClose F4) s4)" s5]
        by (auto simp: s5_def pool.settled_refl files.settled_refl)
      then have upto5: "settles s {#} s5 (own h0)" "settles_files s {#} s5 {#}"
        using upto4 pool.settled_trans files.settled_trans by blast+
      have own_h: "read_buffers h0 ?H = own h0" by (simp add: read_buffers_def)
      show ?thesis
      proof (cases "st4 = EFI_UNSUPPORTED")
        case False
        then have "st = st4 \<and> h = h0 \<and> H = ?H \<and> s' = open_done fw st4 h0 ?H s5"
          using assms(3) h0 2 3 4 True pair by (auto simp: OpenSimpleReadFile_def z(1) Let_def)
        then show ?thesis
          using open_done_settles [OF h0(1), of s5 ?H fw st4 "{#}"] upto5 pool.settled_trans files.settled_trans own_h by fastforce
      next
        case un: True
        obtain H6 d6 s6 where 6: "load_file fw ty bp fp5 ?H s5 = Some (st, H6, d6, s6)" and
          res: "h = h0 \<and> H = H6 \<and> s' = open_done fw st h0 H6 s6"
          using assms(3) h0 2 3 4 un ko(3) pair by (auto simp: OpenSimpleReadFile_def z(1) Let_def bind_eq_Some_conv)
        note L = load_file_settles [OF assms(1) 6, of h0 "{#}"]
        have "settles s {#} s6 (read_buffers h0 H6)" "settles_files s {#} s6 {#}" "FileHandle H6 = 0"
          using L upto5 pool.settled_trans files.settled_trans by auto blast+
        then show ?thesis
          using open_done_settles [OF h0(1), of s6 H6 fw st "{#}"] res pool.settled_trans files.settled_trans by fastforce
      qed
    qed
  qed
  then show "settles s {#} s' (if kept st then read_buffers h H else {#})"
    "settles_files s {#} s' (if kept st then own (FileHandle H) else {#})" by auto
qed

lemma close_settles:
  "settles s (read_buffers h H) (CloseSimpleReadFile fw h H s) {#} \<and> settles_files s (own (FileHandle H)) (CloseSimpleReadFile fw h H s) {#}"
proof -
  define t where "t = (if FileHandle H \<noteq> 0 then snd (efi_bs_call fw (FileClose (FileHandle H)) s) else s)"
  define u where "u = (if FreeBuffer H then FreePool_lib fw (Source H) t else t)"
  have C: "CloseSimpleReadFile fw h H s = FreePool_lib fw h u" by (simp add: CloseSimpleReadFile_def t_def u_def Let_def)
  have 1: "settles s B t B" "settles_files s (own (FileHandle H)) t {#}" for B
    using FileClose_settles [of "FileHandle H" s fw]
      settles_call [of fw "FileClose (FileHandle H)" s "fst (efi_bs_call fw (FileClose (FileHandle H)) s)" t]
    by (auto simp: t_def pool.settled_refl files.settled_refl)
  have 2: "settles t (read_buffers h H) u (own h)" "settles_files t {#} u {#}"
    using FreePool_settles [of t "Source H" "own h" fw] pool_calls_files(1)
    by (auto simp: u_def read_buffers_def add.commute pool.settled_refl files.settled_refl)
  have 3: "settles u (own h) (FreePool_lib fw h u) {#}" "settles_files u {#} (FreePool_lib fw h u) {#}"
    using FreePool_settles [of u h "{#}" fw] pool_calls_files(1) by auto
  show ?thesis unfolding C
    using pool.settled_trans [OF pool.settled_trans [OF 1(1) 2(1)] 3(1)] files.settled_trans [OF files.settled_trans [OF 1(2) 2(2)] 3(2)] by blast
qed

section \<open>Reading from the copy\<close>

text \<open>The bytes that there are between the offset and the end, at most the number asked for.\<close>

lemma read_inside:
  assumes "Source H \<noteq> 0" "b \<noteq> 0" "0 \<le> off" "0 \<le> n" "off + n < 18446744073709551616" "0 \<le> SourceSize H" "SourceSize H < 18446744073709551616"
    "Source H + off \<noteq> 0"
  defines "k \<equiv> max 0 (min n (SourceSize H - off))"
  shows "ReadSimpleReadFile fw H off n b s =
    (EFI_SUCCESS, k, s\<lparr>memory := put_bytes (memory s) b (bytes_at (memory s) (Source H + off) (nat k))\<rparr>)"
proof -
  have "(if u64 (off + n) > SourceSize H then (if off \<ge> SourceSize H then 0 else u64 (SourceSize H - off)) else n) = k"
    using assms by (auto simp: u64_def)
  moreover have "RtCopyMem m b (Source H + off) (nat k) = put_bytes m b (bytes_at m (Source H + off) (nat k))" for m
    using assms(2,8) by (auto simp: RtCopyMem_copied copied_def put_bytes_def fun_eq_iff nat_less_iff)
  ultimately show ?thesis using assms(1) by (simp add: ReadSimpleReadFile_def Let_def)
qed

text \<open>Where the sum of offset and size wraps the size is not cut: what is copied lies outside the copy of the file.\<close>

lemma read_wraps:
  assumes "Source H \<noteq> 0" "0 \<le> off" "0 \<le> n" "n < 18446744073709551616" "off < 18446744073709551616"
    and "18446744073709551616 \<le> off + n" "off + n - 18446744073709551616 \<le> SourceSize H"
  shows "fst (snd (ReadSimpleReadFile fw H off n b s)) = n"
proof -
  have "u64 (off + n) = off + n - 18446744073709551616"
    unfolding u64_def by (subst minus_mod_self2 [symmetric], rule mod_pos_pos_trivial) (use assms in auto)
  then show ?thesis using assms by (simp add: ReadSimpleReadFile_def Let_def)
qed

end
