(* ===== verification/Dpath_Spec.thy ===== *)
theory Dpath_Spec
  imports Dpath
begin

text \<open>
  What the functions of \<open>Dpath\<close> do to paths that are lists: a node is a type, a subtype and its data, an
  instance a list of nodes none of which is an end, a path a list of instances. Size, count, copy, match and
  unpacking are exact; joining is exact for a path of one instance, and for others the theorems say how far
  it goes wrong.
\<close>

section \<open>Bytes in memory\<close>

lemma mem_eq_append: "mem_eq m p (xs @ ys) \<longleftrightarrow> mem_eq m p xs \<and> mem_eq m (p + int (length xs)) ys"
  by (auto simp: mem_eq_def bytes_at_add)

lemma mem_eq_Cons: "mem_eq m p (x # xs) \<longleftrightarrow> m p = x \<and> mem_eq m (p + 1) xs"
  by (simp add: mem_eq_def bytes_at_Suc)

lemma mem_eq_Nil [simp]: "mem_eq m p []"
  by (simp add: mem_eq_def)

lemma mem_eq_put [simp]: "mem_eq (put_bytes m p xs) p xs"
  by (simp add: mem_eq_def)

lemma mem_eq_agree:
  "mem_eq m p xs \<Longrightarrow> (\<And>a. p \<le> a \<Longrightarrow> a < p + int (length xs) \<Longrightarrow> m' a = m a) \<Longrightarrow> mem_eq m' p xs"
  unfolding mem_eq_def using bytes_at_eqI [of p "length xs" m' m] by simp

lemma mem_eq_put_away:
  "mem_eq m p xs \<Longrightarrow> p + int (length xs) \<le> d \<or> d + int (length ys) \<le> p \<Longrightarrow> mem_eq (put_bytes m d ys) p xs"
  by (erule mem_eq_agree) (auto intro!: put_bytes_outside)

lemma put_bytes_append: "put_bytes (put_bytes m p xs) (p + int (length xs)) ys = put_bytes m p (xs @ ys)"
  by (auto simp: put_bytes_def nth_append fun_eq_iff nat_diff_distrib algebra_simps intro!: arg_cong [where f = "nth ys"])

lemma put_bytes_Nil [simp]: "put_bytes m p [] = m"
  by (auto simp: put_bytes_def fun_eq_iff)

lemma put_bytes_Cons: "put_bytes m p (x # xs) = put_bytes (m(p := x)) (p + 1) xs"
  by (auto simp: put_bytes_def fun_eq_iff nth_Cons' nat_diff_distrib algebra_simps intro!: arg_cong [where f = "nth xs"])

text \<open>A copy of bytes that are known.\<close>

lemma copy_known:
  assumes "mem_eq m s xs" "d \<noteq> 0" "s \<noteq> 0" "n = length xs"
  shows "RtCopyMem m d s n = put_bytes m d xs"
proof -
  have "xs ! k = m (s + int k)" if "k < length xs" for k
    using assms(1) that by (metis mem_eq_def nth_bytes_at)
  then show ?thesis using assms(2-4) by (auto simp: RtCopyMem_copied copied_def put_bytes_def fun_eq_iff)
qed

section \<open>Nodes\<close>

type_synonym dnode = "byte \<times> byte \<times> byte list"

definition node_size :: "dnode \<Rightarrow> nat" where "node_size n = 4 + length (snd (snd n))"
definition fits :: "dnode \<Rightarrow> bool" where "fits n \<longleftrightarrow> node_size n < 65536"

definition node_bytes :: "dnode \<Rightarrow> byte list" where
  "node_bytes n = [fst n, fst (snd n), byte_of (int (node_size n)), byte_of (int (node_size n) div 256)] @ snd (snd n)"

definition end_type :: "dnode \<Rightarrow> bool" where "end_type n \<longleftrightarrow> uint (fst n) AND 0x7F = 0x7F"
definition end_path :: "dnode \<Rightarrow> bool" where "end_path n \<longleftrightarrow> end_type n \<and> fst (snd n) = 0xff"

abbreviation (input) end_node :: dnode where "end_node \<equiv> (0x7f, 0xff, [])"
abbreviation (input) end_instance :: dnode where "end_instance \<equiv> (0x7f, 1, [])"

definition nodes_bytes :: "dnode list \<Rightarrow> byte list" where "nodes_bytes ns = concat (map node_bytes ns)"

lemma nodes_bytes_simps [simp]:
  "nodes_bytes [] = []" "nodes_bytes (n # ns) = node_bytes n @ nodes_bytes ns"
  "nodes_bytes (ns @ ns') = nodes_bytes ns @ nodes_bytes ns'"
  by (simp_all add: nodes_bytes_def)

lemma length_node_bytes [simp]: "length (node_bytes n) = node_size n"
  by (simp add: node_bytes_def node_size_def)

lemma node_size_ge [simp]: "4 \<le> node_size n" "0 < node_size n"
  by (simp_all add: node_size_def)

lemma end_nodes [simp]:
  "end_type end_node" "end_path end_node" "end_type end_instance" "\<not> end_path end_instance" "fits end_node" "fits end_instance"
  "node_size end_node = 4" "node_size end_instance = 4"
  by (simp_all add: end_path_def end_type_def fits_def node_size_def)

lemma end_bytes: "EndDevicePath = node_bytes end_node" "EndInstanceDevicePath = node_bytes end_instance"
  by (simp_all add: EndDevicePath_def EndInstanceDevicePath_def node_bytes_def node_size_def byte_of_def)

lemma or_shifted: "0 \<le> x \<Longrightarrow> x < 256 \<Longrightarrow> x OR push_bit 8 y = x + 256 * y" for x y :: int
proof -
  assume "0 \<le> x" "x < 256"
  then have "x = take_bit 8 x" by (simp add: take_bit_int_eq_self)
  then have "\<not> bit x n" if "8 \<le> n" for n using that by (metis bit_take_bit_iff not_le)
  then have "x + push_bit 8 y = x OR push_bit 8 y" by (intro disjunctive_add) (auto simp: bit_simps)
  then show ?thesis by (simp add: push_bit_eq_mult mult.commute)
qed

text \<open>Reading a node.\<close>

lemma read_node:
  assumes "mem_eq m p (node_bytes n)" "fits n"
  shows "DevicePathNodeLength m p = int (node_size n)" "NextDevicePathNode m p = p + int (node_size n)"
    "IsDevicePathEndType m p \<longleftrightarrow> end_type n" "IsDevicePathEnd m p \<longleftrightarrow> end_path n"
    "DevicePathSubType m p = uint (fst (snd n))" "m p = fst n"
proof -
  have f: "m p = fst n" "m (p + 1) = fst (snd n)" "m (p + 2) = byte_of (int (node_size n))"
    "m (p + 3) = byte_of (int (node_size n) div 256)"
    using assms(1) by (simp_all add: node_bytes_def mem_eq_Cons add.assoc)
  have "int (node_size n) < 65536" using assms(2) by (simp add: fits_def)
  then have "int (node_size n) div 256 < 256" "0 \<le> int (node_size n) div 256" by auto
  then show l: "DevicePathNodeLength m p = int (node_size n)"
    by (simp add: DevicePathNodeLength_def f or_shifted)
  then show "NextDevicePathNode m p = p + int (node_size n)" by (simp add: NextDevicePathNode_def)
  show t: "IsDevicePathEndType m p \<longleftrightarrow> end_type n" "DevicePathSubType m p = uint (fst (snd n))" "m p = fst n"
    by (simp_all add: IsDevicePathEndType_def DevicePathType_def DevicePathSubType_def end_type_def f)
  have "uint (fst (snd n)) = 255 \<longleftrightarrow> fst (snd n) = 0xff" by (simp add: word_uint_eq_iff)
  then show "IsDevicePathEnd m p \<longleftrightarrow> end_path n"
    using t by (simp add: IsDevicePathEnd_def IsDevicePathEndSubType_def end_path_def)
qed

section \<open>Walks\<close>

text \<open>The nodes of a path up to its end, which are all followed.\<close>

lemma path_end_walk:
  assumes "mem_eq m p (nodes_bytes (ns @ [e]))" "\<forall>n \<in> set ns. fits n \<and> \<not> end_path n" "fits e" "end_path e"
  shows "path_end m p = Some (p + int (length (nodes_bytes ns)))"
  using assms
proof (induction ns arbitrary: p)
  case Nil
  then have "IsDevicePathEnd m p" using read_node(4) [of m p e] by simp
  then show ?case by (subst path_end.simps) simp
next
  case (Cons n ns)
  have n: "mem_eq m p (node_bytes n)" "fits n" "\<not> end_path n" "mem_eq m (p + int (node_size n)) (nodes_bytes (ns @ [e]))"
    using Cons.prems by (auto simp: mem_eq_append)
  have "path_end m (p + int (node_size n)) = Some (p + int (node_size n) + int (length (nodes_bytes ns)))"
    by (rule Cons.IH [OF n(4)]) (use Cons.prems in auto)
  then show ?case using read_node [OF n(1,2)] n(3) by (subst path_end.simps) (simp add: add.assoc)
qed

lemma instance_walk:
  assumes "mem_eq m p (nodes_bytes (i @ [t]))" "\<forall>n \<in> set i. fits n \<and> \<not> end_type n" "fits t" "end_type t" "length i \<le> k"
  shows "instance_loop m p k = (p + int (length (nodes_bytes i)), p + int (length (nodes_bytes i)) + int (node_size t))"
  using assms
proof (induction i arbitrary: p k)
  case Nil
  then show ?case using read_node [of m p t] by (cases k) (simp_all add: Let_def)
next
  case (Cons n i)
  then obtain k' where k: "k = Suc k'" by (cases k) auto
  have n: "mem_eq m p (node_bytes n)" "fits n" "\<not> end_type n" "mem_eq m (p + int (node_size n)) (nodes_bytes (i @ [t]))"
    using Cons.prems by (auto simp: mem_eq_append)
  have "length i \<le> k'" using Cons.prems k by simp
  with Cons.IH [OF n(4)] have "instance_loop m (p + int (node_size n)) k' =
      (p + int (node_size n) + int (length (nodes_bytes i)), p + int (node_size n) + int (length (nodes_bytes i)) + int (node_size t))"
    using Cons.prems by auto
  then show ?case using read_node [OF n(1,2)] n(3) k by (simp add: Let_def add.assoc)
qed

section \<open>Paths\<close>

text \<open>
  The instances of a path, each with its end; the bound on their length is that of the loop of
  \<open>DevicePathInstance\<close>.
\<close>

fun path_nodes :: "dnode list list \<Rightarrow> dnode list" where
  "path_nodes [] = []"
| "path_nodes [i] = i"
| "path_nodes (i # is) = i @ end_instance # path_nodes is"

definition path_bytes :: "dnode list list \<Rightarrow> byte list" where
  "path_bytes P = nodes_bytes (path_nodes P @ [end_node])"

definition good_path :: "dnode list list \<Rightarrow> bool" where
  "good_path P \<longleftrightarrow> P \<noteq> [] \<and> (\<forall>i \<in> set P. length i \<le> 513 \<and> (\<forall>n \<in> set i. fits n \<and> \<not> end_type n))"

lemma path_nodes_Cons: "P \<noteq> [] \<Longrightarrow> path_nodes (i # P) = i @ end_instance # path_nodes P"
  by (cases P) auto

lemma path_bytes_simps:
  "path_bytes [i] = nodes_bytes i @ EndDevicePath"
  "P \<noteq> [] \<Longrightarrow> path_bytes (i # P) = nodes_bytes i @ EndInstanceDevicePath @ path_bytes P"
  by (simp_all add: path_bytes_def path_nodes_Cons end_bytes)

lemma length_ends [simp]: "length EndDevicePath = 4" "length EndInstanceDevicePath = 4"
  by (simp_all add: EndDevicePath_def EndInstanceDevicePath_def)

lemma good_nodes: "good_path P \<Longrightarrow> n \<in> set (path_nodes P) \<Longrightarrow> fits n \<and> \<not> end_path n"
proof (induction P rule: path_nodes.induct)
  case (3 i j js)
  then show ?case by (cases "n \<in> set i \<or> n = end_instance") (auto simp: good_path_def end_path_def)
qed (auto simp: good_path_def end_path_def)

lemma path_end_of:
  assumes "mem_eq m p (path_bytes P)" "good_path P"
  shows "path_end m p = Some (p + int (length (nodes_bytes (path_nodes P))))"
  using path_end_walk [of m p "path_nodes P" end_node] assms good_nodes by (auto simp: path_bytes_def)

lemma path_size:
  assumes "mem_eq m p (path_bytes P)" "good_path P"
  shows "DevicePathSize m p = Some (int (length (path_bytes P)))"
  by (simp add: DevicePathSize_def path_end_of [OF assms] path_bytes_def)

text \<open>Taking the first instance off.\<close>

lemma take_instance:
  assumes "mem_eq m p (path_bytes (i # P))" "good_path (i # P)" "0 < p"
  shows "DevicePathInstance m p = Some (p, if P = [] then 0 else p + int (length (nodes_bytes i)) + 4, int (length (nodes_bytes i)))"
    and "P \<noteq> [] \<Longrightarrow> mem_eq m (p + int (length (nodes_bytes i)) + 4) (path_bytes P)" and "mem_eq m p (nodes_bytes i)"
proof -
  define t :: dnode where "t = (if P = [] then end_node else end_instance)"
  have t: "mem_eq m p (nodes_bytes (i @ [t]))" "fits t" "end_type t" "node_size t = 4"
    using assms(1) by (auto simp: t_def path_bytes_simps end_bytes mem_eq_append)
  have "instance_loop m p 513 = (p + int (length (nodes_bytes i)), p + int (length (nodes_bytes i)) + int (node_size t))"
    by (rule instance_walk [OF t(1)]) (use assms(2) t in \<open>auto simp: good_path_def\<close>)
  moreover have "DevicePathSubType m (p + int (length (nodes_bytes i))) = (if P = [] then 255 else 1)"
    using read_node(5) [of m "p + int (length (nodes_bytes i))" t] t(1,2) by (simp add: mem_eq_append t_def)
  ultimately show "DevicePathInstance m p = Some (p, if P = [] then 0 else p + int (length (nodes_bytes i)) + 4, int (length (nodes_bytes i)))"
    using assms(3) t(4) by (simp add: DevicePathInstance_def)
  show "P \<noteq> [] \<Longrightarrow> mem_eq m (p + int (length (nodes_bytes i)) + 4) (path_bytes P)" "mem_eq m p (nodes_bytes i)"
    using assms(1) by (cases P; simp add: path_bytes_simps mem_eq_append add.assoc)+
qed

lemma good_tl: "good_path (i # P) \<Longrightarrow> P \<noteq> [] \<Longrightarrow> good_path P"
  by (simp add: good_path_def)

lemma no_instance [simp]: "DevicePathInstance m 0 = None"
  by (simp add: DevicePathInstance_def)

lemma count_instances:
  assumes "mem_eq m p (path_bytes P)" "good_path P" "0 < p"
  shows "instance_count m p k = Some (k + length P)"
  using assms
proof (induction P arbitrary: p k)
  case (Cons i P)
  show ?case
  proof (cases "P = []")
    case True
    have "instance_count m 0 (Suc k) = Some (Suc k)" by (subst instance_count.simps) simp
    then show ?thesis using take_instance(1) [OF Cons.prems] True by (subst instance_count.simps) simp
  next
    case False
    have "instance_count m (p + int (length (nodes_bytes i)) + 4) (Suc k) = Some (Suc k + length P)"
      by (rule Cons.IH [OF take_instance(2) [OF Cons.prems False] good_tl [OF Cons.prems(2) False]]) (use Cons.prems(3) in simp)
    then show ?thesis using take_instance(1) [OF Cons.prems] False by (subst instance_count.simps) simp
  qed
qed (simp add: good_path_def)

text \<open>A match is an instance that the other path begins with.\<close>

lemma match_instances:
  assumes "mem_eq m p (path_bytes P)" "good_path P" "0 < p"
  shows "match_loop m p q = Some (\<exists>i \<in> set P. mem_eq m q (nodes_bytes i))"
  using assms
proof (induction P arbitrary: p)
  case (Cons i P)
  note T = take_instance [OF Cons.prems]
  have "RtCompareMem m q p (length (nodes_bytes i)) = 0 \<longleftrightarrow> mem_eq m q (nodes_bytes i)"
    using T(3) by (auto simp: RtCompareMem_eq mem_eq_def)
  moreover have "match_loop m (if P = [] then 0 else p + int (length (nodes_bytes i)) + 4) q = Some (\<exists>i \<in> set P. mem_eq m q (nodes_bytes i))"
  proof (cases "P = []")
    case True
    then show ?thesis by (subst match_loop.simps) simp
  next
    case False
    then show ?thesis using Cons.IH [OF T(2) good_tl] Cons.prems by simp
  qed
  ultimately show ?case using T(1) by (subst match_loop.simps) auto
qed (simp add: good_path_def)


section \<open>Copies\<close>

lemma duplicate_path:
  assumes "mem_eq (memory s) p (path_bytes P)" "good_path P" "p \<noteq> 0"
    and "AllocatePool_lib fw ty (int (length (path_bytes P))) s = (d, s1)" "mem_eq (memory s1) p (path_bytes P)"
  shows "DuplicateDevicePath fw ty p s =
    Some (d, if d = 0 then s1 else s1\<lparr>memory := put_bytes (memory s1) d (path_bytes P)\<rparr>)"
  using assms copy_known [OF assms(5) _ assms(3), of d "length (path_bytes P)"]
  by (simp add: DuplicateDevicePath_def path_size [OF assms(1,2)])

lemma put_bytes_4:
  "put_bytes m d (a # b # c # e # xs) = (put_bytes m (d + 4) xs)(d := a, d + 1 := b, d + 2 := c, d + 3 := e)"
proof -
  have "d + 1 + 1 + 1 + 1 = d + 4" "d + 1 + 1 = d + 2" "d + 2 + 1 = d + 3" by simp_all
  then show ?thesis by (simp only: put_bytes_Cons) (auto simp: put_bytes_def)
qed

lemma put_bytes_update:
  "(put_bytes m p (xs @ x # ys))(p + int (length xs) := y) = put_bytes m p (xs @ y # ys)"
  by (auto simp: put_bytes_def fun_eq_iff nth_append nth_Cons' nat_diff_distrib)

lemma set_end_node: "SetDevicePathEndNode m a = put_bytes m a EndDevicePath"
  by (simp add: SetDevicePathEndNode_def EndDevicePath_def put_bytes_4)

text \<open>Only the first node of the instance is in the copy that \<open>LibDuplicateDevicePathInstance\<close> makes.\<close>

lemma duplicate_instance:
  assumes "mem_eq (memory s) p (path_bytes ((n # ns) # P))" "good_path ((n # ns) # P)" "0 < p"
    and "AllocatePool_lib fw ty (int (length (nodes_bytes (n # ns))) + 4) s = (d, s1)" "d \<noteq> 0"
    and "mem_eq (memory s1) p (nodes_bytes (n # ns))"
  shows "\<exists>s'. LibDuplicateDevicePathInstance fw ty p s = (d, s') \<and> mem_eq (memory s') d (path_bytes [[n]])"
proof -
  note T = take_instance [OF assms(1-3)]
  let ?m = "put_bytes (memory s1) d (nodes_bytes (n # ns))"
  have n: "mem_eq ?m d (node_bytes n)" using mem_eq_put [of "memory s1" d "nodes_bytes (n # ns)"] by (simp add: mem_eq_append)
  have "fits n" using assms(2) by (simp add: good_path_def)
  with read_node(2) [OF n] have nx: "NextDevicePathNode ?m d = d + int (node_size n)" by simp
  define L where "L = length (nodes_bytes (n # ns))"
  have L: "0 < L" "RtCopyMem (memory s1) d p L = ?m"
    using copy_known [OF assms(6,5), of L] assms(3) by (simp_all add: L_def)
  have T1: "DevicePathInstance (memory s) p = Some (p, if P = [] then 0 else p + int L + 4, int L)"
    using T(1) by (simp only: L_def)
  have "LibDuplicateDevicePathInstance fw ty p s = (d, s1\<lparr>memory := put_bytes ?m (d + int (node_size n)) EndDevicePath\<rparr>)"
    using assms(4,5) L nx by (simp only: LibDuplicateDevicePathInstance_def set_end_node T1 L_def [symmetric]) (simp add: Let_def)
  moreover have "mem_eq (put_bytes ?m (d + int (node_size n)) EndDevicePath) d (path_bytes [[n]])"
    using n by (auto simp: path_bytes_simps mem_eq_append intro: mem_eq_put_away)
  ultimately show ?thesis by auto
qed

section \<open>Joining paths\<close>

lemma path_bytes_append:
  assumes "P \<noteq> []" "Q \<noteq> []"
  shows "path_bytes (P @ Q) = nodes_bytes (path_nodes P) @ EndInstanceDevicePath @ path_bytes Q"
  using assms by (induction P rule: path_nodes.induct) (auto simp: path_bytes_simps end_bytes)

lemma path_bytes_end: "path_bytes P = nodes_bytes (path_nodes P) @ EndDevicePath"
  by (simp add: path_bytes_def end_bytes)

text \<open>The instances of the second path behind those of the first.\<close>

lemma append_instances:
  assumes "mem_eq (memory s) p (path_bytes P)" "good_path P" "p \<noteq> 0"
    and "mem_eq (memory s) q (path_bytes Q)" "good_path Q" "q \<noteq> 0"
    and "int (length (path_bytes (P @ Q))) < 18446744073709551616"
    and "AllocatePool_lib fw ty (int (length (path_bytes (P @ Q)))) s = (d, s1)" "d \<noteq> 0"
    and "mem_eq (memory s1) p (path_bytes P)" "mem_eq (memory s1) q (path_bytes Q)"
    and "q + int (length (path_bytes Q)) \<le> d \<or> d + int (length (path_bytes P)) \<le> q" "0 < d"
  shows "AppendDevicePathInstance fw ty p q s = Some (d, s1\<lparr>memory := put_bytes (memory s1) d (path_bytes (P @ Q))\<rparr>)"
proof -
  have ne: "P \<noteq> []" "Q \<noteq> []" using assms(2,5) by (auto simp: good_path_def)
  let ?N = "nodes_bytes (path_nodes P)"
  have len: "length (path_bytes (P @ Q)) = length (path_bytes P) + length (path_bytes Q)"
    by (simp add: path_bytes_append [OF ne] path_bytes_end [of P])
  let ?m = "put_bytes (memory s1) d (path_bytes P)"
  have copy1: "RtCopyMem (memory s1) d p (length (path_bytes P)) = ?m"
    by (rule copy_known) (use assms in auto)
  have e: "path_end ?m d = Some (d + int (length ?N))" by (rule path_end_of) (use assms(2) in simp_all)
  let ?m2 = "put_bytes (memory s1) d (?N @ EndInstanceDevicePath)"
  have upd: "?m(d + int (length ?N) + 1 := 1) = ?m2"
    using put_bytes_update [of "memory s1" d "?N @ [0x7f]" "0xff" "[4, 0]" 1]
    by (simp add: path_bytes_end EndDevicePath_def EndInstanceDevicePath_def algebra_simps)
  have "mem_eq ?m2 (d + int (length ?N)) (node_bytes end_instance)"
    using mem_eq_put [of "memory s1" d "?N @ EndInstanceDevicePath"] by (simp add: mem_eq_append end_bytes)
  from read_node(2) [OF this] have nx: "NextDevicePathNode ?m2 (d + int (length ?N)) = d + (int (length ?N) + 4)"
    by (simp add: node_size_def)
  have q2: "mem_eq ?m2 q (path_bytes Q)"
    by (rule mem_eq_put_away) (use assms(11,12) in \<open>auto simp: path_bytes_end [of P]\<close>)
  have copy2: "RtCopyMem ?m2 (d + (int (length ?N) + 4)) q (length (path_bytes Q))
      = put_bytes (memory s1) d (path_bytes (P @ Q))"
    using copy_known [OF q2 _ assms(6), of "d + (int (length ?N) + 4)"] assms(13)
      put_bytes_append [of "memory s1" d "?N @ EndInstanceDevicePath" "path_bytes Q"]
    by (simp add: path_bytes_append [OF ne])
  have "u64 (int (length (path_bytes P)) + int (length (path_bytes Q))) = int (length (path_bytes (P @ Q)))"
    using assms(7) by (simp add: len u64_def)
  then show ?thesis
    using assms(3,8,9)
    by (simp add: AppendDevicePathInstance_def path_size [OF assms(1,2)] path_size [OF assms(4,5)] copy1 e upd nx copy2)
qed

text \<open>What \<open>AppendDevicePath\<close> writes: the whole second path, with its end, behind every instance of the first.\<close>

definition appended :: "dnode list list \<Rightarrow> byte list \<Rightarrow> byte list" where
  "appended P xs = concat (map (\<lambda>i. nodes_bytes i @ xs @ EndInstanceDevicePath) P)"

lemma append_walk:
  assumes "mem_eq m p (path_bytes P)" "good_path P" "0 < p" "mem_eq m q xs" "q \<noteq> 0" "0 < d"
    and "p + int (length (path_bytes P)) \<le> d \<or> d + int (length (appended P xs)) \<le> p"
    and "q + int (length xs) \<le> d \<or> d + int (length (appended P xs)) \<le> q"
  shows "append_loop m p q (int (length xs)) d = Some (d + int (length (appended P xs)), put_bytes m d (appended P xs))"
  using assms
proof (induction P arbitrary: m p d)
  case (Cons i P)
  note T = take_instance [OF Cons.prems(1-3)]
  let ?i = "nodes_bytes i"
  let ?w = "?i @ xs @ EndInstanceDevicePath"
  have w: "appended (i # P) xs = ?w @ appended P xs" by (simp add: appended_def)
  have copy1: "RtCopyMem m d p (length ?i) = put_bytes m d ?i"
    by (rule copy_known [OF T(3)]) (use Cons.prems in auto)
  have "mem_eq (put_bytes m d ?i) q xs"
    by (rule mem_eq_put_away) (use Cons.prems w in auto)
  then have copy2: "RtCopyMem (put_bytes m d ?i) (d + int (length ?i)) q (length xs) = put_bytes m d (?i @ xs)"
    using copy_known [of "put_bytes m d ?i" q xs "d + int (length ?i)"] Cons.prems(5,6) by (simp add: put_bytes_append)
  have end3: "put_bytes (put_bytes m d (?i @ xs)) (d + (int (length ?i) + int (length xs))) EndInstanceDevicePath = put_bytes m d ?w"
    using put_bytes_append [of m d "?i @ xs" EndInstanceDevicePath] by simp
  have step: "append_loop m p q (int (length xs)) d =
      append_loop (put_bytes m d ?w) (if P = [] then 0 else p + int (length ?i) + 4) q (int (length xs)) (d + int (length ?w))"
    by (subst append_loop.simps) (simp add: T(1) copy1 copy2 end3 Let_def add.assoc del: put_bytes_Nil)
  show ?case
  proof (cases "P = []")
    case True
    have "append_loop (put_bytes m d ?w) 0 q (int (length xs)) (d + int (length ?w)) = Some (d + int (length ?w), put_bytes m d ?w)"
      by (subst append_loop.simps) simp
    then show ?thesis using step True w by (simp add: appended_def)
  next
    case False
    have lenP: "length (path_bytes (i # P)) = length ?i + 4 + length (path_bytes P)" using path_bytes_simps(2) [OF False, of i] by simp
    have "append_loop (put_bytes m d ?w) (p + int (length ?i) + 4) q (int (length xs)) (d + int (length ?w))
        = Some (d + int (length ?w) + int (length (appended P xs)), put_bytes (put_bytes m d ?w) (d + int (length ?w)) (appended P xs))"
    proof (rule Cons.IH)
      show "mem_eq (put_bytes m d ?w) (p + int (length ?i) + 4) (path_bytes P)"
        by (rule mem_eq_put_away [OF T(2) [OF False]]) (use Cons.prems(7) lenP w in auto)
      show "mem_eq (put_bytes m d ?w) q xs" by (rule mem_eq_put_away) (use Cons.prems w in auto)
    qed (use Cons.prems lenP w False in \<open>auto simp: good_path_def\<close>)
    then show ?thesis using step False put_bytes_append [of m d ?w "appended P xs"] by (simp add: w add.assoc)
  qed
qed (simp add: good_path_def)

lemma put_bytes_over: "length xs = length ys \<Longrightarrow> put_bytes (put_bytes m p xs) p ys = put_bytes m p ys"
  by (auto simp: put_bytes_def fun_eq_iff)

text \<open>The end of the result.\<close>

definition joined :: "dnode list list \<Rightarrow> byte list \<Rightarrow> byte list" where
  "joined P xs = appended (butlast P) xs @ nodes_bytes (last P) @ xs @ EndDevicePath"

lemma joined_appended:
  assumes "P \<noteq> []"
  shows "put_bytes (put_bytes m d (appended P xs)) (d + int (length (appended P xs)) - 4) EndDevicePath = put_bytes m d (joined P xs)"
    and "length (joined P xs) = length (appended P xs)"
proof -
  define V where "V = appended (butlast P) xs @ nodes_bytes (last P) @ xs"
  have A: "appended P xs = V @ EndInstanceDevicePath" and J: "joined P xs = V @ EndDevicePath"
    using append_butlast_last_id [OF assms] by (simp_all add: V_def joined_def) (metis (no_types) append_assoc appended_def
        concat.simps(1,2) concat_append list.simps(8,9) map_append append_Nil2)
  then show "length (joined P xs) = length (appended P xs)" by simp
  have "put_bytes (put_bytes m d (V @ EndInstanceDevicePath)) (d + int (length V)) EndDevicePath = put_bytes m d (V @ EndDevicePath)"
    by (simp add: put_bytes_append [symmetric] put_bytes_over)
  then show "put_bytes (put_bytes m d (appended P xs)) (d + int (length (appended P xs)) - 4) EndDevicePath = put_bytes m d (joined P xs)"
    by (simp add: A J algebra_simps)
qed

lemma length_appended: "length (appended P xs) = (\<Sum>i\<leftarrow>P. length (nodes_bytes i)) + length P * (length xs + 4)"
  by (induction P) (simp_all add: appended_def)

lemma length_path: "P \<noteq> [] \<Longrightarrow> length (path_bytes P) = (\<Sum>i\<leftarrow>P. length (nodes_bytes i)) + length P * 4"
  by (induction P rule: path_nodes.induct) (simp_all add: path_bytes_simps)

text \<open>How many bytes are written, against the number asked for.\<close>

lemma length_joined:
  "P \<noteq> [] \<Longrightarrow> length (joined P xs) = length (path_bytes P) + length P * length xs"
  using joined_appended(2) length_appended length_path by (simp add: algebra_simps)

text \<open>Behind the first instance the result goes on with the second path and its end.\<close>

lemma joined_begins:
  assumes "P \<noteq> []" "Q \<noteq> []"
  shows "\<exists>rest. joined P (path_bytes Q) = path_bytes ((hd P @ hd Q) # tl Q) @ rest"
proof -
  obtain j R where Q: "Q = j # R" using assms(2) by (cases Q) auto
  have "path_bytes ((i @ j) # R) = nodes_bytes i @ path_bytes (j # R)" for i
    by (cases R) (simp_all add: path_bytes_simps)
  then show ?thesis using assms(1) Q
    by (cases P rule: path_nodes.cases) (auto simp: joined_def appended_def)
qed

lemma append_path:
  assumes "mem_eq (memory s) p (path_bytes P)" "good_path P" "0 < p"
    and "mem_eq (memory s) q (path_bytes Q)" "good_path Q" "q \<noteq> 0"
    and "AllocatePool_lib fw ty (u64 (int (length (path_bytes P) * length P + length (path_bytes Q)))) s = (d, s1)" "0 < d"
    and "mem_eq (memory s1) p (path_bytes P)" "mem_eq (memory s1) q (path_bytes Q)"
    and "p + int (length (path_bytes P)) \<le> d \<or> d + int (length (joined P (path_bytes Q))) \<le> p"
    and "q + int (length (path_bytes Q)) \<le> d \<or> d + int (length (joined P (path_bytes Q))) \<le> q"
  shows "AppendDevicePath fw ty p q s = Some (d, s1\<lparr>memory := put_bytes (memory s1) d (joined P (path_bytes Q))\<rparr>)"
proof -
  have ne: "P \<noteq> []" using assms(2) by (simp add: good_path_def)
  have "append_loop (memory s1) p q (int (length (path_bytes Q))) d =
      Some (d + int (length (appended P (path_bytes Q))), put_bytes (memory s1) d (appended P (path_bytes Q)))"
    by (rule append_walk) (use assms joined_appended(2) [OF ne] in auto)
  then show ?thesis
    using assms(3,6,7,8) joined_appended(1) [OF ne]
    by (simp add: AppendDevicePath_def path_size [OF assms(1,2)] path_size [OF assms(4,5)]
        DevicePathInstanceCount_def count_instances [OF assms(1,2,3)])
qed


text \<open>With one instance four bytes are left over; with more the buffer is too small for a longer second path.\<close>

lemma joined_one_rest:
  assumes "length P = 1" "Q \<noteq> []" "joined P (path_bytes Q) = path_bytes ((hd P @ hd Q) # tl Q) @ rest"
  shows "length rest = 4"
proof -
  obtain i where P: "P = [i]" using assms(1) by (cases P) auto
  obtain j R where Q: "Q = j # R" using assms(2) by (cases Q) auto
  have "length (path_bytes ((i @ j) # R)) = length (nodes_bytes i) + length (path_bytes (j # R))"
    by (simp add: length_path)
  then show ?thesis using arg_cong [OF assms(3), of length] P Q by (simp add: joined_def appended_def)
qed

lemma joined_too_long:
  assumes "P \<noteq> []"
  shows "length (path_bytes P) * length P + length xs < length (joined P xs)
    \<longleftrightarrow> 2 \<le> length P \<and> length (path_bytes P) < length xs"
proof -
  obtain k where k: "length P = Suc k" using assms by (cases P) auto
  have "length (path_bytes P) * length P + length xs < length (joined P xs) \<longleftrightarrow> k * length (path_bytes P) < k * length xs"
    by (simp add: length_joined [OF assms] k algebra_simps)
  then show ?thesis using k by auto
qed

section \<open>Unpacking\<close>

text \<open>A node whose length is rounded up to 8, with zeroes behind its data and its type marked.\<close>

definition padding :: "dnode \<Rightarrow> nat" where "padding n = nat (ALIGN_SIZE (int (node_size n)))"

definition unpacked :: "dnode \<Rightarrow> dnode" where
  "unpacked n = (fst n OR 0x80, fst (snd n), snd (snd n) @ replicate (padding n) 0)"

lemma padding_eq: "int (padding n) = ALIGN_SIZE (int (node_size n))"
  by (simp add: padding_def ALIGN_SIZE_def)

lemma unpacked_size: "node_size (unpacked n) = node_size n + padding n"
  by (simp add: node_size_def unpacked_def)

lemma unpacked_aligned: "node_size (unpacked n) mod 8 = 0 \<and> node_size (unpacked n) < node_size n + 8"
proof -
  have "int (node_size (unpacked n)) mod 8 = 0 \<and> int (node_size (unpacked n)) < int (node_size n) + 8"
    unfolding unpacked_size of_nat_add padding_eq ALIGN_SIZE_def by (auto; presburger)
  then show ?thesis by presburger
qed

lemma align_step: "S mod 8 = 0 \<Longrightarrow> S + x + ALIGN_SIZE (S + x) = S + (x + ALIGN_SIZE x) \<and> (S + (x + ALIGN_SIZE x)) mod 8 = 0"
  by (auto simp: ALIGN_SIZE_def) presburger+

lemma unpacked_walk:
  assumes "mem_eq m p (nodes_bytes (ns @ [e]))" "\<forall>n \<in> set ns. fits n \<and> \<not> end_path n" "fits e" "end_path e" "S mod 8 = 0"
  shows "unpack_size m p S = Some (S + int (length (nodes_bytes (map unpacked (ns @ [e])))))"
  using assms
proof (induction ns arbitrary: p S)
  case Nil
  then show ?case using read_node [of m p e] align_step [of S "int (node_size e)"]
    by (subst unpack_size.simps) (simp add: Let_def unpacked_size padding_eq)
next
  case (Cons n ns)
  have n: "mem_eq m p (node_bytes n)" "fits n" "\<not> end_path n" "mem_eq m (p + int (node_size n)) (nodes_bytes (ns @ [e]))"
    using Cons.prems by (auto simp: mem_eq_append)
  note A = align_step [OF Cons.prems(5), of "int (node_size n)"]
  have "unpack_size m (p + int (node_size n)) (S + (int (node_size n) + ALIGN_SIZE (int (node_size n)))) =
      Some (S + (int (node_size n) + ALIGN_SIZE (int (node_size n))) + int (length (nodes_bytes (map unpacked (ns @ [e])))))"
    by (rule Cons.IH [OF n(4)]) (use Cons.prems A in auto)
  then show ?case using read_node [OF n(1,2)] n(3) A
    by (subst unpack_size.simps) (simp add: Let_def unpacked_size padding_eq add.assoc)
qed

text \<open>One node is written; its padding is zero already.\<close>

lemma put_zeroes:
  "(\<And>a. p + int (length xs) \<le> a \<Longrightarrow> a < p + int (length xs) + int k \<Longrightarrow> m a = 0) \<Longrightarrow>
   put_bytes m p (xs @ replicate k 0) = put_bytes m p xs"
  by (auto simp: put_bytes_def fun_eq_iff nth_append nat_less_iff)

lemma unpack_node:
  assumes "fits n" "\<And>a. d + int (node_size n) \<le> a \<Longrightarrow> a < d + int (node_size (unpacked n)) \<Longrightarrow> m a = 0"
  defines "m1 \<equiv> SetDevicePathNodeLength (put_bytes m d (node_bytes n)) d (int (node_size (unpacked n)))"
  shows "m1(d := m1 d OR 0x80) = put_bytes m d (node_bytes (unpacked n))"
proof -
  have "put_bytes m (d + 4) (snd (snd n) @ replicate (padding n) 0) = put_bytes m (d + 4) (snd (snd n))"
    by (rule put_zeroes) (use assms(2) in \<open>auto simp: unpacked_size, simp add: node_size_def\<close>)
  then show ?thesis
    by (auto simp: m1_def SetDevicePathNodeLength_def node_bytes_def put_bytes_4 unpacked_def node_size_def fun_eq_iff)
qed

lemma unpack_walk:
  assumes "mem_eq m p (nodes_bytes (ns @ [e]))" "\<forall>n \<in> set ns. fits n \<and> \<not> end_path n" "fits e" "end_path e" "0 < p" "0 < d"
    and "p + int (length (nodes_bytes (ns @ [e]))) \<le> d \<or> d + int (length (nodes_bytes (map unpacked (ns @ [e])))) \<le> p"
    and "\<And>a. d \<le> a \<Longrightarrow> a < d + int (length (nodes_bytes (map unpacked (ns @ [e])))) \<Longrightarrow> m a = 0"
  shows "unpack_loop m p d = Some (put_bytes m d (nodes_bytes (map unpacked (ns @ [e]))))"
  using assms
proof (induction ns arbitrary: m p d)
  case Nil
  let ?m = "put_bytes m d (node_bytes e)"
  have e: "mem_eq m p (node_bytes e)" "fits e" using Nil by simp_all
  have copy: "RtCopyMem m d p (node_size e) = ?m" by (rule copy_known [OF e(1)]) (use Nil in auto)
  have u: "put_bytes m d (node_bytes (unpacked e)) = (SetDevicePathNodeLength ?m d (int (node_size (unpacked e))))
      (d := SetDevicePathNodeLength ?m d (int (node_size (unpacked e))) d OR 0x80)"
    using unpack_node [OF e(2), of d m] Nil by (simp add: unpacked_size)
  have "mem_eq (put_bytes m d (node_bytes (unpacked e))) p (node_bytes e)"
    by (rule mem_eq_put_away [OF e(1)]) (use Nil in auto)
  from read_node(4) [OF this e(2)] Nil
  have "IsDevicePathEnd (put_bytes m d (node_bytes (unpacked e))) p" by simp
  then show ?case using read_node(1) [OF e] copy
    by (subst unpack_loop.simps) (simp add: Let_def padding_eq [symmetric] unpacked_size [symmetric] u del: of_nat_add
        flip: of_nat_add)
next
  case (Cons n ns)
  let ?m = "put_bytes m d (node_bytes n)"
  let ?u = "put_bytes m d (node_bytes (unpacked n))"
  let ?rest = "nodes_bytes (map unpacked (ns @ [e]))"
  have n: "mem_eq m p (node_bytes n)" "fits n" "\<not> end_path n" "mem_eq m (p + int (node_size n)) (nodes_bytes (ns @ [e]))"
    using Cons.prems by (auto simp: mem_eq_append)
  have copy: "RtCopyMem m d p (node_size n) = ?m" by (rule copy_known [OF n(1)]) (use Cons.prems in auto)
  have u: "?u = (SetDevicePathNodeLength ?m d (int (node_size (unpacked n))))
      (d := SetDevicePathNodeLength ?m d (int (node_size (unpacked n))) d OR 0x80)"
    using unpack_node [OF n(2), of d m] Cons.prems(8) by (simp add: unpacked_size)
  have away: "mem_eq ?u p (node_bytes n)" "mem_eq ?u (p + int (node_size n)) (nodes_bytes (ns @ [e]))"
    using mem_eq_put_away [OF n(1), of d "node_bytes (unpacked n)"] mem_eq_put_away [OF n(4), of d "node_bytes (unpacked n)"]
      Cons.prems(7) by auto
  have step: "unpack_loop m p d = unpack_loop ?u (p + int (node_size n)) (d + int (node_size (unpacked n)))"
    using read_node [OF n(1,2)] read_node [OF away(1) n(2)] n(3) copy
    by (subst unpack_loop.simps) (simp add: Let_def padding_eq [symmetric] unpacked_size [symmetric] u del: of_nat_add
        flip: of_nat_add)
  have "unpack_loop ?u (p + int (node_size n)) (d + int (node_size (unpacked n)))
      = Some (put_bytes ?u (d + int (node_size (unpacked n))) ?rest)"
  proof (rule Cons.IH [OF away(2)])
    fix a assume "d + int (node_size (unpacked n)) \<le> a" "a < d + int (node_size (unpacked n)) + int (length ?rest)"
    then show "?u a = 0" using Cons.prems(8) [of a] by (simp add: put_bytes_outside)
  qed (use Cons.prems in auto)
  then show ?case using step put_bytes_append [of m d "node_bytes (unpacked n)" ?rest] by simp
qed

text \<open>The buffer that is asked for is filled exactly.\<close>

lemma unpack_path:
  assumes "mem_eq (memory s) p (path_bytes P)" "good_path P" "0 < p"
    and "AllocatePool_lib fw ty (int (length (nodes_bytes (map unpacked (path_nodes P @ [end_node]))))) s = (d, s1)" "0 < d"
    and "mem_eq (memory s1) p (path_bytes P)"
    and "p + int (length (path_bytes P)) \<le> d \<or> d + int (length (nodes_bytes (map unpacked (path_nodes P @ [end_node])))) \<le> p"
  shows "UnpackDevicePath fw ty p s =
    Some (d, s1\<lparr>memory := put_bytes (memory s1) d (nodes_bytes (map unpacked (path_nodes P @ [end_node])))\<rparr>)"
proof -
  define U where "U = nodes_bytes (map unpacked (path_nodes P @ [end_node]))"
  let ?z = "RtZeroMem (memory s1) d (length U)"
  have z: "?z = memset (memory s1) d 0 (length U)" by (rule RtZeroMem_memset)
  have p: "mem_eq ?z p (nodes_bytes (path_nodes P @ [end_node]))"
    unfolding path_bytes_def [symmetric]
    by (rule mem_eq_agree [OF assms(6)]) (use assms(7) [folded U_def] in \<open>auto simp: z memset_fill\<close>)
  have nodes: "\<forall>n \<in> set (path_nodes P). fits n \<and> \<not> end_path n" using good_nodes [OF assms(2)] by blast
  have "unpack_loop ?z p d = Some (put_bytes ?z d U)"
    by (rule unpack_walk [OF p nodes, folded U_def]) (use assms(3,5) assms(7) [unfolded path_bytes_def, folded U_def] in \<open>simp_all add: z memset_fill\<close>)
  moreover have "put_bytes ?z d U = put_bytes (memory s1) d U"
    by (auto simp: z memset_fill put_bytes_def fun_eq_iff)
  moreover have "unpack_size (memory s) p 0 = Some (int (length U))"
    using unpacked_walk [OF assms(1) [unfolded path_bytes_def] nodes, of 0] by (simp add: U_def)
  ultimately show ?thesis using assms(4,5)
    by (simp add: UnpackDevicePath_def AllocateZeroPool_def U_def [symmetric] del: map_append)
qed

end
