(* ===== verification/Protocols.thy ===== *)
theory Protocols
  imports Efi_Services_Spec
begin

text \<open>
  Protocol interfaces that are installed together, of \<open>src/lib/hand.c\<close>, and the locks of
  \<open>src/lib/runtime/rtlock.c\<close>, which \<open>src/lib/lock.c\<close> calls. The variadic arguments are a list; the \<open>NULL\<close> protocol that ends them is
  its end. Installing and reinstalling have the same loops, which are two functions here with the call to
  the firmware as an argument: one goes on until a call fails, the other undoes what has been done.
\<close>

section \<open>A sequence of calls and its undoing\<close>

text \<open>
  \<open>step Handle x\<close> is the call for the arguments \<open>x\<close>; \<open>next_handle\<close> is what it leaves in \<open>*Handle\<close>. The
  result: the last status, \<open>*Handle\<close>, and \<open>Index\<close>, the number of calls that have succeeded.
\<close>

primrec do_each ::
  "'w firmware \<Rightarrow> (int \<Rightarrow> 'i \<Rightarrow> efi_call) \<Rightarrow> (int \<Rightarrow> efi_reply \<Rightarrow> int) \<Rightarrow> 'i list \<Rightarrow> int \<Rightarrow> int \<Rightarrow> nat
   \<Rightarrow> ('w, 'z) efi_scheme \<Rightarrow> int \<times> int \<times> nat \<times> ('w, 'z) efi_scheme" where
  "do_each fw step next_handle [] Status Handle Index s = (Status, Handle, Index, s)"
| "do_each fw step next_handle (x # xs) Status Handle Index s =
     (if EFI_ERROR Status then (Status, Handle, Index, s)
      else (case efi_bs_call fw (step Handle x) s of
              (r, s) \<Rightarrow>
                if EFI_ERROR (status r) then (status r, next_handle Handle r, Index, s)
                else do_each fw step next_handle xs (status r) (next_handle Handle r) (Index + 1) s))"

primrec undo_each ::
  "'w firmware \<Rightarrow> (int \<Rightarrow> 'i \<Rightarrow> efi_call) \<Rightarrow> 'i list \<Rightarrow> int \<Rightarrow> nat \<Rightarrow> ('w, 'z) efi_scheme \<Rightarrow> ('w, 'z) efi_scheme" where
  "undo_each fw step xs Handle 0 s = s"
| "undo_each fw step xs Handle (Suc Index) s =
     undo_each fw step (tl xs) Handle Index (snd (efi_bs_call fw (step Handle (hd xs)) s))"

abbreviation (input) TPL_NOTIFY :: int where "TPL_NOTIFY \<equiv> 16"

section \<open>Installing, removing and replacing interfaces\<close>

definition LibInstallProtocolInterfaces ::
  "'w firmware \<Rightarrow> (guid \<times> addr) list \<Rightarrow> int \<Rightarrow> ('w, 'z) efi_scheme \<Rightarrow> int \<times> int \<times> ('w, 'z) efi_scheme" where
  "LibInstallProtocolInterfaces fw args Handle s =
     (case efi_bs_call fw (RaiseTPL TPL_NOTIFY) s of
        (tpl, s) \<Rightarrow>
          (let OldHandle = Handle
           in case do_each fw (\<lambda>Handle (Protocol, Interface). InstallProtocolInterface Handle Protocol Interface)
                     (\<lambda>Handle r. out r) args EFI_SUCCESS Handle 0 s of
                (Status, Handle, Index, s) \<Rightarrow>
                  (let (Handle, s) =
                         (if EFI_ERROR Status
                          then (OldHandle,
                                undo_each fw (\<lambda>Handle (Protocol, Interface). UninstallProtocolInterface Handle Protocol Interface)
                                  args Handle Index s)
                          else (Handle, s))
                   in (Status, Handle, snd (efi_bs_call fw (RestoreTPL (status tpl)) s)))))"

primrec LibUninstallProtocolInterfaces ::
  "'w firmware \<Rightarrow> (guid \<times> addr) list \<Rightarrow> int \<Rightarrow> ('w, 'z) efi_scheme \<Rightarrow> ('w, 'z) efi_scheme" where
  "LibUninstallProtocolInterfaces fw [] Handle s = s"
| "LibUninstallProtocolInterfaces fw (x # args) Handle s =
     LibUninstallProtocolInterfaces fw args Handle
       (snd (efi_bs_call fw (UninstallProtocolInterface Handle (fst x) (snd x)) s))"

text \<open>\<open>Handle\<close> is the pointer; the code passes it to the firmware where the service takes the handle itself.\<close>

definition LibReinstallProtocolInterfaces ::
  "'w firmware \<Rightarrow> (guid \<times> addr \<times> addr) list \<Rightarrow> addr \<Rightarrow> ('w, 'z) efi_scheme \<Rightarrow> int \<times> ('w, 'z) efi_scheme" where
  "LibReinstallProtocolInterfaces fw args Handle s =
     (case efi_bs_call fw (RaiseTPL TPL_NOTIFY) s of
        (tpl, s) \<Rightarrow>
          (case do_each fw (\<lambda>Handle (Protocol, Old, New). ReinstallProtocolInterface Handle Protocol Old New)
                  (\<lambda>Handle r. Handle) args EFI_SUCCESS Handle 0 s of
             (Status, Handle, Index, s) \<Rightarrow>
               (let s = (if EFI_ERROR Status
                         then undo_each fw (\<lambda>Handle (Protocol, Old, New). ReinstallProtocolInterface Handle Protocol New Old)
                                args Handle Index s
                         else s)
                in (Status, snd (efi_bs_call fw (RestoreTPL (status tpl)) s)))))"

section \<open>Locks\<close>

record flock =
  Tpl :: int
  OwnerTpl :: int
  Lock :: int

text \<open>
  The services for the task priority: of the boot services, when \<open>BS\<close> is not \<open>NULL\<close>, or of the library's
  runtime part. \<open>present\<close> says whether the pointer to the service is not \<open>NULL\<close>.
\<close>

definition InitializeLock :: "flock \<Rightarrow> int \<Rightarrow> flock" where
  "InitializeLock L Priority = L\<lparr>Tpl := Priority, OwnerTpl := 0, Lock := 0\<rparr>"

definition RtAcquireLock :: "'w firmware \<Rightarrow> bool \<Rightarrow> flock \<Rightarrow> ('w, 'z) efi_scheme \<Rightarrow> flock \<times> ('w, 'z) efi_scheme" where
  "RtAcquireLock fw present L s =
     (let (L, s) = (if present
                    then (case efi_bs_call fw (RaiseTPL (Tpl L)) s of (r, s) \<Rightarrow> (L\<lparr>OwnerTpl := status r\<rparr>, s))
                    else (L, s))
      in (L\<lparr>Lock := u64 (Lock L + 1)\<rparr>, s))"

definition RtReleaseLock :: "'w firmware \<Rightarrow> bool \<Rightarrow> flock \<Rightarrow> ('w, 'z) efi_scheme \<Rightarrow> flock \<times> ('w, 'z) efi_scheme" where
  "RtReleaseLock fw present L s =
     (let tpl = OwnerTpl L;
          L = L\<lparr>Lock := u64 (Lock L - 1)\<rparr>
      in (L, if present then snd (efi_bs_call fw (RestoreTPL tpl) s) else s))"

text \<open>The priorities asked for, and the one restored.\<close>

definition AcquireLock :: "'w firmware \<Rightarrow> bool \<Rightarrow> flock \<Rightarrow> ('w, 'z) efi_scheme \<Rightarrow> flock \<times> ('w, 'z) efi_scheme" where
  "AcquireLock = RtAcquireLock"
definition ReleaseLock :: "'w firmware \<Rightarrow> bool \<Rightarrow> flock \<Rightarrow> ('w, 'z) efi_scheme \<Rightarrow> flock \<times> ('w, 'z) efi_scheme" where
  "ReleaseLock = RtReleaseLock"

section \<open>All or nothing\<close>

text \<open>
  The calls that install the interfaces of \<open>args\<close> one after the other, each on the handle that the call
  before has left, the first on \<open>H\<close>, up to the first that fails; and the handle that the last has left.
\<close>

fun installing :: "int \<Rightarrow> (guid \<times> addr) list \<Rightarrow> (efi_call \<times> efi_reply) list \<Rightarrow> bool" where
  "installing H args [] \<longleftrightarrow> True"
| "installing H [] (c # cs) \<longleftrightarrow> False"
| "installing H ((p, i) # args) ((c, r) # cs) \<longleftrightarrow>
     c = InstallProtocolInterface H p i \<and> (EFI_ERROR (status r) \<longrightarrow> cs = []) \<and> installing (out r) args cs"

definition handle_after :: "int \<Rightarrow> (efi_call \<times> efi_reply) list \<Rightarrow> int" where
  "handle_after H cs = (if cs = [] then H else out (snd (last cs)))"

lemma handle_after_Cons [simp]: "handle_after H [] = H" "handle_after H ((c, r) # cs) = handle_after (out r) cs"
  by (simp_all add: handle_after_def)

lemma install_loop_log:
  assumes "do_each fw (\<lambda>Handle (Protocol, Interface). InstallProtocolInterface Handle Protocol Interface)
      (\<lambda>Handle r. out r) args st H k s = (st', H', k', s')" "\<not> EFI_ERROR st"
  shows "\<exists>cs. calls s' = calls s @ cs \<and> installing H args cs \<and> H' = handle_after H cs \<and> k \<le> k' \<and> k' - k \<le> length args \<and>
    (if EFI_ERROR st' then length cs = Suc (k' - k) \<and> status (snd (last cs)) = st'
     else k' - k = length args \<and> length cs = length args \<and> list_all (\<lambda>x. \<not> EFI_ERROR (status (snd x))) cs)"
  using assms
proof (induction args arbitrary: st H k s)
  case (Cons x args)
  obtain p i where x: "x = (p, i)" by fastforce
  obtain r s1 where c: "efi_bs_call fw (InstallProtocolInterface H p i) s = (r, s1)" by fastforce
  note log = efi_bs_call_calls [OF c]
  show ?case
  proof (cases "EFI_ERROR (status r)")
    case True
    then have "st' = status r" "H' = out r" "k' = k" "s' = s1" using Cons.prems c x by auto
    then show ?thesis using log True x by (intro exI [of _ "[(InstallProtocolInterface H p i, r)]"]) simp
  next
    case False
    then have "do_each fw (\<lambda>Handle (Protocol, Interface). InstallProtocolInterface Handle Protocol Interface)
        (\<lambda>Handle r. out r) args (status r) (out r) (k + 1) s1 = (st', H', k', s')"
      using Cons.prems c x by simp
    from Cons.IH [OF this False] obtain cs where cs:
      "calls s' = calls s1 @ cs" "installing (out r) args cs" "H' = handle_after (out r) cs" "k + 1 \<le> k'"
      "k' - (k + 1) \<le> length args"
      "if EFI_ERROR st' then length cs = Suc (k' - (k + 1)) \<and> status (snd (last cs)) = st'
       else k' - (k + 1) = length args \<and> length cs = length args \<and> list_all (\<lambda>x. \<not> EFI_ERROR (status (snd x))) cs" by blast
    moreover have "k' - k = Suc (k' - (k + 1))" using cs(4) by simp
    ultimately show ?thesis using log False x
      by (intro exI [of _ "(InstallProtocolInterface H p i, r) # cs"]) (auto split: if_splits)
  qed
qed simp

lemma undo_each_calls:
  "k \<le> length args \<Longrightarrow> \<exists>cs. calls (undo_each fw step args H k s) = calls s @ cs \<and> map fst cs = map (step H) (take k args)"
proof (induction k arbitrary: args s)
  case (Suc k)
  then obtain x rest where x: "args = x # rest" by (cases args) auto
  obtain r s1 where c: "efi_bs_call fw (step H x) s = (r, s1)" by fastforce
  have "k \<le> length rest" using Suc.prems x by simp
  from Suc.IH [OF this, of s1] show ?case using efi_bs_call_calls [OF c] c x by auto
qed simp

text \<open>
  Between the two changes of the priority the interfaces are installed; when one of them fails, those
  before it are removed from the handle the calls have left, and \<open>*Handle\<close> is what it was.
\<close>

lemma install_all_or_nothing:
  assumes "LibInstallProtocolInterfaces fw args H s = (st, H', s')"
  shows "\<exists>r0 ins outs r1. calls s' = calls s @ (RaiseTPL 16, r0) # ins @ outs @ [(RestoreTPL (status r0), r1)]
    \<and> installing H args ins
    \<and> (if EFI_ERROR st then ins \<noteq> [] \<and> status (snd (last ins)) = st \<and> H' = H
         \<and> map fst outs = map (\<lambda>(p, i). UninstallProtocolInterface (handle_after H ins) p i) (take (length ins - 1) args)
       else length ins = length args \<and> list_all (\<lambda>x. \<not> EFI_ERROR (status (snd x))) ins \<and> outs = []
         \<and> H' = handle_after H ins)"
proof -
  let ?undo = "\<lambda>Handle (Protocol, Interface). UninstallProtocolInterface Handle Protocol Interface"
  obtain r0 s0 where 0: "efi_bs_call fw (RaiseTPL 16) s = (r0, s0)" by fastforce
  obtain st1 H1 k s1 where d: "do_each fw (\<lambda>Handle (Protocol, Interface). InstallProtocolInterface Handle Protocol Interface)
      (\<lambda>Handle r. out r) args 0 H 0 s0 = (st1, H1, k, s1)" by (metis prod_cases4)
  obtain ins where cs: "calls s1 = calls s0 @ ins" "installing H args ins" "H1 = handle_after H ins" "k \<le> length args"
    "if EFI_ERROR st1 then length ins = Suc k \<and> status (snd (last ins)) = st1
     else length ins = length args \<and> list_all (\<lambda>x. \<not> EFI_ERROR (status (snd x))) ins"
    using install_loop_log [OF d] by (auto split: if_splits)
  define s2 where "s2 = (if EFI_ERROR st1 then undo_each fw ?undo args H1 k s1 else s1)"
  obtain outs where ds: "calls s2 = calls s1 @ outs" "map fst outs = (if EFI_ERROR st1 then map (?undo H1) (take k args) else [])"
    using undo_each_calls [OF cs(4), of fw ?undo H1 s1] by (cases "EFI_ERROR st1") (auto simp: s2_def)
  obtain r1 s3 where 3: "efi_bs_call fw (RestoreTPL (status r0)) s2 = (r1, s3)" by fastforce
  have res: "st = st1 \<and> s' = s3 \<and> H' = (if EFI_ERROR st1 then H else H1)"
    using assms 3 by (cases "EFI_ERROR st1", simp_all add: LibInstallProtocolInterfaces_def 0 d s2_def)
  have "calls s' = calls s @ (RaiseTPL 16, r0) # ins @ outs @ [(RestoreTPL (status r0), r1)]"
    using efi_bs_call_calls [OF 0] efi_bs_call_calls [OF 3] cs(1) ds(1) res by simp
  then show ?thesis using cs(2,3,5) ds(2) res
    by (intro exI [of _ r0] exI [of _ ins] exI [of _ outs] exI [of _ r1]) (auto split: if_splits)
qed

text \<open>
  The interfaces that the calls have installed, each with its handle, and those they have asked to remove.
  With a firmware that makes a handle where none is given, keeps the one that is given, and leaves it alone
  when it fails, as the specification has it, an installation that fails asks to remove what it installed.
\<close>

fun put_in :: "(efi_call \<times> efi_reply) list \<Rightarrow> (int \<times> guid \<times> addr) multiset" where
  "put_in [] = {#}"
| "put_in ((InstallProtocolInterface _ p i, r) # cs) = (if EFI_ERROR (status r) then {#} else {#(out r, p, i)#}) + put_in cs"
| "put_in (_ # cs) = put_in cs"

fun taken_out :: "(efi_call \<times> efi_reply) list \<Rightarrow> (int \<times> guid \<times> addr) multiset" where
  "taken_out [] = {#}"
| "taken_out ((UninstallProtocolInterface h p i, _) # cs) = {#(h, p, i)#} + taken_out cs"
| "taken_out (_ # cs) = taken_out cs"

fun keeps_handle :: "efi_call \<times> efi_reply \<Rightarrow> bool" where
  "keeps_handle (InstallProtocolInterface h p i, r) \<longleftrightarrow>
     (if EFI_ERROR (status r) then out r = h else out r \<noteq> 0 \<and> (h \<noteq> 0 \<longrightarrow> out r = h))"
| "keeps_handle _ \<longleftrightarrow> True"

lemma put_in_append [simp]: "put_in (xs @ ys) = put_in xs + put_in ys"
  by (induction xs rule: put_in.induct) auto

lemma taken_out_append [simp]: "taken_out (xs @ ys) = taken_out xs + taken_out ys"
  by (induction xs rule: taken_out.induct) auto

lemma installing_no_removal: "installing H args ins \<Longrightarrow> taken_out ins = {#}"
  by (induction H args ins rule: installing.induct) auto

lemma installing_keeps:
  assumes "installing H args ins" "list_all keeps_handle ins" "H \<noteq> 0"
  shows "handle_after H ins = H"
    and "put_in ins = mset (map (Pair H) (take (length (filter (\<lambda>x. \<not> EFI_ERROR (status (snd x))) ins)) args))"
  using assms by (induction H args ins rule: installing.induct) (auto split: if_splits)

lemma installing_put_in:
  assumes "installing H args ins" "list_all keeps_handle ins" "ins \<noteq> []" "EFI_ERROR (status (snd (last ins)))"
  shows "put_in ins = mset (map (Pair (handle_after H ins)) (take (length ins - 1) args))"
proof -
  have n: "length (filter (\<lambda>x. \<not> EFI_ERROR (status (snd x))) ins) = length ins - 1"
    if "installing H args ins" "ins \<noteq> []" "EFI_ERROR (status (snd (last ins)))" for H args ins
    using that by (induction H args ins rule: installing.induct) (auto simp: Suc_diff_le split: if_splits)
  obtain c r cs where ins: "ins = (c, r) # cs" using assms(3) by (cases ins) auto
  then obtain p i rest where args: "args = (p, i) # rest" using assms(1) by (cases args) auto
  show ?thesis
  proof (cases "EFI_ERROR (status r)")
    case True
    then show ?thesis using assms(1) ins args by simp
  next
    case False
    have ne: "cs \<noteq> []" using assms(4) False ins by auto
    then have h: "out r \<noteq> 0" "installing (out r) rest cs" "list_all keeps_handle cs" "cs \<noteq> []" "EFI_ERROR (status (snd (last cs)))"
      using assms False ins args by auto
    obtain k where "length cs = Suc k" using h(4) by (cases cs) auto
    then show ?thesis
      using installing_keeps [OF h(2,3,1)] n [OF h(2,4,5)] assms(1) False ins args by simp
  qed
qed

lemma failed_install_leaves_nothing:
  assumes "LibInstallProtocolInterfaces fw args H s = (st, H', s')" "EFI_ERROR st"
    and "calls s' = calls s @ new" "list_all keeps_handle new"
  shows "put_in new = taken_out new \<and> H' = H"
proof -
  obtain r0 ins outs r1 where i: "new = (RaiseTPL 16, r0) # ins @ outs @ [(RestoreTPL (status r0), r1)]"
    "installing H args ins" "ins \<noteq> []" "status (snd (last ins)) = st" "H' = H"
    "map fst outs = map (\<lambda>(p, i). UninstallProtocolInterface (handle_after H ins) p i) (take (length ins - 1) args)"
    using install_all_or_nothing [OF assms(1)] assms(2,3) by auto
  have u: "put_in cs = {#} \<and> taken_out cs = mset (map (Pair h) xs)"
    if "map fst cs = map (\<lambda>(p, i). UninstallProtocolInterface h p i) xs" for h cs xs
    using that by (induction cs arbitrary: xs) (auto simp: Cons_eq_map_conv split: prod.splits)
  have "list_all keeps_handle ins" using assms(4) i(1) by simp
  then show ?thesis
    using installing_put_in [OF i(2) _ i(3)] installing_no_removal [OF i(2)] u [OF i(6)] assms(2) i(1,4,5) by simp
qed

text \<open>
  Replacing interfaces: the calls made, with the pointer in the place of the handle. After a failure the
  replacements that had succeeded are reversed.
\<close>

lemma do_each_calls:
  assumes "do_each fw step (\<lambda>H r. H) args st H k s = (st', H', k', s')" "\<not> EFI_ERROR st"
  shows "H' = H \<and> k \<le> k' \<and> k' - k \<le> length args \<and> (if EFI_ERROR st' then k' - k < length args else k' - k = length args) \<and>
    (\<exists>cs. calls s' = calls s @ cs \<and> map fst cs = map (step H) (take (k' - k + (if EFI_ERROR st' then 1 else 0)) args))"
  using assms
proof (induction args arbitrary: st k s)
  case (Cons x args)
  obtain r s1 where c: "efi_bs_call fw (step H x) s = (r, s1)" by fastforce
  note log = efi_bs_call_calls [OF c]
  show ?case
  proof (cases "EFI_ERROR (status r)")
    case True
    then show ?thesis using Cons.prems c log by auto
  next
    case False
    then have "do_each fw step (\<lambda>H r. H) args (status r) H (k + 1) s1 = (st', H', k', s')"
      using Cons.prems c by simp
    from Cons.IH [OF this False] obtain cs where
      *: "H' = H" "k + 1 \<le> k'" "k' - (k + 1) \<le> length args"
      "if EFI_ERROR st' then k' - (k + 1) < length args else k' - (k + 1) = length args" "calls s' = calls s1 @ cs"
      "map fst cs = map (step H) (take (k' - (k + 1) + (if EFI_ERROR st' then 1 else 0)) args)" by blast
    moreover have "k' - k = Suc (k' - (k + 1))" using *(2) by simp
    ultimately show ?thesis using log by (auto split: if_splits)
  qed
qed simp

lemma reinstall_calls:
  assumes "LibReinstallProtocolInterfaces fw args p s = (st, s')"
  shows "\<exists>k cs r0. calls s' = calls s @ cs \<and> k \<le> length args \<and> (\<not> EFI_ERROR st \<longrightarrow> k = length args) \<and>
    map fst cs = RaiseTPL 16 #
      map (\<lambda>(g, old, new). ReinstallProtocolInterface p g old new) (take (k + (if EFI_ERROR st then 1 else 0)) args) @
      (if EFI_ERROR st then map (\<lambda>(g, old, new). ReinstallProtocolInterface p g new old) (take k args) else []) @
      [RestoreTPL r0]"
proof -
  let ?do = "\<lambda>H (g, old, new). ReinstallProtocolInterface H g old new"
  let ?undo = "\<lambda>H (g, old, new). ReinstallProtocolInterface H g new old"
  obtain r0 s0 where 0: "efi_bs_call fw (RaiseTPL 16) s = (r0, s0)" by fastforce
  obtain st1 H1 k s1 where d: "do_each fw ?do (\<lambda>H r. H) args 0 p 0 s0 = (st1, H1, k, s1)" by (metis prod_cases4)
  obtain cs where cs: "H1 = p" "k \<le> length args" "\<not> EFI_ERROR st1 \<longrightarrow> k = length args" "calls s1 = calls s0 @ cs"
    "map fst cs = map (?do p) (take (k + (if EFI_ERROR st1 then 1 else 0)) args)"
    using do_each_calls [OF d] by (cases "EFI_ERROR st1") auto
  define s2 where "s2 = (if EFI_ERROR st1 then undo_each fw ?undo args p k s1 else s1)"
  obtain ds where ds: "calls s2 = calls s1 @ ds" "map fst ds = (if EFI_ERROR st1 then map (?undo p) (take k args) else [])"
    using undo_each_calls [OF cs(2), of fw ?undo p s1] by (cases "EFI_ERROR st1") (auto simp: s2_def)
  obtain r1 s3 where 3: "efi_bs_call fw (RestoreTPL (status r0)) s2 = (r1, s3)" by fastforce
  have res: "st = st1 \<and> s' = s3"
    using assms 3 by (cases "EFI_ERROR st1", simp_all add: LibReinstallProtocolInterfaces_def 0 d cs(1) s2_def)
  let ?cs = "(RaiseTPL 16, r0) # cs @ ds @ [(RestoreTPL (status r0), r1)]"
  have "calls s' = calls s @ ?cs"
    using efi_bs_call_calls [OF 0] efi_bs_call_calls [OF 3] cs(4) ds(1) res by simp
  then show ?thesis using cs(2,3,5) ds(2) res
    by (intro exI [of _ k] exI [of _ ?cs] exI [of _ "status r0"]) simp
qed

text \<open>Acquiring a free lock and releasing it leaves it free, and the priority as it was.\<close>

lemma lock_round_trip:
  assumes "RtAcquireLock fw True (InitializeLock L p) s = (L1, s1)" "RtReleaseLock fw True L1 s1 = (L2, s2)"
  shows "Lock L1 = 1 \<and> Lock L2 = 0 \<and>
    (\<exists>r r'. calls s2 = calls s @ [(RaiseTPL p, r), (RestoreTPL (status r), r')])"
proof -
  obtain r t where r: "efi_bs_call fw (RaiseTPL p) s = (r, t)" by fastforce
  obtain r' t' where r': "efi_bs_call fw (RestoreTPL (status r)) t = (r', t')" by fastforce
  show ?thesis using assms efi_bs_call_calls [OF r] efi_bs_call_calls [OF r']
    by (auto simp: RtAcquireLock_def RtReleaseLock_def InitializeLock_def r r' u64_def)
qed

end
