(* ===== verification/Shell_Args.thy ===== *)
theory Shell_Args
  imports Efi_Services_Spec
begin

text \<open>
  The arguments of an application of the shell, \<open>src/lib/cmdline.c\<close>: from one of the two protocols of the shell
  or, without them, from the load options of the image, which are split at every space. The static array
  \<open>ArgvContents\<close> of 1024 characters is at the address \<open>Contents\<close>.
\<close>

section \<open>The code\<close>

definition LoadedImageProtocol_lib :: guid where
  "LoadedImageProtocol_lib = MAKE_EFI_GUID 0x5B1B31A1 0x9562 0x11d2 [0x8E, 0x3F, 0x00, 0xA0, 0xC9, 0x69, 0x72, 0x3B]"
definition ShellParametersProtocolGuid :: guid where
  "ShellParametersProtocolGuid = MAKE_EFI_GUID 0x752f3136 0x4e16 0x4fdc [0xa2, 0x2a, 0xe5, 0xf4, 0x68, 0x12, 0xf4, 0xca]"
definition ShellInterfaceProtocolGuid :: guid where
  "ShellInterfaceProtocolGuid = MAKE_EFI_GUID 0x47c7b223 0xc42a 0x11d2 [0x8e, 0x57, 0x0, 0xa0, 0xc9, 0x69, 0x72, 0x3b]"

abbreviation (input) MAX_CMDLINE_SIZE :: nat where "MAX_CMDLINE_SIZE \<equiv> 1024"
abbreviation (input) MAX_CMDLINE_ARGC :: nat where "MAX_CMDLINE_ARGC \<equiv> 32"

text \<open>The loop: the memory, \<open>ArgStart\<close> and the array \<open>Argv\<close>.\<close>

function args_loop :: "mem \<Rightarrow> addr \<Rightarrow> addr \<Rightarrow> addr list \<Rightarrow> mem \<times> addr \<times> addr list" where
  "args_loop m c ArgStart Argv =
     (if c < ADDR_LIMIT \<and> ld16 m c \<noteq> 0 then
        (if ld16 m c = 32
         then args_loop (st16 m c 0) (c + 2) (c + 2) (if length Argv < MAX_CMDLINE_ARGC then Argv @ [ArgStart] else Argv)
         else args_loop m (c + 2) ArgStart Argv)
      else (m, ArgStart, Argv))"
  by pat_completeness auto
termination by (relation "measure (\<lambda>(m, c, a, v). nat (ADDR_LIMIT - c))") auto

declare args_loop.simps [simp del]

definition split_args :: "mem \<Rightarrow> addr \<Rightarrow> mem \<times> addr list" where
  "split_args m Contents =
     (case args_loop m Contents Contents [] of
        (m, ArgStart, Argv) \<Rightarrow>
          (m, if ld16 m ArgStart \<noteq> 0 \<and> length Argv < MAX_CMDLINE_ARGC then Argv @ [ArgStart] else Argv))"

text \<open>The result -1 is \<open>None\<close>; else the array, whose length is returned.\<close>

definition GetShellArgcArgvFromLoadedImage ::
  "'w firmware \<Rightarrow> addr \<Rightarrow> int \<Rightarrow> ('w, 'z) efi_scheme \<Rightarrow> addr list option \<times> ('w, 'z) efi_scheme" where
  "GetShellArgcArgvFromLoadedImage fw Contents ImageHandle s =
     (case efi_bs_call fw (OpenProtocol ImageHandle LoadedImageProtocol_lib) s of
        (r, s) \<Rightarrow>
          if EFI_ERROR (status r) then (None, s)
          else
            (let BufLen = ld_le (memory s) (out r + 48) 4
             in if BufLen < 2 then (None, s)
                else
                  (let BufLen = min BufLen (2 * int MAX_CMDLINE_SIZE);
                       m = RtCopyMem (memory s) Contents (ld_le (memory s) (out r + 56) 8) (nat BufLen);
                       m = st16 m (Contents + 2 * int (MAX_CMDLINE_SIZE - 1)) 0
                   in case split_args m Contents of (m, Argv) \<Rightarrow> (Some Argv, s\<lparr>memory := m\<rparr>))))"

text \<open>
  What \<open>GetShellArgcArgv\<close> returns: the array of a protocol of the shell with its length, or the arguments of
  the load options.
\<close>

datatype shell_args = FromShell addr int | FromOptions "addr list option"

definition GetShellArgcArgv ::
  "'w firmware \<Rightarrow> addr \<Rightarrow> int \<Rightarrow> ('w, 'z) efi_scheme \<Rightarrow> shell_args \<times> ('w, 'z) efi_scheme" where
  "GetShellArgcArgv fw Contents ImageHandle s =
     (case efi_bs_call fw (OpenProtocol ImageHandle ShellParametersProtocolGuid) s of
        (r, s) \<Rightarrow>
          if \<not> EFI_ERROR (status r)
          then (FromShell (ld_le (memory s) (out r) 8) (ld_le (memory s) (out r + 8) 8), s)
          else
            (case efi_bs_call fw (OpenProtocol ImageHandle ShellInterfaceProtocolGuid) s of
               (r, s) \<Rightarrow>
                 if \<not> EFI_ERROR (status r)
                 then (FromShell (ld_le (memory s) (out r + 16) 8) (ld_le (memory s) (out r + 24) 8), s)
                 else (case GetShellArgcArgvFromLoadedImage fw Contents ImageHandle s of (v, s) \<Rightarrow> (FromOptions v, s))))"

section \<open>Splitting at spaces\<close>

text \<open>
  The arguments of a string: the pieces between spaces, which may be empty, and what is behind the last
  space when it is not.
\<close>

fun arguments :: "int list \<Rightarrow> int list \<Rightarrow> int list list" where
  "arguments cur [] = (if cur = [] then [] else [cur])"
| "arguments cur (c # s) = (if c = 32 then cur # arguments [] s else arguments (cur @ [c]) s)"

lemma st16_at: "ld16 (st16 m p 0) p = 0"
  by (simp add: ld16_def st16_def ld_le_def st_le_def numeral_2_eq_2 bytes_at_Suc put_bytes_def byte_of_def)

lemma st16_away: "a + 2 \<le> p \<or> p + 2 \<le> a \<Longrightarrow> ld16 (st16 m p c) a = ld16 m a"
  by (rule ld16_agree [of a "a + 2"]) (auto simp: agree_def st16_def st_le_outside)

lemma wide_tail: "wide m p (xs @ ys) \<Longrightarrow> wide m (p + 2 * int (length xs)) ys"
proof (induction xs arbitrary: p)
  case (Cons x xs)
  then show ?case using Cons.IH [of "p + 2"] by (simp add: add.assoc)
qed simp

lemma wide_limit: "wide m p (xs @ c # ys) \<Longrightarrow> p + 2 * int (length xs) < ADDR_LIMIT"
  using wide_tail [of m p xs "c # ys"] by simp

text \<open>Cutting a string at a character.\<close>

lemma wide_cut:
  assumes "wide m p (xs @ c # ys)"
  shows "wide (st16 m (p + 2 * int (length xs)) 0) p xs"
    "wide (st16 m (p + 2 * int (length xs)) 0) (p + 2 * int (length xs) + 2) ys"
proof -
  have *: "wide m p (xs @ c # ys) \<Longrightarrow> p + 2 * int (length xs) = q \<Longrightarrow> wide (st16 m q 0) p xs" for q
  proof (induction xs arbitrary: p)
    case Nil
    then show ?case by (simp add: st16_at)
  next
    case (Cons x xs)
    have "wide (st16 m q 0) (p + 2) xs" by (rule Cons.IH) (use Cons.prems in auto)
    then show ?case using Cons.prems by (auto simp: st16_away)
  qed
  show "wide (st16 m (p + 2 * int (length xs)) 0) p xs" by (rule *) (use assms in auto)
  have "wide m (p + 2 * int (length xs) + 2) ys" using wide_tail [OF assms] by simp
  then show "wide (st16 m (p + 2 * int (length xs)) 0) (p + 2 * int (length xs) + 2) ys"
    by (rule wide_agree [of _ _ _ "p + 2 * int (length xs) + 2" "p + 2 * int (length xs) + 2 + 2 * int (length ys) + 2"])
      (auto simp: agree_def st16_def st_le_outside)
qed

lemma args_loop_keeps: "args_loop m c a v = (m', a', v') \<Longrightarrow> x < c \<Longrightarrow> m' x = m x"
proof (induction m c a v rule: args_loop.induct)
  case (1 m c a v)
  show ?case
  proof (cases "c < ADDR_LIMIT \<and> ld16 m c \<noteq> 0")
    case True
    then show ?thesis using 1 by (cases "ld16 m c = 32") (auto simp: args_loop.simps [of m c] st16_def st_le_outside)
  next
    case False
    then have "args_loop m c a v = (m, a, v)" by (subst args_loop.simps) auto
    then show ?thesis using 1(3) by simp
  qed
qed

lemma args_walk:
  assumes "wide m a (cur @ s)" "32 \<notin> set cur" "length v \<le> 32"
  shows "\<exists>m' a' v' as. args_loop m (a + 2 * int (length cur)) a v = (m', a', v') \<and>
    (if ld16 m' a' \<noteq> 0 \<and> length v' < 32 then v' @ [a'] else v') = v @ as \<and>
    length as = min (32 - length v) (length (arguments cur s)) \<and>
    (\<forall>i < length as. a \<le> as ! i \<and> wide m' (as ! i) (arguments cur s ! i))"
  using assms
proof (induction s arbitrary: m a cur v)
  case Nil
  then have "ld16 m (a + 2 * int (length cur)) = 0" using wide_end by fastforce
  moreover have "ld16 m a \<noteq> 0 \<longleftrightarrow> cur \<noteq> []" using Nil by (cases cur) auto
  ultimately show ?case using Nil
    by (subst args_loop.simps) (auto simp: less_Suc_eq intro!: exI [of _ "if cur \<noteq> [] \<and> length v < 32 then [a] else []"])
next
  case (Cons c s)
  let ?c = "a + 2 * int (length cur)"
  have c: "ld16 m ?c = c" "c \<noteq> 0" "?c < ADDR_LIMIT"
    using wide_tail [OF Cons.prems(1)] wide_limit [OF Cons.prems(1)] by auto
  show ?case
  proof (cases "c = 32")
    case False
    have "wide m a ((cur @ [c]) @ s)" "32 \<notin> set (cur @ [c])" using Cons.prems False by auto
    from Cons.IH [OF this Cons.prems(3)] show ?thesis
      using c False by (subst args_loop.simps) (simp add: algebra_simps)
  next
    case True
    let ?m = "st16 m ?c 0"
    define v1 where "v1 = (if length v < 32 then v @ [a] else v)"
    note cut = wide_cut [OF Cons.prems(1)]
    have step: "args_loop m ?c a v = args_loop ?m (?c + 2) (?c + 2) v1"
      using c True by (subst args_loop.simps) (simp add: v1_def)
    have "length v1 \<le> 32" using Cons.prems(3) by (simp add: v1_def)
    from Cons.IH [of ?m "?c + 2" "[]", OF _ _ this] cut(2) obtain m' a' v' as where IH:
      "args_loop ?m (?c + 2) (?c + 2) v1 = (m', a', v')"
      "(if ld16 m' a' \<noteq> 0 \<and> length v' < 32 then v' @ [a'] else v') = v1 @ as"
      "length as = min (32 - length v1) (length (arguments [] s))"
      "\<forall>i < length as. ?c + 2 \<le> as ! i \<and> wide m' (as ! i) (arguments [] s ! i)" by auto
    have first: "wide m' a cur"
      by (rule wide_agree [OF cut(1), of a "?c + 2"]) (use args_loop_keeps [OF IH(1)] in \<open>auto simp: agree_def\<close>)
    show ?thesis
    proof (cases "length v < 32")
      case less: True
      have "\<forall>i < length (a # as). a \<le> (a # as) ! i \<and> wide m' ((a # as) ! i) (arguments cur (c # s) ! i)"
        using IH(4) first True by (auto simp: nth_Cons split: nat.splits)
      moreover have "length (a # as) = min (32 - length v) (length (arguments cur (c # s)))"
        using IH(3) less True by (simp add: v1_def)
      ultimately show ?thesis using step IH(1,2) less by (intro exI [of _ m'] exI [of _ a'] exI [of _ v'] exI [of _ "a # as"]) (simp add: v1_def)
    next
      case False
      then have "as = []" using IH(3) Cons.prems(3) by (simp add: v1_def)
      then show ?thesis using step IH(1,2) False Cons.prems(3)
        by (intro exI [of _ m'] exI [of _ a'] exI [of _ v'] exI [of _ "[]"]) (simp add: v1_def)
    qed
  qed
qed

text \<open>The arguments that the array points to are those of the string, at most 32.\<close>

lemma split_args_arguments:
  assumes "wide m p s" "split_args m p = (m', v)"
  shows "length v = min 32 (length (arguments [] s)) \<and> (\<forall>i < length v. wide m' (v ! i) (arguments [] s ! i))"
proof -
  from args_walk [of m p "[]" s "[]"] assms(1) obtain m1 a1 v1 as where
    "args_loop m p p [] = (m1, a1, v1)" "(if ld16 m1 a1 \<noteq> 0 \<and> length v1 < 32 then v1 @ [a1] else v1) = as"
    "length as = min 32 (length (arguments [] s))" "\<forall>i < length as. wide m1 (as ! i) (arguments [] s ! i)" by auto
  then show ?thesis using assms(2) by (auto simp: split_args_def)
qed

end
