(* ===== verification/Smbios.thy ===== *)
theory Smbios
  imports Efi_Services_Spec
begin

text \<open>
  The system's GUID and serial number in the SMBIOS table, \<open>src/lib/smbios.c\<close>. A structure has a type, the
  length of its formatted part, that part, and its strings, each with a NUL, with one more NUL behind the last.
\<close>

section \<open>The code\<close>

text \<open>\<open>n\<close> is \<open>StringNumber - Index\<close>. The result: the string, 0 for \<open>NULL\<close>, and \<open>Smbios->Raw\<close>.\<close>

primrec smb_loop :: "mem \<Rightarrow> addr \<Rightarrow> addr \<Rightarrow> nat \<Rightarrow> addr \<times> addr" where
  "smb_loop m Raw String 0 = (String, Raw)"
| "smb_loop m Raw String (Suc n) =
     (let String = String + int (strlena m String) + 1
      in if m String = 0 then (0, String + 1) else smb_loop m Raw String n)"

definition LibGetSmbiosString :: "mem \<Rightarrow> addr \<Rightarrow> nat \<Rightarrow> addr \<times> addr" where
  "LibGetSmbiosString m Raw StringNumber =
     (if StringNumber = 0 then (0, Raw) else smb_loop m Raw (Raw + uint (m (Raw + 1))) (StringNumber - 1))"

text \<open>The loop over the structures: the memory, and what is stored in \<open>*SystemSerialNumber\<close>.\<close>

primrec smb_search :: "mem \<Rightarrow> addr \<Rightarrow> addr \<Rightarrow> addr \<Rightarrow> nat \<Rightarrow> mem \<times> addr option" where
  "smb_search m SystemGuid SmbiosEnd Smbios 0 = (m, None)"
| "smb_search m SystemGuid SmbiosEnd Smbios (Suc n) =
     (if m Smbios = 1 then
        (if uint (m (Smbios + 1)) < 0x19 then smb_search m SystemGuid SmbiosEnd Smbios n
         else (let m = RtCopyMem m SystemGuid (Smbios + 8) 16
               in (m, Some (fst (LibGetSmbiosString m Smbios (nat (uint (m (Smbios + 7)))))))))
      else
        (let Smbios = snd (LibGetSmbiosString m Smbios 0xFFFF)
         in if Smbios \<ge> SmbiosEnd then (m, None) else smb_search m SystemGuid SmbiosEnd Smbios n))"

text \<open>\<open>SMBIOSTableGuid\<close> is the address of that GUID. The status, the memory and the serial number.\<close>

definition LibGetSmbiosSystemGuidAndSerialNumber :: "mem \<Rightarrow> addr \<Rightarrow> addr \<Rightarrow> addr \<Rightarrow> int \<times> mem \<times> addr option" where
  "LibGetSmbiosSystemGuidAndSerialNumber m ST SMBIOSTableGuid SystemGuid =
     (case LibGetSystemConfigurationTable m ST SMBIOSTableGuid of
        (Status, Table) \<Rightarrow>
          (case Table of
             None \<Rightarrow> (EFI_NOT_FOUND, m, None)
           | Some SmbiosTable \<Rightarrow>
               if EFI_ERROR Status then (EFI_NOT_FOUND, m, None)
               else
                 (let Smbios = ld_le m (SmbiosTable + 24) 4;
                      TableLength = ld_le m (SmbiosTable + 22) 2
                  in (EFI_SUCCESS, smb_search m SystemGuid (Smbios + TableLength) Smbios (nat TableLength)))))"

section \<open>Structures\<close>

text \<open>The strings behind the formatted part; without any there are two NULs.\<close>

definition smb_strings :: "byte list list \<Rightarrow> byte list" where
  "smb_strings ss = (if ss = [] then [0] else concat (map (\<lambda>s. s @ [0]) ss)) @ [0]"

lemma strlena_string:
  assumes "bytes_at m p (length s) = s" "m (p + int (length s)) = 0" "0 \<notin> set s" "p + int (length s) < ADDR_LIMIT"
  shows "strlena m p = length s"
  using assms
proof (induction s arbitrary: p)
  case Nil
  then show ?case by (subst strlena.simps) simp
next
  case (Cons c s)
  have "bytes_at m (p + 1) (length s) = s" "m p = c" using Cons.prems(1) by (auto simp: bytes_at_Suc)
  moreover have "strlena m (p + 1) = length s"
    by (rule Cons.IH) (use Cons.prems calculation in \<open>auto simp: add.assoc\<close>)
  ultimately show ?case using Cons.prems by (subst strlena.simps) auto
qed

text \<open>With the number -1 the next structure is found, when there are not that many strings.\<close>

lemma smb_skip:
  assumes "bytes_at m p (length xs) = xs" "xs = concat (map (\<lambda>s. s @ [0]) ss) @ [0]" "ss \<noteq> []" "length ss \<le> n"
    "\<forall>s \<in> set ss. 0 \<notin> set s" "\<forall>s \<in> set (tl ss). s \<noteq> []" "p + int (length xs) \<le> ADDR_LIMIT"
  shows "smb_loop m Raw p n = (0, p + int (length xs))"
  using assms
proof (induction ss arbitrary: p xs n)
  case (Cons s ss)
  then obtain k where n: "n = Suc k" by (cases n) auto
  define ys where "ys = concat (map (\<lambda>s. s @ [0]) ss) @ [0 :: byte]"
  have xs: "xs = s @ 0 # ys" using Cons.prems(2) by (simp add: ys_def)
  have "bytes_at m p (length s + Suc (length ys)) = s @ 0 # ys" using Cons.prems(1) xs by simp
  then have "bytes_at m p (length s) @ m (p + int (length s)) # bytes_at m (p + int (length s) + 1) (length ys) = s @ 0 # ys"
    by (simp only: bytes_at_add bytes_at_Suc)
  then have at: "bytes_at m p (length s) = s" "m (p + int (length s)) = 0" "bytes_at m (p + int (length s) + 1) (length ys) = ys"
    by auto
  have len: "strlena m p = length s"
    by (rule strlena_string [OF at(1,2)]) (use Cons.prems xs in auto)
  show ?case
  proof (cases "ss = []")
    case True
    then have "m (p + int (length s) + 1) = 0" using at(3) by (simp add: ys_def bytes_at_Suc)
    then show ?thesis using n len xs True by (simp add: ys_def)
  next
    case False
    then obtain t ts where ss: "ss = t # ts" by (cases ss) auto
    then obtain c cs where t: "t = c # cs" using Cons.prems(6) by (cases t) auto
    have "m (p + int (length s) + 1) = c" using at(3) ss t by (simp add: ys_def bytes_at_Suc)
    moreover have "c \<noteq> 0" using Cons.prems(5) ss t by auto
    moreover have "smb_loop m Raw (p + int (length s) + 1) k = (0, p + int (length s) + 1 + int (length ys))"
      by (rule Cons.IH [OF at(3) ys_def False]) (use Cons.prems n xs ss in auto)
    ultimately show ?thesis using n len xs by (simp add: algebra_simps)
  qed
qed simp

lemma next_structure:
  assumes "bytes_at m (p + uint (m (p + 1))) (length (smb_strings ss)) = smb_strings ss" "length ss < 65535"
    "\<forall>s \<in> set ss. s \<noteq> [] \<and> 0 \<notin> set s" "p + uint (m (p + 1)) + int (length (smb_strings ss)) \<le> ADDR_LIMIT"
  shows "LibGetSmbiosString m p 0xFFFF = (0, p + uint (m (p + 1)) + int (length (smb_strings ss)))"
proof -
  define ss' where "ss' = (if ss = [] then [[]] else ss)"
  have *: "smb_strings ss = concat (map (\<lambda>s. s @ [0]) ss') @ [0]" by (simp add: smb_strings_def ss'_def)
  have "smb_loop m p (p + uint (m (p + 1))) 65534 = (0, p + uint (m (p + 1)) + int (length (smb_strings ss)))"
    by (rule smb_skip [OF assms(1) *]) (use assms(2-4) in \<open>auto simp: ss'_def dest: list.set_sel(2)\<close>)
  then show ?thesis by (simp add: LibGetSmbiosString_def)
qed

text \<open>
  A structure of type 1 that is too short for a GUID is never left: the search goes round until its count is
  used up, and structures behind it are not seen.
\<close>

lemma short_structure_stops: "m p = 1 \<Longrightarrow> uint (m (p + 1)) < 0x19 \<Longrightarrow> smb_search m g e p n = (m, None)"
  by (induction n) simp_all

end
