(* ===== verification/Services_Properties.thy ===== *)
theory Services_Properties
  imports Simple_Read Dpath_Spec Protocols Shell_Args Smbios
begin

text \<open>
  Properties of the services of the gnu-efi library: files, protocol interfaces, device paths, the boot
  order and the arguments of an application. The firmware of the examples hands buffers out one after the
  other and never writes to memory.
\<close>

section \<open>A firmware for the examples\<close>

definition answer :: "int \<Rightarrow> int \<Rightarrow> int \<Rightarrow> byte list \<Rightarrow> efi_reply" where
  "answer st v a d = \<lparr>status = st, out = v, attr = a, data = d, map_size = 0, map_key = 0, desc_size = 0, desc_ver = 0\<rparr>"

text \<open>Buffers lie 4096 bytes apart; the variable has two bytes; there is one volume, and every file opens.\<close>

fun lib_fw :: "nat firmware" where
  "lib_fw (AllocatePool ty n) m w = (answer EFI_SUCCESS (65536 + 4096 * int w) 0 [], m, w + 1)"
| "lib_fw (GetVariable n g k) m w = (answer EFI_SUCCESS 2 0 [1, 0], m, w)"
| "lib_fw (LocateDevicePath g p) m w = (answer EFI_SUCCESS 3 p [], m, w)"
| "lib_fw (HandleProtocol h g) m w = (answer EFI_SUCCESS 5 0 [], m, w)"
| "lib_fw (OpenVolume v) m w = (answer EFI_SUCCESS 7 0 [], m, w)"
| "lib_fw (FileOpen f n md a) m w = (answer EFI_SUCCESS 9 0 [], m, w)"
| "lib_fw c m w = (answer EFI_SUCCESS 0 0 [], m, w)"

lemma answer_fields [simp]:
  "status (answer st v a d) = st" "out (answer st v a d) = v" "attr (answer st v a d) = a" "data (answer st v a d) = d"
  by (simp_all add: answer_def)

lemma lib_fw_answers: "pool_answers lib_fw" "files_answer lib_fw"
  by (simp_all add: pool_answers_def files_answer_def)

definition lib_state :: "mem \<Rightarrow> nat efi" where
  "lib_state m = \<lparr>memory = m, world = 0, calls = []\<rparr>"

lemma lib_alloc:
  "AllocatePool_lib lib_fw ty n (lib_state m) =
     (65536, \<lparr>memory = m, world = 1, calls = [(AllocatePool ty n, answer EFI_SUCCESS 65536 0 [])]\<rparr>)"
  by (simp add: AllocatePool_lib_def efi_bs_call_def lib_state_def)

section \<open>Files\<close>

text \<open>
  C33: a file that \<open>OpenSimpleReadFile\<close> opens owns the buffers and the file of its handle, and closing it gives
  all of them back; when it cannot be opened, whichever way was tried, every buffer that was allocated has
  been freed and every file that was opened has been closed.
\<close>

lemma open_file_owns:
  assumes "pool_answers fw" "files_answer fw" "OpenSimpleReadFile fw ty bp src n p s = Some (st, fp, dh, h, H, s')"
  shows "if kept st
    then settles s {#} s' (read_buffers h H) \<and> settles_files s {#} s' (own (FileHandle H)) \<and>
      settles s {#} (CloseSimpleReadFile fw h H s') {#} \<and> settles_files s {#} (CloseSimpleReadFile fw h H s') {#}
    else settles s {#} s' {#} \<and> settles_files s {#} s' {#}"
  using open_settles [OF assms] close_settles [of s' h H fw] pool.settled_trans files.settled_trans by fastforce

declare open_nodes.simps [code] grow_loop.simps [code]

definition demo_path :: mem where
  "demo_path = mem_of 4096 ([4, 4, 8, 0, 0x41, 0, 0, 0] @ [0x7f, 0xff, 4, 0])"

lemma open_file_owns_witness:
  "\<exists>fp dh h H s'. OpenSimpleReadFile lib_fw 4 False 0 0 4096 (lib_state demo_path) = Some (0, fp, dh, h, H, s') \<and>
     h = 65536 \<and> FileHandle H = 9 \<and> settles_files (lib_state demo_path) {#} s' {#9#}"
proof -
  let ?o = "OpenSimpleReadFile lib_fw 4 False 0 0 4096 (lib_state demo_path)"
  have "case ?o of None \<Rightarrow> False | Some (st, fp, dh, h, H, s') \<Rightarrow> st = 0 \<and> h = 65536 \<and> FileHandle H = 9"
    by code_simp
  then obtain fp dh h H s' where o: "?o = Some (0, fp, dh, h, H, s')" "h = 65536" "FileHandle H = 9"
    by (auto split: option.splits)
  have "kept 0" by code_simp
  then show ?thesis using open_file_owns [OF lib_fw_answers o(1)] o by auto
qed

section \<open>Protocol interfaces\<close>

text \<open>
  C34: between raising the task priority and restoring the priority of before,
  \<open>LibInstallProtocolInterfaces\<close> installs the interfaces in their order, each on the handle that the call
  before has left. Either every call succeeds, nothing is removed, and the handle left is handed over; or
  the call that fails is the last, its status is returned, each interface installed before it is then
  removed from the handle that has been left, with no look at the replies, and \<open>*Handle\<close> is the old one
  again. For a firmware that keeps a handle it is given, this balances (\<open>failed_install_leaves_nothing\<close>).
\<close>

lemma interfaces_all_or_nothing:
  "case LibInstallProtocolInterfaces fw args H s of
     (st, H', s') \<Rightarrow>
       \<exists>r0 ins outs r1. calls s' = calls s @ (RaiseTPL 16, r0) # ins @ outs @ [(RestoreTPL (status r0), r1)]
         \<and> installing H args ins
         \<and> (if EFI_ERROR st then ins \<noteq> [] \<and> status (snd (last ins)) = st \<and> H' = H
              \<and> map fst outs = map (\<lambda>(p, i). UninstallProtocolInterface (handle_after H ins) p i) (take (length ins - 1) args)
            else length ins = length args \<and> list_all (\<lambda>x. \<not> EFI_ERROR (status (snd x))) ins \<and> outs = []
              \<and> H' = handle_after H ins)"
proof -
  obtain st H' s' where L: "LibInstallProtocolInterfaces fw args H s = (st, H', s')" by (metis prod_cases3)
  show ?thesis unfolding L prod.case by (rule install_all_or_nothing [OF L])
qed

section \<open>Device paths\<close>

text \<open>
  C35: \<open>AppendDevicePath\<close> leaves in its buffer the first instance of the first path, then the second path
  with its end; for a path of one instance four bytes follow that were asked for. For a path of several
  instances the others come behind that end, and more is written than was asked for exactly when the second
  path is the longer one.
\<close>

lemma append_device_path:
  assumes "mem_eq (memory s) p (path_bytes P)" "good_path P" "0 < p"
    and "mem_eq (memory s) q (path_bytes Q)" "good_path Q" "q \<noteq> 0"
    and "AllocatePool_lib fw ty (u64 (int (length (path_bytes P) * length P + length (path_bytes Q)))) s = (d, s1)" "0 < d"
    and "mem_eq (memory s1) p (path_bytes P)" "mem_eq (memory s1) q (path_bytes Q)"
    and "p + int (length (path_bytes P)) \<le> d \<or> d + int (length (path_bytes P) + length P * length (path_bytes Q)) \<le> p"
    and "q + int (length (path_bytes Q)) \<le> d \<or> d + int (length (path_bytes P) + length P * length (path_bytes Q)) \<le> q"
  shows "\<exists>W rest. AppendDevicePath fw ty p q s = Some (d, s1\<lparr>memory := put_bytes (memory s1) d W\<rparr>) \<and>
    W = path_bytes ((hd P @ hd Q) # tl Q) @ rest \<and> (length P = 1 \<longrightarrow> length rest = 4) \<and>
    (length (path_bytes P) * length P + length (path_bytes Q) < length W
       \<longleftrightarrow> 2 \<le> length P \<and> length (path_bytes P) < length (path_bytes Q))"
proof -
  have ne: "P \<noteq> []" "Q \<noteq> []" using assms(2,5) by (auto simp: good_path_def)
  let ?W = "joined P (path_bytes Q)"
  obtain rest where rest: "?W = path_bytes ((hd P @ hd Q) # tl Q) @ rest" using joined_begins [OF ne] by blast
  have "length rest = 4" if "length P = 1"
    using that joined_one_rest [OF _ ne(2) rest] by simp
  moreover have "length (path_bytes P) * length P + length (path_bytes Q) < length ?W
      \<longleftrightarrow> 2 \<le> length P \<and> length (path_bytes P) < length (path_bytes Q)"
    by (rule joined_too_long [OF ne(1)])
  moreover have "AppendDevicePath fw ty p q s = Some (d, s1\<lparr>memory := put_bytes (memory s1) d ?W\<rparr>)"
    by (rule append_path [OF assms(1-10)]) (use assms(11,12) length_joined [OF ne(1)] in simp_all)
  ultimately show ?thesis using rest by blast
qed

text \<open>A path of two instances of 4 bytes, to which one of 8 bytes is appended: 36 bytes for a buffer of 44.\<close>

definition two_instances :: "dnode list list" where "two_instances = [[(1, 1, [])], [(2, 1, [])]]"
definition one_instance :: "dnode list list" where "one_instance = [[(4, 4, [0x41, 0, 0, 0])]]"

definition demo_paths :: mem where
  "demo_paths = put_bytes (put_bytes (\<lambda>_. 0) 4096 (path_bytes two_instances)) 8192 (path_bytes one_instance)"

lemma demo_paths_good: "good_path two_instances" "good_path one_instance" "length two_instances = 2"
  "length (path_bytes two_instances) = 16" "length (path_bytes one_instance) = 12"
  "mem_eq demo_paths 4096 (path_bytes two_instances)" "mem_eq demo_paths 8192 (path_bytes one_instance)"
proof -
  show l: "length (path_bytes two_instances) = 16" "length (path_bytes one_instance) = 12" by code_simp+
  show "good_path two_instances" "good_path one_instance"
    by (simp_all add: good_path_def two_instances_def one_instance_def fits_def node_size_def end_type_def)
  show "length two_instances = 2" by (simp add: two_instances_def)
  show "mem_eq demo_paths 4096 (path_bytes two_instances)"
    unfolding demo_paths_def by (rule mem_eq_put_away) (simp_all add: l)
  show "mem_eq demo_paths 8192 (path_bytes one_instance)" by (simp add: demo_paths_def)
qed

lemma append_device_path_witness:
  "\<exists>m rest. AppendDevicePath lib_fw 4 4096 8192 (lib_state demo_paths) =
     Some (65536, \<lparr>memory = put_bytes demo_paths 65536 (path_bytes [[(1, 1, []), (4, 4, [0x41, 0, 0, 0])]] @ rest), world = 1,
       calls = [(AllocatePool 4 44, answer EFI_SUCCESS 65536 0 [])]\<rparr>)"
proof -
  note D = demo_paths_good
  have "AllocatePool_lib lib_fw 4 (u64 (int (length (path_bytes two_instances) * length two_instances + length (path_bytes one_instance))))
      (lib_state demo_paths) = (65536, \<lparr>memory = demo_paths, world = 1, calls = [(AllocatePool 4 44, answer EFI_SUCCESS 65536 0 [])]\<rparr>)"
    by (simp add: D(3-5) lib_alloc u64_def)
  from append_device_path [of "lib_state demo_paths" 4096 two_instances 8192 one_instance, OF _ D(1) _ _ D(2) _ this] show ?thesis
    using D(3-7) by (auto simp: lib_state_def) (auto simp: two_instances_def one_instance_def)
qed

text \<open>
  C36: \<open>UnpackDevicePath\<close> asks for as many bytes as it writes: every node of the path with its end, its
  length rounded up to a multiple of 8 and its type marked, with zeroes behind the data.
\<close>

lemma unpack_fills_buffer:
  assumes "mem_eq (memory s) p (path_bytes P)" "good_path P" "0 < p"
    and "AllocatePool_lib fw ty (int (length (nodes_bytes (map unpacked (path_nodes P @ [end_node]))))) s = (d, s1)" "0 < d"
    and "mem_eq (memory s1) p (path_bytes P)"
    and "p + int (length (path_bytes P)) \<le> d \<or> d + int (length (nodes_bytes (map unpacked (path_nodes P @ [end_node])))) \<le> p"
  shows "UnpackDevicePath fw ty p s =
    Some (d, s1\<lparr>memory := put_bytes (memory s1) d (nodes_bytes (map unpacked (path_nodes P @ [end_node])))\<rparr>) \<and>
    (\<forall>n. node_size (unpacked n) mod 8 = 0 \<and> node_size (unpacked n) < node_size n + 8)"
  using unpack_path [OF assms] unpacked_aligned by blast

lemma unpack_fills_buffer_witness:
  "\<exists>s'. UnpackDevicePath lib_fw 4 8192 (lib_state demo_paths) = Some (65536, s') \<and> calls s' = [(AllocatePool 4 16, answer EFI_SUCCESS 65536 0 [])]"
proof -
  note D = demo_paths_good
  have "length (nodes_bytes (map unpacked (path_nodes one_instance @ [end_node]))) = 16" by code_simp
  then show ?thesis
    using unpack_fills_buffer [of "lib_state demo_paths" 8192 one_instance lib_fw 4 65536] D(2,5,7) lib_alloc [of 4 16 demo_paths]
    by (simp add: lib_state_def)
qed

section \<open>The boot order\<close>

text \<open>
  C37: let the variable be read into \<open>b\<close>, an even number of bytes, zero of them when it is missing. When it has
  options and the new one is to go into an empty order only, \<open>LibInsertToTailOfBootOrder\<close> returns
  \<open>EFI_UNSUPPORTED\<close>, gives the buffer back and sets nothing. When no memory is left for the new order it
  returns \<open>EFI_OUT_OF_RESOURCES\<close> and keeps the buffer: that is its leak. Otherwise it sets the variable to the
  options that were there and the new one behind them, returns the status of that call, and gives every
  buffer back.
\<close>

lemma boot_order_is_extended:
  assumes "pool_answers fw" "LibGetVariableAndSize fw ty ''BootOrder'' EfiGlobalVariable s = Some (b, 2 * int n, s1)"
    and "2 * int n + 2 < 18446744073709551616" "AllocatePool_lib fw ty (2 * int n + 2) s1 = (p, s2)"
    and "b + 2 * int n \<le> p \<or> p + 2 * int n \<le> b" "0 \<le> opt" "opt < 65536"
  shows "if n \<noteq> 0 \<and> only then
      \<exists>s' cs. LibInsertToTailOfBootOrder fw ty opt only s = Some (EFI_UNSUPPORTED, s') \<and> settles s {#} s' {#}
        \<and> calls s' = calls s1 @ cs \<and> map fst cs = (if b = 0 then [] else [FreePool b])
    else if p = 0 then
      LibInsertToTailOfBootOrder fw ty opt only s = Some (EFI_OUT_OF_RESOURCES, s2)
        \<and> settles s {#} s2 (if b = 0 then {#} else {#b#})
    else
      \<exists>r s' cs. LibInsertToTailOfBootOrder fw ty opt only s = Some (status r, s') \<and> settles s {#} s' {#}
        \<and> calls s' = calls s2 @ (SetVariable ''BootOrder'' EfiGlobalVariable EFI_VARIABLE_BS_RT_NV
            (bytes_at (memory s2) b (2 * n) @ [byte_of opt, byte_of (opt div 256)]), r) # cs"
proof -
  consider (kept) "n \<noteq> 0 \<and> only" | (leak) "\<not> (n \<noteq> 0 \<and> only)" "p = 0" | (set) "\<not> (n \<noteq> 0 \<and> only)" "p \<noteq> 0" by blast
  then show ?thesis
  proof cases
    case kept
    then show ?thesis using boot_order_kept [OF assms(1,2), of only opt] by (auto simp: balanced_def)
  next
    case leak
    have "u64 (2 * int n + 2) = 2 * int n + 2" using assms(3) by (simp add: u64_def)
    then show ?thesis
      using leak boot_order_leak [OF assms(1,2), of only s2 opt] assms(4) by (auto simp: balanced_def own_def)
  next
    case set
    then show ?thesis
      using boot_order_appends [OF assms(1-3) set(1) assms(4) set(2) assms(5-7)]
      by (simp only: if_not_P [OF set(1)] if_not_P [OF set(2)] if_False balanced_def own_simps)
  qed
qed

lemma boot_order_is_extended_witness:
  "\<exists>s' r cs cs'. LibInsertToTailOfBootOrder lib_fw 4 7 False (lib_state (\<lambda>_. 0)) = Some (status r, s') \<and>
     calls s' = cs @ (SetVariable ''BootOrder'' EfiGlobalVariable EFI_VARIABLE_BS_RT_NV [1, 0, 7, 0], r) # cs'"
proof -
  let ?g = "LibGetVariableAndSize lib_fw 4 ''BootOrder'' EfiGlobalVariable (lib_state (\<lambda>_. 0))"
  have "case ?g of None \<Rightarrow> False | Some (b, k, s1) \<Rightarrow> b = 65536 \<and> k = 2 \<and> world s1 = 1 \<and> bytes_at (memory s1) 65536 2 = [1, 0]"
    by code_simp
  then obtain s1 where g: "?g = Some (65536, 2, s1)" "world s1 = 1" "bytes_at (memory s1) 65536 2 = [1, 0]"
    by (auto split: option.splits)
  obtain s2 where a: "AllocatePool_lib lib_fw 4 4 s1 = (69632, s2)" "memory s2 = memory s1"
    using g(2) by (simp add: AllocatePool_lib_def efi_bs_call_def)
  show ?thesis
    using boot_order_is_extended [OF lib_fw_answers(1), of 4 "lib_state (\<lambda>_. 0)" 65536 1 s1 69632 s2 7 False] g a
    by (auto simp: byte_of_def)
qed

section \<open>Arguments\<close>

text \<open>
  C38: the array that is made from the load options points to the arguments in their order: the pieces of the
  string between spaces and what is behind the last one, the first 32 of them.
\<close>

lemma options_become_arguments:
  assumes "wide m p s" "split_args m p = (m', v)"
  shows "length v = min 32 (length (arguments [] s)) \<and> (\<forall>i < length v. wide m' (v ! i) (arguments [] s ! i))"
  by (rule split_args_arguments [OF assms])

lemma options_become_arguments_witness:
  "\<exists>m' v. split_args (mem_of 4096 [97, 0, 32, 0, 98, 0, 0, 0]) 4096 = (m', v) \<and> length v = 2 \<and> wide m' (v ! 1) [98]"
proof -
  let ?m = "mem_of 4096 [97, 0, 32, 0, 98, 0, 0, 0]"
  obtain m' v where v: "split_args ?m 4096 = (m', v)" by fastforce
  have "wide ?m 4096 [97, 32, 98]" by code_simp
  from options_become_arguments [OF this v] show ?thesis using v by auto
qed

end
