(* ===== verification/Print.thy ===== *)
theory Print
  imports Efi_Services_Spec
begin

text \<open>
  The formatted printing of the gnu-efi library, \<open>src/lib/print.c\<close>, with \<open>error.c\<close> and \<open>guid.c\<close>. Characters
  are 16-bit numbers. What a print writes to is a parameter, an \<open>Output\<close> for a string and a \<open>SetAttr\<close> for a
  colour on a context of its own: the console of the firmware, or a buffer in memory. The format and the
  strings are read from a memory \<open>m\<close>, which the output is taken not to change. Arguments are 64-bit slots.
  \<open>FloatToString\<close>, which computes with floating point numbers, and \<open>DevicePathToStr\<close>, which prints a path by
  \<open>CatPrint\<close>, are parameters (\<open>other_formats\<close>).
\<close>

section \<open>Text and output\<close>

text \<open>A \<open>POINTER\<close>: a wide or a narrow string in memory, or the characters of the local buffer \<open>Scratch\<close>.\<close>

datatype text_ptr = Wide addr | Narrow addr | Chars "int list"

fun PGETC :: "mem \<Rightarrow> text_ptr \<Rightarrow> nat \<Rightarrow> int" where
  "PGETC m (Wide p) Index = ld16 m (p + 2 * int Index)"
| "PGETC m (Narrow p) Index = uint (m (p + int Index))"
| "PGETC m (Chars s) Index = (if Index < length s then s ! Index else 0)"

record 's printer =
  Output :: "'s \<Rightarrow> int list \<Rightarrow> 's"
  SetAttr :: "('s \<Rightarrow> int \<Rightarrow> 's) option"

text \<open>\<open>Pending\<close> is what lies between \<open>Buffer\<close> and \<open>Pos\<close>, \<open>Room\<close> is \<open>End - Buffer\<close>.\<close>

record 's pstate =
  Context :: 's
  Pending :: "int list"
  Room :: nat
  Len :: int
  Attr :: int
  RestoreAttr :: int
  AttrNorm :: int
  AttrHighlight :: int
  AttrError :: int

definition PFLUSH :: "'s printer \<Rightarrow> 's pstate \<Rightarrow> 's pstate" where
  "PFLUSH prn ps = ps\<lparr>Context := Output prn (Context ps) (Pending ps), Pending := []\<rparr>"

definition PSETATTR :: "'s printer \<Rightarrow> int \<Rightarrow> 's pstate \<Rightarrow> 's pstate" where
  "PSETATTR prn a ps =
     (let ps = PFLUSH prn ps;
          ps = ps\<lparr>RestoreAttr := Attr ps\<rparr>;
          ps = (case SetAttr prn of None \<Rightarrow> ps | Some f \<Rightarrow> ps\<lparr>Context := f (Context ps) a\<rparr>)
      in ps\<lparr>Attr := a\<rparr>)"

text \<open>\<open>PPUTC\<close> below its first test, which calls \<open>PPUTC\<close> for the carriage return.\<close>

definition put_one :: "'s printer \<Rightarrow> int \<Rightarrow> 's pstate \<Rightarrow> 's pstate" where
  "put_one prn c ps =
     (let ps = ps\<lparr>Pending := Pending ps @ [c], Len := u64 (Len ps + 1)\<rparr>
      in if length (Pending ps) \<ge> Room ps then PFLUSH prn ps else ps)"

definition PPUTC :: "'s printer \<Rightarrow> int \<Rightarrow> 's pstate \<Rightarrow> 's pstate" where
  "PPUTC prn c ps = put_one prn c (if c = 10 then put_one prn 13 ps else ps)"

section \<open>One item\<close>

record print_item =
  Width :: int
  FieldWidth :: int
  ToField :: bool \<comment> \<open>\<open>WidthParse\<close> points to \<open>FieldWidth\<close>\<close>
  Pad :: int
  PadBefore :: bool
  Comma :: bool
  Long :: bool

abbreviation (input) NO_WIDTH :: int where "NO_WIDTH \<equiv> 18446744073709551615"

definition set_width :: "print_item \<Rightarrow> int \<Rightarrow> print_item" where
  "set_width it v = (if ToField it then it\<lparr>FieldWidth := v\<rparr> else it\<lparr>Width := v\<rparr>)"

function item_len :: "mem \<Rightarrow> text_ptr \<Rightarrow> int \<Rightarrow> nat \<Rightarrow> nat" where
  "item_len m t fw Index =
     (if int Index < fw then if PGETC m t Index = 0 then Index else item_len m t fw (Index + 1) else Index)"
  by pat_completeness auto
termination by (relation "measure (\<lambda>(m, t, fw, i). nat (fw - int i))") auto

declare item_len.simps [simp del]

primrec put_times :: "'s printer \<Rightarrow> nat \<Rightarrow> int \<Rightarrow> 's pstate \<Rightarrow> 's pstate" where
  "put_times prn 0 c ps = ps"
| "put_times prn (Suc n) c ps = put_times prn n c (PPUTC prn c ps)"

primrec put_text :: "'s printer \<Rightarrow> mem \<Rightarrow> text_ptr \<Rightarrow> nat \<Rightarrow> nat \<Rightarrow> 's pstate \<Rightarrow> 's pstate" where
  "put_text prn m t Index 0 ps = ps"
| "put_text prn m t Index (Suc n) ps = put_text prn m t (Index + 1) n (PPUTC prn (PGETC m t Index) ps)"

definition PITEM :: "'s printer \<Rightarrow> mem \<Rightarrow> print_item \<Rightarrow> text_ptr \<Rightarrow> 's pstate \<Rightarrow> 's pstate" where
  "PITEM prn m it t ps =
     (let n = item_len m t (FieldWidth it) 0;
          fw = (if FieldWidth it = NO_WIDTH then int n else FieldWidth it);
          w = (if int n > Width it then int n else Width it);
          ps = (if PadBefore it then put_times prn (nat (fw - w)) 32 ps else ps);
          ps = put_times prn (nat (w - int n)) (Pad it) ps;
          ps = put_text prn m t 0 n ps
      in if \<not> PadBefore it then put_times prn (nat (fw - w)) 32 ps else ps)"

section \<open>Numbers\<close>

definition Hex :: "int list" where
  "Hex = [48, 49, 50, 51, 52, 53, 54, 55, 56, 57, 65, 66, 67, 68, 69, 70]"

text \<open>The digits in \<open>str\<close>, the last one first.\<close>

function hex_loop :: "int \<Rightarrow> int list" where
  "hex_loop v = (if 0 < v then Hex ! nat (v AND 0xf) # hex_loop (drop_bit 4 v) else [])"
  by pat_completeness auto
termination by (relation "measure nat") (auto simp: drop_bit_eq_div)

lemma s64_id: "- 9223372036854775808 \<le> v \<Longrightarrow> v < 9223372036854775808 \<Longrightarrow> s64 v = v"
  by (simp add: s64_def mod_pos_pos_trivial)

function dec_loop :: "int \<Rightarrow> int list" where
  "dec_loop v = (if u64 v \<noteq> 0 then (u64 v mod 10 + 48) # dec_loop (s64 (u64 v div 10)) else [])"
  by pat_completeness auto
termination
proof (relation "measure (\<lambda>v. nat (u64 v))")
  fix v assume "u64 v \<noteq> 0"
  moreover have b: "0 \<le> u64 v" "u64 v < 18446744073709551616" by simp_all
  moreover have "s64 (u64 v div 10) = u64 v div 10" by (rule s64_id) (use b in linarith)+
  moreover have "0 < u64 v" "u64 (u64 v div 10) = u64 v div 10"
    using b calculation(1) by (linarith, intro u64_id) linarith+
  ultimately show "(s64 (u64 v div 10), v) \<in> measure (\<lambda>v. nat (u64 v))" by simp
qed simp

declare hex_loop.simps [simp del] dec_loop.simps [simp del]

definition ValueToHex :: "int \<Rightarrow> int list" where
  "ValueToHex v = (if v = 0 then [48] else rev (hex_loop v))"

text \<open>The loop that writes the digits, with a comma when \<open>c\<close> has come to 0.\<close>

primrec put_commas :: "nat \<Rightarrow> int list \<Rightarrow> int list" where
  "put_commas c [] = []"
| "put_commas c (d # ds) = (if c - 1 = 0 then 44 # d # put_commas 3 ds else d # put_commas (c - 1) ds)"

definition ValueToString :: "bool \<Rightarrow> int \<Rightarrow> int list" where
  "ValueToString comma v =
     (if v = 0 then [48]
      else
        (let ds = dec_loop (if v < 0 then s64 (- v) else v);
             c = (if comma then [3, 1, 2] ! (length ds mod 3) else 999) + 1
         in (if v < 0 then [45] else []) @ put_commas c (rev ds)))"

section \<open>The format\<close>

text \<open>The texts of the conversions that are made elsewhere; \<open>FloatToString\<close> takes the bits of the number.\<close>

record other_formats =
  DevicePathToStr :: "addr \<Rightarrow> int list"
  FloatToString :: "bool \<Rightarrow> int \<Rightarrow> int list"
  GuidText :: "addr \<Rightarrow> int list"
  StatusText :: "int \<Rightarrow> int list"
  TimeText :: "addr \<Rightarrow> int list"

definition pop_arg :: "int list \<Rightarrow> int \<times> int list" where
  "pop_arg args = (case args of [] \<Rightarrow> (0, []) | a # args \<Rightarrow> (a, args))"

definition null_text :: text_ptr where "null_text = Chars [40, 110, 117, 108, 108, 41]"

text \<open>\<open>do \<dots> while (c >= '0' && c <= '9')\<close>: the number and the index of the character behind it.\<close>

partial_function (option) parse_width :: "mem \<Rightarrow> text_ptr \<Rightarrow> int \<Rightarrow> nat \<Rightarrow> int \<Rightarrow> (int \<times> nat) option" where
  "parse_width m fmt c Index v =
     (let v = u64 (v * 10 + c - 48); c = PGETC m fmt Index
      in if c \<ge> 48 \<and> c \<le> 57 then parse_width m fmt c (Index + 1) v else Some (v, Index))"

text \<open>
  The cases of the \<open>switch\<close> but for the digits: the item, the arguments and the state, the text of the
  item when there is one, and \<open>Attr\<close>. The width for \<open>%p\<close> is
  \<open>sizeof(void *) == (8 ? 16 : 8) + 2\<close>, which is 0.
\<close>

definition convert ::
  "'s printer \<Rightarrow> other_formats \<Rightarrow> int \<Rightarrow> print_item \<Rightarrow> int list \<Rightarrow> 's pstate
   \<Rightarrow> print_item \<times> int list \<times> 's pstate \<times> text_ptr option \<times> int" where
  "convert prn other c it args ps =
     (let (a, rest) = pop_arg args;
          unsigned = (if Long it then u64 a else u32 a)
      in if c = 37 then (it, args, ps, Some (Chars [37]), 0)
      else if c = 44 then (it\<lparr>Comma := True\<rparr>, args, ps, None, 0)
      else if c = 45 then (it\<lparr>PadBefore := False\<rparr>, args, ps, None, 0)
      else if c = 42 then (set_width it (u64 a), rest, ps, None, 0)
      else if c = 46 then (it\<lparr>ToField := True\<rparr>, args, ps, None, 0)
      else if c = 48 then (it\<lparr>Pad := 48\<rparr>, args, ps, None, 0)
      else if c = 97 then (it, rest, ps, Some (if u64 a = 0 then null_text else Narrow (u64 a)), 0)
      else if c = 99 then (it, rest, ps, Some (Chars [a mod 65536]), 0)
      else if c = 68 then (it, rest, ps, Some (Chars (take 99 (DevicePathToStr other (u64 a)))), 0)
      else if c = 100 then (it, rest, ps, Some (Chars (ValueToString (Comma it) (if Long it then s64 a else s32 a))), 0)
      else if c = 69 then (it, args, ps, None, AttrError ps)
      else if c = 101 then (it, args, PSETATTR prn (AttrError ps) ps, None, 0)
      else if c = 102 then (it, rest, ps, Some (Chars (FloatToString other (Comma it) (u64 a))), 0)
      else if c = 103 then (it, rest, ps, Some (Chars (GuidText other (u64 a))), 0)
      else if c = 72 then (it, args, ps, None, AttrHighlight ps)
      else if c = 104 then (it, args, PSETATTR prn (AttrHighlight ps) ps, None, 0)
      else if c = 108 then (it\<lparr>Long := True\<rparr>, args, ps, None, 0)
      else if c = 78 then (it, args, ps, None, AttrNorm ps)
      else if c = 110 then (it, args, PSETATTR prn (AttrNorm ps) ps, None, 0)
      else if c = 112 then (it\<lparr>Width := 0, Pad := 48\<rparr>, rest, ps, Some (Chars ([48, 120] @ ValueToHex unsigned)), 0)
      else if c = 114 then (it, rest, ps, Some (Chars (StatusText other (u64 a))), 0)
      else if c = 115 then (it, rest, ps, Some (if u64 a = 0 then null_text else Wide (u64 a)), 0)
      else if c = 116 then (it, rest, ps, Some (Chars (TimeText other (u64 a))), 0)
      else if c = 117 then (it, rest, ps, Some (Chars (ValueToString (Comma it) (s64 unsigned))), 0)
      else if c = 88 then (it\<lparr>Width := if Long it then 16 else 8, Pad := 48\<rparr>, rest, ps, Some (Chars (ValueToHex unsigned)), 0)
      else if c = 120 then (it, rest, ps, Some (Chars (ValueToHex unsigned)), 0)
      else (it, args, ps, Some (Chars [63]), 0))"

definition new_item :: print_item where
  "new_item = \<lparr>Width = 0, FieldWidth = NO_WIDTH, ToField = False, Pad = 32, PadBefore = True, Comma = False, Long = False\<rparr>"

text \<open>The inner loop, from behind a \<open>%\<close> to its \<open>break\<close> or to the NUL: the index, the arguments and the state.\<close>

partial_function (option) item_loop ::
  "'s printer \<Rightarrow> other_formats \<Rightarrow> mem \<Rightarrow> text_ptr \<Rightarrow> nat \<Rightarrow> print_item \<Rightarrow> int list \<Rightarrow> 's pstate
   \<Rightarrow> (nat \<times> int list \<times> 's pstate) option" where
  "item_loop prn other m fmt Index it args ps =
     (let c = PGETC m fmt Index; Index = Index + 1
      in if c = 0 then Some (Index, args, ps)
         else if 49 \<le> c \<and> c \<le> 57 then
           (case parse_width m fmt c Index 0 of
              None \<Rightarrow> None
            | Some (v, Index) \<Rightarrow> item_loop prn other m fmt Index (set_width it v) args ps)
         else
           (case convert prn other c it args ps of
              (it, args, ps, text, a) \<Rightarrow>
                (case text of
                   Some t \<Rightarrow> Some (Index, args, PITEM prn m it t ps)
                 | None \<Rightarrow>
                     if a \<noteq> 0 then Some (Index, args, (PSETATTR prn a ps)\<lparr>RestoreAttr := 0\<rparr>)
                     else item_loop prn other m fmt Index it args ps)))"

partial_function (option) print_loop ::
  "'s printer \<Rightarrow> other_formats \<Rightarrow> mem \<Rightarrow> text_ptr \<Rightarrow> nat \<Rightarrow> int list \<Rightarrow> 's pstate \<Rightarrow> 's pstate option" where
  "print_loop prn other m fmt Index args ps =
     (let c = PGETC m fmt Index; Index = Index + 1
      in if c = 0 then Some ps
         else if c \<noteq> 37 then print_loop prn other m fmt Index args (PPUTC prn c ps)
         else
           (case item_loop prn other m fmt Index new_item args (ps\<lparr>RestoreAttr := 0\<rparr>) of
              None \<Rightarrow> None
            | Some (Index, args, ps) \<Rightarrow>
                print_loop prn other m fmt Index args
                  (if RestoreAttr ps \<noteq> 0 then PSETATTR prn (RestoreAttr ps) ps else ps)))"

text \<open>\<open>_Print\<close>, with the size of its buffer.\<close>

definition print_with :: "nat \<Rightarrow> 's printer \<Rightarrow> other_formats \<Rightarrow> mem \<Rightarrow> text_ptr \<Rightarrow> int list \<Rightarrow> 's pstate \<Rightarrow> 's pstate option" where
  "print_with bufsize prn other m fmt args ps =
     map_option (PFLUSH prn) (print_loop prn other m fmt 0 args (ps\<lparr>Len := 0, Pending := [], Room := bufsize - 1\<rparr>))"

abbreviation (input) PRINT_STRING_LEN :: nat where "PRINT_STRING_LEN \<equiv> 200"

definition Print_i :: "'s printer \<Rightarrow> other_formats \<Rightarrow> mem \<Rightarrow> text_ptr \<Rightarrow> int list \<Rightarrow> 's pstate \<Rightarrow> 's pstate option" where
  "Print_i = print_with PRINT_STRING_LEN"


section \<open>Printing into memory\<close>

text \<open>
  A \<open>POOL_PRINT\<close>. The context is this record and the state of the firmware; a string that is put out is
  the characters up to its NUL, none of which is 0 itself.
\<close>

record pool_print =
  pp_str :: addr
  pp_len :: int
  pp_maxlen :: int

definition wide_bytes :: "int list \<Rightarrow> byte list" where
  "wide_bytes cs = concat (map (\<lambda>c. [byte_of c, byte_of (c div 256)]) cs)"

definition SPrint_i :: "pool_print \<times> ('w, 'z) efi_scheme \<Rightarrow> int list \<Rightarrow> pool_print \<times> ('w, 'z) efi_scheme" where
  "SPrint_i ctx Buffer =
     (case ctx of (spc, s) \<Rightarrow>
        (let n = int (length Buffer);
             n = (if u64 (pp_len spc + n) > pp_maxlen spc then u64 (pp_maxlen spc - pp_len spc) else n);
             d = pp_str spc + 2 * pp_len spc;
             m = (if d \<noteq> 0 then put_bytes (memory s) d (wide_bytes (take (nat n) Buffer)) else memory s);
             spc = spc\<lparr>pp_len := u64 (pp_len spc + n)\<rparr>;
             m = (if pp_len spc < pp_maxlen spc then st16 m (pp_str spc + 2 * pp_len spc) 0
                  else if pp_maxlen spc \<noteq> 0 then st16 m (pp_str spc + 2 * pp_maxlen spc) 0 else m)
         in (spc, s\<lparr>memory := m\<rparr>)))"

definition PoolPrint_i ::
  "'w firmware \<Rightarrow> int \<Rightarrow> pool_print \<times> ('w, 'z) efi_scheme \<Rightarrow> int list \<Rightarrow> pool_print \<times> ('w, 'z) efi_scheme" where
  "PoolPrint_i fw ty ctx Buffer =
     (case ctx of (spc, s) \<Rightarrow>
        (let newlen = u64 (pp_len spc + int (length Buffer) + 1)
         in if newlen > pp_maxlen spc then
              (let newlen = u64 (newlen + int PRINT_STRING_LEN)
               in case ReallocatePool fw ty (pp_str spc) (u64 (pp_len spc * 2)) (u64 (newlen * 2)) s of
                    (p, s) \<Rightarrow>
                      (let spc = spc\<lparr>pp_maxlen := newlen, pp_str := p\<rparr>;
                           spc = (if p = 0 then spc\<lparr>pp_len := 0, pp_maxlen := 0\<rparr> else spc)
                       in SPrint_i (spc, s) Buffer))
            else SPrint_i (spc, s) Buffer))"

text \<open>\<open>ZeroMem(&ps, sizeof(ps))\<close>, with a context.\<close>

definition zero_state :: "'s \<Rightarrow> 's pstate" where
  "zero_state ctx = \<lparr>Context = ctx, Pending = [], Room = 0, Len = 0, Attr = 0, RestoreAttr = 0,
     AttrNorm = 0, AttrHighlight = 0, AttrError = 0\<rparr>"

definition PoolCatPrint_i ::
  "('s \<Rightarrow> int list \<Rightarrow> 's) \<Rightarrow> other_formats \<Rightarrow> mem \<Rightarrow> text_ptr \<Rightarrow> int list \<Rightarrow> 's \<Rightarrow> 's option" where
  "PoolCatPrint_i f other m fmt args spc =
     map_option Context (Print_i \<lparr>Output = f, SetAttr = None\<rparr> other m fmt args (zero_state spc))"

text \<open>The result is the length. The variants without a \<open>va_list\<close> differ in how they take their arguments only.\<close>

definition UnicodeVSPrint ::
  "other_formats \<Rightarrow> mem \<Rightarrow> addr \<Rightarrow> int \<Rightarrow> text_ptr \<Rightarrow> int list \<Rightarrow> ('w, 'z) efi_scheme \<Rightarrow> (int \<times> ('w, 'z) efi_scheme) option" where
  "UnicodeVSPrint other m Str StrSize fmt args s =
     (case PoolCatPrint_i SPrint_i other m fmt args
             (\<lparr>pp_str = Str, pp_len = 0, pp_maxlen = u64 (StrSize div 2 - 1)\<rparr>, s) of
        None \<Rightarrow> None | Some (spc, s) \<Rightarrow> Some (pp_len spc, s))"

definition UnicodeSPrint ::
  "other_formats \<Rightarrow> mem \<Rightarrow> addr \<Rightarrow> int \<Rightarrow> text_ptr \<Rightarrow> int list \<Rightarrow> ('w, 'z) efi_scheme \<Rightarrow> (int \<times> ('w, 'z) efi_scheme) option" where
  "UnicodeSPrint = UnicodeVSPrint"

definition VPoolPrint ::
  "'w firmware \<Rightarrow> int \<Rightarrow> other_formats \<Rightarrow> mem \<Rightarrow> text_ptr \<Rightarrow> int list \<Rightarrow> ('w, 'z) efi_scheme \<Rightarrow> (addr \<times> ('w, 'z) efi_scheme) option" where
  "VPoolPrint fw ty other m fmt args s =
     (case PoolCatPrint_i (PoolPrint_i fw ty) other m fmt args (\<lparr>pp_str = 0, pp_len = 0, pp_maxlen = 0\<rparr>, s) of
        None \<Rightarrow> None | Some (spc, s) \<Rightarrow> Some (pp_str spc, s))"

definition PoolPrint ::
  "'w firmware \<Rightarrow> int \<Rightarrow> other_formats \<Rightarrow> mem \<Rightarrow> text_ptr \<Rightarrow> int list \<Rightarrow> ('w, 'z) efi_scheme \<Rightarrow> (addr \<times> ('w, 'z) efi_scheme) option" where
  "PoolPrint = VPoolPrint"

definition CatPrint ::
  "'w firmware \<Rightarrow> int \<Rightarrow> other_formats \<Rightarrow> mem \<Rightarrow> pool_print \<Rightarrow> text_ptr \<Rightarrow> int list \<Rightarrow> ('w, 'z) efi_scheme
   \<Rightarrow> (pool_print \<times> ('w, 'z) efi_scheme) option" where
  "CatPrint fw ty other m Str fmt args s = PoolCatPrint_i (PoolPrint_i fw ty) other m fmt args (Str, s)"

text \<open>Plain conversion to bytes, \<open>Str[i] = (CHAR8)UnicodeStr[i]\<close>, and the NUL.\<close>

primrec narrow_copy :: "mem \<Rightarrow> addr \<Rightarrow> addr \<Rightarrow> nat \<Rightarrow> mem" where
  "narrow_copy m Str U 0 = m(Str := 0)"
| "narrow_copy m Str U (Suc n) = narrow_copy (m(Str := byte_of (ld16 m U))) (Str + 1) (U + 2) n"

definition AsciiVSPrint ::
  "'w firmware \<Rightarrow> int \<Rightarrow> other_formats \<Rightarrow> mem \<Rightarrow> addr \<Rightarrow> int \<Rightarrow> addr \<Rightarrow> int list \<Rightarrow> ('w, 'z) efi_scheme
   \<Rightarrow> (int \<times> ('w, 'z) efi_scheme) option" where
  "AsciiVSPrint fw ty other m Str StrSize fmt args s =
     (case AllocatePool_lib fw ty (u64 (StrSize * 2)) s of
        (U, s) \<Rightarrow>
          if U = 0 then Some (0, s)
          else
            do {
              (F, s) \<leftarrow> VPoolPrint fw ty other m (Chars [37, 97]) [fmt] s;
              (if F = 0 then Some (0, FreePool_lib fw U s)
               else
                 do {
                   (n, s) \<leftarrow> UnicodeVSPrint other (memory s) U StrSize (Wide F) args s;
                   (let s = FreePool_lib fw F s;
                        s = s\<lparr>memory := narrow_copy (memory s) Str U (nat n)\<rparr>
                    in Some (n, FreePool_lib fw U s))
                 })
            })"

section \<open>Printing on the console\<close>

abbreviation (input) EFI_LIGHTGRAY :: int where "EFI_LIGHTGRAY \<equiv> 7"
abbreviation (input) EFI_WHITE :: int where "EFI_WHITE \<equiv> 15"
abbreviation (input) EFI_YELLOW :: int where "EFI_YELLOW \<equiv> 14"

definition EFI_TEXT_ATTR :: "int \<Rightarrow> int \<Rightarrow> int" where "EFI_TEXT_ATTR f b = f OR push_bit 4 b"

text \<open>
  \<open>Attribute\<close> is that of the console's mode; \<open>cursor\<close> is \<open>SetCursorPosition\<close>. The position is \<open>None\<close> when
  the column is \<open>(UINTN) -1\<close>. The result is the length and the context.
\<close>

definition IPrint_i ::
  "(int \<times> int) option \<Rightarrow> 's printer \<Rightarrow> ('s \<Rightarrow> int \<Rightarrow> int \<Rightarrow> 's) \<Rightarrow> int \<Rightarrow> other_formats \<Rightarrow> mem \<Rightarrow> text_ptr \<Rightarrow> int list \<Rightarrow> 's
   \<Rightarrow> (int \<times> 's) option" where
  "IPrint_i position prn cursor Attribute other m fmt args s =
     (let back = drop_bit 4 Attribute AND 0xF;
          s = (case position of None \<Rightarrow> s | Some (Column, Row) \<Rightarrow> cursor s Column Row);
          ps = (zero_state s)\<lparr>Attr := Attribute, AttrNorm := EFI_TEXT_ATTR EFI_LIGHTGRAY back,
                 AttrHighlight := EFI_TEXT_ATTR EFI_WHITE back, AttrError := EFI_TEXT_ATTR EFI_YELLOW back\<rparr>
      in map_option (\<lambda>ps. (Len ps, Context ps)) (Print_i prn other m fmt args ps))"

definition Print :: "'s printer \<Rightarrow> ('s \<Rightarrow> int \<Rightarrow> int \<Rightarrow> 's) \<Rightarrow> int \<Rightarrow> other_formats \<Rightarrow> mem \<Rightarrow> addr \<Rightarrow> int list \<Rightarrow> 's \<Rightarrow> (int \<times> 's) option" where
  "Print prn cursor Attribute other m fmt args s = IPrint_i None prn cursor Attribute other m (Wide fmt) args s"

definition AsciiPrint :: "'s printer \<Rightarrow> ('s \<Rightarrow> int \<Rightarrow> int \<Rightarrow> 's) \<Rightarrow> int \<Rightarrow> other_formats \<Rightarrow> mem \<Rightarrow> addr \<Rightarrow> int list \<Rightarrow> 's \<Rightarrow> (int \<times> 's) option" where
  "AsciiPrint prn cursor Attribute other m fmt args s = IPrint_i None prn cursor Attribute other m (Narrow fmt) args s"

definition PrintAt ::
  "'s printer \<Rightarrow> ('s \<Rightarrow> int \<Rightarrow> int \<Rightarrow> 's) \<Rightarrow> int \<Rightarrow> other_formats \<Rightarrow> mem \<Rightarrow> int \<Rightarrow> int \<Rightarrow> addr \<Rightarrow> int list \<Rightarrow> 's \<Rightarrow> (int \<times> 's) option" where
  "PrintAt prn cursor Attribute other m Column Row fmt args s =
     IPrint_i (if Column \<noteq> 18446744073709551615 then Some (Column, Row) else None) prn cursor Attribute other m (Wide fmt) args s"

definition VPrint :: "'s printer \<Rightarrow> ('s \<Rightarrow> int \<Rightarrow> int \<Rightarrow> 's) \<Rightarrow> int \<Rightarrow> other_formats \<Rightarrow> mem \<Rightarrow> addr \<Rightarrow> int list \<Rightarrow> 's \<Rightarrow> (int \<times> 's) option" where
  "VPrint prn cursor Attribute other m fmt args s = IPrint_i None prn cursor Attribute other m (Wide fmt) args s"

text \<open>The console is the caller's.\<close>

definition IPrint :: "'s printer \<Rightarrow> ('s \<Rightarrow> int \<Rightarrow> int \<Rightarrow> 's) \<Rightarrow> int \<Rightarrow> other_formats \<Rightarrow> mem \<Rightarrow> addr \<Rightarrow> int list \<Rightarrow> 's \<Rightarrow> (int \<times> 's) option" where
  "IPrint prn cursor Attribute other m fmt args s = IPrint_i None prn cursor Attribute other m (Wide fmt) args s"

definition IPrintAt :: "'s printer \<Rightarrow> ('s \<Rightarrow> int \<Rightarrow> int \<Rightarrow> 's) \<Rightarrow> int \<Rightarrow> other_formats \<Rightarrow> mem \<Rightarrow> int \<Rightarrow> int \<Rightarrow> addr \<Rightarrow> int list \<Rightarrow> 's \<Rightarrow> (int \<times> 's) option" where
  "IPrintAt prn cursor Attribute other m Column Row fmt args s =
     IPrint_i (if Column \<noteq> 18446744073709551615 then Some (Column, Row) else None) prn cursor Attribute other m (Wide fmt) args s"

text \<open>\<open>DbgOut\<close> is the console for messages with the attribute of its mode; without one nothing is put out.\<close>

abbreviation (input) D_WARN :: int where "D_WARN \<equiv> 2"
abbreviation (input) D_ERROR :: int where "D_ERROR \<equiv> 0x80000000"
abbreviation (input) EFI_RED :: int where "EFI_RED \<equiv> 4"

definition DbgPrint ::
  "int \<Rightarrow> ('s printer \<times> int) option \<Rightarrow> int \<Rightarrow> other_formats \<Rightarrow> mem \<Rightarrow> addr \<Rightarrow> int list \<Rightarrow> 's \<Rightarrow> 's option" where
  "DbgPrint EFIDebug DbgOut bits other m fmt args s =
     (if EFIDebug AND bits = 0 then Some s
      else
        (let (prn, SavedAttribute) =
               (case DbgOut of None \<Rightarrow> (\<lparr>Output = (\<lambda>s _. s), SetAttr = None\<rparr>, EFI_TEXT_ATTR EFI_LIGHTGRAY EFI_RED) | Some d \<Rightarrow> d);
             back = drop_bit 4 SavedAttribute AND 0xF;
             ps = (zero_state s)\<lparr>Attr := SavedAttribute, AttrNorm := EFI_TEXT_ATTR EFI_LIGHTGRAY back,
                    AttrHighlight := EFI_TEXT_ATTR EFI_WHITE back, AttrError := EFI_TEXT_ATTR EFI_YELLOW back\<rparr>;
             a = AttrNorm ps;
             a = (if bits AND D_WARN \<noteq> 0 then AttrHighlight ps else a);
             a = (if bits AND D_ERROR \<noteq> 0 then AttrError ps else a);
             ps = (case SetAttr prn of None \<Rightarrow> ps | Some f \<Rightarrow> ps\<lparr>Attr := a, Context := f (Context ps) a\<rparr>)
         in map_option (\<lambda>ps. case SetAttr prn of None \<Rightarrow> Context ps | Some f \<Rightarrow> f (Context ps) SavedAttribute)
              (Print_i prn other m (Narrow fmt) args ps)))"

section \<open>Texts that are printed without a limit\<close>

text \<open>
  \<open>UnicodeSPrint (Buffer, 0, format, args)\<close> into \<open>Scratch\<close>: what is put out one string after the other.
\<close>

definition chars :: "string \<Rightarrow> int list" where "chars s = map (\<lambda>c. int (of_char c)) s"

definition no_formats :: other_formats where
  "no_formats = \<lparr>DevicePathToStr = (\<lambda>_. []), FloatToString = (\<lambda>_ _. []), GuidText = (\<lambda>_. []), StatusText = (\<lambda>_. []), TimeText = (\<lambda>_. [])\<rparr>"

definition text_of :: "string \<Rightarrow> int list \<Rightarrow> int list" where
  "text_of fmt args =
     (case PoolCatPrint_i (@) no_formats (\<lambda>_. 0) (Chars (chars fmt)) args [] of None \<Rightarrow> [] | Some t \<Rightarrow> t)"

text \<open>\<open>EFIERR\<close> sets the sign bit.\<close>

definition EFIERR :: "int \<Rightarrow> int" where "EFIERR a = 0x8000000000000000 OR a"

definition ErrorCodeTable :: "(int \<times> string) list" where
  "ErrorCodeTable =
     [(EFI_SUCCESS, ''Success''), (EFIERR 1, ''Load Error''), (EFIERR 2, ''Invalid Parameter''), (EFIERR 3, ''Unsupported''),
      (EFIERR 4, ''Bad Buffer Size''), (EFIERR 5, ''Buffer Too Small''), (EFIERR 6, ''Not Ready''), (EFIERR 7, ''Device Error''),
      (EFIERR 8, ''Write Protected''), (EFIERR 9, ''Out of Resources''), (EFIERR 10, ''Volume Corrupt''), (EFIERR 11, ''Volume Full''),
      (EFIERR 12, ''No Media''), (EFIERR 13, ''Media changed''), (EFIERR 14, ''Not Found''), (EFIERR 15, ''Access Denied''),
      (EFIERR 16, ''No Response''), (EFIERR 17, ''No mapping''), (EFIERR 18, ''Time out''), (EFIERR 19, ''Not started''),
      (EFIERR 20, ''Already started''), (EFIERR 21, ''Aborted''), (EFIERR 22, ''ICMP Error''), (EFIERR 23, ''TFTP Error''),
      (EFIERR 24, ''Protocol Error''), (EFIERR 25, ''Incompatible Version''), (EFIERR 26, ''Security Policy Violation''),
      (EFIERR 27, ''CRC Error''), (EFIERR 28, ''End of Media''), (EFIERR 31, ''End of File''), (EFIERR 32, ''Invalid Languages''),
      (EFIERR 33, ''Compromised Data''), (EFIERR 34, ''IP Address Conflict''), (EFIERR 35, ''HTTP Error''),
      (1, ''Warning Unknown Glyph''), (2, ''Warning Delete Failure''), (3, ''Warning Write Failure''),
      (4, ''Warning Buffer Too Small''), (5, ''Warning Stale Data''), (6, ''Warning File System''), (7, ''Warning Reset Required'')]"

definition StatusToString :: "int \<Rightarrow> int list" where
  "StatusToString st =
     (case map_of ErrorCodeTable st of Some d \<Rightarrow> chars d | None \<Rightarrow> text_of ''%X'' [st])"

text \<open>\<open>known\<close> is the table \<open>KnownGuids\<close>, with the addresses of the GUIDs.\<close>

primrec guid_search :: "mem \<Rightarrow> addr \<Rightarrow> (addr \<times> string) list \<Rightarrow> string option" where
  "guid_search m g [] = None"
| "guid_search m g (x # known) = (if RtCompareGuid m g (fst x) = 0 then Some (snd x) else guid_search m g known)"

definition GuidToString :: "mem \<Rightarrow> (addr \<times> string) list \<Rightarrow> addr \<Rightarrow> int list" where
  "GuidToString m known g =
     (case guid_search m g known of
        Some n \<Rightarrow> text_of n []
      | None \<Rightarrow>
          text_of ''%08x-%04x-%04x-%02x%02x-%02x%02x%02x%02x%02x%02x''
            ([ld_le m g 4, ld_le m (g + 4) 2, ld_le m (g + 6) 2] @ map (\<lambda>i. uint (m (g + 8 + int i))) [0..<8]))"

definition TimeToString :: "mem \<Rightarrow> addr \<Rightarrow> int list" where
  "TimeToString m t =
     (let hour = uint (m (t + 4));
          (Hour, AmPm) = (if hour = 0 then (12, 97) else if hour \<ge> 12 then (if hour \<ge> 13 then hour - 12 else hour, 112) else (hour, 97))
      in text_of ''%02d/%02d/%02d  %02d:%02d%c''
           [uint (m (t + 2)), uint (m (t + 3)), ld_le m t 2 mod 100, Hour, uint (m (t + 5)), AmPm])"

declare parse_width.simps [code] item_loop.simps [code] print_loop.simps [code]

end
