(* ===== verification/Print_Spec.thy ===== *)
theory Print_Spec
  imports Print Dpath_Spec
begin

text \<open>
  What \<open>Print\<close> does: two prints that start in related states stay related (the locale \<open>lockstep\<close>); so the size
  of the buffer does not show in what is put out, a print into a buffer of the caller is the beginning of
  the same text, and text without a \<open>%\<close> comes out as it is. Numbers are read back from their texts.
\<close>

section \<open>Two prints of the same format\<close>

text \<open>Two results of \<open>convert\<close> that differ in the states only.\<close>

definition same_conversion ::
  "('s \<Rightarrow> 't \<Rightarrow> bool) \<Rightarrow> 'i \<times> 'a \<times> 's \<times> 'x \<times> 'c \<Rightarrow> 'i \<times> 'a \<times> 't \<times> 'x \<times> 'c \<Rightarrow> bool" where
  "same_conversion R x y =
     (case (x, y) of ((it, args, ps, t, a), (it', args', qs, t', a')) \<Rightarrow> it = it' \<and> args = args' \<and> R ps qs \<and> t = t' \<and> a = a')"

lemma same_conversion_if:
  "(b \<Longrightarrow> same_conversion R x y) \<Longrightarrow> (\<not> b \<Longrightarrow> same_conversion R x' y') \<Longrightarrow> same_conversion R (if b then x else x') (if b then y else y')"
  by simp

locale lockstep =
  fixes p1 :: "'s printer" and p2 :: "'t printer" and R :: "'s pstate \<Rightarrow> 't pstate \<Rightarrow> bool"
  assumes put: "R ps qs \<Longrightarrow> R (PPUTC p1 c ps) (PPUTC p2 c qs)"
    and attr: "R ps qs \<Longrightarrow> R (PSETATTR p1 a ps) (PSETATTR p2 a qs)"
    and restore: "R ps qs \<Longrightarrow> R (ps\<lparr>RestoreAttr := 0\<rparr>) (qs\<lparr>RestoreAttr := 0\<rparr>)"
    and reads: "R ps qs \<Longrightarrow> RestoreAttr ps = RestoreAttr qs \<and> AttrNorm ps = AttrNorm qs \<and>
      AttrHighlight ps = AttrHighlight qs \<and> AttrError ps = AttrError qs"
begin

lemma times: "R ps qs \<Longrightarrow> R (put_times p1 n c ps) (put_times p2 n c qs)"
  by (induction n arbitrary: ps qs) (auto intro: put)

lemma put_all: "R ps qs \<Longrightarrow> R (put_text p1 m t i n ps) (put_text p2 m t i n qs)"
  by (induction n arbitrary: i ps qs) (auto intro: put)

lemma item: "R ps qs \<Longrightarrow> R (PITEM p1 m it t ps) (PITEM p2 m it t qs)"
  by (auto simp: PITEM_def Let_def intro: times put_all)

lemma conv: "R ps qs \<Longrightarrow> same_conversion R (convert p1 other c it args ps) (convert p2 other c it args qs)"
  using reads [of ps qs] attr [of ps qs] unfolding convert_def Let_def split_beta
  by (intro same_conversion_if; simp add: same_conversion_def)

lemma item_loop_sim:
  assumes "item_loop p1 other m fmt i it args ps = Some (i', args', ps')" "R ps qs"
  shows "\<exists>qs'. item_loop p2 other m fmt i it args qs = Some (i', args', qs') \<and> R ps' qs'"
proof -
  have "prn = p1 \<longrightarrow> (\<forall>qs. R ps qs \<longrightarrow>
      (case y of (i', args', ps') \<Rightarrow> \<exists>qs'. item_loop p2 other m fmt i it args qs = Some (i', args', qs') \<and> R ps' qs'))"
    if "item_loop prn other m fmt i it args ps = Some y" for prn other m fmt i it args ps y
  proof (rule item_loop.raw_induct [OF _ that], goal_cases)
    case (1 f prn other m fmt i it args ps y)
    note IH = 1(1) and run = 1(2)
    let ?c = "PGETC m fmt i"
    show ?case
    proof (intro impI allI)
      fix qs assume eq: "prn = p1" and r: "R ps qs"
      consider "?c = 0" | "?c \<noteq> 0" "49 \<le> ?c \<and> ?c \<le> 57" | "?c \<noteq> 0" "(49 \<le> ?c \<and> ?c \<le> 57) = False" by blast
      then show "case y of (i', args', ps') \<Rightarrow> \<exists>qs'. item_loop p2 other m fmt i it args qs = Some (i', args', qs') \<and> R ps' qs'"
      proof cases
        case 1
        then show ?thesis using run r by (subst item_loop.simps) auto
      next
        case 2
        obtain v j where w: "parse_width m fmt ?c (i + 1) 0 = Some (v, j)" using run 2 by (auto simp: Let_def split: option.splits)
        have "f prn other m fmt j (set_width it v) args ps = Some y" using run 2 w by (simp add: Let_def)
        from IH [OF this] eq r show ?thesis using 2 w by (subst item_loop.simps) (simp add: Let_def)
      next
        case 3
        obtain it1 args1 ps1 t a where c: "convert p1 other ?c it args ps = (it1, args1, ps1, t, a)" by (metis prod_cases5)
        obtain qs1 where q: "convert p2 other ?c it args qs = (it1, args1, qs1, t, a)" "R ps1 qs1" using conv [OF r, of other ?c it args] c by (auto simp: same_conversion_def split: prod.splits)
        have step: "item_loop p2 other m fmt i it args qs =
            (case t of Some t \<Rightarrow> Some (i + 1, args1, PITEM p2 m it1 t qs1)
             | None \<Rightarrow> if a \<noteq> 0 then Some (i + 1, args1, (PSETATTR p2 a qs1)\<lparr>RestoreAttr := 0\<rparr>)
                       else item_loop p2 other m fmt (i + 1) it1 args1 qs1)"
          by (subst item_loop.simps) (simp only: Let_def 3 q(1) if_False prod.case)
        have run1: "(case t of Some t \<Rightarrow> Some (i + 1, args1, PITEM p1 m it1 t ps1)
             | None \<Rightarrow> if a \<noteq> 0 then Some (i + 1, args1, (PSETATTR p1 a ps1)\<lparr>RestoreAttr := 0\<rparr>)
                       else f p1 other m fmt (i + 1) it1 args1 ps1) = Some y"
          using run unfolding eq by (simp only: Let_def 3 c if_False prod.case)
        show ?thesis
        proof (cases t)
          case (Some t')
          then show ?thesis using run1 step item [OF q(2)] by auto
        next
          case None
          then show ?thesis
          proof (cases "a = 0")
            case True
            then have "f prn other m fmt (i + 1) it1 args1 ps1 = Some y" using run1 None eq by simp
            from IH [OF this] eq q(2) show ?thesis using None True step by simp
          next
            case False
            then show ?thesis using run1 step None restore [OF attr [OF q(2)]] by auto
          qed
        qed
      qed
    qed
  qed
  from this [OF assms(1)] assms(2) show ?thesis by auto
qed

lemma print_loop_sim:
  assumes "print_loop p1 other m fmt i args ps = Some ps'" "R ps qs"
  shows "\<exists>qs'. print_loop p2 other m fmt i args qs = Some qs' \<and> R ps' qs'"
proof -
  have "prn = p1 \<longrightarrow> (\<forall>qs. R ps qs \<longrightarrow> (\<exists>qs'. print_loop p2 other m fmt i args qs = Some qs' \<and> R ps' qs'))"
    if "print_loop prn other m fmt i args ps = Some ps'" for prn other m fmt i args ps ps'
  proof (rule print_loop.raw_induct [OF _ that], goal_cases)
    case (1 f prn other m fmt i args ps ps')
    note IH = 1(1) and run = 1(2)
    let ?c = "PGETC m fmt i"
    show ?case
    proof (intro impI allI)
      fix qs assume eq: "prn = p1" and r: "R ps qs"
      consider "?c = 0" | "?c \<noteq> 0" "?c \<noteq> 37" | "?c = 37" by blast
      then show "\<exists>qs'. print_loop p2 other m fmt i args qs = Some qs' \<and> R ps' qs'"
      proof cases
        case 1
        then show ?thesis using run r by (subst print_loop.simps) auto
      next
        case 2
        then have "f prn other m fmt (i + 1) args (PPUTC p1 ?c ps) = Some ps'" using run eq by (simp add: Let_def)
        from IH [OF this] eq put [OF r] show ?thesis using 2 by (subst print_loop.simps) (simp add: Let_def)
      next
        case 3
        obtain j args1 ps1 where a: "item_loop p1 other m fmt (i + 1) new_item args (ps\<lparr>RestoreAttr := 0\<rparr>) = Some (j, args1, ps1)"
          and b: "f prn other m fmt j args1 (if RestoreAttr ps1 \<noteq> 0 then PSETATTR p1 (RestoreAttr ps1) ps1 else ps1) = Some ps'"
          using run 3 eq by (auto simp: Let_def split: option.splits)
        obtain qs1 where q: "item_loop p2 other m fmt (i + 1) new_item args (qs\<lparr>RestoreAttr := 0\<rparr>) = Some (j, args1, qs1)" "R ps1 qs1"
          using item_loop_sim [OF a restore [OF r]] by blast
        have "R (if RestoreAttr ps1 \<noteq> 0 then PSETATTR p1 (RestoreAttr ps1) ps1 else ps1)
            (if RestoreAttr qs1 \<noteq> 0 then PSETATTR p2 (RestoreAttr qs1) qs1 else qs1)"
          using reads [OF q(2)] attr [OF q(2)] q(2) by simp
        then obtain qs' where "print_loop p2 other m fmt j args1 (if RestoreAttr qs1 \<noteq> 0 then PSETATTR p2 (RestoreAttr qs1) qs1 else qs1) = Some qs'"
          "R ps' qs'" using IH [OF b] eq by blast
        then show ?thesis using 3 q(1) by (subst print_loop.simps) (simp add: Let_def)
      qed
    qed
  qed
  from this [OF assms(1)] assms(2) show ?thesis by blast
qed

end

lemma map_option_related: "rel_option R x y \<Longrightarrow> (\<And>a b. R a b \<Longrightarrow> f a = g b) \<Longrightarrow> map_option f x = map_option g y"
  by (cases x; cases y) auto

context lockstep begin

text \<open>Nothing in the laws prefers one side.\<close>

lemma turned: "lockstep p2 p1 (\<lambda>qs ps. R ps qs)"
  by unfold_locales (auto intro: put attr restore dest: reads)

lemma loops:
  assumes "R ps qs"
  shows "rel_option R (print_loop p1 other m fmt i args ps) (print_loop p2 other m fmt i args qs)"
  using print_loop_sim [of other m fmt i args ps _ qs] lockstep.print_loop_sim [OF turned, of other m fmt i args qs _ ps] assms
  by (cases "print_loop p1 other m fmt i args ps"; cases "print_loop p2 other m fmt i args qs"; fastforce)

end

section \<open>The buffer\<close>

text \<open>The state after a flush, without the size of the buffer.\<close>

definition seen :: "'s printer \<Rightarrow> 's pstate \<Rightarrow> 's pstate" where
  "seen prn ps = ps\<lparr>Context := Output prn (Context ps) (Pending ps), Pending := [], Room := 0\<rparr>"

definition plain_put :: "'s printer \<Rightarrow> int \<Rightarrow> 's pstate \<Rightarrow> 's pstate" where
  "plain_put prn c q = q\<lparr>Context := Output prn (Context q) [c], Len := u64 (Len q + 1)\<rparr>"

lemma seen_reads:
  "RestoreAttr (seen prn ps) = RestoreAttr ps" "Attr (seen prn ps) = Attr ps" "Len (seen prn ps) = Len ps"
  "AttrNorm (seen prn ps) = AttrNorm ps" "AttrHighlight (seen prn ps) = AttrHighlight ps" "AttrError (seen prn ps) = AttrError ps"
  by (simp_all add: seen_def)

lemma flushed_seen: "Len (PFLUSH prn ps) = Len (seen prn ps)" "Context (PFLUSH prn ps) = Context (seen prn ps)"
  by (simp_all add: seen_def PFLUSH_def)

lemma seen_restore: "seen prn (ps\<lparr>RestoreAttr := a\<rparr>) = (seen prn ps)\<lparr>RestoreAttr := a\<rparr>"
  by (simp add: seen_def)

lemma seen_attr:
  "seen prn (PSETATTR prn a ps) =
     (let q = (seen prn ps)\<lparr>RestoreAttr := Attr (seen prn ps), Attr := a\<rparr>
      in q\<lparr>Context := Output prn (case SetAttr prn of None \<Rightarrow> Context q | Some f \<Rightarrow> f (Context q) a) []\<rparr>)"
  by (simp add: seen_def PSETATTR_def PFLUSH_def Let_def split: option.splits)

text \<open>An output to which two strings can be given one after the other or together.\<close>

locale appending =
  fixes prn :: "'s printer"
  assumes append: "Output prn (Output prn s xs) ys = Output prn s (xs @ ys)"
begin

lemma seen_put_one: "seen prn (put_one prn c ps) = plain_put prn c (seen prn ps)"
  by (simp add: seen_def put_one_def PFLUSH_def plain_put_def Let_def append)

lemma seen_put: "seen prn (PPUTC prn c ps) = plain_put prn c (if c = 10 then plain_put prn 13 (seen prn ps) else seen prn ps)"
  by (simp add: PPUTC_def seen_put_one)

end

sublocale appending \<subseteq> lockstep prn prn "\<lambda>ps qs. seen prn ps = seen prn qs"
proof unfold_locales
  fix ps qs a c assume eq: "seen prn ps = seen prn qs"
  show "seen prn (PPUTC prn c ps) = seen prn (PPUTC prn c qs)" by (simp add: seen_put eq)
  show "seen prn (PSETATTR prn a ps) = seen prn (PSETATTR prn a qs)" by (simp add: seen_attr eq)
  show "seen prn (ps\<lparr>RestoreAttr := 0\<rparr>) = seen prn (qs\<lparr>RestoreAttr := 0\<rparr>)" by (simp add: seen_restore eq)
  show "RestoreAttr ps = RestoreAttr qs \<and> AttrNorm ps = AttrNorm qs \<and> AttrHighlight ps = AttrHighlight qs \<and> AttrError ps = AttrError qs"
    using eq by (metis seen_reads)
qed

context appending begin

lemma any_buffer:
  "map_option (\<lambda>ps. (Len ps, Context ps)) (print_with n prn other m fmt args ps) =
   map_option (\<lambda>ps. (Len ps, Context ps)) (print_with n' prn other m fmt args ps)"
  unfolding print_with_def option.map_comp
  by (rule map_option_related [OF loops]) (simp_all add: seen_def [of prn "ps\<lparr>Len := 0, Pending := [], Room := r\<rparr>" for r] flushed_seen)

end

section \<open>Printing into a buffer\<close>

definition list_printer :: "int list printer" where
  "list_printer = \<lparr>Output = (@), SetAttr = None\<rparr>"

interpretation listed: appending list_printer
  by unfold_locales (simp add: list_printer_def)

text \<open>The whole text of a format.\<close>

definition text_printed :: "other_formats \<Rightarrow> mem \<Rightarrow> text_ptr \<Rightarrow> int list \<Rightarrow> int list option" where
  "text_printed other m fmt args = PoolCatPrint_i (@) other m fmt args []"

text \<open>A buffer with room for \<open>K\<close> characters and a NUL that has taken a text.\<close>

definition in_buffer :: "addr \<Rightarrow> nat \<Rightarrow> mem \<Rightarrow> int list \<Rightarrow> mem" where
  "in_buffer Str K m t = st16 (put_bytes m Str (wide_bytes (take K t))) (Str + 2 * int (min (length t) K)) 0"

lemma length_wide_bytes [simp]: "length (wide_bytes cs) = 2 * length cs"
  by (induction cs) (auto simp: wide_bytes_def)

lemma wide_bytes_append: "wide_bytes (xs @ ys) = wide_bytes xs @ wide_bytes ys"
  by (simp add: wide_bytes_def)

lemma in_buffer_outside: "a < Str \<or> Str + 2 * int K + 2 \<le> a \<Longrightarrow> in_buffer Str K m t a = m a"
  unfolding in_buffer_def by (subst st16_def, subst st_le_outside) (auto intro!: put_bytes_outside)

lemma st16_over: "length B \<noteq> 1 \<Longrightarrow> st16 (put_bytes (st16 m p c) p B) (p + int (length B)) c = st16 (put_bytes m p B) (p + int (length B)) c"
  by (auto simp: st16_def st_le_def put_bytes_def fun_eq_iff)

lemma in_buffer_append:
  "st16 (put_bytes (in_buffer Str K m t) (Str + 2 * int (min (length t) K)) (wide_bytes (take (K - length t) xs)))
     (Str + 2 * int (min (length (t @ xs)) K)) 0 = in_buffer Str K m (t @ xs)"
proof -
  let ?B = "wide_bytes (take (K - length t) xs)" and ?p = "Str + 2 * int (min (length t) K)"
  have e: "Str + 2 * int (min (length (t @ xs)) K) = ?p + int (length ?B)" by (auto simp: min_def)
  have "length ?B \<noteq> 1" by simp
  from st16_over [OF this, of "put_bytes m Str (wide_bytes (take K t))" ?p 0] show ?thesis
    using put_bytes_append [of m Str "wide_bytes (take K t)" ?B]
    unfolding e in_buffer_def by (simp add: wide_bytes_append min.commute)
qed

text \<open>The context of \<open>SPrint_i\<close> when the text \<open>t\<close> has been put out; before the first string nothing is stored.\<close>

definition sprinted :: "addr \<Rightarrow> nat \<Rightarrow> ('w, 'z) efi_scheme \<Rightarrow> int list \<Rightarrow> pool_print \<times> ('w, 'z) efi_scheme" where
  "sprinted Str K s t =
     (\<lparr>pp_str = Str, pp_len = int (min (length t) K), pp_maxlen = int K\<rparr>, s\<lparr>memory := in_buffer Str K (memory s) t\<rparr>)"

definition sprint_start :: "addr \<Rightarrow> nat \<Rightarrow> ('w, 'z) efi_scheme \<Rightarrow> pool_print \<times> ('w, 'z) efi_scheme" where
  "sprint_start Str K s = (\<lparr>pp_str = Str, pp_len = 0, pp_maxlen = int K\<rparr>, s)"

lemma SPrint_step:
  assumes "0 < Str" "0 < K" "K < 2 ^ 63" "length xs < 2 ^ 63"
    "spc = \<lparr>pp_str = Str, pp_len = int k, pp_maxlen = int K\<rparr>" "k \<le> K"
  shows "SPrint_i (spc, s) xs =
     (spc\<lparr>pp_len := int (min (k + length xs) K)\<rparr>,
      s\<lparr>memory := st16 (put_bytes (memory s) (Str + 2 * int k) (wide_bytes (take (K - k) xs))) (Str + 2 * int (min (k + length xs) K)) 0\<rparr>)"
proof -
  have u: "u64 (int k + int (length xs)) = int k + int (length xs)" "u64 (int K - int k) = int (K - k)"
    "nat (int K - int k) = K - k"
    using assms by (auto intro: u64_id simp: of_nat_diff)
  show ?thesis
  proof (cases "k + length xs > K")
    case True
    then show ?thesis using assms u by (simp add: SPrint_i_def Let_def u64_id)
  next
    case False
    then consider "k + length xs < K" | "K = k + length xs" by linarith
    then show ?thesis
    proof cases
      case 1
      then show ?thesis using assms u by (simp add: SPrint_i_def Let_def u64_id)
    next
      case 2
      then have "int k + int (length xs) \<noteq> 0" using assms(2) by linarith
      then show ?thesis using 2 assms(1,3-6) u(1) by (auto simp: SPrint_i_def Let_def)
    qed
  qed
qed


lemma SPrint_continues:
  assumes "0 < Str" "0 < K" "K < 2 ^ 63" "length xs < 2 ^ 63"
    "ctx = sprinted Str K s t \<or> ctx = sprint_start Str K s \<and> t = []"
  shows "SPrint_i ctx xs = sprinted Str K s (t @ xs)"
  using assms(5)
proof
  assume "ctx = sprinted Str K s t"
  moreover have "min (min (length t) K + length xs) K = min (length (t @ xs)) K" by (auto simp: min_def)
  moreover have "take (K - min (length t) K) xs = take (K - length t) xs" by (simp add: min_def)
  ultimately show ?thesis
    using SPrint_step [OF assms(1-4) refl, of "min (length t) K" "s\<lparr>memory := in_buffer Str K (memory s) t\<rparr>"]
      in_buffer_append [of Str K "memory s" t xs]
    by (simp add: sprinted_def)
next
  assume "ctx = sprint_start Str K s \<and> t = []"
  then show ?thesis using SPrint_step [OF assms(1-4) refl, of 0 s]
    by (simp add: sprinted_def sprint_start_def in_buffer_def min.commute)
qed


text \<open>A print into the buffer beside a print of the same into a list.\<close>

definition beside :: "addr \<Rightarrow> nat \<Rightarrow> ('w, 'z) efi_scheme \<Rightarrow> (pool_print \<times> ('w, 'z) efi_scheme) pstate \<Rightarrow> int list pstate \<Rightarrow> bool" where
  "beside Str K s ps qs \<longleftrightarrow> 0 < Str \<and> 0 < K \<and> K < 2 ^ 63 \<and>
     (Context ps = sprinted Str K s (Context qs) \<or> Context ps = sprint_start Str K s \<and> Context qs = [])
     \<and> Pending qs = Pending ps \<and> Len qs = Len ps \<and> RestoreAttr qs = RestoreAttr ps \<and> Attr qs = Attr ps
     \<and> AttrNorm qs = AttrNorm ps \<and> AttrHighlight qs = AttrHighlight ps \<and> AttrError qs = AttrError ps \<and> Room qs = 199
     \<and> Room ps = 199 \<and> length (Pending ps) < 199"

abbreviation (input) sprinter :: "(pool_print \<times> ('w, 'z) efi_scheme) printer" where
  "sprinter \<equiv> \<lparr>Output = SPrint_i, SetAttr = None\<rparr>"

lemma beside_flush:
  assumes "beside Str K s ps qs" "length xs < 200"
  shows "beside Str K s (PFLUSH sprinter (ps\<lparr>Pending := xs\<rparr>)) (PFLUSH list_printer (qs\<lparr>Pending := xs\<rparr>))"
  using assms SPrint_continues [of Str K xs "Context ps" s "Context qs"]
  by (auto simp: beside_def PFLUSH_def list_printer_def)

lemma beside_put_one:
  assumes "beside Str K s ps qs"
  shows "beside Str K s (put_one sprinter c ps) (put_one list_printer c qs)"
proof -
  let ?xs = "Pending ps @ [c]"
  have b: "beside Str K s (ps\<lparr>Len := u64 (Len ps + 1)\<rparr>) (qs\<lparr>Len := u64 (Len qs + 1)\<rparr>)" and p: "Pending qs = Pending ps" "Room qs = 199" "Room ps = 199"
    and l: "length (Pending ps) < 199"
    using assms by (auto simp: beside_def)
  show ?thesis
  proof (cases "length ?xs \<ge> 199")
    case True
    then have "put_one sprinter c ps = PFLUSH sprinter (ps\<lparr>Len := u64 (Len ps + 1), Pending := ?xs\<rparr>)"
      "put_one list_printer c qs = PFLUSH list_printer (qs\<lparr>Len := u64 (Len qs + 1), Pending := ?xs\<rparr>)"
      using p by (simp add: put_one_def PFLUSH_def; fail) (cases qs; use True p in \<open>simp add: put_one_def PFLUSH_def\<close>)
    then show ?thesis using beside_flush [OF b, of ?xs] l by simp
  next
    case False
    then show ?thesis using b p by (auto simp: put_one_def Let_def beside_def)
  qed
qed

interpretation sprint: lockstep sprinter list_printer "beside Str K s" for Str K s
proof unfold_locales
  fix ps qs a c assume b: "beside Str K s ps qs"
  note one = beside_put_one
  show "beside Str K s (PPUTC sprinter c ps) (PPUTC list_printer c qs)"
    using b one [OF b] one [OF one [OF b], of 10 13] by (simp add: PPUTC_def one)
  have "qs\<lparr>Pending := Pending ps\<rparr> = qs" "ps\<lparr>Pending := Pending ps\<rparr> = ps" "length (Pending ps) < 200"
    using b by (cases qs; simp add: beside_def)+
  then have "beside Str K s (PFLUSH sprinter ps) (PFLUSH list_printer qs)"
    using beside_flush [OF b, of "Pending ps"] by simp
  then show "beside Str K s (PSETATTR sprinter a ps) (PSETATTR list_printer a qs)"
    by (auto simp: PSETATTR_def Let_def beside_def list_printer_def)
qed (auto simp: beside_def)

lemma print_into_buffer:
  assumes "0 < Str" "4 \<le> StrSize" "StrSize < 2 ^ 63"
  shows "UnicodeVSPrint other m Str StrSize fmt args s =
     map_option (\<lambda>t. (int (min (length t) (nat (StrSize div 2 - 1))), s\<lparr>memory := in_buffer Str (nat (StrSize div 2 - 1)) (memory s) t\<rparr>))
       (text_printed other m fmt args)"
proof -
  define K where "K = nat (StrSize div 2 - 1)"
  have K: "0 < K" "K < 2 ^ 63" "u64 (StrSize div 2 - 1) = int K" using assms by (auto simp: K_def u64_id)
  have b: "beside Str K s ((zero_state (sprint_start Str K s))\<lparr>Len := 0, Pending := [], Room := 199\<rparr>)
      ((zero_state [])\<lparr>Len := 0, Pending := [], Room := 199\<rparr>)"
    using assms(1) K by (simp add: beside_def zero_state_def)
  have f: "Context (PFLUSH sprinter ps) = sprinted Str K s (Context (PFLUSH list_printer qs))" if "beside Str K s ps qs" for ps and qs :: "int list pstate"
    using that SPrint_continues [OF assms(1) K(1,2), of "Pending ps" "Context ps" s "Context qs"]
    by (auto simp: beside_def PFLUSH_def list_printer_def)
  have "PoolCatPrint_i SPrint_i other m fmt args (sprint_start Str K s) = map_option (sprinted Str K s) (text_printed other m fmt args)"
    unfolding PoolCatPrint_i_def Print_i_def print_with_def text_printed_def option.map_comp list_printer_def [symmetric]
    by (rule map_option_related [OF sprint.loops]) (use b f in simp_all)
  then show ?thesis
    by (cases "text_printed other m fmt args") (auto simp: UnicodeVSPrint_def K K_def [symmetric] sprint_start_def sprinted_def)
qed

section \<open>The text of a format\<close>

text \<open>What a list printer has been given; a line feed gets a carriage return.\<close>

definition listed :: "int list pstate \<Rightarrow> int list" where
  "listed ps = Context ps @ Pending ps"

definition crlf :: "int list \<Rightarrow> int list" where
  "crlf cs = concat (map (\<lambda>c. if c = 10 then [13, 10] else [c]) cs)"

lemma crlf_simps [simp]: "crlf [] = []" "crlf (c # cs) = (if c = 10 then [13, 10] else [c]) @ crlf cs" "crlf (xs @ ys) = crlf xs @ crlf ys"
  by (simp_all add: crlf_def)

lemma crlf_plain: "10 \<notin> set cs \<Longrightarrow> crlf cs = cs"
  by (induction cs) auto

lemma listed_put_one: "listed (put_one list_printer c ps) = listed ps @ [c]"
  by (simp add: listed_def put_one_def PFLUSH_def list_printer_def Let_def)

lemma listed_put: "listed (PPUTC list_printer c ps) = listed ps @ crlf [c]"
  by (simp add: PPUTC_def listed_put_one)

lemma listed_times: "listed (put_times list_printer n c ps) = listed ps @ crlf (replicate n c)"
  by (induction n arbitrary: ps) (auto simp: listed_put)

lemma listed_text: "listed (put_text list_printer m t i n ps) = listed ps @ crlf (map (PGETC m t) [i..<i + n])"
  by (induction n arbitrary: i ps) (auto simp: listed_put upt_rec)

text \<open>An item with the characters \<open>cs\<close> is filled to its two widths.\<close>

definition padded :: "print_item \<Rightarrow> int list \<Rightarrow> int list" where
  "padded it cs =
     (let n = length cs; fw = (if FieldWidth it = NO_WIDTH then int n else FieldWidth it);
          w = max (Width it) (int n);
          spaces = replicate (nat (fw - w)) 32; item = replicate (nat (w - int n)) (Pad it) @ cs
      in if PadBefore it then spaces @ item else item @ spaces)"

lemma listed_item:
  "listed (PITEM list_printer m it t ps) = listed ps @ crlf (padded it (map (PGETC m t) [0..<item_len m t (FieldWidth it) 0]))"
  by (simp add: PITEM_def padded_def Let_def listed_times listed_text max_def)

lemma listed_attr [simp]: "listed (PSETATTR list_printer a ps) = listed ps" "listed (PFLUSH list_printer ps) = listed ps"
  "listed (ps\<lparr>RestoreAttr := a\<rparr>) = listed ps"
  by (simp_all add: listed_def PSETATTR_def PFLUSH_def list_printer_def Let_def)

text \<open>The characters of the local buffer, when none of them is 0 and they are not cut by the field width.\<close>

lemma item_len_Chars:
  assumes "0 \<notin> set cs" "int (length cs) < fw" "i \<le> length cs"
  shows "item_len m (Chars cs) fw i = length cs"
  using assms(3)
proof (induction "length cs - i" arbitrary: i)
  case 0
  then show ?case using assms(2) by (subst item_len.simps) simp
next
  case (Suc n)
  then have "cs ! i \<noteq> 0" using assms(1) by (metis nth_mem zero_less_Suc zero_less_diff)
  moreover have "item_len m (Chars cs) fw (i + 1) = length cs" using Suc by simp
  ultimately show ?case using Suc.prems Suc.hyps(2) assms(2) by (subst item_len.simps) simp
qed

lemma listed_chars:
  assumes "0 \<notin> set cs" "10 \<notin> set cs" "length cs < 2 ^ 63" "FieldWidth it = NO_WIDTH" "Width it = 0"
  shows "listed (PITEM list_printer m it (Chars cs) ps) = listed ps @ cs"
proof -
  have "map (PGETC m (Chars cs)) [0..<length cs] = cs" by (rule nth_equalityI) simp_all
  then show ?thesis using assms item_len_Chars [of cs NO_WIDTH 0 m]
    by (simp add: listed_item padded_def crlf_plain)
qed

lemma text_printed_listed:
  "text_printed other m fmt args =
     map_option listed (print_loop list_printer other m fmt 0 args ((zero_state [])\<lparr>Len := 0, Pending := [], Room := 199\<rparr>))"
proof -
  have "Context (PFLUSH list_printer ps) = listed ps" for ps by (simp add: PFLUSH_def listed_def list_printer_def)
  then show ?thesis
    unfolding text_printed_def PoolCatPrint_i_def Print_i_def print_with_def list_printer_def [symmetric] option.map_comp
    by (simp add: o_def)
qed

text \<open>A format without conversions is its own text.\<close>

lemma loop_plain:
  assumes "\<And>k. k < length cs \<Longrightarrow> PGETC m fmt (i + k) = cs ! k" "PGETC m fmt (i + length cs) = 0" "set cs \<inter> {0, 37} = {}"
  shows "map_option listed (print_loop list_printer other m fmt i args ps) = Some (listed ps @ crlf cs)"
  using assms
proof (induction cs arbitrary: i ps)
  case Nil
  then show ?case by (subst print_loop.simps) simp
next
  case (Cons c cs)
  have "PGETC m fmt i = c" "c \<noteq> 0" "c \<noteq> 37" using Cons.prems(1) [of 0] Cons.prems(3) by simp_all
  then have "print_loop list_printer other m fmt i args ps = print_loop list_printer other m fmt (i + 1) args (PPUTC list_printer c ps)"
    by (subst print_loop.simps) simp
  moreover have "map_option listed (print_loop list_printer other m fmt (i + 1) args (PPUTC list_printer c ps)) = Some (listed (PPUTC list_printer c ps) @ crlf cs)"
    using Cons.prems(1) [of "Suc k" for k] Cons.prems(2,3) by (intro Cons.IH) (auto simp: algebra_simps)
  ultimately show ?case by (simp add: listed_put)
qed

section \<open>Printing returns\<close>

text \<open>
  Behind a \<open>%\<close> the inner loop may take the NUL, and the outer one goes on behind it; a second NUL ends it. The
  two loops never pass both.
\<close>

lemma parse_width_returns:
  assumes "PGETC m fmt n = 0" "i \<le> n"
  shows "\<exists>v j. parse_width m fmt c i u = Some (v, j) \<and> i \<le> j \<and> j \<le> n"
  using assms(2)
proof (induction "n - i" arbitrary: i c u)
  case 0
  then show ?case using assms(1) by (subst parse_width.simps) simp
next
  case (Suc k)
  then have "\<exists>v j. parse_width m fmt (PGETC m fmt i) (Suc i) (u64 (u * 10 + c - 48)) = Some (v, j) \<and> Suc i \<le> j \<and> j \<le> n"
    by (intro Suc.hyps) auto
  then show ?case using Suc.prems by (subst parse_width.simps) (auto simp: Let_def)
qed

lemma item_loop_returns:
  assumes "PGETC m fmt n = 0" "i \<le> n"
  shows "\<exists>j args' ps'. item_loop prn other m fmt i it args ps = Some (j, args', ps') \<and> i < j \<and> j \<le> Suc n"
  using assms(2)
proof (induction "n - i" arbitrary: i it args ps rule: less_induct)
  case less
  let ?c = "PGETC m fmt i"
  consider "?c = 0" | "?c \<noteq> 0" "(49 \<le> ?c \<and> ?c \<le> 57) = True" | "?c \<noteq> 0" "(49 \<le> ?c \<and> ?c \<le> 57) = False" by blast
  then show ?case
  proof cases
    case 1
    then show ?thesis using less.prems by (subst item_loop.simps) simp
  next
    case 2
    then have i: "Suc i \<le> n" using assms(1) less.prems by (metis le_antisym not_less_eq_eq)
    obtain v j where w: "parse_width m fmt ?c (i + 1) 0 = Some (v, j)" "i + 1 \<le> j" "j \<le> n"
      using parse_width_returns [OF assms(1), of "i + 1" ?c 0] i by auto
    have "item_loop prn other m fmt i it args ps = item_loop prn other m fmt j (set_width it v) args ps"
      by (subst item_loop.simps) (simp only: Let_def 2 w(1) if_False if_True option.case prod.case)
    then show ?thesis using less.hyps [of j "set_width it v" args ps] w by fastforce
  next
    case 3
    then have i: "Suc i \<le> n" using assms(1) less.prems by (metis le_antisym not_less_eq_eq)
    obtain it1 args1 ps1 t a where c: "convert prn other ?c it args ps = (it1, args1, ps1, t, a)" by (metis prod_cases5)
    have step: "item_loop prn other m fmt i it args ps =
        (case t of Some t \<Rightarrow> Some (i + 1, args1, PITEM prn m it1 t ps1)
         | None \<Rightarrow> if a \<noteq> 0 then Some (i + 1, args1, (PSETATTR prn a ps1)\<lparr>RestoreAttr := 0\<rparr>)
                   else item_loop prn other m fmt (i + 1) it1 args1 ps1)"
      by (subst item_loop.simps) (simp only: Let_def 3 c if_False prod.case)
    show ?thesis using step less.hyps [of "i + 1" it1 args1 ps1] i by (cases t) fastforce+
  qed
qed

lemma print_loop_returns:
  assumes "PGETC m fmt n = 0" "PGETC m fmt (Suc n) = 0" "i \<le> Suc n"
  shows "\<exists>ps'. print_loop prn other m fmt i args ps = Some ps'"
  using assms(3)
proof (induction "Suc n - i" arbitrary: i args ps rule: less_induct)
  case less
  let ?c = "PGETC m fmt i"
  consider "?c = 0" | "?c \<noteq> 0" "?c \<noteq> 37" | "?c = 37" by blast
  then show ?case
  proof cases
    case 1
    then show ?thesis by (subst print_loop.simps) simp
  next
    case 2
    then have "Suc i \<le> Suc n" using assms(2) less.prems by (metis le_antisym not_less_eq_eq)
    then have "\<exists>ps'. print_loop prn other m fmt (Suc i) args (PPUTC prn ?c ps) = Some ps'" by (intro less.hyps) auto
    then show ?thesis using 2 by (subst print_loop.simps) simp
  next
    case 3
    then have "i \<noteq> n" "i \<noteq> Suc n" using assms(1,2) by auto
    then have "i + 1 \<le> n" using less.prems by simp
    from item_loop_returns [OF assms(1) this, of prn other new_item args "ps\<lparr>RestoreAttr := 0\<rparr>"]
    obtain j args' ps' where j: "item_loop prn other m fmt (i + 1) new_item args (ps\<lparr>RestoreAttr := 0\<rparr>) = Some (j, args', ps')"
      "i + 1 < j" "j \<le> Suc n" by blast
    then have "\<exists>ps''. print_loop prn other m fmt j args' (if RestoreAttr ps' \<noteq> 0 then PSETATTR prn (RestoreAttr ps') ps' else ps') = Some ps''"
      by (intro less.hyps) auto
    then show ?thesis using 3 j(1) by (subst print_loop.simps) simp
  qed
qed

lemma text_returns:
  assumes "PGETC m fmt n = 0" "PGETC m fmt (Suc n) = 0"
  shows "\<exists>t. text_printed other m fmt args = Some t"
  using print_loop_returns [OF assms, of 0] by (simp add: text_printed_listed) blast

text \<open>A string that fits can be read from the buffer.\<close>

lemma put_bytes_nth: "i < length xs \<Longrightarrow> put_bytes m p xs (p + int i) = xs ! i"
  by (simp add: put_bytes_def)

lemma in_buffer_bytes: "bytes_at (in_buffer Str K m t) Str (2 * min (length t) K + 2) = wide_bytes (take (min (length t) K) t) @ [0, 0]"
proof -
  let ?k = "min (length t) K"
  have w: "take K t = take ?k t" by (cases "length t \<le> K") (auto simp: min_def)
  have e: "in_buffer Str K m t = put_bytes m Str (wide_bytes (take ?k t) @ [0, 0])"
    using put_bytes_append [of m Str "wide_bytes (take ?k t)" "[0, 0]"]
    by (simp add: in_buffer_def w st16_def st_le_def byte_of_def numeral_2_eq_2)
  show ?thesis unfolding e by (rule nth_equalityI) (simp_all add: put_bytes_nth)
qed

lemma wide_bytes_nth: "i < length cs \<Longrightarrow> wide_bytes cs ! (2 * i) = byte_of (cs ! i) \<and> wide_bytes cs ! (2 * i + 1) = byte_of (cs ! i div 256)"
proof (induction cs arbitrary: i)
  case (Cons c cs)
  then show ?case by (cases i) (auto simp: wide_bytes_def)
qed simp

lemma in_buffer_wide:
  assumes "length t \<le> K" "\<forall>c \<in> set t. 0 < c \<and> c < 65536" "Str + 2 * int (length t) < ADDR_LIMIT"
  shows "wide (in_buffer Str K m t) Str t"
proof (rule wideI)
  have e: "in_buffer Str K m t = put_bytes m Str (wide_bytes t @ [0, 0])"
    using assms(1) put_bytes_append [of m Str "wide_bytes t" "[0, 0]"]
    by (simp add: in_buffer_def st16_def st_le_def byte_of_def numeral_2_eq_2)
  show "ld16 (in_buffer Str K m t) (Str + 2 * int i) = t ! i" if "i < length t" for i
  proof -
    have "put_bytes m Str (wide_bytes t @ [0, 0]) (Str + int (2 * i)) = byte_of (t ! i)"
      "put_bytes m Str (wide_bytes t @ [0, 0]) (Str + int (2 * i + 1)) = byte_of (t ! i div 256)"
      using that wide_bytes_nth [OF that] by (subst put_bytes_nth; simp add: nth_append)+
    then have "ld16 (in_buffer Str K m t) (Str + 2 * int i) = uint (byte_of (t ! i)) + 256 * uint (byte_of (t ! i div 256))"
      by (simp add: e ld16_def ld_le_def numeral_2_eq_2 bytes_at_Suc ac_simps)
    moreover have "t ! i \<in> set t" using that by simp
    ultimately show ?thesis using assms(2) by (auto simp: byte_of_def uint_word_of_int)
  qed
  show "ld16 (in_buffer Str K m t) (Str + 2 * int (length t)) = 0"
    using assms(1) by (simp add: in_buffer_def ld16_def ld_le_def st16_def st_le_def numeral_2_eq_2 bytes_at_Suc put_bytes_def byte_of_def)
qed (use assms in auto)

section \<open>Numbers\<close>

lemma Hex_digit:
  assumes "0 \<le> d" "d < 16"
  shows "is_hex16 (Hex ! nat d) \<and> hex_val (Hex ! nat d) = d"
proof -
  have "\<forall>n \<in> set [0..<16]. is_hex16 (Hex ! n) \<and> hex_val (Hex ! n) = int n"
    by (simp add: Hex_def is_hex16_def hex_val_def upt_rec)
  moreover have "nat d \<in> set [0..<16]" using assms by simp
  ultimately show ?thesis using assms by fastforce
qed

lemma hex_loop_value:
  "0 \<le> v \<Longrightarrow> foldl (\<lambda>u c. u * 16 + hex_val c) 0 (rev (hex_loop v)) = v \<and> (\<forall>c \<in> set (hex_loop v). is_hex16 c)"
proof (induction v rule: hex_loop.induct)
  case (1 v)
  show ?case
  proof (cases "0 < v")
    case True
    have d: "v AND 15 = v mod 16" 
      using take_bit_eq_mask [of 4 v] by (simp add: mask_eq_exp_minus_1 take_bit_eq_mod)
    have "0 \<le> drop_bit 4 v" using True by simp
    note IH = 1(1) [OF True this]
    moreover have "is_hex16 (Hex ! nat (v mod 16))" "hex_val (Hex ! nat (v mod 16)) = v mod 16"
      using Hex_digit [of "v mod 16"] by simp_all
    ultimately show ?thesis using True by (subst (1 2) hex_loop.simps) (simp add: d drop_bit_eq_div)
  next
    case False
    then show ?thesis using 1 by (subst (1 2) hex_loop.simps) simp
  qed
qed

lemma hex_loop_length: "0 \<le> v \<Longrightarrow> v < 16 ^ n \<Longrightarrow> length (hex_loop v) \<le> n"
proof (induction n arbitrary: v)
  case 0
  then show ?case by (subst hex_loop.simps) simp
next
  case (Suc n)
  have "drop_bit 4 v < 16 ^ n" using Suc.prems by (simp add: drop_bit_eq_div)
  then show ?case using Suc by (subst hex_loop.simps) simp
qed

lemma ValueToHex_value:
  assumes "0 \<le> v"
  shows "foldl (\<lambda>u c. u * 16 + hex_val c) 0 (ValueToHex v) = v" "\<forall>c \<in> set (ValueToHex v). is_hex16 c"
  using hex_loop_value [OF assms] by (auto simp: ValueToHex_def hex_val_def is_hex16_def)

lemma u64_tenth: "u64 (s64 (u64 v div 10)) = u64 v div 10"
proof -
  have b: "0 \<le> u64 v" "u64 v < 18446744073709551616" by simp_all
  then have "s64 (u64 v div 10) = u64 v div 10" by (intro s64_id) linarith+
  moreover have "u64 (u64 v div 10) = u64 v div 10" by (rule u64_id) (use b in linarith)+
  ultimately show ?thesis by simp
qed

lemma dec_loop_value:
  "foldl (\<lambda>u c. u * 10 + (c - 48)) 0 (rev (dec_loop v)) = u64 v \<and> (\<forall>c \<in> set (dec_loop v). is_dec16 c)"
proof (induction v rule: dec_loop.induct)
  case (1 v)
  show ?case
  proof (cases "u64 v = 0")
    case False
    note u64_tenth [of v]
    with 1 False show ?thesis by (subst (1 2) dec_loop.simps) (auto simp: is_dec16_def pos_mod_bound)
  next
    case True
    then show ?thesis by (subst (1 2) dec_loop.simps) simp
  qed
qed

lemma dec_loop_length: "u64 v < 10 ^ n \<Longrightarrow> length (dec_loop v) \<le> n"
proof (induction n arbitrary: v)
  case 0
  then have "u64 v < 1" by simp
  then have "u64 v = 0" using u64_bounds(1) [of v] by linarith
  then show ?case by (subst dec_loop.simps) simp
next
  case (Suc n)
  have "u64 (s64 (u64 v div 10)) < 10 ^ n" using Suc.prems by (simp add: u64_tenth)
  then show ?case using Suc.IH by (subst dec_loop.simps) simp
qed

lemma put_commas_plain: "length ds < c \<Longrightarrow> put_commas c ds = ds"
  by (induction ds arbitrary: c) auto

text \<open>The commas leave the digits as they are.\<close>

lemma put_commas_digits: "44 \<notin> set ds \<Longrightarrow> filter (\<lambda>x. x \<noteq> 44) (put_commas c ds) = ds"
  by (induction ds arbitrary: c) auto

lemma ValueToString_digits:
  assumes "0 < v" "v < 2 ^ 63"
  shows "filter (\<lambda>x. x \<noteq> 44) (ValueToString comma v) = rev (dec_loop v)" "ValueToString False v = rev (dec_loop v)"
proof -
  have "44 \<notin> set (dec_loop v)" using dec_loop_value [of v] by (auto simp: is_dec16_def)
  moreover have "length (dec_loop v) \<le> 20" using dec_loop_length [of v 20] u64_bounds [of v] by simp
  ultimately show "filter (\<lambda>x. x \<noteq> 44) (ValueToString comma v) = rev (dec_loop v)" "ValueToString False v = rev (dec_loop v)"
    using assms by (simp_all add: ValueToString_def Let_def put_commas_digits put_commas_plain)
qed

lemma ValueToString_value:
  assumes "0 \<le> v" "v < 2 ^ 63"
  shows "foldl (\<lambda>u c. u * 10 + (c - 48)) 0 (ValueToString False v) = v" "\<forall>c \<in> set (ValueToString False v). is_dec16 c"
proof -
  have "ValueToString False 0 = [48]" by (simp add: ValueToString_def)
  then show "foldl (\<lambda>u c. u * 10 + (c - 48)) 0 (ValueToString False v) = v" "\<forall>c \<in> set (ValueToString False v). is_dec16 c"
    using assms ValueToString_digits(2) [of v] dec_loop_value [of v] by (cases "v = 0"; simp add: u64_id is_dec16_def)+
qed

text \<open>The length of a number's text.\<close>

lemma number_lengths:
  "0 \<le> v \<Longrightarrow> v < 2 ^ 64 \<Longrightarrow> length (ValueToHex v) \<le> 20"
  "0 \<le> v \<Longrightarrow> v < 2 ^ 63 \<Longrightarrow> length (ValueToString False v) \<le> 20"
proof -
  show "length (ValueToHex v) \<le> 20" if "0 \<le> v" "v < 2 ^ 64"
    using that hex_loop_length [of v 20] by (auto simp: ValueToHex_def)
  show "length (ValueToString False v) \<le> 20" if "0 \<le> v" "v < 2 ^ 63"
    using that ValueToString_digits(2) [of v] dec_loop_length [of v 20]
    by (cases "v = 0") (auto simp: ValueToString_def u64_id)
qed

text \<open>A format that is one long number.\<close>

lemma number_format:
  assumes "PGETC m fmt 0 = 37" "PGETC m fmt 1 = 108" "PGETC m fmt 2 = c" "PGETC m fmt 3 = 0"
    "c = 120 \<and> cs = ValueToHex (u64 v) \<or> c = 117 \<and> cs = ValueToString False (s64 (u64 v))"
    "0 \<notin> set cs" "10 \<notin> set cs" "length cs < 2 ^ 63"
  shows "text_printed other m fmt [v] = Some cs"
proof -
  let ?ps = "(zero_state [])\<lparr>Len := 0, Pending := [], Room := 199\<rparr> :: int list pstate"
  let ?it = "new_item\<lparr>Long := True\<rparr>"
  have 1: "item_loop list_printer other m fmt 1 new_item [v] ?ps = item_loop list_printer other m fmt 2 ?it [v] ?ps"
    using assms(2) by (subst item_loop.simps) (simp add: convert_def pop_arg_def numeral_2_eq_2)
  have 2: "item_loop list_printer other m fmt 2 ?it [v] ?ps = Some (3, [], PITEM list_printer m ?it (Chars cs) ?ps)"
    using assms(3,5) by (subst item_loop.simps) (auto simp: convert_def pop_arg_def new_item_def)
  let ?qs = "PITEM list_printer m ?it (Chars cs) ?ps"
  have 3: "print_loop list_printer other m fmt 3 args qs = Some qs" for args qs
    using assms(4) by (subst print_loop.simps) simp
  have "print_loop list_printer other m fmt 0 [v] ?ps = Some (if RestoreAttr ?qs \<noteq> 0 then PSETATTR list_printer (RestoreAttr ?qs) ?qs else ?qs)"
    using assms(1) 1 2 by (subst print_loop.simps) (simp add: 3 zero_state_def)
  moreover have "listed ?qs = cs" using listed_chars [OF assms(6-8), of ?it m ?ps]
    by (simp add: new_item_def) (simp add: listed_def zero_state_def)
  ultimately show ?thesis by (simp add: text_printed_listed)
qed

end
