(* ===== verification/Console.thy ===== *)
theory Console
  imports Print
begin

text \<open>
  Events, the console and its line editor: \<open>src/lib/event.c\<close>, \<open>console.c\<close>, \<open>pause.c\<close>, \<open>boxdraw.c\<close>. A console is the
  address of its interface; a key is what the firmware answers to \<open>ReadKeyStroke\<close>.
\<close>

section \<open>Events\<close>

abbreviation (input) EVT_TIMER :: int where "EVT_TIMER \<equiv> 0x80000000"
abbreviation (input) EVT_NOTIFY_SIGNAL :: int where "EVT_NOTIFY_SIGNAL \<equiv> 0x200"
abbreviation (input) TimerRelative :: int where "TimerRelative \<equiv> 2"
abbreviation (input) EFI_TIMEOUT :: int where "EFI_TIMEOUT \<equiv> 0x8000000000000012"

text \<open>The event, and what is stored through \<open>Registration\<close>.\<close>

definition LibCreateProtocolNotifyEvent ::
  "'w firmware \<Rightarrow> guid \<Rightarrow> int \<Rightarrow> addr \<Rightarrow> addr \<Rightarrow> ('w, 'z) efi_scheme \<Rightarrow> addr \<times> int option \<times> ('w, 'z) efi_scheme" where
  "LibCreateProtocolNotifyEvent fw ProtocolGuid NotifyTpl NotifyFunction NotifyContext s =
     (case efi_bs_call fw (CreateEvent EVT_NOTIFY_SIGNAL NotifyTpl NotifyFunction NotifyContext) s of
        (r, s) \<Rightarrow>
          if EFI_ERROR (status r) then (0, None, s)
          else
            (case efi_bs_call fw (RegisterProtocolNotify ProtocolGuid (out r)) s of
               (q, s) \<Rightarrow>
                 if EFI_ERROR (status q) then (0, None, s)
                 else (out r, Some (out q), snd (efi_bs_call fw (SignalEvent (out r)) s))))"

definition WaitForSingleEvent :: "'w firmware \<Rightarrow> addr \<Rightarrow> int \<Rightarrow> ('w, 'z) efi_scheme \<Rightarrow> int \<times> ('w, 'z) efi_scheme" where
  "WaitForSingleEvent fw Event Timeout s =
     (if Timeout \<noteq> 0 then
        (case efi_bs_call fw (CreateEvent EVT_TIMER 0 0 0) s of
           (r, s) \<Rightarrow>
             if EFI_ERROR (status r) then (status r, s)
             else
               (let s = snd (efi_bs_call fw (SetTimer (out r) TimerRelative Timeout) s)
                in case efi_bs_call fw (WaitForEvent [Event, out r]) s of
                     (q, s) \<Rightarrow>
                       (if \<not> EFI_ERROR (status q) \<and> out q = 1 then EFI_TIMEOUT else status q,
                        snd (efi_bs_call fw (CloseEvent (out r)) s))))
      else (case efi_bs_call fw (WaitForEvent [Event]) s of (q, s) \<Rightarrow> (status q, s)))"

section \<open>The console\<close>

text \<open>The console of the firmware as what a print writes to.\<close>

definition console :: "'w firmware \<Rightarrow> addr \<Rightarrow> ('w, 'z) efi_scheme printer" where
  "console fw Con =
     \<lparr>Output = (\<lambda>s cs. snd (efi_bs_call fw (OutputString Con cs) s)),
      SetAttr = Some (\<lambda>s a. snd (efi_bs_call fw (SetAttribute Con a) s))\<rparr>"

text \<open>The characters of a string, which the firmware puts out up to the NUL.\<close>

definition wide_string :: "mem \<Rightarrow> addr \<Rightarrow> int list" where
  "wide_string m p = map (\<lambda>i. ld16 m (p + 2 * int i)) [0..<RtStrLen m p]"

definition Output_lib :: "'w firmware \<Rightarrow> addr \<Rightarrow> addr \<Rightarrow> ('w, 'z) efi_scheme \<Rightarrow> ('w, 'z) efi_scheme" where
  "Output_lib fw ConOut Str s = snd (efi_bs_call fw (OutputString ConOut (wide_string (memory s) Str)) s)"

text \<open>A character is stored with a NUL behind it, and shown.\<close>

definition put_key :: "'w firmware \<Rightarrow> addr \<Rightarrow> addr \<Rightarrow> int \<Rightarrow> ('w, 'z) efi_scheme \<Rightarrow> ('w, 'z) efi_scheme" where
  "put_key fw ConOut p c s =
     (let s = s\<lparr>memory := st16 (st16 (memory s) p c) (p + 2) 0\<rparr>
      in snd (efi_bs_call fw (OutputString ConOut (wide_string (memory s) p)) s))"

text \<open>One key: whether the line ends, the number of characters and the state.\<close>

definition input_key ::
  "'w firmware \<Rightarrow> addr \<Rightarrow> addr \<Rightarrow> int \<Rightarrow> efi_reply \<Rightarrow> int \<Rightarrow> ('w, 'z) efi_scheme \<Rightarrow> bool \<times> int \<times> ('w, 'z) efi_scheme" where
  "input_key fw ConOut InStr StrLen r n s =
     (let c = out r
      in if EFI_ERROR (status r) then (True, n, s)
         else if c = 10 \<or> c = 13 then (True, n, s)
         else if c = 8 then
           (if n \<noteq> 0 then (False, n - 1, snd (efi_bs_call fw (OutputString ConOut [8, 32, 8]) s)) else (False, n, s))
         else if c \<ge> 32 then
           (if n < u64 (StrLen - 1) then (False, n + 1, put_key fw ConOut (InStr + 2 * n) c s) else (False, n, s))
         else (False, n, s))"

text \<open>
  The loop of \<open>IInput\<close>, with the number of characters and the state; it may never end. \<open>WaitForKey\<close> is the
  event of the input device. The number of characters and the last index are 64-bit numbers.
\<close>

partial_function (option) input_loop ::
  "'w firmware \<Rightarrow> addr \<Rightarrow> addr \<Rightarrow> addr \<Rightarrow> addr \<Rightarrow> int \<Rightarrow> int \<Rightarrow> ('w, 'z) efi_scheme \<Rightarrow> (int \<times> ('w, 'z) efi_scheme) option" where
  "input_loop fw ConOut ConIn WaitForKey InStr StrLen n s =
     (case efi_bs_call fw (ReadKeyStroke ConIn) (snd (WaitForSingleEvent fw WaitForKey 0 s)) of
        (r, s) \<Rightarrow>
          (case input_key fw ConOut InStr StrLen r n s of
             (stop, n, s) \<Rightarrow> if stop then Some (n, s) else input_loop fw ConOut ConIn WaitForKey InStr StrLen n s))"

definition IInput ::
  "'w firmware \<Rightarrow> addr \<Rightarrow> addr \<Rightarrow> addr \<Rightarrow> addr \<Rightarrow> addr \<Rightarrow> int \<Rightarrow> ('w, 'z) efi_scheme \<Rightarrow> ('w, 'z) efi_scheme option" where
  "IInput fw ConOut ConIn WaitForKey Prompt InStr StrLen s =
     (case input_loop fw ConOut ConIn WaitForKey InStr StrLen 0
             (if Prompt \<noteq> 0 then snd (efi_bs_call fw (OutputString ConOut (wide_string (memory s) Prompt)) s) else s) of
        None \<Rightarrow> None
      | Some (n, s) \<Rightarrow> Some (s\<lparr>memory := st16 (memory s) (InStr + 2 * n) 0\<rparr>))"

text \<open>On the consoles of the system table.\<close>

definition Input ::
  "'w firmware \<Rightarrow> addr \<Rightarrow> addr \<Rightarrow> addr \<Rightarrow> addr \<Rightarrow> addr \<Rightarrow> int \<Rightarrow> ('w, 'z) efi_scheme \<Rightarrow> ('w, 'z) efi_scheme option" where
  "Input fw ConOut ConIn WaitForKey Prompt InStr StrLen s = IInput fw ConOut ConIn WaitForKey Prompt InStr StrLen s"

definition Pause :: "'w firmware \<Rightarrow> addr \<Rightarrow> addr \<Rightarrow> ('w, 'z) efi_scheme \<Rightarrow> ('w, 'z) efi_scheme" where
  "Pause fw ConIn WaitForKey s =
     (case WaitForSingleEvent fw WaitForKey 0 s of (st, s) \<Rightarrow> snd (efi_bs_call fw (ReadKeyStroke ConIn) s))"

text \<open>
  \<open>WaitForEventWithTimeout\<close>: the key, the scan code and the character, and the state. \<open>Attribute\<close> is that of the
  console's mode.
\<close>

definition no_key :: efi_reply where
  "no_key = \<lparr>status = 0, out = 0, attr = 0, data = [], map_size = 0, map_key = 0, desc_size = 0, desc_ver = 0\<rparr>"

partial_function (option) WaitForEventWithTimeout ::
  "'w firmware \<Rightarrow> addr \<Rightarrow> addr \<Rightarrow> other_formats \<Rightarrow> int \<Rightarrow> addr \<Rightarrow> int \<Rightarrow> int \<Rightarrow> int \<Rightarrow> addr \<Rightarrow> int \<times> int \<Rightarrow> ('w, 'z) efi_scheme
   \<Rightarrow> ((int \<times> int) \<times> ('w, 'z) efi_scheme) option" where
  "WaitForEventWithTimeout fw ConOut ConIn other Attribute Event Timeout Row Column Str TimeoutKey s =
     (case PrintAt (console fw ConOut) (\<lambda>s c r. snd (efi_bs_call fw (SetCursorPosition ConOut c r) s)) Attribute other (memory s)
             Column Row Str [Timeout] s of
        None \<Rightarrow> None
      | Some (n, s) \<Rightarrow>
          (case WaitForSingleEvent fw Event 10000000 s of
             (st, s) \<Rightarrow>
               (case (if st = EFI_SUCCESS then efi_bs_call fw (ReadKeyStroke ConIn) s else (no_key, s)) of
                  (r, s) \<Rightarrow>
                    if st = EFI_SUCCESS \<and> \<not> EFI_ERROR (status r) then Some ((attr r, out r), s)
                    else if Timeout > 0
                    then WaitForEventWithTimeout fw ConOut ConIn other Attribute Event Timeout Row Column Str TimeoutKey s
                    else Some (TimeoutKey, s))))"

declare input_loop.simps [code] WaitForEventWithTimeout.simps [code]

section \<open>Characters for boxes\<close>

text \<open>The character, its code on a PC and one in ASCII.\<close>

definition UnicodeToPcAnsiOrAscii :: "(int \<times> int \<times> int) list" where
  "UnicodeToPcAnsiOrAscii =
     [(0x2500, 0xc4, 45), (0x2502, 0xb3, 124), (0x250c, 0xda, 47), (0x2510, 0xbf, 92), (0x2514, 0xc0, 92),
      (0x2518, 0xd9, 47), (0x251c, 0xc3, 124), (0x2524, 0xb4, 124), (0x252c, 0xc2, 43), (0x2534, 0xc1, 43),
      (0x253c, 0xc5, 43), (0x2550, 0xcd, 45), (0x2551, 0xba, 124), (0x2552, 0xd5, 47), (0x2553, 0xd6, 47),
      (0x2554, 0xc9, 47), (0x2555, 0xb8, 92), (0x2556, 0xb7, 92), (0x2557, 0xbb, 92), (0x2558, 0xd4, 92),
      (0x2559, 0xd3, 92), (0x255a, 0xc8, 92), (0x255b, 0xbe, 47), (0x255c, 0xbd, 47), (0x255d, 0xbc, 47),
      (0x255e, 0xc6, 124), (0x255f, 0xc7, 124), (0x2560, 0xcc, 124), (0x2561, 0xb5, 124), (0x2562, 0xb6, 124),
      (0x2563, 0xb9, 124), (0x2564, 0xd1, 43), (0x2565, 0xd2, 43), (0x2566, 0xcb, 43), (0x2567, 0xcf, 43),
      (0x2568, 0xd0, 43), (0x2569, 0xca, 43), (0x256a, 0xd8, 43), (0x256b, 0xd7, 43), (0x256c, 0xce, 43),
      (0x2588, 0xdb, 42), (0x2591, 0xb0, 43), (0x25b2, 0x1e, 94), (0x25ba, 0x10, 62), (0x25bc, 0x1f, 118),
      (0x25c4, 0x11, 60), (0x2191, 0x18, 94), (0x2193, 0x19, 118)]"

definition LibIsValidTextGraphics :: "int \<Rightarrow> (int \<times> int) option" where
  "LibIsValidTextGraphics Graphic =
     (if Graphic AND 0xff00 \<noteq> 0x2500 \<and> Graphic AND 0xff00 \<noteq> 0x2100 then None
      else map_of UnicodeToPcAnsiOrAscii Graphic)"

definition IsValidAscii :: "int \<Rightarrow> bool" where
  "IsValidAscii c \<longleftrightarrow> c \<ge> 0x20 \<and> c \<le> 0x7f"

definition IsValidEfiCntlChar :: "int \<Rightarrow> bool" where
  "IsValidEfiCntlChar c \<longleftrightarrow> c = 0 \<or> c = 8 \<or> c = 10 \<or> c = 13"

end
