(* ===== verification/Console_Spec.thy ===== *)
theory Console_Spec
  imports Console Print_Spec Elf_Spec
begin

text \<open>
  The line editor of the console against an editor on lists, and what is shown meanwhile; the wait with a
  timeout, which does not end by its timeout.
\<close>

section \<open>Lines\<close>

text \<open>An editor for lines of at most \<open>cap\<close> characters: the keys up to a return.\<close>

fun edited :: "nat \<Rightarrow> int list \<Rightarrow> int list \<Rightarrow> int list" where
  "edited cap line [] = line"
| "edited cap line (c # ks) =
     (if c = 10 \<or> c = 13 then line
      else if c = 8 then edited cap (butlast line) ks
      else if 32 \<le> c \<and> length line < cap then edited cap (line @ [c]) ks
      else edited cap line ks)"

text \<open>The characters left of the cursor of a terminal; a backspace moves the cursor.\<close>

definition typed :: "int list \<Rightarrow> int \<Rightarrow> int list" where
  "typed t c = (if c = 8 then butlast t else t @ [c])"

definition shown :: "addr \<Rightarrow> call_log \<Rightarrow> int list \<Rightarrow> int list" where
  "shown ConOut cs t = foldl typed t (concat (map (\<lambda>(c, r). case c of OutputString con x \<Rightarrow> if con = ConOut then x else [] | _ \<Rightarrow> []) cs))"

definition keys_read :: "addr \<Rightarrow> call_log \<Rightarrow> int list" where
  "keys_read ConIn cs = concat (map (\<lambda>(c, r). if c = ReadKeyStroke ConIn \<and> \<not> EFI_ERROR (status r) then [out r] else []) cs)"

lemma shown_simps [simp]:
  "shown ConOut [] t = t" "shown ConOut (xs @ ys) t = shown ConOut ys (shown ConOut xs t)"
  "shown ConOut [(WaitForEvent es, r)] t = t" "shown ConOut [(ReadKeyStroke con, r)] t = t"
  "shown ConOut [(OutputString ConOut x, r)] t = foldl typed t x"
  by (simp_all add: shown_def)

lemma keys_read_simps [simp]:
  "keys_read ConIn [] = []" "keys_read ConIn (xs @ ys) = keys_read ConIn xs @ keys_read ConIn ys"
  "keys_read ConIn [(WaitForEvent es, r)] = []" "keys_read ConIn [(OutputString con x, r)] = []"
  "keys_read ConIn [(ReadKeyStroke ConIn, r)] = (if EFI_ERROR (status r) then [] else [out r])"
  by (simp_all add: keys_read_def)

text \<open>The firmware answers with characters.\<close>

definition keys_are_chars :: "'w firmware \<Rightarrow> addr \<Rightarrow> bool" where
  "keys_are_chars fw ConIn \<longleftrightarrow> (\<forall>m w. 0 \<le> out (fst (fw (ReadKeyStroke ConIn) m w)) \<and> out (fst (fw (ReadKeyStroke ConIn) m w)) < 65536)"

lemma call_log: "efi_bs_call fw c s = (r, s') \<Longrightarrow> calls s' = calls s @ [(c, r)]"
  by (auto simp: efi_bs_call_def split: prod.splits)

text \<open>A character that is stored: the line in memory, and what is shown.\<close>

lemma put_key_effect:
  assumes "leaves_alone fw lo hi" "bytes_at (memory s) lo (2 * length line) = wide_bytes line" "0 \<le> lo"
    and "32 \<le> c" "c < 65536" "lo + 2 * int (length line) + 4 \<le> hi" "hi \<le> ADDR_LIMIT"
  shows "\<exists>r. calls (put_key fw ConOut (lo + 2 * int (length line)) c s) = calls s @ [(OutputString ConOut [c], r)]"
    and "bytes_at (memory (put_key fw ConOut (lo + 2 * int (length line)) c s)) lo (2 * length (line @ [c])) = wide_bytes (line @ [c])"
proof -
  let ?p = "lo + 2 * int (length line)"
  let ?m = "st16 (st16 (memory s) ?p c) (?p + 2) 0"
  let ?s = "s\<lparr>memory := ?m\<rparr>"
  have b: "?m a = memory s a" if "a < ?p" for a
    using that by (simp add: st16_def st_le_outside)
  have n: "?m ?p = byte_of c" "?m (?p + 1) = byte_of (c div 256)" "?m (?p + 2) = 0" "?m (?p + 3) = 0"
    by (simp_all add: st16_def st_le_def put_bytes_def byte_of_def)
  have l: "bytes_at ?m lo (2 * length line) = wide_bytes line"
    unfolding assms(2) [symmetric] using b by (intro bytes_at_eqI) simp
  have l2: "bytes_at ?m lo (2 * length (line @ [c])) = wide_bytes (line @ [c])"
    using bytes_at_add [of ?m lo "2 * length line" 2] l n
    by (simp add: wide_bytes_def numeral_2_eq_2 bytes_at_Suc ac_simps)
  have "ld16 ?m ?p = c" "ld16 ?m (?p + 2) = 0"
    using n assms(4,5) by (simp_all add: ld16_def ld_le_def numeral_2_eq_2 bytes_at_Suc ac_simps byte_of_def uint_word_of_int)
  then have w: "wide ?m ?p [c]" using assms(4,6,7) by simp
  then have "wide_string ?m ?p = [c]" using \<open>ld16 ?m ?p = c\<close> by (simp add: wide_string_def RtStrLen_length [OF w])
  then have e: "put_key fw ConOut ?p c s = snd (efi_bs_call fw (OutputString ConOut [c]) ?s)"
    by (simp add: put_key_def)
  obtain r s' where c: "efi_bs_call fw (OutputString ConOut [c]) ?s = (r, s')" by fastforce
  show "\<exists>r. calls (put_key fw ConOut ?p c s) = calls s @ [(OutputString ConOut [c], r)]"
    using call_log [OF c] by (simp add: e c)
  have "bytes_at (memory s') lo (2 * length (line @ [c])) = bytes_at ?m lo (2 * length (line @ [c]))"
    using bs_call_agree [OF assms(1) c] assms(6) by (intro bytes_at_eqI) (auto simp: agree_def)
  then show "bytes_at (memory (put_key fw ConOut ?p c s)) lo (2 * length (line @ [c])) = wide_bytes (line @ [c])"
    by (simp only: e c snd_conv l2)
qed

text \<open>One key.\<close>

lemma wide_bytes_butlast: "wide_bytes (butlast line) = take (2 * length (butlast line)) (wide_bytes line)"
  by (cases line rule: rev_cases) (simp_all add: wide_bytes_append wide_bytes_def [of "[]"])

lemma bytes_at_shorter: "bytes_at m p n = xs \<Longrightarrow> k \<le> n \<Longrightarrow> bytes_at m p k = take k xs"
  using bytes_at_add [of m p k "n - k"] by auto

lemma input_key_step:
  assumes "leaves_alone fw InStr (InStr + 2 * StrLen)" "0 \<le> InStr" "InStr + 2 * StrLen \<le> ADDR_LIMIT" "1 \<le> StrLen"
    and "out r < 65536" "bytes_at (memory s) InStr (2 * length line) = wide_bytes line" "int (length line) < StrLen"
    and "input_key fw ConOut InStr StrLen r (int (length line)) s = (stop, n, s')"
  shows "\<exists>cs line'. calls s' = calls s @ cs \<and> n = int (length line') \<and> int (length line') < StrLen \<and>
    bytes_at (memory s') InStr (2 * length line') = wide_bytes line' \<and> keys_read ConIn cs = [] \<and>
    (\<forall>pre. shown ConOut cs (pre @ line) = pre @ line') \<and>
    (if stop then line' = line \<and> (EFI_ERROR (status r) \<or> out r = 10 \<or> out r = 13)
     else \<not> EFI_ERROR (status r) \<and> (\<forall>ks. edited (nat StrLen - 1) line (out r # ks) = edited (nat StrLen - 1) line' ks))"
proof -
  have u: "u64 (StrLen - 1) = StrLen - 1" using assms(2,3,4) by (intro u64_id) auto
  let ?c = "out r"
  consider "EFI_ERROR (status r) \<or> ?c = 10 \<or> ?c = 13" | "\<not> EFI_ERROR (status r)" "?c = 8" "line \<noteq> []"
    | "\<not> EFI_ERROR (status r)" "32 \<le> ?c" "int (length line) < StrLen - 1"
    | "\<not> EFI_ERROR (status r)" "?c \<noteq> 10" "?c \<noteq> 13" "?c = 8 \<longrightarrow> line = []" "?c < 32 \<or> StrLen - 1 \<le> int (length line)" by linarith
  then show ?thesis
  proof cases
    case 1
    then have "stop" "n = int (length line)" "s' = s" using assms(8) by (auto simp: input_key_def Let_def split: if_splits)
    with 1 assms(6,7) show ?thesis by (intro exI [of _ "[]"] exI [of _ line]) simp
  next
    case 2
    obtain q s1 where c: "efi_bs_call fw (OutputString ConOut [8, 32, 8]) s = (q, s1)" by fastforce
    have st: "\<not> stop" "n = int (length (butlast line))" "s' = s1"
      using assms(8) 2 c by (auto simp: input_key_def Let_def of_nat_diff Suc_le_eq)
    have "bytes_at (memory s) InStr (2 * length (butlast line)) = wide_bytes (butlast line)"
      unfolding wide_bytes_butlast by (rule bytes_at_shorter [OF assms(6)]) simp
    moreover have "bytes_at (memory s1) InStr (2 * length (butlast line)) = bytes_at (memory s) InStr (2 * length (butlast line))"
      using bs_call_agree [OF assms(1) c] assms(7) by (intro bytes_at_eqI) (auto simp: agree_def)
    moreover have "shown ConOut [(OutputString ConOut [8, 32, 8], q)] (pre @ line) = pre @ butlast line" for pre
      using 2 by (simp add: typed_def butlast_append)
    ultimately show ?thesis using st 2 call_log [OF c] assms(7)
      by (intro exI [of _ "[(OutputString ConOut [8, 32, 8], q)]"] exI [of _ "butlast line"]) simp
  next
    case 3
    have st: "\<not> stop" "n = int (length (line @ [?c]))" "s' = put_key fw ConOut (InStr + 2 * int (length line)) ?c s"
      using assms(8) 3 by (auto simp: input_key_def Let_def u)
    have h: "InStr + 2 * int (length line) + 4 \<le> InStr + 2 * StrLen" using 3 by linarith
    note put = put_key_effect [OF assms(1,6,2) 3(2) assms(5) h assms(3), of ConOut]
    obtain q where "calls s' = calls s @ [(OutputString ConOut [?c], q)]" using put(1) st(3) by blast
    moreover have "shown ConOut [(OutputString ConOut [?c], q)] (pre @ line) = pre @ line @ [?c]" for pre
      using 3 by (simp add: typed_def)
    moreover have "length line < nat StrLen - 1" using 3 by linarith
    ultimately show ?thesis using st 3 put(2)
      by (intro exI [of _ "[(OutputString ConOut [?c], q)]"] exI [of _ "line @ [?c]"]) simp
  next
    case 4
    then have "\<not> stop" "n = int (length line)" "s' = s" using assms(8) by (auto simp: input_key_def Let_def u split: if_splits)
    moreover have "edited (nat StrLen - 1) line (?c # ks) = edited (nat StrLen - 1) line ks" for ks
    proof -
      have "?c < 32 \<or> \<not> length line < nat StrLen - 1" using 4(5) by linarith
      then show ?thesis using 4(2,3,4) by (cases "?c = 8") auto
    qed
    ultimately show ?thesis using 4(1) assms(6,7) by (intro exI [of _ "[]"] exI [of _ line]) simp
  qed
qed

text \<open>What is in memory and on the screen when the loop ends is the line that the keys make.\<close>

lemma wait_call:
  "\<exists>q s1. WaitForSingleEvent fw W 0 s = (status q, s1) \<and> efi_bs_call fw (WaitForEvent [W]) s = (q, s1)"
  by (simp add: WaitForSingleEvent_def split: prod.splits)

lemma input_loop_edits:
  assumes "input_loop fw ConOut ConIn W InStr StrLen (int (length line)) s = Some (n, s')"
    and "leaves_alone fw InStr (InStr + 2 * StrLen)" "keys_are_chars fw ConIn"
    and "0 \<le> InStr" "InStr + 2 * StrLen \<le> ADDR_LIMIT" "1 \<le> StrLen"
    and "bytes_at (memory s) InStr (2 * length line) = wide_bytes line" "int (length line) < StrLen"
  shows "\<exists>cs line'. calls s' = calls s @ cs \<and> line' = edited (nat StrLen - 1) line (keys_read ConIn cs) \<and>
    n = int (length line') \<and> int (length line') < StrLen \<and> bytes_at (memory s') InStr (2 * length line') = wide_bytes line' \<and>
    (\<forall>pre. shown ConOut cs (pre @ line) = pre @ line')"
proof -
  have "\<forall>line. k = int (length line) \<longrightarrow> leaves_alone fw InStr (InStr + 2 * StrLen) \<longrightarrow> keys_are_chars fw ConIn \<longrightarrow>
      0 \<le> InStr \<longrightarrow> InStr + 2 * StrLen \<le> ADDR_LIMIT \<longrightarrow> 1 \<le> StrLen \<longrightarrow>
      bytes_at (memory s) InStr (2 * length line) = wide_bytes line \<longrightarrow> int (length line) < StrLen \<longrightarrow>
      (\<exists>cs line'. calls (snd y) = calls s @ cs \<and> line' = edited (nat StrLen - 1) line (keys_read ConIn cs) \<and>
        fst y = int (length line') \<and> int (length line') < StrLen \<and> bytes_at (memory (snd y)) InStr (2 * length line') = wide_bytes line' \<and>
        (\<forall>pre. shown ConOut cs (pre @ line) = pre @ line'))"
    if "input_loop fw ConOut ConIn W InStr StrLen k s = Some y" for fw ConOut ConIn W InStr StrLen k and s :: "('a, 'b) efi_scheme" and y
  proof (rule input_loop.raw_induct [OF _ that], goal_cases)
    case (1 f fw ConOut ConIn W InStr StrLen k s y)
    note IH = 1(1) and run = 1(2)
    show ?case
    proof (intro allI impI)
      fix line
      assume k: "k = int (length line)" and alone: "leaves_alone fw InStr (InStr + 2 * StrLen)" and ch: "keys_are_chars fw ConIn"
        and lim: "0 \<le> InStr" "InStr + 2 * StrLen \<le> ADDR_LIMIT" "1 \<le> StrLen"
        and line: "bytes_at (memory s) InStr (2 * length line) = wide_bytes line" "int (length line) < StrLen"
      obtain q s1 where wt: "WaitForSingleEvent fw W 0 s = (status q, s1)" "efi_bs_call fw (WaitForEvent [W]) s = (q, s1)"
        using wait_call by blast
      obtain r s2 where rd: "efi_bs_call fw (ReadKeyStroke ConIn) s1 = (r, s2)" by fastforce
      obtain stop n s3 where key: "input_key fw ConOut InStr StrLen r k s2 = (stop, n, s3)" by (metis prod_cases3)
      have r: "out r < 65536" using rd ch by (auto simp: keys_are_chars_def efi_bs_call_def split: prod.splits) (metis fst_conv)
      have "agree InStr (InStr + 2 * StrLen) (memory s) (memory s2)"
        using bs_call_agree [OF alone wt(2)] bs_call_agree [OF alone rd] by (rule agree_trans)
      then have line2: "bytes_at (memory s2) InStr (2 * length line) = wide_bytes line"
        using line by (subst line(1) [symmetric], intro bytes_at_eqI) (auto simp: agree_def)
      obtain cs l where step: "calls s3 = calls s2 @ cs" "n = int (length l)" "int (length l) < StrLen"
        "bytes_at (memory s3) InStr (2 * length l) = wide_bytes l" "keys_read ConIn cs = []"
        "\<forall>pre. shown ConOut cs (pre @ line) = pre @ l"
        "if stop then l = line \<and> (EFI_ERROR (status r) \<or> out r = 10 \<or> out r = 13)
         else \<not> EFI_ERROR (status r) \<and> (\<forall>ks. edited (nat StrLen - 1) line (out r # ks) = edited (nat StrLen - 1) l ks)"
        using input_key_step [OF alone lim r line2 line(2) key [unfolded k]] by blast
      have c3: "calls s3 = calls s @ (WaitForEvent [W], q) # (ReadKeyStroke ConIn, r) # cs"
        using call_log [OF wt(2)] call_log [OF rd] step(1) by simp
      let ?pair = "[(WaitForEvent [W], q)] @ [(ReadKeyStroke ConIn, r)]"
      show "\<exists>cs line'. calls (snd y) = calls s @ cs \<and> line' = edited (nat StrLen - 1) line (keys_read ConIn cs) \<and>
        fst y = int (length line') \<and> int (length line') < StrLen \<and> bytes_at (memory (snd y)) InStr (2 * length line') = wide_bytes line' \<and>
        (\<forall>pre. shown ConOut cs (pre @ line) = pre @ line')"
      proof (cases stop)
        case True
        then have "y = (n, s3)" using run by (simp add: wt(1) rd key)
        moreover have "edited (nat StrLen - 1) line (keys_read ConIn (?pair @ cs)) = line"
          using True step(5,7) by (auto simp del: append_Cons append_assoc)
        moreover have "shown ConOut (?pair @ cs) (pre @ line) = pre @ line" for pre
          using True step(6,7) by (simp del: append_Cons append_assoc)
        ultimately show ?thesis using True step c3 by (intro exI [of _ "?pair @ cs"] exI [of _ line]) auto
      next
        case False
        have "f fw ConOut ConIn W InStr StrLen n s3 = Some y" using run False by (simp add: wt(1) rd key)
        from IH [OF this] step alone ch lim obtain ds l' where rest: "calls (snd y) = calls s3 @ ds"
          "l' = edited (nat StrLen - 1) l (keys_read ConIn ds)" "fst y = int (length l')" "int (length l') < StrLen"
          "bytes_at (memory (snd y)) InStr (2 * length l') = wide_bytes l'" "\<forall>pre. shown ConOut ds (pre @ l) = pre @ l'" by metis
        have "edited (nat StrLen - 1) line (keys_read ConIn (?pair @ cs @ ds)) = l'"
          using False step(5,7) rest(2) by (simp del: append_Cons append_assoc edited.simps) simp
        moreover have "shown ConOut (?pair @ cs @ ds) (pre @ line) = pre @ l'" for pre
          using step(6) rest(6) by (simp del: append_Cons append_assoc)
        ultimately show ?thesis using rest c3 by (intro exI [of _ "?pair @ cs @ ds"] exI [of _ l']) auto
      qed
    qed
  qed
  from this [OF assms(1)] assms(2-8) show ?thesis by auto
qed

text \<open>
  A line ends: the keys that the firmware still has in store, counted by \<open>left\<close>, become fewer with every key
  that does not end the line, and no other call adds to them.
\<close>

definition line_ends :: "'w firmware \<Rightarrow> addr \<Rightarrow> ('w \<Rightarrow> nat) \<Rightarrow> bool" where
  "line_ends fw ConIn left \<longleftrightarrow>
     (\<forall>m w. case fw (ReadKeyStroke ConIn) m w of (r, m', w') \<Rightarrow>
        EFI_ERROR (status r) \<or> out r = 10 \<or> out r = 13 \<or> left w' < left w)
   \<and> (\<forall>c m w. c \<noteq> ReadKeyStroke ConIn \<longrightarrow> left (snd (snd (fw c m w))) \<le> left w)"

lemma line_ends_call:
  "line_ends fw ConIn left \<Longrightarrow> c \<noteq> ReadKeyStroke ConIn \<Longrightarrow> left (world (snd (efi_bs_call fw c s))) \<le> left (world s)"
  by (simp add: line_ends_def efi_bs_call_def case_prod_unfold)

lemma line_ends_key:
  "line_ends fw ConIn left \<Longrightarrow> efi_bs_call fw (ReadKeyStroke ConIn) s = (r, s') \<Longrightarrow>
   EFI_ERROR (status r) \<or> out r = 10 \<or> out r = 13 \<or> left (world s') < left (world s)"
  unfolding line_ends_def efi_bs_call_def by (auto split: prod.splits) (metis prod.case)

lemma input_key_left:
  assumes "line_ends fw ConIn left" "input_key fw ConOut InStr StrLen r n s = (stop, n', s')"
  shows "left (world s') \<le> left (world s)" and "\<not> stop \<Longrightarrow> \<not> EFI_ERROR (status r) \<and> out r \<noteq> 10 \<and> out r \<noteq> 13"
  using assms line_ends_call [OF assms(1)]
  by (auto simp: input_key_def put_key_def Let_def split: if_splits intro: order_trans [OF line_ends_call [OF assms(1)]])

lemma input_loop_returns:
  assumes "line_ends fw ConIn left"
  shows "\<exists>y. input_loop fw ConOut ConIn W InStr StrLen n s = Some y"
proof (induction "left (world s)" arbitrary: n s rule: less_induct)
  case less
  define s1 where "s1 = snd (efi_bs_call fw (WaitForEvent [W]) s)"
  have w: "snd (WaitForSingleEvent fw W 0 s) = s1" by (simp add: WaitForSingleEvent_def s1_def case_prod_unfold)
  have l1: "left (world s1) \<le> left (world s)" unfolding s1_def by (rule line_ends_call [OF assms]) simp
  obtain r s2 where r: "efi_bs_call fw (ReadKeyStroke ConIn) s1 = (r, s2)" by fastforce
  obtain stop n3 s3 where k: "input_key fw ConOut InStr StrLen r n s2 = (stop, n3, s3)" by (metis prod_cases3)
  show ?case
  proof (cases stop)
    case True
    then show ?thesis by (subst input_loop.simps) (simp add: w r k)
  next
    case False
    then have "left (world s3) < left (world s)"
      using input_key_left [OF assms k] line_ends_key [OF assms r] l1 by fastforce
    then show ?thesis using less [of s3 n3] False by (subst input_loop.simps) (simp add: w r k)
  qed
qed

lemma input_returns:
  assumes "line_ends fw ConIn left"
  shows "\<exists>s'. IInput fw ConOut ConIn W Prompt InStr StrLen s = Some s'"
proof -
  define s1 where "s1 = (if Prompt \<noteq> 0 then snd (efi_bs_call fw (OutputString ConOut (wide_string (memory s) Prompt)) s) else s)"
  obtain n s2 where "input_loop fw ConOut ConIn W InStr StrLen 0 s1 = Some (n, s2)"
    using input_loop_returns [OF assms, of ConOut W InStr StrLen 0 s1] by auto
  then show ?thesis by (simp add: IInput_def s1_def [symmetric])
qed

lemma input_edits:
  assumes "IInput fw ConOut ConIn W Prompt InStr StrLen s = Some s'"
    and "leaves_alone fw InStr (InStr + 2 * StrLen)" "keys_are_chars fw ConIn"
    and "0 \<le> InStr" "InStr + 2 * StrLen \<le> ADDR_LIMIT" "1 \<le> StrLen"
  shows "\<exists>cs line. calls s' = calls s @ cs \<and> line = edited (nat StrLen - 1) [] (keys_read ConIn cs) \<and> int (length line) < StrLen \<and>
    bytes_at (memory s') InStr (2 * length line + 2) = wide_bytes line @ [0, 0] \<and>
    shown ConOut cs [] = foldl typed [] (if Prompt = 0 then [] else wide_string (memory s) Prompt) @ line"
proof -
  let ?t = "wide_string (memory s) Prompt"
  define s1 where "s1 = (if Prompt \<noteq> 0 then snd (efi_bs_call fw (OutputString ConOut ?t) s) else s)"
  obtain n s2 where loop: "input_loop fw ConOut ConIn W InStr StrLen (int (length ([] :: int list))) s1 = Some (n, s2)"
    and s': "s' = s2\<lparr>memory := st16 (memory s2) (InStr + 2 * n) 0\<rparr>"
    using assms(1) by (auto simp: IInput_def s1_def [symmetric] split: option.splits)
  have "bytes_at (memory s1) InStr (2 * length ([] :: int list)) = wide_bytes []" by (simp add: wide_bytes_def)
  from input_loop_edits [OF loop assms(2-6) this] assms(6) obtain cs line where
    cs: "calls s2 = calls s1 @ cs" "line = edited (nat StrLen - 1) [] (keys_read ConIn cs)" "n = int (length line)" "int (length line) < StrLen"
    "bytes_at (memory s2) InStr (2 * length line) = wide_bytes line" "\<forall>pre. shown ConOut cs (pre @ []) = pre @ line" by auto
  obtain ps where ps: "calls s1 = calls s @ ps" "keys_read ConIn ps = []" "shown ConOut ps [] = foldl typed [] (if Prompt = 0 then [] else ?t)"
  proof (cases "Prompt = 0")
    case True
    then show ?thesis using that [of "[]"] by (simp add: s1_def)
  next
    case False
    obtain r s3 where c: "efi_bs_call fw (OutputString ConOut ?t) s = (r, s3)" by fastforce
    then show ?thesis using that [of "[(OutputString ConOut ?t, r)]"] call_log [OF c] False by (simp add: s1_def)
  qed
  let ?m = "st16 (memory s2) (InStr + 2 * n) 0"
  have "bytes_at ?m InStr (2 * length line) = wide_bytes line"
    unfolding cs(5) [symmetric] by (intro bytes_at_eqI) (simp add: cs(3) st16_def st_le_outside)
  moreover have "bytes_at ?m (InStr + 2 * int (length line)) 2 = [0, 0]"
    by (simp add: cs(3) st16_def st_le_def put_bytes_def byte_of_def numeral_2_eq_2 bytes_at_Suc)
  ultimately have "bytes_at ?m InStr (2 * length line + 2) = wide_bytes line @ [0, 0]"
    using bytes_at_add [of ?m InStr "2 * length line" 2] by simp
  then show ?thesis using cs ps s'
    by (intro exI [of _ "ps @ cs"] exI [of _ line]) (simp add: s' append_assoc [symmetric] del: append_assoc)
qed

section \<open>The wait with a timeout\<close>

text \<open>\<open>Timeout\<close> is never counted down: unless it was 0, the wait ends only with a key.\<close>

lemma timeout_is_not_counted:
  assumes "WaitForEventWithTimeout fw ConOut ConIn other Attribute Event Timeout Row Column Str TimeoutKey s = Some (key, s')"
    and "0 < Timeout"
  shows "\<exists>cs r. calls s' = cs @ [(ReadKeyStroke ConIn, r)] \<and> \<not> EFI_ERROR (status r) \<and> key = (attr r, out r)"
proof -
  have "0 < Timeout \<longrightarrow> (\<exists>cs r. calls (snd y) = cs @ [(ReadKeyStroke ConIn, r)] \<and> \<not> EFI_ERROR (status r) \<and> fst y = (attr r, out r))"
    if "WaitForEventWithTimeout fw ConOut ConIn other Attribute Event Timeout Row Column Str TimeoutKey s = Some y"
    for fw ConOut ConIn other Attribute Event Timeout Row Column Str TimeoutKey and s :: "('a, 'b) efi_scheme" and y
  proof (rule WaitForEventWithTimeout.raw_induct [OF _ that], goal_cases)
    case (1 f fw ConOut ConIn other Attribute Event Timeout Row Column Str TimeoutKey s y)
    note IH = 1(1) and run = 1(2)
    show ?case
    proof
      assume t: "0 < Timeout"
      obtain n s1 where p: "PrintAt (console fw ConOut) (\<lambda>s c r. snd (efi_bs_call fw (SetCursorPosition ConOut c r) s)) Attribute other (memory s)
             Column Row Str [Timeout] s = Some (n, s1)"
        using run by (auto split: option.splits)
      obtain st s2 where w: "WaitForSingleEvent fw Event 10000000 s1 = (st, s2)" by fastforce
      obtain r s3 where r: "(if st = EFI_SUCCESS then efi_bs_call fw (ReadKeyStroke ConIn) s2 else (no_key, s2)) = (r, s3)" by fastforce
      show "\<exists>cs r. calls (snd y) = cs @ [(ReadKeyStroke ConIn, r)] \<and> \<not> EFI_ERROR (status r) \<and> fst y = (attr r, out r)"
      proof (cases "st = EFI_SUCCESS \<and> \<not> EFI_ERROR (status r)")
        case True
        then have "y = ((attr r, out r), s3)" using run r by (simp add: p w)
        moreover have "calls s3 = calls s2 @ [(ReadKeyStroke ConIn, r)]" using r True by (auto intro: call_log)
        ultimately show ?thesis using True by auto
      next
        case False
        then have "f fw ConOut ConIn other Attribute Event Timeout Row Column Str TimeoutKey s3 = Some y"
          using run t r by (auto simp: p w split: if_splits)
        from IH [OF this] t show ?thesis by simp
      qed
    qed
  qed
  from this [OF assms(1)] assms(2) show ?thesis by simp
qed

section \<open>Events and characters for boxes\<close>

text \<open>A wait gives the timer it has made back.\<close>

definition events_made :: "call_log \<Rightarrow> addr multiset" where
  "events_made cs = mset (concat (map (\<lambda>(c, r). case c of CreateEvent ty tpl f x \<Rightarrow> if EFI_ERROR (status r) then [] else [out r] | _ \<Rightarrow> []) cs))"

definition events_closed :: "call_log \<Rightarrow> addr multiset" where
  "events_closed cs = mset (concat (map (\<lambda>(c, r). case c of CloseEvent e \<Rightarrow> [e] | _ \<Rightarrow> []) cs))"

interpretation events: ledger events_made events_closed
  by unfold_locales (simp_all add: events_made_def events_closed_def)

lemma wait_settles: "settled events_made events_closed s {#} (snd (WaitForSingleEvent fw Event Timeout s)) {#}"
proof -
  obtain r s1 where r: "efi_bs_call fw (CreateEvent EVT_TIMER 0 0 0) s = (r, s1)" by fastforce
  obtain t s2 where t: "efi_bs_call fw (SetTimer (out r) TimerRelative Timeout) s1 = (t, s2)" by fastforce
  obtain q s3 where q: "efi_bs_call fw (WaitForEvent [Event, out r]) s2 = (q, s3)" by fastforce
  obtain c s4 where c: "efi_bs_call fw (CloseEvent (out r)) s3 = (c, s4)" by fastforce
  obtain w s5 where w: "efi_bs_call fw (WaitForEvent [Event]) s = (w, s5)" by fastforce
  note log = call_log [OF r] call_log [OF t] call_log [OF q] call_log [OF c] call_log [OF w]
  show ?thesis
    by (auto simp: WaitForSingleEvent_def r t q c w settled_def log events_made_def events_closed_def)
qed

lemma box_characters_distinct: "distinct (map fst UnicodeToPcAnsiOrAscii)"
  by code_simp

text \<open>Every entry of the table passes the first test, and has a printable character in ASCII.\<close>

lemma box_characters:
  "\<forall>(g, a, c) \<in> set UnicodeToPcAnsiOrAscii. LibIsValidTextGraphics g = Some (a, c) \<and> IsValidAscii c"
  by code_simp

end
