(* ===== verification/Print_Properties.thy ===== *)
theory Print_Properties
  imports Print_Spec Console_Spec
begin

text \<open>
  Properties of the formatted printing and the console of the gnu-efi library: a print into a buffer of the
  caller, numbers that are read back, the line editor, and examples of what the formats do at their edges.
\<close>

text \<open>A state for the examples.\<close>

definition print_state_of :: "mem \<Rightarrow> nat efi" where
  "print_state_of m = \<lparr>memory = m, world = 0, calls = []\<rparr>"

section \<open>A buffer of the caller\<close>

text \<open>
  C39: for a format with two NULs behind it and a buffer of at least 4 and less than \<open>2 ^ 63\<close> bytes \<open>UnicodeVSPrint\<close>
  returns. It stores the first characters of the whole text, as many as fit before a NUL, and the NUL; it
  changes no byte outside the buffer and nothing else of the state, and its result is the number of
  characters stored. Smaller sizes are left out because the limit is computed as \<open>StrSize / 2 - 1\<close>: 0, which
  is documented so, and 1 give no limit, and at 2 and 3 it is zero and not even the NUL is stored.
\<close>

lemma sprint_cuts_text:
  assumes "PGETC m fmt n = 0" "PGETC m fmt (Suc n) = 0" "0 < Str" "4 \<le> StrSize" "StrSize < 2 ^ 63"
  shows "\<exists>t k M. text_printed other m fmt args = Some t \<and> k = min (length t) (nat (StrSize div 2 - 1)) \<and>
    UnicodeVSPrint other m Str StrSize fmt args s = Some (int k, s\<lparr>memory := M\<rparr>) \<and>
    bytes_at M Str (2 * k + 2) = wide_bytes (take k t) @ [0, 0] \<and>
    (\<forall>a. a < Str \<or> Str + StrSize \<le> a \<longrightarrow> M a = memory s a)"
proof -
  let ?K = "nat (StrSize div 2 - 1)"
  have "2 \<le> StrSize div 2" "2 * (StrSize div 2) \<le> StrSize" using assms(4) by linarith+
  then have K: "2 * int ?K + 2 \<le> StrSize" by simp
  obtain t where t: "text_printed other m fmt args = Some t" using text_returns [OF assms(1,2)] by blast
  let ?k = "min (length t) ?K" and ?M = "in_buffer Str ?K (memory s) t"
  have "UnicodeVSPrint other m Str StrSize fmt args s = Some (int ?k, s\<lparr>memory := ?M\<rparr>)"
    by (simp add: print_into_buffer [OF assms(3-5)] t)
  moreover have "\<forall>a. a < Str \<or> Str + StrSize \<le> a \<longrightarrow> ?M a = memory s a"
    using K by (auto intro!: in_buffer_outside)
  moreover have "bytes_at ?M Str (2 * ?k + 2) = wide_bytes (take ?k t) @ [0, 0]" by (rule in_buffer_bytes)
  ultimately show ?thesis using t by blast
qed

lemma sprint_cuts_text_witness:
  "\<exists>M. UnicodeVSPrint no_formats (\<lambda>_. 0) 4096 8 (Chars (chars ''a%cz!'')) [66] (print_state_of (\<lambda>_. 7)) = Some (3, (print_state_of (\<lambda>_. 7))\<lparr>memory := M\<rparr>) \<and>
     bytes_at M 4096 8 = [97, 0, 66, 0, 122, 0, 0, 0] \<and> M 4104 = 7"
proof -
  have c: "chars ''a%cz!'' = [97, 37, 99, 122, 33]" by code_simp
  have t: "text_printed no_formats (\<lambda>_. 0) (Chars (chars ''a%cz!'')) [66] = Some [97, 66, 122, 33]"
    by code_simp
  show ?thesis
    using sprint_cuts_text [of "\<lambda>_. 0" "Chars (chars ''a%cz!'')" 5 4096 8 no_formats "[66]" "print_state_of (\<lambda>_. 7)"] t
    by (auto simp: c wide_bytes_def print_state_of_def byte_of_def)
qed

section \<open>Numbers\<close>

text \<open>
  C40: a number that is printed into a buffer as \<open>%lx\<close> is read from the buffer by \<open>xtoi\<close>, and one below
  2 to the 63 that is printed as \<open>%lu\<close> is read by \<open>Atoi\<close>.
\<close>

lemma printed_number_is_read:
  assumes "map (PGETC m fmt) [0..<5] = [37, 108, c, 0, 0]" "c = 120 \<or> c = 117 \<and> u64 v < 2 ^ 63"
    and "0 < Str" "Str + 40 < ADDR_LIMIT" "42 \<le> StrSize" "StrSize < 2 ^ 63"
  shows "\<exists>n s'. UnicodeVSPrint other m Str StrSize fmt [v] s = Some (n, s') \<and>
    (if c = 120 then xtoi else Atoi) (memory s') Str = u64 v"
proof -
  define cs where "cs = (if c = 120 then ValueToHex (u64 v) else ValueToString False (s64 (u64 v)))"
  have v: "0 \<le> u64 v" "u64 v < 2 ^ 64" using u64_bounds [of v] by simp_all
  have s: "c \<noteq> 120 \<Longrightarrow> s64 (u64 v) = u64 v" using assms(2) by (intro s64_id) (auto intro: order_trans [OF _ v(1)])
  have l: "length cs \<le> 20" using number_lengths(1) [OF v] number_lengths(2) [OF v(1)] assms(2) s by (auto simp: cs_def)
  have digits: "c = 120 \<Longrightarrow> \<forall>d \<in> set cs. is_hex16 d" "c \<noteq> 120 \<Longrightarrow> \<forall>d \<in> set cs. is_dec16 d"
    using ValueToHex_value(2) [OF v(1)] ValueToString_value(2) [OF v(1)] assms(2) s by (auto simp: cs_def)
  then have ch: "\<forall>d \<in> set cs. 48 \<le> d \<and> d < 128" by (cases "c = 120") (auto simp: is_hex16_def is_dec16_def)
  have f: "PGETC m fmt 0 = 37" "PGETC m fmt 1 = 108" "PGETC m fmt 2 = c" "PGETC m fmt 3 = 0"
    using assms(1) by (simp_all add: upt_rec numeral_2_eq_2 numeral_3_eq_3)
  have plain: "0 \<notin> set cs" "10 \<notin> set cs" "length cs < 2 ^ 63" using ch l by auto
  have "text_printed other m fmt [v] = Some cs"
    by (rule number_format [OF f _ plain]) (use assms(2) in \<open>auto simp: cs_def\<close>)
  then obtain n where p: "UnicodeVSPrint other m Str StrSize fmt [v] s = Some (n, s\<lparr>memory := in_buffer Str (nat (StrSize div 2 - 1)) (memory s) cs\<rparr>)"
    using assms(5) by (simp add: print_into_buffer [OF assms(3) _ assms(6)])
  have w: "wide (in_buffer Str (nat (StrSize div 2 - 1)) (memory s) cs) Str cs"
    using ch l assms(4,5) by (intro in_buffer_wide) fastforce+
  have blanks: "dropWhile (\<lambda>c. c = 32) cs = cs" using ch by (cases cs) auto
  have "takeWhile (if c = 120 then is_hex16 else is_dec16) cs = cs" using digits by (cases "c = 120") (auto simp: takeWhile_eq_all_conv)
  moreover have "c = 120 \<Longrightarrow> foldl (\<lambda>u c. u * 16 + hex_val c) 0 cs = u64 v" "c \<noteq> 120 \<Longrightarrow> foldl (\<lambda>u c. u * 10 + (c - 48)) 0 cs = u64 v"
    using ValueToHex_value(1) [OF v(1)] ValueToString_value(1) [OF v(1)] assms(2) s by (auto simp: cs_def)
  ultimately have "(if c = 120 then xtoi else Atoi) (in_buffer Str (nat (StrSize div 2 - 1)) (memory s) cs) Str = u64 v"
    using xtoi_value [OF w] Atoi_value [OF w] unfolding blanks by (cases "c = 120") (simp_all add: u64_id del: takeWhile_eq_all_conv)
  then show ?thesis using p by auto
qed

lemma printed_number_is_read_witness:
  "(\<exists>n s'. UnicodeVSPrint no_formats (\<lambda>_. 0) 4096 64 (Chars (chars ''%lx'')) [- 1] (print_state_of (\<lambda>_. 7)) = Some (n, s') \<and>
     xtoi (memory s') 4096 = 18446744073709551615)
   \<and> (\<exists>n s'. UnicodeVSPrint no_formats (\<lambda>_. 0) 4096 64 (Chars (chars ''%lu'')) [1984] (print_state_of (\<lambda>_. 7)) = Some (n, s') \<and>
     Atoi (memory s') 4096 = 1984)"
proof -
  have c: "chars ''%lx'' = [37, 108, 120]" "chars ''%lu'' = [37, 108, 117]" by code_simp+
  have u: "u64 (- 1) = 18446744073709551615" "u64 1984 = 1984" by code_simp+
  show ?thesis
    using printed_number_is_read [of "\<lambda>_. 0" "Chars (chars ''%lx'')" 120 "- 1" 4096 64 no_formats "print_state_of (\<lambda>_. 7)"]
      printed_number_is_read [of "\<lambda>_. 0" "Chars (chars ''%lu'')" 117 1984 4096 64 no_formats "print_state_of (\<lambda>_. 7)"]
    by (simp add: c u upt_rec)
qed

section \<open>A line from the keyboard\<close>

text \<open>
  C25: with a buffer of \<open>StrLen\<close> characters, at least one, which the firmware leaves alone, and a keyboard on
  which the line ends at some time, \<open>IInput\<close> returns. The buffer then holds, with a NUL behind it, the line that
  the editor \<open>edited\<close> makes of the keys read: a backspace takes the last character away, a character that
  has no place before the NUL is dropped, other control characters do nothing, and a return ends the line.
  The screen shows this line behind the prompt.
\<close>

lemma input_is_edited:
  assumes "line_ends fw ConIn left" "leaves_alone fw InStr (InStr + 2 * StrLen)" "keys_are_chars fw ConIn"
    and "0 \<le> InStr" "InStr + 2 * StrLen \<le> ADDR_LIMIT" "1 \<le> StrLen"
  shows "\<exists>s' cs line. IInput fw ConOut ConIn W Prompt InStr StrLen s = Some s' \<and> calls s' = calls s @ cs
    \<and> line = edited (nat StrLen - 1) [] (keys_read ConIn cs) \<and> int (length line) < StrLen
    \<and> bytes_at (memory s') InStr (2 * length line + 2) = wide_bytes line @ [0, 0]
    \<and> shown ConOut cs [] = foldl typed [] (if Prompt = 0 then [] else wide_string (memory s) Prompt) @ line"
proof -
  obtain s' where s': "IInput fw ConOut ConIn W Prompt InStr StrLen s = Some s'"
    using input_returns [OF assms(1)] by blast
  then show ?thesis using input_edits [OF s' assms(2-6)] by blast
qed

text \<open>A keyboard with some keys in store, and a return when there are none.\<close>

fun keyboard :: "int list firmware" where
  "keyboard (ReadKeyStroke con) m (c # ks) = (no_key\<lparr>out := c mod 65536\<rparr>, m, ks)"
| "keyboard (ReadKeyStroke con) m [] = (no_key\<lparr>out := 13\<rparr>, m, [])"
| "keyboard c m w = (no_key, m, w)"

definition typing :: "int list \<Rightarrow> int list efi" where
  "typing ks = \<lparr>memory = (\<lambda>_. 7), world = ks, calls = []\<rparr>"

lemma keyboard_memory: "fst (snd (keyboard c m w)) = m"
  by (cases "(c, m, w)" rule: keyboard.cases) simp_all

lemma keyboard_laws:
  "line_ends keyboard con length" "leaves_alone keyboard lo hi" "keys_are_chars keyboard con"
proof -
  have other: "snd (snd (keyboard c m w)) = w" if "\<And>con. c \<noteq> ReadKeyStroke con" for c m w
    using that by (cases "(c, m, w)" rule: keyboard.cases) auto
  have left: "length (snd (snd (keyboard c m w))) \<le> length w" for c m w
    by (cases "(c, m, w)" rule: keyboard.cases) auto
  have key: "case keyboard (ReadKeyStroke con) m w of (r, m', w') \<Rightarrow>
      EFI_ERROR (status r) \<or> out r = 10 \<or> out r = 13 \<or> length w' < length w" for m w
    by (cases w) auto
  then show "line_ends keyboard con length" using left by (simp add: line_ends_def)
  show "leaves_alone keyboard lo hi" by (simp add: leaves_alone_def keyboard_memory agree_def)
  have "0 \<le> out (fst (keyboard (ReadKeyStroke con) m w)) \<and> out (fst (keyboard (ReadKeyStroke con) m w)) < 65536" for m w
    by (cases w) auto
  then show "keys_are_chars keyboard con" by (simp add: keys_are_chars_def)
qed

text \<open>The keys a, b, backspace, c, d and e, for a buffer of four characters: the line is acd.\<close>

lemma input_is_edited_witness:
  "\<exists>s'. IInput keyboard 1 2 3 0 4096 4 (typing [97, 98, 8, 99, 100, 101]) = Some s' \<and>
     bytes_at (memory s') 4096 8 = [97, 0, 99, 0, 100, 0, 0, 0]"
proof -
  let ?s = "typing [97, 98, 8, 99, 100, 101]"
  obtain s' cs line where s': "IInput keyboard 1 2 3 0 4096 4 ?s = Some s'" "calls s' = cs"
    "line = edited 3 [] (keys_read 2 cs)" "bytes_at (memory s') 4096 (2 * length line + 2) = wide_bytes line @ [0, 0]"
    using input_is_edited [OF keyboard_laws(1) keyboard_laws(2) keyboard_laws(3), of 4096 4 1 2 3 0 ?s]
    by (auto simp: typing_def numeral_3_eq_3)
  have "map_option (\<lambda>s. keys_read 2 (calls s)) (IInput keyboard 1 2 3 0 4096 4 ?s) = Some [97, 98, 8, 99, 100, 101, 13]"
    by code_simp
  then have "line = edited 3 [] [97, 98, 8, 99, 100, 101, 13]" using s' by simp
  also have "\<dots> = [97, 99, 100]" by code_simp
  finally have l: "line = [97, 99, 100]" .
  have "wide_bytes line @ [0, 0] = [97, 0, 99, 0, 100, 0, 0, 0]" unfolding l by code_simp
  then show ?thesis using s'(1,4) l by simp
qed

section \<open>What a reader of the code may not expect\<close>

text \<open>From 2 to the 63 on \<open>%lu\<close> prints a negative number.\<close>

lemma unsigned_is_negative: "text_of ''%lu'' [9223372036854775808] = chars ''-9223372036854775808''"
  by code_simp

text \<open>Behind a \<open>%\<close> at its end a format goes on behind its NUL.\<close>

lemma percent_at_end:
  "text_printed no_formats (mem_of 4096 [97, 37, 0, 98, 0]) (Narrow 4096) [] = Some (chars ''ab'')"
  by code_simp

text \<open>In a print to memory the colours are 0, so \<open>%E\<close> does not end its item: the text behind it becomes part of the conversion.\<close>

lemma colour_eats_character: "text_of ''%Exyz'' [171] = chars ''AByz''"
  by code_simp

text \<open>The codes of an error that has no name lose their upper half.\<close>

lemma unknown_status: "StatusToString (EFIERR 0x77) = chars ''00000077''"
  by code_simp

end
