(* ===== verification/Spec2Isabelle.thy ===== *)
theory Spec2Isabelle
  imports Fdt_Properties Text_Properties Loader_Properties Format_Properties Helper_Properties Stub_Properties
    Tree_Properties Overlay_Properties Library_Properties Services_Properties Print_Properties
begin

text \<open>
  A verification development for DragonStub, the EFI stub that loads the DragonOS kernel on RISC-V.

  The program. The firmware starts \<open>efi_main\<close> (\<open>src/apps/dragon_stub-main.c\<close>). It makes the command line
  from the load options and parses the EFI options in it (\<open>stub.c\<close>, \<open>helper.c\<close>, \<open>lib/cmdline.c\<close>), finds
  the ELF file of the kernel that is linked into the stub, loads its segments into memory from the
  firmware (\<open>elf.c\<close>, \<open>mem.c\<close>, \<open>alignedmem.c\<close>), builds a device tree for the kernel (\<open>fdt.c\<close> over
  \<open>lib/libfdt\<close>), leaves the boot services with the final memory map in that tree, installs the virtual
  map for the runtime services, and jumps to the kernel (\<open>riscv-stub.c\<close>). It is linked against the
  gnu-efi library (\<open>src/lib\<close>, \<open>src/gnuefi\<close>), whose start-up code relocates the image, and which has services
  of its own over the firmware's: pool memory, variables, handles, device paths, files.

  The model. Memory is one function from addresses to bytes (\<open>Prelude.mem\<close>); every structure of the
  program, a device tree, an ELF file, a memory map, lies in it at its C offsets. Integers are HOL
  integers and each conversion to a narrower type is written out (\<open>u32\<close>, \<open>u64\<close>, \<open>s32\<close>, \<open>s64\<close>); only
  the word-at-a-time \<open>memchr\<close> works on \<open>64 word\<close>. The firmware is a parameter: a function from a call,
  the memory and a state of its own to a reply, a memory and a state (\<open>Efi.firmware\<close>). Every call goes
  through \<open>efi_bs_call\<close>, which records it in \<open>calls\<close>, so a theorem can speak of the order of calls. The
  state is the record \<open>efi\<close>, which \<open>Helper.stub\<close> extends by the global variables of the driver. What the
  firmware is assumed to keep is a named hypothesis of the theorem that needs it: \<open>leaves_alone\<close> (it does
  not write to a range of memory), \<open>answers\<close> (its variables), the aligned addresses of \<open>AllocatePages\<close>,
  \<open>pool_answers\<close> (a buffer of the pool is not at 0), \<open>files_answer\<close> (nor is a file handle), \<open>line_ends\<close> and
  \<open>keys_are_chars\<close> (a keyboard); \<open>Demo_Firmware\<close>, \<open>Services_Properties\<close> and \<open>Print_Properties\<close> have
  concrete firmwares that satisfy them.

  Theories and sources.
    \<open>Memops\<close>: \<open>src/lib/init.c\<close>. \<open>Cstring\<close>: \<open>apps/lib/string.c\<close>, \<open>ctype.c\<close>, \<open>hexdump.c\<close> and the number
    parsers. \<open>Cmdline\<close>: \<open>apps/lib/cmdline.c\<close> and the option parsers of \<open>apps/helper.c\<close>. \<open>Vsprintf\<close>:
    \<open>apps/lib/vsprintf.c\<close>.
    \<open>Strchr\<close>: the word-at-a-time search of \<open>string.c\<close>.
    \<open>Fdt_Core\<close>: \<open>apps/lib/libfdt/fdt.c\<close> and its headers. \<open>Fdt_Ro\<close>: \<open>fdt_ro.c\<close>, \<open>fdt_addresses.c\<close>,
    \<open>fdt_strerror.c\<close>. \<open>Fdt_Rw\<close>: \<open>fdt_rw.c\<close>, \<open>fdt_wip.c\<close>. \<open>Fdt_Sw\<close>: \<open>fdt_sw.c\<close>, \<open>fdt_empty_tree.c\<close>.
    \<open>Fdt_Overlay\<close>: \<open>fdt_overlay.c\<close>, with \<open>strtoul\<close>, which the repository does not define, as an argument.
    \<open>Efi\<close>: \<open>apps/mem.c\<close>, \<open>apps/alignedmem.c\<close>. \<open>Elf\<close>: \<open>apps/elf.c\<close>. \<open>Helper\<close>: \<open>apps/helper.c\<close>,
    \<open>secureboot.c\<close>, \<open>random.c\<close> and the search for the boot hart in \<open>riscv-stub.c\<close>. \<open>Stub\<close>:
    \<open>apps/stub.c\<close>, \<open>apps/fdt.c\<close>, the rest of \<open>riscv-stub.c\<close>, \<open>dragon_stub-main.c\<close>.
    \<open>Reloc\<close>: \<open>gnuefi/reloc_riscv64.c\<close>. \<open>Crc32\<close>: \<open>lib/crc.c\<close>. \<open>Rtlib\<close>: \<open>lib/runtime/efirtlib.c\<close>, \<open>rtstr.c\<close>
    and \<open>lib/str.c\<close>, of which \<open>Metamatch\<close> has the pattern matcher. \<open>Mbr\<close>, \<open>Efi_Services\<close>: \<open>lib/misc.c\<close>
    and the searches of \<open>lib/hand.c\<close>. \<open>Protocols\<close>: the rest of \<open>hand.c\<close> but for the search by signature,
    and the locks (\<open>lock.c\<close>, \<open>rtlock.c\<close>). \<open>Dpath\<close>: \<open>lib/dpath.c\<close>, \<open>inc/efidevp.h\<close> and that search.
    \<open>Print\<close>: \<open>lib/print.c\<close>, \<open>error.c\<close>, \<open>guid.c\<close>; the console is an argument (\<open>printer\<close>), as are the floating
    point numbers and the texts of device paths. \<open>Console\<close>: \<open>lib/event.c\<close>, \<open>console.c\<close>, \<open>pause.c\<close>,
    \<open>boxdraw.c\<close>.
    \<open>Simple_Read\<close>: \<open>lib/sread.c\<close>. \<open>Shell_Args\<close>: \<open>lib/cmdline.c\<close>. \<open>Smbios\<close>: \<open>lib/smbios.c\<close>.
  Definitions have the names of the C functions; a trailing \<open>_\<close> in C is \<open>_i\<close> here, and a loop is a
  function of its own with the name of what it does.

  What the lemmas show.
    \<open>Fdt_Safety\<close>: the readers read inside the tree only. \<open>Fdt_Tokens\<close>: what they find, in terms of the
    list of items. \<open>Fdt_Layout\<close>, \<open>Fdt_Edit\<close>: the layout of a tree that can be edited, kept by every
    edit (the locale \<open>tree_editor\<close>, interpreted by the requests of \<open>fdt_rw.c\<close>). \<open>Fdt_Frame\<close>: what
    setting a property in place leaves alone. \<open>Fdt_Items\<close>, \<open>Fdt_View\<close>, \<open>Fdt_Write\<close>, \<open>Fdt_Nodes\<close>,
    \<open>Fdt_Refine\<close>, \<open>Fdt_Walk\<close>: a sound tree is a list of items; every edit refines an operation on that list
    (the locale \<open>simulation\<close>, interpreted by the edits), and scripts of edits keep the nodes nested.
    \<open>Overlay_Spec\<close>, \<open>Overlay_Merge\<close>: phandles that are shifted, and the merge of an overlay as such a
    script. \<open>Sw_Machine\<close>: the sequential builder as a machine whose
    reachable states are consistent.
    \<open>Cstring_Spec\<close>, \<open>Vsprintf_Spec\<close>, \<open>Vsprintf_Safety\<close>, \<open>Vsprintf_Numbers\<close>: parsers and printers
    against functions on lists, the division by multiplication of \<open>put_dec\<close>, no write outside the buffer.
    \<open>Efi_Spec\<close>: rounding, which pages and pool buffers are asked for and given back. \<open>Elf_Spec\<close>: the
    image of the kernel in memory. \<open>Helper_Spec\<close>: the command line, the policy of secure boot, and the
    protocol of \<open>efi_exit_boot_services\<close>, proved in the locale \<open>map_callback\<close> for every callback that
    makes no call. \<open>Stub_Calls\<close>: this locale interpreted by \<open>exit_boot_func\<close>, and the calls of a whole
    run: \<open>efi_main\<close> ends in one of three ways (\<open>Stub.outcome\<close>), a return to the firmware, the kernel, or
    \<open>Halted\<close>, the endless loop of \<open>efi_todo\<close> behind \<open>efi_stub_common\<close>; the one inside
    \<open>efi_exit_boot_services\<close>, for the option \<open>disable_early_pci_dma\<close>, is the value \<open>None\<close>, as for any loop that
    does not end. \<open>Stub_Virtmap\<close>: the virtual map as a refinement of a function on lists of regions.
    \<open>Stub_Fdt\<close>: the memory map in the device tree.
    \<open>Crc32\<close>, \<open>Reloc\<close>, \<open>Metamatch\<close>, \<open>Mbr\<close>: the checksum as a division by the polynomial, the relocated
    words, the matcher against the strings a pattern stands for, partitions that share no block.
    \<open>Rtlib_Spec\<close>: strings as lists. \<open>Efi_Services_Spec\<close>: what is acquired and given back, read off the
    calls (the locale \<open>ledger\<close>, interpreted by the pool and, in \<open>Simple_Read\<close>, by the open files), and the
    loop of queries with a growing buffer (the locale \<open>sized_query\<close>, interpreted by the memory map, the
    variables, the handles and the file information). \<open>Dpath_Spec\<close>: device paths as lists of instances.
    \<open>Protocols\<close>: all interfaces or none. \<open>Shell_Args\<close>, \<open>Smbios\<close>: the arguments and structures as lists.
    \<open>Print_Spec\<close>: two prints of one format that start in related states stay related (the locale
    \<open>lockstep\<close>); so the size of the buffer does not matter to an output that takes strings one by one (the
    locale \<open>appending\<close>, interpreted by the printer of texts), a print into memory is the start of the whole
    text (\<open>lockstep\<close> interpreted by \<open>SPrint_i\<close> beside that printer), and a number is read back from its text.
    \<open>Console_Spec\<close>: the line editor of the console against an editor on lists.
    The properties, each with an instance at concrete inputs, are in the theories named \<open>_Properties\<close>;
    \<open>Demo_Tree\<close> and \<open>Demo_Firmware\<close> hold the inputs.

  Bounds. No fuel is used: a loop that always ends has its measure (\<open>walk_left\<close>, the bytes left of an
  \<open>int\<close> offset, for walks of a tree), one that may not end is a \<open>partial_function (option)\<close> and its
  result \<open>None\<close> then. Addresses are integers; \<open>strlen\<close> and the loops over strings stop at \<open>ADDR_LIMIT\<close>,
  the end of a 64-bit address space. The formats of \<open>vsprintf.c\<close> that need \<open>va_list\<close> machinery read their
  arguments from a list of 64-bit slots.

  Findings. \<open>convert_cmdline_keeps_one_char\<close>: the command line that reaches the kernel is its first
  character, as \<open>%ls\<close> is not implemented. \<open>load_elf_ignores_failure\<close>: the status of \<open>load_program\<close> is
  dropped. \<open>parse_phdrs_accepts_wrap\<close>: the bounds test of the program headers wraps.
  \<open>append_device_path\<close>: joining device paths overruns its buffer for a path of several instances and a
  longer second path. \<open>get_mem_rsv_reads_outside\<close>, \<open>load_segments_accepts_wrap\<close>, \<open>segment_end_wraps\<close>,
  \<open>mbr_accepts_wrap\<close>: sums and differences that wrap, and with them the bounds they are for.
  \<open>timeout_is_not_counted\<close>: a wait whose time never runs out. \<open>duplicate_instance\<close>: only one node of an instance is copied. \<open>read_wraps\<close>: a read
  whose end wraps is not cut to the file. \<open>mbr_accepts_enclosing\<close>, \<open>boot_order_leak\<close>, \<open>ui_search_first\<close>,
  \<open>short_structure_stops\<close>, \<open>reinstall_calls\<close>, \<open>percent_at_end\<close>, \<open>unsigned_is_negative\<close>, \<open>colour_eats_character\<close>,
  \<open>unknown_status\<close>: further ones of the library. The rest are in the manifest.

  Not modelled. Of gnu-efi: \<open>FloatToString\<close>, \<open>DumpHex\<close>, \<open>DevicePathToStr\<close> with its printers, one \<open>CatPrint\<close>
  for each type of node; \<open>InitializeLib\<close>, the access to ports and the start of virtual mode, which are
  calls of the firmware and no more; the four functions of \<open>str.c\<close>
  that call the collation protocol; start-up code and arithmetic for other architectures. Structures of
  protocols that are declared in \<open>src/inc\<close> and never used. The messages of the stub to the console. The jump itself: the
  model stops with the entry address, the hart and the device tree (\<open>Stub.outcome\<close>).
\<close>

end
